(* ===== verification/CT_Prelude.thy ===== *)
theory CT_Prelude
  imports Main "HOL-Library.Word"
begin

text \<open>
  What every component shares: the machine types of the sanitizer runtime, faults as values,
  the sequencing of operations that may fault, and lemmas about words that the component
  theories use through the collections declared here.

  A fault is a way a call of the runtime can end the process (or, for
  \<open>Out_of_fuel\<close>, not come back within the number of iterations a caller grants it):
  \<^item> \<open>Check_failed\<close>: a failed \<open>CHECK\<close> or \<open>RAW_CHECK\<close>;
  \<^item> \<open>Exit c\<close>: \<open>internal__exit(c)\<close>;
  \<^item> \<open>Died\<close>: \<open>Die()\<close> or one of the noreturn report functions that end in it;
  \<^item> \<open>Null_deref\<close>: a field of a null pointer is read or written;
  \<^item> \<open>Out_of_bounds\<close>: an array is written outside its declared bounds;
  \<^item> \<open>Out_of_fuel\<close>: a loop needed more iterations than the fuel given.
\<close>

unbundle bit_operations_syntax

type_synonym u8 = "8 word"
type_synonym u16 = "16 word"
type_synonym u32 = "32 word"
type_synonym u64 = "64 word"
type_synonym uptr = "64 word"

datatype fault =
  Check_failed
| Exit int
| Died
| Null_deref
| Out_of_bounds
| Out_of_fuel

type_synonym 'a res = "fault + 'a"

named_theorems res_simps "rewriting of operations that may fault"

definition andThen :: "'a res \<Rightarrow> ('a \<Rightarrow> 'b res) \<Rightarrow> 'b res" where
  "andThen r f = (case r of Inl e \<Rightarrow> Inl e | Inr x \<Rightarrow> f x)"

definition check :: "bool \<Rightarrow> unit res" where
  "check b = (if b then Inr () else Inl Check_failed)"

lemma andThen_simps [simp, res_simps]:
  "andThen (Inl e) f = Inl e"
  "andThen (Inr x) f = f x"
  by (simp_all add: andThen_def)

lemma andThen_eq_Inr [res_simps]:
  "andThen r f = Inr y \<longleftrightarrow> (\<exists>x. r = Inr x \<and> f x = Inr y)"
  by (cases r) auto

lemma andThen_cong [fundef_cong]:
  "r = r' \<Longrightarrow> (\<And>x. r' = Inr x \<Longrightarrow> f x = f' x) \<Longrightarrow> andThen r f = andThen r' f'"
  by (cases r') auto

lemma andThen_assoc: "andThen (andThen r f) g = andThen r (\<lambda>x. andThen (f x) g)"
  by (cases r) auto

lemma check_simps [simp, res_simps]:
  "check True = Inr ()"
  "check False = Inl Check_failed"
  by (simp_all add: check_def)

lemma check_eq_Inr [simp, res_simps]: "check b = Inr u \<longleftrightarrow> b"
  by (simp add: check_def)

lemma andThen_check: "andThen (check b) f = (if b then f () else Inl Check_failed)"
  by simp


section \<open>Words and powers of two\<close>

named_theorems word_arith "reading machine arithmetic as arithmetic on natural numbers"

lemma unat_add_small [word_arith]:
  "unat a + unat b < 2 ^ LENGTH('n) \<Longrightarrow> unat (a + b :: 'n::len word) = unat a + unat b"
  by (simp add: unat_word_ariths)

lemma unat_mult_small [word_arith]:
  "unat a * unat b < 2 ^ LENGTH('n) \<Longrightarrow> unat (a * b :: 'n::len word) = unat a * unat b"
  by (simp add: unat_word_ariths)

lemma unat_diff_small [word_arith]:
  "b \<le> a \<Longrightarrow> unat (a - b :: 'n::len word) = unat a - unat b"
  by (rule unat_sub)

lemma unat_less_64 [simp]: "unat (x :: 64 word) < 18446744073709551616"
  using unsigned_less [of x] by simp

lemma unat_less_32 [simp]: "unat (x :: 32 word) < 4294967296"
  using unsigned_less [of x] by simp

lemma unat_less_8 [simp]: "unat (x :: 8 word) < 256"
  using unsigned_less [of x] by simp

lemma unat_ucast_32 [simp]: "unat (ucast (x :: 32 word) :: 64 word) = unat x"
  using less_trans [OF unat_less_32 [of x], of "2 ^ 64"]
  by (simp only: unsigned_ucast_eq) (simp add: take_bit_nat_eq_self)

lemma unat_ucast_8 [simp]: "unat (ucast (x :: 8 word) :: 64 word) = unat x"
  using less_trans [OF unat_less_8 [of x], of "2 ^ 64"]
  by (simp only: unsigned_ucast_eq) (simp add: take_bit_nat_eq_self)

lemma unat_of_nat_small [word_arith]:
  "n < 2 ^ LENGTH('n) \<Longrightarrow> unat (of_nat n :: 'n::len word) = n"
  by (simp add: unat_of_nat)

lemma unat_pow2 [word_arith]:
  "k < LENGTH('n) \<Longrightarrow> unat (2 ^ k :: 'n::len word) = 2 ^ k"
proof -
  assume "k < LENGTH('n)"
  then have "unat (of_nat (2 ^ k) :: 'n word) = 2 ^ k"
    by (simp only: unat_of_nat) (simp add: take_bit_nat_eq_self)
  then show ?thesis by simp
qed

lemma unat_drop_bit [word_arith]:
  "unat (drop_bit k x :: 'n::len word) = unat x div 2 ^ k"
  by (simp only: unat_drop_bit_eq) (simp only: drop_bit_eq_div)

text \<open>The low and the high part of a word at a bit position, as the code masks them out.\<close>

lemma and_mask_low:
  "x AND (2 ^ k - 1 :: 'n::len word) = take_bit k x"
  by (simp add: take_bit_eq_mask mask_eq_decr_exp [symmetric])

lemma unat_and_low [word_arith]:
  "unat (x AND (2 ^ k - 1 :: 'n::len word)) = unat x mod 2 ^ k"
  by (simp only: and_mask_low unsigned_take_bit_eq) (simp only: take_bit_eq_mod)

lemma and_not_mask_high:
  "x AND NOT (2 ^ k - 1 :: 'n::len word) = x - take_bit k x"
proof -
  have "x = (x AND NOT (mask k)) + (x AND mask k)"
    by (subst disjunctive_add) (auto simp: bit_simps intro: bit_word_eqI)
  then have "x AND NOT (mask k) = x - take_bit k x"
    by (simp add: take_bit_eq_mask algebra_simps)
  then show ?thesis by (simp add: mask_eq_decr_exp)
qed

lemma unat_and_high [word_arith]:
  "unat (x AND NOT (2 ^ k - 1 :: 'n::len word)) = unat x div 2 ^ k * 2 ^ k"
proof -
  have low: "unat (take_bit k x) = unat x mod 2 ^ k"
    by (simp only: unsigned_take_bit_eq) (simp only: take_bit_eq_mod)
  have le: "take_bit k x \<le> x"
    by (simp only: word_le_nat_alt low) simp
  have "unat (x - take_bit k x) = unat x - unat x mod 2 ^ k"
    by (simp only: unat_sub [OF le] low)
  then show ?thesis
    by (simp add: and_not_mask_high minus_mod_eq_div_mult)
qed

end
