(* ===== verification/San_Math.thy ===== *)
theory San_Math
  imports CT_Prelude
begin

text \<open>
  The arithmetic helpers of \<open>sanitizer_common.h\<close>: powers of two, rounding to a
  boundary, alignment, bit indices. \<open>RoundUpTo\<close> and \<open>IsAligned\<close> check that their
  boundary is a power of two, so they are operations that may fault; their arithmetic is
  \<open>round_up\<close> and \<open>aligned\<close>, which agree with rounding and divisibility on natural
  numbers (\<open>unat_round_up\<close>, \<open>unat_round_down\<close>, \<open>aligned_iff_dvd\<close>).
\<close>

section \<open>Operations\<close>

definition IsPowerOfTwo :: "uptr \<Rightarrow> bool" where
  "IsPowerOfTwo x = (x AND (x - 1) = 0)"

text \<open>\<open>63 - __builtin_clzl(x)\<close> for a nonzero word: the index of its highest set bit.\<close>

fun msb_below :: "nat \<Rightarrow> uptr \<Rightarrow> nat" where
  "msb_below 0 x = 0"
| "msb_below (Suc n) x = (if bit x n then n else msb_below n x)"

text \<open>\<open>__builtin_ctzl(x)\<close> for a nonzero word: the index of its lowest set bit.\<close>

fun lsb_from :: "nat \<Rightarrow> nat \<Rightarrow> uptr \<Rightarrow> nat" where
  "lsb_from 0 i x = i"
| "lsb_from (Suc n) i x = (if bit x i then i else lsb_from n (Suc i) x)"

definition MostSignificantSetBitIndex :: "uptr \<Rightarrow> uptr res" where
  "MostSignificantSetBitIndex x =
     andThen (check (x \<noteq> 0)) (\<lambda>_. Inr (of_nat (msb_below 64 x)))"

definition LeastSignificantSetBitIndex :: "uptr \<Rightarrow> uptr res" where
  "LeastSignificantSetBitIndex x =
     andThen (check (x \<noteq> 0)) (\<lambda>_. Inr (of_nat (lsb_from 64 0 x)))"

definition RoundUpToPowerOfTwo :: "uptr \<Rightarrow> uptr res" where
  "RoundUpToPowerOfTwo sz =
     andThen (check (sz \<noteq> 0)) (\<lambda>_.
     if IsPowerOfTwo sz then Inr sz
     else andThen (MostSignificantSetBitIndex sz) (\<lambda>up.
       andThen (check (sz < push_bit (unat up + 1) 1)) (\<lambda>_.
       andThen (check (sz > push_bit (unat up) 1)) (\<lambda>_.
       Inr (push_bit (unat up + 1) 1)))))"

definition round_up :: "uptr \<Rightarrow> uptr \<Rightarrow> uptr" where
  "round_up sz boundary = (sz + boundary - 1) AND NOT (boundary - 1)"

definition RoundUpTo :: "uptr \<Rightarrow> uptr \<Rightarrow> uptr res" where
  "RoundUpTo sz boundary =
     andThen (check (IsPowerOfTwo boundary)) (\<lambda>_. Inr (round_up sz boundary))"

definition RoundDownTo :: "uptr \<Rightarrow> uptr \<Rightarrow> uptr" where
  "RoundDownTo x boundary = x AND NOT (boundary - 1)"

definition aligned :: "uptr \<Rightarrow> uptr \<Rightarrow> bool" where
  "aligned a alignment = (a AND (alignment - 1) = 0)"

definition IsAligned :: "uptr \<Rightarrow> uptr \<Rightarrow> bool res" where
  "IsAligned a alignment =
     andThen (check (IsPowerOfTwo alignment)) (\<lambda>_. Inr (aligned a alignment))"

definition San_Log2 :: "uptr \<Rightarrow> uptr res" where
  "San_Log2 x = andThen (check (IsPowerOfTwo x)) (\<lambda>_. LeastSignificantSetBitIndex x)"

definition San_Min :: "'a::linorder \<Rightarrow> 'a \<Rightarrow> 'a" where
  "San_Min a b = (if a < b then a else b)"

definition San_Max :: "'a::linorder \<Rightarrow> 'a \<Rightarrow> 'a" where
  "San_Max a b = (if a > b then a else b)"

text \<open>\<open>RoundUpDivide\<close> of \<open>my_tools.h\<close>.\<close>

definition RoundUpDivide :: "uptr \<Rightarrow> uptr \<Rightarrow> uptr" where
  "RoundUpDivide a b = (a + b - 1) div b"


section \<open>Bit indices\<close>

lemma msb_below_less: "0 < n \<Longrightarrow> msb_below n x < n"
proof (induction n)
  case 0
  then show ?case by simp
next
  case (Suc n)
  then show ?case by (cases n) (auto intro: less_SucI)
qed

lemma msb_below_bit: "bit x i \<Longrightarrow> i < n \<Longrightarrow> bit x (msb_below n x) \<and> i \<le> msb_below n x"
  by (induction n) (auto simp: less_Suc_eq)

lemma bit_below_64: "(x :: 64 word) \<noteq> 0 \<Longrightarrow> \<exists>i<64. bit x i"
proof (rule ccontr)
  assume nz: "x \<noteq> 0" and "\<not> (\<exists>i<64. bit x i)"
  then have "\<And>i. \<not> bit x i" using bit_imp_le_length [of x] by fastforce
  then have "x = 0" by (auto intro: bit_word_eqI)
  with nz show False by simp
qed

lemma bit_unat_iff: "bit (x :: 'n::len word) i \<longleftrightarrow> odd (unat x div 2 ^ i)"
proof -
  have "bit (unat x) i \<longleftrightarrow> bit x i"
    by (simp add: bit_unsigned_iff)
  then show ?thesis by (simp add: bit_iff_odd)
qed

lemma msb_bounds:
  assumes "(x :: 64 word) \<noteq> 0"
  shows "2 ^ msb_below 64 x \<le> unat x" and "unat x < 2 ^ (msb_below 64 x + 1)"
proof -
  let ?m = "msb_below 64 x"
  obtain i where i: "i < 64" "bit x i" using bit_below_64 [OF assms] by blast
  have b: "bit x ?m" using msb_below_bit [OF i(2) i(1)] by simp
  then have "unat x div 2 ^ ?m \<noteq> 0" unfolding bit_unat_iff by (metis even_zero)
  then show "2 ^ ?m \<le> unat x"
    by (metis div_less linorder_not_less)
  have "\<not> bit x j" if "j > ?m" for j
  proof
    assume "bit x j"
    moreover from this have "j < 64" using bit_imp_le_length [of x j] by simp
    ultimately have "j \<le> ?m" using msb_below_bit by blast
    with that show False by simp
  qed
  then have "take_bit (?m + 1) x = x"
    by (intro bit_word_eqI) (auto simp: bit_take_bit_iff less_Suc_eq intro: ccontr linorder_cases [of _ ?m])
  then have "unat x = take_bit (?m + 1) (unat x)"
    by (metis unsigned_take_bit_eq)
  then show "unat x < 2 ^ (?m + 1)"
    by (metis take_bit_nat_less_exp)
qed

lemma lsb_from_first:
  "bit x j \<Longrightarrow> i \<le> j \<Longrightarrow> j < i + n \<Longrightarrow>
   bit x (lsb_from n i x) \<and> lsb_from n i x \<le> j \<and> (\<forall>l. i \<le> l \<and> l < lsb_from n i x \<longrightarrow> \<not> bit x l)"
proof (induction n arbitrary: i)
  case 0
  then show ?case by simp
next
  case (Suc n)
  show ?case
  proof (cases "bit x i")
    case True
    then show ?thesis using Suc.prems by auto
  next
    case False
    then have "i \<noteq> j" using Suc.prems(1) by auto
    with Suc.prems have "Suc i \<le> j" "j < Suc i + n" by auto
    note IH = Suc.IH [OF Suc.prems(1) this]
    have "\<not> bit x l" if "i \<le> l" "l < lsb_from n (Suc i) x" for l
      using IH that False by (cases "l = i") auto
    with IH False show ?thesis by auto
  qed
qed


section \<open>Powers of two, rounding and alignment\<close>

lemma IsPowerOfTwo_exp: "k < 64 \<Longrightarrow> IsPowerOfTwo (2 ^ k)"
proof -
  assume k: "k < 64"
  have "unat (2 ^ k AND (2 ^ k - 1) :: uptr) = 2 ^ k mod 2 ^ k"
    using k by (simp only: unat_and_low) (simp add: unat_pow2)
  then show ?thesis by (simp add: IsPowerOfTwo_def unsigned_eq_0_iff)
qed

lemma IsPowerOfTwo_cases: "IsPowerOfTwo x \<longleftrightarrow> x = 0 \<or> (\<exists>k<64. x = 2 ^ k)"
proof
  assume p: "IsPowerOfTwo x"
  show "x = 0 \<or> (\<exists>k<64. x = 2 ^ k)"
  proof (rule disjCI)
    assume "\<not> (\<exists>k<64. x = 2 ^ k)"
    then have ne: "x \<noteq> 2 ^ msb_below 64 x"
      using msb_below_less [of 64 x] by auto
    let ?m = "msb_below 64 x"
    show "x = 0"
    proof (rule ccontr)
      assume nz: "x \<noteq> 0"
      note b = msb_bounds [OF nz]
      have m: "?m < 64" by (rule msb_below_less) simp
      have "unat (2 ^ ?m :: uptr) = 2 ^ ?m" using m by (simp add: unat_pow2)
      then have "unat x \<noteq> 2 ^ ?m"
        using ne by (metis word_unat_eq_iff)
      with b have gt: "2 ^ ?m \<le> unat x - 1" "unat x - 1 < 2 ^ (?m + 1)" by auto
      have ux: "unat (x - 1) = unat x - 1"
        using nz by (simp add: unat_minus_one)
      have "unat x div 2 ^ ?m = 1" "(unat x - 1) div 2 ^ ?m = 1"
        using b gt by (simp_all add: div_nat_eqI)
      then have "bit x ?m" "bit (x - 1) ?m" by (simp_all add: bit_unat_iff ux)
      then have "bit (x AND (x - 1)) ?m" by (simp add: bit_and_iff)
      with p show False by (simp add: IsPowerOfTwo_def)
    qed
  qed
next
  assume "x = 0 \<or> (\<exists>k<64. x = 2 ^ k)"
  then show "IsPowerOfTwo x" using IsPowerOfTwo_exp by (auto simp: IsPowerOfTwo_def)
qed

lemma RoundUpTo_exp [simp, res_simps]: "k < 64 \<Longrightarrow> RoundUpTo s (2 ^ k) = Inr (round_up s (2 ^ k))"
  by (simp add: RoundUpTo_def IsPowerOfTwo_exp)

lemma IsAligned_exp [simp, res_simps]: "k < 64 \<Longrightarrow> IsAligned a (2 ^ k) = Inr (aligned a (2 ^ k))"
  by (simp add: IsAligned_def IsPowerOfTwo_exp)

lemma unat_round_down [word_arith]:
  "unat (RoundDownTo x (2 ^ k)) = unat x div 2 ^ k * 2 ^ k"
  by (simp add: RoundDownTo_def unat_and_high)

lemma unat_round_up [word_arith]:
  assumes "k < 64" and "unat s + (2 ^ k - 1) < 2 ^ 64"
  shows "unat (round_up s (2 ^ k)) = (unat s + (2 ^ k - 1)) div 2 ^ k * 2 ^ k"
proof -
  have one: "unat (2 ^ k - 1 :: uptr) = 2 ^ k - 1"
    using assms(1) by (subst unat_sub) (simp_all add: word_le_nat_alt unat_pow2)
  have "s + 2 ^ k - 1 = s + (2 ^ k - 1)" by simp
  moreover have "unat (s + (2 ^ k - 1)) = unat s + (2 ^ k - 1)"
    using assms(2) by (subst unat_add_small) (simp_all add: one)
  ultimately show ?thesis by (simp only: round_up_def unat_and_high)
qed

lemma aligned_iff_dvd: "aligned a (2 ^ k) \<longleftrightarrow> 2 ^ k dvd unat a"
proof -
  have "aligned a (2 ^ k) \<longleftrightarrow> unat (a AND (2 ^ k - 1)) = 0"
    by (simp add: aligned_def unsigned_eq_0_iff)
  then show ?thesis by (simp only: unat_and_low dvd_eq_mod_eq_0)
qed

lemma RoundUpDivide_nat:
  assumes "b \<noteq> 0" and "unat a + unat b \<le> 2 ^ 64"
  shows "unat (RoundUpDivide a b) = (unat a + unat b - 1) div unat b"
proof -
  have "1 \<le> unat b" using assms(1) by (simp add: Suc_le_eq unat_gt_0)
  have "unat (a + b - 1) = unat (a + (b - 1))" by (simp only: add_diff_eq)
  moreover have "unat (b - 1) = unat b - 1"
    using \<open>1 \<le> unat b\<close> by (subst unat_sub) (simp_all add: word_le_nat_alt)
  moreover have "unat (a + (b - 1)) = unat a + unat (b - 1)"
    using assms(2) \<open>1 \<le> unat b\<close> calculation(2) by (subst unat_add_small) simp_all
  ultimately have "unat (a + b - 1) = unat a + unat b - 1"
    using \<open>1 \<le> unat b\<close> by simp
  then show ?thesis by (simp only: RoundUpDivide_def unat_div)
qed

end
