(* ===== verification/Tag_Pointers.thy ===== *)
theory Tag_Pointers
  imports San_Math
begin

text \<open>
  Tagged pointers and the shadow mapping. The tag of a pointer is its top byte
  (\<open>hwasan.h\<close>); the shadow of an address is one byte per granule of
  \<open>2 ^ kShadowScale\<close> bytes (\<open>hwasan_mapping.h\<close>). ClusterTag keeps its own copies of the
  two constants in global variables that \<open>__hwasan_init\<close> sets (\<open>my_tools.h\<close>): they are the
  fields of \<open>ct_globals\<close>, and \<open>globals_ok\<close> says that they hold what the start-up code stores
  in them. The last four fields are not variables of \<open>my_tools.h\<close>: \<open>mmap_limit_mb\<close> is the
  common flag of that name, \<open>os_iserror\<close> and \<open>os_enomem\<close> stand for \<open>internal_iserror\<close> and its
  comparison with \<open>ENOMEM\<close> (code outside the repository, a parameter here), and
  \<open>loop_fuel\<close> is the number of iterations granted to each loop whose length the code does not
  bound. The lemmas are the algebra of adding, reading and removing a tag, and the agreement
  of the two copies.
\<close>

section \<open>The globals of ClusterTag\<close>

record ct_globals =
  ct_shadow_memory_dynamic_address :: uptr
  ct_shadow_memory_dynamic_end :: uptr
  ct_AddressTagMask :: uptr
  ct_AddressTagShift :: uptr
  ct_ShadowScale :: uptr
  page_size :: uptr
  free_list_interval_ns :: u64
  ct_pool_density :: "32 word"
  ct_randomize_region :: bool
  superPoolBase_g :: uptr
  superPoolEnd_g :: uptr
  mmap_limit_mb :: uptr
  os_iserror :: "uptr \<Rightarrow> bool"
  os_enomem :: "uptr \<Rightarrow> bool"
  loop_fuel :: nat

section \<open>Tags in pointers: \<open>hwasan.h\<close>\<close>

definition kAddressTagShift :: nat where "kAddressTagShift = 56"

definition kTagBits :: nat where "kTagBits = 8"

definition kTagMask :: uptr where "kTagMask = push_bit kTagBits 1 - 1"

definition kAddressTagMask :: uptr where "kAddressTagMask = push_bit kAddressTagShift kTagMask"

definition GetTagFromPointer :: "uptr \<Rightarrow> u8" where
  "GetTagFromPointer p = ucast (drop_bit kAddressTagShift p AND kTagMask)"

definition UntagAddr :: "uptr \<Rightarrow> uptr" where
  "UntagAddr tagged_addr = tagged_addr AND NOT kAddressTagMask"

definition UntagPtr :: "uptr \<Rightarrow> uptr" where
  "UntagPtr tagged_ptr = UntagAddr tagged_ptr"

definition AddTagToPointer :: "uptr \<Rightarrow> u8 \<Rightarrow> uptr" where
  "AddTagToPointer p tag = (p AND NOT kAddressTagMask) OR push_bit kAddressTagShift (ucast tag)"

section \<open>Tags in pointers: \<open>my_tools.h\<close>\<close>

definition CTAddTagToPointer :: "ct_globals \<Rightarrow> uptr \<Rightarrow> u8 \<Rightarrow> uptr" where
  "CTAddTagToPointer G ptr tag =
     (ptr AND NOT (ct_AddressTagMask G)) OR push_bit (unat (ct_AddressTagShift G)) (ucast tag)"

definition CTGetTagFromPointer :: "ct_globals \<Rightarrow> uptr \<Rightarrow> u8" where
  "CTGetTagFromPointer G taggedPtr =
     ucast (drop_bit (unat (ct_AddressTagShift G)) (taggedPtr AND ct_AddressTagMask G))"

definition CTUntagPointer :: "ct_globals \<Rightarrow> uptr \<Rightarrow> uptr" where
  "CTUntagPointer G taggedPtr = taggedPtr AND NOT (ct_AddressTagMask G)"

definition CTUntaggedPointerToShadow :: "ct_globals \<Rightarrow> uptr \<Rightarrow> uptr" where
  "CTUntaggedPointerToShadow G untaggedPtr =
     drop_bit (unat (ct_ShadowScale G)) untaggedPtr + ct_shadow_memory_dynamic_address G"

definition CTTaggedPointerToShadow :: "ct_globals \<Rightarrow> uptr \<Rightarrow> uptr" where
  "CTTaggedPointerToShadow G taggedPtr =
     (let untaggedPtr = CTUntagPointer G taggedPtr
      in drop_bit (unat (ct_ShadowScale G)) untaggedPtr + ct_shadow_memory_dynamic_address G)"

definition CTChunkToShadowLength :: "ct_globals \<Rightarrow> u64 \<Rightarrow> u64" where
  "CTChunkToShadowLength G chunkLength = drop_bit (unat (ct_ShadowScale G)) chunkLength"

section \<open>The shadow mapping: \<open>hwasan_mapping.h\<close>\<close>

definition kShadowScale :: nat where "kShadowScale = 4"

definition kShadowAlignment :: uptr where "kShadowAlignment = push_bit kShadowScale 1"

definition GetShadowOffset :: "ct_globals \<Rightarrow> uptr" where
  "GetShadowOffset G = ct_shadow_memory_dynamic_address G"

definition MemToShadow :: "ct_globals \<Rightarrow> uptr \<Rightarrow> uptr" where
  "MemToShadow G untagged_addr = drop_bit kShadowScale untagged_addr + GetShadowOffset G"

definition ShadowToMem :: "ct_globals \<Rightarrow> uptr \<Rightarrow> uptr" where
  "ShadowToMem G shadow_addr = push_bit kShadowScale (shadow_addr - GetShadowOffset G)"

definition MemToShadowSize :: "uptr \<Rightarrow> uptr" where
  "MemToShadowSize sz = drop_bit kShadowScale sz"

definition globals_ok :: "ct_globals \<Rightarrow> bool" where
  "globals_ok G \<longleftrightarrow> ct_AddressTagMask G = kAddressTagMask \<and>
     ct_AddressTagShift G = of_nat kAddressTagShift \<and> ct_ShadowScale G = of_nat kShadowScale"

section \<open>Lemmas\<close>

lemmas tag_defs = kAddressTagShift_def kTagBits_def kTagMask_def kAddressTagMask_def
  kShadowScale_def

lemma kTagMask_mask: "kTagMask = mask 8"
  by (simp add: tag_defs mask_eq_decr_exp)

lemma bit_kAddressTagMask: "bit kAddressTagMask n \<longleftrightarrow> 56 \<le> n \<and> n < 64"
  by (auto simp: kAddressTagMask_def kTagMask_mask kAddressTagShift_def bit_simps)

lemma bit_UntagAddr: "bit (UntagAddr p) n \<longleftrightarrow> bit p n \<and> n < 56"
  using bit_imp_le_length [of p n] by (auto simp: UntagAddr_def bit_simps bit_kAddressTagMask)

lemma bit_GetTagFromPointer: "bit (GetTagFromPointer p) n \<longleftrightarrow> n < 8 \<and> bit p (n + 56)"
  by (auto simp: GetTagFromPointer_def kTagMask_mask kAddressTagShift_def bit_simps add.commute)

lemma bit_AddTagToPointer:
  "bit (AddTagToPointer p t) n \<longleftrightarrow> (if n < 56 then bit p n else n < 64 \<and> bit t (n - 56))"
  using bit_imp_le_length [of p n]
  by (auto simp: AddTagToPointer_def kAddressTagShift_def bit_simps bit_kAddressTagMask)

lemmas bit_tag_simps = bit_UntagAddr bit_GetTagFromPointer bit_AddTagToPointer

lemma GetTag_AddTag [simp]: "GetTagFromPointer (AddTagToPointer p t) = t"
  by (rule bit_word_eqI) (simp add: bit_tag_simps)

lemma Untag_AddTag [simp]: "UntagAddr (AddTagToPointer p t) = UntagAddr p"
  by (rule bit_word_eqI) (simp add: bit_tag_simps)

lemma AddTag_AddTag [simp]: "AddTagToPointer (AddTagToPointer p t) u = AddTagToPointer p u"
  by (rule bit_word_eqI) (simp add: bit_tag_simps)

lemma AddTag_Untag [simp]: "AddTagToPointer (UntagAddr p) t = AddTagToPointer p t"
  by (rule bit_word_eqI) (simp add: bit_tag_simps)

lemma Untag_Untag [simp]: "UntagAddr (UntagAddr p) = UntagAddr p"
  by (rule bit_word_eqI) (auto simp add: bit_tag_simps)

lemma AddTag_GetTag [simp]: "AddTagToPointer p (GetTagFromPointer p) = p"
  by (rule bit_word_eqI) (auto simp add: bit_tag_simps)

lemma GetTag_Untag [simp]: "GetTagFromPointer (UntagAddr p) = 0"
  by (rule bit_word_eqI) (simp add: bit_tag_simps)

lemma UntagAddr_small: "unat p < 2 ^ 56 \<Longrightarrow> UntagAddr p = p"
proof (rule bit_word_eqI)
  fix n assume "unat p < 2 ^ 56"
  then have "take_bit 56 p = p"
    by (simp add: word_unat_eq_iff take_bit_nat_eq_self unsigned_take_bit_eq)
  then have "bit p n \<longleftrightarrow> n < 56 \<and> bit p n" using bit_take_bit_iff [of 56 p n] by simp
  then show "bit (UntagAddr p) n = bit p n" by (auto simp: bit_tag_simps)
qed

lemma unat_UntagAddr: "unat (UntagAddr p) = unat p mod 2 ^ 56"
proof -
  have "UntagAddr p = take_bit 56 p"
    by (rule bit_word_eqI) (auto simp: bit_tag_simps bit_simps)
  then have "unat (UntagAddr p) = take_bit 56 (unat p)"
    by (simp only: unsigned_take_bit_eq)
  then show ?thesis by (simp only: take_bit_eq_mod)
qed

text \<open>A pointer is its address and its tag.\<close>

lemma tagged_eqI:
  "UntagAddr p = UntagAddr q \<Longrightarrow> GetTagFromPointer p = GetTagFromPointer q \<Longrightarrow> p = q"
  by (metis AddTag_GetTag AddTag_Untag)

lemma UntagAddr_eq_self_iff: "UntagAddr p = p \<longleftrightarrow> GetTagFromPointer p = 0"
  by (metis AddTag_GetTag AddTag_Untag GetTag_Untag)

text \<open>The globals hold copies of the constants.\<close>

lemma CTAddTag_eq: "globals_ok G \<Longrightarrow> CTAddTagToPointer G = AddTagToPointer"
  by (intro ext) (simp add: globals_ok_def CTAddTagToPointer_def AddTagToPointer_def tag_defs)

lemma CTUntag_eq: "globals_ok G \<Longrightarrow> CTUntagPointer G = UntagAddr"
  by (intro ext) (simp add: globals_ok_def CTUntagPointer_def UntagAddr_def)

lemma CTGetTag_eq: "globals_ok G \<Longrightarrow> CTGetTagFromPointer G = GetTagFromPointer"
proof (intro ext bit_word_eqI)
  fix p n assume G: "globals_ok G"
  then have "unat (ct_AddressTagShift G) = 56" "ct_AddressTagMask G = kAddressTagMask"
    by (simp_all add: globals_ok_def kAddressTagShift_def)
  then show "bit (CTGetTagFromPointer G p) n = bit (GetTagFromPointer p) n"
    by (auto simp: CTGetTagFromPointer_def bit_GetTagFromPointer bit_simps bit_kAddressTagMask
        add.commute)
qed

lemma CTShadow_eq: "globals_ok G \<Longrightarrow> CTUntaggedPointerToShadow G = MemToShadow G"
  by (intro ext) (simp add: globals_ok_def CTUntaggedPointerToShadow_def MemToShadow_def
      GetShadowOffset_def kShadowScale_def)

lemmas CT_tag_eqs = CTAddTag_eq CTUntag_eq CTGetTag_eq CTShadow_eq

text \<open>The shadow byte of an address belongs to the granule of the address.\<close>

lemma ShadowToMem_MemToShadow:
  "ShadowToMem G (MemToShadow G p) = p AND NOT (kShadowAlignment - 1)"
proof (rule bit_word_eqI)
  fix n
  have "kShadowAlignment - 1 = mask 4"
    by (simp add: kShadowAlignment_def kShadowScale_def mask_eq_decr_exp)
  then show "bit (ShadowToMem G (MemToShadow G p)) n = bit (p AND NOT (kShadowAlignment - 1)) n"
    using bit_imp_le_length [of p n]
    by (auto simp: ShadowToMem_def MemToShadow_def kShadowScale_def bit_simps)
qed

lemma MemToShadow_inj:
  assumes "kShadowScale = k" "drop_bit k p \<noteq> drop_bit k q"
  shows "MemToShadow G p \<noteq> MemToShadow G q"
  using assms by (simp add: MemToShadow_def)

lemma MemToShadow_mono_add:
  "unat (MemToShadow G p - GetShadowOffset G) = unat p div 16"
  by (simp add: MemToShadow_def kShadowScale_def unat_drop_bit)

end
