(* ===== verification/Region_Lists.thy ===== *)
theory Region_Lists
  imports CT_Prelude
begin

text \<open>
  \<open>CTRegionInfo\<close> of \<open>my_tools.h\<close>, the header at the start of every region, and the two lists
  that run through the headers: the address ordered doubly linked list of all regions in use
  (\<open>prev\<close>/\<open>next\<close>, here \<open>ri_prev\<close>/\<open>ri_next\<close>) and the singly linked list of the regions with
  free chunks (\<open>freed_next\<close>). The headers live in a store from addresses to records; the null
  pointer is 0; memory that was never written reads as \<open>zero_region\<close>, as fresh pages do. A
  \<open>CTRegionList\<close> is its \<open>head\<close>. Loops over a list carry fuel, and the lemmas show that one
  more than the length of the list is enough.

  \<open>chain\<close> and \<open>dll\<close> say which abstract list a head represents; the lemmas show that the
  pointer operations refine insertion and removal on that list and touch nothing else.
\<close>

section \<open>The headers\<close>

record CTRegionInfo =
  chunk_last_tag :: "nat \<Rightarrow> u8"
  parent_pool :: uptr
  ri_prev :: uptr
  ri_next :: uptr
  freed_next :: uptr
  in_free_list :: u8
  freed_num :: u8
  status :: u8

definition zero_region :: CTRegionInfo where
  "zero_region = \<lparr> chunk_last_tag = (\<lambda>_. 0), parent_pool = 0, ri_prev = 0, ri_next = 0,
     freed_next = 0, in_free_list = 0, freed_num = 0, status = 0 \<rparr>"

definition sizeof_CTRegionInfo :: uptr where "sizeof_CTRegionInfo = 296"

record CTRegionList = head :: uptr

type_synonym region_store = "uptr \<Rightarrow> CTRegionInfo"

definition upd :: "uptr \<Rightarrow> (CTRegionInfo \<Rightarrow> CTRegionInfo) \<Rightarrow> region_store \<Rightarrow> region_store" where
  "upd p f R = R(p := f (R p))"

lemma upd_apply: "upd p f R q = (if q = p then f (R p) else R q)"
  by (simp add: upd_def)

section \<open>The list operations\<close>

definition insertAtFreedListHead ::
    "uptr \<Rightarrow> region_store \<Rightarrow> CTRegionList \<Rightarrow> region_store \<times> CTRegionList" where
  "insertAtFreedListHead this R l =
     (upd this (freed_next_update (\<lambda>_. head l)) R, l\<lparr>head := this\<rparr>)"

definition deleteFromList ::
    "uptr \<Rightarrow> region_store \<Rightarrow> CTRegionList \<Rightarrow> region_store \<times> CTRegionList" where
  "deleteFromList this R l =
     (let (R, l) = (if ri_prev (R this) \<noteq> 0
                    then (upd (ri_prev (R this)) (ri_next_update (\<lambda>_. ri_next (R this))) R, l)
                    else (R, l\<lparr>head := ri_next (R this)\<rparr>));
          R = (if ri_next (R this) \<noteq> 0
               then upd (ri_next (R this)) (ri_prev_update (\<lambda>_. ri_prev (R this))) R
               else R)
      in (R, l))"

definition insertAtHead ::
    "uptr \<Rightarrow> region_store \<Rightarrow> CTRegionList \<Rightarrow> region_store \<times> CTRegionList" where
  "insertAtHead this R l =
     (let R = upd this (ri_prev_update (\<lambda>_. 0)) R;
          R = upd this (ri_next_update (\<lambda>_. head l)) R;
          R = (if head l \<noteq> 0 then upd (head l) (ri_prev_update (\<lambda>_. this)) R else R)
      in (R, l\<lparr>head := this\<rparr>))"

text \<open>The loop of \<open>insertInOrder\<close> that looks for the node to insert after.\<close>

fun find_place :: "nat \<Rightarrow> region_store \<Rightarrow> uptr \<Rightarrow> uptr \<Rightarrow> uptr res" where
  "find_place 0 R this current = Inl Out_of_fuel"
| "find_place (Suc n) R this current =
     (if ri_next (R current) \<noteq> 0 \<and> ri_next (R current) < this
      then find_place n R this (ri_next (R current))
      else Inr current)"

definition insertInOrder ::
    "nat \<Rightarrow> uptr \<Rightarrow> region_store \<Rightarrow> CTRegionList \<Rightarrow> (region_store \<times> CTRegionList) res" where
  "insertInOrder fuel this R l =
     (if head l = 0 \<or> this < head l then Inr (insertAtHead this R l)
      else andThen (find_place fuel R this (head l)) (\<lambda>current.
        let R = upd this (ri_next_update (\<lambda>_. ri_next (R current))) R;
            R = upd this (ri_prev_update (\<lambda>_. current)) R;
            R = (if ri_next (R current) \<noteq> 0
                 then upd (ri_next (R current)) (ri_prev_update (\<lambda>_. this)) R else R);
            R = upd current (ri_next_update (\<lambda>_. this)) R
        in Inr (R, l)))"

section \<open>Abstract lists behind the pointers\<close>

text \<open>A chain of pointers: \<open>p\<close> is the head of the list \<open>xs\<close> under the successor \<open>nxt\<close>.\<close>

fun chain :: "(uptr \<Rightarrow> uptr) \<Rightarrow> uptr \<Rightarrow> uptr list \<Rightarrow> bool" where
  "chain nxt p [] \<longleftrightarrow> p = 0"
| "chain nxt p (x # xs) \<longleftrightarrow> p = x \<and> x \<noteq> 0 \<and> chain nxt (nxt x) xs"

lemma chain_cong:
  "(\<And>x. x \<in> set xs \<Longrightarrow> f x = g x) \<Longrightarrow> chain f h xs = chain g h xs"
  by (induction xs arbitrary: h) auto

lemma chain_head: "chain f h xs \<Longrightarrow> h = (case xs of [] \<Rightarrow> 0 | x # _ \<Rightarrow> x)"
  by (cases xs) auto

lemma chain_nonnull: "chain f h xs \<Longrightarrow> 0 \<notin> set xs"
  by (induction xs arbitrary: h) auto

lemma chain_suffix: "chain f h (xs @ ys) \<Longrightarrow> ys \<noteq> [] \<Longrightarrow> chain f (hd ys) ys"
proof (induction xs arbitrary: h)
  case Nil then show ?case by (cases ys) auto
qed auto

lemma chain_next: "chain f h (xs @ x # ys) \<Longrightarrow> f x = (case ys of [] \<Rightarrow> 0 | y # _ \<Rightarrow> y)"
proof (induction xs arbitrary: h)
  case Nil then show ?case by (cases ys) auto
qed auto

text \<open>
  A doubly linked list: \<open>dllseg R b p q xs\<close> is the stretch \<open>xs\<close> from \<open>p\<close> up to \<open>q\<close>,
  with \<open>b\<close> the node before \<open>p\<close>.
\<close>

fun dllseg :: "region_store \<Rightarrow> uptr \<Rightarrow> uptr \<Rightarrow> uptr \<Rightarrow> uptr list \<Rightarrow> bool" where
  "dllseg R b p q [] \<longleftrightarrow> p = q"
| "dllseg R b p q (x # xs) \<longleftrightarrow>
     p = x \<and> x \<noteq> 0 \<and> ri_prev (R x) = b \<and> dllseg R x (ri_next (R x)) q xs"

definition dll :: "region_store \<Rightarrow> CTRegionList \<Rightarrow> uptr list \<Rightarrow> bool" where
  "dll R l xs \<longleftrightarrow> dllseg R 0 (head l) 0 xs"

text \<open>What a list operation may change: nothing but the two link fields.\<close>

definition links_only :: "region_store \<Rightarrow> region_store \<Rightarrow> bool" where
  "links_only R R' \<longleftrightarrow> (\<forall>p. R' p\<lparr>ri_prev := 0, ri_next := 0\<rparr> = R p\<lparr>ri_prev := 0, ri_next := 0\<rparr>)"

locale linked =
  fixes nxt :: "'s \<Rightarrow> uptr \<Rightarrow> uptr" and set_nxt :: "uptr \<Rightarrow> uptr \<Rightarrow> 's \<Rightarrow> 's"
  assumes nxt_set: "nxt (set_nxt p q s) r = (if r = p then q else nxt s r)"
begin

lemma chain_set_other: "p \<notin> set xs \<Longrightarrow> chain (nxt (set_nxt p q s)) h xs = chain (nxt s) h xs"
  by (induction xs arbitrary: h) (auto simp: nxt_set)

lemma chain_push:
  "chain (nxt s) h xs \<Longrightarrow> p \<noteq> 0 \<Longrightarrow> p \<notin> set xs \<Longrightarrow> chain (nxt (set_nxt p h s)) p (p # xs)"
  by (simp add: chain_set_other nxt_set)

lemma chain_det: "chain (nxt s) h xs \<Longrightarrow> chain (nxt s) h ys \<Longrightarrow> xs = ys"
proof (induction xs arbitrary: h ys)
  case Nil then show ?case by (cases ys) auto
next
  case (Cons x xs) then show ?case by (cases ys) auto
qed

lemma chain_distinct: "chain (nxt s) h xs \<Longrightarrow> distinct xs"
proof (induction xs arbitrary: h)
  case (Cons x xs)
  have "x \<notin> set xs"
  proof
    assume "x \<in> set xs"
    then obtain ys zs where xs: "xs = ys @ x # zs" by (meson split_list)
    have *: "chain (nxt s) h' (us @ vs) \<Longrightarrow> \<exists>h''. chain (nxt s) h'' vs" for h' us vs
      by (induction us arbitrary: h') auto
    from Cons.prems xs have "chain (nxt s) x (x # zs)"
      using *[of "nxt s x" ys "x # zs"] by auto
    with Cons.prems have "x # xs = x # zs" by (intro chain_det) auto
    with xs show False by simp
  qed
  with Cons show ?case by auto
qed simp

text \<open>Cutting a node out, and splitting a chain at a node.\<close>

lemma chain_append:
  "chain (nxt s) h (xs @ y # ys) \<longleftrightarrow>
     chain (nxt s) h (xs @ y # ys) \<and> chain (nxt s) y (y # ys)"
proof -
  have "chain (nxt s) h (xs @ y # ys) \<Longrightarrow> chain (nxt s) y (y # ys)"
    by (induction xs arbitrary: h) auto
  then show ?thesis by blast
qed

lemma chain_unlink:
  assumes "chain (nxt s) h (xs @ p # q # ys)"
  shows "chain (nxt (set_nxt p (nxt s q) s)) h (xs @ p # ys)"
proof -
  have d: "distinct (xs @ p # q # ys)" by (rule chain_distinct [OF assms])
  have "chain (nxt s) h (us @ p # q # ys) \<Longrightarrow> p \<notin> set us \<Longrightarrow>
      chain (nxt (set_nxt p (nxt s q) s)) h (us @ p # ys)" for us
  proof (induction us arbitrary: h)
    case Nil
    moreover have "nxt (set_nxt p (nxt s q) s) p = nxt s q" by (simp add: nxt_set)
    ultimately show ?case using d by (simp add: chain_set_other)
  next
    case (Cons u us) then show ?case by (auto simp: nxt_set)
  qed
  with assms d show ?thesis by simp
qed

text \<open>Sending the end of a stretch elsewhere.\<close>

lemma chain_relink:
  assumes "chain (nxt s) h (xs @ t # ys)" "chain (nxt s) q zs" "t \<notin> set xs" "t \<notin> set zs"
  shows "chain (nxt (set_nxt t q s)) h (xs @ t # zs)"
proof -
  have "chain (nxt s) h (us @ t # ys) \<Longrightarrow> t \<notin> set us \<Longrightarrow> chain (nxt (set_nxt t q s)) h (us @ t # zs)" for us
  proof (induction us arbitrary: h)
    case Nil
    moreover have "nxt (set_nxt t q s) t = q" by (simp add: nxt_set)
    ultimately show ?case using assms(2,4) by (simp add: chain_set_other)
  next
    case (Cons u us) then show ?case by (auto simp: nxt_set)
  qed
  with assms show ?thesis by blast
qed

lemma chain_snoc:
  assumes "chain (nxt s) h (xs @ [t])" "p \<noteq> 0" "p \<notin> set (xs @ [t])" "nxt s p = 0"
  shows "chain (nxt (set_nxt t p s)) h (xs @ [t, p])"
proof -
  have d: "distinct (xs @ [t])" by (rule chain_distinct [OF assms(1)])
  have "chain (nxt s) h (us @ [t]) \<Longrightarrow> t \<notin> set us \<Longrightarrow> chain (nxt (set_nxt t p s)) h (us @ [t, p])" for us
    using assms(2-4) by (induction us arbitrary: h) (auto simp: nxt_set)
  with assms d show ?thesis by simp
qed

end

definition set_freed_next :: "uptr \<Rightarrow> uptr \<Rightarrow> region_store \<Rightarrow> region_store" where
  "set_freed_next p q R = upd p (freed_next_update (\<lambda>_. q)) R"

interpretation freed: linked "\<lambda>R p. freed_next (R p)" set_freed_next
  by unfold_locales (simp add: set_freed_next_def upd_def)

definition set_ri_next :: "uptr \<Rightarrow> uptr \<Rightarrow> region_store \<Rightarrow> region_store" where
  "set_ri_next p q R = upd p (ri_next_update (\<lambda>_. q)) R"

interpretation nexts: linked "\<lambda>R p. ri_next (R p)" set_ri_next
  by unfold_locales (simp add: set_ri_next_def upd_def)

section \<open>Refinement of the doubly linked list\<close>

lemma dllseg_cong:
  "(\<And>x. x \<in> set xs \<Longrightarrow> ri_prev (R' x) = ri_prev (R x) \<and> ri_next (R' x) = ri_next (R x)) \<Longrightarrow>
   dllseg R' b p q xs = dllseg R b p q xs"
  by (induction xs arbitrary: b p) auto

lemma dllseg_nonnull: "dllseg R b p q xs \<Longrightarrow> 0 \<notin> set xs"
  by (induction xs arbitrary: b p) auto

lemma dllseg_append:
  "dllseg R b p q (xs @ ys) \<longleftrightarrow>
     (\<exists>m. dllseg R b p m xs \<and> dllseg R (last (b # xs)) m q ys)"
  by (induction xs arbitrary: b p) auto

lemma dllseg_chain: "dllseg R b p 0 xs \<Longrightarrow> chain (\<lambda>p. ri_next (R p)) p xs"
  by (induction xs arbitrary: b p) auto

lemma dll_distinct: "dll R l xs \<Longrightarrow> distinct xs"
  by (auto simp: dll_def intro: nexts.chain_distinct dllseg_chain)

lemma dll_nonnull: "dll R l xs \<Longrightarrow> 0 \<notin> set xs"
  by (auto simp: dll_def dest: dllseg_nonnull)

lemma dll_cong:
  "(\<And>x. x \<in> set xs \<Longrightarrow> ri_prev (R' x) = ri_prev (R x) \<and> ri_next (R' x) = ri_next (R x)) \<Longrightarrow>
   dll R' l xs = dll R l xs"
  unfolding dll_def by (rule dllseg_cong) blast

lemma dll_det: "dll R l xs \<Longrightarrow> dll R l ys \<Longrightarrow> xs = ys"
  by (auto simp: dll_def intro: nexts.chain_det dllseg_chain)

lemma dll_head: "dll R l xs \<Longrightarrow> head l = (case xs of [] \<Rightarrow> 0 | x # _ \<Rightarrow> x)"
  by (cases xs) (auto simp: dll_def)

lemma dll_split:
  "dll R l (us @ x # ws) \<longleftrightarrow>
     dllseg R 0 (head l) x us \<and> x \<noteq> 0 \<and> ri_prev (R x) = last (0 # us) \<and>
     dllseg R x (ri_next (R x)) 0 ws"
  by (auto simp: dll_def dllseg_append)

text \<open>Replacing the end of a stretch, or the node before it.\<close>

lemma dllseg_relink_end:
  assumes "dllseg R b p q (us @ [y])" "y \<notin> set us"
  shows "dllseg (upd y (ri_next_update (\<lambda>_. q')) R) b p q' (us @ [y])"
  using assms
proof (induction us arbitrary: b p)
  case Nil then show ?case by (simp add: upd_def)
next
  case (Cons u us) then show ?case by (auto simp: upd_def)
qed

lemma dllseg_relink_before:
  assumes "dllseg R b p 0 ws" "distinct ws"
  shows "dllseg (if p \<noteq> 0 then upd p (ri_prev_update (\<lambda>_. b')) R else R) b' p 0 ws"
proof (cases ws)
  case (Cons w ws')
  with assms have "dllseg (upd w (ri_prev_update (\<lambda>_. b')) R) w (ri_next (R w)) 0 ws'
      = dllseg R w (ri_next (R w)) 0 ws'"
    by (intro dllseg_cong) (auto simp: upd_def)
  with Cons assms show ?thesis by (simp add: upd_def)
qed (use assms in simp)

lemma links_only_refl [simp]: "links_only R R"
  by (simp add: links_only_def)

lemma links_only_trans: "links_only R R' \<Longrightarrow> links_only R' R'' \<Longrightarrow> links_only R R''"
  by (simp add: links_only_def)

lemma links_only_upd [simp]:
  "links_only R (upd p (ri_next_update f) R')  \<longleftrightarrow> links_only R R'"
  "links_only R (upd p (ri_prev_update f) R')  \<longleftrightarrow> links_only R R'"
  by (auto simp: links_only_def upd_def)

lemma links_onlyD:
  assumes "links_only R R'"
  shows "chunk_last_tag (R' p) = chunk_last_tag (R p)" "parent_pool (R' p) = parent_pool (R p)"
    "freed_next (R' p) = freed_next (R p)" "in_free_list (R' p) = in_free_list (R p)"
    "freed_num (R' p) = freed_num (R p)" "status (R' p) = status (R p)"
  using assms by (auto simp: links_only_def dest!: spec [of _ p] elim!: CTRegionInfo.equality
      arg_cong [where f = chunk_last_tag] dest: arg_cong [where f = chunk_last_tag]
      arg_cong [where f = parent_pool] arg_cong [where f = freed_next]
      arg_cong [where f = in_free_list] arg_cong [where f = freed_num] arg_cong [where f = status])

definition changes_in :: "uptr set \<Rightarrow> region_store \<Rightarrow> region_store \<Rightarrow> bool" where
  "changes_in A R R' \<longleftrightarrow> (\<forall>q. q \<notin> A \<longrightarrow> R' q = R q)"

lemma changes_in_upd: "p \<in> A \<Longrightarrow> changes_in A R R' \<Longrightarrow> changes_in A R (upd p f R')"
  by (auto simp: changes_in_def upd_def)

lemma changes_in_refl [simp]: "changes_in A R R"
  by (simp add: changes_in_def)

text \<open>The operations.\<close>

lemma insertAtHead_dll:
  assumes "dll R l xs" "x \<noteq> 0" "x \<notin> set xs" "insertAtHead x R l = (R', l')"
  shows "dll R' l' (x # xs) \<and> links_only R R' \<and> changes_in (insert x (set xs)) R R'"
proof -
  let ?R1 = "upd x (ri_next_update (\<lambda>_. head l)) (upd x (ri_prev_update (\<lambda>_. 0)) R)"
  have R': "R' = (if head l \<noteq> 0 then upd (head l) (ri_prev_update (\<lambda>_. x)) ?R1 else ?R1)"
    and l': "l' = l\<lparr>head := x\<rparr>"
    using assms(4) by (auto simp: insertAtHead_def Let_def)
  have "dllseg ?R1 0 (head l) 0 xs = dllseg R 0 (head l) 0 xs"
    using assms(3) by (intro dllseg_cong) (auto simp: upd_def)
  then have "dllseg R' x (head l) 0 xs"
    using assms(1) dll_distinct [OF assms(1)] unfolding R'
    by (intro dllseg_relink_before [where b = 0]) (simp_all add: dll_def)
  moreover have "changes_in (insert x (set xs)) R R'"
    using assms(1) unfolding R' by (cases xs) (auto simp: dll_def intro!: changes_in_upd)
  moreover have "head l \<noteq> x" using assms(1-3) by (cases xs) (auto simp: dll_def)
  ultimately show ?thesis
    using assms(2) l' by (auto simp: dll_def R' upd_def [of _ _ "upd _ _ _"] upd_def [of x])
       (auto simp: R' links_only_def upd_def)
qed

lemma deleteFromList_dll:
  assumes "dll R l (us @ x # ws)" "deleteFromList x R l = (R', l')"
  shows "dll R' l' (us @ ws) \<and> links_only R R' \<and> changes_in (set us \<union> set ws) R R'"
proof -
  let ?p = "ri_prev (R x)" and ?n = "ri_next (R x)"
  let ?R1 = "if ?p \<noteq> 0 then upd ?p (ri_next_update (\<lambda>_. ?n)) R else R"
  have s: "dllseg R 0 (head l) x us" "?p = last (0 # us)" "dllseg R x ?n 0 ws"
    using assms(1) by (simp_all add: dll_split)
  have d: "distinct (us @ x # ws)" by (rule dll_distinct [OF assms(1)])
  have nz: "0 \<notin> set (us @ x # ws)" by (rule dll_nonnull [OF assms(1)])
  have xn: "?n \<noteq> x" "?p \<noteq> x"
    using d nz s(2) dllseg_chain [OF s(3)] by (cases ws; auto split: if_splits)+
  have ps: "?p \<noteq> 0 \<Longrightarrow> ?p \<in> set us"
    using s(2) by (cases us rule: rev_cases) auto
  have n1: "ri_next (?R1 x) = ?n" "ri_prev (?R1 x) = ?p" using xn by (auto simp: upd_def)
  have R': "R' = (if ?n \<noteq> 0 then upd ?n (ri_prev_update (\<lambda>_. ?p)) ?R1 else ?R1)"
    and l': "l' = (if ?p \<noteq> 0 then l else l\<lparr>head := ?n\<rparr>)"
    using assms(2) n1 xn by (auto simp: deleteFromList_def Let_def upd_def split: if_splits)
  have "dllseg ?R1 x ?n 0 ws = dllseg R x ?n 0 ws"
    using d ps by (intro dllseg_cong) (auto simp: upd_def)
  with s(3) have ws: "dllseg R' ?p ?n 0 ws"
    unfolding R' by (intro dllseg_relink_before) (use d in simp_all)
  have us1: "dllseg ?R1 0 (head l') ?n us"
  proof (cases us rule: rev_cases)
    case Nil with s l' show ?thesis by simp
  next
    case (snoc us' y)
    with s nz have "?p = y" "y \<noteq> 0" by auto
    with s snoc d l' show ?thesis using dllseg_relink_end [of R 0 "head l" x us' y ?n] by simp
  qed
  have "dllseg R' 0 (head l') ?n us = dllseg ?R1 0 (head l') ?n us"
  proof (rule dllseg_cong)
    fix y assume y: "y \<in> set us"
    have "?n \<noteq> 0 \<Longrightarrow> ?n \<in> set ws" using s(3) by (cases ws) auto
    with y d show "ri_prev (R' y) = ri_prev (?R1 y) \<and> ri_next (R' y) = ri_next (?R1 y)"
      unfolding R' by (auto simp: upd_def)
  qed
  with us1 ws s(2) have "dll R' l' (us @ ws)" by (auto simp: dll_def dllseg_append)
  moreover have "links_only R R'" unfolding R' by simp
  moreover have "?n \<noteq> 0 \<Longrightarrow> ?n \<in> set ws" using s(3) by (cases ws) auto
  with ps have "changes_in (set us \<union> set ws) R R'"
    unfolding R' by (auto intro!: changes_in_upd)
  ultimately show ?thesis by simp
qed

lemma find_place_spec:
  assumes "dllseg R (ri_prev (R c)) c 0 (c # ys)" "length ys < n"
  shows "find_place n R this c = Inr (last (c # takeWhile (\<lambda>y. y < this) ys))"
  using assms
proof (induction ys arbitrary: c n)
  case Nil then show ?case by (cases n) auto
next
  case (Cons y ys)
  then obtain m where "n = Suc m" "length ys < m" by (cases n) auto
  with Cons.prems Cons.IH [of y m] show ?case by auto
qed

lemma insort_split:
  "sorted xs \<Longrightarrow> x \<notin> set xs \<Longrightarrow>
   insort x xs = takeWhile (\<lambda>y. y < x) xs @ x # dropWhile (\<lambda>y. y < x) xs"
  for x :: "'a::linorder"
  by (induction xs) (auto simp: insort_is_Cons)

text \<open>Inserting after a node of the list.\<close>

lemma insert_after_dll:
  assumes "dll R l (us @ c # ws)" "x \<noteq> 0" "x \<notin> set (us @ c # ws)"
    "R1 = upd x (ri_prev_update (\<lambda>_. c)) (upd x (ri_next_update (\<lambda>_. ri_next (R c))) R)"
    "R2 = (if ri_next (R c) \<noteq> 0 then upd (ri_next (R c)) (ri_prev_update (\<lambda>_. x)) R1 else R1)"
    "R' = upd c (ri_next_update (\<lambda>_. x)) R2"
  shows "dll R' l (us @ c # x # ws) \<and> links_only R R' \<and> changes_in (insert x (set (us @ c # ws))) R R'"
proof -
  let ?n = "ri_next (R c)"
  have s: "dllseg R 0 (head l) c us" "c \<noteq> 0" "ri_prev (R c) = last (0 # us)" "dllseg R c ?n 0 ws"
    using assms(1) by (simp_all add: dll_split)
  have d: "distinct (us @ c # ws)" by (rule dll_distinct [OF assms(1)])
  have nws: "?n \<noteq> 0 \<Longrightarrow> ?n \<in> set ws" using s(4) by (cases ws) auto
  have ne: "x \<noteq> c" "?n \<noteq> x" "?n \<noteq> c" "x \<notin> set ws" "x \<notin> set us" "c \<notin> set ws" "c \<notin> set us"
    using nws d assms(2,3) s(2) by auto
  have prev': "ri_prev (R' y) = (if ?n \<noteq> 0 \<and> y = ?n then x else if y = x then c else ri_prev (R y))" for y
    using ne by (simp add: assms(4-6) upd_def)
  have next': "ri_next (R' y) = (if y = c then x else if y = x then ?n else ri_next (R y))" for y
    using ne by (simp add: assms(4-6) upd_def)
  have "dllseg R1 c ?n 0 ws = dllseg R c ?n 0 ws"
    using ne(4) assms(4) by (intro dllseg_cong) (auto simp: upd_def)
  with s(4) have R2: "dllseg R2 x ?n 0 ws"
    unfolding assms(5) by (intro dllseg_relink_before [where b = c]) (use d in simp_all)
  have R': "dllseg R' x ?n 0 ws = dllseg R2 x ?n 0 ws"
    using ne(6) assms(6) by (intro dllseg_cong) (auto simp: upd_def)
  have "dllseg R' 0 (head l) c us = dllseg R 0 (head l) c us"
  proof (rule dllseg_cong)
    fix y assume "y \<in> set us"
    with d ne nws show "ri_prev (R' y) = ri_prev (R y) \<and> ri_next (R' y) = ri_next (R y)"
      unfolding prev' next' by auto
  qed
  moreover have "ri_next (R' c) = x" "ri_next (R' x) = ?n" "ri_prev (R' x) = c"
      "ri_prev (R' c) = ri_prev (R c)"
    using ne by (auto simp: prev' next')
  moreover note R2 R'
  ultimately have "dll R' l (us @ c # x # ws)" using s assms(2) by (simp add: dll_split)
  moreover have "links_only R R'" using assms(4-6) by simp
  moreover have "changes_in (insert x (set (us @ c # ws))) R R'"
    unfolding assms(4-6) using nws by (auto intro!: changes_in_upd)
  ultimately show ?thesis by simp
qed

lemma insertInOrder_dll:
  assumes "dll R l xs" "sorted xs" "x \<noteq> 0" "x \<notin> set xs" "length xs \<le> fuel"
  shows "\<exists>R' l'. insertInOrder fuel x R l = Inr (R', l') \<and> dll R' l' (insort x xs) \<and> links_only R R' \<and>
    changes_in (insert x (set xs)) R R'"
proof (cases xs)
  case Nil
  then show ?thesis
    using assms insertAtHead_dll [of R l xs x]
    by (cases "insertAtHead x R l") (auto simp: insertInOrder_def dll_def)
next
  case (Cons c ys)
  with assms(1) have c: "head l = c" "c \<noteq> 0" "dllseg R (ri_prev (R c)) c 0 (c # ys)"
    by (auto simp: dll_def)
  show ?thesis
  proof (cases "x < c")
    case True
    with Cons have "insort x xs = x # xs" by (simp add: less_imp_le)
    with True c assms insertAtHead_dll [of R l xs x] show ?thesis
      by (cases "insertAtHead x R l") (auto simp: insertInOrder_def)
  next
    case False
    let ?zs = "c # takeWhile (\<lambda>y. y < x) ys" and ?ws = "dropWhile (\<lambda>y. y < x) ys"
    have ins: "insort x xs = ?zs @ x # ?ws"
      using Cons assms False insort_split [of xs x] by auto
    obtain bs b where zs: "?zs = bs @ [b]" by (metis append_butlast_last_id list.distinct(1))
    have "xs = ?zs @ ?ws" using Cons by simp
    with zs have xs: "xs = bs @ b # ?ws" by simp
    have "find_place fuel R x c = Inr (last ?zs)"
      using find_place_spec [OF c(3)] assms(5) Cons by simp
    moreover note insert_after_dll [OF assms(1) [unfolded xs] assms(3) assms(4) [unfolded xs] refl refl refl]
    moreover have "insort x xs = bs @ b # x # ?ws" "last ?zs = b"
      using ins zs by simp_all
    moreover have "b \<noteq> x" using xs assms(4) by auto
    moreover have "set xs = insert b (set bs \<union> set ?ws)" by (subst xs) simp
    ultimately show ?thesis
      using c False
      by (cases "ri_next (R b) = 0") (simp_all add: insertInOrder_def Let_def upd_apply)
  qed
qed

end
