(* ===== verification/Machine.thy ===== *)
theory Machine
  imports Tag_Pointers Region_Lists
begin

text \<open>
  The machine the runtime works on and its memory primitives: the mapping functions of
  \<open>sanitizer_posix.cpp\<close>, the mapping functions, the clock and the random generator of
  \<open>my_tools.cpp\<close>, the accounting of \<open>sanitizer_common.cpp\<close>.

  The kernel is an input: \<open>sys_ret\<close> is the sequence of values the system calls return,
  \<open>clock_ns\<close> the sequence of readings of the monotonic clock, \<open>entropy\<close> the sequence of
  answers of \<open>GetRandom\<close> (\<open>None\<close> when it fails) and \<open>nano_seed\<close> the word the code falls
  back to then; each call takes the next item. \<open>trace\<close> lists the system calls made, newest
  first. Memory is \<open>mem\<close>, a byte store, and \<open>RI\<close>, the region headers kept as records; a
  mapping or an \<open>MADV_DONTNEED\<close> that succeeds makes both read as zero in its range.
\<close>

section \<open>The state\<close>

datatype sys_event =
  Ev_mmap uptr uptr bool uptr   \<comment> \<open>address asked for, length, \<open>MAP_FIXED\<close>, value returned\<close>
| Ev_munmap uptr uptr
| Ev_madvise uptr uptr

record machine =
  sys_ret :: "nat \<Rightarrow> uptr"
  sys_pos :: nat
  clock_ns :: "nat \<Rightarrow> u64"
  clock_pos :: nat
  entropy :: "nat \<Rightarrow> u32 option"
  nano_seed :: "nat \<Rightarrow> u32"
  entropy_pos :: nat
  my_random_state :: u32
  g_total_mmaped :: uptr
  mem :: "uptr \<Rightarrow> u8"
  RI :: region_store
  trace :: "sys_event list"

definition in_range :: "uptr \<Rightarrow> uptr \<Rightarrow> uptr \<Rightarrow> bool" where
  "in_range a len p \<longleftrightarrow> p - a < len"

definition zero_range :: "uptr \<Rightarrow> uptr \<Rightarrow> 'a machine_scheme \<Rightarrow> 'a machine_scheme" where
  "zero_range a len s = s
     \<lparr>mem := (\<lambda>p. if in_range a len p then 0 else mem s p),
      RI := (\<lambda>p. if in_range a len p then zero_region else RI s p)\<rparr>"

definition syscall :: "'a machine_scheme \<Rightarrow> uptr \<times> 'a machine_scheme" where
  "syscall s = (sys_ret s (sys_pos s), s\<lparr>sys_pos := Suc (sys_pos s)\<rparr>)"

definition internal_mmap ::
    "ct_globals \<Rightarrow> uptr \<Rightarrow> uptr \<Rightarrow> bool \<Rightarrow> 'a machine_scheme \<Rightarrow> uptr \<times> 'a machine_scheme" where
  "internal_mmap G addr len fixed s =
     (let (r, s) = syscall s;
          s = s\<lparr>trace := Ev_mmap addr len fixed r # trace s\<rparr>
      in (r, if os_iserror G r then s else zero_range r len s))"

definition internal_munmap ::
    "ct_globals \<Rightarrow> uptr \<Rightarrow> uptr \<Rightarrow> 'a machine_scheme \<Rightarrow> uptr \<times> 'a machine_scheme" where
  "internal_munmap G addr len s =
     (let (r, s) = syscall s in (r, s\<lparr>trace := Ev_munmap addr len # trace s\<rparr>))"

definition internal_madvise_dontneed ::
    "ct_globals \<Rightarrow> uptr \<Rightarrow> uptr \<Rightarrow> 'a machine_scheme \<Rightarrow> uptr \<times> 'a machine_scheme" where
  "internal_madvise_dontneed G addr len s =
     (let (r, s) = syscall s;
          s = s\<lparr>trace := Ev_madvise addr len # trace s\<rparr>
      in (r, if os_iserror G r then s else zero_range addr len s))"

text \<open>Eight bytes of memory read and written as one little-endian word.\<close>

definition load64 :: "(uptr \<Rightarrow> u8) \<Rightarrow> uptr \<Rightarrow> u64" where
  "load64 m p = foldr (\<lambda>i acc. push_bit (8 * i) (ucast (m (p + of_nat i))) OR acc) [0..<8] 0"

definition store64 :: "uptr \<Rightarrow> u64 \<Rightarrow> (uptr \<Rightarrow> u8) \<Rightarrow> (uptr \<Rightarrow> u8)" where
  "store64 p v m = (\<lambda>q. if q - p < 8 then ucast (drop_bit (8 * unat (q - p)) v) else m q)"

section \<open>Accounting: \<open>sanitizer_common.cpp\<close>\<close>

definition IncreaseTotalMmap ::
    "ct_globals \<Rightarrow> uptr \<Rightarrow> 'a machine_scheme \<Rightarrow> 'a machine_scheme res" where
  "IncreaseTotalMmap G sz s =
     (if mmap_limit_mb G = 0 then Inr s
      else let total_mmaped = g_total_mmaped s + sz;
               s = s\<lparr>g_total_mmaped := total_mmaped\<rparr>
           in andThen (check (drop_bit 20 total_mmaped < mmap_limit_mb G)) (\<lambda>_. Inr s))"

definition DecreaseTotalMmap ::
    "ct_globals \<Rightarrow> uptr \<Rightarrow> 'a machine_scheme \<Rightarrow> 'a machine_scheme" where
  "DecreaseTotalMmap G sz s =
     (if mmap_limit_mb G = 0 then s else s\<lparr>g_total_mmaped := g_total_mmaped s - sz\<rparr>)"

section \<open>Mapping: \<open>sanitizer_posix.cpp\<close>\<close>

definition MmapOrDie ::
    "ct_globals \<Rightarrow> uptr \<Rightarrow> 'a machine_scheme \<Rightarrow> (uptr \<times> 'a machine_scheme) res" where
  "MmapOrDie G sz s =
     andThen (RoundUpTo sz (page_size G)) (\<lambda>sz.
       let (r, s) = internal_mmap G 0 sz False s
       in if os_iserror G r then Inl Died
          else andThen (IncreaseTotalMmap G sz s) (\<lambda>s. Inr (r, s)))"

definition UnmapOrDie ::
    "ct_globals \<Rightarrow> uptr \<Rightarrow> uptr \<Rightarrow> 'a machine_scheme \<Rightarrow> 'a machine_scheme res" where
  "UnmapOrDie G addr sz s =
     (if addr = 0 \<or> sz = 0 then Inr s
      else let (r, s) = internal_munmap G addr sz s
           in if os_iserror G r then Inl Check_failed
              else Inr (DecreaseTotalMmap G sz s))"

definition MmapOrDieOnFatalError ::
    "ct_globals \<Rightarrow> uptr \<Rightarrow> 'a machine_scheme \<Rightarrow> (uptr \<times> 'a machine_scheme) res" where
  "MmapOrDieOnFatalError G sz s =
     andThen (RoundUpTo sz (page_size G)) (\<lambda>sz.
       let (r, s) = internal_mmap G 0 sz False s
       in if os_iserror G r
          then if os_enomem G r then Inr (0, s) else Inl Died
          else andThen (IncreaseTotalMmap G sz s) (\<lambda>s. Inr (r, s)))"

definition MmapAlignedOrDieOnFatalError ::
    "ct_globals \<Rightarrow> uptr \<Rightarrow> uptr \<Rightarrow> 'a machine_scheme \<Rightarrow> (uptr \<times> 'a machine_scheme) res" where
  "MmapAlignedOrDieOnFatalError G sz alignment s =
     andThen (RoundUpTo sz (page_size G)) (\<lambda>sz.
     andThen (check (IsPowerOfTwo alignment)) (\<lambda>_.
     let map_size = sz + alignment in
     andThen (MmapOrDieOnFatalError G map_size s) (\<lambda>(map_res, s).
     if map_res = 0 then Inr (0, s)
     else
       let map_end = map_res + map_size in
       andThen (IsAligned map_res alignment) (\<lambda>al.
       andThen (if \<not> al
                then let r = (map_res + alignment - 1) AND NOT (alignment - 1)
                     in andThen (UnmapOrDie G map_res (r - map_res) s) (\<lambda>s. Inr (r, s))
                else Inr (map_res, s)) (\<lambda>(r, s).
       andThen (RoundUpTo (r + sz) (page_size G)) (\<lambda>map_to.
       andThen (if map_to \<noteq> map_end then UnmapOrDie G map_to (map_end - map_to) s else Inr s) (\<lambda>s.
       Inr (r, s))))))))"

definition MmapNoReserveOrDie ::
    "ct_globals \<Rightarrow> uptr \<Rightarrow> 'a machine_scheme \<Rightarrow> (uptr \<times> 'a machine_scheme) res" where
  "MmapNoReserveOrDie G sz s =
     andThen (RoundUpTo sz (page_size G)) (\<lambda>sz.
       let (r, s) = internal_mmap G 0 sz False s
       in if os_iserror G r then Inl Died
          else andThen (IncreaseTotalMmap G sz s) (\<lambda>s. Inr (r, s)))"

definition MmapFixedImpl ::
    "ct_globals \<Rightarrow> uptr \<Rightarrow> uptr \<Rightarrow> bool \<Rightarrow> 'a machine_scheme \<Rightarrow> (uptr \<times> 'a machine_scheme) res" where
  "MmapFixedImpl G fixed_addr sz tolerate_enomem s =
     andThen (RoundUpTo sz (page_size G)) (\<lambda>sz.
     let fixed_addr = RoundDownTo fixed_addr (page_size G);
         (r, s) = internal_mmap G fixed_addr sz True s
     in if os_iserror G r
        then if tolerate_enomem \<and> os_enomem G r then Inr (0, s) else Inl Died
        else andThen (IncreaseTotalMmap G sz s) (\<lambda>s. Inr (r, s)))"

definition MmapFixedOrDie ::
    "ct_globals \<Rightarrow> uptr \<Rightarrow> uptr \<Rightarrow> 'a machine_scheme \<Rightarrow> (uptr \<times> 'a machine_scheme) res" where
  "MmapFixedOrDie G fixed_addr sz s = MmapFixedImpl G fixed_addr sz False s"

definition MmapFixedOrDieOnFatalError ::
    "ct_globals \<Rightarrow> uptr \<Rightarrow> uptr \<Rightarrow> 'a machine_scheme \<Rightarrow> (uptr \<times> 'a machine_scheme) res" where
  "MmapFixedOrDieOnFatalError G fixed_addr sz s = MmapFixedImpl G fixed_addr sz True s"

definition IntervalsAreSeparate :: "uptr \<Rightarrow> uptr \<Rightarrow> uptr \<Rightarrow> uptr \<Rightarrow> bool res" where
  "IntervalsAreSeparate start1 end1 start2 end2 =
     andThen (check (start1 \<le> end1)) (\<lambda>_.
     andThen (check (start2 \<le> end2)) (\<lambda>_.
     Inr (end1 < start2 \<or> end2 < start1)))"

text \<open>
  \<open>MemoryRangeIsAvailable\<close>; the segments of \<open>/proc/self/maps\<close> (\<open>None\<close> when they cannot be
  read) are an argument, a segment is its start and its end.
\<close>

fun segments_available :: "(uptr \<times> uptr) list \<Rightarrow> uptr \<Rightarrow> uptr \<Rightarrow> bool res" where
  "segments_available [] range_start range_end = Inr True"
| "segments_available ((seg_start, seg_end) # segs) range_start range_end =
     (if seg_start = seg_end then segments_available segs range_start range_end
      else andThen (check (seg_end \<noteq> 0)) (\<lambda>_.
        andThen (IntervalsAreSeparate seg_start (seg_end - 1) range_start range_end) (\<lambda>sep.
        if \<not> sep then Inr False else segments_available segs range_start range_end)))"

definition MemoryRangeIsAvailable :: "(uptr \<times> uptr) list option \<Rightarrow> uptr \<Rightarrow> uptr \<Rightarrow> bool res" where
  "MemoryRangeIsAvailable maps range_start range_end =
     (case maps of None \<Rightarrow> Inr True | Some segs \<Rightarrow> segments_available segs range_start range_end)"

section \<open>Mapping: \<open>my_tools.cpp\<close>\<close>

definition CTFixedMapOrDie ::
    "ct_globals \<Rightarrow> u64 \<Rightarrow> u64 \<Rightarrow> 'a machine_scheme \<Rightarrow> (bool \<times> 'a machine_scheme) res" where
  "CTFixedMapOrDie G addr len s =
     (let (retu, s) = internal_mmap G addr len False s
      in if retu = addr then Inr (True, s)
         else if os_iserror G retu then Inl (Exit 1)
         else let (r, s) = internal_munmap G retu len s
              in if r \<noteq> 0 then Inl (Exit 1) else Inr (False, s))"

definition CTFixedMapForced ::
    "ct_globals \<Rightarrow> u64 \<Rightarrow> u64 \<Rightarrow> 'a machine_scheme \<Rightarrow> 'a machine_scheme res" where
  "CTFixedMapForced G addr len s =
     (let (retu, s) = internal_mmap G addr len True s
      in if os_iserror G retu then Inl (Exit 1) else Inr s)"

definition CTAdvise ::
    "ct_globals \<Rightarrow> u64 \<Rightarrow> u64 \<Rightarrow> 'a machine_scheme \<Rightarrow> 'a machine_scheme res" where
  "CTAdvise G addr len s =
     (let (retu, s) = internal_madvise_dontneed G addr len s
      in if os_iserror G retu then Inl (Exit 1) else Inr s)"

definition CTMapOrDie ::
    "ct_globals \<Rightarrow> u64 \<Rightarrow> 'a machine_scheme \<Rightarrow> (uptr \<times> 'a machine_scheme) res" where
  "CTMapOrDie G len s =
     (let (retu, s) = internal_mmap G 0 len False s
      in if os_iserror G retu then Inl (Exit 1) else Inr (retu, s))"

definition CTMapBlackCheck :: "ct_globals \<Rightarrow> uptr \<Rightarrow> u64 \<Rightarrow> bool" where
  "CTMapBlackCheck G addr len =
     (if (ct_shadow_memory_dynamic_address G \<le> addr \<and> addr \<le> ct_shadow_memory_dynamic_end G) \<or>
         (ct_shadow_memory_dynamic_address G \<le> addr + len \<and> addr + len \<le> ct_shadow_memory_dynamic_end G)
      then False
      else if (superPoolBase_g G \<le> addr \<and> addr < superPoolEnd_g G) \<or>
              (superPoolBase_g G \<le> addr + len \<and> addr + len < superPoolEnd_g G)
      then False
      else True)"

section \<open>Clock and random numbers: \<open>my_tools.cpp\<close>\<close>

definition MonotonicNanoTime :: "'a machine_scheme \<Rightarrow> u64 \<times> 'a machine_scheme" where
  "MonotonicNanoTime s = (clock_ns s (clock_pos s), s\<lparr>clock_pos := Suc (clock_pos s)\<rparr>)"

text \<open>\<open>CTGetCurTime\<close>: the reading in seconds (cut to 32 bits) and nanoseconds.\<close>

definition CTGetCurTime :: "'a machine_scheme \<Rightarrow> (u32 \<times> u64) \<times> 'a machine_scheme" where
  "CTGetCurTime s =
     (let (t, s) = MonotonicNanoTime s in ((ucast (t div 1000000000), t mod 1000000000), s))"

fun genRandomSeed :: "nat \<Rightarrow> 'a machine_scheme \<Rightarrow> (u32 \<times> 'a machine_scheme) res" where
  "genRandomSeed 0 s = Inl Out_of_fuel"
| "genRandomSeed (Suc n) s =
     (let seed = (case entropy s (entropy_pos s) of
                    Some x \<Rightarrow> x
                  | None \<Rightarrow> nano_seed s (entropy_pos s));
          s = s\<lparr>entropy_pos := Suc (entropy_pos s)\<rparr>
      in if seed = 0 then genRandomSeed n s else Inr (seed, s))"

definition xorshift :: "u32 \<Rightarrow> u32" where
  "xorshift x =
     (let x = x XOR push_bit 13 x;
          x = x XOR drop_bit 17 x;
          x = x XOR push_bit 5 x
      in x)"

definition genRandom :: "'a machine_scheme \<Rightarrow> u32 \<times> 'a machine_scheme" where
  "genRandom s =
     (let x = xorshift (my_random_state s) in (x, s\<lparr>my_random_state := x\<rparr>))"

definition generate_random_u64 :: "'a machine_scheme \<Rightarrow> u64 \<times> 'a machine_scheme" where
  "generate_random_u64 s =
     (let num = 0;
          (r, s) = genRandom s;
          num = push_bit 32 num OR (ucast r AND 0xFFFFFFFF);
          (r, s) = genRandom s;
          num = push_bit 32 num OR (ucast r AND 0xFFFFFFFF)
      in (num, s))"

end
