(* ===== verification/Persistent.thy ===== *)
theory Persistent
  imports Machine "HOL-Library.Char_ord"
begin

text \<open>
  The persistent allocator of \<open>my_tools.cpp\<close>, a stack of 16 pages, and what is built on it: the
  linked list of the pools of a super pool (\<open>CTPoolList\<close>), the counters of a super pool
  (\<open>CTSuperPoolChunkInfo\<close>), and the parser of the environment variables. A pool list is its
  two pointers; the nodes live in the store \<open>PN\<close>.
\<close>

section \<open>The persistent allocator\<close>

record CTPersistentAllocator =
  base_addr :: uptr
  cur_loc :: uptr
  last_loc :: uptr
  end_addr :: uptr

definition CTPersistentAllocatorInit ::
    "ct_globals \<Rightarrow> 'a machine_scheme \<Rightarrow> (CTPersistentAllocator \<times> 'a machine_scheme) res" where
  "CTPersistentAllocatorInit G s =
     (let allocator_length = page_size G * 16 in
      andThen (MmapAlignedOrDieOnFatalError G allocator_length (page_size G) s) (\<lambda>(b, s).
      Inr (\<lparr> base_addr = b, cur_loc = b, last_loc = 0, end_addr = b + allocator_length \<rparr>, s)))"

definition CTPersistentAllocatorAllocate ::
    "u64 \<Rightarrow> CTPersistentAllocator \<times> 'a machine_scheme \<Rightarrow>
     (uptr \<times> CTPersistentAllocator \<times> 'a machine_scheme) res" where
  "CTPersistentAllocatorAllocate sz = (\<lambda>(pa, s).
     andThen (RoundUpTo sz 0x10) (\<lambda>sz.
     if end_addr pa \<le> cur_loc pa + sz then Inl (Exit 1)
     else
       let s = s\<lparr>mem := (\<lambda>p. if in_range (cur_loc pa) sz p then 0 else mem s p)\<rparr>;
           pa = pa\<lparr>last_loc := cur_loc pa\<rparr>;
           pa = pa\<lparr>cur_loc := cur_loc pa + sz\<rparr>
       in Inr (last_loc pa, pa, s)))"

definition CTPersistentAllocatorFree ::
    "uptr \<Rightarrow> bool \<Rightarrow> CTPersistentAllocator \<Rightarrow> CTPersistentAllocator res" where
  "CTPersistentAllocatorFree ptr noCheck pa =
     (if ptr = 0 \<or> noCheck then Inr pa
      else if ptr \<noteq> last_loc pa then Inl (Exit 1)
      else Inr (pa\<lparr>cur_loc := last_loc pa, last_loc := 0\<rparr>))"

section \<open>Pool lists\<close>

record CTPoolNode =
  pool_addr :: uptr
  density :: u64
  pool_next :: uptr

definition zero_pool_node :: CTPoolNode where
  "zero_pool_node = \<lparr> pool_addr = 0, density = 0, pool_next = 0 \<rparr>"

record CTPoolList =
  pl_head :: uptr
  pl_tail :: uptr

type_synonym pool_store = "uptr \<Rightarrow> CTPoolNode"

text \<open>The static storage behind the lists: the allocator and the nodes.\<close>

record pool_state = machine +
  persistent :: CTPersistentAllocator
  PN :: pool_store

definition persistent_allocate ::
    "u64 \<Rightarrow> 'a pool_state_scheme \<Rightarrow> (uptr \<times> 'a pool_state_scheme) res" where
  "persistent_allocate sz s =
     andThen (CTPersistentAllocatorAllocate sz (persistent s, s)) (\<lambda>(p, pa, s).
     Inr (p, s\<lparr>persistent := pa\<rparr>))"

definition initCTPoolList :: "'a pool_state_scheme \<Rightarrow> (CTPoolList \<times> 'a pool_state_scheme) res" where
  "initCTPoolList s =
     andThen (persistent_allocate 16 s) (\<lambda>(p, s). Inr (\<lparr> pl_head = 0, pl_tail = 0 \<rparr>, s))"

definition set_pool_next :: "uptr \<Rightarrow> uptr \<Rightarrow> pool_store \<Rightarrow> pool_store" where
  "set_pool_next p q N = N(p := (N p)\<lparr>pool_next := q\<rparr>)"

interpretation pools: linked "\<lambda>N p. pool_next (N p)" set_pool_next
  by unfold_locales (simp add: set_pool_next_def)

definition appendCTPoolList ::
    "CTPoolList \<Rightarrow> uptr \<Rightarrow> 'a pool_state_scheme \<Rightarrow>
     (uptr \<times> CTPoolList \<times> 'a pool_state_scheme) res" where
  "appendCTPoolList l addr s =
     andThen (persistent_allocate 24 s) (\<lambda>(newPool, s).
     let s = s\<lparr>PN := (PN s)(newPool := \<lparr> pool_addr = addr, density = 0, pool_next = 0 \<rparr>)\<rparr>
     in if pl_head l = 0
        then Inr (newPool, l\<lparr>pl_head := newPool, pl_tail := newPool\<rparr>, s)
        else if pl_tail l = 0 then Inl Null_deref
        else Inr (newPool, l\<lparr>pl_tail := newPool\<rparr>,
                  s\<lparr>PN := set_pool_next (pl_tail l) newPool (PN s)\<rparr>))"

text \<open>The nodes \<open>traverseCTPoolList\<close> prints, in order.\<close>

fun traverseCTPoolList :: "nat \<Rightarrow> pool_store \<Rightarrow> uptr \<Rightarrow> uptr list res" where
  "traverseCTPoolList 0 N currentNode = Inl Out_of_fuel"
| "traverseCTPoolList (Suc n) N currentNode =
     (if currentNode = 0 then Inr []
      else andThen (traverseCTPoolList n N (pool_next (N currentNode))) (\<lambda>ps.
        Inr (pool_addr (N currentNode) # ps)))"

section \<open>Counters of a super pool\<close>

record CTSuperPoolChunkInfo =
  free_chunk_num :: u64
  region_num :: u64
  free_region_num :: u64
  trigger_free :: u32
  last_release_at_ns :: u64

definition CTSuperPoolChunkInfoInit ::
    "ct_globals \<Rightarrow> u64 \<Rightarrow> 'a machine_scheme \<Rightarrow> (CTSuperPoolChunkInfo \<times> 'a machine_scheme) res" where
  "CTSuperPoolChunkInfoInit G chunk_size s =
     (if chunk_size = 0 then Inl Died
      else
        let trigger = (if page_size G < chunk_size then 1 else ucast (page_size G div chunk_size));
            (t, s) = MonotonicNanoTime s
        in Inr (\<lparr> free_chunk_num = 0, region_num = 0, free_region_num = 0,
                  trigger_free = trigger, last_release_at_ns = t \<rparr>, s))"

section \<open>Parsing a number of the environment\<close>

fun digits_loop :: "nat \<Rightarrow> int \<Rightarrow> string \<Rightarrow> int res" where
  "digits_loop i acc [] = Inr acc"
| "digits_loop i acc (c # cs) =
     (if 2 \<le> i then Inl (Exit 1)
      else if c < CHR ''0'' \<or> CHR ''9'' < c then Inl (Exit 1)
      else digits_loop (i + 1) (acc * 10 + (of_char c - of_char CHR ''0'')) cs)"

definition stringToInteger :: "string \<Rightarrow> int res" where
  "stringToInteger str = (if str = [] then Inl (Exit 1) else digits_loop 0 0 str)"

end
