(* ===== verification/Size_Classes.thy ===== *)
theory Size_Classes
  imports San_Math
begin

text \<open>
  \<open>SizeClassMap\<close> of \<open>sanitizer_allocator_size_class_map.h\<close>: the translation between
  allocation sizes and size classes, with the template parameters as a record. The maps the
  code instantiates are the constants at the end of the definitions; the primary allocator of
  ClusterTag uses \<open>VeryDenseSizeClassMap\<close>. The reference definition \<open>size_spec\<close> says on
  natural numbers what \<open>Size\<close> computes with shifts, the locale \<open>size_class_map\<close> holds
  the conditions on the parameters and proves the contract once for all maps.
\<close>

section \<open>The map\<close>

record scm_params =
  kNumBits :: nat
  kMinSizeLog :: nat
  kMidSizeLog :: nat
  kMaxSizeLog :: nat
  kMaxNumCachedHint :: uptr
  kMaxBytesCachedLog :: nat

definition kMinSize :: "scm_params \<Rightarrow> uptr" where
  "kMinSize P = push_bit (kMinSizeLog P) 1"

definition kMidSize :: "scm_params \<Rightarrow> uptr" where
  "kMidSize P = push_bit (kMidSizeLog P) 1"

definition kMidClass :: "scm_params \<Rightarrow> uptr" where
  "kMidClass P = kMidSize P div kMinSize P"

definition scm_S :: "scm_params \<Rightarrow> nat" where
  "scm_S P = kNumBits P - 1"

definition scm_M :: "scm_params \<Rightarrow> uptr" where
  "scm_M P = push_bit (scm_S P) 1 - 1"

definition kMaxSize :: "scm_params \<Rightarrow> uptr" where
  "kMaxSize P = push_bit (kMaxSizeLog P) 1"

definition kNumClasses :: "scm_params \<Rightarrow> uptr" where
  "kNumClasses P =
     kMidClass P + push_bit (scm_S P) (of_nat (kMaxSizeLog P - kMidSizeLog P)) + 1 + 1"

definition kLargestClassID :: "scm_params \<Rightarrow> uptr" where
  "kLargestClassID P = kNumClasses P - 2"

definition kBatchClassID :: "scm_params \<Rightarrow> uptr" where
  "kBatchClassID P = kNumClasses P - 1"

definition kNumClassesRounded :: "scm_params \<Rightarrow> uptr" where
  "kNumClassesRounded P =
     (if kNumClasses P \<le> 32 then 32 else if kNumClasses P \<le> 64 then 64
      else if kNumClasses P \<le> 128 then 128 else 256)"

definition Size :: "scm_params \<Rightarrow> uptr \<Rightarrow> uptr" where
  "Size P class_id =
     (if class_id = kBatchClassID P then kMaxNumCachedHint P * 8
      else if class_id \<le> kMidClass P then kMinSize P * class_id
      else let c = class_id - kMidClass P;
               t = push_bit (unat (drop_bit (scm_S P) c)) (kMidSize P)
           in t + drop_bit (scm_S P) t * (c AND scm_M P))"

text \<open>
  In the last branch the size is above \<open>kMidSize\<close>, hence not zero, and the check of
  \<open>MostSignificantSetBitIndex\<close> holds.
\<close>

definition ClassID :: "scm_params \<Rightarrow> uptr \<Rightarrow> uptr" where
  "ClassID P sz =
     (if sz > kMaxSize P then 0
      else if sz \<le> kMidSize P then drop_bit (kMinSizeLog P) (sz + kMinSize P - 1)
      else let l = msb_below 64 sz;
               hbits = drop_bit (l - scm_S P) sz AND scm_M P;
               lbits = sz AND (push_bit (l - scm_S P) 1 - 1);
               l1 = of_nat (l - kMidSizeLog P)
           in kMidClass P + push_bit (scm_S P) l1 + hbits + (if lbits > 0 then 1 else 0))"

definition MaxCachedHint :: "scm_params \<Rightarrow> uptr \<Rightarrow> uptr" where
  "MaxCachedHint P sz =
     (if sz = 0 then 0
      else San_Max 1 (San_Min (kMaxNumCachedHint P) (push_bit (kMaxBytesCachedLog P) 1 div sz)))"

text \<open>The self-check of the map: two loops of \<open>CHECK\<close>s.\<close>

fun check_all :: "('a \<Rightarrow> unit res) \<Rightarrow> 'a list \<Rightarrow> unit res" where
  "check_all f [] = Inr ()"
| "check_all f (x # xs) = andThen (f x) (\<lambda>_. check_all f xs)"

definition Validate_class :: "scm_params \<Rightarrow> uptr \<Rightarrow> unit res" where
  "Validate_class P c =
     (let s = Size P c in
      andThen (check (s \<noteq> 0)) (\<lambda>_.
      if c = kBatchClassID P then Inr ()
      else andThen (check (ClassID P s = c)) (\<lambda>_.
           andThen (if c < kLargestClassID P then check (ClassID P (s + 1) = c + 1) else Inr ()) (\<lambda>_.
           andThen (check (ClassID P (s - 1) = c)) (\<lambda>_.
           check (Size P c > Size P (c - 1)))))))"

definition Validate_size :: "scm_params \<Rightarrow> uptr \<Rightarrow> unit res" where
  "Validate_size P s =
     (let c = ClassID P s in
      andThen (check (c < kNumClasses P)) (\<lambda>_.
      andThen (check (Size P c \<ge> s)) (\<lambda>_.
      if c > 0 then check (Size P (c - 1) < s) else Inr ())))"

definition Validate :: "scm_params \<Rightarrow> unit res" where
  "Validate P =
     andThen (check_all (Validate_class P) (map of_nat [1..<unat (kNumClasses P)])) (\<lambda>_.
     andThen (check (ClassID P (kMaxSize P + 1) = 0)) (\<lambda>_.
     check_all (Validate_size P) (map of_nat [1..<Suc (unat (kMaxSize P))])))"

definition DefaultSizeClassMap :: scm_params where
  "DefaultSizeClassMap = \<lparr>kNumBits = 3, kMinSizeLog = 4, kMidSizeLog = 8, kMaxSizeLog = 17,
     kMaxNumCachedHint = 128, kMaxBytesCachedLog = 16\<rparr>"

definition CompactSizeClassMap :: scm_params where
  "CompactSizeClassMap = \<lparr>kNumBits = 3, kMinSizeLog = 4, kMidSizeLog = 8, kMaxSizeLog = 17,
     kMaxNumCachedHint = 64, kMaxBytesCachedLog = 14\<rparr>"

definition VeryCompactSizeClassMap :: scm_params where
  "VeryCompactSizeClassMap = \<lparr>kNumBits = 2, kMinSizeLog = 5, kMidSizeLog = 9, kMaxSizeLog = 16,
     kMaxNumCachedHint = 64, kMaxBytesCachedLog = 14\<rparr>"

definition Power2SizeClassMap :: scm_params where
  "Power2SizeClassMap = \<lparr>kNumBits = 1, kMinSizeLog = 3, kMidSizeLog = 3, kMaxSizeLog = 16,
     kMaxNumCachedHint = 256, kMaxBytesCachedLog = 14\<rparr>"

definition DenseSizeClassMap :: scm_params where
  "DenseSizeClassMap = \<lparr>kNumBits = 3, kMinSizeLog = 4, kMidSizeLog = 8, kMaxSizeLog = 17,
     kMaxNumCachedHint = 8, kMaxBytesCachedLog = 10\<rparr>"

definition VeryDenseSizeClassMap :: scm_params where
  "VeryDenseSizeClassMap = \<lparr>kNumBits = 2, kMinSizeLog = 5, kMidSizeLog = 9, kMaxSizeLog = 16,
     kMaxNumCachedHint = 8, kMaxBytesCachedLog = 10\<rparr>"


section \<open>The reference definition\<close>

text \<open>
  Below \<open>2 ^ kMidSizeLog\<close> the sizes are the multiples of \<open>2 ^ kMinSizeLog\<close>; above,
  each power of two is followed by \<open>2 ^ S\<close> sizes in equal steps.
\<close>

definition mid_class :: "scm_params \<Rightarrow> nat" where
  "mid_class P = 2 ^ (kMidSizeLog P - kMinSizeLog P)"

definition largest_class :: "scm_params \<Rightarrow> nat" where
  "largest_class P = mid_class P + (kMaxSizeLog P - kMidSizeLog P) * 2 ^ scm_S P"

definition size_spec :: "scm_params \<Rightarrow> nat \<Rightarrow> nat" where
  "size_spec P c =
     (if c \<le> mid_class P then 2 ^ kMinSizeLog P * c
      else 2 ^ (kMidSizeLog P + (c - mid_class P) div 2 ^ scm_S P - scm_S P)
             * (2 ^ scm_S P + (c - mid_class P) mod 2 ^ scm_S P))"


locale size_class_map =
  fixes P :: scm_params
  assumes min_pos: "0 < kMinSizeLog P"
    and min_le_mid: "kMinSizeLog P \<le> kMidSizeLog P"
    and mid_le_max: "kMidSizeLog P \<le> kMaxSizeLog P"
    and max_small: "kMaxSizeLog P \<le> 30"
    and S_less_mid: "scm_S P < kMidSizeLog P"
    and classes_small: "largest_class P + 1 < 256"
begin

lemma unat_kMinSize: "unat (kMinSize P) = 2 ^ kMinSizeLog P"
  using min_le_mid mid_le_max max_small by (simp add: kMinSize_def unat_pow2)

lemma unat_kMidSize: "unat (kMidSize P) = 2 ^ kMidSizeLog P"
  using mid_le_max max_small by (simp add: kMidSize_def unat_pow2)

lemma unat_kMaxSize: "unat (kMaxSize P) = 2 ^ kMaxSizeLog P"
  using max_small by (simp add: kMaxSize_def unat_pow2)

lemma unat_kMidClass: "unat (kMidClass P) = mid_class P"
  using min_le_mid
  by (simp add: kMidClass_def unat_div unat_kMidSize unat_kMinSize mid_class_def power_diff)

lemma mid_size: "2 ^ kMinSizeLog P * mid_class P = 2 ^ kMidSizeLog P"
  using min_le_mid by (simp add: mid_class_def flip: power_add)

lemma mid_class_pos: "0 < mid_class P"
  by (simp add: mid_class_def)

lemma mid_le_largest: "mid_class P \<le> largest_class P"
  by (simp add: largest_class_def)

lemma unat_kNumClasses: "unat (kNumClasses P) = largest_class P + 2"
proof -
  let ?d = "kMaxSizeLog P - kMidSizeLog P"
  have dl: "?d * 2 ^ scm_S P < 256"
    using classes_small by (simp add: largest_class_def)
  have "unat (of_nat ?d :: uptr) = ?d"
    using max_small by (intro unat_of_nat_small) simp
  moreover have "unat (2 ^ scm_S P :: uptr) = 2 ^ scm_S P"
    using S_less_mid mid_le_max max_small by (simp add: unat_pow2)
  ultimately have "unat (push_bit (scm_S P) (of_nat ?d :: uptr)) = ?d * 2 ^ scm_S P"
    using dl by (simp add: push_bit_eq_mult unat_mult_small mult.commute)
  then show ?thesis
    using classes_small
    by (simp add: kNumClasses_def unat_word_ariths unat_kMidClass largest_class_def)
qed

lemma unat_kBatchClassID: "unat (kBatchClassID P) = largest_class P + 1"
  using unat_kNumClasses by (simp add: kBatchClassID_def unat_sub word_le_nat_alt)

lemma unat_kLargestClassID: "unat (kLargestClassID P) = largest_class P"
  using unat_kNumClasses by (simp add: kLargestClassID_def unat_sub word_le_nat_alt)

lemma unat_scm_M: "x AND scm_M P = x AND (2 ^ scm_S P - 1)"
  by (simp add: scm_M_def)

lemma step_bound: "c \<le> largest_class P \<Longrightarrow> (c - mid_class P) div 2 ^ scm_S P \<le> kMaxSizeLog P - kMidSizeLog P"
proof -
  assume "c \<le> largest_class P"
  then have "c - mid_class P \<le> (kMaxSizeLog P - kMidSizeLog P) * 2 ^ scm_S P"
    by (simp add: largest_class_def)
  then have "(c - mid_class P) div 2 ^ scm_S P \<le> (kMaxSizeLog P - kMidSizeLog P) * 2 ^ scm_S P div 2 ^ scm_S P"
    by (rule div_le_mono)
  then show ?thesis by simp
qed

text \<open>The code's \<open>Size\<close> computes the reference definition.\<close>

lemma Size_spec:
  assumes c: "unat c \<le> largest_class P"
  shows "unat (Size P c) = size_spec P (unat c)"
proof (cases "unat c \<le> mid_class P")
  case True
  have nb: "c \<noteq> kBatchClassID P" using c unat_kBatchClassID by auto
  have "2 ^ kMinSizeLog P * unat c \<le> 2 ^ kMinSizeLog P * mid_class P" using True by simp
  also have "\<dots> < 2 ^ 31"
    unfolding mid_size using mid_le_max max_small by (intro power_strict_increasing) auto
  finally have "unat (kMinSize P * c) = 2 ^ kMinSizeLog P * unat c"
    by (subst unat_mult_small) (simp_all add: unat_kMinSize)
  then show ?thesis
    using True nb by (simp add: Size_def size_spec_def word_le_nat_alt unat_kMidClass)
next
  case False
  let ?S = "scm_S P" and ?mid = "kMidSizeLog P"
  define d where "d = c - kMidClass P"
  have ud: "unat d = unat c - mid_class P"
    using False by (simp add: d_def unat_sub word_le_nat_alt unat_kMidClass)
  define e where "e = unat d div 2 ^ ?S"
  have e: "?mid + e \<le> 30" "?mid + e \<le> kMaxSizeLog P"
    using step_bound [OF c] ud mid_le_max max_small by (simp_all add: e_def)
  have ue: "unat (drop_bit ?S d) = e" by (simp only: e_def unat_drop_bit)
  define t where "t = push_bit e (kMidSize P)"
  have t: "t = 2 ^ (?mid + e)"
    by (simp add: t_def kMidSize_def push_bit_eq_mult power_add)
  have ut: "unat t = 2 ^ (?mid + e)" using e by (simp add: t unat_pow2)
  have uts: "unat (drop_bit ?S t) = 2 ^ (?mid + e - ?S)"
    using S_less_mid by (simp only: unat_drop_bit ut) (simp add: power_diff)
  have um: "unat (d AND scm_M P) = unat d mod 2 ^ ?S" by (simp only: unat_scm_M unat_and_low)
  have small: "2 ^ (?mid + e - ?S) * (unat d mod 2 ^ ?S) < 2 ^ (?mid + e)"
  proof -
    have "2 ^ (?mid + e - ?S) * (unat d mod 2 ^ ?S) < 2 ^ (?mid + e - ?S) * 2 ^ ?S"
      by (intro mult_strict_left_mono) auto
    then show ?thesis using S_less_mid by (simp flip: power_add)
  qed
  have lim: "(2::nat) ^ (?mid + e) \<le> 2 ^ 30" using e by (intro power_increasing) auto
  have um2: "unat (drop_bit ?S t * (d AND scm_M P)) = 2 ^ (?mid + e - ?S) * (unat d mod 2 ^ ?S)"
    using small lim by (subst unat_mult_small) (simp_all add: uts um)
  have "unat (t + drop_bit ?S t * (d AND scm_M P)) =
      2 ^ (?mid + e) + 2 ^ (?mid + e - ?S) * (unat d mod 2 ^ ?S)"
    using small lim by (subst unat_add_small) (simp_all add: um2 ut)
  also have "\<dots> = 2 ^ (?mid + e - ?S) * (2 ^ ?S + unat d mod 2 ^ ?S)"
    using S_less_mid by (simp add: add_mult_distrib2 flip: power_add)
  finally have "unat (t + drop_bit ?S t * (d AND scm_M P)) =
      2 ^ (?mid + e - ?S) * (2 ^ ?S + unat d mod 2 ^ ?S)" .
  moreover have "Size P c = t + drop_bit ?S t * (d AND scm_M P)"
    using False c unat_kBatchClassID
    by (auto simp: Size_def Let_def d_def [symmetric] ue t_def word_le_nat_alt unat_kMidClass)
  ultimately show ?thesis
    using False by (simp add: size_spec_def ud [symmetric] e_def)
qed

text \<open>Between two powers of two the sizes are the multiples of one step.\<close>

lemma size_spec_step:
  assumes "kMidSizeLog P \<le> l" and "h \<le> 2 ^ scm_S P"
  shows "size_spec P (mid_class P + (l - kMidSizeLog P) * 2 ^ scm_S P + h) =
    2 ^ (l - scm_S P) * (2 ^ scm_S P + h)"
proof -
  let ?S = "scm_S P" and ?mid = "kMidSizeLog P"
  let ?c = "mid_class P + (l - ?mid) * 2 ^ ?S + h"
  consider "h = 0 \<and> l = ?mid" | "h = 2 ^ ?S" | "h < 2 ^ ?S" "\<not> (h = 0 \<and> l = ?mid)"
    using assms(2) by linarith
  then show ?thesis
  proof cases
    case 1
    then show ?thesis
      using S_less_mid mid_size by (simp add: size_spec_def flip: power_add)
  next
    case 2
    then have "(?c - mid_class P) div 2 ^ ?S = l - ?mid + 1" "(?c - mid_class P) mod 2 ^ ?S = 0"
      by (simp_all add: div_mult2_eq)
    moreover have "?mid + (l - ?mid + 1) - ?S = Suc (l - ?S)"
      using assms S_less_mid by simp
    ultimately show ?thesis
      using 2 by (simp add: size_spec_def)
  next
    case 3
    then have "(?c - mid_class P) div 2 ^ ?S = l - ?mid" "(?c - mid_class P) mod 2 ^ ?S = h"
      by (simp_all add: div_mult2_eq)
    moreover have "\<not> ?c \<le> mid_class P" using 3 assms(1) by (cases "h = 0") auto
    moreover have "?mid + (l - ?mid) - ?S = l - ?S" using assms(1) by simp
    ultimately show ?thesis by (simp only: size_spec_def if_False)
  qed
qed

lemma class_split:
  assumes "mid_class P \<le> c" and "c < largest_class P"
  obtains l h where "kMidSizeLog P \<le> l" and "l < kMaxSizeLog P" and "h < 2 ^ scm_S P"
    and "c = mid_class P + (l - kMidSizeLog P) * 2 ^ scm_S P + h"
proof
  let ?d = "c - mid_class P" and ?S = "scm_S P"
  let ?l = "kMidSizeLog P + ?d div 2 ^ ?S"
  show "kMidSizeLog P \<le> ?l" by simp
  have "?d < (kMaxSizeLog P - kMidSizeLog P) * 2 ^ ?S"
    using assms by (simp add: largest_class_def)
  then have "?d div 2 ^ ?S < kMaxSizeLog P - kMidSizeLog P"
    by (simp add: less_mult_imp_div_less)
  then show "?l < kMaxSizeLog P" by simp
  show "?d mod 2 ^ ?S < 2 ^ ?S" by simp
  show "c = mid_class P + (?l - kMidSizeLog P) * 2 ^ ?S + ?d mod 2 ^ ?S"
    using assms(1) div_mult_mod_eq [of ?d "2 ^ ?S"] by simp
qed

lemma size_spec_Suc:
  assumes "c < largest_class P"
  shows "size_spec P c + 2 \<le> size_spec P (c + 1)"
proof (cases "c < mid_class P")
  case True
  have "(2::nat) ^ 1 \<le> 2 ^ kMinSizeLog P" using min_pos by (intro power_increasing) auto
  with True show ?thesis by (simp add: size_spec_def)
next
  case False
  then obtain l h where lh: "kMidSizeLog P \<le> l" "l < kMaxSizeLog P" "h < 2 ^ scm_S P"
    and c: "c = mid_class P + (l - kMidSizeLog P) * 2 ^ scm_S P + h"
    using class_split [of c] assms by auto
  have "(2::nat) ^ 1 \<le> 2 ^ (l - scm_S P)"
    using lh(1) S_less_mid by (intro power_increasing) auto
  moreover have "size_spec P c = 2 ^ (l - scm_S P) * (2 ^ scm_S P + h)"
    unfolding c using lh by (intro size_spec_step) auto
  moreover have "size_spec P (c + 1) = 2 ^ (l - scm_S P) * (2 ^ scm_S P + (h + 1))"
    unfolding c add.assoc [of _ h 1] using lh by (intro size_spec_step) auto
  ultimately show ?thesis by (simp add: algebra_simps)
qed

lemma size_spec_mono:
  "c < c' \<Longrightarrow> c' \<le> largest_class P \<Longrightarrow> size_spec P c + 2 \<le> size_spec P c'"
proof (induction c')
  case 0
  then show ?case by simp
next
  case (Suc c')
  then have "size_spec P c' + 2 \<le> size_spec P (c' + 1)" by (intro size_spec_Suc) simp
  with Suc show ?case by (cases "c = c'") auto
qed

lemma size_spec_0 [simp]: "size_spec P 0 = 0"
  by (simp add: size_spec_def)

lemma size_spec_largest: "size_spec P (largest_class P) = 2 ^ kMaxSizeLog P"
  using size_spec_step [of "kMaxSizeLog P" 0] mid_le_max S_less_mid
  by (simp add: largest_class_def flip: power_add)

text \<open>
  \<open>ClassID\<close> finds the one class whose size interval holds the request.
\<close>

lemma class_bracket_steps:
  assumes l: "kMidSizeLog P \<le> l" "l \<le> kMaxSizeLog P"
    and s: "2 ^ l \<le> s" "s < 2 ^ (l + 1)" "2 ^ kMidSizeLog P < s" "s \<le> 2 ^ kMaxSizeLog P"
    and q: "q = s div 2 ^ (l - scm_S P)"
    and b: "b = (if s mod 2 ^ (l - scm_S P) = 0 then 0 else 1)"
    and c: "c = mid_class P + (l - kMidSizeLog P) * 2 ^ scm_S P + (q - 2 ^ scm_S P) + b"
  shows "0 < c \<and> c \<le> largest_class P \<and> size_spec P (c - 1) < s \<and> s \<le> size_spec P c"
proof -
  let ?S = "scm_S P" and ?st = "(2::nat) ^ (l - scm_S P)"
  have pow: "2 ^ l = ?st * 2 ^ ?S" using l S_less_mid by (simp flip: power_add)
  have q_ge: "2 ^ ?S \<le> q" using s(1) by (simp add: q pow less_eq_div_iff_mult_less_eq mult.commute)
  have q_lt: "q < 2 * 2 ^ ?S"
    using s(2) by (simp add: q pow less_mult_imp_div_less algebra_simps)
  have split: "s = ?st * q + s mod ?st" by (simp add: q)
  have "s mod ?st < ?st" by simp
  then have "s mod ?st \<le> ?st * b" by (simp add: b)
  then have up: "s \<le> ?st * (q + b)"
    using split by (simp add: add_mult_distrib2)
  have low: "?st * (q + b - 1) < s"
  proof (cases "s mod ?st = 0")
    case True
    have "1 \<le> q" using q_ge by (meson le_trans one_le_numeral one_le_power)
    then have "?st * (q - 1) < ?st * q" by simp
    then show ?thesis using True split by (simp add: b)
  next
    case False
    then show ?thesis using split by (simp add: b)
  qed
  define h where "h = q - 2 ^ ?S + b"
  have h: "h \<le> 2 ^ ?S" "q + b = 2 ^ ?S + h" using q_ge q_lt by (auto simp: h_def b)
  have cs: "c = mid_class P + (l - kMidSizeLog P) * 2 ^ ?S + h" using c by (simp add: h_def)
  have size_c: "size_spec P c = ?st * (2 ^ ?S + h)"
    unfolding cs using l h by (intro size_spec_step) auto
  have cpos: "0 < c" using mid_class_pos cs by simp
  have cmax: "c \<le> largest_class P"
  proof (cases "l = kMaxSizeLog P")
    case True
    then have "s = 2 ^ l" using s by simp
    then have "q = 2 ^ ?S" "b = 0" using pow by (simp_all add: q b)
    then show ?thesis using True by (simp add: cs h_def largest_class_def)
  next
    case False
    then have "l + 1 - kMidSizeLog P \<le> kMaxSizeLog P - kMidSizeLog P" using l by simp
    then have "(l + 1 - kMidSizeLog P) * 2 ^ ?S \<le> (kMaxSizeLog P - kMidSizeLog P) * 2 ^ ?S"
      by (rule mult_le_mono1)
    then show ?thesis using h(1) l by (simp add: cs largest_class_def Suc_diff_le)
  qed
  have prev: "size_spec P (c - 1) < s"
  proof (cases "h = 0")
    case False
    then have "size_spec P (c - 1) = ?st * (2 ^ ?S + (h - 1))"
      unfolding cs using l h size_spec_step [of l "h - 1"] by simp
    then show ?thesis using low h(2) False by simp
  next
    case True
    then have "q = 2 ^ ?S" "b = 0" using q_ge by (simp_all add: h_def)
    then have "s = 2 ^ l" using split pow by (auto simp: b split: if_splits)
    then have "size_spec P c = s" using size_c True pow by simp
    moreover have "size_spec P (c - 1) + 2 \<le> size_spec P (c - 1 + 1)"
      using cpos cmax by (intro size_spec_Suc) simp
    ultimately show ?thesis using cpos by simp
  qed
  show ?thesis using cpos cmax prev up size_c h(2) by simp
qed

lemma class_bracket:
  assumes s: "0 < unat s" "unat s \<le> 2 ^ kMaxSizeLog P"
  shows "0 < unat (ClassID P s) \<and> unat (ClassID P s) \<le> largest_class P \<and>
    size_spec P (unat (ClassID P s) - 1) < unat s \<and> unat s \<le> size_spec P (unat (ClassID P s))"
proof (cases "unat s \<le> 2 ^ kMidSizeLog P")
  case True
  let ?m = "(2::nat) ^ kMinSizeLog P"
  have lim: "?m \<le> 2 ^ 30" "2 ^ kMidSizeLog P \<le> (2::nat) ^ 30"
    using min_le_mid mid_le_max max_small by (auto simp del: power_numeral intro!: power_increasing)
  have "unat (s + kMinSize P - 1) = unat s + ?m - 1"
  proof -
    have "unat (s + kMinSize P) = unat s + ?m"
      using True lim by (subst unat_add_small) (simp_all add: unat_kMinSize)
    then show ?thesis using s(1) by (subst unat_sub) (auto simp: word_le_nat_alt)
  qed
  then have u: "unat (ClassID P s) = (unat s + ?m - 1) div ?m" (is "_ = ?c")
    using True s unat_kMaxSize unat_kMidSize
    by (simp add: ClassID_def word_le_nat_alt not_less [symmetric] word_less_nat_alt unat_drop_bit)
  have "unat s + ?m - 1 = unat s - 1 + ?m" using s(1) by simp
  then have c: "?c = (unat s - 1) div ?m + 1"
    by (simp only: div_add_self2 [OF power_not_zero [OF zero_neq_numeral [symmetric]]])
  have "(unat s - 1) div ?m < mid_class P"
  proof -
    have "unat s - 1 < mid_class P * ?m" using True s(1) mid_size by (simp add: mult.commute)
    then show ?thesis by (rule less_mult_imp_div_less)
  qed
  then have cm: "?c \<le> mid_class P" using c by simp
  define k where "k = (unat s - 1) div ?m"
  have "?m * k \<le> unat s - 1" by (simp add: k_def mult.commute)
  moreover have "unat s - 1 < ?m * k + ?m"
    using dividend_less_times_div [of ?m "unat s - 1"] by (simp add: k_def)
  ultimately have "?m * k < unat s \<and> unat s \<le> ?m * (k + 1)"
    using s(1) by (auto simp: algebra_simps)
  then show ?thesis
    using cm c mid_le_largest by (simp add: u size_spec_def k_def)
next
  case False
  let ?S = "scm_S P"
  define l where "l = msb_below 64 s"
  have nz: "s \<noteq> 0" using s(1) by auto
  note b = msb_bounds [OF nz, folded l_def]
  have l_mid: "kMidSizeLog P \<le> l"
  proof (rule ccontr)
    assume "\<not> kMidSizeLog P \<le> l"
    then have "(2::nat) ^ (l + 1) \<le> 2 ^ kMidSizeLog P" by (intro power_increasing) auto
    with b False show False by simp
  qed
  have l_max: "l \<le> kMaxSizeLog P"
  proof (rule ccontr)
    assume "\<not> l \<le> kMaxSizeLog P"
    then have "(2::nat) ^ kMaxSizeLog P < 2 ^ l" by simp
    with b s show False by simp
  qed
  define q where "q = unat s div 2 ^ (l - ?S)"
  define r where "r = (if unat s mod 2 ^ (l - ?S) = 0 then 0 else 1 :: nat)"
  have pow: "2 ^ l = (2::nat) ^ (l - ?S) * 2 ^ ?S" using l_mid S_less_mid by (simp flip: power_add)
  have q_ge: "2 ^ ?S \<le> q" using b(1) by (simp add: q_def pow less_eq_div_iff_mult_less_eq mult.commute)
  have q_lt: "q < 2 * 2 ^ ?S" using b(2) by (simp add: q_def pow less_mult_imp_div_less algebra_simps)
  define hb where "hb = drop_bit (l - ?S) s AND scm_M P"
  define lb where "lb = (if s AND (push_bit (l - ?S) 1 - 1) > 0 then 1 else 0 :: uptr)"
  have "unat hb = q mod 2 ^ ?S"
    by (simp only: hb_def unat_scm_M unat_and_low unat_drop_bit q_def)
  then have hb: "unat hb = q - 2 ^ ?S"
    using q_ge q_lt by (simp add: mod_if)
  have lb: "unat lb = r"
    by (simp add: lb_def r_def word_greater_zero_iff unat_and_low [of s "l - ?S", symmetric] unsigned_eq_0_iff)
  have pb: "unat (push_bit ?S (of_nat (l - kMidSizeLog P)) :: uptr) = (l - kMidSizeLog P) * 2 ^ ?S"
  proof -
    have "(l - kMidSizeLog P) * 2 ^ ?S \<le> (kMaxSizeLog P - kMidSizeLog P) * 2 ^ ?S"
      using l_max by simp
    moreover have "\<dots> < 256" using classes_small by (simp add: largest_class_def)
    ultimately have "(l - kMidSizeLog P) * 2 ^ ?S < 256" by (rule le_less_trans)
    moreover have "unat (2 ^ ?S :: uptr) = 2 ^ ?S"
      using S_less_mid mid_le_max max_small by (simp add: unat_pow2)
    moreover have "unat (of_nat (l - kMidSizeLog P) :: uptr) = l - kMidSizeLog P"
      using l_max max_small by (intro unat_of_nat_small) simp
    ultimately show ?thesis by (simp add: push_bit_eq_mult unat_mult_small mult.commute)
  qed
  define c where "c = mid_class P + (l - kMidSizeLog P) * 2 ^ ?S + (q - 2 ^ ?S) + r"
  have fin: "0 < c \<and> c \<le> largest_class P \<and> size_spec P (c - 1) < unat s \<and> unat s \<le> size_spec P c"
    using l_mid l_max b False s c_def by (intro class_bracket_steps [where q = q and b = r]) (auto simp: q_def r_def)
  have eq: "ClassID P s = kMidClass P + push_bit ?S (of_nat (l - kMidSizeLog P)) + hb + lb"
    using False s unat_kMaxSize unat_kMidSize
    by (simp add: ClassID_def Let_def word_le_nat_alt word_less_nat_alt l_def hb_def lb_def)
  have "unat (ClassID P s) = c"
    using fin classes_small unfolding eq c_def
    by (simp add: unat_word_ariths unat_kMidClass pb hb lb)
  then show ?thesis using fin by simp
qed

text \<open>The contract of the map.\<close>

lemma Size_le: "unat c \<le> largest_class P \<Longrightarrow> unat (Size P c) \<le> 2 ^ kMaxSizeLog P"
proof -
  assume c: "unat c \<le> largest_class P"
  show ?thesis
  proof (cases "unat c = largest_class P")
    case True
    then show ?thesis by (simp add: Size_spec size_spec_largest)
  next
    case False
    then have "size_spec P (unat c) + 2 \<le> size_spec P (largest_class P)"
      using c by (intro size_spec_mono) auto
    then show ?thesis using c by (simp add: Size_spec size_spec_largest)
  qed
qed

lemma ClassID_Size_fits:
  assumes "0 < s" and "s \<le> kMaxSize P"
  shows "s \<le> Size P (ClassID P s)" and "Size P (ClassID P s - 1) < s"
    and "0 < ClassID P s" and "ClassID P s \<le> kLargestClassID P"
proof -
  have b: "0 < unat (ClassID P s)" "unat (ClassID P s) \<le> largest_class P"
    "size_spec P (unat (ClassID P s) - 1) < unat s" "unat s \<le> size_spec P (unat (ClassID P s))"
    using class_bracket [of s] assms unat_kMaxSize by (auto simp: word_less_nat_alt word_le_nat_alt)
  then show "s \<le> Size P (ClassID P s)" by (simp add: word_le_nat_alt Size_spec)
  have "unat (ClassID P s - 1) = unat (ClassID P s) - 1"
    using b(1) by (subst unat_sub) (auto simp: word_le_nat_alt)
  then show "Size P (ClassID P s - 1) < s"
    using b by (simp add: word_less_nat_alt Size_spec)
  show "0 < ClassID P s" using b(1) by (simp add: word_less_nat_alt)
  show "ClassID P s \<le> kLargestClassID P" using b(2) by (simp add: word_le_nat_alt unat_kLargestClassID)
qed

lemma ClassID_unique:
  assumes c: "0 < unat c" "unat c \<le> largest_class P"
    and s: "size_spec P (unat c - 1) < unat s" "unat s \<le> size_spec P (unat c)"
  shows "ClassID P s = c"
proof -
  have "unat s \<le> 2 ^ kMaxSizeLog P"
    using s(2) Size_le [of c] c by (simp add: Size_spec)
  then have b: "0 < unat (ClassID P s)" "unat (ClassID P s) \<le> largest_class P"
    "size_spec P (unat (ClassID P s) - 1) < unat s" "unat s \<le> size_spec P (unat (ClassID P s))"
    using class_bracket [of s] s(1) by auto
  have "\<not> unat (ClassID P s) < unat c"
  proof
    assume "unat (ClassID P s) < unat c"
    then consider "unat (ClassID P s) = unat c - 1" | "unat (ClassID P s) < unat c - 1"
      by linarith
    then have "size_spec P (unat (ClassID P s)) \<le> size_spec P (unat c - 1)"
      using size_spec_mono [of "unat (ClassID P s)" "unat c - 1", OF _ order.trans [OF diff_le_self c(2)]]
      by cases auto
    with b s show False by simp
  qed
  moreover have "\<not> unat c < unat (ClassID P s)"
  proof
    assume "unat c < unat (ClassID P s)"
    then consider "unat c = unat (ClassID P s) - 1" | "unat c < unat (ClassID P s) - 1"
      by linarith
    then have "size_spec P (unat c) \<le> size_spec P (unat (ClassID P s) - 1)"
      using size_spec_mono [of "unat c" "unat (ClassID P s) - 1", OF _ order.trans [OF diff_le_self b(2)]]
      by cases auto
    with b s show False by simp
  qed
  ultimately show ?thesis by (simp add: word_unat_eq_iff)
qed

lemma ClassID_Size_inverse:
  assumes "0 < c" and "c \<le> kLargestClassID P"
  shows "ClassID P (Size P c) = c"
proof -
  have c: "0 < unat c" "unat c \<le> largest_class P"
    using assms by (auto simp: word_less_nat_alt word_le_nat_alt unat_kLargestClassID)
  then have "size_spec P (unat c - 1) + 2 \<le> size_spec P (unat c)"
    by (intro size_spec_mono) auto
  with c show ?thesis by (intro ClassID_unique) (auto simp: Size_spec)
qed

lemma Validate_size_ok:
  assumes "0 < s" and "s \<le> kMaxSize P"
  shows "Validate_size P s = Inr ()"
proof -
  note f = ClassID_Size_fits [OF assms]
  have "ClassID P s < kNumClasses P"
    using f(4) unat_kLargestClassID unat_kNumClasses by (simp add: word_le_nat_alt word_less_nat_alt)
  with f show ?thesis by (simp add: Validate_size_def Let_def)
qed

lemma Validate_class_ok:
  assumes c: "0 < c" "c < kNumClasses P" and hint: "kMaxNumCachedHint P * 8 \<noteq> 0"
  shows "Validate_class P c = Inr ()"
proof (cases "c = kBatchClassID P")
  case True
  with hint show ?thesis by (simp add: Validate_class_def Size_def)
next
  case False
  have uc: "0 < unat c" "unat c \<le> largest_class P"
  proof -
    show "0 < unat c" using c(1) by (simp add: word_less_nat_alt)
    have "unat c < largest_class P + 2"
      using c(2) by (simp add: word_less_nat_alt unat_kNumClasses)
    moreover have "unat c \<noteq> largest_class P + 1"
      using False unat_kBatchClassID by (metis word_unat_eq_iff)
    ultimately show "unat c \<le> largest_class P" by simp
  qed
  have prev: "unat (c - 1) = unat c - 1" using uc by (subst unat_sub) (auto simp: word_le_nat_alt)
  have gap: "size_spec P (unat c - 1) + 2 \<le> size_spec P (unat c)"
    using uc by (intro size_spec_mono) auto
  have us: "unat (Size P c) = size_spec P (unat c)" using uc by (simp add: Size_spec)
  have lim: "size_spec P (unat c) \<le> 2 ^ 30"
    using Size_le [OF uc(2)] us max_small power_increasing [of "kMaxSizeLog P" 30 "2::nat"] by linarith
  have nz: "Size P c \<noteq> 0" using us gap by auto
  have lo: "ClassID P (Size P c - 1) = c"
  proof -
    have "unat (Size P c - 1) = size_spec P (unat c) - 1"
      using gap us by (subst unat_sub) (auto simp: word_le_nat_alt)
    with uc gap show ?thesis by (intro ClassID_unique) auto
  qed
  have hi: "ClassID P (Size P c + 1) = c + 1" if "c < kLargestClassID P"
  proof -
    have less: "unat c < largest_class P"
      using that by (simp add: word_less_nat_alt unat_kLargestClassID)
    then have "unat (c + 1) = unat c + 1"
      using classes_small by (subst unat_add_small) auto
    moreover have "unat (Size P c + 1) = size_spec P (unat c) + 1"
      using us lim by (subst unat_add_small) auto
    ultimately show ?thesis
      using less size_spec_Suc [OF less] by (intro ClassID_unique) auto
  qed
  have "Size P (c - 1) < Size P c"
    using gap uc by (simp add: word_less_nat_alt us Size_spec prev)
  then show ?thesis
    using False nz lo hi ClassID_Size_inverse [of c] uc
    by (simp add: Validate_class_def Let_def word_less_nat_alt word_le_nat_alt unat_kLargestClassID)
qed

lemma check_all_ok: "(\<And>x. x \<in> set xs \<Longrightarrow> f x = Inr ()) \<Longrightarrow> check_all f xs = Inr ()"
  by (induction xs) auto

lemma Validate_ok:
  assumes hint: "kMaxNumCachedHint P * 8 \<noteq> 0"
  shows "Validate P = Inr ()"
proof -
  have lim: "(2::nat) ^ kMaxSizeLog P \<le> 2 ^ 30" using max_small by (rule power_increasing) simp
  have "check_all (Validate_class P) (map of_nat [1..<unat (kNumClasses P)]) = Inr ()"
  proof (rule check_all_ok)
    fix c :: uptr
    assume "c \<in> set (map of_nat [1..<unat (kNumClasses P)])"
    then obtain n where n: "c = of_nat n" "1 \<le> n" "n < unat (kNumClasses P)" by auto
    moreover from n have "unat c = n"
      using less_trans [OF n(3) unat_less_64] by (subst n(1), intro unat_of_nat_small) simp
    ultimately show "Validate_class P c = Inr ()"
      using hint by (intro Validate_class_ok) (auto simp: word_less_nat_alt)
  qed
  moreover have "check_all (Validate_size P) (map of_nat [1..<Suc (unat (kMaxSize P))]) = Inr ()"
  proof (rule check_all_ok)
    fix s :: uptr
    assume "s \<in> set (map of_nat [1..<Suc (unat (kMaxSize P))])"
    then obtain n where n: "s = of_nat n" "1 \<le> n" "n \<le> unat (kMaxSize P)" by auto
    moreover from n have "unat s = n"
      using le_less_trans [OF n(3) unat_less_64] by (subst n(1), intro unat_of_nat_small) simp
    ultimately show "Validate_size P s = Inr ()"
      by (intro Validate_size_ok) (auto simp: word_less_nat_alt word_le_nat_alt)
  qed
  moreover have "kMaxSize P + 1 > kMaxSize P"
    using lim by (simp add: word_less_nat_alt unat_kMaxSize unat_add_small)
  then have "ClassID P (kMaxSize P + 1) = 0" by (simp add: ClassID_def)
  ultimately show ?thesis by (simp add: Validate_def)
qed

end


section \<open>The maps of the code\<close>

lemmas map_defs = DefaultSizeClassMap_def CompactSizeClassMap_def VeryCompactSizeClassMap_def
  Power2SizeClassMap_def DenseSizeClassMap_def VeryDenseSizeClassMap_def

lemmas class_number_defs = largest_class_def mid_class_def scm_S_def

interpretation default_map: size_class_map DefaultSizeClassMap
  by unfold_locales (simp_all add: map_defs class_number_defs)

interpretation compact_map: size_class_map CompactSizeClassMap
  by unfold_locales (simp_all add: map_defs class_number_defs)

interpretation very_compact_map: size_class_map VeryCompactSizeClassMap
  by unfold_locales (simp_all add: map_defs class_number_defs)

interpretation power2_map: size_class_map Power2SizeClassMap
  by unfold_locales (simp_all add: map_defs class_number_defs)

interpretation dense_map: size_class_map DenseSizeClassMap
  by unfold_locales (simp_all add: map_defs class_number_defs)

interpretation very_dense_map: size_class_map VeryDenseSizeClassMap
  by unfold_locales (simp_all add: map_defs class_number_defs)

text \<open>The constants of the map of the primary allocator.\<close>

lemma very_dense_constants [simp]:
  "kMaxSize VeryDenseSizeClassMap = 65536"
  "kNumClasses VeryDenseSizeClassMap = 32"
  "kBatchClassID VeryDenseSizeClassMap = 31"
  "kLargestClassID VeryDenseSizeClassMap = 30"
  "largest_class VeryDenseSizeClassMap = 30"
  by (simp_all add: kMaxSize_def kNumClasses_def kBatchClassID_def kLargestClassID_def
      kMidClass_def kMidSize_def kMinSize_def class_number_defs VeryDenseSizeClassMap_def push_bit_eq_mult)


section \<open>Properties\<close>

text \<open>
  The self-check the code runs on a size class map passes for every map it defines.
\<close>

theorem maps_validate:
  "Validate DefaultSizeClassMap = Inr () \<and> Validate CompactSizeClassMap = Inr () \<and>
   Validate VeryCompactSizeClassMap = Inr () \<and> Validate Power2SizeClassMap = Inr () \<and>
   Validate DenseSizeClassMap = Inr () \<and> Validate VeryDenseSizeClassMap = Inr ()"
  by (intro conjI default_map.Validate_ok compact_map.Validate_ok very_compact_map.Validate_ok
      power2_map.Validate_ok dense_map.Validate_ok very_dense_map.Validate_ok)
    (simp_all add: map_defs)

text \<open>
  C33. In the map of the primary allocator the class of a request is the smallest class whose
  chunks hold it.
\<close>

theorem ClassID_tight:
  assumes "0 < s" "s \<le> kMaxSize VeryDenseSizeClassMap"
  shows "s \<le> Size VeryDenseSizeClassMap (ClassID VeryDenseSizeClassMap s) \<and>
    (\<forall>c. c < ClassID VeryDenseSizeClassMap s \<longrightarrow> Size VeryDenseSizeClassMap c < s)"
proof (intro conjI allI impI)
  let ?c = "ClassID VeryDenseSizeClassMap s"
  show "s \<le> Size VeryDenseSizeClassMap ?c"
    by (rule very_dense_map.ClassID_Size_fits [OF assms])
  fix c assume c: "c < ?c"
  have b: "0 < unat ?c \<and> unat ?c \<le> 30"
  proof -
    have "0 < unat s" using assms(1) by (simp add: word_less_nat_alt)
    moreover have "unat s \<le> 2 ^ kMaxSizeLog VeryDenseSizeClassMap"
      using assms(2) by (simp only: word_le_nat_alt very_dense_map.unat_kMaxSize)
    ultimately show ?thesis using very_dense_map.class_bracket [of s] by simp
  qed
  then have p: "unat (?c - 1) = unat ?c - 1" by (subst unat_sub) (auto simp: word_le_nat_alt)
  have "size_spec VeryDenseSizeClassMap (unat c) \<le> size_spec VeryDenseSizeClassMap (unat (?c - 1))"
  proof (cases "unat c = unat (?c - 1)")
    case False
    then have "unat c < unat (?c - 1)" "unat (?c - 1) \<le> 30"
      using c b p unfolding word_less_nat_alt by linarith+
    then show ?thesis using very_dense_map.size_spec_mono [of "unat c" "unat (?c - 1)"] by simp
  qed simp
  then have "Size VeryDenseSizeClassMap c \<le> Size VeryDenseSizeClassMap (?c - 1)"
    using b p c by (simp add: word_le_nat_alt word_less_nat_alt very_dense_map.Size_spec)
  also have "\<dots> < s" by (rule very_dense_map.ClassID_Size_fits [OF assms])
  finally show "Size VeryDenseSizeClassMap c < s" .
qed

theorem ClassID_tight_witness:
  "(600 :: uptr) \<le> Size VeryDenseSizeClassMap (ClassID VeryDenseSizeClassMap 600)"
  using ClassID_tight [of 600] by simp

end
