(* ===== verification/Super_Pool.thy ===== *)
theory Super_Pool
  imports Persistent Size_Classes
begin

text \<open>
  The ClusterTag half of \<open>SizeClassAllocator64\<close> (\<open>sanitizer_allocator_primary64.h\<close>): the
  layout of the super pools, the address arithmetic of small chunks, pools, regions, and the
  refill of a per-class cache. \<open>layout\<close> holds the arrays \<open>init_for_clustertag\<close> computes and
  no later operation writes; \<open>ct_state\<close> extends the machine with the lists and counters of the
  super pools. Arrays indexed by a class id are functions of the id.
\<close>

section \<open>Layout and state\<close>

definition kSuperPoolShift :: nat where "kSuperPoolShift = 40"
definition kSuperPoolSize :: uptr where "kSuperPoolSize = 0x10000000000"
definition kSuperPoolMask :: uptr where "kSuperPoolMask = push_bit kSuperPoolShift 1 - 1"
definition kPoolShift :: nat where "kPoolShift = 30"
definition kPoolSize :: uptr where "kPoolSize = push_bit kPoolShift 1"
definition kPoolMask :: uptr where "kPoolMask = push_bit kPoolShift 1 - 1"

abbreviation SCM :: scm_params where "SCM \<equiv> VeryDenseSizeClassMap"

definition superPoolBase :: uptr where "superPoolBase = 0x0000010000000000"
definition superPoolEnd :: uptr where
  "superPoolEnd = superPoolBase + kSuperPoolSize * kBatchClassID SCM"

record layout =
  SuperPoolsBaseAddress :: "uptr \<Rightarrow> uptr"
  AllRegionsInPool :: "uptr \<Rightarrow> u64"
  AvailableChunksInRegion :: "uptr \<Rightarrow> u8"
  SuperPoolsChunkSize :: "uptr \<Rightarrow> uptr"
  SuperPoolsRegionSize :: "uptr \<Rightarrow> uptr"
  MinChunkInPerClass :: "uptr \<Rightarrow> u16"
  MaxChunkInPerClass :: "uptr \<Rightarrow> u16"

definition empty_layout :: layout where
  "empty_layout = \<lparr> SuperPoolsBaseAddress = (\<lambda>_. 0), AllRegionsInPool = (\<lambda>_. 0),
     AvailableChunksInRegion = (\<lambda>_. 0), SuperPoolsChunkSize = (\<lambda>_. 0),
     SuperPoolsRegionSize = (\<lambda>_. 0), MinChunkInPerClass = (\<lambda>_. 0), MaxChunkInPerClass = (\<lambda>_. 0) \<rparr>"

record ct_state = pool_state +
  SuperPoolsPoolLinkedList :: "uptr \<Rightarrow> CTPoolList"
  SuperPoolsRegionList :: "uptr \<Rightarrow> CTRegionList"
  SuperPoolsFreedRegionList :: "uptr \<Rightarrow> CTRegionList"
  SuperPoolChunkInfo :: "uptr \<Rightarrow> CTSuperPoolChunkInfo"

section \<open>Initialisation\<close>

text \<open>The body of the loop of \<open>init_for_clustertag\<close> for one class.\<close>

definition init_class ::
    "ct_globals \<Rightarrow> uptr \<Rightarrow> layout \<times> 'a ct_state_scheme \<Rightarrow> (layout \<times> 'a ct_state_scheme) res" where
  "init_class G i = (\<lambda>(L, s).
     let L = L\<lparr>SuperPoolsBaseAddress := (SuperPoolsBaseAddress L)(i := superPoolBase + i * kSuperPoolSize)\<rparr>;
         L = L\<lparr>SuperPoolsChunkSize := (SuperPoolsChunkSize L)(i := Size SCM i)\<rparr>;
         L = L\<lparr>SuperPoolsRegionSize := (SuperPoolsRegionSize L)(i := SuperPoolsChunkSize L i * 256)\<rparr> in
     andThen (initCTPoolList s) (\<lambda>(pl, s).
     let s = s\<lparr>SuperPoolsPoolLinkedList := (SuperPoolsPoolLinkedList s)(i := pl)\<rparr>;
         n = ucast (256 - RoundUpDivide sizeof_CTRegionInfo (SuperPoolsChunkSize L i)) :: u8;
         L = L\<lparr>AvailableChunksInRegion := (AvailableChunksInRegion L)(i := n)\<rparr> in
     if n < 1 then Inl (Exit 1)
     else
       let L = L\<lparr>AllRegionsInPool := (AllRegionsInPool L)(i := kPoolSize div SuperPoolsRegionSize L i)\<rparr> in
       andThen (persistent_allocate 40 s) (\<lambda>(_, s).
       andThen (CTSuperPoolChunkInfoInit G (SuperPoolsChunkSize L i) s) (\<lambda>(ci, s).
       let s = s\<lparr>SuperPoolChunkInfo := (SuperPoolChunkInfo s)(i := ci)\<rparr> in
       andThen (persistent_allocate 8 s) (\<lambda>(_, s).
       let s = s\<lparr>SuperPoolsRegionList := (SuperPoolsRegionList s)(i := \<lparr> head = 0 \<rparr>)\<rparr> in
       andThen (persistent_allocate 8 s) (\<lambda>(_, s).
       let s = s\<lparr>SuperPoolsFreedRegionList := (SuperPoolsFreedRegionList s)(i := \<lparr> head = 0 \<rparr>)\<rparr>;
           minChunks = ucast ((2 * page_size G) div SuperPoolsChunkSize L i) :: u16;
           L = L\<lparr>MinChunkInPerClass := (MinChunkInPerClass L)(i := if minChunks < 256 then 256 else minChunks)\<rparr>;
           L = L\<lparr>MaxChunkInPerClass := (MaxChunkInPerClass L)(i := MinChunkInPerClass L i + 256)\<rparr>
       in Inr (L, s)))))))"

fun init_classes ::
    "ct_globals \<Rightarrow> nat \<Rightarrow> nat \<Rightarrow> layout \<times> 'a ct_state_scheme \<Rightarrow> (layout \<times> 'a ct_state_scheme) res" where
  "init_classes G i 0 st = Inr st"
| "init_classes G i (Suc n) st = andThen (init_class G (of_nat i) st) (init_classes G (Suc i) n)"

definition init_for_clustertag ::
    "ct_globals \<Rightarrow> 'a ct_state_scheme \<Rightarrow> (ct_globals \<times> layout \<times> 'a ct_state_scheme) res" where
  "init_for_clustertag G s =
     (let L = empty_layout\<lparr>SuperPoolsBaseAddress := (\<lambda>_. 0)(0 := superPoolBase)\<rparr> in
      andThen (init_classes G 1 (unat (kBatchClassID SCM) - 1) (L, s)) (\<lambda>(L, s).
      Inr (G\<lparr>superPoolBase_g := superPoolBase, superPoolEnd_g := superPoolEnd\<rparr>, L, s)))"

section \<open>Addresses of small chunks\<close>

definition isSmallChunk :: "ct_globals \<Rightarrow> uptr \<Rightarrow> bool" where
  "isSmallChunk G untagged_ptr =
     (if untagged_ptr AND NOT (ct_AddressTagMask G) < superPoolBase \<or>
         superPoolEnd \<le> untagged_ptr AND NOT (ct_AddressTagMask G)
      then False else True)"

definition getSuperPoolID :: "ct_globals \<Rightarrow> uptr \<Rightarrow> uptr res" where
  "getSuperPoolID G untagged_ptr =
     (if \<not> isSmallChunk G untagged_ptr then Inl (Exit 1)
      else Inr (drop_bit kSuperPoolShift ((untagged_ptr - superPoolBase) AND NOT kSuperPoolMask)))"

definition getChunkSize :: "ct_globals \<Rightarrow> uptr \<Rightarrow> uptr res" where
  "getChunkSize G untagged_ptr =
     (if \<not> isSmallChunk G untagged_ptr then Inl (Exit 1)
      else andThen (getSuperPoolID G untagged_ptr) (\<lambda>i. Inr (Size SCM i)))"

text \<open>The header of the region of an address, given the chunk size; a division by 0 traps.\<close>

definition getRegionInfo_sized :: "uptr \<Rightarrow> uptr \<Rightarrow> uptr res" where
  "getRegionInfo_sized untagged_ptr chunk_size =
     (let region_size = chunk_size * 256 in
      if region_size = 0 then Inl Died
      else Inr ((untagged_ptr AND NOT kPoolMask) +
                (untagged_ptr AND kPoolMask) div region_size * region_size))"

definition getRegionInfo :: "ct_globals \<Rightarrow> uptr \<Rightarrow> uptr res" where
  "getRegionInfo G untagged_ptr =
     andThen (getChunkSize G untagged_ptr) (\<lambda>chunk_size. getRegionInfo_sized untagged_ptr chunk_size)"

record small_chunk =
  superPoolID :: uptr
  poolID :: uptr
  chunkID :: u8
  chunk_size_of :: uptr
  regionInfo :: uptr

definition parseSmallChunkPtr :: "ct_globals \<Rightarrow> uptr \<Rightarrow> small_chunk res" where
  "parseSmallChunkPtr G untagged_ptr =
     (if \<not> isSmallChunk G untagged_ptr then Inl (Exit 1)
      else
        let spid = drop_bit kSuperPoolShift ((untagged_ptr - superPoolBase) AND NOT kSuperPoolMask);
            pid = drop_bit kPoolShift (untagged_ptr AND kSuperPoolMask);
            chunk_size = Size SCM spid;
            region_size = chunk_size * 256
        in if region_size = 0 then Inl Died
           else
             let info = (untagged_ptr AND NOT kPoolMask) +
                        (untagged_ptr AND kPoolMask) div region_size * region_size;
                 cid = ucast ((untagged_ptr - info) div chunk_size)
             in Inr \<lparr> superPoolID = spid, poolID = pid, chunkID = cid,
                      chunk_size_of = chunk_size, regionInfo = info \<rparr>)"

section \<open>Pools and regions\<close>

text \<open>The inner loop of \<open>CTAllocateNewPool\<close>: is there a node for this pool already?\<close>

fun pool_listed :: "nat \<Rightarrow> pool_store \<Rightarrow> uptr \<Rightarrow> uptr \<Rightarrow> bool res" where
  "pool_listed 0 N currentPool addr = Inl Out_of_fuel"
| "pool_listed (Suc n) N currentPool addr =
     (if currentPool = 0 then Inr False
      else if pool_addr (N currentPool) = addr then Inr True
      else pool_listed n N (pool_next (N currentPool)) addr)"

fun choose_pool ::
    "ct_globals \<Rightarrow> nat \<Rightarrow> uptr \<Rightarrow> CTPoolList \<Rightarrow> 'a ct_state_scheme \<Rightarrow> (uptr \<times> 'a ct_state_scheme) res" where
  "choose_pool G 0 base pl s = Inl Out_of_fuel"
| "choose_pool G (Suc n) base pl s =
     (let (r, s) = generate_random_u64 s;
          randomPoolID = r mod (kSuperPoolSize div kPoolSize);
          new_pool_addr = base + randomPoolID * kPoolSize
      in andThen (pool_listed (loop_fuel G) (PN s) (pl_head pl) new_pool_addr) (\<lambda>duplicate_pool.
         if duplicate_pool then choose_pool G n base pl s else Inr (new_pool_addr, s)))"

definition CTAllocateNewPool ::
    "ct_globals \<Rightarrow> layout \<Rightarrow> uptr \<Rightarrow> 'a ct_state_scheme \<Rightarrow> (uptr \<times> 'a ct_state_scheme) res" where
  "CTAllocateNewPool G L class_id s =
     andThen (choose_pool G (loop_fuel G) (SuperPoolsBaseAddress L class_id)
                (SuperPoolsPoolLinkedList s class_id) s) (\<lambda>(new_pool_addr, s).
     andThen (appendCTPoolList (SuperPoolsPoolLinkedList s class_id) new_pool_addr s) (\<lambda>(pool_node, pl, s).
     let s = s\<lparr>SuperPoolsPoolLinkedList := (SuperPoolsPoolLinkedList s)(class_id := pl)\<rparr> in
     andThen (CTFixedMapOrDie G new_pool_addr kPoolSize s) (\<lambda>(pool_map_status, s).
     if \<not> pool_map_status then Inl (Exit 1) else Inr (pool_node, s))))"

text \<open>The first loop of \<open>CTAllocateNewRegion\<close>; 0 when no pool is sparse enough.\<close>

fun find_pool :: "ct_globals \<Rightarrow> nat \<Rightarrow> u64 \<Rightarrow> pool_store \<Rightarrow> uptr \<Rightarrow> uptr res" where
  "find_pool G 0 regions N currentPool = Inl Out_of_fuel"
| "find_pool G (Suc n) regions N currentPool =
     (if currentPool = 0 then Inr 0
      else if density (N currentPool) * scast (ct_pool_density G) < regions then Inr currentPool
      else find_pool G n regions N (pool_next (N currentPool)))"

fun choose_region ::
    "nat \<Rightarrow> uptr \<Rightarrow> uptr \<Rightarrow> u64 \<Rightarrow> 'a ct_state_scheme \<Rightarrow> (uptr \<times> 'a ct_state_scheme) res" where
  "choose_region 0 pool region_size regions s = Inl Out_of_fuel"
| "choose_region (Suc n) pool region_size regions s =
     (let (r, s) = generate_random_u64 s;
          randomRegionID = r mod regions;
          addr = pool + region_size * randomRegionID;
          new_region = (if status (RI s addr) = 0 then addr else 0)
      in if new_region = 0 then choose_region n pool region_size regions s
         else Inr (new_region, s))"

definition CTAllocateNewRegion ::
    "ct_globals \<Rightarrow> layout \<Rightarrow> uptr \<Rightarrow> 'a ct_state_scheme \<Rightarrow> (uptr \<times> 'a ct_state_scheme) res" where
  "CTAllocateNewRegion G L class_id s =
     andThen (check (class_id \<noteq> 0)) (\<lambda>_.
     andThen (check (class_id < kNumClasses SCM)) (\<lambda>_.
     let region_size = SuperPoolsRegionSize L class_id in
     andThen (IsAligned region_size (page_size G)) (\<lambda>al.
     andThen (check al) (\<lambda>_.
     andThen (find_pool G (loop_fuel G) (AllRegionsInPool L class_id) (PN s)
                (pl_head (SuperPoolsPoolLinkedList s class_id))) (\<lambda>found.
     andThen (if found = 0 then CTAllocateNewPool G L class_id s else Inr (found, s)) (\<lambda>(findPoolNode, s).
     if AllRegionsInPool L class_id = 0 then Inl Died else
     andThen (choose_region (loop_fuel G) (pool_addr (PN s findPoolNode)) region_size
                (AllRegionsInPool L class_id) s) (\<lambda>(new_region, s).
     let s = s\<lparr>RI := upd new_region (\<lambda>r. r\<lparr>status := 1, freed_num := 0, in_free_list := 0,
                                          parent_pool := findPoolNode\<rparr>) (RI s)\<rparr> in
     andThen (insertInOrder (loop_fuel G) new_region (RI s) (SuperPoolsRegionList s class_id)) (\<lambda>(R, l).
     let s = s\<lparr>RI := R, SuperPoolsRegionList := (SuperPoolsRegionList s)(class_id := l)\<rparr>;
         s = s\<lparr>PN := (PN s)(findPoolNode := (PN s findPoolNode)\<lparr>density := density (PN s findPoolNode) + 1\<rparr>)\<rparr>;
         ci = SuperPoolChunkInfo s class_id;
         s = s\<lparr>SuperPoolChunkInfo := (SuperPoolChunkInfo s)(class_id := ci\<lparr>region_num := region_num ci + 1\<rparr>)\<rparr>
     in Inr (new_region, s)))))))))"

section \<open>Refilling a per-class cache\<close>

record CTPerClass =
  pc_count :: u32
  batch :: "nat \<Rightarrow> uptr"
  chunk_tag :: "nat \<Rightarrow> u8"
  class_size :: uptr

definition zero_per_class :: CTPerClass where
  "zero_per_class = \<lparr> pc_count = 0, batch = (\<lambda>_. 0), chunk_tag = (\<lambda>_. 0), class_size = 0 \<rparr>"

definition kBatchLen :: nat where "kBatchLen = 1024"

text \<open>
  The loop of \<open>CTRefillFromRegionList\<close> over the chunks of one region. Its variables are the
  tags of the region, the cache, \<open>batch_idx\<close>, \<open>first_ele\<close> (-1 for none) and \<open>last_tag\<close>.
\<close>

record collect =
  co_tags :: "nat \<Rightarrow> u8"
  co_cache :: CTPerClass
  batch_idx :: nat
  first_ele :: int
  last_tag :: u8

definition collect_chunk :: "uptr \<Rightarrow> uptr \<Rightarrow> nat \<Rightarrow> collect \<Rightarrow> collect res" where
  "collect_chunk cur_region chunk_size i v =
     (let cur_chunk_tag = co_tags v i in
      if cur_chunk_tag \<noteq> 0 then
        let v = (if first_ele v = -1 then v\<lparr>first_ele := int (batch_idx v)\<rparr> else v) in
        if kBatchLen \<le> batch_idx v + 1 then Inl Out_of_bounds
        else
          let c = co_cache v;
              c = c\<lparr>chunk_tag := (chunk_tag c)(batch_idx v + 1 := cur_chunk_tag)\<rparr>;
              v = v\<lparr>last_tag := cur_chunk_tag\<rparr>;
              c = c\<lparr>batch := (batch c)(batch_idx v := cur_region + chunk_size * of_nat i)\<rparr>;
              v = v\<lparr>co_cache := c, batch_idx := batch_idx v + 1\<rparr>
          in Inr (v\<lparr>co_tags := (co_tags v)(i := 0)\<rparr>)
      else Inr v)"

fun collect_chunks :: "uptr \<Rightarrow> uptr \<Rightarrow> nat list \<Rightarrow> collect \<Rightarrow> collect res" where
  "collect_chunks cur_region chunk_size [] v = Inr v"
| "collect_chunks cur_region chunk_size (i # is) v =
     andThen (collect_chunk cur_region chunk_size i v) (collect_chunks cur_region chunk_size is)"

text \<open>
  The variables of the outer loop: the headers, the head of the list, the counters of the super
  pool, the cache and the cursor.
\<close>

record refill =
  rf_R :: region_store
  rf_list :: CTRegionList
  rf_spc :: CTSuperPoolChunkInfo
  rf_cache :: CTPerClass
  rf_idx :: nat
  rf_cur :: uptr
  rf_prev :: uptr
  rf_start :: uptr
  rf_cycle :: bool

text \<open>Take every free chunk of the current region, hand each the tag of its predecessor.\<close>

definition take_region :: "nat \<Rightarrow> uptr \<Rightarrow> refill \<Rightarrow> refill res" where
  "take_region mx chunk_size v =
     (if rf_cur v = 0 then Inl Null_deref else
      let r = rf_R v (rf_cur v) in
      andThen (collect_chunks (rf_cur v) chunk_size [256 - mx..<256]
                 \<lparr> co_tags = chunk_last_tag r, co_cache = rf_cache v, batch_idx = rf_idx v,
                   first_ele = -1, last_tag = 0 \<rparr>) (\<lambda>w.
      if first_ele w = -1 then Inl Out_of_bounds
      else
        let c = co_cache w;
            c = c\<lparr>chunk_tag := (chunk_tag c)(nat (first_ele w) := last_tag w)\<rparr>;
            c = c\<lparr>pc_count := pc_count c + ucast (freed_num r)\<rparr>;
            spc = rf_spc v;
            spc = spc\<lparr>free_chunk_num := free_chunk_num spc - ucast (freed_num r),
                      free_region_num := free_region_num spc - 1\<rparr>;
            R = upd (rf_cur v) (\<lambda>r. r\<lparr>chunk_last_tag := co_tags w, freed_num := 0,
                                         in_free_list := 0\<rparr>) (rf_R v)
        in Inr (v\<lparr>rf_R := R, rf_spc := spc, rf_cache := c, rf_idx := batch_idx w\<rparr>)))"

text \<open>The loop that takes regions until the minimum is reached or the list is used up.\<close>

fun refill_loop :: "nat \<Rightarrow> u64 \<Rightarrow> nat \<Rightarrow> uptr \<Rightarrow> refill \<Rightarrow> (bool \<times> refill) res" where
  "refill_loop 0 need_chunk_min mx chunk_size v = Inl Out_of_fuel"
| "refill_loop (Suc n) need_chunk_min mx chunk_size v =
     (if unat need_chunk_min \<le> rf_idx v then
        (if rf_prev v \<noteq> 0 then
           if rf_cycle v then
             Inr (True, v\<lparr>rf_R := set_freed_next (rf_prev v) 0 (rf_R v),
                          rf_list := (rf_list v)\<lparr>head := rf_cur v\<rparr>\<rparr>)
           else
             Inr (True, v\<lparr>rf_R := set_freed_next (rf_prev v) (rf_cur v) (rf_R v)\<rparr>)
         else Inr (True, v\<lparr>rf_list := (rf_list v)\<lparr>head := rf_cur v\<rparr>\<rparr>))
      else
        andThen (take_region mx chunk_size v) (\<lambda>v.
        let v = v\<lparr>rf_cur := freed_next (rf_R v (rf_cur v))\<rparr>;
            v = (if rf_cur v = 0
                 then v\<lparr>rf_cur := head (rf_list v), rf_cycle := True\<rparr> else v)
        in if rf_cur v = rf_start v
           then let v = v\<lparr>rf_list := (rf_list v)\<lparr>head := 0\<rparr>\<rparr>
                in if pc_count (rf_cache v) = 0 then Inr (False, v) else Inr (True, v)
           else refill_loop n need_chunk_min mx chunk_size v))"

text \<open>The walk to the random start; it yields the node before the start and the start.\<close>

fun walk_freed :: "nat \<Rightarrow> region_store \<Rightarrow> uptr \<Rightarrow> uptr \<Rightarrow> (uptr \<times> uptr) res" where
  "walk_freed 0 R prev cur = Inr (prev, cur)"
| "walk_freed (Suc n) R prev cur =
     (if cur = 0 then Inl Null_deref else walk_freed n R cur (freed_next (R cur)))"

definition CTRefillFromRegionList ::
    "ct_globals \<Rightarrow> layout \<Rightarrow> CTPerClass \<Rightarrow> uptr \<Rightarrow> u64 \<Rightarrow> u64 \<Rightarrow> 'a ct_state_scheme \<Rightarrow>
     (bool \<times> CTPerClass \<times> 'a ct_state_scheme) res" where
  "CTRefillFromRegionList G L c class_id need_chunk_min need_chunk_max s =
     (let spc = SuperPoolChunkInfo s class_id in
      if free_chunk_num spc < need_chunk_min then Inr (False, c, s)
      else
        let l = SuperPoolsFreedRegionList s class_id;
            mx = unat (AvailableChunksInRegion L class_id);
            chunk_size = SuperPoolsChunkSize L class_id;
            (r, s) = genRandom s in
        if free_region_num spc = 0 then Inl Died
        else
          let random_region_idx =
                (if 64 < free_region_num spc then ucast (r mod 64) else ucast r mod free_region_num spc) in
          andThen (walk_freed (unat random_region_idx) (RI s) 0 (head l)) (\<lambda>(prev, start).
          andThen (refill_loop (loop_fuel G) need_chunk_min mx chunk_size
                     \<lparr> rf_R = RI s, rf_list = l, rf_spc = spc,
                       rf_cache = c\<lparr>class_size := chunk_size, pc_count := 0\<rparr>, rf_idx = 0,
                       rf_cur = start, rf_prev = prev, rf_start = start,
                       rf_cycle = False \<rparr>) (\<lambda>(ok, v).
          Inr (ok, rf_cache v,
               s\<lparr>RI := rf_R v,
                 SuperPoolsFreedRegionList := (SuperPoolsFreedRegionList s)(class_id := rf_list v),
                 SuperPoolChunkInfo := (SuperPoolChunkInfo s)(class_id := rf_spc v)\<rparr>))))"

text \<open>Fisher-Yates, as \<open>CTRefill\<close> writes it for the tags and for the addresses.\<close>

fun shuffle :: "nat \<Rightarrow> (nat \<Rightarrow> 'b) \<Rightarrow> 'a machine_scheme \<Rightarrow> (nat \<Rightarrow> 'b) \<times> 'a machine_scheme" where
  "shuffle 0 a s = (a, s)"
| "shuffle (Suc i) a s =
     (let (rand_num, s) = genRandom s;
          j = unat rand_num mod (Suc i + 1);
          temp = a (Suc i);
          a = a(Suc i := a j);
          a = a(j := temp)
      in shuffle i a s)"

fun fill_batch :: "nat \<Rightarrow> nat \<Rightarrow> uptr \<Rightarrow> uptr \<Rightarrow> CTPerClass \<Rightarrow> CTPerClass" where
  "fill_batch i 0 addr chunk_size c = c"
| "fill_batch i (Suc n) addr chunk_size c =
     fill_batch (Suc i) n (addr + chunk_size) chunk_size
       (c\<lparr>batch := (batch c)(i := addr), chunk_tag := (chunk_tag c)(i := of_nat (i + 1))\<rparr>)"

definition fresh_batch ::
    "ct_globals \<Rightarrow> nat \<Rightarrow> uptr \<Rightarrow> uptr \<Rightarrow> CTPerClass \<Rightarrow> 'a machine_scheme \<Rightarrow> CTPerClass \<times> 'a machine_scheme" where
  "fresh_batch G n region_addr chunk_size c s =
     (let c = c\<lparr>class_size := chunk_size, pc_count := of_nat n\<rparr>;
          c = fill_batch 0 n (region_addr + chunk_size * of_nat (256 - n)) chunk_size c;
          (tags, s) = shuffle (n - 1) (chunk_tag c) s;
          c = c\<lparr>chunk_tag := tags\<rparr>
      in if ct_randomize_region G
         then let (b, s) = shuffle (n - 1) (batch c) s in (c\<lparr>batch := b\<rparr>, s)
         else (c, s))"

definition CTRefill ::
    "ct_globals \<Rightarrow> layout \<Rightarrow> CTPerClass \<Rightarrow> uptr \<Rightarrow> 'a ct_state_scheme \<Rightarrow>
     (bool \<times> CTPerClass \<times> 'a ct_state_scheme) res" where
  "CTRefill G L c class_id s =
     (if kBatchClassID SCM \<le> class_id then Inl Out_of_bounds else
      let chunk_size = SuperPoolsChunkSize L class_id;
          n = unat (AvailableChunksInRegion L class_id) in
      andThen (if ucast (MinChunkInPerClass L class_id) \<le> free_chunk_num (SuperPoolChunkInfo s class_id)
               then CTRefillFromRegionList G L c class_id (ucast (MinChunkInPerClass L class_id))
                      (ucast (MaxChunkInPerClass L class_id)) s
               else Inr (False, c, s)) (\<lambda>(refill_from_free_list, c, s).
      if refill_from_free_list then Inr (True, c, s)
      else
        andThen (CTAllocateNewRegion G L class_id s) (\<lambda>(region_addr, s).
        let (c, s) = fresh_batch G n region_addr chunk_size c s in Inr (True, c, s))))"

end
