(* ===== verification/Region_Release.thy ===== *)
theory Region_Release
  imports Super_Pool
begin

text \<open>
  Returning memory of free regions to the kernel (\<open>my_tools.cpp\<close> and the release functions of
  \<open>sanitizer_allocator_primary64.h\<close>): the tracker that joins adjacent free pages, the counting
  of free chunks per page, the release of whole regions with their shadow, and
  \<open>CTReleasePeriodically\<close>, which walks the list of the regions with free chunks. The last part
  is the mapping of large chunks. The counters live in the persistent allocator; here they are a
  function with the bound \<open>num_counters\<close> checked at each write.
\<close>

section \<open>The range tracker\<close>

record CTFreePagesRangeTracker =
  in_the_range :: bool
  current_page :: uptr
  current_range_start_page :: uptr

definition CTFreePagesRangeTrackerInit :: "uptr \<Rightarrow> CTFreePagesRangeTracker" where
  "CTFreePagesRangeTrackerInit page_start =
     \<lparr> in_the_range = False, current_page = page_start, current_range_start_page = 0 \<rparr>"

definition CTFreePagesRangeTrackerCloseOpenedRange ::
    "ct_globals \<Rightarrow> CTFreePagesRangeTracker \<times> 'a machine_scheme \<Rightarrow>
     (CTFreePagesRangeTracker \<times> 'a machine_scheme) res" where
  "CTFreePagesRangeTrackerCloseOpenedRange G = (\<lambda>(t, s).
     if in_the_range t then
       andThen (CTAdvise G (current_range_start_page t) (current_page t - current_range_start_page t) s) (\<lambda>s.
       andThen (RoundUpTo (current_range_start_page t) (page_size G)) (\<lambda>range_shadow_start_page.
       let range_shadow_end_page = RoundDownTo (current_page t) (page_size G) in
       andThen (if range_shadow_start_page < range_shadow_end_page
                then CTAdvise G range_shadow_start_page (range_shadow_end_page - range_shadow_start_page) s
                else Inr s) (\<lambda>s.
       Inr (t\<lparr>in_the_range := False\<rparr>, s))))
     else Inr (t, s))"

definition CTFreePagesRangeTrackerNextPage ::
    "ct_globals \<Rightarrow> bool \<Rightarrow> CTFreePagesRangeTracker \<times> 'a machine_scheme \<Rightarrow>
     (CTFreePagesRangeTracker \<times> 'a machine_scheme) res" where
  "CTFreePagesRangeTrackerNextPage G freed = (\<lambda>(t, s).
     andThen (if freed then
                Inr (if \<not> in_the_range t
                     then t\<lparr>current_range_start_page := current_page t, in_the_range := True\<rparr>
                     else t, s)
              else CTFreePagesRangeTrackerCloseOpenedRange G (t, s)) (\<lambda>(t, s).
     Inr (t\<lparr>current_page := current_page t + page_size G\<rparr>, s)))"

definition CTFreePagesRangeTrackerDone ::
    "ct_globals \<Rightarrow> CTFreePagesRangeTracker \<times> 'a machine_scheme \<Rightarrow>
     (CTFreePagesRangeTracker \<times> 'a machine_scheme) res" where
  "CTFreePagesRangeTrackerDone G = CTFreePagesRangeTrackerCloseOpenedRange G"

fun track_pages ::
    "ct_globals \<Rightarrow> bool list \<Rightarrow> CTFreePagesRangeTracker \<times> 'a machine_scheme \<Rightarrow>
     (CTFreePagesRangeTracker \<times> 'a machine_scheme) res" where
  "track_pages G [] st = Inr st"
| "track_pages G (b # bs) st = andThen (CTFreePagesRangeTrackerNextPage G b st) (track_pages G bs)"

section \<open>Free chunks per page\<close>

definition check_fast_release_path :: "uptr \<Rightarrow> u64 \<Rightarrow> (uptr \<times> bool) res" where
  "check_fast_release_path page chunk_size =
     (if page = 0 \<or> chunk_size = 0 then Inl Died
      else if chunk_size \<le> page \<and> page mod chunk_size = 0 then Inr (page div chunk_size, True)
      else if chunk_size \<le> page \<and> page mod chunk_size \<noteq> 0 \<and>
              chunk_size mod (page mod chunk_size) = 0 then Inr (page div chunk_size + 1, True)
      else if chunk_size \<le> page then Inr (page div chunk_size + 2, False)
      else if chunk_size > page \<and> chunk_size mod page = 0 then Inr (1, True)
      else if chunk_size > page then Inr (2, False)
      else Inl Died)"

definition bump :: "uptr \<Rightarrow> nat \<Rightarrow> (nat \<Rightarrow> u8) \<Rightarrow> (nat \<Rightarrow> u8) res" where
  "bump num_counters j cs =
     (if unat num_counters \<le> j then Inl Out_of_bounds else Inr (cs(j := cs j + 1)))"

fun bump_all :: "uptr \<Rightarrow> nat list \<Rightarrow> (nat \<Rightarrow> u8) \<Rightarrow> (nat \<Rightarrow> u8) res" where
  "bump_all num_counters [] cs = Inr cs"
| "bump_all num_counters (j # js) cs = andThen (bump num_counters j cs) (bump_all num_counters js)"

text \<open>
  The two counting loops; \<open>last_page\<close> says which pages the chunk at an offset is counted on:
  the page of its first byte only when chunks never cross a page, else up to the page of its
  last byte.
\<close>

fun count_chunks ::
    "uptr \<Rightarrow> nat \<Rightarrow> (nat \<Rightarrow> u8) \<Rightarrow> uptr \<Rightarrow> bool \<Rightarrow> nat list \<Rightarrow> u64 \<Rightarrow> (nat \<Rightarrow> u8) \<Rightarrow> (nat \<Rightarrow> u8) res" where
  "count_chunks num_counters page_shift tags chunk_size one_page [] off cs = Inr cs"
| "count_chunks num_counters page_shift tags chunk_size one_page (i # is) off cs =
     andThen (if tags i \<noteq> 0 then
                let p = unat (drop_bit page_shift off);
                    q = (if one_page then p else unat (drop_bit page_shift (off + chunk_size - 1)))
                in bump_all num_counters [p..<Suc q] cs
              else Inr cs)
       (count_chunks num_counters page_shift tags chunk_size one_page is (off + chunk_size))"

text \<open>The number of chunks on each page, when it differs from page to page.\<close>

fun chunks_per_pages :: "uptr \<Rightarrow> uptr \<Rightarrow> nat \<Rightarrow> uptr \<Rightarrow> uptr \<Rightarrow> uptr list" where
  "chunks_per_pages page chunk_size 0 prev_page_boundary current_boundary = []"
| "chunks_per_pages page chunk_size (Suc n) prev_page_boundary current_boundary =
     (let pn = (if chunk_size < page then page div chunk_size else 1);
          pnc = pn * chunk_size;
          page_boundary = prev_page_boundary + page;
          chunks_per_page = pn;
          (chunks_per_page, current_boundary) =
            (if current_boundary < page_boundary then
               let chunks_per_page = (if prev_page_boundary < current_boundary
                                      then chunks_per_page + 1 else chunks_per_page);
                   current_boundary = current_boundary + pnc
               in if current_boundary < page_boundary
                  then (chunks_per_page + 1, current_boundary + chunk_size)
                  else (chunks_per_page, current_boundary)
             else (chunks_per_page, current_boundary))
      in chunks_per_page # chunks_per_pages page chunk_size n page_boundary current_boundary)"

definition page_flags ::
    "uptr \<Rightarrow> uptr \<Rightarrow> uptr \<Rightarrow> bool \<Rightarrow> uptr \<Rightarrow> (nat \<Rightarrow> u8) \<Rightarrow> bool list" where
  "page_flags num_counters chunk_size full_pages_chunk_count_max same_chunk_count_per_page page cs =
     (if same_chunk_count_per_page
      then map (\<lambda>i. ucast (cs i) = full_pages_chunk_count_max) [0..<unat num_counters]
      else map (\<lambda>(i, n). ucast (cs i) = n)
             (zip [0..<unat num_counters] (chunks_per_pages page chunk_size (unat num_counters) 0 0)))"

definition CTReleaseRegionFragment ::
    "ct_globals \<Rightarrow> uptr \<Rightarrow> uptr \<Rightarrow> uptr \<Rightarrow> bool \<Rightarrow> u8 \<Rightarrow> uptr \<Rightarrow> u8 \<Rightarrow> 'a machine_scheme \<Rightarrow>
     'a machine_scheme res" where
  "CTReleaseRegionFragment G num_counters chunk_size full_pages_chunk_count_max
       same_chunk_count_per_page max_chunks_in_region cur_region_info page_shift s =
     (if chunk_size = 0 then Inl Died else
      let first = 256 - unat max_chunks_in_region;
          one_page = (chunk_size \<le> page_size G \<and> page_size G mod chunk_size = 0) in
      andThen (count_chunks num_counters (unat page_shift) (chunk_last_tag (RI s cur_region_info))
                 chunk_size one_page [first..<256] (of_nat first * chunk_size) (\<lambda>_. 0)) (\<lambda>cs.
      andThen (track_pages G
                 (page_flags num_counters chunk_size full_pages_chunk_count_max
                    same_chunk_count_per_page (page_size G) cs)
                 (CTFreePagesRangeTrackerInit cur_region_info, s)) (\<lambda>ts.
      andThen (CTFreePagesRangeTrackerDone G ts) (\<lambda>(t, s). Inr s))))"

section \<open>Whole regions\<close>

definition CTReleaseRegion ::
    "ct_globals \<Rightarrow> layout \<Rightarrow> uptr \<Rightarrow> uptr \<Rightarrow> 'a machine_scheme \<Rightarrow> 'a machine_scheme res" where
  "CTReleaseRegion G L region_base class_id s =
     (let region_size = SuperPoolsRegionSize L class_id in
      andThen (IsAligned region_base (page_size G)) (\<lambda>al. andThen (check al) (\<lambda>_.
      andThen (IsAligned region_size (page_size G)) (\<lambda>al. andThen (check al) (\<lambda>_.
      let s = s\<lparr>RI := upd region_base (status_update (\<lambda>_. 0)) (RI s)\<rparr> in
      CTAdvise G region_base region_size s)))))"

definition CTReleaseShadowMemory ::
    "ct_globals \<Rightarrow> uptr \<Rightarrow> uptr \<Rightarrow> 'a machine_scheme \<Rightarrow> 'a machine_scheme res" where
  "CTReleaseShadowMemory G region_base region_size s =
     (let unmap_lower = CTUntaggedPointerToShadow G region_base;
          aligned_unmap_lower = RoundDownTo unmap_lower (page_size G);
          unmap_upper = CTUntaggedPointerToShadow G (region_base + region_size) in
      andThen (RoundUpTo unmap_upper (page_size G)) (\<lambda>aligned_unmap_upper.
      let region_info = RI s region_base;
          aligned_unmap_lower_free =
            (if ri_prev region_info = 0 then True
             else let prev_region_end = ri_prev region_info + region_size
                  in CTUntaggedPointerToShadow G prev_region_end \<le> aligned_unmap_lower);
          aligned_unmap_upper_free =
            (if ri_next region_info = 0 then True
             else let next_region_start = ri_next region_info
                  in aligned_unmap_upper \<le> CTUntaggedPointerToShadow G next_region_start)
      in if aligned_unmap_lower_free \<and> aligned_unmap_upper_free
         then CTAdvise G aligned_unmap_lower (aligned_unmap_upper - aligned_unmap_lower) s
         else Inr s))"

section \<open>The periodic release\<close>

definition CHUNK_RECYCLE_RATE :: "ct_globals \<Rightarrow> u64" where
  "CHUNK_RECYCLE_RATE G = 1 * page_size G"

text \<open>\<open>max_free_chunks\<close> is a \<open>u8\<close>: a region with more free chunks is released in fragments.\<close>

definition max_free_chunks :: "ct_globals \<Rightarrow> uptr \<Rightarrow> u8" where
  "max_free_chunks G chunk_size = ucast (RoundUpDivide (CHUNK_RECYCLE_RATE G) chunk_size)"

text \<open>The first branch of the loop: every chunk of the region is free, the region goes.\<close>

definition release_whole ::
    "ct_globals \<Rightarrow> layout \<Rightarrow> uptr \<Rightarrow> uptr \<Rightarrow> uptr \<Rightarrow> 'a ct_state_scheme \<Rightarrow> 'a ct_state_scheme res" where
  "release_whole G L class_id prev_region cur s =
     (let fn = freed_next (RI s cur);
          s = s\<lparr>RI := upd cur (in_free_list_update (\<lambda>_. 0)) (RI s)\<rparr>;
          s = (if prev_region = 0
               then s\<lparr>SuperPoolsFreedRegionList :=
                        (SuperPoolsFreedRegionList s)(class_id := \<lparr> head = fn \<rparr>)\<rparr>
               else s\<lparr>RI := set_freed_next prev_region fn (RI s)\<rparr>);
          (R, l) = deleteFromList cur (RI s) (SuperPoolsRegionList s class_id);
          s = s\<lparr>RI := R, SuperPoolsRegionList := (SuperPoolsRegionList s)(class_id := l)\<rparr> in
      andThen (CTReleaseShadowMemory G cur (SuperPoolsRegionSize L class_id) s) (\<lambda>s.
      let pn = parent_pool (RI s cur) in
      if pn = 0 then Inl Null_deref else
      let s = s\<lparr>PN := (PN s)(pn := (PN s pn)\<lparr>density := density (PN s pn) - 1\<rparr>)\<rparr>;
          ci = SuperPoolChunkInfo s class_id;
          ci = ci\<lparr>free_chunk_num := free_chunk_num ci - ucast (AvailableChunksInRegion L class_id),
                  region_num := region_num ci - 1, free_region_num := free_region_num ci - 1\<rparr>;
          s = s\<lparr>SuperPoolChunkInfo := (SuperPoolChunkInfo s)(class_id := ci)\<rparr> in
      CTReleaseRegion G L cur class_id s))"

fun release_loop ::
    "ct_globals \<Rightarrow> layout \<Rightarrow> uptr \<Rightarrow> uptr \<Rightarrow> uptr \<Rightarrow> bool \<Rightarrow> u8 \<Rightarrow> nat \<Rightarrow> uptr \<Rightarrow> uptr \<Rightarrow>
     'a ct_state_scheme \<Rightarrow> 'a ct_state_scheme res" where
  "release_loop G L class_id num_counters full_pages same page_shift 0 prev_region cur s = Inl Out_of_fuel"
| "release_loop G L class_id num_counters full_pages same page_shift (Suc n) prev_region cur s =
     (if cur = 0 then Inr s
      else if freed_num (RI s cur) = AvailableChunksInRegion L class_id then
        let nxt = freed_next (RI s cur) in
        andThen (release_whole G L class_id prev_region cur s) (\<lambda>s.
        release_loop G L class_id num_counters full_pages same page_shift n prev_region nxt s)
      else if max_free_chunks G (SuperPoolsChunkSize L class_id) < freed_num (RI s cur) then
        andThen (CTReleaseRegionFragment G num_counters (SuperPoolsChunkSize L class_id) full_pages same
                   (AvailableChunksInRegion L class_id) cur page_shift s) (\<lambda>s.
        release_loop G L class_id num_counters full_pages same page_shift n cur (freed_next (RI s cur)) s)
      else
        release_loop G L class_id num_counters full_pages same page_shift n cur (freed_next (RI s cur)) s)"

definition persistent_free ::
    "uptr \<Rightarrow> 'a pool_state_scheme \<Rightarrow> 'a pool_state_scheme res" where
  "persistent_free p s =
     andThen (CTPersistentAllocatorFree p False (persistent s)) (\<lambda>pa. Inr (s\<lparr>persistent := pa\<rparr>))"

definition CTReleasePeriodically ::
    "ct_globals \<Rightarrow> layout \<Rightarrow> uptr \<Rightarrow> 'a ct_state_scheme \<Rightarrow> 'a ct_state_scheme res" where
  "CTReleasePeriodically G L class_id s =
     (let chunk_size = SuperPoolsChunkSize L class_id in
      if chunk_size = 0 then Inl Died else
      andThen (San_Log2 (page_size G)) (\<lambda>page_shift.
      andThen (check_fast_release_path (page_size G) chunk_size) (\<lambda>(full_pages, same).
      let num_counters = RoundUpDivide (chunk_size * 256) (page_size G) in
      andThen (persistent_allocate num_counters s) (\<lambda>(counters, s).
      andThen (release_loop G L class_id num_counters full_pages same (ucast page_shift) (loop_fuel G)
                 0 (head (SuperPoolsFreedRegionList s class_id)) s) (\<lambda>s.
      persistent_free counters s)))))"

section \<open>Large chunks\<close>

text \<open>Two 64-bit fields at the start of the mapping: the allocated and the requested size.\<close>

definition GetCTLargeChunkHeader :: "uptr \<Rightarrow> uptr" where
  "GetCTLargeChunkHeader p = p - 16"

definition allocated_size :: "(uptr \<Rightarrow> u8) \<Rightarrow> uptr \<Rightarrow> u64" where
  "allocated_size m header = load64 m header"

definition requested_size :: "(uptr \<Rightarrow> u8) \<Rightarrow> uptr \<Rightarrow> u64" where
  "requested_size m header = load64 m (header + 8)"

definition CTGetRequestedSize :: "ct_globals \<Rightarrow> uptr \<Rightarrow> 'a machine_scheme \<Rightarrow> uptr" where
  "CTGetRequestedSize G untagged_ptr s =
     (if isSmallChunk G untagged_ptr
      then Size SCM (drop_bit kSuperPoolShift ((untagged_ptr - superPoolBase) AND NOT kSuperPoolMask))
      else requested_size (mem s) (GetCTLargeChunkHeader untagged_ptr))"

definition Map_large_chunk ::
    "ct_globals \<Rightarrow> uptr \<Rightarrow> 'a machine_scheme \<Rightarrow> (uptr \<times> 'a machine_scheme) res" where
  "Map_large_chunk G map_size s =
     (let addr_alignment = 4096 * 16 in
      andThen (IsAligned map_size (page_size G)) (\<lambda>al. andThen (check al) (\<lambda>_.
      andThen (MmapAlignedOrDieOnFatalError G map_size addr_alignment s) (\<lambda>(large_chunk_beg, s).
      if large_chunk_beg = 0 then Inl (Exit 1)
      else if CTMapBlackCheck G large_chunk_beg map_size = False then Inl (Exit 1)
      else andThen (IsAligned large_chunk_beg addr_alignment) (\<lambda>al.
        if \<not> al then Inl (Exit 1) else Inr (large_chunk_beg, s))))))"

definition CTDeallocateLargeChunk ::
    "ct_globals \<Rightarrow> uptr \<Rightarrow> 'a machine_scheme \<Rightarrow> 'a machine_scheme res" where
  "CTDeallocateLargeChunk G p s =
     (let chunkHeader = GetCTLargeChunkHeader p;
          target_shadow_memory_start =
            RoundDownTo (CTUntaggedPointerToShadow G chunkHeader) (page_size G) in
      andThen (RoundUpTo (CTUntaggedPointerToShadow G (chunkHeader + allocated_size (mem s) chunkHeader))
                 (page_size G)) (\<lambda>target_shadow_memory_end.
      andThen (CTFixedMapForced G target_shadow_memory_start
                 (target_shadow_memory_end - target_shadow_memory_start) s) (\<lambda>s.
      UnmapOrDie G chunkHeader (allocated_size (mem s) chunkHeader) s)))"

end
