(* ===== verification/CT_Cache.thy ===== *)
theory CT_Cache
  imports Region_Release
begin

text \<open>
  The ClusterTag half of \<open>SizeClassAllocator64LocalCache\<close> (\<open>sanitizer_allocator_local_cache.h\<close>)
  and of \<open>CombinedAllocator\<close> (\<open>sanitizer_allocator_combined.h\<close>): allocation and deallocation of
  small and of large chunks, and the dispatch between them. The cache is the array
  \<open>ct_per_class_\<close>, kept in the state. The locks the code takes guard these operations and have
  no counterpart: an operation is one step.
\<close>

record cache_state = ct_state +
  ct_per_class :: "uptr \<Rightarrow> CTPerClass"

definition CanAllocate :: "uptr \<Rightarrow> uptr \<Rightarrow> bool" where
  "CanAllocate sz alignment \<longleftrightarrow> sz \<le> kMaxSize SCM \<and> alignment \<le> kMaxSize SCM"

text \<open>Take the last chunk of the batch.\<close>

definition pop_chunk :: "ct_globals \<Rightarrow> CTPerClass \<Rightarrow> (uptr \<times> CTPerClass) res" where
  "pop_chunk G c =
     (let k = unat (pc_count c - 1) in
      if kBatchLen \<le> k then Inl Out_of_bounds
      else
        let chunk = batch c k;
            c = c\<lparr>batch := (batch c)(k := 0)\<rparr>;
            chunk = CTAddTagToPointer G chunk (chunk_tag c k);
            c = c\<lparr>pc_count := pc_count c - 1\<rparr>
        in Inr (chunk, c))"

definition CTAllocateSmallChunk ::
    "ct_globals \<Rightarrow> layout \<Rightarrow> uptr \<Rightarrow> 'a cache_state_scheme \<Rightarrow> (uptr \<times> 'a cache_state_scheme) res" where
  "CTAllocateSmallChunk G L class_id s =
     andThen (check (class_id \<noteq> 0)) (\<lambda>_.
     andThen (check (class_id < kNumClasses SCM)) (\<lambda>_.
     let c = ct_per_class s class_id in
     andThen (if pc_count c = 0 then CTRefill G L c class_id s else Inr (True, c, s)) (\<lambda>(ok, c, s).
     if \<not> ok then Inr (0, s\<lparr>ct_per_class := (ct_per_class s)(class_id := c)\<rparr>)
     else andThen (pop_chunk G c) (\<lambda>(chunk, c).
       Inr (chunk, s\<lparr>ct_per_class := (ct_per_class s)(class_id := c)\<rparr>)))))"

definition CTAllocateLargeChunk ::
    "ct_globals \<Rightarrow> uptr \<Rightarrow> uptr \<Rightarrow> 'a cache_state_scheme \<Rightarrow> (uptr \<times> 'a cache_state_scheme) res" where
  "CTAllocateLargeChunk G original_size alignment s =
     andThen (check (IsPowerOfTwo alignment)) (\<lambda>_.
     andThen (RoundUpTo (original_size + 16) (page_size G)) (\<lambda>map_size.
     let map_size = (if page_size G < alignment then map_size + alignment else map_size) in
     if map_size < original_size then Inr (0, s)
     else
       andThen (Map_large_chunk G map_size s) (\<lambda>(res_beg, s).
       let s = s\<lparr>mem := store64 (res_beg + 8) original_size (mem s)\<rparr>;
           s = s\<lparr>mem := store64 res_beg map_size (mem s)\<rparr>;
           (r, s) = genRandom s;
           tag = (ucast (r AND 0xff) mod 255) + 1 :: u8
       in Inr (CTAddTagToPointer G (res_beg + 16) tag, s))))"

definition CTAllocateCache ::
    "ct_globals \<Rightarrow> layout \<Rightarrow> uptr \<Rightarrow> uptr \<Rightarrow> 'a cache_state_scheme \<Rightarrow> (uptr \<times> 'a cache_state_scheme) res" where
  "CTAllocateCache G L sz alignment s =
     (let original_size = sz in
      andThen (if 8 < alignment then RoundUpTo sz alignment else Inr sz) (\<lambda>sz.
      if CanAllocate sz alignment
      then CTAllocateSmallChunk G L (ClassID SCM sz) s
      else CTAllocateLargeChunk G original_size alignment s))"

text \<open>The header and the counters after a chunk has come back.\<close>

definition note_free :: "uptr \<Rightarrow> small_chunk \<Rightarrow> u8 \<Rightarrow> 'a ct_state_scheme \<Rightarrow> 'a ct_state_scheme" where
  "note_free class_id q tag s =
     (let r = regionInfo q;
          s = s\<lparr>RI := upd r (\<lambda>i. i\<lparr>freed_num := freed_num i + 1\<rparr>) (RI s)\<rparr>;
          s = s\<lparr>RI := upd r (\<lambda>i. i\<lparr>chunk_last_tag := (chunk_last_tag i)(unat (chunkID q) := tag)\<rparr>) (RI s)\<rparr>;
          ci = SuperPoolChunkInfo s class_id;
          ci = ci\<lparr>free_chunk_num := free_chunk_num ci + 1\<rparr>;
          s = s\<lparr>SuperPoolChunkInfo := (SuperPoolChunkInfo s)(class_id := ci)\<rparr>
      in if in_free_list (RI s r) = 0 then
           let (R, l) = insertAtFreedListHead r (RI s) (SuperPoolsFreedRegionList s class_id);
               ci = ci\<lparr>free_region_num := free_region_num ci + 1\<rparr>
           in s\<lparr>RI := upd r (in_free_list_update (\<lambda>_. 1)) R,
                SuperPoolsFreedRegionList := (SuperPoolsFreedRegionList s)(class_id := l),
                SuperPoolChunkInfo := (SuperPoolChunkInfo s)(class_id := ci)\<rparr>
         else s)"

definition maybe_release ::
    "ct_globals \<Rightarrow> layout \<Rightarrow> uptr \<Rightarrow> 'a ct_state_scheme \<Rightarrow> 'a ct_state_scheme res" where
  "maybe_release G L class_id s =
     (let ci = SuperPoolChunkInfo s class_id in
      if ucast (trigger_free ci) \<le> free_chunk_num ci then
        let (now, s) = MonotonicNanoTime s in
        if last_release_at_ns ci + free_list_interval_ns G < now then
          andThen (CTReleasePeriodically G L class_id s) (\<lambda>s.
          let (now, s) = MonotonicNanoTime s;
              ci = SuperPoolChunkInfo s class_id
          in Inr (s\<lparr>SuperPoolChunkInfo := (SuperPoolChunkInfo s)(class_id := ci\<lparr>last_release_at_ns := now\<rparr>)\<rparr>))
        else Inr s
      else Inr s)"

definition CTDeallocateSmallChunk ::
    "ct_globals \<Rightarrow> layout \<Rightarrow> u8 \<Rightarrow> uptr \<Rightarrow> 'a ct_state_scheme \<Rightarrow> 'a ct_state_scheme res" where
  "CTDeallocateSmallChunk G L tag p s =
     andThen (parseSmallChunkPtr G p) (\<lambda>q.
     maybe_release G L (superPoolID q) (note_free (superPoolID q) q tag s))"

definition CTDeallocateCache ::
    "ct_globals \<Rightarrow> layout \<Rightarrow> u8 \<Rightarrow> uptr \<Rightarrow> 'a ct_state_scheme \<Rightarrow> 'a ct_state_scheme res" where
  "CTDeallocateCache G L tag untaggedPtr s =
     (if isSmallChunk G untaggedPtr then CTDeallocateSmallChunk G L tag untaggedPtr s
      else CTDeallocateLargeChunk G untaggedPtr s)"

section \<open>The combined allocator\<close>

definition CTAllocateCombined ::
    "ct_globals \<Rightarrow> layout \<Rightarrow> uptr \<Rightarrow> uptr \<Rightarrow> 'a cache_state_scheme \<Rightarrow> (uptr \<times> 'a cache_state_scheme) res" where
  "CTAllocateCombined G L sz alignment s =
     (let sz = (if sz = 0 then 1 else sz) in
      if sz + alignment < sz then Inr (0, s)
      else
        andThen (CTAllocateCache G L sz alignment s) (\<lambda>(r, s).
        andThen (if 8 < alignment then check (r AND (alignment - 1) = 0) else Inr ()) (\<lambda>_.
        Inr (r, s))))"

definition CTDeallocateCombined ::
    "ct_globals \<Rightarrow> layout \<Rightarrow> uptr \<Rightarrow> 'a ct_state_scheme \<Rightarrow> 'a ct_state_scheme res" where
  "CTDeallocateCombined G L taggedPtr s =
     CTDeallocateCache G L (CTGetTagFromPointer G taggedPtr) (CTUntagPointer G taggedPtr) s"

end
