(* ===== verification/Refill.thy ===== *)
theory Refill
  imports Super_Pool "HOL-Library.Multiset"
begin

text \<open>
  What a refill does to tags. Taking the free chunks of a region hands out exactly those chunks,
  in address order, and gives each the tag its predecessor had (the first gets the last tag), so
  the tags of a region are permuted and a chunk keeps its tag only if it is alone. A fresh region
  gets the tags 1 to n in a random order. \<open>content\<close> is the multiset of pairs of a chunk and its
  tag a batch holds; the lemmas are stated on it.
\<close>

section \<open>Taking the free chunks of a region\<close>

definition free_idx :: "nat list \<Rightarrow> (nat \<Rightarrow> u8) \<Rightarrow> nat list" where
  "free_idx is tags = filter (\<lambda>i. tags i \<noteq> 0) is"

text \<open>The batch entries from \<open>b\<close> up to \<open>b + n\<close>.\<close>

definition entries :: "CTPerClass \<Rightarrow> nat \<Rightarrow> nat \<Rightarrow> (uptr \<times> u8) list" where
  "entries c b n = map (\<lambda>k. (batch c k, chunk_tag c k)) [b..<b + n]"

lemma collect_chunks_spec:
  assumes "distinct is" "batch_idx v + length (free_idx is (co_tags v)) < kBatchLen"
    "fr = free_idx is (co_tags v)" "b = batch_idx v"
  shows "\<exists>c'. collect_chunks r sz is v = Inr
           \<lparr> co_tags = (\<lambda>i. if i \<in> set is then 0 else co_tags v i),
             co_cache = c', batch_idx = b + length fr,
             first_ele = (if first_ele v = -1 \<and> fr \<noteq> [] then int b else first_ele v),
             last_tag = (if fr = [] then last_tag v else co_tags v (last fr)) \<rparr> \<and>
         pc_count c' = pc_count (co_cache v) \<and> class_size c' = class_size (co_cache v) \<and>
         (\<forall>k. batch c' k = (if b \<le> k \<and> k < b + length fr then r + sz * of_nat (fr ! (k - b))
                            else batch (co_cache v) k)) \<and>
         (\<forall>k. chunk_tag c' k = (if b < k \<and> k \<le> b + length fr then co_tags v (fr ! (k - b - 1))
                            else chunk_tag (co_cache v) k))"
  using assms
proof (induction "is" arbitrary: v fr b)
  case Nil
  then show ?case by (cases v) (auto simp: free_idx_def)
next
  case (Cons i "is")
  show ?case
  proof (cases "co_tags v i = 0")
    case True
    then have one: "collect_chunk r sz i v = Inr v" by (simp add: collect_chunk_def)
    have fr: "fr = free_idx is (co_tags v)" using True Cons.prems by (simp add: free_idx_def)
    have tags: "(\<lambda>j. if j \<in> set (i # is) then 0 else co_tags v j)
        = (\<lambda>j. if j \<in> set is then 0 else co_tags v j)"
      using True by auto
    show ?thesis
      using Cons.IH [of v fr b] Cons.prems True fr
      unfolding tags by (simp add: one free_idx_def)
  next
    case False
    let ?fr = "free_idx is (co_tags v)"
    have fr: "fr = i # ?fr" using False Cons.prems by (simp add: free_idx_def)
    let ?c = "co_cache v\<lparr>chunk_tag := (chunk_tag (co_cache v))(b + 1 := co_tags v i),
        batch := (batch (co_cache v))(b := r + sz * of_nat i)\<rparr>"
    define v' where "v' = \<lparr> co_tags = (co_tags v)(i := 0), co_cache = ?c, batch_idx = b + 1,
        first_ele = (if first_ele v = -1 then int b else first_ele v), last_tag = co_tags v i \<rparr>"
    have sel: "co_tags v' = (co_tags v)(i := 0)" "co_cache v' = ?c" "batch_idx v' = b + 1"
        "first_ele v' = (if first_ele v = -1 then int b else first_ele v)" "last_tag v' = co_tags v i"
      by (simp_all add: v'_def)
    have len: "b + 1 + length ?fr < kBatchLen"
      using Cons.prems(2) False by (simp add: free_idx_def Cons.prems(4))
    then have one: "collect_chunk r sz i v = Inr v'"
      using False Cons.prems by (cases v) (simp add: collect_chunk_def Let_def v'_def)
    have same: "?fr = free_idx is (co_tags v')"
      using Cons.prems by (auto simp: free_idx_def sel intro!: filter_cong)
    have prems: "distinct is" "batch_idx v' + length (free_idx is (co_tags v')) < kBatchLen"
      using Cons.prems(1) len same by (simp_all add: sel)
    obtain c' where c': "collect_chunks r sz is v' = Inr
           \<lparr> co_tags = (\<lambda>j. if j \<in> set is then 0 else co_tags v' j),
             co_cache = c', batch_idx = b + 1 + length ?fr,
             first_ele = (if first_ele v' = -1 \<and> ?fr \<noteq> [] then int (b + 1) else first_ele v'),
             last_tag = (if ?fr = [] then last_tag v' else co_tags v' (last ?fr)) \<rparr>"
      "pc_count c' = pc_count (co_cache v')" "class_size c' = class_size (co_cache v')"
      "\<And>k. batch c' k = (if b + 1 \<le> k \<and> k < b + 1 + length ?fr then r + sz * of_nat (?fr ! (k - (b + 1)))
                            else batch (co_cache v') k)"
      "\<And>k. chunk_tag c' k = (if b + 1 < k \<and> k \<le> b + 1 + length ?fr
                            then co_tags v' (?fr ! (k - (b + 1) - 1))
                            else chunk_tag (co_cache v') k)"
      using Cons.IH [OF prems same sel(3) [symmetric]] by blast
    have fe: "(if first_ele v' = -1 \<and> ?fr \<noteq> [] then int (b + 1) else first_ele v')
        = (if first_ele v = -1 \<and> fr \<noteq> [] then int b else first_ele v)"
      by (simp add: sel fr)
    have notin: "i \<notin> set ?fr" using Cons.prems by (auto simp: free_idx_def)
    have nth_ne: "k < length ?fr \<Longrightarrow> ?fr ! k \<noteq> i" for k using notin by (metis nth_mem)
    have tags: "(\<lambda>j. if j \<in> set is then 0 else co_tags v' j)
        = (\<lambda>j. if j \<in> set (i # is) then 0 else co_tags v j)"
      by (auto simp: sel)
    have last: "(if ?fr = [] then last_tag v' else co_tags v' (last ?fr)) = co_tags v (last fr)"
      using notin last_in_set [of ?fr] by (auto simp: fr sel)
    have bat: "batch c' k = (if b \<le> k \<and> k < b + length fr then r + sz * of_nat (fr ! (k - b))
                            else batch (co_cache v) k)" for k
      unfolding c'(4) fr sel by (cases "k = b") (auto simp: nth_Cons')
    have ctag: "chunk_tag c' k = (if b < k \<and> k \<le> b + length fr then co_tags v (fr ! (k - b - 1))
                            else chunk_tag (co_cache v) k)" for k
    proof (cases "b + 1 < k \<and> k \<le> b + 1 + length ?fr")
      case True
      then have "k - b - 1 = Suc (k - (b + 2))" "k - (b + 2) < length ?fr" by arith+
      with True nth_ne [of "k - (b + 2)"] show ?thesis unfolding c'(5) fr sel by simp
    next
      case False
      have "co_tags v i = co_tags v (fr ! 0)" by (subst fr) simp
      with False show ?thesis unfolding c'(5) sel by (cases "k = b + 1") (auto simp: fr)
    qed
    show ?thesis
      using c'(1-3) bat ctag unfolding fe tags last
      by (intro exI [of _ c']) (simp add: one sel fr)
  qed
qed

text \<open>The tags a region hands out: the tags of its free chunks, turned by one place.\<close>

definition turned :: "'b list \<Rightarrow> 'b list" where
  "turned xs = (if xs = [] then [] else last xs # butlast xs)"

lemma length_turned [simp]: "length (turned xs) = length xs"
  by (simp add: turned_def)

lemma mset_turned [simp]: "mset (turned xs) = mset xs"
proof (cases xs rule: rev_cases)
  case (snoc ys y) then show ?thesis by (simp add: turned_def)
qed (simp add: turned_def)

lemma turned_nth: "k < length xs \<Longrightarrow> turned xs ! k = (if k = 0 then last xs else xs ! (k - 1))"
  by (cases k) (auto simp: turned_def nth_butlast)

lemma turned_moves:
  assumes "distinct xs" "k < length xs" "2 \<le> length xs"
  shows "turned xs ! k \<noteq> xs ! k"
proof (cases k)
  case 0
  with assms show ?thesis by (simp add: turned_nth last_conv_nth nth_eq_iff_index_eq)
next
  case (Suc j)
  with assms show ?thesis by (simp add: turned_nth nth_eq_iff_index_eq)
qed

definition region_taken :: "nat \<Rightarrow> CTRegionInfo \<Rightarrow> CTRegionInfo" where
  "region_taken mx i = i\<lparr>chunk_last_tag := (\<lambda>j. if j \<in> set [256 - mx..<256] then 0 else chunk_last_tag i j),
     freed_num := 0, in_free_list := 0\<rparr>"

definition spc_taken :: "u8 \<Rightarrow> CTSuperPoolChunkInfo \<Rightarrow> CTSuperPoolChunkInfo" where
  "spc_taken n spc = spc\<lparr>free_chunk_num := free_chunk_num spc - ucast n,
     free_region_num := free_region_num spc - 1\<rparr>"

lemma take_region_spec:
  assumes "rf_cur v \<noteq> 0" "fr = free_idx [256 - mx..<256] (chunk_last_tag (rf_R v (rf_cur v)))"
    "fr \<noteq> []" "rf_idx v + length fr < kBatchLen"
  shows "\<exists>c'. take_region mx sz v = Inr (v\<lparr>
             rf_R := upd (rf_cur v) (region_taken mx) (rf_R v),
             rf_spc := spc_taken (freed_num (rf_R v (rf_cur v))) (rf_spc v),
             rf_cache := c', rf_idx := rf_idx v + length fr\<rparr>) \<and>
         pc_count c' = pc_count (rf_cache v) + ucast (freed_num (rf_R v (rf_cur v))) \<and>
         class_size c' = class_size (rf_cache v) \<and>
         entries c' 0 (rf_idx v) = entries (rf_cache v) 0 (rf_idx v) \<and>
         entries c' (rf_idx v) (length fr) =
           zip (map (\<lambda>i. rf_cur v + sz * of_nat i) fr)
               (turned (map (chunk_last_tag (rf_R v (rf_cur v))) fr))"
proof -
  let ?r = "rf_R v (rf_cur v)" and ?b = "rf_idx v"
  define w where "w = \<lparr> co_tags = chunk_last_tag ?r, co_cache = rf_cache v, batch_idx = ?b,
              first_ele = -1, last_tag = 0 \<rparr>"
  have sel: "co_tags w = chunk_last_tag ?r" "co_cache w = rf_cache v" "batch_idx w = ?b"
      "first_ele w = -1"
    by (simp_all add: w_def)
  have "distinct [256 - mx..<256]"
      "batch_idx w + length (free_idx [256 - mx..<256] (co_tags w)) < kBatchLen"
      "fr = free_idx [256 - mx..<256] (co_tags w)" "?b = batch_idx w"
    using assms by (simp_all add: sel)
  from collect_chunks_spec [OF this, of "rf_cur v" sz]
  obtain c1 where c1: "collect_chunks (rf_cur v) sz [256 - mx..<256] w = Inr
           \<lparr> co_tags = (\<lambda>i. if i \<in> set [256 - mx..<256] then 0 else chunk_last_tag ?r i),
             co_cache = c1, batch_idx = ?b + length fr, first_ele = int ?b,
             last_tag = chunk_last_tag ?r (last fr) \<rparr>"
      "pc_count c1 = pc_count (rf_cache v)" "class_size c1 = class_size (rf_cache v)"
      "\<And>k. batch c1 k = (if ?b \<le> k \<and> k < ?b + length fr then rf_cur v + sz * of_nat (fr ! (k - ?b))
                            else batch (rf_cache v) k)"
      "\<And>k. chunk_tag c1 k = (if ?b < k \<and> k \<le> ?b + length fr
                            then chunk_last_tag ?r (fr ! (k - ?b - 1)) else chunk_tag (rf_cache v) k)"
    unfolding sel using assms(3) by auto
  define c' where "c' = c1\<lparr>chunk_tag := (chunk_tag c1)(?b := chunk_last_tag ?r (last fr)),
      pc_count := pc_count c1 + ucast (freed_num ?r)\<rparr>"
  have "take_region mx sz v = Inr (v\<lparr>
             rf_R := upd (rf_cur v) (region_taken mx) (rf_R v),
             rf_spc := spc_taken (freed_num ?r) (rf_spc v),
             rf_cache := c', rf_idx := ?b + length fr\<rparr>)"
    using assms(1) c1(1)
    by (simp add: take_region_def Let_def c'_def w_def upd_def region_taken_def spc_taken_def)
  moreover have "entries c' 0 ?b = entries (rf_cache v) 0 ?b"
    by (simp add: entries_def c'_def c1(4,5))
  moreover have "entries c' ?b (length fr) =
      zip (map (\<lambda>i. rf_cur v + sz * of_nat i) fr) (turned (map (chunk_last_tag ?r) fr))"
  proof (rule nth_equalityI)
    fix k assume "k < length (entries c' ?b (length fr))"
    then have k: "k < length fr" by (simp add: entries_def)
    with assms(3) show "entries c' ?b (length fr) ! k =
      zip (map (\<lambda>i. rf_cur v + sz * of_nat i) fr) (turned (map (chunk_last_tag ?r) fr)) ! k"
      by (cases k) (simp_all add: entries_def c'_def c1(4,5) turned_nth last_map)
  qed (simp add: entries_def)
  ultimately show ?thesis
    using c1(2,3) by (intro exI [of _ c']) (simp add: c'_def)
qed

section \<open>Shuffling\<close>

lemma shuffle_perm:
  "n < m \<Longrightarrow> image_mset (fst (shuffle n a s)) (mset [0..<m]) = image_mset a (mset [0..<m])"
proof (induction n arbitrary: a s)
  case (Suc i)
  obtain r s' where r: "genRandom s = (r, s')" by (cases "genRandom s")
  define j where "j = unat r mod (Suc i + 1)"
  have j: "j < m" "Suc i < m" using Suc.prems by (auto simp: j_def intro: le_less_trans [OF mod_less_eq_dividend]
        less_le_trans [OF mod_less_divisor])
  let ?a = "(a(Suc i := a j))(j := a (Suc i))"
  have "image_mset ?a (mset [0..<m]) = image_mset a (mset [0..<m])"
  proof -
    have "mset (map ?a [0..<m]) = mset ((map a [0..<m])[Suc i := map a [0..<m] ! j, j := map a [0..<m] ! Suc i])"
      using j by (intro arg_cong [where f = mset] nth_equalityI) (auto simp: nth_list_update)
    also have "\<dots> = mset (map a [0..<m])" using j by (intro mset_swap) simp_all
    finally show ?thesis by (simp only: mset_map)
  qed
  moreover have "shuffle (Suc i) a s = shuffle i ?a s'"
    by (simp add: r Let_def j_def)
  moreover have "i < m" using Suc.prems by simp
  ultimately show ?case using Suc.IH [of ?a s'] by (simp only:)
qed simp

lemma shuffle_bij:
  assumes "n < m"
  shows "mset (map (fst (shuffle n a s)) [0..<m]) = mset (map a [0..<m])"
  using shuffle_perm [OF assms, of a s] by (simp only: mset_map)

lemma shuffle_above: "n < k \<Longrightarrow> fst (shuffle n a s) k = a k"
proof (induction n arbitrary: a s)
  case (Suc i)
  obtain r s' where r: "genRandom s = (r, s')" by (cases "genRandom s")
  have "unat r mod (Suc i + 1) \<noteq> k" using Suc.prems mod_less_divisor [of "Suc i + 1" "unat r"] by linarith
  with Suc r show ?case by (simp add: Let_def)
qed simp

section \<open>A fresh region\<close>

lemma fill_batch_spec:
  "pc_count (fill_batch i n a sz c) = pc_count c"
  "class_size (fill_batch i n a sz c) = class_size c"
  "batch (fill_batch i n a sz c) k = (if i \<le> k \<and> k < i + n then a + sz * of_nat (k - i) else batch c k)"
  "chunk_tag (fill_batch i n a sz c) k = (if i \<le> k \<and> k < i + n then of_nat (k + 1) else chunk_tag c k)"
proof (induction n arbitrary: i a c k)
  case (Suc n)
  {
    case 1 show ?case by (simp add: Suc)
  next
    case 2 show ?case by (simp add: Suc)
  next
    case 3
    have "k - i = Suc (k - Suc i)" if "Suc i \<le> k" using that by simp
    then show ?case by (cases "k = i") (auto simp: Suc algebra_simps)
  next
    case 4 show ?case by (cases "k = i") (auto simp: Suc)
  }
qed auto

lemma fresh_batch_spec:
  assumes "0 < n" "n < 256" "fresh_batch G n r sz c s = (c', s')"
  shows "pc_count c' = of_nat n" "class_size c' = sz"
    "mset (map (chunk_tag c') [0..<n]) = mset (map of_nat [1..<n + 1])"
    "mset (map (batch c') [0..<n]) = mset (map (\<lambda>i. r + sz * of_nat i) [256 - n..<256])"
    "\<not> ct_randomize_region G \<Longrightarrow> map (batch c') [0..<n] = map (\<lambda>i. r + sz * of_nat i) [256 - n..<256]"
proof -
  let ?c = "fill_batch 0 n (r + sz * of_nat (256 - n)) sz (c\<lparr>class_size := sz, pc_count := of_nat n\<rparr>)"
  obtain t s1 where t: "shuffle (n - 1) (chunk_tag ?c) s = (t, s1)" by (cases "shuffle (n - 1) (chunk_tag ?c) s")
  obtain b s2 where b: "shuffle (n - 1) (batch ?c) s1 = (b, s2)" by (cases "shuffle (n - 1) (batch ?c) s1")
  have c': "c' = (if ct_randomize_region G then ?c\<lparr>chunk_tag := t, batch := b\<rparr> else ?c\<lparr>chunk_tag := t\<rparr>)"
    using assms(3) t b by (auto simp: fresh_batch_def Let_def)
  show "pc_count c' = of_nat n" "class_size c' = sz" by (simp_all add: c' fill_batch_spec)
  have lt: "n - 1 < n" using assms by simp
  have "map (chunk_tag ?c) [0..<n] = map of_nat [1..<n + 1]"
    by (intro nth_equalityI) (simp_all add: fill_batch_spec del: upt_Suc)
  moreover have "chunk_tag c' = t" by (simp add: c')
  ultimately show "mset (map (chunk_tag c') [0..<n]) = mset (map of_nat [1..<n + 1])"
    using shuffle_bij [OF lt, of "chunk_tag ?c" s] by (simp only: t fst_conv)
  have addr: "map (batch ?c) [0..<n] = map (\<lambda>i. r + sz * of_nat i) [256 - n..<256]"
    using assms(2) by (intro nth_equalityI) (auto simp: fill_batch_spec algebra_simps)
  then show "\<not> ct_randomize_region G \<Longrightarrow> map (batch c') [0..<n] = map (\<lambda>i. r + sz * of_nat i) [256 - n..<256]"
    by (simp add: c')
  show "mset (map (batch c') [0..<n]) = mset (map (\<lambda>i. r + sz * of_nat i) [256 - n..<256])"
  proof (cases "ct_randomize_region G")
    case True
    then have "batch c' = b" by (simp add: c')
    with shuffle_bij [OF lt, of "batch ?c" s1] addr show ?thesis by (simp only: b fst_conv)
  next
    case False
    with addr show ?thesis by (simp add: c')
  qed
qed

lemma genRandom_machine: "snd (genRandom s) = s\<lparr>my_random_state := fst (genRandom s)\<rparr>"
  by (simp add: genRandom_def Let_def)

lemma shuffle_machine: "\<exists>x. snd (shuffle n a s) = s\<lparr>my_random_state := x\<rparr>"
proof (induction n arbitrary: a s)
  case 0 show ?case by (intro exI [of _ "my_random_state s"]) simp
next
  case (Suc n)
  obtain r s' where r: "genRandom s = (r, s')" by (cases "genRandom s")
  then have s': "s' = s\<lparr>my_random_state := r\<rparr>" using genRandom_machine [of s] by simp
  obtain a' where "shuffle (Suc n) a s = shuffle n a' s'" using r by (simp add: Let_def)
  with Suc.IH [of a' s'] show ?case by (auto simp: s')
qed

end
