(* ===== verification/Chunk_Address.thy ===== *)
theory Chunk_Address
  imports Super_Pool
begin

text \<open>
  The geometry of the super pools. \<open>valid_class\<close> are the classes that own a super pool;
  \<open>csz k\<close> is the chunk size of class \<open>k\<close> as a natural number, \<open>rsz k\<close> the size of its
  regions. \<open>region_slot k r\<close> says that \<open>r\<close> is the address of a region of the class, wherever
  its pool lies. The main lemma is that \<open>parseSmallChunkPtr\<close> finds class, pool, region and chunk
  of every address inside a region.
\<close>

section \<open>Sizes\<close>

definition valid_class :: "uptr \<Rightarrow> bool" where
  "valid_class k \<longleftrightarrow> 0 < k \<and> k < kBatchClassID SCM"

definition csz :: "uptr \<Rightarrow> nat" where "csz k = unat (Size SCM k)"

definition rsz :: "uptr \<Rightarrow> nat" where "rsz k = 256 * csz k"

definition avail :: "uptr \<Rightarrow> nat" where "avail k = 256 - (csz k + 295) div csz k"

lemma valid_class_unat: "valid_class k \<longleftrightarrow> 0 < unat k \<and> unat k \<le> 30"
  by (auto simp: valid_class_def word_less_nat_alt unat_gt_0)

lemma csz_spec: "unat k \<le> 30 \<Longrightarrow> csz k = size_spec SCM (unat k)"
  by (simp add: csz_def very_dense_map.Size_spec)

lemma class_cases:
  assumes "0 < n" "n \<le> 30"
  shows "n \<in> set [1..<31]"
  using assms by auto

lemma size_spec_table:
  "map (size_spec SCM) [1..<31] =
     [32, 64, 96, 128, 160, 192, 224, 256, 288, 320, 352, 384, 416, 448, 480, 512, 768, 1024,
      1536, 2048, 3072, 4096, 6144, 8192, 12288, 16384, 24576, 32768, 49152, 65536]"
  by (simp add: upt_rec size_spec_def mid_class_def scm_S_def VeryDenseSizeClassMap_def)

lemma size_spec_all:
  assumes "list_all Q [32, 64, 96, 128, 160, 192, 224, 256, 288, 320, 352, 384, 416, 448, 480,
      512, 768, 1024, 1536, 2048, 3072, 4096, 6144, 8192, 12288, 16384, 24576, 32768, 49152, 65536]"
    and "0 < n" "n \<le> 30"
  shows "Q (size_spec SCM n)"
proof -
  have "list_all Q (map (size_spec SCM) [1..<31])" using assms(1) by (simp only: size_spec_table)
  moreover have "size_spec SCM n \<in> set (map (size_spec SCM) [1..<31])" using assms by auto
  ultimately show ?thesis by (auto simp: list_all_iff)
qed

text \<open>What holds of each of the thirty chunk sizes holds of \<open>csz\<close>.\<close>

lemma csz_all:
  assumes "list_all Q [32, 64, 96, 128, 160, 192, 224, 256, 288, 320, 352, 384, 416, 448, 480,
      512, 768, 1024, 1536, 2048, 3072, 4096, 6144, 8192, 12288, 16384, 24576, 32768, 49152, 65536]"
    and "valid_class k"
  shows "Q (csz k)"
  using size_spec_all [OF assms(1), of "unat k"] assms(2) by (simp add: valid_class_unat csz_spec)

lemma csz_bounds:
  assumes "valid_class k"
  shows "32 \<le> csz k" "csz k \<le> 65536" "32 dvd csz k" "0 < csz k"
proof -
  have "32 \<le> csz k \<and> csz k \<le> 65536 \<and> 32 dvd csz k \<and> 0 < csz k"
    by (rule csz_all [OF _ assms]) simp
  then show "32 \<le> csz k" "csz k \<le> 65536" "32 dvd csz k" "0 < csz k" by auto
qed

lemma avail_bounds:
  assumes "valid_class k"
  shows "246 \<le> avail k" "avail k \<le> 255" "296 \<le> (256 - avail k) * csz k"
    "(256 - avail k) * csz k < 296 + csz k"
proof -
  have "(\<lambda>c. 246 \<le> 256 - (c + 295) div c \<and> 256 - (c + 295) div c \<le> 255 \<and>
      296 \<le> (256 - (256 - (c + 295) div c)) * c \<and>
      (256 - (256 - (c + 295) div c)) * c < 296 + c) (csz k)"
    by (rule csz_all [OF _ assms]) simp
  then show "246 \<le> avail k" "avail k \<le> 255" "296 \<le> (256 - avail k) * csz k"
      "(256 - avail k) * csz k < 296 + csz k"
    unfolding avail_def by blast+
qed

lemma rsz_bounds:
  assumes "valid_class k"
  shows "8192 \<le> rsz k" "rsz k \<le> 2 ^ 24" "8192 dvd rsz k" "64 \<le> 2 ^ 30 div rsz k"
proof -
  have "8192 \<le> 256 * csz k \<and> 256 * csz k \<le> 2 ^ 24 \<and> 8192 dvd 256 * csz k \<and> 64 \<le> 2 ^ 30 div (256 * csz k)"
    by (rule csz_all [OF _ assms]) simp
  then show "8192 \<le> rsz k" "rsz k \<le> 2 ^ 24" "8192 dvd rsz k" "64 \<le> 2 ^ 30 div rsz k"
    by (auto simp: rsz_def)
qed

section \<open>Regions and chunks\<close>

definition pool_base :: "uptr \<Rightarrow> uptr \<Rightarrow> bool" where
  "pool_base k q \<longleftrightarrow> (\<exists>p<1024. unat q = (unat k + 1) * 2 ^ 40 + p * 2 ^ 30)"

definition region_slot :: "uptr \<Rightarrow> uptr \<Rightarrow> bool" where
  "region_slot k r \<longleftrightarrow> (\<exists>p<1024. \<exists>j<2 ^ 30 div rsz k.
     unat r = (unat k + 1) * 2 ^ 40 + p * 2 ^ 30 + rsz k * j)"

definition chunk :: "uptr \<Rightarrow> uptr \<Rightarrow> nat \<Rightarrow> uptr" where
  "chunk k r i = r + Size SCM k * of_nat i"

lemma slot_room:
  assumes "j < 2 ^ 30 div rsz k" "valid_class k"
  shows "rsz k * j + rsz k \<le> 2 ^ 30"
proof -
  have "rsz k * (j + 1) \<le> rsz k * (2 ^ 30 div rsz k)" using assms(1) by (intro mult_le_mono2) simp
  also have "\<dots> \<le> 2 ^ 30" by simp
  finally show ?thesis by simp
qed

lemma region_slot_bounds:
  assumes "valid_class k" "region_slot k r"
  shows "(unat k + 1) * 2 ^ 40 \<le> unat r" "unat r + rsz k \<le> (unat k + 2) * 2 ^ 40" "8192 dvd unat r"
proof -
  obtain p j where pj: "p < 1024" "j < 2 ^ 30 div rsz k"
      "unat r = (unat k + 1) * 2 ^ 40 + p * 2 ^ 30 + rsz k * j"
    using assms(2) by (auto simp: region_slot_def)
  show "(unat k + 1) * 2 ^ 40 \<le> unat r" by (simp add: pj(3))
  have "p * 2 ^ 30 + 2 ^ 30 \<le> 2 ^ 40" using pj(1) by simp
  with slot_room [OF pj(2) assms(1)] show "unat r + rsz k \<le> (unat k + 2) * 2 ^ 40"
    unfolding pj(3) by simp
  have "(8192::nat) dvd rsz k * j" using rsz_bounds(3) [OF assms(1)] by (rule dvd_mult2)
  then show "8192 dvd unat r"
    unfolding pj(3) by (intro dvd_add) (simp_all add: dvd_mult)
qed

lemma index_below: "i < n \<Longrightarrow> x < c \<Longrightarrow> c * i + x < n * c" for c :: nat
proof -
  assume i: "i < n" and x: "x < c"
  have "c * i + x < c * Suc i" using x by simp
  also have "\<dots> \<le> c * n" by (rule mult_le_mono2) (use i in simp)
  finally show ?thesis by (simp only: mult.commute)
qed

text \<open>Inside a region no address computation wraps.\<close>

lemma unat_chunk_off:
  assumes "valid_class k" "region_slot k r" "i < 256" "unat off < csz k"
  shows "unat (chunk k r i + off) = unat r + csz k * i + unat off"
    "csz k * i + unat off < rsz k"
proof -
  show *: "csz k * i + unat off < rsz k"
    unfolding rsz_def by (rule index_below) (use assms in auto)
  have k: "unat k \<le> 30" using assms(1) by (simp add: valid_class_unat)
  have lim: "unat r + rsz k \<le> 2 ^ 45" using region_slot_bounds(2) [OF assms(1,2)] k by simp
  have i: "unat (of_nat i :: uptr) = i" using assms(3) by (intro unat_of_nat_small) simp
  have m: "unat (Size SCM k * of_nat i) = csz k * i"
    using * lim by (subst unat_mult_small) (simp_all add: i csz_def [symmetric])
  have "unat (chunk k r i) = unat r + csz k * i"
    unfolding chunk_def using * lim by (subst unat_add_small) (simp_all add: m)
  with * lim show "unat (chunk k r i + off) = unat r + csz k * i + unat off"
    by (subst unat_add_small) simp_all
qed

lemma unat_chunk:
  assumes "valid_class k" "region_slot k r" "i < 256"
  shows "unat (chunk k r i) = unat r + csz k * i"
  using unat_chunk_off(1) [OF assms, of 0] csz_bounds(4) [OF assms(1)] by simp

lemma chunk_inj:
  assumes "valid_class k" "region_slot k r" "i < 256" "j < 256" "chunk k r i = chunk k r j"
  shows "i = j"
proof -
  have "unat r + csz k * i = unat r + csz k * j"
    using unat_chunk [OF assms(1,2,3)] unat_chunk [OF assms(1,2,4)] assms(5) by metis
  then have "csz k * i = csz k * j" by (rule add_left_imp_eq)
  with csz_bounds(4) [OF assms(1)] show ?thesis by (metis mult_left_cancel not_gr_zero)
qed

section \<open>Parsing a chunk address\<close>

lemma kSuperPoolMask_eq: "kSuperPoolMask = 2 ^ 40 - 1"
  by (simp add: kSuperPoolMask_def kSuperPoolShift_def push_bit_eq_mult)

lemma kPoolMask_eq: "kPoolMask = 2 ^ 30 - 1"
  by (simp add: kPoolMask_def kPoolShift_def push_bit_eq_mult)

lemma superPoolEnd_eq: "superPoolEnd = 2 ^ 45"
  by (simp add: superPoolEnd_def superPoolBase_def kSuperPoolSize_def)

lemma small_iff:
  assumes "globals_ok G"
  shows "isSmallChunk G a \<longleftrightarrow> 2 ^ 40 \<le> unat (UntagAddr a) \<and> unat (UntagAddr a) < 2 ^ 45"
  using assms
  by (auto simp: isSmallChunk_def globals_ok_def UntagAddr_def superPoolBase_def superPoolEnd_eq
      word_le_nat_alt word_less_nat_alt not_less not_le)

lemma split_at:
  assumes "n = m * b + (x :: nat)" "x < b"
  shows "n mod b = x" "n div b * b = m * b" "n div b = m"
  using assms by auto

text \<open>
  An address given by its distances: class \<open>k\<close>, pool \<open>p\<close>, offset \<open>x\<close> in the pool. Both
  \<open>parseSmallChunkPtr\<close> and the functions that read one part of it recover the distances.
\<close>

definition small_at :: "uptr \<Rightarrow> uptr \<Rightarrow> nat \<Rightarrow> nat \<Rightarrow> bool" where
  "small_at a k p x \<longleftrightarrow> valid_class k \<and> p < 1024 \<and> x < 2 ^ 30 \<and>
     unat a = (unat k + 1) * 2 ^ 40 + p * 2 ^ 30 + x"

lemma small_at_D:
  assumes "small_at a k p x"
  shows "valid_class k" "unat k \<le> 30" "0 < unat k" "p < 1024" "x < 2 ^ 30"
    "unat a = (unat k + 1) * 2 ^ 40 + (p * 2 ^ 30 + x)"
    "unat a = ((unat k + 1) * 1024 + p) * 2 ^ 30 + x"
    "p * 2 ^ 30 + x < 2 ^ 40" "unat a < 2 ^ 45" "2 ^ 40 \<le> unat a" "UntagAddr a = a"
proof -
  show vk: "valid_class k" and p: "p < 1024" and x: "x < 2 ^ 30"
    using assms by (simp_all add: small_at_def)
  have a: "unat a = (unat k + 1) * 2 ^ 40 + p * 2 ^ 30 + x" using assms by (simp add: small_at_def)
  show k: "unat k \<le> 30" "0 < unat k" using vk by (simp_all add: valid_class_unat)
  show "unat a = (unat k + 1) * 2 ^ 40 + (p * 2 ^ 30 + x)"
      "unat a = ((unat k + 1) * 1024 + p) * 2 ^ 30 + x" by (simp_all add: a)
  have "(p + 1) * 2 ^ 30 \<le> 1024 * 2 ^ 30" using p by (intro mult_le_mono1) simp
  with x show inner: "p * 2 ^ 30 + x < 2 ^ 40" by simp
  have "(unat k + 1) * 2 ^ 40 \<le> 31 * 2 ^ 40" using k by (intro mult_le_mono1) simp
  with inner show lt: "unat a < 2 ^ 45" by (simp add: a)
  show "2 ^ 40 \<le> unat a" by (simp add: a)
  show "UntagAddr a = a" using lt by (intro UntagAddr_small) simp
qed

lemma small_at_isSmall: "globals_ok G \<Longrightarrow> small_at a k p x \<Longrightarrow> isSmallChunk G a"
  using small_at_D(9-11) by (simp add: small_iff)

lemma small_at_class:
  assumes "small_at a k p x"
  shows "drop_bit kSuperPoolShift ((a - superPoolBase) AND NOT kSuperPoolMask) = k"
proof (rule word_unat_eq_iff [THEN iffD2])
  note D = small_at_D [OF assms]
  have "unat (a - superPoolBase) = unat k * 2 ^ 40 + (p * 2 ^ 30 + x)"
    using D(10) by (subst unat_sub) (simp_all add: superPoolBase_def word_le_nat_alt D(6))
  then show "unat (drop_bit kSuperPoolShift ((a - superPoolBase) AND NOT kSuperPoolMask)) = unat k"
    using D(8)
    by (simp only: kSuperPoolShift_def kSuperPoolMask_eq unat_drop_bit unat_and_high) simp
qed

lemma small_at_pool:
  assumes "small_at a k p x"
  shows "drop_bit kPoolShift (a AND kSuperPoolMask) = of_nat p"
proof (rule word_unat_eq_iff [THEN iffD2])
  note D = small_at_D [OF assms]
  have "unat (a AND kSuperPoolMask) = p * 2 ^ 30 + x"
    by (simp only: kSuperPoolMask_eq unat_and_low split_at(1) [OF D(6,8)])
  moreover have "unat (of_nat p :: uptr) = p" using D(4) by (intro unat_of_nat_small) simp
  ultimately show "unat (drop_bit kPoolShift (a AND kSuperPoolMask)) = unat (of_nat p :: uptr)"
    using D(5) by (simp only: kPoolShift_def unat_drop_bit) simp
qed

lemma unat_region_size: "valid_class k \<Longrightarrow> unat (Size SCM k * 256) = rsz k"
  using csz_bounds(2) [of k] by (subst unat_mult_small) (simp_all add: csz_def rsz_def)

lemma region_size_nonzero: "valid_class k \<Longrightarrow> Size SCM k * 256 \<noteq> 0"
  using unat_region_size [of k] rsz_bounds(1) [of k] by auto

lemma small_at_region:
  assumes "small_at a k p x"
  shows "unat ((a AND NOT kPoolMask) + (a AND kPoolMask) div (Size SCM k * 256) * (Size SCM k * 256))
     = (unat k + 1) * 2 ^ 40 + p * 2 ^ 30 + x div rsz k * rsz k"
proof -
  note D = small_at_D [OF assms]
  have off: "unat (a AND kPoolMask) = x"
    by (simp only: kPoolMask_eq unat_and_low split_at(1) [OF D(7,5)])
  have high: "unat (a AND NOT kPoolMask) = (unat k + 1) * 2 ^ 40 + p * 2 ^ 30"
    by (simp only: kPoolMask_eq unat_and_high split_at(2) [OF D(7,5)]) simp
  have le: "x div rsz k * rsz k \<le> x" by simp
  have lt: "x div rsz k * rsz k < 2 ^ 64" by (rule le_less_trans [OF le]) (use D(5) in simp)
  have m: "unat ((a AND kPoolMask) div (Size SCM k * 256) * (Size SCM k * 256)) = x div rsz k * rsz k"
    using lt by (subst unat_mult_small) (simp_all add: unat_div off unat_region_size [OF D(1)])
  have "(unat k + 1) * 2 ^ 40 + p * 2 ^ 30 + x div rsz k * rsz k \<le> unat a"
    using le unfolding D(6) by simp
  with D(9) have "(unat k + 1) * 2 ^ 40 + p * 2 ^ 30 + x div rsz k * rsz k < 2 ^ 64" by simp
  then show ?thesis by (subst unat_add_small) (simp_all add: m high)
qed

text \<open>An address in a region: pool \<open>p\<close>, region \<open>j\<close> of the pool, chunk \<open>i\<close>, offset \<open>y\<close>.\<close>

lemma small_at_chunk:
  assumes "valid_class k" "p < 1024" "j < 2 ^ 30 div rsz k" "i < 256" "y < csz k"
    "unat a = (unat k + 1) * 2 ^ 40 + p * 2 ^ 30 + rsz k * j + csz k * i + y"
  shows "small_at a k p (rsz k * j + (csz k * i + y))" "csz k * i + y < rsz k"
proof -
  show in_region: "csz k * i + y < rsz k"
    unfolding rsz_def by (rule index_below) (use assms in auto)
  with slot_room [OF assms(3,1)] show "small_at a k p (rsz k * j + (csz k * i + y))"
    using assms by (simp add: small_at_def)
qed

lemma parse_chunk_address:
  assumes G: "globals_ok G" and "valid_class k" "p < 1024" "j < 2 ^ 30 div rsz k" "i < 256" "y < csz k"
    and a: "unat a = (unat k + 1) * 2 ^ 40 + p * 2 ^ 30 + rsz k * j + csz k * i + y"
  shows "\<exists>r. unat r = (unat k + 1) * 2 ^ 40 + p * 2 ^ 30 + rsz k * j \<and>
    parseSmallChunkPtr G a = Inr \<lparr> superPoolID = k, poolID = of_nat p, chunkID = of_nat i,
      chunk_size_of = Size SCM k, regionInfo = r \<rparr>"
proof -
  note at = small_at_chunk [OF assms(2-7)]
  let ?r = "(a AND NOT kPoolMask) + (a AND kPoolMask) div (Size SCM k * 256) * (Size SCM k * 256)"
  have dj: "(rsz k * j + (csz k * i + y)) div rsz k = j"
    by (rule split_at(3) [OF _ at(2)]) simp
  have r: "unat ?r = (unat k + 1) * 2 ^ 40 + p * 2 ^ 30 + rsz k * j"
    unfolding small_at_region [OF at(1)] dj by (simp only: mult.commute)
  have le: "?r \<le> a" by (simp only: word_le_nat_alt r a)
  have off: "unat (a - ?r) = csz k * i + y"
    by (simp only: unat_sub [OF le] r a)
  have di: "(csz k * i + y) div csz k = i"
    by (rule split_at(3) [OF _ assms(6)]) simp
  have "unat ((a - ?r) div Size SCM k) = i"
    by (simp only: unat_div off csz_def [symmetric] di)
  then have "(a - ?r) div Size SCM k = of_nat i" by (metis of_nat_unat ucast_id)
  moreover have "ucast (of_nat i :: uptr) = (of_nat i :: u8)"
    using assms(5) by (simp add: unsigned_of_nat take_bit_nat_eq_self)
  ultimately have cid: "ucast ((a - ?r) div Size SCM k) = (of_nat i :: u8)" by (simp only:)
  have "parseSmallChunkPtr G a = Inr \<lparr> superPoolID = k, poolID = of_nat p, chunkID = of_nat i,
      chunk_size_of = Size SCM k, regionInfo = ?r \<rparr>"
    unfolding parseSmallChunkPtr_def Let_def small_at_class [OF at(1)] small_at_pool [OF at(1)] cid
    by (simp only: small_at_isSmall [OF G at(1)] region_size_nonzero [OF assms(2)] not_True_eq_False if_False)
  with r show ?thesis by blast
qed

end
