(* ===== verification/Pool_Inv.thy ===== *)
theory Pool_Inv
  imports Refill Chunk_Address
begin

text \<open>
  The invariant of one super pool. \<open>class_inv\<close> relates the pointers and counters of a class to
  three abstract lists: the nodes of its pools \<open>ps\<close>, its regions in address order \<open>rs\<close> and its
  regions with free chunks \<open>fs\<close>. \<open>H\<close> is the multiset of the pairs of a chunk and a tag that
  are out of the region headers: cached for allocation or in the hands of the program. The part
  \<open>region_tags_ok\<close> is the security property: in every region each chunk is in exactly one place
  (free in its header, cached, or allocated), and the tags of the chunks of a region are pairwise
  distinct and not 0.
\<close>

section \<open>The invariant\<close>

definition idxs :: "uptr \<Rightarrow> nat list" where
  "idxs k = [256 - avail k..<256]"

definition chunks :: "uptr \<Rightarrow> uptr \<Rightarrow> uptr set" where
  "chunks k r = chunk k r ` set (idxs k)"

definition free_list_of :: "uptr \<Rightarrow> CTRegionInfo \<Rightarrow> nat list" where
  "free_list_of k info = free_idx (idxs k) (chunk_last_tag info)"

definition free_pairs :: "uptr \<Rightarrow> CTRegionInfo \<Rightarrow> uptr \<Rightarrow> (uptr \<times> u8) multiset" where
  "free_pairs k info r = mset (map (\<lambda>i. (chunk k r i, chunk_last_tag info i)) (free_list_of k info))"

definition region_content ::
    "uptr \<Rightarrow> CTRegionInfo \<Rightarrow> (uptr \<times> u8) multiset \<Rightarrow> uptr \<Rightarrow> (uptr \<times> u8) multiset" where
  "region_content k info H r = free_pairs k info r + {#x \<in># H. fst x \<in> chunks k r#}"

definition uniq :: "'b multiset \<Rightarrow> bool" where
  "uniq M \<longleftrightarrow> (\<forall>x. count M x \<le> 1)"

definition region_tags_ok :: "uptr \<Rightarrow> CTRegionInfo \<Rightarrow> (uptr \<times> u8) multiset \<Rightarrow> uptr \<Rightarrow> bool" where
  "region_tags_ok k info H r \<longleftrightarrow>
     image_mset fst (region_content k info H r) = mset (map (chunk k r) (idxs k)) \<and>
     uniq (image_mset snd (region_content k info H r)) \<and>
     0 \<notin># image_mset snd (region_content k info H r)"

definition in_pool :: "uptr \<Rightarrow> uptr \<Rightarrow> uptr \<Rightarrow> bool" where
  "in_pool k q r \<longleftrightarrow> (\<exists>j<2 ^ 30 div rsz k. unat r = unat q + rsz k * j)"

definition pools_ok :: "uptr \<Rightarrow> pool_store \<Rightarrow> CTPoolList \<Rightarrow> uptr list \<Rightarrow> bool" where
  "pools_ok k N pl ps \<longleftrightarrow>
     chain (\<lambda>p. pool_next (N p)) (pl_head pl) ps \<and>
     (ps \<noteq> [] \<longrightarrow> pl_tail pl = last ps) \<and>
     (\<forall>p\<in>set ps. pool_base k (pool_addr (N p))) \<and>
     distinct (map (\<lambda>p. pool_addr (N p)) ps)"

definition regions_ok :: "uptr \<Rightarrow> region_store \<Rightarrow> pool_store \<Rightarrow> CTRegionList \<Rightarrow> uptr list \<Rightarrow> uptr list \<Rightarrow> bool" where
  "regions_ok k R N rl ps rs \<longleftrightarrow>
     dll R rl rs \<and> sorted rs \<and>
     (\<forall>r\<in>set rs. status (R r) = 1 \<and> parent_pool (R r) \<in> set ps \<and>
        in_pool k (pool_addr (N (parent_pool (R r)))) r) \<and>
     (\<forall>p\<in>set ps. \<forall>r. in_pool k (pool_addr (N p)) r \<and> r \<notin> set rs \<longrightarrow> R r = zero_region) \<and>
     (\<forall>p\<in>set ps. density (N p) = of_nat (length (filter (\<lambda>r. parent_pool (R r) = p) rs)))"

definition freed_flags :: "uptr \<Rightarrow> region_store \<Rightarrow> uptr list \<Rightarrow> uptr list \<Rightarrow> bool" where
  "freed_flags k R rs fs \<longleftrightarrow> distinct fs \<and> set fs \<subseteq> set rs \<and>
     (\<forall>r\<in>set rs. in_free_list (R r) = (if r \<in> set fs then 1 else 0) \<and>
        freed_num (R r) = of_nat (length (free_list_of k (R r))) \<and>
        (r \<in> set fs \<longleftrightarrow> free_list_of k (R r) \<noteq> []))"

definition freed_ok :: "uptr \<Rightarrow> region_store \<Rightarrow> CTRegionList \<Rightarrow> uptr list \<Rightarrow> uptr list \<Rightarrow> bool" where
  "freed_ok k R fl rs fs \<longleftrightarrow>
     chain (\<lambda>p. freed_next (R p)) (head fl) fs \<and> freed_flags k R rs fs"

definition free_chunks :: "uptr \<Rightarrow> region_store \<Rightarrow> uptr list \<Rightarrow> nat" where
  "free_chunks k R fs = sum_list (map (\<lambda>r. length (free_list_of k (R r))) fs)"

definition counts_ok :: "uptr \<Rightarrow> region_store \<Rightarrow> CTSuperPoolChunkInfo \<Rightarrow> uptr list \<Rightarrow> uptr list \<Rightarrow> bool" where
  "counts_ok k R ci rs fs \<longleftrightarrow>
     free_chunk_num ci = of_nat (free_chunks k R fs) \<and>
     free_region_num ci = of_nat (length fs) \<and>
     region_num ci = of_nat (length rs)"

definition tags_ok :: "uptr \<Rightarrow> region_store \<Rightarrow> (uptr \<times> u8) multiset \<Rightarrow> uptr list \<Rightarrow> bool" where
  "tags_ok k R H rs \<longleftrightarrow>
     (\<forall>r\<in>set rs. region_tags_ok k (R r) H r) \<and>
     (\<forall>x\<in>#H. \<exists>r\<in>set rs. fst x \<in> chunks k r)"

text \<open>
  \<open>class_core\<close> is the invariant without the links of the list of freed regions, which hold again
  only at the end of a refill.
\<close>

definition class_core ::
    "uptr \<Rightarrow> region_store \<Rightarrow> pool_store \<Rightarrow> CTPoolList \<Rightarrow> CTRegionList \<Rightarrow>
     CTSuperPoolChunkInfo \<Rightarrow> (uptr \<times> u8) multiset \<Rightarrow> uptr list \<Rightarrow> uptr list \<Rightarrow> uptr list \<Rightarrow> bool" where
  "class_core k R N pl rl ci H ps rs fs \<longleftrightarrow>
     pools_ok k N pl ps \<and> regions_ok k R N rl ps rs \<and> freed_flags k R rs fs \<and>
     counts_ok k R ci rs fs \<and> tags_ok k R H rs"

definition class_inv ::
    "uptr \<Rightarrow> region_store \<Rightarrow> pool_store \<Rightarrow> CTPoolList \<Rightarrow> CTRegionList \<Rightarrow> CTRegionList \<Rightarrow>
     CTSuperPoolChunkInfo \<Rightarrow> (uptr \<times> u8) multiset \<Rightarrow> uptr list \<Rightarrow> uptr list \<Rightarrow> uptr list \<Rightarrow> bool" where
  "class_inv k R N pl rl fl ci H ps rs fs \<longleftrightarrow>
     chain (\<lambda>p. freed_next (R p)) (head fl) fs \<and> class_core k R N pl rl ci H ps rs fs"

lemma class_inv_parts:
  "class_inv k R N pl rl fl ci H ps rs fs \<longleftrightarrow>
     pools_ok k N pl ps \<and> regions_ok k R N rl ps rs \<and> freed_ok k R fl rs fs \<and>
     counts_ok k R ci rs fs \<and> tags_ok k R H rs"
  by (auto simp: class_inv_def class_core_def freed_ok_def)

section \<open>Geometry\<close>

lemma set_idxs: "set (idxs k) = {256 - avail k..<256}"
  by (simp add: idxs_def)

lemma distinct_idxs [simp]: "distinct (idxs k)"
  by (simp add: idxs_def)

lemma idxs_less: "i \<in> set (idxs k) \<Longrightarrow> i < 256"
  by (simp add: idxs_def)

lemma length_idxs: "valid_class k \<Longrightarrow> length (idxs k) = avail k"
  using avail_bounds [of k] by (simp add: idxs_def)

lemma avail_le: "valid_class k \<Longrightarrow> 256 - avail k + avail k = 256"
  using avail_bounds [of k] by simp

lemma free_list_sub: "set (free_list_of k info) \<subseteq> set (idxs k)"
  by (auto simp: free_list_of_def free_idx_def)

lemma distinct_free_list [simp]: "distinct (free_list_of k info)"
  by (simp add: free_list_of_def free_idx_def)

lemma length_free_list: "valid_class k \<Longrightarrow> length (free_list_of k info) \<le> avail k"
  by (simp add: free_list_of_def free_idx_def length_idxs [symmetric])

lemma in_pool_slot:
  assumes "pool_base k q" "in_pool k q r"
  shows "region_slot k r"
  using assms unfolding pool_base_def in_pool_def region_slot_def by fastforce

text \<open>Regions that overlap are the same region.\<close>

lemma chunks_disjoint:
  assumes "valid_class k" "region_slot k r" "region_slot k r'" "a \<in> chunks k r" "a \<in> chunks k r'"
  shows "r = r'"
proof -
  obtain i where i: "i < 256" "a = chunk k r i" using assms(4) by (auto simp: chunks_def dest: idxs_less)
  obtain i' where i': "i' < 256" "a = chunk k r' i'" using assms(5) by (auto simp: chunks_def dest: idxs_less)
  obtain p j where r: "p < 1024" "j < 2 ^ 30 div rsz k"
      "unat r = (unat k + 1) * 2 ^ 40 + p * 2 ^ 30 + rsz k * j"
    using assms(2) by (auto simp: region_slot_def)
  obtain p' j' where r': "p' < 1024" "j' < 2 ^ 30 div rsz k"
      "unat r' = (unat k + 1) * 2 ^ 40 + p' * 2 ^ 30 + rsz k * j'"
    using assms(3) by (auto simp: region_slot_def)
  note c = csz_bounds(4) [OF assms(1)]
  have a: "unat a = (unat k + 1) * 2 ^ 40 + p * 2 ^ 30 + rsz k * j + csz k * i + 0"
    using unat_chunk [OF assms(1,2) i(1)] i(2) r(3) by simp
  have a': "unat a = (unat k + 1) * 2 ^ 40 + p' * 2 ^ 30 + rsz k * j' + csz k * i' + 0"
    using unat_chunk [OF assms(1,3) i'(1)] i'(2) r'(3) by simp
  note A = small_at_chunk [OF assms(1) r(1,2) i(1) c a]
  note A' = small_at_chunk [OF assms(1) r'(1,2) i'(1) c a']
  have "(unat k + 1) * 2 ^ 40 + p * 2 ^ 30 + (rsz k * j + (csz k * i + 0)) div rsz k * rsz k
      = (unat k + 1) * 2 ^ 40 + p' * 2 ^ 30 + (rsz k * j' + (csz k * i' + 0)) div rsz k * rsz k"
    using small_at_region [OF A(1)] small_at_region [OF A'(1)] by (simp only:)
  moreover have "(rsz k * j + (csz k * i + 0)) div rsz k = j" by (rule split_at(3) [OF _ A(2)]) simp
  moreover have "(rsz k * j' + (csz k * i' + 0)) div rsz k = j'" by (rule split_at(3) [OF _ A'(2)]) simp
  ultimately have "unat r = unat r'" by (simp only: r(3) r'(3) mult.commute)
  then show ?thesis by (simp only: word_unat_eq_iff)
qed

lemma distinct_chunks:
  assumes "valid_class k" "region_slot k r"
  shows "distinct (map (chunk k r) (idxs k))"
  using chunk_inj [OF assms] by (auto simp: distinct_map intro!: inj_onI dest: idxs_less)

lemma count_chunks_le:
  assumes "valid_class k" "region_slot k r"
  shows "count (mset (map (chunk k r) (idxs k))) a \<le> 1"
  using distinct_chunks [OF assms] distinct_count_atmost_1 [of "map (chunk k r) (idxs k)"]
  by (metis le_numeral_extra(4) zero_le_one)

section \<open>One region\<close>

lemma region_tags_ok_cong:
  assumes "region_tags_ok k info H r"
    "image_mset fst (region_content k info' H' r) = image_mset fst (region_content k info H r)"
    "image_mset snd (region_content k info' H' r) = image_mset snd (region_content k info H r)"
  shows "region_tags_ok k info' H' r"
  using assms by (simp add: region_tags_ok_def)

text \<open>A chunk that is out of the header is not free in it.\<close>

lemma held_not_free:
  assumes "valid_class k" "region_slot k r" "region_tags_ok k info H r"
    "(chunk k r i, t) \<in># H" "i \<in> set (idxs k)"
  shows "chunk_last_tag info i = 0" "t \<noteq> 0"
proof -
  let ?a = "chunk k r i"
  have in_held: "(?a, t) \<in># {#x \<in># H. fst x \<in> chunks k r#}"
    using assms(4,5) by (simp add: chunks_def)
  then have "t \<in># image_mset snd (region_content k info H r)"
    by (force simp: region_content_def image_iff)
  with assms(3) show "t \<noteq> 0" by (auto simp: region_tags_ok_def)
  have one: "count (image_mset fst (region_content k info H r)) ?a \<le> 1"
    using assms(3) count_chunks_le [OF assms(1,2)] by (simp only: region_tags_ok_def)
  have "?a \<in># image_mset fst {#x \<in># H. fst x \<in> chunks k r#}"
    using in_held by (force simp: image_iff)
  then have h: "1 \<le> count (image_mset fst {#x \<in># H. fst x \<in> chunks k r#}) ?a"
    by (simp only: count_greater_eq_one_iff)
  show "chunk_last_tag info i = 0"
  proof (rule ccontr)
    assume "chunk_last_tag info i \<noteq> 0"
    then have "i \<in> set (free_list_of k info)"
      using assms(5) by (simp add: free_list_of_def free_idx_def)
    then have "?a \<in># image_mset fst (free_pairs k info r)"
      by (force simp: free_pairs_def image_iff)
    then have "1 \<le> count (image_mset fst (free_pairs k info r)) ?a"
      by (simp only: count_greater_eq_one_iff)
    moreover have "count (image_mset fst (region_content k info H r)) ?a =
        count (image_mset fst (free_pairs k info r)) ?a +
        count (image_mset fst {#x \<in># H. fst x \<in> chunks k r#}) ?a"
      by (simp only: region_content_def image_mset_union count_union)
    ultimately show False using h one by linarith
  qed
qed

lemma free_list_add:
  assumes "i \<in> set (idxs k)" "chunk_last_tag info i = 0" "t \<noteq> 0"
    "chunk_last_tag info' = (chunk_last_tag info)(i := t)"
  shows "mset (free_list_of k info') = add_mset i (mset (free_list_of k info))"
    "free_pairs k info' r = add_mset (chunk k r i, t) (free_pairs k info r)"
proof -
  obtain us vs where s: "idxs k = us @ i # vs" using assms(1) by (meson split_list)
  with distinct_idxs [of k] have n: "i \<notin> set us" "i \<notin> set vs" by auto
  let ?f = "filter (\<lambda>j. chunk_last_tag info j \<noteq> 0)"
  have u: "filter (\<lambda>j. chunk_last_tag info' j \<noteq> 0) us = ?f us"
      "filter (\<lambda>j. chunk_last_tag info' j \<noteq> 0) vs = ?f vs"
    using n assms(4) by (auto intro!: filter_cong)
  then have l: "free_list_of k info' = ?f us @ i # ?f vs" "free_list_of k info = ?f us @ ?f vs"
    using s assms(2-4) by (simp_all add: free_list_of_def free_idx_def)
  then show "mset (free_list_of k info') = add_mset i (mset (free_list_of k info))" by simp
  have m: "map (\<lambda>j. (chunk k r j, chunk_last_tag info' j)) (?f us) = map (\<lambda>j. (chunk k r j, chunk_last_tag info j)) (?f us)"
      "map (\<lambda>j. (chunk k r j, chunk_last_tag info' j)) (?f vs) = map (\<lambda>j. (chunk k r j, chunk_last_tag info j)) (?f vs)"
    using n assms(4) by auto
  show "free_pairs k info' r = add_mset (chunk k r i, t) (free_pairs k info r)"
    unfolding free_pairs_def l map_append list.map m by (simp add: assms(4))
qed

text \<open>Putting a chunk back into its header keeps the content of the region.\<close>

lemma region_content_free:
  assumes "valid_class k" "region_slot k r" "region_tags_ok k info H r"
    "(chunk k r i, t) \<in># H" "i \<in> set (idxs k)"
    "chunk_last_tag info' = (chunk_last_tag info)(i := t)"
  shows "region_content k info' (H - {#(chunk k r i, t)#}) r = region_content k info H r"
proof -
  have "free_pairs k info' r = add_mset (chunk k r i, t) (free_pairs k info r)"
    using held_not_free [OF assms(1-5)] assms(5,6) by (intro free_list_add)
  moreover have "{#x \<in># H - {#(chunk k r i, t)#}. fst x \<in> chunks k r#} =
      {#x \<in># H. fst x \<in> chunks k r#} - {#(chunk k r i, t)#}"
    using assms(5) by (simp add: chunks_def)
  moreover have "(chunk k r i, t) \<in># {#x \<in># H. fst x \<in> chunks k r#}"
    using assms(4,5) by (simp add: chunks_def)
  ultimately show ?thesis by (simp add: region_content_def)
qed

text \<open>A region keeps its tags when a chunk of another region comes or goes.\<close>

lemma region_content_other:
  assumes "\<And>x. x \<in># H' \<Longrightarrow> fst x \<notin> chunks k r"
  shows "region_content k info (H + H') r = region_content k info H r"
proof -
  have "{#x \<in># H'. fst x \<in> chunks k r#} = {#}"
    using assms by (intro multiset_eqI) (auto simp flip: not_in_iff)
  then show ?thesis by (simp add: region_content_def)
qed

section \<open>A chunk comes back\<close>

lemma class_core_slot:
  assumes "class_core k R N pl rl ci H ps rs fs" "r \<in> set rs"
  shows "region_slot k r"
  using assms in_pool_slot unfolding class_core_def pools_ok_def regions_ok_def by blast

lemma class_inv_slot:
  assumes "class_inv k R N pl rl fl ci H ps rs fs" "r \<in> set rs"
  shows "region_slot k r"
  using assms class_core_slot unfolding class_inv_def by blast

lemma class_inv_fs:
  assumes "class_inv k R N pl rl fl ci H ps rs fs"
  shows "distinct fs" "0 \<notin> set fs" "set fs \<subseteq> set rs" "distinct rs" "0 \<notin> set rs"
  using assms unfolding class_inv_parts freed_ok_def freed_flags_def regions_ok_def
  by (auto intro: dll_distinct dest: chain_nonnull dll_nonnull)

definition info_freed :: "nat \<Rightarrow> u8 \<Rightarrow> uptr \<Rightarrow> CTRegionInfo \<Rightarrow> CTRegionInfo" where
  "info_freed i t h info =
     (let info = info\<lparr>freed_num := freed_num info + 1,
                      chunk_last_tag := (chunk_last_tag info)(i := t)\<rparr>
      in if in_free_list info = 0 then info\<lparr>freed_next := h, in_free_list := 1\<rparr> else info)"

lemma info_freed_simps [simp]:
  "chunk_last_tag (info_freed i t h info) = (chunk_last_tag info)(i := t)"
  "freed_num (info_freed i t h info) = freed_num info + 1"
  "ri_prev (info_freed i t h info) = ri_prev info"
  "ri_next (info_freed i t h info) = ri_next info"
  "parent_pool (info_freed i t h info) = parent_pool info"
  "status (info_freed i t h info) = status info"
  "in_free_list (info_freed i t h info) = (if in_free_list info = 0 then 1 else in_free_list info)"
  "freed_next (info_freed i t h info) = (if in_free_list info = 0 then h else freed_next info)"
  by (simp_all add: info_freed_def Let_def)

definition ci_freed :: "bool \<Rightarrow> CTSuperPoolChunkInfo \<Rightarrow> CTSuperPoolChunkInfo" where
  "ci_freed new ci = (if new then ci\<lparr>free_chunk_num := free_chunk_num ci + 1,
       free_region_num := free_region_num ci + 1\<rparr>
     else ci\<lparr>free_chunk_num := free_chunk_num ci + 1\<rparr>)"

lemma free_chunks_upd:
  assumes "distinct fs" "r \<in> set fs"
    "length (free_list_of k info') = length (free_list_of k (R r)) + 1"
  shows "free_chunks k (R(r := info')) fs = free_chunks k R fs + 1"
proof -
  obtain us vs where fs: "fs = us @ r # vs" using assms(2) by (meson split_list)
  with assms(1) have "r \<notin> set us" "r \<notin> set vs" by auto
  then have "map (\<lambda>x. length (free_list_of k ((R(r := info')) x))) us = map (\<lambda>x. length (free_list_of k (R x))) us"
      "map (\<lambda>x. length (free_list_of k ((R(r := info')) x))) vs = map (\<lambda>x. length (free_list_of k (R x))) vs"
    by auto
  then show ?thesis by (simp only: free_chunks_def fs map_append list.map sum_list_append sum_list.Cons)
     (simp add: assms(3))
qed

lemma free_chunks_other: "r \<notin> set fs \<Longrightarrow> free_chunks k (R(r := info')) fs = free_chunks k R fs"
  unfolding free_chunks_def by (intro arg_cong [where f = sum_list] map_cong) auto

lemma class_inv_free:
  assumes k: "valid_class k" and inv: "class_inv k R N pl rl fl ci H ps rs fs"
    and r: "r \<in> set rs" and i: "i \<in> set (idxs k)" and held: "(chunk k r i, t) \<in># H"
    and new: "new \<longleftrightarrow> in_free_list (R r) = 0"
  shows "class_inv k (R(r := info_freed i t (head fl) (R r))) N pl rl
     (if new then fl\<lparr>head := r\<rparr> else fl) (ci_freed new ci)
     (H - {#(chunk k r i, t)#}) ps rs (if new then r # fs else fs)"
proof -
  let ?info = "info_freed i t (head fl) (R r)" and ?R = "R(r := info_freed i t (head fl) (R r))"
  note slot = class_inv_slot [OF inv r] and fs = class_inv_fs [OF inv]
  have reg: "regions_ok k R N rl ps rs" and fr: "freed_ok k R fl rs fs" and pl: "pools_ok k N pl ps"
    and cn: "counts_ok k R ci rs fs" and tg: "tags_ok k R H rs"
    using inv by (simp_all add: class_inv_parts)
  have ok: "region_tags_ok k (R r) H r" using tg r by (simp add: tags_ok_def)
  note nf = held_not_free [OF k slot ok held i]
  have len: "length (free_list_of k ?info) = length (free_list_of k (R r)) + 1"
    using free_list_add(1) [OF i nf, of ?info] by (metis add.commute info_freed_simps(1) plus_1_eq_Suc size_add_mset size_mset)
  have new_fs: "new \<longleftrightarrow> r \<notin> set fs" using fr r new by (auto simp: freed_ok_def freed_flags_def)
  have "pools_ok k N pl ps" by (rule pl)
  moreover have "regions_ok k ?R N rl ps rs"
  proof -
    have "dll ?R rl rs = dll R rl rs" by (rule dll_cong) auto
    moreover have "filter (\<lambda>x. parent_pool (?R x) = p) rs = filter (\<lambda>x. parent_pool (R x) = p) rs" for p
      by (intro filter_cong) auto
    ultimately show ?thesis using reg r unfolding regions_ok_def by auto
  qed
  moreover have "freed_ok k ?R (if new then fl\<lparr>head := r\<rparr> else fl) rs (if new then r # fs else fs)"
  proof -
    have ch: "chain (\<lambda>p. freed_next (R p)) (head fl) fs" using fr by (simp add: freed_ok_def)
    have "chain (\<lambda>p. freed_next (?R p)) h fs = chain (\<lambda>p. freed_next (R p)) h fs" if "r \<notin> set fs" for h
      using that by (intro chain_cong) auto
    moreover have "chain (\<lambda>p. freed_next (?R p)) h fs = chain (\<lambda>p. freed_next (R p)) h fs" if "\<not> new" for h
      using that new by (intro chain_cong) auto
    moreover have "r \<noteq> 0" using fs r by auto
    ultimately have "chain (\<lambda>p. freed_next (?R p)) (head (if new then fl\<lparr>head := r\<rparr> else fl)) (if new then r # fs else fs)"
      using ch new new_fs by auto
    moreover have "free_list_of k ?info \<noteq> []" using len by auto
    ultimately show ?thesis using fr r fs(1,3) new new_fs len unfolding freed_ok_def freed_flags_def by auto
  qed
  moreover have "counts_ok k ?R (ci_freed new ci) rs (if new then r # fs else fs)"
  proof (cases new)
    case True
    then have "free_list_of k (R r) = []" using fr r new_fs by (auto simp: freed_ok_def freed_flags_def)
    then have "free_chunks k ?R (r # fs) = free_chunks k R fs + 1"
      using free_chunks_other [of r fs k R ?info] True new_fs len by (simp add: free_chunks_def)
    with True cn show ?thesis by (simp add: counts_ok_def ci_freed_def)
  next
    case False
    with new_fs have "free_chunks k ?R fs = free_chunks k R fs + 1"
      using fs(1) len by (intro free_chunks_upd) auto
    with False cn show ?thesis by (simp add: counts_ok_def ci_freed_def)
  qed
  moreover have "tags_ok k ?R (H - {#(chunk k r i, t)#}) rs"
    unfolding tags_ok_def
  proof (intro conjI ballI)
    fix r' assume r': "r' \<in> set rs"
    show "region_tags_ok k (?R r') (H - {#(chunk k r i, t)#}) r'"
    proof (cases "r' = r")
      case True
      have "region_content k ?info (H - {#(chunk k r i, t)#}) r = region_content k (R r) H r"
        by (rule region_content_free [OF k slot ok held i]) simp
      with ok True show ?thesis by (simp add: region_tags_ok_def)
    next
      case False
      have "chunk k r i \<notin> chunks k r'"
        using chunks_disjoint [OF k slot class_inv_slot [OF inv r'], of "chunk k r i"] i False
        by (auto simp: chunks_def)
      then have "region_content k (R r') ((H - {#(chunk k r i, t)#}) + {#(chunk k r i, t)#}) r'
          = region_content k (R r') (H - {#(chunk k r i, t)#}) r'"
        by (intro region_content_other) auto
      with held have "region_content k (R r') (H - {#(chunk k r i, t)#}) r' = region_content k (R r') H r'"
        by (simp only: insert_DiffM2)
      with False tg r' show ?thesis by (simp add: tags_ok_def region_tags_ok_def)
    qed
  next
    fix x assume "x \<in># H - {#(chunk k r i, t)#}"
    then show "\<exists>r\<in>set rs. fst x \<in> chunks k r" using tg by (auto simp: tags_ok_def dest: in_diffD)
  qed
  ultimately show ?thesis by (simp only: class_inv_parts)
qed

section \<open>The free chunks of a region are taken\<close>

lemma class_core_perm:
  assumes "class_core k R N pl rl ci H ps rs fs" "mset fs = mset fs'"
  shows "class_core k R N pl rl ci H ps rs fs'"
proof -
  note e = mset_eq_setD [OF assms(2)] mset_eq_imp_distinct_iff [OF assms(2)] mset_eq_length [OF assms(2)]
  have "sum_mset (mset (map g fs)) = sum_mset (mset (map g fs'))" for g :: "uptr \<Rightarrow> nat"
    by (simp only: mset_map assms(2))
  then have "free_chunks k R fs = free_chunks k R fs'"
    unfolding free_chunks_def sum_mset_sum_list by blast
  with assms(1) show ?thesis
    unfolding class_core_def freed_flags_def counts_ok_def e by auto
qed

text \<open>The list of freed regions may be relinked.\<close>

lemma class_core_freed_next:
  assumes "\<And>r. R' r = (R r)\<lparr>freed_next := f r\<rparr> \<or> R' r = R r"
    and core: "class_core k R N pl rl ci H ps rs fs"
    and "\<And>r. R' r \<noteq> R r \<Longrightarrow> r \<in> set rs"
  shows "class_core k R' N pl rl ci H ps rs fs"
proof -
  have eq: "chunk_last_tag (R' r) = chunk_last_tag (R r)" "parent_pool (R' r) = parent_pool (R r)"
      "ri_prev (R' r) = ri_prev (R r)" "ri_next (R' r) = ri_next (R r)" "status (R' r) = status (R r)"
      "freed_num (R' r) = freed_num (R r)" "in_free_list (R' r) = in_free_list (R r)" for r
    using assms(1) [of r] by auto
  have dl: "dll R' rl rs = dll R rl rs" by (rule dll_cong) (simp add: eq)
  have fl: "free_list_of k (R' r) = free_list_of k (R r)" for r by (simp add: free_list_of_def eq)
  have rt: "region_tags_ok k (R' r) H r = region_tags_ok k (R r) H r" for r
    by (simp add: region_tags_ok_def region_content_def free_pairs_def free_list_of_def eq)
  have "\<forall>r. r \<notin> set rs \<longrightarrow> R' r = R r" using assms(3) by blast
  moreover have "regions_ok k R N rl ps rs" using core by (simp add: class_core_def)
  ultimately have "regions_ok k R' N rl ps rs" unfolding regions_ok_def dl by (simp only: eq) metis
  moreover have "freed_flags k R' rs fs" "counts_ok k R' ci rs fs" "tags_ok k R' H rs" "pools_ok k N pl ps"
    using core by (simp_all add: class_core_def freed_flags_def counts_ok_def tags_ok_def free_chunks_def eq fl rt)
  ultimately show ?thesis by (simp add: class_core_def)
qed

lemma free_list_taken [simp]: "free_list_of k (region_taken (avail k) info) = []"
  by (auto simp: free_list_of_def free_idx_def region_taken_def idxs_def)

lemma region_taken_simps [simp]:
  "parent_pool (region_taken m info) = parent_pool info"
  "ri_prev (region_taken m info) = ri_prev info"
  "ri_next (region_taken m info) = ri_next info"
  "status (region_taken m info) = status info"
  "freed_next (region_taken m info) = freed_next info"
  "freed_num (region_taken m info) = 0"
  "in_free_list (region_taken m info) = 0"
  by (simp_all add: region_taken_def)

lemma ucast_small: "n < 256 \<Longrightarrow> ucast (of_nat n :: u8) = (of_nat n :: 'n::len word)"
  by (simp add: unsigned_of_nat take_bit_nat_eq_self)

lemma class_core_take:
  assumes k: "valid_class k" and core: "class_core k R N pl rl ci H ps rs (r # fs)"
    and E1: "map fst E = map (chunk k r) (free_list_of k (R r))"
    and E2: "mset (map snd E) = mset (map (chunk_last_tag (R r)) (free_list_of k (R r)))"
  shows "class_core k (upd r (region_taken (avail k)) R) N pl rl
    (spc_taken (freed_num (R r)) ci) (H + mset E) ps rs fs"
proof -
  let ?R = "upd r (region_taken (avail k)) R"
  have parts: "pools_ok k N pl ps" "regions_ok k R N rl ps rs" "freed_flags k R rs (r # fs)"
      "counts_ok k R ci rs (r # fs)" "tags_ok k R H rs"
    using core by (simp_all add: class_core_def)
  have r: "r \<in> set rs" "r \<notin> set fs" "distinct fs" using parts(3) by (auto simp: freed_flags_def)
  have len: "length (free_list_of k (R r)) < 256"
    using length_free_list [OF k, of "R r"] avail_bounds(2) [OF k] by simp
  have "regions_ok k ?R N rl ps rs"
  proof -
    have "dll ?R rl rs = dll R rl rs" by (rule dll_cong) (simp add: upd_def)
    moreover have "filter (\<lambda>x. parent_pool (?R x) = p) rs = filter (\<lambda>x. parent_pool (R x) = p) rs" for p
      by (intro filter_cong) (auto simp: upd_def)
    ultimately show ?thesis using parts(2) r(1) unfolding regions_ok_def by (auto simp: upd_def)
  qed
  moreover have "freed_flags k ?R rs fs"
    using parts(3) unfolding freed_flags_def by (auto simp: upd_def)
  moreover have "counts_ok k ?R (spc_taken (freed_num (R r)) ci) rs fs"
  proof -
    have "free_chunks k ?R fs = free_chunks k R fs"
      unfolding upd_def using r(2) by (rule free_chunks_other)
    moreover have "ucast (freed_num (R r)) = (of_nat (length (free_list_of k (R r))) :: u64)"
      using parts(3) r(1) len by (simp add: freed_flags_def ucast_small)
    ultimately show ?thesis
      using parts(4) by (simp add: counts_ok_def spc_taken_def free_chunks_def)
  qed
  moreover have E_in: "x \<in># mset E \<Longrightarrow> fst x \<in> chunks k r" for x
    proof -
      assume "x \<in># mset E"
      then have "fst x \<in> set (map fst E)" by simp
      then show ?thesis unfolding E1 using free_list_sub [of k "R r"] by (auto simp: chunks_def)
    qed
  moreover have "tags_ok k ?R (H + mset E) rs"
    unfolding tags_ok_def
  proof (intro conjI ballI)
    fix r' assume r': "r' \<in> set rs"
    show "region_tags_ok k (?R r') (H + mset E) r'"
    proof (cases "r' = r")
      case True
      have "{#x \<in># mset E. fst x \<in> chunks k r#} = mset E"
        using E_in by (intro filter_mset_eq_conv [THEN iffD2]) auto
      then have c: "region_content k (?R r) (H + mset E) r = {#x \<in># H. fst x \<in> chunks k r#} + mset E"
        by (simp add: region_content_def free_pairs_def upd_def)
      have E_fst: "image_mset fst (mset E) = image_mset (chunk k r) (mset (free_list_of k (R r)))"
        using E1 by (metis mset_map)
      have E_snd: "image_mset snd (mset E) = image_mset (chunk_last_tag (R r)) (mset (free_list_of k (R r)))"
        using E2 by (metis mset_map)
      show ?thesis unfolding True
      proof (rule region_tags_ok_cong)
        show "region_tags_ok k (R r) H r" using parts(5) r(1) by (simp add: tags_ok_def)
        show "image_mset fst (region_content k (?R r) (H + mset E) r) = image_mset fst (region_content k (R r) H r)"
          unfolding c by (simp add: region_content_def free_pairs_def multiset.map_comp comp_def E_fst)
        show "image_mset snd (region_content k (?R r) (H + mset E) r) = image_mset snd (region_content k (R r) H r)"
          unfolding c by (simp add: region_content_def free_pairs_def multiset.map_comp comp_def E_snd)
      qed
    next
      case False
      have "fst x \<notin> chunks k r'" if "x \<in># mset E" for x
        using chunks_disjoint [OF k class_core_slot [OF core r(1)] class_core_slot [OF core r'] E_in [OF that]]
          False by auto
      then have "region_content k (R r') (H + mset E) r' = region_content k (R r') H r'"
        by (rule region_content_other)
      with False parts(5) r' show ?thesis by (simp add: tags_ok_def region_tags_ok_def upd_def)
    qed
  next
    fix x assume "x \<in># H + mset E"
    then consider "x \<in># H" | "x \<in># mset E" by auto
    then show "\<exists>r\<in>set rs. fst x \<in> chunks k r"
    proof cases
      case 1 with parts(5) show ?thesis by (simp add: tags_ok_def)
    next
      case 2 with E_in [OF 2] r(1) show ?thesis by blast
    qed
  qed
  ultimately show ?thesis using parts(1) by (simp only: class_core_def)
qed

end
