(* ===== verification/Refill_Inv.thy ===== *)
theory Refill_Inv
  imports Pool_Inv
begin

text \<open>
  A refill keeps the invariant of its super pool: the loop of \<open>CTRefillFromRegionList\<close> moves
  the free chunks of the regions it visits, from the random start to the end of the list and on
  from the head, into the batch, and relinks the rest of the list. With enough fuel it ends.
\<close>

text \<open>
  The state of the loop. The list of freed regions was \<open>pre @ post\<close>, the loop visits
  \<open>post @ pre\<close>; \<open>dn\<close> are the regions visited so far and \<open>todo\<close> the others.
\<close>

definition refill_ok ::
    "uptr \<Rightarrow> pool_store \<Rightarrow> CTPoolList \<Rightarrow> CTRegionList \<Rightarrow> CTRegionList \<Rightarrow> (uptr \<times> u8) multiset \<Rightarrow>
     uptr list \<Rightarrow> uptr list \<Rightarrow> uptr list \<Rightarrow> uptr list \<Rightarrow> uptr list \<Rightarrow> uptr list \<Rightarrow> refill \<Rightarrow> bool" where
  "refill_ok k N pl rl fl H ps rs pre post dn todo v \<longleftrightarrow>
     post @ pre = dn @ todo \<and> post \<noteq> [] \<and> todo \<noteq> [] \<and>
     class_core k (rf_R v) N pl rl (rf_spc v) (H + mset (entries (rf_cache v) 0 (rf_idx v))) ps rs todo \<and>
     chain (\<lambda>p. freed_next (rf_R v p)) (head fl) (pre @ post) \<and> rf_list v = fl \<and>
     set (pre @ post) \<subseteq> set rs \<and>
     rf_cur v = hd todo \<and> rf_prev v = (if pre = [] then 0 else last pre) \<and> rf_start v = hd post \<and>
     (rf_cycle v \<longleftrightarrow> length post \<le> length dn) \<and>
     pc_count (rf_cache v) = of_nat (rf_idx v) \<and> rf_idx v \<le> 511 \<and> (dn = [] \<longleftrightarrow> rf_idx v = 0)"

definition refill_done ::
    "uptr \<Rightarrow> pool_store \<Rightarrow> CTPoolList \<Rightarrow> CTRegionList \<Rightarrow> (uptr \<times> u8) multiset \<Rightarrow>
     uptr list \<Rightarrow> uptr list \<Rightarrow> refill \<Rightarrow> refill \<Rightarrow> bool" where
  "refill_done k N pl rl H ps rs v v' \<longleftrightarrow>
     (\<exists>fs'. class_inv k (rf_R v') N pl rl (rf_list v') (rf_spc v')
        (H + mset (entries (rf_cache v') 0 (rf_idx v'))) ps rs fs') \<and>
     pc_count (rf_cache v') = of_nat (rf_idx v') \<and> 0 < rf_idx v' \<and> rf_idx v' \<le> 511 \<and>
     (\<forall>r. r \<notin> set rs \<longrightarrow> rf_R v' r = rf_R v r)"

lemma entries_append: "entries c 0 (n + m) = entries c 0 n @ entries c n m"
  by (simp add: entries_def flip: map_append upt_add_eq_append)

text \<open>The three ways to stop with regions left.\<close>

lemma refill_stop:
  assumes ok: "refill_ok k N pl rl fl H ps rs pre post dn todo v" and dn: "dn \<noteq> []"
    and v': "v' = (if pre \<noteq> [] then
           if rf_cycle v then v\<lparr>rf_R := set_freed_next (last pre) 0 (rf_R v), rf_list := fl\<lparr>head := rf_cur v\<rparr>\<rparr>
           else v\<lparr>rf_R := set_freed_next (last pre) (rf_cur v) (rf_R v)\<rparr>
         else v\<lparr>rf_list := fl\<lparr>head := rf_cur v\<rparr>\<rparr>)"
  shows "refill_done k N pl rl H ps rs v v'"
proof -
  let ?f = "\<lambda>R p. freed_next (R p)"
  have order: "post @ pre = dn @ todo" "post \<noteq> []" "todo \<noteq> []"
    and core: "class_core k (rf_R v) N pl rl (rf_spc v) (H + mset (entries (rf_cache v) 0 (rf_idx v))) ps rs todo"
    and ch: "chain (?f (rf_R v)) (head fl) (pre @ post)"
    and fields: "rf_list v = fl" "set (pre @ post) \<subseteq> set rs" "rf_cur v = hd todo"
      "rf_cycle v \<longleftrightarrow> length post \<le> length dn" "pc_count (rf_cache v) = of_nat (rf_idx v)"
      "rf_idx v \<le> 511" "0 < rf_idx v"
    using ok dn by (auto simp: refill_ok_def)
  have dist: "distinct (pre @ post)" by (rule freed.chain_distinct [OF ch])
  have relinked: "class_core k (set_freed_next p q (rf_R v)) N pl rl (rf_spc v)
      (H + mset (entries (rf_cache v) 0 (rf_idx v))) ps rs todo" if "p \<in> set rs" for p q
    by (rule class_core_freed_next [OF _ core, of _ "\<lambda>_. q"])
       (use that in \<open>auto simp: set_freed_next_def upd_def split: if_splits\<close>)
  consider "pre = []" | "pre \<noteq> []" "rf_cycle v" | "pre \<noteq> []" "\<not> rf_cycle v" by blast
  then show ?thesis
  proof cases
    case 1
    then have "chain (?f (rf_R v)) (hd todo) todo"
      using ch order by (intro chain_suffix [of _ _ dn]) auto
    with 1 core fields v' show ?thesis
      unfolding refill_done_def class_inv_def by auto
  next
    case 2
    then obtain pre1 where pre: "dn = post @ pre1" "pre = pre1 @ todo"
      using order fields(4) by (auto simp: append_eq_append_conv2)
    obtain us t where t: "todo = us @ [t]" using order(3) by (metis append_butlast_last_id)
    have lt: "last pre = t" "t \<in> set rs" using pre t fields(2) by auto
    have "chain (?f (rf_R v)) (head fl) (pre1 @ (us @ t # post))" using ch pre t by simp
    from chain_suffix [OF this] have "chain (?f (rf_R v)) (hd todo) (us @ t # post)"
      by (cases us) (simp_all add: t)
    then have "chain (?f (set_freed_next t 0 (rf_R v))) (hd todo) (us @ t # [])"
      by (rule freed.chain_relink) (use dist pre t in auto)
    with relinked [OF lt(2), of 0] 2 fields v' lt t show ?thesis
      unfolding refill_done_def class_inv_def
      by (auto simp: set_freed_next_def upd_def intro!: exI [of _ todo])
  next
    case 3
    then obtain post2 where post: "post = dn @ post2" "todo = post2 @ pre" "post2 \<noteq> []"
      using order fields(4) by (auto simp: append_eq_append_conv2)
    obtain us t where t: "pre = us @ [t]" using 3 by (metis append_butlast_last_id)
    have lt: "last pre = t" "t \<in> set rs" "hd todo = hd post2" using post t fields(2) by auto
    have c1: "chain (?f (rf_R v)) (head fl) (us @ t # post)" using ch t by simp
    have c2: "chain (?f (rf_R v)) (hd post2) post2"
      using chain_suffix [of _ _ "pre @ dn" post2] ch post by simp
    have "chain (?f (set_freed_next t (hd post2) (rf_R v))) (head fl) (us @ t # post2)"
      by (rule freed.chain_relink [OF c1 c2]) (use dist post t in auto)
    moreover have "class_core k (set_freed_next t (hd post2) (rf_R v)) N pl rl (rf_spc v)
      (H + mset (entries (rf_cache v) 0 (rf_idx v))) ps rs (us @ t # post2)"
      by (rule class_core_perm [OF relinked [OF lt(2)]]) (use post t in simp)
    ultimately show ?thesis
      using 3 fields v' lt unfolding refill_done_def class_inv_def
      by (auto simp: set_freed_next_def upd_def intro!: exI [of _ "us @ t # post2"])
  qed
qed

text \<open>One region more.\<close>

lemma refill_take:
  assumes k: "valid_class k" and ok: "refill_ok k N pl rl fl H ps rs pre post dn (r # todo) v"
    and idx: "rf_idx v < 256"
  shows "\<exists>v1. take_region (avail k) (Size SCM k) v = Inr v1 \<and>
    class_core k (rf_R v1) N pl rl (rf_spc v1) (H + mset (entries (rf_cache v1) 0 (rf_idx v1))) ps rs todo \<and>
    pc_count (rf_cache v1) = of_nat (rf_idx v1) \<and> 0 < rf_idx v1 \<and> rf_idx v1 \<le> 511 \<and>
    rf_R v1 = upd r (region_taken (avail k)) (rf_R v) \<and> rf_list v1 = rf_list v \<and> rf_cur v1 = r \<and>
    rf_prev v1 = rf_prev v \<and> rf_start v1 = rf_start v \<and> rf_cycle v1 = rf_cycle v"
proof -
  have core: "class_core k (rf_R v) N pl rl (rf_spc v) (H + mset (entries (rf_cache v) 0 (rf_idx v))) ps rs (r # todo)"
    and cur: "rf_cur v = r" and cnt: "pc_count (rf_cache v) = of_nat (rf_idx v)"
    and sub: "set (pre @ post) \<subseteq> set rs" and ord: "post @ pre = dn @ r # todo"
    and ch: "chain (\<lambda>p. freed_next (rf_R v p)) (head fl) (pre @ post)"
    using ok by (auto simp: refill_ok_def)
  let ?fr = "free_list_of k (rf_R v r)"
  have flags: "freed_flags k (rf_R v) rs (r # todo)" using core by (simp add: class_core_def)
  then have r: "r \<in> set rs" "?fr \<noteq> []" "freed_num (rf_R v r) = of_nat (length ?fr)"
    by (auto simp: freed_flags_def)
  have "r \<in> set (pre @ post)" using ord by (metis in_set_conv_decomp set_append Un_commute)
  with ch have nz: "rf_cur v \<noteq> 0" using cur chain_nonnull by metis
  have len: "length ?fr \<le> 255" "0 < length ?fr"
    using length_free_list [OF k, of "rf_R v r"] avail_bounds(2) [OF k] r(2) by auto
  have fr: "?fr = free_idx [256 - avail k..<256] (chunk_last_tag (rf_R v (rf_cur v)))"
    by (simp add: free_list_of_def idxs_def cur)
  have room: "rf_idx v + length ?fr < kBatchLen" using len idx by (simp add: kBatchLen_def)
  obtain c' where c': "take_region (avail k) (Size SCM k) v = Inr (v\<lparr>
             rf_R := upd r (region_taken (avail k)) (rf_R v),
             rf_spc := spc_taken (freed_num (rf_R v r)) (rf_spc v),
             rf_cache := c', rf_idx := rf_idx v + length ?fr\<rparr>)"
      "pc_count c' = pc_count (rf_cache v) + ucast (freed_num (rf_R v r))"
      "entries c' 0 (rf_idx v) = entries (rf_cache v) 0 (rf_idx v)"
      "entries c' (rf_idx v) (length ?fr) =
           zip (map (chunk k r) ?fr) (turned (map (chunk_last_tag (rf_R v r)) ?fr))"
    using take_region_spec [OF nz fr r(2) room, of "Size SCM k"] unfolding cur chunk_def by blast
  let ?E = "zip (map (chunk k r) ?fr) (turned (map (chunk_last_tag (rf_R v r)) ?fr))"
  have "class_core k (upd r (region_taken (avail k)) (rf_R v)) N pl rl
      (spc_taken (freed_num (rf_R v r)) (rf_spc v))
      (H + mset (entries (rf_cache v) 0 (rf_idx v)) + mset ?E) ps rs todo"
    by (rule class_core_take [OF k core]) simp_all
  moreover have "mset (entries c' 0 (rf_idx v + length ?fr)) =
      mset (entries (rf_cache v) 0 (rf_idx v)) + mset ?E"
    by (simp only: entries_append c'(3,4) mset_append)
  moreover have "ucast (freed_num (rf_R v r)) = (of_nat (length ?fr) :: u32)"
    using len by (simp only: r(3)) (rule ucast_small, simp)
  ultimately show ?thesis
    using c'(1,2) cnt len idx cur by (simp add: add.assoc)
qed

lemma refill_next:
  assumes k: "valid_class k" and ok: "refill_ok k N pl rl fl H ps rs pre post dn (r # todo) v"
    and R1: "R1 = upd r (region_taken (avail k)) (rf_R v)"
    and cur: "cur = freed_next (R1 r)"
    and wrapped: "cur' = (if cur = 0 then head fl else cur)"
  shows "todo = [] \<longleftrightarrow> cur' = hd post" "todo \<noteq> [] \<Longrightarrow> cur' = hd todo"
    "todo \<noteq> [] \<Longrightarrow> (rf_cycle v \<or> cur = 0) \<longleftrightarrow> length post \<le> length dn + 1"
proof -
  have ord: "post @ pre = dn @ r # todo" "post \<noteq> []"
    and ch: "chain (\<lambda>p. freed_next (rf_R v p)) (head fl) (pre @ post)"
    and cyc: "rf_cycle v \<longleftrightarrow> length post \<le> length dn"
    using ok by (auto simp: refill_ok_def)
  have dist: "distinct (pre @ post)" by (rule freed.chain_distinct [OF ch])
  have nn: "0 \<notin> set (pre @ post)" by (rule chain_nonnull [OF ch])
  have cur_eq: "cur = freed_next (rf_R v r)" by (simp add: cur R1 upd_def)
  have dist': "distinct (dn @ r # todo)" using dist ord(1) by (metis distinct_append Int_commute)
  have hd_fl: "head fl = hd (pre @ post)" using chain_head [OF ch] ord(2) by (cases "pre @ post") auto
  \<comment> \<open>where \<open>r\<close> lies in the list\<close>
  consider (early) us where "post = dn @ r # us" "todo = us @ pre"
    | (late) us where "dn = post @ us" "pre = us @ r # todo"
    using ord(1) by (auto simp: append_eq_append_conv2 Cons_eq_append_conv append_eq_Cons_conv)
  then have "(todo = [] \<longleftrightarrow> cur' = hd post) \<and> (todo \<noteq> [] \<longrightarrow> cur' = hd todo) \<and>
     (todo \<noteq> [] \<longrightarrow> (rf_cycle v \<or> cur = 0) = (length post \<le> length dn + 1))"
  proof cases
    case early
    have nx: "freed_next (rf_R v r) = (case us of [] \<Rightarrow> 0 | y # _ \<Rightarrow> y)"
      using chain_next [of _ _ "pre @ dn" r us] ch early(1) by simp
    show ?thesis
    proof (cases us)
      case Nil
      then have "cur' = hd (pre @ post)" using nx wrapped hd_fl cur_eq by simp
      moreover have "pre \<noteq> [] \<Longrightarrow> hd pre \<noteq> hd post" using dist ord(2) by (cases pre; cases post) auto
      ultimately show ?thesis using early Nil nx cur_eq by (cases pre) auto
    next
      case (Cons y ys)
      with early nn have "y \<noteq> 0" by auto
      with Cons nx cur_eq wrapped have "cur' = y" "cur \<noteq> 0" by auto
      moreover have "y \<noteq> hd post" using early(1) dist Cons by (cases dn) auto
      ultimately show ?thesis using early Cons cyc by auto
    qed
  next
    case late
    have nx: "freed_next (rf_R v r) = (case todo @ post of [] \<Rightarrow> 0 | y # _ \<Rightarrow> y)"
      using chain_next [of _ _ us r "todo @ post"] ch late(2) by simp
    then have "cur = hd (todo @ post)" using ord(2) cur_eq by (cases "todo @ post") auto
    moreover have "hd (todo @ post) \<noteq> 0" using nn late ord(2) by (cases todo; cases post) auto
    moreover have "todo \<noteq> [] \<Longrightarrow> hd todo \<noteq> hd post" using dist late(2) ord(2) by (cases todo; cases post) auto
    ultimately show ?thesis using wrapped cyc late by (cases todo) auto
  qed
  then show "todo = [] \<longleftrightarrow> cur' = hd post" "todo \<noteq> [] \<Longrightarrow> cur' = hd todo"
    "todo \<noteq> [] \<Longrightarrow> (rf_cycle v \<or> cur = 0) \<longleftrightarrow> length post \<le> length dn + 1" by blast+
qed

lemma refill_loop_done:
  assumes k: "valid_class k" and "refill_ok k N pl rl fl H ps rs pre post dn todo v"
    and "length todo \<le> n"
  shows "\<exists>v'. refill_loop (Suc n) 256 (avail k) (Size SCM k) v = Inr (True, v') \<and>
    refill_done k N pl rl H ps rs v v'"
  using assms(2,3)
proof (induction n arbitrary: dn todo v)
  case 0
  then show ?case by (simp add: refill_ok_def)
next
  case (Suc n)
  note ok = Suc.prems(1)
  obtain r rest where todo: "todo = r # rest" using ok by (cases todo) (auto simp: refill_ok_def)
  have fields: "rf_list v = fl" "rf_prev v = (if pre = [] then 0 else last pre)" "rf_start v = hd post"
      "rf_cur v = r" "dn = [] \<longleftrightarrow> rf_idx v = 0" "rf_idx v \<le> 511"
    using ok todo by (auto simp: refill_ok_def)
  have ch: "chain (\<lambda>p. freed_next (rf_R v p)) (head fl) (pre @ post)" using ok by (simp add: refill_ok_def)
  have last0: "pre \<noteq> [] \<Longrightarrow> last pre \<noteq> 0" using chain_nonnull [OF ch] by (metis Un_iff last_in_set set_append)
  show ?case
  proof (cases "256 \<le> rf_idx v")
    case True
    then have "dn \<noteq> []" using fields(5) by auto
    from refill_stop [OF ok this refl] show ?thesis
      using True fields last0 by (auto split: if_splits)
  next
    case False
    then have idx: "rf_idx v < 256" by simp
    obtain v1 where v1: "take_region (avail k) (Size SCM k) v = Inr v1"
        "class_core k (rf_R v1) N pl rl (rf_spc v1) (H + mset (entries (rf_cache v1) 0 (rf_idx v1))) ps rs rest"
        "pc_count (rf_cache v1) = of_nat (rf_idx v1)" "0 < rf_idx v1" "rf_idx v1 \<le> 511"
        "rf_R v1 = upd r (region_taken (avail k)) (rf_R v)" "rf_list v1 = rf_list v" "rf_cur v1 = r"
        "rf_prev v1 = rf_prev v" "rf_start v1 = rf_start v" "rf_cycle v1 = rf_cycle v"
      using refill_take [OF k ok [unfolded todo] idx] by blast
    define cur where "cur = freed_next (rf_R v1 r)"
    define cur' where "cur' = (if cur = 0 then head fl else cur)"
    note nx = refill_next [OF k ok [unfolded todo] v1(6) cur_def cur'_def]
    define v2 where "v2 = (let w = v1\<lparr>rf_cur := cur\<rparr> in
        if cur = 0 then w\<lparr>rf_cur := head fl, rf_cycle := True\<rparr> else w)"
    have v2: "rf_R v2 = rf_R v1" "rf_spc v2 = rf_spc v1" "rf_cache v2 = rf_cache v1" "rf_idx v2 = rf_idx v1"
        "rf_list v2 = fl" "rf_cur v2 = cur'" "rf_prev v2 = rf_prev v" "rf_start v2 = hd post"
        "rf_cycle v2 \<longleftrightarrow> rf_cycle v \<or> cur = 0"
      using v1 fields by (auto simp: v2_def cur'_def Let_def)
    have step: "refill_loop (Suc (Suc n)) 256 (avail k) (Size SCM k) v =
        (if cur' = hd post
         then let w = v2\<lparr>rf_list := fl\<lparr>head := 0\<rparr>\<rparr>
              in if pc_count (rf_cache w) = 0 then Inr (False, w) else Inr (True, w)
         else refill_loop (Suc n) 256 (avail k) (Size SCM k) v2)"
      using False v1(1,7,8) fields v2(6,8) by (subst refill_loop.simps) (auto simp: Let_def cur_def v2_def)
    have R2: "r' \<notin> set rs \<Longrightarrow> rf_R v1 r' = rf_R v r'" for r'
    proof -
      have "r \<in> set rs" using ok todo by (auto simp: refill_ok_def class_core_def freed_flags_def)
      then show "r' \<notin> set rs \<Longrightarrow> rf_R v1 r' = rf_R v r'" by (auto simp: v1(6) upd_def)
    qed
    show ?thesis
    proof (cases "rest = []")
      case True
      have "of_nat (rf_idx v1) \<noteq> (0 :: u32)"
      proof
        assume "of_nat (rf_idx v1) = (0 :: u32)"
        then have "unat (of_nat (rf_idx v1) :: u32) = 0" by simp
        moreover have "unat (of_nat (rf_idx v1) :: u32) = rf_idx v1"
          using v1(5) by (intro unat_of_nat_small) simp
        ultimately show False using v1(4) by simp
      qed
      moreover have "refill_done k N pl rl H ps rs v (v2\<lparr>rf_list := fl\<lparr>head := 0\<rparr>\<rparr>)"
        using v1 v2 True R2 unfolding refill_done_def class_inv_def
        by (auto intro!: exI [of _ "[]"])
      ultimately show ?thesis using nx(1) True step v1(3) v2(3) by (auto simp: Let_def)
    next
      case False
      have "refill_ok k N pl rl fl H ps rs pre post (dn @ [r]) rest v2"
      proof -
        have "chain (\<lambda>p. freed_next (rf_R v2 p)) (head fl) (pre @ post)"
          using ch by (rule chain_cong [THEN iffD1, rotated]) (simp add: v2 v1(6) upd_def)
        then show ?thesis
          using ok todo False v1(2-5) v2 nx(2,3) fields by (simp add: refill_ok_def)
      qed
      moreover have "length rest \<le> n" using Suc.prems(2) todo by simp
      ultimately obtain v' where "refill_loop (Suc n) 256 (avail k) (Size SCM k) v2 = Inr (True, v')"
          "refill_done k N pl rl H ps rs v2 v'"
        using Suc.IH by blast
      with step nx(1) False R2 v2(1) show ?thesis by (auto simp: refill_done_def)
    qed
  qed
qed

section \<open>The number of regions\<close>

lemma class_core_length:
  assumes k: "valid_class k" and core: "class_core k R N pl rl ci H ps rs fs"
  shows "length rs \<le> 2 ^ 27" "length fs \<le> 2 ^ 27" "free_chunks k R fs \<le> 255 * 2 ^ 27"
proof -
  have slots: "region_slot k r" if "r \<in> set rs" for r by (rule class_core_slot [OF core that])
  let ?b = "(unat k + 1) * 2 ^ 27"
  have "(\<lambda>r. unat r div 8192) ` set rs \<subseteq> {?b..<?b + 2 ^ 27}"
  proof
    fix x assume "x \<in> (\<lambda>r. unat r div 8192) ` set rs"
    then obtain r where r: "r \<in> set rs" "x = unat r div 8192" by auto
    note b = region_slot_bounds [OF k slots [OF r(1)]]
    have "8192 * ?b \<le> unat r" using b(1) by simp
    moreover have "unat r < 8192 * (?b + 2 ^ 27)" using b(2) rsz_bounds(1) [OF k] by simp
    ultimately show "x \<in> {?b..<?b + 2 ^ 27}"
      unfolding r(2) by (simp add: less_eq_div_iff_mult_less_eq div_less_iff_less_mult mult.commute)
  qed
  moreover have "inj_on (\<lambda>r. unat r div 8192) (set rs)"
  proof (rule inj_onI)
    fix r r' assume r: "r \<in> set rs" "r' \<in> set rs" "unat r div 8192 = unat r' div 8192"
    have "unat r = unat r div 8192 * 8192" "unat r' = unat r' div 8192 * 8192"
      using region_slot_bounds(3) [OF k slots] r(1,2) by (simp_all add: dvd_div_mult_self)
    with r(3) show "r = r'" by (metis word_unat_eq_iff)
  qed
  ultimately have "card (set rs) \<le> card {?b..<?b + 2 ^ 27}"
    by (intro card_inj_on_le [of "\<lambda>r. unat r div 8192"]) auto
  moreover have d: "distinct rs" "distinct fs" "set fs \<subseteq> set rs"
    using core by (auto simp: class_core_def regions_ok_def freed_flags_def intro: dll_distinct)
  ultimately show rs: "length rs \<le> 2 ^ 27" by (simp add: distinct_card)
  have "card (set fs) \<le> card (set rs)" using d by (intro card_mono) auto
  with d rs show fs: "length fs \<le> 2 ^ 27" by (simp add: distinct_card)
  have "free_chunks k R fs \<le> length fs * 255"
    unfolding free_chunks_def
  proof (induction fs)
    case (Cons r fs)
    have "length (free_list_of k (R r)) \<le> 255"
      using length_free_list [OF k, of "R r"] avail_bounds(2) [OF k] by simp
    with Cons show ?case by simp
  qed simp
  also have "\<dots> \<le> 255 * 2 ^ 27" using fs by simp
  finally show "free_chunks k R fs \<le> 255 * 2 ^ 27" .
qed

lemma class_core_counters:
  assumes "valid_class k" "class_core k R N pl rl ci H ps rs fs"
  shows "unat (free_chunk_num ci) = free_chunks k R fs" "unat (free_region_num ci) = length fs"
    "unat (region_num ci) = length rs"
proof -
  note l = class_core_length [OF assms]
  have c: "counts_ok k R ci rs fs" using assms(2) by (simp add: class_core_def)
  show "unat (free_chunk_num ci) = free_chunks k R fs"
    using c l(3) by (simp only: counts_ok_def) (rule unat_of_nat_small, simp)
  show "unat (free_region_num ci) = length fs"
    using c l(2) by (simp only: counts_ok_def) (rule unat_of_nat_small, simp)
  show "unat (region_num ci) = length rs"
    using c l(1) by (simp only: counts_ok_def) (rule unat_of_nat_small, simp)
qed

section \<open>The refill from the list\<close>

lemma walk_freed_spec:
  "chain (\<lambda>p. freed_next (R p)) h (xs @ y # ys) \<Longrightarrow>
   walk_freed (length xs) R b h = Inr (last (b # xs), y)"
  by (induction xs arbitrary: b h) auto

definition class_ok ::
    "uptr \<Rightarrow> 'a ct_state_scheme \<Rightarrow> (uptr \<times> u8) multiset \<Rightarrow> uptr list \<Rightarrow> uptr list \<Rightarrow> uptr list \<Rightarrow> bool" where
  "class_ok k s H ps rs fs \<longleftrightarrow> class_inv k (RI s) (PN s) (SuperPoolsPoolLinkedList s k)
     (SuperPoolsRegionList s k) (SuperPoolsFreedRegionList s k) (SuperPoolChunkInfo s k) H ps rs fs"

definition layout_ok :: "layout \<Rightarrow> bool" where
  "layout_ok L \<longleftrightarrow> (\<forall>k. valid_class k \<longrightarrow>
     SuperPoolsBaseAddress L k = superPoolBase + k * kSuperPoolSize \<and>
     SuperPoolsChunkSize L k = Size SCM k \<and>
     SuperPoolsRegionSize L k = Size SCM k * 256 \<and>
     AvailableChunksInRegion L k = of_nat (avail k) \<and>
     AllRegionsInPool L k = of_nat (2 ^ 30 div rsz k) \<and>
     MinChunkInPerClass L k = 256 \<and> MaxChunkInPerClass L k = 512)"

lemma layout_okD:
  assumes "layout_ok L" "valid_class k"
  shows "SuperPoolsBaseAddress L k = superPoolBase + k * kSuperPoolSize"
    "SuperPoolsChunkSize L k = Size SCM k" "SuperPoolsRegionSize L k = Size SCM k * 256"
    "unat (AvailableChunksInRegion L k) = avail k"
    "unat (AllRegionsInPool L k) = 2 ^ 30 div rsz k"
    "MinChunkInPerClass L k = 256" "MaxChunkInPerClass L k = 512"
proof -
  have le: "2 ^ 30 div rsz k \<le> (2 ^ 30 :: nat)" by (rule div_le_dividend)
  have all: "AllRegionsInPool L k = of_nat (2 ^ 30 div rsz k)"
    using assms by (simp only: layout_ok_def)
  show "unat (AllRegionsInPool L k) = 2 ^ 30 div rsz k"
    unfolding all by (rule unat_of_nat_small, rule le_less_trans [OF le]) simp
  show "unat (AvailableChunksInRegion L k) = avail k"
    using assms avail_bounds(2) [OF assms(2)] unfolding layout_ok_def by (simp add: unat_of_nat_small)
qed (use assms in \<open>auto simp: layout_ok_def\<close>)

text \<open>What of the state a class owns; the other classes keep it.\<close>

definition cached :: "CTPerClass \<Rightarrow> (uptr \<times> u8) list" where
  "cached c = entries c 0 (unat (pc_count c))"

lemma CTRefillFromRegionList_ok:
  assumes k: "valid_class k" and L: "layout_ok L" and inv: "class_ok k s H ps rs fs"
    and fuel: "length fs < loop_fuel G" and c: "256 \<le> free_chunk_num (SuperPoolChunkInfo s k)"
  shows "\<exists>c' R' fl' ci' x fs'. CTRefillFromRegionList G L c k 256 512 s = Inr (True, c',
      s\<lparr>my_random_state := x, RI := R', SuperPoolsFreedRegionList := (SuperPoolsFreedRegionList s)(k := fl'),
        SuperPoolChunkInfo := (SuperPoolChunkInfo s)(k := ci')\<rparr>) \<and>
    class_inv k R' (PN s) (SuperPoolsPoolLinkedList s k) (SuperPoolsRegionList s k) fl' ci'
      (H + mset (cached c')) ps rs fs' \<and>
    0 < unat (pc_count c') \<and> unat (pc_count c') \<le> 511 \<and>
    (\<forall>r. r \<notin> set rs \<longrightarrow> R' r = RI s r)"
proof -
  let ?ci = "SuperPoolChunkInfo s k" and ?fl = "SuperPoolsFreedRegionList s k"
  note Lk = layout_okD [OF L k]
  have core: "class_core k (RI s) (PN s) (SuperPoolsPoolLinkedList s k) (SuperPoolsRegionList s k) ?ci H ps rs fs"
    and ch: "chain (\<lambda>p. freed_next (RI s p)) (head ?fl) fs"
    using inv by (simp_all add: class_ok_def class_inv_def)
  note cnt = class_core_counters [OF k core]
  have "fs \<noteq> []" using c cnt(1) by (auto simp: word_le_nat_alt free_chunks_def)
  then have nz: "free_region_num ?ci \<noteq> 0" using cnt(2) by auto
  obtain x s1 where g: "genRandom s = (x, s1)" by (cases "genRandom s")
  then have s1: "s1 = s\<lparr>my_random_state := x\<rparr>" using genRandom_machine [of s] by simp
  define d where "d = unat (if 64 < free_region_num ?ci then ucast (x mod 64) else ucast x mod free_region_num ?ci)"
  have "d < length fs"
  proof (cases "64 < free_region_num ?ci")
    case True
    have "unat (ucast (x mod 64) :: u64) = unat (x mod 64)" by (rule unat_ucast_32)
    also have "\<dots> < 64" by (simp add: unat_mod)
    finally show ?thesis using True cnt(2) by (simp add: d_def word_less_nat_alt)
  next
    case False
    have "unat (ucast x mod free_region_num ?ci) < unat (free_region_num ?ci)"
      using nz by (simp add: unat_mod unat_gt_0)
    with False cnt(2) show ?thesis by (simp add: d_def)
  qed
  then obtain pre y post where fs: "fs = pre @ y # post" "length pre = d"
    by (metis id_take_nth_drop length_take min.absorb4)
  have walk: "walk_freed d (RI s) 0 (head ?fl) = Inr (last (0 # pre), y)"
    using walk_freed_spec [of "RI s" "head ?fl" pre y post 0] ch fs by simp
  define v where "v = \<lparr> rf_R = RI s, rf_list = ?fl, rf_spc = ?ci,
      rf_cache = c\<lparr>class_size := SuperPoolsChunkSize L k, pc_count := 0\<rparr>, rf_idx = 0,
      rf_cur = y, rf_prev = last (0 # pre), rf_start = y, rf_cycle = False \<rparr>"
  have "refill_ok k (PN s) (SuperPoolsPoolLinkedList s k) (SuperPoolsRegionList s k) ?fl H ps rs
      pre (y # post) [] ((y # post) @ pre) v"
  proof -
    have "class_core k (RI s) (PN s) (SuperPoolsPoolLinkedList s k) (SuperPoolsRegionList s k) ?ci H ps rs
        ((y # post) @ pre)"
      by (rule class_core_perm [OF core]) (simp add: fs)
    moreover have "set fs \<subseteq> set rs" using core by (simp add: class_core_def freed_flags_def)
    ultimately show ?thesis using ch fs by (simp add: refill_ok_def v_def entries_def)
  qed
  moreover obtain n where n: "loop_fuel G = Suc n" "length ((y # post) @ pre) \<le> n"
    using fuel fs by (cases "loop_fuel G") auto
  ultimately obtain v' where v': "refill_loop (Suc n) 256 (avail k) (Size SCM k) v = Inr (True, v')"
      "refill_done k (PN s) (SuperPoolsPoolLinkedList s k) (SuperPoolsRegionList s k) H ps rs v v'"
    using refill_loop_done [OF k] by blast
  have "CTRefillFromRegionList G L c k 256 512 s = Inr (True, rf_cache v',
      s\<lparr>my_random_state := x, RI := rf_R v', SuperPoolsFreedRegionList := (SuperPoolsFreedRegionList s)(k := rf_list v'),
        SuperPoolChunkInfo := (SuperPoolChunkInfo s)(k := rf_spc v')\<rparr>)"
    using c nz walk v'(1) n(1) unfolding CTRefillFromRegionList_def Let_def g
    by (simp add: s1 Lk d_def [symmetric] v_def not_less)
  moreover have "unat (pc_count (rf_cache v')) = rf_idx v'"
    using v'(2) by (simp only: refill_done_def) (rule unat_of_nat_small, simp)
  ultimately show ?thesis
    using v'(2) unfolding refill_done_def cached_def by (auto simp: v_def)
qed

end
