(* ===== verification/Region_Alloc_Inv.thy ===== *)
theory Region_Alloc_Inv
  imports Refill_Inv
begin

text \<open>
  Allocating a region keeps the invariant of its super pool: choosing or mapping a pool, choosing
  a free slot in it, writing its header, linking it into the ordered list, and handing out its
  chunks with fresh tags. The two random searches end with probability only, so the lemmas on
  them speak of the result they return, and \<open>choose_region_hit\<close> gives a condition under which
  they do return.
\<close>

section \<open>Random numbers\<close>

lemma generate_random_machine:
  "\<exists>x. snd (generate_random_u64 s) = s\<lparr>my_random_state := x\<rparr>"
  by (auto simp: generate_random_u64_def genRandom_def Let_def)

lemma generate_random_cases:
  obtains r x where "generate_random_u64 s = (r, s\<lparr>my_random_state := x\<rparr>)"
  using generate_random_machine [of s] by (cases "generate_random_u64 s") auto

section \<open>Pools\<close>

lemma pool_base_fields:
  assumes "valid_class k" "pool_base k q"
  shows "2 ^ 41 \<le> unat q" "unat q + 2 ^ 30 \<le> 2 ^ 45" "(unat k + 1) * 2 ^ 40 \<le> unat q"
    "unat q + 2 ^ 30 \<le> (unat k + 2) * 2 ^ 40"
proof -
  obtain p where p: "p < 1024" "unat q = (unat k + 1) * 2 ^ 40 + p * 2 ^ 30"
    using assms(2) by (auto simp: pool_base_def)
  have "(p + 1) * 2 ^ 30 \<le> 1024 * 2 ^ 30" using p(1) by (intro mult_le_mono1) simp
  then show b: "unat q + 2 ^ 30 \<le> (unat k + 2) * 2 ^ 40" by (simp add: p(2))
  show a: "(unat k + 1) * 2 ^ 40 \<le> unat q" by (simp add: p(2))
  have "1 \<le> unat k" "unat k \<le> 30" using assms(1) by (auto simp: valid_class_unat)
  then show "2 ^ 41 \<le> unat q" "unat q + 2 ^ 30 \<le> 2 ^ 45" using a b by simp_all
qed

lemma in_pool_bounds:
  assumes "valid_class k" "in_pool k q r"
  shows "unat q \<le> unat r" "unat r + rsz k \<le> unat q + 2 ^ 30"
  using assms slot_room unfolding in_pool_def by fastforce+

text \<open>The range of a pool, as \<open>zero_range\<close> writes it.\<close>

lemma in_range_iff:
  assumes "unat a + unat n \<le> 2 ^ 64"
  shows "in_range a n p \<longleftrightarrow> unat a \<le> unat p \<and> unat p < unat a + unat n"
proof (cases "a \<le> p")
  case True
  then show ?thesis by (auto simp: in_range_def word_less_nat_alt unat_sub word_le_nat_alt)
next
  case False
  then have lt: "unat p < unat a" by (simp add: word_le_nat_alt)
  have "unat (p - a) = unat p + 2 ^ 64 - unat a"
    using lt by (simp add: unat_sub_if' word_size)
  with lt assms have "\<not> unat (p - a) < unat n" by simp
  with False show ?thesis by (simp add: in_range_def word_less_nat_alt word_le_nat_alt)
qed

lemma unat_kPoolSize: "unat kPoolSize = 2 ^ 30"
  by (simp add: kPoolSize_def kPoolShift_def push_bit_eq_mult)

lemma in_range_pool:
  assumes "valid_class k" "pool_base k q"
  shows "in_range q kPoolSize a \<longleftrightarrow> unat q \<le> unat a \<and> unat a < unat q + 2 ^ 30"
  using in_range_iff [of q kPoolSize a] pool_base_fields(2) [OF assms] by (simp add: unat_kPoolSize)

text \<open>Distinct pools do not share regions.\<close>

lemma pools_apart:
  assumes "valid_class k" "pool_base k q" "pool_base k q'" "q \<noteq> q'" "in_pool k q r"
  shows "\<not> (unat q' \<le> unat r \<and> unat r < unat q' + 2 ^ 30)"
proof -
  obtain p where p: "unat q = (unat k + 1) * 2 ^ 40 + p * 2 ^ 30" using assms(2) by (auto simp: pool_base_def)
  obtain p' where p': "unat q' = (unat k + 1) * 2 ^ 40 + p' * 2 ^ 30" using assms(3) by (auto simp: pool_base_def)
  have "p \<noteq> p'" using p p' assms(4) by (metis word_unat_eq_iff)
  then consider "p + 1 \<le> p'" | "p' + 1 \<le> p" by linarith
  then have "unat q + 2 ^ 30 \<le> unat q' \<or> unat q' + 2 ^ 30 \<le> unat q"
  proof cases
    case 1 then have "(p + 1) * 2 ^ 30 \<le> p' * 2 ^ 30" by (rule mult_le_mono1)
    then show ?thesis by (simp add: p p')
  next
    case 2 then have "(p' + 1) * 2 ^ 30 \<le> p * 2 ^ 30" by (rule mult_le_mono1)
    then show ?thesis by (simp add: p p')
  qed
  moreover have "0 < rsz k" using rsz_bounds(1) [OF assms(1)] by simp
  ultimately show ?thesis using in_pool_bounds [OF assms(1,5)] by linarith
qed

lemma pool_listed_spec:
  "chain (\<lambda>p. pool_next (N p)) h ps \<Longrightarrow> length ps < n \<Longrightarrow>
   pool_listed n N h a = Inr (a \<in> (\<lambda>p. pool_addr (N p)) ` set ps)"
proof (induction n arbitrary: h ps)
  case (Suc n) then show ?case by (cases ps) auto
qed simp

lemma find_pool_spec:
  "chain (\<lambda>p. pool_next (N p)) h ps \<Longrightarrow> length ps < n \<Longrightarrow>
   \<exists>p. find_pool G n rg N h = Inr p \<and> (p = 0 \<or> p \<in> set ps \<and> p \<noteq> 0 \<and>
     density (N p) * scast (ct_pool_density G) < rg)"
proof (induction n arbitrary: h ps)
  case (Suc n)
  show ?case
  proof (cases ps)
    case (Cons p ps')
    with Suc.prems Suc.IH [of "pool_next (N h)" ps'] show ?thesis by auto
  qed (use Suc.prems in simp)
qed simp

lemma choose_pool_spec:
  assumes "valid_class k" "chain (\<lambda>p. pool_next (PN s p)) (pl_head pl) ps" "length ps < loop_fuel G"
    "choose_pool G n (superPoolBase + k * kSuperPoolSize) pl s = Inr (a, s')"
  shows "\<exists>x. s' = s\<lparr>my_random_state := x\<rparr>" "pool_base k a"
    "a \<notin> (\<lambda>p. pool_addr (PN s p)) ` set ps"
proof -
  have "(\<exists>x. s' = s\<lparr>my_random_state := x\<rparr>) \<and> pool_base k a \<and> a \<notin> (\<lambda>p. pool_addr (PN s p)) ` set ps"
    using assms(2-4)
  proof (induction n arbitrary: s)
    case (Suc n)
    obtain r x where r: "generate_random_u64 s = (r, s\<lparr>my_random_state := x\<rparr>)" by (rule generate_random_cases)
    let ?id = "r mod (kSuperPoolSize div kPoolSize)"
    let ?a = "superPoolBase + k * kSuperPoolSize + ?id * kPoolSize"
    have listed: "pool_listed (loop_fuel G) (PN s) (pl_head pl) ?a =
        Inr (?a \<in> (\<lambda>p. pool_addr (PN s p)) ` set ps)"
      using Suc.prems(1,2) by (rule pool_listed_spec)
    show ?case
    proof (cases "?a \<in> (\<lambda>p. pool_addr (PN s p)) ` set ps")
      case True
      with Suc.prems(3) r listed
      have "choose_pool G n (superPoolBase + k * kSuperPoolSize) pl (s\<lparr>my_random_state := x\<rparr>) = Inr (a, s')"
        by (simp add: Let_def)
      with Suc.IH [of "s\<lparr>my_random_state := x\<rparr>"] Suc.prems(1,2) show ?thesis by auto
    next
      case False
      with Suc.prems(3) r listed have a: "a = ?a" "s' = s\<lparr>my_random_state := x\<rparr>"
        by (auto simp: Let_def)
      have "kSuperPoolSize div kPoolSize = 1024"
        by (simp add: kSuperPoolSize_def kPoolSize_def kPoolShift_def push_bit_eq_mult)
      then have id: "unat ?id < 1024" by (simp add: unat_mod)
      have k: "unat k \<le> 30" using assms(1) by (simp add: valid_class_unat)
      have u1: "unat (k * kSuperPoolSize) = unat k * 2 ^ 40"
        using k by (subst unat_mult_small) (simp_all add: kSuperPoolSize_def)
      have u2: "unat (?id * kPoolSize) = unat ?id * 2 ^ 30"
        using id by (subst unat_mult_small) (simp_all add: unat_kPoolSize)
      have u3: "unat (superPoolBase + k * kSuperPoolSize) = 2 ^ 40 + unat k * 2 ^ 40"
        using k by (subst unat_add_small) (simp_all add: u1 superPoolBase_def)
      have "unat ?a = 2 ^ 40 + unat k * 2 ^ 40 + unat ?id * 2 ^ 30"
        using k id by (subst unat_add_small) (simp_all only: u2 u3, simp)
      then have "pool_base k ?a" using id by (auto simp: pool_base_def intro!: exI [of _ "unat ?id"])
      with False a show ?thesis by auto
    qed
  qed simp
  then show "\<exists>x. s' = s\<lparr>my_random_state := x\<rparr>" "pool_base k a"
    "a \<notin> (\<lambda>p. pool_addr (PN s p)) ` set ps" by blast+
qed

section \<open>What a class depends on\<close>

definition class_space :: "uptr \<Rightarrow> uptr \<Rightarrow> bool" where
  "class_space k r \<longleftrightarrow> (unat k + 1) * 2 ^ 40 \<le> unat r \<and> unat r < (unat k + 2) * 2 ^ 40"

lemma slot_space: "valid_class k \<Longrightarrow> region_slot k r \<Longrightarrow> class_space k r"
  using region_slot_bounds [of k r] rsz_bounds(1) [of k] by (simp add: class_space_def)

lemma space_disjoint: "class_space k r \<Longrightarrow> class_space k' r \<Longrightarrow> k = k'"
proof -
  assume "class_space k r" "class_space k' r"
  then have a: "(unat k + 1) * 2 ^ 40 < (unat k' + 2) * 2 ^ 40" "(unat k' + 1) * 2 ^ 40 < (unat k + 2) * 2 ^ 40"
    unfolding class_space_def by linarith+
  then have "unat k + 1 < unat k' + 2" "unat k' + 1 < unat k + 2" by (simp_all only: mult_less_cancel2)
  then have "unat k = unat k'" by simp
  then show ?thesis by (simp only: word_unat_eq_iff)
qed

text \<open>A change of headers that leaves the regions of a class alone.\<close>

lemma class_core_cong:
  assumes core: "class_core k R N pl rl ci H ps rs fs"
    and R: "\<And>r p. p \<in> set ps \<Longrightarrow> in_pool k (pool_addr (N p)) r \<Longrightarrow> R' r = R r"
    and N: "\<And>p. p \<in> set ps \<Longrightarrow> N' p = N p"
  shows "class_core k R' N' pl rl ci H ps rs fs" "\<And>r. r \<in> set rs \<Longrightarrow> R' r = R r"
proof -
  have reg: "regions_ok k R N rl ps rs" using core by (simp add: class_core_def)
  show Rs: "R' r = R r" if "r \<in> set rs" for r
    using reg that by (intro R [of "parent_pool (R r)"]) (auto simp: regions_ok_def)
  have fs: "set fs \<subseteq> set rs" using core by (simp add: class_core_def freed_flags_def)
  have "pools_ok k N' pl ps = pools_ok k N pl ps"
  proof -
    have "chain (\<lambda>p. pool_next (N' p)) h ps = chain (\<lambda>p. pool_next (N p)) h ps" for h
      by (intro chain_cong) (simp add: N)
    moreover have m: "map (\<lambda>p. pool_addr (N' p)) ps = map (\<lambda>p. pool_addr (N p)) ps" by (simp add: N)
    ultimately show ?thesis unfolding pools_ok_def m by (simp add: N)
  qed
  moreover have "regions_ok k R' N' rl ps rs"
  proof -
    have "dll R' rl rs = dll R rl rs" by (rule dll_cong) (simp add: Rs)
    moreover have "filter (\<lambda>r. parent_pool (R' r) = p) rs = filter (\<lambda>r. parent_pool (R r) = p) rs" for p
      by (intro filter_cong) (simp_all add: Rs)
    ultimately show ?thesis using reg R unfolding regions_ok_def by (auto simp: Rs N)
  qed
  moreover have "freed_flags k R' rs fs"
    using core unfolding class_core_def freed_flags_def by (simp add: Rs)
  moreover have "counts_ok k R' ci rs fs"
  proof -
    have "free_chunks k R' fs = free_chunks k R fs"
      unfolding free_chunks_def using fs Rs by (intro arg_cong [where f = sum_list] map_cong) auto
    with core show ?thesis by (simp add: class_core_def counts_ok_def)
  qed
  moreover have "tags_ok k R' H rs"
    using core unfolding class_core_def tags_ok_def by (simp add: Rs)
  ultimately show "class_core k R' N' pl rl ci H ps rs fs"
    using core by (simp add: class_core_def)
qed

lemma class_inv_cong:
  assumes inv: "class_inv k R N pl rl fl ci H ps rs fs"
    and R: "\<And>r p. p \<in> set ps \<Longrightarrow> in_pool k (pool_addr (N p)) r \<Longrightarrow> R' r = R r"
    and N: "\<And>p. p \<in> set ps \<Longrightarrow> N' p = N p"
  shows "class_inv k R' N' pl rl fl ci H ps rs fs"
proof -
  have core: "class_core k R N pl rl ci H ps rs fs" and ch: "chain (\<lambda>p. freed_next (R p)) (head fl) fs"
    using inv by (simp_all add: class_inv_def)
  have fs: "set fs \<subseteq> set rs" using core by (simp add: class_core_def freed_flags_def)
  note C = class_core_cong [where R' = R' and N' = N', OF core R N]
  have "chain (\<lambda>p. freed_next (R' p)) (head fl) fs = chain (\<lambda>p. freed_next (R p)) (head fl) fs"
    using fs C(2) by (intro chain_cong) auto
  with C(1) ch show ?thesis by (simp add: class_inv_def)
qed

lemma class_inv_frame:
  assumes k: "valid_class k" and inv: "class_inv k R N pl rl fl ci H ps rs fs"
    and R: "\<And>r. class_space k r \<Longrightarrow> R' r = R r" and N: "\<And>p. p \<in> set ps \<Longrightarrow> N' p = N p"
  shows "class_inv k R' N' pl rl fl ci H ps rs fs"
proof (rule class_inv_cong [OF inv])
  fix r p assume p: "p \<in> set ps" "in_pool k (pool_addr (N p)) r"
  then have "pool_base k (pool_addr (N p))"
    using inv by (simp add: class_inv_def class_core_def pools_ok_def)
  then show "R' r = R r" using p(2) by (intro R slot_space [OF k] in_pool_slot)
qed (rule N)

section \<open>A new pool\<close>

definition pers_ok :: "CTPersistentAllocator \<Rightarrow> uptr set \<Rightarrow> bool" where
  "pers_ok pa nodes \<longleftrightarrow> 0 < base_addr pa \<and> base_addr pa \<le> cur_loc pa \<and> cur_loc pa < end_addr pa \<and>
     unat (end_addr pa) + 2 ^ 20 \<le> 2 ^ 64 \<and> (\<forall>q\<in>nodes. q < cur_loc pa)"

lemma round_up_16:
  assumes "0 < unat n" "unat n \<le> 2 ^ 16"
  shows "RoundUpTo n 0x10 = Inr (round_up n 0x10)" "unat n \<le> unat (round_up n 0x10)"
    "unat (round_up n 0x10) \<le> 2 ^ 16 + 15"
proof -
  show "RoundUpTo n 0x10 = Inr (round_up n 0x10)" using RoundUpTo_exp [of 4 n] by simp
  have "unat (round_up n 0x10) = (unat n + 15) div 16 * 16"
    using unat_round_up [of 4 n] assms by simp
  then show "unat n \<le> unat (round_up n 0x10)" "unat (round_up n 0x10) \<le> 2 ^ 16 + 15"
    using assms by auto
qed

lemma persistent_allocate_ok:
  assumes pers: "pers_ok (persistent s) nodes" and n: "0 < unat n" "unat n \<le> 2 ^ 16"
    and res: "persistent_allocate n s = Inr (p, s')"
  shows "\<exists>m pa. s' = s\<lparr>mem := m, persistent := pa\<rparr> \<and> pers_ok pa (insert p nodes) \<and> last_loc pa = p \<and>
    base_addr pa = base_addr (persistent s) \<and> end_addr pa = end_addr (persistent s)"
    "p = cur_loc (persistent s)" "p \<noteq> 0" "p \<notin> nodes"
proof -
  let ?pa = "persistent s" and ?n = "round_up n 0x10"
  note ru = round_up_16 [OF n]
  have nolimit: "\<not> end_addr ?pa \<le> cur_loc ?pa + ?n"
    using res ru(1) by (auto simp: persistent_allocate_def CTPersistentAllocatorAllocate_def split: if_splits)
  have s': "s' = s\<lparr>mem := (\<lambda>q. if in_range (cur_loc ?pa) ?n q then 0 else mem s q),
      persistent := ?pa\<lparr>last_loc := cur_loc ?pa, cur_loc := cur_loc ?pa + ?n\<rparr>\<rparr>"
    and p: "p = cur_loc ?pa"
    using res ru(1) nolimit by (auto simp: persistent_allocate_def CTPersistentAllocatorAllocate_def Let_def)
  have cur: "unat (cur_loc ?pa) + unat ?n < 2 ^ 64"
    using pers ru(3) by (simp add: pers_ok_def word_less_nat_alt)
  then have u: "unat (cur_loc ?pa + ?n) = unat (cur_loc ?pa) + unat ?n" by (subst unat_add_small) simp_all
  have lt: "cur_loc ?pa < cur_loc ?pa + ?n" using u n(1) ru(2) by (simp add: word_less_nat_alt)
  show "p = cur_loc ?pa" by (rule p)
  show "p \<noteq> 0" using pers p by (auto simp: pers_ok_def word_less_nat_alt word_le_nat_alt)
  show "p \<notin> nodes" using pers p by (auto simp: pers_ok_def)
  have "pers_ok (?pa\<lparr>last_loc := cur_loc ?pa, cur_loc := cur_loc ?pa + ?n\<rparr>) (insert p nodes)"
    using pers nolimit lt p unfolding pers_ok_def
    by (auto simp: not_le intro: less_trans dest: le_less_trans less_imp_le)
  with s' p show "\<exists>m pa. s' = s\<lparr>mem := m, persistent := pa\<rparr> \<and> pers_ok pa (insert p nodes) \<and> last_loc pa = p \<and>
    base_addr pa = base_addr (persistent s) \<and> end_addr pa = end_addr (persistent s)"
    by (intro exI [of _ "\<lambda>q. if in_range (cur_loc ?pa) ?n q then 0 else mem s q"]
        exI [of _ "?pa\<lparr>last_loc := cur_loc ?pa, cur_loc := cur_loc ?pa + ?n\<rparr>"]) simp
qed

lemma class_core_new_pool:
  assumes k: "valid_class k" and core: "class_core k R N pl rl ci H ps rs fs"
    and p: "p \<noteq> 0" "p \<notin> set ps" and a: "pool_base k a" "a \<notin> (\<lambda>p. pool_addr (N p)) ` set ps"
    and N1: "N1 = N(p := \<lparr> pool_addr = a, density = 0, pool_next = 0 \<rparr>)"
    and N': "N' = (if pl_head pl = 0 then N1 else set_pool_next (pl_tail pl) p N1)"
    and pl': "pl' = (if pl_head pl = 0 then pl\<lparr>pl_head := p, pl_tail := p\<rparr> else pl\<lparr>pl_tail := p\<rparr>)"
    and R': "R' = (\<lambda>r. if in_range a kPoolSize r then zero_region else R r)"
  shows "class_core k R' N' pl' rl ci H (ps @ [p]) rs fs" "pl_head pl \<noteq> 0 \<Longrightarrow> pl_tail pl \<in> set ps"
    "\<And>r. r \<in> set rs \<Longrightarrow> R' r = R r"
proof -
  have pools: "pools_ok k N pl ps" and reg: "regions_ok k R N rl ps rs" using core by (simp_all add: class_core_def)
  have ch: "chain (\<lambda>p. pool_next (N p)) (pl_head pl) ps" and tl: "ps \<noteq> [] \<Longrightarrow> pl_tail pl = last ps"
    and pb: "\<And>q. q \<in> set ps \<Longrightarrow> pool_base k (pool_addr (N q))"
    and pd: "distinct (map (\<lambda>p. pool_addr (N p)) ps)"
    using pools by (auto simp: pools_ok_def)
  have nil: "pl_head pl = 0 \<longleftrightarrow> ps = []" using chain_head [OF ch] chain_nonnull [OF ch] by (cases ps) auto
  then show tail: "pl_head pl \<noteq> 0 \<Longrightarrow> pl_tail pl \<in> set ps" using tl by auto
  have N_old: "pool_addr (N' q) = pool_addr (N q)" "density (N' q) = density (N q)" if "q \<in> set ps" for q
    using that p by (auto simp: N' N1 set_pool_next_def)
  have N_new: "N' p = \<lparr> pool_addr = a, density = 0, pool_next = 0 \<rparr>"
    using p tail by (auto simp: N' N1 set_pool_next_def)
  have apart: "R' r = R r" if "q \<in> set ps" "in_pool k (pool_addr (N q)) r" for q r
  proof -
    have "pool_addr (N q) \<noteq> a" using a(2) that(1) by auto
    from pools_apart [OF k pb [OF that(1)] a(1) this that(2)] show ?thesis
      unfolding R' in_range_pool [OF k a(1)] by (simp only: if_False)
  qed
  note C = class_core_cong [where R' = R' and N' = N, OF core apart refl]
  show Rs: "\<And>r. r \<in> set rs \<Longrightarrow> R' r = R r" by (rule C(2))
  have reg': "regions_ok k R' N rl ps rs" using C(1) by (simp add: class_core_def)
  have "pools_ok k N' pl' (ps @ [p])"
  proof -
    have "chain (\<lambda>q. pool_next (N' q)) (pl_head pl') (ps @ [p])"
    proof (cases "ps = []")
      case True then show ?thesis using nil N_new p by (simp add: pl')
    next
      case False
      then obtain us t where ps: "ps = us @ [t]" by (metis append_butlast_last_id)
      have "chain (\<lambda>q. pool_next (N1 q)) (pl_head pl) ps"
        using ch by (rule chain_cong [THEN iffD1, rotated]) (use p in \<open>auto simp: N1\<close>)
      then have "chain (\<lambda>q. pool_next (set_pool_next t p N1 q)) (pl_head pl) (us @ [t, p])"
        unfolding ps by (rule pools.chain_snoc) (use p ps in \<open>auto simp: N1\<close>)
      then show ?thesis using False nil tl ps by (simp add: N' pl')
    qed
    moreover have "pool_base k (pool_addr (N' q))" if "q \<in> set (ps @ [p])" for q
      using that pb N_old(1) N_new a(1) by (cases "q = p") auto
    moreover have "map (\<lambda>q. pool_addr (N' q)) (ps @ [p]) = map (\<lambda>q. pool_addr (N q)) ps @ [a]"
      using N_old(1) N_new by simp
    ultimately show ?thesis
      unfolding pools_ok_def using pd a(2) by (auto simp: pl' nil simp del: map_append)
  qed
  moreover have "regions_ok k R' N' rl (ps @ [p]) rs"
  proof -
    have par: "parent_pool (R' r) \<in> set ps" if "r \<in> set rs" for r
      using reg' that by (simp add: regions_ok_def)
    have "R' r = zero_region" if "in_pool k a r" for r
      using in_pool_bounds [OF k that] rsz_bounds(1) [OF k] by (simp add: R' in_range_pool [OF k a(1)])
    moreover have "filter (\<lambda>r. parent_pool (R' r) = p) rs = []"
      using par p(2) by (auto simp: filter_empty_conv)
    ultimately show ?thesis
      using reg' N_new unfolding regions_ok_def by (auto simp: N_old)
  qed
  ultimately show "class_core k R' N' pl' rl ci H (ps @ [p]) rs fs"
    using C(1) by (simp add: class_core_def)
qed

text \<open>
  What the runtime relies on: the start-up values of the globals, pages of 4096 bytes (with
  larger pages \<open>CTAllocateNewRegion\<close> fails its alignment check), fuel for any list of regions a
  super pool can hold (there are at most \<open>2 ^ 27\<close>), system call errors encoded in
  the last page of the address space, and a shadow above the super pools that does not reach the
  end of the address space.
\<close>

definition env_ok :: "ct_globals \<Rightarrow> bool" where
  "env_ok G \<longleftrightarrow> globals_ok G \<and> page_size G = 4096 \<and> 2 ^ 28 \<le> loop_fuel G \<and>
     (\<forall>r. os_iserror G r \<longrightarrow> 2 ^ 64 - 4096 < unat r) \<and>
     2 ^ 45 \<le> unat (ct_shadow_memory_dynamic_address G) \<and>
     unat (ct_shadow_memory_dynamic_address G) + 2 ^ 45 \<le> 2 ^ 64 \<and>
     4096 dvd unat (ct_shadow_memory_dynamic_address G)"

text \<open>What an operation on class \<open>k\<close> leaves alone; \<open>others\<close> are nodes of other classes.\<close>

definition frame :: "uptr \<Rightarrow> uptr set \<Rightarrow> 'a ct_state_scheme \<Rightarrow> 'a ct_state_scheme \<Rightarrow> bool" where
  "frame k others s s' \<longleftrightarrow>
     ct_state.more s' = ct_state.more s \<and>
     (\<forall>k'. k' \<noteq> k \<longrightarrow> SuperPoolsPoolLinkedList s' k' = SuperPoolsPoolLinkedList s k' \<and>
        SuperPoolsRegionList s' k' = SuperPoolsRegionList s k' \<and>
        SuperPoolsFreedRegionList s' k' = SuperPoolsFreedRegionList s k' \<and>
        SuperPoolChunkInfo s' k' = SuperPoolChunkInfo s k') \<and>
     (\<forall>r. (\<exists>k'. valid_class k' \<and> k' \<noteq> k \<and> class_space k' r) \<longrightarrow> RI s' r = RI s r) \<and>
     (\<forall>q\<in>others. PN s' q = PN s q)"

lemma frame_refl [simp]: "frame k others s s"
  by (simp add: frame_def)

lemma frame_trans: "frame k others s s' \<Longrightarrow> frame k others s' s'' \<Longrightarrow> frame k others s s''"
  by (simp add: frame_def)

lemma class_ok_frame:
  assumes "frame k others s s'" "valid_class k'" "k' \<noteq> k" "class_ok k' s H ps rs fs" "set ps \<subseteq> others"
  shows "class_ok k' s' H ps rs fs"
proof -
  have f: "SuperPoolsPoolLinkedList s' k' = SuperPoolsPoolLinkedList s k'"
      "SuperPoolsRegionList s' k' = SuperPoolsRegionList s k'"
      "SuperPoolsFreedRegionList s' k' = SuperPoolsFreedRegionList s k'"
      "SuperPoolChunkInfo s' k' = SuperPoolChunkInfo s k'"
    using assms(1,3) by (auto simp: frame_def)
  show ?thesis
    using assms unfolding class_ok_def f frame_def by (elim class_inv_frame [rotated]) auto
qed

lemma CTAllocateNewPool_ok:
  assumes env: "env_ok G" and k: "valid_class k" and L: "layout_ok L" and inv: "class_ok k s H ps rs fs"
    and pers: "pers_ok (persistent s) nodes" and nodes: "set ps \<subseteq> nodes" and fuel: "length ps < loop_fuel G"
    and res: "CTAllocateNewPool G L k s = Inr (p, s')"
  shows "class_ok k s' H (ps @ [p]) rs fs" "pers_ok (persistent s') (insert p nodes)" "p \<notin> nodes"
    "frame k (nodes - set ps) s s'" "density (PN s' p) = 0"
proof -
  note Lk = layout_okD [OF L k]
  have core: "class_core k (RI s) (PN s) (SuperPoolsPoolLinkedList s k) (SuperPoolsRegionList s k)
      (SuperPoolChunkInfo s k) H ps rs fs"
    and chf: "chain (\<lambda>p. freed_next (RI s p)) (head (SuperPoolsFreedRegionList s k)) fs"
    using inv by (simp_all add: class_ok_def class_inv_def)
  have ch: "chain (\<lambda>p. pool_next (PN s p)) (pl_head (SuperPoolsPoolLinkedList s k)) ps"
    using core by (simp add: class_core_def pools_ok_def)
  let ?pl = "SuperPoolsPoolLinkedList s k"
  obtain a s1 where c: "choose_pool G (loop_fuel G) (superPoolBase + k * kSuperPoolSize) ?pl s = Inr (a, s1)"
    using res by (auto simp: CTAllocateNewPool_def Lk andThen_eq_Inr)
  from choose_pool_spec [OF k ch fuel c] obtain x where s1: "s1 = s\<lparr>my_random_state := x\<rparr>"
    and a: "pool_base k a" "a \<notin> (\<lambda>p. pool_addr (PN s p)) ` set ps" by blast
  obtain p0 s2 where pa: "persistent_allocate 24 s1 = Inr (p0, s2)"
    using res c by (auto simp: CTAllocateNewPool_def appendCTPoolList_def Lk andThen_eq_Inr s1)
  note P = persistent_allocate_ok [OF _ _ _ pa, of nodes, simplified s1, simplified]
  have pers2: "\<exists>m pa. s2 = s\<lparr>my_random_state := x, mem := m, persistent := pa\<rparr> \<and> pers_ok pa (insert p0 nodes)"
      and p0: "p0 \<noteq> 0" "p0 \<notin> nodes"
    using P pers by auto
  then obtain m pa where s2: "s2 = s\<lparr>my_random_state := x, mem := m, persistent := pa\<rparr>"
    and pers_pa: "pers_ok pa (insert p0 nodes)" by blast
  let ?N1 = "(PN s)(p0 := \<lparr> pool_addr = a, density = 0, pool_next = 0 \<rparr>)"
  let ?N = "if pl_head ?pl = 0 then ?N1 else set_pool_next (pl_tail ?pl) p0 ?N1"
  let ?pl' = "if pl_head ?pl = 0 then ?pl\<lparr>pl_head := p0, pl_tail := p0\<rparr> else ?pl\<lparr>pl_tail := p0\<rparr>"
  let ?R = "\<lambda>r. if in_range a kPoolSize r then zero_region else RI s r"
  have "p0 \<notin> set ps" using p0(2) nodes by blast
  note NP = class_core_new_pool [OF k core p0(1) this a refl refl refl refl]
  have tl: "pl_head ?pl \<noteq> 0 \<Longrightarrow> pl_tail ?pl \<noteq> 0"
    using NP(2) chain_nonnull [OF ch] by metis
  define s3 where "s3 = s2\<lparr>PN := ?N, SuperPoolsPoolLinkedList := (SuperPoolsPoolLinkedList s)(k := ?pl')\<rparr>"
  have ap: "appendCTPoolList ?pl a s1 = Inr (p0, ?pl', s2\<lparr>PN := ?N\<rparr>)"
    using pa tl by (simp add: appendCTPoolList_def Let_def s2 s1)
  then have s4: "CTFixedMapOrDie G a kPoolSize s3 = Inr (True, s')" "p = p0"
    using res c by (auto simp: CTAllocateNewPool_def Lk andThen_eq_Inr s1 s2 s3_def split: if_splits)
  have "\<not> os_iserror G a"
    using env pool_base_fields(2) [OF k a(1)] by (auto simp: env_ok_def)
  then have RI': "RI s' = ?R" and same: "PN s' = ?N" "persistent s' = pa" "ct_state.more s' = ct_state.more s"
      "SuperPoolsPoolLinkedList s' = (SuperPoolsPoolLinkedList s)(k := ?pl')"
      "SuperPoolsRegionList s' = SuperPoolsRegionList s"
      "SuperPoolsFreedRegionList s' = SuperPoolsFreedRegionList s"
      "SuperPoolChunkInfo s' = SuperPoolChunkInfo s"
    using s4(1)
    by (auto simp: CTFixedMapOrDie_def internal_mmap_def internal_munmap_def syscall_def Let_def
        zero_range_def s3_def s2 split: if_splits)
  have fs: "set fs \<subseteq> set rs" using core by (simp add: class_core_def freed_flags_def)
  have "chain (\<lambda>p. freed_next (?R p)) (head (SuperPoolsFreedRegionList s k)) fs"
    using chf by (rule chain_cong [THEN iffD1, rotated]) (simp only: NP(3) [OF subsetD [OF fs]])
  with NP(1) show "class_ok k s' H (ps @ [p]) rs fs"
    unfolding class_ok_def class_inv_def same RI' s4(2) by simp
  show "pers_ok (persistent s') (insert p nodes)" "p \<notin> nodes" using pers_pa p0 same s4(2) by simp_all
  show "density (PN s' p) = 0"
    using NP(2) \<open>p0 \<notin> set ps\<close> by (auto simp: same s4(2) set_pool_next_def)
  have "RI s' r = RI s r" if "valid_class k'" "k' \<noteq> k" "class_space k' r" for k' r
  proof -
    have "\<not> class_space k r" using that space_disjoint by blast
    then show ?thesis
      using pool_base_fields(3,4) [OF k a(1)] unfolding RI' class_space_def
      by (auto simp: in_range_pool [OF k a(1)])
  qed
  moreover have "PN s' q = PN s q" if "q \<in> nodes - set ps" for q
    using that p0(2) NP(2) by (auto simp: same set_pool_next_def)
  ultimately show "frame k (nodes - set ps) s s'"
    unfolding frame_def by (auto simp: same)
qed

section \<open>A new region\<close>

lemma class_inv_new_region:
  assumes k: "valid_class k" and inv: "class_inv k R N pl rl fl ci H ps rs fs"
    and p: "p \<in> set ps" and r: "in_pool k (pool_addr (N p)) r" "status (R r) = 0"
    and R1: "R1 = upd r (\<lambda>i. i\<lparr>status := 1, freed_num := 0, in_free_list := 0, parent_pool := p\<rparr>) R"
    and ins: "insertInOrder n r R1 rl = Inr (R2, rl')" and n: "length rs \<le> n"
    and N': "N' = N(p := (N p)\<lparr>density := density (N p) + 1\<rparr>)"
    and ci': "ci' = ci\<lparr>region_num := region_num ci + 1\<rparr>"
    and E1: "mset (map fst E) = mset (map (chunk k r) (idxs k))"
    and E2: "uniq (mset (map snd E))" "0 \<notin># mset (map snd E)"
  shows "class_inv k R2 N' pl rl' fl ci' (H + mset E) ps (insort r rs) fs" "r \<notin> set rs"
    "changes_in (insert r (set rs)) R R2" "region_slot k r"
proof -
  have core: "class_core k R N pl rl ci H ps rs fs" and chf: "chain (\<lambda>p. freed_next (R p)) (head fl) fs"
    using inv by (simp_all add: class_inv_def)
  have parts: "pools_ok k N pl ps" "regions_ok k R N rl ps rs" "freed_flags k R rs fs"
      "counts_ok k R ci rs fs" "tags_ok k R H rs"
    using core by (simp_all add: class_core_def)
  have pb: "pool_base k (pool_addr (N p))" using parts(1) p by (simp add: pools_ok_def)
  show slot: "region_slot k r" by (rule in_pool_slot [OF pb r(1)])
  show new: "r \<notin> set rs" using parts(2) r(2) by (auto simp: regions_ok_def)
  have zero: "R r = zero_region" using parts(2) p r(1) new by (auto simp: regions_ok_def)
  have "2 ^ 40 \<le> unat r" using region_slot_bounds(1) [OF k slot] by simp
  then have nz: "r \<noteq> 0" by auto
  have "dll R1 rl rs = dll R rl rs" by (rule dll_cong) (use new in \<open>auto simp: R1 upd_def\<close>)
  then have "dll R1 rl rs" "sorted rs" using parts(2) by (simp_all add: regions_ok_def)
  from insertInOrder_dll [OF this nz new n] ins
  have dl: "dll R2 rl' (insort r rs)" and lo: "links_only R1 R2" and ch: "changes_in (insert r (set rs)) R1 R2"
    by auto
  have R1o: "R1 q = R q" if "q \<noteq> r" for q using that by (simp add: R1 upd_def)
  show ch': "changes_in (insert r (set rs)) R R2" using ch R1o by (auto simp: changes_in_def)
  note L = links_onlyD [OF lo]
  have R1r: "R1 r = zero_region\<lparr>status := 1, parent_pool := p\<rparr>" by (simp add: R1 upd_def zero zero_region_def)
  have fl_r: "free_list_of k (R2 r) = []" "free_pairs k (R2 r) r = {#}"
    by (simp_all add: free_pairs_def free_list_of_def free_idx_def L R1r zero_region_def)
  have fl_o: "free_list_of k (R2 q) = free_list_of k (R q)" if "q \<noteq> r" for q
    by (simp add: free_list_of_def L R1o [OF that])
  have fsr: "set fs \<subseteq> set rs" "r \<notin> set fs" using parts(3) new by (auto simp: freed_flags_def)
  have "pools_ok k N' pl ps"
  proof -
    have "pool_next (N' q) = pool_next (N q)" "pool_addr (N' q) = pool_addr (N q)" for q by (simp_all add: N')
    with parts(1) show ?thesis by (simp add: pools_ok_def)
  qed
  moreover have "regions_ok k R2 N' rl' ps (insort r rs)"
    unfolding regions_ok_def
  proof (intro conjI ballI allI impI)
    show "dll R2 rl' (insort r rs)" by (rule dl)
    show "sorted (insort r rs)" using parts(2) by (simp add: regions_ok_def sorted_insort)
  next
    fix q assume "q \<in> set (insort r rs)"
    then have q: "q = r \<or> q \<in> set rs" by (simp add: set_insort_key)
    have Na: "pool_addr (N' x) = pool_addr (N x)" for x by (simp add: N')
    show "status (R2 q) = 1" "parent_pool (R2 q) \<in> set ps" "in_pool k (pool_addr (N' (parent_pool (R2 q)))) q"
      using q parts(2) p r(1) new R1o [of q] R1r unfolding regions_ok_def
      by (cases "q = r"; simp add: L Na)+
  next
    fix x q assume "x \<in> set ps" "in_pool k (pool_addr (N' x)) q \<and> q \<notin> set (insort r rs)"
    then have "in_pool k (pool_addr (N x)) q" "q \<noteq> r" "q \<notin> set rs" by (auto simp: N' set_insort_key split: if_splits)
    with \<open>x \<in> set ps\<close> parts(2) ch' show "R2 q = zero_region" by (auto simp: regions_ok_def changes_in_def)
  next
    fix x assume x: "x \<in> set ps"
    have "filter (\<lambda>q. parent_pool (R2 q) = x) rs = filter (\<lambda>q. parent_pool (R q) = x) rs"
      using new by (intro filter_cong) (auto simp: L R1 upd_def)
    moreover have "length (filter (\<lambda>q. parent_pool (R2 q) = x) (insort r rs)) =
        length (filter (\<lambda>q. parent_pool (R2 q) = x) (r # rs))"
    proof -
      have "mset (filter (\<lambda>q. parent_pool (R2 q) = x) (insort r rs)) = mset (filter (\<lambda>q. parent_pool (R2 q) = x) (r # rs))"
        by (simp only: mset_filter mset_insort mset.simps)
      then show ?thesis by (rule mset_eq_length)
    qed
    moreover have "parent_pool (R2 r) = p" by (simp add: L R1r)
    ultimately show "density (N' x) = of_nat (length (filter (\<lambda>q. parent_pool (R2 q) = x) (insort r rs)))"
      using parts(2) x by (auto simp: N' regions_ok_def)
  qed
  moreover have "freed_flags k R2 (insort r rs) fs"
    unfolding freed_flags_def
  proof (intro conjI ballI)
    show "distinct fs" using parts(3) by (simp add: freed_flags_def)
    show "set fs \<subseteq> set (insort r rs)" using fsr by (auto simp: set_insort_key)
  next
    fix q assume "q \<in> set (insort r rs)"
    then consider "q = r" | "q \<in> set rs" "q \<noteq> r" using new by (auto simp: set_insort_key)
    then show "in_free_list (R2 q) = (if q \<in> set fs then 1 else 0)"
        "freed_num (R2 q) = of_nat (length (free_list_of k (R2 q)))"
        "q \<in> set fs \<longleftrightarrow> free_list_of k (R2 q) \<noteq> []"
      using parts(3) fsr(2) fl_r fl_o R1o R1r
      by (cases; auto simp: freed_flags_def L zero_region_def)+
  qed
  moreover have "counts_ok k R2 ci' (insort r rs) fs"
  proof -
    have "free_chunks k R2 fs = free_chunks k R fs"
      unfolding free_chunks_def
    proof (intro arg_cong [where f = sum_list] map_cong refl)
      fix q assume "q \<in> set fs"
      then have "q \<noteq> r" using fsr(2) by blast
      then show "length (free_list_of k (R2 q)) = length (free_list_of k (R q))" using fl_o by metis
    qed
    with parts(4) show ?thesis by (simp add: counts_ok_def ci')
  qed
  moreover have "tags_ok k R2 (H + mset E) (insort r rs)"
    unfolding tags_ok_def
  proof (intro conjI ballI)
    have E_in: "fst x \<in> chunks k r" if "x \<in># mset E" for x
    proof -
      have "fst x \<in># mset (map fst E)" using that by simp
      then show ?thesis unfolding E1 by (simp add: chunks_def)
    qed
    have H_out: "fst x \<notin> chunks k r" if xH: "x \<in># H" for x
    proof
      assume "fst x \<in> chunks k r"
      moreover obtain q where "q \<in> set rs" "fst x \<in> chunks k q"
        using parts(5) xH unfolding tags_ok_def by blast
      ultimately show False
        using chunks_disjoint [OF k slot class_core_slot [OF core]] new by blast
    qed
    fix q assume "q \<in> set (insort r rs)"
    then consider "q = r" | "q \<in> set rs" "q \<noteq> r" using new by (auto simp: set_insort_key)
    then show "region_tags_ok k (R2 q) (H + mset E) q"
    proof cases
      case 1
      have "region_content k (R2 r) (mset E + H) r = region_content k (R2 r) (mset E) r"
        by (rule region_content_other) (rule H_out)
      moreover have "{#x \<in># mset E. fst x \<in> chunks k r#} = mset E"
        using E_in by (intro filter_mset_eq_conv [THEN iffD2]) auto
      ultimately have "region_content k (R2 r) (H + mset E) r = mset E"
        by (simp add: region_content_def fl_r add.commute)
      then show ?thesis
        using E1 E2 1 by (simp add: region_tags_ok_def)
    next
      case 2
      have "fst x \<notin> chunks k q" if "x \<in># mset E" for x
        using chunks_disjoint [OF k slot class_core_slot [OF core 2(1)] E_in [OF that]] 2(2) by blast
      then have "region_content k (R2 q) (H + mset E) q = region_content k (R2 q) H q"
        by (rule region_content_other)
      also have "\<dots> = region_content k (R q) H q"
        by (simp add: region_content_def free_pairs_def fl_o [OF 2(2)] L R1o [OF 2(2)])
      finally show ?thesis using parts(5) 2(1) by (simp add: tags_ok_def region_tags_ok_def)
    qed
  next
    fix x assume "x \<in># H + mset E"
    then consider "x \<in># H" | "x \<in># mset E" by auto
    then show "\<exists>q\<in>set (insort r rs). fst x \<in> chunks k q"
    proof cases
      case 1 then show ?thesis using parts(5) by (auto simp: tags_ok_def set_insort_key)
    next
      case 2
      then have "fst x \<in># mset (map fst E)" by simp
      then show ?thesis unfolding E1 by (auto simp: chunks_def set_insort_key)
    qed
  qed
  ultimately have "class_core k R2 N' pl rl' ci' (H + mset E) ps (insort r rs) fs"
    by (simp add: class_core_def)
  moreover have "chain (\<lambda>p. freed_next (R2 p)) (head fl) fs"
    using chf by (rule chain_cong [THEN iffD1, rotated]) (use fsr(2) R1o in \<open>metis L\<close>)
  ultimately show "class_inv k R2 N' pl rl' fl ci' (H + mset E) ps (insort r rs) fs"
    by (simp add: class_inv_def)
qed

end
