(* ===== verification/Alloc_Inv.thy ===== *)
theory Alloc_Inv
  imports CT_Cache Region_Alloc_Inv
begin

text \<open>
  \<open>CTAllocateNewRegion\<close>, \<open>CTRefill\<close> and \<open>CTAllocateSmallChunk\<close> keep the invariant of their
  super pool. A refill moves chunks and tags from region headers into the cache, or creates a
  region whose chunks all go into the cache; taking a chunk moves one pair of the cache to the
  program.
\<close>

section \<open>The search for a free region\<close>

lemma class_core_pools:
  assumes k: "valid_class k" and core: "class_core k R N pl rl ci H ps rs fs"
  shows "length ps \<le> 1024"
proof -
  let ?f = "\<lambda>p. unat (pool_addr (N p)) div 2 ^ 30" and ?b = "(unat k + 1) * 2 ^ 10"
  have pools: "pools_ok k N pl ps" using core by (simp add: class_core_def)
  have "?f ` set ps \<subseteq> {?b..<?b + 1024}"
  proof
    fix x assume "x \<in> ?f ` set ps"
    then obtain p q where "x = unat (pool_addr (N p)) div 2 ^ 30" "q < 1024"
        "unat (pool_addr (N p)) = (unat k + 1) * 2 ^ 40 + q * 2 ^ 30"
      using pools by (auto simp: pools_ok_def pool_base_def)
    then show "x \<in> {?b..<?b + 1024}" by simp
  qed
  moreover have "inj_on ?f (set ps)"
  proof (rule inj_onI)
    fix p q assume pq: "p \<in> set ps" "q \<in> set ps" "?f p = ?f q"
    have "unat (pool_addr (N x)) = ?f x * 2 ^ 30" if "x \<in> set ps" for x
      using pools that by (auto simp: pools_ok_def pool_base_def)
    then have "pool_addr (N p) = pool_addr (N q)" using pq by (metis word_unat_eq_iff)
    with pools pq show "p = q" by (auto simp: pools_ok_def distinct_map inj_on_def)
  qed
  ultimately have "card (set ps) \<le> card {?b..<?b + 1024}"
    by (intro card_inj_on_le [of ?f]) auto
  moreover have "distinct ps" using pools by (simp add: pools_ok_def distinct_map)
  ultimately show ?thesis by (simp add: distinct_card)
qed

lemma choose_region_spec:
  assumes "valid_class k" "pool_base k q" "unat rg = 2 ^ 30 div rsz k"
    "choose_region n q (Size SCM k * 256) rg s = Inr (r, s')"
  shows "(\<exists>x. s' = s\<lparr>my_random_state := x\<rparr>) \<and> in_pool k q r \<and> status (RI s r) = 0"
  using assms(4)
proof (induction n arbitrary: s)
  case (Suc n)
  obtain v x where v: "generate_random_u64 s = (v, s\<lparr>my_random_state := x\<rparr>)" by (rule generate_random_cases)
  let ?j = "v mod rg" and ?a = "q + Size SCM k * 256 * (v mod rg)"
  have rg: "0 < unat rg" using assms(3) rsz_bounds(4) [OF assms(1)] by simp
  then have j: "unat ?j < 2 ^ 30 div rsz k"
    unfolding assms(3) [symmetric] unat_mod by (rule mod_less_divisor)
  have room: "rsz k * unat ?j + rsz k \<le> 2 ^ 30" by (rule slot_room [OF j assms(1)])
  have um: "unat (Size SCM k * 256 * ?j) = rsz k * unat ?j"
    using room by (subst unat_mult_small) (simp_all only: unat_region_size [OF assms(1)], simp)
  have ua: "unat ?a = unat q + rsz k * unat ?j"
    using room pool_base_fields(2) [OF assms(1,2)] by (subst unat_add_small) (simp_all only: um, simp)
  show ?case
  proof (cases "?a = 0 \<or> status (RI s ?a) \<noteq> 0")
    case True
    then have "choose_region n q (Size SCM k * 256) rg (s\<lparr>my_random_state := x\<rparr>) = Inr (r, s')"
      using Suc.prems v by (auto simp: Let_def split: if_splits)
    from Suc.IH [OF this] show ?thesis by auto
  next
    case False
    then have "r = ?a" "s' = s\<lparr>my_random_state := x\<rparr>"
      using Suc.prems v by (auto simp: Let_def split: if_splits)
    with False j ua show ?thesis by (auto simp: in_pool_def)
  qed
qed simp

text \<open>
  The search returns as soon as one of the random numbers it draws names a free slot. The
  sequence of draws is the one of the generator: \<open>draws i\<close> steps of it lead to the \<open>i\<close>-th.
\<close>

fun draws :: "nat \<Rightarrow> 'a machine_scheme \<Rightarrow> 'a machine_scheme" where
  "draws 0 s = s"
| "draws (Suc i) s = draws i (snd (generate_random_u64 s))"

lemma choose_region_hit:
  assumes "q + rg_size * (fst (generate_random_u64 (draws i s)) mod rg) \<noteq> 0"
    "status (RI s (q + rg_size * (fst (generate_random_u64 (draws i s)) mod rg))) = 0" "i < n"
  shows "\<exists>y. choose_region n q rg_size rg s = Inr y"
  using assms
proof (induction n arbitrary: i s)
  case (Suc n)
  obtain v x where v: "generate_random_u64 s = (v, s\<lparr>my_random_state := x\<rparr>)" by (rule generate_random_cases)
  show ?case
  proof (cases i)
    case 0 with Suc.prems v show ?thesis by (auto simp: Let_def)
  next
    case i: (Suc m)
    with Suc.prems v have "\<exists>y. choose_region n q rg_size rg (s\<lparr>my_random_state := x\<rparr>) = Inr y"
      by (intro Suc.IH [where i = m]) auto
    then show ?thesis using v by (auto simp: Let_def)
  qed
qed simp

section \<open>Fresh tags\<close>

lemma uniq_mset: "uniq (mset xs) \<longleftrightarrow> distinct xs"
proof
  assume "distinct xs"
  then show "uniq (mset xs)" by (auto simp: uniq_def distinct_count_atmost_1)
next
  assume u: "uniq (mset xs)"
  have "count (mset xs) a = (if a \<in> set xs then 1 else 0)" for a
  proof (cases "a \<in> set xs")
    case True
    then have "1 \<le> count (mset xs) a" by (simp only: count_greater_eq_one_iff set_mset_mset)
    moreover have "count (mset xs) a \<le> 1" using u by (simp add: uniq_def)
    ultimately have "count (mset xs) a = 1" by (rule le_antisym [rotated])
    then show ?thesis by (simp only: True if_True)
  qed (simp add: count_eq_zero_iff)
  then show "distinct xs" by (simp add: distinct_count_atmost_1)
qed

lemma fresh_tags_ok:
  assumes "n < 256"
  shows "uniq (mset (map of_nat [1..<n + 1] :: u8 list))" "0 \<notin># mset (map of_nat [1..<n + 1] :: u8 list)"
proof -
  have u: "unat (of_nat i :: u8) = i" if "i \<in> set [1..<n + 1]" for i
    using that assms by (intro unat_of_nat_small) auto
  have "inj_on (of_nat :: nat \<Rightarrow> u8) (set [1..<n + 1])"
    by (rule inj_on_inverseI [where g = unat]) (rule u)
  then show "uniq (mset (map of_nat [1..<n + 1] :: u8 list))"
    unfolding uniq_mset by (simp add: distinct_map del: upt_Suc)
  have "of_nat i \<noteq> (0 :: u8)" if "i \<in> set [1..<n + 1]" for i
    using u [OF that] that by (intro notI) auto
  then show "0 \<notin># mset (map of_nat [1..<n + 1] :: u8 list)" by (metis imageE set_map set_mset_mset)
qed

section \<open>A new region\<close>

text \<open>Only the random state moves.\<close>

lemma class_ok_random: "class_ok k (s\<lparr>my_random_state := x\<rparr>) H ps rs fs = class_ok k s H ps rs fs"
  by (simp add: class_ok_def)

lemma frame_random [simp]: "frame k others s (s\<lparr>my_random_state := x\<rparr>)"
  by (simp add: frame_def)

lemma class_ok_fuel:
  assumes "env_ok G" "valid_class k" "class_ok k s H ps rs fs"
  shows "length ps < loop_fuel G" "length rs \<le> loop_fuel G" "length fs < loop_fuel G"
proof -
  have core: "class_core k (RI s) (PN s) (SuperPoolsPoolLinkedList s k) (SuperPoolsRegionList s k)
      (SuperPoolChunkInfo s k) H ps rs fs"
    using assms(3) by (simp add: class_ok_def class_inv_def)
  have "2 ^ 28 \<le> loop_fuel G" using assms(1) by (simp add: env_ok_def)
  then show "length ps < loop_fuel G" "length rs \<le> loop_fuel G" "length fs < loop_fuel G"
    using class_core_pools [OF assms(2) core] class_core_length [OF assms(2) core] by simp_all
qed

lemma CTAllocateNewRegion_pool:
  assumes env: "env_ok G" and k: "valid_class k" and L: "layout_ok L" and inv: "class_ok k s H ps rs fs"
    and pers: "pers_ok (persistent s) nodes" and nodes: "set ps \<subseteq> nodes"
    and f: "find_pool G (loop_fuel G) rg (PN s) (pl_head (SuperPoolsPoolLinkedList s k)) = Inr p0"
    and res: "(if p0 = 0 then CTAllocateNewPool G L k s else Inr (p0, s)) = Inr (p, s1)"
  shows "\<exists>ps1 nodes1. class_ok k s1 H ps1 rs fs \<and> pers_ok (persistent s1) nodes1 \<and> p \<in> set ps1 \<and>
     set ps1 \<subseteq> nodes1 \<and> nodes1 - set ps1 = nodes - set ps \<and> frame k (nodes - set ps) s s1"
proof (cases "p0 = 0")
  case True
  then have new: "CTAllocateNewPool G L k s = Inr (p, s1)" using res by simp
  from CTAllocateNewPool_ok [OF env k L inv pers nodes class_ok_fuel(1) [OF env k inv] new] nodes show ?thesis
    by (intro exI [of _ "ps @ [p]"] exI [of _ "insert p nodes"]) auto
next
  case False
  then have p: "p = p0" "s1 = s" using res by auto
  have ch: "chain (\<lambda>p. pool_next (PN s p)) (pl_head (SuperPoolsPoolLinkedList s k)) ps"
    using inv by (simp add: class_ok_def class_inv_def class_core_def pools_ok_def)
  from find_pool_spec [OF ch class_ok_fuel(1) [OF env k inv], of G rg] f False have "p0 \<in> set ps" by auto
  with p inv pers nodes show ?thesis by (intro exI [of _ ps] exI [of _ nodes]) auto
qed

lemma insertInOrder_frame:
  assumes "changes_in (insert r (set rs)) R R2" "region_slot k r" "valid_class k"
    "\<And>q. q \<in> set rs \<Longrightarrow> region_slot k q" "class_space k' a" "k' \<noteq> k"
  shows "R2 a = R a"
proof -
  have "a \<notin> insert r (set rs)"
    using assms(2-6) slot_space space_disjoint by blast
  with assms(1) show ?thesis by (simp add: changes_in_def)
qed

lemma CTAllocateNewRegion_ok:
  assumes env: "env_ok G" and k: "valid_class k" and L: "layout_ok L" and inv: "class_ok k s H ps rs fs"
    and pers: "pers_ok (persistent s) nodes" and nodes: "set ps \<subseteq> nodes"
    and res: "CTAllocateNewRegion G L k s = Inr (r, s')"
  shows "\<exists>ps' nodes'. pers_ok (persistent s') nodes' \<and> set ps' \<subseteq> nodes' \<and> nodes' - set ps' = nodes - set ps \<and>
     frame k (nodes - set ps) s s' \<and> region_slot k r \<and> r \<notin> set rs \<and>
     (\<forall>E. mset (map fst E) = mset (map (chunk k r) (idxs k)) \<and> uniq (mset (map snd E)) \<and>
        0 \<notin># mset (map snd E) \<longrightarrow> class_ok k s' (H + mset E) ps' (insort r rs) fs)"
proof -
  note Lk = layout_okD [OF L k]
  obtain p0 where f: "find_pool G (loop_fuel G) (AllRegionsInPool L k) (PN s)
      (pl_head (SuperPoolsPoolLinkedList s k)) = Inr p0"
    using res by (auto simp: CTAllocateNewRegion_def andThen_eq_Inr check_def Let_def split: if_splits)
  obtain p s1 where p: "(if p0 = 0 then CTAllocateNewPool G L k s else Inr (p0, s)) = Inr (p, s1)"
    using res by (auto simp: CTAllocateNewRegion_def andThen_eq_Inr check_def f Let_def split: if_splits)
  from CTAllocateNewRegion_pool [OF env k L inv pers nodes f p] obtain ps1 nodes1 where
      inv1: "class_ok k s1 H ps1 rs fs" and pers1: "pers_ok (persistent s1) nodes1"
      and p1: "p \<in> set ps1" "set ps1 \<subseteq> nodes1" "nodes1 - set ps1 = nodes - set ps"
      and fr1: "frame k (nodes - set ps) s s1" by blast
  obtain s2 where c: "choose_region (loop_fuel G) (pool_addr (PN s1 p)) (Size SCM k * 256)
      (AllRegionsInPool L k) s1 = Inr (r, s2)"
    using res by (auto simp: CTAllocateNewRegion_def andThen_eq_Inr check_def f p Lk Let_def split: if_splits)
  have core1: "class_inv k (RI s1) (PN s1) (SuperPoolsPoolLinkedList s1 k) (SuperPoolsRegionList s1 k)
      (SuperPoolsFreedRegionList s1 k) (SuperPoolChunkInfo s1 k) H ps1 rs fs"
    using inv1 by (simp add: class_ok_def)
  then have pb: "pool_base k (pool_addr (PN s1 p))" using p1(1) by (simp add: class_inv_parts pools_ok_def)
  from choose_region_spec [OF k pb Lk(5) c] obtain x where s2: "s2 = s1\<lparr>my_random_state := x\<rparr>"
    and r: "in_pool k (pool_addr (PN s1 p)) r" "status (RI s1 r) = 0" by auto
  let ?R1 = "upd r (\<lambda>i. i\<lparr>status := 1, freed_num := 0, in_free_list := 0, parent_pool := p\<rparr>) (RI s1)"
  obtain R2 rl' where ins: "insertInOrder (loop_fuel G) r ?R1 (SuperPoolsRegionList s1 k) = Inr (R2, rl')"
    using res by (auto simp: CTAllocateNewRegion_def andThen_eq_Inr check_def f p Lk Let_def c s2 split: if_splits)
  let ?N' = "(PN s1)(p := (PN s1 p)\<lparr>density := density (PN s1 p) + 1\<rparr>)"
  let ?ci' = "(SuperPoolChunkInfo s1 k)\<lparr>region_num := region_num (SuperPoolChunkInfo s1 k) + 1\<rparr>"
  have s': "RI s' = R2" "PN s' = ?N'" "persistent s' = persistent s1"
      "SuperPoolsPoolLinkedList s' = SuperPoolsPoolLinkedList s1"
      "SuperPoolsRegionList s' = (SuperPoolsRegionList s1)(k := rl')"
      "SuperPoolsFreedRegionList s' = SuperPoolsFreedRegionList s1"
      "SuperPoolChunkInfo s' = (SuperPoolChunkInfo s1)(k := ?ci')"
      "ct_state.more s' = ct_state.more s1"
    using res by (auto simp: CTAllocateNewRegion_def andThen_eq_Inr check_def f p Lk Let_def c s2 ins split: if_splits)
  note len = class_ok_fuel(2) [OF env k inv1]
  note NR = class_inv_new_region [OF k core1 p1(1) r refl ins len refl refl]
  have slot: "region_slot k r" by (rule in_pool_slot [OF pb r(1)])
  have new: "r \<notin> set rs" using r(2) core1 by (auto simp: class_inv_parts regions_ok_def)
  let ?E = "zip (map (chunk k r) (idxs k)) (map of_nat [1..<avail k + 1] :: u8 list)"
  have E: "mset (map fst ?E) = mset (map (chunk k r) (idxs k))" "uniq (mset (map snd ?E))"
      "0 \<notin># mset (map snd ?E)"
    using fresh_tags_ok [of "avail k"] avail_bounds(2) [OF k] length_idxs [OF k]
    by (simp_all only: map_fst_zip map_snd_zip length_map length_upt) simp_all
  have ch: "changes_in (insert r (set rs)) (RI s1) R2" by (rule NR(3) [OF E])
  have "frame k (nodes - set ps) s1 s'"
  proof -
    have "RI s' a = RI s1 a" if "valid_class k'" "k' \<noteq> k" "class_space k' a" for k' a
      unfolding s' using class_inv_slot [OF core1] that
      by (intro insertInOrder_frame [OF ch slot k]) auto
    moreover have "PN s' q = PN s1 q" if "q \<in> nodes - set ps" for q
      using that p1 by (auto simp: s')
    ultimately show ?thesis unfolding frame_def s' by auto
  qed
  then have "frame k (nodes - set ps) s s'" by (rule frame_trans [OF fr1])
  moreover have "class_ok k s' (H + mset E) ps1 (insort r rs) fs"
    if "mset (map fst E) = mset (map (chunk k r) (idxs k)) \<and> uniq (mset (map snd E)) \<and>
        0 \<notin># mset (map snd E)" for E
    using NR(1) [of E] that unfolding class_ok_def s' fun_upd_same by blast
  ultimately show ?thesis
    using pers1 p1 slot new by (intro exI [of _ ps1] exI [of _ nodes1]) (auto simp: s')
qed

section \<open>Refilling a class\<close>

definition tag_list_ok :: "uptr \<Rightarrow> uptr \<Rightarrow> (uptr \<times> u8) list \<Rightarrow> bool" where
  "tag_list_ok k r E \<longleftrightarrow> mset (map fst E) = mset (map (chunk k r) (idxs k)) \<and>
     uniq (mset (map snd E)) \<and> 0 \<notin># mset (map snd E)"

lemma fresh_batch_cached:
  assumes k: "valid_class k" and res: "fresh_batch G (avail k) r (Size SCM k) c s = (c', s')"
  shows "tag_list_ok k r (cached c')" "unat (pc_count c') = avail k" "\<exists>x. s' = s\<lparr>my_random_state := x\<rparr>"
proof -
  have n: "0 < avail k" "avail k < 256" using avail_bounds [OF k] by simp_all
  note B = fresh_batch_spec [OF n res]
  show cnt: "unat (pc_count c') = avail k" using n B(1) by (simp add: unat_of_nat_small)
  have "map fst (cached c') = map (batch c') [0..<avail k]" "map snd (cached c') = map (chunk_tag c') [0..<avail k]"
    by (simp_all add: cached_def entries_def cnt)
  then show "tag_list_ok k r (cached c')"
    using B(3,4) fresh_tags_ok [OF n(2)] unfolding tag_list_ok_def by (simp only: idxs_def chunk_def [abs_def] HOL.simp_thms)
  let ?c = "fill_batch 0 (avail k) (r + Size SCM k * of_nat (256 - avail k)) (Size SCM k)
      (c\<lparr>class_size := Size SCM k, pc_count := of_nat (avail k)\<rparr>)"
  obtain t s1 where t: "shuffle (avail k - 1) (chunk_tag ?c) s = (t, s1)"
    by (cases "shuffle (avail k - 1) (chunk_tag ?c) s")
  obtain b s2 where b: "shuffle (avail k - 1) (batch ?c) s1 = (b, s2)"
    by (cases "shuffle (avail k - 1) (batch ?c) s1")
  have "\<exists>x. s1 = s\<lparr>my_random_state := x\<rparr>" "\<exists>x. s2 = s1\<lparr>my_random_state := x\<rparr>"
    using shuffle_machine [of "avail k - 1" "chunk_tag ?c" s] shuffle_machine [of "avail k - 1" "batch ?c" s1] t b
    by simp_all
  moreover have "s' = (if ct_randomize_region G then s2 else s1)"
    using res t b by (auto simp: fresh_batch_def Let_def)
  ultimately show "\<exists>x. s' = s\<lparr>my_random_state := x\<rparr>" by auto
qed

text \<open>
  What a refill promises: the pairs it puts into the cache are exactly those that leave the
  headers, so the invariant holds with them added to the pairs that are out.
\<close>

definition refilled ::
    "uptr \<Rightarrow> 'a ct_state_scheme \<Rightarrow> (uptr \<times> u8) multiset \<Rightarrow> uptr list \<Rightarrow> uptr set \<Rightarrow>
     CTPerClass \<Rightarrow> 'a ct_state_scheme \<Rightarrow> bool" where
  "refilled k s H ps nodes c' s' \<longleftrightarrow> (\<exists>ps' rs' fs' nodes'.
     class_ok k s' (H + mset (cached c')) ps' rs' fs' \<and> pers_ok (persistent s') nodes' \<and>
     set ps' \<subseteq> nodes' \<and> nodes' - set ps' = nodes - set ps \<and> frame k (nodes - set ps) s s' \<and>
     0 < unat (pc_count c') \<and> unat (pc_count c') \<le> 511)"

lemma CTRefill_ok:
  assumes env: "env_ok G" and k: "valid_class k" and L: "layout_ok L" and inv: "class_ok k s H ps rs fs"
    and pers: "pers_ok (persistent s) nodes" and nodes: "set ps \<subseteq> nodes"
    and res: "CTRefill G L c k s = Inr (ok, c', s')"
  shows "ok" "refilled k s H ps nodes c' s'"
proof -
  note Lk = layout_okD [OF L k]
  have kb: "\<not> kBatchClassID SCM \<le> k" using k by (simp add: valid_class_def not_le)
  have "ok \<and> refilled k s H ps nodes c' s'"
  proof (cases "256 \<le> free_chunk_num (SuperPoolChunkInfo s k)")
    case True
    from CTRefillFromRegionList_ok [OF k L inv class_ok_fuel(3) [OF env k inv] True, of c]
    obtain c1 R' fl' ci' x fs' where
      f: "CTRefillFromRegionList G L c k 256 512 s = Inr (True, c1,
          s\<lparr>my_random_state := x, RI := R', SuperPoolsFreedRegionList := (SuperPoolsFreedRegionList s)(k := fl'),
            SuperPoolChunkInfo := (SuperPoolChunkInfo s)(k := ci')\<rparr>)" and
      p: "class_inv k R' (PN s) (SuperPoolsPoolLinkedList s k) (SuperPoolsRegionList s k) fl' ci'
          (H + mset (cached c1)) ps rs fs'" "0 < unat (pc_count c1)" "unat (pc_count c1) \<le> 511"
          "\<And>r. r \<notin> set rs \<Longrightarrow> R' r = RI s r" by blast
    have r: "ok" "c' = c1" and s': "s' = s\<lparr>my_random_state := x, RI := R',
        SuperPoolsFreedRegionList := (SuperPoolsFreedRegionList s)(k := fl'),
        SuperPoolChunkInfo := (SuperPoolChunkInfo s)(k := ci')\<rparr>"
      using res True f kb by (auto simp: CTRefill_def Lk Let_def)
    have "frame k (nodes - set ps) s s'"
    proof -
      have "R' a = RI s a" if "valid_class k'" "k' \<noteq> k" "class_space k' a" for k' a
      proof (rule p(4))
        show "a \<notin> set rs"
          using that class_inv_slot [OF inv [unfolded class_ok_def]] slot_space [OF k] space_disjoint by blast
      qed
      then show ?thesis by (auto simp: frame_def s')
    qed
    with p r s' pers nodes show ?thesis
      unfolding refilled_def
      by (intro conjI exI [of _ ps] exI [of _ rs] exI [of _ fs'] exI [of _ nodes]) (simp_all add: class_ok_def)
  next
    case False
    then obtain r s1 where a: "CTAllocateNewRegion G L k s = Inr (r, s1)"
      using res kb by (auto simp: CTRefill_def Lk Let_def andThen_eq_Inr)
    obtain c1 s2 where b: "fresh_batch G (avail k) r (Size SCM k) c s1 = (c1, s2)"
      by (cases "fresh_batch G (avail k) r (Size SCM k) c s1")
    have r: "ok" "c' = c1" "s' = s2"
      using res False a b kb by (auto simp: CTRefill_def Lk Let_def)
    note B = fresh_batch_cached [OF k b]
    from CTAllocateNewRegion_ok [OF env k L inv pers nodes a] obtain ps' nodes' where
      N: "pers_ok (persistent s1) nodes'" "set ps' \<subseteq> nodes'" "nodes' - set ps' = nodes - set ps"
        "frame k (nodes - set ps) s s1" and
      C: "\<And>E. tag_list_ok k r E \<Longrightarrow> class_ok k s1 (H + mset E) ps' (insort r rs) fs"
      unfolding tag_list_ok_def by blast
    obtain x where s2: "s2 = s1\<lparr>my_random_state := x\<rparr>" using B(3) by blast
    have "frame k (nodes - set ps) s s2" unfolding s2 by (rule frame_trans [OF N(4) frame_random])
    with C [OF B(1)] N r B(2) avail_bounds [OF k] show ?thesis
      unfolding refilled_def
      by (intro conjI exI [of _ ps'] exI [of _ "insort r rs"] exI [of _ fs] exI [of _ nodes'])
        (simp_all add: s2 class_ok_random)
  qed
  then show "ok" "refilled k s H ps nodes c' s'" by simp_all
qed

section \<open>Taking a chunk from the cache\<close>

lemma cached_pop:
  assumes "0 < unat (pc_count c)" "unat (pc_count c) \<le> 511" "pop_chunk G c = Inr (p, c')"
  shows "\<exists>a t. cached c = cached c' @ [(a, t)] \<and> p = CTAddTagToPointer G a t \<and>
    unat (pc_count c') + 1 = unat (pc_count c)"
proof -
  have nz: "pc_count c \<noteq> 0" using assms(1) by auto
  have d: "unat (pc_count c - 1) = unat (pc_count c) - 1" using nz by (rule unat_minus_one)
  let ?k = "unat (pc_count c) - 1"
  have c': "c' = c\<lparr>batch := (batch c)(?k := 0), pc_count := pc_count c - 1\<rparr>"
      "p = CTAddTagToPointer G (batch c ?k) (chunk_tag c ?k)"
    using assms(3) by (auto simp: pop_chunk_def Let_def d split: if_splits)
  have n: "unat (pc_count c) = Suc ?k" using assms(1) by simp
  have "cached c = cached c' @ [(batch c ?k, chunk_tag c ?k)]"
    unfolding cached_def entries_def c'(1) by (subst n) (simp add: d)
  with c'(2) n show ?thesis by (auto simp: c'(1) d)
qed

lemma pop_chunk_total: "unat (pc_count c) \<le> 511 \<Longrightarrow> 0 < unat (pc_count c) \<Longrightarrow> \<exists>y. pop_chunk G c = Inr y"
  by (auto simp: pop_chunk_def Let_def kBatchLen_def unat_minus_one unat_gt_0)

section \<open>The invariant of the allocator\<close>

text \<open>
  All super pools together: \<open>live k\<close> are the pairs of a chunk and a tag the program holds in
  class \<open>k\<close>, \<open>P k\<close> the nodes of its pools, \<open>nodes\<close> all nodes handed out by the persistent
  allocator.
\<close>

definition heap_parts ::
    "'a cache_state_scheme \<Rightarrow> (uptr \<Rightarrow> (uptr \<times> u8) multiset) \<Rightarrow> (uptr \<Rightarrow> uptr list) \<Rightarrow> uptr set \<Rightarrow> bool" where
  "heap_parts s live P nodes \<longleftrightarrow>
     pers_ok (persistent s) nodes \<and>
     (\<forall>k. valid_class k \<longrightarrow> set (P k) \<subseteq> nodes \<and> unat (pc_count (ct_per_class s k)) \<le> 511 \<and>
        (\<exists>rs fs. class_ok k s (mset (cached (ct_per_class s k)) + live k) (P k) rs fs)) \<and>
     (\<forall>k k'. valid_class k \<and> valid_class k' \<and> k \<noteq> k' \<longrightarrow> set (P k) \<inter> set (P k') = {})"

definition heap_ok :: "'a cache_state_scheme \<Rightarrow> (uptr \<Rightarrow> (uptr \<times> u8) multiset) \<Rightarrow> bool" where
  "heap_ok s live \<longleftrightarrow> (\<exists>P nodes. heap_parts s live P nodes)"

lemma frame_cache: "frame k others s s' \<Longrightarrow> ct_per_class s' = ct_per_class s" for s :: "'a cache_state_scheme"
  by (cases s; cases s') (simp add: frame_def)

lemma class_ok_cache [simp]: "class_ok k (s\<lparr>ct_per_class := c\<rparr>) = class_ok k s"
  by (intro ext) (simp add: class_ok_def)

text \<open>An operation on one class keeps the whole invariant if it keeps that of its class.\<close>

lemma heap_parts_step:
  assumes h: "heap_parts s live P nodes" and k: "valid_class k"
    and c: "class_ok k s' (mset (cached c) + h') ps rs fs" "unat (pc_count c) \<le> 511"
    and n: "pers_ok (persistent s') nodes'" "set ps \<subseteq> nodes'" "nodes' - set ps = nodes - set (P k)"
    and fr: "frame k (nodes - set (P k)) s s'"
  shows "heap_parts (s'\<lparr>ct_per_class := (ct_per_class s')(k := c)\<rparr>) (live(k := h')) (P(k := ps)) nodes'"
proof -
  have other: "set (P k') \<subseteq> nodes - set (P k)" if "valid_class k'" "k' \<noteq> k" for k'
    using h k that unfolding heap_parts_def by blast
  have "\<exists>rs fs. class_ok k' s' (mset (cached (ct_per_class s' k')) + live k') (P k') rs fs"
    if v: "valid_class k'" "k' \<noteq> k" for k'
  proof -
    obtain rs fs where "class_ok k' s (mset (cached (ct_per_class s k')) + live k') (P k') rs fs"
      using h v(1) unfolding heap_parts_def by blast
    from class_ok_frame [OF fr v this other [OF v]] show ?thesis
      unfolding frame_cache [OF fr] by blast
  qed
  moreover have "unat (pc_count (ct_per_class s' k')) \<le> 511" if "valid_class k'" for k'
    using h that unfolding frame_cache [OF fr] heap_parts_def by blast
  moreover have "set ps \<inter> set (P k') = {}" if "valid_class k'" "k' \<noteq> k" for k'
    using other [OF that] n(3) by blast
  moreover have "set (P k') \<subseteq> nodes'" if "valid_class k'" "k' \<noteq> k" for k'
    using other [OF that] n(3) by blast
  moreover have "set (P k1) \<inter> set (P k2) = {}" if "valid_class k1" "valid_class k2" "k1 \<noteq> k2" for k1 k2
    using h that unfolding heap_parts_def by blast
  ultimately show ?thesis
    unfolding heap_parts_def using c n
    by (simp add: fun_upd_apply) blast
qed

lemma CTAllocateSmallChunk_ok:
  assumes env: "env_ok G" and L: "layout_ok L" and k: "valid_class k" and h: "heap_parts s live P nodes"
    and res: "CTAllocateSmallChunk G L k s = Inr (p, s')"
  shows "\<exists>a t P' nodes'. p = CTAddTagToPointer G a t \<and>
    heap_parts s' (live(k := add_mset (a, t) (live k))) P' nodes'"
proof -
  let ?c = "ct_per_class s k"
  obtain rs fs where cl: "class_ok k s (mset (cached ?c) + live k) (P k) rs fs"
    and pers: "pers_ok (persistent s) nodes" and nodes: "set (P k) \<subseteq> nodes" and len: "unat (pc_count ?c) \<le> 511"
    using h k unfolding heap_parts_def by blast
  obtain ok c1 s1 where r: "(if pc_count ?c = 0 then CTRefill G L ?c k s else Inr (True, ?c, s)) = Inr (ok, c1, s1)"
    using res by (auto simp: CTAllocateSmallChunk_def andThen_eq_Inr Let_def check_def split: if_splits)
  have "ok \<and> (\<exists>ps' rs' fs' nodes'. class_ok k s1 (mset (cached c1) + live k) ps' rs' fs' \<and>
      pers_ok (persistent s1) nodes' \<and> set ps' \<subseteq> nodes' \<and> nodes' - set ps' = nodes - set (P k) \<and>
      frame k (nodes - set (P k)) s s1 \<and> 0 < unat (pc_count c1) \<and> unat (pc_count c1) \<le> 511)"
  proof (cases "pc_count ?c = 0")
    case True
    then have "cached ?c = []" by (simp add: cached_def entries_def)
    with cl have cl': "class_ok k s (live k) (P k) rs fs" by simp
    have rf: "CTRefill G L ?c k s = Inr (ok, c1, s1)" using r True by simp
    show ?thesis
      using CTRefill_ok [OF env k L cl' pers nodes rf] unfolding refilled_def by (simp only: add.commute)
  next
    case False
    then have "ok" "c1 = ?c" "s1 = s" using r by auto
    with cl pers nodes len False show ?thesis
      by (intro conjI exI [of _ "P k"] exI [of _ rs] exI [of _ fs] exI [of _ nodes]) (simp_all add: unat_gt_0)
  qed
  then obtain ps' rs' fs' nodes' where ok: "ok" "class_ok k s1 (mset (cached c1) + live k) ps' rs' fs'"
    and n: "pers_ok (persistent s1) nodes'" "set ps' \<subseteq> nodes'" "nodes' - set ps' = nodes - set (P k)"
    and fr: "frame k (nodes - set (P k)) s s1" and cnt: "0 < unat (pc_count c1)" "unat (pc_count c1) \<le> 511"
    by blast
  from pop_chunk_total [OF cnt(2,1), of G] obtain q c2 where pop: "pop_chunk G c1 = Inr (q, c2)" by auto
  from cached_pop [OF cnt pop] obtain a t where c2: "cached c1 = cached c2 @ [(a, t)]"
      "q = CTAddTagToPointer G a t" "unat (pc_count c2) + 1 = unat (pc_count c1)" by blast
  have s': "p = q" "s' = s1\<lparr>ct_per_class := (ct_per_class s1)(k := c2)\<rparr>"
    using res ok(1) pop by (auto simp: CTAllocateSmallChunk_def andThen_eq_Inr Let_def check_def r split: if_splits)
  have "class_ok k s1 (mset (cached c2) + add_mset (a, t) (live k)) ps' rs' fs'"
    using ok(2) by (simp add: c2(1))
  from heap_parts_step [OF h k this _ n fr] c2 cnt s' show ?thesis by fastforce
qed

end
