(* ===== verification/Free_Inv.thy ===== *)
theory Free_Inv
  imports Alloc_Inv
begin

text \<open>
  Giving a chunk back: \<open>parseSmallChunkPtr\<close> finds the region and the index of the chunk,
  \<open>note_free\<close> stores the tag in the header of the region, counts the chunk and links the region
  into the list of freed regions when it was not in it. The pair leaves the hands of the program
  and the invariant of the super pool is kept.
\<close>

lemma held_chunk:
  assumes k: "valid_class k" and inv: "class_inv k R N pl rl fl ci H ps rs fs" and a: "(a, t) \<in># H"
  obtains r i where "r \<in> set rs" "i \<in> set (idxs k)" "a = chunk k r i" "region_slot k r"
proof -
  have "\<exists>r\<in>set rs. fst (a, t) \<in> chunks k r"
    using inv a by (simp only: class_inv_parts tags_ok_def)
  then obtain r i where "r \<in> set rs" "i \<in> set (idxs k)" "a = chunk k r i" by (auto simp: chunks_def)
  with class_inv_slot [OF inv] that show thesis by blast
qed

lemma parse_held:
  assumes G: "globals_ok G" and k: "valid_class k" and r: "region_slot k r" and i: "i \<in> set (idxs k)"
  shows "\<exists>q. parseSmallChunkPtr G (chunk k r i) = Inr q \<and> superPoolID q = k \<and> regionInfo q = r \<and>
    unat (chunkID q) = i"
proof -
  obtain p j where pj: "p < 1024" "j < 2 ^ 30 div rsz k"
      "unat r = (unat k + 1) * 2 ^ 40 + p * 2 ^ 30 + rsz k * j"
    using r by (auto simp: region_slot_def)
  have i': "i < 256" using i by (rule idxs_less)
  have a: "unat (chunk k r i) = (unat k + 1) * 2 ^ 40 + p * 2 ^ 30 + rsz k * j + csz k * i + 0"
    using unat_chunk [OF k r i'] pj(3) by simp
  from parse_chunk_address [OF G k pj(1,2) i' csz_bounds(4) [OF k] a] obtain r' where
    "unat r' = unat r" and q: "parseSmallChunkPtr G (chunk k r i) = Inr \<lparr> superPoolID = k, poolID = of_nat p,
        chunkID = of_nat i, chunk_size_of = Size SCM k, regionInfo = r' \<rparr>"
    unfolding pj(3) by blast
  then have "r' = r" by (simp only: word_unat_eq_iff)
  with q i' show ?thesis by (simp add: unat_of_nat_small)
qed

lemma held_small:
  assumes "globals_ok G" "valid_class k" "region_slot k r" "i \<in> set (idxs k)"
  shows "isSmallChunk G (chunk k r i)"
  using parse_held [OF assms] by (auto simp: parseSmallChunkPtr_def split: if_splits)

text \<open>\<open>note_free\<close> is the change of the header, the list and the counters in one step.\<close>

lemma note_free_eq:
  fixes s :: "'a ct_state_scheme"
  assumes "regionInfo q = r" "unat (chunkID q) = i"
  defines "new \<equiv> in_free_list (RI s r) = 0"
  shows "note_free k q t s = s
    \<lparr>RI := (RI s)(r := info_freed i t (head (SuperPoolsFreedRegionList s k)) (RI s r)),
     SuperPoolsFreedRegionList := (SuperPoolsFreedRegionList s)(k :=
        if new then (SuperPoolsFreedRegionList s k)\<lparr>head := r\<rparr> else SuperPoolsFreedRegionList s k),
     SuperPoolChunkInfo := (SuperPoolChunkInfo s)(k := ci_freed new (SuperPoolChunkInfo s k))\<rparr>"
  using assms unfolding note_free_def
  by (cases "in_free_list (RI s r) = 0")
    (simp_all add: Let_def info_freed_def ci_freed_def upd_def insertAtFreedListHead_def set_freed_next_def
      new_def)

lemma note_free_ok:
  fixes s :: "'a ct_state_scheme"
  assumes G: "globals_ok G" and k: "valid_class k" and inv: "class_ok k s H ps rs fs" and a: "(a, t) \<in># H"
  shows "\<exists>q fs'. parseSmallChunkPtr G a = Inr q \<and> superPoolID q = k \<and> isSmallChunk G a \<and>
    class_ok k (note_free k q t s) (H - {#(a, t)#}) ps rs fs' \<and> frame k others s (note_free k q t s) \<and>
    persistent (note_free k q t s) = persistent s"
proof -
  note inv' = inv [unfolded class_ok_def]
  from held_chunk [OF k inv' a] obtain r i where
    r: "r \<in> set rs" "i \<in> set (idxs k)" "a = chunk k r i" "region_slot k r" .
  from parse_held [OF G k r(4,2)] obtain q where
    q: "parseSmallChunkPtr G (chunk k r i) = Inr q" "superPoolID q = k" "regionInfo q = r" "unat (chunkID q) = i"
    by blast
  note eq = note_free_eq [OF q(3,4), of k t s]
  from class_inv_free [OF k inv' r(1,2) a [unfolded r(3)] refl] have
    "class_ok k (note_free k q t s) (H - {#(a, t)#}) ps rs (if in_free_list (RI s r) = 0 then r # fs else fs)"
    unfolding class_ok_def eq by (simp only: r(3) ct_state.simps pool_state.simps machine.simps
        ct_state.select_convs fun_upd_same) simp
  moreover have "frame k others s (note_free k q t s)"
    using slot_space [OF k r(4)] space_disjoint unfolding eq frame_def by fastforce
  ultimately show ?thesis
    using q held_small [OF G k r(4,2)] unfolding r(3) by (intro exI [of _ q]) (auto simp: eq)
qed

end
