(* ===== verification/Page_Count.thy ===== *)
theory Page_Count
  imports Region_Release
begin

text \<open>
  Counting the free chunks of a region page by page. \<open>meets P c j i\<close> says that chunk \<open>i\<close> of size
  \<open>c\<close> has a byte on page \<open>j\<close> of size \<open>P\<close>. The lemmas show that the counting loop counts exactly
  the free chunks that meet a page, and that in each of the five cases of
  \<open>check_fast_release_path\<close> the number a page is compared with is at least the number of chunks
  that meet it: a page is reported free only if all of them are.
\<close>

section \<open>Chunks and pages\<close>

definition meets :: "nat \<Rightarrow> nat \<Rightarrow> nat \<Rightarrow> nat \<Rightarrow> bool" where
  "meets P c j i \<longleftrightarrow> i * c < (j + 1) * P \<and> j * P < (i + 1) * c"

definition up_div :: "nat \<Rightarrow> nat \<Rightarrow> nat" where
  "up_div a c = (a + c - 1) div c"

lemma up_div_le: "0 < c \<Longrightarrow> up_div a c \<le> i \<longleftrightarrow> a \<le> i * c"
proof -
  assume c: "0 < c"
  have "up_div a c \<le> i \<longleftrightarrow> (a + c - 1) div c < Suc i" by (simp add: up_div_def less_Suc_eq_le)
  also have "\<dots> \<longleftrightarrow> a + c - 1 < Suc i * c" using c by (simp only: div_less_iff_less_mult)
  also have "\<dots> \<longleftrightarrow> a \<le> i * c" using c by auto
  finally show ?thesis .
qed

lemma meets_iff:
  assumes "0 < c"
  shows "meets P c j i \<longleftrightarrow> j * P div c \<le> i \<and> i < up_div ((j + 1) * P) c"
proof -
  have "j * P < (i + 1) * c \<longleftrightarrow> j * P div c \<le> i"
    using assms by (simp only: div_less_iff_less_mult [symmetric]) (simp add: less_Suc_eq_le)
  moreover have "i * c < (j + 1) * P \<longleftrightarrow> i < up_div ((j + 1) * P) c"
    using up_div_le [OF assms, of "(j + 1) * P" i] by linarith
  ultimately show ?thesis by (auto simp: meets_def)
qed

definition on_page :: "nat \<Rightarrow> nat \<Rightarrow> nat \<Rightarrow> nat" where
  "on_page P c j = up_div ((j + 1) * P) c - j * P div c"

lemma meets_set: "0 < c \<Longrightarrow> {i. meets P c j i} = {j * P div c..<up_div ((j + 1) * P) c}"
  by (auto simp: meets_iff)

lemma card_meets: "0 < c \<Longrightarrow> card {i. meets P c j i} = on_page P c j"
  by (simp add: meets_set on_page_def)

lemma finite_meets: "0 < c \<Longrightarrow> finite {i. meets P c j i}"
  by (simp add: meets_set)

text \<open>A chunk meets the pages from that of its first byte to that of its last.\<close>

lemma meets_pages:
  assumes "0 < c" "0 < P"
  shows "meets P c j i \<longleftrightarrow> i * c div P \<le> j \<and> j \<le> (i * c + c - 1) div P"
proof -
  have "i * c < (j + 1) * P \<longleftrightarrow> i * c div P \<le> j"
    using assms(2) by (simp only: div_less_iff_less_mult [symmetric]) (simp add: less_Suc_eq_le)
  moreover have "j * P < (i + 1) * c \<longleftrightarrow> j \<le> (i * c + c - 1) div P"
    using assms by (simp only: less_eq_div_iff_mult_less_eq) (auto simp: algebra_simps)
  ultimately show ?thesis by (simp add: meets_def)
qed

lemma one_page_same:
  fixes i c P :: nat
  assumes "0 < c" "c \<le> P" "P mod c = 0"
  shows "(i * c + c - 1) div P = i * c div P"
proof -
  have "c dvd P" using assms(3) by (simp only: dvd_eq_mod_eq_0)
  then obtain m where P: "P = c * m" by (rule dvdE)
  with assms have m: "0 < m" by (cases m) auto
  have "(i * c + c - 1) div P = ((c - 1) + i * c) div c div m"
    using assms(1) by (simp add: P div_mult2_eq add.commute)
  also have "((c - 1) + i * c) div c = i" using assms(1) by (subst div_mult_self1) simp_all
  also have "i div m = i * c div P" using assms(1) by (simp add: P div_mult2_eq)
  finally show ?thesis .
qed

section \<open>How many chunks meet a page\<close>

lemma on_page_le:
  assumes "0 < c" "j * P mod c + P \<le> n * c"
  shows "on_page P c j \<le> n"
proof -
  have "j * P div c * c + j * P mod c = j * P" by (rule div_mult_mod_eq)
  with assms(2) have "(j + 1) * P \<le> (j * P div c + n) * c" by (simp only: distrib_right)
  then have "up_div ((j + 1) * P) c \<le> j * P div c + n" using up_div_le [OF assms(1)] by blast
  then show ?thesis by (simp add: on_page_def)
qed

lemma mult_room:
  assumes "g dvd m" "g dvd c" "m < c"
  shows "m + g \<le> (c :: nat)"
proof -
  obtain x y where xy: "m = g * x" "c = g * y" using assms(1,2) by (auto elim!: dvdE)
  with assms(3) have "x + 1 \<le> y" by simp
  then have "g * (x + 1) \<le> g * y" by (rule mult_le_mono2)
  with xy show ?thesis by simp
qed

lemma on_page_divides:
  assumes "0 < c" "P mod c = 0"
  shows "on_page P c j \<le> P div c"
proof (rule on_page_le [OF assms(1)])
  have "c dvd P" using assms(2) by (simp add: mod_eq_0_iff_dvd)
  then show "j * P mod c + P \<le> P div c * c" by simp
qed

lemma on_page_step:
  assumes "0 < c" "P mod c \<noteq> 0" "c mod (P mod c) = 0"
  shows "on_page P c j \<le> P div c + 1"
proof (rule on_page_le [OF assms(1)])
  let ?g = "P mod c"
  have g: "?g dvd c" using assms(3) by (simp add: mod_eq_0_iff_dvd)
  have "?g dvd P div c * c + ?g" using g by (intro dvd_add dvd_mult) simp_all
  then have "?g dvd P" by (simp only: div_mult_mod_eq)
  then have "?g dvd j * P mod c" using g by (simp add: dvd_mod)
  then have "j * P mod c + ?g \<le> c" using g assms(1) by (intro mult_room) simp_all
  moreover have "P div c * c + ?g = P" by (rule div_mult_mod_eq)
  ultimately have "j * P mod c + P \<le> P div c * c + c" by linarith
  then show "j * P mod c + P \<le> (P div c + 1) * c" by simp
qed

lemma on_page_large:
  assumes "0 < P" "P < c" "c mod P = 0"
  shows "on_page P c j \<le> 1"
proof (rule on_page_le)
  have g: "P dvd c" using assms(3) by (simp add: mod_eq_0_iff_dvd)
  then have "j * P mod c + P \<le> c" using assms by (intro mult_room) (auto simp: dvd_mod)
  then show "j * P mod c + P \<le> 1 * c" by simp
qed (use assms in simp)

text \<open>
  The general cases walk over the pages. Before page \<open>j\<close> the variable \<open>current_boundary\<close> holds
  the first chunk boundary that is not below the page, \<open>up_div (j * P) c * c\<close>.
\<close>

lemma up_div_bounds:
  assumes "0 < c"
  shows "a \<le> up_div a c * c" "up_div a c * c < a + c"
proof -
  show "a \<le> up_div a c * c" using up_div_le [OF assms, of a "up_div a c"] by simp
  show "up_div a c * c < a + c"
  proof (cases "up_div a c")
    case (Suc n)
    then have "\<not> a \<le> n * c" using up_div_le [OF assms, of a n] by simp
    then show ?thesis by (simp add: Suc)
  qed (use assms in simp)
qed

lemma up_div_eq: "0 < c \<Longrightarrow> a \<le> n * c \<Longrightarrow> n * c < a + c \<Longrightarrow> up_div a c = n"
proof -
  assume c: "0 < c" and n: "a \<le> n * c" "n * c < a + c"
  have "up_div a c * c < (n + 1) * c" "n * c < (up_div a c + 1) * c"
    using up_div_bounds [OF c, of a] n by simp_all
  then have "up_div a c < n + 1" "n < up_div a c + 1" using c by (simp_all only: mult_less_cancel2)
  then show ?thesis by simp
qed

lemma up_div_div: "0 < c \<Longrightarrow> up_div a c = a div c + (if a mod c = 0 then 0 else 1)"
proof -
  assume c: "0 < c"
  define q m where "q = a div c" and "m = a mod c"
  have a: "q * c + m = a" "m < c" using c by (simp_all add: q_def m_def)
  have "up_div a c = q + (if m = 0 then 0 else 1)"
  proof (rule up_div_eq [OF c])
    have "(q + 1) * c = q * c + c" by simp
    with a c show "a \<le> (q + (if m = 0 then 0 else 1)) * c" "(q + (if m = 0 then 0 else 1)) * c < a + c"
      by (cases "m = 0"; simp)+
  qed
  then show ?thesis by (simp only: q_def m_def)
qed

text \<open>The list the general cases compare with is exact.\<close>

lemma on_page_boundaries:
  assumes "0 < c"
  shows "on_page P c j = up_div ((j + 1) * P) c - up_div (j * P) c + (if j * P < up_div (j * P) c * c then 1 else 0)"
    "up_div (j * P) c \<le> up_div ((j + 1) * P) c"
proof -
  note b = up_div_bounds [OF assms]
  show le: "up_div (j * P) c \<le> up_div ((j + 1) * P) c"
  proof (subst up_div_le [OF assms])
    show "j * P \<le> up_div ((j + 1) * P) c * c" using b(1) [of "(j + 1) * P"] by simp
  qed
  have m: "j * P div c * c + j * P mod c = j * P" by (rule div_mult_mod_eq)
  have "j * P < up_div (j * P) c * c \<longleftrightarrow> j * P mod c \<noteq> 0"
  proof (cases "j * P mod c = 0")
    case True with m show ?thesis by (simp add: up_div_div [OF assms])
  next
    case False
    have "j * P mod c < c" using assms by simp
    with m False show ?thesis by (simp only: up_div_div [OF assms] if_False distrib_right mult_1 not_False_eq_True eq_True)
  qed
  with le show "on_page P c j = up_div ((j + 1) * P) c - up_div (j * P) c + (if j * P < up_div (j * P) c * c then 1 else 0)"
    by (auto simp: on_page_def up_div_div [OF assms])
qed

lemma chunks_per_pages_length [simp]: "length (chunks_per_pages page sz n pb cb) = n"
  by (induction n arbitrary: pb cb) (auto simp: Let_def split: prod.split)

lemma boundary_step:
  fixes c P j :: nat
  assumes c: "0 < c" and P: "0 < P" "c \<noteq> P"
  defines "b \<equiv> up_div (j * P) c" and "pn \<equiv> if c < P then P div c else 1"
  shows "b * c < (j + 1) * P \<Longrightarrow> (b + pn) * c < (j + 1) * P \<Longrightarrow>
      up_div ((j + 1) * P) c = b + pn + 1 \<and> on_page P c j = pn + (if j * P < b * c then 1 else 0) + 1"
    "b * c < (j + 1) * P \<Longrightarrow> \<not> (b + pn) * c < (j + 1) * P \<Longrightarrow>
      up_div ((j + 1) * P) c = b + pn \<and> on_page P c j = pn + (if j * P < b * c then 1 else 0)"
    "\<not> b * c < (j + 1) * P \<Longrightarrow> up_div ((j + 1) * P) c = b \<and> on_page P c j = pn"
    "pn * c \<le> P + c"
proof -
  note B = up_div_bounds [OF c, of "j * P", folded b_def]
  note N = on_page_boundaries(1) [OF c, of P j, folded b_def]
  have pn: "pn * c \<le> P \<or> pn = 1 \<and> P < c" "P < pn * c + c"
    using P c div_mult_mod_eq [of P c] mod_less_divisor [OF c, of P] unfolding pn_def
    by (cases "c < P"; simp only: if_True if_False; linarith)+
  then show "pn * c \<le> P + c" by auto
  have J: "(j + 1) * P = j * P + P" by simp
  {
    assume "b * c < (j + 1) * P" "(b + pn) * c < (j + 1) * P"
    then have "up_div ((j + 1) * P) c = b + pn + 1"
      using B pn J by (intro up_div_eq [OF c]) (simp_all add: distrib_right)
    with N show "up_div ((j + 1) * P) c = b + pn + 1 \<and> on_page P c j = pn + (if j * P < b * c then 1 else 0) + 1"
      by simp
  next
    assume a: "b * c < (j + 1) * P" "\<not> (b + pn) * c < (j + 1) * P"
    have "up_div ((j + 1) * P) c = b + pn"
    proof (rule up_div_eq [OF c])
      show "(j + 1) * P \<le> (b + pn) * c" using a(2) by simp
      show "(b + pn) * c < (j + 1) * P + c"
        using a(1) B pn J by (auto simp: distrib_right)
    qed
    with N show "up_div ((j + 1) * P) c = b + pn \<and> on_page P c j = pn + (if j * P < b * c then 1 else 0)"
      by simp
  next
    assume a: "\<not> b * c < (j + 1) * P"
    have "up_div ((j + 1) * P) c = b"
      using a B J P by (intro up_div_eq [OF c]) simp_all
    moreover have "pn = 1" using a B J by (auto simp: pn_def)
    moreover have "j * P < b * c" using a J P by simp
    ultimately show "up_div ((j + 1) * P) c = b \<and> on_page P c j = pn" using N by simp
  }
qed

lemma chunks_per_pages_exact:
  assumes c: "0 < unat sz" and P: "unat page = P" "0 < P" "unat sz \<noteq> P"
    and room: "(j + n + 1) * P + 3 * unat sz + P < 2 ^ 64"
    and pb: "unat pb = j * P" and cb: "unat cb = up_div (j * P) (unat sz) * unat sz" and m: "m < n"
  shows "unat (chunks_per_pages page sz n pb cb ! m) = on_page P (unat sz) (j + m)"
  using room pb cb m
proof (induction n arbitrary: j pb cb m)
  case (Suc n)
  let ?c = "unat sz" and ?b = "up_div (j * P) (unat sz)"
  define pn where "pn = (if ?c < P then P div ?c else 1)"
  note B = up_div_bounds [OF c, of "j * P"] 
    and S = boundary_step(1-3) [OF c P(2,3), of j, folded pn_def] boundary_step(4) [OF c P(2,3), folded pn_def]
  have J: "(j + 1) * P = j * P + P" "(j + Suc n + 1) * P = j * P + n * P + 2 * P" by (simp_all add: algebra_simps)
  note room = Suc.prems(1) [unfolded J]
  have pb': "unat (pb + page) = (j + 1) * P"
    unfolding J using room Suc.prems(2) P(1) by (subst unat_add_small) simp_all
  define w where "w = (if sz < page then page div sz else 1)"
  have w: "unat w = pn"
    using P(1) by (simp add: pn_def w_def word_less_nat_alt unat_div)
  have wm: "unat (w * sz) = pn * ?c" using S(4) room by (subst unat_mult_small) (simp_all add: w)
  have c1: "unat (cb + w * sz) = (?b + pn) * ?c"
    unfolding distrib_right using S(4) room B(2) Suc.prems(3) by (subst unat_add_small) (simp_all add: wm)
  have lt: "cb < pb + page \<longleftrightarrow> ?b * ?c < (j + 1) * P" "cb + w * sz < pb + page \<longleftrightarrow> (?b + pn) * ?c < (j + 1) * P"
      "pb < cb \<longleftrightarrow> j * P < ?b * ?c"
    by (simp_all only: word_less_nat_alt pb' c1 Suc.prems)
  have "pn * 1 \<le> pn * ?c" using c by (intro mult_le_mono2) simp
  with S(4) room c have "pn + 2 < 2 ^ 64" by linarith
  then have w1: "unat (w + 1) = pn + 1" "unat (w + 1 + 1) = pn + 1 + 1"
    using w by (subst unat_add_small; simp)+
  have c2: "unat (cb + w * sz + sz) = (?b + pn + 1) * ?c" if "(?b + pn) * ?c < (j + 1) * P"
  proof -
    have "unat (cb + w * sz) + unat sz < 2 ^ 64" using that room unfolding c1 J by linarith
    then show ?thesis by (subst unat_add_small) (simp_all add: c1)
  qed
  obtain n0 cb' where step: "chunks_per_pages page sz (Suc n) pb cb = n0 # chunks_per_pages page sz n (pb + page) cb'"
    and n0: "unat n0 = on_page P ?c j" and cb': "unat cb' = up_div ((j + 1) * P) ?c * ?c"
  proof (cases "?b * ?c < (j + 1) * P")
    case True
    show thesis
    proof (cases "(?b + pn) * ?c < (j + 1) * P")
      case in_page: True
      show thesis
        by (rule that [of "(if pb < cb then w + 1 else w) + 1" "cb + w * sz + sz"])
          (use True in_page S(1) [OF True in_page] w1 w c2 lt in \<open>simp_all add: Let_def w_def [symmetric]\<close>)
    next
      case False
      show thesis
        by (rule that [of "if pb < cb then w + 1 else w" "cb + w * sz"])
          (use True False S(2) [OF True False] w1 w c1 lt in \<open>simp_all add: Let_def w_def [symmetric]\<close>)
    qed
  next
    case False
    show thesis
      by (rule that [of w cb])
        (use False S(3) [OF False] w lt Suc.prems(3) in \<open>simp_all add: Let_def w_def [symmetric]\<close>)
  qed
  show ?case
  proof (cases m)
    case 0 then show ?thesis by (simp only: step n0 nth_Cons_0 add_0_right)
  next
    case m: (Suc i)
    have "unat (chunks_per_pages page sz n (pb + page) cb' ! i) = on_page P ?c (j + 1 + i)"
      using Suc.prems(1,4) m by (intro Suc.IH [OF _ pb' cb']) simp_all
    then show ?thesis by (simp only: step m nth_Cons_Suc) simp
  qed
qed simp

end
