(* ===== verification/Fragment_Release.thy ===== *)
theory Fragment_Release
  imports Page_Count Refill
begin

text \<open>
  Releasing single pages of a region: only pages whose chunks are all free are given to the
  kernel, so the header page stays and no byte of an allocated or cached chunk changes.
\<close>

section \<open>The counters\<close>

lemma bump_all_spec:
  "bump_all nc js cs = Inr cs' \<Longrightarrow> cs' j = cs j + of_nat (count_list js j)"
proof (induction js arbitrary: cs)
  case (Cons x js)
  then obtain cs1 where b: "bump nc x cs = Inr cs1" "bump_all nc js cs1 = Inr cs'" by (auto simp: andThen_eq_Inr)
  then have "cs1 = cs(x := cs x + 1)" by (auto simp: bump_def split: if_splits)
  with Cons.IH [OF b(2)] show ?case by simp
qed simp

lemma count_list_upt: "count_list [p..<q] j = (if p \<le> j \<and> j < q then 1 else 0)"
  by (induction q) auto

text \<open>\<open>counted\<close> are the chunks the loop counts for page \<open>j\<close>.\<close>

definition counted :: "nat \<Rightarrow> nat \<Rightarrow> (nat \<Rightarrow> u8) \<Rightarrow> nat list \<Rightarrow> nat \<Rightarrow> nat list" where
  "counted P c tags is j = filter (\<lambda>i. tags i \<noteq> 0 \<and> meets P c j i) is"

lemma count_chunks_spec:
  assumes c: "0 < unat sz" and one: "one \<Longrightarrow> unat sz \<le> 2 ^ sh \<and> 2 ^ sh mod unat sz = 0"
    and off: "unat off = a * unat sz" and room: "b * unat sz < 2 ^ 64"
    and res: "count_chunks nc sh tags sz one [a..<b] off cs = Inr cs'"
  shows "cs' j = cs j + of_nat (length (counted (2 ^ sh) (unat sz) tags [a..<b] j))"
  using off res
proof (induction "b - a" arbitrary: a off cs)
  case 0 then show ?case by (simp add: counted_def)
next
  case (Suc n)
  let ?c = "unat sz"
  have lt: "a < b" using Suc.hyps(2) by simp
  then have l: "[a..<b] = a # [Suc a..<b]" by (rule upt_conv_Cons)
  let ?p = "unat (drop_bit sh off)" and ?q = "if one then unat (drop_bit sh off) else unat (drop_bit sh (off + sz - 1))"
  obtain cs1 where s: "(if tags a \<noteq> 0 then bump_all nc [?p..<Suc ?q] cs else Inr cs) = Inr cs1"
      "count_chunks nc sh tags sz one [Suc a..<b] (off + sz) cs1 = Inr cs'"
    using Suc.prems(2) unfolding l count_chunks.simps Let_def andThen_eq_Inr by blast
  have "(a + 1) * ?c \<le> b * ?c" using lt by (intro mult_le_mono1) simp
  with room have r: "a * ?c + ?c < 2 ^ 64" by simp
  then have u: "unat (off + sz) = Suc a * ?c" using Suc.prems(1) by (subst unat_add_small) simp_all
  have "off + sz \<noteq> 0" using u c by auto
  then have u1: "unat (off + sz - 1) = a * ?c + ?c - 1" by (simp add: unat_minus_one u)
  have p: "?p = a * ?c div 2 ^ sh" by (simp add: unat_drop_bit Suc.prems(1))
  have q: "?q = (a * ?c + ?c - 1) div 2 ^ sh"
    using one_page_same [OF c, of "2 ^ sh" a] one by (simp add: unat_drop_bit Suc.prems(1) u1)
  have "meets (2 ^ sh) ?c j a \<longleftrightarrow> a * ?c div 2 ^ sh \<le> j \<and> j < Suc ((a * ?c + ?c - 1) div 2 ^ sh)"
    by (subst meets_pages [OF c]) (simp_all add: less_Suc_eq_le)
  then have m: "meets (2 ^ sh) ?c j a \<longleftrightarrow> ?p \<le> j \<and> j < Suc ?q" by (subst q, subst p)
  have "cs1 j = cs j + (if tags a \<noteq> 0 \<and> meets (2 ^ sh) ?c j a then 1 else 0)"
    using s(1) bump_all_spec [of nc "[?p..<Suc ?q]" cs cs1 j] unfolding count_list_upt m
    by (auto split: if_splits)
  moreover have "cs' j = cs1 j + of_nat (length (counted (2 ^ sh) ?c tags [Suc a..<b] j))"
    using Suc.hyps(2) by (intro Suc.hyps(1) [OF _ u s(2)]) simp
  ultimately show ?case unfolding l by (simp add: counted_def)
qed

text \<open>A page is flagged only if all the chunks that meet it are free chunks of the list.\<close>

lemma counted_all:
  assumes c: "0 < c" and "on_page P c j \<le> length (counted P c tags [a..<b] j)" "meets P c j i"
  shows "a \<le> i \<and> i < b \<and> tags i \<noteq> 0"
proof -
  let ?S = "set (counted P c tags [a..<b] j)"
  have "?S \<subseteq> {i. meets P c j i}" by (auto simp: counted_def)
  moreover have "card ?S = length (counted P c tags [a..<b] j)"
    by (rule distinct_card) (simp add: counted_def)
  ultimately have "?S = {i. meets P c j i}"
    using assms(2) card_meets [OF c, of P j] by (intro card_seteq finite_meets [OF c]) simp_all
  with assms(3) show ?thesis by (auto simp: counted_def)
qed

section \<open>The flags\<close>

lemma mod_0_unat: "x mod y = 0 \<longleftrightarrow> unat x mod unat y = 0" for x y :: "'n::len word"
  by (simp only: unat_mod [symmetric] unsigned_eq_0_iff)

lemma counted_le_256: "length (counted P c tags [a..<256] j) < 256" if "0 < a"
proof -
  have "length (counted P c tags [a..<256] j) \<le> length [a..<256]"
    unfolding counted_def by (rule length_filter_le)
  with that show ?thesis by simp
qed

definition full_count :: "uptr \<Rightarrow> uptr \<Rightarrow> uptr \<Rightarrow> bool \<Rightarrow> nat \<Rightarrow> nat \<Rightarrow> nat" where
  "full_count page sz full same n j =
     (if same then unat full else unat (chunks_per_pages page sz n 0 0 ! j))"

lemma fast_path_bound:
  assumes "check_fast_release_path page sz = Inr (full, same)" "j < n" "unat page = 4096"
    "unat sz \<le> 2 ^ 24" "n \<le> 2 ^ 20"
  shows "on_page 4096 (unat sz) j \<le> full_count page sz full same n j"
proof -
  let ?c = "unat sz"
  have nz: "page \<noteq> 0" "sz \<noteq> 0" using assms(1) by (auto simp: check_fast_release_path_def split: if_splits)
  then have c: "0 < ?c" by (simp add: unat_gt_0)
  have w: "sz \<le> page \<longleftrightarrow> ?c \<le> 4096" "page < sz \<longleftrightarrow> 4096 < ?c" "page mod sz = 0 \<longleftrightarrow> 4096 mod ?c = 0"
      "sz mod (page mod sz) = 0 \<longleftrightarrow> ?c mod (4096 mod ?c) = 0" "sz mod page = 0 \<longleftrightarrow> ?c mod 4096 = 0"
      "unat (page div sz) = 4096 div ?c"
    using assms(3) by (simp_all add: word_le_nat_alt word_less_nat_alt unat_div unat_mod mod_0_unat)
  have "4096 div ?c < 2 ^ 63" by (rule le_less_trans [OF div_le_dividend]) simp
  then have w1: "unat (page div sz + 1) = 4096 div ?c + 1"
    by (subst unat_add_small) (simp_all add: w(6))
  show ?thesis
  proof (cases same)
    case True
    consider "?c \<le> 4096" "4096 mod ?c = 0" "full = page div sz"
      | "?c \<le> 4096" "4096 mod ?c \<noteq> 0" "?c mod (4096 mod ?c) = 0" "full = page div sz + 1"
      | "4096 < ?c" "?c mod 4096 = 0" "full = 1"
      using assms(1) nz True unfolding check_fast_release_path_def w by (simp split: if_splits)
    then show ?thesis
    proof cases
      case 1 with on_page_divides [OF c 1(2)] True show ?thesis by (simp add: full_count_def w)
    next
      case 2 with on_page_step [OF c 2(2,3)] True show ?thesis by (simp add: full_count_def w1)
    next
      case 3 with on_page_large [OF _ 3(1,2)] True show ?thesis by (simp add: full_count_def)
    qed
  next
    case False
    then have "?c \<noteq> 4096"
      using assms(1) nz unfolding check_fast_release_path_def w by (auto split: if_splits)
    then have "unat (chunks_per_pages page sz n 0 0 ! j) = on_page 4096 ?c (0 + j)"
      using assms(2-5) by (intro chunks_per_pages_exact [OF c]) (use c in \<open>simp_all add: up_div_def\<close>)
    with False show ?thesis by (simp add: full_count_def)
  qed
qed

lemma page_flags_nth:
  assumes "j < unat nc"
  shows "page_flags nc sz full same page cs ! j \<longleftrightarrow> unat (cs j) = full_count page sz full same (unat nc) j"
proof -
  have u: "ucast x = y \<longleftrightarrow> unat x = unat y" for x :: u8 and y :: uptr
    by (metis unat_ucast_8 word_unat_eq_iff)
  show ?thesis using assms by (simp add: page_flags_def full_count_def u)
qed

lemma page_flags_length [simp]: "length (page_flags nc sz full same page cs) = unat nc"
  by (simp add: page_flags_def)

lemma page_flags_safe:
  assumes fast: "check_fast_release_path page sz = Inr (full, same)" and page: "unat page = 4096"
    and sz: "unat sz \<le> 2 ^ 16" and nc: "unat nc \<le> 2 ^ 20" and a: "0 < a" "a \<le> 256"
    and res: "count_chunks nc 12 tags sz one [a..<256] (of_nat a * sz) (\<lambda>_. 0) = Inr cs"
    and one: "one \<longleftrightarrow> sz \<le> page \<and> page mod sz = 0"
    and j: "j < unat nc" "page_flags nc sz full same page cs ! j" and i: "meets 4096 (unat sz) j i"
  shows "a \<le> i \<and> i < 256 \<and> tags i \<noteq> 0"
proof -
  let ?c = "unat sz"
  have c: "0 < ?c" using fast by (auto simp: check_fast_release_path_def unat_gt_0 split: if_splits)
  have "unat (of_nat a * sz) = a * ?c"
  proof -
    have "a * ?c \<le> 256 * 2 ^ 16" using a(2) sz by (rule mult_le_mono)
    then show ?thesis using a(2) by (subst unat_mult_small) (simp_all add: unat_of_nat_small)
  qed
  then have "cs j = 0 + of_nat (length (counted (2 ^ 12) ?c tags [a..<256] j))"
    using one sz page by (intro count_chunks_spec [OF c _ _ _ res])
      (simp_all add: word_le_nat_alt mod_0_unat)
  then have "unat (cs j) = length (counted 4096 ?c tags [a..<256] j)"
    using counted_le_256 [OF a(1), of 4096 ?c tags j] by (simp add: unat_of_nat_small)
  moreover have "on_page 4096 ?c j \<le> full_count page sz full same (unat nc) j"
    using sz by (intro fast_path_bound [OF fast j(1) page _ nc]) simp
  ultimately have "on_page 4096 ?c j \<le> length (counted 4096 ?c tags [a..<256] j)"
    using page_flags_nth [OF j(1)] j(2) by simp
  from counted_all [OF c this i] show ?thesis .
qed

section \<open>What an advice changes\<close>

text \<open>Outside \<open>T\<close> the memory and the headers are kept, and so is all that is not machine state.\<close>

definition only_in :: "(uptr \<Rightarrow> bool) \<Rightarrow> 'a machine_scheme \<Rightarrow> 'a machine_scheme \<Rightarrow> bool" where
  "only_in T s s' \<longleftrightarrow> machine.more s' = machine.more s \<and>
     (\<forall>a. \<not> T a \<longrightarrow> mem s' a = mem s a \<and> RI s' a = RI s a)"

lemma only_in_refl [simp]: "only_in T s s"
  by (simp add: only_in_def)

lemma only_in_trans: "only_in T s s' \<Longrightarrow> only_in T s' s'' \<Longrightarrow> only_in T s s''"
  by (simp add: only_in_def)

lemma only_in_mono: "only_in T s s' \<Longrightarrow> (\<And>a. T a \<Longrightarrow> T' a) \<Longrightarrow> only_in T' s s'"
  by (auto simp: only_in_def)

lemma CTAdvise_only:
  assumes "CTAdvise G a len s = Inr s'" "unat a + unat len \<le> 2 ^ 64"
    "\<And>x. unat a \<le> unat x \<Longrightarrow> unat x < unat a + unat len \<Longrightarrow> T x"
  shows "only_in T s s'"
proof -
  have "T x" if "in_range a len x" for x
  proof (cases "a \<le> x")
    case True
    with that show ?thesis
      by (intro assms(3)) (auto simp: in_range_def word_less_nat_alt unat_sub word_le_nat_alt)
  next
    case False
    have "unat (x - a) = unat x + 2 ^ 64 - unat a"
      using False by (simp add: unat_sub_if' word_size word_le_nat_alt)
    moreover have "unat (x - a) < unat len" using that by (simp add: in_range_def word_less_nat_alt)
    ultimately show ?thesis using assms(2) False by (simp add: word_le_nat_alt)
  qed
  then show ?thesis
    using assms(1) by (auto simp: CTAdvise_def internal_madvise_dontneed_def syscall_def Let_def
        zero_range_def only_in_def split: if_splits)
qed

text \<open>What is advised reads as zero and has no header afterwards.\<close>

lemma CTAdvise_zero:
  assumes "CTAdvise G a len s = Inr s'" "in_range a len x"
  shows "mem s' x = 0" "RI s' x = zero_region"
  using assms by (auto simp: CTAdvise_def internal_madvise_dontneed_def syscall_def Let_def
      zero_range_def split: if_splits)

section \<open>The tracker\<close>

text \<open>\<open>flagged b fl\<close> are the addresses of the flagged pages of the region at \<open>b\<close>.\<close>

definition flagged :: "nat \<Rightarrow> bool list \<Rightarrow> uptr \<Rightarrow> bool" where
  "flagged b fl x \<longleftrightarrow> b \<le> unat x \<and> (unat x - b) div 4096 < length fl \<and> fl ! ((unat x - b) div 4096)"

definition tracker_ok :: "nat \<Rightarrow> bool list \<Rightarrow> nat \<Rightarrow> CTFreePagesRangeTracker \<Rightarrow> bool" where
  "tracker_ok b fl j t \<longleftrightarrow> j \<le> length fl \<and> unat (current_page t) = b + j * 4096 \<and>
     (in_the_range t \<longrightarrow> (\<exists>i\<le>j. unat (current_range_start_page t) = b + i * 4096 \<and>
        (\<forall>m. i \<le> m \<and> m < j \<longrightarrow> fl ! m)))"

lemma CloseOpenedRange_ok:
  assumes page: "page_size G = 4096" and b: "4096 dvd b" "b + (length fl + 1) * 4096 \<le> 2 ^ 64"
    and t: "tracker_ok b fl j t" and res: "CTFreePagesRangeTrackerCloseOpenedRange G (t, s) = Inr (t', s')"
  shows "tracker_ok b fl j t' \<and> \<not> in_the_range t' \<and> only_in (flagged b fl) s s'"
proof (cases "in_the_range t")
  case False
  with res t show ?thesis by (simp add: CTFreePagesRangeTrackerCloseOpenedRange_def)
next
  case True
  with t obtain i where j: "j \<le> length fl" "unat (current_page t) = b + j * 4096"
    and i: "i \<le> j" "unat (current_range_start_page t) = b + i * 4096" "\<And>m. i \<le> m \<Longrightarrow> m < j \<Longrightarrow> fl ! m"
    by (auto simp: tracker_ok_def)
  let ?a = "current_range_start_page t" and ?e = "current_page t"
  have e: "unat ?a \<le> unat ?e" "unat ?e + 4096 \<le> 2 ^ 64" using i j b(2) by simp_all
  have flag: "flagged b fl x" if "unat ?a \<le> unat x" "unat x < unat ?e" for x
  proof -
    have "i * 4096 \<le> unat x - b" "unat x - b < j * 4096" using that i(2) j(2) by auto
    then have "i \<le> (unat x - b) div 4096" "(unat x - b) div 4096 < j"
      by (simp_all add: less_eq_div_iff_mult_less_eq div_less_iff_less_mult)
    then show ?thesis using that i j by (auto simp: flagged_def)
  qed
  have adv: "only_in (flagged b fl) s1 s2" if "CTAdvise G ?a (?e - ?a) s1 = Inr s2" for s1 s2 :: "'a machine_scheme"
  proof (rule CTAdvise_only [OF that])
    have d: "unat (?e - ?a) = unat ?e - unat ?a" using e by (simp add: unat_sub word_le_nat_alt)
    then show "unat ?a + unat (?e - ?a) \<le> 2 ^ 64" using e by simp
    show "flagged b fl x" if "unat ?a \<le> unat x" "unat x < unat ?a + unat (?e - ?a)" for x
      using that d e by (intro flag) simp_all
  qed
  have "2 ^ 12 dvd unat ?a" "2 ^ 12 dvd unat ?e" using b(1) i(2) j(2) by simp_all
  then have "unat (RoundDownTo ?e (2 ^ 12)) = unat ?e" "unat (round_up ?a (2 ^ 12)) = unat ?a"
    using e by (simp_all only: unat_round_down unat_round_up dvd_div_mult_self) (subst unat_round_up; auto)+
  then have r: "RoundDownTo ?e (2 ^ 12) = ?e" "round_up ?a (2 ^ 12) = ?a"
    by (simp_all only: word_unat_eq_iff)
  then have r': "RoundDownTo ?e 4096 = ?e" "RoundUpTo ?a 4096 = Inr ?a"
    using RoundUpTo_exp [of 12 ?a] by simp_all
  obtain s1 where s1: "CTAdvise G ?a (?e - ?a) s = Inr s1"
      "(if ?a < ?e then CTAdvise G ?a (?e - ?a) s1 else Inr s1) = Inr s'" "t' = t\<lparr>in_the_range := False\<rparr>"
    using res True unfolding CTFreePagesRangeTrackerCloseOpenedRange_def page
    by (auto simp: andThen_eq_Inr Let_def r')
  have "only_in (flagged b fl) s1 s'" using s1(2) adv by (auto split: if_splits)
  with adv [OF s1(1)] have "only_in (flagged b fl) s s'" by (rule only_in_trans)
  with t s1(3) show ?thesis by (simp add: tracker_ok_def)
qed

lemma track_pages_ok:
  assumes page: "page_size G = 4096" and b: "4096 dvd b" "b + (length fl + 1) * 4096 \<le> 2 ^ 64"
    and t: "tracker_ok b fl j t" and res: "track_pages G (drop j fl) (t, s) = Inr (t', s')"
  shows "tracker_ok b fl (length fl) t' \<and> only_in (flagged b fl) s s'"
  using t res
proof (induction "length fl - j" arbitrary: j t s)
  case 0
  then have "j = length fl" by (simp add: tracker_ok_def)
  with 0 show ?case by simp
next
  case (Suc n)
  then have j: "j < length fl" by simp
  then have d: "drop j fl = fl ! j # drop (Suc j) fl" by (rule Cons_nth_drop_Suc [symmetric])
  obtain t1 s1 where n: "CTFreePagesRangeTrackerNextPage G (fl ! j) (t, s) = Inr (t1, s1)"
    "track_pages G (drop (Suc j) fl) (t1, s1) = Inr (t', s')"
    using Suc.prems(2) unfolding d by (auto simp: andThen_eq_Inr)
  have cur: "unat (current_page t) = b + j * 4096" using Suc.prems(1) by (simp add: tracker_ok_def)
  have nx: "unat (current_page t + 4096) = b + Suc j * 4096"
    using cur b(2) j by (subst unat_add_small) simp_all
  have "tracker_ok b fl (Suc j) t1 \<and> only_in (flagged b fl) s s1"
  proof (cases "fl ! j")
    case True
    then have t1: "t1 = (if in_the_range t then t\<lparr>current_page := current_page t + 4096\<rparr>
        else t\<lparr>current_range_start_page := current_page t, in_the_range := True, current_page := current_page t + 4096\<rparr>)"
      "s1 = s"
      using n(1) page by (auto simp: CTFreePagesRangeTrackerNextPage_def)
    show ?thesis
    proof (cases "in_the_range t")
      case in_range: True
      then obtain i where "i \<le> j" "unat (current_range_start_page t) = b + i * 4096"
          "\<And>m. i \<le> m \<Longrightarrow> m < j \<Longrightarrow> fl ! m"
        using Suc.prems(1) by (auto simp: tracker_ok_def)
      with True in_range nx j show ?thesis
        by (auto simp: t1 tracker_ok_def less_Suc_eq intro!: exI [of _ i])
    next
      case False
      with True nx j cur show ?thesis
        by (auto simp: t1 tracker_ok_def le_less_Suc_eq intro!: exI [of _ j])
    qed
  next
    case False
    then obtain t2 where c: "CTFreePagesRangeTrackerCloseOpenedRange G (t, s) = Inr (t2, s1)"
        "t1 = t2\<lparr>current_page := current_page t2 + 4096\<rparr>"
      using n(1) page by (auto simp: CTFreePagesRangeTrackerNextPage_def andThen_eq_Inr)
    note ok = CloseOpenedRange_ok [OF page b Suc.prems(1) c(1)]
    then have "current_page t2 = current_page t"
      using cur by (simp add: tracker_ok_def word_unat_eq_iff)
    with ok nx j c(2) show ?thesis by (simp add: tracker_ok_def)
  qed
  moreover have "tracker_ok b fl (length fl) t' \<and> only_in (flagged b fl) s1 s'"
    using Suc.hyps(2) calculation by (intro Suc.hyps(1) [OF _ _ n(2)]) simp_all
  ultimately show ?case by (blast intro: only_in_trans)
qed

section \<open>The fragments of a region\<close>

text \<open>
  \<open>free_byte\<close> are the bytes of the free chunks of the region at \<open>r\<close>.
\<close>

definition free_byte :: "uptr \<Rightarrow> u64 \<Rightarrow> nat \<Rightarrow> (nat \<Rightarrow> u8) \<Rightarrow> uptr \<Rightarrow> bool" where
  "free_byte r sz first tags x \<longleftrightarrow>
     (\<exists>i. first \<le> i \<and> i < 256 \<and> tags i \<noteq> 0 \<and>
        unat r + i * unat sz \<le> unat x \<and> unat x < unat r + (i + 1) * unat sz)"

lemma CTReleaseRegionFragment_ok:
  assumes page: "page_size G = 4096" and r: "4096 dvd unat r" "unat r + (unat nc + 1) * 4096 \<le> 2 ^ 64"
    and fast: "check_fast_release_path 4096 sz = Inr (full, same)"
    and sz: "unat sz \<le> 2 ^ 16" and nc: "unat nc \<le> 2 ^ 20" and mx: "0 < unat mx"
    and res: "CTReleaseRegionFragment G nc sz full same mx r 12 s = Inr s'"
  shows "only_in (free_byte r sz (256 - unat mx) (chunk_last_tag (RI s r))) s s'"
proof -
  let ?first = "256 - unat mx" and ?tags = "chunk_last_tag (RI s r)"
  have first: "0 < ?first" "?first \<le> 256" using mx by simp_all
  have c: "0 < unat sz" using fast by (auto simp: check_fast_release_path_def unat_gt_0 split: if_splits)
  obtain cs where cs: "count_chunks nc 12 ?tags sz (sz \<le> 4096 \<and> 4096 mod sz = 0) [?first..<256]
      (of_nat ?first * sz) (\<lambda>_. 0) = Inr cs"
    using res page by (auto simp: CTReleaseRegionFragment_def Let_def andThen_eq_Inr split: if_splits)
  let ?fl = "page_flags nc sz full same 4096 cs"
  obtain t s1 t' where t: "track_pages G ?fl (CTFreePagesRangeTrackerInit r, s) = Inr (t, s1)"
      "CTFreePagesRangeTrackerCloseOpenedRange G (t, s1) = Inr (t', s')"
    using res page cs
    by (auto simp: CTReleaseRegionFragment_def Let_def andThen_eq_Inr CTFreePagesRangeTrackerDone_def split: if_splits)
  have len: "unat r + (length ?fl + 1) * 4096 \<le> 2 ^ 64" using r(2) by simp
  have "tracker_ok (unat r) ?fl 0 (CTFreePagesRangeTrackerInit r)"
    by (simp add: tracker_ok_def CTFreePagesRangeTrackerInit_def)
  from track_pages_ok [OF page r(1) len this, unfolded drop0, OF t(1)]
  have ok: "tracker_ok (unat r) ?fl (length ?fl) t" "only_in (flagged (unat r) ?fl) s s1" by simp_all
  from CloseOpenedRange_ok [OF page r(1) len ok(1) t(2)] have "only_in (flagged (unat r) ?fl) s s'"
    using ok(2) only_in_trans by blast
  then show ?thesis
  proof (rule only_in_mono)
    fix x assume "flagged (unat r) ?fl x"
    let ?o = "unat x - unat r"
    let ?j = "?o div 4096" and ?i = "?o div unat sz"
    have x: "unat r \<le> unat x" "?j < unat nc" "?fl ! ?j"
      using \<open>flagged (unat r) ?fl x\<close> by (simp_all add: flagged_def)
    have o: "?i * unat sz \<le> ?o" "?o < (?i + 1) * unat sz" "?j * 4096 \<le> ?o" "?o < (?j + 1) * 4096"
      using div_mult_mod_eq [of ?o "unat sz"] mod_less_divisor [OF c, of ?o]
        div_mult_mod_eq [of ?o 4096] mod_less_divisor [of 4096 ?o] by (simp_all only: distrib_right) linarith+
    then have "meets 4096 (unat sz) ?j ?i" unfolding meets_def by linarith
    from page_flags_safe [OF fast _ sz nc first cs refl x(2,3) this]
    have "?first \<le> ?i \<and> ?i < 256 \<and> ?tags ?i \<noteq> 0" by simp
    with o x(1) show "free_byte r sz ?first ?tags x"
      unfolding free_byte_def by (intro exI [of _ ?i]) linarith
  qed
qed

end
