(* ===== verification/Release_Inv.thy ===== *)
theory Release_Inv
  imports Free_Inv Fragment_Release
begin

text \<open>
  The periodic release keeps the invariant. A region whose chunks are all free leaves the ordered
  list, the list of freed regions and the counts; its pages and its part of the shadow go back to
  the kernel, which leaves a zeroed header: a slot that \<open>CTAllocateNewRegion\<close> may use again.
  A region with some free chunks loses pages that lie in free chunks only, never its header.
\<close>

section \<open>A region goes\<close>

lemma full_region:
  assumes k: "valid_class k" and slot: "region_slot k r" and ok: "region_tags_ok k info H r"
    and full: "length (free_list_of k info) = avail k" and x: "x \<in># H"
  shows "fst x \<notin> chunks k r"
proof
  assume c: "fst x \<in> chunks k r"
  have "free_list_of k info = idxs k"
    using full length_idxs [OF k] unfolding free_list_of_def free_idx_def
    by (metis filter_True filter_id_conv length_filter_less less_irrefl)
  then have "image_mset fst (free_pairs k info r) = mset (map (chunk k r) (idxs k))"
    by (simp add: free_pairs_def multiset.map_comp comp_def)
  with ok have "image_mset fst {#x \<in># H. fst x \<in> chunks k r#} = {#}"
    by (simp add: region_tags_ok_def region_content_def)
  then have "{#x \<in># H. fst x \<in> chunks k r#} = {#}" by simp
  moreover have "x \<in># {#x \<in># H. fst x \<in> chunks k r#}" using x c by simp
  ultimately show False by (simp only: set_mset_empty empty_iff)
qed

lemma class_core_drop:
  assumes k: "valid_class k" and core: "class_core k R N pl rl ci H ps (us @ r # ws) (pre @ r # post)"
    and full: "freed_num (R r) = of_nat (avail k)"
    and zero: "R' r = zero_region" and dl: "dll R' rl' (us @ ws)"
    and same: "\<And>q. q \<in> set (us @ ws) \<Longrightarrow> chunk_last_tag (R' q) = chunk_last_tag (R q) \<and> parent_pool (R' q) = parent_pool (R q) \<and>
      in_free_list (R' q) = in_free_list (R q) \<and> freed_num (R' q) = freed_num (R q) \<and> status (R' q) = status (R q)"
    and out: "\<And>q p. q \<notin> set us \<Longrightarrow> q \<notin> set ws \<Longrightarrow> q \<noteq> r \<Longrightarrow> p \<in> set ps \<Longrightarrow> in_pool k (pool_addr (N p)) q \<Longrightarrow> R' q = R q"
    and p: "p = parent_pool (R r)" and N': "N' = N(p := (N p)\<lparr>density := density (N p) - 1\<rparr>)"
    and ci': "ci' = ci\<lparr>free_chunk_num := free_chunk_num ci - of_nat (avail k),
      region_num := region_num ci - 1, free_region_num := free_region_num ci - 1\<rparr>"
  shows "class_core k R' N' pl rl' ci' H ps (us @ ws) (pre @ post)"
proof -
  let ?rs = "us @ r # ws"
  have parts: "pools_ok k N pl ps" "regions_ok k R N rl ps ?rs" "freed_flags k R ?rs (pre @ r # post)"
      "counts_ok k R ci ?rs (pre @ r # post)" "tags_ok k R H ?rs"
    using core by (simp_all add: class_core_def)
  have "dll R rl ?rs" using parts(2) by (simp only: regions_ok_def)
  then have dist: "distinct ?rs" by (rule dll_distinct)
  have ne: "q \<noteq> r" if "q \<in> set (us @ ws)" for q using dist that by auto
  have ne': "q \<noteq> r" if "q \<in> set (pre @ post)" for q using parts(3) that by (auto simp: freed_flags_def)
  have slot: "region_slot k r" by (rule class_core_slot [OF core]) simp
  have fl: "free_list_of k (R' q) = free_list_of k (R q)" if "q \<in> set (us @ ws)" for q
    using same [OF that] by (simp add: free_list_of_def)
  have len: "length (free_list_of k (R r)) = avail k"
  proof -
    have e: "of_nat (length (free_list_of k (R r))) = (of_nat (avail k) :: u8)"
      using parts(3) full by (simp add: freed_flags_def)
    have u: "unat (of_nat n :: u8) = n" if "n \<le> avail k" for n
    proof -
      have "n < 256" using that avail_bounds(2) [OF k] by linarith
      then show ?thesis by (simp add: unat_of_nat_small)
    qed
    show ?thesis
      using arg_cong [OF e, of unat] unfolding u [OF length_free_list [OF k, of "R r"]] u [OF order_refl] .
  qed
  have na: "pool_addr (N' x) = pool_addr (N x)" "pool_next (N' x) = pool_next (N x)" for x by (simp_all add: N')
  have F: "distinct (pre @ r # post)" "set (pre @ r # post) \<subseteq> set ?rs"
    using parts(3) unfolding freed_flags_def by blast+
  have sub: "set (pre @ post) \<subseteq> set (us @ ws)"
  proof
    fix q assume q: "q \<in> set (pre @ post)"
    then have "q \<in> set ?rs" using F(2) by auto
    with ne' [OF q] show "q \<in> set (us @ ws)" by simp
  qed
  have "pools_ok k N' pl ps" using parts(1) by (simp add: pools_ok_def na)
  moreover have "regions_ok k R' N' rl' ps (us @ ws)"
    unfolding regions_ok_def
  proof (intro conjI ballI allI impI)
    show "dll R' rl' (us @ ws)" by (rule dl)
    show "sorted (us @ ws)" using parts(2) by (auto simp: regions_ok_def sorted_append)
  next
    fix q assume q: "q \<in> set (us @ ws)"
    then show "status (R' q) = 1" "parent_pool (R' q) \<in> set ps" "in_pool k (pool_addr (N' (parent_pool (R' q)))) q"
      using parts(2) same [OF q] by (auto simp: regions_ok_def na)
  next
    fix x q assume x: "x \<in> set ps" and q: "in_pool k (pool_addr (N' x)) q \<and> q \<notin> set (us @ ws)"
    show "R' q = zero_region"
    proof (cases "q = r")
      case False
      with q x have "R' q = R q" by (intro out [of q x]) (simp_all add: na)
      with parts(2) q x False show ?thesis by (simp add: regions_ok_def na)
    qed (simp add: zero)
  next
    fix x assume x: "x \<in> set ps"
    have f: "filter (\<lambda>q. parent_pool (R' q) = x) qs = filter (\<lambda>q. parent_pool (R q) = x) qs"
      if "set qs \<subseteq> set (us @ ws)" for qs
      using same that by (intro filter_cong) auto
    show "density (N' x) = of_nat (length (filter (\<lambda>q. parent_pool (R' q) = x) (us @ ws)))"
      using parts(2) x f [of us] f [of ws] by (auto simp: regions_ok_def N' p)
  qed
  moreover have "freed_flags k R' (us @ ws) (pre @ post)"
  proof -
have "distinct (pre @ post)" using F(1) by simp
    moreover have "in_free_list (R' q) = (if q \<in> set (pre @ post) then 1 else 0) \<and>
        freed_num (R' q) = of_nat (length (free_list_of k (R' q))) \<and>
        (q \<in> set (pre @ post) \<longleftrightarrow> free_list_of k (R' q) \<noteq> [])" if q: "q \<in> set (us @ ws)" for q
    proof -
      have "in_free_list (R q) = (if q \<in> set (pre @ r # post) then 1 else 0) \<and>
          freed_num (R q) = of_nat (length (free_list_of k (R q))) \<and>
          (q \<in> set (pre @ r # post) \<longleftrightarrow> free_list_of k (R q) \<noteq> [])"
        using parts(3) q unfolding freed_flags_def by (elim conjE bspec) simp
      moreover have "q \<in> set (pre @ r # post) \<longleftrightarrow> q \<in> set (pre @ post)" using ne [OF q] by simp
      ultimately show ?thesis using same [OF q] fl [OF q] by (simp only:)
    qed
    ultimately show ?thesis using sub unfolding freed_flags_def by blast
  qed
  moreover have "counts_ok k R' ci' (us @ ws) (pre @ post)"
  proof -
    have m: "map (\<lambda>q. length (free_list_of k (R' q))) qs = map (\<lambda>q. length (free_list_of k (R q))) qs"
      if "set qs \<subseteq> set (pre @ post)" for qs
    proof (intro map_cong refl)
      fix q assume "q \<in> set qs"
      then have "q \<in> set (us @ ws)" using that sub by blast
      then show "length (free_list_of k (R' q)) = length (free_list_of k (R q))" by (simp only: fl)
    qed
    have s: "set pre \<subseteq> set (pre @ post)" "set post \<subseteq> set (pre @ post)" by auto
    have "free_chunks k R (pre @ r # post) = free_chunks k R' (pre @ post) + avail k"
      unfolding free_chunks_def map_append list.map m [of pre, OF s(1)] m [of post, OF s(2)] by (simp add: len)
    with parts(4) show ?thesis by (simp add: counts_ok_def ci')
  qed
  moreover have "tags_ok k R' H (us @ ws)"
    unfolding tags_ok_def
  proof (intro conjI ballI)
    fix q assume q: "q \<in> set (us @ ws)"
    have "region_content k (R' q) H q = region_content k (R q) H q"
      using same [OF q] by (simp add: region_content_def free_pairs_def free_list_of_def)
    with parts(5) q show "region_tags_ok k (R' q) H q" by (auto simp: tags_ok_def region_tags_ok_def)
  next
    fix x assume x: "x \<in># H"
    then obtain q where q: "q \<in> set ?rs" "fst x \<in> chunks k q" using parts(5) unfolding tags_ok_def by blast
    have "region_tags_ok k (R r) H r" using parts(5) by (simp add: tags_ok_def)
    from full_region [OF k slot this len x] q have "q \<in> set (us @ ws)" by auto
    with q show "\<exists>q\<in>set (us @ ws). fst x \<in> chunks k q" by blast
  qed
  ultimately show ?thesis by (simp add: class_core_def)
qed

section \<open>Shadow memory\<close>

lemma four_k: "(2 :: nat) ^ 12 = 4096"
  by simp

lemma RoundUpTo_page: "RoundUpTo x 4096 = Inr (round_up x 4096)"
  using RoundUpTo_exp [of 12 x] by simp

lemma IsAligned_page: "IsAligned x 4096 = Inr (aligned x 4096)"
  using IsAligned_exp [of 12 x] by simp

lemma shadow_bounds:
  assumes "env_ok G" "unat p \<le> 2 ^ 46"
  shows "unat (CTUntaggedPointerToShadow G p) = unat p div 16 + unat (ct_shadow_memory_dynamic_address G)"
    "2 ^ 45 \<le> unat (CTUntaggedPointerToShadow G p)" "unat (CTUntaggedPointerToShadow G p) + 2 ^ 44 \<le> 2 ^ 64"
proof -
  let ?d = "unat (ct_shadow_memory_dynamic_address G)"
  have e: "ct_ShadowScale G = of_nat kShadowScale" "2 ^ 45 \<le> ?d" "?d + 2 ^ 45 \<le> 2 ^ 64"
    using assms(1) by (auto simp: env_ok_def globals_ok_def)
  have s: "unat (of_nat kShadowScale :: uptr) = 4" by (simp add: kShadowScale_def)
  have d: "unat (drop_bit 4 p) = unat p div 16" by (simp add: unat_drop_bit)
  have le: "unat p div 16 \<le> 2 ^ 42" using assms(2) by (simp add: div_le_mono [of _ "2 ^ 46", simplified])
  have "unat (drop_bit 4 p + ct_shadow_memory_dynamic_address G) = unat p div 16 + ?d"
    using le e by (subst unat_add_small) (simp_all add: d)
  then show eq: "unat (CTUntaggedPointerToShadow G p) = unat p div 16 + ?d"
    by (simp add: CTUntaggedPointerToShadow_def e(1) s)
  show "2 ^ 45 \<le> unat (CTUntaggedPointerToShadow G p)" "unat (CTUntaggedPointerToShadow G p) + 2 ^ 44 \<le> 2 ^ 64"
    using e le by (simp_all add: eq)
qed

text \<open>The release of shadow changes addresses of the shadow only: no region header is among them.\<close>

lemma CTReleaseShadowMemory_only:
  assumes env: "env_ok G" and r: "unat r + unat n \<le> 2 ^ 46"
    and res: "CTReleaseShadowMemory G r n s = Inr s'"
  shows "only_in (\<lambda>x. 2 ^ 45 \<le> unat x) s s'"
proof -
  let ?d = "unat (ct_shadow_memory_dynamic_address G)"
  let ?lo = "RoundDownTo (CTUntaggedPointerToShadow G r) (2 ^ 12)"
    and ?hi = "round_up (CTUntaggedPointerToShadow G (r + n)) (2 ^ 12)"
  have page: "page_size G = 2 ^ 12" and dyn: "4096 dvd ?d" "2 ^ 45 \<le> ?d" using env by (simp_all add: env_ok_def)
  have rn: "unat (r + n) = unat r + unat n" using r by (subst unat_add_small) simp_all
  note S1 = shadow_bounds [OF env, of r] and S2 = shadow_bounds [OF env, of "r + n"]
  have lo: "unat ?lo = unat (CTUntaggedPointerToShadow G r) div 4096 * 4096"
    using unat_round_down [of "CTUntaggedPointerToShadow G r" 12] unfolding four_k .
  have hi: "unat ?hi = (unat (CTUntaggedPointerToShadow G (r + n)) + 4095) div 4096 * 4096"
    using S2 r rn by (subst unat_round_up) simp_all
  have "2 ^ 45 div 4096 * 4096 \<le> unat ?lo"
    unfolding lo using S1(2) r by (intro mult_le_mono1 div_le_mono) simp
  then have lo45: "2 ^ 45 \<le> unat ?lo" by simp
  have hi64: "unat ?hi \<le> 2 ^ 64" by (rule less_imp_le) (use unat_less_64 [of ?hi] in simp)
  have le: "unat ?lo \<le> unat ?hi"
  proof -
    have "unat (CTUntaggedPointerToShadow G r) \<le> unat (CTUntaggedPointerToShadow G (r + n)) + 4095"
      using S1(1) S2(1) r rn by (simp add: div_le_mono trans_le_add1)
    then show ?thesis unfolding lo hi by (intro mult_le_mono1 div_le_mono)
  qed
  have "s' = s \<or> CTAdvise G ?lo (?hi - ?lo) s = Inr s'"
    using res page unfolding CTReleaseShadowMemory_def Let_def
    by (simp add: RoundUpTo_page del: if_split) (simp split: if_splits)
  then show ?thesis
  proof
    assume a: "CTAdvise G ?lo (?hi - ?lo) s = Inr s'"
    have "unat (?hi - ?lo) = unat ?hi - unat ?lo" using le by (simp only: unat_sub word_le_nat_alt)
    then show ?thesis using le lo45 hi64 by (intro CTAdvise_only [OF a]) simp_all
  qed simp
qed

section \<open>A whole region\<close>

lemma slots_apart:
  assumes G: "globals_ok G" and k: "valid_class k" and r: "region_slot k r" and q: "region_slot k q"
    and a: "unat r \<le> unat q" "unat q < unat r + rsz k"
  shows "q = r"
proof -
  obtain p j where pj: "p < 1024" "j < 2 ^ 30 div rsz k"
      "unat r = (unat k + 1) * 2 ^ 40 + p * 2 ^ 30 + rsz k * j"
    using r by (auto simp: region_slot_def)
  obtain p' j' where pj': "p' < 1024" "j' < 2 ^ 30 div rsz k"
      "unat q = (unat k + 1) * 2 ^ 40 + p' * 2 ^ 30 + rsz k * j'"
    using q by (auto simp: region_slot_def)
  define y where "y = unat q - unat r"
  have c: "0 < csz k" by (rule csz_bounds(4) [OF k])
  have y: "unat q = unat r + (csz k * (y div csz k) + y mod csz k)" using a(1) by (simp add: y_def)
  have "y < csz k * 256" using a by (simp add: y_def rsz_def mult.commute)
  then have i: "y div csz k < 256" using c by (simp add: div_less_iff_less_mult mult.commute)
  have "y mod csz k < csz k" using c by simp
  from parse_chunk_address [OF G k pj(1,2) i this, of q] y obtain r1 where
    "unat r1 = unat r" "parseSmallChunkPtr G q = Inr \<lparr> superPoolID = k, poolID = of_nat p,
        chunkID = of_nat (y div csz k), chunk_size_of = Size SCM k, regionInfo = r1 \<rparr>"
    unfolding pj(3) by (auto simp: add.assoc)
  moreover from parse_chunk_address [OF G k pj'(1,2) _ c, of 0 q] obtain r2 where
    "unat r2 = unat q" "parseSmallChunkPtr G q = Inr \<lparr> superPoolID = k, poolID = of_nat p',
        chunkID = of_nat 0, chunk_size_of = Size SCM k, regionInfo = r2 \<rparr>"
    unfolding pj'(3) by auto
  ultimately have "unat q = unat r" by (metis Inr_inject small_chunk.ext_inject)
  then show ?thesis by (simp only: word_unat_eq_iff)
qed

lemma CTReleaseRegion_zero:
  assumes k: "valid_class k" and L: "layout_ok L" and r: "region_slot k r"
    and res: "CTReleaseRegion G L r k s = Inr s'"
  shows "machine.more s' = machine.more s"
    "unat r \<le> unat q \<Longrightarrow> unat q < unat r + rsz k \<Longrightarrow> RI s' q = zero_region"
    "\<not> (unat r \<le> unat q \<and> unat q < unat r + rsz k) \<Longrightarrow> RI s' q = RI s q"
proof -
  let ?n = "Size SCM k * 256"
  let ?s = "s\<lparr>RI := upd r (status_update (\<lambda>_. 0)) (RI s)\<rparr>"
  have n: "unat ?n = rsz k" by (rule unat_region_size [OF k])
  have b: "unat r + rsz k \<le> 2 ^ 46"
  proof -
    have "unat r + rsz k \<le> (unat k + 2) * 2 ^ 40" by (rule region_slot_bounds(2) [OF k r])
    also have "\<dots> \<le> 32 * 2 ^ 40" using k by (intro mult_le_mono1) (simp add: valid_class_unat)
    finally show ?thesis by simp
  qed
  have adv: "CTAdvise G r ?n ?s = Inr s'"
    using res by (auto simp: CTReleaseRegion_def andThen_eq_Inr Let_def layout_okD(3) [OF L k] check_def split: if_splits)
  have only: "only_in (\<lambda>q. unat r \<le> unat q \<and> unat q < unat r + rsz k) ?s s'"
    using b by (intro CTAdvise_only [OF adv]) (simp_all add: n)
  then show "machine.more s' = machine.more s" by (simp add: only_in_def)
  show "RI s' q = RI s q" if "\<not> (unat r \<le> unat q \<and> unat q < unat r + rsz k)"
  proof -
    have "q \<noteq> r" using that rsz_bounds(1) [OF k] by auto
    with only that show ?thesis by (simp add: only_in_def upd_def)
  qed
  show "RI s' q = zero_region" if "unat r \<le> unat q" "unat q < unat r + rsz k"
    using that b by (intro CTAdvise_zero(2) [OF adv]) (simp add: in_range_iff n)
qed

text \<open>What \<open>release_whole\<close> does to the headers, the lists and the counters.\<close>

definition unlinked :: "region_store \<Rightarrow> uptr \<Rightarrow> uptr \<Rightarrow> region_store" where
  "unlinked R prev cur =
     (let R1 = upd cur (in_free_list_update (\<lambda>_. 0)) R
      in if prev = 0 then R1 else set_freed_next prev (freed_next (R cur)) R1)"

lemma unlinked_same:
  "q \<noteq> cur \<Longrightarrow> chunk_last_tag (unlinked R prev cur q) = chunk_last_tag (R q) \<and>
     parent_pool (unlinked R prev cur q) = parent_pool (R q) \<and> in_free_list (unlinked R prev cur q) = in_free_list (R q) \<and>
     freed_num (unlinked R prev cur q) = freed_num (R q) \<and> status (unlinked R prev cur q) = status (R q)"
  "parent_pool (unlinked R prev cur cur) = parent_pool (R cur)"
  "ri_prev (unlinked R prev cur q) = ri_prev (R q)" "ri_next (unlinked R prev cur q) = ri_next (R q)"
  "q \<noteq> cur \<Longrightarrow> q \<noteq> prev \<or> prev = 0 \<Longrightarrow> unlinked R prev cur q = R q"
  by (auto simp: unlinked_def Let_def set_freed_next_def upd_def)

lemma unlinked_chain:
  assumes ch: "chain (\<lambda>p. freed_next (R p)) (head fl) (pre @ cur # post)" and prev: "prev = last (0 # pre)"
  shows "chain (\<lambda>p. freed_next (unlinked R prev cur p)) (if prev = 0 then freed_next (R cur) else head fl) (pre @ post)"
proof (cases pre rule: rev_cases)
  case Nil
  have d: "distinct (pre @ cur # post)" by (rule freed.chain_distinct [OF ch])
  have "chain (\<lambda>p. freed_next (unlinked R prev cur p)) h post = chain (\<lambda>p. freed_next (R p)) h post" for h
    using d prev Nil by (intro chain_cong) (auto simp: unlinked_def Let_def upd_def)
  with ch Nil prev show ?thesis by simp
next
  case (snoc us p)
  then have p: "prev = p" using prev by simp
  have nz: "p \<noteq> 0" using chain_nonnull [OF ch] snoc by auto
  have "chain (\<lambda>p. freed_next (R p)) (head fl) (us @ p # cur # post)" using ch snoc by simp
  from freed.chain_unlink [OF this]
  have "chain (\<lambda>q. freed_next (set_freed_next p (freed_next (R cur)) R q)) (head fl) (pre @ post)"
    using snoc by simp
  moreover have "freed_next (unlinked R prev cur q) = freed_next (set_freed_next p (freed_next (R cur)) R q)" for q
    using p nz by (simp add: unlinked_def Let_def set_freed_next_def upd_def)
  ultimately show ?thesis using p nz by simp
qed

lemma release_whole_eq:
  fixes s :: "'a ct_state_scheme"
  assumes L: "layout_ok L" and k: "valid_class k" and res: "release_whole G L k prev cur s = Inr s'"
  shows "\<exists>R3 l3 s3 s4. deleteFromList cur (unlinked (RI s) prev cur) (SuperPoolsRegionList s k) = (R3, l3) \<and>
    s3 = (if prev = 0 then s\<lparr>SuperPoolsFreedRegionList :=
          (SuperPoolsFreedRegionList s)(k := \<lparr> head = freed_next (RI s cur) \<rparr>)\<rparr> else s)
      \<lparr>RI := R3, SuperPoolsRegionList := (SuperPoolsRegionList s)(k := l3)\<rparr> \<and>
    CTReleaseShadowMemory G cur (Size SCM k * 256) s3 = Inr s4 \<and> parent_pool (RI s4 cur) \<noteq> 0 \<and>
    CTReleaseRegion G L cur k (s4\<lparr>PN := (PN s4)(parent_pool (RI s4 cur) :=
        (PN s4 (parent_pool (RI s4 cur)))\<lparr>density := density (PN s4 (parent_pool (RI s4 cur))) - 1\<rparr>),
      SuperPoolChunkInfo := (SuperPoolChunkInfo s4)(k := (SuperPoolChunkInfo s4 k)
        \<lparr>free_chunk_num := free_chunk_num (SuperPoolChunkInfo s4 k) - ucast (AvailableChunksInRegion L k),
         region_num := region_num (SuperPoolChunkInfo s4 k) - 1,
         free_region_num := free_region_num (SuperPoolChunkInfo s4 k) - 1\<rparr>)\<rparr>) = Inr s'"
proof -
  obtain R3 l3 where d: "deleteFromList cur (unlinked (RI s) prev cur) (SuperPoolsRegionList s k) = (R3, l3)"
    by (cases "deleteFromList cur (unlinked (RI s) prev cur) (SuperPoolsRegionList s k)")
  show ?thesis
    using res d layout_okD(3) [OF L k]
    by (cases "prev = 0") (auto simp: release_whole_def unlinked_def Let_def andThen_eq_Inr split: if_splits)
qed

lemma machine_more_fields:
  fixes s :: "'a ct_state_scheme"
  assumes "machine.more s' = machine.more s"
  shows "PN s' = PN s" "persistent s' = persistent s" "ct_state.more s' = ct_state.more s"
    "SuperPoolsPoolLinkedList s' = SuperPoolsPoolLinkedList s" "SuperPoolsRegionList s' = SuperPoolsRegionList s"
    "SuperPoolsFreedRegionList s' = SuperPoolsFreedRegionList s" "SuperPoolChunkInfo s' = SuperPoolChunkInfo s"
  using assms by (cases s; cases s'; simp)+

text \<open>The headers after the release, seen from the regions of the super pools.\<close>

lemma release_whole_headers:
  fixes s :: "'a ct_state_scheme"
  assumes env: "env_ok G" and k: "valid_class k" and L: "layout_ok L" and slot: "region_slot k cur"
    and res: "release_whole G L k prev cur s = Inr s'"
  shows "\<exists>R3 l3. deleteFromList cur (unlinked (RI s) prev cur) (SuperPoolsRegionList s k) = (R3, l3) \<and>
    (\<forall>q. unat cur \<le> unat q \<and> unat q < unat cur + rsz k \<longrightarrow> RI s' q = zero_region) \<and>
    (\<forall>q. \<not> (unat cur \<le> unat q \<and> unat q < unat cur + rsz k) \<and> unat q < 2 ^ 45 \<longrightarrow> RI s' q = R3 q) \<and>
    PN s' = (PN s)(parent_pool (R3 cur) := (PN s (parent_pool (R3 cur)))
      \<lparr>density := density (PN s (parent_pool (R3 cur))) - 1\<rparr>) \<and>
    persistent s' = persistent s \<and> ct_state.more s' = ct_state.more s \<and>
    SuperPoolsPoolLinkedList s' = SuperPoolsPoolLinkedList s \<and>
    SuperPoolsRegionList s' = (SuperPoolsRegionList s)(k := l3) \<and>
    SuperPoolsFreedRegionList s' = (if prev = 0
      then (SuperPoolsFreedRegionList s)(k := \<lparr> head = freed_next (RI s cur) \<rparr>) else SuperPoolsFreedRegionList s) \<and>
    SuperPoolChunkInfo s' = (SuperPoolChunkInfo s)(k := (SuperPoolChunkInfo s k)
      \<lparr>free_chunk_num := free_chunk_num (SuperPoolChunkInfo s k) - of_nat (avail k),
       region_num := region_num (SuperPoolChunkInfo s k) - 1,
       free_region_num := free_region_num (SuperPoolChunkInfo s k) - 1\<rparr>)"
proof -
  from release_whole_eq [OF L k res] obtain R3 l3 s3 s4 where
    d: "deleteFromList cur (unlinked (RI s) prev cur) (SuperPoolsRegionList s k) = (R3, l3)" and
    s3: "s3 = (if prev = 0 then s\<lparr>SuperPoolsFreedRegionList :=
          (SuperPoolsFreedRegionList s)(k := \<lparr> head = freed_next (RI s cur) \<rparr>)\<rparr> else s)
      \<lparr>RI := R3, SuperPoolsRegionList := (SuperPoolsRegionList s)(k := l3)\<rparr>" and
    sh: "CTReleaseShadowMemory G cur (Size SCM k * 256) s3 = Inr s4" and
    rel: "CTReleaseRegion G L cur k (s4\<lparr>PN := (PN s4)(parent_pool (RI s4 cur) :=
        (PN s4 (parent_pool (RI s4 cur)))\<lparr>density := density (PN s4 (parent_pool (RI s4 cur))) - 1\<rparr>),
      SuperPoolChunkInfo := (SuperPoolChunkInfo s4)(k := (SuperPoolChunkInfo s4 k)
        \<lparr>free_chunk_num := free_chunk_num (SuperPoolChunkInfo s4 k) - ucast (AvailableChunksInRegion L k),
         region_num := region_num (SuperPoolChunkInfo s4 k) - 1,
         free_region_num := free_region_num (SuperPoolChunkInfo s4 k) - 1\<rparr>)\<rparr>) = Inr s'" by blast
  have b: "unat cur + rsz k \<le> 2 ^ 45"
  proof -
    have "unat cur + rsz k \<le> (unat k + 2) * 2 ^ 40" by (rule region_slot_bounds(2) [OF k slot])
    also have "\<dots> \<le> 32 * 2 ^ 40" using k by (intro mult_le_mono1) (simp add: valid_class_unat)
    finally show ?thesis by simp
  qed
  have only: "only_in (\<lambda>x. 2 ^ 45 \<le> unat x) s3 s4"
    using b by (intro CTReleaseShadowMemory_only [OF env _ sh]) (simp add: unat_region_size [OF k])
  have m4: "machine.more s4 = machine.more s3" and R4: "\<And>q. unat q < 2 ^ 45 \<Longrightarrow> RI s4 q = R3 q"
    using only by (auto simp: only_in_def s3 not_le)
  have cur: "RI s4 cur = R3 cur" using b rsz_bounds(1) [OF k] by (intro R4) simp
  note Z = CTReleaseRegion_zero [OF k L slot rel]
  have av: "ucast (AvailableChunksInRegion L k) = (of_nat (avail k) :: u64)"
    using layout_okD(4) [OF L k] by (metis of_nat_unat ucast_id unat_ucast_8 word_unat_eq_iff)
  have M: "machine.more s' = machine.more (s4\<lparr>PN := (PN s4)(parent_pool (R3 cur) :=
        (PN s4 (parent_pool (R3 cur)))\<lparr>density := density (PN s4 (parent_pool (R3 cur))) - 1\<rparr>),
      SuperPoolChunkInfo := (SuperPoolChunkInfo s4)(k := (SuperPoolChunkInfo s4 k)
        \<lparr>free_chunk_num := free_chunk_num (SuperPoolChunkInfo s4 k) - of_nat (avail k),
         region_num := region_num (SuperPoolChunkInfo s4 k) - 1,
         free_region_num := free_region_num (SuperPoolChunkInfo s4 k) - 1\<rparr>)\<rparr>)"
    using Z(1) by (simp only: cur av)
  note F' = machine_more_fields [OF M] and F4 = machine_more_fields [OF m4]
  have R3': "RI s' q = R3 q" if "\<not> (unat cur \<le> unat q \<and> unat q < unat cur + rsz k)" "unat q < 2 ^ 45" for q
    using Z(3) [OF that(1)] R4 [OF that(2)] by simp
  show ?thesis
    by (intro exI [of _ R3] exI [of _ l3] conjI allI impI d)
      (use Z(2) R3' in \<open>simp_all add: F' F4 s3\<close>)
qed

lemma class_space_below: "valid_class k \<Longrightarrow> class_space k q \<Longrightarrow> unat q < 2 ^ 45"
proof -
  assume k: "valid_class k" and "class_space k q"
  then have "unat q < (unat k + 2) * 2 ^ 40" by (simp add: class_space_def)
  also have "\<dots> \<le> 32 * 2 ^ 40" using k by (intro mult_le_mono1) (simp add: valid_class_unat)
  finally show ?thesis by simp
qed

lemma release_whole_ok:
  fixes s :: "'a ct_state_scheme"
  assumes env: "env_ok G" and k: "valid_class k" and L: "layout_ok L"
    and inv: "class_ok k s H ps rs (pre @ cur # post)"
    and full: "freed_num (RI s cur) = AvailableChunksInRegion L k" and prev: "prev = last (0 # pre)"
    and res: "release_whole G L k prev cur s = Inr s'"
  shows "\<exists>rs'. class_ok k s' H ps rs' (pre @ post)" "others \<inter> set ps = {} \<Longrightarrow> frame k others s s'"
    "persistent s' = persistent s"
proof -
  have G: "globals_ok G" using env by (simp add: env_ok_def)
  have inv': "class_inv k (RI s) (PN s) (SuperPoolsPoolLinkedList s k) (SuperPoolsRegionList s k)
      (SuperPoolsFreedRegionList s k) (SuperPoolChunkInfo s k) H ps rs (pre @ cur # post)"
    using inv by (simp add: class_ok_def)
  have core: "class_core k (RI s) (PN s) (SuperPoolsPoolLinkedList s k) (SuperPoolsRegionList s k)
      (SuperPoolChunkInfo s k) H ps rs (pre @ cur # post)"
    and ch: "chain (\<lambda>p. freed_next (RI s p)) (head (SuperPoolsFreedRegionList s k)) (pre @ cur # post)"
    using inv' by (simp_all add: class_inv_def)
  note fs = class_inv_fs [OF inv']
  have cur: "cur \<in> set rs" and prev_in: "prev \<noteq> 0 \<Longrightarrow> prev \<in> set rs \<and> prev \<noteq> cur"
    using fs(1,3) prev by (cases pre rule: rev_cases; auto)+
  obtain us ws where rs: "rs = us @ cur # ws" using cur by (meson split_list)
  have slots: "region_slot k q" if "q \<in> set rs" for q by (rule class_inv_slot [OF inv' that])
  from release_whole_headers [OF env k L slots [OF cur] res] obtain R3 l3 where
    d: "deleteFromList cur (unlinked (RI s) prev cur) (SuperPoolsRegionList s k) = (R3, l3)" and
    Z: "\<And>q. unat cur \<le> unat q \<Longrightarrow> unat q < unat cur + rsz k \<Longrightarrow> RI s' q = zero_region" and
    K: "\<And>q. \<not> (unat cur \<le> unat q \<and> unat q < unat cur + rsz k) \<Longrightarrow> unat q < 2 ^ 45 \<Longrightarrow> RI s' q = R3 q" and
    N: "PN s' = (PN s)(parent_pool (R3 cur) := (PN s (parent_pool (R3 cur)))
      \<lparr>density := density (PN s (parent_pool (R3 cur))) - 1\<rparr>)" and
    P: "persistent s' = persistent s" "ct_state.more s' = ct_state.more s"
      "SuperPoolsPoolLinkedList s' = SuperPoolsPoolLinkedList s" and
    l3: "SuperPoolsRegionList s' = (SuperPoolsRegionList s)(k := l3)" and
    f: "SuperPoolsFreedRegionList s' = (if prev = 0
      then (SuperPoolsFreedRegionList s)(k := \<lparr> head = freed_next (RI s cur) \<rparr>) else SuperPoolsFreedRegionList s)" and
    ci: "SuperPoolChunkInfo s' = (SuperPoolChunkInfo s)(k := (SuperPoolChunkInfo s k)
      \<lparr>free_chunk_num := free_chunk_num (SuperPoolChunkInfo s k) - of_nat (avail k),
       region_num := region_num (SuperPoolChunkInfo s k) - 1,
       free_region_num := free_region_num (SuperPoolChunkInfo s k) - 1\<rparr>)" by blast
  show "persistent s' = persistent s" by (rule P)
  let ?U = "unlinked (RI s) prev cur"
  have "dll (RI s) (SuperPoolsRegionList s k) rs" using core by (simp add: class_core_def regions_ok_def)
  moreover have "dll ?U l xs = dll (RI s) l xs" for l xs by (rule dll_cong) (simp add: unlinked_same)
  ultimately have "dll ?U (SuperPoolsRegionList s k) (us @ cur # ws)" by (simp add: rs)
  from deleteFromList_dll [OF this d] have dl: "dll R3 l3 (us @ ws)" and lo: "links_only ?U R3"
    and chg: "changes_in (set us \<union> set ws) ?U R3" by simp_all
  note Lk = links_onlyD [OF lo]
  have pp: "parent_pool (R3 cur) = parent_pool (RI s cur)" by (simp add: Lk unlinked_same)
  have out: "\<not> (unat cur \<le> unat q \<and> unat q < unat cur + rsz k)" if "region_slot k q" "q \<noteq> cur" for q
    using slots_apart [OF G k slots [OF cur] that(1)] that(2) by blast
  have below: "unat q < 2 ^ 45" if "region_slot k q" for q
    by (rule class_space_below [OF k slot_space [OF k that]])
  have dist: "distinct (us @ cur # ws)" using fs(4) by (simp add: rs)
  have ne: "region_slot k q" "q \<noteq> cur" if "q \<in> set (us @ ws)" for q
    using that dist slots [of q] by (auto simp: rs)
  have RI3: "RI s' q = R3 q" if "q \<in> set (us @ ws)" for q
    using out [OF ne [OF that]] below [OF ne(1) [OF that]] by (rule K)
  have keep: "RI s' q = RI s q" if "region_slot k q" "q \<notin> set rs" for q
  proof -
    have "q \<noteq> cur" using that(2) cur by blast
    then have "RI s' q = R3 q" using out [OF that(1)] below [OF that(1)] by (intro K) simp_all
    moreover have "R3 q = ?U q" using chg that(2) by (auto simp: changes_in_def rs)
    moreover have "?U q = RI s q" using prev_in that(2) \<open>q \<noteq> cur\<close> by (intro unlinked_same(5)) auto
    ultimately show ?thesis by simp
  qed
  have "class_core k (RI s') (PN s') (SuperPoolsPoolLinkedList s k) l3 (SuperPoolChunkInfo s' k) H ps (us @ ws) (pre @ post)"
  proof (rule class_core_drop [OF k core [unfolded rs] _ _ _ _ _ refl])
    show "freed_num (RI s cur) = of_nat (avail k)"
      using full layout_okD(4) [OF L k, symmetric] by simp
    show "RI s' cur = zero_region" using rsz_bounds(1) [OF k] by (intro Z) simp_all
    show "dll (RI s') l3 (us @ ws)"
    proof -
      have "dll (RI s') l3 (us @ ws) = dll R3 l3 (us @ ws)" by (rule dll_cong) (simp only: RI3)
      with dl show ?thesis by (simp only:)
    qed
    show "PN s' = (PN s)(parent_pool (RI s cur) := (PN s (parent_pool (RI s cur)))
        \<lparr>density := density (PN s (parent_pool (RI s cur))) - 1\<rparr>)" by (simp only: N pp)
  next
    fix q p assume "q \<notin> set us" "q \<notin> set ws" "q \<noteq> cur" "p \<in> set ps" "in_pool k (pool_addr (PN s p)) q"
    then show "RI s' q = RI s q"
      using core in_pool_slot by (intro keep) (auto simp: rs class_core_def pools_ok_def)
  qed (use RI3 ne in \<open>simp_all add: Lk unlinked_same ci\<close>)
  moreover have "chain (\<lambda>p. freed_next (RI s' p)) (head (SuperPoolsFreedRegionList s' k)) (pre @ post)"
  proof -
    have "set (pre @ post) \<subseteq> set (us @ ws)" using fs(1,3) by (auto simp: rs)
    then have "chain (\<lambda>p. freed_next (RI s' p)) h (pre @ post) = chain (\<lambda>p. freed_next (?U p)) h (pre @ post)" for h
      by (intro chain_cong) (simp only: subsetD RI3 Lk)
    moreover have "head (SuperPoolsFreedRegionList s' k) =
        (if prev = 0 then freed_next (RI s cur) else head (SuperPoolsFreedRegionList s k))" by (simp add: f)
    ultimately show ?thesis using unlinked_chain [OF ch prev] by simp
  qed
  ultimately show "\<exists>rs'. class_ok k s' H ps rs' (pre @ post)"
    unfolding class_ok_def class_inv_def by (intro exI [of _ "us @ ws"]) (simp add: P l3)
  assume others: "others \<inter> set ps = {}"
  have "parent_pool (RI s cur) \<in> set ps" using core cur by (simp add: class_core_def regions_ok_def)
  then have "PN s' q = PN s q" if "q \<in> others" for q using that others by (auto simp: N pp)
  moreover have "RI s' q = RI s q" if v: "valid_class k'" "k' \<noteq> k" "class_space k' q" for k' q
  proof -
    have "\<not> class_space k q" using v space_disjoint by blast
    then have o: "\<not> (unat cur \<le> unat q \<and> unat q < unat cur + rsz k)" "q \<notin> set rs"
      using region_slot_bounds [OF k slots [OF cur]] slot_space [OF k slots] by (auto simp: class_space_def)
    then have "q \<noteq> cur" using cur by blast
    have "RI s' q = R3 q" using o(1) class_space_below [OF v(1,3)] by (rule K)
    moreover have "R3 q = ?U q" using chg o(2) by (auto simp: changes_in_def rs)
    moreover have "?U q = RI s q" using prev_in o(2) \<open>q \<noteq> cur\<close> by (intro unlinked_same(5)) auto
    ultimately show ?thesis by simp
  qed
  ultimately show "frame k others s s'" unfolding frame_def by (auto simp: P l3 f ci)
qed

end
