(* ===== verification/Release_All.thy ===== *)
theory Release_All
  imports Release_Inv
begin

text \<open>
  The walk of \<open>CTReleasePeriodically\<close> over the list of freed regions, and with it the whole path of
  a deallocation: both keep the invariant of every super pool.
\<close>

section \<open>Some pages of a region\<close>

lemma release_fragment_ok:
  fixes s :: "'a ct_state_scheme"
  assumes env: "env_ok G" and k: "valid_class k" and L: "layout_ok L" and inv: "class_ok k s H ps rs fs"
    and cur: "cur \<in> set rs" and nc: "unat nc * 4096 = rsz k"
    and fast: "check_fast_release_path 4096 (Size SCM k) = Inr (full, same)"
    and res: "CTReleaseRegionFragment G nc (Size SCM k) full same (AvailableChunksInRegion L k) cur 12 s = Inr s'"
  shows "class_ok k s' H ps rs fs" "frame k others s s'" "persistent s' = persistent s"
proof -
  have G: "globals_ok G" and page: "page_size G = 4096" using env by (simp_all add: env_ok_def)
  have slot: "region_slot k cur" by (rule class_inv_slot [OF inv [unfolded class_ok_def] cur])
  note b = region_slot_bounds [OF k slot] and av = layout_okD(4) [OF L k] and a = avail_bounds [OF k]
  have sz: "unat (Size SCM k) = csz k" by (simp add: csz_def)
  have c: "0 < csz k" by (rule csz_bounds(4) [OF k])
  let ?T = "free_byte cur (Size SCM k) (256 - unat (AvailableChunksInRegion L k)) (chunk_last_tag (RI s cur))"
  have "unat nc \<le> 2 ^ 20" "unat cur + (unat nc + 1) * 4096 \<le> 2 ^ 64"
  proof -
    have "unat nc * 4096 \<le> 2 ^ 24" using nc rsz_bounds(2) [OF k] by simp
    then show nc20: "unat nc \<le> 2 ^ 20" by simp
    have "unat cur < 2 ^ 45" by (rule class_space_below [OF k slot_space [OF k slot]])
    with nc20 show "unat cur + (unat nc + 1) * 4096 \<le> 2 ^ 64" by simp
  qed
  moreover have "4096 dvd unat cur" using b(3) by (rule dvd_trans [rotated]) simp
  ultimately have only: "only_in ?T s s'"
    using csz_bounds(2) [OF k] a(1) av by (intro CTReleaseRegionFragment_ok [OF page _ _ fast _ _ _ res]) (simp_all add: sz)
  have T: "unat cur < unat q \<and> unat q < unat cur + rsz k" if "?T q" for q
  proof -
    from that obtain i where i: "256 - avail k \<le> i" "i < 256" "unat cur + i * csz k \<le> unat q"
        "unat q < unat cur + (i + 1) * csz k" by (auto simp: free_byte_def av sz)
    have "1 * csz k \<le> i * csz k" using i(1) a(2) by (intro mult_le_mono1) simp
    moreover have "(i + 1) * csz k \<le> 256 * csz k" using i(2) by (intro mult_le_mono1) simp
    ultimately show ?thesis using i(3,4) c unfolding rsz_def by linarith
  qed
  have keep: "RI s' q = RI s q" if "region_slot k q" for q
  proof -
    have "\<not> ?T q" using T [of q] slots_apart [OF G k slot that] by fastforce
    then show ?thesis using only by (simp add: only_in_def)
  qed
  have other: "RI s' q = RI s q" if v: "valid_class k'" "k' \<noteq> k" "class_space k' q" for k' q
  proof -
    have "\<not> class_space k q" using v space_disjoint by blast
    then have "\<not> ?T q" using T [of q] b by (auto simp: class_space_def)
    then show ?thesis using only by (simp add: only_in_def)
  qed
  have m: "machine.more s' = machine.more s" using only by (simp add: only_in_def)
  note F = machine_more_fields [OF m]
  show "persistent s' = persistent s" by (rule F)
  show "frame k others s s'" using other by (auto simp: frame_def F)
  note inv' = inv [unfolded class_ok_def]
  show "class_ok k s' H ps rs fs"
    unfolding class_ok_def F
  proof (rule class_inv_cong [OF inv'])
    fix r p assume "p \<in> set ps" "in_pool k (pool_addr (PN s p)) r"
    then show "RI s' r = RI s r"
      using inv' in_pool_slot by (intro keep) (auto simp: class_inv_parts pools_ok_def)
  qed simp
qed

section \<open>The walk\<close>

lemma release_loop_ok:
  fixes s :: "'a ct_state_scheme"
  assumes env: "env_ok G" and k: "valid_class k" and L: "layout_ok L"
    and nc: "unat nc * 4096 = rsz k" and fast: "check_fast_release_path 4096 (Size SCM k) = Inr (full, same)"
    and others: "others \<inter> set ps = {}"
  shows "class_ok k s H ps rs (pre @ post) \<Longrightarrow> prev = last (0 # pre) \<Longrightarrow>
    cur = (case post of [] \<Rightarrow> 0 | q # _ \<Rightarrow> q) \<Longrightarrow>
    release_loop G L k nc full same 12 n prev cur s = Inr s' \<Longrightarrow>
    (\<exists>rs' fs'. class_ok k s' H ps rs' fs') \<and> frame k others s s' \<and> persistent s' = persistent s"
proof (induction n arbitrary: s rs pre post prev cur)
  case (Suc n)
  note Lk = layout_okD [OF L k]
  have inv: "class_inv k (RI s) (PN s) (SuperPoolsPoolLinkedList s k) (SuperPoolsRegionList s k)
      (SuperPoolsFreedRegionList s k) (SuperPoolChunkInfo s k) H ps rs (pre @ post)"
    using Suc.prems(1) by (simp add: class_ok_def)
  note fs = class_inv_fs [OF inv]
  show ?case
  proof (cases post)
    case Nil
    with Suc.prems show ?thesis by auto
  next
    case (Cons q post')
    then have cur: "cur = q" "cur \<noteq> 0" "cur \<in> set rs" using Suc.prems(3) fs by auto
    have nxt: "freed_next (RI s cur) = (case post' of [] \<Rightarrow> 0 | q # _ \<Rightarrow> q)"
      using inv Cons cur(1) chain_next by (auto simp: class_inv_def)
    have inv_c: "class_ok k s H ps rs (pre @ cur # post')" using Suc.prems(1) Cons cur(1) by simp
    have step: ?thesis
      if st: "release_loop G L k nc full same 12 n cur (freed_next (RI s1 cur)) s1 = Inr s'"
        "class_ok k s1 H ps rs (pre @ cur # post')" "frame k others s s1" "persistent s1 = persistent s"
      for s1 :: "'a ct_state_scheme"
    proof -
      have "freed_next (RI s1 cur) = (case post' of [] \<Rightarrow> 0 | q # _ \<Rightarrow> q)"
        using st(2) chain_next by (auto simp: class_ok_def class_inv_def)
      from Suc.IH [OF _ _ this st(1), of rs "pre @ [cur]"] st(2-4) show ?thesis
        by (auto intro: frame_trans)
    qed
    consider (whole) "freed_num (RI s cur) = AvailableChunksInRegion L k"
      | (part) s1 where "CTReleaseRegionFragment G nc (Size SCM k) full same (AvailableChunksInRegion L k) cur 12 s = Inr s1"
        "release_loop G L k nc full same 12 n cur (freed_next (RI s1 cur)) s1 = Inr s'"
      | (skip) "release_loop G L k nc full same 12 n cur (freed_next (RI s cur)) s = Inr s'"
      using Suc.prems(4) cur(2) by (auto simp: Let_def andThen_eq_Inr Lk split: if_splits)
    then show ?thesis
    proof cases
      case whole
      then obtain s1 where s1: "release_whole G L k prev cur s = Inr s1"
          "release_loop G L k nc full same 12 n prev (freed_next (RI s cur)) s1 = Inr s'"
        using Suc.prems(4) cur(2) by (auto simp: Let_def andThen_eq_Inr)
      note W = release_whole_ok [OF env k L inv_c whole Suc.prems(2) s1(1)]
      obtain rs' where "class_ok k s1 H ps rs' (pre @ post')" using W(1) by blast
      from Suc.IH [OF this Suc.prems(2) nxt s1(2)] W(2) [OF others] W(3) show ?thesis
        by (auto intro: frame_trans)
    next
      case part
      note F = release_fragment_ok [OF env k L inv_c cur(3) nc fast part(1)]
      show ?thesis by (rule step [OF part(2) F])
    next
      case skip
      show ?thesis by (rule step [OF skip inv_c frame_refl refl])
    qed
  qed
qed simp

section \<open>The periodic release and the deallocation\<close>

lemma num_counters:
  assumes "valid_class k"
  shows "unat (RoundUpDivide (Size SCM k * 256) 4096) * 4096 = rsz k"
    "0 < unat (RoundUpDivide (Size SCM k * 256) 4096)" "unat (RoundUpDivide (Size SCM k * 256) 4096) \<le> 2 ^ 16"
proof -
  note r = rsz_bounds [OF assms]
  have "unat (RoundUpDivide (Size SCM k * 256) 4096) = (rsz k + 4095) div 4096"
    using r(2) by (subst RoundUpDivide_nat) (simp_all add: unat_region_size [OF assms])
  moreover have d: "4096 dvd rsz k" using r(3) by (rule dvd_trans [rotated]) simp
  moreover have "(rsz k + 4095) div 4096 = rsz k div 4096" using d by auto
  ultimately have u: "unat (RoundUpDivide (Size SCM k * 256) 4096) = rsz k div 4096" by simp
  show "unat (RoundUpDivide (Size SCM k * 256) 4096) * 4096 = rsz k" using d by (simp add: u)
  then show "0 < unat (RoundUpDivide (Size SCM k * 256) 4096)" "unat (RoundUpDivide (Size SCM k * 256) 4096) \<le> 2 ^ 16"
    using r(1,2) by auto
qed

lemma persistent_free_ok:
  assumes "pers_ok pa (insert p nodes)" "last_loc pa = p" "p = cur_loc pa0" "pers_ok pa0 nodes"
    "base_addr pa = base_addr pa0" "end_addr pa = end_addr pa0"
    "CTPersistentAllocatorFree p False pa = Inr pa'"
  shows "pers_ok pa' nodes"
  using assms by (auto simp: CTPersistentAllocatorFree_def pers_ok_def Let_def split: if_splits)

lemma CTReleasePeriodically_ok:
  fixes s :: "'a ct_state_scheme"
  assumes env: "env_ok G" and k: "valid_class k" and L: "layout_ok L" and inv: "class_ok k s H ps rs fs"
    and pers: "pers_ok (persistent s) nodes" and others: "others \<inter> set ps = {}"
    and res: "CTReleasePeriodically G L k s = Inr s'"
  shows "\<exists>rs' fs'. class_ok k s' H ps rs' fs'" "frame k others s s'" "pers_ok (persistent s') nodes"
proof -
  note Lk = layout_okD [OF L k] and N = num_counters [OF k]
  have page: "page_size G = 4096" using env by (simp add: env_ok_def)
  have log: "San_Log2 4096 = Inr 12" by code_simp
  let ?nc = "RoundUpDivide (Size SCM k * 256) 4096"
  obtain full same where fast: "check_fast_release_path 4096 (Size SCM k) = Inr (full, same)"
    using res by (auto simp: CTReleasePeriodically_def Let_def andThen_eq_Inr page Lk split: if_splits)
  obtain p s1 where p: "persistent_allocate ?nc s = Inr (p, s1)"
    using res by (auto simp: CTReleasePeriodically_def Let_def andThen_eq_Inr page Lk split: if_splits)
  have sh: "(ucast (12 :: uptr) :: u8) = 12" by simp
  obtain s2 where w: "release_loop G L k ?nc full same (ucast (12 :: uptr)) (loop_fuel G) 0
        (head (SuperPoolsFreedRegionList s1 k)) s1 = Inr s2"
    and fr: "persistent_free p s2 = Inr s'"
    using res by (auto simp: CTReleasePeriodically_def Let_def andThen_eq_Inr page Lk log fast p split: if_splits)
  from persistent_allocate_ok [OF pers N(2,3) p] obtain m pa where
    s1: "s1 = s\<lparr>mem := m, persistent := pa\<rparr>" and pa: "pers_ok pa (insert p nodes)" "last_loc pa = p"
      "base_addr pa = base_addr (persistent s)" "end_addr pa = end_addr (persistent s)"
      and pc: "p = cur_loc (persistent s)" by blast
  have inv1: "class_ok k s1 H ps rs ([] @ fs)"
    using inv by (simp add: s1 class_ok_def)
  have hd: "head (SuperPoolsFreedRegionList s1 k) = (case fs of [] \<Rightarrow> 0 | q # _ \<Rightarrow> q)"
    using inv chain_head by (auto simp: s1 class_ok_def class_inv_def)
  from release_loop_ok [OF env k L N(1) fast others inv1 _ hd w [unfolded sh]]
  obtain rs' fs' where R: "class_ok k s2 H ps rs' fs'" "frame k others s1 s2" "persistent s2 = persistent s1"
    by auto
  obtain pa' where pa': "CTPersistentAllocatorFree p False (persistent s2) = Inr pa'" "s' = s2\<lparr>persistent := pa'\<rparr>"
    using fr by (auto simp: persistent_free_def andThen_eq_Inr)
  have "persistent s2 = pa" using R(3) by (simp add: s1)
  then show "pers_ok (persistent s') nodes"
    using persistent_free_ok [OF pa(1,2) pc pers pa(3,4)] pa' by simp
  show "\<exists>rs' fs'. class_ok k s' H ps rs' fs'"
    using R(1) by (auto simp: pa'(2) class_ok_def)
  show "frame k others s s'" using R(2) by (auto simp: pa'(2) s1 frame_def)
qed

lemma class_ok_time:
  "class_ok k (s\<lparr>SuperPoolChunkInfo := (SuperPoolChunkInfo s)(k := (SuperPoolChunkInfo s k)\<lparr>last_release_at_ns := x\<rparr>)\<rparr>) H ps rs fs
     = class_ok k s H ps rs fs"
  by (simp add: class_ok_def class_inv_def class_core_def counts_ok_def)

lemma MonotonicNanoTime_clock: "\<exists>c. snd (MonotonicNanoTime s) = s\<lparr>clock_pos := c\<rparr>"
  by (auto simp: MonotonicNanoTime_def Let_def)

lemma maybe_release_ok:
  fixes s :: "'a ct_state_scheme"
  assumes env: "env_ok G" and k: "valid_class k" and L: "layout_ok L" and inv: "class_ok k s H ps rs fs"
    and pers: "pers_ok (persistent s) nodes" and others: "others \<inter> set ps = {}"
    and res: "maybe_release G L k s = Inr s'"
  shows "(\<exists>rs' fs'. class_ok k s' H ps rs' fs') \<and> frame k others s s' \<and> pers_ok (persistent s') nodes"
proof -
  obtain now c where n: "MonotonicNanoTime s = (now, s\<lparr>clock_pos := c\<rparr>)"
    using MonotonicNanoTime_clock [of s] by (cases "MonotonicNanoTime s") auto
  have inv1: "class_ok k (s\<lparr>clock_pos := c\<rparr>) H ps rs fs" using inv by (simp add: class_ok_def)
  have fr1: "frame k others s (s\<lparr>clock_pos := c\<rparr>)" by (simp add: frame_def)
  consider (same) "s' = s" | (clock) "s' = s\<lparr>clock_pos := c\<rparr>"
    | (released) s2 now' s3 where "CTReleasePeriodically G L k (s\<lparr>clock_pos := c\<rparr>) = Inr s2"
      "s3 = snd (MonotonicNanoTime s2)" "now' = fst (MonotonicNanoTime s2)"
      "s' = s3\<lparr>SuperPoolChunkInfo := (SuperPoolChunkInfo s3)(k := (SuperPoolChunkInfo s3 k)\<lparr>last_release_at_ns := now'\<rparr>)\<rparr>"
    using res by (auto simp: maybe_release_def n Let_def andThen_eq_Inr case_prod_unfold split: if_splits)
  then show ?thesis
  proof cases
    case same with inv pers show ?thesis by auto
  next
    case clock with inv1 pers fr1 show ?thesis by auto
  next
    case released
    have pers1: "pers_ok (persistent (s\<lparr>clock_pos := c\<rparr>)) nodes" using pers by simp
    note P = CTReleasePeriodically_ok [OF env k L inv1 pers1 others released(1)]
    obtain c' where s3: "s3 = s2\<lparr>clock_pos := c'\<rparr>"
      using MonotonicNanoTime_clock [of s2] released(2) by auto
    have "frame k others s2 s'" by (auto simp: released(4) s3 frame_def)
    with P(2) fr1 have "frame k others s s'" by (blast intro: frame_trans)
    moreover have "\<exists>rs' fs'. class_ok k s' H ps rs' fs'"
      using P(1) unfolding released(4) class_ok_time by (simp add: s3 class_ok_def)
    ultimately show ?thesis using P(3) by (simp add: released(4) s3)
  qed
qed

text \<open>A chunk the program holds comes back: one pair leaves the program's hands.\<close>

lemma CTDeallocateSmall_ok:
  assumes env: "env_ok G" and L: "layout_ok L" and k: "valid_class k" and h: "heap_parts s live P nodes"
    and a: "(a, t) \<in># live k" and res: "CTDeallocateCache G L t a s = Inr s'"
  shows "heap_parts s' (live(k := live k - {#(a, t)#})) P nodes"
proof -
  have G: "globals_ok G" using env by (simp add: env_ok_def)
  let ?c = "ct_per_class s k" and ?o = "nodes - set (P k)"
  obtain rs fs where cl: "class_ok k s (mset (cached ?c) + live k) (P k) rs fs"
    and pers: "pers_ok (persistent s) nodes" and nodes: "set (P k) \<subseteq> nodes" and len: "unat (pc_count ?c) \<le> 511"
    using h k unfolding heap_parts_def by blast
  have "(a, t) \<in># mset (cached ?c) + live k" using a by simp
  from note_free_ok [OF G k cl this, of ?o] obtain q fs' where
    q: "parseSmallChunkPtr G a = Inr q" "superPoolID q = k" "isSmallChunk G a" and
    cl1: "class_ok k (note_free k q t s) (mset (cached ?c) + live k - {#(a, t)#}) (P k) rs fs'" and
    fr1: "frame k ?o s (note_free k q t s)" and p1: "persistent (note_free k q t s) = persistent s" by blast
  have m: "maybe_release G L k (note_free k q t s) = Inr s'"
    using res q by (simp add: CTDeallocateCache_def CTDeallocateSmallChunk_def)
  have pers1: "pers_ok (persistent (note_free k q t s)) nodes" using pers by (simp add: p1)
  from maybe_release_ok [OF env k L cl1 pers1 _ m, of ?o] obtain rs2 fs2 where
    cl2: "class_ok k s' (mset (cached ?c) + live k - {#(a, t)#}) (P k) rs2 fs2"
    and fr2: "frame k ?o (note_free k q t s) s'" and pers2: "pers_ok (persistent s') nodes" by blast
  have fr: "frame k ?o s s'" by (rule frame_trans [OF fr1 fr2])
  have "class_ok k s' (mset (cached ?c) + (live k - {#(a, t)#})) (P k) rs2 fs2" using cl2 a by simp
  from heap_parts_step [OF h k this len pers2 nodes _ fr]
  have "heap_parts (s'\<lparr>ct_per_class := (ct_per_class s')(k := ct_per_class s' k)\<rparr>)
      (live(k := live k - {#(a, t)#})) (P(k := P k)) nodes"
    by (simp add: frame_cache [OF fr])
  moreover have "s'\<lparr>ct_per_class := (ct_per_class s')(k := ct_per_class s' k)\<rparr> = s'" by (cases s') simp
  ultimately show ?thesis by (simp only: fun_upd_triv)
qed

end
