(* ===== verification/Heap_Safety.thy ===== *)
theory Heap_Safety
  imports Release_All
begin

text \<open>
  The allocator as a state machine. A configuration is the state of the runtime and the multiset
  of the tagged pointers the program holds; its steps are allocations of small chunks and
  deallocations of pointers the program holds, in any order. The invariant of all super pools is
  established by \<open>init_for_clustertag\<close> and kept by every step, and it gives the two guarantees of
  ClusterTag: no two live pointers share memory, and live pointers into the same region have
  different tags, none of them 0.
\<close>

section \<open>What the invariant gives\<close>

lemma class_ok_region:
  assumes "class_ok k s H ps rs fs" "x \<in># H"
  obtains r where "r \<in> set rs" "fst x \<in> chunks k r" "region_tags_ok k (RI s r) H r" "region_slot k r"
proof -
  have inv: "class_inv k (RI s) (PN s) (SuperPoolsPoolLinkedList s k) (SuperPoolsRegionList s k)
      (SuperPoolsFreedRegionList s k) (SuperPoolChunkInfo s k) H ps rs fs"
    using assms(1) by (simp add: class_ok_def)
  then have t: "tags_ok k (RI s) H rs" by (simp add: class_inv_parts)
  with assms(2) obtain r where "r \<in> set rs" "fst x \<in> chunks k r" unfolding tags_ok_def by blast
  with t class_inv_slot [OF inv] that show thesis unfolding tags_ok_def by blast
qed

text \<open>Each chunk is out at most once.\<close>

lemma class_ok_once:
  assumes k: "valid_class k" and inv: "class_ok k s H ps rs fs"
  shows "uniq (image_mset fst H)"
  unfolding uniq_def
proof
  fix a
  show "count (image_mset fst H) a \<le> 1"
  proof (cases "a \<in># image_mset fst H")
    case False
    then have "count (image_mset fst H) a = 0" by (simp only: count_eq_zero_iff not_False_eq_True)
    then show ?thesis by linarith
  next
    case True
    then obtain x where x: "x \<in># H" "a = fst x" by auto
    from class_ok_region [OF inv x(1)] obtain r where
      r: "fst x \<in> chunks k r" "region_tags_ok k (RI s r) H r" "region_slot k r" by blast
    have "image_mset fst {#y \<in># H. fst y \<in> chunks k r#} = {#b \<in># image_mset fst H. b \<in> chunks k r#}"
      by (simp add: filter_mset_image_mset)
    then have "count (image_mset fst H) a = count (image_mset fst {#y \<in># H. fst y \<in> chunks k r#}) a"
      using r(1) x(2) by simp
    also have "\<dots> \<le> count (image_mset fst (region_content k (RI s r) H r)) a"
      by (simp add: region_content_def)
    also have "\<dots> \<le> 1"
      using r(2) count_chunks_le [OF k r(3)] by (simp only: region_tags_ok_def)
    finally show ?thesis .
  qed
qed

text \<open>The tags of two chunks of one region differ, and no tag is 0.\<close>

lemma class_ok_tags:
  assumes k: "valid_class k" and inv: "class_ok k s H ps rs fs" and x: "(a, t) \<in># H"
  shows "t \<noteq> 0" "(b, u) \<in># H \<Longrightarrow> a \<noteq> b \<Longrightarrow> region_slot k r \<Longrightarrow> a \<in> chunks k r \<Longrightarrow> b \<in> chunks k r \<Longrightarrow> t \<noteq> u"
proof -
  from class_ok_region [OF inv x] obtain q where
    q: "a \<in> chunks k q" "region_tags_ok k (RI s q) H q" "region_slot k q" by auto
  let ?F = "{#y \<in># H. fst y \<in> chunks k q#}"
  have in_F: "(a, t) \<in># ?F" using x q(1) by simp
  then have "t \<in># image_mset snd (region_content k (RI s q) H q)"
    by (force simp: region_content_def image_iff)
  with q(2) show "t \<noteq> 0" by (auto simp: region_tags_ok_def)
  show "t \<noteq> u" if y: "(b, u) \<in># H" "a \<noteq> b" "region_slot k r" "a \<in> chunks k r" "b \<in> chunks k r"
  proof
    assume "t = u"
    have "r = q" by (rule chunks_disjoint [OF k y(3) q(3) y(4) q(1)])
    with y have "(b, t) \<in># ?F - {#(a, t)#}" using \<open>t = u\<close> by (simp add: in_diff_count)
    then obtain F' where "?F - {#(a, t)#} = add_mset (b, t) F'" by (blast dest: multi_member_split)
    then have "?F = add_mset (a, t) (add_mset (b, t) F')" using insert_DiffM [OF in_F] by simp
    then have "image_mset snd ?F = add_mset t (add_mset t (image_mset snd F'))" by (simp only: image_mset_add_mset snd_conv)
    then have "2 \<le> count (image_mset snd ?F) t" by simp
    also have "\<dots> \<le> count (image_mset snd (region_content k (RI s q) H q)) t"
      by (simp add: region_content_def)
    also have "\<dots> \<le> 1" using q(2) by (simp only: region_tags_ok_def uniq_def)
    finally show False by simp
  qed
qed

section \<open>The state machine\<close>

text \<open>\<open>tagged\<close> are the pointers behind the pairs the program holds in the classes.\<close>

definition classes :: "uptr set" where "classes = {k. valid_class k}"

definition tagged :: "(uptr \<Rightarrow> (uptr \<times> u8) multiset) \<Rightarrow> uptr multiset" where
  "tagged live = (\<Sum>k\<in>classes. image_mset (\<lambda>(a, t). AddTagToPointer a t) (live k))"

definition held_ok :: "'a cache_state_scheme \<Rightarrow> uptr multiset \<Rightarrow> bool" where
  "held_ok s M \<longleftrightarrow> (\<exists>live. heap_ok s live \<and> M = tagged live)"

text \<open>A request that is served from the super pools.\<close>

definition small_request :: "uptr \<Rightarrow> uptr \<Rightarrow> bool" where
  "small_request sz alignment \<longleftrightarrow>
     (let sz = (if sz = 0 then 1 else sz) in
      case (if 8 < alignment then RoundUpTo sz alignment else Inr sz) of
        Inl _ \<Rightarrow> False | Inr sz \<Rightarrow> 0 < sz \<and> CanAllocate sz alignment)"

inductive step ::
    "ct_globals \<Rightarrow> layout \<Rightarrow> cache_state \<times> uptr multiset \<Rightarrow> cache_state \<times> uptr multiset \<Rightarrow> bool"
  for G L where
  malloc: "small_request sz alignment \<Longrightarrow> CTAllocateCombined G L sz alignment s = Inr (p, s') \<Longrightarrow> p \<noteq> 0 \<Longrightarrow>
    step G L (s, M) (s', add_mset p M)"
| malloc_null: "small_request sz alignment \<Longrightarrow> CTAllocateCombined G L sz alignment s = Inr (0, s') \<Longrightarrow>
    step G L (s, M) (s', M)"
| free: "p \<in># M \<Longrightarrow> CTDeallocateCombined G L p s = Inr s' \<Longrightarrow> step G L (s, M) (s', M - {#p#})"

inductive reach ::
    "ct_globals \<Rightarrow> layout \<Rightarrow> cache_state \<times> uptr multiset \<Rightarrow> cache_state \<times> uptr multiset \<Rightarrow> bool"
  for G L c where
  start: "reach G L c c"
| more: "reach G L c c' \<Longrightarrow> step G L c' c'' \<Longrightarrow> reach G L c c''"

inductive_cases step_cases: "step G L c c'"

lemma finite_classes [simp]: "finite classes"
  by (rule finite_subset [OF subset_UNIV finite_class.finite_UNIV])

lemma tagged_upd:
  assumes "valid_class k"
  shows "tagged (live(k := add_mset (a, t) (live k))) = add_mset (AddTagToPointer a t) (tagged live)"
proof -
  have k: "k \<in> classes" using assms by (simp add: classes_def)
  have "(\<Sum>k'\<in>classes - {k}. image_mset (\<lambda>(a, t). AddTagToPointer a t) ((live(k := h)) k')) =
      (\<Sum>k'\<in>classes - {k}. image_mset (\<lambda>(a, t). AddTagToPointer a t) (live k'))" for h
    by (intro sum.cong) auto
  then show ?thesis
    unfolding tagged_def sum.remove [OF finite_classes k] by (simp del: fun_upd_apply add: fun_upd_same)
qed

lemma tagged_member:
  assumes "p \<in># tagged live"
  obtains k a t where "valid_class k" "(a, t) \<in># live k" "p = AddTagToPointer a t"
  using assms unfolding tagged_def by (auto simp: set_mset_sum classes_def)

lemma tagged_remove:
  assumes "valid_class k" "(a, t) \<in># live k"
  shows "tagged (live(k := live k - {#(a, t)#})) = tagged live - {#AddTagToPointer a t#}"
proof -
  let ?live = "live(k := live k - {#(a, t)#})"
  have "?live(k := add_mset (a, t) (?live k)) = live" using assms(2) by auto
  with tagged_upd [OF assms(1), of ?live a t] show ?thesis by simp
qed

lemma held_chunk_small:
  assumes "class_ok k s H ps rs fs" "valid_class k" "(a, t) \<in># H"
  shows "unat a < 2 ^ 45"
proof -
  from class_ok_region [OF assms(1,3)] obtain r where "fst (a, t) \<in> chunks k r" and r: "region_slot k r" by blast
  then obtain i where "i < 256" "a = chunk k r i" by (auto simp: chunks_def dest: idxs_less)
  then have "unat a = unat r + csz k * i" using unat_chunk [OF assms(2) r] by simp
  moreover have "csz k * i + 0 < 256 * csz k" using \<open>i < 256\<close> csz_bounds(4) [OF assms(2)] by (intro index_below)
  moreover have "unat r + rsz k \<le> 2 ^ 45"
  proof -
    have "unat r + rsz k \<le> (unat k + 2) * 2 ^ 40" by (rule region_slot_bounds(2) [OF assms(2) r])
    also have "\<dots> \<le> 32 * 2 ^ 40" using assms(2) by (intro mult_le_mono1) (simp add: valid_class_unat)
    finally show ?thesis by simp
  qed
  ultimately show ?thesis unfolding rsz_def by linarith
qed

section \<open>Every step keeps the invariant\<close>

lemma small_request_class:
  assumes "small_request sz alignment"
  shows "\<exists>sz'. (if 8 < alignment then RoundUpTo (if sz = 0 then 1 else sz) alignment else Inr (if sz = 0 then 1 else sz)) = Inr sz' \<and>
    CanAllocate sz' alignment \<and> valid_class (ClassID SCM sz')"
proof -
  from assms obtain sz' where s: "(if 8 < alignment then RoundUpTo (if sz = 0 then 1 else sz) alignment
      else Inr (if sz = 0 then 1 else sz)) = Inr sz'" "0 < sz'" "CanAllocate sz' alignment"
    by (auto simp: small_request_def Let_def split: sum.splits)
  have "sz' \<le> kMaxSize SCM" using s(3) by (simp add: CanAllocate_def)
  then have "0 < ClassID SCM sz'" "ClassID SCM sz' \<le> kLargestClassID SCM"
    using very_dense_map.ClassID_Size_fits(3,4) [OF s(2)] by simp_all
  moreover have "kLargestClassID SCM < kBatchClassID SCM" by code_simp
  ultimately have "valid_class (ClassID SCM sz')"
    unfolding valid_class_def using le_less_trans by blast
  with s show ?thesis by blast
qed

lemma malloc_ok:
  assumes env: "env_ok G" and L: "layout_ok L" and inv: "held_ok s M" and sm: "small_request sz alignment"
    and res: "CTAllocateCombined G L sz alignment s = Inr (p, s')"
  shows "held_ok s' (if p = 0 then M else add_mset p M)" "p = 0 \<Longrightarrow> s' = s"
proof -
  have G: "globals_ok G" using env by (simp add: env_ok_def)
  let ?sz = "if sz = 0 then 1 else sz"
  obtain sz' where sz': "(if 8 < alignment then RoundUpTo ?sz alignment else Inr ?sz) = Inr sz'"
    "CanAllocate sz' alignment" and k: "valid_class (ClassID SCM sz')"
    using small_request_class [OF sm] by blast
  let ?k = "ClassID SCM sz'"
  have "(p = 0 \<and> s' = s) \<or> CTAllocateSmallChunk G L ?k s = Inr (p, s')"
    using res sz' by (auto simp: CTAllocateCombined_def CTAllocateCache_def Let_def andThen_eq_Inr split: if_splits)
  moreover
  {
    assume a: "CTAllocateSmallChunk G L ?k s = Inr (p, s')"
    obtain live P nodes where h: "heap_parts s live P nodes" "M = tagged live"
      using inv by (auto simp: held_ok_def heap_ok_def)
    from CTAllocateSmallChunk_ok [OF env L k h(1) a] obtain x t P' nodes' where
      p: "p = AddTagToPointer x t" and h': "heap_parts s' (live(?k := add_mset (x, t) (live ?k))) P' nodes'"
      using CTAddTag_eq [OF G] by metis
    have "held_ok s' (add_mset p M)"
      unfolding held_ok_def heap_ok_def using h' tagged_upd [OF k, of live x t] p h(2) by metis
    moreover have "p \<noteq> 0"
    proof -
      obtain ps rs fs where c: "class_ok ?k s' (mset (cached (ct_per_class s' ?k)) + add_mset (x, t) (live ?k)) ps rs fs"
        using h' k unfolding heap_parts_def by fastforce
      have "t \<noteq> 0" using class_ok_tags(1) [OF k c, of x t] by simp
      moreover have "GetTagFromPointer p = t" by (simp add: p)
      moreover have "GetTagFromPointer 0 = 0" by (simp add: GetTagFromPointer_def)
      ultimately show ?thesis by metis
    qed
    ultimately have "held_ok s' (if p = 0 then M else add_mset p M) \<and> (p = 0 \<longrightarrow> s' = s)" by simp
  }
  ultimately have "held_ok s' (if p = 0 then M else add_mset p M) \<and> (p = 0 \<longrightarrow> s' = s)"
    using inv by auto
  then show "held_ok s' (if p = 0 then M else add_mset p M)" "p = 0 \<Longrightarrow> s' = s" by simp_all
qed

lemma free_ok:
  assumes env: "env_ok G" and L: "layout_ok L" and inv: "held_ok s M" and p: "p \<in># M"
    and res: "CTDeallocateCombined G L p s = Inr s'"
  shows "held_ok s' (M - {#p#})"
proof -
  have G: "globals_ok G" using env by (simp add: env_ok_def)
  obtain live P nodes where h: "heap_parts s live P nodes" "M = tagged live"
    using inv by (auto simp: held_ok_def heap_ok_def)
  from p h(2) obtain k a t where k: "valid_class k" "(a, t) \<in># live k" "p = AddTagToPointer a t"
    by (auto elim: tagged_member)
  obtain ps rs fs where c: "class_ok k s (mset (cached (ct_per_class s k)) + live k) ps rs fs"
    using h(1) k(1) unfolding heap_parts_def by blast
  have "unat a < 2 ^ 45" using held_chunk_small [OF c k(1), of a t] k(2) by simp
  then have "UntagAddr a = a" by (intro UntagAddr_small) simp
  then have "CTGetTagFromPointer G p = t" "CTUntagPointer G p = a" by (simp_all add: CT_tag_eqs [OF G] k(3))
  then have "CTDeallocateCache G L t a s = Inr s'" using res by (simp add: CTDeallocateCombined_def)
  from CTDeallocateSmall_ok [OF env L k(1) h(1) k(2) this]
  show ?thesis
    unfolding held_ok_def heap_ok_def using tagged_remove [of k a t live, OF k(1,2)] k(3) h(2) by metis
qed

theorem reach_held:
  assumes "env_ok G" "layout_ok L"
  shows "reach G L (s, M) (s', M') \<Longrightarrow> held_ok s M \<Longrightarrow> held_ok s' M'"
proof (induction "(s', M')" arbitrary: s' M' rule: reach.induct)
  case (more c')
  obtain s1 M1 where c': "c' = (s1, M1)" by (cases c')
  with more have "held_ok s1 M1" by simp
  from more.hyps(3) [unfolded c'] this show ?case
  proof (cases rule: step.cases)
    case (malloc sz alignment p)
    with malloc_ok(1) [OF assms \<open>held_ok s1 M1\<close> malloc(2,3)] show ?thesis by simp
  next
    case (malloc_null sz alignment)
    with malloc_ok(1) [OF assms \<open>held_ok s1 M1\<close> malloc_null(2,3)] show ?thesis by simp
  next
    case (free p)
    with free_ok [OF assms \<open>held_ok s1 M1\<close> free(2,3)] show ?thesis by simp
  qed
qed

section \<open>What held pointers satisfy\<close>

lemma held_pair_region:
  assumes G: "globals_ok G" and k: "valid_class k" and inv: "class_ok k s H ps rs fs" and x: "(a, t) \<in># H"
  shows "\<exists>r i. r \<in> set rs \<and> i \<in> set (idxs k) \<and> a = chunk k r i \<and> region_slot k r \<and>
    UntagAddr (AddTagToPointer a t) = a"
proof -
  note inv' = inv [unfolded class_ok_def]
  from held_chunk [OF k inv' x] obtain r i where "r \<in> set rs" "i \<in> set (idxs k)" "a = chunk k r i" "region_slot k r" .
  moreover have "unat a < 2 ^ 45" by (rule held_chunk_small [OF inv k x])
  then have "UntagAddr a = a" by (intro UntagAddr_small) simp
  ultimately show ?thesis by auto
qed

lemma parse_size: "parseSmallChunkPtr G a = Inr q \<Longrightarrow> chunk_size_of q = Size SCM (superPoolID q)"
  by (auto simp: parseSmallChunkPtr_def Let_def split: if_splits)

text \<open>A held pointer, read by \<open>parseSmallChunkPtr\<close>.\<close>

lemma held_pointer:
  assumes G: "globals_ok G" and h: "heap_parts s live P nodes" and k: "valid_class k" "(a, t) \<in># live k"
  shows "\<exists>q ps rs fs i. parseSmallChunkPtr G (UntagAddr (AddTagToPointer a t)) = Inr q \<and> superPoolID q = k \<and>
    unat (chunk_size_of q) = csz k \<and> i \<in> set (idxs k) \<and> a = chunk k (regionInfo q) i \<and> region_slot k (regionInfo q) \<and>
    UntagAddr (AddTagToPointer a t) = a \<and>
    class_ok k s (mset (cached (ct_per_class s k)) + live k) ps rs fs"
proof -
  obtain ps rs fs where c: "class_ok k s (mset (cached (ct_per_class s k)) + live k) ps rs fs"
    using h k(1) unfolding heap_parts_def by blast
  have "(a, t) \<in># mset (cached (ct_per_class s k)) + live k" using k(2) by simp
  from held_pair_region [OF G k(1) c this] obtain r i where
    r: "i \<in> set (idxs k)" "a = chunk k r i" "region_slot k r" "UntagAddr (AddTagToPointer a t) = a" by blast
  from parse_held [OF G k(1) r(3,1)] obtain q where
    q: "parseSmallChunkPtr G (chunk k r i) = Inr q" "superPoolID q = k" "regionInfo q = r" by blast
  have "unat (chunk_size_of q) = csz k" using parse_size [OF q(1)] q(2) by (simp add: csz_def)
  with c r q show ?thesis by (intro exI [of _ q] exI [of _ ps] exI [of _ rs] exI [of _ fs] exI [of _ i]) simp
qed

lemma held_two:
  assumes "held_ok s M" "p \<in># M" "q \<in># M - {#p#}"
  shows "\<exists>live P nodes k k' a b t u. heap_parts s live P nodes \<and> valid_class k \<and> valid_class k' \<and>
    (a, t) \<in># live k \<and> (b, u) \<in># live k' \<and> p = AddTagToPointer a t \<and> q = AddTagToPointer b u \<and>
    (k = k' \<longrightarrow> a \<noteq> b)"
proof -
  obtain live P nodes where h: "heap_parts s live P nodes" "M = tagged live"
    using assms(1) by (auto simp: held_ok_def heap_ok_def)
  from assms(2) h(2) obtain k a t where k: "valid_class k" "(a, t) \<in># live k" "p = AddTagToPointer a t"
    by (auto elim: tagged_member)
  have "q \<in># tagged (live(k := live k - {#(a, t)#}))"
    using assms(3) unfolding h(2) k(3) tagged_remove [of k a t live, OF k(1,2)] .
  then obtain k' b u where k': "valid_class k'" "(b, u) \<in># (live(k := live k - {#(a, t)#})) k'" "q = AddTagToPointer b u"
    by (rule tagged_member)
  have b: "(b, u) \<in># live k'" using k'(2) by (auto split: if_splits dest: in_diffD)
  have "a \<noteq> b" if "k = k'"
  proof
    assume "a = b"
    obtain ps rs fs where c: "class_ok k s (mset (cached (ct_per_class s k)) + live k) ps rs fs"
      using h(1) k(1) unfolding heap_parts_def by blast
    obtain L1 where L1: "live k = add_mset (a, t) L1" using k(2) by (blast dest: multi_member_split)
    then have "(a, u) \<in># L1" using k'(2) that \<open>a = b\<close> by simp
    then obtain L2 where "live k = add_mset (a, t) (add_mset (a, u) L2)" using L1 by (blast dest: multi_member_split)
    then have "2 \<le> count (image_mset fst (mset (cached (ct_per_class s k)) + live k)) a" by simp
    also have "\<dots> \<le> 1" using class_ok_once [OF k(1) c] by (simp only: uniq_def)
    finally show False by simp
  qed
  with h(1) k k' b show ?thesis by blast
qed

lemma held_apart:
  assumes G: "globals_ok G" and inv: "held_ok s M" and p: "p \<in># M" and q: "q \<in># M - {#p#}"
    and i: "parseSmallChunkPtr G (UntagAddr p) = Inr i" and j: "parseSmallChunkPtr G (UntagAddr q) = Inr j"
  shows "{unat (UntagAddr p)..<unat (UntagAddr p) + unat (chunk_size_of i)} \<inter>
    {unat (UntagAddr q)..<unat (UntagAddr q) + unat (chunk_size_of j)} = {}"
proof -
  from held_two [OF inv p q] obtain live P nodes k k' a b t u where
    h: "heap_parts s live P nodes" and k: "valid_class k" "valid_class k'"
    and ab: "(a, t) \<in># live k" "(b, u) \<in># live k'" "p = AddTagToPointer a t" "q = AddTagToPointer b u"
    and ne: "k = k' \<Longrightarrow> a \<noteq> b" by blast
  from held_pointer [OF G h k(1) ab(1)] i obtain m where
    I: "unat (chunk_size_of i) = csz k" "m \<in> set (idxs k)" "a = chunk k (regionInfo i) m"
      "region_slot k (regionInfo i)" "UntagAddr p = a" unfolding ab(3) by auto
  from held_pointer [OF G h k(2) ab(2)] j obtain n where
    J: "unat (chunk_size_of j) = csz k'" "n \<in> set (idxs k')" "b = chunk k' (regionInfo j) n"
      "region_slot k' (regionInfo j)" "UntagAddr q = b" unfolding ab(4) by auto
  let ?r = "regionInfo i" and ?s = "regionInfo j"
  have m: "m < 256" "n < 256" using I(2) J(2) by (auto dest: idxs_less)
  have a: "unat a = unat ?r + csz k * m" using I(3) unat_chunk [OF k(1) I(4) m(1)] by simp
  have b: "unat b = unat ?s + csz k' * n" using J(3) unat_chunk [OF k(2) J(4) m(2)] by simp
  have ra: "csz k * m + csz k \<le> rsz k" "csz k' * n + csz k' \<le> rsz k'"
    using m mult_le_mono2 [of "m + 1" 256 "csz k"] mult_le_mono2 [of "n + 1" 256 "csz k'"] by (simp_all add: rsz_def)
  have "unat a + csz k \<le> unat b \<or> unat b + csz k' \<le> unat a"
  proof (cases "k = k'")
    case False
    note A = region_slot_bounds(1,2) [OF k(1) I(4)] and B = region_slot_bounds(1,2) [OF k(2) J(4)]
    have "unat k \<noteq> unat k'" using False by (simp add: word_unat_eq_iff)
    then consider "unat k + 2 \<le> unat k' + 1" | "unat k' + 2 \<le> unat k + 1" by linarith
    then show ?thesis
    proof cases
      case 1
      then have "(unat k + 2) * 2 ^ 40 \<le> (unat k' + 1) * 2 ^ 40" by (rule mult_le_mono1)
      then show ?thesis using A(2) B(1) ra(1) unfolding a b by linarith
    next
      case 2
      then have "(unat k' + 2) * 2 ^ 40 \<le> (unat k + 1) * 2 ^ 40" by (rule mult_le_mono1)
      then show ?thesis using A(1) B(2) ra(2) unfolding a b by linarith
    qed
  next
    case same: True
    show ?thesis
    proof (cases "?r = ?s")
      case True
      have "m \<noteq> n" using ne [OF same] I(3) J(3) same True by auto
      then consider "m + 1 \<le> n" | "n + 1 \<le> m" by linarith
      then show ?thesis
      proof cases
        case 1 then have "csz k * (m + 1) \<le> csz k * n" by (rule mult_le_mono2)
        then show ?thesis unfolding a b True same by simp
      next
        case 2 then have "csz k * (n + 1) \<le> csz k * m" by (rule mult_le_mono2)
        then show ?thesis unfolding a b True same by simp
      qed
    next
      case False
      have "\<not> (unat ?r \<le> unat ?s \<and> unat ?s < unat ?r + rsz k)" "\<not> (unat ?s \<le> unat ?r \<and> unat ?r < unat ?s + rsz k)"
        using slots_apart [OF G k(1) I(4), of ?s] slots_apart [OF G k(1) _ I(4), of ?s] J(4) same False by auto
      then show ?thesis using ra unfolding a b same by linarith
    qed
  qed
  then show ?thesis unfolding I(1,5) J(1,5) by auto
qed

lemma held_tags:
  assumes G: "globals_ok G" and inv: "held_ok s M" and p: "p \<in># M"
  shows "GetTagFromPointer p \<noteq> 0"
    "q \<in># M - {#p#} \<Longrightarrow> parseSmallChunkPtr G (UntagAddr p) = Inr i \<Longrightarrow> parseSmallChunkPtr G (UntagAddr q) = Inr j \<Longrightarrow>
      regionInfo i = regionInfo j \<Longrightarrow> GetTagFromPointer p \<noteq> GetTagFromPointer q"
proof -
  obtain live P nodes where h0: "heap_parts s live P nodes" "M = tagged live"
    using inv by (auto simp: held_ok_def heap_ok_def)
  from p h0(2) obtain k a t where k0: "valid_class k" "(a, t) \<in># live k" "p = AddTagToPointer a t"
    by (auto elim: tagged_member)
  obtain ps rs fs where c0: "class_ok k s (mset (cached (ct_per_class s k)) + live k) ps rs fs"
    using h0(1) k0(1) unfolding heap_parts_def by blast
  show "GetTagFromPointer p \<noteq> 0" using class_ok_tags(1) [OF k0(1) c0, of a t] k0(2,3) by simp
  assume q: "q \<in># M - {#p#}" and i: "parseSmallChunkPtr G (UntagAddr p) = Inr i"
    and j: "parseSmallChunkPtr G (UntagAddr q) = Inr j" and same: "regionInfo i = regionInfo j"
  from held_two [OF inv p q] obtain live P nodes k k' a b t u where
    h: "heap_parts s live P nodes" and k: "valid_class k" "valid_class k'"
    and ab: "(a, t) \<in># live k" "(b, u) \<in># live k'" "p = AddTagToPointer a t" "q = AddTagToPointer b u"
    and ne: "k = k' \<Longrightarrow> a \<noteq> b" by blast
  from held_pointer [OF G h k(1) ab(1)] i obtain m ps rs fs where
    I: "m \<in> set (idxs k)" "a = chunk k (regionInfo i) m" "region_slot k (regionInfo i)"
    and c: "class_ok k s (mset (cached (ct_per_class s k)) + live k) ps rs fs" unfolding ab(3) by auto
  from held_pointer [OF G h k(2) ab(2)] j obtain n where
    J: "n \<in> set (idxs k')" "b = chunk k' (regionInfo j) n" "region_slot k' (regionInfo j)" unfolding ab(4) by auto
  have "k = k'" using space_disjoint [OF slot_space [OF k(1) I(3)]] slot_space [OF k(2) J(3)] same by auto
  with ab I J same ne have "t \<noteq> u"
    by (intro class_ok_tags(2) [OF k(1) c, of a t b u "regionInfo i"]) (auto simp: chunks_def)
  then show "GetTagFromPointer p \<noteq> GetTagFromPointer q" by (simp add: ab(3,4))
qed

end
