(* ===== verification/Init_Inv.thy ===== *)
theory Init_Inv
  imports Heap_Safety
begin

text \<open>
  \<open>init_for_clustertag\<close> computes the layout of the super pools and leaves every one of them
  empty: the state in which the program starts satisfies the invariant.
\<close>

definition layout_at :: "layout \<Rightarrow> uptr \<Rightarrow> bool" where
  "layout_at L k \<longleftrightarrow> SuperPoolsBaseAddress L k = superPoolBase + k * kSuperPoolSize \<and>
     SuperPoolsChunkSize L k = Size SCM k \<and> SuperPoolsRegionSize L k = Size SCM k * 256 \<and>
     AvailableChunksInRegion L k = of_nat (avail k) \<and>
     AllRegionsInPool L k = of_nat (2 ^ 30 div rsz k) \<and>
     MinChunkInPerClass L k = 256 \<and> MaxChunkInPerClass L k = 512"

lemma layout_ok_at: "layout_ok L \<longleftrightarrow> (\<forall>k. valid_class k \<longrightarrow> layout_at L k)"
  by (simp add: layout_ok_def layout_at_def)

definition class_empty :: "'a ct_state_scheme \<Rightarrow> uptr \<Rightarrow> bool" where
  "class_empty s k \<longleftrightarrow> pl_head (SuperPoolsPoolLinkedList s k) = 0 \<and> head (SuperPoolsRegionList s k) = 0 \<and>
     head (SuperPoolsFreedRegionList s k) = 0 \<and> free_chunk_num (SuperPoolChunkInfo s k) = 0 \<and>
     free_region_num (SuperPoolChunkInfo s k) = 0 \<and> region_num (SuperPoolChunkInfo s k) = 0"

lemma class_empty_ok: "class_empty s k \<Longrightarrow> class_ok k s {#} [] [] []"
  by (simp add: class_empty_def class_ok_def class_inv_parts pools_ok_def regions_ok_def freed_ok_def
      freed_flags_def counts_ok_def tags_ok_def free_chunks_def dll_def)

lemma available_chunks:
  assumes "valid_class k"
  shows "(ucast (256 - RoundUpDivide sizeof_CTRegionInfo (Size SCM k)) :: u8) = of_nat (avail k)"
proof -
  note c = csz_bounds [OF assms] and a = avail_bounds [OF assms]
  have sz: "unat (Size SCM k) = csz k" by (simp add: csz_def)
  have nz: "Size SCM k \<noteq> 0" using c(4) by (auto simp: csz_def)
  have "unat (RoundUpDivide sizeof_CTRegionInfo (Size SCM k)) = (296 + csz k - 1) div csz k"
    using c nz by (subst RoundUpDivide_nat) (simp_all add: sz sizeof_CTRegionInfo_def)
  moreover have "(296 + csz k - 1) div csz k = (csz k + 295) div csz k" by (simp add: add.commute)
  moreover have le: "(csz k + 295) div csz k \<le> 256" using a(1) by (simp add: avail_def)
  ultimately have "unat (256 - RoundUpDivide sizeof_CTRegionInfo (Size SCM k)) = avail k"
    by (subst unat_sub) (simp_all add: word_le_nat_alt avail_def)
  then have "256 - RoundUpDivide sizeof_CTRegionInfo (Size SCM k) = (of_nat (avail k) :: uptr)"
    by (metis of_nat_unat ucast_id)
  then show ?thesis using a(2) by (simp add: unsigned_of_nat take_bit_nat_eq_self)
qed

lemma all_regions:
  assumes "valid_class k"
  shows "kPoolSize div (Size SCM k * 256) = of_nat (2 ^ 30 div rsz k)"
proof -
  have "unat (kPoolSize div (Size SCM k * 256)) = 2 ^ 30 div rsz k"
    by (simp add: unat_div unat_kPoolSize unat_region_size [OF assms])
  then show ?thesis by (metis of_nat_unat ucast_id)
qed

lemma min_chunks:
  assumes "valid_class k"
  shows "(if ucast (8192 div Size SCM k) < (256 :: u16) then 256 else ucast (8192 div Size SCM k)) = (256 :: u16)"
proof -
  have "unat (8192 div Size SCM k) = 8192 div csz k" by (simp add: unat_div csz_def)
  also have "\<dots> \<le> 8192 div 32" using csz_bounds(1) [OF assms] by (intro div_le_mono2) simp_all
  finally have "unat (8192 div Size SCM k) \<le> 256" by simp
  moreover from this have "unat (ucast (8192 div Size SCM k) :: u16) = unat (8192 div Size SCM k)"
    by (simp add: unsigned_ucast_eq take_bit_nat_eq_self)
  ultimately have "\<not> ucast (8192 div Size SCM k) < (256 :: u16) \<Longrightarrow> ucast (8192 div Size SCM k) = (256 :: u16)"
    by (simp add: word_less_nat_alt word_unat_eq_iff)
  then show ?thesis by simp
qed

section \<open>One class\<close>

lemma init_class_ok:
  fixes s :: "'a ct_state_scheme"
  assumes env: "env_ok G" and k: "valid_class k" and pers: "pers_ok (persistent s) {}"
    and res: "init_class G k (L, s) = Inr (L', s')"
  shows "layout_at L' k" "class_empty s' k" "pers_ok (persistent s') {}"
    "k' \<noteq> k \<Longrightarrow> layout_at L k' \<Longrightarrow> layout_at L' k'" "k' \<noteq> k \<Longrightarrow> class_empty s k' \<Longrightarrow> class_empty s' k'"
    "ct_state.more s' = ct_state.more s"
proof -
  have page: "page_size G = 4096" using env by (simp add: env_ok_def)
  have alloc: "\<exists>m pa. s2 = s1\<lparr>mem := m, persistent := pa\<rparr> \<and> pers_ok pa {}"
    if p: "pers_ok (persistent s1) {}" and n: "0 < unat n" "unat n \<le> 2 ^ 16"
      and a: "persistent_allocate n s1 = Inr (q, s2)" for s1 s2 :: "'a ct_state_scheme" and n q
    using persistent_allocate_ok(1) [OF p n a] by (fastforce simp: pers_ok_def)
  have nz: "\<not> (of_nat (avail k) :: u8) < 1"
    using avail_bounds [OF k] by (simp add: word_less_nat_alt unat_of_nat_small)
  let ?S1 = "\<lambda>s1 :: 'a ct_state_scheme. s1\<lparr>SuperPoolsPoolLinkedList :=
      (SuperPoolsPoolLinkedList s1)(k := \<lparr> pl_head = 0, pl_tail = 0 \<rparr>)\<rparr>"
  let ?S3 = "\<lambda>(s3 :: 'a ct_state_scheme) ci. s3\<lparr>SuperPoolChunkInfo := (SuperPoolChunkInfo s3)(k := ci)\<rparr>"
  let ?S4 = "\<lambda>s4 :: 'a ct_state_scheme. s4\<lparr>SuperPoolsRegionList := (SuperPoolsRegionList s4)(k := \<lparr> head = 0 \<rparr>)\<rparr>"
  obtain q1 s1 q2 s2 ci s3 q3 s4 q4 s5 where
    a1: "persistent_allocate 16 s = Inr (q1, s1)" and a2: "persistent_allocate 40 (?S1 s1) = Inr (q2, s2)" and
    ci: "CTSuperPoolChunkInfoInit G (Size SCM k) s2 = Inr (ci, s3)" and
    a3: "persistent_allocate 8 (?S3 s3 ci) = Inr (q3, s4)" and
    a4: "persistent_allocate 8 (?S4 s4) = Inr (q4, s5)" and
    s': "s' = s5\<lparr>SuperPoolsFreedRegionList := (SuperPoolsFreedRegionList s5)(k := \<lparr> head = 0 \<rparr>)\<rparr>" and
    L': "L' = L\<lparr>SuperPoolsBaseAddress := (SuperPoolsBaseAddress L)(k := superPoolBase + k * kSuperPoolSize),
      SuperPoolsChunkSize := (SuperPoolsChunkSize L)(k := Size SCM k),
      SuperPoolsRegionSize := (SuperPoolsRegionSize L)(k := Size SCM k * 256),
      AvailableChunksInRegion := (AvailableChunksInRegion L)(k := of_nat (avail k)),
      AllRegionsInPool := (AllRegionsInPool L)(k := of_nat (2 ^ 30 div rsz k)),
      MinChunkInPerClass := (MinChunkInPerClass L)(k := 256),
      MaxChunkInPerClass := (MaxChunkInPerClass L)(k := 512)\<rparr>"
    using res nz unfolding init_class_def Let_def initCTPoolList_def prod.case page
    by (auto simp: andThen_eq_Inr available_chunks [OF k] all_regions [OF k] min_chunks [OF k] cong del: if_weak_cong)
  show "layout_at L' k" "k' \<noteq> k \<Longrightarrow> layout_at L k' \<Longrightarrow> layout_at L' k'" by (simp_all add: layout_at_def L')
  from alloc [OF pers _ _ a1] obtain m1 pa1 where s1: "s1 = s\<lparr>mem := m1, persistent := pa1\<rparr>" "pers_ok pa1 {}" by auto
  from alloc [OF _ _ _ a2] obtain m2 pa2 where s2: "s2 = (?S1 s1)\<lparr>mem := m2, persistent := pa2\<rparr>" "pers_ok pa2 {}"
    using s1 by auto
  obtain c3 where s3: "s3 = s2\<lparr>clock_pos := c3\<rparr>" and ci0: "free_chunk_num ci = 0" "region_num ci = 0" "free_region_num ci = 0"
  proof -
    have e: "s3 = snd (MonotonicNanoTime s2)" "free_chunk_num ci = 0" "region_num ci = 0" "free_region_num ci = 0"
      using ci by (auto simp: CTSuperPoolChunkInfoInit_def Let_def case_prod_unfold split: if_splits)
    obtain c3 where "snd (MonotonicNanoTime s2) = s2\<lparr>clock_pos := c3\<rparr>" using MonotonicNanoTime_clock by blast
    then show thesis by (rule that [OF _ e(2-4), unfolded e(1)])
  qed
  from alloc [OF _ _ _ a3] obtain m3 pa3 where s4: "s4 = (?S3 s3 ci)\<lparr>mem := m3, persistent := pa3\<rparr>" "pers_ok pa3 {}"
    using s2 s3 by auto
  from alloc [OF _ _ _ a4] obtain m4 pa4 where s5: "s5 = (?S4 s4)\<lparr>mem := m4, persistent := pa4\<rparr>" "pers_ok pa4 {}"
    using s4 by auto
  show "pers_ok (persistent s') {}" "class_empty s' k" "ct_state.more s' = ct_state.more s"
    by (simp_all add: s' s5 s4(1) s3 s2(1) s1(1) class_empty_def ci0)
  show "class_empty s' k'" if "k' \<noteq> k" "class_empty s k'"
    using that by (simp add: s' s5(1) s4(1) s3 s2(1) s1(1) class_empty_def)
qed

lemma init_classes_ok:
  fixes s :: "'a ct_state_scheme"
  assumes env: "env_ok G"
  shows "i + n \<le> 31 \<Longrightarrow> 0 < i \<Longrightarrow> pers_ok (persistent s) {} \<Longrightarrow> init_classes G i n (L, s) = Inr (L', s') \<Longrightarrow>
    (\<forall>k. valid_class k \<and> unat k < i \<longrightarrow> layout_at L k \<and> class_empty s k) \<Longrightarrow>
    (\<forall>k. valid_class k \<and> unat k < i + n \<longrightarrow> layout_at L' k \<and> class_empty s' k) \<and>
    pers_ok (persistent s') {} \<and> ct_state.more s' = ct_state.more s"
proof (induction n arbitrary: i L s)
  case (Suc n)
  have u: "unat (of_nat i :: uptr) = i" using Suc.prems(1) by (intro unat_of_nat_small) simp
  then have k: "valid_class (of_nat i)" using Suc.prems(1,2) by (simp add: valid_class_unat)
  obtain L1 s1 where one: "init_class G (of_nat i) (L, s) = Inr (L1, s1)"
      "init_classes G (Suc i) n (L1, s1) = Inr (L', s')"
    using Suc.prems(4) by (auto simp: andThen_eq_Inr)
  note O = init_class_ok [OF env k Suc.prems(3) one(1)]
  have "layout_at L1 k \<and> class_empty s1 k" if "valid_class k" "unat k < Suc i" for k
  proof (cases "k = of_nat i")
    case True with O(1,2) show ?thesis by simp
  next
    case False
    then have "unat k < i" using that(2) u by (metis less_SucE word_unat_eq_iff)
    with Suc.prems(5) that(1) O(4,5) [OF False] show ?thesis by blast
  qed
  with Suc.IH [OF _ _ O(3) one(2)] Suc.prems(1) O(6) show ?case by simp
qed simp

lemma init_ok:
  fixes s :: cache_state
  assumes env: "env_ok G" and pers: "pers_ok (persistent s) {}" and c: "ct_per_class s = (\<lambda>_. zero_per_class)"
    and res: "init_for_clustertag G s = Inr (G', L, s')"
  shows "layout_ok L" "env_ok G'" "held_ok s' {#}" "valid_class k \<Longrightarrow> class_empty s' k"
    "pers_ok (persistent s') {}" "ct_per_class s' = (\<lambda>_. zero_per_class)"
proof -
  obtain L0 where i: "init_classes G 1 30 (L0, s) = Inr (L, s')"
    and G': "G' = G\<lparr>superPoolBase_g := superPoolBase, superPoolEnd_g := superPoolEnd\<rparr>"
  proof -
    have "unat (kBatchClassID SCM) - 1 = 30" by code_simp
    with res that show thesis by (auto simp: init_for_clustertag_def andThen_eq_Inr Let_def)
  qed
  have "(\<forall>k. valid_class k \<and> unat k < 31 \<longrightarrow> layout_at L k \<and> class_empty s' k) \<and>
      pers_ok (persistent s') {} \<and> ct_state.more s' = ct_state.more s"
    using init_classes_ok [OF env _ _ pers i] by (fastforce simp: valid_class_unat)
  then have I: "\<And>k. valid_class k \<Longrightarrow> layout_at L k" "\<And>k. valid_class k \<Longrightarrow> class_empty s' k"
      "pers_ok (persistent s') {}" "ct_state.more s' = ct_state.more s"
    by (auto simp: valid_class_unat)
  show "layout_ok L" using I(1) by (simp add: layout_ok_at)
  show "env_ok G'" using env by (simp add: env_ok_def globals_ok_def G')
  show "class_empty s' k" if "valid_class k" by (rule I(2) [OF that])
  show "pers_ok (persistent s') {}" by (rule I(3))
  show pc: "ct_per_class s' = (\<lambda>_. zero_per_class)" using I(4) c by (cases s; cases s') simp
  then have e: "cached (ct_per_class s' k) = []" "unat (pc_count (ct_per_class s' k)) \<le> 511" for k
    by (simp_all add: cached_def entries_def zero_per_class_def)
  have "heap_parts s' (\<lambda>_. {#}) (\<lambda>_. []) {}"
    unfolding heap_parts_def using I(3) class_empty_ok [OF I(2)] e by auto
  then show "held_ok s' {#}"
    unfolding held_ok_def heap_ok_def by (intro exI [of _ "\<lambda>_. {#}"]) (auto simp: tagged_def)
qed

end
