(* ===== verification/Progress.thy ===== *)
theory Progress
  imports Init_Inv
begin

text \<open>
  Progress: operations that return. The persistent stack of 16 pages has room for the start-up
  of all 30 super pools, so \<open>init_for_clustertag\<close> does not fail; the first allocation in a class
  succeeds when the kernel maps the pool where it is asked to; an allocation from a cache that is
  not empty always succeeds.
\<close>

section \<open>The persistent stack\<close>

definition room :: "CTPersistentAllocator \<Rightarrow> nat \<Rightarrow> bool" where
  "room pa n \<longleftrightarrow> unat (cur_loc pa) + n < unat (end_addr pa)"

text \<open>The part of the machine that allocation on the stack and reading the clock leave alone.\<close>

definition calm :: "'a machine_scheme \<Rightarrow> 'a machine_scheme \<Rightarrow> bool" where
  "calm s s' \<longleftrightarrow> sys_ret s' = sys_ret s \<and> sys_pos s' = sys_pos s \<and> my_random_state s' = my_random_state s \<and> RI s' = RI s"

lemma persistent_allocate_total:
  fixes s :: "'a ct_state_scheme"
  assumes n: "0 < unat n" "unat n \<le> 2 ^ 16" and r: "room (persistent s) (unat n + 15 + m)"
  shows "\<exists>p s'. persistent_allocate n s = Inr (p, s') \<and> room (persistent s') m \<and> calm s s'"
proof -
  let ?pa = "persistent s" and ?n = "round_up n 0x10"
  note ru = round_up_16 [OF n]
  have up: "unat ?n \<le> unat n + 15"
    using unat_round_up [of 4 n] n by (simp add: div_times_less_eq_dividend)
  have "unat (cur_loc ?pa) + unat ?n < unat (end_addr ?pa)" using r up by (simp add: room_def)
  moreover from this have u: "unat (cur_loc ?pa + ?n) = unat (cur_loc ?pa) + unat ?n"
    by (intro unat_add_small less_trans [OF _ unsigned_less [of "end_addr ?pa"]])
  ultimately have "\<not> end_addr ?pa \<le> cur_loc ?pa + ?n" by (simp add: word_le_nat_alt)
  moreover have "unat (cur_loc ?pa + ?n) + m < unat (end_addr ?pa)" using r up u by (simp add: room_def)
  ultimately show ?thesis
    by (simp add: persistent_allocate_def CTPersistentAllocatorAllocate_def ru(1) Let_def room_def calm_def)
qed

lemma calm_trans: "calm s s' \<Longrightarrow> calm s' s'' \<Longrightarrow> calm s s''"
  by (simp add: calm_def)

lemma init_class_total:
  fixes s :: "'a ct_state_scheme"
  assumes k: "valid_class k" and r: "room (persistent s) (132 + m)"
  shows "\<exists>L' s'. init_class G k (L, s) = Inr (L', s') \<and> room (persistent s') m \<and> calm s s'"
proof -
  have nz: "\<not> (of_nat (avail k) :: u8) < 1" "Size SCM k \<noteq> 0"
    using avail_bounds [OF k] csz_bounds(4) [OF k] by (auto simp: word_less_nat_alt unat_of_nat_small csz_def)
  from r persistent_allocate_total [of 16 s "101 + m"] obtain q1 s1 where
    a1: "persistent_allocate 16 s = Inr (q1, s1)" "room (persistent s1) (101 + m)" "calm s s1" by auto
  define t1 where "t1 = s1\<lparr>SuperPoolsPoolLinkedList := (SuperPoolsPoolLinkedList s1)(k := \<lparr> pl_head = 0, pl_tail = 0 \<rparr>)\<rparr>"
  have t1: "room (persistent t1) (40 + 15 + (46 + m))" "calm s1 t1" using a1(2) by (simp_all add: t1_def calm_def)
  from persistent_allocate_total [of 40 t1 "46 + m"] t1(1) obtain q2 s2 where
    a2: "persistent_allocate 40 t1 = Inr (q2, s2)" "room (persistent s2) (46 + m)" "calm t1 s2" by auto
  obtain ci s3 where c: "CTSuperPoolChunkInfoInit G (Size SCM k) s2 = Inr (ci, s3)"
    and s3: "s3 = snd (MonotonicNanoTime s2)"
    using nz(2) by (auto simp: CTSuperPoolChunkInfoInit_def Let_def case_prod_unfold)
  obtain cp where s3': "s3 = s2\<lparr>clock_pos := cp\<rparr>" using MonotonicNanoTime_clock [of s2] s3 by auto
  define t3 where "t3 = s3\<lparr>SuperPoolChunkInfo := (SuperPoolChunkInfo s3)(k := ci)\<rparr>"
  have t3: "room (persistent t3) (8 + 15 + (23 + m))" "calm s2 t3" using a2(2) by (simp_all add: t3_def s3' calm_def)
  from persistent_allocate_total [of 8 t3 "23 + m"] t3(1) obtain q3 s4 where
    a3: "persistent_allocate 8 t3 = Inr (q3, s4)" "room (persistent s4) (23 + m)" "calm t3 s4" by auto
  define t4 where "t4 = s4\<lparr>SuperPoolsRegionList := (SuperPoolsRegionList s4)(k := \<lparr> head = 0 \<rparr>)\<rparr>"
  have t4: "room (persistent t4) (8 + 15 + m)" "calm s4 t4" using a3(2) by (simp_all add: t4_def calm_def)
  from persistent_allocate_total [of 8 t4 m] t4(1) obtain q4 s5 where
    a4: "persistent_allocate 8 t4 = Inr (q4, s5)" "room (persistent s5) m" "calm t4 s5" by auto
  have "\<exists>L'. init_class G k (L, s) = Inr (L', s5\<lparr>SuperPoolsFreedRegionList := (SuperPoolsFreedRegionList s5)(k := \<lparr> head = 0 \<rparr>)\<rparr>)"
    unfolding init_class_def Let_def prod.case initCTPoolList_def
    using nz a2(1) c a3(1) a4(1) unfolding t1_def t3_def t4_def
    by (simp add: available_chunks [OF k] a1(1))
  moreover have "calm s s5"
    using a1(3) t1(2) a2(3) t3(2) a3(3) t4(2) a4(3) by (blast intro: calm_trans)
  ultimately show ?thesis using a4(2) by (fastforce simp: calm_def)
qed

lemma init_classes_total:
  fixes s :: "'a ct_state_scheme"
  shows "i + n \<le> 31 \<Longrightarrow> 0 < i \<Longrightarrow> room (persistent s) (132 * n + m) \<Longrightarrow>
    \<exists>L' s'. init_classes G i n (L, s) = Inr (L', s') \<and> room (persistent s') m \<and> calm s s'"
proof (induction n arbitrary: i L s)
  case 0 then show ?case by (simp add: calm_def)
next
  case (Suc n)
  have "unat (of_nat i :: uptr) = i" using Suc.prems(1) by (intro unat_of_nat_small) simp
  then have k: "valid_class (of_nat i)" using Suc.prems(1,2) by (simp add: valid_class_unat)
  have "room (persistent s) (132 + (132 * n + m))" using Suc.prems(3) by (simp add: add.assoc)
  from init_class_total [OF k this, of G L] obtain L1 s1 where
    one: "init_class G (of_nat i) (L, s) = Inr (L1, s1)" "room (persistent s1) (132 * n + m)" "calm s s1" by blast
  from Suc.IH [OF _ _ one(2), of "Suc i" L1] Suc.prems(1) obtain L' s' where
    "init_classes G (Suc i) n (L1, s1) = Inr (L', s')" "room (persistent s') m" "calm s1 s'" by auto
  with one show ?case by (auto intro: calm_trans)
qed

lemma init_total:
  fixes s :: cache_state
  assumes "room (persistent s) (3960 + m)"
  shows "\<exists>G' L s'. init_for_clustertag G s = Inr (G', L, s') \<and> room (persistent s') m \<and> calm s s' \<and>
    loop_fuel G' = loop_fuel G"
proof -
  have "unat (kBatchClassID SCM) - 1 = 30" by code_simp
  moreover obtain L s' where "init_classes G 1 30 (empty_layout\<lparr>SuperPoolsBaseAddress := (\<lambda>_. 0)(0 := superPoolBase)\<rparr>, s) = Inr (L, s')"
      "room (persistent s') m" "calm s s'"
    using init_classes_total [of 1 30 s m G] assms by fastforce
  ultimately show ?thesis by (auto simp: init_for_clustertag_def Let_def)
qed

section \<open>Allocation\<close>

text \<open>The pool the next draw of the generator names.\<close>

definition drawn_pool :: "uptr \<Rightarrow> 'a machine_scheme \<Rightarrow> uptr" where
  "drawn_pool k s = superPoolBase + k * kSuperPoolSize + fst (generate_random_u64 s) mod 1024 * kPoolSize"

lemma fresh_pool_total:
  fixes s :: "'a ct_state_scheme"
  assumes env: "env_ok G" and L: "layout_ok L" and k: "valid_class k" and e: "class_empty s k"
    and r: "room (persistent s) 39" and grant: "sys_ret s (sys_pos s) = drawn_pool k s"
  shows "\<exists>p s'. CTAllocateNewPool G L k s = Inr (p, s')"
proof -
  obtain n where n: "loop_fuel G = Suc n" using env by (cases "loop_fuel G") (auto simp: env_ok_def)
  obtain v x where v: "generate_random_u64 s = (v, s\<lparr>my_random_state := x\<rparr>)" by (rule generate_random_cases)
  have sz: "kSuperPoolSize div kPoolSize = 1024"
    by (simp add: kSuperPoolSize_def kPoolSize_def kPoolShift_def push_bit_eq_mult)
  let ?s1 = "s\<lparr>my_random_state := x\<rparr>"
  have head: "pl_head (SuperPoolsPoolLinkedList s k) = 0" using e by (simp add: class_empty_def)
  have c: "choose_pool G (loop_fuel G) (superPoolBase + k * kSuperPoolSize) (SuperPoolsPoolLinkedList s k) s
      = Inr (drawn_pool k s, ?s1)"
    using head by (simp add: n v Let_def sz drawn_pool_def)
  from persistent_allocate_total [of 24 ?s1 0] r obtain p s2 where
    p: "persistent_allocate 24 ?s1 = Inr (p, s2)" and calm: "calm ?s1 s2" by auto
  have "sys_ret s2 (sys_pos s2) = drawn_pool k s" using calm grant by (simp add: calm_def)
  then show ?thesis
    using c head by (auto simp: CTAllocateNewPool_def layout_okD [OF L k] appendCTPoolList_def p Let_def
        CTFixedMapOrDie_def internal_mmap_def syscall_def split: prod.split)
qed

lemma valid_class_checks:
  assumes "valid_class k"
  shows "k \<noteq> 0 \<and> k < kNumClasses SCM \<and> \<not> kBatchClassID SCM \<le> k"
proof -
  have "kNumClasses SCM = 32" "kBatchClassID SCM = 31" by code_simp+
  with assms show ?thesis by (auto simp: valid_class_unat word_less_nat_alt word_le_nat_alt)
qed

lemma fresh_region_total:
  fixes s :: "'a ct_state_scheme"
  assumes env: "env_ok G" and L: "layout_ok L" and k: "valid_class k" and e: "class_empty s k"
    and pers: "pers_ok (persistent s) nodes" and r: "room (persistent s) 39"
    and grant: "sys_ret s (sys_pos s) = drawn_pool k s"
  shows "\<exists>r s'. CTAllocateNewRegion G L k s = Inr (r, s')"
proof -
  note Lk = layout_okD [OF L k]
  obtain n where n: "loop_fuel G = Suc n" using env by (cases "loop_fuel G") (auto simp: env_ok_def)
  have head: "pl_head (SuperPoolsPoolLinkedList s k) = 0" using e by (simp add: class_empty_def)
  have page: "page_size G = 4096" using env by (simp add: env_ok_def)
  have al: "IsAligned (Size SCM k * 256) 4096 = Inr True"
  proof -
    have "2 ^ 12 dvd unat (Size SCM k * 256)"
      unfolding unat_region_size [OF k] using rsz_bounds(3) [OF k] by (rule dvd_trans [rotated]) simp
    then have "aligned (Size SCM k * 256) (2 ^ 12)" by (simp only: aligned_iff_dvd)
    then show ?thesis by (simp add: IsAligned_page)
  qed
  from fresh_pool_total [OF env L k e r grant] obtain p s1 where p: "CTAllocateNewPool G L k s = Inr (p, s1)" by blast
  have fuel: "length [] < loop_fuel G" using n by simp
  note P = CTAllocateNewPool_ok [OF env k L class_empty_ok [OF e] pers _ fuel p]
  have c1: "class_ok k s1 {#} [p] [] []" using P(1) by simp
  then have pb: "pool_base k (pool_addr (PN s1 p))"
    and zero: "\<And>q. in_pool k (pool_addr (PN s1 p)) q \<Longrightarrow> RI s1 q = zero_region"
    and rl: "head (SuperPoolsRegionList s1 k) = 0"
    by (auto simp: class_ok_def class_inv_parts pools_ok_def regions_ok_def dll_def)
  have rg: "0 < unat (AllRegionsInPool L k)" using Lk(5) rsz_bounds(4) [OF k] by simp
  then have rg0: "AllRegionsInPool L k \<noteq> 0" by auto
  let ?a = "pool_addr (PN s1 p) + Size SCM k * 256 * (fst (generate_random_u64 s1) mod AllRegionsInPool L k)"
  have "in_pool k (pool_addr (PN s1 p)) ?a \<and> ?a \<noteq> 0"
  proof -
    let ?j = "fst (generate_random_u64 s1) mod AllRegionsInPool L k"
    have j: "unat ?j < 2 ^ 30 div rsz k" using rg unfolding Lk(5) [symmetric] unat_mod by (rule mod_less_divisor)
    have rm: "rsz k * unat ?j + rsz k \<le> 2 ^ 30" by (rule slot_room [OF j k])
    have um: "unat (Size SCM k * 256 * ?j) = rsz k * unat ?j"
      using rm by (subst unat_mult_small) (simp_all only: unat_region_size [OF k], simp)
    have ua: "unat ?a = unat (pool_addr (PN s1 p)) + rsz k * unat ?j"
      using rm pool_base_fields(2) [OF k pb] by (subst unat_add_small) (simp_all only: um, simp)
    have "0 < unat ?a" using ua pool_base_fields(1) [OF k pb] by simp
    then show ?thesis using j ua by (auto simp: in_pool_def)
  qed
  then obtain r0 s2 where c: "choose_region (loop_fuel G) (pool_addr (PN s1 p)) (Size SCM k * 256) (AllRegionsInPool L k) s1
      = Inr (r0, s2)"
    using choose_region_hit [of "pool_addr (PN s1 p)" "Size SCM k * 256" 0 s1 "AllRegionsInPool L k" "loop_fuel G"] zero n
    by (fastforce simp: zero_region_def)
  from choose_region_spec [OF k pb Lk(5) c] obtain x where s2: "s2 = s1\<lparr>my_random_state := x\<rparr>" by blast
  show ?thesis
    using valid_class_checks [OF k] rg0 c p al head rl n
    by (auto simp: CTAllocateNewRegion_def Lk(1-3,6,7) page Let_def s2 insertInOrder_def simp del: choose_region.simps
        split: prod.split)
qed

lemma first_malloc_total:
  fixes s :: "'a cache_state_scheme"
  assumes env: "env_ok G" and L: "layout_ok L" and k: "valid_class k" and e: "class_empty s k"
    and pers: "pers_ok (persistent s) nodes" and r: "room (persistent s) 39"
    and grant: "sys_ret s (sys_pos s) = drawn_pool k s" and c: "pc_count (ct_per_class s k) = 0"
  shows "\<exists>p s' a t ps fs r. CTAllocateSmallChunk G L k s = Inr (p, s') \<and> 245 \<le> unat (pc_count (ct_per_class s' k)) \<and>
    unat (pc_count (ct_per_class s' k)) \<le> 255 \<and> p = CTAddTagToPointer G a t \<and>
    class_ok k s' (mset (cached (ct_per_class s' k)) + {#(a, t)#}) ps [r] fs"
proof -
  note Lk = layout_okD [OF L k] and V = valid_class_checks [OF k] and a = avail_bounds [OF k]
  from fresh_region_total [OF env L k e pers r grant] obtain r0 s1 where
    n: "CTAllocateNewRegion G L k s = Inr (r0, s1)" by blast
  obtain c1 s2 where b: "fresh_batch G (avail k) r0 (Size SCM k) (ct_per_class s k) s1 = (c1, s2)"
    by (cases "fresh_batch G (avail k) r0 (Size SCM k) (ct_per_class s k) s1")
  have cnt: "unat (pc_count c1) = avail k" by (rule fresh_batch_cached(2) [OF k b])
  have "free_chunk_num (SuperPoolChunkInfo s k) = 0" using e by (simp add: class_empty_def)
  then have rf: "CTRefill G L (ct_per_class s k) k s = Inr (True, c1, s2)"
    using V n b by (simp add: CTRefill_def Lk Let_def)
  have le: "unat (pc_count c1) \<le> 511" "0 < unat (pc_count c1)" using cnt a by simp_all
  from pop_chunk_total [OF le, of G] obtain p c2 where pop: "pop_chunk G c1 = Inr (p, c2)" by auto
  let ?s' = "s2\<lparr>ct_per_class := (ct_per_class s2)(k := c2)\<rparr>"
  from cached_pop [OF le(2,1) pop] obtain x t where x: "cached c1 = cached c2 @ [(x, t)]" "p = CTAddTagToPointer G x t"
      "unat (pc_count c2) + 1 = unat (pc_count c1)" by blast
  then have cnt2: "245 \<le> unat (pc_count c2)" "unat (pc_count c2) \<le> 255" using cnt a by simp_all
  have pers': "pers_ok (persistent s) {}" using pers by (simp add: pers_ok_def)
  from CTAllocateNewRegion_ok [OF env k L class_empty_ok [OF e] pers' _ n] obtain ps' where
    "\<And>E. tag_list_ok k r0 E \<Longrightarrow> class_ok k s1 ({#} + mset E) ps' (insort r0 []) []"
    unfolding tag_list_ok_def by auto
  from this [OF fresh_batch_cached(1) [OF k b]] have "class_ok k s1 (mset (cached c2) + {#(x, t)#}) ps' [r0] []"
    by (simp add: x(1))
  moreover obtain y where "s2 = s1\<lparr>my_random_state := y\<rparr>" using fresh_batch_cached(3) [OF k b] by blast
  ultimately have "class_ok k s2 (mset (cached c2) + {#(x, t)#}) ps' [r0] []" by (simp add: class_ok_random)
  then have "class_ok k ?s' (mset (cached (ct_per_class ?s' k)) + {#(x, t)#}) ps' [r0] []" by simp
  moreover have "CTAllocateSmallChunk G L k s = Inr (p, ?s')"
    using V rf pop c by (simp add: CTAllocateSmallChunk_def Let_def)
  moreover have "ct_per_class ?s' k = c2" by simp
  ultimately show ?thesis using cnt2 x(2) by metis
qed

lemma cached_malloc_total:
  assumes k: "valid_class k" and c: "0 < unat (pc_count (ct_per_class s k))" "unat (pc_count (ct_per_class s k)) \<le> 511"
  shows "\<exists>p s'. CTAllocateSmallChunk G L k s = Inr (p, s')"
proof -
  from pop_chunk_total [OF c(2,1), of G] obtain p c2 where "pop_chunk G (ct_per_class s k) = Inr (p, c2)" by auto
  moreover have "pc_count (ct_per_class s k) \<noteq> 0" using c(1) by auto
  ultimately show ?thesis using valid_class_checks [OF k] by (simp add: CTAllocateSmallChunk_def Let_def)
qed

text \<open>Two allocations from a class that was empty come from the same region.\<close>

lemma two_mallocs:
  fixes s :: "'a cache_state_scheme"
  assumes env: "env_ok G" and L: "layout_ok L" and k: "valid_class k" and e: "class_empty s k"
    and pers: "pers_ok (persistent s) nodes" and r: "room (persistent s) 39"
    and grant: "sys_ret s (sys_pos s) = drawn_pool k s" and c: "pc_count (ct_per_class s k) = 0"
  shows "\<exists>p s1 q s2 i j. CTAllocateSmallChunk G L k s = Inr (p, s1) \<and> CTAllocateSmallChunk G L k s1 = Inr (q, s2) \<and>
    parseSmallChunkPtr G (UntagAddr p) = Inr i \<and> parseSmallChunkPtr G (UntagAddr q) = Inr j \<and>
    regionInfo i = regionInfo j \<and> GetTagFromPointer p \<noteq> 0 \<and> GetTagFromPointer q \<noteq> 0"
proof -
  have G: "globals_ok G" using env by (simp add: env_ok_def)
  from first_malloc_total [OF assms] obtain p s1 a t ps fs r where
    p: "CTAllocateSmallChunk G L k s = Inr (p, s1)" and c1: "245 \<le> unat (pc_count (ct_per_class s1 k))"
      "unat (pc_count (ct_per_class s1 k)) \<le> 255" and pa: "p = CTAddTagToPointer G a t"
    and ok1: "class_ok k s1 (mset (cached (ct_per_class s1 k)) + {#(a, t)#}) ps [r] fs" by (elim exE conjE)
  let ?c = "ct_per_class s1 k"
  have le: "0 < unat (pc_count ?c)" "unat (pc_count ?c) \<le> 511" using c1 by linarith+
  then have nz: "pc_count ?c \<noteq> 0" by (simp add: unat_gt_0)
  from pop_chunk_total [OF le(2,1), of G] obtain q c2 where pop: "pop_chunk G ?c = Inr (q, c2)" by auto
  then have q: "CTAllocateSmallChunk G L k s1 = Inr (q, s1\<lparr>ct_per_class := (ct_per_class s1)(k := c2)\<rparr>)"
    using valid_class_checks [OF k] nz by (simp add: CTAllocateSmallChunk_def Let_def)
  from cached_pop [OF le(1,2) pop] obtain b u where b: "cached ?c = cached c2 @ [(b, u)]" "q = CTAddTagToPointer G b u" by blast
  let ?H = "mset (cached ?c) + {#(a, t)#}"
  have in_H: "(a, t) \<in># ?H" "(b, u) \<in># ?H" by (simp_all add: b(1))
  have "\<exists>i. parseSmallChunkPtr G (UntagAddr (AddTagToPointer x v)) = Inr i \<and> regionInfo i = r \<and> v \<noteq> 0"
    if "(x, v) \<in># ?H" for x v
  proof -
    from held_pair_region [OF G k ok1 that] obtain m where
      m: "m \<in> set (idxs k)" "x = chunk k r m" "region_slot k r" "UntagAddr (AddTagToPointer x v) = x" by auto
    from parse_held [OF G k m(3,1)] show ?thesis
      using m(2,4) class_ok_tags(1) [OF k ok1 that] by auto
  qed
  from this [OF in_H(1)] this [OF in_H(2)] show ?thesis
    unfolding pa b(2) CTAddTag_eq [OF G] using p q by (auto simp: pa b(2) CTAddTag_eq [OF G])
qed

end
