(* ===== verification/Safety.thy ===== *)
theory Safety
  imports Progress
begin

text \<open>
  The guarantees of ClusterTag over every run of the allocator, with a concrete run as witness:
  the globals of an x86-64 process with 4096-byte pages, a state before \<open>init_for_clustertag\<close>,
  and two requests of 600 bytes.
\<close>

section \<open>A concrete process\<close>

definition x86_globals :: ct_globals where
  "x86_globals = \<lparr> ct_shadow_memory_dynamic_address = 0x700000000000,
     ct_shadow_memory_dynamic_end = 0x7e0000000000, ct_AddressTagMask = kAddressTagMask,
     ct_AddressTagShift = of_nat kAddressTagShift, ct_ShadowScale = of_nat kShadowScale,
     page_size = 4096, free_list_interval_ns = 1000000000, ct_pool_density = 50,
     ct_randomize_region = True, superPoolBase_g = 0, superPoolEnd_g = 0, mmap_limit_mb = 0,
     os_iserror = (\<lambda>r. 0xfffffffffffff000 < r), os_enomem = (\<lambda>r. r = - 12),
     loop_fuel = 2 ^ 28 \<rparr>"

definition start_state :: cache_state where
  "start_state = \<lparr> sys_ret = (\<lambda>_. 20342038855680), sys_pos = 0, clock_ns = (\<lambda>_. 0), clock_pos = 0,
     entropy = (\<lambda>_. None), nano_seed = (\<lambda>_. 0), entropy_pos = 0, my_random_state = 1,
     g_total_mmaped = 0, mem = (\<lambda>_. 0), RI = (\<lambda>_. zero_region), trace = [],
     persistent = \<lparr> base_addr = 0x7f0000000000, cur_loc = 0x7f0000000000, last_loc = 0,
       end_addr = 0x7f0000010000 \<rparr>,
     PN = (\<lambda>_. zero_pool_node), SuperPoolsPoolLinkedList = (\<lambda>_. \<lparr> pl_head = 0, pl_tail = 0 \<rparr>),
     SuperPoolsRegionList = (\<lambda>_. \<lparr> head = 0 \<rparr>), SuperPoolsFreedRegionList = (\<lambda>_. \<lparr> head = 0 \<rparr>),
     SuperPoolChunkInfo = (\<lambda>_. \<lparr> free_chunk_num = 0, region_num = 0, free_region_num = 0,
       trigger_free = 0, last_release_at_ns = 0 \<rparr>),
     ct_per_class = (\<lambda>_. zero_per_class) \<rparr>"

lemma x86_env: "env_ok x86_globals"
  by (auto simp: env_ok_def globals_ok_def x86_globals_def word_less_nat_alt)

lemma start_facts:
  "pers_ok (persistent start_state) {}" "ct_per_class start_state = (\<lambda>_. zero_per_class)"
  "room (persistent start_state) (3960 + 39)"
  by (simp_all add: start_state_def pers_ok_def room_def)

lemma drawn_pool_random: "my_random_state s' = my_random_state s \<Longrightarrow> drawn_pool k s' = drawn_pool k s"
  for s :: "'a machine_scheme" and s' :: "'b machine_scheme"
  by (simp add: drawn_pool_def generate_random_u64_def genRandom_def Let_def)

lemma start_drawn: "drawn_pool 17 start_state = 20342038855680"
  by (simp add: drawn_pool_def generate_random_u64_def genRandom_def xorshift_def start_state_def Let_def
      superPoolBase_def kSuperPoolSize_def kPoolSize_def kPoolShift_def)

lemma class_600: "ClassID SCM 600 = 17" "small_request 600 8"
proof -
  show c: "ClassID SCM 600 = 17" by code_simp
  have "kMaxSize SCM = 65536" by code_simp
  then show "small_request 600 8" by (simp add: small_request_def CanAllocate_def)
qed

lemma malloc_600: "CTAllocateSmallChunk G L 17 s = Inr (p, s') \<Longrightarrow> CTAllocateCombined G L 600 8 s = Inr (p, s')"
proof -
  have "kMaxSize SCM = 65536" by code_simp
  then show "CTAllocateSmallChunk G L 17 s = Inr (p, s') \<Longrightarrow> CTAllocateCombined G L 600 8 s = Inr (p, s')"
    by (simp add: CTAllocateCombined_def CTAllocateCache_def CanAllocate_def Let_def class_600)
qed

text \<open>Two requests of 600 bytes after the start.\<close>

lemma two_requests:
  "\<exists>G L s1 s p q i j. init_for_clustertag x86_globals start_state = Inr (G, L, s1) \<and>
     reach G L (s1, {#}) (s, {#p, q#}) \<and> parseSmallChunkPtr G (UntagAddr p) = Inr i \<and>
     parseSmallChunkPtr G (UntagAddr q) = Inr j \<and> regionInfo i = regionInfo j"
proof -
  from init_total [OF start_facts(3), of x86_globals] obtain G L s1 where
    i: "init_for_clustertag x86_globals start_state = Inr (G, L, s1)" and r: "room (persistent s1) 39"
    and c: "calm start_state s1" by blast
  note I = init_ok [OF x86_env start_facts(1,2) i]
  have k: "valid_class 17" by (simp add: valid_class_unat)
  have "drawn_pool 17 s1 = drawn_pool 17 start_state" using c by (intro drawn_pool_random) (simp add: calm_def)
  then have grant: "sys_ret s1 (sys_pos s1) = drawn_pool 17 s1"
    using c start_drawn by (simp add: calm_def) (simp add: start_state_def)
  have pc: "pc_count (ct_per_class s1 17) = 0" by (simp add: I(6) zero_per_class_def)
  from two_mallocs [OF I(2,1) k I(4) [OF k] I(5) r grant pc] obtain p s2 q s3 i1 j1 where
    m: "CTAllocateSmallChunk G L 17 s1 = Inr (p, s2)" "CTAllocateSmallChunk G L 17 s2 = Inr (q, s3)"
      "parseSmallChunkPtr G (UntagAddr p) = Inr i1" "parseSmallChunkPtr G (UntagAddr q) = Inr j1"
      "regionInfo i1 = regionInfo j1" "GetTagFromPointer p \<noteq> 0" "GetTagFromPointer q \<noteq> 0" by blast
  have nz: "p \<noteq> 0" "q \<noteq> 0" using m(6,7) by (auto simp: GetTagFromPointer_def)
  have "reach G L (s1, {#}) (s3, add_mset q (add_mset p {#}))"
    by (rule reach.more [OF reach.more [OF reach.start step.malloc [OF class_600(2) malloc_600 [OF m(1)] nz(1)]]
          step.malloc [OF class_600(2) malloc_600 [OF m(2)] nz(2)]])
  then have "reach G L (s1, {#}) (s3, {#p, q#})" by (simp add: add_mset_commute)
  with i m show ?thesis by blast
qed

section \<open>The guarantees\<close>

text \<open>
  C1. Spatial and temporal protection inside a region. Start the process, allocate and free small
  chunks in any order: any two pointers the program then holds into the same region carry
  different tags, and no pointer carries the tag 0. An overflow from one live chunk of a region
  into another, or a stale pointer to a chunk that went to another live owner of the region, is
  therefore caught by the tag check.
\<close>

theorem live_tags_distinct:
  assumes env: "env_ok G0" and start: "pers_ok (persistent s0) {}" "ct_per_class s0 = (\<lambda>_. zero_per_class)"
    and init: "init_for_clustertag G0 s0 = Inr (G, L, s1)" and run: "reach G L (s1, {#}) (s, M)"
    and held: "p \<in># M" "q \<in># M - {#p#}"
    and parse: "parseSmallChunkPtr G (UntagAddr p) = Inr i" "parseSmallChunkPtr G (UntagAddr q) = Inr j"
    and same: "regionInfo i = regionInfo j"
  shows "GetTagFromPointer p \<noteq> 0 \<and> GetTagFromPointer p \<noteq> GetTagFromPointer q"
proof -
  note I = init_ok [OF env start init]
  have G: "globals_ok G" using I(2) by (simp add: env_ok_def)
  have "held_ok s M" by (rule reach_held [OF I(2,1) run I(3)])
  from held_tags(1) [OF G this held(1)] held_tags(2) [OF G this held parse same] show ?thesis ..
qed

theorem live_tags_distinct_witness:
  "\<exists>G L s1 s p q i j. init_for_clustertag x86_globals start_state = Inr (G, L, s1) \<and>
     reach G L (s1, {#}) (s, {#p, q#}) \<and> parseSmallChunkPtr G (UntagAddr p) = Inr i \<and>
     parseSmallChunkPtr G (UntagAddr q) = Inr j \<and> regionInfo i = regionInfo j \<and>
     GetTagFromPointer p \<noteq> 0 \<and> GetTagFromPointer p \<noteq> GetTagFromPointer q"
proof -
  from two_requests obtain G L s1 s p q i j where
    r: "init_for_clustertag x86_globals start_state = Inr (G, L, s1)" "reach G L (s1, {#}) (s, {#p, q#})"
      "parseSmallChunkPtr G (UntagAddr p) = Inr i" "parseSmallChunkPtr G (UntagAddr q) = Inr j"
      "regionInfo i = regionInfo j" by blast
  have h: "p \<in># {#p, q#}" "q \<in># {#p, q#} - {#p#}" by simp_all
  from live_tags_distinct [OF x86_env start_facts(1,2) r(1,2) h r(3-5)] r show ?thesis by blast
qed

text \<open>
  C2. No memory is handed out twice. After any sequence of allocations and deallocations of small
  chunks the chunks behind any two pointers the program holds do not overlap.
\<close>

theorem live_chunks_disjoint:
  assumes env: "env_ok G0" and start: "pers_ok (persistent s0) {}" "ct_per_class s0 = (\<lambda>_. zero_per_class)"
    and init: "init_for_clustertag G0 s0 = Inr (G, L, s1)" and run: "reach G L (s1, {#}) (s, M)"
    and held: "p \<in># M" "q \<in># M - {#p#}"
    and parse: "parseSmallChunkPtr G (UntagAddr p) = Inr i" "parseSmallChunkPtr G (UntagAddr q) = Inr j"
  shows "{unat (UntagAddr p)..<unat (UntagAddr p) + unat (chunk_size_of i)} \<inter>
    {unat (UntagAddr q)..<unat (UntagAddr q) + unat (chunk_size_of j)} = {}"
proof -
  note I = init_ok [OF env start init]
  have G: "globals_ok G" using I(2) by (simp add: env_ok_def)
  have "held_ok s M" by (rule reach_held [OF I(2,1) run I(3)])
  from held_apart [OF G this held parse] show ?thesis .
qed

theorem live_chunks_disjoint_witness:
  "\<exists>G L s1 s p q i j. init_for_clustertag x86_globals start_state = Inr (G, L, s1) \<and>
     reach G L (s1, {#}) (s, {#p, q#}) \<and> parseSmallChunkPtr G (UntagAddr p) = Inr i \<and>
     parseSmallChunkPtr G (UntagAddr q) = Inr j \<and>
     {unat (UntagAddr p)..<unat (UntagAddr p) + unat (chunk_size_of i)} \<inter>
       {unat (UntagAddr q)..<unat (UntagAddr q) + unat (chunk_size_of j)} = {}"
proof -
  from two_requests obtain G L s1 s p q i j where
    r: "init_for_clustertag x86_globals start_state = Inr (G, L, s1)" "reach G L (s1, {#}) (s, {#p, q#})"
      "parseSmallChunkPtr G (UntagAddr p) = Inr i" "parseSmallChunkPtr G (UntagAddr q) = Inr j" by blast
  have h: "p \<in># {#p, q#}" "q \<in># {#p, q#} - {#p#}" by simp_all
  from live_chunks_disjoint [OF x86_env start_facts(1,2) r(1,2) h r(3,4)] r show ?thesis by blast
qed

text \<open>
  C11. Start-up returns. With 16 pages of persistent storage of which less than 4000 bytes are
  needed, \<open>init_for_clustertag\<close> does not fail, it computes the layout of all 30 super pools, and
  every super pool is empty afterwards.
\<close>

theorem init_returns:
  fixes s :: cache_state
  assumes "env_ok G" "pers_ok (persistent s) {}" "ct_per_class s = (\<lambda>_. zero_per_class)"
    "unat (cur_loc (persistent s)) + 3999 < unat (end_addr (persistent s))"
  shows "\<exists>G' L s'. init_for_clustertag G s = Inr (G', L, s') \<and> layout_ok L \<and> (\<forall>k. valid_class k \<longrightarrow> class_empty s' k)"
proof -
  have "room (persistent s) (3960 + 39)" using assms(4) by (simp add: room_def)
  from init_total [OF this, of G] obtain G' L s' where i: "init_for_clustertag G s = Inr (G', L, s')" by blast
  from init_ok [OF assms(1-3) i] show ?thesis by (blast intro: i)
qed

theorem init_returns_witness:
  "\<exists>G' L s'. init_for_clustertag x86_globals start_state = Inr (G', L, s') \<and> layout_ok L \<and>
     (\<forall>k. valid_class k \<longrightarrow> class_empty s' k)"
  using init_returns [OF x86_env start_facts(1,2)] by (simp add: start_state_def)



end
