(* ===== verification/Alignment.thy ===== *)
theory Alignment
  imports Safety
begin

text \<open>
  Alignment of what the heap returns. \<open>CTAllocateCombined\<close> checks that the pointer is a multiple of
  the alignment. The check never fails for a small chunk, because the class of a rounded size is a
  multiple of the alignment; it always fails for a large chunk and an alignment above 16, because
  the header moves the chunk 16 bytes behind an aligned mapping.
\<close>

section \<open>Size classes and alignments\<close>

text \<open>The multiples of an alignment up to a class that is none itself fit the class before.\<close>

definition class_keeps :: "nat \<times> nat \<Rightarrow> nat \<Rightarrow> bool" where
  "class_keeps = (\<lambda>(before, this) j. 2 ^ j dvd this \<or> this div 2 ^ j * 2 ^ j \<le> before)"

lemma size_steps:
  "map (\<lambda>n. (size_spec SCM (n - 1), size_spec SCM n)) [1..<31] =
     [(0, 32), (32, 64), (64, 96), (96, 128), (128, 160), (160, 192), (192, 224), (224, 256), (256, 288),
      (288, 320), (320, 352), (352, 384), (384, 416), (416, 448), (448, 480), (480, 512), (512, 768),
      (768, 1024), (1024, 1536), (1536, 2048), (2048, 3072), (3072, 4096), (4096, 6144), (6144, 8192),
      (8192, 12288), (12288, 16384), (16384, 24576), (24576, 32768), (32768, 49152), (49152, 65536)]"
  by (simp add: upt_rec size_spec_def mid_class_def scm_S_def VeryDenseSizeClassMap_def)

lemma classes_keep:
  "\<forall>x \<in> set (map (\<lambda>n. (size_spec SCM (n - 1), size_spec SCM n)) [1..<31]).
     \<forall>j \<in> set [4, 5, 6, 7, 8, 9, 10, 11, 12, 13, 14, 15, 16]. class_keeps x j"
  unfolding size_steps by (simp add: class_keeps_def)

lemma class_multiple:
  assumes "2 ^ j dvd unat sz" "4 \<le> j" "j \<le> 16" "0 < sz" "sz \<le> kMaxSize SCM" "valid_class (ClassID SCM sz)"
  shows "2 ^ j dvd csz (ClassID SCM sz)"
proof -
  let ?c = "ClassID SCM sz" and ?n = "unat (ClassID SCM sz)"
  have n: "0 < ?n" "?n \<le> 30" using assms(6) by (simp_all add: valid_class_unat)
  then have c1: "unat (?c - 1) = ?n - 1" by (subst unat_sub) (simp_all add: word_le_nat_alt)
  have s: "unat (Size SCM ?c) = size_spec SCM ?n" "unat (Size SCM (?c - 1)) = size_spec SCM (?n - 1)"
    using csz_spec [of ?c] csz_spec [of "?c - 1"] n c1 by (simp_all add: csz_def)
  have fits: "unat sz \<le> size_spec SCM ?n" "size_spec SCM (?n - 1) < unat sz"
    using very_dense_map.ClassID_Size_fits(1,2) [OF assms(4,5)]
    by (simp_all only: word_le_nat_alt word_less_nat_alt s)
  have "?n \<in> set [1..<31]" by (rule class_cases [OF n])
  moreover have "j \<in> set [4, 5, 6, 7, 8, 9, 10, 11, 12, 13, 14, 15, 16]" using assms(2,3) by simp presburger
  ultimately have "class_keeps (size_spec SCM (?n - 1), size_spec SCM ?n) j"
    using classes_keep unfolding set_map by blast
  moreover have "\<not> size_spec SCM ?n div 2 ^ j * 2 ^ j \<le> size_spec SCM (?n - 1)"
  proof -
    obtain q where q: "unat sz = 2 ^ j * q" using assms(1) by blast
    have "q \<le> size_spec SCM ?n div 2 ^ j" using fits(1) by (simp add: q less_eq_div_iff_mult_less_eq mult.commute)
    then have "unat sz \<le> size_spec SCM ?n div 2 ^ j * 2 ^ j" unfolding q by simp
    then show ?thesis using fits(2) by linarith
  qed
  ultimately show ?thesis unfolding class_keeps_def csz_def s by simp
qed

lemma region_multiple:
  assumes "region_slot k r" "2 ^ j dvd csz k" "j \<le> 30"
  shows "2 ^ j dvd unat r"
proof -
  obtain p i where "unat r = (unat k + 1) * 2 ^ 40 + p * 2 ^ 30 + rsz k * i" using assms(1) unfolding region_slot_def by blast
  moreover have "(2 :: nat) ^ j dvd 2 ^ 40" "(2 :: nat) ^ j dvd 2 ^ 30"
    using assms(3) by (rule_tac [!] le_imp_power_dvd) simp_all
  ultimately show ?thesis using assms(2) unfolding rsz_def by (auto intro!: dvd_add dvd_mult dvd_mult2)
qed

lemma low_bits_tagged:
  assumes "j \<le> 56"
  shows "AddTagToPointer a t AND (2 ^ j - 1) = a AND (2 ^ j - 1)"
proof (rule bit_word_eqI)
  fix n
  have "(2 ^ j - 1 :: uptr) = mask j" by (simp add: mask_eq_exp_minus_1)
  then show "bit (AddTagToPointer a t AND (2 ^ j - 1)) n = bit (a AND (2 ^ j - 1)) n"
    using assms by (auto simp: bit_and_iff bit_AddTagToPointer bit_mask_iff)
qed

lemma rounded_multiple:
  assumes "RoundUpTo sz (2 ^ j) = Inr sz'" "j < 64"
  shows "2 ^ j dvd unat sz'"
proof -
  have "sz' = round_up sz (2 ^ j)" using assms by simp
  then show ?thesis using unat_and_high [of "sz + 2 ^ j - 1" j] by (simp add: round_up_def)
qed

lemma rounded_small:
  assumes "RoundUpTo sz (2 ^ j) = Inr sz'" "sz' \<noteq> 0" "j < 64" "unat sz' + 2 ^ j < 2 ^ 64"
  shows "unat sz + 2 ^ j < 2 ^ 64"
proof (rule ccontr)
  assume w: "\<not> unat sz + 2 ^ j < 2 ^ 64"
  have s: "sz' = (sz + (2 ^ j - 1)) AND NOT (2 ^ j - 1)"
    using assms(1,3) by (simp add: round_up_def algebra_simps)
  have one: "unat (2 ^ j - 1 :: uptr) = 2 ^ j - 1"
    using assms(3) by (subst unat_sub) (simp_all add: word_le_nat_alt unat_pow2)
  have u: "unat sz' = unat (sz + (2 ^ j - 1)) div 2 ^ j * 2 ^ j" unfolding s by (rule unat_and_high)
  show False
  proof (cases "unat sz + (2 ^ j - 1) < 2 ^ 64")
    case True
    then have "unat (sz + (2 ^ j - 1)) = unat sz + (2 ^ j - 1)" by (subst unat_add_small) (simp_all add: one)
    moreover have "unat sz \<le> (unat sz + (2 ^ j - 1)) div 2 ^ j * 2 ^ j"
    proof -
      have "(0 :: nat) < 2 ^ j" by simp
      then show ?thesis
        using div_mult_mod_eq [of "unat sz + (2 ^ j - 1)" "2 ^ j"] mod_less_divisor [of "2 ^ j" "unat sz + (2 ^ j - 1)"]
        by linarith
    qed
    ultimately have "unat sz \<le> unat sz'" unfolding u by metis
    then show False using w assms(4) by linarith
  next
    case False
    have "(2 :: nat) ^ j < 2 ^ 64" using assms(3) by (rule power_strict_increasing) simp
    then have "unat (sz + (2 ^ j - 1)) = unat sz + (2 ^ j - 1) - 2 ^ 64"
      using False unat_less_64 [of sz] by (simp add: unat_plus_if' one)
    moreover have "(0 :: nat) < 2 ^ j" "(2 :: nat) ^ 64 = 18446744073709551616" by simp_all
    ultimately have "unat (sz + (2 ^ j - 1)) < 2 ^ j" using unat_less_64 [of sz] by linarith
    then show False using u assms(2) by (simp add: unat_eq_zero)
  qed
qed

section \<open>Small chunks\<close>

lemma small_chunk_aligned:
  assumes "env_ok G" "layout_ok L" "held_ok s M" "valid_class k" "2 ^ j dvd csz k" "j \<le> 30"
    and "CTAllocateSmallChunk G L k s = Inr (p, s')"
  shows "p AND (2 ^ j - 1) = 0"
proof -
  have G: "globals_ok G" using assms(1) by (simp add: env_ok_def)
  obtain live P nodes where h: "heap_parts s live P nodes" using assms(3) by (auto simp: held_ok_def heap_ok_def)
  from CTAllocateSmallChunk_ok [OF assms(1,2,4) h assms(7)] obtain x t P' nodes' where
    p: "p = AddTagToPointer x t" and h': "heap_parts s' (live(k := add_mset (x, t) (live k))) P' nodes'"
    using CTAddTag_eq [OF G] by metis
  obtain ps rs fs where c: "class_ok k s' (mset (cached (ct_per_class s' k)) + add_mset (x, t) (live k)) ps rs fs"
    using h' assms(4) unfolding heap_parts_def by fastforce
  obtain r where "fst (x, t) \<in> chunks k r" and r: "region_slot k r"
    using class_ok_region [OF c, of "(x, t)"] by auto
  then obtain i where "i < 256" "x = chunk k r i" by (auto simp: chunks_def dest: idxs_less)
  then have "2 ^ j dvd unat x"
    using unat_chunk [OF assms(4) r] region_multiple [OF r assms(5,6)] assms(5) by (simp add: dvd_add)
  then have "aligned x (2 ^ j)" by (simp only: aligned_iff_dvd)
  then show ?thesis unfolding p using low_bits_tagged [of j x t] assms(6) by (simp add: aligned_def)
qed

text \<open>
  C22. Alignment of small chunks. For a request that fits a size class, with the size rounded up to
  the alignment, the check of \<open>CTAllocateCombined\<close> on the returned pointer never fails: whatever the
  cache returns is handed to the caller, and it is a multiple of the alignment.
\<close>

theorem small_chunks_aligned:
  assumes "env_ok G" "layout_ok L" "held_ok s M" "small_request sz (2 ^ j)" "4 \<le> j" "j \<le> 16"
    and "CTAllocateCache G L (if sz = 0 then 1 else sz) (2 ^ j) s = Inr (p, s')"
  shows "CTAllocateCombined G L sz (2 ^ j) s = Inr (p, s') \<and> p AND (2 ^ j - 1) = 0"
proof -
  let ?sz = "if sz = 0 then 1 else sz :: uptr"
  have u: "unat (2 ^ j :: uptr) = 2 ^ j" using assms(6) by (subst unat_pow2) simp_all
  have "(2 :: nat) ^ 4 \<le> 2 ^ j" using assms(5) by (rule power_increasing) simp
  then have a: "(8 :: uptr) < 2 ^ j" unfolding word_less_nat_alt u by simp
  obtain sz' where sz': "RoundUpTo ?sz (2 ^ j) = Inr sz'" "CanAllocate sz' (2 ^ j)" "valid_class (ClassID SCM sz')"
    using small_request_class [OF assms(4)] a by (simp del: RoundUpTo_exp) blast
  have "0 < sz'" using assms(4) sz'(1) a by (simp add: small_request_def Let_def del: RoundUpTo_exp)
  then have "2 ^ j dvd csz (ClassID SCM sz')" using rounded_multiple [OF sz'(1)] sz' assms(5,6)
    by (intro class_multiple) (simp_all add: CanAllocate_def)
  moreover have "CTAllocateSmallChunk G L (ClassID SCM sz') s = Inr (p, s')"
    using assms(7) sz'(1,2) a by (simp add: CTAllocateCache_def Let_def del: RoundUpTo_exp)
  ultimately have "p AND (2 ^ j - 1) = 0"
    using small_chunk_aligned [OF assms(1-3) sz'(3)] assms(6) by simp
  moreover have "\<not> ?sz + 2 ^ j < ?sz"
  proof -
    have "sz' \<le> 65536" using sz'(2) by (simp add: CanAllocate_def)
    then have le: "unat sz' \<le> 65536" by (simp add: word_le_nat_alt)
    have "(2 :: nat) ^ j \<le> 2 ^ 16" using assms(6) by (rule power_increasing) simp
    then have "unat sz' + 2 ^ j < 2 ^ 64" using le by simp
    then have "unat ?sz + 2 ^ j < 2 ^ 64"
      using rounded_small [OF sz'(1)] \<open>0 < sz'\<close> assms(6) by (simp add: word_gt_0)
    then have "unat (?sz + 2 ^ j) = unat ?sz + 2 ^ j" by (subst unat_add_small) (simp_all add: u)
    then show ?thesis unfolding word_less_nat_alt by simp
  qed
  ultimately show ?thesis using assms(7) a by (simp add: CTAllocateCombined_def Let_def)
qed

theorem small_chunks_aligned_witness:
  "\<exists>G L s p s'. init_for_clustertag x86_globals start_state = Inr (G, L, s) \<and>
     CTAllocateCombined G L 600 64 s = Inr (p, s') \<and> p AND 63 = 0"
proof -
  from init_total [OF start_facts(3), of x86_globals] obtain G L s1 where
    i: "init_for_clustertag x86_globals start_state = Inr (G, L, s1)" and r: "room (persistent s1) 39"
    and c: "calm start_state s1" by blast
  note I = init_ok [OF x86_env start_facts(1,2) i]
  have k: "valid_class 17" by (simp add: valid_class_unat)
  have "drawn_pool 17 s1 = drawn_pool 17 start_state" using c by (intro drawn_pool_random) (simp add: calm_def)
  then have grant: "sys_ret s1 (sys_pos s1) = drawn_pool 17 s1"
    using c start_drawn by (simp add: calm_def) (simp add: start_state_def)
  have pc: "pc_count (ct_per_class s1 17) = 0" by (simp add: I(6) zero_per_class_def)
  from two_mallocs [OF I(2,1) k I(4) [OF k] I(5) r grant pc] obtain p s2 where
    m: "CTAllocateSmallChunk G L 17 s1 = Inr (p, s2)" by blast
  have r64: "RoundUpTo 600 (2 ^ 6) = Inr 640" by code_simp
  have c640: "ClassID SCM 640 = 17" "kMaxSize SCM = 65536" by code_simp+
  have "small_request 600 (2 ^ 6)" "CTAllocateCache G L (if (600 :: uptr) = 0 then 1 else 600) (2 ^ 6) s1 = Inr (p, s2)"
    using r64 c640 m by (simp_all add: small_request_def CTAllocateCache_def CanAllocate_def Let_def)
  from small_chunks_aligned [OF I(2,1) I(3) this(1) _ _ this(2)] i show ?thesis by auto
qed


section \<open>Large chunks\<close>

lemma Map_large_chunk_aligned:
  assumes "Map_large_chunk G n s = Inr (r, s')"
  shows "2 ^ 16 dvd unat r"
proof -
  have "IsAligned r (4096 * 16) = Inr True"
    using assms by (auto simp: Map_large_chunk_def Let_def andThen_eq_Inr split: if_splits)
  moreover have "(4096 * 16 :: uptr) = 2 ^ 16" by simp
  ultimately have "aligned r (2 ^ 16)" by (metis IsAligned_exp sum.inject(2) numeral_less_iff semiring_norm(68,76,78,81))
  then show ?thesis by (simp only: aligned_iff_dvd)
qed

lemma behind_header:
  assumes "2 ^ 16 dvd unat r" "4 < j" "j \<le> 56"
  shows "AddTagToPointer (r + 16) t AND (2 ^ j - 1) \<noteq> 0"
proof -
  obtain q where q: "unat r = 2 ^ 16 * q" using assms(1) by blast
  have "unat r + 16 < 2 ^ 64"
  proof -
    have "65536 * q < 65536 * 2 ^ 48" using unat_less_64 [of r] q by simp
    then have "q \<le> 2 ^ 48 - 1" by simp
    then have "65536 * q \<le> 65536 * (2 ^ 48 - 1)" by (rule mult_le_mono2)
    then show ?thesis unfolding q by simp
  qed
  then have u: "unat (r + 16) = 2 ^ 16 * q + 16" using q by (subst unat_add_small) simp_all
  have "(16 + 32 * (2048 * q)) mod 32 = (16 :: nat)" by (simp only: mod_mult_self2) simp
  then have "\<not> 2 ^ 5 dvd unat (r + 16)" unfolding u by (simp add: dvd_eq_mod_eq_0 add.commute)
  moreover have "(2 :: nat) ^ 5 dvd 2 ^ j" using assms(2) by (intro le_imp_power_dvd) simp
  ultimately have "\<not> 2 ^ j dvd unat (r + 16)" using dvd_trans by blast
  then have "\<not> aligned (r + 16) (2 ^ j)" by (simp only: aligned_iff_dvd not_False_eq_True)
  then show ?thesis using low_bits_tagged [OF assms(3), of "r + 16" t] by (simp add: aligned_def)
qed

text \<open>
  C23. Alignment of large chunks. When a request fits no size class and the alignment is above 16,
  the chunk that is mapped begins 16 bytes behind a multiple of 65536, so the check of
  \<open>CTAllocateCombined\<close> on the alignment fails every time.
\<close>

theorem large_alignment_fails:
  assumes "globals_ok G" "4 < j" "j \<le> 56" "kMaxSize SCM < round_up sz (2 ^ j)" "sz \<noteq> 0" "\<not> sz + 2 ^ j < sz"
    and "CTAllocateCache G L sz (2 ^ j) s = Inr (p, s')" "p \<noteq> 0"
  shows "CTAllocateCombined G L sz (2 ^ j) s = Inl Check_failed"
proof -
  have u: "unat (2 ^ j :: uptr) = 2 ^ j" using assms(3) by (subst unat_pow2) simp_all
  have "(2 :: nat) ^ 4 \<le> 2 ^ j" using assms(2) by (intro power_increasing) simp_all
  then have a: "(8 :: uptr) < 2 ^ j" unfolding word_less_nat_alt u by simp
  have "CTAllocateLargeChunk G sz (2 ^ j) s = Inr (p, s')"
    using assms(3,4,7) a by (auto simp: CTAllocateCache_def CanAllocate_def Let_def not_le split: if_splits)
  then obtain n r s1 t where "Map_large_chunk G n s = Inr (r, s1)" "p = AddTagToPointer (r + 16) t"
    using \<open>p \<noteq> 0\<close> CTAddTag_eq [OF assms(1)]
    by (auto simp: CTAllocateLargeChunk_def Let_def andThen_eq_Inr split_beta split: if_splits)
  with behind_header [OF Map_large_chunk_aligned assms(2,3)] have "p AND (2 ^ j - 1) \<noteq> 0" by blast
  then show ?thesis using assms(5-7) a by (simp add: CTAllocateCombined_def Let_def)
qed

theorem large_alignment_fails_witness:
  "CTAllocateCombined x86_globals empty_layout 0x1fff0 32 (start_state\<lparr>sys_ret := (\<lambda>_. 0x7f0000010000)\<rparr>) = Inl Check_failed"
proof -
  let ?s = "start_state\<lparr>sys_ret := (\<lambda>_. 0x7f0000010000)\<rparr>"
  have G: "globals_ok x86_globals" using x86_env by (simp add: env_ok_def)
  have r1: "RoundUpTo 0x20000 0x1000 = Inr 0x20000" "RoundUpTo 0x30000 0x1000 = Inr 0x30000"
    "RoundUpTo 0x7f0000030000 0x1000 = Inr 0x7f0000030000" "RoundUpTo 0x10000 0x1000 = Inr 0x10000"
    "RoundUpTo 0x1fff0 32 = Inr 0x20000" "IsAligned 0x20000 0x1000 = Inr True"
    "IsAligned 0x7f0000010000 65536 = Inr True" "IsPowerOfTwo 65536" "IsPowerOfTwo 32"
    "kMaxSize SCM = 65536" "round_up 0x1fff0 (2 ^ 5) = 0x20000" by code_simp+
  have "\<exists>r s'. Map_large_chunk x86_globals 0x20000 ?s = Inr (r, s') \<and> r = 0x7f0000010000"
    by (simp add: Map_large_chunk_def MmapAlignedOrDieOnFatalError_def MmapOrDieOnFatalError_def r1 internal_mmap_def
        internal_munmap_def syscall_def IncreaseTotalMmap_def UnmapOrDie_def DecreaseTotalMmap_def Let_def
        x86_globals_def start_state_def zero_range_def CTMapBlackCheck_def)
  then obtain s1 :: cache_state where m: "Map_large_chunk x86_globals 0x20000 ?s = Inr (0x7f0000010000, s1)" by blast
  have pg: "page_size x86_globals = 0x1000" by (simp add: x86_globals_def)
  have "\<exists>t s'. CTAllocateCache x86_globals empty_layout 0x1fff0 32 ?s = Inr (AddTagToPointer 0x7f0000010010 t, s')"
    by (simp add: CTAllocateCache_def CTAllocateLargeChunk_def CanAllocate_def r1 pg m Let_def split_beta
        CTAddTag_eq [OF G]) blast
  then obtain t and s' :: cache_state where
    c: "CTAllocateCache x86_globals empty_layout 0x1fff0 (2 ^ 5) ?s = Inr (AddTagToPointer 0x7f0000010010 t, s')" by auto
  have "AddTagToPointer 0x7f0000010010 t AND (2 ^ 5 - 1) = 0x7f0000010010 AND (2 ^ 5 - 1)" by (rule low_bits_tagged) simp
  then have "AddTagToPointer 0x7f0000010010 t \<noteq> 0" by auto
  from large_alignment_fails [OF G _ _ _ _ _ c this] r1 show ?thesis by simp
qed

end
