(* ===== verification/San_Libc.thy ===== *)
theory San_Libc
  imports Persistent
begin

text \<open>
  The C library of the runtime (\<open>sanitizer_libc.cpp\<close>) on byte memory: a \<open>char *\<close> is the
  address of a byte, a null pointer the word 0. \<open>char\<close> is signed, as on x86-64: a byte read as
  an \<open>int\<close> or an \<open>unsigned\<close> is sign extended (\<open>char_val\<close>). A loop with a counter recurses on
  the number of iterations left. A loop that runs to a terminating zero has fuel, and
  \<open>cstr m p xs\<close> says that the bytes \<open>xs\<close> and a terminating zero stand at \<open>p\<close>; with more fuel than
  \<open>length xs\<close> such a loop returns. The lemmas give the contents of memory after each writer and
  the values of the readers; \<open>memmove_spec\<close> covers overlapping ranges, \<open>memset_fast_eq_slow\<close> the
  two paths of \<open>internal_memset\<close>, \<open>strtoll_spec\<close> the saturating parser.
\<close>

type_synonym memory = "uptr \<Rightarrow> u8"
type_synonym s32 = "32 word"
type_synonym s64 = "64 word"

definition char_val :: "u8 \<Rightarrow> s32" where
  "char_val c = scast c"

section \<open>Memory\<close>

fun memchr_from :: "memory \<Rightarrow> uptr \<Rightarrow> s32 \<Rightarrow> nat \<Rightarrow> uptr" where
  "memchr_from m t c 0 = 0"
| "memchr_from m t c (Suc n) = (if char_val (m t) = c then t else memchr_from m (t + 1) c n)"

definition internal_memchr :: "memory \<Rightarrow> uptr \<Rightarrow> s32 \<Rightarrow> uptr \<Rightarrow> uptr" where
  "internal_memchr m s c n = memchr_from m s c (unat n)"

fun memrchr_from :: "memory \<Rightarrow> uptr \<Rightarrow> s32 \<Rightarrow> nat \<Rightarrow> uptr \<Rightarrow> uptr" where
  "memrchr_from m t c 0 r = r"
| "memrchr_from m t c (Suc n) r = memrchr_from m (t + 1) c n (if char_val (m t) = c then t else r)"

definition internal_memrchr :: "memory \<Rightarrow> uptr \<Rightarrow> s32 \<Rightarrow> uptr \<Rightarrow> uptr" where
  "internal_memrchr m s c n = memrchr_from m s c (unat n) 0"

fun memcmp_from :: "memory \<Rightarrow> uptr \<Rightarrow> uptr \<Rightarrow> nat \<Rightarrow> int" where
  "memcmp_from m t1 t2 0 = 0"
| "memcmp_from m t1 t2 (Suc n) =
     (if m t1 \<noteq> m t2 then if sint (m t1) < sint (m t2) then -1 else 1
      else memcmp_from m (t1 + 1) (t2 + 1) n)"

definition internal_memcmp :: "memory \<Rightarrow> uptr \<Rightarrow> uptr \<Rightarrow> uptr \<Rightarrow> int" where
  "internal_memcmp m s1 s2 n = memcmp_from m s1 s2 (unat n)"

fun copy_up :: "uptr \<Rightarrow> uptr \<Rightarrow> nat \<Rightarrow> memory \<Rightarrow> memory" where
  "copy_up d s 0 m = m"
| "copy_up d s (Suc n) m = copy_up (d + 1) (s + 1) n (m(d := m s))"

fun copy_down :: "uptr \<Rightarrow> uptr \<Rightarrow> nat \<Rightarrow> memory \<Rightarrow> memory" where
  "copy_down d s 0 m = m"
| "copy_down d s (Suc n) m = copy_down d s n (m(d + of_nat n := m (s + of_nat n)))"

definition internal_memcpy :: "uptr \<Rightarrow> uptr \<Rightarrow> uptr \<Rightarrow> memory \<Rightarrow> memory" where
  "internal_memcpy dest src n m = copy_up dest src (unat n) m"

definition internal_memmove :: "uptr \<Rightarrow> uptr \<Rightarrow> uptr \<Rightarrow> memory \<Rightarrow> memory res" where
  "internal_memmove d s n m =
     andThen (check (0 \<le> sint n)) (\<lambda>_.
     Inr (if d < s then copy_up d s (unat n) m
          else if s < d \<and> 0 < sint n then copy_down d s (unat n) m
          else m))"

fun fill_bytes :: "uptr \<Rightarrow> u8 \<Rightarrow> nat \<Rightarrow> memory \<Rightarrow> memory" where
  "fill_bytes t v 0 m = m"
| "fill_bytes t v (Suc n) m = fill_bytes (t + 1) v n (m(t := v))"

text \<open>
  The fast path of \<open>internal_memset\<close>: the byte spread over a word, two words a round. The
  first argument counts the rounds; each advances 16 bytes.
\<close>

definition spread_byte :: "s32 \<Rightarrow> u64" where
  "spread_byte c =
     (let v = scast c;
          v = v OR push_bit 8 v;
          v = v OR push_bit 16 v;
          v = v OR push_bit 32 v
      in v)"

fun fill_words :: "nat \<Rightarrow> uptr \<Rightarrow> uptr \<Rightarrow> u64 \<Rightarrow> memory \<Rightarrow> memory" where
  "fill_words 0 p e v m = m"
| "fill_words (Suc n) p e v m =
     (if p < e then fill_words n (p + 16) e v (store64 p v (store64 (p + 8) v m)) else m)"

definition internal_memset :: "uptr \<Rightarrow> s32 \<Rightarrow> uptr \<Rightarrow> memory \<Rightarrow> memory" where
  "internal_memset s c n m =
     (if s mod 16 = 0 \<and> n mod 16 = 0
      then fill_words (unat n div 16) s (s + 8 * (n div 8)) (spread_byte c) m
      else fill_bytes s (ucast c) (unat n) m)"

section \<open>Strings: readers\<close>

fun strchr_from :: "nat \<Rightarrow> memory \<Rightarrow> uptr \<Rightarrow> s32 \<Rightarrow> uptr res" where
  "strchr_from 0 m s c = Inl Out_of_fuel"
| "strchr_from (Suc n) m s c =
     (if m s = ucast c then Inr s
      else if m s = 0 then Inr 0
      else strchr_from n m (s + 1) c)"

definition internal_strchr :: "nat \<Rightarrow> memory \<Rightarrow> uptr \<Rightarrow> s32 \<Rightarrow> uptr res" where
  "internal_strchr fuel m s c = strchr_from fuel m s c"

fun strlen_from :: "nat \<Rightarrow> memory \<Rightarrow> uptr \<Rightarrow> uptr \<Rightarrow> uptr res" where
  "strlen_from 0 m s i = Inl Out_of_fuel"
| "strlen_from (Suc n) m s i = (if m (s + i) = 0 then Inr i else strlen_from n m s (i + 1))"

definition internal_strlen :: "nat \<Rightarrow> memory \<Rightarrow> uptr \<Rightarrow> uptr res" where
  "internal_strlen fuel m s = strlen_from fuel m s 0"

fun strnlen_from :: "memory \<Rightarrow> uptr \<Rightarrow> nat \<Rightarrow> uptr \<Rightarrow> uptr" where
  "strnlen_from m s 0 i = i"
| "strnlen_from m s (Suc n) i = (if m (s + i) = 0 then i else strnlen_from m s n (i + 1))"

definition internal_strnlen :: "memory \<Rightarrow> uptr \<Rightarrow> uptr \<Rightarrow> uptr" where
  "internal_strnlen m s maxlen = strnlen_from m s (unat maxlen) 0"

fun strcspn_from :: "nat \<Rightarrow> nat \<Rightarrow> memory \<Rightarrow> uptr \<Rightarrow> uptr \<Rightarrow> uptr \<Rightarrow> uptr res" where
  "strcspn_from fuel 0 m s reject i = Inl Out_of_fuel"
| "strcspn_from fuel (Suc n) m s reject i =
     (if m (s + i) = 0 then Inr i
      else andThen (internal_strchr fuel m reject (char_val (m (s + i)))) (\<lambda>r.
        if r \<noteq> 0 then Inr i else strcspn_from fuel n m s reject (i + 1)))"

definition internal_strcspn :: "nat \<Rightarrow> memory \<Rightarrow> uptr \<Rightarrow> uptr \<Rightarrow> uptr res" where
  "internal_strcspn fuel m s reject = strcspn_from fuel fuel m s reject 0"

fun strcmp_from :: "nat \<Rightarrow> memory \<Rightarrow> uptr \<Rightarrow> uptr \<Rightarrow> int res" where
  "strcmp_from 0 m s1 s2 = Inl Out_of_fuel"
| "strcmp_from (Suc n) m s1 s2 =
     (let c1 = char_val (m s1); c2 = char_val (m s2) in
      if c1 \<noteq> c2 then Inr (if c1 < c2 then -1 else 1)
      else if c1 = 0 then Inr 0
      else strcmp_from n m (s1 + 1) (s2 + 1))"

definition internal_strcmp :: "nat \<Rightarrow> memory \<Rightarrow> uptr \<Rightarrow> uptr \<Rightarrow> int res" where
  "internal_strcmp fuel m s1 s2 = strcmp_from fuel m s1 s2"

fun strncmp_from :: "memory \<Rightarrow> uptr \<Rightarrow> uptr \<Rightarrow> nat \<Rightarrow> int" where
  "strncmp_from m s1 s2 0 = 0"
| "strncmp_from m s1 s2 (Suc n) =
     (let c1 = char_val (m s1); c2 = char_val (m s2) in
      if c1 \<noteq> c2 then (if c1 < c2 then -1 else 1)
      else if c1 = 0 then 0
      else strncmp_from m (s1 + 1) (s2 + 1) n)"

definition internal_strncmp :: "memory \<Rightarrow> uptr \<Rightarrow> uptr \<Rightarrow> uptr \<Rightarrow> int" where
  "internal_strncmp m s1 s2 n = strncmp_from m s1 s2 (unat n)"

definition internal_strchrnul :: "nat \<Rightarrow> memory \<Rightarrow> uptr \<Rightarrow> s32 \<Rightarrow> uptr res" where
  "internal_strchrnul fuel m s c =
     andThen (internal_strchr fuel m s c) (\<lambda>r.
     if r = 0 then andThen (internal_strlen fuel m s) (\<lambda>len. Inr (s + len)) else Inr r)"

fun strrchr_from :: "nat \<Rightarrow> memory \<Rightarrow> uptr \<Rightarrow> s32 \<Rightarrow> uptr \<Rightarrow> uptr \<Rightarrow> uptr res" where
  "strrchr_from 0 m s c i r = Inl Out_of_fuel"
| "strrchr_from (Suc n) m s c i r =
     (if m (s + i) = 0 then Inr r
      else strrchr_from n m s c (i + 1) (if char_val (m (s + i)) = c then s + i else r))"

definition internal_strrchr :: "nat \<Rightarrow> memory \<Rightarrow> uptr \<Rightarrow> s32 \<Rightarrow> uptr res" where
  "internal_strrchr fuel m s c = strrchr_from fuel m s c 0 0"

fun strstr_from :: "memory \<Rightarrow> uptr \<Rightarrow> uptr \<Rightarrow> uptr \<Rightarrow> nat \<Rightarrow> uptr \<Rightarrow> uptr" where
  "strstr_from m haystack needle len2 0 pos = 0"
| "strstr_from m haystack needle len2 (Suc n) pos =
     (if internal_memcmp m (haystack + pos) needle len2 = 0 then haystack + pos
      else strstr_from m haystack needle len2 n (pos + 1))"

definition internal_strstr :: "nat \<Rightarrow> memory \<Rightarrow> uptr \<Rightarrow> uptr \<Rightarrow> uptr res" where
  "internal_strstr fuel m haystack needle =
     andThen (internal_strlen fuel m haystack) (\<lambda>len1.
     andThen (internal_strlen fuel m needle) (\<lambda>len2.
     Inr (if len1 < len2 then 0
          else strstr_from m haystack needle len2 (Suc (unat (len1 - len2))) 0)))"

text \<open>Wide strings have 32-bit characters.\<close>

definition load32 :: "memory \<Rightarrow> uptr \<Rightarrow> u32" where
  "load32 m p = foldr (\<lambda>i acc. push_bit (8 * i) (ucast (m (p + of_nat i))) OR acc) [0..<4] 0"

fun wcslen_from :: "nat \<Rightarrow> memory \<Rightarrow> uptr \<Rightarrow> uptr \<Rightarrow> uptr res" where
  "wcslen_from 0 m s i = Inl Out_of_fuel"
| "wcslen_from (Suc n) m s i = (if load32 m (s + 4 * i) = 0 then Inr i else wcslen_from n m s (i + 1))"

definition internal_wcslen :: "nat \<Rightarrow> memory \<Rightarrow> uptr \<Rightarrow> uptr res" where
  "internal_wcslen fuel m s = wcslen_from fuel m s 0"

fun wcsnlen_from :: "memory \<Rightarrow> uptr \<Rightarrow> nat \<Rightarrow> uptr \<Rightarrow> uptr" where
  "wcsnlen_from m s 0 i = i"
| "wcsnlen_from m s (Suc n) i = (if load32 m (s + 4 * i) = 0 then i else wcsnlen_from m s n (i + 1))"

definition internal_wcsnlen :: "memory \<Rightarrow> uptr \<Rightarrow> uptr \<Rightarrow> uptr" where
  "internal_wcsnlen m s maxlen = wcsnlen_from m s (unat maxlen) 0"

section \<open>Strings: writers\<close>

definition internal_strdup :: "nat \<Rightarrow> uptr \<Rightarrow> 'a pool_state_scheme \<Rightarrow> (uptr \<times> 'a pool_state_scheme) res" where
  "internal_strdup fuel s st =
     andThen (internal_strlen fuel (mem st) s) (\<lambda>len.
     andThen (persistent_allocate (len + 1) st) (\<lambda>(s2, st).
     let st = st\<lparr>mem := internal_memcpy s2 s len (mem st)\<rparr>;
         st = st\<lparr>mem := (mem st)(s2 + len := 0)\<rparr>
     in Inr (s2, st)))"

definition internal_strlcat :: "nat \<Rightarrow> uptr \<Rightarrow> uptr \<Rightarrow> uptr \<Rightarrow> memory \<Rightarrow> (uptr \<times> memory) res" where
  "internal_strlcat fuel dst src maxlen m =
     andThen (internal_strlen fuel m src) (\<lambda>srclen.
     let dstlen = internal_strnlen m dst maxlen in
     if dstlen = maxlen then Inr (maxlen + srclen, m)
     else if srclen < maxlen - dstlen then
       andThen (internal_memmove (dst + dstlen) src (srclen + 1) m) (\<lambda>m. Inr (dstlen + srclen, m))
     else
       andThen (internal_memmove (dst + dstlen) src (maxlen - dstlen - 1) m) (\<lambda>m.
       Inr (dstlen + srclen, m(dst + maxlen - 1 := 0))))"

text \<open>The copying loop of \<open>internal_strncat\<close> and \<open>internal_strncpy\<close>: up to \<open>n\<close> nonzero bytes.\<close>

fun copy_str :: "uptr \<Rightarrow> uptr \<Rightarrow> nat \<Rightarrow> uptr \<Rightarrow> memory \<Rightarrow> uptr \<times> memory" where
  "copy_str d s 0 i m = (i, m)"
| "copy_str d s (Suc n) i m =
     (if m (s + i) = 0 then (i, m) else copy_str d s n (i + 1) (m(d + i := m (s + i))))"

definition internal_strncat :: "nat \<Rightarrow> uptr \<Rightarrow> uptr \<Rightarrow> uptr \<Rightarrow> memory \<Rightarrow> memory res" where
  "internal_strncat fuel dst src n m =
     andThen (internal_strlen fuel m dst) (\<lambda>len.
     let (i, m) = copy_str (dst + len) src (unat n) 0 m in Inr (m(dst + len + i := 0)))"

definition internal_strlcpy :: "nat \<Rightarrow> uptr \<Rightarrow> uptr \<Rightarrow> uptr \<Rightarrow> memory \<Rightarrow> (uptr \<times> memory) res" where
  "internal_strlcpy fuel dst src maxlen m =
     andThen (internal_strlen fuel m src) (\<lambda>srclen.
     if srclen < maxlen then
       andThen (internal_memmove dst src (srclen + 1) m) (\<lambda>m. Inr (srclen, m))
     else if maxlen \<noteq> 0 then
       andThen (internal_memmove dst src (maxlen - 1) m) (\<lambda>m. Inr (srclen, m(dst + maxlen - 1 := 0)))
     else Inr (srclen, m))"

definition internal_strncpy :: "uptr \<Rightarrow> uptr \<Rightarrow> uptr \<Rightarrow> memory \<Rightarrow> memory" where
  "internal_strncpy dst src n m =
     (let (i, m) = copy_str dst src (unat n) 0 m in internal_memset (dst + i) 0 (n - i) m)"

section \<open>Numbers\<close>

definition IsSpace :: "s32 \<Rightarrow> bool" where
  "IsSpace c \<longleftrightarrow> c = 0x20 \<or> c = 0x0A \<or> c = 0x09 \<or> c = 0x0C \<or> c = 0x0D \<or> c = 0x0B"

definition IsDigit :: "s32 \<Rightarrow> bool" where
  "IsDigit c \<longleftrightarrow> sint (0x30 :: s32) \<le> sint c \<and> sint c \<le> sint (0x39 :: s32)"

definition ToLower :: "s32 \<Rightarrow> s32" where
  "ToLower c = (if sint (0x41 :: s32) \<le> sint c \<and> sint c \<le> sint (0x5A :: s32) then c + 0x61 - 0x41 else c)"

fun skip_space :: "nat \<Rightarrow> memory \<Rightarrow> uptr \<Rightarrow> uptr res" where
  "skip_space 0 m p = Inl Out_of_fuel"
| "skip_space (Suc n) m p = (if IsSpace (char_val (m p)) then skip_space n m (p + 1) else Inr p)"

definition UINT64_MAX :: u64 where "UINT64_MAX = - 1"

definition INT64_MAX :: u64 where "INT64_MAX = push_bit 63 1 - 1"

definition INT64_MIN :: s64 where "INT64_MIN = push_bit 63 1"

definition add_digit :: "u64 \<Rightarrow> u8 \<Rightarrow> u64" where
  "add_digit r c =
     (let r = (if r \<le> UINT64_MAX div 10 then r * 10 else UINT64_MAX);
          digit = scast (char_val c - 0x30) :: u64
      in if r \<le> UINT64_MAX - digit then r + digit else UINT64_MAX)"

fun read_digits :: "nat \<Rightarrow> memory \<Rightarrow> uptr \<Rightarrow> u64 \<Rightarrow> bool \<Rightarrow> (u64 \<times> bool \<times> uptr) res" where
  "read_digits 0 m p r have_digits = Inl Out_of_fuel"
| "read_digits (Suc n) m p r have_digits =
     (if IsDigit (char_val (m p)) then read_digits n m (p + 1) (add_digit r (m p)) True
      else Inr (r, have_digits, p))"

text \<open>The number and the end pointer the code stores when it is asked for one.\<close>

definition internal_simple_strtoll :: "nat \<Rightarrow> memory \<Rightarrow> uptr \<Rightarrow> int \<Rightarrow> (s64 \<times> uptr) res" where
  "internal_simple_strtoll fuel m nptr base =
     andThen (check (base = 10)) (\<lambda>_.
     andThen (skip_space fuel m nptr) (\<lambda>nptr.
     let old_nptr = nptr;
         sgn = (if m nptr = 0x2B then 1 else if m nptr = 0x2D then - 1 else 1 :: int);
         nptr = (if m nptr = 0x2B then nptr + 1 else if m nptr = 0x2D then nptr + 1 else nptr)
     in andThen (read_digits fuel m nptr 0 False) (\<lambda>(r, have_digits, nptr).
        let endptr = (if have_digits then nptr else old_nptr) in
        Inr (if 0 < sgn then San_Min INT64_MAX r
             else if INT64_MAX < r then INT64_MIN else r * - 1, endptr))))"

definition internal_atoll :: "nat \<Rightarrow> memory \<Rightarrow> uptr \<Rightarrow> s64 res" where
  "internal_atoll fuel m nptr = andThen (internal_simple_strtoll fuel m nptr 10) (\<lambda>(v, e). Inr v)"

section \<open>Checking a range for zeros\<close>

fun or_bytes :: "nat \<Rightarrow> memory \<Rightarrow> uptr \<Rightarrow> uptr \<Rightarrow> uptr \<Rightarrow> uptr" where
  "or_bytes 0 m p e acc = acc"
| "or_bytes (Suc n) m p e acc = (if p < e then or_bytes n m (p + 1) e (acc OR scast (m p)) else acc)"

fun or_words :: "nat \<Rightarrow> memory \<Rightarrow> uptr \<Rightarrow> uptr \<Rightarrow> uptr \<Rightarrow> uptr" where
  "or_words 0 m p e acc = acc"
| "or_words (Suc n) m p e acc = (if p < e then or_words n m (p + 8) e (acc OR load64 m p) else acc)"

text \<open>
  The prologue and the epilogue run at most 8 bytes; the middle loop at most one round for
  each 8 bytes.
\<close>

definition mem_is_zero :: "memory \<Rightarrow> uptr \<Rightarrow> uptr \<Rightarrow> bool res" where
  "mem_is_zero m beg sz =
     andThen (check (sz \<le> push_bit 40 1)) (\<lambda>_.
     let e = beg + sz in
     andThen (RoundUpTo beg 8) (\<lambda>aligned_beg.
     let aligned_end = RoundDownTo e 8;
         acc = or_bytes 8 m beg (San_Min aligned_beg e) 0;
         acc = or_words (unat sz div 8) m aligned_beg aligned_end acc;
         acc = (if beg \<le> aligned_end then or_bytes 8 m aligned_end e acc else acc)
     in Inr (acc = 0)))"

section \<open>Copying and filling\<close>

lemma in_range_Suc:
  "Suc n < 2 ^ 64 \<Longrightarrow> q - d < (of_nat (Suc n) :: uptr) \<longleftrightarrow> q = d \<or> q - (d + 1) < of_nat n"
proof -
  assume n: "Suc n < 2 ^ 64"
  have u: "unat (of_nat (Suc n) :: uptr) = Suc n" "unat (of_nat n :: uptr) = n"
    using n by (simp_all add: unat_of_nat_small del: of_nat_Suc)
  show ?thesis
  proof (cases "q = d")
    case True then show ?thesis using u by (simp only: word_less_nat_alt) simp
  next
    case False
    then have "q - d \<noteq> 0" by simp
    then have "unat (q - d - 1) = unat (q - d) - 1" "0 < unat (q - d)"
      by (simp_all add: unat_minus_one word_neq_0_conv unat_gt_0)
    then show ?thesis using False u by (simp only: word_less_nat_alt) (simp add: algebra_simps, linarith)
  qed
qed

lemma fill_bytes_spec:
  "n < 2 ^ 64 \<Longrightarrow> fill_bytes t v n m q = (if q - t < of_nat n then v else m q)"
proof (induction n arbitrary: t m)
  case (Suc n)
  have "\<not> t - (t + 1) < (of_nat n :: uptr)" by (simp add: not_less)
  with Suc show ?case by (simp only: fill_bytes.simps in_range_Suc) auto
qed simp

lemma copy_up_spec:
  assumes "n < 2 ^ 64" "\<And>i j. i < j \<Longrightarrow> j < n \<Longrightarrow> d + of_nat i \<noteq> s + (of_nat j :: uptr)"
  shows "copy_up d s n m q = (if q - d < of_nat n then m (s + (q - d)) else m q)"
  using assms
proof (induction n arbitrary: d s m)
  case (Suc n)
  have far: "d \<noteq> s + of_nat j" if "0 < j" "j < Suc n" for j using Suc.prems(2) [of 0 j] that by simp
  have "copy_up (d + 1) (s + 1) n (m(d := m s)) q =
      (if q - (d + 1) < of_nat n then (m(d := m s)) (s + 1 + (q - (d + 1))) else (m(d := m s)) q)"
    using Suc.prems(2) [of "Suc _" "Suc _"] Suc.prems(1)
    by (intro Suc.IH) (simp_all add: algebra_simps)
  moreover have "s + 1 + (q - (d + 1)) \<noteq> d" if "q - (d + 1) < of_nat n"
  proof -
    have "unat (q - (d + 1)) < n" using that Suc.prems(1) by (simp add: word_less_nat_alt unat_of_nat_small)
    then have "d \<noteq> s + of_nat (Suc (unat (q - (d + 1))))" by (intro far) simp_all
    then show ?thesis by (auto simp: algebra_simps)
  qed
  moreover have "\<not> d - (d + 1) < (of_nat n :: uptr)" by (simp add: not_less)
  ultimately show ?case using Suc.prems(1) by (simp only: copy_up.simps in_range_Suc) (auto simp: algebra_simps)
qed simp


lemma in_range_last:
  "Suc n < 2 ^ 64 \<Longrightarrow> q - d < (of_nat (Suc n) :: uptr) \<longleftrightarrow> q = d + of_nat n \<or> q - d < of_nat n"
proof -
  assume n: "Suc n < 2 ^ 64"
  have u: "unat (of_nat (Suc n) :: uptr) = Suc n" "unat (of_nat n :: uptr) = n"
    using n by (simp_all add: unat_of_nat_small del: of_nat_Suc)
  have "q = d + of_nat n \<longleftrightarrow> q - d = of_nat n" by (auto simp: algebra_simps)
  also have "\<dots> \<longleftrightarrow> unat (q - d) = n" using u(2) by (auto simp: word_unat_eq_iff)
  finally show ?thesis using u by (simp only: word_less_nat_alt) linarith
qed

lemma copy_down_spec:
  assumes "n < 2 ^ 64" "\<And>i j. i < j \<Longrightarrow> j < n \<Longrightarrow> d + of_nat j \<noteq> s + (of_nat i :: uptr)"
  shows "copy_down d s n m q = (if q - d < of_nat n then m (s + (q - d)) else m q)"
  using assms
proof (induction n arbitrary: m)
  case (Suc n)
  let ?m = "m(d + of_nat n := m (s + of_nat n))"
  have "copy_down d s n ?m q = (if q - d < of_nat n then ?m (s + (q - d)) else ?m q)"
    using Suc.prems by (intro Suc.IH) simp_all
  moreover have "s + (q - d) \<noteq> d + of_nat n" if "q - d < of_nat n"
  proof -
    have "unat (q - d) < n" using that Suc.prems(1) by (simp add: word_less_nat_alt unat_of_nat_small)
    then have "d + of_nat n \<noteq> s + of_nat (unat (q - d))" by (intro Suc.prems(2)) simp_all
    then show ?thesis by simp
  qed
  moreover have "\<not> d + of_nat n - d < (of_nat n :: uptr)" by simp
  ultimately show ?case using Suc.prems(1) by (simp only: copy_down.simps in_range_last) auto
qed simp

lemma no_wrap_add:
  "unat p + n \<le> 2 ^ 64 \<Longrightarrow> i < n \<Longrightarrow> unat (p + of_nat i :: uptr) = unat p + i"
  by (subst unat_add_small) (simp_all add: unat_of_nat_small)

lemma sint_small: "unat x < 2 ^ 63 \<Longrightarrow> sint (x :: 64 word) = int (unat x)"
proof -
  assume "unat x < 2 ^ 63"
  then have "int (unat x) < int (2 ^ 63)" by (simp only: of_nat_less_iff)
  then have "signed_take_bit 63 (int (unat x)) = int (unat x)"
    by (intro signed_take_bit_int_eq_self order_trans [OF _ of_nat_0_le_iff]) simp_all
  moreover have "sint x = signed_take_bit 63 (int (unat x))" by (simp only: sint_uint uint_nat) simp
  ultimately show ?thesis by simp
qed

lemma memmove_spec:
  assumes "unat d + unat n \<le> 2 ^ 64" "unat s + unat n \<le> 2 ^ 64" "unat n < 2 ^ 63"
  shows "internal_memmove d s n m = Inr (\<lambda>q. if q - d < n then m (s + (q - d)) else m q)"
proof -
  have n: "0 \<le> sint n" using assms(3) by (simp only: sint_small)
  have "0 < int (unat n) \<longleftrightarrow> n \<noteq> 0" by (simp only: of_nat_0_less_iff unat_gt_0)
  then have pos: "0 < sint n \<longleftrightarrow> n \<noteq> 0" by (simp only: sint_small [OF assms(3)])
  have lt: "unat n < 2 ^ 64" by simp
  have up: "copy_up d s (unat n) m = (\<lambda>q. if q - d < n then m (s + (q - d)) else m q)" if "d < s"
  proof (rule ext, subst copy_up_spec [OF lt])
    fix i j assume "i < j" "j < unat n"
    then have "unat (d + of_nat i) < unat (s + of_nat j)" using that
      by (simp add: no_wrap_add [OF assms(1)] no_wrap_add [OF assms(2)] word_less_nat_alt)
    then show "d + of_nat i \<noteq> s + of_nat j" by auto
  qed simp
  have down: "copy_down d s (unat n) m = (\<lambda>q. if q - d < n then m (s + (q - d)) else m q)" if "s < d"
  proof (rule ext, subst copy_down_spec [OF lt])
    fix i j assume "i < j" "j < unat n"
    then have "unat (s + of_nat i) < unat (d + of_nat j)" using that
      by (simp add: no_wrap_add [OF assms(1)] no_wrap_add [OF assms(2)] word_less_nat_alt)
    then show "d + of_nat j \<noteq> s + of_nat i" by auto
  qed simp
  show ?thesis using n up down pos
    by (cases d s rule: linorder_cases) (auto simp: internal_memmove_def fun_eq_iff)
qed

lemma memcpy_spec:
  assumes "\<And>i j. i < j \<Longrightarrow> j < unat n \<Longrightarrow> d + of_nat i \<noteq> s + (of_nat j :: uptr)"
  shows "internal_memcpy d s n m = (\<lambda>q. if q - d < n then m (s + (q - d)) else m q)"
  unfolding internal_memcpy_def by (rule ext, subst copy_up_spec) (use assms in simp_all)

section \<open>The two paths of \<open>internal_memset\<close>\<close>

lemma bit_double:
  assumes "\<And>i. bit (w :: u64) i \<longleftrightarrow> i < k \<and> bit b (i mod 8)" "8 dvd k" "2 * k \<le> 64"
  shows "bit (w OR push_bit k w) i \<longleftrightarrow> i < 2 * k \<and> bit b (i mod 8)"
proof -
  obtain c where c: "k = 8 * c" using assms(2) by (elim dvdE)
  have "(i - k) mod 8 = i mod 8" if le: "k \<le> i"
  proof -
    obtain d where "i = d + 8 * c" using le c le_iff_add [of "8 * c" i] by (auto simp: add.commute)
    then show ?thesis by (simp add: c)
  qed
  then show ?thesis using assms(3) by (auto simp: bit_or_iff bit_push_bit_iff assms(1))
qed

lemma bit_spread: "bit (spread_byte (ucast (b :: u8))) n \<longleftrightarrow> n < 64 \<and> bit b (n mod 8)"
proof -
  have v: "bit (scast (ucast b :: s32) :: u64) i \<longleftrightarrow> i < 8 \<and> bit b (i mod 8)" for i
  proof (cases "i < 8")
    case False
    then have "\<not> bit b i" "\<not> bit b (min 31 i)"
      using bit_imp_le_length [of b i] bit_imp_le_length [of b "min 31 i"] by (auto simp: min_def split: if_splits)
    then show ?thesis using False by (simp add: bit_simps min.commute)
  qed (auto simp: bit_simps min_def)
  from bit_double [OF bit_double [OF bit_double [OF v]], of n] show ?thesis
    by (simp add: spread_byte_def Let_def)
qed

lemma store64_spread:
  "store64 p (spread_byte (ucast b)) m = (\<lambda>q. if q - p < 8 then b else m q)"
proof (rule ext)
  fix q
  have "ucast (drop_bit (8 * k) (spread_byte (ucast b))) = b" if "k < 8" for k
  proof (rule bit_word_eqI)
    fix n assume "n < LENGTH(8)"
    then show "bit (ucast (drop_bit (8 * k) (spread_byte (ucast b))) :: u8) n = bit b n"
      using that by (auto simp: bit_simps bit_spread)
  qed
  moreover have "unat (q - p) < 8" if "q - p < 8" using that by (simp add: word_less_nat_alt)
  ultimately show "store64 p (spread_byte (ucast b)) m q = (if q - p < 8 then b else m q)"
    by (simp add: store64_def)
qed

lemma less_add_of_nat: "unat s + k < 2 ^ 64 \<Longrightarrow> 0 < k \<Longrightarrow> s < s + (of_nat k :: uptr)"
  by (simp add: word_less_nat_alt no_wrap_add [of s "Suc k" k] del: of_nat_Suc)

lemma in_range_split:
  assumes "k + n < 2 ^ 64"
  shows "q - p < of_nat (k + n) \<longleftrightarrow> q - p < of_nat k \<or> q - (p + of_nat k) < (of_nat n :: uptr)"
proof -
  have u: "unat (of_nat (k + n) :: uptr) = k + n" "unat (of_nat k :: uptr) = k" "unat (of_nat n :: uptr) = n"
    using assms by (simp_all add: unat_of_nat_small del: of_nat_add)
  have q: "q - (p + of_nat k) = q - p - of_nat k" by (simp add: algebra_simps)
  show ?thesis
  proof (cases "q - p < of_nat k")
    case True
    then show ?thesis by (simp add: word_less_nat_alt u del: of_nat_add)
  next
    case False
    then have "unat (q - p - of_nat k) = unat (q - p) - k" using u by (simp only: unat_sub not_less)
    with False show ?thesis using u by (simp only: word_less_nat_alt q) arith
  qed
qed

lemma fill_words_spec:
  assumes "unat s + 16 * n < 2 ^ 64"
  shows "fill_words n s (s + of_nat (16 * n)) (spread_byte (ucast b)) m q =
    (if q - s < of_nat (16 * n) then b else m q)"
  using assms
proof (induction n arbitrary: s m)
  case (Suc n)
  let ?e = "s + of_nat (16 * Suc n)"
  have lt: "s < ?e" using Suc.prems by (intro less_add_of_nat) simp_all
  have s16: "unat (s + 16) = unat s + 16" using Suc.prems by (subst unat_add_small) simp_all
  have e: "?e = s + 16 + of_nat (16 * n)" by simp
  let ?v = "spread_byte (ucast b)"
  let ?m = "store64 s ?v (store64 (s + 8) ?v m)"
  have "fill_words n (s + 16) (s + 16 + of_nat (16 * n)) ?v ?m q =
      (if q - (s + 16) < of_nat (16 * n) then b else ?m q)"
    using Suc.prems s16 by (intro Suc.IH) simp
  moreover have "fill_words (Suc n) s ?e ?v m = fill_words n (s + 16) ?e ?v ?m" using lt by simp
  ultimately have "fill_words (Suc n) s ?e ?v m q =
      (if q - (s + 16) < of_nat (16 * n) then b else if q - s < 8 then b else if q - (s + 8) < 8 then b else m q)"
    by (simp only: e store64_spread)
  moreover have "q - s < of_nat (16 * Suc n) \<longleftrightarrow> q - s < of_nat 16 \<or> q - (s + of_nat 16) < of_nat (16 * n)"
    using in_range_split [of 16 "16 * n" q s] Suc.prems by simp
  moreover have "q - s < of_nat 16 \<longleftrightarrow> q - s < of_nat 8 \<or> q - (s + of_nat 8) < of_nat 8"
    using in_range_split [of 8 8 q s] Suc.prems by simp
  ultimately show ?case by auto
qed simp

text \<open>A byte value fills the range whichever path the alignment selects.\<close>

lemma memset_spec:
  assumes "unat s + unat n < 2 ^ 64"
  shows "internal_memset s (ucast (b :: u8)) n m = (\<lambda>q. if q - s < n then b else m q)"
proof (rule ext)
  fix q
  show "internal_memset s (ucast b) n m q = (if q - s < n then b else m q)"
  proof (cases "s mod 16 = 0 \<and> n mod 16 = 0")
    case True
    have "unat (n mod 16) = 0" using True by (simp only: unsigned_0)
    then have z: "unat n mod 16 = 0" by (simp only: unat_mod_distrib) simp
    then have e: "16 * (unat n div 16) = unat n" by auto
    have "unat (n div 8) = unat n div 8" by (simp only: unat_div_distrib) simp
    moreover have "8 * (unat n div 8) = unat n" using z by presburger
    moreover have "unat n < 2 ^ 64" using assms by simp
    ultimately have "unat (8 * (n div 8)) = unat n" by (subst unat_mult_small) simp_all
    then have "8 * (n div 8) = n" by (simp only: word_unat_eq_iff)
    then show ?thesis using fill_words_spec [of s "unat n div 16" b m q] True assms
      by (simp add: internal_memset_def e)
  next
    case False
    have "(ucast (ucast b :: s32) :: u8) = b" by (rule bit_word_eqI) (simp add: bit_simps)
    with False show ?thesis by (auto simp: internal_memset_def fill_bytes_spec)
  qed
qed

section \<open>Terminated strings\<close>

fun cstr :: "memory \<Rightarrow> uptr \<Rightarrow> u8 list \<Rightarrow> bool" where
  "cstr m p [] \<longleftrightarrow> m p = 0"
| "cstr m p (x # xs) \<longleftrightarrow> m p = x \<and> x \<noteq> 0 \<and> cstr m (p + 1) xs"

lemma cstr_byte: "cstr m p xs \<Longrightarrow> i \<le> length xs \<Longrightarrow> m (p + of_nat i) = (xs @ [0]) ! i"
proof (induction xs arbitrary: p i)
  case (Cons x xs)
  then show ?case using Cons.IH [of "p + 1" "i - 1"] by (cases i) (auto simp: algebra_simps)
qed simp

lemma cstr_nonzero: "cstr m p xs \<Longrightarrow> 0 \<notin> set xs"
  by (induction xs arbitrary: p) auto

lemma cstrI: "0 \<notin> set xs \<Longrightarrow> (\<And>i. i \<le> length xs \<Longrightarrow> m (p + of_nat i) = (xs @ [0]) ! i) \<Longrightarrow> cstr m p xs"
proof (induction xs arbitrary: p)
  case Nil
  then show ?case using Nil(2) [of 0] by simp
next
  case (Cons x xs)
  have "m (p + 1 + of_nat i) = (xs @ [0]) ! i" if "i \<le> length xs" for i
    using Cons.prems(2) [of "Suc i"] that by (simp add: algebra_simps)
  then show ?case using Cons.IH [of "p + 1"] Cons.prems(1) Cons.prems(2) [of 0] by auto
qed

lemma strlen_from_spec:
  "cstr m (s + i) xs \<Longrightarrow> length xs < n \<Longrightarrow> strlen_from n m s i = Inr (i + of_nat (length xs))"
proof (induction xs arbitrary: i n)
  case Nil then show ?case by (cases n) auto
next
  case (Cons x xs)
  then show ?case by (cases n) (auto simp: algebra_simps Cons.IH)
qed

lemma strlen_spec: "cstr m s xs \<Longrightarrow> length xs < n \<Longrightarrow> internal_strlen n m s = Inr (of_nat (length xs))"
  using strlen_from_spec [of m s 0 xs n] by (simp add: internal_strlen_def)

lemma strnlen_from_spec:
  "cstr m (s + i) xs \<Longrightarrow> strnlen_from m s n i = i + of_nat (min n (length xs))"
proof (induction xs arbitrary: i n)
  case Nil then show ?case by (cases n) auto
next
  case (Cons x xs)
  then show ?case by (cases n) (auto simp: algebra_simps Cons.IH)
qed

lemma strnlen_spec: "cstr m s xs \<Longrightarrow> internal_strnlen m s maxlen = of_nat (min (unat maxlen) (length xs))"
  using strnlen_from_spec [of m s 0 xs] by (simp add: internal_strnlen_def)

lemma strnlen_from_le: "i \<le> strnlen_from m s n i \<or> 2 ^ 64 \<le> unat i + n"
proof (induction n arbitrary: i)
  case (Suc n)
  have "i \<le> i + 1 \<or> 2 ^ 64 \<le> unat i + Suc n"
  proof (cases "unat i + 1 < 2 ^ 64")
    case True then show ?thesis by (simp add: word_le_nat_alt unat_add_small)
  qed simp
  moreover have "unat (i + 1) \<le> unat i + 1" by (simp add: unat_word_ariths)
  ultimately show ?case using Suc.IH [of "i + 1"] by (auto intro: order_trans)
qed simp

text \<open>\<open>internal_strchr\<close> returns the first position of the byte, the terminating zero included.\<close>

lemma strchr_from_spec:
  "cstr m s xs \<Longrightarrow> length xs < n \<Longrightarrow> strchr_from n m s c =
     Inr (if ucast c \<in> set (xs @ [0]) then s + of_nat (length (takeWhile (\<lambda>x. x \<noteq> ucast c) (xs @ [0]))) else 0)"
proof (induction xs arbitrary: s n)
  case Nil then show ?case by (cases n) auto
next
  case (Cons x xs)
  then show ?case by (cases n) (auto simp: algebra_simps Cons.IH)
qed

lemma strrchr_from_spec:
  "cstr m (s + i) xs \<Longrightarrow> length xs < n \<Longrightarrow> strrchr_from n m s c i r =
     Inr (if c \<in> char_val ` set xs
          then s + i + of_nat (length xs - 1 - length (takeWhile (\<lambda>x. char_val x \<noteq> c) (rev xs))) else r)"
proof (induction xs arbitrary: i n r)
  case Nil then show ?case by (cases n) auto
next
  case (Cons x xs)
  obtain k where k: "n = Suc k" using Cons.prems by (cases n) auto
  have IH: "strrchr_from k m s c (i + 1) r' = Inr (if c \<in> char_val ` set xs
      then s + (i + 1) + of_nat (length xs - 1 - length (takeWhile (\<lambda>x. char_val x \<noteq> c) (rev xs))) else r')" for r'
    using Cons.prems k by (intro Cons.IH) (auto simp: algebra_simps)
  show ?case
  proof (cases "c \<in> char_val ` set xs")
    case True
    have "length (takeWhile (\<lambda>x. char_val x \<noteq> c) (rev xs)) \<noteq> length (rev xs)"
      using True takeWhile_eq_take [of "\<lambda>x. char_val x \<noteq> c" "rev xs"]
        takeWhile_eq_all_conv [of "\<lambda>x. char_val x \<noteq> c" "rev xs"] by auto
    moreover have "length (takeWhile (\<lambda>x. char_val x \<noteq> c) (rev xs)) \<le> length (rev xs)"
      by (rule length_takeWhile_le)
    ultimately have t: "length (takeWhile (\<lambda>x. char_val x \<noteq> c) (rev xs)) < length xs" by simp
    have "takeWhile (\<lambda>x. char_val x \<noteq> c) (rev xs @ [x]) = takeWhile (\<lambda>x. char_val x \<noteq> c) (rev xs)"
      using True by (auto intro: takeWhile_append1)
    moreover have "of_nat (length xs - length (takeWhile (\<lambda>x. char_val x \<noteq> c) (rev xs))) =
        (1 + of_nat (length xs - 1 - length (takeWhile (\<lambda>x. char_val x \<noteq> c) (rev xs))) :: uptr)"
      using t by (simp only: of_nat_Suc [symmetric]) (simp add: Suc_diff_Suc)
    ultimately show ?thesis using True Cons.prems k by (simp add: IH)
  next
    case False
    then have "\<forall>y \<in> set (rev xs). char_val y \<noteq> c" by auto
    then have "takeWhile (\<lambda>x. char_val x \<noteq> c) (rev xs @ [x]) = rev xs @ (if char_val x = c then [] else [x])"
      by (subst takeWhile_append2) auto
    then show ?thesis using False Cons.prems k by (auto simp: IH)
  qed
qed

lemma memcmp_eq_0: "memcmp_from m a b n = 0 \<longleftrightarrow> (\<forall>i < n. m (a + of_nat i) = m (b + of_nat i))"
proof (induction n arbitrary: a b)
  case (Suc n)
  show ?case by (simp add: Suc.IH All_less_Suc2 algebra_simps)
qed simp

lemma signed_byte_arith:
  "0 \<le> u \<Longrightarrow> u < 256 \<Longrightarrow> ((u + 128) mod 256 - 128) mod 4294967296 = (if u < 128 then u else u + 4294967040)"
  for u :: int
proof (cases "u < 128")
  case False
  assume u: "0 \<le> u" "u < 256"
  have "(u - 128 + 256) mod 256 = u - 128" using False u by (subst mod_add_self2) (rule mod_pos_pos_trivial, simp_all)
  then have "(u + 128) mod 256 = u - 128" by (simp add: algebra_simps)
  moreover have "(u - 128 - 128) mod 4294967296 = u - 256 + 4294967296"
    using u mod_add_self2 [of "u - 256" "4294967296"] mod_pos_pos_trivial [of "u - 256 + 4294967296" 4294967296]
    by simp
  ultimately show ?thesis using False by simp
qed simp

lemma uint_char_val: "uint (char_val c) = (if uint c < 128 then uint c else uint c + 4294967040)"
proof -
  have b: "0 \<le> uint c" "uint c < 256" using uint_lt2p [of c] by simp_all
  have "sint c = (uint c + 128) mod 256 - 128"
    by (simp add: sint_uint signed_take_bit_eq_take_bit_shift take_bit_eq_mod)
  moreover have "uint (char_val c) = sint c mod 4294967296"
    by (simp only: char_val_def scast_eq uint_word_of_int_eq take_bit_eq_mod) simp
  ultimately show ?thesis using signed_byte_arith [OF b] by simp
qed

text \<open>Sign extension keeps the order of bytes when the results are compared as \<open>unsigned\<close>.\<close>

lemma char_val_less: "char_val a < char_val b \<longleftrightarrow> a < b"
  using uint_lt2p [of a] uint_lt2p [of b] by (auto simp: word_less_def uint_char_val)

lemma char_val_inj [simp]: "char_val a = char_val b \<longleftrightarrow> a = b"
  using char_val_less [of a b] char_val_less [of b a] by (cases a b rule: linorder_cases) auto

lemma char_val_0 [simp]: "char_val c = 0 \<longleftrightarrow> c = 0"
  using char_val_inj [of c 0] by (simp add: char_val_def)

text \<open>\<open>internal_strcmp\<close> is the lexicographic order of strings of unsigned bytes.\<close>

lemma strcmp_from_spec:
  "cstr m s xs \<Longrightarrow> cstr m t ys \<Longrightarrow> length xs < n \<Longrightarrow>
   strcmp_from n m s t = Inr (if xs = ys then 0 else if ord_class.lexordp xs ys then -1 else 1)"
proof (induction xs arbitrary: s t ys n)
  case Nil
  then show ?case by (cases n; cases ys) (auto simp: char_val_less word_neq_0_conv)
next
  case (Cons x xs)
  obtain k where k: "n = Suc k" using Cons.prems by (cases n) auto
  show ?case
  proof (cases ys)
    case Nil
    then show ?thesis using Cons.prems k by (auto simp: char_val_less)
  next
    case (Cons y zs)
    then show ?thesis using Cons.prems Cons.IH [of "s + 1" "t + 1" zs k] k by (auto simp: char_val_less Let_def)
  qed
qed

section \<open>Searching and bounded copies\<close>

definition occurs_at :: "'a list \<Rightarrow> 'a list \<Rightarrow> nat \<Rightarrow> bool" where
  "occurs_at ys xs k \<longleftrightarrow> take (length ys) (drop k xs) = ys"

lemma occurs_at_bytes:
  assumes "cstr m h xs" "cstr m nd ys" "k + length ys \<le> length xs"
  shows "memcmp_from m (h + of_nat k) nd (length ys) = 0 \<longleftrightarrow> occurs_at ys xs k"
proof -
  have "m (h + of_nat k + of_nat i) = xs ! (k + i)" "m (nd + of_nat i) = ys ! i" if "i < length ys" for i
    using cstr_byte [OF assms(1), of "k + i"] cstr_byte [OF assms(2), of i] that assms(3)
    by (simp_all add: nth_append algebra_simps)
  then show ?thesis using assms(3) by (auto simp: memcmp_eq_0 occurs_at_def list_eq_iff_nth_eq)
qed

lemma strstr_from_find:
  "strstr_from m h nd len n (of_nat k) =
    (case find (\<lambda>k. internal_memcmp m (h + of_nat k) nd len = 0) [k..<k + n] of None \<Rightarrow> 0 | Some k \<Rightarrow> h + of_nat k)"
proof (induction n arbitrary: k)
  case (Suc n)
  show ?case using Suc.IH [of "Suc k"] by (simp add: upt_conv_Cons algebra_simps del: upt_Suc)
qed simp

lemma strstr_spec:
  assumes "cstr m h xs" "cstr m nd ys" "length xs < n" "length ys < n" "length xs < 2 ^ 64" "length ys < 2 ^ 64"
  shows "internal_strstr n m h nd = Inr (if length xs < length ys then 0
    else case find (occurs_at ys xs) [0..<Suc (length xs - length ys)] of None \<Rightarrow> 0 | Some k \<Rightarrow> h + of_nat k)"
proof -
  have u: "unat (of_nat (length xs) :: uptr) = length xs" "unat (of_nat (length ys) :: uptr) = length ys"
    using assms(5,6) by (simp_all add: unat_of_nat_small)
  have l: "(of_nat (length xs) :: uptr) < of_nat (length ys) \<longleftrightarrow> length xs < length ys"
    using u by (simp add: word_less_nat_alt)
  have f: "find (\<lambda>k. internal_memcmp m (h + of_nat k) nd (of_nat (length ys)) = 0) [0..<Suc (length xs - length ys)] =
      find (occurs_at ys xs) [0..<Suc (length xs - length ys)]" if "\<not> length xs < length ys"
    using that assms(1,2) by (intro find_cong) (auto simp: internal_memcmp_def u occurs_at_bytes simp del: upt_Suc of_nat_diff)
  show ?thesis using strstr_from_find [of m h nd "of_nat (length ys)" "Suc (length xs - length ys)" 0] f
    by (simp add: internal_strstr_def strlen_spec [OF assms(1,3)] strlen_spec [OF assms(2,4)] l
        unat_sub word_le_nat_alt u del: upt_Suc strstr_from.simps)
qed

lemma cstr_moved:
  assumes "cstr m src xs" "k \<le> length xs" "k < 2 ^ 63" "unat src + length xs < 2 ^ 64"
    "\<And>i. i < k \<Longrightarrow> m' (dst + of_nat i) = m (src + of_nat i)" "m' (dst + of_nat k) = 0"
  shows "cstr m' dst (take k xs)"
proof (rule cstrI)
  show "0 \<notin> set (take k xs)" using cstr_nonzero [OF assms(1)] by (meson in_set_takeD)
  fix i assume "i \<le> length (take k xs)"
  then show "m' (dst + of_nat i) = (take k xs @ [0]) ! i"
    using cstr_byte [OF assms(1), of i] assms(2,5,6) by (cases "i = k") (auto simp: nth_append)
qed

lemma of_nat_in_range: "i < n \<Longrightarrow> n < 2 ^ 64 \<Longrightarrow> (of_nat i :: uptr) < of_nat n"
  by (simp add: word_less_nat_alt unat_of_nat_small)

text \<open>\<open>internal_strlcpy\<close> truncates to the buffer, terminates, and writes nothing beyond it.\<close>

lemma strlcpy_spec:
  assumes src: "cstr m src xs" "length xs < n" "unat src + length xs < 2 ^ 64" "length xs < 2 ^ 62"
    and dst: "unat dst + unat maxlen \<le> 2 ^ 64" "maxlen \<noteq> 0" "unat maxlen < 2 ^ 62"
  shows "\<exists>m'. internal_strlcpy n dst src maxlen m = Inr (of_nat (length xs), m') \<and>
    cstr m' dst (take (unat maxlen - 1) xs) \<and> (\<forall>q. \<not> q - dst < maxlen \<longrightarrow> m' q = m q)"
proof (cases "length xs < unat maxlen")
  case True
  let ?n = "of_nat (length xs) + 1 :: uptr"
  have n1: "?n = of_nat (Suc (length xs))" by simp
  have "unat ?n = Suc (length xs)" unfolding n1 using src(4) by (intro unat_of_nat_small) simp
  note n = n1 this
  have lt: "(of_nat (length xs) :: uptr) < maxlen" using True src(4) by (simp add: word_less_nat_alt unat_of_nat_small)
  let ?m = "\<lambda>q. if q - dst < ?n then m (src + (q - dst)) else m q"
  have "internal_memmove dst src ?n m = Inr ?m"
    using src dst True by (intro memmove_spec) (simp_all only: n(2), simp_all)
  moreover have "?m (dst + of_nat i) = m (src + of_nat i)" if "i \<le> length xs" for i
    using of_nat_in_range [of i "Suc (length xs)"] that src(4) by (simp only: n(1)) simp
  then have "cstr ?m dst (take (length xs) xs)"
    using src cstr_byte [OF src(1), of "length xs"] by (intro cstr_moved [OF src(1)]) simp_all
  moreover have "?m q = m q" if "\<not> q - dst < maxlen" for q
    using that n(2) True by (simp add: word_less_nat_alt)
  ultimately show ?thesis using True lt by (simp add: internal_strlcpy_def strlen_spec [OF src(1,2)])
next
  case False
  have lt: "\<not> (of_nat (length xs) :: uptr) < maxlen" using False src(4) by (simp add: word_less_nat_alt unat_of_nat_small)
  have n: "unat (maxlen - 1) = unat maxlen - 1" using dst(2) by (simp add: unat_minus_one)
  let ?m = "\<lambda>q. if q - dst < maxlen - 1 then m (src + (q - dst)) else m q"
  let ?m' = "?m(dst + maxlen - 1 := 0)"
  have pos: "0 < unat maxlen" using dst(2) by (simp add: unat_gt_0)
  have last: "dst + maxlen - 1 = dst + of_nat (unat maxlen - 1)"
    using n by (simp only: n [symmetric]) simp
  have "internal_memmove dst src (maxlen - 1) m = Inr ?m"
    using src dst False by (intro memmove_spec) (simp_all only: n, simp_all)
  moreover have "?m' (dst + of_nat i) = m (src + of_nat i)" if "i < unat maxlen - 1" for i
  proof -
    have u: "unat (of_nat i :: uptr) = i" using that dst(3) by (intro unat_of_nat_small) simp
    moreover have "unat (of_nat (unat maxlen - 1) :: uptr) = unat maxlen - 1"
      using dst(3) by (intro unat_of_nat_small) simp
    ultimately have lt: "(of_nat i :: uptr) < of_nat (unat maxlen - 1)" using that by (simp only: word_less_nat_alt)
    have e: "(of_nat (unat maxlen - 1) :: uptr) = maxlen - 1" by (simp only: n [symmetric]) simp
    have "dst + of_nat i \<noteq> dst + maxlen - 1" using lt by (auto simp: last)
    then show ?thesis using lt [unfolded e] by simp
  qed
  then have "cstr ?m' dst (take (unat maxlen - 1) xs)"
    using src dst False by (intro cstr_moved [OF src(1)]) (simp_all add: last)
  moreover have "?m' q = m q" if "\<not> q - dst < maxlen" for q
  proof -
    have "q \<noteq> dst + maxlen - 1"
    proof
      assume "q = dst + maxlen - 1"
      then have "q - dst = maxlen - 1" by simp
      then show False using that n pos by (simp add: word_less_nat_alt)
    qed
    have "\<not> unat (q - dst) < unat (maxlen - 1)" using that n unfolding word_less_nat_alt by linarith
    then have "\<not> q - dst < maxlen - 1" by (simp add: word_less_nat_alt)
    with \<open>q \<noteq> dst + maxlen - 1\<close> show ?thesis by simp
  qed
  ultimately show ?thesis using lt dst(2) by (simp add: internal_strlcpy_def strlen_spec [OF src(1,2)])
qed

section \<open>Parsing numbers\<close>

definition digit_val :: "u8 \<Rightarrow> nat" where
  "digit_val c = unat c - 48"

definition decimal :: "u8 list \<Rightarrow> nat" where
  "decimal ds = foldl (\<lambda>a c. 10 * a + digit_val c) 0 ds"

definition is_digit :: "u8 \<Rightarrow> bool" where
  "is_digit c \<longleftrightarrow> 0x30 \<le> c \<and> c \<le> 0x39"

lemma sint_byte: "sint (char_val c) = (if uint c < 128 then uint c else uint c - 256)"
proof -
  have b: "0 \<le> uint c" "uint c < 256" using uint_lt2p [of c] by simp_all
  have "(uint c - 128 + 256) mod 256 = uint c - 128" if "\<not> uint c < 128"
    using that b by (subst mod_add_self2) (rule mod_pos_pos_trivial, simp_all)
  then have "sint c = (if uint c < 128 then uint c else uint c - 256)"
    using b by (simp add: sint_uint signed_take_bit_eq_take_bit_shift take_bit_eq_mod algebra_simps)
  moreover have "sint (char_val c) = sint c" by (simp add: char_val_def sint_up_scast is_up)
  ultimately show ?thesis by simp
qed

lemma IsDigit_char: "IsDigit (char_val c) \<longleftrightarrow> is_digit c"
  using uint_lt2p [of c] by (auto simp: IsDigit_def is_digit_def sint_byte word_le_def)

lemma digit_cases:
  assumes "is_digit c"
  shows "c \<in> set [0x30, 0x31, 0x32, 0x33, 0x34, 0x35, 0x36, 0x37, 0x38, 0x39]"
proof -
  have "48 \<le> unat c" "unat c \<le> 57" using assms by (simp_all add: is_digit_def word_le_nat_alt)
  then have "unat c \<in> set [48, 49, 50, 51, 52, 53, 54, 55, 56, 57]" by simp arith
  then show ?thesis by (simp add: word_unat_eq_iff)
qed

lemma digit_word: "is_digit c \<Longrightarrow> unat (scast (char_val c - 0x30) :: u64) = digit_val c"
  using digit_cases [of c] by (auto simp: digit_val_def char_val_def)

lemma min_add_within: "d \<le> M \<Longrightarrow> min M a \<le> M - d \<Longrightarrow> min M a + d = min M (a + d)" for M :: nat
  by (auto simp: min_def split: if_splits)

lemma min_add_beyond: "\<not> min M a \<le> M - d \<Longrightarrow> M = min M (a + d)" for M :: nat
  by (auto simp: min_def split: if_splits)

lemma add_digit_spec:
  assumes "is_digit c"
  shows "unat (add_digit r c) = min (2 ^ 64 - 1) (10 * unat r + digit_val c)"
proof -
  have d: "digit_val c \<le> 9" using digit_cases [OF assms] by (auto simp: digit_val_def)
  have m: "unat UINT64_MAX = 2 ^ 64 - 1" by (simp add: UINT64_MAX_def unsigned_minus_1_eq_mask mask_eq_exp_minus_1)
  have m10: "unat (UINT64_MAX div 10) = (2 ^ 64 - 1) div 10" by (simp only: unat_div_distrib m) simp
  let ?r = "if r \<le> UINT64_MAX div 10 then r * 10 else UINT64_MAX"
  have r: "unat ?r = min (2 ^ 64 - 1) (10 * unat r)"
  proof (cases "r \<le> UINT64_MAX div 10")
    case True
    then have le: "unat r \<le> (2 ^ 64 - 1) div 10" by (simp only: word_le_nat_alt m10)
    then have "unat (r * 10) = 10 * unat r" by (subst unat_mult_small) simp_all
    then show ?thesis using True le by simp
  next
    case False
    then have "\<not> unat r \<le> (2 ^ 64 - 1) div 10" by (simp only: word_le_nat_alt m10) simp
    then show ?thesis using False m by simp
  qed
  have dw: "unat (UINT64_MAX - scast (char_val c - 0x30)) = 2 ^ 64 - 1 - digit_val c"
    using d by (subst unat_sub) (simp_all add: word_le_nat_alt m digit_word [OF assms])
  show ?thesis
  proof (cases "?r \<le> UINT64_MAX - scast (char_val c - 0x30)")
    case True
    then have "unat ?r \<le> 2 ^ 64 - 1 - digit_val c" by (simp only: word_le_nat_alt dw)
    then have "unat (?r + scast (char_val c - 0x30)) = unat ?r + digit_val c"
      using d by (subst unat_add_small) (simp_all only: digit_word [OF assms], simp)
    moreover have "min (2 ^ 64 - 1) (10 * unat r) + digit_val c = min (2 ^ 64 - 1) (10 * unat r + digit_val c)"
      using d \<open>unat ?r \<le> _\<close> unfolding r by (intro min_add_within) simp_all
    ultimately show ?thesis using True unfolding add_digit_def Let_def r by (simp only: if_True)
  next
    case False
    then have "\<not> unat ?r \<le> 2 ^ 64 - 1 - digit_val c" by (simp only: word_le_nat_alt dw not_le)
    then have "2 ^ 64 - 1 = min (2 ^ 64 - 1) (10 * unat r + digit_val c)" unfolding r by (rule min_add_beyond)
    then show ?thesis using False m unfolding add_digit_def Let_def by (simp only: if_False)
  qed
qed

lemma decimal_mono: "a \<le> b \<Longrightarrow> foldl (\<lambda>a c. 10 * a + digit_val c) a ds \<le> foldl (\<lambda>a c. 10 * a + digit_val c) b ds"
  by (induction ds arbitrary: a b) auto

lemma decimal_saturate:
  "min M (foldl (\<lambda>a c. 10 * a + digit_val c) (min M a) ds) = min M (foldl (\<lambda>a c. 10 * a + digit_val c) a ds)"
proof (induction ds arbitrary: a)
  case (Cons c ds)
  have "min M (10 * min M a + digit_val c) = min M (10 * a + digit_val c)" by (simp add: min_def)
  then show ?case using Cons.IH [of "10 * min M a + digit_val c"] Cons.IH [of "10 * a + digit_val c"] by simp
qed simp

lemma read_digits_spec:
  "cstr m p (ds @ rest) \<Longrightarrow> (\<forall>d \<in> set ds. is_digit d) \<Longrightarrow> rest = [] \<or> \<not> is_digit (hd rest) \<Longrightarrow> length ds < n \<Longrightarrow>
   \<exists>r'. read_digits n m p r h = Inr (r', h \<or> ds \<noteq> [], p + of_nat (length ds)) \<and>
     unat r' = min (2 ^ 64 - 1) (foldl (\<lambda>a c. 10 * a + digit_val c) (unat r) ds)"
proof (induction ds arbitrary: p n r h)
  case Nil
  then obtain k where "n = Suc k" by (cases n) auto
  moreover have "\<not> is_digit 0" by (simp add: is_digit_def)
  moreover have "unat r \<le> 2 ^ 64 - 1" using unat_less_64 [of r] by (simp only: less_Suc_eq_le [symmetric]) simp
  then have "unat r = min (2 ^ 64 - 1) (unat r)" by (simp only: min_absorb2)
  ultimately show ?case using Nil by (cases rest) (auto simp: IsDigit_char)
next
  case (Cons c ds)
  obtain k where k: "n = Suc k" using Cons.prems by (cases n) auto
  have c: "is_digit c" "m p = c" using Cons.prems by auto
  obtain r' where r': "read_digits k m (p + 1) (add_digit r c) True = Inr (r', True, p + 1 + of_nat (length ds))"
      "unat r' = min (2 ^ 64 - 1) (foldl (\<lambda>a c. 10 * a + digit_val c) (unat (add_digit r c)) ds)"
    using Cons.IH [of "p + 1" k "add_digit r c" True] Cons.prems k by auto
  show ?case using r' c k by (auto simp: IsDigit_char add_digit_spec decimal_saturate add.assoc)
qed

definition is_space :: "u8 \<Rightarrow> bool" where
  "is_space c \<longleftrightarrow> c \<in> {0x20, 0x0A, 0x09, 0x0C, 0x0D, 0x0B}"

lemma IsSpace_char: "IsSpace (char_val c) \<longleftrightarrow> is_space c"
proof -
  have "char_val 0x20 = 0x20" "char_val 0x0A = 0x0A" "char_val 0x09 = 0x09" "char_val 0x0C = 0x0C"
    "char_val 0x0D = 0x0D" "char_val 0x0B = 0x0B" by (simp_all add: char_val_def)
  then show ?thesis unfolding IsSpace_def is_space_def by (metis char_val_inj insert_iff empty_iff)
qed

lemma skip_space_spec:
  "cstr m p (ws @ rest) \<Longrightarrow> (\<forall>c \<in> set ws. is_space c) \<Longrightarrow> rest = [] \<or> \<not> is_space (hd rest) \<Longrightarrow> length ws < n \<Longrightarrow>
   skip_space n m p = Inr (p + of_nat (length ws)) \<and> cstr m (p + of_nat (length ws)) rest"
proof (induction ws arbitrary: p n)
  case Nil
  then obtain k where "n = Suc k" by (cases n) auto
  moreover have "\<not> is_space 0" by (simp add: is_space_def)
  ultimately show ?case using Nil by (cases rest) (auto simp: IsSpace_char)
next
  case (Cons c ws)
  obtain k where k: "n = Suc k" using Cons.prems by (cases n) auto
  show ?case using Cons.prems Cons.IH [of "p + 1" k] k by (auto simp: IsSpace_char add.assoc)
qed

definition clamp64 :: "int \<Rightarrow> int" where
  "clamp64 v = max (- (2 ^ 63)) (min (2 ^ 63 - 1) v)"

lemma unat_INT64_MAX: "unat INT64_MAX = 2 ^ 63 - 1"
  by (simp add: INT64_MAX_def)

lemma sint_INT64_MIN: "sint INT64_MIN = - (2 ^ 63)"
  by (simp add: INT64_MIN_def sint_uint signed_take_bit_eq_take_bit_shift take_bit_eq_mod)

text \<open>The parser returns the number in the string, clamped to 64 bits, and the end of its digits.\<close>

lemma strtoll_spec:
  assumes str: "cstr m p (ws @ sg @ ds @ rest)" "\<forall>c \<in> set ws. is_space c" "\<forall>d \<in> set ds. is_digit d"
    and shape: "sg \<in> {[], [0x2B], [0x2D]}" "ds \<noteq> []" "rest = [] \<or> \<not> is_digit (hd rest)"
    and fuel: "length ws < n" "length ds < n"
  shows "\<exists>v. internal_simple_strtoll n m p 10 = Inr (v, p + of_nat (length (ws @ sg @ ds))) \<and>
    sint v = clamp64 ((if sg = [0x2D] then - 1 else 1) * int (decimal ds))"
proof -
  obtain d ds' where ds: "ds = d # ds'" using shape(2) by (cases ds) auto
  have d: "is_digit d" using str(3) ds by simp
  have nd: "\<not> is_space d" "d \<noteq> 0x2B" "d \<noteq> 0x2D" using digit_cases [OF d] by (auto simp: is_space_def)
  have sp: "\<not> is_space 0x2B" "\<not> is_space 0x2D" by (simp_all add: is_space_def)
  let ?p = "p + of_nat (length ws)" and ?q = "p + of_nat (length ws) + of_nat (length sg)"
  have "sg @ ds @ rest = [] \<or> \<not> is_space (hd (sg @ ds @ rest))" using shape(1) nd sp ds by auto
  from skip_space_spec [OF str(1,2) this fuel(1)] have
    s: "skip_space n m p = Inr ?p" and c: "cstr m ?p (sg @ ds @ rest)" by auto
  have q: "(if m ?p = 0x2B then ?p + 1 else if m ?p = 0x2D then ?p + 1 else ?p) = ?q"
    and neg: "m ?p = 0x2B \<longleftrightarrow> sg = [0x2B]" "m ?p = 0x2D \<longleftrightarrow> sg = [0x2D]"
    and cq: "cstr m ?q (ds @ rest)"
    using shape(1) c nd ds by auto
  from read_digits_spec [OF cq str(3) shape(3) fuel(2), of 0 False] obtain r where
    r: "read_digits n m ?q 0 False = Inr (r, True, ?q + of_nat (length ds))" "unat r = min (2 ^ 64 - 1) (decimal ds)"
    using shape(2) by (auto simp: decimal_def)
  let ?v = "if sg = [0x2D] then if INT64_MAX < r then INT64_MIN else r * - 1 else San_Min INT64_MAX r"
  have "internal_simple_strtoll n m p 10 = Inr (?v, ?q + of_nat (length ds))"
  proof -
    consider "sg = []" | "sg = [0x2B]" | "sg = [0x2D]" using shape(1) by auto
    then show ?thesis
      by cases (use r(1) neg in \<open>simp_all add: internal_simple_strtoll_def s Let_def\<close>)
  qed
  moreover have "sint ?v = clamp64 ((if sg = [0x2D] then - 1 else 1) * int (decimal ds))"
  proof (cases "INT64_MAX < r")
    case True
    then have "2 ^ 63 - 1 < unat r" by (simp only: word_less_nat_alt unat_INT64_MAX)
    then have "2 ^ 63 \<le> decimal ds" using r(2) by simp
    moreover have "sint INT64_MAX = 2 ^ 63 - 1"
      by (subst sint_small) (simp_all add: unat_INT64_MAX)
    ultimately show ?thesis using True by (auto simp: clamp64_def San_Min_def sint_INT64_MIN max_def min_def)
  next
    case False
    then have lt: "unat r \<le> 2 ^ 63 - 1" by (simp only: word_less_nat_alt unat_INT64_MAX not_less)
    then have r': "unat r = decimal ds" using r(2) by (simp add: min_def split: if_splits)
    have "sint r = int (decimal ds)" using lt r' by (subst sint_small) simp_all
    moreover have "sint (- r) = - sint r"
      using lt r' by (simp add: sint_word_minus \<open>sint r = _\<close> signed_take_bit_int_eq_self)
    moreover have "int (decimal ds) \<le> 2 ^ 63 - 1" using lt unfolding r' by (simp add: of_nat_le_iff [symmetric] del: of_nat_le_iff)
    ultimately show ?thesis using False by (auto simp: clamp64_def San_Min_def max_def min_def not_less)
  qed
  ultimately show ?thesis using shape(1) by (auto simp: algebra_simps)
qed

section \<open>Ranges of zeros\<close>

definition zero_between :: "memory \<Rightarrow> nat \<Rightarrow> nat \<Rightarrow> bool" where
  "zero_between m a b \<longleftrightarrow> (\<forall>q. a \<le> unat q \<and> unat q < b \<longrightarrow> m q = 0)"

lemma zero_between_join: "a \<le> b \<Longrightarrow> b \<le> c \<Longrightarrow> zero_between m a b \<and> zero_between m b c \<longleftrightarrow> zero_between m a c"
  unfolding zero_between_def by (meson not_le order_trans less_le_trans le_less_trans)

lemma zero_between_empty: "b \<le> a \<Longrightarrow> zero_between m a b"
  by (auto simp: zero_between_def)

lemma zero_between_bytes:
  assumes "unat p + n \<le> 2 ^ 64"
  shows "zero_between m (unat p) (unat p + n) \<longleftrightarrow> (\<forall>i < n. m (p + of_nat i) = 0)"
proof -
  have "\<exists>i < n. q = p + of_nat i" if "unat p \<le> unat q" "unat q < unat p + n" for q
  proof (intro exI conjI)
    show "unat q - unat p < n" using that by linarith
    then show "q = p + of_nat (unat q - unat p)"
      using that by (simp only: word_unat_eq_iff no_wrap_add [OF assms])
  qed
  then show ?thesis using no_wrap_add [OF assms] by (auto simp: zero_between_def)
qed

lemma scast_byte_0: "scast (c :: u8) = (0 :: u64) \<longleftrightarrow> c = 0"
proof
  have "ucast (scast c :: u64) = c"
  proof (rule bit_word_eqI)
    fix n assume "n < LENGTH(8)"
    then have "min n 7 = n" "n < 8" by simp_all
    then show "bit (ucast (scast c :: u64) :: u8) n = bit c n" by (simp add: bit_simps min.commute)
  qed
  then show "scast c = (0 :: u64) \<Longrightarrow> c = 0" by simp
qed simp

lemma push_byte_0: "k \<le> 56 \<Longrightarrow> push_bit k (ucast (c :: u8) :: u64) = 0 \<longleftrightarrow> c = 0"
proof
  assume k: "k \<le> 56" and z: "push_bit k (ucast c :: u64) = 0"
  show "c = 0"
  proof (rule bit_word_eqI)
    fix n assume "n < LENGTH(8)"
    then have "bit (push_bit k (ucast c :: u64)) (k + n) = bit c n" using k by (simp add: bit_simps)
    then show "bit c n = bit 0 n" by (simp add: z)
  qed
qed simp

lemma load64_0: "load64 m p = 0 \<longleftrightarrow> (\<forall>i < 8. m (p + of_nat i) = 0)"
proof -
  have "[0..<8] = [0, 1, 2, 3, 4, 5, 6, 7 :: nat]" by (simp add: upt_rec)
  moreover have "(\<forall>i < 8. P i) \<longleftrightarrow> P 0 \<and> P 1 \<and> P 2 \<and> P 3 \<and> P 4 \<and> P 5 \<and> P 6 \<and> P (7 :: nat)" for P
    by (simp add: numeral_eq_Suc All_less_Suc2)
  ultimately show ?thesis by (simp add: load64_def or_eq_0_iff push_byte_0 push_byte_0 [of 0, simplified])
qed

lemma or_bytes_spec:
  "unat e - unat p \<le> n \<Longrightarrow> or_bytes n m p e acc = 0 \<longleftrightarrow> acc = 0 \<and> zero_between m (unat p) (unat e)"
proof (induction n arbitrary: p acc)
  case (Suc n)
  show ?case
  proof (cases "p < e")
    case True
    then have lt: "unat p < unat e" by (simp only: word_less_nat_alt)
    then have lt64: "unat p + 1 < 18446744073709551616" using unat_less_64 [of e] by linarith
    then have p1: "unat (p + 1) = unat p + 1" by (subst unat_add_small) simp_all
    have "zero_between m (unat p) (unat p + 1) \<longleftrightarrow> m p = 0"
      using zero_between_bytes [of p 1 m] lt64 by simp
    then show ?thesis using True Suc lt zero_between_join [of "unat p" "unat p + 1" "unat e" m]
      by (auto simp: p1 scast_byte_0 or_eq_0_iff)
  qed (simp add: zero_between_empty word_less_nat_alt)
qed (simp add: zero_between_empty)

lemma or_words_spec:
  "unat e - unat p \<le> 8 * n \<Longrightarrow> 8 dvd (unat e - unat p) \<Longrightarrow>
   or_words n m p e acc = 0 \<longleftrightarrow> acc = 0 \<and> zero_between m (unat p) (unat e)"
proof (induction n arbitrary: p acc)
  case (Suc n)
  show ?case
  proof (cases "p < e")
    case True
    then have "unat p < unat e" by (simp only: word_less_nat_alt)
    then have lt: "unat p + 8 \<le> unat e" using dvd_imp_le [OF Suc.prems(2)] by linarith
    then have lt64: "unat p + 8 < 18446744073709551616" using unat_less_64 [of e] by linarith
    then have p8: "unat (p + 8) = unat p + 8" by (subst unat_add_small) simp_all
    have "zero_between m (unat p) (unat p + 8) \<longleftrightarrow> load64 m p = 0"
      using zero_between_bytes [of p 8 m] lt64 by (simp add: load64_0)
    moreover have "8 dvd (unat e - (unat p + 8))" using Suc.prems(2) lt by (metis diff_diff_left dvd_diff_nat dvd_refl)
    ultimately show ?thesis using True Suc lt zero_between_join [of "unat p" "unat p + 8" "unat e" m]
      by (auto simp: p8 or_eq_0_iff)
  qed (simp add: zero_between_empty word_less_nat_alt)
qed (simp add: zero_between_empty)

lemma words_dvd: "8 dvd (a div 8 * 8 - b div 8 * 8)" for a b :: nat
  by (intro dvd_diff_nat dvd_triv_right)

lemma round_le: "b \<le> k * 8 \<Longrightarrow> (b + 7) div 8 * 8 \<le> k * 8" for b k :: nat
proof -
  assume "b \<le> k * 8"
  then have "(b + 7) div 8 < Suc k" by (simp add: div_less_iff_less_mult)
  then show ?thesis by simp
qed

lemma round_beyond:
  "\<not> b \<le> (b + s) div 8 * 8 \<Longrightarrow> b + s \<le> (b + 7) div 8 * 8 \<and> (b + s) div 8 * 8 \<le> (b + 7) div 8 * 8" for b s :: nat
proof -
  let ?x = "(b + s) div 8"
  assume "\<not> b \<le> ?x * 8"
  then have "Suc ?x \<le> (b + 7) div 8" by (simp add: less_eq_div_iff_mult_less_eq)
  moreover have "b + s = ?x * 8 + (b + s) mod 8" "(b + s) mod 8 < 8" by simp_all
  ultimately show ?thesis by linarith
qed

lemma words_fit: "(b + s) div 8 * 8 - (b + 7) div 8 * 8 \<le> 8 * (s div 8)" for b s :: nat
proof -
  let ?d = "(b + s) div 8 * 8 - (b + 7) div 8 * 8"
  have "b \<le> (b + 7) div 8 * 8" "(b + s) div 8 * 8 \<le> b + s" by simp_all
  then have "?d div 8 \<le> s div 8" by (intro div_le_mono) linarith
  moreover have "8 * (?d div 8) = ?d" using words_dvd [of "b + s" "b + 7"] by simp
  ultimately show ?thesis by linarith
qed

text \<open>The three loops of \<open>mem_is_zero\<close> together read the range and nothing else.\<close>

lemma mem_is_zero_spec:
  assumes "unat beg + unat sz + 8 \<le> 2 ^ 64" "unat sz \<le> 2 ^ 40"
  shows "mem_is_zero m beg sz = Inr (zero_between m (unat beg) (unat beg + unat sz))"
proof -
  let ?B = "unat beg" and ?E = "unat beg + unat sz"
  let ?a = "round_up beg 8" and ?f = "RoundDownTo (beg + sz) 8"
  have e: "unat (beg + sz) = ?E" using assms(1) by (subst unat_add_small) simp_all
  have a: "unat ?a = (?B + 7) div 8 * 8" using unat_round_up [of 3 beg] assms(1) by simp
  have f: "unat ?f = ?E div 8 * 8" using unat_round_down [of "beg + sz" 3] e by simp
  have le: "sz \<le> push_bit 40 1" using assms(2) by (simp add: word_le_nat_alt)
  have r: "RoundUpTo beg 8 = Inr ?a" using RoundUpTo_exp [of 3 beg] by simp
  have mn: "unat (San_Min ?a (beg + sz)) = min (unat ?a) ?E" using e by (auto simp: San_Min_def min_def word_less_nat_alt)
  have pro: "or_bytes 8 m beg (San_Min ?a (beg + sz)) 0 = 0 \<longleftrightarrow> zero_between m ?B (min (unat ?a) ?E)"
    by (subst or_bytes_spec) (simp_all only: mn, use a in \<open>auto simp: min_def\<close>)
  have mid: "or_words (unat sz div 8) m ?a ?f acc = 0 \<longleftrightarrow> acc = 0 \<and> zero_between m (unat ?a) (unat ?f)" for acc
    by (rule or_words_spec) (simp_all only: a f words_fit words_dvd)
  have epi: "or_bytes 8 m ?f (beg + sz) acc = 0 \<longleftrightarrow> acc = 0 \<and> zero_between m (unat ?f) ?E" for acc
  proof -
    have "?E - ?E div 8 * 8 = ?E mod 8" by (rule minus_div_mult_eq_mod)
    then have "unat (beg + sz) - unat ?f \<le> 8" unfolding e f by simp
    then show ?thesis by (simp only: or_bytes_spec e)
  qed
  have cut: "beg \<le> ?f \<longleftrightarrow> ?B \<le> unat ?f" by (simp only: word_le_nat_alt)
  show ?thesis
  proof (cases "beg \<le> ?f")
    case True
    then have "?B \<le> ?E div 8 * 8" by (simp only: cut f)
    then have o: "?B \<le> unat ?a" "unat ?a \<le> unat ?f" "unat ?f \<le> ?E" unfolding a f by (simp_all add: round_le)
    have "zero_between m ?B (min (unat ?a) ?E) \<and> zero_between m (unat ?a) (unat ?f) \<and> zero_between m (unat ?f) ?E
        \<longleftrightarrow> zero_between m ?B ?E"
      using zero_between_join [OF o(1,2), of m] zero_between_join [OF order_trans [OF o(1,2)] o(3), of m]
        min_absorb1 [OF order_trans [OF o(2,3)]] by auto
    then show ?thesis using True le by (simp add: mem_is_zero_def r Let_def pro mid epi)
  next
    case False
    then have "\<not> ?B \<le> ?E div 8 * 8" by (simp only: cut f) simp
    then have "?E \<le> unat ?a" "unat ?f \<le> unat ?a" unfolding a f by (simp_all add: round_beyond)
    then show ?thesis using False le by (simp add: mem_is_zero_def r Let_def pro mid zero_between_empty min_absorb2)
  qed
qed

end
