(* ===== verification/San_Strings.thy ===== *)
theory San_Strings
  imports San_Libc
begin

text \<open>
  The rest of \<open>sanitizer_common.cpp\<close>: path and module names, the removal of escape sequences,
  the template matcher of suppressions, the cached binary name, the malloc hooks, the crash
  flag and the list of loaded modules, whose strings and ranges ClusterTag keeps in its
  persistent allocator. Strings are byte memory as in \<open>San_Libc\<close>. The lemmas: removing escape
  sequences computes \<open>strip_ansi\<close> and terminates the result, the matcher restores the template
  it overwrites while it searches, copying the cached name stays within the buffer, hooks run
  in the order of installation and at most five fit, and \<open>containsAddress\<close> says whether an
  address lies in a range added.
\<close>

section \<open>Names\<close>

definition StripPathPrefix :: "nat \<Rightarrow> memory \<Rightarrow> uptr \<Rightarrow> uptr \<Rightarrow> uptr res" where
  "StripPathPrefix fuel m filepath strip_path_prefix =
     (if filepath = 0 then Inr 0
      else if strip_path_prefix = 0 then Inr filepath
      else
        andThen (internal_strstr fuel m filepath strip_path_prefix) (\<lambda>pos.
        andThen (if pos \<noteq> 0 then andThen (internal_strlen fuel m strip_path_prefix) (\<lambda>n. Inr (pos + n))
                 else Inr filepath) (\<lambda>r.
        Inr (if m r = 0x2E \<and> m (r + 1) = 0x2F then r + 2 else r))))"

text \<open>Outside Windows only the slash separates.\<close>

definition StripModuleName :: "nat \<Rightarrow> memory \<Rightarrow> uptr \<Rightarrow> uptr res" where
  "StripModuleName fuel m module =
     (if module = 0 then Inr 0
      else andThen (internal_strrchr fuel m module 0x2F) (\<lambda>slash_pos.
        Inr (if slash_pos \<noteq> 0 then slash_pos + 1 else module)))"

section \<open>Escape sequences\<close>

fun remove_ansi :: "nat \<Rightarrow> nat \<Rightarrow> memory \<Rightarrow> uptr \<Rightarrow> uptr \<Rightarrow> (memory \<times> uptr) res" where
  "remove_ansi fuel 0 m s z = Inl Out_of_fuel"
| "remove_ansi fuel (Suc n) m s z =
     (if m s = 0 then Inr (m, z)
      else andThen (check (z \<le> s)) (\<lambda>_.
        if m s = 0x1B \<and> m (s + 1) = 0x5B then
          andThen (internal_strchrnul fuel m s 0x6D) (\<lambda>s.
          if m s = 0 then Inr (m, z) else remove_ansi fuel n m (s + 1) z)
        else
          let m = (if s \<noteq> z then m(z := m s) else m)
          in remove_ansi fuel n m (s + 1) (z + 1)))"

definition RemoveANSIEscapeSequencesFromString :: "nat \<Rightarrow> memory \<Rightarrow> uptr \<Rightarrow> memory res" where
  "RemoveANSIEscapeSequencesFromString fuel m str =
     (if str = 0 then Inr m
      else andThen (remove_ansi fuel fuel m str str) (\<lambda>(m, z). Inr (m(z := 0))))"

section \<open>Matching a template\<close>

text \<open>
  One round cuts the template at its next \<open>*\<close> or \<open>$\<close> by writing a zero there, looks for the
  piece in the string, and writes the character back.
\<close>

definition cut_piece :: "nat \<Rightarrow> memory \<Rightarrow> uptr \<Rightarrow> (uptr \<times> uptr \<times> memory) res" where
  "cut_piece fuel m templ =
     andThen (internal_strchr fuel m templ 0x2A) (\<lambda>tpos.
     andThen (internal_strchr fuel m templ 0x24) (\<lambda>tpos1.
     let tpos = (if tpos = 0 \<or> (tpos1 \<noteq> 0 \<and> tpos1 < tpos) then tpos1 else tpos)
     in Inr (tpos, tpos1, if tpos \<noteq> 0 then m(tpos := 0) else m)))"

fun match_loop :: "nat \<Rightarrow> nat \<Rightarrow> memory \<Rightarrow> uptr \<Rightarrow> uptr \<Rightarrow> bool \<Rightarrow> bool \<Rightarrow> (bool \<times> memory) res" where
  "match_loop fuel 0 m templ str start asterisk = Inl Out_of_fuel"
| "match_loop fuel (Suc n) m templ str start asterisk =
     (if templ = 0 \<or> m templ = 0 then Inr (True, m)
      else if m templ = 0x2A then match_loop fuel n m (templ + 1) str False True
      else if m templ = 0x24 then Inr (m str = 0 \<or> asterisk, m)
      else if m str = 0 then Inr (False, m)
      else
        andThen (cut_piece fuel m templ) (\<lambda>(tpos, tpos1, m).
        let str0 = str in
        andThen (internal_strstr fuel m str templ) (\<lambda>spos.
        andThen (internal_strlen fuel m templ) (\<lambda>len.
        let str = spos + len;
            templ = tpos;
            m = (if tpos \<noteq> 0 then m(tpos := (if tpos = tpos1 then 0x24 else 0x2A)) else m)
        in if spos = 0 then Inr (False, m)
           else if start \<and> spos \<noteq> str0 then Inr (False, m)
           else match_loop fuel n m templ str False False))))"

definition TemplateMatch :: "nat \<Rightarrow> memory \<Rightarrow> uptr \<Rightarrow> uptr \<Rightarrow> (bool \<times> memory) res" where
  "TemplateMatch fuel m templ str =
     (if str = 0 \<or> m str = 0 then Inr (False, m)
      else
        let start = (templ \<noteq> 0 \<and> m templ = 0x5E);
            templ = (if start then templ + 1 else templ)
        in match_loop fuel fuel m templ str start False)"

section \<open>The names of the process\<close>

text \<open>
  \<open>binary_name\<close> and \<open>process_name\<close> are the addresses of the two caches. What the kernel says the
  names are, read by \<open>ReadBinaryName\<close> and \<open>ReadLongProcessName\<close>, is the memory after those
  calls, an argument.
\<close>

definition ReadProcessName :: "nat \<Rightarrow> memory \<Rightarrow> uptr \<Rightarrow> (uptr \<times> memory) res" where
  "ReadProcessName fuel m buf =
     andThen (StripModuleName fuel m buf) (\<lambda>s.
     andThen (internal_strlen fuel m s) (\<lambda>len.
     if s \<noteq> buf then
       andThen (internal_memmove buf s len m) (\<lambda>m. Inr (len, m(buf + len := 0)))
     else Inr (len, m)))"

definition UpdateProcessName :: "nat \<Rightarrow> memory \<Rightarrow> uptr \<Rightarrow> memory res" where
  "UpdateProcessName fuel m process_name =
     andThen (ReadProcessName fuel m process_name) (\<lambda>(_, m). Inr m)"

definition CacheBinaryName :: "nat \<Rightarrow> (memory \<Rightarrow> memory) \<Rightarrow> uptr \<Rightarrow> uptr \<Rightarrow> memory \<Rightarrow> memory res" where
  "CacheBinaryName fuel read_names binary_name process_name m =
     (if m binary_name \<noteq> 0 then Inr m
      else andThen (ReadProcessName fuel (read_names m) process_name) (\<lambda>(_, m). Inr m))"

definition ReadBinaryNameCached ::
    "nat \<Rightarrow> (memory \<Rightarrow> memory) \<Rightarrow> uptr \<Rightarrow> uptr \<Rightarrow> uptr \<Rightarrow> uptr \<Rightarrow> memory \<Rightarrow> (uptr \<times> memory) res" where
  "ReadBinaryNameCached fuel read_names binary_name process_name buf buf_len m =
     andThen (CacheBinaryName fuel read_names binary_name process_name m) (\<lambda>m.
     andThen (internal_strlen fuel m binary_name) (\<lambda>name_len.
     let name_len = (if name_len < buf_len - 1 then name_len else buf_len - 1) in
     if buf_len = 0 then Inr (0, m)
     else
       let m = internal_memcpy buf binary_name name_len m
       in Inr (name_len, m(buf + name_len := 0))))"

definition ReadBinaryDir ::
    "nat \<Rightarrow> (memory \<Rightarrow> memory) \<Rightarrow> uptr \<Rightarrow> uptr \<Rightarrow> uptr \<Rightarrow> uptr \<Rightarrow> memory \<Rightarrow> (uptr \<times> memory) res" where
  "ReadBinaryDir fuel read_names binary_name process_name buf buf_len m =
     andThen (ReadBinaryNameCached fuel read_names binary_name process_name buf buf_len m) (\<lambda>(_, m).
     andThen (StripModuleName fuel m buf) (\<lambda>exec_name_pos.
     let name_len = exec_name_pos - buf in Inr (name_len, m(buf + name_len := 0))))"

section \<open>Hooks\<close>

text \<open>
  A hook is the address of its function, 0 when the slot is empty. Running the hooks gives the
  calls made, in order; the first is the weak function \<open>__sanitizer_malloc_hook\<close> or
  \<open>__sanitizer_free_hook\<close>.
\<close>

datatype hook_call = Default_hook | Hook uptr

record MallocFreeHook =
  malloc_hook :: uptr
  free_hook :: uptr

definition kMaxMallocFreeHooks :: nat where "kMaxMallocFreeHooks = 5"

definition no_hooks :: "MallocFreeHook list" where
  "no_hooks = replicate kMaxMallocFreeHooks \<lparr> malloc_hook = 0, free_hook = 0 \<rparr>"

fun run_hooks :: "(MallocFreeHook \<Rightarrow> uptr) \<Rightarrow> MallocFreeHook list \<Rightarrow> hook_call list" where
  "run_hooks sel [] = []"
| "run_hooks sel (h # hs) = (if sel h = 0 then [] else Hook (sel h) # run_hooks sel hs)"

definition RunMallocHooks :: "MallocFreeHook list \<Rightarrow> hook_call list" where
  "RunMallocHooks MFHooks = Default_hook # run_hooks malloc_hook MFHooks"

definition RunFreeHooks :: "MallocFreeHook list \<Rightarrow> hook_call list" where
  "RunFreeHooks MFHooks = Default_hook # run_hooks free_hook MFHooks"

fun install_hook :: "uptr \<Rightarrow> uptr \<Rightarrow> nat \<Rightarrow> MallocFreeHook list \<Rightarrow> nat \<times> MallocFreeHook list" where
  "install_hook mh fh i [] = (0, [])"
| "install_hook mh fh i (h # hs) =
     (if malloc_hook h = 0 then (i + 1, h\<lparr>malloc_hook := mh, free_hook := fh\<rparr> # hs)
      else let (r, hs) = install_hook mh fh (i + 1) hs in (r, h # hs))"

definition InstallMallocFreeHooks ::
    "uptr \<Rightarrow> uptr \<Rightarrow> MallocFreeHook list \<Rightarrow> nat \<times> MallocFreeHook list" where
  "InstallMallocFreeHooks mh fh MFHooks =
     (if mh = 0 \<or> fh = 0 then (0, MFHooks) else install_hook mh fh 0 MFHooks)"

definition sanitizer_install_malloc_and_free_hooks ::
    "uptr \<Rightarrow> uptr \<Rightarrow> MallocFreeHook list \<Rightarrow> nat \<times> MallocFreeHook list" where
  "sanitizer_install_malloc_and_free_hooks mh fh MFHooks = InstallMallocFreeHooks mh fh MFHooks"

section \<open>The crash flag and sleeping\<close>

text \<open>\<open>__sanitizer_acquire_crash_state\<close>: exchange the flag with 1, true for the first caller.\<close>

definition acquire_crash_state :: "u8 \<Rightarrow> bool \<times> u8" where
  "acquire_crash_state in_crash_state = (in_crash_state = 0, 1)"

text \<open>The microseconds the sleeping functions ask for.\<close>

definition SleepForSeconds :: "u32 \<Rightarrow> u64" where
  "SleepForSeconds seconds = ucast seconds * 1000 * 1000"

definition SleepForMillis :: "u32 \<Rightarrow> u64" where
  "SleepForMillis millis = ucast millis * 1000"

definition WaitForDebugger :: "u32 \<Rightarrow> u64 option" where
  "WaitForDebugger seconds = (if seconds \<noteq> 0 then Some (SleepForSeconds seconds) else None)"

section \<open>Loaded modules\<close>

datatype ModuleArch =
  kModuleArchUnknown | kModuleArchI386 | kModuleArchX86_64 | kModuleArchX86_64H | kModuleArchARMV6
| kModuleArchARMV7 | kModuleArchARMV7S | kModuleArchARMV7K | kModuleArchARM64 | kModuleArchRISCV64
| kModuleArchHexagon

fun ModuleArchToString :: "ModuleArch \<Rightarrow> string" where
  "ModuleArchToString kModuleArchUnknown = ''''"
| "ModuleArchToString kModuleArchI386 = ''i386''"
| "ModuleArchToString kModuleArchX86_64 = ''x86_64''"
| "ModuleArchToString kModuleArchX86_64H = ''x86_64h''"
| "ModuleArchToString kModuleArchARMV6 = ''armv6''"
| "ModuleArchToString kModuleArchARMV7 = ''armv7''"
| "ModuleArchToString kModuleArchARMV7S = ''armv7s''"
| "ModuleArchToString kModuleArchARMV7K = ''armv7k''"
| "ModuleArchToString kModuleArchARM64 = ''arm64''"
| "ModuleArchToString kModuleArchRISCV64 = ''riscv64''"
| "ModuleArchToString kModuleArchHexagon = ''hexagon''"

record AddressRange =
  range_node :: uptr
  range_beg :: uptr
  range_end :: uptr
  executable :: bool
  writable :: bool

record LoadedModule =
  full_name :: uptr
  base_addr_of :: uptr
  max_address :: uptr
  module_arch :: ModuleArch
  uuid_size :: uptr
  module_uuid :: "u8 list"
  instrumented :: bool
  module_ranges :: "AddressRange list"

definition kModuleUUIDSize :: nat where "kModuleUUIDSize = 32"

definition empty_module :: LoadedModule where
  "empty_module = \<lparr> full_name = 0, base_addr_of = 0, max_address = 0, module_arch = kModuleArchUnknown,
     uuid_size = 0, module_uuid = replicate kModuleUUIDSize 0, instrumented = False, module_ranges = [] \<rparr>"

text \<open>
  \<open>clear\<close> frees the name and the ranges with \<open>noCheck\<close> set, which leaves the persistent
  allocator as it is, and keeps \<open>uuid_size\<close>.
\<close>

definition module_clear :: "LoadedModule \<Rightarrow> LoadedModule" where
  "module_clear l = l\<lparr>base_addr_of := 0, max_address := 0, full_name := 0, module_arch := kModuleArchUnknown,
     module_uuid := replicate kModuleUUIDSize 0, instrumented := False, module_ranges := []\<rparr>"

definition module_set ::
    "nat \<Rightarrow> uptr \<Rightarrow> uptr \<Rightarrow> LoadedModule \<Rightarrow> 'a pool_state_scheme \<Rightarrow> (LoadedModule \<times> 'a pool_state_scheme) res" where
  "module_set fuel module_name base_address l s =
     (let l = module_clear l in
      andThen (internal_strdup fuel module_name s) (\<lambda>(p, s).
      Inr (l\<lparr>full_name := p, base_addr_of := base_address\<rparr>, s)))"

definition module_set_arch ::
    "nat \<Rightarrow> uptr \<Rightarrow> uptr \<Rightarrow> ModuleArch \<Rightarrow> u8 list \<Rightarrow> bool \<Rightarrow> LoadedModule \<Rightarrow> 'a pool_state_scheme \<Rightarrow>
     (LoadedModule \<times> 'a pool_state_scheme) res" where
  "module_set_arch fuel module_name base_address a uuid instr l s =
     andThen (module_set fuel module_name base_address l s) (\<lambda>(l, s).
     Inr (l\<lparr>module_arch := a, module_uuid := take kModuleUUIDSize uuid, uuid_size := of_nat kModuleUUIDSize,
            instrumented := instr\<rparr>, s))"

definition module_setUuid :: "u8 list \<Rightarrow> uptr \<Rightarrow> LoadedModule \<Rightarrow> LoadedModule" where
  "module_setUuid uuid sz l =
     (let sz = (if of_nat kModuleUUIDSize < sz then of_nat kModuleUUIDSize else sz)
      in l\<lparr>module_uuid := take (unat sz) uuid @ drop (unat sz) (module_uuid l), uuid_size := sz\<rparr>)"

text \<open>
  \<open>sizeof(AddressRange)\<close> is 48: three words, two flags and, at offset 26, a name of 16 bytes that
  stays in memory. \<open>range_node\<close> is the address of the object.
\<close>

definition kMaxSegName :: uptr where "kMaxSegName = 16"

definition module_addAddressRange ::
    "uptr \<Rightarrow> uptr \<Rightarrow> bool \<Rightarrow> bool \<Rightarrow> uptr \<Rightarrow> LoadedModule \<Rightarrow> 'a pool_state_scheme \<Rightarrow>
     (LoadedModule \<times> 'a pool_state_scheme) res" where
  "module_addAddressRange b e x w name l s =
     andThen (persistent_allocate 48 s) (\<lambda>(p, s).
     let s = s\<lparr>mem := (if name \<noteq> 0 then internal_strncpy (p + 26) name kMaxSegName (mem s)
                      else internal_memset (p + 26) 0 kMaxSegName (mem s))\<rparr>;
         r = \<lparr> range_node = p, range_beg = b, range_end = e, executable = x, writable = w \<rparr>
     in Inr (l\<lparr>module_ranges := module_ranges l @ [r], max_address := San_Max (max_address l) e\<rparr>, s))"

fun in_ranges :: "uptr \<Rightarrow> AddressRange list \<Rightarrow> bool" where
  "in_ranges address [] = False"
| "in_ranges address (r # rs) = (if range_beg r \<le> address \<and> address < range_end r then True else in_ranges address rs)"

definition module_containsAddress :: "LoadedModule \<Rightarrow> uptr \<Rightarrow> bool" where
  "module_containsAddress l address = in_ranges address (module_ranges l)"

section \<open>What removing escape sequences computes\<close>

text \<open>
  An escape sequence starts with ESC and \<open>[\<close> and ends with the next \<open>m\<close>; one that does not end
  takes the rest of the string with it.
\<close>

function strip_ansi :: "u8 list \<Rightarrow> u8 list" where
  "strip_ansi [] = []"
| "strip_ansi (c # cs) =
     (if c = 0x1B \<and> cs \<noteq> [] \<and> hd cs = 0x5B then strip_ansi (drop 1 (dropWhile (\<lambda>x. x \<noteq> 0x6D) cs))
      else c # strip_ansi cs)"
  by pat_completeness auto
termination
  by (relation "measure length") (auto simp: less_Suc_eq_le intro: order_trans [OF diff_le_self length_dropWhile_le])

lemma length_strip_ansi: "length (strip_ansi xs) \<le> length xs"
proof (induction xs rule: strip_ansi.induct)
  case (2 c cs)
  have "length (dropWhile (\<lambda>x. x \<noteq> 0x6D) cs) \<le> length cs" by (rule length_dropWhile_le)
  with 2 show ?case by auto
qed simp

lemma set_strip_ansi: "set (strip_ansi xs) \<subseteq> set xs"
proof (induction xs rule: strip_ansi.induct)
  case (2 c cs)
  have "set (drop 1 (dropWhile (\<lambda>x. x \<noteq> 0x6D) cs)) \<subseteq> set cs"
    by (meson in_set_dropD set_dropWhileD subsetI)
  with 2 show ?case by auto
qed simp

lemma cstr_drop: "cstr m p xs \<Longrightarrow> k \<le> length xs \<Longrightarrow> cstr m (p + of_nat k) (drop k xs)"
proof (induction xs arbitrary: p k)
  case (Cons x xs)
  then show ?case using Cons.IH [of "p + 1" "k - 1"] by (cases k) (auto simp: algebra_simps)
qed simp

text \<open>Bytes written outside a string leave it.\<close>

lemma cstr_cong: "(\<And>i. i \<le> length xs \<Longrightarrow> m' (p + of_nat i) = m (p + of_nat i)) \<Longrightarrow> cstr m p xs \<Longrightarrow> cstr m' p xs"
proof (induction xs arbitrary: p)
  case Nil
  then show ?case using Nil(1) [of 0] by simp
next
  case (Cons x xs)
  have "m' (p + 1 + of_nat i) = m (p + 1 + of_nat i)" if "i \<le> length xs" for i
    using Cons.prems(1) [of "Suc i"] that by (simp add: algebra_simps)
  then show ?case using Cons.IH [of "p + 1"] Cons.prems(1) [of 0] Cons.prems(2) by auto
qed

lemma strchrnul_spec:
  assumes "cstr m s xs" "length xs < n" "ucast c \<noteq> (0 :: u8)" "\<forall>i \<le> length xs. s + of_nat i \<noteq> 0"
  shows "internal_strchrnul n m s c = Inr (s + of_nat (length (takeWhile (\<lambda>x. x \<noteq> ucast c) xs)))"
proof (cases "ucast c \<in> set xs")
  case True
  have "takeWhile (\<lambda>x. x \<noteq> ucast c) (xs @ [0]) = takeWhile (\<lambda>x. x \<noteq> ucast c) xs"
    using True by (auto intro: takeWhile_append1)
  moreover have "s + of_nat (length (takeWhile (\<lambda>x. x \<noteq> ucast c) xs)) \<noteq> 0"
    using assms(4) length_takeWhile_le by blast
  ultimately show ?thesis using True
    by (simp add: internal_strchrnul_def internal_strchr_def strchr_from_spec [OF assms(1,2)])
next
  case False
  then have t: "takeWhile (\<lambda>x. x \<noteq> ucast c) xs = xs" by (simp only: takeWhile_eq_all_conv) auto
  show ?thesis unfolding t using False assms(3)
    by (simp add: internal_strchrnul_def internal_strchr_def strchr_from_spec [OF assms(1,2)] strlen_spec [OF assms(1,2)])
qed

lemma remove_ansi_spec:
  assumes "cstr m s xs" "length xs < n" "length xs < fuel" "unat z \<le> unat s" "unat s + length xs < 2 ^ 64" "s \<noteq> 0"
  shows "\<exists>m'. remove_ansi fuel n m s z = Inr (m', z + of_nat (length (strip_ansi xs))) \<and>
    (\<forall>i < length (strip_ansi xs). m' (z + of_nat i) = strip_ansi xs ! i) \<and>
    (\<forall>q. \<not> (unat z \<le> unat q \<and> unat q < unat z + length (strip_ansi xs)) \<longrightarrow> m' q = m q)"
  using assms
proof (induction xs arbitrary: m s z n rule: strip_ansi.induct)
  case 1
  then show ?case by (cases n) auto
next
  case (2 c cs)
  obtain k where n: "n = Suc k" using 2(4) by (cases n) auto
  have c: "m s = c" "c \<noteq> 0" "cstr m (s + 1) cs" using 2(3) by auto
  have le: "z \<le> s" using 2(6) by (simp add: word_le_nat_alt)
  have at: "unat (s + of_nat i) = unat s + i" if "i \<le> Suc (length cs)" for i
    using no_wrap_add [of s "Suc (Suc (length cs))" i] 2(7) that by simp
  have m1: "m (s + 1) = 0x5B \<longleftrightarrow> cs \<noteq> [] \<and> hd cs = 0x5B" using c(3) by (cases cs) auto
  show ?case
  proof (cases "c = 0x1B \<and> cs \<noteq> [] \<and> hd cs = 0x5B")
    case True
    let ?t = "length (takeWhile (\<lambda>x. x \<noteq> 0x6D) cs)"
    let ?s = "s + of_nat (Suc ?t)"
    have "\<forall>i \<le> length (c # cs). s + of_nat i \<noteq> 0"
    proof (intro allI impI notI)
      fix i assume i: "i \<le> length (c # cs)" and z: "s + of_nat i = 0"
      from at [of i] i have "unat (s + of_nat i) = unat s + i" by simp
      with z 2(8) show False by (simp add: unat_eq_zero)
    qed
    then have r: "internal_strchrnul fuel m s 0x6D = Inr ?s"
      using strchrnul_spec [OF 2(3,5), of "0x6D"] True by simp
    have t: "?t \<le> length cs" by (rule length_takeWhile_le)
    have dw: "dropWhile (\<lambda>x. x \<noteq> 0x6D) cs = drop ?t cs" by (rule dropWhile_eq_drop)
    have ms: "m ?s = (if ?t < length cs then cs ! ?t else 0)"
      using cstr_byte [OF 2(3), of "Suc ?t"] t by (simp add: nth_append)
    show ?thesis
    proof (cases "?t < length cs")
      case False
      then have "drop 1 (dropWhile (\<lambda>x. x \<noteq> 0x6D) cs) = []" unfolding dw by simp
      moreover have "strip_ansi (c # cs) = strip_ansi (drop 1 (dropWhile (\<lambda>x. x \<noteq> 0x6D) cs))" using True by simp
      ultimately have "strip_ansi (c # cs) = []" by (simp only: strip_ansi.simps)
      moreover have "remove_ansi fuel n m s z = Inr (m, z)" using True False n c m1 le r ms by simp
      ultimately show ?thesis by simp
    next
      case lt: True
      have nz: "cs ! ?t \<noteq> 0" using cstr_nonzero [OF c(3)] lt by (metis nth_mem)
      let ?xs = "drop 1 (dropWhile (\<lambda>x. x \<noteq> 0x6D) cs)"
      have xs: "?xs = drop (Suc (Suc ?t)) (c # cs)" by (simp add: dw)
      have "\<exists>m'. remove_ansi fuel k m (?s + 1) z = Inr (m', z + of_nat (length (strip_ansi ?xs))) \<and>
          (\<forall>i < length (strip_ansi ?xs). m' (z + of_nat i) = strip_ansi ?xs ! i) \<and>
          (\<forall>q. \<not> (unat z \<le> unat q \<and> unat q < unat z + length (strip_ansi ?xs)) \<longrightarrow> m' q = m q)"
      proof (rule 2(1) [OF True])
        show "cstr m (?s + 1) ?xs" using cstr_drop [OF 2(3), of "Suc (Suc ?t)"] lt unfolding xs by (simp add: algebra_simps)
        have u: "unat (?s + 1) = unat s + Suc (Suc ?t)" using at [of "Suc (Suc ?t)"] lt by (simp add: algebra_simps)
        have l: "length ?xs = length cs - Suc ?t" by (simp only: xs length_drop) simp
        show "length ?xs < k" "length ?xs < fuel" using 2(4,5) n by (simp_all only: l) simp_all
        show "unat z \<le> unat (?s + 1)" "?s + 1 \<noteq> 0" using u 2(6) by (auto simp: unat_gt_0 [symmetric])
        show "unat (?s + 1) + length ?xs < 2 ^ 64" using u l lt 2(7) by simp
      qed
      moreover have "strip_ansi (c # cs) = strip_ansi ?xs" using True by simp
      moreover have "remove_ansi fuel n m s z = remove_ansi fuel k m (?s + 1) z"
        using True lt n c m1 le r ms nz by simp
      ultimately show ?thesis by (simp only:)
    qed
  next
    case False
    let ?m = "m(z := c)"
    have upd: "(if s \<noteq> z then m(z := m s) else m) = ?m" using c(1) by auto
    have z1: "unat (z + 1) = unat z + 1" using 2(6,7) by (subst unat_add_small) simp_all
    have s1: "unat (s + 1) = unat s + 1" using at [of 1] by simp
    have "\<exists>m'. remove_ansi fuel k ?m (s + 1) (z + 1) = Inr (m', z + 1 + of_nat (length (strip_ansi cs))) \<and>
        (\<forall>i < length (strip_ansi cs). m' (z + 1 + of_nat i) = strip_ansi cs ! i) \<and>
        (\<forall>q. \<not> (unat (z + 1) \<le> unat q \<and> unat q < unat (z + 1) + length (strip_ansi cs)) \<longrightarrow> m' q = ?m q)"
    proof (rule 2(2) [OF False])
      have "s + 1 + of_nat i \<noteq> z" if "i \<le> length cs" for i
        using at [of "Suc i"] that 2(6) by (auto simp: algebra_simps)
      then show "cstr ?m (s + 1) cs" by (intro cstr_cong [OF _ c(3)]) auto
      show "length cs < k" "length cs < fuel" "unat (z + 1) \<le> unat (s + 1)"
          "unat (s + 1) + length cs < 2 ^ 64" using 2(4-7) n z1 s1 by simp_all
      show "s + 1 \<noteq> 0" using s1 by (auto simp: unat_gt_0 [symmetric])
    qed
    then obtain m' where m': "remove_ansi fuel k ?m (s + 1) (z + 1) = Inr (m', z + 1 + of_nat (length (strip_ansi cs)))"
        "\<And>i. i < length (strip_ansi cs) \<Longrightarrow> m' (z + 1 + of_nat i) = strip_ansi cs ! i"
        "\<And>q. \<not> (unat (z + 1) \<le> unat q \<and> unat q < unat (z + 1) + length (strip_ansi cs)) \<Longrightarrow> m' q = ?m q" by blast
    have e: "strip_ansi (c # cs) = c # strip_ansi cs" using False by auto
    have "\<not> (m s = 0x1B \<and> m (s + 1) = 0x5B)" using False c(1) m1 by auto
    then have "remove_ansi fuel n m s z = remove_ansi fuel k ?m (s + 1) (z + 1)"
      using n c(1,2) le unfolding n remove_ansi.simps Let_def upd by auto
    then have "remove_ansi fuel n m s z = Inr (m', z + of_nat (length (strip_ansi (c # cs))))"
      by (simp only: m'(1) e) simp
    moreover have "m' (z + of_nat i) = strip_ansi (c # cs) ! i" if "i < length (strip_ansi (c # cs))" for i
      using that m'(2) [of "i - 1"] m'(3) [of z] z1 unfolding e by (cases i) (auto simp: add.assoc)
    moreover have "m' q = m q" if "\<not> (unat z \<le> unat q \<and> unat q < unat z + length (strip_ansi (c # cs)))" for q
      using that m'(3) [of q] z1 unfolding e by auto
    ultimately show ?thesis by blast
  qed
qed

lemma RemoveANSI_spec:
  assumes "cstr m str xs" "length xs < fuel" "unat str + length xs < 2 ^ 64" "str \<noteq> 0"
  shows "\<exists>m'. RemoveANSIEscapeSequencesFromString fuel m str = Inr m' \<and> cstr m' str (strip_ansi xs) \<and>
    (\<forall>q. \<not> (unat str \<le> unat q \<and> unat q \<le> unat str + length xs) \<longrightarrow> m' q = m q)"
proof -
  let ?n = "length (strip_ansi xs)"
  from remove_ansi_spec [OF assms(1,2,2) le_refl assms(3,4)] obtain m' where
    r: "remove_ansi fuel fuel m str str = Inr (m', str + of_nat ?n)"
    and out: "\<And>i. i < ?n \<Longrightarrow> m' (str + of_nat i) = strip_ansi xs ! i"
    and rest: "\<And>q. \<not> (unat str \<le> unat q \<and> unat q < unat str + ?n) \<Longrightarrow> m' q = m q" by blast
  have n: "?n \<le> length xs" by (rule length_strip_ansi)
  have at: "unat (str + of_nat i) = unat str + i" if "i \<le> ?n" for i
    using no_wrap_add [of str "Suc (length xs)" i] assms(3) that n by simp
  have "cstr (m'(str + of_nat ?n := 0)) str (strip_ansi xs)"
  proof (rule cstrI)
    show "0 \<notin> set (strip_ansi xs)" using cstr_nonzero [OF assms(1)] set_strip_ansi by blast
    fix i assume i: "i \<le> ?n"
    show "(m'(str + of_nat ?n := 0)) (str + of_nat i) = (strip_ansi xs @ [0]) ! i"
    proof (cases "i = ?n")
      case False
      then have "unat (str + of_nat i) \<noteq> unat (str + of_nat ?n)" using i at by simp
      then have "str + of_nat i \<noteq> str + of_nat ?n" by metis
      then show ?thesis using i False out by (simp add: nth_append)
    qed (simp add: nth_append)
  qed
  moreover have "(m'(str + of_nat ?n := 0)) q = m q" if "\<not> (unat str \<le> unat q \<and> unat q \<le> unat str + length xs)" for q
    using that rest [of q] n at [of ?n] by auto
  ultimately show ?thesis using r assms(4) by (simp add: RemoveANSIEscapeSequencesFromString_def)
qed

section \<open>The matcher restores the template\<close>

lemma strchr_from_found: "strchr_from n m s c = Inr p \<Longrightarrow> p \<noteq> 0 \<Longrightarrow> m p = ucast c"
  by (induction n arbitrary: s) (auto split: if_splits)

lemma cut_piece_restore:
  assumes "cut_piece fuel m templ = Inr (tpos, tpos1, m')"
  shows "(if tpos \<noteq> 0 then m'(tpos := (if tpos = tpos1 then 0x24 else 0x2A)) else m') = m"
proof -
  from assms obtain a b where
    a: "internal_strchr fuel m templ 0x2A = Inr a" and b: "internal_strchr fuel m templ 0x24 = Inr b"
    and t: "tpos = (if a = 0 \<or> (b \<noteq> 0 \<and> b < a) then b else a)" "tpos1 = b"
    and m': "m' = (if tpos \<noteq> 0 then m(tpos := 0) else m)"
    by (auto simp: cut_piece_def andThen_eq_Inr Let_def)
  have "m a = 0x2A" if "a \<noteq> 0" using strchr_from_found [OF a [unfolded internal_strchr_def] that] by simp
  moreover have "m b = 0x24" if "b \<noteq> 0" using strchr_from_found [OF b [unfolded internal_strchr_def] that] by simp
  ultimately show ?thesis using t m' by (auto simp: fun_eq_iff)
qed

lemma match_loop_restores: "match_loop fuel n m templ str start asterisk = Inr (r, m') \<Longrightarrow> m' = m"
proof (induction n arbitrary: m templ str start asterisk)
  case (Suc n)
  note IH = Suc.IH
  show ?case
  proof (cases "templ = 0 \<or> m templ = 0 \<or> m templ = 0x2A \<or> m templ = 0x24 \<or> m str = 0")
    case True
    then show ?thesis using Suc.prems IH by (auto split: if_splits)
  next
    case False
    then obtain tpos tpos1 m2 where c: "cut_piece fuel m templ = Inr (tpos, tpos1, m2)"
      using Suc.prems by (auto simp: andThen_eq_Inr)
    note R = cut_piece_restore [OF c]
    have "match_loop fuel (Suc n) m templ str start asterisk =
        andThen (internal_strstr fuel m2 str templ) (\<lambda>spos. andThen (internal_strlen fuel m2 templ) (\<lambda>len.
          if spos = 0 then Inr (False, m) else if start \<and> spos \<noteq> str then Inr (False, m)
          else match_loop fuel n m tpos (spos + len) False False))"
      using False c by (simp add: Let_def R cong del: if_weak_cong)
    with Suc.prems show ?thesis by (auto simp: andThen_eq_Inr split: if_splits dest: IH simp del: match_loop.simps)
  qed
qed simp

lemma TemplateMatch_restores: "TemplateMatch fuel m templ str = Inr (r, m') \<Longrightarrow> m' = m"
  by (auto simp: TemplateMatch_def Let_def split: if_splits dest: match_loop_restores)

section \<open>Hooks and modules\<close>

lemma install_hook_length: "length (snd (install_hook mh fh i hs)) = length hs"
  by (induction hs arbitrary: i) (auto split: prod.splits simp: Let_def, metis snd_conv)

text \<open>The installed hooks come first: a slot is filled only after the slots before it.\<close>

definition packed :: "MallocFreeHook list \<Rightarrow> (uptr \<times> uptr) list \<Rightarrow> bool" where
  "packed hs ps \<longleftrightarrow> (\<exists>k. hs = map (\<lambda>(a, b). \<lparr> malloc_hook = a, free_hook = b \<rparr>) ps @
     replicate k \<lparr> malloc_hook = 0, free_hook = 0 \<rparr>) \<and> (\<forall>(a, b) \<in> set ps. a \<noteq> 0 \<and> b \<noteq> 0)"

lemma packed_run:
  assumes "packed hs ps"
  shows "run_hooks malloc_hook hs = map (\<lambda>p. Hook (fst p)) ps" "run_hooks free_hook hs = map (\<lambda>p. Hook (snd p)) ps"
proof -
  have "run_hooks sel (replicate k \<lparr> malloc_hook = 0, free_hook = 0 \<rparr>) = []" if "sel \<in> {malloc_hook, free_hook}" for sel k
    using that by (cases k) auto
  then have "(\<forall>(a, b) \<in> set ps. a \<noteq> 0 \<and> b \<noteq> 0) \<Longrightarrow>
      run_hooks malloc_hook (map (\<lambda>(a, b). \<lparr> malloc_hook = a, free_hook = b \<rparr>) ps @ replicate k \<lparr> malloc_hook = 0, free_hook = 0 \<rparr>) =
        map (\<lambda>p. Hook (fst p)) ps \<and>
      run_hooks free_hook (map (\<lambda>(a, b). \<lparr> malloc_hook = a, free_hook = b \<rparr>) ps @ replicate k \<lparr> malloc_hook = 0, free_hook = 0 \<rparr>) =
        map (\<lambda>p. Hook (snd p)) ps" for k
    by (induction ps) auto
  with assms show "run_hooks malloc_hook hs = map (\<lambda>p. Hook (fst p)) ps"
      "run_hooks free_hook hs = map (\<lambda>p. Hook (snd p)) ps"
    by (auto simp: packed_def)
qed

lemma install_hook_packed:
  "\<forall>(a, b) \<in> set ps. a \<noteq> 0 \<and> b \<noteq> 0 \<Longrightarrow>
   install_hook mh fh i (map (\<lambda>(a, b). \<lparr> malloc_hook = a, free_hook = b \<rparr>) ps @ replicate k \<lparr> malloc_hook = 0, free_hook = 0 \<rparr>) =
     (if k = 0 then (0, map (\<lambda>(a, b). \<lparr> malloc_hook = a, free_hook = b \<rparr>) ps)
      else (i + length ps + 1, map (\<lambda>(a, b). \<lparr> malloc_hook = a, free_hook = b \<rparr>) (ps @ [(mh, fh)]) @
              replicate (k - 1) \<lparr> malloc_hook = 0, free_hook = 0 \<rparr>))"
proof (induction ps arbitrary: i)
  case Nil
  then show ?case by (cases k) auto
qed auto

lemma in_ranges_iff: "in_ranges address rs \<longleftrightarrow> (\<exists>r \<in> set rs. range_beg r \<le> address \<and> address < range_end r)"
  by (induction rs) auto

end
