(* ===== verification/Shadow_Map.thy ===== *)
theory Shadow_Map
  imports San_Libc
begin

text \<open>
  The shadow memory of HWASan on Linux for x86-64 (\<open>hwasan_linux.cpp\<close>, \<open>hwasan_mapping.h\<close> and
  the shadow functions of \<open>hwasan.cpp\<close>): the layout of the address space, tagging a range of
  granules, the registration of globals, the probes of the interface, and the decoding of an
  access that trapped. \<open>G\<close> carries the shadow base, \<open>M\<close> the borders of the four regions.

  What is outside the repository is a field of \<open>hwasan_env\<close>: \<open>release_pages\<close> stands for
  \<open>ReleaseMemoryPagesToOSAndZeroFill\<close>, \<open>tag_memory\<close> for \<open>TagMemory\<close> and \<open>short_tag_match\<close> for
  \<open>PossiblyShortTagMatches\<close>. \<open>release_zeroes\<close> and \<open>match_ok\<close> state their documented behaviour.
\<close>

record hwasan_env =
  clear_shadow_mmap_threshold :: uptr
  release_pages :: "uptr \<Rightarrow> uptr \<Rightarrow> memory \<Rightarrow> memory"
  tag_memory :: "uptr \<Rightarrow> uptr \<Rightarrow> u8 \<Rightarrow> memory \<Rightarrow> memory"
  short_tag_match :: "memory \<Rightarrow> u8 \<Rightarrow> uptr \<Rightarrow> uptr \<Rightarrow> bool"

text \<open>The pages of a page-aligned range read as zero afterwards; nothing else changes.\<close>

definition release_zeroes :: "ct_globals \<Rightarrow> hwasan_env \<Rightarrow> bool" where
  "release_zeroes G E \<longleftrightarrow> (\<forall>a b m q. aligned a (page_size G) \<longrightarrow> aligned b (page_size G) \<longrightarrow> a \<le> b \<longrightarrow>
     release_pages E a b m q = (if a \<le> q \<and> q < b then 0 else m q))"

text \<open>
  A memory tag equal to the tag of the pointer matches, and the memory tag 0 matches no tagged
  pointer.
\<close>

definition match_ok :: "hwasan_env \<Rightarrow> bool" where
  "match_ok E \<longleftrightarrow> (\<forall>m p sz. short_tag_match E m (GetTagFromPointer p) p sz) \<and>
     (\<forall>m p sz. GetTagFromPointer p \<noteq> 0 \<longrightarrow> \<not> short_tag_match E m 0 p sz)"

section \<open>The layout of the address space\<close>

record shadow_map =
  kLowMemStart :: uptr
  kLowMemEnd :: uptr
  kLowShadowStart :: uptr
  kLowShadowEnd :: uptr
  kHighShadowStart :: uptr
  kHighShadowEnd :: uptr
  kHighMemStart :: uptr
  kHighMemEnd :: uptr

text \<open>On x86-64.\<close>

definition GetMaxVirtualAddress :: uptr where
  "GetMaxVirtualAddress = push_bit 47 1 - 1"

definition GetMaxUserVirtualAddress :: uptr where
  "GetMaxUserVirtualAddress = GetMaxVirtualAddress"

definition GetHighMemEnd :: "uptr \<Rightarrow> uptr" where
  "GetHighMemEnd granularity = GetMaxUserVirtualAddress OR (push_bit kShadowScale granularity - 1)"

text \<open>
  \<open>InitShadow\<close>: \<open>find_start\<close> stands for \<open>FindDynamicShadowStart\<close>. The result is the map, the
  globals with the shadow base, and the range reserved.
\<close>

definition InitShadow ::
    "uptr \<Rightarrow> (uptr \<Rightarrow> uptr) \<Rightarrow> ct_globals \<Rightarrow> shadow_map \<times> ct_globals \<times> uptr \<times> uptr" where
  "InitShadow granularity find_start G =
     (let hme = GetHighMemEnd granularity;
          base = find_start (MemToShadowSize hme);
          G = G\<lparr>ct_shadow_memory_dynamic_address := base\<rparr>;
          lme = base - 1;
          hse = MemToShadow G hme;
          hss = San_Max lme (MemToShadow G hse) + 1
      in (\<lparr> kLowMemStart = 0, kLowMemEnd = lme, kLowShadowStart = base, kLowShadowEnd = MemToShadow G lme,
            kHighShadowStart = hss, kHighShadowEnd = hse, kHighMemStart = hse, kHighMemEnd = hme \<rparr>,
          G, base, hse))"

text \<open>The ranges \<open>PrintAddressSpaceLayout\<close> prints, in order, and its checks.\<close>

definition PrintAddressSpaceLayout :: "shadow_map \<Rightarrow> (uptr \<times> uptr \<times> string) list res" where
  "PrintAddressSpaceLayout M =
     (let r0 = [(kHighMemStart M, kHighMemEnd M, ''HighMem'')] in
      andThen (if kHighShadowEnd M + 1 < kHighMemStart M
               then Inr (r0 @ [(kHighShadowEnd M + 1, kHighMemStart M - 1, ''ShadowGap'')])
               else andThen (check (kHighShadowEnd M + 1 = kHighMemStart M)) (\<lambda>_. Inr r0)) (\<lambda>r1.
      let r2 = r1 @ [(kHighShadowStart M, kHighShadowEnd M, ''HighShadow'')] in
      andThen (if kLowShadowEnd M + 1 < kHighShadowStart M
               then Inr (r2 @ [(kLowShadowEnd M + 1, kHighShadowStart M - 1, ''ShadowGap'')])
               else andThen (check (kLowMemEnd M + 1 = kHighShadowStart M)) (\<lambda>_. Inr r2)) (\<lambda>r3.
      let r4 = r3 @ [(kLowShadowStart M, kLowShadowEnd M, ''LowShadow'')] in
      andThen (if kLowMemEnd M + 1 < kLowShadowStart M
               then Inr (r4 @ [(kLowMemEnd M + 1, kLowShadowStart M - 1, ''ShadowGap'')])
               else andThen (check (kLowMemEnd M + 1 = kLowShadowStart M)) (\<lambda>_. Inr r4)) (\<lambda>r5.
      let r6 = r5 @ [(kLowMemStart M, kLowMemEnd M, ''LowMem'')] in
      andThen (check (0 = kLowMemStart M)) (\<lambda>_. Inr r6)))))"

definition MemIsApp :: "shadow_map \<Rightarrow> uptr \<Rightarrow> bool res" where
  "MemIsApp M p =
     andThen (check (GetTagFromPointer p = 0)) (\<lambda>_.
     Inr ((kHighMemStart M \<le> p \<and> p \<le> kHighMemEnd M) \<or> (kLowMemStart M \<le> p \<and> p \<le> kLowMemEnd M)))"

definition MemIsShadow :: "shadow_map \<Rightarrow> uptr \<Rightarrow> bool" where
  "MemIsShadow M p \<longleftrightarrow> (kLowShadowStart M \<le> p \<and> p \<le> kLowShadowEnd M) \<or>
     (kHighShadowStart M \<le> p \<and> p \<le> kHighShadowEnd M)"

definition kShadowBaseAlignment :: nat where "kShadowBaseAlignment = 32"

text \<open>
  \<open>InitThreads\<close>: the space before the shadow base. The ranges are the reservation, the gap
  protected, and the space of the thread list.
\<close>

definition InitThreads :: "ct_globals \<Rightarrow> uptr \<Rightarrow> ((uptr \<times> uptr) \<times> (uptr \<times> uptr) \<times> (uptr \<times> uptr)) res" where
  "InitThreads G granularity =
     andThen (check (ct_shadow_memory_dynamic_address G \<noteq> 0)) (\<lambda>_.
     let guard_page_size = granularity;
         thread_space_start = ct_shadow_memory_dynamic_address G - push_bit kShadowBaseAlignment 1;
         thread_space_end = ct_shadow_memory_dynamic_address G - guard_page_size
     in Inr ((thread_space_start, thread_space_end - 1),
             (thread_space_end, ct_shadow_memory_dynamic_address G - thread_space_end),
             (thread_space_start, thread_space_end - thread_space_start)))"

text \<open>
  \<open>InitializeOsSupport\<close> on x86-64: \<open>get_untag\<close> is whether \<open>ARCH_GET_UNTAG_MASK\<close> failed with
  \<open>EINVAL\<close>, \<open>set_failed\<close> and \<open>ctrl\<close> the answers of the tagged-address \<open>prctl\<close> calls, \<open>enable_failed\<close>
  that of \<open>ARCH_ENABLE_TAGGED_ADDR\<close>.
\<close>

definition InitializeOsSupport :: "bool \<Rightarrow> bool \<Rightarrow> uptr \<Rightarrow> bool \<Rightarrow> bool \<Rightarrow> unit res" where
  "InitializeOsSupport get_untag set_failed ctrl enable_failed fail_without_syscall_abi =
     (let has_abi = get_untag in
      if has_abi then Inr ()
      else if set_failed \<or> ctrl = 0 then
        if \<not> enable_failed then Inr ()
        else if fail_without_syscall_abi then Inl Died
        else Inr ()
      else Inr ())"

section \<open>Tagging memory\<close>

definition TagMemoryAligned ::
    "ct_globals \<Rightarrow> hwasan_env \<Rightarrow> uptr \<Rightarrow> uptr \<Rightarrow> u8 \<Rightarrow> memory \<Rightarrow> (uptr \<times> memory) res" where
  "TagMemoryAligned G E p sz tag m =
     andThen (IsAligned p kShadowAlignment) (\<lambda>al. andThen (check al) (\<lambda>_.
     andThen (IsAligned sz kShadowAlignment) (\<lambda>al. andThen (check al) (\<lambda>_.
     let shadow_start = MemToShadow G p;
         shadow_size = MemToShadowSize sz in
     andThen (RoundUpTo shadow_start (page_size G)) (\<lambda>page_start.
     let page_end = RoundDownTo (shadow_start + shadow_size) (page_size G);
         threshold = clear_shadow_mmap_threshold E;
         m = (if page_start + threshold \<le> page_end \<and> tag = 0 then
                let m = internal_memset shadow_start (ucast tag) (page_start - shadow_start) m;
                    m = internal_memset page_end (ucast tag) (shadow_start + shadow_size - page_end) m
                in release_pages E page_start page_end m
              else internal_memset shadow_start (ucast tag) shadow_size m)
     in Inr (AddTagToPointer p tag, m))))))"

definition hwasan_tag_memory ::
    "ct_globals \<Rightarrow> hwasan_env \<Rightarrow> uptr \<Rightarrow> u8 \<Rightarrow> uptr \<Rightarrow> memory \<Rightarrow> memory res" where
  "hwasan_tag_memory G E p tag sz m = andThen (TagMemoryAligned G E p sz tag m) (\<lambda>(_, m). Inr m)"

definition hwasan_tag_pointer :: "uptr \<Rightarrow> u8 \<Rightarrow> uptr" where
  "hwasan_tag_pointer p tag = AddTagToPointer p tag"

record hwasan_global =
  global_addr :: uptr
  global_size :: uptr
  global_tag :: u8

definition InitializeSingleGlobal :: "ct_globals \<Rightarrow> hwasan_env \<Rightarrow> hwasan_global \<Rightarrow> memory \<Rightarrow> memory res" where
  "InitializeSingleGlobal G E g m =
     (let full_granule_size = RoundDownTo (global_size g) 16 in
      andThen (TagMemoryAligned G E (global_addr g) full_granule_size (global_tag g) m) (\<lambda>(_, m).
      if global_size g mod 16 \<noteq> 0 then
        andThen (TagMemoryAligned G E (global_addr g + full_granule_size) 16 (ucast (global_size g mod 16)) m)
          (\<lambda>(_, m). Inr m)
      else Inr m))"

fun InitLoadedGlobals :: "ct_globals \<Rightarrow> hwasan_env \<Rightarrow> hwasan_global list \<Rightarrow> memory \<Rightarrow> memory res" where
  "InitLoadedGlobals G E [] m = Inr m"
| "InitLoadedGlobals G E (g # gs) m = andThen (InitializeSingleGlobal G E g m) (InitLoadedGlobals G E gs)"

text \<open>The loadable segments of a library: address and size in memory.\<close>

fun hwasan_library_unloaded :: "hwasan_env \<Rightarrow> uptr \<Rightarrow> (bool \<times> uptr \<times> uptr) list \<Rightarrow> memory \<Rightarrow> memory" where
  "hwasan_library_unloaded E base [] m = m"
| "hwasan_library_unloaded E base ((pt_load, vaddr, memsz) # phdrs) m =
     hwasan_library_unloaded E base phdrs (if pt_load then tag_memory E (base + vaddr) memsz 0 m else m)"

definition kMaxExpectedCleanupSize :: uptr where "kMaxExpectedCleanupSize = push_bit 20 64"

definition hwasan_handle_longjmp :: "hwasan_env \<Rightarrow> uptr \<Rightarrow> uptr \<Rightarrow> memory \<Rightarrow> memory res" where
  "hwasan_handle_longjmp E sp dst m =
     andThen (check (GetTagFromPointer dst = 0)) (\<lambda>_.
     if dst < sp \<or> kMaxExpectedCleanupSize < dst - sp then Inr m
     else Inr (tag_memory E sp (dst - sp) 0 m))"

definition hwasan_handle_vfork :: "hwasan_env \<Rightarrow> (uptr \<times> uptr) option \<Rightarrow> uptr \<Rightarrow> memory \<Rightarrow> memory res" where
  "hwasan_handle_vfork E stack sp m =
     (case stack of None \<Rightarrow> Inl Check_failed
      | Some (stack_top, stack_bottom) \<Rightarrow>
          if stack_top = 0 \<or> stack_bottom = 0 \<or> sp < stack_bottom \<or> stack_top \<le> sp then Inr m
          else Inr (tag_memory E stack_bottom (sp - stack_bottom) 0 m))"

section \<open>Probing memory\<close>

text \<open>The loop over the shadow bytes; the counter bounds it by the bytes of the address space.\<close>

fun test_shadow :: "ct_globals \<Rightarrow> nat \<Rightarrow> memory \<Rightarrow> u8 \<Rightarrow> uptr \<Rightarrow> uptr \<Rightarrow> uptr \<Rightarrow> int res" where
  "test_shadow G 0 m ptr_tag ptr_raw s shadow_last = Inl Out_of_fuel"
| "test_shadow G (Suc n) m ptr_tag ptr_raw s shadow_last =
     (if s \<le> shadow_last then
        if m s \<noteq> ptr_tag then
          let offset = sint (ShadowToMem G s - ptr_raw) in Inr (if offset < 0 then 0 else offset)
        else test_shadow G n m ptr_tag ptr_raw (s + 1) shadow_last
      else Inr (- 1))"

definition hwasan_test_shadow :: "ct_globals \<Rightarrow> nat \<Rightarrow> memory \<Rightarrow> uptr \<Rightarrow> uptr \<Rightarrow> int res" where
  "hwasan_test_shadow G fuel m p sz =
     (if sz = 0 then Inr (- 1)
      else
        let ptr_tag = GetTagFromPointer p;
            ptr_raw = UntagAddr p;
            shadow_first = MemToShadow G ptr_raw;
            shadow_last = MemToShadow G (ptr_raw + sz - 1)
        in test_shadow G fuel m ptr_tag ptr_raw shadow_first shadow_last)"

text \<open>The lines \<open>__hwasan_print_shadow\<close> prints: granule, memory tag, and the tag in a short granule.\<close>

fun print_shadow :: "ct_globals \<Rightarrow> nat \<Rightarrow> memory \<Rightarrow> uptr \<Rightarrow> uptr \<Rightarrow> (uptr \<times> u8 \<times> u8 option) list res" where
  "print_shadow G 0 m s shadow_last = Inl Out_of_fuel"
| "print_shadow G (Suc n) m s shadow_last =
     (if s \<le> shadow_last then
        let mem_tag = m s;
            granule_addr = ShadowToMem G s;
            line = (granule_addr, mem_tag,
              if mem_tag \<noteq> 0 \<and> ucast mem_tag < kShadowAlignment
              then Some (m (granule_addr + kShadowAlignment - 1)) else None)
        in andThen (print_shadow G n m (s + 1) shadow_last) (\<lambda>ls. Inr (line # ls))
      else Inr [])"

definition hwasan_print_shadow :: "ct_globals \<Rightarrow> nat \<Rightarrow> memory \<Rightarrow> uptr \<Rightarrow> uptr \<Rightarrow> (uptr \<times> u8 \<times> u8 option) list res" where
  "hwasan_print_shadow G fuel m p sz =
     (let ptr_raw = UntagAddr p in
      print_shadow G fuel m (MemToShadow G ptr_raw) (MemToShadow G (ptr_raw + sz - 1)))"

section \<open>Accesses that trapped\<close>

record AccessInfo =
  ai_addr :: uptr
  ai_size :: uptr
  is_store :: bool
  is_load :: bool
  recover :: bool

definition not_ours :: AccessInfo where
  "not_ours = \<lparr> ai_addr = 0, ai_size = 0, is_store = False, is_load = False, recover = False \<rparr>"

text \<open>The instruction after the trap is at \<open>pc\<close>; \<open>rdi\<close> and \<open>rsi\<close> are the registers.\<close>

definition GetAccessInfo :: "memory \<Rightarrow> uptr \<Rightarrow> uptr \<Rightarrow> uptr \<Rightarrow> AccessInfo" where
  "GetAccessInfo m pc rdi rsi =
     (if m pc \<noteq> 0x0f \<or> m (pc + 1) \<noteq> 0x1f \<or> m (pc + 2) \<noteq> 0x40 \<or> m (pc + 3) < 0x40 then not_ours
      else
        let code = ucast (m (pc + 3)) :: u32;
            store = (code AND 0x10 \<noteq> 0);
            rec = (code AND 0x20 \<noteq> 0);
            addr = rdi;
            size_log = code AND 0xf
        in if 4 < size_log \<and> size_log \<noteq> 0xf then not_ours
           else \<lparr> ai_addr = addr,
                  ai_size = (if size_log = 0xf then rsi else ucast (push_bit (unat size_log) 1 :: u32)),
                  is_store = store, is_load = \<not> store, recover = rec \<rparr>)"

text \<open>The report of a mismatch: what \<open>ReportTagMismatch\<close> is called with.\<close>

record mismatch =
  mm_addr :: uptr
  mm_size :: uptr
  mm_store :: bool
  mm_fatal :: bool

definition HandleTagMismatch :: "bool \<Rightarrow> AccessInfo \<Rightarrow> mismatch" where
  "HandleTagMismatch halt_on_error ai =
     \<lparr> mm_addr = ai_addr ai, mm_size = ai_size ai, mm_store = is_store ai,
       mm_fatal = (halt_on_error \<or> \<not> recover ai) \<rparr>"

definition access_info_of :: "uptr \<Rightarrow> uptr \<Rightarrow> uptr \<Rightarrow> AccessInfo" where
  "access_info_of addr access_info outsize =
     (let store = (access_info AND 0x10 \<noteq> 0) in
      \<lparr> ai_addr = addr,
        ai_size = (if access_info AND 0xf = 0xf then outsize
                   else scast (push_bit (unat (access_info AND 0xf)) 1 :: s32)),
        is_store = store, is_load = \<not> store, recover = (access_info AND 0x20 \<noteq> 0) \<rparr>)"

definition HwasanTagMismatch :: "bool \<Rightarrow> uptr \<Rightarrow> uptr \<Rightarrow> uptr \<Rightarrow> mismatch" where
  "HwasanTagMismatch halt_on_error addr access_info outsize =
     HandleTagMismatch halt_on_error (access_info_of addr access_info outsize)"

definition HwasanOnSIGTRAP :: "bool \<Rightarrow> memory \<Rightarrow> uptr \<Rightarrow> uptr \<Rightarrow> uptr \<Rightarrow> mismatch option" where
  "HwasanOnSIGTRAP halt_on_error m pc rdi rsi =
     (let ai = GetAccessInfo m pc rdi rsi in
      if \<not> is_store ai \<and> \<not> is_load ai then None else Some (HandleTagMismatch halt_on_error ai))"

text \<open>The outcome of a deadly signal: a handled trap, or the general handler.\<close>

datatype signal_outcome = Trap_handled mismatch | Deadly

definition HwasanOnDeadlySignal :: "bool \<Rightarrow> bool \<Rightarrow> memory \<Rightarrow> uptr \<Rightarrow> uptr \<Rightarrow> uptr \<Rightarrow> signal_outcome" where
  "HwasanOnDeadlySignal halt_on_error is_sigtrap m pc rdi rsi =
     (if is_sigtrap then
        case HwasanOnSIGTRAP halt_on_error m pc rdi rsi of Some r \<Rightarrow> Trap_handled r | None \<Rightarrow> Deadly
      else Deadly)"

section \<open>The access checks of the interface\<close>

datatype ErrorAction = Abort | Recover
datatype AccessType = Load | Store

text \<open>
  The checks live in \<open>hwasan_checks.h\<close>, outside the repository; an entry point of the interface
  selects one: the size in memory operands of \<open>2 ^ log\<close> bytes, or a size in bytes.
\<close>

datatype access_check =
  CheckAddress ErrorAction AccessType nat uptr
| CheckAddressSized ErrorAction AccessType uptr uptr

datatype entry_point =
  loadN uptr | load1 | load2 | load4 | load8 | load16
| loadN_noabort uptr | load1_noabort | load2_noabort | load4_noabort | load8_noabort | load16_noabort
| storeN uptr | store1 | store2 | store4 | store8 | store16
| storeN_noabort uptr | store1_noabort | store2_noabort | store4_noabort | store8_noabort | store16_noabort

fun hwasan_access :: "entry_point \<Rightarrow> uptr \<Rightarrow> access_check" where
  "hwasan_access (loadN sz) p = CheckAddressSized Abort Load p sz"
| "hwasan_access load1 p = CheckAddress Abort Load 0 p"
| "hwasan_access load2 p = CheckAddress Abort Load 1 p"
| "hwasan_access load4 p = CheckAddress Abort Load 2 p"
| "hwasan_access load8 p = CheckAddress Abort Load 3 p"
| "hwasan_access load16 p = CheckAddress Abort Load 4 p"
| "hwasan_access (loadN_noabort sz) p = CheckAddressSized Recover Load p sz"
| "hwasan_access load1_noabort p = CheckAddress Recover Load 0 p"
| "hwasan_access load2_noabort p = CheckAddress Recover Load 1 p"
| "hwasan_access load4_noabort p = CheckAddress Recover Load 2 p"
| "hwasan_access load8_noabort p = CheckAddress Recover Load 3 p"
| "hwasan_access load16_noabort p = CheckAddress Recover Load 4 p"
| "hwasan_access (storeN sz) p = CheckAddressSized Abort Store p sz"
| "hwasan_access store1 p = CheckAddress Abort Store 0 p"
| "hwasan_access store2 p = CheckAddress Abort Store 1 p"
| "hwasan_access store4 p = CheckAddress Abort Store 2 p"
| "hwasan_access store8 p = CheckAddress Abort Store 3 p"
| "hwasan_access store16 p = CheckAddress Abort Store 4 p"
| "hwasan_access (storeN_noabort sz) p = CheckAddressSized Recover Store p sz"
| "hwasan_access store1_noabort p = CheckAddress Recover Store 0 p"
| "hwasan_access store2_noabort p = CheckAddress Recover Store 1 p"
| "hwasan_access store4_noabort p = CheckAddress Recover Store 2 p"
| "hwasan_access store8_noabort p = CheckAddress Recover Store 3 p"
| "hwasan_access store16_noabort p = CheckAddress Recover Store 4 p"

section \<open>What tagging does to the shadow\<close>

text \<open>
  The page size and the threshold are such that the arithmetic of \<open>TagMemoryAligned\<close> on a range
  of shadow does not wrap.
\<close>

definition shadow_fits :: "ct_globals \<Rightarrow> hwasan_env \<Rightarrow> uptr \<Rightarrow> uptr \<Rightarrow> bool" where
  "shadow_fits G E p sz \<longleftrightarrow> unat (MemToShadow G p) + unat (MemToShadowSize sz) + unat (page_size G) +
     unat (clear_shadow_mmap_threshold E) < 2 ^ 64"

lemma kShadowAlignment_16: "kShadowAlignment = 2 ^ 4"
  by (simp add: kShadowAlignment_def kShadowScale_def)

lemma in_range_unat: "unat a + unat n \<le> 2 ^ 64 \<Longrightarrow> q - a < n \<longleftrightarrow> unat a \<le> unat q \<and> unat q < unat a + unat n"
  for a n q :: uptr
proof -
  assume w: "unat a + unat n \<le> 2 ^ 64"
  show ?thesis
  proof (cases "unat a \<le> unat q")
    case True
    then have "unat (q - a) = unat q - unat a" by (simp add: unat_sub word_le_nat_alt)
    then show ?thesis using True by (simp only: word_less_nat_alt) arith
  next
    case False
    then have lt: "q < a" by (simp add: word_less_nat_alt)
    have "unat (q - a) + unat a = 2 ^ 64 + unat q"
    proof -
      have "unat (q - a) = (unat q + 2 ^ 64 - unat a) mod 2 ^ 64"
        using False by (simp add: unat_sub_if' word_le_nat_alt)
      moreover have "unat q + 2 ^ 64 - unat a < 2 ^ 64" using False by simp
      moreover have "unat a \<le> unat q + 18446744073709551616" using unat_less_64 [of a] by linarith
      ultimately show ?thesis by simp
    qed
    then show ?thesis using False w by (simp only: word_less_nat_alt) arith
  qed
qed

lemma unat_kShadowSize: "unat (MemToShadowSize sz) = unat sz div 16"
  by (simp add: MemToShadowSize_def kShadowScale_def unat_drop_bit)

lemma memset_shadow:
  assumes "unat s + unat n < 2 ^ 64"
  shows "internal_memset s (ucast (b :: u8)) n m q = (if unat s \<le> unat q \<and> unat q < unat s + unat n then b else m q)"
  using assms by (simp add: memset_spec in_range_unat)

text \<open>Both paths of \<open>TagMemoryAligned\<close> write the tag to the shadow of the range and to nothing else.\<close>

lemma TagMemoryAligned_spec:
  assumes al: "aligned p 16" "aligned sz 16" and page: "page_size G = 2 ^ k" "k < 63"
    and fits: "shadow_fits G E p sz" and rel: "release_zeroes G E"
  shows "\<exists>m'. TagMemoryAligned G E p sz tag m = Inr (AddTagToPointer p tag, m') \<and>
    (\<forall>q. m' q = (if unat (MemToShadow G p) \<le> unat q \<and> unat q < unat (MemToShadow G p) + unat sz div 16 then tag else m q))"
proof -
  let ?s = "MemToShadow G p" and ?n = "MemToShadowSize sz" and ?pg = "2 ^ k :: nat"
  let ?ps = "round_up ?s (2 ^ k)" and ?pe = "RoundDownTo (?s + ?n) (2 ^ k)"
  have pg: "unat (page_size G) = ?pg" unfolding page(1) using page(2) by (intro unat_pow2) simp
  have k: "k < 64" using page(2) by simp
  have f: "unat ?s + unat ?n + ?pg + unat (clear_shadow_mmap_threshold E) < 2 ^ 64"
    using fits by (simp add: shadow_fits_def pg)
  have e: "unat (?s + ?n) = unat ?s + unat ?n" using f by (subst unat_add_small) simp_all
  have nn: "unat ?n = unat sz div 16" by (rule unat_kShadowSize)
  have pw: "0 < ?pg" by simp
  have psx: "unat ?s + (?pg - 1) < 2 ^ 64" using f by linarith
  have ps: "unat ?ps = (unat ?s + (?pg - 1)) div ?pg * ?pg" by (rule unat_round_up [OF k psx])
  have pe: "unat ?pe = (unat ?s + unat ?n) div ?pg * ?pg" by (simp only: unat_round_down e)
  have ps_ge: "unat ?s \<le> unat ?ps"
  proof -
    have "(unat ?s + (?pg - 1)) mod ?pg < ?pg" by simp
    moreover have "unat ?s + (?pg - 1) = unat ?ps + (unat ?s + (?pg - 1)) mod ?pg"
      unfolding ps by (rule div_mult_mod_eq [symmetric])
    ultimately show ?thesis by linarith
  qed
  have ps_le: "unat ?ps \<le> unat ?s + (?pg - 1)" unfolding ps by (rule div_times_less_eq_dividend)
  have pe_le: "unat ?pe \<le> unat ?s + unat ?n" unfolding pe by (rule div_times_less_eq_dividend)
  let ?th = "clear_shadow_mmap_threshold E"
  have "unat ?ps + unat ?th < 2 ^ 64" using f ps_le pw by linarith
  then have pst: "unat (?ps + ?th) = unat ?ps + unat ?th" by (subst unat_add_small) simp_all
  have plain: "internal_memset ?s (ucast tag) ?n m q =
      (if unat ?s \<le> unat q \<and> unat q < unat ?s + unat sz div 16 then tag else m q)" for q
    using f by (subst memset_shadow) (simp_all add: nn)
  have fast: "release_pages E ?ps ?pe (internal_memset ?pe (ucast tag) (?s + ?n - ?pe)
        (internal_memset ?s (ucast tag) (?ps - ?s) m)) q =
      (if unat ?s \<le> unat q \<and> unat q < unat ?s + unat sz div 16 then tag else m q)"
    if c: "?ps + ?th \<le> ?pe" "tag = 0" for q
  proof -
    have le: "unat ?ps + unat ?th \<le> unat ?pe" using c(1) by (simp only: word_le_nat_alt pst)
    have d1: "unat (?ps - ?s) = unat ?ps - unat ?s" using ps_ge by (simp add: unat_sub word_le_nat_alt)
    have d2: "unat (?s + ?n - ?pe) = unat ?s + unat ?n - unat ?pe"
      using pe_le e by (simp add: unat_sub word_le_nat_alt)
    have u1: "unat ?s + unat (?ps - ?s) < 2 ^ 64" using d1 ps_ge pe_le le f by linarith
    have u2: "unat ?pe + unat (?s + ?n - ?pe) < 2 ^ 64" using d2 pe_le f by linarith
    have "aligned ?ps (page_size G)" "aligned ?pe (page_size G)" unfolding page(1) aligned_iff_dvd ps pe by simp_all
    moreover have "?ps \<le> ?pe" using le by (simp add: word_le_nat_alt)
    ultimately have r: "release_pages E ?ps ?pe M q = (if ?ps \<le> q \<and> q < ?pe then 0 else M q)" for M
      using rel by (simp add: release_zeroes_def)
    show ?thesis
      unfolding r memset_shadow [OF u2] memset_shadow [OF u1] d1 d2 nn word_le_nat_alt word_less_nat_alt
      using ps_ge pe_le le c(2) nn by auto
  qed
  have ra: "RoundUpTo ?s (page_size G) = Inr ?ps" unfolding page(1) by (rule RoundUpTo_exp [OF k])
  have ia: "IsAligned p kShadowAlignment = Inr True" "IsAligned sz kShadowAlignment = Inr True"
    using IsAligned_exp [of 4 p] IsAligned_exp [of 4 sz] al by (simp_all add: kShadowAlignment_16)
  show ?thesis
  proof (cases "?ps + ?th \<le> ?pe \<and> tag = 0")
    case True
    then have "TagMemoryAligned G E p sz tag m = Inr (AddTagToPointer p tag,
        release_pages E ?ps ?pe (internal_memset ?pe (ucast tag) (?s + ?n - ?pe) (internal_memset ?s (ucast tag) (?ps - ?s) m)))"
      unfolding TagMemoryAligned_def Let_def page(1) by (simp add: ia ra [unfolded page(1)])
    then show ?thesis using fast True by blast
  next
    case False
    then have "TagMemoryAligned G E p sz tag m = Inr (AddTagToPointer p tag, internal_memset ?s (ucast tag) ?n m)"
      unfolding TagMemoryAligned_def Let_def page(1) by (auto simp: ia ra [unfolded page(1)])
    then show ?thesis using plain by blast
  qed
qed

lemma unat_MemToShadow:
  "unat (GetShadowOffset G) + unat a div 16 < 2 ^ 64 \<Longrightarrow> unat (MemToShadow G a) = unat (GetShadowOffset G) + unat a div 16"
proof -
  assume w: "unat (GetShadowOffset G) + unat a div 16 < 2 ^ 64"
  have "unat (drop_bit kShadowScale a) = unat a div 16" by (simp add: kShadowScale_def unat_drop_bit)
  then show ?thesis using w by (simp add: MemToShadow_def unat_add_small)
qed

text \<open>The shadow byte of an address in the range lies in the shadow of the range.\<close>

lemma shadow_of_range:
  assumes "16 dvd unat p" "16 dvd unat sz" "unat p \<le> unat a" "unat a < unat p + unat sz"
    "unat (GetShadowOffset G) + unat (p + sz) div 16 < 2 ^ 64" "unat p + unat sz < 2 ^ 64"
  shows "unat (MemToShadow G p) \<le> unat (MemToShadow G a) \<and>
    unat (MemToShadow G a) < unat (MemToShadow G p) + unat sz div 16"
proof -
  obtain b c where bc: "unat p = 16 * b" "unat sz = 16 * c" using assms(1,2) by (elim dvdE)
  have ps: "unat (p + sz) = unat p + unat sz" using assms(6) by (simp add: unat_add_small)
  have d: "unat p div 16 = b" "unat sz div 16 = c" "unat (p + sz) div 16 = b + c" unfolding ps bc by simp_all
  have lt: "unat a div 16 < b + c" using assms(4) bc by (simp add: div_less_iff_less_mult)
  have le: "b \<le> unat a div 16" using assms(3) bc by (simp add: less_eq_div_iff_mult_less_eq)
  have a: "unat (MemToShadow G a) = unat (GetShadowOffset G) + unat a div 16"
    using lt assms(5) d by (intro unat_MemToShadow) linarith
  have p: "unat (MemToShadow G p) = unat (GetShadowOffset G) + b"
    using assms(5) d unat_MemToShadow [of G p] by simp
  show ?thesis unfolding a p d using le lt by simp
qed

section \<open>Decoding an access\<close>

text \<open>
  The compiler encodes an access in a byte: 16 for a store, 32 when the error is recoverable, and
  the logarithm of the size or 15. The trap handler and the function the instrumentation calls
  decode it to the same access.
\<close>

definition same_bits :: "u8 \<Rightarrow> bool" where
  "same_bits c \<longleftrightarrow>
     (((ucast (0x40 + c) :: u32) AND 0x10 \<noteq> 0) \<longleftrightarrow> ((ucast c :: u64) AND 0x10 \<noteq> 0)) \<and>
     (((ucast (0x40 + c) :: u32) AND 0x20 \<noteq> 0) \<longleftrightarrow> ((ucast c :: u64) AND 0x20 \<noteq> 0)) \<and>
     unat ((ucast (0x40 + c) :: u32) AND 0xf) = unat c mod 16 \<and>
     unat ((ucast c :: u64) AND 0xf) = unat c mod 16 \<and> 0x40 \<le> 0x40 + c"

lemma same_bits_all: "list_all (\<lambda>i. same_bits (of_nat i)) [0..<64]"
  by code_simp

lemma same_bits: "c < 0x40 \<Longrightarrow> same_bits c"
proof -
  assume "c < 0x40"
  then have "unat c < 64" by (simp add: word_less_nat_alt)
  then show ?thesis
    using bspec [of "{0..<64}" "\<lambda>i. same_bits (of_nat i)" "unat c"] same_bits_all by (simp add: list_all_iff)
qed

lemma access_size:
  "n \<le> 4 \<Longrightarrow> ucast (push_bit n 1 :: u32) = (scast (push_bit n 1 :: s32) :: uptr)"
proof -
  assume "n \<le> 4"
  then have "n = 0 \<or> n = 1 \<or> n = 2 \<or> n = 3 \<or> n = 4" by arith
  then show ?thesis by auto
qed

lemma GetAccessInfo_decodes:
  assumes "m pc = 0x0f" "m (pc + 1) = 0x1f" "m (pc + 2) = 0x40" "m (pc + 3) = 0x40 + c"
    "c < 0x40" "unat c mod 16 \<le> 4 \<or> unat c mod 16 = 15"
  shows "GetAccessInfo m pc rdi rsi = access_info_of rdi (ucast c) rsi"
proof -
  let ?l = "(ucast (0x40 + c) :: u32) AND 0xf" and ?r = "(ucast c :: u64) AND 0xf"
  note B = same_bits [OF assms(5), unfolded same_bits_def]
  have l: "?l = 0xf \<longleftrightarrow> unat c mod 16 = 15" "4 < ?l \<longleftrightarrow> 4 < unat c mod 16"
    using B by (auto simp: word_unat_eq_iff word_less_nat_alt)
  have r: "?r = 0xf \<longleftrightarrow> unat c mod 16 = 15" using B by (auto simp: word_unat_eq_iff)
  have "\<not> (0x40 + c < 0x40)" using B by (simp add: not_less)
  then have "GetAccessInfo m pc rdi rsi = \<lparr> ai_addr = rdi,
      ai_size = (if unat c mod 16 = 15 then rsi else ucast (push_bit (unat c mod 16) 1 :: u32)),
      is_store = ((ucast c :: u64) AND 0x10 \<noteq> 0), is_load = \<not> ((ucast c :: u64) AND 0x10 \<noteq> 0),
      recover = ((ucast c :: u64) AND 0x20 \<noteq> 0) \<rparr>"
    unfolding GetAccessInfo_def Let_def assms(1-4) l using B assms(6) by auto
  also have "\<dots> = access_info_of rdi (ucast c) rsi"
    unfolding access_info_of_def Let_def r using B assms(6) access_size [of "unat c mod 16"] by auto
  finally show ?thesis .
qed

section \<open>The borders overlap\<close>

text \<open>
  \<open>InitShadow\<close> starts the high memory at the last byte of the high shadow instead of the byte
  after it, so that byte counts as application memory and as shadow.
\<close>

lemma InitShadow_overlap:
  assumes "InitShadow g find_start G = (M, G', r)" "kHighShadowStart M \<le> kHighShadowEnd M"
    "kHighShadowEnd M \<le> kHighMemEnd M" "GetTagFromPointer (kHighShadowEnd M) = 0"
  shows "MemIsShadow M (kHighShadowEnd M) \<and> MemIsApp M (kHighShadowEnd M) = Inr True"
  using assms by (auto simp: InitShadow_def Let_def MemIsShadow_def MemIsApp_def)

lemma InitShadow_layout_check:
  assumes "InitShadow g find_start G = (M, G', r)" "kHighShadowEnd M \<noteq> - 1"
  shows "PrintAddressSpaceLayout M = Inl Check_failed"
proof -
  have e: "kHighMemStart M = kHighShadowEnd M" using assms(1) by (auto simp: InitShadow_def Let_def)
  have "unat (- 1 :: uptr) = 2 ^ 64 - 1" by (simp add: unsigned_minus_1_eq_mask mask_eq_exp_minus_1)
  then have "unat (kHighShadowEnd M) \<noteq> 18446744073709551615" using assms(2) by (auto simp: word_unat_eq_iff)
  then have "unat (kHighShadowEnd M) + 1 < 18446744073709551616" using unat_less_64 [of "kHighShadowEnd M"] by linarith
  then have "unat (kHighShadowEnd M + 1) = unat (kHighShadowEnd M) + 1" by (subst unat_add_small) simp_all
  then have "kHighShadowEnd M < kHighShadowEnd M + 1" by (simp add: word_less_nat_alt)
  then have "\<not> kHighShadowEnd M + 1 < kHighMemStart M" "kHighShadowEnd M + 1 \<noteq> kHighMemStart M"
    by (auto simp: e)
  then show ?thesis by (simp add: PrintAddressSpaceLayout_def Let_def)
qed

end
