(* ===== verification/Hwasan_Heap.thy ===== *)
theory Hwasan_Heap
  imports CT_Cache San_Strings Shadow_Map Chunk_Address
begin

text \<open>
  The heap of HWASan (\<open>hwasan_allocator.cpp\<close>, \<open>hwasan_allocator.h\<close>): the operations behind
  \<open>malloc\<close> and \<open>free\<close>, which put the tag ClusterTag chose into the shadow and which check a
  pointer before it is freed. The state is that of the allocator with the flags the file keeps;
  \<open>F\<close> holds the runtime options, and the argument checks of \<open>sanitizer_allocator_checks.h\<close> and
  \<open>malloc_bisect\<close>, which are outside the repository. A report function that does not return is
  the fault it ends in; \<open>ReportInvalidFree\<close> and \<open>ReportTailOverwritten\<close> of \<open>hwasan_report.cpp\<close>
  end in \<open>internal__exit(99)\<close>.
\<close>

record heap_flags =
  max_malloc_fill_size :: s32
  malloc_fill_byte :: s32
  max_free_fill_size :: s32
  free_fill_byte :: s32
  tag_in_malloc :: bool
  tag_in_free :: bool
  free_checks_tail_magic :: bool
  tail_magic :: uptr   \<comment> \<open>the address of the static array\<close>
  malloc_bisect :: "uptr \<Rightarrow> bool"
  calloc_overflow :: "uptr \<Rightarrow> uptr \<Rightarrow> bool"
  pvalloc_overflow :: "uptr \<Rightarrow> uptr \<Rightarrow> bool"
  aligned_alloc_ok :: "uptr \<Rightarrow> uptr \<Rightarrow> bool"
  posix_memalign_ok :: "uptr \<Rightarrow> bool"

datatype errno = ENOMEM | EINVAL

record heap_state = cache_state +
  MFHooks :: "MallocFreeHook list"
  hook_log :: "(hook_call list \<times> uptr \<times> uptr option) list"
  tagging_enabled :: bool
  allocator_may_return_null :: bool
  allocator_out_of_memory :: bool
  rss_limit_exceeded :: bool
  errno_is :: "errno option"

text \<open>Memory and shadow are one store; an operation on it keeps the rest of the state.\<close>

definition on_mem :: "(memory \<Rightarrow> memory) \<Rightarrow> 'a machine_scheme \<Rightarrow> 'a machine_scheme" where
  "on_mem f s = s\<lparr>mem := f (mem s)\<rparr>"

definition on_mem_res :: "(memory \<Rightarrow> memory res) \<Rightarrow> 'a machine_scheme \<Rightarrow> 'a machine_scheme res" where
  "on_mem_res f s = andThen (f (mem s)) (\<lambda>m. Inr (s\<lparr>mem := m\<rparr>))"

section \<open>Metadata and chunk views\<close>

record Metadata =
  requested_size_low :: u32
  requested_size_high :: "31 word"
  right_aligned :: bool
  alloc_context_id :: u32

definition get_requested_size :: "Metadata \<Rightarrow> u64" where
  "get_requested_size d = push_bit 32 (ucast (requested_size_high d)) + ucast (requested_size_low d)"

definition set_requested_size :: "u64 \<Rightarrow> Metadata \<Rightarrow> Metadata" where
  "set_requested_size sz d =
     d\<lparr>requested_size_low := ucast (sz AND (push_bit 32 1 - 1)), requested_size_high := ucast (drop_bit 32 sz)\<rparr>"

text \<open>The bytes of \<open>tail_magic\<close>.\<close>

definition tail_magic_len :: uptr where "tail_magic_len = kShadowAlignment - 1"

definition AlignRight :: "uptr \<Rightarrow> uptr \<Rightarrow> uptr" where
  "AlignRight addr rsize =
     (let tail_size = rsize mod kShadowAlignment in
      if tail_size = 0 then addr else addr + kShadowAlignment - tail_size)"

text \<open>A chunk view is a block with its metadata, when there is one.\<close>

definition view_IsAllocated :: "Metadata option \<Rightarrow> bool" where
  "view_IsAllocated d = (case d of None \<Rightarrow> False | Some d \<Rightarrow> alloc_context_id d \<noteq> 0 \<and> get_requested_size d \<noteq> 0)"

definition view_Beg :: "uptr \<Rightarrow> Metadata option \<Rightarrow> uptr" where
  "view_Beg block d = (case d of None \<Rightarrow> block
     | Some d \<Rightarrow> if right_aligned d then AlignRight block (get_requested_size d) else block)"

definition view_UsedSize :: "Metadata option \<Rightarrow> uptr res" where
  "view_UsedSize d = (case d of None \<Rightarrow> Inl Null_deref | Some d \<Rightarrow> Inr (get_requested_size d))"

definition view_End :: "uptr \<Rightarrow> Metadata option \<Rightarrow> uptr res" where
  "view_End block d = andThen (view_UsedSize d) (\<lambda>sz. Inr (view_Beg block d + sz))"

definition view_GetAllocStackId :: "Metadata option \<Rightarrow> u32 res" where
  "view_GetAllocStackId d = (case d of None \<Rightarrow> Inl Null_deref | Some d \<Rightarrow> Inr (alloc_context_id d))"

text \<open>Without aliasing mode every address is taggable and there is no alias region.\<close>

definition GetAliasRegionStart :: uptr where "GetAliasRegionStart = 0"

definition InTaggableRegion :: "uptr \<Rightarrow> bool" where "InTaggableRegion addr = True"

section \<open>Allocation\<close>

definition kMaxAllowedMallocSize :: uptr where "kMaxAllowedMallocSize = push_bit 40 1"

definition TaggedSize :: "uptr \<Rightarrow> uptr res" where
  "TaggedSize sz =
     (let sz = (if sz = 0 then 1 else sz) in
      andThen (RoundUpTo sz kShadowAlignment) (\<lambda>new_size.
      andThen (check (sz \<le> new_size)) (\<lambda>_. Inr new_size)))"

text \<open>Zero or fill the memory, then write the magic bytes behind the requested size.\<close>

definition fill_new :: "heap_flags \<Rightarrow> bool \<Rightarrow> uptr \<Rightarrow> uptr \<Rightarrow> memory \<Rightarrow> memory" where
  "fill_new F zeroise p sz m =
     (if zeroise then internal_memset p 0 sz m
      else if 0 < sint (max_malloc_fill_size F) then
        internal_memset p (malloc_fill_byte F) (San_Min sz (scast (max_malloc_fill_size F))) m
      else m)"

definition write_tail :: "heap_flags \<Rightarrow> uptr \<Rightarrow> uptr \<Rightarrow> uptr \<Rightarrow> memory \<Rightarrow> memory" where
  "write_tail F p orig_size sz m =
     (if sz \<noteq> orig_size then
        let tail = p + orig_size;
            tail_length = sz - orig_size;
            m = internal_memcpy tail (tail_magic F) (tail_length - 1) m
        in m(tail + tail_length - 1 := 0)
      else m)"

definition tag_new ::
    "heap_flags \<Rightarrow> ct_globals \<Rightarrow> hwasan_env \<Rightarrow> bool \<Rightarrow> uptr \<Rightarrow> uptr \<Rightarrow> uptr \<Rightarrow> u8 \<Rightarrow> memory \<Rightarrow> memory res" where
  "tag_new F G E enabled p orig_size sz tag m =
     (if InTaggableRegion p \<and> (tag_in_malloc F \<or> tag_in_free F) \<and> enabled then
        if tag_in_malloc F \<and> malloc_bisect F orig_size then
          let tag_size = (if orig_size \<noteq> 0 then orig_size else 1);
              full_granule_size = RoundDownTo tag_size kShadowAlignment
          in andThen (TagMemoryAligned G E p full_granule_size tag m) (\<lambda>(_, m).
             if full_granule_size \<noteq> tag_size then
               let short_granule = p + full_granule_size in
               andThen (TagMemoryAligned G E short_granule kShadowAlignment (ucast (tag_size mod kShadowAlignment)) m)
                 (\<lambda>(_, m). Inr (m(short_granule + kShadowAlignment - 1 := tag)))
             else Inr m)
        else andThen (TagMemoryAligned G E p sz 0 m) (\<lambda>(_, m). Inr m)
      else Inr m)"

definition run_malloc_hooks :: "uptr \<Rightarrow> uptr \<Rightarrow> 'a heap_state_scheme \<Rightarrow> 'a heap_state_scheme" where
  "run_malloc_hooks p sz s = s\<lparr>hook_log := (RunMallocHooks (MFHooks s), p, Some sz) # hook_log s\<rparr>"

definition run_free_hooks :: "uptr \<Rightarrow> 'a heap_state_scheme \<Rightarrow> 'a heap_state_scheme" where
  "run_free_hooks p s = s\<lparr>hook_log := (RunFreeHooks (MFHooks s), p, None) # hook_log s\<rparr>"

text \<open>A null pointer when the allocator may return one; otherwise the report does not return.\<close>

definition null_or_die :: "'a heap_state_scheme \<Rightarrow> (uptr \<times> 'a heap_state_scheme) res" where
  "null_or_die s = (if allocator_may_return_null s then Inr (0, s) else Inl Died)"

definition HwasanAllocate ::
    "heap_flags \<Rightarrow> ct_globals \<Rightarrow> layout \<Rightarrow> hwasan_env \<Rightarrow> uptr \<Rightarrow> uptr \<Rightarrow> bool \<Rightarrow>
     'a heap_state_scheme \<Rightarrow> (uptr \<times> 'a heap_state_scheme) res" where
  "HwasanAllocate F G L E orig_size alignment zeroise s =
     (if kMaxAllowedMallocSize < orig_size then null_or_die s
      else if rss_limit_exceeded s then null_or_die s
      else
        let alignment = San_Max alignment kShadowAlignment in
        andThen (TaggedSize orig_size) (\<lambda>sz.
        andThen (CTAllocateCombined G L sz alignment s) (\<lambda>(allocated, s).
        let allocated_untagged = UntagPtr allocated;
            tag = GetTagFromPointer allocated
        in if allocated_untagged = 0 then null_or_die (s\<lparr>allocator_out_of_memory := True\<rparr>)
           else
             let s = on_mem (fill_new F zeroise allocated_untagged sz) s;
                 s = on_mem (write_tail F allocated_untagged orig_size sz) s
             in andThen (on_mem_res (tag_new F G E (tagging_enabled s) allocated_untagged orig_size sz tag) s) (\<lambda>s.
                Inr (allocated, run_malloc_hooks allocated_untagged sz s)))))"

section \<open>Deallocation\<close>

definition PointerAndMemoryTagsMatch :: "ct_globals \<Rightarrow> hwasan_env \<Rightarrow> memory \<Rightarrow> uptr \<Rightarrow> bool res" where
  "PointerAndMemoryTagsMatch G E m tagged_ptr =
     andThen (check (tagged_ptr \<noteq> 0)) (\<lambda>_.
     if \<not> InTaggableRegion tagged_ptr then Inr True
     else let mem_tag = m (MemToShadow G (UntagPtr tagged_ptr))
          in Inr (short_tag_match E m mem_tag tagged_ptr 1))"

text \<open>\<open>ReportInvalidFree\<close> never returns, so neither does a check that fails.\<close>

definition CheckInvalidFree ::
    "shadow_map \<Rightarrow> ct_globals \<Rightarrow> hwasan_env \<Rightarrow> memory \<Rightarrow> uptr \<Rightarrow> uptr \<Rightarrow> bool res" where
  "CheckInvalidFree M G E m untagged_ptr tagged_ptr =
     andThen (MemIsApp M untagged_ptr) (\<lambda>app.
     if \<not> app then Inl (Exit 99)
     else andThen (PointerAndMemoryTagsMatch G E m tagged_ptr) (\<lambda>ok.
       if \<not> ok then Inl (Exit 99) else Inr False))"

text \<open>
  The checks \<open>HwasanDeallocate\<close> and \<open>HwasanReallocate\<close> make on the pointer, in order: it carries
  a tag, the tag matches the shadow, it is aligned, and it is the start of a chunk.
\<close>

definition check_chunk_start :: "ct_globals \<Rightarrow> uptr \<Rightarrow> uptr \<Rightarrow> 'a machine_scheme \<Rightarrow> unit res" where
  "check_chunk_start G untagged_ptr orig_size s =
     andThen (IsAligned untagged_ptr 16) (\<lambda>al. andThen (check al) (\<lambda>_.
     if \<not> isSmallChunk G untagged_ptr then
       if mem s (MemToShadow G untagged_ptr - 1) \<noteq> 0 then Inl (Exit 1) else Inr ()
     else
       andThen (getRegionInfo_sized untagged_ptr orig_size) (\<lambda>r.
       let region_offset = untagged_ptr - r in
       if region_offset mod orig_size \<noteq> 0 then Inl (Exit 1) else Inr ())))"

definition check_pointer :: "ct_globals \<Rightarrow> hwasan_env \<Rightarrow> uptr \<Rightarrow> 'a machine_scheme \<Rightarrow> uptr res" where
  "check_pointer G E tagged_ptr s =
     (if GetTagFromPointer tagged_ptr = 0 then Inl (Exit 1)
      else
        let untagged_ptr = UntagPtr tagged_ptr;
            orig_size = CTGetRequestedSize G untagged_ptr s
        in andThen (PointerAndMemoryTagsMatch G E (mem s) tagged_ptr) (\<lambda>ok.
           if \<not> ok then Inl (Exit 99)
           else andThen (check_chunk_start G untagged_ptr orig_size s) (\<lambda>_. Inr orig_size)))"

text \<open>The magic bytes behind a large chunk; the last byte of the granule is the tag.\<close>

definition check_tail :: "heap_flags \<Rightarrow> uptr \<Rightarrow> uptr \<Rightarrow> u8 \<Rightarrow> memory \<Rightarrow> unit res" where
  "check_tail F aligned_ptr orig_size pointer_tag m =
     andThen (TaggedSize orig_size) (\<lambda>tagged_size.
     if free_checks_tail_magic F \<and> orig_size \<noteq> 0 \<and> tagged_size \<noteq> orig_size then
       let tail_size = tagged_size - orig_size - 1 in
       andThen (check (tail_size < kShadowAlignment)) (\<lambda>_.
       let tail_beg = aligned_ptr + orig_size;
           short_granule_memtag = m (tail_beg + tail_size)
       in if tail_size \<noteq> 0 \<and>
             (internal_memcmp m tail_beg (tail_magic F) tail_size \<noteq> 0 \<or> pointer_tag \<noteq> short_granule_memtag)
          then Inl (Exit 99) else Inr ())
     else Inr ())"

definition fill_freed :: "heap_flags \<Rightarrow> uptr \<Rightarrow> uptr \<Rightarrow> memory \<Rightarrow> memory res" where
  "fill_freed F aligned_ptr orig_size m =
     (if 0 < sint (max_free_fill_size F) then
        andThen (TaggedSize orig_size) (\<lambda>sz.
        Inr (internal_memset aligned_ptr (free_fill_byte F) (San_Min sz (scast (max_free_fill_size F))) m))
      else Inr m)"

definition untag_freed :: "ct_globals \<Rightarrow> hwasan_env \<Rightarrow> uptr \<Rightarrow> uptr \<Rightarrow> memory \<Rightarrow> memory res" where
  "untag_freed G E aligned_ptr orig_size m =
     andThen (TaggedSize orig_size) (\<lambda>sz. andThen (TagMemoryAligned G E aligned_ptr sz 0 m) (\<lambda>(_, m). Inr m))"

definition HwasanDeallocate ::
    "heap_flags \<Rightarrow> ct_globals \<Rightarrow> layout \<Rightarrow> hwasan_env \<Rightarrow> uptr \<Rightarrow>
     'a heap_state_scheme \<Rightarrow> 'a heap_state_scheme res" where
  "HwasanDeallocate F G L E tagged_ptr s =
     andThen (check (tagged_ptr \<noteq> 0)) (\<lambda>_.
     let s = run_free_hooks tagged_ptr s;
         untagged_ptr = UntagPtr tagged_ptr;
         pointer_tag = GetTagFromPointer tagged_ptr;
         aligned_ptr = RoundDownTo untagged_ptr kShadowAlignment;
         small = isSmallChunk G untagged_ptr
     in
     andThen (check_pointer G E tagged_ptr s) (\<lambda>orig_size.
     andThen (if small then Inr () else check_tail F aligned_ptr orig_size pointer_tag (mem s)) (\<lambda>_.
     andThen (if small then on_mem_res (fill_freed F aligned_ptr orig_size) s else Inr s) (\<lambda>s.
     andThen (if small then on_mem_res (untag_freed G E aligned_ptr orig_size) s else Inr s) (\<lambda>s.
     CTDeallocateCombined G L (AddTagToPointer aligned_ptr pointer_tag) s)))))"

section \<open>Reallocation, \<open>calloc\<close> and the entry points\<close>

definition HwasanReallocate ::
    "heap_flags \<Rightarrow> ct_globals \<Rightarrow> layout \<Rightarrow> hwasan_env \<Rightarrow> uptr \<Rightarrow> uptr \<Rightarrow> uptr \<Rightarrow>
     'a heap_state_scheme \<Rightarrow> (uptr \<times> 'a heap_state_scheme) res" where
  "HwasanReallocate F G L E tagged_ptr_old new_size alignment s =
     (let untagged_ptr_old = UntagPtr tagged_ptr_old in
      andThen (check_pointer G E tagged_ptr_old s) (\<lambda>old_size.
      andThen (HwasanAllocate F G L E new_size alignment False s) (\<lambda>(tagged_ptr_new, s).
      if tagged_ptr_old \<noteq> 0 \<and> tagged_ptr_new \<noteq> 0 then
        let s = on_mem (internal_memcpy (UntagPtr tagged_ptr_new) untagged_ptr_old (San_Min new_size old_size)) s
        in andThen (HwasanDeallocate F G L E tagged_ptr_old s) (\<lambda>s. Inr (tagged_ptr_new, s))
      else Inr (tagged_ptr_new, s))))"

definition HwasanCalloc ::
    "heap_flags \<Rightarrow> ct_globals \<Rightarrow> layout \<Rightarrow> hwasan_env \<Rightarrow> uptr \<Rightarrow> uptr \<Rightarrow>
     'a heap_state_scheme \<Rightarrow> (uptr \<times> 'a heap_state_scheme) res" where
  "HwasanCalloc F G L E nmemb sz s =
     (if calloc_overflow F sz nmemb then null_or_die s
      else HwasanAllocate F G L E (nmemb * sz) 8 True s)"

definition AllocationSize :: "ct_globals \<Rightarrow> uptr \<Rightarrow> 'a machine_scheme \<Rightarrow> uptr" where
  "AllocationSize G tagged_ptr s =
     (let untagged_ptr = UntagPtr tagged_ptr in
      if untagged_ptr = 0 then 0 else CTGetRequestedSize G untagged_ptr s)"

text \<open>\<open>FindHeapChunkByAddress\<close> only prints and exits.\<close>

definition FindHeapChunkByAddress :: "uptr \<Rightarrow> (uptr \<times> Metadata option) res" where
  "FindHeapChunkByAddress addr = Inl (Exit 1)"

text \<open>\<open>SetErrnoOnNull\<close> sets \<open>errno\<close> to \<open>ENOMEM\<close> for a null result.\<close>

definition SetErrnoOnNull ::
    "(uptr \<times> 'a heap_state_scheme) res \<Rightarrow> (uptr \<times> 'a heap_state_scheme) res" where
  "SetErrnoOnNull r = andThen r (\<lambda>(p, s). Inr (p, if p = 0 then s\<lparr>errno_is := Some ENOMEM\<rparr> else s))"

definition hwasan_malloc where
  "hwasan_malloc F G L E sz s = SetErrnoOnNull (HwasanAllocate F G L E sz 8 False s)"

definition hwasan_calloc where
  "hwasan_calloc F G L E nmemb sz s = SetErrnoOnNull (HwasanCalloc F G L E nmemb sz s)"

definition hwasan_realloc where
  "hwasan_realloc F G L E p sz s =
     (if p = 0 then SetErrnoOnNull (HwasanAllocate F G L E sz 8 False s)
      else if sz = 0 then andThen (HwasanDeallocate F G L E p s) (\<lambda>s. Inr (0, s))
      else SetErrnoOnNull (HwasanReallocate F G L E p sz 8 s))"

definition hwasan_reallocarray where
  "hwasan_reallocarray F G L E p nmemb sz s =
     (if calloc_overflow F sz nmemb then null_or_die (s\<lparr>errno_is := Some ENOMEM\<rparr>)
      else hwasan_realloc F G L E p (nmemb * sz) s)"

definition hwasan_valloc where
  "hwasan_valloc F G L E sz s = SetErrnoOnNull (HwasanAllocate F G L E sz (page_size G) False s)"

definition hwasan_pvalloc where
  "hwasan_pvalloc F G L E sz s =
     (if pvalloc_overflow F sz (page_size G) then null_or_die (s\<lparr>errno_is := Some ENOMEM\<rparr>)
      else andThen (if sz \<noteq> 0 then RoundUpTo sz (page_size G) else Inr (page_size G)) (\<lambda>sz.
        SetErrnoOnNull (HwasanAllocate F G L E sz (page_size G) False s)))"

definition hwasan_aligned_alloc where
  "hwasan_aligned_alloc F G L E alignment sz s =
     (if \<not> aligned_alloc_ok F alignment sz then null_or_die (s\<lparr>errno_is := Some EINVAL\<rparr>)
      else SetErrnoOnNull (HwasanAllocate F G L E sz alignment False s))"

definition hwasan_memalign where
  "hwasan_memalign F G L E alignment sz s =
     (if \<not> IsPowerOfTwo alignment then null_or_die (s\<lparr>errno_is := Some EINVAL\<rparr>)
      else SetErrnoOnNull (HwasanAllocate F G L E sz alignment False s))"

text \<open>The error number returned, the pointer stored when there is none, and the state.\<close>

definition hwasan_posix_memalign ::
    "heap_flags \<Rightarrow> ct_globals \<Rightarrow> layout \<Rightarrow> hwasan_env \<Rightarrow> uptr \<Rightarrow> uptr \<Rightarrow>
     'a heap_state_scheme \<Rightarrow> ((errno + uptr) \<times> 'a heap_state_scheme) res" where
  "hwasan_posix_memalign F G L E alignment sz s =
     (if \<not> posix_memalign_ok F alignment then
        if allocator_may_return_null s then Inr (Inl EINVAL, s) else Inl Died
      else andThen (HwasanAllocate F G L E sz alignment False s) (\<lambda>(p, s).
        if p = 0 then Inr (Inl ENOMEM, s)
        else andThen (IsAligned p alignment) (\<lambda>al. andThen (check al) (\<lambda>_. Inr (Inr p, s)))))"

definition hwasan_free where
  "hwasan_free F G L E p s = HwasanDeallocate F G L E p s"

definition enable_allocator_tagging :: "'a heap_state_scheme \<Rightarrow> 'a heap_state_scheme" where
  "enable_allocator_tagging s = s\<lparr>tagging_enabled := True\<rparr>"

definition disable_allocator_tagging :: "'a heap_state_scheme \<Rightarrow> 'a heap_state_scheme" where
  "disable_allocator_tagging s = s\<lparr>tagging_enabled := False\<rparr>"

definition sanitizer_get_estimated_allocated_size :: "uptr \<Rightarrow> uptr" where
  "sanitizer_get_estimated_allocated_size sz = sz"

definition sanitizer_get_ownership :: "ct_globals \<Rightarrow> uptr \<Rightarrow> 'a machine_scheme \<Rightarrow> bool" where
  "sanitizer_get_ownership G p s \<longleftrightarrow> AllocationSize G p s \<noteq> 0"

definition sanitizer_get_allocated_size :: "ct_globals \<Rightarrow> uptr \<Rightarrow> 'a machine_scheme \<Rightarrow> uptr" where
  "sanitizer_get_allocated_size G p s = AllocationSize G p s"


section \<open>Freeing only clears memory\<close>

text \<open>
  \<open>zeroing s s'\<close>: a byte of the store is kept or becomes 0. The deallocation path of ClusterTag
  writes nothing else: it advises pages away and reuses persistent storage.
\<close>

definition zeroing :: "'a machine_scheme \<Rightarrow> 'a machine_scheme \<Rightarrow> bool" where
  "zeroing s s' \<longleftrightarrow> (\<forall>q. mem s' q = mem s q \<or> mem s' q = 0)"

lemma zeroing_mem: "mem s' = mem s \<Longrightarrow> zeroing s s'"
  by (simp add: zeroing_def)

lemma zeroing_refl [simp]: "zeroing s s"
  by (simp add: zeroing_def)

lemma zeroing_trans: "zeroing s s' \<Longrightarrow> zeroing s' s'' \<Longrightarrow> zeroing s s''"
  unfolding zeroing_def by (metis (no_types))

lemma zeroing_stays_0: "zeroing s s' \<Longrightarrow> mem s q = 0 \<Longrightarrow> mem s' q = 0"
  by (metis zeroing_def)

lemma CTAdvise_zeroing: "CTAdvise G a len s = Inr s' \<Longrightarrow> zeroing s s'"
  by (auto simp: CTAdvise_def internal_madvise_dontneed_def syscall_def Let_def zero_range_def zeroing_def
      split: if_splits)

lemma CloseOpenedRange_zeroing:
  "CTFreePagesRangeTrackerCloseOpenedRange G (t, s) = Inr (t', s') \<Longrightarrow> zeroing s s'"
  by (auto simp: CTFreePagesRangeTrackerCloseOpenedRange_def Let_def andThen_eq_Inr
      split: if_splits intro: zeroing_trans dest!: CTAdvise_zeroing)

lemma NextPage_zeroing: "CTFreePagesRangeTrackerNextPage G b (t, s) = Inr (t', s') \<Longrightarrow> zeroing s s'"
  by (auto simp: CTFreePagesRangeTrackerNextPage_def andThen_eq_Inr split: if_splits dest: CloseOpenedRange_zeroing)

lemma track_pages_zeroing: "track_pages G fl (t, s) = Inr (t', s') \<Longrightarrow> zeroing s s'"
proof (induction fl arbitrary: t s)
  case (Cons b fl)
  then obtain t1 s1 where "CTFreePagesRangeTrackerNextPage G b (t, s) = Inr (t1, s1)" "track_pages G fl (t1, s1) = Inr (t', s')"
    by (auto simp: andThen_eq_Inr)
  then show ?case using NextPage_zeroing Cons.IH zeroing_trans by blast
qed simp

lemma CTReleaseRegionFragment_zeroing:
  "CTReleaseRegionFragment G nc cs fp same mc r ps s = Inr s' \<Longrightarrow> zeroing s s'"
  by (auto simp: CTReleaseRegionFragment_def CTFreePagesRangeTrackerDone_def Let_def andThen_eq_Inr
      split: if_splits intro: zeroing_trans dest!: track_pages_zeroing CloseOpenedRange_zeroing)

lemma release_whole_zeroing: "release_whole G L k p c s = Inr s' \<Longrightarrow> zeroing s s'"
  by (auto simp: release_whole_def CTReleaseShadowMemory_def CTReleaseRegion_def Let_def andThen_eq_Inr zeroing_def
      split: if_splits prod.splits dest!: CTAdvise_zeroing) (metis (no_types))+

lemma release_loop_zeroing: "release_loop G L k nc fp same ps n p c s = Inr s' \<Longrightarrow> zeroing s s'"
proof (induction n arbitrary: p c s)
  case (Suc n)
  then show ?case
    by (auto simp: andThen_eq_Inr Let_def split: if_splits
        dest!: release_whole_zeroing CTReleaseRegionFragment_zeroing intro: zeroing_trans)
qed simp

lemma persistent_zeroing:
  "persistent_allocate n s = Inr (x, s') \<Longrightarrow> zeroing s s'" "persistent_free x s = Inr s' \<Longrightarrow> zeroing s s'"
  by (auto simp: persistent_allocate_def persistent_free_def CTPersistentAllocatorAllocate_def Let_def andThen_eq_Inr
      zeroing_def split: if_splits)

lemma CTReleasePeriodically_zeroing: "CTReleasePeriodically G L k s = Inr s' \<Longrightarrow> zeroing s s'"
  by (auto simp: CTReleasePeriodically_def Let_def andThen_eq_Inr split: if_splits
      dest!: persistent_zeroing release_loop_zeroing intro: zeroing_trans)

lemma note_free_zeroing: "zeroing s (note_free k q t s)"
  by (rule zeroing_mem) (simp add: note_free_def Let_def split: prod.splits)

lemma maybe_release_zeroing: "maybe_release G L k s = Inr s' \<Longrightarrow> zeroing s s'"
  by (auto simp: maybe_release_def MonotonicNanoTime_def Let_def andThen_eq_Inr zeroing_def split: if_splits
      dest!: CTReleasePeriodically_zeroing)

lemma CTDeallocateSmallChunk_zeroing: "CTDeallocateSmallChunk G L t p s = Inr s' \<Longrightarrow> zeroing s s'"
  by (auto simp: CTDeallocateSmallChunk_def andThen_eq_Inr dest!: maybe_release_zeroing intro: zeroing_trans note_free_zeroing)


section \<open>Freed memory is untagged\<close>

lemma shadow_fits_mono: "shadow_fits G E p n \<Longrightarrow> unat sz \<le> unat n \<Longrightarrow> shadow_fits G E p sz"
  unfolding shadow_fits_def unat_kShadowSize using div_le_mono [of "unat sz" "unat n" 16] by linarith

lemma small_size:
  assumes "globals_ok G" "isSmallChunk G (UntagAddr p)"
  shows "\<exists>k. unat k \<le> 30 \<and> CTGetRequestedSize G (UntagAddr p) s = Size SCM k"
proof -
  let ?a = "UntagAddr p"
  have r: "2 ^ 40 \<le> unat ?a" "unat ?a < 2 ^ 45" using assms small_iff [OF assms(1), of ?a] by simp_all
  let ?d = "(?a - superPoolBase) AND NOT kSuperPoolMask"
  have "unat (?a - superPoolBase) < 31 * 2 ^ 40" using r
    by (simp add: unat_sub superPoolBase_def word_le_nat_alt)
  moreover have "unat ?d \<le> unat (?a - superPoolBase)"
    by (simp add: word_le_nat_alt [symmetric] word_and_le2)
  ultimately have "unat ?d < 31 * 2 ^ 40" by (rule le_less_trans [rotated])
  then have "unat ?d div 2 ^ 40 < 31" by (rule less_mult_imp_div_less)
  then have "unat (drop_bit kSuperPoolShift ?d) \<le> 30" by (simp only: kSuperPoolShift_def unat_drop_bit)
  then show ?thesis using assms(2) unfolding CTGetRequestedSize_def by auto
qed

text \<open>The size of a small chunk: 0 below the first class, else one of the thirty sizes.\<close>

lemma small_size_bounds:
  assumes "globals_ok G" "isSmallChunk G (UntagAddr p)"
  shows "unat (CTGetRequestedSize G (UntagAddr p) s) \<le> 65536" "32 dvd unat (CTGetRequestedSize G (UntagAddr p) s)"
proof -
  obtain k where k: "unat k \<le> 30" "CTGetRequestedSize G (UntagAddr p) s = Size SCM k" using small_size [OF assms] by blast
  have "csz k \<le> 65536 \<and> 32 dvd csz k"
  proof (cases "k = 0")
    case True
    have "Size SCM 0 = 0" by code_simp
    then show ?thesis by (simp add: csz_def True)
  next
    case False
    then have "valid_class k" using k(1) by (simp add: valid_class_unat unat_gt_0)
    then show ?thesis by (intro csz_all [where Q = "\<lambda>c. c \<le> 65536 \<and> 32 dvd c"]) simp_all
  qed
  then show "unat (CTGetRequestedSize G (UntagAddr p) s) \<le> 65536" "32 dvd unat (CTGetRequestedSize G (UntagAddr p) s)"
    by (simp_all add: k(2) csz_def)
qed

lemma TaggedSize_spec:
  assumes "unat sz < 2 ^ 63"
  shows "\<exists>t. TaggedSize sz = Inr t \<and> unat t = (if unat sz = 0 then 16 else (unat sz + 15) div 16 * 16) \<and> unat sz \<le> unat t"
proof -
  define z :: uptr where "z = (if sz = 0 then 1 else sz)"
  have z: "unat z = (if unat sz = 0 then 1 else unat sz)" by (simp add: z_def unat_eq_zero)
  have k: "(4 :: nat) < 64" by simp
  have "unat z < 2 ^ 63" using assms by (simp only: z) (simp split: if_split)
  then have "unat z + (2 ^ 4 - 1) < 2 ^ 64" by simp
  from unat_round_up [OF k this] have r: "unat (round_up z (2 ^ 4)) = (unat z + 15) div 16 * 16" by simp
  have le: "n \<le> (n + 15) div 16 * 16" for n :: nat by presburger
  have "z \<le> round_up z (2 ^ 4)" by (simp only: word_le_nat_alt r le)
  then have t: "TaggedSize sz = Inr (round_up z (2 ^ 4))"
    unfolding TaggedSize_def Let_def kShadowAlignment_16 RoundUpTo_exp [OF k] z_def [symmetric] by simp
  have "unat (round_up z (2 ^ 4)) = (if unat sz = 0 then 16 else (unat sz + 15) div 16 * 16)"
    by (simp only: r z) simp
  moreover have "unat sz \<le> unat (round_up z (2 ^ 4))" by (simp only: r z) (use le in simp)
  ultimately show ?thesis using t by blast
qed

lemma TaggedSize_small:
  assumes "32 dvd unat sz" "unat sz \<noteq> 0" "unat sz < 2 ^ 63"
  shows "TaggedSize sz = Inr sz"
proof -
  obtain t where t: "TaggedSize sz = Inr t" "unat t = (unat sz + 15) div 16 * 16" using TaggedSize_spec [OF assms(3)] assms(2) by auto
  have "(unat sz + 15) div 16 * 16 = unat sz" using assms(1) by presburger
  then show ?thesis using t by (simp add: word_unat_eq_iff)
qed

lemma untag_freed_spec:
  assumes "aligned p 16" "page_size G = 2 ^ k" "k < 63" "shadow_fits G E p 65536" "release_zeroes G E"
    and sz: "32 dvd unat sz" "unat sz \<noteq> 0" "unat sz \<le> 65536"
  shows "\<exists>m'. untag_freed G E p sz m = Inr m' \<and>
    (\<forall>q. m' q = (if unat (MemToShadow G p) \<le> unat q \<and> unat q < unat (MemToShadow G p) + unat sz div 16 then 0 else m q))"
proof -
  have "2 ^ 4 dvd unat sz" using sz(1) by (rule dvd_trans [rotated]) simp
  then have al: "aligned sz 16" using aligned_iff_dvd [of sz 4] by simp
  have "shadow_fits G E p sz" using shadow_fits_mono [OF assms(4), of sz] sz(3) by simp
  from TagMemoryAligned_spec [OF assms(1) al assms(2,3) this assms(5), of 0 m] obtain m' where
    "TagMemoryAligned G E p sz 0 m = Inr (AddTagToPointer p 0, m')"
    "\<forall>q. m' q = (if unat (MemToShadow G p) \<le> unat q \<and> unat q < unat (MemToShadow G p) + unat sz div 16 then 0 else m q)"
    by blast
  moreover have "TaggedSize sz = Inr sz" using sz by (intro TaggedSize_small) simp_all
  ultimately show ?thesis by (simp add: untag_freed_def)
qed

lemma RoundDownTo_aligned: "aligned a 16 \<Longrightarrow> RoundDownTo a kShadowAlignment = a"
proof -
  assume "aligned a 16"
  then have "16 dvd unat a" using aligned_iff_dvd [of a 4] by simp
  moreover have "unat (RoundDownTo a (2 ^ 4)) = unat a div 16 * 16" by (subst unat_round_down) simp
  ultimately show ?thesis by (simp add: kShadowAlignment_16 word_unat_eq_iff)
qed

lemma tag_nonzero_pointer: "GetTagFromPointer p \<noteq> 0 \<Longrightarrow> p \<noteq> 0"
  by (auto simp: GetTagFromPointer_def)

lemma PointerAndMemoryTagsMatch_eq:
  "p \<noteq> 0 \<Longrightarrow> PointerAndMemoryTagsMatch G E m p = Inr (short_tag_match E m (m (MemToShadow G (UntagAddr p))) p 1)"
  by (simp add: PointerAndMemoryTagsMatch_def InTaggableRegion_def UntagPtr_def)

text \<open>What has been checked when the checks on a small chunk pass.\<close>

lemma check_pointer_small:
  assumes "isSmallChunk G (UntagAddr p)"
  shows "check_pointer G E p s = Inr sz \<longleftrightarrow> GetTagFromPointer p \<noteq> 0 \<and> sz = CTGetRequestedSize G (UntagAddr p) s \<and>
    short_tag_match E (mem s) (mem s (MemToShadow G (UntagAddr p))) p 1 \<and> aligned (UntagAddr p) 16 \<and>
    (\<exists>r. getRegionInfo_sized (UntagAddr p) sz = Inr r \<and> (UntagAddr p - r) mod sz = 0)"
proof -
  have al: "IsAligned (UntagAddr p) 16 = Inr (aligned (UntagAddr p) 16)" using IsAligned_exp [of 4 "UntagAddr p"] by simp
  show ?thesis
  proof (cases "GetTagFromPointer p = 0")
    case False
    let ?sz = "CTGetRequestedSize G (UntagAddr p) s"
    show ?thesis
      using assms tag_nonzero_pointer [OF False] False
      by (cases "getRegionInfo_sized (UntagAddr p) ?sz")
        (auto simp: check_pointer_def PointerAndMemoryTagsMatch_eq check_chunk_start_def al Let_def UntagPtr_def
          andThen_eq_Inr del: mod_0_imp_dvd)
  qed (simp add: check_pointer_def)
qed

lemma sized_region_nonzero: "getRegionInfo_sized a sz = Inr r \<Longrightarrow> sz \<noteq> 0"
  by (auto simp: getRegionInfo_sized_def Let_def split: if_splits)

lemma untag_no_tag: "GetTagFromPointer p = 0 \<Longrightarrow> UntagAddr p = p"
  by (simp add: UntagAddr_eq_self_iff)

lemma run_free_hooks_mem [simp]: "mem (run_free_hooks p s) = mem s"
  by (simp add: run_free_hooks_def)

lemma CTGetRequestedSize_mem: "mem s' = mem s \<Longrightarrow> CTGetRequestedSize G a s' = CTGetRequestedSize G a s"
  by (simp add: CTGetRequestedSize_def)

lemma HwasanDeallocate_small:
  assumes "globals_ok G" "isSmallChunk G (UntagAddr p)" "HwasanDeallocate F G L E p s = Inr s'"
  shows "\<exists>sz s1 m1. check_pointer G E p (run_free_hooks p s) = Inr sz \<and> untag_freed G E (UntagAddr p) sz m1 = Inr (mem s1) \<and>
    CTDeallocateSmallChunk G L (GetTagFromPointer p) (UntagAddr p) s1 = Inr s'"
proof -
  from assms(3) obtain sz where c: "check_pointer G E p (run_free_hooks p s) = Inr sz"
    by (auto simp: HwasanDeallocate_def Let_def andThen_eq_Inr UntagPtr_def)
  have al: "RoundDownTo (UntagAddr p) kShadowAlignment = UntagAddr p"
    using c by (intro RoundDownTo_aligned) (simp add: check_pointer_small [OF assms(2)])
  from assms c obtain m1 m2 where m: "untag_freed G E (UntagAddr p) sz m1 = Inr m2"
    "CTDeallocateSmallChunk G L (GetTagFromPointer p) (UntagAddr p) (run_free_hooks p s\<lparr>mem := m2\<rparr>) = Inr s'"
    by (auto simp: HwasanDeallocate_def Let_def andThen_eq_Inr UntagPtr_def al on_mem_res_def
        CTDeallocateCombined_def CTDeallocateCache_def CT_tag_eqs)
  have "mem (run_free_hooks p s\<lparr>mem := m2\<rparr>) = m2" by simp
  with c m show ?thesis by metis
qed

text \<open>The shadow of every granule of a freed chunk is 0.\<close>

lemma freed_shadow:
  assumes G: "globals_ok G" and small: "isSmallChunk G (UntagAddr p)" and page: "page_size G = 2 ^ k" "k < 63"
    and fits: "shadow_fits G E (UntagAddr p) 65536" and rel: "release_zeroes G E"
    and free: "HwasanDeallocate F G L E p s = Inr s'"
    and i: "i < unat (CTGetRequestedSize G (UntagAddr p) s) div 16"
  shows "mem s' (MemToShadow G (UntagAddr p) + of_nat i) = 0"
proof -
  from HwasanDeallocate_small [OF G small free] obtain sz s1 m1 where
    c: "check_pointer G E p (run_free_hooks p s) = Inr sz" and u: "untag_freed G E (UntagAddr p) sz m1 = Inr (mem s1)"
    and d: "CTDeallocateSmallChunk G L (GetTagFromPointer p) (UntagAddr p) s1 = Inr s'" by blast
  have sz: "sz = CTGetRequestedSize G (UntagAddr p) s" "aligned (UntagAddr p) 16" "sz \<noteq> 0"
    using c CTGetRequestedSize_mem [of "run_free_hooks p s" s]
    by (auto simp: check_pointer_small [OF small] dest: sized_region_nonzero)
  have b: "32 dvd unat sz" "unat sz \<noteq> 0" "unat sz \<le> 65536"
    using small_size_bounds [OF G small, of s] sz by (simp_all add: unat_eq_zero)
  from untag_freed_spec [OF sz(2) page fits rel b, of m1] u
  have m: "mem s1 q = (if unat (MemToShadow G (UntagAddr p)) \<le> unat q \<and>
      unat q < unat (MemToShadow G (UntagAddr p)) + unat sz div 16 then 0 else m1 q)" for q by simp
  let ?b = "MemToShadow G (UntagAddr p)"
  have i': "i < unat sz div 16" using i by (simp add: sz(1))
  moreover have "unat sz div 16 \<le> 4096" using b(3) by simp
  moreover have "unat ?b + 4096 < 2 ^ 64" using fits by (simp add: shadow_fits_def unat_kShadowSize)
  ultimately have "unat ?b + i < 2 ^ 64" "i < 2 ^ 64" by linarith+
  then have "unat (?b + of_nat i) = unat ?b + i"
    using unat_add_small [of ?b "of_nat i :: uptr"] by (simp add: unat_of_nat_small)
  then have "mem s1 (?b + of_nat i) = 0" using i' by (simp add: m)
  then show ?thesis by (rule zeroing_stays_0 [OF CTDeallocateSmallChunk_zeroing [OF d]])
qed

lemma untagged_rejected:
  assumes "GetTagFromPointer p \<noteq> 0" "match_ok E" "mem s (MemToShadow G (UntagAddr p)) = 0"
  shows "HwasanDeallocate F G L E p s = Inl (Exit 99)"
  using assms tag_nonzero_pointer [OF assms(1)]
  by (simp add: HwasanDeallocate_def check_pointer_def PointerAndMemoryTagsMatch_eq match_ok_def UntagPtr_def Let_def)


end
