(* ===== verification/Heap_Tags.thy ===== *)
theory Heap_Tags
  imports Hwasan_Heap
begin

text \<open>
  What an allocation of the HWASan heap leaves in memory: the tags of the new object in the shadow,
  the short granule at its end, and zeroes for \<open>calloc\<close>. \<open>object_fits\<close> says that the object lies
  below the shadow and that the arithmetic on its shadow does not wrap.
\<close>

definition object_fits :: "ct_globals \<Rightarrow> hwasan_env \<Rightarrow> uptr \<Rightarrow> nat \<Rightarrow> bool" where
  "object_fits G E a n \<longleftrightarrow> unat a + n + 32 \<le> unat (GetShadowOffset G) \<and>
     2 * unat (GetShadowOffset G) + unat (page_size G) + unat (clear_shadow_mmap_threshold E) < 2 ^ 64"

lemma object_fits_shadow:
  assumes "object_fits G E a n" "unat a \<le> unat x" "unat x \<le> unat a + n + 32"
  shows "unat (MemToShadow G x) = unat (GetShadowOffset G) + unat x div 16"
proof -
  have "unat x \<le> unat (GetShadowOffset G)" using assms by (simp add: object_fits_def)
  then have "unat x div 16 \<le> unat (GetShadowOffset G)" by linarith
  then show ?thesis using assms(1) by (intro unat_MemToShadow) (simp add: object_fits_def)
qed

lemma object_fits_range:
  assumes "object_fits G E a n" "unat a \<le> unat p" "unat p + unat sz \<le> unat a + n + 32"
  shows "shadow_fits G E p sz"
proof -
  have s: "unat (MemToShadow G p) = unat (GetShadowOffset G) + unat p div 16"
    using assms(3) by (intro object_fits_shadow [OF assms(1,2)]) linarith
  have "unat p div 16 + unat sz div 16 \<le> unat (GetShadowOffset G)"
  proof -
    have "unat p div 16 + unat sz div 16 \<le> unat p + unat sz" by (intro add_mono) simp_all
    then show ?thesis using assms by (simp add: object_fits_def)
  qed
  then show ?thesis using assms(1) by (simp add: shadow_fits_def s unat_kShadowSize object_fits_def)
qed

lemma TagMemoryAligned_Inr:
  assumes t: "TagMemoryAligned G E p sz tag m = Inr (r, m')" and page: "page_size G = 2 ^ k" "k < 63"
    and fits: "shadow_fits G E p sz" and rel: "release_zeroes G E"
  shows "16 dvd unat p" "16 dvd unat sz"
    "m' q = (if unat (MemToShadow G p) \<le> unat q \<and> unat q < unat (MemToShadow G p) + unat sz div 16 then tag else m q)"
proof -
  have al: "aligned p 16" "aligned sz 16"
    using t IsAligned_exp [of 4 p] IsAligned_exp [of 4 sz]
    by (auto simp: TagMemoryAligned_def andThen_eq_Inr kShadowAlignment_16)
  then show "16 dvd unat p" "16 dvd unat sz" using aligned_iff_dvd [of p 4] aligned_iff_dvd [of sz 4] by simp_all
  show "m' q = (if unat (MemToShadow G p) \<le> unat q \<and> unat q < unat (MemToShadow G p) + unat sz div 16 then tag else m q)"
    using TagMemoryAligned_spec [OF al page fits rel, of tag m] t by auto
qed

lemma full_granules: "unat (RoundDownTo x kShadowAlignment) = unat x - unat x mod 16" for x :: uptr
proof -
  have "unat (RoundDownTo x (2 ^ 4)) = unat x div 16 * 16" by (subst unat_round_down) simp
  also have "\<dots> = unat x - unat x mod 16" by (rule minus_mod_eq_div_mult [symmetric])
  finally show ?thesis by (simp add: kShadowAlignment_16)
qed

text \<open>The size that is tagged: a request for 0 bytes counts as one.\<close>

definition tag_size :: "uptr \<Rightarrow> nat" where
  "tag_size orig_size = (if orig_size = 0 then 1 else unat orig_size)"

text \<open>The memory after tagging: whole granules, the size of the short granule, its last byte.\<close>

lemma tag_new_memory:
  assumes t: "tag_new F G E True a orig sz tag m = Inr m'" and F: "tag_in_malloc F" "malloc_bisect F orig"
    and page: "page_size G = 2 ^ k" "k < 63" and rel: "release_zeroes G E"
    and fits: "object_fits G E a (tag_size orig)"
    and de: "unat a = 16 * c" "tag_size orig = 16 * d + e" "e < 16"
  shows "m' q = (if e \<noteq> 0 \<and> unat q = unat a + 16 * d + 15 then tag
      else if unat (GetShadowOffset G) + c \<le> unat q \<and> unat q < unat (GetShadowOffset G) + c + d then tag
      else if e \<noteq> 0 \<and> unat q = unat (GetShadowOffset G) + c + d then of_nat e
      else m q)"
proof -
  define n where "n = tag_size orig"
  define ts :: uptr where "ts = (if orig = 0 then 1 else orig)"
  have ts: "unat ts = n" by (simp add: ts_def n_def tag_size_def)
  have n: "n = 16 * d + e" "n mod 16 = e" using de by (simp_all add: n_def)
  define fg where "fg = RoundDownTo ts kShadowAlignment"
  have fg: "unat fg = 16 * d" using n by (simp add: fg_def full_granules ts)
  have f: "object_fits G E a n" using fits by (simp add: n_def)
  have lim: "unat a + n + 32 < 2 ^ 63" using f by (simp add: object_fits_def)
  have sf1: "shadow_fits G E a fg" by (rule object_fits_range [OF f]) (simp_all add: fg n)
  obtain m1 r1 where t1: "TagMemoryAligned G E a fg tag m = Inr (r1, m1)"
    and rest: "(if fg \<noteq> ts then andThen (TagMemoryAligned G E (a + fg) kShadowAlignment (ucast (ts mod kShadowAlignment)) m1)
       (\<lambda>(_, m). Inr (m(a + fg + kShadowAlignment - 1 := tag))) else Inr m1) = Inr m'"
    using t F by (auto simp: tag_new_def InTaggableRegion_def Let_def andThen_eq_Inr ts_def fg_def split: if_splits)
  let ?o = "unat (GetShadowOffset G)"
  have sh: "unat (MemToShadow G x) = ?o + unat x div 16" if "unat a \<le> unat x" "unat x \<le> unat a + n + 32" for x
    using object_fits_shadow [OF f that] .
  have sa: "unat (MemToShadow G a) = ?o + c" using sh [of a] de(1) by simp
  have m1: "m1 q = (if ?o + c \<le> unat q \<and> unat q < ?o + c + d then tag else m q)" for q
    using TagMemoryAligned_Inr(3) [OF t1 page sf1 rel, of q] by (simp add: sa fg)
  show ?thesis
  proof (cases "e = 0")
    case True
    then have "fg = ts" by (simp add: word_unat_eq_iff fg ts n)
    then show ?thesis using rest m1 [of q] True by simp
  next
    case False
    then have ne: "fg \<noteq> ts" by (auto simp: word_unat_eq_iff fg ts n)
    have af: "unat (a + fg) = unat a + 16 * d" using lim n fg by (simp add: unat_add_small)
    have k16: "unat kShadowAlignment = 16" by (simp add: kShadowAlignment_16)
    obtain r2 m2 where t2: "TagMemoryAligned G E (a + fg) kShadowAlignment (ucast (ts mod kShadowAlignment)) m1 = Inr (r2, m2)"
      and m': "m' = m2(a + fg + kShadowAlignment - 1 := tag)"
      using rest ne by (auto simp: andThen_eq_Inr)
    have sf2: "shadow_fits G E (a + fg) kShadowAlignment" by (rule object_fits_range [OF f]) (simp_all add: af k16 n)
    have s2: "unat (MemToShadow G (a + fg)) = ?o + c + d" using sh [of "a + fg"] af de(1) n by simp
    have tg: "(ucast (ts mod kShadowAlignment) :: u8) = of_nat e"
    proof -
      have "unat (ts mod kShadowAlignment) = e" by (simp add: unat_mod ts k16 n(2))
      then show ?thesis using de(3) by (simp add: word_unat_eq_iff unsigned_ucast_eq unat_of_nat take_bit_nat_eq_self)
    qed
    have m2: "m2 q = (if unat q = ?o + c + d then of_nat e else m1 q)"
      using TagMemoryAligned_Inr(3) [OF t2 page sf2 rel, of q] by (auto simp: s2 k16 tg)
    have l: "unat (a + fg + kShadowAlignment - 1) = unat a + 16 * d + 15"
    proof -
      have e2: "unat (a + fg + 15) = unat (a + fg) + unat (15 :: uptr)" using af lim n by (intro unat_add_small) simp
      have e1: "a + fg + kShadowAlignment - 1 = a + fg + 15" by (simp add: kShadowAlignment_16)
      show ?thesis unfolding e1 e2 af by simp
    qed
    then have "q = a + fg + kShadowAlignment - 1 \<longleftrightarrow> unat q = unat a + 16 * d + 15" by (simp add: word_unat_eq_iff)
    then show ?thesis using m' m2 m1 [of q] False by (auto simp: fun_upd_def)
  qed
qed

lemma tag_new_aligned:
  assumes "tag_new F G E True a orig sz tag m = Inr m'" "tag_in_malloc F" "malloc_bisect F orig"
  shows "\<exists>c. unat a = 16 * c"
proof -
  have "aligned a 16" using assms IsAligned_exp [of 4 a]
    by (auto simp: tag_new_def TagMemoryAligned_def InTaggableRegion_def Let_def andThen_eq_Inr kShadowAlignment_16 split: if_splits)
  then show ?thesis using aligned_iff_dvd [of a 4] by (auto elim: dvdE)
qed

section \<open>The parts of an allocation\<close>

lemma HwasanAllocate_parts:
  assumes "HwasanAllocate F G L E orig alignment zeroise s = Inr (p, s')" "p \<noteq> 0"
  shows "\<exists>sz s1. TaggedSize orig = Inr sz \<and> orig \<le> kMaxAllowedMallocSize \<and>
    CTAllocateCombined G L sz (San_Max alignment kShadowAlignment) s = Inr (p, s1) \<and>
    tag_new F G E (tagging_enabled s') (UntagAddr p) orig sz (GetTagFromPointer p)
      (write_tail F (UntagAddr p) orig sz (fill_new F zeroise (UntagAddr p) sz (mem s1))) = Inr (mem s')"
  using assms
  by (auto simp: HwasanAllocate_def Let_def andThen_eq_Inr null_or_die_def UntagPtr_def on_mem_def on_mem_res_def
      run_malloc_hooks_def not_less split: if_splits)

lemma copy_up_frame: "(\<And>i. i < n \<Longrightarrow> q \<noteq> d + of_nat i) \<Longrightarrow> copy_up d s n m q = m q"
proof (induction n arbitrary: d s m)
  case (Suc n)
  have "copy_up (d + 1) (s + 1) n (m(d := m s)) q = (m(d := m s)) q"
    using Suc.prems [of "Suc _"] by (intro Suc.IH) (simp add: add.assoc)
  then show ?case using Suc.prems [of 0] by simp
qed simp

lemma write_tail_frame:
  assumes le: "unat orig \<le> unat sz" "unat a + unat sz < 2 ^ 64" and q: "unat q < unat a + unat orig"
  shows "write_tail F a orig sz m q = m q"
proof (cases "sz = orig")
  case False
  have lt: "unat orig < unat sz" using le(1) False by (simp add: word_unat_eq_iff)
  let ?t = "a + orig" and ?n = "sz - orig - 1"
  have t: "unat ?t = unat a + unat orig" using le by (simp add: unat_add_small)
  have n: "unat ?n = unat sz - unat orig - 1"
  proof -
    have d: "unat (sz - orig) = unat sz - unat orig" using le(1) by (simp add: unat_sub word_le_nat_alt)
    have "1 \<le> sz - orig" using d lt by (simp add: word_le_nat_alt)
    then show ?thesis using d by (simp add: unat_sub)
  qed
  have f: "internal_memcpy ?t (tail_magic F) ?n m q = m q"
    unfolding internal_memcpy_def
  proof (rule copy_up_frame)
    fix i assume i: "i < unat ?n"
    then have "unat (?t + of_nat i) = unat ?t + i" using t n le by (subst unat_add_small) (simp_all add: unat_of_nat_small)
    then show "q \<noteq> ?t + of_nat i" using q t by auto
  qed
  have "a + orig + (sz - orig) - 1 = a + (sz - 1)" by simp
  moreover have "unat (a + (sz - 1)) = unat a + (unat sz - 1)"
  proof -
    have "1 \<le> sz" using lt by (simp add: word_le_nat_alt)
    then have "unat (sz - 1) = unat sz - 1" by (simp add: unat_sub)
    then show ?thesis using le(2) by (simp add: unat_add_small)
  qed
  ultimately have e: "unat (a + orig + (sz - orig) - 1) = unat a + (unat sz - 1)" by (simp only:)
  have "unat q < unat a + (unat sz - 1)" using q lt by linarith
  then have "q \<noteq> a + orig + (sz - orig) - 1" using e by auto
  then show ?thesis using False f by (simp add: write_tail_def Let_def)
qed (simp add: write_tail_def)


section \<open>Tags and contents of a new object\<close>

text \<open>
  When an access at \<open>x\<close> through a pointer with the tag \<open>t\<close> passes: the granule carries the tag, or it
  is a short granule whose last byte carries it and \<open>x\<close> is one of its first bytes.
\<close>

definition granule_matches :: "ct_globals \<Rightarrow> memory \<Rightarrow> uptr \<Rightarrow> u8 \<Rightarrow> bool" where
  "granule_matches G m x t \<longleftrightarrow> m (MemToShadow G x) = t \<or>
     (0 < unat (m (MemToShadow G x)) \<and> unat (m (MemToShadow G x)) < 16 \<and>
      unat x mod 16 < unat (m (MemToShadow G x)) \<and> m (x OR 15) = t)"

lemma unat_or_15: "unat (x OR 15 :: uptr) = unat x div 16 * 16 + 15"
proof -
  have "x OR 15 = (x AND NOT (2 ^ 4 - 1)) + 15"
  proof -
    have "(x AND NOT 15) AND 15 = 0" by (rule bit_word_eqI) (simp add: bit_simps)
    then have "(x AND NOT 15) + 15 = (x AND NOT 15) OR 15" using disjunctive_add_eq_or [of "x AND NOT 15" 15] by simp
    also have "\<dots> = x OR 15" by (rule bit_word_eqI) (auto simp: bit_simps)
    finally show ?thesis by simp
  qed
  moreover have "unat (x AND NOT (2 ^ 4 - 1)) = unat x div 2 ^ 4 * 2 ^ 4" by (rule unat_and_high)
  moreover have "unat x div 16 * 16 + 15 < 2 ^ 64"
  proof -
    have "unat x < 16 * 2 ^ 60" by simp
    then have "unat x div 16 < 2 ^ 60" by (simp only: div_less_iff_less_mult zero_less_numeral mult.commute)
    then show ?thesis by simp
  qed
  ultimately show ?thesis by (simp add: unat_add_small)
qed

lemma last_granule: "y = c + d \<and> 0 < e" if "16 * y < 16 * c + (16 * d + e)" "e < 16" "\<not> y < c + d" for y c d e :: nat
  using that by presburger

lemma object_granules:
  assumes t: "tag_new F G E True a orig sz tag m = Inr m'" and F: "tag_in_malloc F" "malloc_bisect F orig"
    and page: "page_size G = 2 ^ k" "k < 63" and rel: "release_zeroes G E"
    and fits: "object_fits G E a (tag_size orig)"
    and x: "unat a \<le> unat x" "unat x div 16 * 16 < unat a + tag_size orig"
  shows "unat x < unat a + tag_size orig \<Longrightarrow> granule_matches G m' x tag"
    "16 \<le> unat tag \<Longrightarrow> granule_matches G m' x tag \<Longrightarrow> unat x < unat a + tag_size orig"
proof -
  obtain c where c: "unat a = 16 * c" using tag_new_aligned [OF t F] by blast
  define d e where "d = tag_size orig div 16" and "e = tag_size orig mod 16"
  have de: "tag_size orig = 16 * d + e" "e < 16" by (simp_all add: d_def e_def)
  note M = tag_new_memory [OF t F page rel fits c de]
  let ?o = "unat (GetShadowOffset G)"
  have lo: "unat a + tag_size orig + 32 \<le> ?o" using fits by (simp add: object_fits_def)
  define y z where "y = unat x div 16" and "z = unat x mod 16"
  have yz: "unat x = 16 * y + z" "z < 16" "unat x mod 16 = z" by (simp_all add: y_def z_def)
  have x2: "16 * y < 16 * c + (16 * d + e)" using x(2) by (simp only: c de(1) y_def mult.commute)
  have sx: "unat (MemToShadow G x) = ?o + y"
  proof -
    have "unat x \<le> unat a + tag_size orig + 32" using x2 yz(1,2) unfolding c de(1) by linarith
    from object_fits_shadow [OF fits x(1) this] show ?thesis by (simp only: y_def)
  qed
  have y1: "c \<le> y" using x(1) yz(1,2) unfolding c by linarith
  note y2 = last_granule [OF x2 de(2)]
  have lb: "unat (x OR 15) = 16 * y + 15" by (simp only: unat_or_15 y_def mult.commute)
  have ms: "m' (MemToShadow G x) = (if y < c + d then tag else of_nat e)"
    using M [of "MemToShadow G x"] y1 y2 lo c de(1) by (auto simp: sx)
  have te: "unat (of_nat e :: u8) = e" using de(2) by (simp add: unat_of_nat)
  have "(unat x < unat a + tag_size orig \<longrightarrow> granule_matches G m' x tag) \<and>
    (16 \<le> unat tag \<and> granule_matches G m' x tag \<longrightarrow> unat x < unat a + tag_size orig)"
  proof (cases "y < c + d")
    case True
    then have "unat x < unat a + tag_size orig" using yz(1,2) c de by linarith
    then show ?thesis using True by (simp add: granule_matches_def ms)
  next
    case False
    then have e: "y = c + d" "0 < e" using y2 by auto
    have ne: "(of_nat e :: u8) \<noteq> tag" if "16 \<le> unat tag" using te that de(2) by auto
    have "m' (x OR 15) = tag" using M [of "x OR 15"] e c by (simp add: lb)
    then have g: "granule_matches G m' x tag \<longleftrightarrow> of_nat e = tag \<or> z < e"
      using False e(2) de(2) yz(3) by (simp add: granule_matches_def ms te)
    have "z < e \<longleftrightarrow> unat x < unat a + tag_size orig" using e(1) yz(1) c de(1) by simp
    then show ?thesis using g ne by blast
  qed
  then show "unat x < unat a + tag_size orig \<Longrightarrow> granule_matches G m' x tag"
    "16 \<le> unat tag \<Longrightarrow> granule_matches G m' x tag \<Longrightarrow> unat x < unat a + tag_size orig" by simp_all
qed

lemma TaggedSize_le: "TaggedSize orig = Inr sz \<Longrightarrow> orig \<le> kMaxAllowedMallocSize \<Longrightarrow> unat orig \<le> unat sz \<and> unat sz \<le> unat orig + 16"
proof -
  assume t: "TaggedSize orig = Inr sz" and le: "orig \<le> kMaxAllowedMallocSize"
  have "unat orig \<le> 2 ^ 40" using le by (simp add: kMaxAllowedMallocSize_def word_le_nat_alt push_bit_eq_mult)
  then have "unat orig < 2 ^ 63" by simp
  from TaggedSize_spec [OF this] t show ?thesis by (auto split: if_splits)
qed

lemma zeroed_new:
  assumes al: "HwasanAllocate F G L E orig alignment True s = Inr (p, s')" "p \<noteq> 0"
    and F: "tag_in_malloc F" "malloc_bisect F orig" "tagging_enabled s'"
    and page: "page_size G = 2 ^ k" "k < 63" and rel: "release_zeroes G E"
    and fits: "object_fits G E (UntagAddr p) (tag_size orig)"
    and q: "unat (UntagAddr p) \<le> unat q" "unat q < unat (UntagAddr p) + unat orig"
  shows "mem s' q = 0"
proof -
  let ?a = "UntagAddr p"
  obtain sz m1 where P: "TaggedSize orig = Inr sz" "orig \<le> kMaxAllowedMallocSize"
    "tag_new F G E True ?a orig sz (GetTagFromPointer p) (write_tail F ?a orig sz (fill_new F True ?a sz m1)) = Inr (mem s')"
    using HwasanAllocate_parts [OF al] F(3) by auto
  have n: "tag_size orig = unat orig" using q by (auto simp: tag_size_def)
  have le: "unat orig \<le> unat sz" "unat sz \<le> unat orig + 16" using TaggedSize_le [OF P(1,2)] by simp_all
  have lo: "unat ?a + unat orig + 32 \<le> unat (GetShadowOffset G)" using fits by (simp add: object_fits_def n)
  then have "unat ?a + unat sz < 18446744073709551616" using le unat_less_64 [of "GetShadowOffset G"] by linarith
  then have w: "unat ?a + unat sz < 2 ^ 64" by simp
  obtain c where c: "unat ?a = 16 * c" using tag_new_aligned [OF P(3) F(1,2)] by blast
  define d e where "d = tag_size orig div 16" and "e = tag_size orig mod 16"
  have de: "tag_size orig = 16 * d + e" "e < 16" by (simp_all add: d_def e_def)
  have "unat q < unat (GetShadowOffset G)" using q(2) lo by linarith
  moreover have "\<not> unat q = unat ?a + 16 * d + 15" using q(2) de n by linarith
  ultimately have "mem s' q = write_tail F ?a orig sz (fill_new F True ?a sz m1) q"
    using tag_new_memory [OF P(3) F(1,2) page rel fits c de, of q] by simp
  also have "\<dots> = fill_new F True ?a sz m1 q" by (rule write_tail_frame [OF le(1) w q(2)])
  also have "\<dots> = 0"
  proof -
    have "q - ?a < sz" using q le(1) w in_range_unat [of ?a sz q] by simp
    then show ?thesis using memset_spec [OF w, of 0 m1] by (simp add: fill_new_def)
  qed
  finally show ?thesis .
qed


end
