(* ===== verification/Heap_Run.thy ===== *)
theory Heap_Run
  imports Heap_Tags Safety
begin

text \<open>
  The HWASan heap over ClusterTag: a pointer ClusterTag hands out passes the checks of
  \<open>HwasanDeallocate\<close> and nothing but the start of a chunk does; a concrete run of \<open>malloc\<close> and
  \<open>free\<close>; and the guarantees of the heap.
\<close>

section \<open>Which pointers pass the checks\<close>

lemma region_of_chunk:
  assumes G: "globals_ok G" and k: "valid_class k" and r: "region_slot k r" and i: "i < 256" and y: "unat y < csz k"
  shows "getRegionInfo_sized (chunk k r i + y) (Size SCM k) = Inr r" "isSmallChunk G (chunk k r i + y)"
    "drop_bit kSuperPoolShift ((chunk k r i + y - superPoolBase) AND NOT kSuperPoolMask) = k"
    "UntagAddr (chunk k r i + y) = chunk k r i + y"
proof -
  obtain p j where pj: "p < 1024" "j < 2 ^ 30 div rsz k"
      "unat r = (unat k + 1) * 2 ^ 40 + p * 2 ^ 30 + rsz k * j"
    using r by (auto simp: region_slot_def)
  have a: "unat (chunk k r i + y) = (unat k + 1) * 2 ^ 40 + p * 2 ^ 30 + rsz k * j + csz k * i + unat y"
    using unat_chunk_off(1) [OF k r i y] pj(3) by simp
  note at = small_at_chunk [OF k pj(1,2) i y a]
  show "isSmallChunk G (chunk k r i + y)" by (rule small_at_isSmall [OF G at(1)])
  show "drop_bit kSuperPoolShift ((chunk k r i + y - superPoolBase) AND NOT kSuperPoolMask) = k"
    by (rule small_at_class [OF at(1)])
  show "UntagAddr (chunk k r i + y) = chunk k r i + y" by (rule small_at_D(11) [OF at(1)])
  have d: "(rsz k * j + (csz k * i + unat y)) div rsz k * rsz k = rsz k * j" using at(2) by simp
  have "(chunk k r i + y AND NOT kPoolMask) +
      (chunk k r i + y AND kPoolMask) div (Size SCM k * 256) * (Size SCM k * 256) = r"
    unfolding word_unat_eq_iff small_at_region [OF at(1)] d pj(3) ..
  then show "getRegionInfo_sized (chunk k r i + y) (Size SCM k) = Inr r"
    using region_size_nonzero [OF k] by (simp add: getRegionInfo_sized_def Let_def)
qed

lemma small_requested:
  assumes "globals_ok G" "valid_class k" "region_slot k r" "i < 256" "unat y < csz k"
  shows "CTGetRequestedSize G (chunk k r i + y) s = Size SCM k"
  using region_of_chunk [OF assms] by (simp add: CTGetRequestedSize_def)

text \<open>
  Inside a region the checks accept an address exactly when it is the start of a chunk.
\<close>

lemma checks_chunk_start:
  assumes G: "globals_ok G" and k: "valid_class k" and r: "region_slot k r" and i: "i < 256" and y: "unat y < csz k"
  shows "check_chunk_start G (chunk k r i + y) (Size SCM k) s =
    (if \<not> 16 dvd unat y then Inl Check_failed else if y \<noteq> 0 then Inl (Exit 1) else Inr ())"
proof -
  have c32: "32 dvd csz k" by (rule csz_all [OF _ k]) simp
  have ua: "unat (chunk k r i + y) = unat r + csz k * i + unat y" by (rule unat_chunk_off(1) [OF k r i y])
  have "16 dvd unat r + csz k * i"
  proof -
    have "16 dvd unat r" using region_slot_bounds(3) [OF k r] by (rule dvd_trans [rotated]) simp
    moreover have "16 dvd csz k * i" using c32 by (intro dvd_mult2) (rule dvd_trans [of _ 32], simp)
    ultimately show ?thesis by (rule dvd_add)
  qed
  then have al: "aligned (chunk k r i + y) 16 \<longleftrightarrow> 16 dvd unat y"
    using aligned_iff_dvd [of "chunk k r i + y" 4] by (simp add: ua dvd_add_right_iff)
  have ia: "IsAligned (chunk k r i + y) 16 = Inr (16 dvd unat y)"
    using IsAligned_exp [of 4 "chunk k r i + y"] al by simp
  have off: "unat (chunk k r i + y - r) = csz k * i + unat y"
    using ua by (simp add: unat_sub word_le_nat_alt)
  have "unat ((chunk k r i + y - r) mod Size SCM k) = unat y"
    using y by (simp add: unat_mod off csz_def)
  then have "(chunk k r i + y - r) mod Size SCM k = y" by (simp add: word_unat_eq_iff)
  then show ?thesis
    using region_of_chunk(1,2) [OF G k r i y] by (simp add: check_chunk_start_def ia andThen_check Let_def)
qed

section \<open>Allocation and deallocation return\<close>

lemma tag_new_returns:
  assumes al: "aligned a 16" and page: "page_size G = 2 ^ k" "k < 63" and rel: "release_zeroes G E"
    and fits: "object_fits G E a (tag_size orig)" and F: "tag_in_malloc F" "malloc_bisect F orig"
  shows "\<exists>m'. tag_new F G E True a orig sz tag m = Inr m'"
proof -
  define ts :: uptr where "ts = (if orig = 0 then 1 else orig)"
  define fg where "fg = RoundDownTo ts kShadowAlignment"
  have ts: "unat ts = tag_size orig" by (simp add: ts_def tag_size_def)
  have fg: "unat fg = tag_size orig - tag_size orig mod 16" by (simp only: fg_def full_granules ts)
  have a16: "16 dvd unat a" using al aligned_iff_dvd [of a 4] by simp
  have f16: "16 dvd unat fg" unfolding fg by (simp add: minus_mod_eq_mult_div)
  have "unat a + unat fg \<le> unat (GetShadowOffset G)"
    using fits unfolding fg object_fits_def by linarith
  then have "unat a + unat fg < 18446744073709551616"
    using unat_less_64 [of "GetShadowOffset G"] by (rule le_less_trans)
  then have afg: "unat (a + fg) = unat a + unat fg"
    by (simp add: unat_add_small)
  have "16 dvd unat (a + fg)" unfolding afg using a16 f16 by (rule dvd_add)
  then have al2: "aligned fg 16" "aligned (a + fg) 16" "aligned kShadowAlignment 16"
    using f16 aligned_iff_dvd [of fg 4] aligned_iff_dvd [of "a + fg" 4] by (simp_all add: aligned_def kShadowAlignment_16)
  have k16: "unat kShadowAlignment = 16" by (simp add: kShadowAlignment_16)
  have sf1: "shadow_fits G E a fg" by (rule object_fits_range [OF fits]) (simp_all add: fg)
  have sf2: "shadow_fits G E (a + fg) kShadowAlignment" by (rule object_fits_range [OF fits]) (simp_all add: afg k16 fg)
  from TagMemoryAligned_spec [OF al al2(1) page sf1 rel] obtain m1 where
    "TagMemoryAligned G E a fg tag m = Inr (AddTagToPointer a tag, m1)" by blast
  moreover from TagMemoryAligned_spec [OF al2(2,3) page sf2 rel] obtain m2 where
    "TagMemoryAligned G E (a + fg) kShadowAlignment (ucast (ts mod kShadowAlignment)) m1 =
       Inr (AddTagToPointer (a + fg) (ucast (ts mod kShadowAlignment)), m2)" by blast
  moreover have e: "(if orig \<noteq> 0 then orig else 1) = ts" by (simp add: ts_def)
  ultimately show ?thesis
    unfolding tag_new_def Let_def e fg_def [symmetric] using F by (simp add: InTaggableRegion_def)
qed

lemma fill_freed_returns: "unat sz < 2 ^ 63 \<Longrightarrow> \<exists>m'. fill_freed F p sz m = Inr m'"
  using TaggedSize_spec [of sz] by (auto simp: fill_freed_def)

lemma free_small_returns:
  assumes "globals_ok G" and k: "valid_class k" and "region_slot k r" "i \<in> set (idxs k)"
    and few: "unat (free_chunk_num (SuperPoolChunkInfo s k)) + 1 < unat (trigger_free (SuperPoolChunkInfo s k))"
  shows "\<exists>s'. CTDeallocateSmallChunk G L t (chunk k r i) s = Inr s'"
proof -
  from parse_held [OF assms(1-4)] obtain q where
    q: "parseSmallChunkPtr G (chunk k r i) = Inr q" "superPoolID q = k" "regionInfo q = r" "unat (chunkID q) = i" by blast
  let ?ci = "SuperPoolChunkInfo s k"
  have "unat (free_chunk_num ?ci + 1) = unat (free_chunk_num ?ci) + 1"
      proof -
    have "unat (free_chunk_num ?ci) + 1 < 4294967296" using few unat_less_32 [of "trigger_free ?ci"] by linarith
    then show ?thesis by (subst unat_add_small) simp_all
  qed
  then have "\<not> ucast (trigger_free ?ci) \<le> free_chunk_num ?ci + 1" using few by (simp add: word_le_nat_alt)
  then have "maybe_release G L k (note_free k q t s) = Inr (note_free k q t s)"
    unfolding note_free_eq [OF q(3,4), of k t s] by (simp add: maybe_release_def ci_freed_def)
  then show ?thesis by (simp add: CTDeallocateSmallChunk_def q(1,2))
qed

lemma free_returns:
  assumes G: "globals_ok G" and k: "valid_class k" and r: "region_slot k r" and i: "i \<in> set (idxs k)"
    and p: "UntagAddr p = chunk k r i" "GetTagFromPointer p \<noteq> 0" and m: "mem s (MemToShadow G (chunk k r i)) = GetTagFromPointer p"
    and page: "page_size G = 2 ^ j" "j < 63" and E: "match_ok E" "release_zeroes G E"
    and fits: "shadow_fits G E (chunk k r i) 65536"
    and few: "unat (free_chunk_num (SuperPoolChunkInfo s k)) + 1 < unat (trigger_free (SuperPoolChunkInfo s k))"
  shows "\<exists>s'. HwasanDeallocate F G L E p s = Inr s'"
proof -
  let ?a = "chunk k r i" and ?sz = "Size SCM k" and ?s = "run_free_hooks p s"
  have i': "i < 256" using i by (rule idxs_less)
  have z: "unat (0 :: uptr) < csz k" using csz_bounds(4) [OF k] by simp
  note Z = checks_chunk_start [OF G k r i' z, of ?s] region_of_chunk(2) [OF G k r i' z] small_requested [OF G k r i' z, of ?s]
  have pnz: "p \<noteq> 0" using p(2) tag_nonzero_pointer by blast
  have "short_tag_match E (mem ?s) (GetTagFromPointer p) p 1" using E(1) by (simp add: match_ok_def)
  then have c: "check_pointer G E p ?s = Inr ?sz"
    using Z pnz p(2) by (simp add: check_pointer_def PointerAndMemoryTagsMatch_eq UntagPtr_def p(1) m Let_def)
  have "16 dvd unat ?a"
  proof -
    have "32 dvd csz k" by (rule csz_all [OF _ k]) simp
    then have "16 dvd csz k * i" by (intro dvd_mult2) (rule dvd_trans [of _ 32], simp)
    moreover have "16 dvd unat r" using region_slot_bounds(3) [OF k r] by (rule dvd_trans [rotated]) simp
    ultimately show ?thesis by (simp add: unat_chunk [OF k r i'])
  qed
  then have al: "aligned ?a 16" using aligned_iff_dvd [of ?a 4] by simp
  have sz: "32 dvd unat ?sz" "unat ?sz \<noteq> 0" "unat ?sz \<le> 65536"
    using csz_all [where Q = "\<lambda>c. 32 dvd c \<and> c \<noteq> 0 \<and> c \<le> 65536", OF _ k] by (simp_all add: csz_def)
  then obtain m1 where f: "fill_freed F ?a ?sz (mem ?s) = Inr m1" using fill_freed_returns [of ?sz F ?a "mem ?s"] by auto
  from untag_freed_spec [OF al page fits E(2) sz, of m1] obtain m2 where u: "untag_freed G E ?a ?sz m1 = Inr m2" by blast
  let ?s2 = "?s\<lparr>mem := m2\<rparr>"
  have few2: "unat (free_chunk_num (SuperPoolChunkInfo ?s2 k)) + 1 < unat (trigger_free (SuperPoolChunkInfo ?s2 k))"
    using few by (simp add: run_free_hooks_def)
  from free_small_returns [OF G k r i few2] obtain s' where
    "CTDeallocateSmallChunk G L (GetTagFromPointer p) ?a ?s2 = Inr s'" by blast
  moreover have "UntagAddr ?a = ?a" using region_of_chunk(4) [OF G k r i' z] by simp
  ultimately show ?thesis
    using c f u Z(2) pnz RoundDownTo_aligned [OF al] G
    by (simp add: HwasanDeallocate_def Let_def UntagPtr_def p(1) on_mem_res_def CTDeallocateCombined_def
        CTDeallocateCache_def CT_tag_eqs)
qed


section \<open>A concrete heap\<close>

text \<open>
  A heap whose cache for the chunks of 768 bytes holds one chunk with the tag 42, with the options
  and the environment of a plain run.
\<close>

definition sample_env :: hwasan_env where
  "sample_env = \<lparr> clear_shadow_mmap_threshold = 4096,
     release_pages = (\<lambda>a b m q. if a \<le> q \<and> q < b then 0 else m q),
     tag_memory = (\<lambda>p sz t m q. if q - MemToShadow x86_globals p < drop_bit 4 sz then t else m q),
     short_tag_match = (\<lambda>m t p sz. t = GetTagFromPointer p \<or>
       (0 < unat t \<and> unat t < 16 \<and> unat p mod 16 + unat sz \<le> unat t \<and> m (UntagAddr p OR 15) = GetTagFromPointer p)) \<rparr>"

definition sample_flags :: heap_flags where
  "sample_flags = \<lparr> max_malloc_fill_size = 0, malloc_fill_byte = 190, max_free_fill_size = 64, free_fill_byte = 85,
     tag_in_malloc = True, tag_in_free = True, free_checks_tail_magic = True, tail_magic = 0x7f0000020000,
     malloc_bisect = (\<lambda>_. True), calloc_overflow = (\<lambda>a b. 2 ^ 64 \<le> unat a * unat b),
     pvalloc_overflow = (\<lambda>a b. 2 ^ 64 \<le> unat a + unat b),
     aligned_alloc_ok = (\<lambda>a n. IsPowerOfTwo a \<and> n mod a = 0), posix_memalign_ok = (\<lambda>a. IsPowerOfTwo a \<and> a mod 8 = 0) \<rparr>"

definition sample_region :: uptr where "sample_region = 0x120000000000"

definition sample_chunk :: uptr where "sample_chunk = 0x120000025800"

definition sample_heap :: heap_state where
  "sample_heap = \<lparr> sys_ret = (\<lambda>_. 0), sys_pos = 0, clock_ns = (\<lambda>_. 0), clock_pos = 0,
     entropy = (\<lambda>_. None), nano_seed = (\<lambda>_. 0), entropy_pos = 0, my_random_state = 1,
     g_total_mmaped = 0, mem = (\<lambda>_. 0), RI = (\<lambda>_. zero_region), trace = [],
     persistent = \<lparr> base_addr = 0x7f0000000000, cur_loc = 0x7f0000000000, last_loc = 0,
       end_addr = 0x7f0000010000 \<rparr>,
     PN = (\<lambda>_. zero_pool_node), SuperPoolsPoolLinkedList = (\<lambda>_. \<lparr> pl_head = 0, pl_tail = 0 \<rparr>),
     SuperPoolsRegionList = (\<lambda>_. \<lparr> head = 0 \<rparr>), SuperPoolsFreedRegionList = (\<lambda>_. \<lparr> head = 0 \<rparr>),
     SuperPoolChunkInfo = (\<lambda>_. \<lparr> free_chunk_num = 0, region_num = 0, free_region_num = 0,
       trigger_free = 256, last_release_at_ns = 0 \<rparr>),
     ct_per_class = (\<lambda>_. zero_per_class)(17 := zero_per_class\<lparr>pc_count := 1,
       batch := (\<lambda>_. 0)(0 := sample_chunk), chunk_tag := (\<lambda>_. 0)(0 := 42)\<rparr>),
     MFHooks = no_hooks, hook_log = [], tagging_enabled = True, allocator_may_return_null = False,
     allocator_out_of_memory = False, rss_limit_exceeded = False, errno_is = None \<rparr>"

lemma sample_env_ok: "match_ok sample_env" "release_zeroes x86_globals sample_env"
  by (auto simp: match_ok_def release_zeroes_def sample_env_def)

lemma x86_page: "page_size x86_globals = 2 ^ 12" "(12 :: nat) < 63" "globals_ok x86_globals"
  using x86_env by (simp_all add: x86_globals_def env_ok_def)

lemma sample_fits: "object_fits x86_globals sample_env sample_chunk (tag_size 600)"
  by (simp add: object_fits_def sample_chunk_def tag_size_def x86_globals_def GetShadowOffset_def sample_env_def)

lemma sample_slot: "valid_class 17" "region_slot 17 sample_region" "200 \<in> set (idxs 17)"
  "chunk 17 sample_region 200 = sample_chunk" "csz 17 = 768"
proof -
  show v: "valid_class 17" by (simp add: valid_class_unat)
  have "Size SCM 17 = 768" by code_simp
  then show c: "csz 17 = 768" by (simp add: csz_def)
  show "chunk 17 sample_region 200 = sample_chunk"
    by (simp add: chunk_def \<open>Size SCM 17 = 768\<close> sample_region_def sample_chunk_def)
  show "200 \<in> set (idxs 17)" by (simp add: set_idxs avail_def c)
  show "region_slot 17 sample_region"
    unfolding region_slot_def by (rule exI [of _ 0], simp, rule exI [of _ 0]) (simp add: rsz_def c sample_region_def)
qed

lemma sample_pop:
  "CTAllocateCombined x86_globals L 608 16 sample_heap =
     Inr (AddTagToPointer sample_chunk 42, sample_heap\<lparr>ct_per_class := (ct_per_class sample_heap)(17 :=
       zero_per_class\<lparr>batch := (\<lambda>_. 0), chunk_tag := (\<lambda>_. 0)(0 := 42)\<rparr>)\<rparr>)"
proof -
  have m: "kMaxSize SCM = 65536" "ClassID SCM 608 = 17" "kNumClasses SCM = 32" by code_simp+
  have r: "RoundUpTo 608 16 = Inr 608" by code_simp
  have z: "AddTagToPointer sample_chunk 42 AND 15 = 0" by code_simp
  have f: "(\<lambda>_ :: nat. 0 :: uptr)(0 := 0) = (\<lambda>_. 0)" by auto
  show ?thesis
    by (simp add: CTAllocateCombined_def CTAllocateCache_def CTAllocateSmallChunk_def pop_chunk_def CanAllocate_def
        Let_def m r z f sample_heap_def zero_per_class_def kBatchLen_def CTAddTag_eq [OF x86_page(3)])
qed

lemma sample_malloc:
  "\<exists>p s'. HwasanAllocate sample_flags x86_globals L sample_env 600 8 zeroise sample_heap = Inr (p, s') \<and> p \<noteq> 0 \<and>
     UntagAddr p = sample_chunk \<and> GetTagFromPointer p = 42 \<and> tagging_enabled s' \<and>
     SuperPoolChunkInfo s' = SuperPoolChunkInfo sample_heap"
proof -
  let ?p = "AddTagToPointer sample_chunk 42"
  have t: "TaggedSize 600 = Inr 608" "San_Max 8 kShadowAlignment = (16 :: uptr)" by code_simp+
  have lim: "\<not> kMaxAllowedMallocSize < 600" by code_simp
  have u: "UntagAddr sample_chunk = sample_chunk" by code_simp
  have al: "aligned sample_chunk 16" by code_simp
  have nz: "sample_chunk \<noteq> 0" by (simp add: sample_chunk_def)
  let ?s1 = "sample_heap\<lparr>ct_per_class := (ct_per_class sample_heap)(17 :=
       zero_per_class\<lparr>batch := (\<lambda>_. 0), chunk_tag := (\<lambda>_. 0)(0 := 42)\<rparr>)\<rparr>"
  let ?m = "write_tail sample_flags sample_chunk 600 608 (fill_new sample_flags zeroise sample_chunk 608 (mem ?s1))"
  have F: "tag_in_malloc sample_flags" "malloc_bisect sample_flags 600" by (simp_all add: sample_flags_def)
  from tag_new_returns [OF al x86_page(1,2) sample_env_ok(2) sample_fits F] obtain m' where
    m': "tag_new sample_flags x86_globals sample_env True sample_chunk 600 608 42 ?m = Inr m'" by blast
  have e: "tagging_enabled ?s1" "\<not> rss_limit_exceeded sample_heap" by (simp_all add: sample_heap_def)
  have "HwasanAllocate sample_flags x86_globals L sample_env 600 8 zeroise sample_heap =
      Inr (?p, run_malloc_hooks sample_chunk 608 (?s1\<lparr>mem := m'\<rparr>))"
    using m' e lim nz by (simp add: HwasanAllocate_def Let_def t sample_pop UntagPtr_def u on_mem_def on_mem_res_def)
  moreover have "?p \<noteq> 0"
  proof -
    have "GetTagFromPointer ?p \<noteq> 0" by simp
    then show ?thesis by (rule tag_nonzero_pointer)
  qed
  ultimately show ?thesis using e by (fastforce simp: run_malloc_hooks_def u)
qed


section \<open>The guarantees of the heap\<close>



text \<open>
  C10. \<open>calloc\<close> returns zeroes: every byte of the product of its arguments reads as 0 when it
  returns, whatever magic bytes and tags are written around the object.
\<close>

theorem calloc_zeroes:
  assumes "hwasan_calloc F G L E nmemb sz s = Inr (p, s')" "p \<noteq> 0"
    and "tag_in_malloc F" "malloc_bisect F (nmemb * sz)" "tagging_enabled s'"
    and "page_size G = 2 ^ k" "k < 63" "release_zeroes G E" "object_fits G E (UntagAddr p) (tag_size (nmemb * sz))"
    and "unat (UntagAddr p) \<le> unat q" "unat q < unat (UntagAddr p) + unat (nmemb * sz)"
  shows "mem s' q = 0"
proof -
  have "HwasanAllocate F G L E (nmemb * sz) 8 True s = Inr (p, s')"
    using assms(1,2) by (auto simp: hwasan_calloc_def HwasanCalloc_def SetErrnoOnNull_def null_or_die_def
        andThen_eq_Inr split: if_splits)
  from zeroed_new [OF this assms(2-11)] show ?thesis .
qed

theorem calloc_zeroes_witness:
  "\<exists>p s'. hwasan_calloc sample_flags x86_globals empty_layout sample_env 3 200 sample_heap = Inr (p, s') \<and>
     mem s' (UntagAddr p + 599) = 0"
proof -
  from sample_malloc [of empty_layout True] obtain p and s' :: heap_state where
    m: "HwasanAllocate sample_flags x86_globals empty_layout sample_env 600 8 True sample_heap = Inr (p, s')"
      "p \<noteq> 0" "UntagAddr p = sample_chunk" "tagging_enabled s'" by blast
  have c: "hwasan_calloc sample_flags x86_globals empty_layout sample_env 3 200 sample_heap = Inr (p, s')"
    using m(1,2) by (simp add: hwasan_calloc_def HwasanCalloc_def sample_flags_def SetErrnoOnNull_def)
  have F: "tag_in_malloc sample_flags" "malloc_bisect sample_flags (3 * 200)" by (simp_all add: sample_flags_def)
  have fits: "object_fits x86_globals sample_env (UntagAddr p) (tag_size (3 * 200))" using sample_fits m(3) by simp
  have q: "unat (UntagAddr p) \<le> unat (UntagAddr p + 599)"
    "unat (UntagAddr p + 599) < unat (UntagAddr p) + unat (3 * 200 :: uptr)"
    by (simp_all add: m(3) sample_chunk_def)
  from calloc_zeroes [OF c m(2) F m(4) x86_page(1,2) sample_env_ok(2) fits q] c show ?thesis by blast
qed


lemma sample_freed:
  "\<exists>p s1 s2. HwasanAllocate sample_flags x86_globals L sample_env 600 8 False sample_heap = Inr (p, s1) \<and>
     UntagAddr p = sample_chunk \<and> GetTagFromPointer p = 42 \<and> mem s1 (MemToShadow x86_globals sample_chunk) = 42 \<and>
     unat (free_chunk_num (SuperPoolChunkInfo s1 17)) + 1 < unat (trigger_free (SuperPoolChunkInfo s1 17)) \<and>
     HwasanDeallocate sample_flags x86_globals L sample_env p s1 = Inr s2"
proof -
  from sample_malloc [of L False] obtain p and s1 :: heap_state where
    m: "HwasanAllocate sample_flags x86_globals L sample_env 600 8 False sample_heap = Inr (p, s1)"
      "p \<noteq> 0" "UntagAddr p = sample_chunk" "GetTagFromPointer p = 42" "tagging_enabled s1"
      "SuperPoolChunkInfo s1 = SuperPoolChunkInfo sample_heap" by blast
  have F: "tag_in_malloc sample_flags" "malloc_bisect sample_flags 600" by (simp_all add: sample_flags_def)
  from HwasanAllocate_parts [OF m(1,2)] m(3-5) obtain sz m0 where
    t: "tag_new sample_flags x86_globals sample_env True sample_chunk 600 sz 42 m0 = Inr (mem s1)" by auto
  have c: "unat sample_chunk = 16 * 1236950590848" by (simp add: sample_chunk_def)
  have de: "tag_size 600 = 16 * 37 + 8" "(8 :: nat) < 16" by (simp_all add: tag_size_def)
  have sh: "mem s1 (MemToShadow x86_globals sample_chunk) = 42"
    using tag_new_memory [OF t F x86_page(1,2) sample_env_ok(2) sample_fits c de, of "MemToShadow x86_globals sample_chunk"]
    by (simp add: MemToShadow_def kShadowScale_def x86_globals_def GetShadowOffset_def sample_chunk_def)
  have few: "unat (free_chunk_num (SuperPoolChunkInfo s1 17)) + 1 < unat (trigger_free (SuperPoolChunkInfo s1 17))"
    by (simp add: m(6) sample_heap_def)
  have fits: "shadow_fits x86_globals sample_env sample_chunk 65536"
    by (simp add: shadow_fits_def unat_kShadowSize x86_globals_def sample_env_def MemToShadow_def kShadowScale_def
        GetShadowOffset_def sample_chunk_def)
  have "\<exists>s2. HwasanDeallocate sample_flags x86_globals L sample_env p s1 = Inr s2"
    by (rule free_returns [OF x86_page(3) sample_slot(1-3) _ _ _ x86_page(1,2) sample_env_ok _ few])
      (simp_all add: sample_slot(4) m(3,4) sh fits)
  with m sh few show ?thesis by blast
qed


text \<open>
  C9. A freed chunk is untagged. When \<open>free\<close> of a small chunk returns, the shadow byte of every
  granule of the chunk is 0, so no tagged pointer matches it, whatever pages the release that
  may run inside gave back.
\<close>

theorem freed_chunk_untagged:
  assumes "globals_ok G" "isSmallChunk G (UntagAddr p)" "page_size G = 2 ^ k" "k < 63"
    "shadow_fits G E (UntagAddr p) 65536" "release_zeroes G E" "hwasan_free F G L E p s = Inr s'"
    "i < unat (CTGetRequestedSize G (UntagAddr p) s) div 16"
  shows "mem s' (MemToShadow G (UntagAddr p) + of_nat i) = 0"
  using freed_shadow [OF assms(1-6) _ assms(8)] assms(7) by (simp add: hwasan_free_def)

text \<open>
  C4. A double free is detected. When \<open>free\<close> of a small chunk returns, a second \<open>free\<close> of the same
  pointer ends the process with the report of a tag mismatch (exit status 99).
\<close>

theorem double_free_detected:
  assumes "globals_ok G" "isSmallChunk G (UntagAddr p)" "page_size G = 2 ^ k" "k < 63"
    "shadow_fits G E (UntagAddr p) 65536" "release_zeroes G E" "match_ok E" "hwasan_free F G L E p s = Inr s'"
  shows "hwasan_free F G L E p s' = Inl (Exit 99)"
proof -
  have f: "HwasanDeallocate F G L E p s = Inr s'" using assms(8) by (simp add: hwasan_free_def)
  from HwasanDeallocate_small [OF assms(1,2) f] obtain sz where
    c: "check_pointer G E p (run_free_hooks p s) = Inr sz" by blast
  then have tag: "GetTagFromPointer p \<noteq> 0" and sz: "sz = CTGetRequestedSize G (UntagAddr p) s" "sz \<noteq> 0"
    using CTGetRequestedSize_mem [of "run_free_hooks p s" s]
    by (auto simp: check_pointer_small [OF assms(2)] dest: sized_region_nonzero)
  have "32 dvd unat sz" "unat sz \<noteq> 0"
    using small_size_bounds(2) [OF assms(1,2), of s] sz by (simp_all add: unat_eq_zero)
  then have "0 < unat (CTGetRequestedSize G (UntagAddr p) s) div 16"
    unfolding sz(1) by (auto elim!: dvdE)
  from freed_shadow [OF assms(1-6) f this] have "mem s' (MemToShadow G (UntagAddr p)) = 0" by simp
  with untagged_rejected [OF tag assms(7)] show ?thesis by (simp add: hwasan_free_def)
qed

lemma sample_small:
  "isSmallChunk x86_globals sample_chunk" "shadow_fits x86_globals sample_env sample_chunk 65536"
proof -
  show "isSmallChunk x86_globals sample_chunk" using held_small [OF x86_page(3) sample_slot(1-3)] by (simp only: sample_slot(4))
  show "shadow_fits x86_globals sample_env sample_chunk 65536"
    by (simp add: shadow_fits_def unat_kShadowSize x86_globals_def sample_env_def MemToShadow_def kShadowScale_def
        GetShadowOffset_def sample_chunk_def)
qed

lemma sample_size: "CTGetRequestedSize x86_globals sample_chunk s = 768"
proof -
  have z: "unat (0 :: uptr) < csz 17" by (simp add: sample_slot(5))
  have i: "200 < (256 :: nat)" by simp
  have "Size SCM 17 = 768" by code_simp
  then show ?thesis using small_requested [OF x86_page(3) sample_slot(1,2) i z, of s] by (simp add: sample_slot(4))
qed

theorem freed_chunk_untagged_witness:
  "\<exists>p (s1 :: heap_state) s2. hwasan_free sample_flags x86_globals empty_layout sample_env p s1 = Inr s2 \<and>
     mem s1 (MemToShadow x86_globals sample_chunk) = 42 \<and> mem s2 (MemToShadow x86_globals (UntagAddr p) + of_nat 0) = 0"
proof -
  from sample_freed [of empty_layout] obtain p and s1 s2 :: heap_state where
    f: "UntagAddr p = sample_chunk" "mem s1 (MemToShadow x86_globals sample_chunk) = 42"
      "hwasan_free sample_flags x86_globals empty_layout sample_env p s1 = Inr s2" by (auto simp: hwasan_free_def)
  have small: "isSmallChunk x86_globals (UntagAddr p)" "shadow_fits x86_globals sample_env (UntagAddr p) 65536"
    using sample_small by (simp_all add: f(1))
  have "0 < unat (CTGetRequestedSize x86_globals (UntagAddr p) s1) div 16" by (simp add: f(1) sample_size)
  from freed_chunk_untagged [OF x86_page(3) small(1) x86_page(1,2) small(2) sample_env_ok(2) f(3) this] f show ?thesis by blast
qed

theorem double_free_detected_witness:
  "\<exists>p (s1 :: heap_state) s2. hwasan_free sample_flags x86_globals empty_layout sample_env p s1 = Inr s2 \<and>
     hwasan_free sample_flags x86_globals empty_layout sample_env p s2 = Inl (Exit 99)"
proof -
  from sample_freed [of empty_layout] obtain p and s1 s2 :: heap_state where
    f: "UntagAddr p = sample_chunk" "hwasan_free sample_flags x86_globals empty_layout sample_env p s1 = Inr s2"
    by (auto simp: hwasan_free_def)
  have small: "isSmallChunk x86_globals (UntagAddr p)" "shadow_fits x86_globals sample_env (UntagAddr p) 65536"
    using sample_small by (simp_all add: f(1))
  from double_free_detected [OF x86_page(3) small(1) x86_page(1,2) small(2) sample_env_ok(2,1) f(2)] f show ?thesis by blast
qed

text \<open>
  C7. What \<open>free\<close> rejects inside a region. A pointer into a region that is not the start of a chunk
  is never freed: without a tag and with a matching tag on an aligned address the process exits
  with 1, with a tag that does not match with 99, and an unaligned address fails a \<open>CHECK\<close>.
\<close>

theorem interior_pointer_rejected:
  assumes "globals_ok G" "valid_class k" "region_slot k r" "i < 256" "unat y < csz k" "y \<noteq> 0"
    and "UntagAddr p = chunk k r i + y"
  shows "hwasan_free F G L E p s = Inl
    (if p = 0 then Check_failed
     else if GetTagFromPointer p = 0 then Exit 1
     else if \<not> short_tag_match E (mem s) (mem s (MemToShadow G (UntagAddr p))) p 1 then Exit 99
     else if 16 dvd unat y then Exit 1 else Check_failed)"
proof -
  let ?s = "run_free_hooks p s"
  have "check_chunk_start G (UntagAddr p) (CTGetRequestedSize G (UntagAddr p) ?s) ?s =
      Inl (if 16 dvd unat y then Exit 1 else Check_failed)"
    using checks_chunk_start [OF assms(1-5), of ?s] assms(6) small_requested [OF assms(1-5), of ?s] by (simp add: assms(7))
  then show ?thesis
    by (simp add: hwasan_free_def HwasanDeallocate_def check_pointer_def PointerAndMemoryTagsMatch_eq UntagPtr_def Let_def)
qed

theorem interior_pointer_rejected_witness:
  "hwasan_free sample_flags x86_globals empty_layout sample_env (sample_chunk + 32) sample_heap = Inl (Exit 1)"
proof -
  have i: "200 < (256 :: nat)" by simp
  have y: "unat (32 :: uptr) < csz 17" "(32 :: uptr) \<noteq> 0" by (simp_all add: sample_slot(5))
  have p: "UntagAddr (sample_chunk + 32) = chunk 17 sample_region 200 + 32"
    unfolding sample_slot(4) by code_simp
  have t: "GetTagFromPointer (sample_chunk + 32) = 0" "sample_chunk + 32 \<noteq> 0" by code_simp+
  show ?thesis using interior_pointer_rejected [OF x86_page(3) sample_slot(1,2) i y p, of sample_flags empty_layout sample_env sample_heap] t
    by simp
qed



text \<open>
  The requested size survives the bit fields of the metadata when it has at most 63 bits.
\<close>

theorem requested_size_roundtrip:
  assumes "unat sz < 2 ^ 63"
  shows "get_requested_size (set_requested_size sz d) = sz"
proof (rule word_unat_eq_iff [THEN iffD2])
  have d: "unat sz div 2 ^ 32 < 2 ^ 31" using assms by (simp add: div_less_iff_less_mult)
  have hi: "unat (ucast (ucast (drop_bit 32 sz) :: 31 word) :: u64) = unat sz div 2 ^ 32"
    using d by (simp add: unsigned_ucast_eq unsigned_take_bit_eq unat_drop_bit take_bit_nat_eq_self)
  have m: "sz AND (push_bit 32 1 - 1) = take_bit 32 sz" by (simp add: take_bit_eq_mask mask_eq_decr_exp)
  have lo: "unat (ucast (ucast (take_bit 32 sz) :: u32) :: u64) = unat sz mod 2 ^ 32"
    by (simp add: unsigned_ucast_eq unsigned_take_bit_eq) (simp add: take_bit_eq_mod)
  have sh: "unat (push_bit 32 (ucast (ucast (drop_bit 32 sz) :: 31 word) :: u64)) = unat sz div 2 ^ 32 * 2 ^ 32"
    using d by (simp add: push_bit_eq_mult unat_mult_small hi)
  have "unat sz div 2 ^ 32 * 2 ^ 32 + unat sz mod 2 ^ 32 = unat sz" by (rule div_mult_mod_eq)
  then show "unat (get_requested_size (set_requested_size sz d)) = unat sz"
    unfolding get_requested_size_def set_requested_size_def m using sh lo by (simp add: unat_add_small)
qed

theorem requested_size_roundtrip_witness:
  "get_requested_size (set_requested_size 0x123456789abcdef0
     \<lparr> requested_size_low = 0, requested_size_high = 0, right_aligned = False, alloc_context_id = 0 \<rparr>) = 0x123456789abcdef0"
  by (rule requested_size_roundtrip) simp

end
