(* ===== verification/CT_Guarantees.thy ===== *)
theory CT_Guarantees
  imports Safety
begin

text \<open>
  Guarantees of the single components of ClusterTag, each with a concrete instance: pointers and
  chunk addresses, the lists of regions, the rotation of tags at a refill, fresh regions, the
  release of free pages, the counting of chunks per page, the persistent allocator and aligned
  mappings.
\<close>

section \<open>Pointers and addresses\<close>

text \<open>
  C35. Tags in pointers. ClusterTag's pointer functions agree with those of HWASan: a tag that is
  added can be read back, and taking it off gives the address without any tag.
\<close>

theorem tag_roundtrip:
  assumes "globals_ok G"
  shows "CTGetTagFromPointer G (CTAddTagToPointer G p t) = t \<and> GetTagFromPointer (CTAddTagToPointer G p t) = t \<and>
    CTUntagPointer G (CTAddTagToPointer G p t) = UntagAddr p \<and>
    CTAddTagToPointer G p (CTGetTagFromPointer G p) = p"
  using assms by (simp add: CT_tag_eqs)

theorem tag_roundtrip_witness:
  "CTGetTagFromPointer x86_globals (CTAddTagToPointer x86_globals 0x120000025800 42) = 42"
proof -
  have "globals_ok x86_globals" using x86_env by (simp add: env_ok_def)
  from tag_roundtrip [OF this] show ?thesis by blast
qed

text \<open>
  C24. Chunk addresses. \<open>parseSmallChunkPtr\<close> inverts the layout of the super pools: from any
  address inside a chunk it finds the super pool, the pool, the number of the chunk, its size and
  the header of its region.
\<close>

theorem parse_inverts_layout:
  assumes "globals_ok G" "valid_class k" "p < 1024" "j < 2 ^ 30 div rsz k" "i < 256" "y < csz k"
    and "unat a = (unat k + 1) * 2 ^ 40 + p * 2 ^ 30 + rsz k * j + csz k * i + y"
  shows "\<exists>r. unat r = (unat k + 1) * 2 ^ 40 + p * 2 ^ 30 + rsz k * j \<and>
    parseSmallChunkPtr G a = Inr \<lparr> superPoolID = k, poolID = of_nat p, chunkID = of_nat i,
      chunk_size_of = Size SCM k, regionInfo = r \<rparr>"
  by (rule parse_chunk_address [OF assms])

lemma class_17: "valid_class 17" "csz 17 = 768" "rsz 17 = 196608"
proof -
  have "Size SCM 17 = 768" by code_simp
  then show "csz 17 = 768" "rsz 17 = 196608" by (simp_all add: csz_def rsz_def)
qed (simp add: valid_class_unat)

theorem parse_inverts_layout_witness:
  "\<exists>r. unat r = 18 * 2 ^ 40 \<and> parseSmallChunkPtr x86_globals 0x120000025801 = Inr \<lparr> superPoolID = 17,
     poolID = 0, chunkID = 200, chunk_size_of = 768, regionInfo = r \<rparr>"
proof -
  have G: "globals_ok x86_globals" using x86_env by (simp add: env_ok_def)
  have s: "Size SCM 17 = 768" by code_simp
  have h: "(0 :: nat) < 1024" "(0 :: nat) < 2 ^ 30 div rsz 17" "(200 :: nat) < 256" "(1 :: nat) < csz 17"
    "unat (0x120000025801 :: uptr) = (unat (17 :: uptr) + 1) * 2 ^ 40 + 0 * 2 ^ 30 + rsz 17 * 0 + csz 17 * 200 + 1"
    by (simp_all add: class_17)
  from parse_inverts_layout [OF G class_17(1) h] show ?thesis by (simp add: s)
qed

section \<open>The list of regions\<close>

text \<open>
  C28. Inserting a region. On a sorted doubly linked list \<open>insertInOrder\<close> computes \<open>insort\<close> and
  changes nothing but links, those of the new region and of regions in the list.
\<close>

theorem insertInOrder_refines:
  assumes "dll R l xs" "sorted xs" "x \<noteq> 0" "x \<notin> set xs" "length xs \<le> fuel"
  shows "\<exists>R' l'. insertInOrder fuel x R l = Inr (R', l') \<and> dll R' l' (insort x xs) \<and> links_only R R' \<and>
    changes_in (insert x (set xs)) R R'"
  by (rule insertInOrder_dll [OF assms])

text \<open>
  C29. Removing a region. \<open>deleteFromList\<close> on a list that holds the region computes \<open>remove1\<close>, and
  changes only links of the other regions of the list.
\<close>

theorem deleteFromList_refines:
  assumes "dll R l xs" "x \<in> set xs"
  shows "\<exists>R' l'. deleteFromList x R l = (R', l') \<and> dll R' l' (remove1 x xs) \<and> links_only R R' \<and>
    changes_in (set xs - {x}) R R'"
proof -
  obtain us ws where xs: "xs = us @ x # ws" "x \<notin> set us" using split_list_first [OF assms(2)] by blast
  obtain R' l' where d: "deleteFromList x R l = (R', l')" by fastforce
  have "dll R l (us @ x # ws)" using assms(1) xs(1) by simp
  from deleteFromList_dll [OF this d] have r: "dll R' l' (us @ ws)" "links_only R R'" "changes_in (set us \<union> set ws) R R'"
    by simp_all
  have "distinct xs" by (rule dll_distinct [OF assms(1)])
  then have "set us \<union> set ws = set xs - {x}" "remove1 x xs = us @ ws" using xs by (auto simp: remove1_append)
  with r d show ?thesis by simp
qed

definition two_regions :: region_store where
  "two_regions = (\<lambda>_. zero_region)(0x2000 := zero_region\<lparr>ri_next := 0x6000\<rparr>, 0x6000 := zero_region\<lparr>ri_prev := 0x2000\<rparr>)"

lemma two_regions_dll: "dll two_regions \<lparr> head = 0x2000 \<rparr> [0x2000, 0x6000]"
  by (simp add: dll_def two_regions_def zero_region_def)

theorem insertInOrder_refines_witness:
  "\<exists>R' l'. insertInOrder 2 0x4000 two_regions \<lparr> head = 0x2000 \<rparr> = Inr (R', l') \<and> dll R' l' [0x2000, 0x4000, 0x6000]"
proof -
  have h: "sorted [0x2000, 0x6000 :: uptr]" "(0x4000 :: uptr) \<noteq> 0" "(0x4000 :: uptr) \<notin> set [0x2000, 0x6000]"
    "length [0x2000, 0x6000 :: uptr] \<le> 2" by simp_all
  from insertInOrder_refines [OF two_regions_dll h] show ?thesis by auto
qed

theorem deleteFromList_refines_witness:
  "\<exists>R' l'. deleteFromList 0x2000 two_regions \<lparr> head = 0x2000 \<rparr> = (R', l') \<and> dll R' l' [0x6000]"
proof -
  have "(0x2000 :: uptr) \<in> set [0x2000, 0x6000]" by simp
  from deleteFromList_refines [OF two_regions_dll this] show ?thesis by auto
qed

section \<open>Tags\<close>


text \<open>
  C32. A lone chunk keeps its tag. When exactly one chunk of a region is free, the refill hands it
  out with the tag it was freed with.
\<close>

theorem lone_chunk_keeps_tag:
  assumes "rf_cur v \<noteq> 0" "free_idx [256 - mx..<256] (chunk_last_tag (rf_R v (rf_cur v))) = [i]"
    "rf_idx v + 1 < kBatchLen"
  shows "\<exists>v'. take_region mx sz v = Inr v' \<and>
    entries (rf_cache v') (rf_idx v) 1 = [(rf_cur v + sz * of_nat i, chunk_last_tag (rf_R v (rf_cur v)) i)]"
  using take_region_spec [OF assms(1) assms(2) [symmetric], of sz] assms(3) by (auto simp: turned_def)

definition sample_refill :: "(nat \<Rightarrow> u8) \<Rightarrow> refill" where
  "sample_refill tags = \<lparr> rf_R = (\<lambda>_. zero_region\<lparr>chunk_last_tag := tags, freed_num := 2\<rparr>), rf_list = \<lparr> head = 0x2000 \<rparr>,
     rf_spc = \<lparr> free_chunk_num = 2, region_num = 1, free_region_num = 1, trigger_free = 0, last_release_at_ns = 0 \<rparr>,
     rf_cache = zero_per_class, rf_idx = 0, rf_cur = 0x2000, rf_prev = 0, rf_start = 0x2000, rf_cycle = False \<rparr>"

lemma sample_refill_simps [simp]:
  "rf_cur (sample_refill t) = 0x2000" "rf_idx (sample_refill t) = 0" "chunk_last_tag (rf_R (sample_refill t) q) = t"
  by (simp_all add: sample_refill_def)


theorem lone_chunk_keeps_tag_witness:
  "\<exists>v'. take_region 4 32 (sample_refill ((\<lambda>_. 0)(253 := 7))) = Inr v' \<and> chunk_tag (rf_cache v') 0 = 7"
proof -
  let ?t = "(\<lambda>_. 0)(253 := 7 :: u8)"
  have h: "rf_cur (sample_refill ?t) \<noteq> 0"
    "free_idx [256 - 4..<256] (chunk_last_tag (rf_R (sample_refill ?t) (rf_cur (sample_refill ?t)))) = [253]"
    "rf_idx (sample_refill ?t) + 1 < kBatchLen"
    by (simp_all add: free_idx_def upt_rec kBatchLen_def)
  from lone_chunk_keeps_tag [OF h, of 32] show ?thesis by (auto simp: entries_def)
qed

text \<open>
  C31. A fresh region. Its chunks go into the cache with the tags 1 to n in some order, each chunk
  and each tag once.
\<close>

theorem fresh_region_tags:
  assumes "0 < n" "n < 256" "fresh_batch G n r sz c s = (c', s')"
  shows "mset (map (chunk_tag c') [0..<n]) = mset (map of_nat [1..<n + 1]) \<and>
    mset (map (batch c') [0..<n]) = mset (map (\<lambda>i. r + sz * of_nat i) [256 - n..<256]) \<and> pc_count c' = of_nat n"
  using fresh_batch_spec [OF assms] by blast

theorem fresh_region_tags_witness:
  "mset (map (chunk_tag (fst (fresh_batch x86_globals 2 0x2000 32 zero_per_class start_state))) [0..<2]) = {#1, 2#}"
proof -
  obtain c' and s' :: cache_state where f: "fresh_batch x86_globals 2 0x2000 32 zero_per_class start_state = (c', s')" by fastforce
  have "0 < (2 :: nat)" "2 < (256 :: nat)" by simp_all
  from fresh_region_tags [OF this f] show ?thesis by (simp add: f upt_rec)
qed

section \<open>Returning memory\<close>

text \<open>
  C30. Chunks per page. For every page of a region the table \<open>CTReleaseRegionFragment\<close> compares
  with holds the number of chunks that have a byte on the page.
\<close>

theorem chunks_per_pages_count:
  assumes "0 < unat sz" "0 < unat page" "sz \<noteq> page" "(n + 1) * unat page + 3 * unat sz + unat page < 2 ^ 64" "j < n"
  shows "unat (chunks_per_pages page sz n 0 0 ! j) = card {i. meets (unat page) (unat sz) j i}"
proof -
  have ne: "unat sz \<noteq> unat page" using assms(3) by (simp add: word_unat_eq_iff)
  have room: "(0 + n + 1) * unat page + 3 * unat sz + unat page < 2 ^ 64" using assms(4) by simp
  have z: "unat (0 :: uptr) = 0 * unat page" "unat (0 :: uptr) = up_div (0 * unat page) (unat sz) * unat sz"
    using assms(1) by (simp_all add: up_div_def)
  show ?thesis
    using chunks_per_pages_exact [OF assms(1) refl assms(2) ne room z assms(5)] card_meets [OF assms(1)] by simp
qed

theorem chunks_per_pages_count_witness:
  "chunks_per_pages 4096 3072 3 0 0 ! 1 = 2 \<and> card {i. meets 4096 3072 1 i} = 2"
proof -
  have h: "0 < unat (3072 :: uptr)" "0 < unat (4096 :: uptr)" "(3072 :: uptr) \<noteq> 4096"
    "(3 + 1) * unat (4096 :: uptr) + 3 * unat (3072 :: uptr) + unat (4096 :: uptr) < 2 ^ 64" "(1 :: nat) < 3" by simp_all
  have "chunks_per_pages 4096 3072 3 0 0 ! 1 = 2" by code_simp
  with chunks_per_pages_count [OF h] show ?thesis by simp
qed

text \<open>
  C27. Only free chunks lose their memory. \<open>CTReleaseRegionFragment\<close> gives pages of a region back to
  the kernel; every byte and every header that is not inside a free chunk of the region is kept.
\<close>

theorem fragment_release_safe:
  assumes "page_size G = 4096" "4096 dvd unat r" "unat r + (unat nc + 1) * 4096 \<le> 2 ^ 64"
    "check_fast_release_path 4096 sz = Inr (full, same)" "unat sz \<le> 2 ^ 16" "unat nc \<le> 2 ^ 20" "0 < unat mx"
    "CTReleaseRegionFragment G nc sz full same mx r 12 s = Inr s'"
    "\<not> free_byte r sz (256 - unat mx) (chunk_last_tag (RI s r)) x"
  shows "mem s' x = mem s x \<and> RI s' x = RI s x"
  using CTReleaseRegionFragment_ok [OF assms(1-8)] assms(9) by (simp add: only_in_def)

theorem fragment_release_safe_witness:
  "\<exists>s'. CTReleaseRegionFragment x86_globals 2 32 128 True 3 0x2000 12
       (start_state\<lparr>mem := (\<lambda>_. 1), RI := (\<lambda>_. zero_region\<lparr>chunk_last_tag := (\<lambda>_. 0)(254 := 5)\<rparr>)\<rparr>) = Inr s' \<and>
     mem s' 0x3fa0 = 1"
proof -
  let ?s = "start_state\<lparr>mem := (\<lambda>_. 1), RI := (\<lambda>_. zero_region\<lparr>chunk_last_tag := (\<lambda>_. 0)(254 := 5)\<rparr>)\<rparr>"
  have p: "page_size x86_globals = 4096" by (simp add: x86_globals_def)
  have c: "check_fast_release_path 4096 32 = Inr (128, True)" by code_simp
  have "\<exists>s'. CTReleaseRegionFragment x86_globals 2 32 128 True 3 0x2000 12 ?s = Inr s'"
    by (simp add: CTReleaseRegionFragment_def Let_def p upt_rec page_flags_def CTFreePagesRangeTrackerInit_def bump_def
        CTFreePagesRangeTrackerNextPage_def CTFreePagesRangeTrackerCloseOpenedRange_def CTFreePagesRangeTrackerDone_def)
  then obtain s' where r: "CTReleaseRegionFragment x86_globals 2 32 128 True 3 0x2000 12 ?s = Inr s'" by blast
  have h: "4096 dvd unat (0x2000 :: uptr)" "unat (0x2000 :: uptr) + (unat (2 :: uptr) + 1) * 4096 \<le> 2 ^ 64"
    "unat (32 :: u64) \<le> 2 ^ 16" "unat (2 :: uptr) \<le> 2 ^ 20" "0 < unat (3 :: u8)"
    "\<not> free_byte 0x2000 32 (256 - unat (3 :: u8)) (chunk_last_tag (RI ?s 0x2000)) 0x3fa0"
    by (simp_all add: free_byte_def)
  from fragment_release_safe [OF p h(1,2) c h(3-5) r h(6)] r show ?thesis by simp
qed



section \<open>Storage\<close>

text \<open>
  The persistent allocator. A block it returns starts 16-byte aligned where the last one
  ended, lies inside the storage, reads as zero, and everything outside it is kept.
\<close>

theorem persistent_block:
  assumes "pers_ok pa nodes" "0 < unat n" "unat n \<le> 2 ^ 16" "aligned (cur_loc pa) 16"
    and "CTPersistentAllocatorAllocate n (pa, s) = Inr (p, pa', s')"
  shows "p = cur_loc pa \<and> aligned p 16 \<and> unat p + unat n \<le> unat (cur_loc pa') \<and> cur_loc pa' < end_addr pa \<and>
    aligned (cur_loc pa') 16 \<and> base_addr pa \<le> p \<and>
    (\<forall>q. mem s' q = (if unat p \<le> unat q \<and> unat q < unat (cur_loc pa') then 0 else mem s q))"
proof -
  let ?n = "round_up n 0x10"
  note R = round_up_16 [OF assms(2,3)]
  have nl: "\<not> end_addr pa \<le> cur_loc pa + ?n" and s': "pa' = pa\<lparr>last_loc := cur_loc pa, cur_loc := cur_loc pa + ?n\<rparr>"
      "p = cur_loc pa" "s' = s\<lparr>mem := (\<lambda>q. if in_range (cur_loc pa) ?n q then 0 else mem s q)\<rparr>"
    using assms(5) by (auto simp: CTPersistentAllocatorAllocate_def R(1) Let_def split: if_splits)
  have lim: "unat (cur_loc pa) + unat ?n < 2 ^ 64"
    using assms(1) R(3) by (auto simp: pers_ok_def word_less_nat_alt)
  then have u: "unat (cur_loc pa + ?n) = unat (cur_loc pa) + unat ?n" by (subst unat_add_small) simp_all
  have n16: "16 dvd unat ?n"
  proof -
    have "unat n + (2 ^ 4 - 1) < 2 ^ 64" using assms(3) by simp
    then have "unat (round_up n (2 ^ 4)) = (unat n + 15) div 16 * 16" using unat_round_up [of 4 n] by simp
    then show ?thesis by simp
  qed
  have c16: "16 dvd unat (cur_loc pa)" using assms(4) aligned_iff_dvd [of "cur_loc pa" 4] by simp
  have "16 dvd unat (cur_loc pa + ?n)" unfolding u using c16 n16 by (rule dvd_add)
  then have "aligned (cur_loc pa + ?n) 16" using aligned_iff_dvd [of "cur_loc pa + ?n" 4] by simp
  moreover have "in_range (cur_loc pa) ?n q \<longleftrightarrow> unat (cur_loc pa) \<le> unat q \<and> unat q < unat (cur_loc pa) + unat ?n" for q
    using lim in_range_iff [of "cur_loc pa" ?n q] by simp
  ultimately show ?thesis
    using nl R(2) assms(1,4) u by (simp add: s' pers_ok_def not_le)
qed


theorem persistent_block_witness:
  "\<exists>p pa' s'. CTPersistentAllocatorAllocate 39 (persistent start_state, start_state) = Inr (p, pa', s') \<and>
     unat p + 39 \<le> unat (cur_loc pa') \<and> aligned (cur_loc pa') 16"
proof -
  have r: "RoundUpTo 39 0x10 = Inr 48" by code_simp
  have "\<exists>p pa' s'. CTPersistentAllocatorAllocate 39 (persistent start_state, start_state) = Inr (p, pa', s')"
    by (simp add: CTPersistentAllocatorAllocate_def r Let_def start_state_def)
  then obtain p pa' and s' :: cache_state where
    a: "CTPersistentAllocatorAllocate 39 (persistent start_state, start_state) = Inr (p, pa', s')" by blast
  have h: "0 < unat (39 :: uptr)" "unat (39 :: uptr) \<le> 2 ^ 16" "aligned (cur_loc (persistent start_state)) 16"
    by (simp_all add: start_state_def aligned_def)
  from persistent_block [OF start_facts(1) h a] a show ?thesis by auto
qed

text \<open>
  Aligned mappings. A mapping \<open>MmapAlignedOrDieOnFatalError\<close> returns is a multiple of the
  alignment, and it lies inside the larger mapping the kernel made for it.
\<close>

theorem mmap_aligned:
  assumes "MmapAlignedOrDieOnFatalError G sz (2 ^ j) s = Inr (r, s')" "r \<noteq> 0" "j < 64"
    and "page_size G = 2 ^ k" "k < 64" "map_res = sys_ret s (sys_pos s)" "len = round_up sz (2 ^ k)"
    and "unat map_res + unat len + 2 ^ j + 2 ^ k < 2 ^ 64"
  shows "aligned r (2 ^ j) \<and> unat map_res \<le> unat r \<and> unat r + unat len \<le> unat map_res + unat len + 2 ^ j"
proof -
  have "RoundUpTo x (page_size G) = Inr (round_up x (2 ^ k))" for x by (simp only: assms(4) RoundUpTo_exp [OF assms(5)])
  note R = this IsAligned_exp [OF assms(3)]
  have r: "r = (if aligned map_res (2 ^ j) then map_res else round_up map_res (2 ^ j))"
    using assms(1,2) by (auto simp: MmapAlignedOrDieOnFatalError_def MmapOrDieOnFatalError_def R andThen_eq_Inr
        internal_mmap_def syscall_def IncreaseTotalMmap_def Let_def assms(6) round_up_def split: if_splits prod.splits)
  have "unat map_res + (2 ^ j - 1) < 2 ^ 64" using assms(8) by linarith
  note u = unat_round_up [OF assms(3) this]
  have "(unat map_res + (2 ^ j - 1)) mod 2 ^ j < 2 ^ j" by simp
  moreover have "unat (round_up map_res (2 ^ j)) + (unat map_res + (2 ^ j - 1)) mod 2 ^ j = unat map_res + (2 ^ j - 1)"
    unfolding u by (rule div_mult_mod_eq)
  ultimately have b: "unat map_res \<le> unat (round_up map_res (2 ^ j))" "unat (round_up map_res (2 ^ j)) \<le> unat map_res + 2 ^ j"
    by linarith+
  have "aligned (round_up map_res (2 ^ j)) (2 ^ j)" unfolding aligned_iff_dvd u by simp
  with b show ?thesis by (simp add: r)
qed

theorem mmap_aligned_witness:
  "\<exists>r s'. MmapAlignedOrDieOnFatalError x86_globals 5000 (2 ^ 16) (start_state\<lparr>sys_ret := (\<lambda>_. 0x7f0000001000)\<rparr>) = Inr (r, s') \<and>
     aligned r (2 ^ 16)"
proof -
  let ?s = "start_state\<lparr>sys_ret := (\<lambda>_. 0x7f0000001000)\<rparr>"
  have p: "page_size x86_globals = 2 ^ 12" by (simp add: x86_globals_def)
  have r1: "RoundUpTo 5000 4096 = Inr 8192" "IsAligned 0x7f0000001000 65536 = Inr False" "IsPowerOfTwo 65536" by code_simp+
  have r2: "round_up 0x7f0000012000 0x1000 = 0x7f0000012000" "RoundUpTo 73728 4096 = Inr 73728"
    "round_up 5000 (2 ^ 12) = 8192" "(0x7f0000010FFF :: uptr) AND 0xFFFFFFFFFFFF0000 = 0x7f0000010000" by code_simp+
  have "\<exists>r s'. MmapAlignedOrDieOnFatalError x86_globals 5000 (2 ^ 16) ?s = Inr (r, s') \<and> r \<noteq> 0"
    using RoundUpTo_page [of "0x7f0000012000"]
    by (simp add: MmapAlignedOrDieOnFatalError_def MmapOrDieOnFatalError_def r1 r2 internal_mmap_def internal_munmap_def syscall_def
        IncreaseTotalMmap_def UnmapOrDie_def DecreaseTotalMmap_def Let_def x86_globals_def start_state_def zero_range_def)
  then obtain r and s' :: cache_state where
    m: "MmapAlignedOrDieOnFatalError x86_globals 5000 (2 ^ 16) ?s = Inr (r, s')" "r \<noteq> 0" by blast
  have h: "(16 :: nat) < 64" "(12 :: nat) < 64" "0x7f0000001000 = sys_ret ?s (sys_pos ?s)" "(8192 :: uptr) = round_up 5000 (2 ^ 12)"
    "unat (0x7f0000001000 :: uptr) + unat (8192 :: uptr) + 2 ^ 16 + 2 ^ 12 < 2 ^ 64"
    by (simp, simp, simp, rule r2(3) [symmetric], simp)
  from mmap_aligned [OF m h(1) p h(2-5)] m(1) show ?thesis by blast
qed

section \<open>The invariant\<close>

text \<open>
  C3. The heap invariant. \<open>held_ok s M\<close> says that the super pools, their regions, the lists, the
  counters and the caches are consistent when the program holds the pointers \<open>M\<close>. Every sequence
  of allocations and deallocations keeps it.
\<close>

theorem heap_invariant:
  assumes "env_ok G" "layout_ok L" "held_ok s M" "reach G L (s, M) (s', M')"
  shows "held_ok s' M'"
  by (rule reach_held [OF assms(1,2,4,3)])

theorem heap_invariant_witness:
  "\<exists>G L s1 s p q. init_for_clustertag x86_globals start_state = Inr (G, L, s1) \<and> reach G L (s1, {#}) (s, {#p, q#}) \<and>
     held_ok s {#p, q#}"
proof -
  from two_requests obtain G L s1 s p q where
    r: "init_for_clustertag x86_globals start_state = Inr (G, L, s1)" "reach G L (s1, {#}) (s, {#p, q#})" by blast
  note I = init_ok [OF x86_env start_facts(1,2) r(1)]
  from heap_invariant [OF I(2,1,3) r(2)] r show ?thesis by blast
qed

end
