(* ===== verification/San_Containers.thy ===== *)
theory San_Containers
  imports San_Libc "HOL-Library.Multiset"
begin

text \<open>
  The containers and algorithms of \<open>sanitizer_common.h\<close>: the vector \<open>InternalMmapVectorNoCtor\<close>,
  the heap sort \<open>Sort\<close>, \<open>InternalLowerBound\<close> and \<open>SortAndDedup\<close>. An array is a list; a vector is
  the list of its elements with the bytes of its mapping and the address of its data, and
  \<open>elem_size\<close> stands for \<open>sizeof(T)\<close>. The lemmas: the sort returns the sorted permutation of its
  input, the search returns the first position that is not less than the value,
  \<open>SortAndDedup\<close> returns the strictly sorted list of the elements, and a vector never holds
  more elements than its mapping has room for.
\<close>

section \<open>The heap sort\<close>

definition swap_at :: "'a list \<Rightarrow> nat \<Rightarrow> nat \<Rightarrow> 'a list" where
  "swap_at v i j = v[i := v ! j, j := v ! i]"

text \<open>Stage 1: an element rises until its parent is not less.\<close>

function sift_up :: "('a \<Rightarrow> 'a \<Rightarrow> bool) \<Rightarrow> 'a list \<Rightarrow> nat \<Rightarrow> 'a list" where
  "sift_up cmp v j =
     (if 0 < j then
        let p = (j - 1) div 2 in
        if cmp (v ! p) (v ! j) then sift_up cmp (swap_at v j p) p else v
      else v)"
  by pat_completeness auto
termination by (relation "measure (\<lambda>(_, _, j). j)") auto

fun heapify :: "('a \<Rightarrow> 'a \<Rightarrow> bool) \<Rightarrow> 'a list \<Rightarrow> nat \<Rightarrow> nat \<Rightarrow> 'a list" where
  "heapify cmp v i 0 = v"
| "heapify cmp v i (Suc n) = heapify cmp (sift_up cmp v i) (Suc i) n"

text \<open>Stage 2: the new top sinks below the larger child until no child is larger.\<close>

definition larger_child :: "('a \<Rightarrow> 'a \<Rightarrow> bool) \<Rightarrow> 'a list \<Rightarrow> nat \<Rightarrow> nat \<Rightarrow> nat" where
  "larger_child cmp v i j =
     (let left = 2 * j + 1;
          right = 2 * j + 2;
          max_ind = j;
          max_ind = (if left < i \<and> cmp (v ! max_ind) (v ! left) then left else max_ind);
          max_ind = (if right < i \<and> cmp (v ! max_ind) (v ! right) then right else max_ind)
      in max_ind)"

lemma larger_child_ge: "larger_child cmp v i j \<noteq> j \<Longrightarrow> j < larger_child cmp v i j"
  by (auto simp: larger_child_def Let_def split: if_splits)

declare sift_up.simps [simp del]

function sift_down :: "('a \<Rightarrow> 'a \<Rightarrow> bool) \<Rightarrow> 'a list \<Rightarrow> nat \<Rightarrow> nat \<Rightarrow> 'a list" where
  "sift_down cmp v i j =
     (if j < i then
        let max_ind = larger_child cmp v i j in
        if max_ind \<noteq> j then sift_down cmp (swap_at v j max_ind) i max_ind else v
      else v)"
  by pat_completeness auto
termination by (relation "measure (\<lambda>(_, _, i, j). i - j)") (auto dest: larger_child_ge)

declare sift_down.simps [simp del]

fun sink_all :: "('a \<Rightarrow> 'a \<Rightarrow> bool) \<Rightarrow> 'a list \<Rightarrow> nat \<Rightarrow> 'a list" where
  "sink_all cmp v 0 = v"
| "sink_all cmp v (Suc i) = sink_all cmp (sift_down cmp (swap_at v 0 (Suc i)) (Suc i) 0) i"

definition San_Sort :: "('a \<Rightarrow> 'a \<Rightarrow> bool) \<Rightarrow> 'a list \<Rightarrow> 'a list" where
  "San_Sort cmp v =
     (if length v < 2 then v
      else sink_all cmp (heapify cmp v 1 (length v - 1)) (length v - 1))"

section \<open>The binary search\<close>

function lower_bound_from :: "('a \<Rightarrow> 'b \<Rightarrow> bool) \<Rightarrow> 'a list \<Rightarrow> 'b \<Rightarrow> nat \<Rightarrow> nat \<Rightarrow> nat" where
  "lower_bound_from cmp v val first lst =
     (if first < lst then
        let mid = (first + lst) div 2 in
        if cmp (v ! mid) val then lower_bound_from cmp v val (mid + 1) lst
        else lower_bound_from cmp v val first mid
      else first)"
  by pat_completeness auto
termination by (relation "measure (\<lambda>(_, _, _, first, lst). lst - first)") auto

declare lower_bound_from.simps [simp del]

definition InternalLowerBound :: "('a \<Rightarrow> 'b \<Rightarrow> bool) \<Rightarrow> 'a list \<Rightarrow> 'b \<Rightarrow> nat" where
  "InternalLowerBound cmp v val = lower_bound_from cmp v val 0 (length v)"

section \<open>Sorting without duplicates\<close>

text \<open>The loop over \<open>i\<close>; \<open>last\<close> is the index of the last element kept.\<close>

fun dedup_loop :: "('a \<Rightarrow> 'a \<Rightarrow> bool) \<Rightarrow> 'a list \<Rightarrow> nat \<Rightarrow> nat \<Rightarrow> nat \<Rightarrow> ('a list \<times> nat) res" where
  "dedup_loop cmp v lst i 0 = Inr (v, lst)"
| "dedup_loop cmp v lst i (Suc n) =
     (if cmp (v ! lst) (v ! i) then
        let lst = lst + 1;
            v = (if lst \<noteq> i then v[lst := v ! i] else v)
        in dedup_loop cmp v lst (i + 1) n
      else andThen (check (\<not> cmp (v ! i) (v ! lst))) (\<lambda>_. dedup_loop cmp v lst (i + 1) n))"

definition SortAndDedup :: "('a \<Rightarrow> 'a \<Rightarrow> bool) \<Rightarrow> 'a list \<Rightarrow> 'a list res" where
  "SortAndDedup cmp v =
     (let v = San_Sort cmp v in
      if length v < 2 then Inr v
      else andThen (dedup_loop cmp v 0 1 (length v - 1)) (\<lambda>(v, lst). Inr (take (lst + 1) v)))"

section \<open>The vector\<close>

record 'a mmap_vector =
  vdata :: "'a list"
  vec_addr :: uptr
  capacity_bytes :: uptr

definition vec_size :: "'a mmap_vector \<Rightarrow> uptr" where
  "vec_size v = of_nat (length (vdata v))"

definition capacity :: "uptr \<Rightarrow> 'a mmap_vector \<Rightarrow> uptr" where
  "capacity elem_size v = capacity_bytes v div elem_size"

definition vec_Realloc ::
    "ct_globals \<Rightarrow> uptr \<Rightarrow> uptr \<Rightarrow> 'a mmap_vector \<Rightarrow> 's machine_scheme \<Rightarrow>
     ('a mmap_vector \<times> 's machine_scheme) res" where
  "vec_Realloc G elem_size new_capacity v s =
     andThen (check (0 < new_capacity)) (\<lambda>_.
     andThen (check (vec_size v \<le> new_capacity)) (\<lambda>_.
     andThen (RoundUpTo (new_capacity * elem_size) (page_size G)) (\<lambda>new_capacity_bytes.
     andThen (MmapOrDie G new_capacity_bytes s) (\<lambda>(new_data, s).
     andThen (UnmapOrDie G (vec_addr v) (capacity_bytes v) s) (\<lambda>s.
     Inr (v\<lparr>vec_addr := new_data, capacity_bytes := new_capacity_bytes\<rparr>, s))))))"

definition vec_reserve ::
    "ct_globals \<Rightarrow> uptr \<Rightarrow> uptr \<Rightarrow> 'a mmap_vector \<Rightarrow> 's machine_scheme \<Rightarrow>
     ('a mmap_vector \<times> 's machine_scheme) res" where
  "vec_reserve G elem_size new_size v s =
     (if capacity elem_size v < new_size then vec_Realloc G elem_size new_size v s else Inr (v, s))"

definition vec_Initialize ::
    "ct_globals \<Rightarrow> uptr \<Rightarrow> uptr \<Rightarrow> 's machine_scheme \<Rightarrow> ('a mmap_vector \<times> 's machine_scheme) res" where
  "vec_Initialize G elem_size initial_capacity s =
     vec_reserve G elem_size initial_capacity \<lparr> vdata = [], vec_addr = 0, capacity_bytes = 0 \<rparr> s"

definition vec_Destroy ::
    "ct_globals \<Rightarrow> 'a mmap_vector \<Rightarrow> 's machine_scheme \<Rightarrow> 's machine_scheme res" where
  "vec_Destroy G v s = UnmapOrDie G (vec_addr v) (capacity_bytes v) s"

definition vec_at :: "'a mmap_vector \<Rightarrow> uptr \<Rightarrow> 'a res" where
  "vec_at v i = andThen (check (i < vec_size v)) (\<lambda>_. Inr (vdata v ! unat i))"

definition vec_push_back ::
    "ct_globals \<Rightarrow> uptr \<Rightarrow> 'a \<Rightarrow> 'a mmap_vector \<Rightarrow> 's machine_scheme \<Rightarrow>
     ('a mmap_vector \<times> 's machine_scheme) res" where
  "vec_push_back G elem_size element v s =
     andThen (check (vec_size v \<le> capacity elem_size v)) (\<lambda>_.
     andThen (if vec_size v = capacity elem_size v then
                andThen (RoundUpToPowerOfTwo (vec_size v + 1)) (\<lambda>new_capacity.
                vec_Realloc G elem_size new_capacity v s)
              else Inr (v, s)) (\<lambda>(v, s).
     Inr (v\<lparr>vdata := vdata v @ [element]\<rparr>, s)))"

definition vec_back :: "'a mmap_vector \<Rightarrow> 'a res" where
  "vec_back v = andThen (check (0 < vec_size v)) (\<lambda>_. Inr (last (vdata v)))"

definition vec_pop_back :: "'a mmap_vector \<Rightarrow> 'a mmap_vector res" where
  "vec_pop_back v = andThen (check (0 < vec_size v)) (\<lambda>_. Inr (v\<lparr>vdata := butlast (vdata v)\<rparr>))"

text \<open>New elements are zero bytes: \<open>zero\<close> is the value they have in the element type.\<close>

definition vec_resize ::
    "ct_globals \<Rightarrow> uptr \<Rightarrow> 'a \<Rightarrow> uptr \<Rightarrow> 'a mmap_vector \<Rightarrow> 's machine_scheme \<Rightarrow>
     ('a mmap_vector \<times> 's machine_scheme) res" where
  "vec_resize G elem_size zero new_size v s =
     andThen (if vec_size v < new_size then
                andThen (vec_reserve G elem_size new_size v s) (\<lambda>(v, s).
                Inr (v\<lparr>vdata := vdata v @ replicate (unat new_size - length (vdata v)) zero\<rparr>, s))
              else Inr (v, s)) (\<lambda>(v, s).
     Inr (v\<lparr>vdata := take (unat new_size) (vdata v)\<rparr>, s))"

definition vec_clear :: "'a mmap_vector \<Rightarrow> 'a mmap_vector" where
  "vec_clear v = v\<lparr>vdata := []\<rparr>"

definition vec_empty :: "'a mmap_vector \<Rightarrow> bool" where
  "vec_empty v \<longleftrightarrow> vec_size v = 0"

definition vec_swap :: "'a mmap_vector \<Rightarrow> 'a mmap_vector \<Rightarrow> 'a mmap_vector \<times> 'a mmap_vector" where
  "vec_swap v other = (other, v)"

text \<open>Two vectors are equal when their bytes are; \<open>enc\<close> are the bytes of an element.\<close>

definition vec_eq :: "('a \<Rightarrow> u8 list) \<Rightarrow> 'a mmap_vector \<Rightarrow> 'a mmap_vector \<Rightarrow> bool" where
  "vec_eq enc lhs rhs =
     (if vec_size lhs \<noteq> vec_size rhs then False else concat (map enc (vdata lhs)) = concat (map enc (vdata rhs)))"

section \<open>The sort permutes\<close>

lemma length_swap_at [simp]: "length (swap_at v i j) = length v"
  by (simp add: swap_at_def)

lemma nth_swap_at:
  "i < length v \<Longrightarrow> j < length v \<Longrightarrow> swap_at v i j ! k = (if k = j then v ! i else if k = i then v ! j else v ! k)"
  by (auto simp: swap_at_def nth_list_update)

lemma mset_swap_at: "i < length v \<Longrightarrow> j < length v \<Longrightarrow> mset (swap_at v i j) = mset v"
  by (simp add: swap_at_def mset_swap)

lemma sift_up_perm: "j < length v \<Longrightarrow> mset (sift_up cmp v j) = mset v \<and> length (sift_up cmp v j) = length v"
proof (induction cmp v j rule: sift_up.induct)
  case (1 cmp v j)
  have "(j - 1) div 2 < length v" using 1(2) by simp
  then show ?case using 1 by (subst (1 2) sift_up.simps) (auto simp: Let_def mset_swap_at)
qed

lemma larger_child_less: "j < i \<Longrightarrow> larger_child cmp v i j < i"
  by (auto simp: larger_child_def Let_def)

lemma sift_down_perm:
  "i \<le> length v \<Longrightarrow> mset (sift_down cmp v i j) = mset v \<and> length (sift_down cmp v i j) = length v \<and>
     (\<forall>k \<ge> i. sift_down cmp v i j ! k = v ! k)"
proof (induction cmp v i j rule: sift_down.induct)
  case (1 cmp v i j)
  show ?case
  proof (cases "j < i \<and> larger_child cmp v i j \<noteq> j")
    case True
    then have "larger_child cmp v i j < i" by (simp add: larger_child_less)
    with 1 True show ?thesis by (subst (1 2 3) sift_down.simps) (auto simp: Let_def mset_swap_at nth_swap_at)
  qed (subst (1 2 3) sift_down.simps, auto)
qed

lemma heapify_perm: "i + n \<le> length v \<Longrightarrow> mset (heapify cmp v i n) = mset v \<and> length (heapify cmp v i n) = length v"
  by (induction n arbitrary: v i) (simp_all add: sift_up_perm)

lemma sink_all_perm: "i < length v \<Longrightarrow> mset (sink_all cmp v i) = mset v \<and> length (sink_all cmp v i) = length v"
proof (induction i arbitrary: v)
  case (Suc i)
  have "mset (swap_at v 0 (Suc i)) = mset v" using Suc.prems by (intro mset_swap_at) auto
  then show ?case using Suc by (simp add: sift_down_perm)
qed simp

lemma San_Sort_perm: "mset (San_Sort cmp v) = mset v"
proof (cases "length v < 2")
  case False
  then have "mset (heapify cmp v 1 (length v - 1)) = mset v" "length (heapify cmp v 1 (length v - 1)) = length v"
    using heapify_perm [of 1 "length v - 1" v cmp] by simp_all
  moreover have "length v - 1 < length (heapify cmp v 1 (length v - 1))" using calculation False by simp
  ultimately show ?thesis using False sink_all_perm [of "length v - 1" "heapify cmp v 1 (length v - 1)" cmp]
    by (simp add: San_Sort_def)
qed (simp add: San_Sort_def)

section \<open>The sort sorts\<close>

text \<open>\<open>cmp\<close> compares keys; a heap over the first \<open>n\<close> elements has no key above its parent's.\<close>

definition by_key :: "('a \<Rightarrow> 'b :: linorder) \<Rightarrow> ('a \<Rightarrow> 'a \<Rightarrow> bool) \<Rightarrow> bool" where
  "by_key f cmp \<longleftrightarrow> (\<forall>a b. cmp a b \<longleftrightarrow> f a < f b)"

definition heap_except :: "('a \<Rightarrow> 'b :: linorder) \<Rightarrow> 'a list \<Rightarrow> nat \<Rightarrow> nat set \<Rightarrow> bool" where
  "heap_except f v n X \<longleftrightarrow> (\<forall>k. 0 < k \<longrightarrow> k < n \<longrightarrow> k \<notin> X \<longrightarrow> f (v ! k) \<le> f (v ! ((k - 1) div 2)))"

lemma heap_exceptD: "heap_except f v n X \<Longrightarrow> 0 < k \<Longrightarrow> k < n \<Longrightarrow> k \<notin> X \<Longrightarrow> f (v ! k) \<le> f (v ! ((k - 1) div 2))"
  by (simp add: heap_except_def)

lemma heap_top: "heap_except f v n {} \<Longrightarrow> k < n \<Longrightarrow> f (v ! k) \<le> f (v ! 0)"
proof (induction k rule: less_induct)
  case (less k)
  show ?case
  proof (cases "k = 0")
    case False
    then have "f (v ! k) \<le> f (v ! ((k - 1) div 2))" using less.prems by (intro heap_exceptD) auto
    also have "\<dots> \<le> f (v ! 0)" using False less.prems by (intro less.IH) simp_all
    finally show ?thesis .
  qed simp
qed

lemma sift_up_heap:
  assumes "by_key f cmp"
  shows "heap_except f v n {j} \<Longrightarrow> j < n \<Longrightarrow> n \<le> length v \<Longrightarrow>
    (\<And>k. 0 < j \<Longrightarrow> 0 < k \<Longrightarrow> k < n \<Longrightarrow> (k - 1) div 2 = j \<Longrightarrow> f (v ! k) \<le> f (v ! ((j - 1) div 2))) \<Longrightarrow>
    heap_except f (sift_up cmp v j) n {}"
  using assms
proof (induction cmp v j rule: sift_up.induct)
  case (1 cmp v j)
  define p where "p = (j - 1) div 2"
  have cmp: "cmp a b \<longleftrightarrow> f a < f b" for a b using 1(6) by (simp add: by_key_def)
  show ?case
  proof (cases "0 < j \<and> cmp (v ! p) (v ! j)")
    case True
    then have lt: "f (v ! p) < f (v ! j)" "0 < j" "p < j" by (auto simp: cmp p_def)
    let ?w = "swap_at v j p"
    have nth: "?w ! k = (if k = p then v ! j else if k = j then v ! p else v ! k)" for k
      using 1(3,4) lt by (intro nth_swap_at) simp_all
    have "heap_except f ?w n {p}" unfolding heap_except_def
    proof (intro allI impI)
      fix k assume k: "0 < k" "k < n" "k \<notin> {p}"
      show "f (?w ! k) \<le> f (?w ! ((k - 1) div 2))"
      proof (cases "k = j")
        case True
        then have "(k - 1) div 2 = p" by (simp only: p_def)
        then show ?thesis using True lt by (simp only: nth) simp
      next
        case False
        then have old: "f (v ! k) \<le> f (v ! ((k - 1) div 2))" using k 1(2) by (intro heap_exceptD) auto
        show ?thesis
        proof (cases "(k - 1) div 2 = j")
          case True
          then have "f (v ! k) \<le> f (v ! p)" using k lt 1(5) [of k] by (simp add: p_def)
          then show ?thesis using True False k lt by (simp add: nth)
        next
          case F2: False
          have "f (v ! k) \<le> f (v ! j)" if "(k - 1) div 2 = p" using old lt that by simp
          then show ?thesis using F2 False k old by (auto simp: nth)
        qed
      qed
    qed
    moreover have "f (?w ! k) \<le> f (?w ! ((p - 1) div 2))"
      if "0 < p" "0 < k" "k < n" "(k - 1) div 2 = p" for k
    proof -
      have up: "f (v ! p) \<le> f (v ! ((p - 1) div 2))" using that 1(2,3) lt by (intro heap_exceptD [OF 1(2)]) auto
      have "?w ! ((p - 1) div 2) = v ! ((p - 1) div 2)" using that(1) lt by (auto simp: nth)
      moreover have "f (v ! k) \<le> f (v ! p)" if "k \<noteq> j" using heap_exceptD [OF 1(2), of k] that \<open>0 < k\<close> \<open>k < n\<close> \<open>(k - 1) div 2 = p\<close> by auto
      moreover have "k \<noteq> p" using that by auto
      ultimately show ?thesis using up by (auto simp: nth intro: order_trans)
    qed
    moreover have "sift_up cmp v j = sift_up cmp ?w p" using True by (subst sift_up.simps) (simp add: p_def Let_def)
    ultimately show ?thesis using 1(1) [OF lt(2) p_def] True lt 1(3,4,6) by simp
  next
    case False
    have "heap_except f v n {}" unfolding heap_except_def
    proof (intro allI impI)
      fix k assume k: "0 < k" "k < n"
      show "f (v ! k) \<le> f (v ! ((k - 1) div 2))"
        using heap_exceptD [OF 1(2), of k] False k by (cases "k = j") (auto simp: cmp p_def)
    qed
    moreover have "sift_up cmp v j = v" using False by (subst sift_up.simps) (auto simp: p_def Let_def)
    ultimately show ?thesis by simp
  qed
qed

lemma larger_child_cases:
  assumes "by_key f cmp" "j < i" "m = larger_child cmp v i j"
  shows "m = j \<or> (m = 2 * j + 1 \<or> m = 2 * j + 2) \<and> m < i \<and> f (v ! j) < f (v ! m)"
    and "2 * j + 1 < i \<Longrightarrow> f (v ! (2 * j + 1)) \<le> f (v ! m)"
    and "2 * j + 2 < i \<Longrightarrow> f (v ! (2 * j + 2)) \<le> f (v ! m)"
  using assms by (auto simp: larger_child_def Let_def by_key_def not_less split: if_splits)

lemma child_cases: "0 < k \<Longrightarrow> (k - 1) div 2 = j \<Longrightarrow> k = 2 * j + 1 \<or> k = 2 * j + 2" for k j :: nat
  by presburger

text \<open>Every parent but \<open>j\<close> dominates its children, and the parent of \<open>j\<close> dominates the children of \<open>j\<close>.\<close>

definition heap_below :: "('a \<Rightarrow> 'b :: linorder) \<Rightarrow> 'a list \<Rightarrow> nat \<Rightarrow> nat \<Rightarrow> bool" where
  "heap_below f v n j \<longleftrightarrow>
     (\<forall>k. 0 < k \<longrightarrow> k < n \<longrightarrow> (k - 1) div 2 \<noteq> j \<longrightarrow> f (v ! k) \<le> f (v ! ((k - 1) div 2))) \<and>
     (\<forall>k. 0 < k \<longrightarrow> k < n \<longrightarrow> (k - 1) div 2 = j \<longrightarrow> 0 < j \<longrightarrow> f (v ! k) \<le> f (v ! ((j - 1) div 2)))"

lemma sift_down_heap:
  assumes "by_key f cmp"
  shows "heap_below f v i j \<Longrightarrow> i \<le> length v \<Longrightarrow> heap_except f (sift_down cmp v i j) i {}"
  using assms
proof (induction cmp v i j rule: sift_down.induct)
  case (1 cmp v i j)
  have key: "by_key f cmp" by fact
  show ?case
  proof (cases "j < i \<and> larger_child cmp v i j \<noteq> j")
    case True
    define m where "m = larger_child cmp v i j"
    have m: "m \<noteq> j" "m = 2 * j + 1 \<or> m = 2 * j + 2" "m < i" "f (v ! j) < f (v ! m)"
      using larger_child_cases(1) [OF key _ m_def] True by (auto simp: m_def)
    let ?w = "swap_at v j m"
    have nth: "?w ! k = (if k = m then v ! j else if k = j then v ! m else v ! k)" for k
      using 1(3) True m by (intro nth_swap_at) simp_all
    have sib: "f (v ! k) \<le> f (v ! m)" if "0 < k" "k < i" "(k - 1) div 2 = j" for k
      using child_cases [OF that(1,3)] larger_child_cases(2,3) [OF key _ m_def] that True by auto
    have "heap_below f ?w i m" unfolding heap_below_def
    proof (intro conjI allI impI)
      fix k assume k: "0 < k" "k < i" "(k - 1) div 2 \<noteq> m"
      consider "k = m" | "k = j" | "k \<noteq> m" "k \<noteq> j" "(k - 1) div 2 = j" | "k \<noteq> m" "k \<noteq> j" "(k - 1) div 2 \<noteq> j" by blast
      then show "f (?w ! k) \<le> f (?w ! ((k - 1) div 2))"
      proof cases
        case 1
        then have "(k - 1) div 2 = j" using m by auto
        then show ?thesis using 1 m by (simp add: nth)
      next
        case 2
        have "f (v ! m) \<le> f (v ! ((j - 1) div 2))" using \<open>heap_below f v i j\<close> m k 2 by (auto simp: heap_below_def)
        moreover have "(j - 1) div 2 \<noteq> j" "(j - 1) div 2 \<noteq> m" using 2 k m by auto
        ultimately show ?thesis using 2 m by (simp add: nth)
      next
        case 3
        then show ?thesis using sib [OF k(1,2) 3(3)] m by (simp add: nth)
      next
        case 4
        then show ?thesis using \<open>heap_below f v i j\<close> k by (simp add: nth heap_below_def)
      qed
    next
      fix k assume k: "0 < k" "k < i" "(k - 1) div 2 = m" "0 < m"
      have "(m - 1) div 2 = j" using m by auto
      moreover have "f (v ! k) \<le> f (v ! m)" using \<open>heap_below f v i j\<close> k m by (auto simp: heap_below_def)
      moreover have "k \<noteq> m" "k \<noteq> j" using child_cases [OF k(1,3)] m by auto
      ultimately show "f (?w ! k) \<le> f (?w ! ((m - 1) div 2))" using m by (simp add: nth)
    qed
    moreover have "sift_down cmp v i j = sift_down cmp ?w i m" using True by (subst sift_down.simps) (simp add: m_def Let_def)
    ultimately show ?thesis using 1(1) [OF _ m_def m(1)] True 1(3) key by simp
  next
    case False
    have "f (v ! k) \<le> f (v ! j)" if "0 < k" "k < i" "(k - 1) div 2 = j" for k
      using child_cases [OF that(1,3)] larger_child_cases(2,3) [OF key _ refl, of j i v] that False by force
    then have "heap_except f v i {}" using \<open>heap_below f v i j\<close> by (auto simp: heap_except_def heap_below_def)
    moreover have "sift_down cmp v i j = v" using False by (subst sift_down.simps) auto
    ultimately show ?thesis by simp
  qed
qed

lemma heapify_heap:
  assumes "by_key f cmp"
  shows "heap_except f v i {} \<Longrightarrow> i + n \<le> length v \<Longrightarrow> heap_except f (heapify cmp v i n) (i + n) {}"
proof (induction n arbitrary: v i)
  case (Suc n)
  have "f (v ! k) \<le> f (v ! ((i - 1) div 2))" if "k < Suc i" "(k - 1) div 2 = i" "0 < i" for k
    using that by presburger
  moreover have "heap_except f v (Suc i) {i}" using Suc.prems by (auto simp: heap_except_def less_Suc_eq)
  ultimately have "heap_except f (sift_up cmp v i) (Suc i) {}" using Suc.prems
    by (intro sift_up_heap [OF assms]) auto
  then show ?case using Suc.IH [of "sift_up cmp v i" "Suc i"] Suc.prems by (simp add: sift_up_perm)
qed simp

text \<open>Before round \<open>i\<close> the first \<open>i + 1\<close> elements are a heap, the others are sorted and above them.\<close>

definition sink_inv :: "('a \<Rightarrow> 'b :: linorder) \<Rightarrow> 'a list \<Rightarrow> nat \<Rightarrow> bool" where
  "sink_inv f v i \<longleftrightarrow> heap_except f v (Suc i) {} \<and> sorted (map f (drop (Suc i) v)) \<and>
     (\<forall>a \<in> set (take (Suc i) v). \<forall>b \<in> set (drop (Suc i) v). f a \<le> f b)"

lemma drop_update_last: "i < length v \<Longrightarrow> drop i v = v ! i # drop (Suc i) v"
  by (rule Cons_nth_drop_Suc [symmetric])

lemma same_beyond:
  "length w = length v \<Longrightarrow> (\<forall>k \<ge> i. w ! k = v ! k) \<Longrightarrow> drop i w = drop i v"
  by (intro nth_equalityI) auto

lemma same_before:
  assumes "mset w = mset v" "drop i w = drop i v"
  shows "set (take i w) = set (take i v)"
proof -
  have "mset (take i w) + mset (drop i w) = mset (take i v) + mset (drop i v)"
    using assms(1) by (metis append_take_drop_id mset_append)
  then have "mset (take i w) = mset (take i v)" using assms(2) by simp
  then show ?thesis by (metis set_mset_mset)
qed

lemma sink_step:
  assumes key: "by_key f cmp" and inv: "sink_inv f v (Suc i)" and len: "Suc i < length v"
  shows "sink_inv f (sift_down cmp (swap_at v 0 (Suc i)) (Suc i) 0) i"
proof -
  let ?u = "swap_at v 0 (Suc i)"
  let ?w = "sift_down cmp ?u (Suc i) 0"
  have nth: "?u ! k = (if k = Suc i then v ! 0 else if k = 0 then v ! Suc i else v ! k)" for k
    using len by (intro nth_swap_at) auto
  have heap: "heap_except f v (Suc (Suc i)) {}" and srt: "sorted (map f (drop (Suc (Suc i)) v))"
    and above: "\<And>a b. a \<in> set (take (Suc (Suc i)) v) \<Longrightarrow> b \<in> set (drop (Suc (Suc i)) v) \<Longrightarrow> f a \<le> f b"
    using inv by (auto simp: sink_inv_def)
  have perm: "mset ?w = mset ?u" "length ?w = length v" "\<forall>k \<ge> Suc i. ?w ! k = ?u ! k"
    using sift_down_perm [of "Suc i" ?u cmp 0] len by auto
  have "heap_below f ?u (Suc i) 0" using heap by (auto simp: heap_below_def heap_except_def nth)
  then have h: "heap_except f ?w (Suc i) {}" using len by (intro sift_down_heap [OF key]) auto
  have dw: "drop (Suc i) ?w = drop (Suc i) ?u" using perm by (intro same_beyond) auto
  have du: "drop (Suc i) ?u = v ! 0 # drop (Suc (Suc i)) v"
    using len nth by (subst drop_update_last) (auto intro!: same_beyond)
  have top: "f a \<le> f (v ! 0)" if "a \<in> set (take (Suc (Suc i)) v)" for a
    using that heap_top [OF heap] len by (auto simp: in_set_conv_nth)
  have tk: "set (take (Suc i) ?w) \<subseteq> set (take (Suc (Suc i)) v)"
  proof -
    have "set (take (Suc i) ?w) = set (take (Suc i) ?u)" by (rule same_before [OF perm(1) dw])
    also have "\<dots> \<subseteq> set (take (Suc (Suc i)) v)"
    proof
      fix a assume "a \<in> set (take (Suc i) ?u)"
      then obtain k where k: "k < Suc i" "a = ?u ! k" by (auto simp: in_set_conv_nth)
      have "v ! (if k = 0 then Suc i else k) \<in> set (take (Suc (Suc i)) v)"
        using k(1) len by (auto simp: in_set_conv_nth intro!: exI [of _ "if k = 0 then Suc i else k"])
      then show "a \<in> set (take (Suc (Suc i)) v)" using k by (simp add: nth split: if_splits)
    qed
    finally show ?thesis .
  qed
  have "v ! 0 \<in> set (take (Suc (Suc i)) v)" using len by (cases v) auto
  then have "sorted (map f (drop (Suc i) ?w))" using srt above by (auto simp: dw du)
  moreover have "f a \<le> f b" if "a \<in> set (take (Suc i) ?w)" "b \<in> set (drop (Suc i) ?w)" for a b
    using that tk top above by (auto simp: dw du)
  ultimately show ?thesis using h by (simp add: sink_inv_def)
qed

lemma sink_all_sorted:
  assumes "by_key f cmp"
  shows "sink_inv f v i \<Longrightarrow> i < length v \<Longrightarrow> sorted (map f (sink_all cmp v i))"
proof (induction i arbitrary: v)
  case 0
  then have "sorted (map f (take 1 v @ drop 1 v))"
    unfolding sink_inv_def map_append sorted_append by (cases v) auto
  then show ?case by simp
next
  case (Suc i)
  have "mset (swap_at v 0 (Suc i)) = mset v" using Suc.prems by (intro mset_swap_at) auto
  then show ?case using sink_step [OF assms Suc.prems(1,2)] Suc.IH Suc.prems(2) by (simp add: sift_down_perm)
qed

lemma San_Sort_sorted:
  assumes "by_key f cmp"
  shows "sorted (map f (San_Sort cmp v))"
proof (cases "length v < 2")
  case True
  then show ?thesis by (cases v; cases "tl v") (auto simp: San_Sort_def)
next
  case False
  let ?h = "heapify cmp v 1 (length v - 1)"
  have len: "length ?h = length v" using heapify_perm [of 1 "length v - 1" v cmp] False by simp
  have "heap_except f v 1 {}" by (simp add: heap_except_def)
  then have "heap_except f ?h (1 + (length v - 1)) {}" using False by (intro heapify_heap [OF assms]) auto
  then have "sink_inv f ?h (length v - 1)" using False len by (simp add: sink_inv_def)
  then show ?thesis using False len sink_all_sorted [OF assms, of ?h "length v - 1"] by (simp add: San_Sort_def)
qed

section \<open>The search finds the first position\<close>

lemma lower_bound_from_spec:
  assumes mono: "\<And>i j. i < j \<Longrightarrow> j < length v \<Longrightarrow> cmp (v ! j) val \<Longrightarrow> cmp (v ! i) val"
  shows "lo \<le> hi \<Longrightarrow> hi \<le> length v \<Longrightarrow> (\<And>k. k < lo \<Longrightarrow> cmp (v ! k) val) \<Longrightarrow>
    (\<And>k. hi \<le> k \<Longrightarrow> k < length v \<Longrightarrow> \<not> cmp (v ! k) val) \<Longrightarrow>
    lower_bound_from cmp v val lo hi \<le> length v \<and>
    (\<forall>k < length v. cmp (v ! k) val \<longleftrightarrow> k < lower_bound_from cmp v val lo hi)"
proof (induction "hi - lo" arbitrary: lo hi rule: less_induct)
  case less
  show ?case
  proof (cases "lo < hi")
    case True
    let ?m = "(lo + hi) div 2"
    have m: "lo \<le> ?m" "?m < hi" using True by auto
    show ?thesis
    proof (cases "cmp (v ! ?m) val")
      case T2: True
      have "cmp (v ! k) val" if "k < ?m + 1" for k
        using that T2 mono [of k ?m] m less.prems(2) by (cases "k = ?m") auto
      then have "lower_bound_from cmp v val (?m + 1) hi \<le> length v \<and>
          (\<forall>k < length v. cmp (v ! k) val \<longleftrightarrow> k < lower_bound_from cmp v val (?m + 1) hi)"
        using less.prems m by (intro less.hyps) auto
      then show ?thesis using True T2 by (subst (1 2) lower_bound_from.simps) (simp add: Let_def)
    next
      case F2: False
      have "\<not> cmp (v ! k) val" if "?m \<le> k" "k < length v" for k
        using that F2 mono [of ?m k] by (cases "k = ?m") auto
      then have "lower_bound_from cmp v val lo ?m \<le> length v \<and>
          (\<forall>k < length v. cmp (v ! k) val \<longleftrightarrow> k < lower_bound_from cmp v val lo ?m)"
        using less.prems m by (intro less.hyps) auto
      then show ?thesis using True F2 by (subst (1 2) lower_bound_from.simps) (simp add: Let_def)
    qed
  next
    case False
    then have "lower_bound_from cmp v val lo hi = lo" "lo = hi" using less.prems(1)
      by (subst lower_bound_from.simps, simp_all)
    moreover have "cmp (v ! k) val \<longleftrightarrow> k < hi" if "k < length v" for k
      using less.prems(3) [of k] less.prems(4) [of k] that \<open>lo = hi\<close> by (cases "k < hi") auto
    ultimately show ?thesis using less.prems(2) by simp
  qed
qed

lemma InternalLowerBound_spec:
  assumes "\<And>i j. i < j \<Longrightarrow> j < length v \<Longrightarrow> cmp (v ! j) val \<Longrightarrow> cmp (v ! i) val"
  shows "InternalLowerBound cmp v val \<le> length v \<and> (\<forall>k < length v. cmp (v ! k) val \<longleftrightarrow> k < InternalLowerBound cmp v val)"
  unfolding InternalLowerBound_def
proof (rule lower_bound_from_spec)
  show "\<And>i j. i < j \<Longrightarrow> j < length v \<Longrightarrow> cmp (v ! j) val \<Longrightarrow> cmp (v ! i) val" by (rule assms)
qed simp_all

section \<open>Duplicates are adjacent and go\<close>

lemma remdups_adj_snoc:
  "xs \<noteq> [] \<Longrightarrow> remdups_adj (xs @ [x]) = remdups_adj xs @ (if last xs = x then [] else [x])"
  by (cases xs rule: rev_cases) (auto simp: remdups_adj_append_two)

lemma last_take: "k < length v \<Longrightarrow> last (map f (take (Suc k) v)) = f (v ! k)"
  by (simp add: take_Suc_conv_app_nth)

lemma dedup_loop_spec:
  assumes key: "by_key f cmp" and srt: "sorted (map f w)"
  shows "i + n = length w \<Longrightarrow> length v = length w \<Longrightarrow> lst < i \<Longrightarrow> drop i v = drop i w \<Longrightarrow>
    map f (take (lst + 1) v) = remdups_adj (map f (take i w)) \<Longrightarrow>
    \<exists>v' lst'. dedup_loop cmp v lst i n = Inr (v', lst') \<and> length v' = length w \<and> lst' < length w \<and>
      map f (take (lst' + 1) v') = remdups_adj (map f w)"
proof (induction n arbitrary: v lst i)
  case (Suc n)
  have i: "i < length w" "i < length v" "lst < length v" using Suc.prems by auto
  have vi: "v ! i = w ! i" using Suc.prems(4) i by (metis hd_drop_conv_nth)
  have ne: "map f (take i w) \<noteq> []" using Suc.prems(3) i by auto
  have "last (map f (take (lst + 1) v)) = last (map f (take i w))"
    using Suc.prems(5) ne by (metis last_remdups_adj)
  then have lastk: "f (v ! lst) = f (w ! (i - 1))"
    using last_take [of lst v f] last_take [of "i - 1" w f] i Suc.prems(3) by simp
  then have le: "f (v ! lst) \<le> f (w ! i)" using srt i Suc.prems(3) by (simp add: sorted_iff_nth_mono)
  have tk: "map f (take (Suc i) w) = map f (take i w) @ [f (w ! i)]" using i by (simp add: take_Suc_conv_app_nth)
  have lw: "last (map f (take i w)) = f (v ! lst)"
    using lastk last_take [of "i - 1" w f] i Suc.prems(3) by simp
  show ?case
  proof (cases "f (v ! lst) < f (w ! i)")
    case True
    let ?v = "if lst + 1 \<noteq> i then v[lst + 1 := v ! i] else v"
    have "?v ! (lst + 1) = w ! i" using vi i Suc.prems(3) by auto
    moreover have "take (lst + 1) ?v = take (lst + 1) v" by simp
    ultimately have t: "take (lst + 2) ?v = take (lst + 1) v @ [w ! i]"
      using i Suc.prems(3) take_Suc_conv_app_nth [of "lst + 1" ?v] by simp
    have "remdups_adj (map f (take (Suc i) w)) = map f (take (lst + 1) v) @ [f (w ! i)]"
      unfolding tk using ne True lw Suc.prems(5) by (subst remdups_adj_snoc) auto
    then have "map f (take (lst + 1 + 1) ?v) = remdups_adj (map f (take (Suc i) w))" using t by simp
    moreover have "drop (Suc i) v = drop (Suc i) w" using Suc.prems(4) by (simp add: drop_Suc tl_drop [symmetric])
    then have "drop (Suc i) ?v = drop (Suc i) w" using Suc.prems(3) by simp
    moreover have "length ?v = length w" using Suc.prems(2) by simp
    ultimately have "\<exists>v' lst'. dedup_loop cmp ?v (lst + 1) (Suc i) n = Inr (v', lst') \<and> length v' = length w \<and>
        lst' < length w \<and> map f (take (lst' + 1) v') = remdups_adj (map f w)"
      using Suc.prems by (intro Suc.IH) auto
    moreover have "cmp (v ! lst) (v ! i)" using key True vi by (simp add: by_key_def)
    then have "dedup_loop cmp v lst i (Suc n) = dedup_loop cmp ?v (lst + 1) (Suc i) n" by (simp add: Let_def)
    ultimately show ?thesis by (simp only:)
  next
    case False
    have "remdups_adj (map f (take (Suc i) w)) = remdups_adj (map f (take i w))"
      unfolding tk using ne False le lw by (subst remdups_adj_snoc) auto
    moreover have "drop (Suc i) v = drop (Suc i) w" using Suc.prems(4) by (simp add: drop_Suc tl_drop [symmetric])
    ultimately have "\<exists>v' lst'. dedup_loop cmp v lst (Suc i) n = Inr (v', lst') \<and> length v' = length w \<and>
        lst' < length w \<and> map f (take (lst' + 1) v') = remdups_adj (map f w)"
      using Suc.prems by (intro Suc.IH) auto
    moreover have "\<not> cmp (v ! lst) (v ! i)" "\<not> cmp (v ! i) (v ! lst)" using key False le vi by (simp_all add: by_key_def not_less)
    ultimately show ?thesis by simp
  qed
qed auto

lemma SortAndDedup_spec:
  assumes "by_key f cmp"
  shows "\<exists>w. SortAndDedup cmp v = Inr w \<and> map f w = remdups_adj (map f (San_Sort cmp v))"
proof (cases "length v < 2")
  case True
  then show ?thesis by (cases v; cases "tl v") (auto simp: SortAndDedup_def San_Sort_def)
next
  case False
  let ?w = "San_Sort cmp v"
  have len: "length ?w = length v" by (metis San_Sort_perm size_mset)
  have "map f (take (0 + 1) ?w) = remdups_adj (map f (take 1 ?w))" using len False by (cases ?w) auto
  moreover have "1 + (length v - 1) = length v" using False by simp
  ultimately obtain v' lst' where "dedup_loop cmp ?w 0 1 (length v - 1) = Inr (v', lst')" "length v' = length v" "lst' < length v"
      "map f (take (lst' + 1) v') = remdups_adj (map f ?w)"
    using dedup_loop_spec [OF assms San_Sort_sorted [OF assms], of 1 "length v - 1" v ?w 0] len by auto
  then show ?thesis using False len by (simp add: SortAndDedup_def Let_def)
qed

section \<open>The vector stays within its mapping\<close>

definition vec_ok :: "uptr \<Rightarrow> 'a mmap_vector \<Rightarrow> bool" where
  "vec_ok elem_size v \<longleftrightarrow> length (vdata v) \<le> unat (capacity elem_size v)"

lemma vec_ok_size: "vec_ok es v \<Longrightarrow> unat (vec_size v) = length (vdata v)"
proof -
  assume "vec_ok es v"
  then have "length (vdata v) < 18446744073709551616" using unat_less_64 [of "capacity es v"]
    unfolding vec_ok_def by (rule le_less_trans)
  then show ?thesis by (simp add: vec_size_def unat_of_nat_small)
qed

lemma round_up_ge:
  assumes "k < 64" "unat s + (2 ^ k - 1) < 2 ^ 64"
  shows "unat s \<le> unat (round_up s (2 ^ k))"
proof -
  let ?x = "unat s + (2 ^ k - 1)"
  have "?x mod 2 ^ k < 2 ^ k" by simp
  moreover have "?x = ?x div 2 ^ k * 2 ^ k + ?x mod 2 ^ k" by (rule div_mult_mod_eq [symmetric])
  ultimately show ?thesis unfolding unat_round_up [OF assms] by linarith
qed

lemma vec_Realloc_ok:
  assumes "vec_ok es v" "vec_Realloc G es n v s = Inr (v', s')" "unat n * unat es + unat (page_size G) < 2 ^ 64"
    "0 < es" "page_size G = 2 ^ k" "k < 64"
  shows "vdata v' = vdata v" "unat n \<le> unat (capacity es v')" "vec_ok es v'"
proof -
  let ?b = "round_up (n * es) (2 ^ k)"
  from assms(2) obtain new_data where v': "v' = v\<lparr>vec_addr := new_data, capacity_bytes := ?b\<rparr>" and le: "vec_size v \<le> n"
    by (auto simp: vec_Realloc_def assms(5,6) andThen_eq_Inr split: prod.splits)
  have u: "unat (n * es) = unat n * unat es" using assms(3) by (intro unat_mult_small) simp
  have "unat (2 ^ k :: uptr) = 2 ^ k" using assms(6) by (intro unat_pow2) simp
  then have "unat (n * es) \<le> unat ?b"
    using assms(3,5,6) u round_up_ge [of k "n * es"] by simp
  then have "unat n \<le> unat ?b div unat es" using assms(4) u
    by (simp add: less_eq_div_iff_mult_less_eq word_less_nat_alt)
  then show cap: "unat n \<le> unat (capacity es v')" by (simp add: v' capacity_def unat_div_distrib)
  show "vdata v' = vdata v" by (simp add: v')
  have "length (vdata v) \<le> unat n" using le vec_ok_size [OF assms(1)] by (simp add: word_le_nat_alt)
  with cap show "vec_ok es v'" by (simp add: vec_ok_def v' capacity_def)
qed

lemma RoundUpToPowerOfTwo_bounds:
  assumes "RoundUpToPowerOfTwo n = Inr m"
  shows "unat n \<le> unat m" "unat m \<le> 2 * unat n"
proof -
  have "push_bit (Suc u) 1 = 2 * (push_bit u 1 :: uptr)" for u by (simp add: push_bit_eq_mult)
  then have dbl: "unat (push_bit (Suc u) 1 :: uptr) \<le> 2 * unat (push_bit u 1 :: uptr)" for u
    by (simp add: unat_word_ariths)
  show "unat n \<le> unat m" using assms
    by (auto simp: RoundUpToPowerOfTwo_def andThen_eq_Inr word_less_nat_alt split: if_splits)
  from assms consider "m = n" | u where "m = push_bit (Suc u) 1" "push_bit u 1 < n"
    by (auto simp: RoundUpToPowerOfTwo_def andThen_eq_Inr split: if_splits)
  then show "unat m \<le> 2 * unat n"
  proof cases
    case 2
    then show ?thesis using dbl [of u] by (simp add: word_less_nat_alt)
  qed simp
qed

lemma vec_push_back_ok:
  assumes ok: "vec_ok es v" and ret: "vec_push_back G es x v s = Inr (v', s')"
    and room: "2 * (length (vdata v) + 1) * unat es + unat (page_size G) < 2 ^ 64"
    and page: "0 < es" "page_size G = 2 ^ k" "k < 64"
  shows "vdata v' = vdata v @ [x]" "vec_ok es v'"
proof -
  have len: "unat (vec_size v) = length (vdata v)" by (rule vec_ok_size [OF ok])
  have "1 \<le> unat es" using page(1) by (simp add: word_less_nat_alt)
  then have "2 * (length (vdata v) + 1) * 1 \<le> 2 * (length (vdata v) + 1) * unat es" by (rule mult_le_mono2)
  then have "length (vdata v) + 1 \<le> 2 * (length (vdata v) + 1) * unat es" by (rule order_trans [rotated]) simp
  then have "length (vdata v) + 1 < 2 ^ 64" by (rule le_less_trans) (rule le_less_trans [OF le_add1 room])
  then have s1: "unat (vec_size v + 1) = length (vdata v) + 1" using len by (subst unat_add_small) simp_all
  from ret have "vdata v' = vdata v @ [x] \<and> vec_ok es v'"
  proof (cases "vec_size v = capacity es v")
    case False
    then have "vec_size v < capacity es v" "v' = v\<lparr>vdata := vdata v @ [x]\<rparr>"
      using ret by (auto simp: vec_push_back_def andThen_eq_Inr)
    then show ?thesis using len by (simp add: vec_ok_def word_less_nat_alt capacity_def)
  next
    case True
    with ret obtain m w where m: "RoundUpToPowerOfTwo (vec_size v + 1) = Inr m"
      and w: "vec_Realloc G es m v s = Inr (w, s')" "v' = w\<lparr>vdata := vdata w @ [x]\<rparr>"
      by (auto simp: vec_push_back_def andThen_eq_Inr)
    note b = RoundUpToPowerOfTwo_bounds [OF m, unfolded s1]
    have "unat m * unat es \<le> 2 * (length (vdata v) + 1) * unat es" using b(2) by (rule mult_le_mono1)
    then have "unat m * unat es + unat (page_size G) < 2 ^ 64" using room by (rule le_less_trans [OF add_le_mono1])
    from vec_Realloc_ok [OF ok w(1) this page] show ?thesis using b(1) w(2) by (simp add: vec_ok_def capacity_def)
  qed
  then show "vdata v' = vdata v @ [x]" "vec_ok es v'" by auto
qed

lemma vec_resize_ok:
  assumes ok: "vec_ok es v" and ret: "vec_resize G es zero n v s = Inr (v', s')"
    and room: "unat n * unat es + unat (page_size G) < 2 ^ 64"
    and page: "0 < es" "page_size G = 2 ^ k" "k < 64"
  shows "vdata v' = take (unat n) (vdata v @ replicate (unat n - length (vdata v)) zero)" "vec_ok es v'"
proof -
  have len: "unat (vec_size v) = length (vdata v)" by (rule vec_ok_size [OF ok])
  have "vdata v' = take (unat n) (vdata v @ replicate (unat n - length (vdata v)) zero) \<and> vec_ok es v'"
  proof (cases "vec_size v < n")
    case False
    then have "unat n \<le> length (vdata v)" using len by (simp add: word_less_nat_alt)
    then show ?thesis using ret False ok by (auto simp: vec_resize_def vec_ok_def capacity_def)
  next
    case True
    then have lt: "length (vdata v) < unat n" using len by (simp add: word_less_nat_alt)
    from ret True obtain w where w: "vec_reserve G es n v s = Inr (w, s')"
        "v' = w\<lparr>vdata := take (unat n) (vdata w @ replicate (unat n - length (vdata w)) zero)\<rparr>"
      by (auto simp: vec_resize_def andThen_eq_Inr)
    have "vdata w = vdata v \<and> unat n \<le> unat (capacity es w)"
    proof (cases "capacity es v < n")
      case True
      with w(1) have "vec_Realloc G es n v s = Inr (w, s')" by (simp add: vec_reserve_def)
      from vec_Realloc_ok [OF ok this room page] show ?thesis by simp
    next
      case False
      then show ?thesis using w(1) by (simp add: vec_reserve_def word_less_nat_alt)
    qed
    then show ?thesis using w(2) lt by (simp add: vec_ok_def capacity_def)
  qed
  then show "vdata v' = take (unat n) (vdata v @ replicate (unat n - length (vdata v)) zero)" "vec_ok es v'" by auto
qed

end
