(* ===== verification/Hwasan_Thread.thy ===== *)
theory Hwasan_Thread
  imports Persistent
begin

text \<open>
  The thread object of HWASan (\<open>hwasan_thread.cpp\<close>, \<open>hwasan_thread.h\<close>): its stack bounds, the
  switch that disables tagging, and the generator of random tags. \<open>random_tags\<close> is the flag of
  that name. The seed is an input: \<open>seeds\<close> are the words \<open>RandomSeed\<close> draws, one a round. The
  tag loop has fuel; the lemmas show that the generator state never becomes zero, that ten
  rounds are always enough and that the tag of an enabled thread is not zero.
\<close>

record Thread =
  stack_top :: uptr
  stack_bottom :: uptr
  random_state :: u32
  random_buffer :: u32
  unique_id :: u64
  tagging_disabled :: u32
  announced :: bool
  random_state_inited :: bool

definition stack_size_of :: "Thread \<Rightarrow> uptr" where
  "stack_size_of t = stack_top t - stack_bottom t"

definition IsMainThread :: "Thread \<Rightarrow> bool" where
  "IsMainThread t \<longleftrightarrow> unique_id t = 0"

definition AddrIsInStack :: "Thread \<Rightarrow> uptr \<Rightarrow> bool" where
  "AddrIsInStack t addr \<longleftrightarrow> stack_bottom t \<le> addr \<and> addr < stack_top t"

definition DisableTagging :: "Thread \<Rightarrow> Thread" where
  "DisableTagging t = t\<lparr>tagging_disabled := tagging_disabled t + 1\<rparr>"

definition EnableTagging :: "Thread \<Rightarrow> Thread" where
  "EnableTagging t = t\<lparr>tagging_disabled := tagging_disabled t - 1\<rparr>"

text \<open>Announcing prints once: the flag says whether the line was printed by this call.\<close>

definition Announce :: "Thread \<Rightarrow> bool \<times> Thread" where
  "Announce t = (if announced t then (False, t) else (True, t\<lparr>announced := True\<rparr>))"

text \<open>The loop draws a seed until it is not zero.\<close>

fun RandomSeed :: "u32 list \<Rightarrow> u32 res" where
  "RandomSeed [] = Inl Out_of_fuel"
| "RandomSeed (seed # seeds) = (if seed = 0 then RandomSeed seeds else Inr seed)"

definition thread_xorshift :: "u32 \<Rightarrow> u32" where
  "thread_xorshift state =
     (let state = state XOR push_bit 13 state;
          state = state XOR drop_bit 17 state;
          state = state XOR push_bit 5 state
      in state)"

text \<open>
  The state \<open>InitRandomState\<close> sets; it then draws one tag to shift the stack history, which
  \<open>InitRandomState\<close> below does.
\<close>

definition seed_state :: "bool \<Rightarrow> u32 list \<Rightarrow> Thread \<Rightarrow> Thread res" where
  "seed_state random_tags seeds t =
     andThen (if random_tags then RandomSeed seeds else Inr (ucast (unique_id t))) (\<lambda>s.
     Inr (t\<lparr>random_state := s, random_state_inited := True\<rparr>))"

text \<open>The tag loop on a thread whose state is set; \<open>mask\<close> and \<open>num_bits\<close> select the tag.\<close>

fun draw_tag :: "nat \<Rightarrow> bool \<Rightarrow> nat \<Rightarrow> Thread \<Rightarrow> (u8 \<times> Thread) res" where
  "draw_tag 0 random_tags num_bits t = Inl Out_of_fuel"
| "draw_tag (Suc n) random_tags num_bits t =
     andThen
       (if random_tags then
          let t = (if random_buffer t = 0 then
                     let x = thread_xorshift (random_state t) in t\<lparr>random_state := x, random_buffer := x\<rparr>
                   else t)
          in andThen (check (random_buffer t \<noteq> 0)) (\<lambda>_.
             Inr (ucast (ucast (random_buffer t) AND (push_bit num_bits 1 - 1 :: uptr)) :: u8,
                  t\<lparr>random_buffer := drop_bit num_bits (random_buffer t)\<rparr>))
        else
          let t = t\<lparr>random_state := random_state t + 1\<rparr>
          in Inr (ucast (ucast (random_state t) AND (push_bit num_bits 1 - 1 :: uptr)), t))
       (\<lambda>(tag, t). if tag \<noteq> 0 then Inr (tag, t) else draw_tag n random_tags num_bits t)"

text \<open>
  \<open>InitRandomState\<close> with the tag it draws: the number of zeros it pushes onto the stack history.
\<close>

definition InitRandomState :: "nat \<Rightarrow> bool \<Rightarrow> u32 list \<Rightarrow> Thread \<Rightarrow> (nat \<times> Thread) res" where
  "InitRandomState fuel random_tags seeds t =
     andThen (seed_state random_tags seeds t) (\<lambda>t.
     if tagging_disabled t \<noteq> 0 then Inr (0, t)
     else andThen (draw_tag fuel random_tags 8 t) (\<lambda>(e, t). Inr (unat e, t)))"

definition EnsureRandomStateInited :: "nat \<Rightarrow> bool \<Rightarrow> u32 list \<Rightarrow> Thread \<Rightarrow> Thread res" where
  "EnsureRandomStateInited fuel random_tags seeds t =
     (if random_state_inited t then Inr t
      else andThen (InitRandomState fuel random_tags seeds t) (\<lambda>(_, t). Inr t))"

text \<open>
  \<open>GenerateRandomTag\<close>. The state is set when the loop first needs it: before the first round
  when the buffer is empty or tags are not random. (A buffer is filled only after the state was
  set, so a later round finds it set.) The first fill overwrites what setting the state left in
  the buffer.
\<close>

definition GenerateRandomTag :: "nat \<Rightarrow> bool \<Rightarrow> u32 list \<Rightarrow> nat \<Rightarrow> Thread \<Rightarrow> (u8 \<times> Thread) res" where
  "GenerateRandomTag fuel random_tags seeds num_bits t =
     (if tagging_disabled t \<noteq> 0 then Inr (0, t)
      else
        andThen (if \<not> random_tags then EnsureRandomStateInited fuel random_tags seeds t
                 else if random_buffer t = 0 then
                   andThen (EnsureRandomStateInited fuel random_tags seeds t) (\<lambda>t.
                   let x = thread_xorshift (random_state t) in Inr (t\<lparr>random_state := x, random_buffer := x\<rparr>))
                 else Inr t) (\<lambda>t.
        draw_tag fuel random_tags num_bits t))"

text \<open>\<open>__hwasan_generate_tag\<close>: a fallback when there is no thread object.\<close>

definition kFallbackTag :: u8 where "kFallbackTag = ucast (0xBB AND kTagMask)"

definition hwasan_generate_tag :: "nat \<Rightarrow> bool \<Rightarrow> u32 list \<Rightarrow> Thread option \<Rightarrow> (u8 \<times> Thread option) res" where
  "hwasan_generate_tag fuel random_tags seeds t =
     (case t of None \<Rightarrow> Inr (kFallbackTag, None)
      | Some t \<Rightarrow> andThen (GenerateRandomTag fuel random_tags seeds kTagBits t) (\<lambda>(tag, t). Inr (tag, Some t)))"

section \<open>The generator never stops and never returns zero\<close>

lemma xor_push_0: "0 < k \<Longrightarrow> x XOR push_bit k x = 0 \<Longrightarrow> x = 0" for x :: "'n::len word"
proof -
  assume k: "0 < k" and z: "x XOR push_bit k x = 0"
  have "\<not> bit x n" for n
  proof (induction n rule: less_induct)
    case (less n)
    have "\<not> bit (x XOR push_bit k x) n" by (simp add: z)
    then have "bit x n \<longleftrightarrow> k \<le> n \<and> n < LENGTH('n) \<and> bit x (n - k)" by (auto simp: bit_simps dest: bit_imp_le_length)
    then show ?case using less k by (cases "k \<le> n") auto
  qed
  then show ?thesis by (intro bit_word_eqI) simp
qed

lemma xor_drop_0: "0 < k \<Longrightarrow> x XOR drop_bit k x = 0 \<Longrightarrow> x = 0" for x :: "'n::len word"
proof -
  assume k: "0 < k" and z: "x XOR drop_bit k x = 0"
  have "\<not> bit x i" for i
  proof (induction "LENGTH('n) - i" arbitrary: i rule: less_induct)
    case less
    have "\<not> bit (x XOR drop_bit k x) i" by (simp add: z)
    then have b: "bit x i \<longleftrightarrow> bit x (i + k)" by (simp add: bit_simps add.commute)
    show ?case
    proof (cases "i < LENGTH('n)")
      case True
      then have "LENGTH('n) - (i + k) < LENGTH('n) - i" using k by simp
      then show ?thesis using less b by blast
    qed (auto dest: bit_imp_le_length)
  qed
  then show ?thesis by (intro bit_word_eqI) simp
qed

lemma thread_xorshift_nonzero: "x \<noteq> 0 \<Longrightarrow> thread_xorshift x \<noteq> 0"
  using xor_push_0 [of 13 x] xor_drop_0 [of 17 "x XOR push_bit 13 x"]
    xor_push_0 [of 5 "(x XOR push_bit 13 x) XOR drop_bit 17 (x XOR push_bit 13 x)"]
  by (auto simp: thread_xorshift_def Let_def)

text \<open>A byte of a word that is not zero is found by shifting it out byte by byte.\<close>

lemma tag_of_buffer: "ucast (ucast (b :: u32) AND (255 :: uptr)) = (ucast b :: u8)"
proof -
  have m: "(255 :: uptr) = mask 8" by (simp add: mask_eq_decr_exp)
  show ?thesis unfolding m by (rule bit_word_eqI) (simp add: bit_simps)
qed

lemma byte_zero_shift: "ucast (b :: u32) = (0 :: u8) \<Longrightarrow> b \<noteq> 0 \<Longrightarrow> drop_bit 8 b \<noteq> 0"
proof
  assume z: "ucast b = (0 :: u8)" and nz: "b \<noteq> 0" and d: "drop_bit 8 b = 0"
  have "\<not> bit b n" for n
  proof (cases "n < 8")
    case True
    then have "bit (ucast b :: u8) n = bit b n" by (simp add: bit_simps)
    then show ?thesis by (simp add: z)
  next
    case False
    then have "bit (drop_bit 8 b) (n - 8) = bit b n" by (simp add: bit_simps)
    then show ?thesis by (simp add: d)
  qed
  then have "b = 0" by (intro bit_word_eqI) simp
  with nz show False by simp
qed

lemma draw_tag_step:
  "draw_tag (Suc n) True 8 t =
     (let t = (if random_buffer t = 0
               then t\<lparr>random_state := thread_xorshift (random_state t), random_buffer := thread_xorshift (random_state t)\<rparr>
               else t)
      in if random_buffer t = 0 then Inl Check_failed
         else if ucast (random_buffer t) \<noteq> (0 :: u8)
              then Inr (ucast (random_buffer t), t\<lparr>random_buffer := drop_bit 8 (random_buffer t)\<rparr>)
              else draw_tag n True 8 (t\<lparr>random_buffer := drop_bit 8 (random_buffer t)\<rparr>))"
  by (simp add: Let_def tag_of_buffer andThen_check)

lemma draw_from_buffer:
  "random_buffer t \<noteq> 0 \<Longrightarrow> \<exists>tag t'. draw_tag (Suc k) True 8 t = Inr (tag, t') \<and> tag \<noteq> 0 \<and> random_state t' = random_state t"
  if "unat (random_buffer t) < 2 ^ (8 * Suc k)" for t :: Thread
  using that
proof (induction k arbitrary: t)
  case 0
  then have "unat (random_buffer t) < 256" by simp
  then have "unat (ucast (random_buffer t) :: u8) = unat (random_buffer t)"
    by (simp add: unsigned_ucast_eq take_bit_nat_eq_self)
  then have "ucast (random_buffer t) \<noteq> (0 :: u8)" using 0 by (metis unsigned_0 word_unat_eq_iff)
  then show ?case using 0 by (simp add: draw_tag_step Let_def del: draw_tag.simps)
next
  case (Suc k)
  show ?case
  proof (cases "ucast (random_buffer t) = (0 :: u8)")
    case True
    let ?t = "t\<lparr>random_buffer := drop_bit 8 (random_buffer t)\<rparr>"
    have "random_buffer ?t \<noteq> 0" using byte_zero_shift [OF True Suc.prems(1)] by simp
    moreover have "unat (random_buffer ?t) < 2 ^ (8 * Suc k)"
    proof -
      have "unat (random_buffer t) < 2 ^ (8 * Suc k) * 2 ^ 8" using Suc.prems(2) by (simp add: power_add mult.commute)
      then show ?thesis by (simp add: unat_drop_bit div_less_iff_less_mult)
    qed
    ultimately obtain tag t' where "draw_tag (Suc k) True 8 ?t = Inr (tag, t') \<and> tag \<noteq> 0 \<and> random_state t' = random_state ?t"
      using Suc.IH by blast
    then show ?thesis using True Suc.prems(1) by (simp add: draw_tag_step [of "Suc k"] Let_def del: draw_tag.simps)
  next
    case False
    then show ?thesis using Suc.prems(1) by (simp add: draw_tag_step [of "Suc k"] Let_def del: draw_tag.simps)
  qed
qed

lemma draw_tag_mono: "draw_tag n rt b t = Inr r \<Longrightarrow> n \<le> m \<Longrightarrow> draw_tag m rt b t = Inr r"
proof (induction n arbitrary: t m)
  case (Suc n)
  then obtain k where m: "m = Suc k" "n \<le> k" by (cases m) auto
  show ?case using Suc.prems(1) Suc.IH m
    by (auto simp: andThen_eq_Inr Let_def split: if_splits)
qed simp

lemma draw_random_total:
  assumes "4 \<le> fuel" "random_buffer t \<noteq> 0 \<or> random_state t \<noteq> 0"
  shows "\<exists>tag t'. draw_tag fuel True 8 t = Inr (tag, t') \<and> tag \<noteq> 0 \<and> (random_state t \<noteq> 0 \<longrightarrow> random_state t' \<noteq> 0)"
proof -
  let ?t = "if random_buffer t = 0
    then t\<lparr>random_state := thread_xorshift (random_state t), random_buffer := thread_xorshift (random_state t)\<rparr> else t"
  have nz: "random_buffer ?t \<noteq> 0" "random_state t \<noteq> 0 \<longrightarrow> random_state ?t \<noteq> 0"
    using assms(2) thread_xorshift_nonzero by auto
  have "unat (random_buffer ?t) < 2 ^ (8 * Suc 3)" using unat_less_32 [of "random_buffer ?t"] by simp
  from draw_from_buffer [OF this nz(1)] obtain tag t' where
    d: "draw_tag (Suc 3) True 8 ?t = Inr (tag, t')" "tag \<noteq> 0" "random_state t' = random_state ?t" by blast
  have "draw_tag (Suc 3) True 8 t = draw_tag (Suc 3) True 8 ?t"
    by (simp only: draw_tag_step) (use nz(1) in \<open>simp add: Let_def\<close>)
  with d have "draw_tag (Suc 3) True 8 t = Inr (tag, t')" by (simp only:)
  then have "draw_tag fuel True 8 t = Inr (tag, t')" by (rule draw_tag_mono) (use assms(1) in simp)
  then show ?thesis using d nz(2) by auto
qed

lemma byte_of_succ: "(ucast (x + 1 :: u32) :: u8) = ucast x + 1"
proof -
  have b: "unat (ucast y :: u8) = unat y mod 256" for y :: u32
    by (simp add: unsigned_ucast_eq take_bit_eq_mod)
  have "unat (x + 1) mod 256 = (unat x + 1) mod 256"
    by (simp add: unat_word_ariths mod_mod_cancel)
  also have "\<dots> = (unat x mod 256 + 1) mod 256" by (simp add: mod_Suc_eq)
  finally have "unat (ucast (x + 1) :: u8) = unat (ucast x + 1 :: u8)"
    by (simp add: b unat_word_ariths)
  then show ?thesis by (simp only: word_unat_eq_iff)
qed

lemma draw_counter_total:
  assumes "2 \<le> fuel"
  shows "\<exists>tag t'. draw_tag fuel False 8 t = Inr (tag, t') \<and> tag \<noteq> 0"
proof -
  have "(ucast (random_state t + 1) :: u8) \<noteq> 0 \<or> (ucast (random_state t + 1 + 1) :: u8) \<noteq> 0"
    unfolding byte_of_succ [of "random_state t + 1"] by auto
  then have "\<exists>tag t'. draw_tag (Suc (Suc 0)) False 8 t = Inr (tag, t') \<and> tag \<noteq> 0"
    by (auto simp: Let_def tag_of_buffer)
  then show ?thesis using assms by (metis draw_tag_mono numeral_2_eq_2)
qed

lemma RandomSeed_total: "\<exists>x \<in> set seeds. x \<noteq> 0 \<Longrightarrow> \<exists>x. RandomSeed seeds = Inr x \<and> x \<noteq> 0"
  by (induction seeds) auto

lemma Ensure_total:
  assumes "4 \<le> fuel" "\<exists>x \<in> set seeds. x \<noteq> 0" "random_state_inited t \<longrightarrow> random_state t \<noteq> 0" "tagging_disabled t = 0"
  shows "\<exists>t'. EnsureRandomStateInited fuel True seeds t = Inr t' \<and> random_state t' \<noteq> 0"
proof (cases "random_state_inited t")
  case False
  obtain x where x: "RandomSeed seeds = Inr x" "x \<noteq> 0" using RandomSeed_total [OF assms(2)] by blast
  let ?t = "t\<lparr>random_state := x, random_state_inited := True\<rparr>"
  from draw_random_total [OF assms(1), of ?t] x(2) obtain e t' where
    "draw_tag fuel True 8 ?t = Inr (e, t')" "random_state t' \<noteq> 0" by auto
  then show ?thesis using False x assms(4)
    by (simp add: EnsureRandomStateInited_def InitRandomState_def seed_state_def)
qed (use assms(3) in \<open>simp add: EnsureRandomStateInited_def\<close>)

lemma Ensure_counter_total:
  "2 \<le> fuel \<Longrightarrow> \<exists>t'. EnsureRandomStateInited fuel False seeds t = Inr t'"
  using draw_counter_total [of fuel "t\<lparr>random_state := ucast (unique_id t), random_state_inited := True\<rparr>"]
  by (auto simp: EnsureRandomStateInited_def InitRandomState_def seed_state_def)

lemma GenerateRandomTag_total:
  assumes "4 \<le> fuel" "\<exists>x \<in> set seeds. x \<noteq> 0" "random_state_inited t \<longrightarrow> random_state t \<noteq> 0" "tagging_disabled t = 0"
  shows "\<exists>tag t'. GenerateRandomTag fuel random_tags seeds kTagBits t = Inr (tag, t') \<and> tag \<noteq> 0"
proof (cases random_tags)
  case False
  obtain t' where t': "EnsureRandomStateInited fuel False seeds t = Inr t'"
    using Ensure_counter_total [of fuel seeds t] assms(1) by auto
  then show ?thesis using draw_counter_total [of fuel t'] assms(1,4) False
    by (simp add: GenerateRandomTag_def kTagBits_def)
next
  case True
  show ?thesis
  proof (cases "random_buffer t = 0")
    case b: True
    obtain t' where t': "EnsureRandomStateInited fuel True seeds t = Inr t'" "random_state t' \<noteq> 0"
      using Ensure_total [OF assms] by blast
    let ?x = "thread_xorshift (random_state t')"
    have "?x \<noteq> 0" by (rule thread_xorshift_nonzero [OF t'(2)])
    then show ?thesis using True b t' assms(4) draw_random_total [OF assms(1), of "t'\<lparr>random_state := ?x, random_buffer := ?x\<rparr>"]
      by (auto simp: GenerateRandomTag_def kTagBits_def Let_def)
  next
    case False
    then show ?thesis using True assms(4) draw_random_total [OF assms(1), of t]
      by (auto simp: GenerateRandomTag_def kTagBits_def)
  qed
qed

end
