(* ===== verification/San_Guarantees.thy ===== *)
theory San_Guarantees
  imports San_Containers San_Strings Shadow_Map Hwasan_Thread Heap_Run
begin

text \<open>
  Guarantees of the runtime library ClusterTag is built on: memory and string functions, sorting and
  searching, the vector, the hooks, the shadow and the random tags, each with a concrete instance.
\<close>

text \<open>Memory that holds the bytes \<open>xs\<close> from \<open>p\<close> on and is 0 elsewhere.\<close>

definition bytes_at :: "uptr \<Rightarrow> u8 list \<Rightarrow> memory" where
  "bytes_at p xs = (\<lambda>q. if unat (q - p) < length xs then xs ! unat (q - p) else 0)"

lemma cstr_bytes_at:
  assumes "0 \<notin> set xs" "length xs < 2 ^ 64"
  shows "cstr (bytes_at p xs) p xs"
proof (rule cstrI [OF assms(1)])
  fix i assume "i \<le> length xs"
  then have "unat (of_nat i :: uptr) = i" using assms(2) by (simp add: unat_of_nat_small)
  then show "bytes_at p xs (p + of_nat i) = (xs @ [0]) ! i" using \<open>i \<le> length xs\<close>
    by (auto simp: bytes_at_def nth_append)
qed

section \<open>Memory\<close>

text \<open>
  \<open>internal_memmove\<close> copies as if through a temporary buffer, also when source and destination
  overlap, and writes nothing outside the destination.
\<close>

theorem memmove_copies:
  assumes "unat d + unat n \<le> 2 ^ 64" "unat s + unat n \<le> 2 ^ 64" "unat n < 2 ^ 63"
  shows "internal_memmove d s n m = Inr (\<lambda>q. if q - d < n then m (s + (q - d)) else m q)"
  by (rule memmove_spec [OF assms])

theorem memmove_copies_witness:
  "\<exists>m'. internal_memmove 101 100 3 (bytes_at 100 [1, 2, 3]) = Inr m' \<and> map m' [100, 101, 102, 103] = [1, 1, 2, 3]"
proof -
  have "unat (101 :: uptr) + unat (3 :: uptr) \<le> 2 ^ 64" "unat (100 :: uptr) + unat (3 :: uptr) \<le> 2 ^ 64"
    "unat (3 :: uptr) < 2 ^ 63" by simp_all
  from memmove_copies [OF this, of "bytes_at 100 [1, 2, 3]"] show ?thesis
    by (simp add: bytes_at_def)
qed

text \<open>
  The two paths of \<open>internal_memset\<close> agree: for a byte the word-wise path on aligned blocks
  writes what the byte-wise loop writes.
\<close>

theorem memset_fills:
  assumes "unat s + unat n < 2 ^ 64"
  shows "internal_memset s (ucast (b :: u8)) n m = fill_bytes s b (unat n) m"
proof -
  have "fill_bytes s b (unat n) m = (\<lambda>q. if q - s < n then b else m q)"
    by (rule ext, subst fill_bytes_spec) simp_all
  then show ?thesis by (simp add: memset_spec [OF assms])
qed

theorem memset_fills_witness:
  "internal_memset 0x1000 (ucast (0x5a :: u8)) 32 (\<lambda>_. 0) 0x101f = 0x5a"
proof -
  have "unat (0x1000 :: uptr) + unat (32 :: uptr) < 2 ^ 64" by simp
  note memset_fills [OF this, of "0x5a" "\<lambda>_. 0"]
  moreover have "fill_bytes 0x1000 0x5a (unat (32 :: uptr)) (\<lambda>_. 0) 0x101f = 0x5a" by (subst fill_bytes_spec) simp_all
  ultimately show ?thesis by simp
qed

text \<open>
  For an argument that is not a byte the two paths differ: the byte-wise loop converts the
  argument to a character, the word-wise path spreads all its bits, so the result depends on the
  alignment of the block.
\<close>

theorem memset_wide_argument:
  "internal_memset 0x1000 300 15 (\<lambda>_. 0) 0x1001 = ucast (300 :: s32) \<and>
   internal_memset 0x1000 300 16 (\<lambda>_. 0) 0x1001 \<noteq> ucast (300 :: s32)"
  by code_simp

text \<open>
  \<open>mem_is_zero\<close>, which tests a range by bytes up to a word boundary, by words and by bytes
  again, returns whether every byte of the range is 0.
\<close>

theorem mem_is_zero_exact:
  assumes "unat beg + unat sz + 8 \<le> 2 ^ 64" "unat sz \<le> 2 ^ 40"
  shows "mem_is_zero m beg sz = Inr (\<forall>q. unat beg \<le> unat q \<and> unat q < unat beg + unat sz \<longrightarrow> m q = 0)"
proof -
  have "zero_between m (unat beg) (unat beg + unat sz) \<longleftrightarrow> (\<forall>q. unat beg \<le> unat q \<and> unat q < unat beg + unat sz \<longrightarrow> m q = 0)"
    by (simp add: zero_between_def)
  then show ?thesis by (simp add: mem_is_zero_spec [OF assms])
qed

theorem mem_is_zero_exact_witness:
  "mem_is_zero (bytes_at 100 [1]) 101 20 = Inr True \<and> mem_is_zero (bytes_at 100 [1]) 99 20 = Inr False"
proof -
  have h: "unat (101 :: uptr) + unat (20 :: uptr) + 8 \<le> 2 ^ 64" "unat (99 :: uptr) + unat (20 :: uptr) + 8 \<le> 2 ^ 64"
    "unat (20 :: uptr) \<le> 2 ^ 40" by simp_all
  have "bytes_at 100 [1] q = 0" if "101 \<le> unat q" for q
  proof -
    have "q \<noteq> 100" using that by auto
    then have "q - 100 \<noteq> 0" by simp
    then show ?thesis by (simp add: bytes_at_def unat_eq_zero)
  qed
  moreover have "\<exists>q. 99 \<le> unat q \<and> unat q < 119 \<and> bytes_at 100 [1] q \<noteq> 0" by (rule exI [of _ 100]) (simp add: bytes_at_def)
  ultimately show ?thesis
    using mem_is_zero_exact [OF h(1,3), of "bytes_at 100 [1]"] mem_is_zero_exact [OF h(2,3), of "bytes_at 100 [1]"] by auto
qed

section \<open>Strings\<close>

text \<open>
  \<open>internal_strlcpy\<close> on a terminated string copies at most \<open>maxlen - 1\<close> characters, terminates
  the destination, returns the length of the source and writes nothing outside the buffer.
\<close>

theorem strlcpy_bounded:
  assumes "cstr m src xs" "length xs < n" "unat src + length xs < 2 ^ 64" "length xs < 2 ^ 62"
    "unat dst + unat maxlen \<le> 2 ^ 64" "maxlen \<noteq> 0" "unat maxlen < 2 ^ 62"
  shows "\<exists>m'. internal_strlcpy n dst src maxlen m = Inr (of_nat (length xs), m') \<and>
    cstr m' dst (take (unat maxlen - 1) xs) \<and> (\<forall>q. \<not> q - dst < maxlen \<longrightarrow> m' q = m q)"
  by (rule strlcpy_spec [OF assms])

lemma abc: "cstr (bytes_at 100 [97, 98, 99]) 100 [97, 98, 99]"
  by (rule cstr_bytes_at) simp_all

theorem strlcpy_bounded_witness:
  "\<exists>m'. internal_strlcpy 4 200 100 3 (bytes_at 100 [97, 98, 99]) = Inr (3, m') \<and> cstr m' 200 [97, 98] \<and> m' 203 = 0"
proof -
  have h: "length [97, 98, 99 :: u8] < 4" "unat (100 :: uptr) + length [97, 98, 99 :: u8] < 2 ^ 64"
    "length [97, 98, 99 :: u8] < 2 ^ 62" "unat (200 :: uptr) + unat (3 :: uptr) \<le> 2 ^ 64" "(3 :: uptr) \<noteq> 0"
    "unat (3 :: uptr) < 2 ^ 62" by simp_all
  from strlcpy_bounded [OF abc h] obtain m' where
    m: "internal_strlcpy 4 200 100 3 (bytes_at 100 [97, 98, 99]) = Inr (3, m')" "cstr m' 200 [97, 98]"
      "\<forall>q. \<not> q - 200 < 3 \<longrightarrow> m' q = bytes_at 100 [97, 98, 99] q" by auto
  moreover have "m' 203 = 0" using m(3) by (simp add: bytes_at_def)
  ultimately show ?thesis by blast
qed

text \<open>
  \<open>internal_strstr\<close> finds the first occurrence of the needle, and 0 when there is none.
\<close>

theorem strstr_finds_first:
  assumes "cstr m h xs" "cstr m nd ys" "length xs < n" "length ys < n" "length xs < 2 ^ 64" "length ys < 2 ^ 64"
  shows "internal_strstr n m h nd = Inr (if length xs < length ys then 0
    else case find (occurs_at ys xs) [0..<Suc (length xs - length ys)] of None \<Rightarrow> 0 | Some k \<Rightarrow> h + of_nat k)"
  by (rule strstr_spec [OF assms])

theorem strstr_finds_first_witness:
  "internal_strstr 4 (bytes_at 100 [97, 98, 99]) 100 101 = Inr 101"
proof -
  have h: "cstr (bytes_at 100 [97, 98, 99]) 101 [98, 99]" "length [97, 98, 99 :: u8] < 4" "length [98, 99 :: u8] < 4"
    "length [97, 98, 99 :: u8] < 2 ^ 64" "length [98, 99 :: u8] < 2 ^ 64" by (simp_all add: bytes_at_def)
  have "find (occurs_at [98, 99 :: u8] [97, 98, 99]) [0, 1] = Some 1" by (simp add: occurs_at_def)
  then show ?thesis using strstr_finds_first [OF abc h] by (simp add: upt_rec)
qed

text \<open>
  \<open>internal_simple_strtoll\<close> reads spaces, a sign and decimal digits: its value is the number
  written, clamped to the range of a 64-bit integer, and it stops behind the last digit.
\<close>

theorem strtoll_clamps:
  assumes "cstr m p (ws @ sg @ ds @ rest)" "\<forall>c \<in> set ws. is_space c" "\<forall>d \<in> set ds. is_digit d"
    "sg \<in> {[], [0x2B], [0x2D]}" "ds \<noteq> []" "rest = [] \<or> \<not> is_digit (hd rest)" "length ws < n" "length ds < n"
  shows "\<exists>v. internal_simple_strtoll n m p 10 = Inr (v, p + of_nat (length (ws @ sg @ ds))) \<and>
    sint v = clamp64 ((if sg = [0x2D] then - 1 else 1) * int (decimal ds))"
  by (rule strtoll_spec [OF assms])

definition nines :: "u8 list" where
  "nines = [0x39, 0x39, 0x39, 0x39, 0x39, 0x39, 0x39, 0x39, 0x39, 0x39, 0x39, 0x39, 0x39, 0x39, 0x39, 0x39, 0x39, 0x39, 0x39, 0x39]"

theorem strtoll_clamps_witness:
  "\<exists>v. internal_simple_strtoll 30 (bytes_at 100 ([0x20] @ [0x2D] @ nines @ [])) 100 10 = Inr (v, 122) \<and>
     sint v = - (2 ^ 63)"
proof -
  have d: "length nines = 20" "set nines = {0x39}" "decimal nines = 99999999999999999999"
    by (simp_all add: nines_def decimal_def digit_val_def)
  have c: "cstr (bytes_at 100 ([0x20] @ [0x2D] @ nines @ [])) 100 ([0x20] @ [0x2D] @ nines @ [])"
    by (rule cstr_bytes_at) (simp_all add: d)
  have h1: "\<forall>c \<in> set [0x20]. is_space c" by (simp add: is_space_def)
  have h2: "\<forall>x \<in> set nines. is_digit x" by (simp add: d(2) is_digit_def)
  have h3: "[0x2D] \<in> {[], [0x2B], [0x2D :: u8]}" "[] = [] \<or> \<not> is_digit (hd [])" "length [0x20 :: u8] < 30" by simp_all
  have h4: "nines \<noteq> []" "length nines < 30" by (simp_all add: nines_def)
  show ?thesis using strtoll_clamps [OF c h1 h2 h3(1) h4(1) h3(2,3) h4(2)] by (simp add: clamp64_def d(1,3))
qed


section \<open>Sorting and searching\<close>

text \<open>
  C40. \<open>Sort\<close>, a heap sort in place, returns a permutation of the array in the order of the
  comparison.
\<close>

theorem Sort_orders:
  assumes "by_key f cmp"
  shows "mset (San_Sort cmp v) = mset v \<and> sorted (map f (San_Sort cmp v))"
  using San_Sort_perm San_Sort_sorted [OF assms] by blast

theorem Sort_orders_witness:
  "San_Sort (<) [5, 1, 4, 1, 3 :: nat] = [1, 1, 3, 4, 5]"
proof -
  have "by_key id ((<) :: nat \<Rightarrow> nat \<Rightarrow> bool)" by (simp add: by_key_def)
  from Sort_orders [OF this, of "[5, 1, 4, 1, 3]"]
  have "sort [5, 1, 4, 1, 3] = San_Sort (<) [5, 1, 4, 1, 3 :: nat]" by (intro properties_for_sort) simp_all
  then show ?thesis by simp
qed

text \<open>
  \<open>InternalLowerBound\<close> on an array sorted for the comparison returns the number of elements
  that are less than the value.
\<close>

theorem lower_bound_splits:
  assumes "\<And>i j. i < j \<Longrightarrow> j < length v \<Longrightarrow> cmp (v ! j) val \<Longrightarrow> cmp (v ! i) val"
  shows "InternalLowerBound cmp v val \<le> length v \<and> (\<forall>k < length v. cmp (v ! k) val \<longleftrightarrow> k < InternalLowerBound cmp v val)"
  using assms by (rule InternalLowerBound_spec)

theorem lower_bound_splits_witness:
  "InternalLowerBound (<) [1, 3, 3, 7 :: nat] 3 = 1"
proof -
  let ?v = "[1, 3, 3, 7 :: nat]" and ?n = "InternalLowerBound (<) [1, 3, 3, 7 :: nat] 3"
  have s: "sorted ?v" by simp
  have h: "i < j \<Longrightarrow> j < length ?v \<Longrightarrow> ?v ! j < 3 \<Longrightarrow> ?v ! i < 3" for i j
    using sorted_nth_mono [OF s, of i j] by (meson less_imp_le_nat le_less_trans)
  have L: "?n \<le> length ?v \<and> (\<forall>k < length ?v. ?v ! k < 3 \<longleftrightarrow> k < ?n)"
    by (rule lower_bound_splits) (rule h)
  have "0 < ?n" using L [THEN conjunct2, rule_format, of 0] by simp
  moreover have "\<not> 1 < ?n" using L [THEN conjunct2, rule_format, of 1] by simp
  ultimately show ?thesis by simp
qed


text \<open>
  \<open>RemoveANSIEscapeSequencesFromString\<close> removes every escape sequence of a terminated string in
  place: the result is \<open>strip_ansi\<close> of the characters, and no byte behind the string changes.
\<close>

theorem ANSI_sequences_removed:
  assumes "cstr m str xs" "length xs < fuel" "unat str + length xs < 2 ^ 64" "str \<noteq> 0"
  shows "\<exists>m'. RemoveANSIEscapeSequencesFromString fuel m str = Inr m' \<and> cstr m' str (strip_ansi xs) \<and>
    (\<forall>q. \<not> (unat str \<le> unat q \<and> unat q \<le> unat str + length xs) \<longrightarrow> m' q = m q)"
  by (rule RemoveANSI_spec [OF assms])

theorem ANSI_sequences_removed_witness:
  "\<exists>m'. RemoveANSIEscapeSequencesFromString 9 (bytes_at 100 [97, 0x1B, 0x5B, 0x31, 0x6D, 98]) 100 = Inr m' \<and>
     cstr m' 100 [97, 98]"
proof -
  have c: "cstr (bytes_at 100 [97, 0x1B, 0x5B, 0x31, 0x6D, 98]) 100 [97, 0x1B, 0x5B, 0x31, 0x6D, 98]"
    by (rule cstr_bytes_at) simp_all
  have "strip_ansi [97, 0x1B, 0x5B, 0x31, 0x6D, 98] = [97, 98]" by simp
  moreover have "length [97, 0x1B, 0x5B, 0x31, 0x6D, 98 :: u8] < 9"
    "unat (100 :: uptr) + length [97, 0x1B, 0x5B, 0x31, 0x6D, 98 :: u8] < 2 ^ 64" "(100 :: uptr) \<noteq> 0" by simp_all
  ultimately show ?thesis using ANSI_sequences_removed [OF c] by metis
qed

section \<open>Shadow and tags\<close>

text \<open>
  C37. \<open>TagMemoryAligned\<close> writes the tag to the shadow bytes of the range and to no other byte,
  on the path that fills the shadow as on the one that gives whole pages of it back.
\<close>

theorem tagging_sets_shadow:
  assumes "aligned p 16" "aligned sz 16" "page_size G = 2 ^ k" "k < 63" "shadow_fits G E p sz" "release_zeroes G E"
  shows "\<exists>m'. TagMemoryAligned G E p sz tag m = Inr (AddTagToPointer p tag, m') \<and>
    (\<forall>q. m' q = (if unat (MemToShadow G p) \<le> unat q \<and> unat q < unat (MemToShadow G p) + unat sz div 16 then tag else m q))"
  by (rule TagMemoryAligned_spec [OF assms])

theorem tagging_sets_shadow_witness:
  "\<exists>m'. TagMemoryAligned x86_globals sample_env 0x1000 48 42 (\<lambda>_. 7) = Inr (AddTagToPointer 0x1000 42, m') \<and>
     map m' [0x7000000000ff, 0x700000000100, 0x700000000102, 0x700000000103] = [7, 42, 42, 7]"
proof -
  have a: "aligned (0x1000 :: uptr) 16" "aligned (48 :: uptr) 16" by code_simp+
  have p: "page_size x86_globals = 2 ^ 12" "(12 :: nat) < 63" by (simp_all add: x86_globals_def)
  have s: "MemToShadow x86_globals 0x1000 = 0x700000000100"
    by (simp add: MemToShadow_def GetShadowOffset_def x86_globals_def kShadowScale_def)
  have f: "shadow_fits x86_globals sample_env 0x1000 48"
    unfolding shadow_fits_def unat_kShadowSize s by (simp add: x86_globals_def sample_env_def)
  from tagging_sets_shadow [OF a p f sample_env_ok(2), of 42 "\<lambda>_. 7"] show ?thesis
    by (auto simp: s)
qed

text \<open>
  C36. An access that trapped is reported like the same access checked by a call: the trap handler
  decodes the instruction behind the breakpoint to the arguments \<open>__hwasan_tag_mismatch4\<close> gets.
\<close>

theorem trap_equals_call:
  assumes "m pc = 0x0f" "m (pc + 1) = 0x1f" "m (pc + 2) = 0x40" "m (pc + 3) = 0x40 + c"
    "c < 0x40" "unat c mod 16 \<le> 4 \<or> unat c mod 16 = 15"
  shows "HwasanOnSIGTRAP halt m pc rdi rsi = Some (HwasanTagMismatch halt rdi (ucast c) rsi)"
  unfolding HwasanOnSIGTRAP_def HwasanTagMismatch_def Let_def GetAccessInfo_decodes [OF assms]
  by (simp add: access_info_of_def Let_def)

theorem trap_equals_call_witness:
  "HwasanOnSIGTRAP True (bytes_at 100 [0x0f, 0x1f, 0x40, 0x53]) 100 0x5000 0 =
     Some \<lparr> mm_addr = 0x5000, mm_size = 8, mm_store = True, mm_fatal = True \<rparr>"
proof -
  let ?m = "bytes_at 100 [0x0f, 0x1f, 0x40, 0x53]"
  have h: "?m 100 = 0x0f" "?m (100 + 1) = 0x1f" "?m (100 + 2) = 0x40" "?m (100 + 3) = 0x40 + 0x13"
    "(0x13 :: u8) < 0x40" "unat (0x13 :: u8) mod 16 \<le> 4 \<or> unat (0x13 :: u8) mod 16 = 15"
    by (simp_all add: bytes_at_def)
  have "HwasanTagMismatch True 0x5000 (ucast (0x13 :: u8)) 0 =
      \<lparr> mm_addr = 0x5000, mm_size = 8, mm_store = True, mm_fatal = True \<rparr>" by code_simp
  then show ?thesis using trap_equals_call [OF h, of True "0x5000" 0] by simp
qed

text \<open>
  C38. \<open>GenerateRandomTag\<close> of a thread with tagging enabled ends within four rounds and returns a
  tag other than 0, whatever state the generator is in.
\<close>

theorem random_tag_nonzero:
  assumes "4 \<le> fuel" "\<exists>x \<in> set seeds. x \<noteq> 0" "random_state_inited t \<longrightarrow> random_state t \<noteq> 0" "tagging_disabled t = 0"
  shows "\<exists>tag t'. GenerateRandomTag fuel random_tags seeds kTagBits t = Inr (tag, t') \<and> tag \<noteq> 0"
  by (rule GenerateRandomTag_total [OF assms])

theorem random_tag_nonzero_witness:
  "\<exists>tag t'. GenerateRandomTag 4 True [0, 1] kTagBits
     \<lparr> stack_top = 0, stack_bottom = 0, random_state = 0, random_buffer = 0, unique_id = 0, tagging_disabled = 0,
       announced = False, random_state_inited = False \<rparr> = Inr (tag, t') \<and> tag \<noteq> 0"
  by (rule random_tag_nonzero) simp_all

text \<open>
  C39. The borders of the shadow. \<open>InitShadow\<close> lets the high memory begin at the last byte of the high
  shadow, so \<open>PrintAddressSpaceLayout\<close> fails its check whenever it runs.
\<close>

theorem layout_check_fails:
  assumes "InitShadow g find_start G = (M, G', r)" "kHighShadowEnd M \<noteq> - 1"
  shows "PrintAddressSpaceLayout M = Inl Check_failed"
  by (rule InitShadow_layout_check [OF assms])

theorem layout_check_fails_witness:
  "PrintAddressSpaceLayout (fst (InitShadow 4096 (\<lambda>_. 0x700000000000) x86_globals)) = Inl Check_failed"
proof -
  obtain M G' r where i: "InitShadow 4096 (\<lambda>_. 0x700000000000) x86_globals = (M, G', r)" by (metis prod_cases3)
  have "GetHighMemEnd 4096 = 0x7fffffffffff" by code_simp
  then have "kHighShadowEnd M = 0x77ffffffffff"
    using i by (auto simp: InitShadow_def Let_def MemToShadow_def GetShadowOffset_def kShadowScale_def)
  then have "kHighShadowEnd M \<noteq> - 1" by simp
  then show ?thesis using layout_check_fails [OF i] by (simp add: i)
qed

end
