(* ===== verification/P64_Base.thy ===== *)
theory P64_Base
  imports CT_Cache
begin

text \<open>
  The size class allocator of the upstream runtime (\<open>SizeClassAllocator64\<close> of
  \<open>sanitizer_allocator_primary64.h\<close>): its state and the arithmetic of its address space, one
  region of equal size per class, with the chunks from its start, the metadata growing down from
  \<open>GetMetadataEnd\<close> and the array of free chunks behind. ClusterTag keeps the code and disables it:
  the functions that compute an address end the process when \<open>is_clustertag\<close> is set.

  The template parameters are a record, \<open>AP64\<close> those of HWASan. \<open>ReservedAddressRange\<close>,
  \<open>AllocatorStats\<close>, \<open>MapUnmapCallback\<close> and \<open>ReleaseMemoryPagesToOS\<close> are outside the repository: a
  call is an event of \<open>p64_log\<close> (newest first), an answer the next value of \<open>sys_ret\<close>.
\<close>

section \<open>Parameters and state\<close>

record p64_params =
  kSpaceBeg :: uptr
  kSpaceSize :: uptr
  kMetadataSize :: uptr
  kRandomShuffleChunks :: bool
  SizeClassMapT :: scm_params

definition AP64 :: p64_params where
  "AP64 = \<lparr> kSpaceBeg = - 1, kSpaceSize = 0x2000000000, kMetadataSize = 12,
     kRandomShuffleChunks = False, SizeClassMapT = VeryDenseSizeClassMap \<rparr>"

record Stats64 =
  n_allocated :: uptr
  n_freed :: uptr

record ReleaseToOsInfo =
  n_freed_at_last_release :: uptr
  num_releases :: uptr
  last_release_ns :: u64
  last_released_bytes :: u64

record RegionInfo64 =
  num_freed_chunks :: uptr
  mapped_free_array :: uptr
  allocated_user :: uptr
  allocated_meta :: uptr
  mapped_user :: uptr
  mapped_meta :: uptr
  rand_state :: u32
  exhausted :: bool
  stats64 :: Stats64
  rtoi :: ReleaseToOsInfo

datatype stat_kind = AllocatorStatAllocated | AllocatorStatMapped

datatype p64_event =
  Range_map uptr uptr
| Range_unmap uptr uptr
| On_map uptr uptr
| On_unmap uptr uptr
| Stat_add stat_kind uptr
| Stat_sub stat_kind uptr
| Pages_released uptr uptr

record p64_state = cache_state +
  is_clustertag :: bool
  NonConstSpaceBeg :: uptr
  RegionInfoSpace :: uptr
  PremappedHeap :: bool
  release_to_os_interval_ms :: "32 word"
  regions64 :: "uptr \<Rightarrow> RegionInfo64"
  free_array :: "uptr \<Rightarrow> nat \<Rightarrow> u32"
  p64_log :: "p64_event list"

definition note64 :: "p64_event \<Rightarrow> 'a p64_state_scheme \<Rightarrow> 'a p64_state_scheme" where
  "note64 e s = s\<lparr>p64_log := e # p64_log s\<rparr>"

section \<open>The address space\<close>

definition kCompactPtrScale :: nat where "kCompactPtrScale = 4"

definition PointerToCompactPtr :: "uptr \<Rightarrow> uptr \<Rightarrow> u32" where
  "PointerToCompactPtr base ptr = ucast (drop_bit kCompactPtrScale (ptr - base))"

definition CompactPtrToPointer :: "uptr \<Rightarrow> u32 \<Rightarrow> uptr" where
  "CompactPtrToPointer base ptr32 = base + push_bit kCompactPtrScale (ucast ptr32)"

definition kUsingConstantSpaceBeg :: "p64_params \<Rightarrow> bool" where
  "kUsingConstantSpaceBeg P \<longleftrightarrow> kSpaceBeg P \<noteq> - 1"

definition SpaceBeg :: "p64_params \<Rightarrow> 'a p64_state_scheme \<Rightarrow> uptr" where
  "SpaceBeg P s = (if kUsingConstantSpaceBeg P then kSpaceBeg P else NonConstSpaceBeg s)"

definition SpaceEnd :: "p64_params \<Rightarrow> 'a p64_state_scheme \<Rightarrow> uptr" where
  "SpaceEnd P s = SpaceBeg P s + kSpaceSize P"

definition NumClasses64 :: "p64_params \<Rightarrow> uptr" where
  "NumClasses64 P = kNumClasses (SizeClassMapT P)"

definition NumClassesRounded64 :: "p64_params \<Rightarrow> uptr" where
  "NumClassesRounded64 P = kNumClassesRounded (SizeClassMapT P)"

definition kRegionSize :: "p64_params \<Rightarrow> uptr" where
  "kRegionSize P = kSpaceSize P div NumClassesRounded64 P"

definition kFreeArraySize :: "p64_params \<Rightarrow> uptr" where
  "kFreeArraySize P = kRegionSize P div 8"

definition ClassIdToSize :: "p64_params \<Rightarrow> uptr \<Rightarrow> uptr" where
  "ClassIdToSize P class_id = Size (SizeClassMapT P) class_id"

definition not_in_clustertag :: "'a p64_state_scheme \<Rightarrow> unit res" where
  "not_in_clustertag s = (if is_clustertag s then Inl (Exit 1) else Inr ())"

definition PointerIsMine64 :: "p64_params \<Rightarrow> uptr \<Rightarrow> 'a p64_state_scheme \<Rightarrow> bool res" where
  "PointerIsMine64 P p s =
     andThen (not_in_clustertag s) (\<lambda>_.
     if kUsingConstantSpaceBeg P \<and> kSpaceBeg P mod kSpaceSize P = 0
     then Inr (p div kSpaceSize P = kSpaceBeg P div kSpaceSize P)
     else Inr (SpaceBeg P s \<le> p \<and> p < SpaceEnd P s))"

definition GetRegionBegin :: "p64_params \<Rightarrow> uptr \<Rightarrow> 'a p64_state_scheme \<Rightarrow> uptr res" where
  "GetRegionBegin P p s =
     andThen (not_in_clustertag s) (\<lambda>_.
     if kUsingConstantSpaceBeg P then Inr (p AND NOT (kRegionSize P - 1))
     else let space_beg = SpaceBeg P s
          in Inr (((p - space_beg) AND NOT (kRegionSize P - 1)) + space_beg))"

definition GetRegionBeginBySizeClass :: "p64_params \<Rightarrow> uptr \<Rightarrow> 'a p64_state_scheme \<Rightarrow> uptr res" where
  "GetRegionBeginBySizeClass P class_id s =
     andThen (not_in_clustertag s) (\<lambda>_. Inr (SpaceBeg P s + kRegionSize P * class_id))"

definition GetSizeClass :: "p64_params \<Rightarrow> uptr \<Rightarrow> 'a p64_state_scheme \<Rightarrow> uptr res" where
  "GetSizeClass P p s =
     andThen (not_in_clustertag s) (\<lambda>_.
     if kUsingConstantSpaceBeg P \<and> kSpaceBeg P mod kSpaceSize P = 0
     then Inr (p div kRegionSize P mod NumClassesRounded64 P)
     else Inr ((p - SpaceBeg P s) div kRegionSize P mod NumClassesRounded64 P))"

definition GetChunkIdx :: "p64_params \<Rightarrow> uptr \<Rightarrow> uptr \<Rightarrow> 'a p64_state_scheme \<Rightarrow> uptr" where
  "GetChunkIdx P ch sz s =
     (let ch = (if \<not> kUsingConstantSpaceBeg P then ch - SpaceBeg P s else ch);
          offset = ch mod kRegionSize P
      in if drop_bit 32 offset \<noteq> 0 then offset div sz
         else ucast ((ucast offset :: u32) div ucast sz))"

definition GetMetadataEnd :: "p64_params \<Rightarrow> uptr \<Rightarrow> uptr" where
  "GetMetadataEnd P region_beg = region_beg + kRegionSize P - kFreeArraySize P"

definition GetFreeArray :: "p64_params \<Rightarrow> uptr \<Rightarrow> uptr" where
  "GetFreeArray P region_beg = GetMetadataEnd P region_beg"

definition GetBlockBegin64 :: "p64_params \<Rightarrow> uptr \<Rightarrow> 'a p64_state_scheme \<Rightarrow> uptr res" where
  "GetBlockBegin64 P p s =
     andThen (GetSizeClass P p s) (\<lambda>class_id.
     if NumClasses64 P \<le> class_id then Inr 0
     else
       let sz = ClassIdToSize P class_id in
       if sz = 0 then Inr 0
       else
         let chunk_idx = GetChunkIdx P p sz s in
         andThen (GetRegionBegin P p s) (\<lambda>reg_beg.
         let beg = chunk_idx * sz;
             next_beg = beg + sz
         in Inr (if next_beg \<le> mapped_user (regions64 s class_id) then reg_beg + beg else 0)))"

definition GetActuallyAllocatedSize64 :: "p64_params \<Rightarrow> uptr \<Rightarrow> 'a p64_state_scheme \<Rightarrow> uptr res" where
  "GetActuallyAllocatedSize64 P p s =
     andThen (not_in_clustertag s) (\<lambda>_.
     andThen (PointerIsMine64 P p s) (\<lambda>mine. andThen (check mine) (\<lambda>_.
     andThen (GetSizeClass P p s) (\<lambda>class_id. Inr (ClassIdToSize P class_id)))))"

definition GetMetaData64 :: "p64_params \<Rightarrow> uptr \<Rightarrow> 'a p64_state_scheme \<Rightarrow> uptr res" where
  "GetMetaData64 P p s =
     andThen (not_in_clustertag s) (\<lambda>_.
     andThen (check (kMetadataSize P \<noteq> 0)) (\<lambda>_.
     andThen (GetSizeClass P p s) (\<lambda>class_id.
     let sz = ClassIdToSize P class_id in
     if sz = 0 then Inr 0
     else
       let chunk_idx = GetChunkIdx P p sz s in
       andThen (GetRegionBeginBySizeClass P class_id s) (\<lambda>region_beg.
       Inr (GetMetadataEnd P region_beg - (1 + chunk_idx) * kMetadataSize P)))))"

text \<open>The sum over the classes from \<open>class_id\<close> on; \<open>n\<close> of them are left.\<close>

fun total_used :: "nat \<Rightarrow> uptr \<Rightarrow> 'a p64_state_scheme \<Rightarrow> uptr" where
  "total_used 0 class_id s = 0"
| "total_used (Suc n) class_id s = allocated_user (regions64 s class_id) + total_used n (class_id + 1) s"

definition TotalMemoryUsed64 :: "p64_params \<Rightarrow> 'a p64_state_scheme \<Rightarrow> uptr" where
  "TotalMemoryUsed64 P s = total_used (unat (NumClasses64 P)) 0 s"

section \<open>Mapping\<close>

text \<open>\<open>ReservedAddressRange::Map\<close> and \<open>MapOrDie\<close>: the address mapped, 0 when \<open>Map\<close> fails.\<close>

definition range_Map :: "uptr \<Rightarrow> uptr \<Rightarrow> 'a p64_state_scheme \<Rightarrow> uptr \<times> 'a p64_state_scheme" where
  "range_Map beg sz s = syscall (note64 (Range_map beg sz) s)"

definition MapWithCallback :: "p64_params \<Rightarrow> uptr \<Rightarrow> uptr \<Rightarrow> 'a p64_state_scheme \<Rightarrow> (bool \<times> 'a p64_state_scheme) res" where
  "MapWithCallback P beg sz s =
     (if PremappedHeap s
      then Inr (NonConstSpaceBeg s \<le> beg \<and> beg + sz \<le> NonConstSpaceBeg s + kSpaceSize P, s)
      else let (mapped, s) = range_Map beg sz s in
        if mapped = 0 then Inr (False, s)
        else andThen (check (beg = mapped)) (\<lambda>_. Inr (True, note64 (On_map beg sz) s)))"

definition MapWithCallbackOrDie :: "p64_params \<Rightarrow> uptr \<Rightarrow> uptr \<Rightarrow> 'a p64_state_scheme \<Rightarrow> 'a p64_state_scheme res" where
  "MapWithCallbackOrDie P beg sz s =
     (if PremappedHeap s then
        andThen (check (NonConstSpaceBeg s \<le> beg)) (\<lambda>_.
        andThen (check (beg + sz \<le> NonConstSpaceBeg s + kSpaceSize P)) (\<lambda>_. Inr s))
      else let (mapped, s) = range_Map beg sz s in
        andThen (check (beg = mapped)) (\<lambda>_. Inr (note64 (On_map beg sz) s)))"

definition UnmapWithCallbackOrDie :: "uptr \<Rightarrow> uptr \<Rightarrow> 'a p64_state_scheme \<Rightarrow> 'a p64_state_scheme" where
  "UnmapWithCallbackOrDie beg sz s =
     (if PremappedHeap s then s else note64 (Range_unmap beg sz) (note64 (On_unmap beg sz) s))"

end
