(* ===== verification/Packed_Counters.thy ===== *)
theory Packed_Counters
  imports San_Containers
begin

text \<open>
  \<open>PackedCounterArray\<close> of \<open>sanitizer_allocator_primary64.h\<close>: counters of \<open>2 ^ k\<close> bits packed into
  64-bit words. The object holds the layout; the words are the data of the vector the memory
  mapper owns, a list here. The lemmas show that the packed array behaves like an array of
  numbers: \<open>Inc\<close> adds 1 to its counter and leaves every other one alone, as long as no counter
  goes past \<open>counter_mask\<close>.
\<close>

record PackedCounterArray =
  pca_n :: u64
  counter_size_bits_log :: u64
  counter_mask :: u64
  packing_ratio_log :: u64
  bit_offset_mask :: u64

definition kMaxCounterBits :: u64 where "kMaxCounterBits = 64"

text \<open>The constructor up to the buffer: the layout, and the number of words it asks for.\<close>

definition pca_layout :: "u64 \<Rightarrow> u64 \<Rightarrow> (PackedCounterArray \<times> u64) res" where
  "pca_layout num_counters max_value =
     andThen (check (0 < num_counters)) (\<lambda>_.
     andThen (check (0 < max_value)) (\<lambda>_.
     andThen (MostSignificantSetBitIndex max_value) (\<lambda>msb.
     andThen (RoundUpToPowerOfTwo (msb + 1)) (\<lambda>counter_size_bits.
     andThen (check (counter_size_bits \<le> kMaxCounterBits)) (\<lambda>_.
     andThen (San_Log2 counter_size_bits) (\<lambda>size_log.
     let mask = drop_bit (unat (kMaxCounterBits - counter_size_bits)) (- 1);
         packing_ratio = drop_bit (unat size_log) kMaxCounterBits in
     andThen (check (0 < packing_ratio)) (\<lambda>_.
     andThen (San_Log2 packing_ratio) (\<lambda>ratio_log.
     andThen (RoundUpTo num_counters (push_bit (unat ratio_log) 1)) (\<lambda>rounded.
     Inr (\<lparr> pca_n = num_counters, counter_size_bits_log = size_log, counter_mask = mask,
            packing_ratio_log = ratio_log, bit_offset_mask = packing_ratio - 1 \<rparr>,
          drop_bit (unat ratio_log) rounded))))))))))"

definition pca_index :: "PackedCounterArray \<Rightarrow> uptr \<Rightarrow> uptr" where
  "pca_index c i = drop_bit (unat (packing_ratio_log c)) i"

definition pca_bit_offset :: "PackedCounterArray \<Rightarrow> uptr \<Rightarrow> uptr" where
  "pca_bit_offset c i = push_bit (unat (counter_size_bits_log c)) (i AND bit_offset_mask c)"

definition pca_Get :: "PackedCounterArray \<Rightarrow> u64 list \<Rightarrow> uptr \<Rightarrow> u64 res" where
  "pca_Get c buffer i =
     (let index = pca_index c i; bit_offset = pca_bit_offset c i in
      if length buffer \<le> unat index then Inl Out_of_bounds
      else Inr (drop_bit (unat bit_offset) (buffer ! unat index) AND counter_mask c))"

definition pca_Inc :: "PackedCounterArray \<Rightarrow> uptr \<Rightarrow> u64 list \<Rightarrow> u64 list res" where
  "pca_Inc c i buffer =
     (let index = pca_index c i; bit_offset = pca_bit_offset c i in
      if length buffer \<le> unat index then Inl Out_of_bounds
      else Inr (buffer[unat index := buffer ! unat index + push_bit (unat bit_offset) 1]))"

text \<open>The loop \<open>for (i = from; i \<le> to; i++)\<close>; it does not end when \<open>to\<close> is the largest number.\<close>

fun pca_IncRange :: "nat \<Rightarrow> PackedCounterArray \<Rightarrow> uptr \<Rightarrow> uptr \<Rightarrow> u64 list \<Rightarrow> u64 list res" where
  "pca_IncRange 0 c i hi buffer = Inl Out_of_fuel"
| "pca_IncRange (Suc fuel) c i hi buffer =
     (if i \<le> hi then andThen (pca_Inc c i buffer) (pca_IncRange fuel c (i + 1) hi) else Inr buffer)"

section \<open>Bit fields of a number\<close>

definition field :: "nat \<Rightarrow> nat \<Rightarrow> nat \<Rightarrow> nat" where
  "field b x k = x div 2 ^ (k * b) mod 2 ^ b"

lemma div_Suc_keep: "b \<le> d \<Longrightarrow> q mod 2 ^ b + 1 < 2 ^ b \<Longrightarrow> Suc q div 2 ^ d = q div (2 :: nat) ^ d"
proof -
  assume b: "b \<le> d" and q: "q mod 2 ^ b + 1 < 2 ^ b"
  have "Suc q mod 2 ^ b = Suc (q mod 2 ^ b)" using q by (simp add: mod_Suc)
  then have "\<not> 2 ^ b dvd Suc q" by (simp add: dvd_eq_mod_eq_0)
  moreover have "(2 :: nat) ^ b dvd 2 ^ d" using b by (rule le_imp_power_dvd)
  ultimately have "\<not> 2 ^ d dvd Suc q" using dvd_trans by blast
  then have "Suc q mod 2 ^ d \<noteq> 0" by (simp add: dvd_eq_mod_eq_0)
  then show ?thesis by (simp add: div_Suc)
qed

lemma field_add:
  assumes room: "field b x k + 1 < 2 ^ b"
  shows "field b (x + 2 ^ (k * b)) j = field b x j + (if j = k then 1 else 0)"
proof -
  let ?q = "x div 2 ^ (k * b)"
  have q: "(x + 2 ^ (k * b)) div 2 ^ (k * b) = Suc ?q" by (subst div_add_self2) simp_all
  have r: "?q mod 2 ^ b + 1 < 2 ^ b" using room by (simp add: field_def)
  consider "j = k" | "k < j" | "j < k" by linarith
  then show ?thesis
  proof cases
    case 1
    then show ?thesis using r unfolding field_def q by (simp add: 1 mod_Suc q)
  next
    case 2
    then have e: "j * b = k * b + (j - k) * b" by (metis add_mult_distrib le_add_diff_inverse less_imp_le)
    have "1 * b \<le> (j - k) * b" using 2 by (intro mult_le_mono1) arith
    then have "b \<le> (j - k) * b" by simp
    then have "Suc ?q div 2 ^ ((j - k) * b) = ?q div 2 ^ ((j - k) * b)" using r by (rule div_Suc_keep)
    then have "(x + 2 ^ (k * b)) div 2 ^ (j * b) = x div 2 ^ (j * b)"
      unfolding e power_add div_mult2_eq q .
    then show ?thesis using 2 by (simp add: field_def)
  next
    case 3
    then have e: "k * b = j * b + b + (k - j - 1) * b"
      by (metis Suc_diff_Suc add.assoc add_mult_distrib diff_Suc_1 le_add_diff_inverse less_imp_le mult_Suc diff_diff_left plus_1_eq_Suc add.commute)
    have "x + 2 ^ (k * b) = x + (2 ^ ((k - j - 1) * b) * 2 ^ b) * 2 ^ (j * b)"
      unfolding e power_add by (simp add: ac_simps)
    then have "(x + 2 ^ (k * b)) div 2 ^ (j * b) = x div 2 ^ (j * b) + 2 ^ ((k - j - 1) * b) * 2 ^ b" by simp
    then show ?thesis using 3 by (simp add: field_def)
  qed
qed

lemma field_fits:
  assumes "field b x k + 1 < 2 ^ b" "x < 2 ^ n" "(k + 1) * b \<le> n"
  shows "x + 2 ^ (k * b) < (2 :: nat) ^ n"
proof -
  define d where "d = n - k * b"
  have e: "n = k * b + d" and "b \<le> d" using assms(3) by (simp_all add: d_def)
  have "Suc (x div 2 ^ (k * b)) div 2 ^ d = x div 2 ^ (k * b) div 2 ^ d"
    using assms(1) \<open>b \<le> d\<close> by (intro div_Suc_keep) (simp_all add: field_def)
  also have "\<dots> = x div 2 ^ n" unfolding e by (simp only: power_add div_mult2_eq)
  also have "\<dots> = 0" using assms(2) by simp
  finally have "(x + 2 ^ (k * b)) div 2 ^ (k * b) div 2 ^ d = 0" by (subst div_add_self2) simp_all
  then have "(x + 2 ^ (k * b)) div 2 ^ n = 0" unfolding e by (simp only: power_add div_mult2_eq)
  then show ?thesis by (simp add: div_eq_0_iff)
qed


section \<open>The array of counters\<close>

definition pca_ok :: "nat \<Rightarrow> PackedCounterArray \<Rightarrow> bool" where
  "pca_ok k c \<longleftrightarrow> k \<le> 6 \<and> counter_size_bits_log c = of_nat k \<and> packing_ratio_log c = of_nat (6 - k) \<and>
     bit_offset_mask c = 2 ^ (6 - k) - 1 \<and> counter_mask c = mask (2 ^ k)"

text \<open>The value of counter \<open>i\<close>.\<close>

definition pca_value :: "nat \<Rightarrow> u64 list \<Rightarrow> nat \<Rightarrow> nat" where
  "pca_value k buffer i = field (2 ^ k) (unat (buffer ! (i div 2 ^ (6 - k)))) (i mod 2 ^ (6 - k))"

lemma pca_position:
  assumes "pca_ok k c"
  shows "unat (pca_index c i) = unat i div 2 ^ (6 - k)" "unat (pca_bit_offset c i) = unat i mod 2 ^ (6 - k) * 2 ^ k"
    "unat i mod 2 ^ (6 - k) * 2 ^ k + 2 ^ k \<le> 64"
proof -
  have "k \<le> 6" using assms by (simp add: pca_ok_def)
  moreover have "unat (of_nat k :: u64) = k" using calculation by (intro unat_of_nat_small) simp
  moreover have "unat (of_nat (6 - k) :: u64) = 6 - k" using calculation by (intro unat_of_nat_small) simp
  ultimately have k: "k \<le> 6" "unat (of_nat k :: u64) = k" "unat (of_nat (6 - k) :: u64) = 6 - k" .
  show "unat (pca_index c i) = unat i div 2 ^ (6 - k)"
    using assms k(3) unfolding pca_index_def pca_ok_def by (simp only: unat_drop_bit)
  have "unat i mod 2 ^ (6 - k) < 2 ^ (6 - k)" by simp
  then have "unat i mod 2 ^ (6 - k) + 1 \<le> 2 ^ (6 - k)" by linarith
  then have "(unat i mod 2 ^ (6 - k) + 1) * 2 ^ k \<le> 2 ^ (6 - k) * 2 ^ k" by (rule mult_le_mono1)
  also have "\<dots> = 2 ^ 6" using k(1) by (simp add: power_add [symmetric])
  finally show le: "unat i mod 2 ^ (6 - k) * 2 ^ k + 2 ^ k \<le> 64" by simp
  have "pca_bit_offset c i = (i AND (2 ^ (6 - k) - 1)) * 2 ^ k"
    using assms by (simp add: pca_bit_offset_def pca_ok_def k push_bit_eq_mult)
  moreover have "unat ((i AND (2 ^ (6 - k) - 1)) * 2 ^ k) = unat i mod 2 ^ (6 - k) * 2 ^ k"
  proof -
    have u: "unat (2 ^ k :: u64) = 2 ^ k" using k(1) by (intro unat_pow2) simp
    have "unat (i AND (2 ^ (6 - k) - 1)) = unat i mod 2 ^ (6 - k)" by (rule unat_and_low)
    with u le show ?thesis by (subst unat_mult_small) simp_all
  qed
  ultimately show "unat (pca_bit_offset c i) = unat i mod 2 ^ (6 - k) * 2 ^ k" by simp
qed

lemma pca_Get_value:
  assumes "pca_ok k c" "unat i div 2 ^ (6 - k) < length buffer"
  shows "\<exists>v. pca_Get c buffer i = Inr v \<and> unat v = pca_value k buffer (unat i)"
proof -
  let ?w = "buffer ! (unat i div 2 ^ (6 - k))"
  have "unat (drop_bit (unat i mod 2 ^ (6 - k) * 2 ^ k) ?w AND mask (2 ^ k)) = pca_value k buffer (unat i)"
    unfolding mask_eq_exp_minus_1 by (simp only: unat_and_low unat_drop_bit pca_value_def field_def)
  then show ?thesis using assms pca_position [OF assms(1), of i] by (simp add: pca_Get_def pca_ok_def Let_def)
qed

lemma pca_Inc_value:
  assumes ok: "pca_ok k c" and i: "unat i div 2 ^ (6 - k) < length buffer"
    and room: "pca_value k buffer (unat i) + 1 < 2 ^ 2 ^ k"
  shows "\<exists>buffer'. pca_Inc c i buffer = Inr buffer' \<and> length buffer' = length buffer \<and>
    (\<forall>j. j div 2 ^ (6 - k) < length buffer \<longrightarrow>
      pca_value k buffer' j = pca_value k buffer j + (if j = unat i then 1 else 0))"
proof -
  let ?d = "unat i div 2 ^ (6 - k)" and ?m = "unat i mod 2 ^ (6 - k)"
  let ?w = "buffer ! ?d"
  note pos = pca_position [OF ok, of i]
  have r: "field (2 ^ k) (unat ?w) ?m + 1 < 2 ^ 2 ^ k" using room by (simp add: pca_value_def)
  have le: "?m * 2 ^ k < 64"
  proof -
    have "(0 :: nat) < 2 ^ k" by simp
    then show ?thesis using pos(3) by linarith
  qed
  have "unat (2 ^ (?m * 2 ^ k) :: u64) = 2 ^ (?m * 2 ^ k)" by (rule unat_pow2) (simp add: le)
  moreover have "unat ?w + 2 ^ (?m * 2 ^ k) < 2 ^ 64"
    using r pos(3) by (intro field_fits) (simp_all add: add_mult_distrib)
  ultimately have u: "unat (?w + 2 ^ (?m * 2 ^ k)) = unat ?w + 2 ^ (?m * 2 ^ k)" by (subst unat_add_small) simp_all
  have "pca_value k (buffer[?d := ?w + 2 ^ (?m * 2 ^ k)]) j = pca_value k buffer j + (if j = unat i then 1 else 0)"
    if j: "j div 2 ^ (6 - k) < length buffer" for j
  proof (cases "j div 2 ^ (6 - k) = ?d")
    case True
    have "j = unat i \<longleftrightarrow> j mod 2 ^ (6 - k) = ?m" using True by (metis div_mult_mod_eq)
    then show ?thesis using True i by (simp add: pca_value_def u field_add [OF r])
  next
    case False
    then have "j \<noteq> unat i" by auto
    then show ?thesis using False by (simp add: pca_value_def)
  qed
  then show ?thesis using i by (simp add: pca_Inc_def Let_def pos push_bit_eq_mult)
qed


section \<open>The layout\<close>

lemma RoundUpToPowerOfTwo_exp:
  assumes "x \<noteq> 0" "unat x \<le> 2 ^ m" "m < 64"
  shows "\<exists>k \<le> m. RoundUpToPowerOfTwo x = Inr (2 ^ k) \<and> unat x \<le> 2 ^ k"
proof (cases "IsPowerOfTwo x")
  case True
  then obtain k where k: "k < 64" "x = 2 ^ k" using assms(1) IsPowerOfTwo_cases by blast
  then have "(2 :: nat) ^ k \<le> 2 ^ m" using assms(2) by (simp add: unat_pow2)
  then have "k \<le> m" by simp
  then show ?thesis using True assms(1) k by (intro exI [of _ k]) (simp add: RoundUpToPowerOfTwo_def unat_pow2)
next
  case False
  let ?u = "msb_below 64 x"
  note b = msb_bounds [OF assms(1)]
  have u: "?u < 64" using msb_below_less [of 64 x] by simp
  have p: "unat (2 ^ ?u :: uptr) = 2 ^ ?u" using u by (intro unat_pow2) simp
  have "x \<noteq> 2 ^ ?u" using False IsPowerOfTwo_exp [OF u] by metis
  then have gt: "2 ^ ?u < unat x" using b(1) p by (metis le_neq_implies_less word_unat_eq_iff)
  then have "(2 :: nat) ^ ?u < 2 ^ m" using assms(2) by linarith
  then have um: "?u < m" by simp
  then have p1: "unat (2 ^ (?u + 1) :: uptr) = 2 ^ (?u + 1)" using assms(3) by (intro unat_pow2) simp
  have "unat (of_nat ?u :: uptr) = ?u" using u by (intro unat_of_nat_small) simp
  moreover have "x < 2 ^ (?u + 1)" "2 ^ ?u < x" unfolding word_less_nat_alt p p1 using b(2) gt by simp_all
  ultimately have "RoundUpToPowerOfTwo x = Inr (2 ^ (?u + 1))"
    using False assms(1) unfolding RoundUpToPowerOfTwo_def MostSignificantSetBitIndex_def
    by (simp add: push_bit_eq_mult)
  then show ?thesis using um b(2) by (intro exI [of _ "?u + 1"]) simp
qed

lemma counter_logs:
  "list_all (\<lambda>k. San_Log2 (2 ^ k) = Inr (of_nat k) \<and> (2 ^ k :: uptr) \<le> kMaxCounterBits \<and>
     drop_bit (unat (kMaxCounterBits - 2 ^ k)) (- 1) = (mask (2 ^ k) :: uptr) \<and> unat (of_nat k :: uptr) = k \<and>
     drop_bit k kMaxCounterBits = 2 ^ (6 - k) \<and> 0 < (2 ^ (6 - k) :: uptr)) [0..<7]"
  by code_simp

lemma pca_layout_ok:
  assumes "n \<noteq> 0" "mx \<noteq> 0" "unat n + 64 < 2 ^ 64"
  shows "\<exists>c words k. pca_layout n mx = Inr (c, words) \<and> pca_ok k c \<and> pca_n c = n \<and> unat mx < 2 ^ 2 ^ k \<and>
    (\<forall>i < unat n. i div 2 ^ (6 - k) < unat words) \<and> unat words \<le> unat n"
proof -
  let ?b = "msb_below 64 mx + 1"
  have b: "?b \<le> 64" using msb_below_less [of 64 mx] by simp
  then have ub: "unat (of_nat ?b :: uptr) = ?b" by (intro unat_of_nat_small) simp
  then have "of_nat ?b \<noteq> (0 :: uptr)" by (metis Suc_eq_plus1 unat_0 nat.distinct(1))
  moreover have "unat (of_nat ?b :: uptr) \<le> 2 ^ 6" using b unfolding ub by simp
  ultimately obtain k where "k \<le> 6" and k2: "RoundUpToPowerOfTwo (of_nat ?b) = Inr (2 ^ k)" and k3: "?b \<le> 2 ^ k"
    using RoundUpToPowerOfTwo_exp [of "of_nat ?b" 6] unfolding ub by auto
  then have k: "k \<in> set [0..<7]" "RoundUpToPowerOfTwo (of_nat ?b) = Inr (2 ^ k)" "?b \<le> 2 ^ k" by simp_all
  have "6 - k \<in> set [0..<7]" by simp
  note L = counter_logs [unfolded list_all_iff, rule_format, OF k(1)]
    and L' = counter_logs [unfolded list_all_iff, rule_format, OF this]
  have msb: "MostSignificantSetBitIndex mx = Inr (of_nat (msb_below 64 mx))"
    using assms(2) by (simp add: MostSignificantSetBitIndex_def)
  have up: "RoundUpToPowerOfTwo (of_nat (msb_below 64 mx) + 1) = Inr (2 ^ k)" using k(2) by (simp add: add.commute)
  have pos: "0 < n" "0 < mx" using assms(1,2) by (simp_all add: word_gt_0)
  let ?r = "6 - k" and ?rounded = "round_up n (2 ^ (6 - k))"
  have r: "RoundUpTo n (push_bit ?r 1) = Inr ?rounded" by (simp add: push_bit_eq_mult)
  have le: "(2 :: nat) ^ ?r \<le> 2 ^ 6" by (rule power_increasing) simp_all
  have u: "unat ?rounded = (unat n + (2 ^ ?r - 1)) div 2 ^ ?r * 2 ^ ?r"
    using assms(3) le by (intro unat_round_up) simp_all
  have w: "unat (drop_bit ?r ?rounded) = (unat n + (2 ^ ?r - 1)) div 2 ^ ?r"
    by (simp only: unat_drop_bit u) simp
  have "i div 2 ^ ?r < unat (drop_bit ?r ?rounded)" if "i < unat n" for i
  proof -
    have "i div 2 ^ ?r + 1 = (i + 2 ^ ?r) div 2 ^ ?r" by (subst div_add_self2) simp_all
    also have "\<dots> \<le> (unat n + (2 ^ ?r - 1)) div 2 ^ ?r"
    proof (rule div_le_mono)
      have "(0 :: nat) < 2 ^ ?r" by simp
      then show "i + 2 ^ ?r \<le> unat n + (2 ^ ?r - 1)" using that by linarith
    qed
    finally show ?thesis unfolding w by simp
  qed
  moreover have "unat (drop_bit ?r ?rounded) \<le> unat n"
  proof -
    have "(unat n + (2 ^ ?r - 1)) div 2 ^ ?r < unat n + 1"
    proof (subst div_less_iff_less_mult)
      have n: "0 < unat n" using assms(1) by (simp add: unat_gt_0)
      have "(0 :: nat) < 2 ^ ?r" by simp
      then have "unat n * 1 \<le> unat n * 2 ^ ?r" by (intro mult_le_mono2) simp
      then show "unat n + (2 ^ ?r - 1) < (unat n + 1) * 2 ^ ?r"
        using \<open>0 < 2 ^ ?r\<close> unfolding distrib_right by linarith
    qed simp
    then show ?thesis unfolding w by simp
  qed
  moreover have "unat mx < 2 ^ 2 ^ k"
  proof -
    have "unat mx < 2 ^ ?b" by (rule msb_bounds(2) [OF assms(2)])
    also have "(2 :: nat) ^ ?b \<le> 2 ^ 2 ^ k" using k(3) by (rule power_increasing) simp
    finally show ?thesis .
  qed
  moreover have "pca_layout n mx = Inr (\<lparr> pca_n = n, counter_size_bits_log = of_nat k, counter_mask = mask (2 ^ k),
      packing_ratio_log = of_nat ?r, bit_offset_mask = 2 ^ ?r - 1 \<rparr>, drop_bit ?r ?rounded)"
    unfolding pca_layout_def msb up Let_def andThen_simps check_simps using pos L L' r by simp
  moreover have "k \<le> 6" using k(1) by simp
  ultimately show ?thesis
    by (intro exI [of _ "\<lparr> pca_n = n, counter_size_bits_log = of_nat k, counter_mask = mask (2 ^ k),
      packing_ratio_log = of_nat ?r, bit_offset_mask = 2 ^ ?r - 1 \<rparr>"] exI [of _ "drop_bit ?r ?rounded"] exI [of _ k])
      (simp add: pca_ok_def)
qed

section \<open>Ranges of counters\<close>

lemma pca_IncRange_value:
  assumes ok: "pca_ok k c"
  shows "\<lbrakk>unat hi < 2 ^ 64 - 1; unat hi div 2 ^ (6 - k) < length buffer;
      \<forall>j. unat i \<le> j \<and> j \<le> unat hi \<longrightarrow> pca_value k buffer j + 1 < 2 ^ 2 ^ k;
      unat i \<le> unat hi + 1; unat hi + 1 < fuel + unat i\<rbrakk> \<Longrightarrow>
    \<exists>buffer'. pca_IncRange fuel c i hi buffer = Inr buffer' \<and> length buffer' = length buffer \<and>
      (\<forall>j. j div 2 ^ (6 - k) < length buffer \<longrightarrow>
        pca_value k buffer' j = pca_value k buffer j + (if unat i \<le> j \<and> j \<le> unat hi then 1 else 0))"
proof (induction fuel arbitrary: i buffer)
  case 0
  then show ?case by simp
next
  case (Suc fuel)
  show ?case
  proof (cases "i \<le> hi")
    case True
    then have le: "unat i \<le> unat hi" by (simp add: word_le_nat_alt)
    have len: "j div 2 ^ (6 - k) < length buffer" if "j \<le> unat hi" for j
      using div_le_mono [OF that, of "2 ^ (6 - k)"] Suc.prems(2) by linarith
    from pca_Inc_value [OF ok len [OF le]] Suc.prems(3) le obtain b1 where
      b1: "pca_Inc c i buffer = Inr b1" "length b1 = length buffer"
        "\<And>j. j div 2 ^ (6 - k) < length buffer \<Longrightarrow> pca_value k b1 j = pca_value k buffer j + (if j = unat i then 1 else 0)"
      by auto
    have u: "unat (i + 1) = unat i + 1" using le Suc.prems(1) by (subst unat_add_small) simp_all
    have "\<forall>j. unat (i + 1) \<le> j \<and> j \<le> unat hi \<longrightarrow> pca_value k b1 j + 1 < 2 ^ 2 ^ k"
      using Suc.prems(3) b1(3) len by (simp add: u)
    with Suc.IH [of b1 "i + 1"] Suc.prems(1,2,5) le obtain b2 where
      b2: "pca_IncRange fuel c (i + 1) hi b1 = Inr b2" "length b2 = length buffer"
        "\<And>j. j div 2 ^ (6 - k) < length buffer \<Longrightarrow>
          pca_value k b2 j = pca_value k b1 j + (if unat (i + 1) \<le> j \<and> j \<le> unat hi then 1 else 0)"
      by (auto simp: u b1(2))
    have "pca_value k b2 j = pca_value k buffer j + (if unat i \<le> j \<and> j \<le> unat hi then 1 else 0)"
      if "j div 2 ^ (6 - k) < length buffer" for j
      unfolding b2(3) [OF that] b1(3) [OF that] u using le by auto
    with True b1(1) b2(1,2) show ?thesis by simp
  next
    case False
    then have "\<not> (unat i \<le> j \<and> j \<le> unat hi)" for j by (simp add: word_le_nat_alt)
    with False show ?thesis by auto
  qed
qed

end
