(* ===== verification/Free_Pages64.thy ===== *)
theory Free_Pages64
  imports P64_Base Packed_Counters Page_Count
begin

text \<open>
  \<open>ReleaseFreeMemoryToOS\<close> of \<open>sanitizer_allocator_primary64.h\<close> with the classes it uses,
  \<open>MemoryMapper\<close> and \<open>FreePagesRangeTracker\<close>: it counts in a packed array how many free chunks meet
  each page of a region and gives the pages back whose chunks are all free. Sizes and offsets are
  in units of \<open>2 ^ kCompactPtrScale\<close> bytes, the unit of the entries of the free array. The loop over
  a range of pages has the fuel of the globals.
\<close>

section \<open>The memory mapper\<close>

record memory_mapper =
  released_ranges_count :: uptr
  released_bytes :: uptr
  counter_buffer :: "u64 mmap_vector"

definition new_mapper :: memory_mapper where
  "new_mapper = \<lparr> released_ranges_count = 0, released_bytes = 0,
     counter_buffer = \<lparr> vdata = [], vec_addr = 0, capacity_bytes = 0 \<rparr> \<rparr>"

definition GetAndResetStats :: "memory_mapper \<Rightarrow> (bool \<times> uptr \<times> uptr) \<times> memory_mapper" where
  "GetAndResetStats mm =
     (let ranges = released_ranges_count mm;
          bytes = released_bytes mm
      in ((ranges \<noteq> 0, ranges, bytes), mm\<lparr>released_ranges_count := 0, released_bytes := 0\<rparr>))"

text \<open>The result is the address of the buffer; its words are the data of \<open>counter_buffer\<close>.\<close>

definition MapPackedCounterArrayBuffer ::
    "ct_globals \<Rightarrow> uptr \<Rightarrow> memory_mapper \<times> 'a p64_state_scheme \<Rightarrow>
     (uptr \<times> memory_mapper \<times> 'a p64_state_scheme) res" where
  "MapPackedCounterArrayBuffer G n = (\<lambda>(mm, s).
     andThen (vec_resize G 8 0 n (vec_clear (counter_buffer mm)) s) (\<lambda>(v, s).
     Inr (vec_addr v, mm\<lparr>counter_buffer := v\<rparr>, s)))"

definition ReleasePageRangeToOS ::
    "p64_params \<Rightarrow> uptr \<Rightarrow> u32 \<Rightarrow> u32 \<Rightarrow> memory_mapper \<times> 'a p64_state_scheme \<Rightarrow>
     (memory_mapper \<times> 'a p64_state_scheme) res" where
  "ReleasePageRangeToOS P class_id from to = (\<lambda>(mm, s).
     andThen (GetRegionBeginBySizeClass P class_id s) (\<lambda>region_base.
     let from_page = CompactPtrToPointer region_base from;
         to_page = CompactPtrToPointer region_base to;
         s = note64 (Pages_released from_page to_page) s
     in Inr (mm\<lparr>released_ranges_count := released_ranges_count mm + 1,
                released_bytes := released_bytes mm + (to_page - from_page)\<rparr>, s)))"

section \<open>The tracker of ranges of pages\<close>

record FreePagesRangeTracker64 =
  frt_class_id :: uptr
  page_size_scaled_log :: uptr
  frt_in_the_range :: bool
  frt_current_page :: uptr
  frt_current_range_start_page :: uptr

definition FreePagesRangeTracker_new :: "ct_globals \<Rightarrow> uptr \<Rightarrow> FreePagesRangeTracker64 res" where
  "FreePagesRangeTracker_new G class_id =
     andThen (San_Log2 (drop_bit kCompactPtrScale (page_size G))) (\<lambda>scaled_log.
     Inr \<lparr> frt_class_id = class_id, page_size_scaled_log = scaled_log, frt_in_the_range = False,
           frt_current_page = 0, frt_current_range_start_page = 0 \<rparr>)"

type_synonym 'a tracking = "FreePagesRangeTracker64 \<times> memory_mapper \<times> 'a p64_state_scheme"

definition frt_CloseOpenedRange :: "p64_params \<Rightarrow> 'a tracking \<Rightarrow> 'a tracking res" where
  "frt_CloseOpenedRange P = (\<lambda>(t, st).
     if frt_in_the_range t then
       andThen (ReleasePageRangeToOS P (frt_class_id t)
                  (ucast (push_bit (unat (page_size_scaled_log t)) (frt_current_range_start_page t)))
                  (ucast (push_bit (unat (page_size_scaled_log t)) (frt_current_page t))) st) (\<lambda>st.
       Inr (t\<lparr>frt_in_the_range := False\<rparr>, st))
     else Inr (t, st))"

definition frt_NextPage :: "p64_params \<Rightarrow> bool \<Rightarrow> 'a tracking \<Rightarrow> 'a tracking res" where
  "frt_NextPage P freed = (\<lambda>(t, st).
     andThen (if freed then
                Inr (if \<not> frt_in_the_range t
                     then t\<lparr>frt_current_range_start_page := frt_current_page t, frt_in_the_range := True\<rparr>
                     else t, st)
              else frt_CloseOpenedRange P (t, st)) (\<lambda>(t, st).
     Inr (t\<lparr>frt_current_page := frt_current_page t + 1\<rparr>, st)))"

definition frt_Done :: "p64_params \<Rightarrow> 'a tracking \<Rightarrow> 'a tracking res" where
  "frt_Done P = frt_CloseOpenedRange P"

section \<open>Counting and releasing\<close>

text \<open>The two loops over the free array.\<close>

fun count_one_page :: "PackedCounterArray \<Rightarrow> uptr \<Rightarrow> u32 list \<Rightarrow> u64 list \<Rightarrow> u64 list res" where
  "count_one_page c scaled_log [] buffer = Inr buffer"
| "count_one_page c scaled_log (x # xs) buffer =
     andThen (pca_Inc c (ucast (drop_bit (unat scaled_log) x)) buffer) (count_one_page c scaled_log xs)"

fun count_pages :: "nat \<Rightarrow> PackedCounterArray \<Rightarrow> uptr \<Rightarrow> uptr \<Rightarrow> u32 list \<Rightarrow> u64 list \<Rightarrow> u64 list res" where
  "count_pages fuel c scaled_log chunk_size_scaled [] buffer = Inr buffer"
| "count_pages fuel c scaled_log chunk_size_scaled (x # xs) buffer =
     andThen (pca_IncRange fuel c (ucast (drop_bit (unat scaled_log) x))
                (drop_bit (unat scaled_log) (ucast x + chunk_size_scaled - 1)) buffer)
       (count_pages fuel c scaled_log chunk_size_scaled xs)"

text \<open>
  The loop over the pages. \<open>expected\<close> are the numbers of chunks per page: one number on the fast
  path, the walk along the page and chunk boundaries on the other, which is the walk of
  \<open>chunks_per_pages\<close>.
\<close>

fun track_free_pages ::
    "p64_params \<Rightarrow> PackedCounterArray \<Rightarrow> u64 list \<Rightarrow> uptr \<Rightarrow> uptr list \<Rightarrow> 'a tracking \<Rightarrow> 'a tracking res" where
  "track_free_pages P c buffer i [] st = Inr st"
| "track_free_pages P c buffer i (n # ns) st =
     andThen (pca_Get c buffer i) (\<lambda>v.
     andThen (frt_NextPage P (v = n) st) (track_free_pages P c buffer (i + 1) ns))"

text \<open>
  The case distinction on the sizes is that of \<open>check_fast_release_path\<close>, which the periodic
  release of ClusterTag shares; a chunk size of 0 divides by zero.
\<close>

definition ReleaseFreeMemoryToOS ::
    "ct_globals \<Rightarrow> p64_params \<Rightarrow> u32 list \<Rightarrow> uptr \<Rightarrow> uptr \<Rightarrow> uptr \<Rightarrow>
     memory_mapper \<times> 'a p64_state_scheme \<Rightarrow> (memory_mapper \<times> 'a p64_state_scheme) res" where
  "ReleaseFreeMemoryToOS G P free_chunks chunk_size allocated_pages_count class_id = (\<lambda>(mm, s).
     let page = page_size G in
     andThen (check_fast_release_path page chunk_size) (\<lambda>(full_pages_chunk_count_max, same_chunk_count_per_page).
     andThen (pca_layout allocated_pages_count full_pages_chunk_count_max) (\<lambda>(counters, words).
     andThen (MapPackedCounterArrayBuffer G words (mm, s)) (\<lambda>(buffer_addr, mm, s).
     if buffer_addr = 0 then Inr (mm, s)
     else
       let chunk_size_scaled = drop_bit kCompactPtrScale chunk_size;
           page_size_scaled = drop_bit kCompactPtrScale page
       in
       andThen (San_Log2 page_size_scaled) (\<lambda>scaled_log.
       andThen (if chunk_size \<le> page \<and> page mod chunk_size = 0
                then count_one_page counters scaled_log free_chunks (vdata (counter_buffer mm))
                else count_pages (loop_fuel G) counters scaled_log chunk_size_scaled free_chunks
                       (vdata (counter_buffer mm))) (\<lambda>buffer.
       let mm = mm\<lparr>counter_buffer := (counter_buffer mm)\<lparr>vdata := buffer\<rparr>\<rparr> in
       andThen (FreePagesRangeTracker_new G class_id) (\<lambda>range_tracker.
       andThen (if same_chunk_count_per_page
                then Inr (replicate (unat (pca_n counters)) full_pages_chunk_count_max)
                else if chunk_size_scaled = 0 then Inl Died
                else Inr (chunks_per_pages page_size_scaled chunk_size_scaled (unat (pca_n counters)) 0 0)) (\<lambda>expected.
       andThen (track_free_pages P counters buffer 0 expected (range_tracker, mm, s)) (\<lambda>st.
       andThen (frt_Done P st) (\<lambda>(_, mm, s). Inr (mm, s)))))))))))"

section \<open>The counts\<close>

lemma count_pages_value:
  assumes ok: "pca_ok k c" and c: "0 < cs" and l: "l < 32"
    and fuel: "n + 1 < fuel" and n: "n * 2 ^ l < 2 ^ 32" and fits: "\<forall>j < n. j div 2 ^ (6 - k) < length buffer"
  shows "\<lbrakk>\<forall>i \<in> set is. (i + 1) * cs \<le> n * 2 ^ l;
      \<forall>j < n. pca_value k buffer j + length (filter (meets (2 ^ l) cs j) is) < 2 ^ 2 ^ k\<rbrakk> \<Longrightarrow>
    \<exists>buffer'. count_pages fuel c (of_nat l) (of_nat cs) (map (\<lambda>i. of_nat (i * cs)) is) buffer = Inr buffer' \<and>
      length buffer' = length buffer \<and>
      (\<forall>j < n. pca_value k buffer' j = pca_value k buffer j + length (filter (meets (2 ^ l) cs j) is))"
  using fits
proof (induction "is" arbitrary: buffer)
  case Nil
  then show ?case by simp
next
  case (Cons i "is")
  let ?P = "2 ^ l :: nat"
  have le: "i * cs + cs \<le> n * ?P" using Cons.prems(1) by simp
  have lt: "i * cs + cs < 2 ^ 32" using le n by linarith
  have u1: "unat (of_nat (i * cs) :: u32) = i * cs" using lt by (intro unat_of_nat_small) simp
  have u2: "unat (of_nat cs :: uptr) = cs" using lt by (intro unat_of_nat_small) simp
  have ul: "unat (of_nat l :: uptr) = l" using l by (intro unat_of_nat_small) simp
  have lo: "unat (ucast (drop_bit l (of_nat (i * cs) :: u32)) :: uptr) = i * cs div ?P"
    by (simp only: unat_ucast_32 unat_drop_bit u1)
  have last: "unat (ucast (of_nat (i * cs) :: u32) + of_nat cs - 1 :: uptr) = i * cs + cs - 1"
  proof -
    have "unat (ucast (of_nat (i * cs) :: u32) + of_nat cs :: uptr) = i * cs + cs"
      using lt by (subst unat_add_small) (simp_all only: unat_ucast_32 u1 u2, simp)
    then show ?thesis using c by (subst unat_sub) (simp_all add: word_le_nat_alt)
  qed
  have hi: "unat (drop_bit l (ucast (of_nat (i * cs) :: u32) + of_nat cs - 1 :: uptr)) = (i * cs + cs - 1) div ?P"
    by (simp only: unat_drop_bit last)
  let ?lo = "ucast (drop_bit l (of_nat (i * cs) :: u32)) :: uptr"
    and ?hi = "drop_bit l (ucast (of_nat (i * cs) :: u32) + of_nat cs - 1 :: uptr)"
  have page: "meets ?P cs j i \<longleftrightarrow> unat ?lo \<le> j \<and> j \<le> unat ?hi" for j
    unfolding lo hi by (rule meets_pages [OF c]) simp
  have hn: "unat ?hi < n" unfolding hi
    using le c by (subst div_less_iff_less_mult) simp_all
  have lohi: "unat ?lo \<le> unat ?hi" unfolding lo hi using c by (intro div_le_mono) simp
  have "pca_value k buffer j + 1 < 2 ^ 2 ^ k" if "unat ?lo \<le> j \<and> j \<le> unat ?hi" for j
  proof -
    have "j < n" using that hn by simp
    then show ?thesis using Cons.prems(2) that page [of j] by fastforce
  qed
  moreover have "unat ?hi < 2 ^ 64 - 1" "unat ?hi div 2 ^ (6 - k) < length buffer"
  proof -
    have "n \<le> n * ?P" by simp
    then have "n < 2 ^ 32" using n by linarith
    then have "unat ?hi < 2 ^ 32" using hn by linarith
    then show "unat ?hi < 2 ^ 64 - 1" by simp
    show "unat ?hi div 2 ^ (6 - k) < length buffer" using Cons.prems(3) hn by blast
  qed
  ultimately obtain b1 where b1: "pca_IncRange fuel c ?lo ?hi buffer = Inr b1" "length b1 = length buffer"
      "\<And>j. j div 2 ^ (6 - k) < length buffer \<Longrightarrow>
        pca_value k b1 j = pca_value k buffer j + (if unat ?lo \<le> j \<and> j \<le> unat ?hi then 1 else 0)"
    using pca_IncRange_value [OF ok, of ?hi buffer ?lo fuel] lohi hn fuel by auto
  have v1: "pca_value k b1 j = pca_value k buffer j + (if meets ?P cs j i then 1 else 0)" if "j < n" for j
    using b1(3) Cons.prems(3) that by (simp only: page)
  have "\<forall>j < n. pca_value k b1 j + length (filter (meets ?P cs j) is) < 2 ^ 2 ^ k"
    using Cons.prems(2) v1 by fastforce
  moreover have "\<forall>j < n. j div 2 ^ (6 - k) < length b1" using Cons.prems(3) by (simp add: b1(2))
  moreover have "\<forall>i \<in> set is. (i + 1) * cs \<le> n * ?P" using Cons.prems(1) by simp
  ultimately obtain b2 where
    b2: "count_pages fuel c (of_nat l) (of_nat cs) (map (\<lambda>i. of_nat (i * cs)) is) b1 = Inr b2" "length b2 = length b1"
      "\<forall>j < n. pca_value k b2 j = pca_value k b1 j + length (filter (meets ?P cs j) is)"
    using Cons.IH [of b1] by blast
  then show ?case using b1(1,2) v1 by (auto simp: ul)
qed


lemma pca_IncRange_one: "i \<noteq> - 1 \<Longrightarrow> pca_IncRange (Suc (Suc fuel)) c i i buffer = pca_Inc c i buffer"
proof -
  assume i: "i \<noteq> - 1"
  have "unat (- 1 :: uptr) = 2 ^ 64 - 1" by (simp add: unsigned_minus_1_eq_mask mask_eq_exp_minus_1)
  then have "unat i \<noteq> 18446744073709551615" using i by (auto simp: word_unat_eq_iff)
  then have "unat i + 1 < 18446744073709551616" using unat_less_64 [of i] by linarith
  then have "unat (i + 1) = unat i + 1" by (subst unat_add_small) simp_all
  then have "\<not> i + 1 \<le> i" by (simp add: word_le_nat_alt)
  then show ?thesis by (cases "pca_Inc c i buffer") simp_all
qed

lemma count_one_page_eq:
  assumes c: "0 < cs" "cs \<le> 2 ^ l" "2 ^ l mod cs = 0" and l: "l < 32"
  shows "\<forall>i \<in> set is. (i + 1) * cs < 2 ^ 32 \<Longrightarrow>
    count_one_page d (of_nat l) (map (\<lambda>i. of_nat (i * cs)) is) buffer =
    count_pages (Suc (Suc fuel)) d (of_nat l) (of_nat cs) (map (\<lambda>i. of_nat (i * cs)) is) buffer"
proof (induction "is" arbitrary: buffer)
  case (Cons i "is")
  have lt: "i * cs + cs < 2 ^ 32" using Cons.prems by simp
  have u1: "unat (of_nat (i * cs) :: u32) = i * cs" using lt by (intro unat_of_nat_small) simp
  have u2: "unat (of_nat cs :: uptr) = cs" using lt by (intro unat_of_nat_small) simp
  have ul: "unat (of_nat l :: uptr) = l" using l by (intro unat_of_nat_small) simp
  have "unat (ucast (of_nat (i * cs) :: u32) + of_nat cs :: uptr) = i * cs + cs"
    using lt by (subst unat_add_small) (simp_all only: unat_ucast_32 u1 u2, simp)
  then have last: "unat (ucast (of_nat (i * cs) :: u32) + of_nat cs - 1 :: uptr) = i * cs + cs - 1"
    using c by (subst unat_sub) (simp_all add: word_le_nat_alt)
  let ?x = "ucast (drop_bit l (of_nat (i * cs) :: u32)) :: uptr"
  have x: "unat ?x = i * cs div 2 ^ l" by (simp only: unat_ucast_32 unat_drop_bit u1)
  have "unat (drop_bit l (ucast (of_nat (i * cs) :: u32) + of_nat cs - 1 :: uptr)) = unat ?x"
    unfolding x by (simp only: unat_drop_bit last one_page_same [OF c])
  then have same: "drop_bit l (ucast (of_nat (i * cs) :: u32) + of_nat cs - 1 :: uptr) = ?x"
    by (simp only: word_unat_eq_iff)
  have m1: "unat (- 1 :: uptr) = 18446744073709551615" by (simp add: unsigned_minus_1_eq_mask mask_eq_exp_minus_1)
  have "unat ?x < 4294967296" using unat_less_32 [of "drop_bit l (of_nat (i * cs) :: u32)"] by (simp only: unat_ucast_32)
  then have "unat ?x \<noteq> unat (- 1 :: uptr)" unfolding m1 by linarith
  then have "?x \<noteq> - 1" by metis
  then have "pca_IncRange (Suc (Suc fuel)) d ?x (drop_bit l (ucast (of_nat (i * cs) :: u32) + of_nat cs - 1)) buffer =
      pca_Inc d ?x buffer" for buffer unfolding same by (rule pca_IncRange_one)
  then show ?case using Cons
    by (simp only: list.map count_one_page.simps count_pages.simps ul list.set ball_simps) (metis (no_types, lifting) andThen_cong)
qed simp

section \<open>The ranges\<close>

definition good_release :: "uptr \<Rightarrow> nat \<Rightarrow> (nat \<Rightarrow> bool) \<Rightarrow> p64_event \<Rightarrow> bool" where
  "good_release base l freed e \<longleftrightarrow> (\<exists>a b. a < b \<and> (\<forall>j. a \<le> j \<and> j < b \<longrightarrow> freed j) \<and>
     e = Pages_released (CompactPtrToPointer base (ucast (push_bit l (of_nat a :: uptr))))
           (CompactPtrToPointer base (ucast (push_bit l (of_nat b :: uptr)))))"

text \<open>Before page \<open>m\<close> an open range consists of free pages.\<close>

definition tracker_at :: "nat \<Rightarrow> uptr \<Rightarrow> (nat \<Rightarrow> bool) \<Rightarrow> nat \<Rightarrow> FreePagesRangeTracker64 \<Rightarrow> bool" where
  "tracker_at l class_id freed m t \<longleftrightarrow> frt_class_id t = class_id \<and> page_size_scaled_log t = of_nat l \<and>
     frt_current_page t = of_nat m \<and>
     (frt_in_the_range t \<longrightarrow> (\<exists>a < m. frt_current_range_start_page t = of_nat a \<and> (\<forall>j. a \<le> j \<and> j < m \<longrightarrow> freed j)))"

lemma close_range:
  assumes "frt_CloseOpenedRange P (t, mm, s) = Inr (t', mm', s')" "tracker_at l class_id freed m t" "l < 32"
    "GetRegionBeginBySizeClass P class_id s = Inr base"
  shows "tracker_at l class_id freed m t' \<and> \<not> frt_in_the_range t' \<and>
    (\<exists>evs. s' = s\<lparr>p64_log := evs @ p64_log s\<rparr> \<and> (\<forall>e \<in> set evs. good_release base l freed e))"
proof (cases "frt_in_the_range t")
  case True
  then obtain a where a: "a < m" "frt_current_range_start_page t = of_nat a" "\<forall>j. a \<le> j \<and> j < m \<longrightarrow> freed j"
    using assms(2) by (auto simp: tracker_at_def)
  have ul: "unat (of_nat l :: uptr) = l" using assms(3) by (intro unat_of_nat_small) simp
  let ?e = "Pages_released (CompactPtrToPointer base (ucast (push_bit l (of_nat a :: uptr))))
      (CompactPtrToPointer base (ucast (push_bit l (of_nat m :: uptr))))"
  have "good_release base l freed ?e" using a unfolding good_release_def by blast
  moreover have "s' = s\<lparr>p64_log := [?e] @ p64_log s\<rparr>" "t' = t\<lparr>frt_in_the_range := False\<rparr>"
    using assms(1,2,4) True a(2)
    by (simp_all add: frt_CloseOpenedRange_def ReleasePageRangeToOS_def tracker_at_def note64_def Let_def ul)
  ultimately show ?thesis using assms(2) by (auto simp: tracker_at_def intro!: exI [of _ "[?e]"])
next
  case False
  then have "t' = t" "s' = s" using assms(1) by (simp_all add: frt_CloseOpenedRange_def)
  then show ?thesis using assms(2) False by (auto simp: tracker_at_def intro!: exI [of _ "[]"])
qed

lemma GetRegionBegin_log: "GetRegionBeginBySizeClass P c (s\<lparr>p64_log := evs\<rparr>) = GetRegionBeginBySizeClass P c s"
  by (simp add: GetRegionBeginBySizeClass_def not_in_clustertag_def SpaceBeg_def)

lemma next_page:
  assumes "frt_NextPage P (freed m) (t, mm, s) = Inr (t', mm', s')" "tracker_at l class_id freed m t" "l < 32"
    "GetRegionBeginBySizeClass P class_id s = Inr base"
  shows "tracker_at l class_id freed (m + 1) t' \<and>
    (\<exists>evs. s' = s\<lparr>p64_log := evs @ p64_log s\<rparr> \<and> (\<forall>e \<in> set evs. good_release base l freed e))"
proof (cases "freed m")
  case True
  then have t': "t' = (if \<not> frt_in_the_range t then t\<lparr>frt_current_range_start_page := frt_current_page t,
      frt_in_the_range := True\<rparr> else t)\<lparr>frt_current_page := frt_current_page t + 1\<rparr>" and "s' = s"
    using assms(1) by (auto simp: frt_NextPage_def)
  moreover have "tracker_at l class_id freed (m + 1) t'"
  proof (cases "frt_in_the_range t")
    case in_range: True
    then obtain a where "a < m" "frt_current_range_start_page t = of_nat a" "\<forall>j. a \<le> j \<and> j < m \<longrightarrow> freed j"
      using assms(2) by (auto simp: tracker_at_def)
    then have "a < m + 1" "frt_current_range_start_page t = of_nat a" "\<forall>j. a \<le> j \<and> j < m + 1 \<longrightarrow> freed j"
      using True by (auto simp: less_Suc_eq)
    then show ?thesis using assms(2) in_range unfolding t' tracker_at_def by auto
  next
    case False
    have "\<forall>j. m \<le> j \<and> j < m + 1 \<longrightarrow> freed j" using True by (auto simp: less_Suc_eq)
    then show ?thesis using assms(2) False unfolding t' tracker_at_def by auto
  qed
  ultimately show ?thesis by (auto intro!: exI [of _ "[]"])
next
  case False
  then obtain t1 where c: "frt_CloseOpenedRange P (t, mm, s) = Inr (t1, mm', s')"
    and t': "t' = t1\<lparr>frt_current_page := frt_current_page t1 + 1\<rparr>"
    using assms(1) by (auto simp: frt_NextPage_def andThen_eq_Inr)
  from close_range [OF c assms(2-4)] show ?thesis unfolding t' by (auto simp: tracker_at_def)
qed


lemma track_free_pages_good:
  assumes "l < 32"
  shows "\<lbrakk>track_free_pages P c buffer (of_nat m) ns (t, mm, s) = Inr (t', mm', s'); tracker_at l class_id freed m t;
      GetRegionBeginBySizeClass P class_id s = Inr base;
      \<forall>i < length ns. freed (m + i) \<longleftrightarrow> pca_Get c buffer (of_nat (m + i)) = Inr (ns ! i)\<rbrakk> \<Longrightarrow>
    tracker_at l class_id freed (m + length ns) t' \<and>
    (\<exists>evs. s' = s\<lparr>p64_log := evs @ p64_log s\<rparr> \<and> (\<forall>e \<in> set evs. good_release base l freed e))"
proof (induction ns arbitrary: m t mm s)
  case Nil
  then have "t' = t" "s' = s" by simp_all
  then show ?case using Nil(2) by (intro conjI exI [of _ "[]"]) simp_all
next
  case (Cons x xs)
  obtain v where g: "pca_Get c buffer (of_nat m) = Inr v"
    using Cons.prems(1) by (cases "pca_Get c buffer (of_nat m)") simp_all
  have step: "andThen (frt_NextPage P (v = x) (t, mm, s)) (track_free_pages P c buffer (of_nat m + 1) xs) = Inr (t', mm', s')"
    using Cons.prems(1) by (simp only: track_free_pages.simps g andThen_simps)
  then obtain st1 where st1: "frt_NextPage P (v = x) (t, mm, s) = Inr st1"
    by (cases "frt_NextPage P (v = x) (t, mm, s)") simp_all
  obtain t1 mm1 s1 where st: "st1 = (t1, mm1, s1)" by (rule prod_cases3)
  note n = st1 [unfolded st]
  have r': "track_free_pages P c buffer (of_nat m + 1) xs (t1, mm1, s1) = Inr (t', mm', s')"
    using step by (simp only: n andThen_simps)
  have "(of_nat m + 1 :: uptr) = of_nat (m + 1)" by simp
  with r' have r: "track_free_pages P c buffer (of_nat (m + 1)) xs (t1, mm1, s1) = Inr (t', mm', s')" by (simp only:)
  have f: "freed m \<longleftrightarrow> v = x" using Cons.prems(4) [rule_format, of 0] g by simp
  have "frt_NextPage P (freed m) (t, mm, s) = Inr (t1, mm1, s1)" using n by (simp only: f)
  from next_page [OF this Cons.prems(2) assms Cons.prems(3)] obtain evs where
    one: "tracker_at l class_id freed (m + 1) t1" "s1 = s\<lparr>p64_log := evs @ p64_log s\<rparr>"
      "\<forall>e \<in> set evs. good_release base l freed e" by blast
  have "freed (m + 1 + i) \<longleftrightarrow> pca_Get c buffer (of_nat (m + 1 + i)) = Inr (xs ! i)" if "i < length xs" for i
    using Cons.prems(4) [rule_format, of "Suc i"] that by simp
  then have "\<forall>i < length xs. freed (m + 1 + i) \<longleftrightarrow> pca_Get c buffer (of_nat (m + 1 + i)) = Inr (xs ! i)" by blast
  moreover have "GetRegionBeginBySizeClass P class_id s1 = Inr base" using Cons.prems(3) by (simp add: one(2) GetRegionBegin_log)
  ultimately obtain evs' where "tracker_at l class_id freed (m + 1 + length xs) t'"
      "s' = s1\<lparr>p64_log := evs' @ p64_log s1\<rparr>" "\<forall>e \<in> set evs'. good_release base l freed e"
    using Cons.IH [OF r one(1)] by blast
  then show ?case using one(2,3) by (intro conjI exI [of _ "evs' @ evs"]) auto
qed

section \<open>The release\<close>

lemma packed_path_bound:
  assumes "check_fast_release_path page sz = Inr (full, same)" "unat page = 16 * P" "unat sz = 16 * c" "0 < c" "0 < P"
  shows "on_page P c j \<le> unat full" "full \<noteq> 0" "\<not> same \<Longrightarrow> c \<noteq> P" "sz \<le> page \<and> page mod sz = 0 \<longleftrightarrow> c \<le> P \<and> P mod c = 0"
    "sz \<le> page \<and> page mod sz = 0 \<Longrightarrow> same"
proof -
  have m: "unat (page mod sz) = 16 * (P mod c)" "unat (sz mod page) = 16 * (c mod P)" "unat (page div sz) = P div c"
    by (simp_all add: unat_mod unat_div assms(2,3))
  have m2: "unat (sz mod (page mod sz)) = 16 * (c mod (P mod c))" by (simp add: unat_mod m(1) [unfolded unat_mod] assms(2,3))
  have nz: "page \<noteq> 0" "sz \<noteq> 0" using assms(2-5) by auto
  have le: "sz \<le> page \<longleftrightarrow> c \<le> P" "page < sz \<longleftrightarrow> P < c" by (simp_all add: word_le_nat_alt word_less_nat_alt assms(2,3))
  have z: "page mod sz = 0 \<longleftrightarrow> P mod c = 0" "sz mod page = 0 \<longleftrightarrow> c mod P = 0"
      "sz mod (page mod sz) = 0 \<longleftrightarrow> c mod (P mod c) = 0"
    using m m2 by (simp_all add: word_unat_eq_iff)
  have d: "unat (page div sz + 1) = P div c + 1" "unat (page div sz + 2) = P div c + 2"
  proof -
    have "16 * P < 18446744073709551616" using unat_less_64 [of page] unfolding assms(2) .
    then have "P div c + 2 < 18446744073709551616" using div_le_dividend [of P c] by linarith
    then show "unat (page div sz + 1) = P div c + 1" "unat (page div sz + 2) = P div c + 2"
      using m(3) by (subst unat_add_small; simp)+
  qed
  have s: "j * P mod c + P \<le> (P div c + 2) * c"
  proof -
    have "j * P mod c < c" "P mod c < c" "P div c * c + P mod c = P" using assms(4) by simp_all
    moreover have "(P div c + 2) * c = P div c * c + 2 * c" by (simp only: distrib_right)
    ultimately show ?thesis by linarith
  qed
  have t: "j * P mod c + P \<le> 2 * c" if "P < c" using mod_less_divisor [OF assms(4), of "j * P"] that by linarith
  show "on_page P c j \<le> unat full"
    using assms(1) nz le z on_page_divides [OF assms(4), of P j] on_page_step [OF assms(4), of P j]
      on_page_le [OF assms(4) s] on_page_large [OF assms(5), of c j] on_page_le [OF assms(4), of j P 2] t d m(3)
    by (auto simp: check_fast_release_path_def split: if_splits)
  have "P div c \<noteq> 0" if "c \<le> P" using that assms(4) by (simp add: div_eq_0_iff)
  then show "full \<noteq> 0"
    using assms(1) nz le z d m(3) by (auto simp: check_fast_release_path_def word_unat_eq_iff split: if_splits)
  show "\<not> same \<Longrightarrow> c \<noteq> P" "sz \<le> page \<and> page mod sz = 0 \<longleftrightarrow> c \<le> P \<and> P mod c = 0"
    "sz \<le> page \<and> page mod sz = 0 \<Longrightarrow> same"
    using assms(1) nz le z by (auto simp: check_fast_release_path_def split: if_splits)
qed

lemma all_meet_free:
  assumes "distinct is" "0 < c" "on_page P c j \<le> length (filter (meets P c j) is)" "meets P c j i"
  shows "i \<in> set is"
proof -
  have "card (set (filter (meets P c j) is)) = length (filter (meets P c j) is)"
    using assms(1) by (intro distinct_card) simp
  then have "card {i. meets P c j i} \<le> card (set (filter (meets P c j) is))" using assms(3) by (simp add: card_meets [OF assms(2)])
  moreover have "set (filter (meets P c j) is) \<subseteq> {i. meets P c j i}" by auto
  ultimately have "set (filter (meets P c j) is) = {i. meets P c j i}"
    using card_seteq [OF finite_meets [OF assms(2)]] by blast
  then show ?thesis using assms(4) by (metis (no_types, lifting) mem_Collect_eq set_filter)
qed

lemma filter_bound:
  assumes "distinct is" "0 < c"
  shows "length (filter (meets P c j) is) \<le> on_page P c j"
proof -
  have "length (filter (meets P c j) is) = card (set (filter (meets P c j) is))"
    using assms(1) by (intro distinct_card [symmetric]) simp
  also have "\<dots> \<le> card {i. meets P c j i}" by (rule card_mono [OF finite_meets [OF assms(2)]]) auto
  finally show ?thesis by (simp add: card_meets [OF assms(2)])
qed


text \<open>The memory operations leave the state of the allocator alone.\<close>

definition same_space :: "'a p64_state_scheme \<Rightarrow> 'a p64_state_scheme \<Rightarrow> bool" where
  "same_space s s' \<longleftrightarrow> p64_log s' = p64_log s \<and> is_clustertag s' = is_clustertag s \<and> NonConstSpaceBeg s' = NonConstSpaceBeg s"

lemma same_space_refl [simp]: "same_space s s"
  by (simp add: same_space_def)

lemma same_space_trans: "same_space s s' \<Longrightarrow> same_space s' s'' \<Longrightarrow> same_space s s''"
  by (simp add: same_space_def)

lemma MmapOrDie_space: "MmapOrDie G sz s = Inr (r, s') \<Longrightarrow> same_space s s'"
  by (auto simp: MmapOrDie_def internal_mmap_def syscall_def IncreaseTotalMmap_def zero_range_def same_space_def Let_def
      andThen_eq_Inr split: if_splits)

lemma UnmapOrDie_space: "UnmapOrDie G a sz s = Inr s' \<Longrightarrow> same_space s s'"
  by (auto simp: UnmapOrDie_def internal_munmap_def syscall_def DecreaseTotalMmap_def same_space_def Let_def split: if_splits)

lemma vec_resize_space:
  assumes "vec_resize G es zero n v s = Inr (v', s')"
  shows "same_space s s'"
proof -
  have "same_space s s1" if r: "vec_Realloc G es n v s = Inr (w, s1)" for w s1
  proof -
    from r obtain b d s2 where "MmapOrDie G b s = Inr (d, s2)" "UnmapOrDie G (vec_addr v) (capacity_bytes v) s2 = Inr s1"
      unfolding vec_Realloc_def by (force simp: andThen_eq_Inr)
    then show ?thesis using MmapOrDie_space UnmapOrDie_space same_space_trans by metis
  qed
  then show ?thesis using assms unfolding vec_resize_def vec_reserve_def
    by (auto simp: andThen_eq_Inr split: if_splits)
qed

lemma GetRegionBegin_space:
  "same_space s s' \<Longrightarrow> GetRegionBeginBySizeClass P c s' = GetRegionBeginBySizeClass P c s"
  by (simp add: same_space_def GetRegionBeginBySizeClass_def not_in_clustertag_def SpaceBeg_def)

lemma Log2_exp: "k < 64 \<Longrightarrow> San_Log2 (2 ^ k) = Inr (of_nat k)"
proof -
  assume k: "k < 64"
  then have "unat (2 ^ k :: uptr) = 2 ^ k" by (intro unat_pow2) simp
  then have nz: "(2 ^ k :: uptr) \<noteq> 0" by (auto simp: word_unat_eq_iff)
  have b: "bit (2 ^ k :: uptr) i \<longleftrightarrow> i = k" for i using k by (auto simp: bit_exp_iff possible_bit_word)
  have "bit (2 ^ k :: uptr) (lsb_from 64 0 (2 ^ k))" using lsb_from_first [of "2 ^ k" k 0 64] k b by simp
  then have "lsb_from 64 0 (2 ^ k :: uptr) = k" using b by blast
  then show ?thesis using k nz by (simp add: San_Log2_def IsPowerOfTwo_exp LeastSignificantSetBitIndex_def)
qed


text \<open>The counts after either loop.\<close>

lemma counted:
  assumes ok: "pca_ok k d" and c: "0 < cs" and l: "l < 32" and n: "n * 2 ^ l < 2 ^ 32" and fuel: "n + 1 < fuel"
    and words: "\<forall>j < n. j div 2 ^ (6 - k) < w" and dist: "distinct is"
    and fits: "\<forall>i \<in> set is. (i + 1) * cs \<le> n * 2 ^ l" and bound: "\<forall>j. on_page (2 ^ l) cs j < 2 ^ 2 ^ k"
    and cnt: "(if one then count_one_page d (of_nat l) (map (\<lambda>i. of_nat (i * cs)) is) (replicate w 0)
      else count_pages fuel d (of_nat l) (of_nat cs) (map (\<lambda>i. of_nat (i * cs)) is) (replicate w 0)) = Inr buffer"
    and one: "one \<Longrightarrow> cs \<le> 2 ^ l \<and> 2 ^ l mod cs = 0"
  shows "length buffer = w \<and> (\<forall>j < n. pca_value k buffer j = length (filter (meets (2 ^ l) cs j) is))"
proof -
  have z: "pca_value k (replicate w 0) j = 0" if "j < n" for j
    using words that by (simp add: pca_value_def field_def)
  have room: "\<forall>j < n. pca_value k (replicate w 0) j + length (filter (meets (2 ^ l) cs j) is) < 2 ^ 2 ^ k"
    using z filter_bound [OF dist c] bound le_less_trans by (metis add_0)
  have "count_pages fuel d (of_nat l) (of_nat cs) (map (\<lambda>i. of_nat (i * cs)) is) (replicate w 0) = Inr buffer"
  proof (cases one)
    case True
    have f2: "Suc (Suc (fuel - 2)) = fuel" using fuel by simp
    have "\<forall>i \<in> set is. (i + 1) * cs < 2 ^ 32" using fits n le_less_trans by blast
    from count_one_page_eq [OF c _ _ l this, of d "replicate w 0" "fuel - 2"] one [OF True] cnt True
    show ?thesis unfolding f2 by simp
  qed (use cnt in simp)
  moreover have "\<forall>j < n. j div 2 ^ (6 - k) < length (replicate w (0 :: u64))" using words by simp
  ultimately show ?thesis using count_pages_value [OF ok c l fuel n _ fits room] z by auto
qed

lemma ReleaseFreeMemoryToOS_good:
  assumes page: "page_size G = 2 ^ (l + 4)" "l < 32" and c: "0 < cs" "unat chunk_size = 16 * cs"
    and n: "unat pages = n" "0 < n" "n * 2 ^ l < 2 ^ 32" and fuel: "n + 1 < loop_fuel G"
    and free: "free_chunks = map (\<lambda>i. of_nat (i * cs)) is" "distinct is" "\<forall>i \<in> set is. (i + 1) * cs \<le> n * 2 ^ l"
    and small: "n * 2 ^ l + 3 * cs + 2 * 2 ^ l < 2 ^ 60" and base: "GetRegionBeginBySizeClass P class_id s = Inr base"
    and run: "ReleaseFreeMemoryToOS G P free_chunks chunk_size pages class_id (mm, s) = Inr (mm', s')"
  shows "\<exists>evs. p64_log s' = evs @ p64_log s \<and>
    (\<forall>e \<in> set evs. good_release base l (\<lambda>j. \<forall>i. meets (2 ^ l) cs j i \<longrightarrow> i \<in> set is) e)"
proof -
  let ?P = "2 ^ l :: nat" and ?fr = "\<lambda>j. \<forall>i. meets (2 ^ l) cs j i \<longrightarrow> i \<in> set is"
  have pg: "unat (page_size G) = 16 * ?P" unfolding page(1) using page(2) by (subst unat_pow2) (simp_all add: power_add)
  have nl: "n < 2 ^ 32"
  proof -
    have "n \<le> n * ?P" by simp
    then show ?thesis using n(3) by linarith
  qed
  have n0: "pages \<noteq> 0" using n(1,2) by auto
  from run obtain full same where ck: "check_fast_release_path (page_size G) chunk_size = Inr (full, same)"
    unfolding ReleaseFreeMemoryToOS_def Let_def by (auto simp: andThen_eq_Inr)
  note B = packed_path_bound [OF ck pg c(2,1)]
  have P0: "0 < ?P" by simp
  obtain d words k where lay: "pca_layout pages full = Inr (d, words)" and ok: "pca_ok k d" "pca_n d = pages"
      "unat full < 2 ^ 2 ^ k" "\<forall>i < n. i div 2 ^ (6 - k) < unat words" "unat words \<le> n"
    using pca_layout_ok [OF n0 B(2) [OF P0]] nl n(1) by auto
  have cs32: "cs < 2 ^ 60" "?P < 2 ^ 60" using small by linarith+
  have uP: "unat (2 ^ l :: uptr) = ?P" using page(2) by (intro unat_pow2) simp
  have uc: "unat (of_nat cs :: uptr) = cs" using cs32 by (intro unat_of_nat_small) simp
  have cut: "drop_bit kCompactPtrScale chunk_size = of_nat cs" "drop_bit kCompactPtrScale (page_size G) = 2 ^ l"
    unfolding word_unat_eq_iff kCompactPtrScale_def by (simp_all add: unat_drop_bit pg c(2) uP uc)
  have cs0: "(of_nat cs :: uptr) \<noteq> 0" using uc c(1) by (metis neq0_conv unat_0)
  have log: "San_Log2 (2 ^ l) = Inr (of_nat l)" using page(2) by (intro Log2_exp) simp
  let ?one = "chunk_size \<le> page_size G \<and> page_size G mod chunk_size = 0"
    and ?ex = "if same then replicate n full else chunks_per_pages (2 ^ l) (of_nat cs) n 0 0"
    and ?t = "\<lparr> frt_class_id = class_id, page_size_scaled_log = of_nat l, frt_in_the_range = False,
           frt_current_page = 0, frt_current_range_start_page = 0 \<rparr>"
  obtain v s1 where v: "vec_resize G 8 0 words (vec_clear (counter_buffer mm)) s = Inr (v, s1)"
    and rest: "vec_addr v = 0 \<and> s' = s1 \<or> (\<exists>buffer mm1 t st.
      (if ?one then count_one_page d (of_nat l) free_chunks (vdata v)
       else count_pages (loop_fuel G) d (of_nat l) (of_nat cs) free_chunks (vdata v)) = Inr buffer \<and>
      track_free_pages P d buffer 0 ?ex (?t, mm1, s1) = Inr st \<and> frt_Done P st = Inr (t, mm', s'))"
    using run n(1) ok(2) cs0 unfolding ReleaseFreeMemoryToOS_def
    by (auto simp: Let_def ck lay cut log FreePagesRangeTracker_new_def MapPackedCounterArrayBuffer_def andThen_eq_Inr
        split: if_splits) blast+
  have vd: "vdata v = replicate (unat words) 0"
  proof -
    have "(2 :: nat) ^ l \<le> 2 ^ 31" using page(2) by (intro power_increasing) simp_all
    then have "unat words * 8 + 16 * 2 ^ l < 18446744073709551616" using ok(5) nl by simp
    then show ?thesis using vec_resize_ok(1) [OF _ v _ _ page(1)] pg page(2) by (simp add: vec_clear_def vec_ok_def)
  qed
  note sp = vec_resize_space [OF v]
  have base1: "GetRegionBeginBySizeClass P class_id s1 = Inr base" using base by (simp add: GetRegionBegin_space [OF sp])
  show ?thesis
  proof (cases "vec_addr v = 0 \<and> s' = s1")
    case True
    then show ?thesis using sp by (intro exI [of _ "[]"]) (simp add: same_space_def)
  next
    case False
    with rest obtain buffer mm1 t st where
      cnt: "(if ?one then count_one_page d (of_nat l) free_chunks (vdata v)
        else count_pages (loop_fuel G) d (of_nat l) (of_nat cs) free_chunks (vdata v)) = Inr buffer"
      and tr: "track_free_pages P d buffer 0 ?ex (?t, mm1, s1) = Inr st" and dn: "frt_Done P st = Inr (t, mm', s')" by blast
    have bound: "\<forall>j. on_page ?P cs j < 2 ^ 2 ^ k" using B(1) [OF P0] ok(3) le_less_trans by blast
    have C: "length buffer = unat words \<and> (\<forall>j < n. pca_value k buffer j = length (filter (meets ?P cs j) is))"
      by (rule counted [OF ok(1) c(1) page(2) n(3) fuel ok(4) free(2,3) bound cnt [unfolded free(1) vd]])
        (simp only: B(4) [OF P0])
    have ex: "unat (?ex ! j) = on_page ?P cs j \<or> on_page ?P cs j \<le> unat (?ex ! j) \<and> same" "length ?ex = n" if "j < n" for j
    proof -
      show "length ?ex = n" by simp
      show "unat (?ex ! j) = on_page ?P cs j \<or> on_page ?P cs j \<le> unat (?ex ! j) \<and> same"
      proof (cases same)
        case True
        then show ?thesis using B(1) [OF P0, of j] that by simp
      next
        case False
        have "unat (chunks_per_pages (2 ^ l) (of_nat cs) n 0 0 ! j) = on_page ?P (unat (of_nat cs :: uptr)) (0 + j)"
          using c(1) B(3) [OF P0 False] that small
          by (intro chunks_per_pages_exact) (simp_all add: uc uP up_div_def algebra_simps)
        then show ?thesis using False by (simp add: uc)
      qed
    qed
    define fr where "fr = (\<lambda>j. j < n \<and> pca_Get d buffer (of_nat j) = Inr (?ex ! j))"
    have free_page: "?fr j" if "fr j" for j
    proof -
      have j: "j < n" "pca_Get d buffer (of_nat j) = Inr (?ex ! j)" using that by (simp_all add: fr_def)
      have uj: "unat (of_nat j :: uptr) = j" using j(1) nl by (intro unat_of_nat_small) simp
      have "pca_value k buffer j = unat (?ex ! j)"
        using pca_Get_value [OF ok(1), of "of_nat j" buffer] j C ok(4) by (auto simp: uj)
      then have "on_page ?P cs j \<le> length (filter (meets ?P cs j) is)" using ex(1) [OF j(1)] C j(1) by auto
      then show ?thesis using all_meet_free [OF free(2) c(1)] by blast
    qed
    obtain t1 mm2 s2 where st: "st = (t1, mm2, s2)" by (rule prod_cases3)
    have tr0: "track_free_pages P d buffer (of_nat 0) ?ex (?t, mm1, s1) = Inr (t1, mm2, s2)" using tr by (simp add: st)
    have "tracker_at l class_id fr 0 ?t" by (simp add: tracker_at_def)
    moreover have "\<forall>i < length ?ex. fr (0 + i) \<longleftrightarrow> pca_Get d buffer (of_nat (0 + i)) = Inr (?ex ! i)"
      by (simp add: fr_def)
    ultimately obtain evs where e1: "tracker_at l class_id fr (0 + length ?ex) t1" "s2 = s1\<lparr>p64_log := evs @ p64_log s1\<rparr>"
      "\<forall>e \<in> set evs. good_release base l fr e"
      using track_free_pages_good [OF page(2) tr0 _ base1] by blast
    have "GetRegionBeginBySizeClass P class_id s2 = Inr base" using base1 by (simp add: e1(2) GetRegionBegin_log)
    with close_range [OF dn [unfolded frt_Done_def st] e1(1) page(2)] obtain evs' where
      e2: "s' = s2\<lparr>p64_log := evs' @ p64_log s2\<rparr>" "\<forall>e \<in> set evs'. good_release base l fr e" by blast
    have "good_release base l ?fr e" if "good_release base l fr e" for e
      using that free_page unfolding good_release_def by blast
    then show ?thesis using e1 e2 sp by (intro exI [of _ "evs' @ evs"]) (auto simp: same_space_def)
  qed
qed

section \<open>The release returns\<close>

lemma close_total:
  assumes "GetRegionBeginBySizeClass P (frt_class_id t) s = Inr base"
  shows "\<exists>t' mm' s'. frt_CloseOpenedRange P (t, mm, s) = Inr (t', mm', s') \<and> frt_class_id t' = frt_class_id t \<and>
    GetRegionBeginBySizeClass P (frt_class_id t) s' = Inr base"
  using assms
  by (auto simp: frt_CloseOpenedRange_def ReleasePageRangeToOS_def note64_def GetRegionBegin_log Let_def)

lemma next_page_total:
  assumes "GetRegionBeginBySizeClass P (frt_class_id t) s = Inr base"
  shows "\<exists>t' mm' s'. frt_NextPage P b (t, mm, s) = Inr (t', mm', s') \<and> frt_class_id t' = frt_class_id t \<and>
    GetRegionBeginBySizeClass P (frt_class_id t) s' = Inr base"
proof (cases b)
  case False
  from close_total [OF assms, of mm] obtain t' mm' s' where
    "frt_CloseOpenedRange P (t, mm, s) = Inr (t', mm', s')" "frt_class_id t' = frt_class_id t"
    "GetRegionBeginBySizeClass P (frt_class_id t) s' = Inr base" by blast
  then show ?thesis using False by (simp add: frt_NextPage_def)
qed (use assms in \<open>auto simp: frt_NextPage_def\<close>)

lemma track_free_pages_total:
  "\<lbrakk>GetRegionBeginBySizeClass P (frt_class_id t) s = Inr base; \<forall>i < length ns. \<exists>v. pca_Get c buffer (of_nat (m + i)) = Inr v\<rbrakk> \<Longrightarrow>
   \<exists>t' mm' s'. track_free_pages P c buffer (of_nat m) ns (t, mm, s) = Inr (t', mm', s') \<and> frt_class_id t' = frt_class_id t \<and>
     GetRegionBeginBySizeClass P (frt_class_id t) s' = Inr base"
proof (induction ns arbitrary: m t mm s)
  case (Cons x xs)
  obtain v where v: "pca_Get c buffer (of_nat m) = Inr v" using Cons.prems(2) [rule_format, of 0] by auto
  from next_page_total [OF Cons.prems(1), of "v = x" mm] obtain t1 mm1 s1 where
    n: "frt_NextPage P (v = x) (t, mm, s) = Inr (t1, mm1, s1)" "frt_class_id t1 = frt_class_id t"
      "GetRegionBeginBySizeClass P (frt_class_id t1) s1 = Inr base" by auto
  have "\<exists>v. pca_Get c buffer (of_nat (m + 1 + i)) = Inr v" if "i < length xs" for i
    using Cons.prems(2) [rule_format, of "Suc i"] that by simp
  then have "\<forall>i < length xs. \<exists>v. pca_Get c buffer (of_nat (m + 1 + i)) = Inr v" by blast
  from Cons.IH [OF n(3) this, of mm1] obtain t' mm' s' where
    "track_free_pages P c buffer (of_nat (m + 1)) xs (t1, mm1, s1) = Inr (t', mm', s')"
    "frt_class_id t' = frt_class_id t1" "GetRegionBeginBySizeClass P (frt_class_id t1) s' = Inr base" by blast
  moreover have "(of_nat m + 1 :: uptr) = of_nat (m + 1)" by simp
  ultimately show ?case by (simp only: track_free_pages.simps v n(1,2) andThen_simps)  blast
qed simp

lemma counted_total:
  assumes ok: "pca_ok k d" and c: "0 < cs" and l: "l < 32" and n: "n * 2 ^ l < 2 ^ 32" and fuel: "n + 1 < fuel"
    and words: "\<forall>j < n. j div 2 ^ (6 - k) < w" and dist: "distinct is"
    and fits: "\<forall>i \<in> set is. (i + 1) * cs \<le> n * 2 ^ l" and bound: "\<forall>j. on_page (2 ^ l) cs j < 2 ^ 2 ^ k"
    and one: "one \<Longrightarrow> cs \<le> 2 ^ l \<and> 2 ^ l mod cs = 0"
  shows "\<exists>buffer. (if one then count_one_page d (of_nat l) (map (\<lambda>i. of_nat (i * cs)) is) (replicate w 0)
      else count_pages fuel d (of_nat l) (of_nat cs) (map (\<lambda>i. of_nat (i * cs)) is) (replicate w 0)) = Inr buffer"
proof -
  have z: "pca_value k (replicate w 0) j = 0" if "j < n" for j
    using words that by (simp add: pca_value_def field_def)
  have room: "\<forall>j < n. pca_value k (replicate w 0) j + length (filter (meets (2 ^ l) cs j) is) < 2 ^ 2 ^ k"
    using z filter_bound [OF dist c] bound le_less_trans by (metis add_0)
  have "\<forall>j < n. j div 2 ^ (6 - k) < length (replicate w (0 :: u64))" using words by simp
  from count_pages_value [OF ok c l fuel n this fits room] obtain buffer where
    b: "count_pages fuel d (of_nat l) (of_nat cs) (map (\<lambda>i. of_nat (i * cs)) is) (replicate w 0) = Inr buffer" by blast
  show ?thesis
  proof (cases one)
    case True
    have f2: "Suc (Suc (fuel - 2)) = fuel" using fuel by simp
    have "\<forall>i \<in> set is. (i + 1) * cs < 2 ^ 32" using fits n le_less_trans by blast
    from count_one_page_eq [OF c _ _ l this, of d "replicate w 0" "fuel - 2"] one [OF True] b True
    show ?thesis unfolding f2 by simp
  qed (use b in simp)
qed

lemma fast_path_total: "page \<noteq> 0 \<Longrightarrow> sz \<noteq> 0 \<Longrightarrow> \<exists>full same. check_fast_release_path page sz = Inr (full, same)"
  by (auto simp: check_fast_release_path_def not_le)

lemma ReleaseFreeMemoryToOS_returns:
  assumes page: "page_size G = 2 ^ (l + 4)" "l < 32" and c: "0 < cs" "unat chunk_size = 16 * cs"
    and n: "unat pages = n" "0 < n" "n * 2 ^ l < 2 ^ 32" and fuel: "n + 1 < loop_fuel G"
    and free: "free_chunks = map (\<lambda>i. of_nat (i * cs)) is" "distinct is" "\<forall>i \<in> set is. (i + 1) * cs \<le> n * 2 ^ l"
    and small: "n * 2 ^ l + 3 * cs + 2 * 2 ^ l < 2 ^ 60" and base: "GetRegionBeginBySizeClass P class_id s = Inr base"
    and mapped: "\<And>w. \<exists>r. vec_resize G 8 0 w (vec_clear (counter_buffer mm)) s = Inr r"
  shows "\<exists>mm' s'. ReleaseFreeMemoryToOS G P free_chunks chunk_size pages class_id (mm, s) = Inr (mm', s')"
proof -
  let ?P = "2 ^ l :: nat"
  have pg: "unat (page_size G) = 16 * ?P" unfolding page(1) using page(2) by (subst unat_pow2) (simp_all add: power_add)
  have "n \<le> n * ?P" by simp
  then have nl: "n < 2 ^ 32" using n(3) by linarith
  have n0: "pages \<noteq> 0" using n(1,2) by auto
  have "page_size G \<noteq> 0" "chunk_size \<noteq> 0" using pg c by auto
  then obtain full same where ck: "check_fast_release_path (page_size G) chunk_size = Inr (full, same)"
    using fast_path_total by blast
  note B = packed_path_bound [OF ck pg c(2,1)]
  have P0: "0 < ?P" by simp
  obtain d words k where lay: "pca_layout pages full = Inr (d, words)" and ok: "pca_ok k d" "pca_n d = pages"
      "unat full < 2 ^ 2 ^ k" "\<forall>i < n. i div 2 ^ (6 - k) < unat words" "unat words \<le> n"
    using pca_layout_ok [OF n0 B(2) [OF P0]] nl n(1) by auto
  have cs32: "cs < 2 ^ 60" "?P < 2 ^ 60" using small by linarith+
  have uP: "unat (2 ^ l :: uptr) = ?P" using page(2) by (intro unat_pow2) simp
  have uc: "unat (of_nat cs :: uptr) = cs" using cs32 by (intro unat_of_nat_small) simp
  have cut: "drop_bit kCompactPtrScale chunk_size = of_nat cs" "drop_bit kCompactPtrScale (page_size G) = 2 ^ l"
    unfolding word_unat_eq_iff kCompactPtrScale_def by (simp_all add: unat_drop_bit pg c(2) uP uc)
  have cs0: "(of_nat cs :: uptr) \<noteq> 0" using uc c(1) by (metis neq0_conv unat_0)
  have log: "San_Log2 (2 ^ l) = Inr (of_nat l)" using page(2) by (intro Log2_exp) simp
  obtain v s1 where v: "vec_resize G 8 0 words (vec_clear (counter_buffer mm)) s = Inr (v, s1)"
    using mapped [of words] by auto
  have vd: "vdata v = replicate (unat words) 0"
  proof -
    have "(2 :: nat) ^ l \<le> 2 ^ 31" using page(2) by (intro power_increasing) simp_all
    then have "unat words * 8 + 16 * 2 ^ l < 18446744073709551616" using ok(5) nl by simp
    then show ?thesis using vec_resize_ok(1) [OF _ v _ _ page(1)] pg page(2) by (simp add: vec_clear_def vec_ok_def)
  qed
  have bound: "\<forall>j. on_page ?P cs j < 2 ^ 2 ^ k" using B(1) [OF P0] ok(3) le_less_trans by blast
  let ?one = "chunk_size \<le> page_size G \<and> page_size G mod chunk_size = 0"
  let ?cnt = "if ?one then count_one_page d (of_nat l) free_chunks (vdata v)
      else count_pages (loop_fuel G) d (of_nat l) (of_nat cs) free_chunks (vdata v)"
  have one: "?one \<Longrightarrow> cs \<le> ?P \<and> ?P mod cs = 0" by (simp only: B(4) [OF P0])
  obtain buffer where cnt: "?cnt = Inr buffer"
    using counted_total [OF ok(1) c(1) page(2) n(3) fuel ok(4) free(2,3) bound one] unfolding free(1) vd by blast
  have len: "length buffer = unat words"
    using counted [OF ok(1) c(1) page(2) n(3) fuel ok(4) free(2,3) bound cnt [unfolded free(1) vd] one] by blast
  let ?ex = "if same then replicate (unat pages) full else chunks_per_pages (2 ^ l) (of_nat cs) (unat pages) 0 0"
    and ?t = "\<lparr> frt_class_id = class_id, page_size_scaled_log = of_nat l, frt_in_the_range = False,
           frt_current_page = 0, frt_current_range_start_page = 0 \<rparr>"
  define ex where "ex = ?ex"
  have exn: "length ex = n" by (simp add: n(1) ex_def)
  have get: "\<exists>x. pca_Get d buffer (of_nat (0 + i)) = Inr x" if "i < length ex" for i
  proof -
    have i: "i < n" using that exn by simp
    then have "unat (of_nat i :: uptr) = i" using nl by (intro unat_of_nat_small) simp
    then show ?thesis using pca_Get_value [OF ok(1), of "of_nat i" buffer] ok(4) len i by auto
  qed
  let ?mm = "mm\<lparr>counter_buffer := v\<lparr>vdata := buffer\<rparr>\<rparr>"
  have "GetRegionBeginBySizeClass P (frt_class_id ?t) s1 = Inr base"
    using base GetRegionBegin_space [OF vec_resize_space [OF v]] by simp
  from track_free_pages_total [OF this, of ex d buffer 0 ?mm] get obtain t1 mm1 s2 where
    tr: "track_free_pages P d buffer 0 ex (?t, ?mm, s1) = Inr (t1, mm1, s2)"
    and b2: "GetRegionBeginBySizeClass P (frt_class_id t1) s2 = Inr base" by auto
  from close_total [OF b2, of mm1] obtain t2 mm2 s3 where "frt_CloseOpenedRange P (t1, mm1, s2) = Inr (t2, mm2, s3)" by blast
  then have D: "frt_Done P (t1, mm1, s2) = Inr (t2, mm2, s3)" by (simp add: frt_Done_def)
  have E: "(if same then Inr (replicate (unat (pca_n d)) full) else if (of_nat cs :: uptr) = 0 then Inl Died
      else Inr (chunks_per_pages (2 ^ l) (of_nat cs) (unat (pca_n d)) 0 0)) = Inr ex"
    using cs0 by (simp add: ex_def ok(2))
  have "?one \<Longrightarrow> count_one_page d (of_nat l) free_chunks (vdata v) = Inr buffer"
    "\<not> ?one \<Longrightarrow> count_pages (loop_fuel G) d (of_nat l) (of_nat cs) free_chunks (vdata v) = Inr buffer"
    using cnt by (simp_all only: if_True if_False simp_thms)
  then show ?thesis
    unfolding ReleaseFreeMemoryToOS_def Let_def prod.case ck lay andThen_simps MapPackedCounterArrayBuffer_def v
      FreePagesRangeTracker_new_def cut log E
    by (cases ?one) (auto simp: tr D)
qed

end
