(* ===== verification/Alloc_Support.thy ===== *)
theory Alloc_Support
  imports Hwasan_Heap San_Containers
begin

text \<open>
  What the allocators share (\<open>sanitizer_allocator.h\<close>, \<open>sanitizer_allocator.cpp\<close>,
  \<open>sanitizer_allocator_dlsym.h\<close>): the shuffle of an array, the flags of the allocators, the internal
  allocator, which ClusterTag disables, the low-level allocator and the allocator that serves
  \<open>dlsym\<close>. The internal allocator proper is outside the repository; its operations are arguments
  of the definitions that would call it, and never run because \<open>internal_allocator\<close> exits first.
\<close>

section \<open>Random numbers\<close>

definition Rand :: "u32 \<Rightarrow> u32 \<times> u32" where
  "Rand state = (let state = state * 1103515245 + 12345 in (drop_bit 16 state, state))"

definition RandN :: "u32 \<Rightarrow> u32 \<Rightarrow> u32 \<times> u32" where
  "RandN state n = (let (r, state) = Rand state in (r mod n, state))"

text \<open>The loop for \<open>i\<close> down to 1; the array has at most \<open>2 ^ 32 - 1\<close> elements.\<close>

fun shuffle_down :: "'a list \<Rightarrow> nat \<Rightarrow> u32 \<Rightarrow> 'a list \<times> u32" where
  "shuffle_down a 0 state = (a, state)"
| "shuffle_down a (Suc i) state =
     (let (r, state) = RandN state (of_nat (Suc i) + 1)
      in shuffle_down (swap_at a (Suc i) (unat r)) i state)"

definition RandomShuffle :: "'a list \<Rightarrow> u32 \<Rightarrow> 'a list \<times> u32" where
  "RandomShuffle a rand_state =
     (if length a \<le> 1 then (a, rand_state) else shuffle_down a (length a - 1) rand_state)"

section \<open>Flags\<close>

definition IsAllocatorOutOfMemory :: "'a heap_state_scheme \<Rightarrow> bool" where
  "IsAllocatorOutOfMemory s = allocator_out_of_memory s"

definition SetAllocatorOutOfMemory :: "'a heap_state_scheme \<Rightarrow> 'a heap_state_scheme" where
  "SetAllocatorOutOfMemory s = s\<lparr>allocator_out_of_memory := True\<rparr>"

definition AllocatorMayReturnNull :: "'a heap_state_scheme \<Rightarrow> bool" where
  "AllocatorMayReturnNull s = allocator_may_return_null s"

definition SetAllocatorMayReturnNull :: "bool \<Rightarrow> 'a heap_state_scheme \<Rightarrow> 'a heap_state_scheme" where
  "SetAllocatorMayReturnNull b s = s\<lparr>allocator_may_return_null := b\<rparr>"

definition IsRssLimitExceeded :: "'a heap_state_scheme \<Rightarrow> bool" where
  "IsRssLimitExceeded s = rss_limit_exceeded s"

definition SetRssLimitExceeded :: "bool \<Rightarrow> 'a heap_state_scheme \<Rightarrow> 'a heap_state_scheme" where
  "SetRssLimitExceeded b s = s\<lparr>rss_limit_exceeded := b\<rparr>"

section \<open>The internal allocator\<close>

text \<open>The allocations of the internal allocator, given by their size, alignment and old block.\<close>

record 's internal_ops =
  ia_Allocate :: "uptr \<Rightarrow> uptr \<Rightarrow> 's \<Rightarrow> (uptr \<times> 's) res"
  ia_Reallocate :: "uptr \<Rightarrow> uptr \<Rightarrow> uptr \<Rightarrow> 's \<Rightarrow> (uptr \<times> 's) res"
  ia_Deallocate :: "uptr \<Rightarrow> 's \<Rightarrow> 's res"
  ia_FromPrimary :: "uptr \<Rightarrow> 's \<Rightarrow> bool"
  ia_GetActuallyAllocatedSize :: "uptr \<Rightarrow> 's \<Rightarrow> uptr"
  ia_ForceLock :: "'s \<Rightarrow> 's res"
  ia_ForceUnlock :: "'s \<Rightarrow> 's res"

definition internal_allocator :: "'s internal_ops \<Rightarrow> 's internal_ops res" where
  "internal_allocator ops = Inl (Exit 1)"

definition RawInternalAlloc :: "'s internal_ops \<Rightarrow> uptr \<Rightarrow> uptr \<Rightarrow> 's \<Rightarrow> (uptr \<times> 's) res" where
  "RawInternalAlloc ops sz alignment s =
     (let alignment = (if alignment = 0 then 8 else alignment)
      in andThen (internal_allocator ops) (\<lambda>a. ia_Allocate a sz alignment s))"

definition RawInternalRealloc :: "'s internal_ops \<Rightarrow> uptr \<Rightarrow> uptr \<Rightarrow> 's \<Rightarrow> (uptr \<times> 's) res" where
  "RawInternalRealloc ops p sz s = andThen (internal_allocator ops) (\<lambda>a. ia_Reallocate a p sz 8 s)"

definition RawInternalFree :: "'s internal_ops \<Rightarrow> uptr \<Rightarrow> 's \<Rightarrow> 's res" where
  "RawInternalFree ops p s = andThen (internal_allocator ops) (\<lambda>a. ia_Deallocate a p s)"

text \<open>\<open>ReportInternalAllocatorOutOfMemory\<close> sets the flag and dies.\<close>

definition InternalAlloc :: "'s internal_ops \<Rightarrow> uptr \<Rightarrow> uptr \<Rightarrow> 's \<Rightarrow> (uptr \<times> 's) res" where
  "InternalAlloc ops sz alignment s =
     andThen (RawInternalAlloc ops sz alignment s) (\<lambda>(p, s). if p = 0 then Inl Died else Inr (p, s))"

definition InternalRealloc :: "'s internal_ops \<Rightarrow> uptr \<Rightarrow> uptr \<Rightarrow> 's \<Rightarrow> (uptr \<times> 's) res" where
  "InternalRealloc ops addr sz s =
     andThen (RawInternalRealloc ops addr sz s) (\<lambda>(p, s). if p = 0 then Inl Died else Inr (p, s))"

definition InternalReallocArray ::
    "heap_flags \<Rightarrow> 's internal_ops \<Rightarrow> uptr \<Rightarrow> uptr \<Rightarrow> uptr \<Rightarrow> 's \<Rightarrow> (uptr \<times> 's) res" where
  "InternalReallocArray F ops addr n sz s =
     (if calloc_overflow F n sz then Inl Died else InternalRealloc ops addr (n * sz) s)"

definition InternalCalloc ::
    "heap_flags \<Rightarrow> ('a machine_scheme) internal_ops \<Rightarrow> uptr \<Rightarrow> uptr \<Rightarrow> 'a machine_scheme \<Rightarrow>
     (uptr \<times> 'a machine_scheme) res" where
  "InternalCalloc F ops n sz s =
     (if calloc_overflow F n sz then Inl Died
      else andThen (InternalAlloc ops (n * sz) 0 s) (\<lambda>(p, s).
        Inr (p, if p \<noteq> 0 then on_mem (internal_memset p 0 (n * sz)) s else s)))"

definition InternalFree :: "'s internal_ops \<Rightarrow> uptr \<Rightarrow> 's \<Rightarrow> 's res" where
  "InternalFree ops addr s = RawInternalFree ops addr s"

definition InternalAllocatorLock :: "'s internal_ops \<Rightarrow> 's \<Rightarrow> 's res" where
  "InternalAllocatorLock ops s = andThen (internal_allocator ops) (\<lambda>a. ia_ForceLock a s)"

definition InternalAllocatorUnlock :: "'s internal_ops \<Rightarrow> 's \<Rightarrow> 's res" where
  "InternalAllocatorUnlock ops s = andThen (internal_allocator ops) (\<lambda>a. ia_ForceUnlock a s)"

section \<open>The low-level allocator\<close>

text \<open>
  \<open>low_level_calls\<close> are the ranges the callback was called with; without a callback there are none.
\<close>

record low_level_allocator =
  allocated_current :: uptr
  allocated_end :: uptr
  low_level_alloc_min_alignment :: uptr
  has_low_level_callback :: bool
  low_level_calls :: "(uptr \<times> uptr) list"

definition kLowLevelAllocatorDefaultAlignment :: uptr where "kLowLevelAllocatorDefaultAlignment = 8"

definition low_level_start :: low_level_allocator where
  "low_level_start = \<lparr> allocated_current = 0, allocated_end = 0,
     low_level_alloc_min_alignment = kLowLevelAllocatorDefaultAlignment,
     has_low_level_callback = False, low_level_calls = [] \<rparr>"

definition LowLevelAllocate ::
    "ct_globals \<Rightarrow> uptr \<Rightarrow> low_level_allocator \<times> 'a machine_scheme \<Rightarrow>
     (uptr \<times> low_level_allocator \<times> 'a machine_scheme) res" where
  "LowLevelAllocate G sz = (\<lambda>(a, s).
     andThen (RoundUpTo sz (low_level_alloc_min_alignment a)) (\<lambda>sz.
     andThen (if sint (allocated_end a - allocated_current a) < sint sz then
                andThen (RoundUpTo sz (page_size G)) (\<lambda>size_to_allocate.
                andThen (MmapOrDie G size_to_allocate s) (\<lambda>(p, s).
                let a = a\<lparr>allocated_current := p, allocated_end := p + size_to_allocate\<rparr>;
                    a = (if has_low_level_callback a
                         then a\<lparr>low_level_calls := (p, size_to_allocate) # low_level_calls a\<rparr> else a)
                in Inr (a, s)))
              else Inr (a, s)) (\<lambda>(a, s).
     andThen (check (sint sz \<le> sint (allocated_end a - allocated_current a))) (\<lambda>_.
     Inr (allocated_current a, a\<lparr>allocated_current := allocated_current a + sz\<rparr>, s)))))"

definition SetLowLevelAllocateMinAlignment :: "uptr \<Rightarrow> low_level_allocator \<Rightarrow> low_level_allocator res" where
  "SetLowLevelAllocateMinAlignment alignment a =
     andThen (check (IsPowerOfTwo alignment)) (\<lambda>_.
     Inr (a\<lparr>low_level_alloc_min_alignment := San_Max alignment (low_level_alloc_min_alignment a)\<rparr>))"

definition SetLowLevelAllocateCallback :: "bool \<Rightarrow> low_level_allocator \<Rightarrow> low_level_allocator" where
  "SetLowLevelAllocateCallback callback a = a\<lparr>has_low_level_callback := callback\<rparr>"

section \<open>Memory for \<open>dlsym\<close>\<close>

text \<open>\<open>use_impl\<close> is \<open>Details::UseImpl\<close>, \<open>on_allocate\<close> is \<open>Details::OnAllocate\<close>.\<close>

definition DlSym_Use :: "bool \<Rightarrow> bool" where "DlSym_Use use_impl = use_impl"

definition DlSym_PointerIsMine :: "uptr \<Rightarrow> 'a pool_state_scheme \<Rightarrow> bool" where
  "DlSym_PointerIsMine p s \<longleftrightarrow> p < end_addr (persistent s) \<and> base_addr (persistent s) \<le> p"

definition DlSym_Allocate :: "uptr \<Rightarrow> 'a pool_state_scheme \<Rightarrow> (uptr \<times> 'a pool_state_scheme) res" where
  "DlSym_Allocate sz s = persistent_allocate sz s"

definition DlSym_Callocate ::
    "heap_flags \<Rightarrow> ('a pool_state_scheme) internal_ops \<Rightarrow> (uptr \<Rightarrow> uptr \<Rightarrow> 'a pool_state_scheme \<Rightarrow> 'a pool_state_scheme) \<Rightarrow>
     uptr \<Rightarrow> uptr \<Rightarrow> 'a pool_state_scheme \<Rightarrow> (uptr \<times> 'a pool_state_scheme) res" where
  "DlSym_Callocate F ops on_allocate nmemb sz s =
     andThen (InternalCalloc F ops nmemb sz s) (\<lambda>(p, s).
     andThen (internal_allocator ops) (\<lambda>a. andThen (check (ia_FromPrimary a p s)) (\<lambda>_.
     andThen (internal_allocator ops) (\<lambda>a.
     Inr (p, on_allocate p (ia_GetActuallyAllocatedSize a p s) s)))))"

definition DlSym_Free :: "uptr \<Rightarrow> 'a pool_state_scheme \<Rightarrow> 'a pool_state_scheme" where
  "DlSym_Free p s = s"

definition DlSym_Realloc ::
    "('a pool_state_scheme) internal_ops \<Rightarrow> uptr \<Rightarrow> uptr \<Rightarrow> 'a pool_state_scheme \<Rightarrow>
     (uptr \<times> 'a pool_state_scheme) res" where
  "DlSym_Realloc ops p new_size s =
     (if p = 0 then DlSym_Allocate new_size s
      else
        andThen (internal_allocator ops) (\<lambda>a. andThen (check (ia_FromPrimary a p s)) (\<lambda>_.
        if new_size = 0 then Inr (0, DlSym_Free p s)
        else
          andThen (internal_allocator ops) (\<lambda>a.
          let memcpy_size = San_Min new_size (ia_GetActuallyAllocatedSize a p s) in
          andThen (DlSym_Allocate new_size s) (\<lambda>(new_p, s).
          andThen (if new_p \<noteq> 0 then on_mem_res (\<lambda>m. Inr (internal_memcpy new_p p memcpy_size m)) s else Inr s) (\<lambda>s.
          Inr (new_p, DlSym_Free p s)))))))"

section \<open>The shuffle permutes\<close>

lemma RandN_less:
  assumes "RandN state n = (r, state')" "n \<noteq> 0"
  shows "unat r < unat n"
  using assms by (auto simp: RandN_def Rand_def Let_def unat_mod unat_gt_0)

lemma shuffle_down_perm:
  "i < length a \<Longrightarrow> length a < 2 ^ 32 \<Longrightarrow> mset (fst (shuffle_down a i state)) = mset a"
proof (induction i arbitrary: a state)
  case (Suc i)
  obtain r state' where r: "RandN state (of_nat (Suc i) + 1) = (r, state')" by fastforce
  have e: "(of_nat (Suc i) + 1 :: u32) = of_nat (i + 2)" by simp
  have u: "unat (of_nat (i + 2) :: u32) = i + 2" using Suc.prems by (intro unat_of_nat_small) simp
  then have "of_nat (i + 2) \<noteq> (0 :: u32)" by (metis add_2_eq_Suc' nat.distinct(1) unat_0)
  then have "unat r < i + 2" using RandN_less [OF r [unfolded e]] u by simp
  then have "mset (swap_at a (Suc i) (unat r)) = mset a" using Suc.prems(1) by (intro mset_swap_at) simp_all
  then show ?case using Suc.IH [of "swap_at a (Suc i) (unat r)" state'] Suc.prems r by simp
qed simp

lemma RandomShuffle_perm: "length a < 2 ^ 32 \<Longrightarrow> mset (fst (RandomShuffle a state)) = mset a"
  by (cases a) (auto simp: RandomShuffle_def shuffle_down_perm)

lemma RandomShuffle_length: "length a < 2 ^ 32 \<Longrightarrow> length (fst (RandomShuffle a state)) = length a"
  using RandomShuffle_perm by (metis size_mset)

section \<open>The internal allocator ends the process\<close>

lemma internal_allocator_exits:
  "RawInternalAlloc ops sz alignment s = Inl (Exit 1)" "RawInternalRealloc ops p sz s = Inl (Exit 1)"
  "RawInternalFree ops p s = Inl (Exit 1)" "InternalAlloc ops sz alignment s = Inl (Exit 1)"
  "InternalRealloc ops p sz s = Inl (Exit 1)" "InternalAllocatorLock ops s = Inl (Exit 1)"
  "InternalAllocatorUnlock ops s = Inl (Exit 1)"
  by (simp_all add: RawInternalAlloc_def RawInternalRealloc_def RawInternalFree_def InternalAlloc_def InternalRealloc_def
      InternalAllocatorLock_def InternalAllocatorUnlock_def internal_allocator_def)

lemma DlSym_Realloc_exits: "p \<noteq> 0 \<Longrightarrow> DlSym_Realloc ops p sz s = Inl (Exit 1)"
  by (simp add: DlSym_Realloc_def internal_allocator_def)

lemma DlSym_Callocate_fails: "DlSym_Callocate F ops on_allocate n sz s \<noteq> Inr r"
  by (simp add: DlSym_Callocate_def InternalCalloc_def internal_allocator_exits)

section \<open>Blocks of the low-level allocator\<close>

lemma sint_negative:
  assumes "2 ^ 63 \<le> unat (x :: uptr)"
  shows "sint x < 0"
proof -
  have "bit x 63"
  proof -
    have "unat x div 2 ^ 63 = 1"
    proof (rule div_nat_eqI)
      show "2 ^ 63 * 1 \<le> unat x" using assms by simp
      show "unat x < 2 ^ 63 * Suc 1" using unat_less_64 [of x] by simp
    qed
    then show ?thesis by (simp add: bit_unat_iff)
  qed
  then show ?thesis using bit_last_iff [of x] by simp
qed

text \<open>The block lies in the current mapping and the next one starts behind it.\<close>

lemma LowLevelAllocate_block:
  assumes run: "LowLevelAllocate G sz (a, s) = Inr (p, a', s')" and al: "low_level_alloc_min_alignment a = 2 ^ j" "j < 63"
    and sz: "unat sz + 2 ^ j < 2 ^ 63" and p: "unat p < 2 ^ 63"
  shows "p + round_up sz (2 ^ j) = allocated_current a'" "unat p + unat (round_up sz (2 ^ j)) \<le> unat (allocated_end a')"
    "unat sz \<le> unat (round_up sz (2 ^ j))"
    "p = allocated_current a \<and> allocated_end a' = allocated_end a \<and> s' = s \<or>
      (\<exists>n. MmapOrDie G n s = Inr (p, s') \<and> allocated_end a' = p + n)"
proof -
  let ?r = "round_up sz (2 ^ j)"
  have jl: "j < 64" using al(2) by simp
  have sz2: "unat sz + (2 ^ j - 1) < 2 ^ 64" using sz by simp
  have u: "unat ?r = (unat sz + (2 ^ j - 1)) div 2 ^ j * 2 ^ j" by (rule unat_round_up [OF jl sz2])
  have "(unat sz + (2 ^ j - 1)) div 2 ^ j * 2 ^ j \<le> unat sz + (2 ^ j - 1)" by (rule div_times_less_eq_dividend)
  then have r63: "unat ?r < 2 ^ 63" unfolding u using sz by linarith
  show "unat sz \<le> unat ?r" by (rule round_up_ge [OF jl sz2])
  have F: "allocated_current a' = p + ?r \<and> sint ?r \<le> sint (allocated_end a' - p) \<and>
    (p = allocated_current a \<and> allocated_end a' = allocated_end a \<and> s' = s \<or>
      (\<exists>n. MmapOrDie G n s = Inr (p, s') \<and> allocated_end a' = p + n))"
    using run jl by (auto simp: LowLevelAllocate_def al(1) andThen_eq_Inr Let_def split: if_splits)
  show "p + ?r = allocated_current a'" "p = allocated_current a \<and> allocated_end a' = allocated_end a \<and> s' = s \<or>
      (\<exists>n. MmapOrDie G n s = Inr (p, s') \<and> allocated_end a' = p + n)" using F by auto
  let ?d = "allocated_end a' - p"
  have le: "int (unat ?r) \<le> sint ?d" using F sint_small [OF r63] by simp
  then have d: "unat ?d < 2 ^ 63" using sint_negative [of ?d] by linarith
  then have "unat ?r \<le> unat ?d" using le sint_small [OF d] by linarith
  moreover have "unat p + unat ?d = unat (allocated_end a')"
  proof -
    have "unat (p + ?d) = unat p + unat ?d" using p d by (subst unat_add_small) simp_all
    then show ?thesis by simp
  qed
  ultimately show "unat p + unat ?r \<le> unat (allocated_end a')" by simp
qed

end
