(* ===== verification/Primary64.thy ===== *)
theory Primary64
  imports Free_Pages64 Alloc_Support
begin

text \<open>
  The operations of \<open>SizeClassAllocator64\<close> on the free arrays: start, filling the array of a class with
  new chunks, taking chunks from it, giving them back, and the release of free pages that may
  follow. The size of \<open>RegionInfo\<close>, which holds a mutex of another library, is the argument
  \<open>region_info_size\<close>. A free array is read and written by index; \<open>region_beg\<close> selects it.
\<close>

section \<open>Start\<close>

definition AdditionalSize :: "ct_globals \<Rightarrow> p64_params \<Rightarrow> uptr \<Rightarrow> uptr res" where
  "AdditionalSize G P region_info_size = RoundUpTo (region_info_size * NumClassesRounded64 P) (page_size G)"

definition SetReleaseToOSIntervalMs :: "32 word \<Rightarrow> 'a p64_state_scheme \<Rightarrow> 'a p64_state_scheme" where
  "SetReleaseToOSIntervalMs ms s = s\<lparr>release_to_os_interval_ms := ms\<rparr>"

text \<open>\<open>range_Init\<close> is \<open>ReservedAddressRange::Init\<close> and \<open>InitAligned\<close>: the address reserved.\<close>

definition range_Init :: "'a p64_state_scheme \<Rightarrow> uptr \<times> 'a p64_state_scheme" where
  "range_Init s = syscall s"

definition Init64 ::
    "ct_globals \<Rightarrow> p64_params \<Rightarrow> uptr \<Rightarrow> 32 word \<Rightarrow> uptr \<Rightarrow> 'a p64_state_scheme \<Rightarrow> 'a p64_state_scheme res" where
  "Init64 G P region_info_size release_ms heap_start s =
     andThen (AdditionalSize G P region_info_size) (\<lambda>additional.
     let s = s\<lparr>PremappedHeap := (heap_start \<noteq> 0)\<rparr> in
     andThen
       (if heap_start \<noteq> 0 then
          andThen (check (\<not> kUsingConstantSpaceBeg P)) (\<lambda>_.
          let s = s\<lparr>NonConstSpaceBeg := heap_start\<rparr>;
              (info, s) = range_Init s;
              s = s\<lparr>RegionInfoSpace := info\<rparr>
          in andThen (check (info \<noteq> - 1)) (\<lambda>_.
             let (mapped, s) = range_Map info additional s in
             andThen (check (info = mapped)) (\<lambda>_. Inr (note64 (On_map info additional) s))))
        else
          andThen
            (if kUsingConstantSpaceBeg P then
               andThen (IsAligned (kSpaceBeg P) (kMaxSize (SizeClassMapT P))) (\<lambda>al. andThen (check al) (\<lambda>_.
               let (r, s) = range_Init s in andThen (check (kSpaceBeg P = r)) (\<lambda>_. Inr s)))
             else
               let (r, s) = range_Init s; s = s\<lparr>NonConstSpaceBeg := r\<rparr>
               in andThen (check (r \<noteq> - 1)) (\<lambda>_. Inr s)) (\<lambda>s.
          let s = s\<lparr>RegionInfoSpace := SpaceEnd P s\<rparr> in
          MapWithCallbackOrDie P (RegionInfoSpace s) additional s)) (\<lambda>s.
     Inr (SetReleaseToOSIntervalMs release_ms s)))"

section \<open>Room for the free array and for chunks\<close>

definition kUserMapSize :: uptr where "kUserMapSize = push_bit 16 1"
definition kMetaMapSize :: uptr where "kMetaMapSize = push_bit 16 1"
definition kFreeArrayMapSize :: uptr where "kFreeArrayMapSize = push_bit 16 1"

definition set_region64 :: "uptr \<Rightarrow> (RegionInfo64 \<Rightarrow> RegionInfo64) \<Rightarrow> 'a p64_state_scheme \<Rightarrow> 'a p64_state_scheme" where
  "set_region64 c f s = s\<lparr>regions64 := (regions64 s)(c := f (regions64 s c))\<rparr>"

definition EnsureFreeArraySpace ::
    "p64_params \<Rightarrow> uptr \<Rightarrow> uptr \<Rightarrow> uptr \<Rightarrow> 'a p64_state_scheme \<Rightarrow> (bool \<times> 'a p64_state_scheme) res" where
  "EnsureFreeArraySpace P class_id region_beg n s =
     (let needed_space = n * 4; mapped = mapped_free_array (regions64 s class_id) in
      if mapped < needed_space then
        andThen (RoundUpTo needed_space kFreeArrayMapSize) (\<lambda>new_mapped.
        andThen (check (new_mapped \<le> kFreeArraySize P)) (\<lambda>_.
        andThen (MapWithCallback P (GetFreeArray P region_beg + mapped) (new_mapped - mapped) s) (\<lambda>(ok, s).
        if \<not> ok then Inr (False, s)
        else Inr (True, set_region64 class_id (mapped_free_array_update (\<lambda>_. new_mapped)) s))))
      else Inr (True, s))"

definition IsRegionExhausted ::
    "p64_params \<Rightarrow> uptr \<Rightarrow> uptr \<Rightarrow> 'a p64_state_scheme \<Rightarrow> bool \<times> 'a p64_state_scheme" where
  "IsRegionExhausted P class_id additional_map_size s =
     (let r = regions64 s class_id in
      if mapped_user r + mapped_meta r + additional_map_size \<le> kRegionSize P - kFreeArraySize P then (False, s)
      else (True, set_region64 class_id (exhausted_update (\<lambda>_. True)) s))"

text \<open>The loop that writes the \<open>n\<close> new chunks, the first one at the end.\<close>

fun fill_free_array :: "uptr \<Rightarrow> nat \<Rightarrow> uptr \<Rightarrow> nat \<Rightarrow> (nat \<Rightarrow> u32) \<Rightarrow> nat \<Rightarrow> u32" where
  "fill_free_array sz 0 ch top_idx fa = fa"
| "fill_free_array sz (Suc n) ch top_idx fa =
     fill_free_array sz n (ch + sz) (top_idx - 1) (fa(top_idx := PointerToCompactPtr 0 ch))"

definition shuffle_slice :: "nat \<Rightarrow> nat \<Rightarrow> u32 \<Rightarrow> (nat \<Rightarrow> u32) \<Rightarrow> (nat \<Rightarrow> u32) \<times> u32" where
  "shuffle_slice start n state fa =
     (let (xs, state) = RandomShuffle (map fa [start..<start + n]) state
      in (\<lambda>i. if start \<le> i \<and> i < start + n then xs ! (i - start) else fa i, state))"

text \<open>What happens before the first mapping of a region, and then the mapping.\<close>

definition first_map :: "p64_params \<Rightarrow> uptr \<Rightarrow> uptr \<Rightarrow> 'a p64_state_scheme \<Rightarrow> 'a p64_state_scheme" where
  "first_map P class_id region_beg s =
     (if mapped_user (regions64 s class_id) = 0 then
        let s = (if \<not> kUsingConstantSpaceBeg P \<and> kRandomShuffleChunks P
                 then set_region64 class_id (rand_state_update (\<lambda>_. ucast (drop_bit 12 region_beg))) s else s)
        in if 0 \<le> sint (release_to_os_interval_ms s) then
             let (now, s) = MonotonicNanoTime s
             in set_region64 class_id (\<lambda>r. r\<lparr>rtoi := (rtoi r)\<lparr>last_release_ns := now\<rparr>\<rparr>) s
           else s
      else s)"

definition map_user_space ::
    "p64_params \<Rightarrow> uptr \<Rightarrow> uptr \<Rightarrow> uptr \<Rightarrow> 'a p64_state_scheme \<Rightarrow> (bool \<times> 'a p64_state_scheme) res" where
  "map_user_space P class_id region_beg total_user_bytes s =
     (if mapped_user (regions64 s class_id) < total_user_bytes then
        let s = first_map P class_id region_beg s in
        andThen (RoundUpTo (total_user_bytes - mapped_user (regions64 s class_id)) kUserMapSize) (\<lambda>user_map_size.
        let (full, s) = IsRegionExhausted P class_id user_map_size s in
        if full then Inr (False, s)
        else
          andThen (MapWithCallback P (region_beg + mapped_user (regions64 s class_id)) user_map_size s) (\<lambda>(ok, s).
          if \<not> ok then Inr (False, s)
          else
            let s = note64 (Stat_add AllocatorStatMapped user_map_size) s
            in Inr (True, set_region64 class_id (\<lambda>r. r\<lparr>mapped_user := mapped_user r + user_map_size\<rparr>) s)))
      else Inr (True, s))"

definition map_meta_space ::
    "p64_params \<Rightarrow> uptr \<Rightarrow> uptr \<Rightarrow> uptr \<Rightarrow> 'a p64_state_scheme \<Rightarrow> (bool \<times> 'a p64_state_scheme) res" where
  "map_meta_space P class_id region_beg new_chunks_count s =
     (if kMetadataSize P \<noteq> 0 then
        let r = regions64 s class_id;
            total_meta_bytes = allocated_meta r + new_chunks_count * kMetadataSize P
        in
        andThen (if mapped_meta r < total_meta_bytes
                 then RoundUpTo (total_meta_bytes - mapped_meta r) kMetaMapSize else Inr 0) (\<lambda>meta_map_size.
        if meta_map_size \<noteq> 0 then
          let (full, s) = IsRegionExhausted P class_id meta_map_size s in
          if full then Inr (False, s)
          else
            andThen (MapWithCallback P (GetMetadataEnd P region_beg - mapped_meta (regions64 s class_id) - meta_map_size)
                       meta_map_size s) (\<lambda>(ok, s).
            if \<not> ok then Inr (False, s)
            else Inr (True, set_region64 class_id (\<lambda>r. r\<lparr>mapped_meta := mapped_meta r + meta_map_size\<rparr>) s))
        else Inr (True, s))
      else Inr (True, s))"

section \<open>Filling the free array\<close>

text \<open>The new chunks enter the free array and the counters, once there is room for them.\<close>

definition write_new_chunks :: "p64_params \<Rightarrow> uptr \<Rightarrow> uptr \<Rightarrow> uptr \<Rightarrow> 'a p64_state_scheme \<Rightarrow> 'a p64_state_scheme" where
  "write_new_chunks P class_id region_beg new_chunks_count s =
     (let r = regions64 s class_id;
          a = GetFreeArray P region_beg;
          sz = ClassIdToSize P class_id;
          total_freed_chunks = num_freed_chunks r + new_chunks_count;
          fa = fill_free_array sz (unat new_chunks_count) (allocated_user r) (unat (total_freed_chunks - 1)) (free_array s a);
          (fa, rs) = (if kRandomShuffleChunks P
                      then shuffle_slice (unat (num_freed_chunks r)) (unat (ucast new_chunks_count :: u32)) (rand_state r) fa
                      else (fa, rand_state r))
      in set_region64 class_id (\<lambda>_. r\<lparr>rand_state := rs, num_freed_chunks := total_freed_chunks,
             allocated_user := allocated_user r + new_chunks_count * sz,
             allocated_meta := allocated_meta r + new_chunks_count * kMetadataSize P, exhausted := False\<rparr>)
           (s\<lparr>free_array := (free_array s)(a := fa)\<rparr>))"

text \<open>\<open>PopulateFreeArray\<close> in its three parts: the region grows, the metadata grows, the array grows.\<close>

definition populate_array ::
    "p64_params \<Rightarrow> uptr \<Rightarrow> uptr \<Rightarrow> uptr \<Rightarrow> 'a p64_state_scheme \<Rightarrow> (bool \<times> 'a p64_state_scheme) res" where
  "populate_array P class_id region_beg new_chunks_count s =
     andThen (EnsureFreeArraySpace P class_id region_beg (num_freed_chunks (regions64 s class_id) + new_chunks_count) s)
       (\<lambda>(ok, s).
     if \<not> ok then Inr (False, s)
     else
       let s' = write_new_chunks P class_id region_beg new_chunks_count s; r = regions64 s' class_id in
       andThen (check (allocated_user r \<le> mapped_user r)) (\<lambda>_.
       andThen (check (allocated_meta r \<le> mapped_meta r)) (\<lambda>_.
       Inr (True, s'))))"

definition populate_meta ::
    "p64_params \<Rightarrow> uptr \<Rightarrow> uptr \<Rightarrow> 'a p64_state_scheme \<Rightarrow> (bool \<times> 'a p64_state_scheme) res" where
  "populate_meta P class_id region_beg s =
     (let sz = ClassIdToSize P class_id; r = regions64 s class_id in
      if sz = 0 then Inl Died
      else
        let new_chunks_count = (mapped_user r - allocated_user r) div sz in
        andThen (map_meta_space P class_id region_beg new_chunks_count s) (\<lambda>(ok, s).
        if \<not> ok then Inr (False, s)
        else populate_array P class_id region_beg new_chunks_count s))"

definition PopulateFreeArray ::
    "p64_params \<Rightarrow> uptr \<Rightarrow> uptr \<Rightarrow> 'a p64_state_scheme \<Rightarrow> (bool \<times> 'a p64_state_scheme) res" where
  "PopulateFreeArray P class_id requested_count s =
     andThen (GetRegionBeginBySizeClass P class_id s) (\<lambda>region_beg.
     let total_user_bytes = allocated_user (regions64 s class_id) + requested_count * ClassIdToSize P class_id in
     andThen (map_user_space P class_id region_beg total_user_bytes s) (\<lambda>(ok, s).
     if \<not> ok then Inr (False, s)
     else populate_meta P class_id region_beg s))"

text \<open>The chunks are the result; \<open>None\<close> is the value false.\<close>

definition GetFromAllocator ::
    "p64_params \<Rightarrow> uptr \<Rightarrow> uptr \<Rightarrow> 'a p64_state_scheme \<Rightarrow> (u32 list option \<times> 'a p64_state_scheme) res" where
  "GetFromAllocator P class_id n_chunks s =
     andThen (GetRegionBeginBySizeClass P class_id s) (\<lambda>region_beg.
     andThen (if num_freed_chunks (regions64 s class_id) < n_chunks then
                andThen (PopulateFreeArray P class_id (n_chunks - num_freed_chunks (regions64 s class_id)) s) (\<lambda>(ok, s).
                if \<not> ok then Inr (False, s)
                else andThen (check (n_chunks \<le> num_freed_chunks (regions64 s class_id))) (\<lambda>_. Inr (True, s)))
              else Inr (True, s)) (\<lambda>(ok, s).
     if \<not> ok then Inr (None, s)
     else
       let base_idx = num_freed_chunks (regions64 s class_id) - n_chunks;
           chunks = map (free_array s (GetFreeArray P region_beg)) [unat base_idx..<unat base_idx + unat n_chunks];
           s = set_region64 class_id (\<lambda>r. r\<lparr>num_freed_chunks := base_idx,
                 stats64 := (stats64 r)\<lparr>n_allocated := n_allocated (stats64 r) + n_chunks\<rparr>\<rparr>) s
       in Inr (Some chunks, s)))"

section \<open>Giving memory back\<close>

text \<open>Whether the interval since the last release of the class is still running.\<close>

definition release_waits :: "RegionInfo64 \<Rightarrow> bool \<Rightarrow> 'a p64_state_scheme \<Rightarrow> bool \<times> 'a p64_state_scheme" where
  "release_waits r force s =
     (let interval_ms = release_to_os_interval_ms s in
      if force then (False, s)
      else if sint interval_ms < 0 then (True, s)
      else let (now, s) = MonotonicNanoTime s
           in (now < last_release_ns (rtoi r) + scast interval_ms * 1000000, s))"

definition note_release :: "uptr \<Rightarrow> memory_mapper \<times> 'a p64_state_scheme \<Rightarrow> memory_mapper \<times> 'a p64_state_scheme" where
  "note_release class_id = (\<lambda>(mm, s).
     let ((any, ranges, bytes), mm) = GetAndResetStats mm;
         s = (if any
              then set_region64 class_id (\<lambda>r. r\<lparr>rtoi := (rtoi r)
                     \<lparr>n_freed_at_last_release := n_freed (stats64 r),
                      num_releases := num_releases (rtoi r) + ranges, last_released_bytes := bytes\<rparr>\<rparr>) s
              else s);
         (now, s) = MonotonicNanoTime s
     in (mm, set_region64 class_id (\<lambda>r. r\<lparr>rtoi := (rtoi r)\<lparr>last_release_ns := now\<rparr>\<rparr>) s))"

definition MaybeReleaseToOS ::
    "ct_globals \<Rightarrow> p64_params \<Rightarrow> uptr \<Rightarrow> bool \<Rightarrow> memory_mapper \<times> 'a p64_state_scheme \<Rightarrow>
     (memory_mapper \<times> 'a p64_state_scheme) res" where
  "MaybeReleaseToOS G P class_id force = (\<lambda>(mm, s).
     let r = regions64 s class_id;
         chunk_size = ClassIdToSize P class_id;
         page = page_size G;
         n = num_freed_chunks r
     in
     if n * chunk_size < page then Inr (mm, s)
     else if (n_freed (stats64 r) - n_freed_at_last_release (rtoi r)) * chunk_size < page then Inr (mm, s)
     else
       let (wait, s) = release_waits r force s in
       if wait then Inr (mm, s)
       else
         andThen (GetRegionBeginBySizeClass P class_id s) (\<lambda>region_beg.
         andThen (RoundUpTo (allocated_user r) page) (\<lambda>rounded.
         if page = 0 then Inl Died
         else
           andThen (ReleaseFreeMemoryToOS G P (map (free_array s (GetFreeArray P region_beg)) [0..<unat n]) chunk_size
                      (rounded div page) class_id (mm, s)) (\<lambda>st. Inr (note_release class_id st)))))"

definition ReturnToAllocator ::
    "ct_globals \<Rightarrow> p64_params \<Rightarrow> uptr \<Rightarrow> u32 list \<Rightarrow> memory_mapper \<times> 'a p64_state_scheme \<Rightarrow>
     (memory_mapper \<times> 'a p64_state_scheme) res" where
  "ReturnToAllocator G P class_id chunks = (\<lambda>(mm, s).
     andThen (GetRegionBeginBySizeClass P class_id s) (\<lambda>region_beg.
     let n_chunks = of_nat (length chunks);
         old_num_chunks = num_freed_chunks (regions64 s class_id);
         new_num_freed_chunks = old_num_chunks + n_chunks
     in
     andThen (EnsureFreeArraySpace P class_id region_beg new_num_freed_chunks s) (\<lambda>(ok, s).
     if \<not> ok then Inl Died
     else
       let a = GetFreeArray P region_beg;
           k = unat old_num_chunks;
           fa = (\<lambda>i. if k \<le> i \<and> i < k + length chunks then chunks ! (i - k) else free_array s a i);
           s = s\<lparr>free_array := (free_array s)(a := fa)\<rparr>;
           s = set_region64 class_id (\<lambda>r. r\<lparr>num_freed_chunks := new_num_freed_chunks,
                 stats64 := (stats64 r)\<lparr>n_freed := n_freed (stats64 r) + n_chunks\<rparr>\<rparr>) s
       in MaybeReleaseToOS G P class_id False (mm, s))))"

text \<open>The classes from \<open>class_id\<close> on; \<open>n\<close> of them are left.\<close>

fun force_release :: "ct_globals \<Rightarrow> p64_params \<Rightarrow> nat \<Rightarrow> uptr \<Rightarrow> memory_mapper \<times> 'a p64_state_scheme \<Rightarrow>
    (memory_mapper \<times> 'a p64_state_scheme) res" where
  "force_release G P 0 class_id st = Inr st"
| "force_release G P (Suc n) class_id st =
     andThen (MaybeReleaseToOS G P class_id True st) (force_release G P n (class_id + 1))"

definition ForceReleaseToOS :: "ct_globals \<Rightarrow> p64_params \<Rightarrow> 'a p64_state_scheme \<Rightarrow> 'a p64_state_scheme res" where
  "ForceReleaseToOS G P s =
     andThen (force_release G P (unat (NumClasses64 P) - 1) 1 (new_mapper, s)) (\<lambda>(mm, s). Inr s)"

section \<open>Iterating\<close>

text \<open>The chunks of one class, with fuel; a chunk size of 0 never ends.\<close>

fun chunks_of_class :: "nat \<Rightarrow> uptr \<Rightarrow> uptr \<Rightarrow> uptr \<Rightarrow> uptr list res" where
  "chunks_of_class 0 sz ch hi = Inl Out_of_fuel"
| "chunks_of_class (Suc fuel) sz ch hi =
     (if ch < hi then andThen (chunks_of_class fuel sz (ch + sz) hi) (\<lambda>cs. Inr (ch # cs)) else Inr [])"

fun chunks_of_classes :: "nat \<Rightarrow> p64_params \<Rightarrow> nat \<Rightarrow> uptr \<Rightarrow> 'a p64_state_scheme \<Rightarrow> uptr list res" where
  "chunks_of_classes fuel P 0 class_id s = Inr []"
| "chunks_of_classes fuel P (Suc n) class_id s =
     (let region_beg = SpaceBeg P s + class_id * kRegionSize P in
      andThen (chunks_of_class fuel (ClassIdToSize P class_id) region_beg
                 (region_beg + allocated_user (regions64 s class_id))) (\<lambda>cs.
      andThen (chunks_of_classes fuel P n (class_id + 1) s) (\<lambda>ds. Inr (cs @ ds))))"

text \<open>The chunks \<open>ForEachChunk\<close> calls its callback with, in order.\<close>

definition ForEachChunk64 :: "ct_globals \<Rightarrow> p64_params \<Rightarrow> 'a p64_state_scheme \<Rightarrow> uptr list res" where
  "ForEachChunk64 G P s = chunks_of_classes (loop_fuel G) P (unat (NumClasses64 P) - 1) 1 s"

fun FillMemoryProfile :: "uptr \<Rightarrow> uptr \<Rightarrow> uptr list \<Rightarrow> uptr list" where
  "FillMemoryProfile start rss [] = []"
| "FillMemoryProfile start rss (x # xs) = (if x = start then rss else x) # FillMemoryProfile start rss xs"

section \<open>What the helpers leave alone\<close>

definition keeps :: "'a p64_state_scheme \<Rightarrow> 'a p64_state_scheme \<Rightarrow> bool" where
  "keeps s s' \<longleftrightarrow> regions64 s' = regions64 s \<and> free_array s' = free_array s \<and> NonConstSpaceBeg s' = NonConstSpaceBeg s \<and>
     is_clustertag s' = is_clustertag s \<and> p64_state.more s' = p64_state.more s"

lemma keeps_refl [simp]: "keeps s s"
  by (simp add: keeps_def)

lemma keeps_trans: "keeps s s' \<Longrightarrow> keeps s' s'' \<Longrightarrow> keeps s s''"
  by (simp add: keeps_def)

lemma keeps_note [simp]: "keeps s (note64 e s)"
  by (simp add: keeps_def note64_def)

lemma MapWithCallback_keeps: "MapWithCallback P b z s = Inr (ok, s') \<Longrightarrow> keeps s s'"
  by (auto simp: MapWithCallback_def range_Map_def syscall_def note64_def keeps_def Let_def andThen_eq_Inr split: if_splits)

lemma MmapOrDie_keeps: "MmapOrDie G sz s = Inr (r, s') \<Longrightarrow> keeps s s'"
  by (auto simp: MmapOrDie_def internal_mmap_def syscall_def IncreaseTotalMmap_def zero_range_def keeps_def Let_def
      andThen_eq_Inr split: if_splits)

lemma UnmapOrDie_keeps: "UnmapOrDie G a sz s = Inr s' \<Longrightarrow> keeps s s'"
  by (auto simp: UnmapOrDie_def internal_munmap_def syscall_def DecreaseTotalMmap_def keeps_def Let_def split: if_splits)

lemma vec_resize_keeps:
  assumes "vec_resize G es zero n v s = Inr (v', s')"
  shows "keeps s s'"
proof -
  have "keeps s s1" if r: "vec_Realloc G es n v s = Inr (w, s1)" for w s1
  proof -
    from r obtain b d s2 where "MmapOrDie G b s = Inr (d, s2)" "UnmapOrDie G (vec_addr v) (capacity_bytes v) s2 = Inr s1"
      unfolding vec_Realloc_def by (force simp: andThen_eq_Inr)
    then show ?thesis using MmapOrDie_keeps UnmapOrDie_keeps keeps_trans by metis
  qed
  then show ?thesis using assms unfolding vec_resize_def vec_reserve_def by (auto simp: andThen_eq_Inr split: if_splits)
qed

lemma close_keeps: "frt_CloseOpenedRange P (t, mm, s) = Inr (t', mm', s') \<Longrightarrow> keeps s s'"
  by (auto simp: frt_CloseOpenedRange_def ReleasePageRangeToOS_def andThen_eq_Inr Let_def split: if_splits)

lemma next_keeps: "frt_NextPage P b (t, mm, s) = Inr (t', mm', s') \<Longrightarrow> keeps s s'"
  by (cases b) (auto simp: frt_NextPage_def andThen_eq_Inr dest: close_keeps)

lemma track_keeps: "track_free_pages P c buffer i ns (t, mm, s) = Inr (t', mm', s') \<Longrightarrow> keeps s s'"
proof (induction ns arbitrary: i t mm s)
  case (Cons x xs)
  obtain v where v: "pca_Get c buffer i = Inr v" using Cons.prems by (cases "pca_Get c buffer i") simp_all
  have step: "andThen (frt_NextPage P (v = x) (t, mm, s)) (track_free_pages P c buffer (i + 1) xs) = Inr (t', mm', s')"
    using Cons.prems by (simp only: track_free_pages.simps v andThen_simps)
  then obtain st1 where st1: "frt_NextPage P (v = x) (t, mm, s) = Inr st1"
    by (cases "frt_NextPage P (v = x) (t, mm, s)") simp_all
  obtain t1 mm1 s1 where st: "st1 = (t1, mm1, s1)" by (rule prod_cases3)
  have "track_free_pages P c buffer (i + 1) xs (t1, mm1, s1) = Inr (t', mm', s')"
    using step by (simp only: st1 st andThen_simps)
  from keeps_trans [OF next_keeps [OF st1 [unfolded st]] Cons.IH [OF this]] show ?case .
qed simp

lemma done_keeps: "track_free_pages P c buffer 0 ex (t, mm, s) = Inr st \<Longrightarrow> frt_Done P st = Inr (t', mm', s') \<Longrightarrow> keeps s s'"
  by (cases st) (auto simp: frt_Done_def dest: track_keeps close_keeps intro: keeps_trans)

lemma done_trans:
  "keeps s0 s \<Longrightarrow> track_free_pages P c buffer 0 ex (t, mm, s) = Inr st \<Longrightarrow> frt_Done P st = Inr (t', mm', s') \<Longrightarrow> keeps s0 s'"
  by (rule keeps_trans [OF _ done_keeps])

lemma buffer_keeps: "MapPackedCounterArrayBuffer G words (mm, s) = Inr (addr, mm', s') \<Longrightarrow> keeps s s'"
  by (auto simp: MapPackedCounterArrayBuffer_def andThen_eq_Inr dest: vec_resize_keeps)


definition yields :: "'a res \<Rightarrow> ('a \<Rightarrow> bool) \<Rightarrow> bool" where
  "yields r Q \<longleftrightarrow> (case r of Inl e \<Rightarrow> True | Inr v \<Rightarrow> Q v)"

lemma yields_simps [simp]: "yields (Inl e) Q" "yields (Inr v) Q = Q v"
  by (simp_all add: yields_def)

lemma yields_True: "yields r (\<lambda>_. True)"
  by (cases r) simp_all

lemma yields_andThen: "yields m Q \<Longrightarrow> (\<And>v. Q v \<Longrightarrow> yields (f v) R) \<Longrightarrow> yields (andThen m f) R"
  by (cases m) simp_all

lemma yields_bind: "(\<And>v. m = Inr v \<Longrightarrow> yields (f v) R) \<Longrightarrow> yields (andThen m f) R"
  by (cases m) simp_all

lemma yieldsD: "yields r Q \<Longrightarrow> r = Inr v \<Longrightarrow> Q v"
  by simp

lemma yieldsI: "(\<And>v. r = Inr v \<Longrightarrow> Q v) \<Longrightarrow> yields r Q"
  by (cases r) simp_all

lemma release_keeps:
  "yields (ReleaseFreeMemoryToOS G P fc sz pages c (mm, s)) (\<lambda>(mm', s'). keeps s s')"
  unfolding ReleaseFreeMemoryToOS_def Let_def prod.case
  apply (rule yields_andThen [OF yields_True], simp only: split_paired_all prod.case)
  apply (rule yields_andThen [OF yields_True], simp only: split_paired_all prod.case)
  apply (rule yields_andThen [where Q = "\<lambda>(addr, mm1, s1). keeps s s1"])
   apply (rule yieldsI, clarify, erule buffer_keeps)
  apply (simp only: split_paired_all prod.case)
  apply (rule if_split [THEN iffD2], intro conjI impI)
   apply simp
  apply (rule yields_andThen [OF yields_True])
  apply (rule yields_andThen [OF yields_True])
  apply (rule yields_andThen [OF yields_True])
  apply (rule yields_andThen [OF yields_True])
  apply (rule yields_bind)
  apply (rule yields_bind)
  apply (clarsimp simp: yields_def split: sum.split)
  apply (blast intro: done_trans)
  done

section \<open>The chunks of a class\<close>

text \<open>The fields of a class that say which chunks are free and which parts are mapped.\<close>

definition same_pool :: "'a p64_state_scheme \<Rightarrow> 'a p64_state_scheme \<Rightarrow> uptr \<Rightarrow> bool" where
  "same_pool s s' c \<longleftrightarrow> p64_state.more s' = p64_state.more s \<and> free_array s' = free_array s \<and> NonConstSpaceBeg s' = NonConstSpaceBeg s \<and> is_clustertag s' = is_clustertag s \<and>
     num_freed_chunks (regions64 s' c) = num_freed_chunks (regions64 s c) \<and>
     allocated_user (regions64 s' c) = allocated_user (regions64 s c) \<and>
     allocated_meta (regions64 s' c) = allocated_meta (regions64 s c)"

definition same_maps :: "'a p64_state_scheme \<Rightarrow> 'a p64_state_scheme \<Rightarrow> uptr \<Rightarrow> bool" where
  "same_maps s s' c \<longleftrightarrow> same_pool s s' c \<and> mapped_user (regions64 s' c) = mapped_user (regions64 s c) \<and>
     mapped_meta (regions64 s' c) = mapped_meta (regions64 s c)"

lemma same_maps_refl [simp]: "same_maps s s c"
  by (simp add: same_maps_def same_pool_def)

lemma same_maps_trans: "same_maps s s' c \<Longrightarrow> same_maps s' s'' c \<Longrightarrow> same_maps s s'' c"
  by (simp add: same_maps_def same_pool_def)

lemma same_pool_trans: "same_pool s s' c \<Longrightarrow> same_pool s' s'' c \<Longrightarrow> same_pool s s'' c"
  by (simp add: same_pool_def)

lemma keeps_same_maps: "keeps s s' \<Longrightarrow> same_maps s s' c"
  by (simp add: same_maps_def same_pool_def keeps_def)

lemma MonotonicNanoTime_keeps: "MonotonicNanoTime s = (now, s') \<Longrightarrow> keeps s s'"
  by (auto simp: MonotonicNanoTime_def syscall_def keeps_def)

lemma release_waits_keeps: "release_waits r force s = (w, s') \<Longrightarrow> keeps s s'"
  by (auto simp: release_waits_def Let_def dest: MonotonicNanoTime_keeps split: if_splits prod.splits)

lemma note_release_maps: "same_maps s (snd (note_release c (mm, s))) c"
  by (auto simp: note_release_def Let_def set_region64_def same_maps_def same_pool_def MonotonicNanoTime_def syscall_def
      split_beta)

lemma MaybeReleaseToOS_maps:
  "yields (MaybeReleaseToOS G P c force (mm, s)) (\<lambda>(mm', s'). same_maps s s' c)"
proof -
  obtain w s1 where w: "release_waits (regions64 s c) force s = (w, s1)" by (rule prod.exhaust)
  have k: "same_maps s s1 c" by (rule keeps_same_maps [OF release_waits_keeps [OF w]])
  have rel: "yields (andThen (ReleaseFreeMemoryToOS G P fc sz pages c (mm, s1)) (\<lambda>st. Inr (note_release c st)))
      (\<lambda>(mm', s'). same_maps s s' c)" for fc sz pages
    by (rule yields_andThen [OF release_keeps])
      (auto simp: split_beta intro!: same_maps_trans [OF k] dest!: keeps_same_maps [where c = c]
        elim!: same_maps_trans intro: note_release_maps)
  show ?thesis
    unfolding MaybeReleaseToOS_def Let_def prod.case w
    by (simp add: k rel yields_andThen [OF yields_True])
qed

end
