(* ===== verification/Primary64_Inv.thy ===== *)
theory Primary64_Inv
  imports Primary64 Safety
begin

text \<open>
  Conservation of chunks in the upstream allocator: the free array of a class and the chunks handed
  out make up, together and without repetition, the chunks cut from the region so far. Every
  operation on the class keeps this.
\<close>

section \<open>The invariant\<close>

definition class_parameters_ok :: "p64_params \<Rightarrow> uptr \<Rightarrow> bool" where
  "class_parameters_ok P c \<longleftrightarrow> 0 < ClassIdToSize P c \<and> unat (ClassIdToSize P c) mod 16 = 0 \<and>
     ClassIdToSize P c \<le> 0x100000 \<and> kRegionSize P \<le> 0x1000000000 \<and> kMetadataSize P \<le> 0x1000"

definition region_of :: "p64_params \<Rightarrow> uptr \<Rightarrow> 'a p64_state_scheme \<Rightarrow> uptr" where
  "region_of P c s = SpaceBeg P s + kRegionSize P * c"

definition free_list64 :: "p64_params \<Rightarrow> uptr \<Rightarrow> 'a p64_state_scheme \<Rightarrow> u32 list" where
  "free_list64 P c s =
     map (free_array s (GetFreeArray P (region_of P c s))) [0..<unat (num_freed_chunks (regions64 s c))]"

definition chunk32 :: "uptr \<Rightarrow> nat \<Rightarrow> u32" where
  "chunk32 sz i = PointerToCompactPtr 0 (of_nat i * sz)"

definition class_inv :: "p64_params \<Rightarrow> uptr \<Rightarrow> u32 list \<Rightarrow> 'a p64_state_scheme \<Rightarrow> bool" where
  "class_inv P c out s \<longleftrightarrow>
     (let r = regions64 s c; sz = ClassIdToSize P c in
      unat (allocated_user r) \<le> unat (mapped_user r) \<and> unat (allocated_meta r) \<le> unat (mapped_meta r) \<and>
      unat (mapped_user r) + unat (mapped_meta r) \<le> unat (kRegionSize P - kFreeArraySize P) \<and>
      (\<exists>k. allocated_user r = of_nat k * sz \<and> k * unat sz < 2 ^ 64 \<and>
           mset (free_list64 P c s) + mset out = mset (map (chunk32 sz) [0..<k])))"

lemma unat_chunk_offset: "n * unat sz < 2 ^ 64 \<Longrightarrow> unat (of_nat n * sz :: uptr) = n * unat sz"
  using unat_of_nat [of "n * unat sz", where 'a = 64] by simp

lemma chunk32_inj:
  assumes "unat sz mod 16 = 0" and "0 < sz" and "i * unat sz < 2 ^ 36" and "j * unat sz < 2 ^ 36"
    and "chunk32 sz i = chunk32 sz j"
  shows "i = j"
proof -
  have val: "unat (chunk32 sz n) = n * unat sz div 16" if "n * unat sz < 2 ^ 36" for n
  proof -
    have "unat (of_nat n * sz) = n * unat sz" using that by (intro unat_chunk_offset) simp
    then show ?thesis
      using that
      by (simp add: chunk32_def PointerToCompactPtr_def kCompactPtrScale_def unsigned_ucast_eq unat_drop_bit
          take_bit_nat_eq_self del: drop_bit_numeral_bit0)
  qed
  have "16 dvd i * unat sz" "16 dvd j * unat sz" using assms(1) by (simp_all add: dvd_eq_mod_eq_0 [symmetric])
  moreover have "i * unat sz div 16 = j * unat sz div 16" using assms(5) val assms(3,4) by metis
  ultimately have "i * unat sz = j * unat sz" by (metis dvd_div_mult_self)
  then show ?thesis using assms(2) by (simp add: word_less_nat_alt)
qed

lemma kRegionSize_room: "unat (kRegionSize P - kFreeArraySize P) \<le> unat (kRegionSize P)"
  by (simp add: kFreeArraySize_def unat_sub word_le_nat_alt unat_div)

lemma class_inv_distinct:
  assumes P: "class_parameters_ok P c" and inv: "class_inv P c out s"
  shows "distinct (free_list64 P c s @ out)"
proof -
  let ?sz = "ClassIdToSize P c"
  obtain k where k: "allocated_user (regions64 s c) = of_nat k * ?sz" "k * unat ?sz < 2 ^ 64"
    "mset (free_list64 P c s) + mset out = mset (map (chunk32 ?sz) [0..<k])"
    using inv unfolding class_inv_def Let_def by blast
  have au: "unat (allocated_user (regions64 s c)) = k * unat ?sz"
    using k(1,2) by (simp only: unat_chunk_offset)
  have R: "unat (kRegionSize P) \<le> 0x1000000000" using P by (simp add: class_parameters_ok_def word_le_nat_alt)
  have b: "k * unat ?sz \<le> 2 ^ 36"
    using inv kRegionSize_room [of P] R au unfolding class_inv_def Let_def by simp
  have sz: "0 < unat ?sz" "unat ?sz mod 16 = 0" using P by (simp_all add: class_parameters_ok_def word_less_nat_alt)
  have "distinct (map (chunk32 ?sz) [0..<k])"
  proof -
    have small: "i * unat ?sz < 2 ^ 36" if "i < k" for i
      using mult_less_mono1 [OF that sz(1)] b by (rule less_le_trans)
    show ?thesis
      using small chunk32_inj [OF sz(2)] P by (auto simp: distinct_map inj_on_def class_parameters_ok_def)
  qed
  then show ?thesis using k(3) by (metis mset_append mset_eq_imp_distinct_iff)
qed

section \<open>Writing the new chunks\<close>

lemma fill_free_array_at:
  "n \<le> t + 1 \<Longrightarrow> fill_free_array sz n ch t fa i =
     (if t + 1 \<le> i + n \<and> i \<le> t then PointerToCompactPtr 0 (ch + of_nat (t - i) * sz) else fa i)"
proof (induction sz n ch t fa rule: fill_free_array.induct)
  case (2 sz n ch t fa)
  show ?case
  proof (cases "t = 0")
    case True
    then show ?thesis using "2.prems" by simp
  next
    case False
    then have IH: "fill_free_array sz n (ch + sz) (t - 1) (fa(t := PointerToCompactPtr 0 ch)) i =
        (if t \<le> i + n \<and> i \<le> t - 1 then PointerToCompactPtr 0 (ch + sz + of_nat (t - 1 - i) * sz)
         else (fa(t := PointerToCompactPtr 0 ch)) i)"
    proof -
      have e: "t - 1 + 1 = t" using False by simp
      have "n \<le> t" using "2.prems" by simp
      from "2.IH" [unfolded e, OF this] show ?thesis .
    qed
    have "ch + sz + of_nat (t - 1 - i) * sz = ch + of_nat (t - i) * sz" if "i < t"
    proof -
      have "t - i = Suc (t - 1 - i)" using that by simp
      then have "(of_nat (t - i) :: uptr) = 1 + of_nat (t - 1 - i)" by (simp only: of_nat_Suc)
      then show ?thesis by (simp only: distrib_right mult_1_left add.assoc)
    qed
    note next_chunk = this
    have step: "fill_free_array sz (Suc n) ch t fa i =
        fill_free_array sz n (ch + sz) (t - 1) (fa(t := PointerToCompactPtr 0 ch)) i" by simp
    show ?thesis
    proof (cases "i < t")
      case True
      show ?thesis
        unfolding step IH next_chunk [OF True] by (rule if_cong) (use True False in auto)
    next
      case ge: False
      have "\<not> i \<le> t - 1" using ge False by linarith
      then show ?thesis unfolding step IH using ge by (cases "i = t") simp_all
    qed
  qed
qed auto

lemma fill_free_array_mset:
  "mset (map (fill_free_array sz n ch (lo + n - 1) fa) [0..<lo + n]) =
   mset (map fa [0..<lo]) + mset (map (\<lambda>i. PointerToCompactPtr 0 (ch + of_nat i * sz)) [0..<n])"
proof (cases "n = 0")
  case False
  let ?g = "fill_free_array sz n ch (lo + n - 1) fa" and ?c = "\<lambda>i. PointerToCompactPtr 0 (ch + of_nat i * sz)"
  have "map ?g [0..<lo] = map fa [0..<lo]" using False by (simp add: fill_free_array_at)
  moreover have "map ?g [lo..<lo + n] = rev (map ?c [0..<n])"
    by (rule nth_equalityI) (auto simp: fill_free_array_at rev_nth)
  moreover have "[0..<lo + n] = [0..<lo] @ [lo..<lo + n]" by (simp only: upt_add_eq_append [of 0 lo n, OF le0] add_0)
  ultimately show ?thesis by (simp only: map_append mset_append mset_rev)
qed simp

lemma shuffle_slice_mset:
  assumes "n < 2 ^ 32"
  shows "mset (map (fst (shuffle_slice lo n st fa)) [0..<lo + n]) = mset (map fa [0..<lo + n])"
proof -
  obtain xs st' where x: "RandomShuffle (map fa [lo..<lo + n]) st = (xs, st')" by (rule prod.exhaust)
  have len: "length xs = n" using RandomShuffle_length [of "map fa [lo..<lo + n]" st] assms x by simp
  have perm: "mset xs = mset (map fa [lo..<lo + n])"
    using RandomShuffle_perm [of "map fa [lo..<lo + n]" st] assms x by simp
  let ?g = "fst (shuffle_slice lo n st fa)"
  have "map ?g [0..<lo] = map fa [0..<lo]" by (simp add: shuffle_slice_def x)
  moreover have "map ?g [lo..<lo + n] = xs" by (rule nth_equalityI) (auto simp: shuffle_slice_def x len)
  moreover have "[0..<lo + n] = [0..<lo] @ [lo..<lo + n]" by (simp only: upt_add_eq_append [of 0 lo n, OF le0] add_0)
  ultimately show ?thesis by (simp only: map_append mset_append perm)
qed

section \<open>Mapping\<close>

definition maps_ok :: "p64_params \<Rightarrow> uptr \<Rightarrow> 'a p64_state_scheme \<Rightarrow> bool" where
  "maps_ok P c s \<longleftrightarrow>
     unat (mapped_user (regions64 s c)) + unat (mapped_meta (regions64 s c)) \<le> unat (kRegionSize P - kFreeArraySize P)"

lemma maps_ok_same: "same_maps s s' c \<Longrightarrow> maps_ok P c s' = maps_ok P c s"
  by (simp add: maps_ok_def same_maps_def)

lemma same_mapsD: "same_maps s s' c \<Longrightarrow> same_pool s s' c"
  by (simp add: same_maps_def)

lemma IsRegionExhausted_maps:
  "IsRegionExhausted P c n s = (full, s') \<Longrightarrow> same_maps s s' c \<and>
   (\<not> full \<longrightarrow> mapped_user (regions64 s c) + mapped_meta (regions64 s c) + n \<le> kRegionSize P - kFreeArraySize P)"
  by (auto simp: IsRegionExhausted_def Let_def same_maps_def same_pool_def set_region64_def split: if_splits)

lemma room_below: "class_parameters_ok P c \<Longrightarrow> unat (kRegionSize P - kFreeArraySize P) \<le> 0x1000000000"
  using kRegionSize_room [of P] by (simp add: class_parameters_ok_def word_le_nat_alt)

lemma round_up_below: "unat x < 2 ^ 62 \<Longrightarrow> unat (round_up x 0x10000) < 2 ^ 63"
proof -
  assume x: "unat x < 2 ^ 62"
  have "unat (round_up x (2 ^ 16)) = (unat x + (2 ^ 16 - 1)) div 2 ^ 16 * 2 ^ 16"
    using x by (intro unat_round_up) simp_all
  also have "\<dots> \<le> unat x + (2 ^ 16 - 1)" by (rule div_times_less_eq_dividend)
  finally show ?thesis using x by simp
qed

lemma grow_fits:
  assumes P: "class_parameters_ok P c" and ok: "maps_ok P c s" and n: "unat n < 2 ^ 63"
    and room: "mapped_user (regions64 s c) + mapped_meta (regions64 s c) + n \<le> kRegionSize P - kFreeArraySize P"
  shows "unat (mapped_user (regions64 s c)) + unat (mapped_meta (regions64 s c)) + unat n
    \<le> unat (kRegionSize P - kFreeArraySize P)"
proof -
  have small: "unat (mapped_user (regions64 s c)) + unat (mapped_meta (regions64 s c)) \<le> 0x1000000000"
    using ok room_below [OF P] by (simp add: maps_ok_def)
  have "unat (mapped_user (regions64 s c) + mapped_meta (regions64 s c)) =
      unat (mapped_user (regions64 s c)) + unat (mapped_meta (regions64 s c))"
    using small by (intro unat_add_small) simp
  moreover have "unat (mapped_user (regions64 s c) + mapped_meta (regions64 s c) + n) =
      unat (mapped_user (regions64 s c) + mapped_meta (regions64 s c)) + unat n"
    using small n calculation by (intro unat_add_small) simp
  ultimately show ?thesis using room by (simp add: word_le_nat_alt)
qed

lemma RoundUpTo_64K: "RoundUpTo x 0x10000 = Inr (round_up x 0x10000)"
  using RoundUpTo_exp [of 16 x] by simp

lemma map_size_constants: "kUserMapSize = 0x10000" "kMetaMapSize = 0x10000" "kFreeArrayMapSize = 0x10000"
  by (simp_all add: kUserMapSize_def kMetaMapSize_def kFreeArrayMapSize_def)

lemma first_map_maps: "same_maps s (first_map P c rb s) c"
  by (auto simp: first_map_def Let_def same_maps_def same_pool_def set_region64_def MonotonicNanoTime_def syscall_def
      split: prod.split)

lemma map_user_space_maps:
  assumes P: "class_parameters_ok P c" and ok: "maps_ok P c s" and t: "unat tub < 2 ^ 62"
  shows "yields (map_user_space P c rb tub s) (\<lambda>(b, s'). same_pool s s' c \<and> maps_ok P c s' \<and>
    mapped_meta (regions64 s' c) = mapped_meta (regions64 s c) \<and>
    unat (mapped_user (regions64 s c)) \<le> unat (mapped_user (regions64 s' c)))"
proof (cases "mapped_user (regions64 s c) < tub")
  case False
  then show ?thesis using ok by (simp add: map_user_space_def same_pool_def)
next
  case True
  let ?s1 = "first_map P c rb s"
  let ?n = "round_up (tub - mapped_user (regions64 ?s1 c)) 0x10000"
  have s1: "same_maps s ?s1 c" by (rule first_map_maps)
  obtain full s2 where e: "IsRegionExhausted P c ?n ?s1 = (full, s2)" by (rule prod.exhaust)
  note s2 = IsRegionExhausted_maps [OF e]
  have s02: "same_maps s s2 c" using same_maps_trans [OF s1] s2 by blast
  have eqn: "map_user_space P c rb tub s =
      (if full then Inr (False, s2)
       else andThen (MapWithCallback P (rb + mapped_user (regions64 s2 c)) ?n s2) (\<lambda>(ok, s).
          if \<not> ok then Inr (False, s)
          else let s = note64 (Stat_add AllocatorStatMapped ?n) s
            in Inr (True, set_region64 c (\<lambda>r. r\<lparr>mapped_user := mapped_user r + ?n\<rparr>) s)))"
    unfolding map_user_space_def Let_def map_size_constants RoundUpTo_64K andThen_simps e prod.case
    using True by (simp only: if_True)
  show ?thesis
  proof (cases full)
    case True
    then show ?thesis using s02 ok maps_ok_same [OF s02, of P] by (simp add: eqn same_maps_def)
  next
    case False
    have "unat (tub - mapped_user (regions64 ?s1 c)) < 2 ^ 62"
      using True t s1 by (simp add: same_maps_def unat_sub word_less_nat_alt word_le_nat_alt)
    then have n: "unat ?n < 2 ^ 63" by (rule round_up_below)
    have ok1: "maps_ok P c ?s1" using ok s1 by (simp add: maps_ok_same)
    have f: "unat (mapped_user (regions64 s c)) + unat (mapped_meta (regions64 s c)) + unat ?n
        \<le> unat (kRegionSize P - kFreeArraySize P)"
      using grow_fits [OF P ok1 n] s2 False s1 by (simp add: same_maps_def)
    then have g: "unat (mapped_user (regions64 s c) + ?n) = unat (mapped_user (regions64 s c)) + unat ?n"
      using room_below [OF P] by (intro unat_add_small) simp
    have "yields (MapWithCallback P (rb + mapped_user (regions64 s2 c)) ?n s2) (\<lambda>(ok, s'). same_maps s s' c)"
      using s02 by (auto intro!: yieldsI intro: same_maps_trans keeps_same_maps MapWithCallback_keeps)
    then show ?thesis
      unfolding eqn using False
      by (auto intro!: yields_andThen simp: maps_ok_same ok Let_def same_maps_def same_pool_def set_region64_def
          note64_def maps_ok_def f g split: if_splits)
        (use ok f in \<open>simp_all add: maps_ok_def\<close>)
  qed
qed

lemma map_meta_space_maps:
  assumes P: "class_parameters_ok P c" and ok: "maps_ok P c s"
    and n: "unat n < 2 ^ 40" and meta: "unat (allocated_meta (regions64 s c)) < 2 ^ 40"
  shows "yields (map_meta_space P c rb n s) (\<lambda>(b, s'). same_pool s s' c \<and> maps_ok P c s' \<and>
    mapped_user (regions64 s' c) = mapped_user (regions64 s c) \<and>
    unat (mapped_meta (regions64 s c)) \<le> unat (mapped_meta (regions64 s' c)))"
proof -
  let ?total = "allocated_meta (regions64 s c) + n * kMetadataSize P"
  let ?n = "round_up (?total - mapped_meta (regions64 s c)) 0x10000"
  show ?thesis
  proof (cases "kMetadataSize P \<noteq> 0 \<and> mapped_meta (regions64 s c) < ?total \<and> ?n \<noteq> 0")
    case False
    then show ?thesis
      using ok by (auto simp: map_meta_space_def Let_def same_pool_def map_size_constants RoundUpTo_64K)
  next
    case True
    obtain full s2 where e: "IsRegionExhausted P c ?n s = (full, s2)" by (rule prod.exhaust)
    note s2 = IsRegionExhausted_maps [OF e]
    then have s02: "same_maps s s2 c" by blast
    have eqn: "map_meta_space P c rb n s =
        (if full then Inr (False, s2)
         else andThen (MapWithCallback P (GetMetadataEnd P rb - mapped_meta (regions64 s2 c) - ?n) ?n s2) (\<lambda>(ok, s).
            if \<not> ok then Inr (False, s)
            else Inr (True, set_region64 c (\<lambda>r. r\<lparr>mapped_meta := mapped_meta r + ?n\<rparr>) s)))"
      unfolding map_meta_space_def Let_def map_size_constants RoundUpTo_64K
      by (simp only: True if_True andThen_simps e prod.case not_False_eq_True simp_thms)
    show ?thesis
    proof (cases full)
      case True
      then show ?thesis using s02 ok maps_ok_same [OF s02, of P] by (simp add: eqn same_maps_def)
    next
      case False
      have "unat n * unat (kMetadataSize P) \<le> 2 ^ 40 * 0x1000"
        using n P by (intro mult_le_mono) (simp_all add: class_parameters_ok_def word_le_nat_alt)
      then have "unat ?total < 2 ^ 62"
        using meta by (subst unat_add_small; subst unat_mult_small) simp_all
      then have "unat (?total - mapped_meta (regions64 s c)) < 2 ^ 62"
        using True by (simp add: unat_sub word_less_nat_alt word_le_nat_alt)
      then have n: "unat ?n < 2 ^ 63" by (rule round_up_below)
      have f: "unat (mapped_user (regions64 s c)) + unat (mapped_meta (regions64 s c)) + unat ?n
          \<le> unat (kRegionSize P - kFreeArraySize P)"
        using grow_fits [OF P ok n] s2 False by blast
      then have g: "unat (mapped_meta (regions64 s c) + ?n) = unat (mapped_meta (regions64 s c)) + unat ?n"
        using room_below [OF P] by (intro unat_add_small) simp
      have "yields (MapWithCallback P (GetMetadataEnd P rb - mapped_meta (regions64 s2 c) - ?n) ?n s2)
          (\<lambda>(ok, s'). same_maps s s' c)"
        using s02 by (auto intro!: yieldsI intro: same_maps_trans keeps_same_maps MapWithCallback_keeps)
      then show ?thesis
        unfolding eqn using False
        by (auto intro!: yields_andThen simp: maps_ok_same ok Let_def same_maps_def same_pool_def set_region64_def
            maps_ok_def f g split: if_splits)
          (use ok f in \<open>simp_all add: maps_ok_def\<close>)
    qed
  qed
qed

lemma EnsureFreeArraySpace_maps:
  "yields (EnsureFreeArraySpace P c rb n s) (\<lambda>(b, s'). same_maps s s' c)"
proof -
  have m: "yields (MapWithCallback P b z s) (\<lambda>(ok, s'). same_maps s s' c)" for b z
    by (auto intro!: yieldsI intro: keeps_same_maps MapWithCallback_keeps)
  show ?thesis
    unfolding EnsureFreeArraySpace_def Let_def map_size_constants RoundUpTo_64K andThen_simps
    by (auto intro!: yields_andThen [OF yields_True] yields_andThen [OF m]
        simp: same_maps_def same_pool_def set_region64_def)
qed

section \<open>The operations keep the invariant\<close>

lemma class_inv_grow:
  assumes "class_inv P c out s" and "same_pool s s' c" and "maps_ok P c s'"
    and "unat (mapped_user (regions64 s c)) \<le> unat (mapped_user (regions64 s' c))"
    and "unat (mapped_meta (regions64 s c)) \<le> unat (mapped_meta (regions64 s' c))"
  shows "class_inv P c out s'"
proof -
  have "free_list64 P c s' = free_list64 P c s"
    using assms(2) by (simp add: same_pool_def free_list64_def region_of_def SpaceBeg_def)
  then show ?thesis
    using assms by (auto simp: class_inv_def Let_def same_pool_def maps_ok_def)
qed

lemma class_inv_same: "class_inv P c out s \<Longrightarrow> same_maps s s' c \<Longrightarrow> class_inv P c out s'"
  by (rule class_inv_grow) (auto simp: same_maps_def maps_ok_def class_inv_def Let_def)

lemma class_inv_maps: "class_inv P c out s \<Longrightarrow> maps_ok P c s"
  by (simp add: class_inv_def maps_ok_def Let_def)

lemma room_strict:
  assumes "class_parameters_ok P c"
  shows "unat (kRegionSize P - kFreeArraySize P) < 2 ^ 36"
proof -
  have "unat (kRegionSize P - kFreeArraySize P) = unat (kRegionSize P) - unat (kRegionSize P) div 8"
    by (simp add: kFreeArraySize_def unat_sub word_le_nat_alt unat_div)
  moreover have "unat (kRegionSize P) \<le> 2 ^ 36" using assms by (simp add: class_parameters_ok_def word_le_nat_alt)
  ultimately show ?thesis by simp
qed

lemma class_inv_chunks:
  assumes P: "class_parameters_ok P c" and inv: "class_inv P c out s"
  obtains k where "allocated_user (regions64 s c) = of_nat k * ClassIdToSize P c"
    and "unat (allocated_user (regions64 s c)) = k * unat (ClassIdToSize P c)" and "k < 2 ^ 32"
    and "mset (free_list64 P c s) + mset out = mset (map (chunk32 (ClassIdToSize P c)) [0..<k])"
    and "unat (num_freed_chunks (regions64 s c)) + length out = k"
proof -
  let ?sz = "ClassIdToSize P c"
  obtain k where k: "allocated_user (regions64 s c) = of_nat k * ?sz" "k * unat ?sz < 2 ^ 64"
    "mset (free_list64 P c s) + mset out = mset (map (chunk32 ?sz) [0..<k])"
    using inv unfolding class_inv_def Let_def by blast
  have au: "unat (allocated_user (regions64 s c)) = k * unat ?sz"
    using k(1,2) by (simp only: unat_chunk_offset)
  have b: "k * unat ?sz < 2 ^ 36"
    using inv room_strict [OF P] au unfolding class_inv_def Let_def by simp
  have "16 \<le> unat ?sz"
    using P dvd_imp_le [of 16 "unat ?sz"] by (simp add: class_parameters_ok_def word_less_nat_alt mod_eq_0_iff_dvd)
  then have "k * 16 \<le> k * unat ?sz" by (rule mult_le_mono2)
  from le_less_trans [OF this b] have "k < 2 ^ 32" by simp
  moreover have "size (mset (free_list64 P c s) + mset out) = k" by (simp only: k(3)) simp
  then have "unat (num_freed_chunks (regions64 s c)) + length out = k" by (simp add: free_list64_def)
  ultimately show thesis using that k au by blast
qed

text \<open>The free array after the new chunks are written and, in some configurations, shuffled.\<close>

lemma new_free_array_mset:
  fixes sz au n m :: uptr and fa :: "nat \<Rightarrow> u32"
  assumes "unat m + unat n < 2 ^ 33" and "unat n < 2 ^ 32"
  defines "fa' \<equiv> fill_free_array sz (unat n) au (unat (m + n - 1)) fa"
  shows "mset (map (fst (if b then shuffle_slice (unat m) (unat (ucast n :: u32)) st fa' else (fa', st))) [0..<unat (m + n)]) =
    mset (map fa [0..<unat m]) + mset (map (\<lambda>i. PointerToCompactPtr 0 (au + of_nat i * sz)) [0..<unat n])"
proof -
  have mn: "unat (m + n) = unat m + unat n" using assms(1) by (intro unat_add_small) simp
  have n32: "unat (ucast n :: u32) = unat n"
    using assms(2) by (simp add: unsigned_ucast_eq take_bit_nat_eq_self)
  have "fa' = fill_free_array sz (unat n) au (unat m + unat n - 1) fa"
  proof (cases "unat n = 0")
    case False
    then have "unat (m + n - 1) = unat m + unat n - 1"
      using mn by (subst unat_sub) (simp_all add: word_le_nat_alt)
    then show ?thesis by (simp add: fa'_def)
  qed (simp add: fa'_def)
  then have "mset (map fa' [0..<unat m + unat n]) =
      mset (map fa [0..<unat m]) + mset (map (\<lambda>i. PointerToCompactPtr 0 (au + of_nat i * sz)) [0..<unat n])"
    by (simp only: fill_free_array_mset)
  then show ?thesis
    using shuffle_slice_mset [OF assms(2)] by (cases b) (simp_all only: if_True if_False fst_conv n32 mn)
qed

lemma write_new_chunks_inv:
  assumes P: "class_parameters_ok P c" and inv: "class_inv P c out s"
    and n: "n \<le> (mapped_user (regions64 s c) - allocated_user (regions64 s c)) div ClassIdToSize P c"
    and meta: "allocated_meta (regions64 s c) + n * kMetadataSize P \<le> mapped_meta (regions64 s c)"
  shows "class_inv P c out (write_new_chunks P c (region_of P c s) n s)"
proof -
  let ?r = "regions64 s c" and ?sz = "ClassIdToSize P c" and ?s = "write_new_chunks P c (region_of P c s) n s"
  obtain k where k: "allocated_user ?r = of_nat k * ?sz" "unat (allocated_user ?r) = k * unat ?sz" "k < 2 ^ 32"
      "mset (free_list64 P c s) + mset out = mset (map (chunk32 ?sz) [0..<k])"
      "unat (num_freed_chunks ?r) + length out = k"
    by (rule class_inv_chunks [OF P inv])
  have le: "unat (allocated_user ?r) \<le> unat (mapped_user ?r)"
    and mapped: "unat (mapped_user ?r) + unat (mapped_meta ?r) \<le> unat (kRegionSize P - kFreeArraySize P)"
    using inv unfolding class_inv_def Let_def by blast+
  have "unat n \<le> (unat (mapped_user ?r) - unat (allocated_user ?r)) div unat ?sz"
    using n le by (simp add: word_le_nat_alt unat_div unat_sub)
  then have nsz: "unat n * unat ?sz \<le> unat (mapped_user ?r) - unat (allocated_user ?r)"
    by (metis div_times_less_eq_dividend mult_le_mono1 order_trans)
  have room: "unat (mapped_user ?r) < 2 ^ 36" using mapped room_strict [OF P] by simp
  have sz: "16 \<le> unat ?sz"
    using P dvd_imp_le [of 16 "unat ?sz"] by (simp add: class_parameters_ok_def word_less_nat_alt mod_eq_0_iff_dvd)
  then have "unat n * 16 \<le> unat n * unat ?sz" by (rule mult_le_mono2)
  also have "unat n * unat ?sz < 2 ^ 36" using nsz room by simp
  finally have n32: "unat n < 2 ^ 32" by simp
  have au: "unat (allocated_user ?r + n * ?sz) = unat (allocated_user ?r) + unat n * unat ?sz"
    using nsz room le by (subst unat_add_small; subst unat_mult_small) simp_all
  have num: "unat (num_freed_chunks ?r + n) = unat (num_freed_chunks ?r) + unat n"
    using n32 k(3,5) by (intro unat_add_small) simp
  let ?fa = "free_array s (GetFreeArray P (region_of P c s))"
  let ?fa' = "fill_free_array ?sz (unat n) (allocated_user ?r) (unat (num_freed_chunks ?r + n - 1)) ?fa"
  have region: "region_of P c ?s = region_of P c s"
    by (simp add: region_of_def SpaceBeg_def write_new_chunks_def Let_def split_beta set_region64_def)
  have num_new: "num_freed_chunks (regions64 ?s c) = num_freed_chunks ?r + n"
    by (simp add: write_new_chunks_def Let_def split_beta set_region64_def)
  have fields: "allocated_user (regions64 ?s c) = allocated_user ?r + n * ?sz"
      "allocated_meta (regions64 ?s c) = allocated_meta ?r + n * kMetadataSize P"
      "mapped_user (regions64 ?s c) = mapped_user ?r" "mapped_meta (regions64 ?s c) = mapped_meta ?r"
    by (simp_all add: write_new_chunks_def Let_def split_beta set_region64_def)
  have written: "free_array ?s (GetFreeArray P (region_of P c s)) =
      fst (if kRandomShuffleChunks P
        then shuffle_slice (unat (num_freed_chunks ?r)) (unat (ucast n :: u32)) (rand_state ?r) ?fa' else (?fa', rand_state ?r))"
    by (simp add: write_new_chunks_def Let_def split_beta set_region64_def)
  have "mset (free_list64 P c ?s) =
      mset (free_list64 P c s) + mset (map (\<lambda>i. PointerToCompactPtr 0 (allocated_user ?r + of_nat i * ?sz)) [0..<unat n])"
    unfolding free_list64_def region num_new written by (intro new_free_array_mset) (use n32 k(3,5) in simp_all)
  moreover have "map (\<lambda>i. PointerToCompactPtr 0 (allocated_user ?r + of_nat i * ?sz)) [0..<unat n] =
      map (chunk32 ?sz) [k..<k + unat n]"
    by (rule nth_equalityI) (simp_all add: chunk32_def k(1) algebra_simps)
  ultimately have "mset (free_list64 P c ?s) + mset out = mset (map (chunk32 ?sz) [0..<k + unat n])"
    using k(4) by (simp add: upt_add_eq_append [of 0 k "unat n", OF le0] del: upt_Suc)
  moreover have "allocated_user (regions64 ?s c) = of_nat (k + unat n) * ?sz"
    by (simp add: write_new_chunks_def Let_def split_beta set_region64_def k(1) algebra_simps)
  moreover have "(k + unat n) * unat ?sz < 2 ^ 64"
    using nsz room le k(2) by (simp add: distrib_right)
  moreover have "unat (allocated_user (regions64 ?s c)) \<le> unat (mapped_user (regions64 ?s c))"
    unfolding fields au using nsz le by linarith
  moreover have "unat (allocated_meta (regions64 ?s c)) \<le> unat (mapped_meta (regions64 ?s c))"
    unfolding fields using meta by (simp only: word_le_nat_alt)
  moreover have "unat (mapped_user (regions64 ?s c)) + unat (mapped_meta (regions64 ?s c)) \<le> unat (kRegionSize P - kFreeArraySize P)"
    unfolding fields by (rule mapped)
  ultimately show ?thesis unfolding class_inv_def Let_def by blast
qed

text \<open>What an operation that adds chunks leaves behind, whether it succeeds or not.\<close>

definition populated :: "p64_params \<Rightarrow> uptr \<Rightarrow> u32 list \<Rightarrow> 'a p64_state_scheme \<Rightarrow> 'a p64_state_scheme \<Rightarrow> bool" where
  "populated P c out s s' \<longleftrightarrow> class_inv P c out s' \<and> p64_state.more s' = p64_state.more s \<and> is_clustertag s' = is_clustertag s \<and> NonConstSpaceBeg s' = NonConstSpaceBeg s"

lemma populated_trans:
  "same_pool s s1 c \<Longrightarrow> populated P c out s1 s' \<Longrightarrow> populated P c out s s'"
  by (simp add: populated_def same_pool_def)

lemma populated_pool: "same_pool s s' c \<Longrightarrow> class_inv P c out s' \<Longrightarrow> populated P c out s s'"
  by (simp add: populated_def same_pool_def)

lemma yields_mono: "yields m Q \<Longrightarrow> (\<And>v. Q v \<Longrightarrow> R v) \<Longrightarrow> yields m R"
  by (cases m) simp_all

lemma populate_array_inv:
  assumes P: "class_parameters_ok P c" and inv: "class_inv P c out s"
    and n: "n \<le> (mapped_user (regions64 s c) - allocated_user (regions64 s c)) div ClassIdToSize P c"
  shows "yields (populate_array P c (region_of P c s) n s) (\<lambda>(b, s'). populated P c out s s')"
  unfolding populate_array_def
proof (rule yields_andThen [OF EnsureFreeArraySpace_maps], clarsimp, intro conjI impI)
  fix b s1 assume s1: "same_maps s s1 c"
  show "populated P c out s s1"
    by (rule populated_pool [OF same_mapsD [OF s1] class_inv_same [OF inv s1]])
  have rb: "region_of P c s1 = region_of P c s"
    using s1 by (simp add: same_maps_def same_pool_def region_of_def SpaceBeg_def)
  let ?w = "write_new_chunks P c (region_of P c s) n s1"
  have f: "allocated_meta (regions64 ?w c) = allocated_meta (regions64 s1 c) + n * kMetadataSize P"
      "mapped_meta (regions64 ?w c) = mapped_meta (regions64 s1 c)"
      "is_clustertag ?w = is_clustertag s1" "NonConstSpaceBeg ?w = NonConstSpaceBeg s1" "p64_state.more ?w = p64_state.more s1"
    by (simp_all add: write_new_chunks_def Let_def split_beta set_region64_def)
  have "class_inv P c out ?w" if "allocated_meta (regions64 ?w c) \<le> mapped_meta (regions64 ?w c)"
    using write_new_chunks_inv [OF P class_inv_same [OF inv s1], of n] that n s1
    by (simp only: f rb same_maps_def same_pool_def)
  then show "yields (let s' = ?w; r = regions64 s' c in
       andThen (check (allocated_user r \<le> mapped_user r)) (\<lambda>_.
       andThen (check (allocated_meta r \<le> mapped_meta r)) (\<lambda>_. Inr (True, s')))) (\<lambda>(b, s'). populated P c out s s')"
    using s1 by (simp add: Let_def andThen_check populated_def f same_maps_def same_pool_def)
qed

lemma class_inv_small:
  assumes P: "class_parameters_ok P c" and inv: "class_inv P c out s"
  shows "unat (mapped_user (regions64 s c)) < 2 ^ 36" and "unat (allocated_meta (regions64 s c)) < 2 ^ 36"
    and "unat (allocated_user (regions64 s c)) \<le> unat (mapped_user (regions64 s c))"
  using inv room_strict [OF P] unfolding class_inv_def Let_def by linarith+

lemma populate_meta_inv:
  assumes P: "class_parameters_ok P c" and inv: "class_inv P c out s"
  shows "yields (populate_meta P c (region_of P c s) s) (\<lambda>(b, s'). populated P c out s s')"
proof -
  let ?q = "(mapped_user (regions64 s c) - allocated_user (regions64 s c)) div ClassIdToSize P c"
  have "unat ?q \<le> unat (mapped_user (regions64 s c) - allocated_user (regions64 s c))"
    by (simp add: unat_div)
  also have "\<dots> < 2 ^ 40"
    using class_inv_small [OF P inv] by (simp add: unat_sub word_le_nat_alt)
  finally have q: "unat ?q < 2 ^ 40" .
  have meta: "unat (allocated_meta (regions64 s c)) < 2 ^ 40"
    using class_inv_small [OF P inv] by simp
  note mm = map_meta_space_maps [OF P class_inv_maps [OF inv] q meta, of "region_of P c s"]
  have "yields (if \<not> b then Inr (False, s1) else populate_array P c (region_of P c s) ?q s1) (\<lambda>(b, s'). populated P c out s s')"
    if s1: "same_pool s s1 c" "maps_ok P c s1" "mapped_user (regions64 s1 c) = mapped_user (regions64 s c)"
      "unat (mapped_meta (regions64 s c)) \<le> unat (mapped_meta (regions64 s1 c))" for b s1
  proof -
    have inv1: "class_inv P c out s1" using class_inv_grow [OF inv s1(1,2) _ s1(4)] s1(3) by simp
    have rb: "region_of P c s = region_of P c s1"
      using s1(1) by (simp add: same_pool_def region_of_def SpaceBeg_def)
    have "yields (populate_array P c (region_of P c s) ?q s1) (\<lambda>(b, s'). populated P c out s1 s')"
      unfolding rb using s1 by (intro populate_array_inv [OF P inv1]) (simp add: same_pool_def)
    then have "yields (populate_array P c (region_of P c s) ?q s1) (\<lambda>(b, s'). populated P c out s s')"
      by (rule yields_mono) (auto intro: populated_trans [OF s1(1)])
    then show ?thesis using populated_pool [OF s1(1) inv1] by simp
  qed
  then show ?thesis
    unfolding populate_meta_def Let_def by (auto intro!: yields_andThen [OF mm] simp del: not_False_eq_True)
qed

lemma PopulateFreeArray_inv:
  assumes P: "class_parameters_ok P c" and inv: "class_inv P c out s" and n: "unat n \<le> 2 ^ 40"
  shows "yields (PopulateFreeArray P c n s) (\<lambda>(b, s'). populated P c out s s')"
proof (cases "is_clustertag s")
  case True
  then show ?thesis by (simp add: PopulateFreeArray_def GetRegionBeginBySizeClass_def not_in_clustertag_def)
next
  case False
  let ?sz = "ClassIdToSize P c" and ?rb = "region_of P c s"
  let ?total = "allocated_user (regions64 s c) + n * ?sz"
  have au: "unat (allocated_user (regions64 s c)) < 2 ^ 36"
    using inv room_strict [OF P] unfolding class_inv_def Let_def by linarith
  have "unat n * unat ?sz \<le> 2 ^ 40 * 0x100000"
    using n P by (intro mult_le_mono) (simp_all add: class_parameters_ok_def word_le_nat_alt)
  then have t: "unat ?total < 2 ^ 62"
    using au by (subst unat_add_small; subst unat_mult_small) simp_all
  have rb: "GetRegionBeginBySizeClass P c s = Inr ?rb"
    using False by (simp add: GetRegionBeginBySizeClass_def not_in_clustertag_def region_of_def)
  note m = map_user_space_maps [OF P class_inv_maps [OF inv] t, of ?rb]
  have "yields (if \<not> b then Inr (False, s1) else populate_meta P c ?rb s1) (\<lambda>(b, s'). populated P c out s s')"
    if s1: "same_pool s s1 c" "maps_ok P c s1" "mapped_meta (regions64 s1 c) = mapped_meta (regions64 s c)"
        "unat (mapped_user (regions64 s c)) \<le> unat (mapped_user (regions64 s1 c))" for b s1
  proof -
    have inv1: "class_inv P c out s1" using class_inv_grow [OF inv s1(1,2,4)] s1(3) by simp
    have rb1: "?rb = region_of P c s1" using s1(1) by (simp add: same_pool_def region_of_def SpaceBeg_def)
    have "yields (populate_meta P c ?rb s1) (\<lambda>(b, s'). populated P c out s s')"
      unfolding rb1 by (rule yields_mono [OF populate_meta_inv [OF P inv1]]) (auto intro: populated_trans [OF s1(1)])
    then show ?thesis using populated_pool [OF s1(1) inv1] by simp
  qed
  then show ?thesis
    unfolding PopulateFreeArray_def Let_def rb andThen_simps
    by (auto intro!: yields_andThen [OF m] simp del: not_False_eq_True)
qed

section \<open>Taking and giving back\<close>

lemma class_inv_set_num:
  assumes inv: "class_inv P c out s"
    and same: "region_of P c s' = region_of P c s" "allocated_user (regions64 s' c) = allocated_user (regions64 s c)"
      "allocated_meta (regions64 s' c) = allocated_meta (regions64 s c)"
      "mapped_user (regions64 s' c) = mapped_user (regions64 s c)"
      "mapped_meta (regions64 s' c) = mapped_meta (regions64 s c)"
    and free: "mset (free_list64 P c s') + mset out' = mset (free_list64 P c s) + mset out"
  shows "class_inv P c out' s'"
  using inv unfolding class_inv_def Let_def same free by blast

lemma taken_mset: "xs @ ys = zs \<Longrightarrow> mset xs + mset (ys @ out) = mset zs + mset out"
  by (drule sym) (simp add: add.assoc)

lemma GetFromAllocator_take:
  assumes inv: "class_inv P c out s" and n: "n \<le> num_freed_chunks (regions64 s c)"
  defines "base \<equiv> num_freed_chunks (regions64 s c) - n"
  defines "taken \<equiv> map (free_array s (GetFreeArray P (region_of P c s))) [unat base..<unat base + unat n]"
  shows "class_inv P c (taken @ out) (set_region64 c (\<lambda>r. r\<lparr>num_freed_chunks := base,
                 stats64 := (stats64 r)\<lparr>n_allocated := n_allocated (stats64 r) + n\<rparr>\<rparr>) s)" (is "class_inv _ _ _ ?s'")
proof (rule class_inv_set_num [OF inv])
  have b: "unat (num_freed_chunks (regions64 s c)) = unat base + unat n"
    using n by (simp add: base_def unat_sub word_le_nat_alt)
  have parts: "region_of P c ?s' = region_of P c s" "free_array ?s' = free_array s"
      "num_freed_chunks (regions64 ?s' c) = base"
    by (simp_all add: set_region64_def region_of_def SpaceBeg_def)
  have "free_list64 P c ?s' @ taken = free_list64 P c s"
    unfolding free_list64_def taken_def b parts upt_add_eq_append [of 0 "unat base" "unat n", OF le0] map_append add_0 ..
  then show "mset (free_list64 P c ?s') + mset (taken @ out) = mset (free_list64 P c s) + mset out"
    by (rule taken_mset)
qed (simp_all add: set_region64_def region_of_def SpaceBeg_def)

lemma set_region64_frame [simp]:
  "region_of P c (set_region64 d f s) = region_of P c s" "p64_state.more (set_region64 d f s) = p64_state.more s"
  by (simp_all add: set_region64_def region_of_def SpaceBeg_def)

lemma GetFromAllocator_inv:
  assumes P: "class_parameters_ok P c" and inv: "class_inv P c out s" and n: "unat n \<le> 2 ^ 40"
  shows "yields (GetFromAllocator P c n s) (\<lambda>(taken, s'). p64_state.more s' = p64_state.more s \<and>
    region_of P c s' = region_of P c s \<and>
    (case taken of None \<Rightarrow> class_inv P c out s' | Some xs \<Rightarrow> length xs = unat n \<and> class_inv P c (xs @ out) s'))"
proof (cases "is_clustertag s")
  case True
  then show ?thesis by (simp add: GetFromAllocator_def GetRegionBeginBySizeClass_def not_in_clustertag_def)
next
  case False
  let ?rb = "region_of P c s" and ?m = "n - num_freed_chunks (regions64 s c)"
  have rb: "GetRegionBeginBySizeClass P c s = Inr ?rb"
    using False by (simp add: GetRegionBeginBySizeClass_def not_in_clustertag_def region_of_def)
  have refill: "yields (if num_freed_chunks (regions64 s c) < n then
                andThen (PopulateFreeArray P c ?m s) (\<lambda>(ok, s).
                if \<not> ok then Inr (False, s)
                else andThen (check (n \<le> num_freed_chunks (regions64 s c))) (\<lambda>_. Inr (True, s)))
              else Inr (True, s))
      (\<lambda>(ok, s'). class_inv P c out s' \<and> (region_of P c s' = ?rb \<and> p64_state.more s' = p64_state.more s) \<and> (ok \<longrightarrow> n \<le> num_freed_chunks (regions64 s' c)))"
  proof (cases "num_freed_chunks (regions64 s c) < n")
    case True
    then have "unat ?m \<le> unat n" by (simp add: unat_sub word_le_nat_alt word_less_nat_alt)
    then have m: "unat ?m \<le> 2 ^ 40" using n by linarith
    show ?thesis
      using True
      by (auto intro!: yields_andThen [OF PopulateFreeArray_inv [OF P inv m]]
          simp: andThen_check populated_def region_of_def SpaceBeg_def)
  qed (use inv in auto)
  have take: "yields (if \<not> ok then Inr (None, s1)
       else Inr (Some (map (free_array s1 (GetFreeArray P ?rb))
         [unat (num_freed_chunks (regions64 s1 c) - n)..<unat (num_freed_chunks (regions64 s1 c) - n) + unat n]),
         set_region64 c (\<lambda>r. r\<lparr>num_freed_chunks := num_freed_chunks (regions64 s1 c) - n,
           stats64 := (stats64 r)\<lparr>n_allocated := n_allocated (stats64 r) + n\<rparr>\<rparr>) s1))
      (\<lambda>(taken, s'). p64_state.more s' = p64_state.more s \<and> region_of P c s' = ?rb \<and>
        (case taken of None \<Rightarrow> class_inv P c out s' | Some xs \<Rightarrow> length xs = unat n \<and> class_inv P c (xs @ out) s'))"
    if s1: "class_inv P c out s1" and r: "region_of P c s1 = ?rb" and m: "p64_state.more s1 = p64_state.more s" and le: "ok \<longrightarrow> n \<le> num_freed_chunks (regions64 s1 c)"
    for ok s1
    using s1 le m r GetFromAllocator_take [OF s1, unfolded r]
    by (cases ok) simp_all
  show ?thesis
    unfolding GetFromAllocator_def rb andThen_simps Let_def
    by (rule yields_andThen [OF refill], clarify, rule take, assumption+)
qed

lemma ReturnToAllocator_inv:
  assumes P: "class_parameters_ok P c" and inv: "class_inv P c out s" and taken: "mset taken + mset out' = mset out"
  shows "yields (ReturnToAllocator G P c taken (mm, s)) (\<lambda>(mm', s'). class_inv P c out' s' \<and>
    p64_state.more s' = p64_state.more s \<and> region_of P c s' = region_of P c s)"
proof (cases "is_clustertag s")
  case True
  then show ?thesis by (simp add: ReturnToAllocator_def GetRegionBeginBySizeClass_def not_in_clustertag_def)
next
  case False
  let ?rb = "region_of P c s" and ?n = "of_nat (length taken) :: uptr"
  let ?k = "unat (num_freed_chunks (regions64 s c))"
  have rb: "GetRegionBeginBySizeClass P c s = Inr ?rb"
    using False by (simp add: GetRegionBeginBySizeClass_def not_in_clustertag_def region_of_def)
  obtain q where q: "?k + length out = q" "q < 2 ^ 32" by (rule class_inv_chunks [OF P inv])
  have "length taken + length out' = length out" using arg_cong [OF taken, of size] by simp
  then have "?k + length taken < 2 ^ 32" using q by linarith
  then have num: "unat (num_freed_chunks (regions64 s c) + ?n) = ?k + length taken"
    by (subst unat_add_small; subst unat_of_nat_small) simp_all
  define put where "put s1 = set_region64 c (\<lambda>r. r\<lparr>num_freed_chunks := num_freed_chunks (regions64 s c) + ?n,
        stats64 := (stats64 r)\<lparr>n_freed := n_freed (stats64 r) + ?n\<rparr>\<rparr>)
      (s1\<lparr>free_array := (free_array s1)(GetFreeArray P ?rb := \<lambda>i. if ?k \<le> i \<and> i < ?k + length taken then taken ! (i - ?k)
         else free_array s1 (GetFreeArray P ?rb) i)\<rparr>)" for s1 :: "'a p64_state_scheme"
  have put_inv: "class_inv P c out' (put s1)" if s1: "same_maps s s1 c" for s1
  proof (rule class_inv_set_num [OF class_inv_same [OF inv s1]])
    have r1: "region_of P c s1 = ?rb" "num_freed_chunks (regions64 s1 c) = num_freed_chunks (regions64 s c)"
      using s1 by (simp_all add: same_maps_def same_pool_def region_of_def SpaceBeg_def)
    have r2: "region_of P c (put s1) = ?rb"
      unfolding r1(1) [symmetric] by (simp add: put_def set_region64_def region_of_def SpaceBeg_def)
    then show "region_of P c (put s1) = region_of P c s1" by (simp only: r1)
    have num_put: "num_freed_chunks (regions64 (put s1) c) = num_freed_chunks (regions64 s c) + ?n"
      by (simp add: put_def set_region64_def)
    let ?g = "\<lambda>i. if ?k \<le> i \<and> i < ?k + length taken then taken ! (i - ?k) else free_array s1 (GetFreeArray P ?rb) i"
    have "map ?g [?k..<?k + length taken] = taken" by (rule nth_equalityI) simp_all
    moreover have "map ?g [0..<?k] = map (free_array s1 (GetFreeArray P ?rb)) [0..<?k]" by simp
    moreover have "free_array (put s1) (GetFreeArray P ?rb) = ?g" by (simp add: put_def set_region64_def)
    ultimately have "free_list64 P c (put s1) = free_list64 P c s1 @ taken"
      unfolding free_list64_def r1 r2 num_put num upt_add_eq_append [of 0 ?k "length taken", OF le0] map_append
      by (simp only:)
    then show "mset (free_list64 P c (put s1)) + mset out' = mset (free_list64 P c s1) + mset out"
      using taken by (simp add: add.assoc)
  qed (simp_all add: put_def set_region64_def)
  have rel: "yields (MaybeReleaseToOS G P c False (mm, put s1)) (\<lambda>(mm', s'). class_inv P c out' s' \<and>
      p64_state.more s' = p64_state.more s \<and> region_of P c s' = region_of P c s)"
    if s1: "same_maps s s1 c" for s1
  proof (rule yields_mono [OF MaybeReleaseToOS_maps], clarify, intro conjI)
    fix mm' s' assume s': "same_maps (put s1) s' c"
    show "class_inv P c out' s'" by (rule class_inv_same [OF put_inv [OF s1] s'])
    have "p64_state.more (put s1) = p64_state.more s" "NonConstSpaceBeg (put s1) = NonConstSpaceBeg s"
      using s1 by (simp_all add: put_def set_region64_def same_maps_def same_pool_def)
    then show "p64_state.more s' = p64_state.more s" "region_of P c s' = region_of P c s"
      using s' by (simp_all add: same_maps_def same_pool_def region_of_def SpaceBeg_def)
  qed
  show ?thesis
    unfolding ReturnToAllocator_def prod.case Let_def rb andThen_simps
    by (rule yields_andThen [OF EnsureFreeArraySpace_maps])
      (use rel in \<open>auto simp: put_def same_maps_def same_pool_def set_region64_def\<close>)
qed

section \<open>Runs of the operations on one class\<close>

text \<open>The state of a class together with the chunks handed out, under any sequence of requests and
  returns; a failed request changes what is mapped but hands out nothing.\<close>

inductive class_run ::
    "ct_globals \<Rightarrow> p64_params \<Rightarrow> uptr \<Rightarrow> p64_state \<Rightarrow> u32 list \<Rightarrow> p64_state \<Rightarrow> u32 list \<Rightarrow> bool"
  for G P c where
  run_none: "class_run G P c s out s out"
| run_get: "class_run G P c s out s1 out1 \<Longrightarrow> unat n \<le> 2 ^ 40 \<Longrightarrow> GetFromAllocator P c n s1 = Inr (Some taken, s2) \<Longrightarrow>
    class_run G P c s out s2 (taken @ out1)"
| run_fail: "class_run G P c s out s1 out1 \<Longrightarrow> unat n \<le> 2 ^ 40 \<Longrightarrow> GetFromAllocator P c n s1 = Inr (None, s2) \<Longrightarrow>
    class_run G P c s out s2 out1"
| run_return: "class_run G P c s out s1 out1 \<Longrightarrow> mset taken + mset out2 = mset out1 \<Longrightarrow>
    ReturnToAllocator G P c taken (mm, s1) = Inr (mm', s2) \<Longrightarrow> class_run G P c s out s2 out2"

lemma class_run_inv:
  "class_run G P c s out s' out' \<Longrightarrow> class_parameters_ok P c \<Longrightarrow> class_inv P c out s \<Longrightarrow> class_inv P c out' s'"
proof (induction s out s' out' rule: class_run.induct)
  case (run_get s out s1 out1 n taken s2)
  from yieldsD [OF GetFromAllocator_inv [OF run_get.prems(1) run_get.IH [OF run_get.prems] run_get.hyps(2)] run_get.hyps(3)]
  show ?case by simp
next
  case (run_fail s out s1 out1 n s2)
  from yieldsD [OF GetFromAllocator_inv [OF run_fail.prems(1) run_fail.IH [OF run_fail.prems] run_fail.hyps(2)] run_fail.hyps(3)]
  show ?case by simp
next
  case (run_return s out s1 out1 taken out2 mm mm' s2)
  from yieldsD [OF ReturnToAllocator_inv [OF run_return.prems(1) run_return.IH [OF run_return.prems] run_return.hyps(2)] run_return.hyps(3)]
  show ?case by simp
qed simp

definition fresh_class :: "uptr \<Rightarrow> p64_state \<Rightarrow> bool" where
  "fresh_class c s \<longleftrightarrow> (let r = regions64 s c in num_freed_chunks r = 0 \<and> allocated_user r = 0 \<and> allocated_meta r = 0 \<and>
     mapped_user r = 0 \<and> mapped_meta r = 0)"

lemma fresh_class_inv: "fresh_class c s \<Longrightarrow> class_inv P c [] s"
  unfolding class_inv_def Let_def
  by (intro conjI exI [of _ 0]) (simp_all add: fresh_class_def Let_def free_list64_def)

lemma out_in_region:
  assumes P: "class_parameters_ok P c" and inv: "class_inv P c out s" and x: "x \<in> set out"
  shows "\<exists>i. x = chunk32 (ClassIdToSize P c) i \<and> (i + 1) * unat (ClassIdToSize P c) \<le> unat (mapped_user (regions64 s c))"
proof -
  let ?sz = "ClassIdToSize P c"
  obtain k where k: "unat (allocated_user (regions64 s c)) = k * unat ?sz"
    "mset (free_list64 P c s) + mset out = mset (map (chunk32 ?sz) [0..<k])"
    by (rule class_inv_chunks [OF P inv])
  have "x \<in># mset (free_list64 P c s) + mset out" using x by simp
  then obtain i where i: "i < k" "x = chunk32 ?sz i" unfolding k(2) by auto
  have "(i + 1) * unat ?sz \<le> k * unat ?sz" using i(1) by (intro mult_le_mono1) simp
  then show ?thesis using i(2) k(1) class_inv_small(3) [OF P inv] by fastforce
qed

section \<open>Conservation of chunks\<close>

text \<open>C13. Upstream size classes: under every sequence of requests and returns on a class that starts
  empty, no chunk is in two places (free twice, handed out twice, or both), and every chunk handed
  out lies at a multiple of the class size inside the mapped part of the region.\<close>

theorem upstream_chunks_disjoint:
  assumes "class_parameters_ok P c" and "fresh_class c s" and "class_run G P c s [] s' out"
  shows "distinct (free_list64 P c s' @ out) \<and>
    (\<forall>x \<in> set out. \<exists>i. x = chunk32 (ClassIdToSize P c) i \<and>
       (i + 1) * unat (ClassIdToSize P c) \<le> unat (mapped_user (regions64 s' c)))"
proof -
  have inv: "class_inv P c out s'" by (rule class_run_inv [OF assms(3,1) fresh_class_inv [OF assms(2)]])
  show ?thesis using class_inv_distinct [OF assms(1) inv] out_in_region [OF assms(1) inv] by blast
qed

definition sample_region64 :: RegionInfo64 where
  "sample_region64 = \<lparr> num_freed_chunks = 0, mapped_free_array = 0, allocated_user = 0, allocated_meta = 0, mapped_user = 0,
     mapped_meta = 0, rand_state = 0, exhausted = False, stats64 = \<lparr> n_allocated = 0, n_freed = 0 \<rparr>,
     rtoi = \<lparr> n_freed_at_last_release = 0, num_releases = 0, last_release_ns = 0, last_released_bytes = 0 \<rparr> \<rparr>"

definition sample_p64 :: p64_state where
  "sample_p64 = cache_state.extend start_state (p64_state.fields False 0x100000000000 0 True (- 1) (\<lambda>_. sample_region64)
     (\<lambda>_ _. 0) [])"

lemma sample_p64: "regions64 sample_p64 c = sample_region64" "is_clustertag sample_p64 = False"
    "num_freed_chunks sample_region64 = 0" "allocated_user sample_region64 = 0" "allocated_meta sample_region64 = 0"
    "mapped_user sample_region64 = 0" "mapped_meta sample_region64 = 0"
  by (simp_all add: sample_p64_def cache_state.defs p64_state.defs sample_region64_def)

lemma sample_get: "map_sum id fst (GetFromAllocator AP64 30 2 sample_p64) = Inr (Some [0x1000, 0])"
  by code_simp

lemma AP64_space: "kRegionSize AP64 = 0x100000000" "NumClassesRounded64 AP64 = 32" "NumClasses64 AP64 = 32"
    "kUsingConstantSpaceBeg AP64 = False"
  by code_simp+

lemma sample_class_ok: "class_parameters_ok AP64 30"
proof -
  have "ClassIdToSize AP64 30 = 0x10000" by code_simp
  then show ?thesis by (simp add: class_parameters_ok_def AP64_space) (simp add: AP64_def)
qed

theorem upstream_chunks_disjoint_witness:
  "\<exists>s' :: p64_state. class_run x86_globals AP64 30 sample_p64 [] s' [0x1000, 0] \<and>
     distinct (free_list64 AP64 30 s' @ [0x1000, 0])"
proof -
  obtain s' where g: "GetFromAllocator AP64 30 2 sample_p64 = Inr (Some [0x1000, 0], s')"
    using sample_get by (cases "GetFromAllocator AP64 30 2 sample_p64") auto
  have n: "unat (2 :: uptr) \<le> 2 ^ 40" by simp
  have r: "class_run x86_globals AP64 30 sample_p64 [] s' [0x1000, 0]"
  proof -
    from run_get [OF run_none n g] have "class_run x86_globals AP64 30 sample_p64 [] s' ([0x1000, 0] @ [])" .
    then show ?thesis by (simp only: append_Nil2)
  qed
  have f: "fresh_class 30 sample_p64" by (simp add: fresh_class_def sample_p64)
  from upstream_chunks_disjoint [OF sample_class_ok f r] r show ?thesis by blast
qed

section \<open>Finding a chunk from a pointer into it\<close>

lemma high_part:
  assumes off: "off < 2 ^ 32" and that: "unat c < 2 ^ 32"
  shows "(2 ^ 32 * c + off :: uptr) AND NOT (2 ^ 32 - 1) = 2 ^ 32 * c"
proof -
  have "unat (2 ^ 32 * c + off) = 2 ^ 32 * unat c + unat off"
    using that off by (simp add: unat_word_ariths word_less_nat_alt)
  moreover have "unat (2 ^ 32 * c) = 2 ^ 32 * unat c" using that by (simp add: unat_word_ariths)
  ultimately have "unat ((2 ^ 32 * c + off) AND NOT (2 ^ 32 - 1)) = unat (2 ^ 32 * c)"
    using off unat_and_high [of "2 ^ 32 * c + off" 32] by (simp add: word_less_nat_alt)
  then show ?thesis by (simp only: word_unat_eq_iff)
qed

text \<open>An offset from the start of the space splits into the class and the offset in its region.\<close>

lemma space_offset:
  assumes off: "(off :: uptr) < 2 ^ 32" and c: "c < (32 :: uptr)"
  shows "(2 ^ 32 * c + off) div 2 ^ 32 mod 32 = c" and "(2 ^ 32 * c + off) mod 2 ^ 32 = off"
    and "(2 ^ 32 * c + off) AND NOT (2 ^ 32 - 1) = 2 ^ 32 * c"
proof -
  have uc: "unat c < 32" using c by (simp add: word_less_nat_alt)
  have up: "unat (2 ^ 32 * c + off) = 2 ^ 32 * unat c + unat off"
    using uc off by (simp add: unat_word_ariths word_less_nat_alt)
  show "(2 ^ 32 * c + off) div 2 ^ 32 mod 32 = c"
    using up off uc by (intro word_unat_eq_iff [THEN iffD2]) (simp add: unat_div unat_mod word_less_nat_alt)
  show "(2 ^ 32 * c + off) mod 2 ^ 32 = off"
    using up off by (intro word_unat_eq_iff [THEN iffD2]) (simp add: unat_mod word_less_nat_alt)
  show "(2 ^ 32 * c + off) AND NOT (2 ^ 32 - 1) = 2 ^ 32 * c" using uc by (intro high_part off) simp
qed

text \<open>The division of an offset below \<open>2 ^ 32\<close>, done on 32 bits, gives the number of the chunk.\<close>

lemma chunk_number:
  assumes o: "i * unat sz + d < 2 ^ 32" and d: "d < unat sz" and sz: "unat sz < 2 ^ 32"
    and off_def: "off = of_nat (i * unat sz + d)"
  shows "(if drop_bit 32 (off :: uptr) \<noteq> 0 then off div sz else ucast ((ucast off :: u32) div ucast sz)) = of_nat i"
proof -
  have uo: "unat off = i * unat sz + d" unfolding off_def using o by (intro unat_of_nat_small) simp
  have off: "off < 2 ^ 32" using o uo by (simp add: word_less_nat_alt)
  have "i * 1 \<le> i * unat sz" using d by (intro mult_le_mono2) linarith
  then have "i < 2 ^ 32" using o by linarith
  then have i: "unat (of_nat i :: uptr) = i" by (intro unat_of_nat_small) simp
  have "unat (drop_bit 32 off) = 0" unfolding unat_drop_bit using off by (simp add: word_less_nat_alt)
  then have h: "drop_bit 32 off = 0" by (simp only: unsigned_eq_0_iff)
  have "unat (ucast ((ucast off :: u32) div ucast sz) :: uptr) = unat (of_nat i :: uptr)"
    using off sz d by (simp add: i unat_div unsigned_ucast_eq take_bit_nat_eq_self word_less_nat_alt uo)
  then have "ucast ((ucast off :: u32) div ucast sz) = (of_nat i :: uptr)" by (simp only: word_unat_eq_iff)
  then show ?thesis using h by simp
qed

text \<open>C14. Upstream block lookup: for a pointer anywhere inside a mapped chunk of a class,
  \<open>GetBlockBegin\<close> finds the start of that chunk.\<close>

theorem block_begin_finds_chunk:
  assumes on: "\<not> is_clustertag s" and c: "c < 32" and sz: "0 < ClassIdToSize AP64 c"
    and d: "d < unat (ClassIdToSize AP64 c)"
    and mapped: "(i + 1) * unat (ClassIdToSize AP64 c) \<le> unat (mapped_user (regions64 s c))"
    and room: "unat (mapped_user (regions64 s c)) < 2 ^ 32"
  shows "GetBlockBegin64 AP64 (region_of AP64 c s + of_nat (i * unat (ClassIdToSize AP64 c) + d)) s =
    Inr (region_of AP64 c s + of_nat (i * unat (ClassIdToSize AP64 c)))"
proof -
  let ?sz = "ClassIdToSize AP64 c" and ?beg = "NonConstSpaceBeg s" and ?o = "i * unat (ClassIdToSize AP64 c) + d"
  have o: "?o < 2 ^ 32" and usz: "unat ?sz < 2 ^ 32" using mapped room d by simp_all
  define off :: uptr where "off = of_nat ?o"
  have "unat off = ?o" unfolding off_def using o by (intro unat_of_nat_small) simp
  then have off: "off < 2 ^ 32" using o by (simp add: word_less_nat_alt)
  have R: "kRegionSize AP64 = 2 ^ 32" by (simp add: AP64_space)
  have ptr: "region_of AP64 c s + of_nat ?o - ?beg = 2 ^ 32 * c + off"
    by (simp add: region_of_def SpaceBeg_def AP64_space off_def)
  note idx = chunk_number [OF o d usz off_def]
  have lt: "unat (of_nat (i * unat ?sz) + ?sz) = (i + 1) * unat ?sz"
    using mapped room by (subst unat_add_small; subst unat_of_nat_small) simp_all
  have chunk: "of_nat i * ?sz = of_nat (i * unat ?sz)" by simp
  have f: "32 \<le> c \<longleftrightarrow> False" "?sz = 0 \<longleftrightarrow> False"
      "of_nat (i * unat ?sz) + ?sz \<le> mapped_user (regions64 s c) \<longleftrightarrow> True"
    using c sz mapped by (simp_all add: not_le word_le_nat_alt [of "_ + _"] lt word_gt_0 del: of_nat_mult)
  have region: "region_of AP64 c s = 2 ^ 32 * c + ?beg"
    by (simp add: region_of_def SpaceBeg_def AP64_space)
  show ?thesis
    unfolding GetBlockBegin64_def GetSizeClass_def GetRegionBegin_def GetChunkIdx_def
    using on by (simp only: not_in_clustertag_def if_False andThen_simps AP64_space(2-4) R simp_thms not_False_eq_True if_True
        Let_def SpaceBeg_def ptr space_offset [OF off c] idx chunk f) (simp only: region)
qed

text \<open>A pointer 100 bytes into the second chunk of class 30, with two chunks mapped.\<close>

theorem block_begin_finds_chunk_witness:
  "\<exists>s :: p64_state. GetBlockBegin64 AP64 (region_of AP64 30 s + 0x10064) s = Inr (region_of AP64 30 s + 0x10000)"
proof -
  let ?s = "set_region64 30 (\<lambda>r. r\<lparr>mapped_user := 0x20000\<rparr>) sample_p64"
  have sz: "ClassIdToSize AP64 30 = 0x10000" by code_simp
  have m: "mapped_user (regions64 ?s 30) = 0x20000" "\<not> is_clustertag ?s"
    by (simp_all add: set_region64_def sample_p64)
  have "GetBlockBegin64 AP64 (region_of AP64 30 ?s + of_nat (1 * unat (ClassIdToSize AP64 30) + 100)) ?s =
    Inr (region_of AP64 30 ?s + of_nat (1 * unat (ClassIdToSize AP64 30)))"
    by (rule block_begin_finds_chunk) (simp_all add: sz m)
  then show ?thesis unfolding sz by (intro exI [of _ ?s]) simp
qed

text \<open>In a ClusterTag process none of this runs: the region lookup, and with it every operation, ends the
  process.\<close>

lemma upstream_off:
  "is_clustertag s \<Longrightarrow> GetFromAllocator P c n s = Inl (Exit 1)"
  "is_clustertag s \<Longrightarrow> ReturnToAllocator G P c taken (mm, s) = Inl (Exit 1)"
  "is_clustertag s \<Longrightarrow> PointerIsMine64 P p s = Inl (Exit 1)"
  "is_clustertag s \<Longrightarrow> GetBlockBegin64 P p s = Inl (Exit 1)"
  "is_clustertag s \<Longrightarrow> GetMetaData64 P p s = Inl (Exit 1)"
  by (simp_all add: GetFromAllocator_def ReturnToAllocator_def PointerIsMine64_def GetBlockBegin64_def GetMetaData64_def
      GetSizeClass_def GetRegionBeginBySizeClass_def not_in_clustertag_def)

end
