(* ===== verification/Large_Mmap.thy ===== *)
theory Large_Mmap
  imports Primary64_Inv
begin

text \<open>
  The allocator of large blocks of the upstream runtime (\<open>LargeMmapAllocator\<close> of
  \<open>sanitizer_allocator_secondary.h\<close>): each block is its own mapping with a header one page before the
  block, and an array holds the addresses of the headers. The headers are a map from addresses, the
  array is a map from indices; \<open>ReservedAddressRange\<close>, \<open>AllocatorStats\<close> and \<open>MapUnmapCallback\<close> are
  outside the repository, so a call of theirs is an event of \<open>p64_log\<close> or the next value of \<open>sys_ret\<close>.

  The last part compares the two lookups of the file: the linear search of \<open>GetBlockBegin\<close> and the
  binary search of \<open>GetBlockBeginFastLocked\<close> agree on every state of disjoint mappings.
\<close>

section \<open>State\<close>

record large_header =
  map_beg :: uptr
  map_size :: uptr
  block_size :: uptr
  chunk_idx :: uptr

record large_stats =
  n_allocs :: uptr
  n_frees :: uptr
  currently_allocated :: uptr
  max_allocated :: uptr
  by_size_log :: "uptr \<Rightarrow> uptr"

record large_state = p64_state +
  lm_page_size :: uptr
  lm_chunks :: "uptr \<Rightarrow> uptr"
  lm_headers :: "uptr \<Rightarrow> large_header"
  n_chunks :: uptr
  chunks_sorted :: bool
  range_base :: uptr
  n_reserved :: uptr
  lm_stats :: large_stats

definition set_header :: "uptr \<Rightarrow> (large_header \<Rightarrow> large_header) \<Rightarrow> 'a large_state_scheme \<Rightarrow> 'a large_state_scheme" where
  "set_header h f s = s\<lparr>lm_headers := (lm_headers s)(h := f (lm_headers s h))\<rparr>"

section \<open>The array of chunks\<close>

definition kMaxNumChunksDynamic :: uptr where "kMaxNumChunksDynamic = push_bit 20 1"
definition kChunksBlockCount :: uptr where "kChunksBlockCount = push_bit 14 1"
definition kMaxNumChunksStatic :: uptr where "kMaxNumChunksStatic = push_bit 15 1"

text \<open>The array of the allocators with a small address space.\<close>

definition EnsureSpaceStatic :: "uptr \<Rightarrow> unit res" where
  "EnsureSpaceStatic n = check (n < kMaxNumChunksStatic)"

definition PtrArrayDynamic_Init :: "'a large_state_scheme \<Rightarrow> 'a large_state_scheme res" where
  "PtrArrayDynamic_Init s =
     (let (p, s) = syscall s in andThen (check (p \<noteq> 0)) (\<lambda>_. Inr (s\<lparr>range_base := p\<rparr>)))"

definition EnsureSpace :: "uptr \<Rightarrow> 'a large_state_scheme \<Rightarrow> 'a large_state_scheme res" where
  "EnsureSpace n s =
     andThen (check (n < kMaxNumChunksDynamic)) (\<lambda>_.
     if n = n_reserved s
     then Inr (note64 (Range_map (range_base s + n_reserved s * 8) (kChunksBlockCount * 8)) s
                 \<lparr>n_reserved := n_reserved s + kChunksBlockCount\<rparr>)
     else Inr s)"

section \<open>Start\<close>

definition LargeInitLinkerInitialized :: "ct_globals \<Rightarrow> 'a large_state_scheme \<Rightarrow> 'a large_state_scheme res" where
  "LargeInitLinkerInitialized G s = PtrArrayDynamic_Init (s\<lparr>lm_page_size := page_size G\<rparr>)"

definition LargeInit :: "ct_globals \<Rightarrow> 'a large_state_scheme \<Rightarrow> 'a large_state_scheme res" where
  "LargeInit G s =
     LargeInitLinkerInitialized G
       (s\<lparr>lm_page_size := 0, n_chunks := 0, chunks_sorted := False, range_base := 0, n_reserved := 0,
          lm_stats := \<lparr>n_allocs = 0, n_frees = 0, currently_allocated = 0, max_allocated = 0, by_size_log = (\<lambda>_. 0)\<rparr>\<rparr>)"

section \<open>Headers and users\<close>

definition GetHeader :: "uptr \<Rightarrow> 'a large_state_scheme \<Rightarrow> uptr res" where
  "GetHeader p s = andThen (IsAligned p (lm_page_size s)) (\<lambda>al. andThen (check al) (\<lambda>_. Inr (p - lm_page_size s)))"

definition GetUser :: "uptr \<Rightarrow> 'a large_state_scheme \<Rightarrow> uptr res" where
  "GetUser h s = andThen (IsAligned h (lm_page_size s)) (\<lambda>al. andThen (check al) (\<lambda>_. Inr (h + lm_page_size s)))"

definition RoundUpMapSize :: "uptr \<Rightarrow> 'a large_state_scheme \<Rightarrow> uptr res" where
  "RoundUpMapSize sz s = andThen (RoundUpTo sz (lm_page_size s)) (\<lambda>r. Inr (r + lm_page_size s))"

section \<open>Allocation\<close>

definition enter_chunk :: "uptr \<Rightarrow> uptr \<Rightarrow> uptr \<Rightarrow> 'a large_state_scheme \<Rightarrow> 'a large_state_scheme res" where
  "enter_chunk h map_sz size_log s =
     andThen (EnsureSpace (n_chunks s) s) (\<lambda>s.
     let idx = n_chunks s;
         s = set_header h (chunk_idx_update (\<lambda>_. idx)) (s\<lparr>n_chunks := idx + 1\<rparr>);
         s = s\<lparr>lm_chunks := (lm_chunks s)(idx := h), chunks_sorted := False\<rparr>;
         st = lm_stats s;
         now = currently_allocated st + map_sz;
         s = s\<lparr>lm_stats := st\<lparr>n_allocs := n_allocs st + 1, currently_allocated := now,
                 max_allocated := San_Max (max_allocated st) now,
                 by_size_log := (by_size_log st)(size_log := by_size_log st size_log + 1)\<rparr>\<rparr>
     in Inr (note64 (Stat_add AllocatorStatMapped map_sz) (note64 (Stat_add AllocatorStatAllocated map_sz) s)))"

definition place_block :: "uptr \<Rightarrow> uptr \<Rightarrow> uptr \<Rightarrow> uptr \<Rightarrow> 'a large_state_scheme \<Rightarrow> (uptr \<times> 'a large_state_scheme) res" where
  "place_block beg map_sz sz alignment s =
     (let s = note64 (On_map beg map_sz) s;
          map_end = beg + map_sz;
          res = beg + lm_page_size s;
          res = (if res AND (alignment - 1) \<noteq> 0 then res + (alignment - (res AND (alignment - 1))) else res)
      in
      andThen (IsAligned res alignment) (\<lambda>al. andThen (check al) (\<lambda>_.
      andThen (IsAligned res (lm_page_size s)) (\<lambda>al. andThen (check al) (\<lambda>_.
      andThen (check (beg \<le> res + sz)) (\<lambda>_.
      andThen (check (res + sz \<le> map_end)) (\<lambda>_.
      andThen (GetHeader res s) (\<lambda>h.
      let s = set_header h (\<lambda>hd. hd\<lparr>block_size := sz, map_beg := beg, map_size := map_sz\<rparr>) s in
      andThen (MostSignificantSetBitIndex map_sz) (\<lambda>size_log.
      andThen (check (size_log < 64)) (\<lambda>_.
      andThen (enter_chunk h map_sz size_log s) (\<lambda>s. Inr (res, s))))))))))))"

definition LargeAllocate :: "ct_globals \<Rightarrow> uptr \<Rightarrow> uptr \<Rightarrow> 'a large_state_scheme \<Rightarrow> (uptr \<times> 'a large_state_scheme) res" where
  "LargeAllocate G sz alignment s =
     andThen (check (IsPowerOfTwo alignment)) (\<lambda>_.
     andThen (RoundUpMapSize sz s) (\<lambda>map_sz.
     let map_sz = (if lm_page_size s < alignment then map_sz + alignment else map_sz) in
     if map_sz < sz then Inr (0, s)
     else
       andThen (MmapOrDieOnFatalError G map_sz s) (\<lambda>(beg, s).
       if beg = 0 then Inr (0, s)
       else
         andThen (IsAligned beg (lm_page_size s)) (\<lambda>al. andThen (check al) (\<lambda>_.
         place_block beg map_sz sz alignment s)))))"

text \<open>\<open>chunks_[idx] = chunks_[--n_chunks_]\<close>, and the header moved there learns its index.\<close>

definition leave_chunk :: "uptr \<Rightarrow> 'a large_state_scheme \<Rightarrow> 'a large_state_scheme res" where
  "leave_chunk h s =
     (let idx = chunk_idx (lm_headers s h) in
      andThen (check (lm_chunks s idx = h)) (\<lambda>_.
      andThen (check (idx < n_chunks s)) (\<lambda>_.
      let n = n_chunks s - 1;
          moved = lm_chunks s n;
          s = s\<lparr>n_chunks := n, lm_chunks := (lm_chunks s)(idx := moved)\<rparr>;
          s = set_header moved (chunk_idx_update (\<lambda>_. idx)) s;
          st = lm_stats s; map_sz = map_size (lm_headers s h);
          s = s\<lparr>chunks_sorted := False,
                lm_stats := st\<lparr>n_frees := n_frees st + 1, currently_allocated := currently_allocated st - map_sz\<rparr>\<rparr>
      in Inr (note64 (Stat_sub AllocatorStatMapped map_sz) (note64 (Stat_sub AllocatorStatAllocated map_sz) s)))))"

definition LargeDeallocate :: "ct_globals \<Rightarrow> uptr \<Rightarrow> 'a large_state_scheme \<Rightarrow> 'a large_state_scheme res" where
  "LargeDeallocate G p s =
     andThen (GetHeader p s) (\<lambda>h.
     andThen (leave_chunk h s) (\<lambda>s.
     let hd = lm_headers s h
     in UnmapOrDie G (map_beg hd) (map_size hd) (note64 (On_unmap (map_beg hd) (map_size hd)) s)))"

section \<open>Queries\<close>

fun total_large :: "nat \<Rightarrow> uptr \<Rightarrow> 'a large_state_scheme \<Rightarrow> uptr \<Rightarrow> uptr res" where
  "total_large 0 i s acc = Inr acc"
| "total_large (Suc n) i s acc =
     (let hd = lm_headers s (lm_chunks s i) in
      andThen (check (chunk_idx hd = i)) (\<lambda>_.
      andThen (RoundUpMapSize (block_size hd) s) (\<lambda>m. total_large n (i + 1) s (acc + m))))"

definition LargeTotalMemoryUsed :: "'a large_state_scheme \<Rightarrow> uptr res" where
  "LargeTotalMemoryUsed s = total_large (unat (n_chunks s)) 0 s 0"

definition LargeGetActuallyAllocatedSize :: "uptr \<Rightarrow> 'a large_state_scheme \<Rightarrow> uptr res" where
  "LargeGetActuallyAllocatedSize p s =
     andThen (GetHeader p s) (\<lambda>h. RoundUpTo (block_size (lm_headers s h)) (lm_page_size s))"

text \<open>The size of a header is 32 bytes.\<close>

definition LargeGetMetaData :: "uptr \<Rightarrow> 'a large_state_scheme \<Rightarrow> uptr res" where
  "LargeGetMetaData p s =
     andThen (IsAligned p (lm_page_size s)) (\<lambda>al. andThen (check al) (\<lambda>_.
     andThen (GetHeader p s) (\<lambda>h. Inr (h + 32))))"

definition chunk_list :: "'a large_state_scheme \<Rightarrow> uptr list" where
  "chunk_list s = map (\<lambda>i. lm_chunks s (of_nat i)) [0..<unat (n_chunks s)]"

text \<open>The search of \<open>GetBlockBegin\<close>.\<close>

fun nearest_chunk :: "uptr \<Rightarrow> uptr list \<Rightarrow> uptr \<Rightarrow> uptr" where
  "nearest_chunk p [] nearest = nearest"
| "nearest_chunk p (ch # chs) nearest =
     (if p < ch then nearest_chunk p chs nearest
      else nearest_chunk p chs (if p - ch < p - nearest then ch else nearest))"

definition LargeGetBlockBegin :: "uptr \<Rightarrow> 'a large_state_scheme \<Rightarrow> uptr res" where
  "LargeGetBlockBegin p s =
     (let nearest = nearest_chunk p (chunk_list s) 0; hd = lm_headers s nearest in
      if nearest = 0 then Inr 0
      else
        andThen (check (map_beg hd \<le> nearest)) (\<lambda>_.
        andThen (check (nearest < map_beg hd + map_size hd)) (\<lambda>_.
        andThen (check (nearest \<le> p)) (\<lambda>_.
        if map_beg hd + map_size hd \<le> p then Inr 0 else GetUser nearest s))))"

definition LargePointerIsMine :: "uptr \<Rightarrow> 'a large_state_scheme \<Rightarrow> bool res" where
  "LargePointerIsMine p s = andThen (LargeGetBlockBegin p s) (\<lambda>b. Inr (b \<noteq> 0))"

fun renumber :: "uptr \<Rightarrow> uptr list \<Rightarrow> 'a large_state_scheme \<Rightarrow> 'a large_state_scheme" where
  "renumber i [] s = s"
| "renumber i (h # hs) s = renumber (i + 1) hs (set_header h (chunk_idx_update (\<lambda>_. i)) s)"

definition store_chunks :: "uptr list \<Rightarrow> 'a large_state_scheme \<Rightarrow> 'a large_state_scheme" where
  "store_chunks hs s =
     s\<lparr>lm_chunks := (\<lambda>i. if unat i < length hs then hs ! unat i else lm_chunks s i)\<rparr>"

definition EnsureSortedChunks :: "'a large_state_scheme \<Rightarrow> 'a large_state_scheme" where
  "EnsureSortedChunks s =
     (if chunks_sorted s then s
      else let hs = San_Sort (<) (chunk_list s)
           in (renumber 0 hs (store_chunks hs s))\<lparr>chunks_sorted := True\<rparr>)"

text \<open>The loop of \<open>GetBlockBeginFastLocked\<close> on the bounds \<open>beg\<close> and \<open>hi\<close>, with fuel.\<close>

fun narrow :: "nat \<Rightarrow> uptr \<Rightarrow> (uptr \<Rightarrow> uptr) \<Rightarrow> uptr \<Rightarrow> uptr \<Rightarrow> (uptr \<times> uptr) res" where
  "narrow 0 p arr beg hi = Inl Out_of_fuel"
| "narrow (Suc fuel) p arr beg hi =
     (if 2 \<le> hi - beg then
        let mid = (beg + hi) div 2 in
        if p < arr mid then narrow fuel p arr beg (mid - 1) else narrow fuel p arr mid hi
      else Inr (beg, hi))"

definition LargeGetBlockBeginFastLocked ::
    "ct_globals \<Rightarrow> uptr \<Rightarrow> 'a large_state_scheme \<Rightarrow> (uptr \<times> 'a large_state_scheme) res" where
  "LargeGetBlockBeginFastLocked G p s =
     (let n = n_chunks s in
      if n = 0 then Inr (0, s)
      else
        let s = EnsureSortedChunks s;
            arr = lm_chunks s;
            min_mmap = arr 0;
            max_mmap = arr (n - 1) + map_size (lm_headers s (arr (n - 1)))
        in
        if p < min_mmap \<or> max_mmap \<le> p then Inr (0, s)
        else
          andThen (narrow (loop_fuel G) p arr 0 (n - 1)) (\<lambda>(beg, hi).
          andThen (if beg < hi
                   then andThen (check (beg + 1 = hi)) (\<lambda>_. Inr (if arr hi \<le> p then hi else beg))
                   else Inr beg) (\<lambda>beg.
          let hd = lm_headers s (arr beg) in
          if map_beg hd + map_size hd \<le> p \<or> p < map_beg hd then Inr (0, s)
          else andThen (GetUser (arr beg) s) (\<lambda>u. Inr (u, s)))))"

text \<open>The blocks \<open>ForEachChunk\<close> calls its callback with; \<open>n\<close> of them are left.\<close>

fun each_chunk :: "nat \<Rightarrow> uptr \<Rightarrow> 'a large_state_scheme \<Rightarrow> uptr list res" where
  "each_chunk 0 i s = Inr []"
| "each_chunk (Suc n) i s =
     andThen (GetUser (lm_chunks s i) s) (\<lambda>u.
     andThen (check (chunk_idx (lm_headers s (lm_chunks s i)) = i)) (\<lambda>_.
     andThen (each_chunk n (i + 1) s) (\<lambda>us. Inr (u # us))))"

definition LargeForEachChunk :: "'a large_state_scheme \<Rightarrow> (uptr list \<times> 'a large_state_scheme) res" where
  "LargeForEachChunk s =
     (let s = EnsureSortedChunks s in andThen (each_chunk (unat (n_chunks s)) 0 s) (\<lambda>us. Inr (us, s)))"

section \<open>The linear search\<close>

lemma nearest_chunk_spec:
  "near \<le> p \<Longrightarrow> nearest_chunk p chs near \<le> p \<and> near \<le> nearest_chunk p chs near \<and>
     (nearest_chunk p chs near = near \<or> nearest_chunk p chs near \<in> set chs) \<and>
     (\<forall>ch \<in> set chs. ch \<le> p \<longrightarrow> ch \<le> nearest_chunk p chs near)"
proof (induction chs arbitrary: near)
  case (Cons ch chs)
  show ?case
  proof (cases "p < ch")
    case True
    then show ?thesis using Cons.IH [OF Cons.prems] by (auto dest: leD)
  next
    case False
    have closer: "p - ch < p - near \<longleftrightarrow> near < ch"
    proof -
      have "unat (p - ch) = unat p - unat ch" "unat (p - near) = unat p - unat near"
        using False Cons.prems by (simp_all add: unat_sub not_less)
      moreover have "unat ch \<le> unat p" "unat near \<le> unat p" using False Cons.prems by (simp_all add: word_le_nat_alt not_less)
      ultimately show ?thesis unfolding word_less_nat_alt by linarith
    qed
    show ?thesis
    proof (cases "near < ch")
      case True
      then show ?thesis using Cons.IH [of ch] False closer by (auto simp: not_less)
    next
      case near: False
      then show ?thesis using Cons.IH [OF Cons.prems] False closer by (auto simp: not_less)
    qed
  qed
qed simp

section \<open>Sorting the chunks\<close>

lemma renumber_fields:
  "lm_chunks (renumber i hs s) = lm_chunks s" "n_chunks (renumber i hs s) = n_chunks s"
  "lm_page_size (renumber i hs s) = lm_page_size s"
  "map_beg (lm_headers (renumber i hs s) h) = map_beg (lm_headers s h)"
  "map_size (lm_headers (renumber i hs s) h) = map_size (lm_headers s h)"
  by (induction hs arbitrary: i s) (auto simp: set_header_def)

lemma by_key_less: "by_key (\<lambda>x. x) ((<) :: uptr \<Rightarrow> uptr \<Rightarrow> bool)"
  by (simp add: by_key_def)

definition sorted_list :: "'a large_state_scheme \<Rightarrow> uptr list" where
  "sorted_list s = chunk_list (EnsureSortedChunks s)"

definition marked_sorted :: "'a large_state_scheme \<Rightarrow> bool" where
  "marked_sorted s \<longleftrightarrow> (chunks_sorted s \<longrightarrow> sorted (chunk_list s))"

lemma chunk_list_length [simp]: "length (chunk_list s) = unat (n_chunks s)"
  by (simp add: chunk_list_def)

lemma EnsureSortedChunks_fields:
  "n_chunks (EnsureSortedChunks s) = n_chunks s" "lm_page_size (EnsureSortedChunks s) = lm_page_size s"
  "map_beg (lm_headers (EnsureSortedChunks s) h) = map_beg (lm_headers s h)"
  "map_size (lm_headers (EnsureSortedChunks s) h) = map_size (lm_headers s h)"
  by (auto simp: EnsureSortedChunks_def Let_def renumber_fields store_chunks_def)

lemma sorted_list_spec:
  assumes "marked_sorted s"
  shows "sorted (sorted_list s)" and "mset (sorted_list s) = mset (chunk_list s)"
proof -
  have "sorted (sorted_list s) \<and> mset (sorted_list s) = mset (chunk_list s)"
  proof (cases "chunks_sorted s")
    case True
    then show ?thesis using assms by (simp add: sorted_list_def EnsureSortedChunks_def marked_sorted_def)
  next
    case False
    define hs where "hs = San_Sort (<) (chunk_list s)"
    have perm: "mset hs = mset (chunk_list s)" by (simp only: hs_def San_Sort_perm)
    have len: "length hs = unat (n_chunks s)" using arg_cong [OF perm, of size] by simp
    have e: "EnsureSortedChunks s = (renumber 0 hs (store_chunks hs s))\<lparr>chunks_sorted := True\<rparr>"
      using False by (simp add: EnsureSortedChunks_def Let_def hs_def)
    have "sorted_list s = hs"
    proof (rule nth_equalityI)
      show "length (sorted_list s) = length hs" by (simp add: sorted_list_def len EnsureSortedChunks_fields)
      fix i assume "i < length (sorted_list s)"
      then have i: "i < unat (n_chunks s)" by (simp add: sorted_list_def EnsureSortedChunks_fields)
      then have "unat (of_nat i :: uptr) = i"
        by (intro unat_of_nat_small) (simp add: less_trans [OF _ unat_less_64])
      then show "sorted_list s ! i = hs ! i"
        using i by (simp add: sorted_list_def chunk_list_def e renumber_fields store_chunks_def len)
    qed
    then show ?thesis using perm San_Sort_sorted [OF by_key_less, of "chunk_list s"] by (simp add: hs_def)
  qed
  then show "sorted (sorted_list s)" and "mset (sorted_list s) = mset (chunk_list s)" by blast+
qed


section \<open>The binary search\<close>

lemma narrow_spec:
  assumes len: "length L < 2 ^ 32" and c: "\<forall>i < length L. arr (of_nat i) = L ! i" and sorted: "sorted L"
  shows "unat hi < length L \<Longrightarrow> unat beg \<le> unat hi \<Longrightarrow> unat hi - unat beg \<le> 2 ^ fuel \<Longrightarrow> L ! unat beg \<le> p \<Longrightarrow>
      \<forall>i. unat hi < i \<and> i < length L \<longrightarrow> p < L ! i \<Longrightarrow>
    \<exists>b h. narrow (Suc fuel) p arr beg hi = Inr (b, h) \<and> unat h < length L \<and> unat b \<le> unat h \<and> unat h \<le> unat b + 1 \<and>
      L ! unat b \<le> p \<and> (\<forall>i. unat h < i \<and> i < length L \<longrightarrow> p < L ! i)"
proof (induction fuel arbitrary: beg hi)
  case 0
  have "\<not> 2 \<le> hi - beg"
    using "0.prems" by (simp add: word_le_nat_alt unat_sub)
  then show ?case using "0.prems" by simp
next
  case (Suc fuel)
  have d: "unat (hi - beg) = unat hi - unat beg" using Suc.prems(2) by (simp add: unat_sub word_le_nat_alt)
  show ?case
  proof (cases "2 \<le> hi - beg")
    case False
    then show ?thesis using Suc.prems d by (simp add: word_le_nat_alt)
  next
    case True
    then have d2: "2 \<le> unat hi - unat beg" using d by (simp add: word_le_nat_alt)
    let ?mid = "(beg + hi) div 2"
    have m: "unat ?mid = (unat beg + unat hi) div 2"
      using Suc.prems(1,2) len by (simp add: unat_div unat_add_small)
    have mid: "unat beg < unat ?mid" "unat ?mid < unat hi" using d2 by (simp_all add: m)
    have cm: "arr ?mid = L ! unat ?mid"
      using c [rule_format, of "unat ?mid"] mid Suc.prems(1) by simp
    have m1: "unat (?mid - 1) = unat ?mid - 1"
      using mid(1) by (simp add: unat_sub word_le_nat_alt)
    have step: "narrow (Suc (Suc fuel)) p arr beg hi =
        (if p < arr ?mid then narrow (Suc fuel) p arr beg (?mid - 1) else narrow (Suc fuel) p arr ?mid hi)"
      using True by (simp only: narrow.simps Let_def if_True)
    show ?thesis
    proof (cases "p < arr ?mid")
      case True
      have above: "p < L ! i" if "unat (?mid - 1) < i \<and> i < length L" for i
      proof -
        have "L ! unat ?mid \<le> L ! i" using sorted that m1 mid by (intro sorted_nth_mono) auto
        then show ?thesis using True cm by simp
      qed
      have "unat (?mid - 1) - unat beg \<le> 2 ^ fuel" using Suc.prems(3) d2 by (simp add: m1 m)
      moreover have "unat (?mid - 1) < length L" "unat beg \<le> unat (?mid - 1)" using mid m1 Suc.prems(1) by linarith+
      ultimately obtain b h where "narrow (Suc fuel) p arr beg (?mid - 1) = Inr (b, h)" "unat h < length L" "unat b \<le> unat h"
          "unat h \<le> unat b + 1" "L ! unat b \<le> p" "\<forall>i. unat h < i \<and> i < length L \<longrightarrow> p < L ! i"
        using Suc.IH [of "?mid - 1" beg] above Suc.prems(4) by blast
      then show ?thesis unfolding step using True by (simp del: narrow.simps)
    next
      case False
      have "unat hi - unat ?mid \<le> 2 ^ fuel" using Suc.prems(3) d2 by (simp add: m)
      moreover have "L ! unat ?mid \<le> p" "unat ?mid \<le> unat hi" using False mid(2) cm by simp_all
      ultimately obtain b h where "narrow (Suc fuel) p arr ?mid hi = Inr (b, h)" "unat h < length L" "unat b \<le> unat h"
          "unat h \<le> unat b + 1" "L ! unat b \<le> p" "\<forall>i. unat h < i \<and> i < length L \<longrightarrow> p < L ! i"
        using Suc.IH [of hi ?mid] Suc.prems(1,5) by blast
      then show ?thesis unfolding step using False by (simp del: narrow.simps)
    qed
  qed
qed

section \<open>The two searches agree\<close>

definition header_ok :: "'a large_state_scheme \<Rightarrow> uptr \<Rightarrow> bool" where
  "header_ok s ch \<longleftrightarrow> (let hd = lm_headers s ch in ch \<noteq> 0 \<and> map_beg hd \<le> ch \<and> ch < map_beg hd + map_size hd \<and>
     unat ch + unat (map_size hd) < 2 ^ 64)"

definition large_ok :: "'a large_state_scheme \<Rightarrow> bool" where
  "large_ok s \<longleftrightarrow> n_chunks s < 2 ^ 32 \<and> marked_sorted s \<and> (\<forall>ch \<in> set (chunk_list s). header_ok s ch)"

lemma header_ok_end:
  assumes "header_ok s ch"
  shows "map_beg (lm_headers s ch) + map_size (lm_headers s ch) \<le> ch + map_size (lm_headers s ch)"
proof -
  have "unat (ch + map_size (lm_headers s ch)) = unat ch + unat (map_size (lm_headers s ch))"
      "unat (map_beg (lm_headers s ch)) \<le> unat ch"
    using assms by (simp_all add: header_ok_def Let_def unat_add_small word_le_nat_alt)
  moreover have "unat (map_beg (lm_headers s ch) + map_size (lm_headers s ch)) =
      unat (map_beg (lm_headers s ch)) + unat (map_size (lm_headers s ch))"
    using assms calculation(2) by (intro unat_add_small) (simp add: header_ok_def Let_def)
  ultimately show ?thesis by (simp add: word_le_nat_alt)
qed

text \<open>The linear search in terms of the largest header at or below the pointer.\<close>

lemma LargeGetBlockBegin_at:
  assumes ok: "large_ok s" and r: "r \<in> set (chunk_list s)" "r \<le> p" "\<forall>ch \<in> set (chunk_list s). ch \<le> p \<longrightarrow> ch \<le> r"
  shows "LargeGetBlockBegin p s =
    (if map_beg (lm_headers s r) + map_size (lm_headers s r) \<le> p then Inr 0 else GetUser r s)"
proof -
  have h: "header_ok s r" using ok r(1) by (simp add: large_ok_def)
  have "nearest_chunk p (chunk_list s) 0 = r"
    using nearest_chunk_spec [of 0 p "chunk_list s"] r h by (auto simp: header_ok_def Let_def intro: antisym)
  then show ?thesis using h r(2) by (simp add: LargeGetBlockBegin_def Let_def header_ok_def)
qed

lemma LargeGetBlockBegin_none:
  assumes "\<forall>ch \<in> set (chunk_list s). p < ch"
  shows "LargeGetBlockBegin p s = Inr 0"
  using nearest_chunk_spec [of 0 p "chunk_list s"] assms by (auto simp: LargeGetBlockBegin_def Let_def)


lemma sorted_list_nth:
  "i < unat (n_chunks s) \<Longrightarrow> sorted_list s ! i = lm_chunks (EnsureSortedChunks s) (of_nat i)"
  by (simp add: sorted_list_def chunk_list_def EnsureSortedChunks_fields)

lemma GetUser_sorted: "GetUser h (EnsureSortedChunks s) = GetUser h s"
  by (simp add: GetUser_def EnsureSortedChunks_fields)

lemma map_sum_tagged: "map_sum id fst (andThen m (\<lambda>u. Inr (u, s'))) = m"
  by (cases m) simp_all

lemma sorted_list_facts:
  assumes "large_ok s"
  shows "sorted (sorted_list s)" and "set (sorted_list s) = set (chunk_list s)"
    and "length (sorted_list s) = unat (n_chunks s)"
    and "unat k < unat (n_chunks s) \<Longrightarrow> lm_chunks (EnsureSortedChunks s) k = sorted_list s ! unat k"
proof -
  have perm: "mset (sorted_list s) = mset (chunk_list s)" using sorted_list_spec assms by (auto simp: large_ok_def)
  show "sorted (sorted_list s)" using sorted_list_spec assms by (auto simp: large_ok_def)
  show "set (sorted_list s) = set (chunk_list s)" by (rule mset_eq_setD [OF perm])
  show len: "length (sorted_list s) = unat (n_chunks s)" using arg_cong [OF perm, of size] by simp
  show "lm_chunks (EnsureSortedChunks s) k = sorted_list s ! unat k" if "unat k < unat (n_chunks s)"
    using sorted_list_nth [OF that] by simp
qed

text \<open>The linear search finds the last header of the sorted list that is not above the pointer.\<close>

lemma sorted_below:
  assumes "sorted L" and "j < length L" and "\<forall>i. j < i \<and> i < length L \<longrightarrow> p < L ! i" and "ch \<in> set L" and "ch \<le> (p :: uptr)"
  shows "ch \<le> L ! j"
proof -
  obtain i where i: "i < length L" "L ! i = ch" using assms(4) unfolding in_set_conv_nth by blast
  then have "i \<le> j" using assms(3,5) by (meson leD not_le)
  then show ?thesis using sorted_nth_mono [OF assms(1)] i assms(2) by fastforce
qed

lemma LargeGetBlockBegin_sorted:
  assumes ok: "large_ok s" and j: "j < unat (n_chunks s)" "sorted_list s ! j \<le> p"
    and above: "\<forall>i. j < i \<and> i < unat (n_chunks s) \<longrightarrow> p < sorted_list s ! i"
  shows "LargeGetBlockBegin p s =
    (let r = sorted_list s ! j in if map_beg (lm_headers s r) + map_size (lm_headers s r) \<le> p then Inr 0 else GetUser r s)"
    and "header_ok s (sorted_list s ! j)"
proof -
  note F = sorted_list_facts [OF ok]
  have mem: "sorted_list s ! j \<in> set (chunk_list s)" using nth_mem [of j "sorted_list s"] j(1) F(2,3) by simp
  then show "header_ok s (sorted_list s ! j)" using ok by (simp add: large_ok_def)
  have "\<forall>ch \<in> set (chunk_list s). ch \<le> p \<longrightarrow> ch \<le> sorted_list s ! j"
    using sorted_below [OF F(1)] j(1) above F(2,3) by simp
  then show "LargeGetBlockBegin p s =
      (let r = sorted_list s ! j in if map_beg (lm_headers s r) + map_size (lm_headers s r) \<le> p then Inr 0 else GetUser r s)"
    using LargeGetBlockBegin_at [OF ok mem j(2)] by (simp add: Let_def)
qed

text \<open>What the binary search and the choice between its last two candidates give.\<close>

lemma narrow_picks:
  assumes ok: "large_ok s" and fuel: "33 \<le> loop_fuel G" and n: "n_chunks s \<noteq> 0" and le: "sorted_list s ! 0 \<le> p"
  shows "\<exists>b h j. narrow (loop_fuel G) p (lm_chunks (EnsureSortedChunks s)) 0 (n_chunks s - 1) = Inr (b, h) \<and>
    (if b < h then andThen (check (b + 1 = h)) (\<lambda>_. Inr (if lm_chunks (EnsureSortedChunks s) h \<le> p then h else b))
     else Inr b) = Inr j \<and> unat j < unat (n_chunks s) \<and> sorted_list s ! unat j \<le> p \<and>
    (\<forall>i. unat j < i \<and> i < unat (n_chunks s) \<longrightarrow> p < sorted_list s ! i)"
proof -
  let ?t = "EnsureSortedChunks s" and ?L = "sorted_list s" and ?n = "n_chunks s"
  note F = sorted_list_facts [OF ok]
  have n': "0 < unat ?n" "unat ?n < 2 ^ 32" using n ok by (simp_all add: large_ok_def word_less_nat_alt unat_gt_0)
  have un: "unat (?n - 1) = unat ?n - 1" using n' by (simp add: unat_sub word_le_nat_alt)
  obtain f where f: "loop_fuel G = Suc f" "32 \<le> f" using fuel by (cases "loop_fuel G") auto
  have "unat (?n - 1) - unat (0 :: uptr) \<le> 2 ^ 32" using n' un by simp
  also have "(2 :: nat) ^ 32 \<le> 2 ^ f" using f(2) by (intro power_increasing) simp_all
  finally have fe: "unat (?n - 1) - unat (0 :: uptr) \<le> 2 ^ f" .
  have c: "\<forall>i < length ?L. lm_chunks ?t (of_nat i) = ?L ! i" by (simp add: sorted_list_nth F(3))
  have l32: "length ?L < 2 ^ 32" using F(3) n' by simp
  have pre: "unat (?n - 1) < length ?L" "unat (0 :: uptr) \<le> unat (?n - 1)" "?L ! unat (0 :: uptr) \<le> p"
      "\<forall>i. unat (?n - 1) < i \<and> i < length ?L \<longrightarrow> p < ?L ! i"
    using n' un F(3) le by auto
  obtain b h where bh: "narrow (Suc f) p (lm_chunks ?t) 0 (?n - 1) = Inr (b, h)" "unat h < unat ?n" "unat b \<le> unat h"
      "unat h \<le> unat b + 1" "?L ! unat b \<le> p" "\<forall>i. unat h < i \<and> i < unat ?n \<longrightarrow> p < ?L ! i"
    using narrow_spec [of ?L "lm_chunks ?t", OF l32 c F(1) pre(1,2) fe pre(3,4)] unfolding F(3) by blast
  define j where "j = (if b < h then if ?L ! unat h \<le> p then h else b else b)"
  have "b < h \<Longrightarrow> unat (b + 1) = unat h"
    using bh(2-4) n' by (subst unat_add_small) (simp_all add: word_less_nat_alt)
  then have "b < h \<Longrightarrow> b + 1 = h" by (simp only: word_unat_eq_iff)
  then have "(if b < h then andThen (check (b + 1 = h)) (\<lambda>_. Inr (if lm_chunks ?t h \<le> p then h else b)) else Inr b) = Inr j"
    using bh(2) F(4) by (auto simp: j_def andThen_check)
  moreover have "unat j < unat ?n" "?L ! unat j \<le> p" using bh(2,3,5) by (simp_all add: j_def)
  moreover have above: "p < ?L ! i" if i: "unat j < i" "i < unat ?n" for i
  proof (cases "unat h < i")
    case False
    then have "b < h" "\<not> ?L ! unat h \<le> p" "i = unat h"
      using i bh(3,4) by (auto simp: j_def word_less_nat_alt split: if_splits)
    then show ?thesis by simp
  qed (use bh(6) i in blast)
  moreover have "\<forall>i. unat j < i \<and> i < unat ?n \<longrightarrow> p < ?L ! i" using above by blast
  ultimately show ?thesis using bh(1) unfolding f(1)
    by - (rule exI [of _ b], rule exI [of _ h], rule exI [of _ j], intro conjI, assumption+)
qed

text \<open>The three ways \<open>GetBlockBeginFastLocked\<close> goes: below the first header, behind the last block, or into
  the search.\<close>

lemma fast_lookup_below:
  assumes ok: "large_ok s" and n: "n_chunks s \<noteq> 0" and below: "p < sorted_list s ! 0"
  shows "map_sum id fst (LargeGetBlockBeginFastLocked G p s) = LargeGetBlockBegin p s"
proof -
  note F = sorted_list_facts [OF ok]
  have "\<forall>ch \<in> set (chunk_list s). p < ch"
  proof
    fix ch assume "ch \<in> set (chunk_list s)"
    then obtain i where "i < length (sorted_list s)" "sorted_list s ! i = ch" using F(2) by (metis in_set_conv_nth)
    then have "sorted_list s ! 0 \<le> ch" using sorted_nth_mono [OF F(1), of 0 i] by simp
    then show "p < ch" using below by simp
  qed
  moreover have "lm_chunks (EnsureSortedChunks s) 0 = sorted_list s ! 0" using F(4) [of 0] n by (simp add: unat_gt_0)
  ultimately show ?thesis using n below by (simp add: LargeGetBlockBegin_none LargeGetBlockBeginFastLocked_def Let_def)
qed

lemma fast_lookup_behind:
  assumes ok: "large_ok s" and n: "n_chunks s \<noteq> 0" and first: "sorted_list s ! 0 \<le> p"
    and hi: "hi = sorted_list s ! (unat (n_chunks s) - 1)" "hi + map_size (lm_headers s hi) \<le> p"
  shows "map_sum id fst (LargeGetBlockBeginFastLocked G p s) = LargeGetBlockBegin p s"
proof -
  note F = sorted_list_facts [OF ok]
  have n': "unat (n_chunks s) - 1 < unat (n_chunks s)" using n by (simp add: unat_gt_0)
  have un: "unat (n_chunks s - 1) = unat (n_chunks s) - 1" using n' by (simp add: unat_sub word_le_nat_alt)
  have c0: "lm_chunks (EnsureSortedChunks s) 0 = sorted_list s ! 0" using F(4) [of 0] n' by simp
  have cl: "lm_chunks (EnsureSortedChunks s) (n_chunks s - 1) = hi" using F(4) [of "n_chunks s - 1"] n' by (simp add: un hi(1))
  have h: "header_ok s hi" using nth_mem [of "unat (n_chunks s) - 1" "sorted_list s"] n' ok F(2,3) by (simp add: hi(1) large_ok_def)
  then have "hi \<le> hi + map_size (lm_headers s hi)"
    unfolding header_ok_def Let_def word_le_nat_alt by (subst unat_add_small) simp_all
  then have le: "sorted_list s ! (unat (n_chunks s) - 1) \<le> p" using hi by simp
  have "map_beg (lm_headers s hi) + map_size (lm_headers s hi) \<le> p" using order_trans [OF header_ok_end [OF h] hi(2)] .
  moreover have "\<forall>i. unat (n_chunks s) - 1 < i \<and> i < unat (n_chunks s) \<longrightarrow> p < sorted_list s ! i" using n' by auto
  ultimately have "LargeGetBlockBegin p s = Inr 0"
    using LargeGetBlockBegin_sorted(1) [OF ok n' le] by (simp add: Let_def hi(1))
  then show ?thesis
    using n first hi(2) by (simp add: LargeGetBlockBeginFastLocked_def Let_def c0 cl EnsureSortedChunks_fields)
qed

lemma fast_lookup_search:
  assumes ok: "large_ok s" and n: "n_chunks s \<noteq> 0" and first: "sorted_list s ! 0 \<le> p" and fuel: "33 \<le> loop_fuel G"
    and hi: "hi = sorted_list s ! (unat (n_chunks s) - 1)" "p < hi + map_size (lm_headers s hi)"
  shows "map_sum id fst (LargeGetBlockBeginFastLocked G p s) = LargeGetBlockBegin p s"
proof -
  note F = sorted_list_facts [OF ok]
  have n': "unat (n_chunks s) - 1 < unat (n_chunks s)" using n by (simp add: unat_gt_0)
  have un: "unat (n_chunks s - 1) = unat (n_chunks s) - 1" using n' by (simp add: unat_sub word_le_nat_alt)
  have c0: "lm_chunks (EnsureSortedChunks s) 0 = sorted_list s ! 0" using F(4) [of 0] n' by simp
  have cl: "lm_chunks (EnsureSortedChunks s) (n_chunks s - 1) = hi" using F(4) [of "n_chunks s - 1"] n' by (simp add: un hi(1))
  obtain b h j where bh: "narrow (loop_fuel G) p (lm_chunks (EnsureSortedChunks s)) 0 (n_chunks s - 1) = Inr (b, h)"
    and pick: "(if b < h then andThen (check (b + 1 = h)) (\<lambda>_. Inr (if lm_chunks (EnsureSortedChunks s) h \<le> p then h else b))
      else Inr b) = Inr j"
    and j: "unat j < unat (n_chunks s)" "sorted_list s ! unat j \<le> p"
      "\<forall>i. unat j < i \<and> i < unat (n_chunks s) \<longrightarrow> p < sorted_list s ! i"
    using narrow_picks [OF ok fuel n first] by blast
  note R = LargeGetBlockBegin_sorted [OF ok j]
  have "\<not> p < map_beg (lm_headers s (sorted_list s ! unat j))"
    using R(2) j(2) by (auto simp: header_ok_def Let_def dest: order_trans)
  moreover have "\<not> p < sorted_list s ! 0" "\<not> hi + map_size (lm_headers s hi) \<le> p"
    using first hi(2) by (simp_all add: not_less not_le)
  ultimately show ?thesis
    using n bh pick R(1)
    by (simp add: LargeGetBlockBeginFastLocked_def Let_def c0 cl EnsureSortedChunks_fields F(4) [OF j(1)]
        GetUser_sorted map_sum_tagged del: narrow.simps)
qed

text \<open>C15. Large block lookup: the binary search of \<open>GetBlockBeginFastLocked\<close>, which sorts the array of
  headers first, ends and gives the answer of the linear search of \<open>GetBlockBegin\<close> for every pointer.\<close>

theorem large_lookups_agree:
  assumes ok: "large_ok s" and fuel: "33 \<le> loop_fuel G"
  shows "map_sum id fst (LargeGetBlockBeginFastLocked G p s) = LargeGetBlockBegin p s"
proof (cases "n_chunks s = 0")
  case True
  then show ?thesis using LargeGetBlockBegin_none [of s p]
    by (simp add: LargeGetBlockBeginFastLocked_def chunk_list_def)
next
  case False
  then show ?thesis
    using fast_lookup_below [OF ok] fast_lookup_behind [OF ok _ _ refl] fast_lookup_search [OF ok _ _ fuel refl]
    by (meson not_le)
qed


section \<open>Entering and leaving the array\<close>

definition indexed :: "'a large_state_scheme \<Rightarrow> bool" where
  "indexed s \<longleftrightarrow> (\<forall>i < unat (n_chunks s). chunk_idx (lm_headers s (lm_chunks s (of_nat i))) = of_nat i)"

definition live_ok :: "'a large_state_scheme \<Rightarrow> bool" where
  "live_ok s \<longleftrightarrow> large_ok s \<and> indexed s"

lemma header_index: "n_chunks s < 2 ^ 32 \<Longrightarrow> i < unat (n_chunks s) \<Longrightarrow> unat (of_nat i :: uptr) = i"
  by (intro unat_of_nat_small) (simp add: word_less_nat_alt)

lemma chunk_list_snoc:
  assumes "n_chunks s < 2 ^ 32" and "n_chunks s' = n_chunks s + 1"
    and "lm_chunks s' = (lm_chunks s)(n_chunks s := h)"
  shows "chunk_list s' = chunk_list s @ [h]"
proof -
  have n: "unat (n_chunks s + 1) = unat (n_chunks s) + 1"
    using assms(1) by (subst unat_add_small) (simp_all add: word_less_nat_alt)
  have "lm_chunks s' (of_nat i) = lm_chunks s (of_nat i)" if "i < unat (n_chunks s)" for i
    using header_index [OF assms(1) that] that by (auto simp: assms(3))
  then show ?thesis by (simp add: chunk_list_def assms(2) n) (simp add: assms(3))
qed

lemma in_chunk_list:
  "h \<in> set (chunk_list s) \<longleftrightarrow> (\<exists>i < unat (n_chunks s). h = lm_chunks s (of_nat i))"
  by (auto simp: chunk_list_def)

lemma header_ok_cong:
  "map_beg (lm_headers s' ch) = map_beg (lm_headers s ch) \<Longrightarrow> map_size (lm_headers s' ch) = map_size (lm_headers s ch) \<Longrightarrow>
   header_ok s' ch = header_ok s ch"
  by (simp add: header_ok_def Let_def)

lemma leave_chunk_live:
  assumes ok: "live_ok s" and h: "h \<in> set (chunk_list s)"
  shows "\<exists>s'. leave_chunk h s = Inr s' \<and> live_ok s' \<and> mset (chunk_list s') = mset (chunk_list s) - {#h#} \<and>
    map_beg (lm_headers s' h) = map_beg (lm_headers s h) \<and> map_size (lm_headers s' h) = map_size (lm_headers s h)"
proof -
  obtain k where k: "k < unat (n_chunks s)" "h = lm_chunks s (of_nat k)" using h by (auto simp: in_chunk_list)
  have n32: "n_chunks s < 2 ^ 32" using ok by (simp add: live_ok_def large_ok_def)
  have ix: "chunk_idx (lm_headers s (lm_chunks s (of_nat i))) = of_nat i" if "i < unat (n_chunks s)" for i
    using ok that by (simp add: live_ok_def indexed_def)
  let ?idx = "of_nat k :: uptr" and ?n = "n_chunks s - 1" and ?moved = "lm_chunks s (n_chunks s - 1)"
  have uk: "unat ?idx = k" by (rule header_index [OF n32 k(1)])
  have un: "unat ?n = unat (n_chunks s) - 1" using k(1) by (simp add: unat_sub word_le_nat_alt)
  have idx_h: "chunk_idx (lm_headers s h) = ?idx" using ix [OF k(1)] k(2) by simp
  have lt: "?idx < n_chunks s" using k(1) uk by (simp add: word_less_nat_alt)
  define s' where "s' = (case leave_chunk h s of Inr t \<Rightarrow> t | Inl e \<Rightarrow> s)"
  have run: "leave_chunk h s = Inr s'"
    using lt by (simp add: s'_def leave_chunk_def Let_def idx_h k(2) [symmetric] andThen_check)
  have f: "n_chunks s' = ?n" "lm_chunks s' = (lm_chunks s)(?idx := ?moved)" "\<not> chunks_sorted s'"
      "chunk_idx (lm_headers s' x) = (if x = ?moved then ?idx else chunk_idx (lm_headers s x))"
      "map_beg (lm_headers s' x) = map_beg (lm_headers s x)" "map_size (lm_headers s' x) = map_size (lm_headers s x)" for x
    using run lt by (auto simp: leave_chunk_def Let_def idx_h k(2) [symmetric] andThen_check set_header_def note64_def)
  have nn: "of_nat (unat ?n) = ?n" by simp
  have list: "chunk_list s' = (butlast (chunk_list s)) [k := ?moved]"
  proof (rule nth_equalityI)
    fix i assume "i < length (chunk_list s')"
    then have i: "i < unat (n_chunks s) - 1" by (simp add: f un)
    then have "unat (of_nat i :: uptr) = i" by (intro header_index [OF n32]) simp
    then have "of_nat i = ?idx \<longleftrightarrow> i = k" using uk by (metis word_unat_eq_iff)
    then show "chunk_list s' ! i = (butlast (chunk_list s)) [k := ?moved] ! i"
      using i by (auto simp: chunk_list_def f un nth_butlast nth_list_update)
  qed (simp add: f un)
  have snoc: "chunk_list s = butlast (chunk_list s) @ [?moved]"
  proof -
    have "chunk_list s \<noteq> []" using h by auto
    moreover have "List.last (chunk_list s) = ?moved"
      using calculation k(1) un nn by (simp add: last_conv_nth chunk_list_def)
    ultimately show ?thesis by (metis append_butlast_last_id)
  qed
  have ms: "mset (chunk_list s) = mset (butlast (chunk_list s)) + {#?moved#}"
    using arg_cong [OF snoc, of mset] by simp
  have len: "length (butlast (chunk_list s)) = unat (n_chunks s) - 1" by simp
  have perm: "mset (chunk_list s') = mset (chunk_list s) - {#h#}"
  proof (cases "k = unat (n_chunks s) - 1")
    case True
    then have "h = ?moved" using k(2) un nn by metis
    then show ?thesis using True len by (simp add: ms list list_update_beyond)
  next
    case False
    then have kl: "k < length (butlast (chunk_list s))" using k(1) len by linarith
    have "butlast (chunk_list s) ! k = h" using kl k by (simp add: nth_butlast chunk_list_def)
    moreover have "h \<in># mset (butlast (chunk_list s))" using kl calculation by (metis nth_mem set_mset_mset)
    ultimately show ?thesis using kl by (simp add: ms list mset_update)
  qed
  have sub: "set (chunk_list s') \<subseteq> set (chunk_list s)"
    using perm by (metis in_diffD set_mset_mset subsetI)
  have n32': "n_chunks s' < 2 ^ 32" using n32 un k(1) by (simp add: f word_less_nat_alt)
  have "header_ok s' ch" if "ch \<in> set (chunk_list s')" for ch
    using ok sub that header_ok_cong [of s' ch s] f by (auto simp: live_ok_def large_ok_def)
  then have "large_ok s'" using n32' f(3) by (simp add: large_ok_def marked_sorted_def)
  moreover have "indexed s'"
    unfolding indexed_def
  proof (intro allI impI)
    fix i assume "i < unat (n_chunks s')"
    then have i: "i < unat (n_chunks s) - 1" by (simp add: f un)
    then have ui: "unat (of_nat i :: uptr) = i" by (intro header_index [OF n32]) simp
    show "chunk_idx (lm_headers s' (lm_chunks s' (of_nat i))) = of_nat i"
    proof (cases "i = k")
      case True
      then show ?thesis by (simp add: f)
    next
      case False
      then have ne: "of_nat i \<noteq> ?idx" using ui uk by metis
      have "lm_chunks s (of_nat i) \<noteq> ?moved"
      proof
        assume "lm_chunks s (of_nat i) = ?moved"
        moreover have "unat ?n < unat (n_chunks s)" "i < unat (n_chunks s)" using i un by simp_all
        ultimately have "(of_nat i :: uptr) = of_nat (unat ?n)" using ix [of i] ix [of "unat ?n"] nn by simp
        then show False using ui i un nn by simp
      qed
      then show ?thesis using ne ix [of i] i by (simp add: f)
    qed
  qed
  ultimately show ?thesis using run perm f by (auto simp: live_ok_def)
qed


lemma enter_chunk_result:
  "enter_chunk h m l s = Inr s' \<Longrightarrow> n_chunks s < 2 ^ 20 \<and> n_chunks s' = n_chunks s + 1 \<and>
     lm_chunks s' = (lm_chunks s)(n_chunks s := h) \<and> \<not> chunks_sorted s' \<and> lm_page_size s' = lm_page_size s \<and>
     lm_headers s' = (lm_headers s)(h := (lm_headers s h)\<lparr>chunk_idx := n_chunks s\<rparr>)"
  by (auto simp: enter_chunk_def EnsureSpace_def andThen_check set_header_def note64_def Let_def kMaxNumChunksDynamic_def
      word_less_nat_alt split: if_splits)

definition block_address :: "uptr \<Rightarrow> uptr \<Rightarrow> uptr" where
  "block_address a alignment = (if a AND (alignment - 1) \<noteq> 0 then a + (alignment - (a AND (alignment - 1))) else a)"

lemma place_block_result:
  assumes "place_block beg map_sz sz al s = Inr (res, s')"
  shows "res = block_address (beg + lm_page_size s) al" and "aligned res al" and "aligned res (lm_page_size s)"
    and "beg \<le> res + sz" and "res + sz \<le> beg + map_sz" and "IsPowerOfTwo (lm_page_size s)"
    and "n_chunks s < 2 ^ 20" and "n_chunks s' = n_chunks s + 1"
    and "lm_chunks s' = (lm_chunks s)(n_chunks s := res - lm_page_size s)"
    and "\<not> chunks_sorted s'" and "lm_page_size s' = lm_page_size s"
    and "lm_headers s' = (lm_headers s)(res - lm_page_size s :=
      (lm_headers s (res - lm_page_size s))\<lparr>block_size := sz, map_beg := beg, map_size := map_sz, chunk_idx := n_chunks s\<rparr>)"
proof -
  let ?h = "res - lm_page_size s"
  have e: "res = block_address (beg + lm_page_size s) al \<and> aligned res al \<and> aligned res (lm_page_size s) \<and>
      beg \<le> res + sz \<and> res + sz \<le> beg + map_sz \<and> IsPowerOfTwo (lm_page_size s) \<and>
      (\<exists>l. enter_chunk ?h map_sz l (set_header ?h (\<lambda>hd. hd\<lparr>block_size := sz, map_beg := beg, map_size := map_sz\<rparr>)
        (note64 (On_map beg map_sz) s)) = Inr s')"
    using assms unfolding place_block_def Let_def block_address_def [symmetric]
    by (auto simp: andThen_eq_Inr check_eq_Inr IsAligned_def GetHeader_def note64_def)
  then obtain l where l: "enter_chunk ?h map_sz l (set_header ?h (\<lambda>hd. hd\<lparr>block_size := sz, map_beg := beg, map_size := map_sz\<rparr>)
        (note64 (On_map beg map_sz) s)) = Inr s'" by blast
  note r = enter_chunk_result [OF l]
  show "res = block_address (beg + lm_page_size s) al" "aligned res al" "aligned res (lm_page_size s)"
    "beg \<le> res + sz" "res + sz \<le> beg + map_sz" "IsPowerOfTwo (lm_page_size s)"
    using e by blast+
  show "n_chunks s < 2 ^ 20" "n_chunks s' = n_chunks s + 1" "lm_chunks s' = (lm_chunks s)(n_chunks s := ?h)"
    "\<not> chunks_sorted s'" "lm_page_size s' = lm_page_size s"
    "lm_headers s' = (lm_headers s)(?h :=
      (lm_headers s ?h)\<lparr>block_size := sz, map_beg := beg, map_size := map_sz, chunk_idx := n_chunks s\<rparr>)"
    using r by (simp_all add: set_header_def note64_def)
qed

lemma block_address_ge:
  assumes "unat a + unat al < 2 ^ 64" and "al \<noteq> 0"
  shows "unat a \<le> unat (block_address a al)" and "unat (block_address a al) \<le> unat a + unat al"
proof -
  let ?x = "a AND (al - 1)"
  have "1 \<le> unat al" using assms(2) by (simp add: Suc_le_eq unat_gt_0)
  then have "unat (al - 1) = unat al - 1" by (simp add: unat_sub word_le_nat_alt)
  moreover have "unat ?x \<le> unat (al - 1)" using word_and_le1 [of a "al - 1"] by (simp add: word_le_nat_alt)
  ultimately have "unat ?x \<le> unat al" by linarith
  then have "unat (al - ?x) = unat al - unat ?x" by (simp add: unat_sub word_le_nat_alt)
  then have "unat (a + (al - ?x)) = unat a + (unat al - unat ?x)"
    using assms by (subst unat_add_small) simp_all
  then show "unat a \<le> unat (block_address a al)" and "unat (block_address a al) \<le> unat a + unat al"
    by (simp_all add: block_address_def)
qed

lemma LargeAllocate_result:
  assumes "LargeAllocate G sz al s = Inr (res, s')" and "res \<noteq> 0"
  shows "\<exists>beg map_sz s1. place_block beg map_sz sz al s1 = Inr (res, s') \<and> lm_page_size s1 = lm_page_size s \<and>
    lm_headers s1 = lm_headers s \<and> n_chunks s1 = n_chunks s \<and> lm_chunks s1 = lm_chunks s \<and> beg \<noteq> 0 \<and> sz \<le> map_sz"
proof -
  have keep: "MmapOrDieOnFatalError G m s = Inr (r, s1) \<Longrightarrow> lm_page_size s1 = lm_page_size s \<and>
    lm_headers s1 = lm_headers s \<and> n_chunks s1 = n_chunks s \<and> lm_chunks s1 = lm_chunks s" for m r s1
    by (auto simp: MmapOrDieOnFatalError_def internal_mmap_def syscall_def IncreaseTotalMmap_def zero_range_def Let_def
        andThen_eq_Inr split: if_splits)
  from assms obtain beg map_sz s1 where "MmapOrDieOnFatalError G map_sz s = Inr (beg, s1)" "beg \<noteq> 0"
      "place_block beg map_sz sz al s1 = Inr (res, s')" "sz \<le> map_sz"
    unfolding LargeAllocate_def Let_def by (auto simp: andThen_eq_Inr split: if_splits)
  then show ?thesis using keep by blast
qed

text \<open>What the system promises of a mapping: it does not wrap, with room to spare, and no live header lies in it.\<close>

definition fresh_mapping :: "uptr \<Rightarrow> 'a large_state_scheme \<Rightarrow> uptr \<Rightarrow> uptr \<Rightarrow> bool" where
  "fresh_mapping al s beg m \<longleftrightarrow>
     unat beg + 2 * (unat m + unat (lm_page_size s) + unat al) < 2 ^ 64 \<and>
     (\<forall>ch \<in> set (chunk_list s). ch < beg \<or> beg + m \<le> ch)"

text \<open>The arithmetic of a block placed in a mapping: header and block lie in it, in this order.\<close>

lemma placed_bounds:
  assumes pl: "place_block beg m sz al s = Inr (res, s')" and res: "res \<noteq> 0" and al: "al \<noteq> 0" and sz: "sz \<le> m"
    and fits: "unat beg + 2 * (unat m + unat (lm_page_size s) + unat al) < 2 ^ 64"
  shows "unat (res - lm_page_size s) = unat res - unat (lm_page_size s)" and "0 < unat (lm_page_size s)"
    and "unat beg + unat (lm_page_size s) \<le> unat res" and "unat (beg + m) = unat beg + unat m"
    and "unat res + unat sz \<le> unat beg + unat m" and "aligned (res - lm_page_size s) (lm_page_size s)"
proof -
  note r = place_block_result [OF pl]
  let ?page = "lm_page_size s"
  have "?page \<noteq> 0" using r(3) res by (auto simp: aligned_def)
  then obtain k where k: "k < 64" "?page = 2 ^ k" using r(6) by (auto simp: IsPowerOfTwo_cases)
  have bp: "unat (beg + ?page) = unat beg + unat ?page" using fits by (intro unat_add_small) simp
  have ub: "unat beg + unat ?page \<le> unat res" "unat res \<le> unat beg + unat ?page + unat al"
    using block_address_ge [OF _ al, of "beg + ?page"] fits by (simp_all add: r(1) [symmetric] bp)
  show uh: "unat (res - ?page) = unat res - unat ?page" using ub by (simp add: unat_sub word_le_nat_alt)
  show bm: "unat (beg + m) = unat beg + unat m" using fits by (intro unat_add_small) simp
  have "unat (res + sz) = unat res + unat sz"
    using ub fits sz by (intro unat_add_small) (simp add: word_le_nat_alt)
  then show "unat res + unat sz \<le> unat beg + unat m" using r(5) by (simp add: word_le_nat_alt bm)
  show "aligned (res - ?page) ?page" using r(3) ub(1) uh k by (simp add: aligned_iff_dvd unat_pow2)
  show "0 < unat ?page" using \<open>?page \<noteq> 0\<close> by (simp add: unat_gt_0)
  show "unat beg + unat ?page \<le> unat res" by (rule ub(1))
qed

text \<open>A header that is new in the array keeps the array consistent.\<close>

lemma live_ok_new_header:
  assumes ok: "live_ok s" and n: "n_chunks s < 2 ^ 20" "n_chunks s' = n_chunks s + 1"
    and arr: "lm_chunks s' = (lm_chunks s)(n_chunks s := h)" "\<not> chunks_sorted s'"
    and hd: "lm_headers s' = (lm_headers s)(h := x)" "chunk_idx x = n_chunks s"
    and h: "header_ok s' h" "h \<notin> set (chunk_list s)"
  shows "live_ok s'" and "chunk_list s' = chunk_list s @ [h]"
proof -
  have n32: "n_chunks s < 2 ^ 32" using n(1) by (simp add: word_less_nat_alt)
  show list: "chunk_list s' = chunk_list s @ [h]" by (rule chunk_list_snoc [OF n32 n(2) arr(1)])
  have n': "unat (n_chunks s') = unat (n_chunks s) + 1" using arg_cong [OF list, of length] by simp
  have oks: "header_ok s' ch" if "ch \<in> set (chunk_list s')" for ch
    using that ok h header_ok_cong [of s' ch s] by (cases "ch = h") (auto simp: list hd(1) live_ok_def large_ok_def)
  have "large_ok s'" using oks n(1) arr(2) n' by (simp add: large_ok_def marked_sorted_def word_less_nat_alt)
  moreover have "chunk_idx (lm_headers s' (lm_chunks s' (of_nat i))) = of_nat i" if i: "i < unat (n_chunks s')" for i
  proof (cases "i = unat (n_chunks s)")
    case True
    then show ?thesis by (simp add: arr(1) hd)
  next
    case False
    then have i': "i < unat (n_chunks s)" using i n' by linarith
    have "unat (of_nat i :: uptr) = i" by (rule header_index [OF n32 i'])
    then have ne: "of_nat i \<noteq> n_chunks s" using i' by auto
    have "lm_chunks s (of_nat i) \<noteq> h" using h(2) i' by (auto simp: in_chunk_list)
    then show ?thesis using ok i' ne by (simp add: arr(1) hd(1) live_ok_def indexed_def)
  qed
  ultimately show "live_ok s'" by (simp add: live_ok_def indexed_def)
qed

text \<open>C16. Large blocks: when an allocation succeeds, the block is aligned as requested, the array gains
  its header and stays consistent, and a lookup of any pointer into the block finds the block.\<close>

theorem large_block_found:
  assumes ok: "live_ok s" and run: "LargeAllocate G sz al s = Inr (res, s')" and res: "res \<noteq> 0" and al: "al \<noteq> 0"
    and fresh: "fresh_mapping al s (map_beg (lm_headers s' (res - lm_page_size s))) (map_size (lm_headers s' (res - lm_page_size s)))"
  shows "live_ok s' \<and> aligned res al \<and> chunk_list s' = chunk_list s @ [res - lm_page_size s] \<and>
    (\<forall>p. res \<le> p \<and> unat p < unat res + unat sz \<longrightarrow> LargeGetBlockBegin p s' = Inr res)"
proof -
  obtain beg m s1 where pl: "place_block beg m sz al s1 = Inr (res, s')" "lm_page_size s1 = lm_page_size s"
      "lm_headers s1 = lm_headers s" "n_chunks s1 = n_chunks s" "lm_chunks s1 = lm_chunks s" "beg \<noteq> 0" "sz \<le> m"
    using LargeAllocate_result [OF run res] by blast
  note r = place_block_result [OF pl(1), unfolded pl(2-5)]
  let ?h = "res - lm_page_size s"
  have hd: "map_beg (lm_headers s' ?h) = beg" "map_size (lm_headers s' ?h) = m" by (simp_all add: r(12))
  have fits: "unat beg + 2 * (unat m + unat (lm_page_size s) + unat al) < 2 ^ 64"
    and old: "ch \<in> set (chunk_list s) \<Longrightarrow> ch < beg \<or> beg + m \<le> ch" for ch
    using fresh unfolding hd fresh_mapping_def by blast+
  note B = placed_bounds [OF pl(1) res al pl(7), unfolded pl(2), OF fits]
  have h_ok: "header_ok s' ?h"
    using pl(6) B fits by (auto simp: header_ok_def Let_def hd word_le_nat_alt word_less_nat_alt unat_eq_0)
  have new: "?h \<notin> set (chunk_list s)"
    using old [of ?h] B by (auto simp: word_less_nat_alt word_le_nat_alt)
  note live = live_ok_new_header [OF ok r(7,8,9,10,12) _ h_ok new, simplified]
  have "LargeGetBlockBegin p s' = Inr res" if p: "res \<le> p" "unat p < unat res + unat sz" for p
  proof -
    have hp: "?h \<le> p" using p B(1) unfolding word_le_nat_alt by linarith
    have "\<forall>ch \<in> set (chunk_list s'). ch \<le> p \<longrightarrow> ch \<le> ?h"
    proof (intro ballI impI)
      fix ch assume "ch \<in> set (chunk_list s')" "ch \<le> p"
      then show "ch \<le> ?h"
        using p B old [of ch] by (cases "ch = ?h") (auto simp: live(2) word_less_nat_alt word_le_nat_alt)
    qed
    then have "LargeGetBlockBegin p s' = (if beg + m \<le> p then Inr 0 else GetUser ?h s')"
      using LargeGetBlockBegin_at [of s' ?h p] live hp hd by (simp add: live_ok_def)
    moreover have "\<not> beg + m \<le> p" using p B(4,5) by (simp add: word_le_nat_alt)
    ultimately show ?thesis using B(6) r(6) by (simp add: GetUser_def r(11) IsAligned_def check_def)
  qed
  then show ?thesis using r(2) live by blast
qed

text \<open>C17. Freeing a large block: the block of a live header can always be freed, no matter how often the
  array was reordered; exactly its header leaves the array, the rest stays consistent.\<close>

theorem large_block_freed:
  assumes ok: "live_ok s" and h: "h \<in> set (chunk_list s)" and page: "IsPowerOfTwo (lm_page_size s)"
    and al: "aligned (h + lm_page_size s) (lm_page_size s)" and sys: "\<not> os_iserror G (sys_ret s (sys_pos s))"
  shows "\<exists>s'. LargeDeallocate G (h + lm_page_size s) s = Inr s' \<and> live_ok s' \<and>
    mset (chunk_list s') = mset (chunk_list s) - {#h#}"
proof -
  obtain s1 where s1: "leave_chunk h s = Inr s1" "live_ok s1" "mset (chunk_list s1) = mset (chunk_list s) - {#h#}"
    using leave_chunk_live [OF ok h] by blast
  have same: "sys_ret s1 = sys_ret s" "sys_pos s1 = sys_pos s"
    using s1(1) by (auto simp: leave_chunk_def Let_def andThen_check set_header_def note64_def split: if_splits)
  have large: "live_ok t" "chunk_list t = chunk_list s1"
    if "lm_chunks t = lm_chunks s1" "lm_headers t = lm_headers s1" "n_chunks t = n_chunks s1" "chunks_sorted t = chunks_sorted s1"
    for t :: "'a large_state_scheme"
    using s1(2) that by (simp_all add: live_ok_def large_ok_def indexed_def marked_sorted_def chunk_list_def header_ok_def)
  have unmap: "\<exists>t. UnmapOrDie G b m (note64 e s1) = Inr t \<and> lm_chunks t = lm_chunks s1 \<and> lm_headers t = lm_headers s1 \<and>
      n_chunks t = n_chunks s1 \<and> chunks_sorted t = chunks_sorted s1" for b m e
    using sys by (auto simp: UnmapOrDie_def internal_munmap_def syscall_def DecreaseTotalMmap_def Let_def note64_def same)
  have "LargeDeallocate G (h + lm_page_size s) s = UnmapOrDie G (map_beg (lm_headers s1 h)) (map_size (lm_headers s1 h))
      (note64 (On_unmap (map_beg (lm_headers s1 h)) (map_size (lm_headers s1 h))) s1)"
    using al page by (simp add: LargeDeallocate_def GetHeader_def IsAligned_def s1(1) Let_def)
  then show ?thesis using unmap large s1(3) by metis
qed

section \<open>A concrete state\<close>

definition sample_header :: "uptr \<Rightarrow> large_header" where
  "sample_header h = \<lparr> map_beg = h, map_size = 0x3000, block_size = 8000,
     chunk_idx = (if h = 0x7f0000100000 then 1 else 0) \<rparr>"

definition sample_large :: large_state where
  "sample_large = p64_state.extend
     (sample_p64\<lparr>sys_ret := (\<lambda>_. 0x7f0000300000)\<rparr>)
     (large_state.fields 0x1000 (\<lambda>i. if i = 0 then 0x7f0000200000 else 0x7f0000100000) sample_header 2 False 0x600000000000 0x4000
        \<lparr> n_allocs = 2, n_frees = 0, currently_allocated = 0x6000, max_allocated = 0x6000, by_size_log = (\<lambda>_. 0) \<rparr>)"

lemmas sample_large_simps = sample_large_def p64_state.defs large_state.defs sample_p64_def cache_state.defs start_state_def

lemma sample_large_list: "chunk_list sample_large = [0x7f0000200000, 0x7f0000100000]"
proof -
  have "[0..<2] = [0, 1 :: nat]" by (simp add: upt_rec)
  then show ?thesis by (simp add: chunk_list_def sample_large_simps)
qed

lemma sample_large_live: "live_ok sample_large"
proof -
  have h: "header_ok sample_large 0x7f0000200000" "header_ok sample_large 0x7f0000100000"
    by (simp_all add: header_ok_def Let_def sample_large_simps sample_header_def)
  have "indexed sample_large"
    unfolding indexed_def
  proof (intro allI impI)
    fix i assume "i < unat (n_chunks sample_large)"
    then have "i = 0 \<or> i = 1" by (auto simp: sample_large_simps)
    then show "chunk_idx (lm_headers sample_large (lm_chunks sample_large (of_nat i))) = of_nat i"
      by (auto simp: sample_large_simps sample_header_def)
  qed
  then show ?thesis
    using h by (simp add: live_ok_def large_ok_def sample_large_list marked_sorted_def) (simp add: sample_large_simps)
qed

theorem large_lookups_agree_witness:
  "map_sum id fst (LargeGetBlockBeginFastLocked x86_globals 0x7f0000101234 sample_large) = Inr 0x7f0000101000"
proof -
  have "LargeGetBlockBegin 0x7f0000101234 sample_large = Inr 0x7f0000101000" by code_simp
  then show ?thesis
    using large_lookups_agree [of sample_large x86_globals "0x7f0000101234"] sample_large_live
    by (simp add: live_ok_def x86_globals_def)
qed

theorem large_block_found_witness:
  "\<exists>s'. LargeAllocate x86_globals 5000 0x1000 sample_large = Inr (0x7f0000301000, s') \<and>
     LargeGetBlockBegin 0x7f0000301800 s' = Inr 0x7f0000301000"
proof -
  have ru: "RoundUpTo 5000 0x1000 = Inr 0x2000" "RoundUpTo 0x3000 0x1000 = Inr 0x3000" by code_simp+
  have p: "IsPowerOfTwo 0x1000" "IsAligned 0x7f0000300000 0x1000 = Inr True" "IsAligned 0x7f0000301000 0x1000 = Inr True"
      "MostSignificantSetBitIndex 0x3000 = Inr 13" by code_simp+
  obtain s' where run: "LargeAllocate x86_globals 5000 0x1000 sample_large = Inr (0x7f0000301000, s')"
      and hd: "map_beg (lm_headers s' 0x7f0000300000) = 0x7f0000300000" "map_size (lm_headers s' 0x7f0000300000) = 0x3000"
    by (simp add: LargeAllocate_def RoundUpMapSize_def MmapOrDieOnFatalError_def internal_mmap_def syscall_def IncreaseTotalMmap_def
        place_block_def enter_chunk_def EnsureSpace_def GetHeader_def kMaxNumChunksDynamic_def set_header_def note64_def
        zero_range_def Let_def ru p sample_large_simps x86_globals_def)
  have f: "fresh_mapping 0x1000 sample_large (map_beg (lm_headers s' (0x7f0000301000 - lm_page_size sample_large)))
      (map_size (lm_headers s' (0x7f0000301000 - lm_page_size sample_large)))"
    using hd by (simp add: fresh_mapping_def sample_large_list) (simp add: sample_large_simps)
  from large_block_found [OF sample_large_live run _ _ f] have "LargeGetBlockBegin 0x7f0000301800 s' = Inr 0x7f0000301000"
    by simp
  then show ?thesis using run by blast
qed

theorem large_block_freed_witness:
  "\<exists>s'. LargeDeallocate x86_globals 0x7f0000101000 sample_large = Inr s' \<and> mset (chunk_list s') = {#0x7f0000200000#}"
proof -
  have pg: "lm_page_size sample_large = 0x1000" by (simp add: sample_large_simps)
  have h: "0x7f0000100000 \<in> set (chunk_list sample_large)" by (simp add: sample_large_list)
  have p: "IsPowerOfTwo 0x1000" "aligned 0x7f0000101000 0x1000" by code_simp+
  have s: "\<not> os_iserror x86_globals (sys_ret sample_large (sys_pos sample_large))"
    by (simp add: x86_globals_def sample_large_simps)
  obtain s' where "LargeDeallocate x86_globals (0x7f0000100000 + lm_page_size sample_large) sample_large = Inr s'"
      "mset (chunk_list s') = mset (chunk_list sample_large) - {#0x7f0000100000#}"
    using large_block_freed [OF sample_large_live h _ _ s] p by (auto simp: pg)
  then show ?thesis by (simp add: pg sample_large_list)
qed

end
