(* ===== verification/Upstream_Cache.thy ===== *)
theory Upstream_Cache
  imports Large_Mmap
begin

text \<open>
  The upstream allocator as a whole: the cache of one thread (\<open>SizeClassAllocator64LocalCache\<close> of
  \<open>sanitizer_allocator_local_cache.h\<close>), and \<open>CombinedAllocator\<close> of \<open>sanitizer_allocator_combined.h\<close>, which
  sends a request to the cache, to the large blocks, or, in a ClusterTag process, to the allocator
  of ClusterTag. All parts act on one state. The globals of ClusterTag \<open>G\<close> and its layout \<open>L\<close> are
  arguments; the registration of statistics has no effect on the model. \<open>is_clustertag\<close> is the flag of
  the size class allocator, \<open>combined_is_clustertag\<close> that of the combined one.
\<close>

section \<open>State\<close>

record per_class =
  lc_count :: u32
  lc_max_count :: u32
  lc_class_size :: uptr
  lc_chunks :: "nat \<Rightarrow> u32"

record upstream_state = large_state +
  local_classes :: "uptr \<Rightarrow> per_class"
  combined_is_clustertag :: bool

definition set_class :: "uptr \<Rightarrow> (per_class \<Rightarrow> per_class) \<Rightarrow> 'a upstream_state_scheme \<Rightarrow> 'a upstream_state_scheme" where
  "set_class c f s = s\<lparr>local_classes := (local_classes s)(c := f (local_classes s c))\<rparr>"

section \<open>The cache of a thread\<close>

definition InitCache :: "p64_params \<Rightarrow> uptr \<Rightarrow> 'a upstream_state_scheme \<Rightarrow> 'a upstream_state_scheme" where
  "InitCache P c s =
     (if lc_max_count (local_classes s c) \<noteq> 0 then s
      else s\<lparr>local_classes := (\<lambda>i. if 1 \<le> i \<and> i < NumClasses64 P
               then (local_classes s i)\<lparr>lc_max_count := ucast (2 * MaxCachedHint (SizeClassMapT P) (ClassIdToSize P i)),
                                     lc_class_size := ClassIdToSize P i\<rparr>
               else local_classes s i)\<rparr>)"

definition CacheRefill :: "p64_params \<Rightarrow> uptr \<Rightarrow> 'a upstream_state_scheme \<Rightarrow> (bool \<times> 'a upstream_state_scheme) res" where
  "CacheRefill P class_id s =
     (let s = InitCache P class_id s;
          num_requested_chunks = ucast (lc_max_count (local_classes s class_id) div 2) :: uptr
      in
      andThen (GetFromAllocator P class_id num_requested_chunks s) (\<lambda>(got, s).
      case got of
        None \<Rightarrow> Inr (False, s)
      | Some xs \<Rightarrow> Inr (True, set_class class_id (\<lambda>p. p
          \<lparr>lc_chunks := (\<lambda>i. if i < length xs then xs ! i else lc_chunks p i), lc_count := ucast num_requested_chunks\<rparr>) s)))"

definition CacheAllocate :: "p64_params \<Rightarrow> uptr \<Rightarrow> 'a upstream_state_scheme \<Rightarrow> (uptr \<times> 'a upstream_state_scheme) res" where
  "CacheAllocate P class_id s =
     andThen (check (class_id \<noteq> 0)) (\<lambda>_.
     andThen (check (class_id < NumClasses64 P)) (\<lambda>_.
     andThen (if lc_count (local_classes s class_id) = 0 then CacheRefill P class_id s else Inr (True, s)) (\<lambda>(ok, s).
     if \<not> ok then Inr (0, s)
     else
       let p = local_classes s class_id;
           n = lc_count p - 1;
           ch = lc_chunks p (unat n);
           s = set_class class_id (lc_count_update (\<lambda>_. n)) s;
           s = note64 (Stat_add AllocatorStatAllocated (lc_class_size p)) s
       in andThen (GetRegionBeginBySizeClass P class_id s) (\<lambda>rb. Inr (CompactPtrToPointer rb ch, s)))))"

definition CacheDrain ::
    "ct_globals \<Rightarrow> p64_params \<Rightarrow> uptr \<Rightarrow> uptr \<Rightarrow> memory_mapper \<times> 'a upstream_state_scheme \<Rightarrow>
     (memory_mapper \<times> 'a upstream_state_scheme) res" where
  "CacheDrain G P class_id n = (\<lambda>(mm, s).
     let p = local_classes s class_id in
     andThen (check (n \<le> ucast (lc_count p))) (\<lambda>_.
     let first_idx_to_drain = ucast (lc_count p) - n;
         s = set_class class_id (lc_count_update (\<lambda>_. lc_count p - ucast n)) s
     in ReturnToAllocator G P class_id
          (map (lc_chunks p) [unat first_idx_to_drain..<unat first_idx_to_drain + unat n]) (mm, s)))"

definition DrainHalfMax :: "ct_globals \<Rightarrow> p64_params \<Rightarrow> uptr \<Rightarrow> 'a upstream_state_scheme \<Rightarrow> 'a upstream_state_scheme res" where
  "DrainHalfMax G P class_id s =
     andThen (CacheDrain G P class_id (ucast (lc_max_count (local_classes s class_id) div 2)) (new_mapper, s)) (\<lambda>(mm, s). Inr s)"

definition CacheDeallocate ::
    "ct_globals \<Rightarrow> p64_params \<Rightarrow> uptr \<Rightarrow> uptr \<Rightarrow> 'a upstream_state_scheme \<Rightarrow> 'a upstream_state_scheme res" where
  "CacheDeallocate G P class_id ptr s =
     andThen (check (class_id \<noteq> 0)) (\<lambda>_.
     andThen (check (class_id < NumClasses64 P)) (\<lambda>_.
     let s = InitCache P class_id s in
     andThen (if lc_count (local_classes s class_id) = lc_max_count (local_classes s class_id)
              then DrainHalfMax G P class_id s else Inr s) (\<lambda>s.
     andThen (GetRegionBeginBySizeClass P class_id s) (\<lambda>rb.
     let p = local_classes s class_id; n = lc_count p;
         s = set_class class_id (\<lambda>p. p\<lparr>lc_chunks := (lc_chunks p)(unat n := PointerToCompactPtr rb ptr),
               lc_count := n + 1\<rparr>) s
     in Inr (note64 (Stat_sub AllocatorStatAllocated (lc_class_size p)) s)))))"

text \<open>\<open>Drain\<close> of all classes: the loop of a class runs once, since it gives back all of its chunks. The
  classes from \<open>class_id\<close> on; \<open>n\<close> of them are left.\<close>

fun drain_classes ::
    "ct_globals \<Rightarrow> p64_params \<Rightarrow> nat \<Rightarrow> uptr \<Rightarrow> memory_mapper \<times> 'a upstream_state_scheme \<Rightarrow>
     (memory_mapper \<times> 'a upstream_state_scheme) res" where
  "drain_classes G P 0 class_id st = Inr st"
| "drain_classes G P (Suc n) class_id st =
     andThen (let m = lc_count (local_classes (snd st) class_id) in
              if 0 < m then CacheDrain G P class_id (ucast m) st else Inr st) (drain_classes G P n (class_id + 1))"

definition CacheDrainAll :: "ct_globals \<Rightarrow> p64_params \<Rightarrow> 'a upstream_state_scheme \<Rightarrow> 'a upstream_state_scheme res" where
  "CacheDrainAll G P s =
     andThen (drain_classes G P (unat (NumClasses64 P) - 1) 1 (new_mapper, s)) (\<lambda>(mm, s). Inr s)"

definition CacheDestroy :: "ct_globals \<Rightarrow> p64_params \<Rightarrow> 'a upstream_state_scheme \<Rightarrow> 'a upstream_state_scheme res" where
  "CacheDestroy G P s = (if is_clustertag s then Inr s else CacheDrainAll G P s)"

section \<open>The combined allocator\<close>

definition CombinedInit ::
    "ct_globals \<Rightarrow> p64_params \<Rightarrow> uptr \<Rightarrow> 32 word \<Rightarrow> uptr \<Rightarrow> bool \<Rightarrow> 'a upstream_state_scheme \<Rightarrow>
     (ct_globals \<times> layout option \<times> 'a upstream_state_scheme) res" where
  "CombinedInit G P region_info_size release_ms heap_start ct s =
     andThen (Init64 G P region_info_size release_ms heap_start s) (\<lambda>s.
     andThen (LargeInit G s) (\<lambda>s.
     let s = s\<lparr>combined_is_clustertag := ct\<rparr> in
     if ct then andThen (init_for_clustertag G (s\<lparr>is_clustertag := True\<rparr>)) (\<lambda>(G, L, s). Inr (G, Some L, s))
     else Inr (G, None, s)))"

definition CanAllocate64 :: "p64_params \<Rightarrow> uptr \<Rightarrow> uptr \<Rightarrow> bool" where
  "CanAllocate64 P sz alignment \<longleftrightarrow> sz \<le> kMaxSize (SizeClassMapT P) \<and> alignment \<le> kMaxSize (SizeClassMapT P)"

definition CombinedAllocate ::
    "ct_globals \<Rightarrow> layout \<Rightarrow> p64_params \<Rightarrow> uptr \<Rightarrow> uptr \<Rightarrow> 'a upstream_state_scheme \<Rightarrow> (uptr \<times> 'a upstream_state_scheme) res" where
  "CombinedAllocate G L P sz alignment s =
     (if combined_is_clustertag s then CTAllocateCombined G L sz alignment s
      else
        let original_size = (if sz = 0 then 1 else sz) in
        if original_size + alignment < original_size then Inr (0, s)
        else
          andThen (if 8 < alignment then RoundUpTo original_size alignment else Inr original_size) (\<lambda>sz.
          andThen (if CanAllocate64 P sz alignment
                   then CacheAllocate P (ClassID (SizeClassMapT P) sz) s
                   else LargeAllocate G original_size alignment s) (\<lambda>(r, s).
          andThen (if 8 < alignment then check (r AND (alignment - 1) = 0) else Inr ()) (\<lambda>_. Inr (r, s)))))"

definition CombinedDeallocate ::
    "ct_globals \<Rightarrow> layout \<Rightarrow> p64_params \<Rightarrow> uptr \<Rightarrow> 'a upstream_state_scheme \<Rightarrow> 'a upstream_state_scheme res" where
  "CombinedDeallocate G L P p s =
     (if combined_is_clustertag s then CTDeallocateCombined G L p s
      else if p = 0 then Inr s
      else
        andThen (PointerIsMine64 P p s) (\<lambda>mine.
        if mine then andThen (GetSizeClass P p s) (\<lambda>c. CacheDeallocate G P c p s)
        else LargeDeallocate G p s))"

definition PointerNotShadowMemory :: "ct_globals \<Rightarrow> uptr \<Rightarrow> bool" where
  "PointerNotShadowMemory G p \<longleftrightarrow> p < ct_shadow_memory_dynamic_address G \<or> ct_shadow_memory_dynamic_end G \<le> p"

definition CombinedPointerIsMine :: "ct_globals \<Rightarrow> p64_params \<Rightarrow> uptr \<Rightarrow> 'a upstream_state_scheme \<Rightarrow> bool res" where
  "CombinedPointerIsMine G P p s =
     (if combined_is_clustertag s then if PointerNotShadowMemory G p then Inr True else Inl (Exit 1)
      else andThen (PointerIsMine64 P p s) (\<lambda>mine. if mine then Inr True else LargePointerIsMine p s))"

definition CombinedGetMetaData :: "p64_params \<Rightarrow> uptr \<Rightarrow> 'a upstream_state_scheme \<Rightarrow> uptr res" where
  "CombinedGetMetaData P p s =
     andThen (PointerIsMine64 P p s) (\<lambda>mine. if mine then GetMetaData64 P p s else LargeGetMetaData p s)"

definition CombinedGetBlockBegin :: "p64_params \<Rightarrow> uptr \<Rightarrow> 'a upstream_state_scheme \<Rightarrow> uptr res" where
  "CombinedGetBlockBegin P p s =
     andThen (PointerIsMine64 P p s) (\<lambda>mine. if mine then GetBlockBegin64 P p s else LargeGetBlockBegin p s)"

definition CombinedGetBlockBeginFastLocked ::
    "ct_globals \<Rightarrow> p64_params \<Rightarrow> uptr \<Rightarrow> 'a upstream_state_scheme \<Rightarrow> (uptr \<times> 'a upstream_state_scheme) res" where
  "CombinedGetBlockBeginFastLocked G P p s =
     andThen (PointerIsMine64 P p s) (\<lambda>mine.
     if mine then andThen (GetBlockBegin64 P p s) (\<lambda>b. Inr (b, s)) else LargeGetBlockBeginFastLocked G p s)"

definition CombinedGetActuallyAllocatedSize :: "p64_params \<Rightarrow> uptr \<Rightarrow> 'a upstream_state_scheme \<Rightarrow> uptr res" where
  "CombinedGetActuallyAllocatedSize P p s =
     andThen (PointerIsMine64 P p s) (\<lambda>mine.
     if mine then GetActuallyAllocatedSize64 P p s else LargeGetActuallyAllocatedSize p s)"

definition CombinedTotalMemoryUsed :: "p64_params \<Rightarrow> 'a upstream_state_scheme \<Rightarrow> uptr res" where
  "CombinedTotalMemoryUsed P s = andThen (LargeTotalMemoryUsed s) (\<lambda>n. Inr (TotalMemoryUsed64 P s + n))"

definition CombinedReallocate ::
    "ct_globals \<Rightarrow> layout \<Rightarrow> p64_params \<Rightarrow> uptr \<Rightarrow> uptr \<Rightarrow> uptr \<Rightarrow> 'a upstream_state_scheme \<Rightarrow>
     (uptr \<times> 'a upstream_state_scheme) res" where
  "CombinedReallocate G L P p new_size alignment s =
     (if p = 0 then CombinedAllocate G L P new_size alignment s
      else if new_size = 0 then andThen (CombinedDeallocate G L P p s) (\<lambda>s. Inr (0, s))
      else
        andThen (CombinedPointerIsMine G P p s) (\<lambda>mine. andThen (check mine) (\<lambda>_.
        andThen (CombinedGetActuallyAllocatedSize P p s) (\<lambda>old_size.
        let memcpy_size = San_Min new_size old_size in
        andThen (CombinedAllocate G L P new_size alignment s) (\<lambda>(new_p, s).
        let s = (if new_p \<noteq> 0 then s\<lparr>mem := internal_memcpy new_p p memcpy_size (mem s)\<rparr> else s) in
        andThen (CombinedDeallocate G L P p s) (\<lambda>s. Inr (new_p, s)))))))"

definition SwallowCache :: "ct_globals \<Rightarrow> p64_params \<Rightarrow> 'a upstream_state_scheme \<Rightarrow> 'a upstream_state_scheme res" where
  "SwallowCache G P s = CacheDrainAll G P s"

definition CombinedForEachChunk ::
    "ct_globals \<Rightarrow> p64_params \<Rightarrow> 'a upstream_state_scheme \<Rightarrow> (uptr list \<times> 'a upstream_state_scheme) res" where
  "CombinedForEachChunk G P s =
     andThen (ForEachChunk64 G P s) (\<lambda>small.
     andThen (LargeForEachChunk s) (\<lambda>(large, s). Inr (small @ large, s)))"


section \<open>The cache keeps track of every chunk\<close>

definition cached :: "uptr \<Rightarrow> 'a upstream_state_scheme \<Rightarrow> u32 list" where
  "cached c s = map (lc_chunks (local_classes s c)) [0..<unat (lc_count (local_classes s c))]"

definition cache_parameters_ok :: "p64_params \<Rightarrow> uptr \<Rightarrow> bool" where
  "cache_parameters_ok P c \<longleftrightarrow> class_parameters_ok P c \<and> 1 \<le> c \<and> c < NumClasses64 P \<and>
     1 \<le> kMaxNumCachedHint (SizeClassMapT P) \<and> kMaxNumCachedHint (SizeClassMapT P) < 2 ^ 30"

text \<open>The array of a class has \<open>2 * kMaxNumCachedHint\<close> slots.\<close>

definition cache_inv :: "p64_params \<Rightarrow> uptr \<Rightarrow> u32 list \<Rightarrow> 'a upstream_state_scheme \<Rightarrow> bool" where
  "cache_inv P c prog s \<longleftrightarrow> class_inv P c (cached c s @ prog) s \<and>
     (let p = local_classes s c in
      lc_count p \<le> lc_max_count p \<and> lc_max_count p \<noteq> 1 \<and>
      unat (lc_max_count p) \<le> 2 * unat (kMaxNumCachedHint (SizeClassMapT P)))"

lemma local_frame:
  "p64_state.more s' = p64_state.more s \<Longrightarrow> local_classes s' = local_classes (s :: 'a upstream_state_scheme)"
proof -
  have l: "local_classes t = local_classes (p64_state.extend (undefined :: p64_state) (p64_state.more t))" for t :: "'a upstream_state_scheme"
    by (cases t) (simp add: p64_state.defs)
  assume "p64_state.more s' = p64_state.more s"
  then show ?thesis using l [of s] l [of s'] by simp
qed

lemma compact_roundtrip: "PointerToCompactPtr rb (CompactPtrToPointer rb ch) = ch"
proof -
  have "unat ch * 16 < 18446744073709551616" using unat_less_32 [of ch] by linarith
  then have "unat (push_bit 4 (ucast ch :: uptr)) = 16 * unat ch"
    by (simp add: push_bit_eq_mult unat_word_ariths)
  then have "unat (PointerToCompactPtr rb (CompactPtrToPointer rb ch)) = unat ch"
    using unat_less_32 [of ch]
    by (simp add: PointerToCompactPtr_def CompactPtrToPointer_def kCompactPtrScale_def unsigned_ucast_eq unat_drop_bit
        take_bit_nat_eq_self del: drop_bit_push_bit)
  then show ?thesis by (simp only: word_unat_eq_iff)
qed

lemma class_inv_local [simp]:
  "class_inv P c xs (s\<lparr>local_classes := f\<rparr>) = class_inv P c xs s" "region_of P c (s\<lparr>local_classes := f\<rparr>) = region_of P c s"
  by (simp_all add: class_inv_def free_list64_def region_of_def SpaceBeg_def)

lemma class_inv_note [simp]:
  "class_inv P c xs (note64 e s) = class_inv P c xs s" "region_of P c (note64 e s) = region_of P c s"
  "local_classes (note64 e t) = local_classes t"
  by (simp_all add: class_inv_def free_list64_def region_of_def SpaceBeg_def note64_def)

lemma class_inv_set_class [simp]:
  "class_inv P c xs (set_class d f s) = class_inv P c xs s" "region_of P c (set_class d f s) = region_of P c s"
  "local_classes (set_class d f s) = (local_classes s)(d := f (local_classes s d))"
  by (simp_all add: set_class_def)

lemma cached_note: "cached c (note64 e s) = cached c s"
  by (simp add: cached_def)

lemma class_inv_mset: "mset xs = mset ys \<Longrightarrow> class_inv P c xs s = class_inv P c ys s"
  by (simp add: class_inv_def)

lemma max_cached:
  assumes "cache_parameters_ok P c"
  shows "lc_max_count (local_classes (InitCache P c s) c) \<noteq> 0"
    and "cache_inv P c prog s \<Longrightarrow> cache_inv P c prog (InitCache P c s)"
    and "local_classes (InitCache P c s) c = (local_classes s c)\<lparr>lc_max_count := lc_max_count (local_classes (InitCache P c s) c),
      lc_class_size := lc_class_size (local_classes (InitCache P c s) c)\<rparr>"
    and "region_of P c (InitCache P c s) = region_of P c s"
proof -
  let ?h = "MaxCachedHint (SizeClassMapT P) (ClassIdToSize P c)" and ?k = "kMaxNumCachedHint (SizeClassMapT P)"
  have k: "1 \<le> unat ?k" "unat ?k < 2 ^ 30" using assms by (simp_all add: cache_parameters_ok_def word_le_nat_alt word_less_nat_alt)
  have "ClassIdToSize P c \<noteq> 0" using assms by (auto simp: cache_parameters_ok_def class_parameters_ok_def)
  then have "1 \<le> ?h \<and> ?h \<le> ?k"
    using k by (auto simp: MaxCachedHint_def San_Max_def San_Min_def word_le_nat_alt word_less_nat_alt)
  then have h: "1 \<le> unat ?h" "unat ?h \<le> unat ?k" by (simp_all add: word_le_nat_alt)
  have m: "unat (ucast (2 * ?h) :: u32) = 2 * unat ?h"
    using h k by (simp add: unsigned_ucast_eq take_bit_nat_eq_self unat_word_ariths)
  have ne: "(ucast (2 * ?h) :: u32) \<noteq> 0" "(ucast (2 * ?h) :: u32) \<noteq> 1"
    using m h by (auto simp flip: unsigned_eq_0_iff)
  have c: "1 \<le> c" "c < NumClasses64 P" using assms by (simp_all add: cache_parameters_ok_def)
  show "lc_max_count (local_classes (InitCache P c s) c) \<noteq> 0" using c ne by (simp add: InitCache_def)
  show "local_classes (InitCache P c s) c = (local_classes s c)\<lparr>lc_max_count := lc_max_count (local_classes (InitCache P c s) c),
      lc_class_size := lc_class_size (local_classes (InitCache P c s) c)\<rparr>"
    using c by (simp add: InitCache_def)
  show "region_of P c (InitCache P c s) = region_of P c s" by (simp add: InitCache_def)
  show "cache_inv P c prog (InitCache P c s)" if i: "cache_inv P c prog s"
  proof (cases "lc_max_count (local_classes s c) = 0")
    case True
    then have "lc_count (local_classes s c) = 0" using i by (simp add: cache_inv_def Let_def)
    then show ?thesis using i c True ne m h by (simp add: InitCache_def cache_inv_def Let_def cached_def)
  qed (use i in \<open>simp add: InitCache_def\<close>)
qed


lemma ucast_wide: "(ucast (ucast (x :: u32) :: uptr) :: u32) = x"
  by (rule bit_word_eqI) (auto simp: bit_simps)

lemma CacheRefill_inv:
  assumes P: "cache_parameters_ok P c" and inv: "cache_inv P c prog s" and empty: "lc_count (local_classes s c) = 0"
  shows "yields (CacheRefill P c s) (\<lambda>(ok, s'). cache_inv P c prog s' \<and> region_of P c s' = region_of P c s \<and> (ok \<longrightarrow> lc_count (local_classes s' c) \<noteq> 0))"
proof -
  let ?s = "InitCache P c s"
  let ?max = "lc_max_count (local_classes ?s c)"
  let ?n = "ucast (?max div 2) :: uptr"
  have Pc: "class_parameters_ok P c" using P by (simp add: cache_parameters_ok_def)
  have i: "cache_inv P c prog ?s" by (rule max_cached(2) [OF P inv])
  have "lc_count (local_classes ?s c) = 0" by (subst max_cached(3) [OF P]) (simp add: empty)
  then have cinv: "class_inv P c prog ?s" using i by (simp add: cache_inv_def cached_def)
  have m: "unat ?max \<noteq> 0" "unat ?max \<noteq> 1" "unat ?max \<le> 2 * unat (kMaxNumCachedHint (SizeClassMapT P))"
  proof -
    have "?max \<noteq> 1" using i by (simp add: cache_inv_def Let_def)
    then show "unat ?max \<noteq> 1" by (metis unsigned_1 word_unat_eq_iff)
    show "unat ?max \<noteq> 0" using max_cached(1) [OF P, of s] by (simp add: unsigned_eq_0_iff)
    show "unat ?max \<le> 2 * unat (kMaxNumCachedHint (SizeClassMapT P))" using i by (simp add: cache_inv_def Let_def)
  qed
  have half: "unat (?max div 2) = unat ?max div 2" by (simp add: unat_div)
  then have n: "unat ?n = unat ?max div 2" by simp
  have "unat ?n \<le> 1099511627776" unfolding n using unat_less_32 [of ?max] by linarith
  then have n40: "unat ?n \<le> 2 ^ 40" by simp
  have narrowed: "(ucast ?n :: u32) = ?max div 2"
    by (rule ucast_wide)
  have fill: "yields (case got of None \<Rightarrow> Inr (False, s1)
      | Some xs \<Rightarrow> Inr (True, set_class c (\<lambda>p. p
          \<lparr>lc_chunks := (\<lambda>i. if i < length xs then xs ! i else lc_chunks p i), lc_count := ucast ?n\<rparr>) s1))
      (\<lambda>(ok, s'). cache_inv P c prog s' \<and> region_of P c s' = region_of P c s \<and> (ok \<longrightarrow> lc_count (local_classes s' c) \<noteq> 0))"
    if more: "p64_state.more s1 = p64_state.more ?s" and reg: "region_of P c s1 = region_of P c ?s"
      and got: "case got of None \<Rightarrow> class_inv P c prog s1 | Some xs \<Rightarrow> length xs = unat ?n \<and> class_inv P c (xs @ prog) s1"
    for got and s1 :: "'a upstream_state_scheme"
  proof (cases got)
    case None
    then show ?thesis
      using got i reg max_cached(4) [OF P, of s] \<open>lc_count (local_classes ?s c) = 0\<close> by (simp add: cache_inv_def Let_def local_frame [OF more] cached_def)
  next
    case (Some xs)
    then have xs: "length xs = unat ?max div 2" "class_inv P c (xs @ prog) s1" using got n by simp_all
    let ?s2 = "set_class c (\<lambda>p. p\<lparr>lc_chunks := (\<lambda>i. if i < length xs then xs ! i else lc_chunks p i), lc_count := ucast ?n\<rparr>) s1"
    have "cached c ?s2 = xs"
      by (rule nth_equalityI) (simp_all add: cached_def narrowed half xs(1))
    moreover have "?max div 2 \<le> ?max" by (simp add: word_le_nat_alt half)
    moreover have "?max div 2 \<noteq> 0"
    proof
      assume "?max div 2 = 0"
      then have "unat ?max div 2 = 0" using half by (metis unsigned_0)
      then show False using m(1,2) by simp
    qed
    ultimately show ?thesis
      using Some xs(2) i reg max_cached(4) [OF P, of s] by (simp add: cache_inv_def Let_def local_frame [OF more] narrowed)
  qed
  show ?thesis
    unfolding CacheRefill_def Let_def
    by (rule yields_andThen [OF GetFromAllocator_inv [OF Pc cinv n40]], clarify, rule fill, assumption+)
qed

lemma GetRegionBegin_region:
  "GetRegionBeginBySizeClass P c s = (if is_clustertag s then Inl (Exit 1) else Inr (region_of P c s))"
  by (simp add: GetRegionBeginBySizeClass_def not_in_clustertag_def region_of_def)

lemma CacheAllocate_inv:
  assumes P: "cache_parameters_ok P c" and inv: "cache_inv P c prog s"
  shows "yields (CacheAllocate P c s) (\<lambda>(p, s'). region_of P c s' = region_of P c s \<and> ((p = 0 \<and> cache_inv P c prog s') \<or>
    (\<exists>ch. p = CompactPtrToPointer (region_of P c s') ch \<and> cache_inv P c (ch # prog) s')))"
proof -
  have in_range: "c \<noteq> 0" "c < NumClasses64 P" using P by (auto simp: cache_parameters_ok_def)
  have refill: "yields (if lc_count (local_classes s c) = 0 then CacheRefill P c s else Inr (True, s))
      (\<lambda>(ok, s'). cache_inv P c prog s' \<and> region_of P c s' = region_of P c s \<and> (ok \<longrightarrow> lc_count (local_classes s' c) \<noteq> 0))"
    using CacheRefill_inv [OF P inv] inv by simp
  have take: "yields (if \<not> ok then Inr (0, s1)
     else let p = local_classes s1 c; n = lc_count p - 1; ch = lc_chunks p (unat n);
              s = set_class c (lc_count_update (\<lambda>_. n)) s1;
              s = note64 (Stat_add AllocatorStatAllocated (lc_class_size p)) s
          in andThen (GetRegionBeginBySizeClass P c s) (\<lambda>rb. Inr (CompactPtrToPointer rb ch, s)))
      (\<lambda>(p, s'). region_of P c s' = region_of P c s \<and> ((p = 0 \<and> cache_inv P c prog s') \<or>
        (\<exists>ch. p = CompactPtrToPointer (region_of P c s') ch \<and> cache_inv P c (ch # prog) s')))"
    if i: "cache_inv P c prog s1" and reg: "region_of P c s1 = region_of P c s" and ok: "ok \<longrightarrow> lc_count (local_classes s1 c) \<noteq> 0" for ok and s1 :: "'a upstream_state_scheme"
  proof (cases ok)
    case True
    let ?p = "local_classes s1 c"
    let ?n = "lc_count ?p - 1"
    let ?s2 = "note64 (Stat_add AllocatorStatAllocated (lc_class_size ?p)) (set_class c (lc_count_update (\<lambda>_. ?n)) s1)"
    have "1 \<le> unat (lc_count ?p)" using ok True by (simp add: Suc_le_eq unat_gt_0)
    then have un: "unat (lc_count ?p) = Suc (unat ?n)" by (simp add: unat_sub word_le_nat_alt)
    have c2: "cached c s1 = cached c ?s2 @ [lc_chunks ?p (unat ?n)]"
      unfolding cached_def un by (simp add: note64_def set_class_def)
    have "class_inv P c (cached c ?s2 @ lc_chunks ?p (unat ?n) # prog) s1"
      using i class_inv_mset [of "cached c s1 @ prog" "cached c ?s2 @ lc_chunks ?p (unat ?n) # prog" P c s1]
      by (simp add: cache_inv_def c2)
    moreover have "?n \<le> lc_count ?p" using un by (simp add: word_le_nat_alt)
    ultimately have "cache_inv P c (lc_chunks ?p (unat ?n) # prog) ?s2"
      using i by (auto simp: cache_inv_def Let_def intro: order_trans)
    then show ?thesis
      using True reg by (auto simp: Let_def GetRegionBegin_region)
  qed (use i reg in simp)
  show ?thesis
    unfolding CacheAllocate_def andThen_check if_P [OF in_range(1)] if_P [OF in_range(2)]
    by (rule yields_andThen [OF refill], clarify, rule take, assumption+)
qed


lemma CacheDrain_inv:
  assumes P: "cache_parameters_ok P c" and inv: "cache_inv P c prog s" and n: "n \<le> ucast (lc_count (local_classes s c))"
  shows "yields (CacheDrain G P c n (mm, s)) (\<lambda>(mm', s'). cache_inv P c prog s' \<and> region_of P c s' = region_of P c s \<and>
    local_classes s' c = (local_classes s c)\<lparr>lc_count := lc_count (local_classes s c) - ucast n\<rparr>)"
proof -
  let ?p = "local_classes s c"
  let ?first = "ucast (lc_count ?p) - n"
  let ?s2 = "set_class c (lc_count_update (\<lambda>_. lc_count ?p - ucast n)) s"
  let ?taken = "map (lc_chunks ?p) [unat ?first..<unat ?first + unat n]"
  have Pc: "class_parameters_ok P c" using P by (simp add: cache_parameters_ok_def)
  have le: "unat n \<le> unat (lc_count ?p)" using n by (simp add: word_le_nat_alt)
  have first: "unat ?first = unat (lc_count ?p) - unat n" using n by (simp add: unat_sub)
  have "unat n < 2 ^ 32" using le_less_trans [OF le unat_less_32] by simp
  then have un: "unat (ucast n :: u32) = unat n" by (simp add: unsigned_ucast_eq take_bit_nat_eq_self)
  then have rest: "unat (lc_count ?p - ucast n) = unat ?first" using le by (simp add: first unat_sub word_le_nat_alt)
  have total: "unat (lc_count ?p) = unat ?first + unat n" using le first by simp
  have parts: "cached c s = cached c ?s2 @ ?taken"
    unfolding cached_def total upt_add_eq_append [of 0 "unat ?first" "unat n", OF le0] map_append by (simp add: rest)
  have cinv: "class_inv P c (cached c s @ prog) ?s2" using inv by (simp add: cache_inv_def)
  have split: "mset ?taken + mset (cached c ?s2 @ prog) = mset (cached c s @ prog)" by (simp add: parts)
  have done_inv: "cache_inv P c prog s' \<and> region_of P c s' = region_of P c s \<and>
      local_classes s' c = ?p\<lparr>lc_count := lc_count ?p - ucast n\<rparr>"
    if "class_inv P c (cached c ?s2 @ prog) s'" "p64_state.more s' = p64_state.more ?s2" "region_of P c s' = region_of P c ?s2" for s'
  proof -
    have l: "local_classes s' = local_classes ?s2" by (rule local_frame [OF that(2)])
    have "cached c s' = cached c ?s2" by (simp add: cached_def l)
    moreover have "lc_count ?p - ucast n \<le> lc_max_count ?p"
    proof -
      have "unat (lc_count ?p - ucast n) \<le> unat (lc_count ?p)" unfolding rest first by simp
      also have "\<dots> \<le> unat (lc_max_count ?p)" using inv by (simp add: cache_inv_def Let_def word_le_nat_alt)
      finally show ?thesis by (simp add: word_le_nat_alt)
    qed
    ultimately show ?thesis using that inv by (simp add: cache_inv_def Let_def l)
  qed
  show ?thesis
    unfolding CacheDrain_def prod.case Let_def andThen_check if_P [OF n]
    by (rule yields_mono [OF ReturnToAllocator_inv [OF Pc cinv split]], clarify, rule done_inv, assumption+)
qed

lemma CacheDeallocate_inv:
  assumes P: "cache_parameters_ok P c" and inv: "cache_inv P c (ch # prog) s" and p: "p = CompactPtrToPointer (region_of P c s) ch"
  shows "yields (CacheDeallocate G P c p s) (\<lambda>s'. cache_inv P c prog s' \<and> region_of P c s' = region_of P c s)"
proof -
  let ?s1 = "InitCache P c s"
  have in_range: "c \<noteq> 0" "c < NumClasses64 P" using P by (auto simp: cache_parameters_ok_def)
  have i1: "cache_inv P c (ch # prog) ?s1" by (rule max_cached(2) [OF P inv])
  have r1: "region_of P c ?s1 = region_of P c s" by (rule max_cached(4) [OF P])
  let ?m = "lc_max_count (local_classes ?s1 c)"
  have m: "2 \<le> unat ?m"
  proof -
    have "?m \<noteq> 1" using i1 by (simp add: cache_inv_def Let_def)
    then have "unat ?m \<noteq> 1" by (metis unsigned_1 word_unat_eq_iff)
    moreover have "unat ?m \<noteq> 0" using max_cached(1) [OF P, of s] by (simp add: unsigned_eq_0_iff)
    ultimately show ?thesis by linarith
  qed
  have half: "unat (?m div 2) = unat ?m div 2" by (simp add: unat_div)
  have room: "yields (if lc_count (local_classes ?s1 c) = ?m then DrainHalfMax G P c ?s1 else Inr ?s1)
      (\<lambda>s2. cache_inv P c (ch # prog) s2 \<and> region_of P c s2 = region_of P c s \<and>
        unat (lc_count (local_classes s2 c)) < unat (lc_max_count (local_classes s2 c)))"
  proof (cases "lc_count (local_classes ?s1 c) = ?m")
    case True
    have n: "ucast (?m div 2) \<le> (ucast (lc_count (local_classes ?s1 c)) :: uptr)"
      unfolding True word_le_nat_alt by (simp add: half)
    have less: "unat (?m - ?m div 2) < unat ?m"
      using m half by (simp add: unat_sub word_le_nat_alt)
    show ?thesis
      unfolding DrainHalfMax_def if_P [OF True]
      by (rule yields_andThen [OF CacheDrain_inv [OF P i1 n]]) (auto simp: True r1 less ucast_wide)
  next
    case False
    have "lc_count (local_classes ?s1 c) \<le> ?m" using i1 by (simp add: cache_inv_def Let_def)
    then have "unat (lc_count (local_classes ?s1 c)) < unat ?m" using False by (simp add: word_less_nat_alt [symmetric])
    then show ?thesis using False i1 r1 by simp
  qed
  have put: "yields (andThen (GetRegionBeginBySizeClass P c s2) (\<lambda>rb.
       let q = local_classes s2 c; n = lc_count q;
           t = set_class c (\<lambda>p. p\<lparr>lc_chunks := (lc_chunks p)(unat n := PointerToCompactPtr rb p'), lc_count := n + 1\<rparr>) s2
       in Inr (note64 (Stat_sub AllocatorStatAllocated (lc_class_size q)) t))) (\<lambda>s'. cache_inv P c prog s' \<and> region_of P c s' = region_of P c s)"
    if i2: "cache_inv P c (ch # prog) s2" and r2: "region_of P c s2 = region_of P c s" and p': "p' = p"
      and less: "unat (lc_count (local_classes s2 c)) < unat (lc_max_count (local_classes s2 c))"
    for s2 :: "'a upstream_state_scheme" and p'
  proof (cases "is_clustertag s2")
    case False
    let ?q = "local_classes s2 c"
    have rb: "GetRegionBeginBySizeClass P c s2 = Inr (region_of P c s2)"
      using False by (simp add: GetRegionBeginBySizeClass_def not_in_clustertag_def region_of_def)
    have compact: "PointerToCompactPtr (region_of P c s2) p' = ch" by (simp add: p' p r2 compact_roundtrip)
    let ?t = "set_class c (\<lambda>p. p\<lparr>lc_chunks := (lc_chunks p)(unat (lc_count ?q) := ch), lc_count := lc_count ?q + 1\<rparr>) s2"
    have n1: "unat (lc_count ?q + 1) = unat (lc_count ?q) + 1"
    proof -
      have "unat (lc_count ?q) + 1 < 4294967296" using less unat_less_32 [of "lc_max_count ?q"] by linarith
      then show ?thesis by (subst unat_add_small) simp_all
    qed
    have "cached c ?t = cached c s2 @ [ch]"
    proof (rule nth_equalityI)
      fix i assume "i < length (cached c ?t)"
      then have "i < unat (lc_count ?q) \<or> i = unat (lc_count ?q)" by (auto simp: cached_def n1)
      then show "cached c ?t ! i = (cached c s2 @ [ch]) ! i" by (auto simp: cached_def n1 nth_append simp del: upt_Suc)
    qed (simp add: cached_def n1)
    then have same: "mset (cached c s2 @ ch # prog) = mset (cached c ?t @ prog)" by (simp only: mset_append) simp
    have "class_inv P c (cached c s2 @ ch # prog) s2" using i2 unfolding cache_inv_def by (rule conjunct1)
    then have "class_inv P c (cached c ?t @ prog) s2" by (simp only: class_inv_mset [OF same])
    moreover have "lc_count ?q + 1 \<le> lc_max_count ?q" using less by (simp add: word_le_nat_alt n1)
    ultimately have "cache_inv P c prog (note64 e ?t)" for e
      using i2 by (simp add: cache_inv_def Let_def cached_note)
    then show ?thesis by (simp add: rb Let_def compact [unfolded r2] r2)
  qed (simp add: GetRegionBeginBySizeClass_def not_in_clustertag_def)
  show ?thesis
    unfolding CacheDeallocate_def andThen_check if_P [OF in_range(1)] if_P [OF in_range(2)] Let_def
    by (rule yields_andThen [OF room], elim conjE) (rule put [unfolded Let_def], assumption+, rule refl, assumption)
qed

section \<open>Runs of a cache\<close>

text \<open>The chunks of one class the program holds, under allocations and deallocations through the cache of
  a thread; a failed allocation holds nothing.\<close>

inductive cache_run ::
    "ct_globals \<Rightarrow> p64_params \<Rightarrow> uptr \<Rightarrow> upstream_state \<Rightarrow> uptr list \<Rightarrow> upstream_state \<Rightarrow> uptr list \<Rightarrow> bool"
  for G P c s where
  cache_none: "cache_run G P c s [] s []"
| cache_alloc: "cache_run G P c s [] s1 ps \<Longrightarrow> CacheAllocate P c s1 = Inr (p, s2) \<Longrightarrow> p \<noteq> 0 \<Longrightarrow>
    cache_run G P c s [] s2 (p # ps)"
| cache_fail: "cache_run G P c s [] s1 ps \<Longrightarrow> CacheAllocate P c s1 = Inr (0, s2) \<Longrightarrow> cache_run G P c s [] s2 ps"
| cache_free: "cache_run G P c s [] s1 ps \<Longrightarrow> mset ps = mset (p # qs) \<Longrightarrow> CacheDeallocate G P c p s1 = Inr s2 \<Longrightarrow>
    cache_run G P c s [] s2 qs"

definition fresh_cache :: "p64_params \<Rightarrow> uptr \<Rightarrow> upstream_state \<Rightarrow> bool" where
  "fresh_cache P c s \<longleftrightarrow> (let r = regions64 s c in num_freed_chunks r = 0 \<and> allocated_user r = 0 \<and> allocated_meta r = 0 \<and>
     mapped_user r = 0 \<and> mapped_meta r = 0) \<and> lc_count (local_classes s c) = 0 \<and> lc_max_count (local_classes s c) = 0 \<and>
     0 < region_of P c s \<and> region_of P c s < 2 ^ 63"

lemma fresh_cache_inv: "fresh_cache P c s \<Longrightarrow> cache_inv P c [] s"
  unfolding cache_inv_def class_inv_def Let_def
  by (intro conjI exI [of _ 0]) (simp_all add: fresh_cache_def Let_def free_list64_def cached_def)

lemma pointer_nonzero:
  assumes "0 < rb" and "rb < 2 ^ 63"
  shows "CompactPtrToPointer rb ch \<noteq> 0"
proof -
  have c: "unat ch * 16 < 18446744073709551616" "unat ch * 16 < 9223372036854775808"
    using unat_less_32 [of ch] by linarith+
  then have p: "unat (push_bit 4 (ucast ch :: uptr)) = unat ch * 16"
    by (simp add: push_bit_eq_mult unat_word_ariths)
  have r: "unat rb < 9223372036854775808" using assms(2) by (simp add: word_less_nat_alt)
  have "unat (CompactPtrToPointer rb ch) = unat rb + unat ch * 16"
    unfolding CompactPtrToPointer_def kCompactPtrScale_def using c r by (subst unat_add_small) (simp_all add: p)
  then show ?thesis using assms(1) by (auto simp: word_less_nat_alt)
qed

lemma compact_map:
  "map (PointerToCompactPtr rb) (map (CompactPtrToPointer rb) xs) = xs"
  by (simp add: comp_def compact_roundtrip)

lemma cache_run_inv:
  assumes "cache_run G P c s [] s' ps" and P: "cache_parameters_ok P c" and fresh: "fresh_cache P c s"
  shows "region_of P c s' = region_of P c s \<and> (\<exists>xs. ps = map (CompactPtrToPointer (region_of P c s)) xs \<and> cache_inv P c xs s')"
  using assms(1)
proof (induction s' ps rule: cache_run.induct)
  case cache_none
  then show ?case using fresh_cache_inv [OF fresh] by simp
next
  case (cache_alloc s1 ps p s2)
  then obtain xs where x: "ps = map (CompactPtrToPointer (region_of P c s)) xs" "cache_inv P c xs s1" by blast
  from yieldsD [OF CacheAllocate_inv [OF P x(2)] cache_alloc.hyps(2)] cache_alloc.hyps(3) cache_alloc.IH
  obtain ch where "region_of P c s2 = region_of P c s" "p = CompactPtrToPointer (region_of P c s) ch" "cache_inv P c (ch # xs) s2"
    by auto
  then show ?case using x(1) by (metis list.simps(9))
next
  case (cache_fail s1 ps s2)
  then obtain xs where x: "ps = map (CompactPtrToPointer (region_of P c s)) xs" "cache_inv P c xs s1" by blast
  have "CompactPtrToPointer (region_of P c s) ch \<noteq> 0" for ch
    by (rule pointer_nonzero) (use fresh in \<open>simp_all add: fresh_cache_def\<close>)
  then show ?case
    using yieldsD [OF CacheAllocate_inv [OF P x(2)] cache_fail.hyps(2)] cache_fail.IH x(1) by auto
next
  case (cache_free s1 ps p qs s2)
  then obtain xs where x: "ps = map (CompactPtrToPointer (region_of P c s)) xs" "cache_inv P c xs s1"
    and r: "region_of P c s1 = region_of P c s" by blast
  let ?f = "CompactPtrToPointer (region_of P c s)" and ?g = "PointerToCompactPtr (region_of P c s)"
  have back1: "?g (?f y) = y" for y by (rule compact_roundtrip)
  have "set (p # qs) = ?f ` set xs" using mset_eq_setD [OF cache_free.hyps(2)] x(1) by simp
  then have inv_f: "?f (?g q) = q" if "q \<in> set (p # qs)" for q using that back1 by (auto simp: image_iff)
  have "mset (map ?g ps) = mset (map ?g (p # qs))" using cache_free.hyps(2) by (metis mset_map)
  then have xs: "mset xs = mset (?g p # map ?g qs)" unfolding x(1) compact_map by simp
  have "cache_inv P c (?g p # map ?g qs) s1"
    using x(2) class_inv_mset [of "cached c s1 @ xs" "cached c s1 @ ?g p # map ?g qs" P c s1] xs by (simp add: cache_inv_def)
  from yieldsD [OF CacheDeallocate_inv [OF P this] cache_free.hyps(3)]
  have "cache_inv P c (map ?g qs) s2 \<and> region_of P c s2 = region_of P c s" using inv_f r by simp
  moreover have "qs = map ?f (map ?g qs)" using inv_f by (simp add: map_idI)
  ultimately show ?case by blast
qed

text \<open>C18. The upstream cache: from a fresh class, no sequence of allocations and deallocations through the
  cache of a thread brings one chunk to two places, be they the program, the cache or the free array;
  and the cache never holds more chunks than its array has slots.\<close>

theorem upstream_cache_disjoint:
  assumes P: "cache_parameters_ok P c" and fresh: "fresh_cache P c s" and run: "cache_run G P c s [] s' ps"
  shows "distinct (free_list64 P c s' @ cached c s' @ map (PointerToCompactPtr (region_of P c s)) ps) \<and>
    length (cached c s') \<le> 2 * unat (kMaxNumCachedHint (SizeClassMapT P))"
proof -
  obtain xs where x: "ps = map (CompactPtrToPointer (region_of P c s)) xs" "cache_inv P c xs s'"
    using cache_run_inv [OF run P fresh] by blast
  have inv: "class_inv P c (cached c s' @ xs) s'" using x(2) by (simp add: cache_inv_def)
  have "class_parameters_ok P c" using P by (simp add: cache_parameters_ok_def)
  from class_inv_distinct [OF this inv]
  have "distinct (free_list64 P c s' @ cached c s' @ map (PointerToCompactPtr (region_of P c s)) ps)"
    unfolding x(1) compact_map .
  moreover have "length (cached c s') \<le> 2 * unat (kMaxNumCachedHint (SizeClassMapT P))"
    using x(2) by (auto simp: cache_inv_def Let_def cached_def word_le_nat_alt)
  ultimately show ?thesis by blast
qed

definition sample_upstream :: upstream_state where
  "sample_upstream = large_state.extend sample_large
     (upstream_state.fields (\<lambda>_. \<lparr> lc_count = 0, lc_max_count = 0, lc_class_size = 0, lc_chunks = (\<lambda>_. 0) \<rparr>) False)"

lemma sample_cache_alloc: "map_sum id fst (CacheAllocate AP64 30 sample_upstream) = Inr 0x101e00000000"
  by code_simp

lemma sample_cache_ok: "cache_parameters_ok AP64 30" "fresh_cache AP64 30 sample_upstream"
    "region_of AP64 30 sample_upstream = 0x101e00000000"
proof -
  have n: "NumClasses64 AP64 = 32" "kMaxNumCachedHint (SizeClassMapT AP64) = 8" by code_simp+
  show "cache_parameters_ok AP64 30" using sample_class_ok by (simp add: cache_parameters_ok_def n)
  show r: "region_of AP64 30 sample_upstream = 0x101e00000000" by code_simp
  show "fresh_cache AP64 30 sample_upstream"
    unfolding fresh_cache_def r
    by (simp add: sample_upstream_def large_state.defs upstream_state.defs sample_large_simps sample_region64_def)
qed

theorem upstream_cache_disjoint_witness:
  "\<exists>s'. cache_run x86_globals AP64 30 sample_upstream [] s' [0x101e00000000] \<and>
     distinct (free_list64 AP64 30 s' @ cached 30 s' @ [0])"
proof -
  obtain s' where a: "CacheAllocate AP64 30 sample_upstream = Inr (0x101e00000000, s')"
    using sample_cache_alloc by (cases "CacheAllocate AP64 30 sample_upstream") auto
  have r: "cache_run x86_globals AP64 30 sample_upstream [] s' [0x101e00000000]"
    by (rule cache_alloc [OF cache_none a]) simp
  have "PointerToCompactPtr 0x101e00000000 0x101e00000000 = 0" by (simp add: PointerToCompactPtr_def)
  with upstream_cache_disjoint [OF sample_cache_ok(1,2) r] r show ?thesis by (auto simp: sample_cache_ok(3))
qed

end
