(* ===== verification/Upstream_Guarantees.thy ===== *)
theory Upstream_Guarantees
  imports Upstream_Cache
begin

text \<open>
  The release of free pages by the upstream allocator, stated for a system that grants every mapping:
  it ends, and nothing but pages without a live chunk is given back.
\<close>

section \<open>A system that grants every mapping\<close>

definition grants :: "ct_globals \<Rightarrow> 'a machine_scheme \<Rightarrow> bool" where
  "grants G s \<longleftrightarrow> mmap_limit_mb G = 0 \<and> (\<forall>i. \<not> os_iserror G (sys_ret s i))"

lemma grants_MmapOrDie:
  assumes "grants G s" and "page_size G = 2 ^ k" and "k < 64"
  shows "\<exists>r s'. MmapOrDie G sz s = Inr (r, s') \<and> grants G s'"
  using assms
  by (auto simp: grants_def MmapOrDie_def internal_mmap_def syscall_def IncreaseTotalMmap_def zero_range_def Let_def)

lemma grants_UnmapOrDie:
  assumes "grants G s"
  shows "\<exists>s'. UnmapOrDie G a sz s = Inr s'"
  using assms by (auto simp: grants_def UnmapOrDie_def internal_munmap_def syscall_def Let_def)

lemma grants_resize:
  assumes g: "grants G s" and page: "page_size G = 2 ^ k" "k < 64"
  shows "\<exists>r. vec_resize G es z w (vec_clear v) s = Inr r"
proof -
  have size0: "vec_size (vec_clear v) = 0" by (simp add: vec_size_def vec_clear_def)
  have realloc: "\<exists>r. vec_Realloc G es w (vec_clear v) s = Inr r" if w: "0 < w"
  proof -
    obtain p s1 where m: "MmapOrDie G (round_up (w * es) (2 ^ k)) s = Inr (p, s1)" "grants G s1"
      using grants_MmapOrDie [OF g page] by blast
    obtain s2 where "UnmapOrDie G (vec_addr (vec_clear v)) (capacity_bytes (vec_clear v)) s1 = Inr s2"
      using grants_UnmapOrDie [OF m(2)] by blast
    then show ?thesis using w page m(1) by (simp add: vec_Realloc_def size0 andThen_check)
  qed
  show ?thesis
  proof (cases "w = 0")
    case False
    then have "0 < w" by (simp add: word_neq_0_conv)
    then show ?thesis
      using realloc by (fastforce simp: vec_resize_def vec_reserve_def size0)
  qed (simp add: vec_resize_def size0)
qed

section \<open>Released pages are free\<close>

text \<open>C19. Upstream release: for a class whose chunks have \<open>16 * cs\<close> bytes on pages of \<open>16 * 2 ^ l\<close> bytes, and
  a free array that holds the chunks with the numbers \<open>is\<close>, \<open>ReleaseFreeMemoryToOS\<close> returns, and it only
  gives back ranges of pages that no chunk outside \<open>is\<close> meets. The fuel covers one step for each page.\<close>

theorem upstream_release_safe:
  assumes page: "page_size G = 2 ^ (l + 4)" "l < 32" and c: "0 < cs" "unat chunk_size = 16 * cs"
    and n: "unat pages = n" "0 < n" "n * 2 ^ l < 2 ^ 32" and fuel: "n + 1 < loop_fuel G"
    and free: "free32 = map (\<lambda>i. of_nat (i * cs)) is" "distinct is" "\<forall>i \<in> set is. (i + 1) * cs \<le> n * 2 ^ l"
    and small: "n * 2 ^ l + 3 * cs + 2 * 2 ^ l < 2 ^ 60" and base: "GetRegionBeginBySizeClass P class_id s = Inr base"
    and system: "grants G s"
  shows "\<exists>mm' s' evs. ReleaseFreeMemoryToOS G P free32 chunk_size pages class_id (mm, s) = Inr (mm', s') \<and>
    p64_log s' = evs @ p64_log s \<and>
    (\<forall>e \<in> set evs. good_release base l (\<lambda>j. \<forall>i. meets (2 ^ l) cs j i \<longrightarrow> i \<in> set is) e)"
proof -
  have "l + 4 < 64" using page(2) by simp
  then have mapped: "\<exists>r. vec_resize G 8 0 w (vec_clear (counter_buffer mm)) s = Inr r" for w
    by (rule grants_resize [OF system page(1)])
  obtain mm' s' where r: "ReleaseFreeMemoryToOS G P free32 chunk_size pages class_id (mm, s) = Inr (mm', s')"
    using ReleaseFreeMemoryToOS_returns [OF page c n fuel free small base mapped] by blast
  show ?thesis using r ReleaseFreeMemoryToOS_good [OF page c n fuel free small base r] by blast
qed

theorem upstream_release_safe_witness:
  "\<exists>mm' s' evs. ReleaseFreeMemoryToOS x86_globals AP64 [0] 0x10000 32 30 (new_mapper, sample_p64) = Inr (mm', s') \<and>
     p64_log s' = evs @ p64_log sample_p64 \<and>
     (\<forall>e \<in> set evs. good_release 0x101e00000000 8 (\<lambda>j. \<forall>i. meets (2 ^ 8) 4096 j i \<longrightarrow> i \<in> set [0]) e)"
proof -
  have g: "page_size x86_globals = 2 ^ (8 + 4)" "32 + 1 < loop_fuel x86_globals" by (simp_all add: x86_globals_def)
  have b: "GetRegionBeginBySizeClass AP64 30 sample_p64 = Inr 0x101e00000000" by code_simp
  have s: "grants x86_globals sample_p64"
    by (simp add: grants_def x86_globals_def sample_p64_def cache_state.defs start_state_def)
  show ?thesis
    by (rule upstream_release_safe [OF g(1) _ _ _ _ _ _ g(2) _ _ _ _ b s, where cs = 4096]) simp_all
qed

end
