(* ===== verification/Primary32.thy ===== *)
theory Primary32
  imports P64_Base Alloc_Support
begin

text \<open>
  The size class allocator of platforms without the 64-bit one, AArch64 among them
  (\<open>SizeClassAllocator32\<close> of \<open>sanitizer_allocator_primary32.h\<close>) and the cache of a thread that goes with
  it (\<open>SizeClassAllocator32LocalCache\<close> of \<open>sanitizer_allocator_local_cache.h\<close>). Free chunks travel in
  batches; a batch is a record stored in a free chunk, either one of its own or one of a class kept
  for batches. The records are a map from addresses, beside the bytes of memory.

  \<open>ByteMap\<close> and \<open>IntrusiveList\<close> are outside the repository: their operations are fields of the
  parameters, \<open>byte_map_ok\<close> and \<open>list_ok\<close> say what the code expects of them. Allocating a chunk may
  allocate a batch from another class, and so on: the depth of this is an argument.
\<close>

section \<open>Parameters and state\<close>

record ('m, 'l) p32_env =
  kSpaceBeg32 :: uptr
  kSpaceSize32 :: u64
  kMetadataSize32 :: uptr
  SizeClassMap32 :: scm_params
  kRegionSizeLog32 :: nat
  kFlags32 :: u32
  sci_address :: "uptr \<Rightarrow> uptr"
  bm_Init :: "'m \<Rightarrow> 'm"
  bm_contains :: "'m \<Rightarrow> uptr \<Rightarrow> bool"
  bm_get :: "'m \<Rightarrow> uptr \<Rightarrow> u8"
  bm_set :: "uptr \<Rightarrow> u8 \<Rightarrow> 'm \<Rightarrow> 'm"
  il_zero :: 'l
  il_empty :: "'l \<Rightarrow> bool"
  il_front :: "'l \<Rightarrow> uptr"
  il_pop_front :: "'l \<Rightarrow> 'l"
  il_push_front :: "uptr \<Rightarrow> 'l \<Rightarrow> 'l"
  il_push_back :: "uptr \<Rightarrow> 'l \<Rightarrow> 'l"

definition byte_map_ok :: "('m, 'l, 'z) p32_env_scheme \<Rightarrow> uptr \<Rightarrow> bool" where
  "byte_map_ok E bound \<longleftrightarrow> (\<forall>m i v. i < bound \<longrightarrow> bm_contains E (bm_set E i v m) i \<and> bm_get E (bm_set E i v m) i = v \<and>
     (\<forall>j. j \<noteq> i \<longrightarrow> bm_get E (bm_set E i v m) j = bm_get E m j \<and> (bm_contains E m j \<longrightarrow> bm_contains E (bm_set E i v m) j)))"

text \<open>\<open>elems\<close> reads a list as the sequence of its elements.\<close>

definition list_ok :: "('m, 'l, 'z) p32_env_scheme \<Rightarrow> ('l \<Rightarrow> uptr list) \<Rightarrow> bool" where
  "list_ok E elems \<longleftrightarrow> elems (il_zero E) = [] \<and> (\<forall>l. il_empty E l = (elems l = [])) \<and>
     (\<forall>l x xs. elems l = x # xs \<longrightarrow> il_front E l = x \<and> elems (il_pop_front E l) = xs) \<and>
     (\<forall>l x. elems (il_push_front E x l) = x # elems l \<and> elems (il_push_back E x l) = elems l @ [x])"

record TransferBatch =
  tb_count :: uptr
  tb_batch :: "nat \<Rightarrow> uptr"

record per_class32 =
  pc32_count :: uptr
  pc32_max_count :: uptr
  pc32_class_size :: uptr
  batch_class_id :: uptr
  pc32_batch :: "nat \<Rightarrow> uptr"

record ('m, 'l) p32_state = machine +
  possible_regions :: 'm
  free_list32 :: "uptr \<Rightarrow> 'l"
  rand_state32 :: "uptr \<Rightarrow> u32"
  batches32 :: "uptr \<Rightarrow> TransferBatch"
  local32 :: "uptr \<Rightarrow> per_class32"
  log32 :: "p64_event list"

definition note32 :: "p64_event \<Rightarrow> ('m, 'l, 'z) p32_state_scheme \<Rightarrow> ('m, 'l, 'z) p32_state_scheme" where
  "note32 e s = s\<lparr>log32 := e # log32 s\<rparr>"

definition set_batch :: "uptr \<Rightarrow> (TransferBatch \<Rightarrow> TransferBatch) \<Rightarrow> ('m, 'l, 'z) p32_state_scheme \<Rightarrow> ('m, 'l, 'z) p32_state_scheme" where
  "set_batch b f s = s\<lparr>batches32 := (batches32 s)(b := f (batches32 s b))\<rparr>"

definition set_free32 :: "uptr \<Rightarrow> ('l \<Rightarrow> 'l) \<Rightarrow> ('m, 'l, 'z) p32_state_scheme \<Rightarrow> ('m, 'l, 'z) p32_state_scheme" where
  "set_free32 c f s = s\<lparr>free_list32 := (free_list32 s)(c := f (free_list32 s c))\<rparr>"

definition set_class32 :: "uptr \<Rightarrow> (per_class32 \<Rightarrow> per_class32) \<Rightarrow> ('m, 'l, 'z) p32_state_scheme \<Rightarrow> ('m, 'l, 'z) p32_state_scheme" where
  "set_class32 c f s = s\<lparr>local32 := (local32 s)(c := f (local32 s c))\<rparr>"

section \<open>Sizes\<close>

definition NumClasses32 :: "('m, 'l, 'z) p32_env_scheme \<Rightarrow> uptr" where
  "NumClasses32 E = kNumClasses (SizeClassMap32 E)"

definition kRegionSize32 :: "('m, 'l, 'z) p32_env_scheme \<Rightarrow> uptr" where
  "kRegionSize32 E = push_bit (kRegionSizeLog32 E) 1"

definition kNumPossibleRegions :: "('m, 'l, 'z) p32_env_scheme \<Rightarrow> uptr" where
  "kNumPossibleRegions E = kSpaceSize32 E div kRegionSize32 E"

definition kRandomShuffleChunks32 :: "('m, 'l, 'z) p32_env_scheme \<Rightarrow> bool" where
  "kRandomShuffleChunks32 E \<longleftrightarrow> kFlags32 E AND 1 \<noteq> 0"

definition kUseSeparateSizeClassForBatch :: "('m, 'l, 'z) p32_env_scheme \<Rightarrow> bool" where
  "kUseSeparateSizeClassForBatch E \<longleftrightarrow> kFlags32 E AND 2 \<noteq> 0"

definition kMaxNumCached :: "('m, 'l, 'z) p32_env_scheme \<Rightarrow> uptr" where
  "kMaxNumCached E = kMaxNumCachedHint (SizeClassMap32 E) - 2"

definition AllocationSizeRequiredForNElements :: "uptr \<Rightarrow> uptr" where
  "AllocationSizeRequiredForNElements n = 8 * 2 + 8 * n"

definition MaxCached :: "('m, 'l, 'z) p32_env_scheme \<Rightarrow> uptr \<Rightarrow> uptr" where
  "MaxCached E sz = San_Min (kMaxNumCached E) (MaxCachedHint (SizeClassMap32 E) sz)"

text \<open>\<open>sizeof(TransferBatch)\<close>: the link, the count and the array.\<close>

definition kBatchSize :: "('m, 'l, 'z) p32_env_scheme \<Rightarrow> uptr" where
  "kBatchSize E = 8 + 8 + 8 * kMaxNumCached E"

definition ClassIdToSize32 :: "('m, 'l, 'z) p32_env_scheme \<Rightarrow> uptr \<Rightarrow> uptr" where
  "ClassIdToSize32 E class_id =
     (if class_id = kBatchClassID (SizeClassMap32 E) then kBatchSize E else Size (SizeClassMap32 E) class_id)"

definition CanAllocate32 :: "('m, 'l, 'z) p32_env_scheme \<Rightarrow> uptr \<Rightarrow> uptr \<Rightarrow> bool" where
  "CanAllocate32 E sz alignment \<longleftrightarrow> sz \<le> kMaxSize (SizeClassMap32 E) \<and> alignment \<le> kMaxSize (SizeClassMap32 E)"

definition ClassID32 :: "('m, 'l, 'z) p32_env_scheme \<Rightarrow> uptr \<Rightarrow> uptr" where
  "ClassID32 E sz = ClassID (SizeClassMap32 E) sz"

section \<open>Batches\<close>

definition batch_Clear :: "uptr \<Rightarrow> ('m, 'l, 'z) p32_state_scheme \<Rightarrow> ('m, 'l, 'z) p32_state_scheme" where
  "batch_Clear b s = set_batch b (tb_count_update (\<lambda>_. 0)) s"

definition batch_Add :: "('m, 'l, 'y) p32_env_scheme \<Rightarrow> uptr \<Rightarrow> uptr \<Rightarrow> ('m, 'l, 'z) p32_state_scheme \<Rightarrow>
    ('m, 'l, 'z) p32_state_scheme res" where
  "batch_Add E b ptr s =
     (let n = tb_count (batches32 s b) in
      if kMaxNumCached E \<le> n then Inl Out_of_bounds
      else Inr (set_batch b (\<lambda>t. t\<lparr>tb_batch := (tb_batch t)(unat n := ptr), tb_count := n + 1\<rparr>) s))"

definition SetFromArray :: "('m, 'l, 'y) p32_env_scheme \<Rightarrow> uptr \<Rightarrow> uptr list \<Rightarrow> ('m, 'l, 'z) p32_state_scheme \<Rightarrow>
    ('m, 'l, 'z) p32_state_scheme res" where
  "SetFromArray E b xs s =
     (if unat (kMaxNumCached E) < length xs then Inl Out_of_bounds
      else Inr (set_batch b (\<lambda>t. t\<lparr>tb_count := of_nat (length xs),
             tb_batch := (\<lambda>i. if i < length xs then xs ! i else tb_batch t i)\<rparr>) s))"

text \<open>The elements of a batch, as \<open>CopyToArray\<close> writes them.\<close>

definition batch_elems :: "TransferBatch \<Rightarrow> uptr list" where
  "batch_elems t = map (tb_batch t) [0..<unat (tb_count t)]"

definition CopyToArray :: "TransferBatch \<Rightarrow> (nat \<Rightarrow> uptr) \<Rightarrow> (nat \<Rightarrow> uptr)" where
  "CopyToArray t to_batch = (\<lambda>i. if i < unat (tb_count t) then tb_batch t i else to_batch i)"

section \<open>Regions\<close>

definition ComputeRegionId :: "('m, 'l, 'y) p32_env_scheme \<Rightarrow> uptr \<Rightarrow> uptr res" where
  "ComputeRegionId E m =
     (let r = drop_bit (kRegionSizeLog32 E) m in andThen (check (r < kNumPossibleRegions E)) (\<lambda>_. Inr r))"

definition ComputeRegionBeg :: "('m, 'l, 'y) p32_env_scheme \<Rightarrow> uptr \<Rightarrow> uptr" where
  "ComputeRegionBeg E m = m AND NOT (kRegionSize32 E - 1)"

definition GetSizeClass32 :: "('m, 'l, 'y) p32_env_scheme \<Rightarrow> uptr \<Rightarrow> ('m, 'l, 'z) p32_state_scheme \<Rightarrow> uptr res" where
  "GetSizeClass32 E p s =
     andThen (ComputeRegionId E p) (\<lambda>i.
     Inr (if bm_contains E (possible_regions s) i then ucast (bm_get E (possible_regions s) i) else 0))"

definition PointerIsMine32 :: "('m, 'l, 'y) p32_env_scheme \<Rightarrow> uptr \<Rightarrow> ('m, 'l, 'z) p32_state_scheme \<Rightarrow> bool res" where
  "PointerIsMine32 E p s =
     (if p < kSpaceBeg32 E \<or> kSpaceBeg32 E + kSpaceSize32 E \<le> p then Inr False
      else andThen (GetSizeClass32 E p s) (\<lambda>c. Inr (c \<noteq> 0)))"

definition GetMetaData32 :: "('m, 'l, 'y) p32_env_scheme \<Rightarrow> uptr \<Rightarrow> ('m, 'l, 'z) p32_state_scheme \<Rightarrow> uptr res" where
  "GetMetaData32 E p s =
     andThen (check (kMetadataSize32 E \<noteq> 0)) (\<lambda>_.
     andThen (PointerIsMine32 E p s) (\<lambda>mine.
     andThen (check mine) (\<lambda>_.
     andThen (GetSizeClass32 E p s) (\<lambda>c.
     let beg = ComputeRegionBeg E p;
         sz = ClassIdToSize32 E c;
         offset = ucast (p - beg) :: u32;
         n = ucast (offset div ucast sz) :: uptr
     in Inr ((beg + kRegionSize32 E) - (n + 1) * kMetadataSize32 E)))))"

definition GetBlockBegin32 :: "('m, 'l, 'y) p32_env_scheme \<Rightarrow> uptr \<Rightarrow> ('m, 'l, 'z) p32_state_scheme \<Rightarrow> uptr res" where
  "GetBlockBegin32 E p s =
     andThen (PointerIsMine32 E p s) (\<lambda>mine.
     andThen (check mine) (\<lambda>_.
     andThen (GetSizeClass32 E p s) (\<lambda>c.
     let beg = ComputeRegionBeg E p;
         sz = ClassIdToSize32 E c;
         offset = ucast (p - beg) :: u32;
         n = offset div ucast sz
     in Inr (beg + ucast (n * ucast sz)))))"

definition GetActuallyAllocatedSize32 :: "('m, 'l, 'y) p32_env_scheme \<Rightarrow> uptr \<Rightarrow> ('m, 'l, 'z) p32_state_scheme \<Rightarrow> uptr res" where
  "GetActuallyAllocatedSize32 E p s =
     andThen (PointerIsMine32 E p s) (\<lambda>mine.
     andThen (check mine) (\<lambda>_.
     andThen (GetSizeClass32 E p s) (\<lambda>c. Inr (ClassIdToSize32 E c))))"

definition possible :: "('m, 'l, 'y) p32_env_scheme \<Rightarrow> ('m, 'l, 'z) p32_state_scheme \<Rightarrow> uptr list" where
  "possible E s = [i. i \<leftarrow> map of_nat [0..<unat (kNumPossibleRegions E)], bm_get E (possible_regions s) i \<noteq> 0]"

definition TotalMemoryUsed32 :: "('m, 'l, 'y) p32_env_scheme \<Rightarrow> ('m, 'l, 'z) p32_state_scheme \<Rightarrow> uptr" where
  "TotalMemoryUsed32 E s = fold (\<lambda>i r. r + kRegionSize32 E) (possible E s) 0"

definition MapWithCallback32 :: "ct_globals \<Rightarrow> uptr \<Rightarrow> ('m, 'l, 'z) p32_state_scheme \<Rightarrow> (uptr \<times> ('m, 'l, 'z) p32_state_scheme) res" where
  "MapWithCallback32 G sz s = andThen (MmapOrDie G sz s) (\<lambda>(r, s). Inr (r, note32 (On_map r sz) s))"

definition UnmapWithCallback32 :: "ct_globals \<Rightarrow> uptr \<Rightarrow> uptr \<Rightarrow> ('m, 'l, 'z) p32_state_scheme \<Rightarrow> ('m, 'l, 'z) p32_state_scheme res" where
  "UnmapWithCallback32 G beg sz s = UnmapOrDie G beg sz (note32 (On_unmap beg sz) s)"

fun unmap_regions :: "ct_globals \<Rightarrow> uptr \<Rightarrow> uptr list \<Rightarrow> ('m, 'l, 'z) p32_state_scheme \<Rightarrow> ('m, 'l, 'z) p32_state_scheme res" where
  "unmap_regions G sz [] s = Inr s"
| "unmap_regions G sz (i # js) s = andThen (UnmapWithCallback32 G (i * sz) sz s) (unmap_regions G sz js)"

definition TestOnlyUnmap32 :: "ct_globals \<Rightarrow> ('m, 'l, 'y) p32_env_scheme \<Rightarrow> ('m, 'l, 'z) p32_state_scheme \<Rightarrow>
    ('m, 'l, 'z) p32_state_scheme res" where
  "TestOnlyUnmap32 G E s = unmap_regions G (kRegionSize32 E) (possible E s) s"

text \<open>The chunks \<open>ForEachChunk\<close> calls its callback with, in order. The loop over a region advances by the
  size of a chunk until it has passed all of them.\<close>

definition chunks_in_region :: "('m, 'l, 'y) p32_env_scheme \<Rightarrow> uptr \<Rightarrow> uptr \<Rightarrow> uptr list" where
  "chunks_in_region E region_beg chunk_size =
     map (\<lambda>j. region_beg + of_nat j * chunk_size) [0..<unat (kRegionSize32 E div (chunk_size + kMetadataSize32 E))]"

definition ForEachChunk32 :: "('m, 'l, 'y) p32_env_scheme \<Rightarrow> ('m, 'l, 'z) p32_state_scheme \<Rightarrow> uptr list" where
  "ForEachChunk32 E s =
     concat (map (\<lambda>i. chunks_in_region E (i * kRegionSize32 E) (ClassIdToSize32 E (ucast (bm_get E (possible_regions s) i))))
       (filter (bm_contains E (possible_regions s)) (possible E s)))"

definition AllocateRegion :: "ct_globals \<Rightarrow> ('m, 'l, 'y) p32_env_scheme \<Rightarrow> uptr \<Rightarrow> ('m, 'l, 'z) p32_state_scheme \<Rightarrow>
    (uptr \<times> ('m, 'l, 'z) p32_state_scheme) res" where
  "AllocateRegion G E class_id s =
     andThen (MmapAlignedOrDieOnFatalError G (kRegionSize32 E) (kRegionSize32 E) s) (\<lambda>(r, s).
     if r = 0 then Inr (0, s)
     else
       let s = note32 (Stat_add AllocatorStatMapped (kRegionSize32 E)) (note32 (On_map r (kRegionSize32 E)) s) in
       andThen (IsAligned r (kRegionSize32 E)) (\<lambda>al.
       andThen (check al) (\<lambda>_.
       andThen (ComputeRegionId E r) (\<lambda>i.
       Inr (r, s\<lparr>possible_regions := bm_set E i (ucast class_id) (possible_regions s)\<rparr>)))))"

definition Init32 :: "('m, 'l, 'y) p32_env_scheme \<Rightarrow> s32 \<Rightarrow> uptr \<Rightarrow> ('m, 'l, 'z) p32_state_scheme \<Rightarrow>
    ('m, 'l, 'z) p32_state_scheme res" where
  "Init32 E release_ms heap_start s =
     andThen (check (heap_start = 0)) (\<lambda>_.
     Inr (s\<lparr>possible_regions := bm_Init E (possible_regions s),
         free_list32 := (\<lambda>c. if c < NumClasses32 E then il_zero E else free_list32 s c),
         rand_state32 := (\<lambda>c. if c < NumClasses32 E then 0 else rand_state32 s c)\<rparr>))"

text \<open>The operations of ClusterTag this allocator refuses.\<close>

definition clustertag_refused :: "'a res" where
  "clustertag_refused = Inl (Exit 1)"

section \<open>Filling the list of free batches\<close>

text \<open>\<open>create\<close> stands for \<open>CreateBatch\<close> of the cache, which is passed in. \<open>add_chunks\<close> is the loop over
  the array: it returns the batch begun and not full, or \<open>None\<close> when no batch could be had.\<close>

type_synonym ('m, 'l, 'z) create = "uptr \<Rightarrow> uptr \<Rightarrow> ('m, 'l, 'z) p32_state_scheme \<Rightarrow> (uptr \<times> ('m, 'l, 'z) p32_state_scheme) res"

fun add_chunks :: "('m, 'l, 'y) p32_env_scheme \<Rightarrow> ('m, 'l, 'z) create \<Rightarrow> uptr \<Rightarrow> uptr \<Rightarrow> uptr list \<Rightarrow> uptr \<Rightarrow>
    ('m, 'l, 'z) p32_state_scheme \<Rightarrow> (uptr option \<times> ('m, 'l, 'z) p32_state_scheme) res" where
  "add_chunks E create class_id max_count [] b s = Inr (Some b, s)"
| "add_chunks E create class_id max_count (p # ps) b s =
     andThen (if b = 0
              then andThen (create class_id p s) (\<lambda>(b, s). Inr (b, if b = 0 then s else batch_Clear b s))
              else Inr (b, s)) (\<lambda>(b, s).
     if b = 0 then Inr (None, s)
     else
       andThen (batch_Add E b p s) (\<lambda>s.
       if tb_count (batches32 s b) = max_count
       then add_chunks E create class_id max_count ps 0 (set_free32 class_id (il_push_back E b) s)
       else add_chunks E create class_id max_count ps b s))"

definition PopulateBatches :: "('m, 'l, 'y) p32_env_scheme \<Rightarrow> ('m, 'l, 'z) create \<Rightarrow> uptr \<Rightarrow> uptr \<Rightarrow> uptr list \<Rightarrow> uptr \<Rightarrow>
    ('m, 'l, 'z) p32_state_scheme \<Rightarrow> (uptr option \<times> ('m, 'l, 'z) p32_state_scheme) res" where
  "PopulateBatches E create class_id max_count pointers b s =
     (let (pointers, s) =
            (if kRandomShuffleChunks32 E \<and> (\<not> kUseSeparateSizeClassForBatch E \<or> class_id \<noteq> kBatchClassID (SizeClassMap32 E))
             then let (a, r) = RandomShuffle pointers (rand_state32 s class_id)
                  in (a, s\<lparr>rand_state32 := (rand_state32 s)(class_id := r)\<rparr>)
             else (pointers, s))
      in add_chunks E create class_id max_count pointers b s)"

definition kShuffleArraySize :: nat where "kShuffleArraySize = 48"

text \<open>The loop over the chunks of the region: \<open>n\<close> are left from address \<open>i\<close> on, \<open>acc\<close> is \<open>shuffle_array\<close>.\<close>

fun populate_region :: "('m, 'l, 'y) p32_env_scheme \<Rightarrow> ('m, 'l, 'z) create \<Rightarrow> uptr \<Rightarrow> uptr \<Rightarrow> uptr \<Rightarrow> nat \<Rightarrow> uptr \<Rightarrow>
    uptr list \<Rightarrow> uptr \<Rightarrow> ('m, 'l, 'z) p32_state_scheme \<Rightarrow> (uptr option \<times> ('m, 'l, 'z) p32_state_scheme) res" where
  "populate_region E create class_id max_count sz 0 i acc b s =
     (if acc = [] then Inr (Some b, s) else PopulateBatches E create class_id max_count acc b s)"
| "populate_region E create class_id max_count sz (Suc n) i acc b s =
     (let acc = acc @ [i] in
      if length acc = kShuffleArraySize
      then andThen (PopulateBatches E create class_id max_count acc b s) (\<lambda>(r, s).
           case r of None \<Rightarrow> Inr (None, s)
           | Some b \<Rightarrow> populate_region E create class_id max_count sz n (i + sz) [] b s)
      else populate_region E create class_id max_count sz n (i + sz) acc b s)"

definition PopulateFreeList :: "ct_globals \<Rightarrow> ('m, 'l, 'y) p32_env_scheme \<Rightarrow> ('m, 'l, 'z) create \<Rightarrow> uptr \<Rightarrow>
    ('m, 'l, 'z) p32_state_scheme \<Rightarrow> (bool \<times> ('m, 'l, 'z) p32_state_scheme) res" where
  "PopulateFreeList G E create class_id s =
     andThen (AllocateRegion G E class_id s) (\<lambda>(region, s).
     if region = 0 then Inr (False, s)
     else
       let s = (if kRandomShuffleChunks32 E \<and> rand_state32 s class_id = 0
                then let (t, s) = MonotonicNanoTime s
                     in s\<lparr>rand_state32 := (rand_state32 s)(class_id := ucast (sci_address E class_id XOR t))\<rparr>
                else s);
           sz = ClassIdToSize32 E class_id;
           n_chunks = kRegionSize32 E div (sz + kMetadataSize32 E);
           max_count = MaxCached E sz
       in andThen (populate_region E create class_id max_count sz (unat n_chunks) region [] 0 s) (\<lambda>(r, s).
          case r of
            None \<Rightarrow> Inr (False, s)
          | Some b \<Rightarrow>
              if b = 0 then Inr (True, s)
              else andThen (check (0 < tb_count (batches32 s b))) (\<lambda>_.
                   Inr (True, set_free32 class_id (il_push_back E b) s))))"

definition AllocateBatch :: "ct_globals \<Rightarrow> ('m, 'l, 'y) p32_env_scheme \<Rightarrow> ('m, 'l, 'z) create \<Rightarrow> uptr \<Rightarrow>
    ('m, 'l, 'z) p32_state_scheme \<Rightarrow> (uptr \<times> ('m, 'l, 'z) p32_state_scheme) res" where
  "AllocateBatch G E create class_id s =
     andThen (if il_empty E (free_list32 s class_id) then PopulateFreeList G E create class_id s else Inr (True, s)) (\<lambda>(ok, s).
     if \<not> ok then Inr (0, s)
     else Inr (il_front E (free_list32 s class_id), set_free32 class_id (il_pop_front E) s))"

definition DeallocateBatch :: "('m, 'l, 'y) p32_env_scheme \<Rightarrow> uptr \<Rightarrow> uptr \<Rightarrow> ('m, 'l, 'z) p32_state_scheme \<Rightarrow>
    ('m, 'l, 'z) p32_state_scheme res" where
  "DeallocateBatch E class_id b s =
     andThen (check (0 < tb_count (batches32 s b))) (\<lambda>_. Inr (set_free32 class_id (il_push_front E b) s))"

section \<open>The cache of a thread\<close>

definition InitCache32 :: "('m, 'l, 'y) p32_env_scheme \<Rightarrow> uptr \<Rightarrow> ('m, 'l, 'z) p32_state_scheme \<Rightarrow> ('m, 'l, 'z) p32_state_scheme" where
  "InitCache32 E c s =
     (if pc32_max_count (local32 s c) \<noteq> 0 then s
      else
        let own_batch_class_id = ClassID (SizeClassMap32 E) (kBatchSize E);
            kBatch = kBatchClassID (SizeClassMap32 E)
        in s\<lparr>local32 := (\<lambda>i. if 1 \<le> i \<and> i < NumClasses32 E then
             (let sz = ClassIdToSize32 E i; max_cached = MaxCached E sz in
              (local32 s i)\<lparr>pc32_max_count := 2 * max_cached, pc32_class_size := sz,
                batch_class_id :=
                  (if kUseSeparateSizeClassForBatch E then (if i = kBatch then 0 else kBatch)
                   else if sz < AllocationSizeRequiredForNElements max_cached then own_batch_class_id else 0)\<rparr>)
             else local32 s i)\<rparr>)"

text \<open>\<open>alloc\<close> and \<open>dealloc\<close> stand for the calls of \<open>Allocate\<close> and \<open>Deallocate\<close> for a batch.\<close>

definition CreateBatch :: "(uptr \<Rightarrow> ('m, 'l, 'z) p32_state_scheme \<Rightarrow> (uptr \<times> ('m, 'l, 'z) p32_state_scheme) res) \<Rightarrow>
    ('m, 'l, 'z) create" where
  "CreateBatch alloc class_id b s =
     (let bc = batch_class_id (local32 s class_id) in if bc \<noteq> 0 then alloc bc s else Inr (b, s))"

definition DestroyBatch :: "(uptr \<Rightarrow> uptr \<Rightarrow> ('m, 'l, 'z) p32_state_scheme \<Rightarrow> ('m, 'l, 'z) p32_state_scheme res) \<Rightarrow>
    uptr \<Rightarrow> uptr \<Rightarrow> ('m, 'l, 'z) p32_state_scheme \<Rightarrow> ('m, 'l, 'z) p32_state_scheme res" where
  "DestroyBatch dealloc class_id b s =
     (let bc = batch_class_id (local32 s class_id) in if bc \<noteq> 0 then dealloc bc b s else Inr s)"

definition Refill32 :: "ct_globals \<Rightarrow> ('m, 'l, 'y) p32_env_scheme \<Rightarrow>
    (uptr \<Rightarrow> ('m, 'l, 'z) p32_state_scheme \<Rightarrow> (uptr \<times> ('m, 'l, 'z) p32_state_scheme) res) \<Rightarrow>
    (uptr \<Rightarrow> uptr \<Rightarrow> ('m, 'l, 'z) p32_state_scheme \<Rightarrow> ('m, 'l, 'z) p32_state_scheme res) \<Rightarrow>
    uptr \<Rightarrow> ('m, 'l, 'z) p32_state_scheme \<Rightarrow> (bool \<times> ('m, 'l, 'z) p32_state_scheme) res" where
  "Refill32 G E alloc dealloc class_id s =
     (let s = InitCache32 E class_id s in
      andThen (AllocateBatch G E (CreateBatch alloc) class_id s) (\<lambda>(b, s).
      if b = 0 then Inr (False, s)
      else
        let t = batches32 s b in
        andThen (check (0 < tb_count t)) (\<lambda>_.
        let s = set_class32 class_id (\<lambda>c. c\<lparr>pc32_batch := CopyToArray t (pc32_batch c), pc32_count := tb_count t\<rparr>) s
        in andThen (DestroyBatch dealloc class_id b s) (\<lambda>s. Inr (True, s)))))"

definition Drain32 :: "('m, 'l, 'y) p32_env_scheme \<Rightarrow>
    (uptr \<Rightarrow> ('m, 'l, 'z) p32_state_scheme \<Rightarrow> (uptr \<times> ('m, 'l, 'z) p32_state_scheme) res) \<Rightarrow>
    uptr \<Rightarrow> ('m, 'l, 'z) p32_state_scheme \<Rightarrow> ('m, 'l, 'z) p32_state_scheme res" where
  "Drain32 E alloc class_id s =
     (let c = local32 s class_id;
          cnt = San_Min (pc32_max_count c div 2) (pc32_count c);
          first_idx_to_drain = pc32_count c - cnt
      in
      andThen (CreateBatch alloc class_id (pc32_batch c (unat first_idx_to_drain)) s) (\<lambda>(b, s).
      if b = 0 then Inl Died
      else
        andThen (SetFromArray E b (map (pc32_batch (local32 s class_id))
            [unat first_idx_to_drain..<unat first_idx_to_drain + unat cnt]) s) (\<lambda>s.
        DeallocateBatch E class_id b (set_class32 class_id (\<lambda>c. c\<lparr>pc32_count := pc32_count c - cnt\<rparr>) s))))"

text \<open>\<open>Allocate\<close> and \<open>Deallocate\<close> call each other for batches, down to the given depth.\<close>

fun Allocate32 :: "nat \<Rightarrow> ct_globals \<Rightarrow> ('m, 'l, 'y) p32_env_scheme \<Rightarrow> uptr \<Rightarrow> ('m, 'l, 'z) p32_state_scheme \<Rightarrow>
      (uptr \<times> ('m, 'l, 'z) p32_state_scheme) res"
  and Deallocate32 :: "nat \<Rightarrow> ct_globals \<Rightarrow> ('m, 'l, 'y) p32_env_scheme \<Rightarrow> uptr \<Rightarrow> uptr \<Rightarrow> ('m, 'l, 'z) p32_state_scheme \<Rightarrow>
      ('m, 'l, 'z) p32_state_scheme res" where
  "Allocate32 0 G E class_id s = Inl Out_of_fuel"
| "Allocate32 (Suc d) G E class_id s =
     andThen (check (class_id \<noteq> 0)) (\<lambda>_.
     andThen (check (class_id < NumClasses32 E)) (\<lambda>_.
     andThen (if pc32_count (local32 s class_id) = 0
              then Refill32 G E (Allocate32 d G E) (Deallocate32 d G E) class_id s else Inr (True, s)) (\<lambda>(ok, s).
     if \<not> ok then Inr (0, s)
     else
       let c = local32 s class_id;
           n = pc32_count c - 1
       in Inr (pc32_batch c (unat n),
               note32 (Stat_add AllocatorStatAllocated (pc32_class_size c))
                 (set_class32 class_id (pc32_count_update (\<lambda>_. n)) s)))))"
| "Deallocate32 0 G E class_id p s = Inl Out_of_fuel"
| "Deallocate32 (Suc d) G E class_id p s =
     andThen (check (class_id \<noteq> 0)) (\<lambda>_.
     andThen (check (class_id < NumClasses32 E)) (\<lambda>_.
     let s = InitCache32 E class_id s in
     andThen (if pc32_count (local32 s class_id) = pc32_max_count (local32 s class_id)
              then Drain32 E (Allocate32 d G E) class_id s else Inr s) (\<lambda>s.
     let c = local32 s class_id;
         n = pc32_count c
     in Inr (note32 (Stat_sub AllocatorStatAllocated (pc32_class_size c))
          (set_class32 class_id (\<lambda>c. c\<lparr>pc32_batch := (pc32_batch c)(unat n := p), pc32_count := n + 1\<rparr>) s)))))"

text \<open>\<open>Drain\<close> of every class; the loop of a class has fuel.\<close>

fun drain_class32 :: "nat \<Rightarrow> nat \<Rightarrow> ct_globals \<Rightarrow> ('m, 'l, 'y) p32_env_scheme \<Rightarrow> uptr \<Rightarrow> ('m, 'l, 'z) p32_state_scheme \<Rightarrow>
    ('m, 'l, 'z) p32_state_scheme res" where
  "drain_class32 0 d G E class_id s = (if 0 < pc32_count (local32 s class_id) then Inl Out_of_fuel else Inr s)"
| "drain_class32 (Suc n) d G E class_id s =
     (if 0 < pc32_count (local32 s class_id)
      then andThen (Drain32 E (Allocate32 d G E) class_id s) (drain_class32 n d G E class_id) else Inr s)"

fun drain_classes32 :: "nat \<Rightarrow> nat \<Rightarrow> ct_globals \<Rightarrow> ('m, 'l, 'y) p32_env_scheme \<Rightarrow> uptr \<Rightarrow> ('m, 'l, 'z) p32_state_scheme \<Rightarrow>
    ('m, 'l, 'z) p32_state_scheme res" where
  "drain_classes32 0 d G E class_id s = Inr s"
| "drain_classes32 (Suc n) d G E class_id s =
     andThen (drain_class32 (loop_fuel G) d G E class_id s) (drain_classes32 n d G E (class_id + 1))"

definition DrainAll32 :: "nat \<Rightarrow> ct_globals \<Rightarrow> ('m, 'l, 'y) p32_env_scheme \<Rightarrow> ('m, 'l, 'z) p32_state_scheme \<Rightarrow>
    ('m, 'l, 'z) p32_state_scheme res" where
  "DrainAll32 d G E s = drain_classes32 (unat (NumClasses32 E) - 1) d G E 1 s"


end
