(* ===== verification/Primary32_Inv.thy ===== *)
theory Primary32_Inv
  imports Primary32 Primary64
begin

text \<open>
  Conservation of chunks in the 32-bit allocator, for a class whose batches are stored in chunks of
  their own: a batch is written into one of the free chunks it lists, so the record of one batch never
  lands on a chunk in use or on another batch, and no chunk is in two places.
\<close>

section \<open>Regions and chunks\<close>

definition chunks_per_region :: "('m, 'l, 'y) p32_env_scheme \<Rightarrow> uptr \<Rightarrow> nat" where
  "chunks_per_region E k = unat (kRegionSize32 E div (ClassIdToSize32 E k + kMetadataSize32 E))"

abbreviation max_cached32 :: "('m, 'l, 'y) p32_env_scheme \<Rightarrow> uptr \<Rightarrow> uptr" where
  "max_cached32 E k \<equiv> MaxCached E (ClassIdToSize32 E k)"

definition class32_ok :: "('m, 'l, 'y) p32_env_scheme \<Rightarrow> uptr \<Rightarrow> bool" where
  "class32_ok E k \<longleftrightarrow> 0 < chunks_per_region E k \<and> 1 \<le> k \<and> k < NumClasses32 E \<and> NumClasses32 E \<le> 256 \<and> kRegionSizeLog32 E < 32 \<and>
     0 < ClassIdToSize32 E k \<and> ClassIdToSize32 E k < 2 ^ 32 \<and> kMetadataSize32 E < 2 ^ 32 \<and>
     2 < kMaxNumCachedHint (SizeClassMap32 E) \<and> kMaxNumCachedHint (SizeClassMap32 E) < 2 ^ 30 \<and>
     (if kUseSeparateSizeClassForBatch E then k = kBatchClassID (SizeClassMap32 E)
      else AllocationSizeRequiredForNElements (MaxCached E (ClassIdToSize32 E k)) \<le> ClassIdToSize32 E k)"

text \<open>The chunks of the class in the region at \<open>r\<close>.\<close>

definition region_chunks :: "('m, 'l, 'y) p32_env_scheme \<Rightarrow> uptr \<Rightarrow> uptr \<Rightarrow> uptr list" where
  "region_chunks E k r = map (\<lambda>j. r + of_nat j * ClassIdToSize32 E k) [0..<chunks_per_region E k]"

definition chunk_in_class :: "('m, 'l, 'y) p32_env_scheme \<Rightarrow> uptr \<Rightarrow> ('m, 'l, 'z) p32_state_scheme \<Rightarrow> uptr \<Rightarrow> bool" where
  "chunk_in_class E k s x \<longleftrightarrow> GetSizeClass32 E x s = Inr k \<and> x \<in> set (region_chunks E k (ComputeRegionBeg E x)) \<and> x \<noteq> 0"

lemma region_size: "kRegionSize32 E = 2 ^ kRegionSizeLog32 E"
  by (simp add: kRegionSize32_def push_bit_eq_mult)

lemma chunk_offset:
  assumes P: "class32_ok E k" and j: "j < chunks_per_region E k" and d: "d < unat (ClassIdToSize32 E k)"
  shows "j * unat (ClassIdToSize32 E k) + d < 2 ^ kRegionSizeLog32 E"
    and "unat (of_nat j :: uptr) = j" and "unat (of_nat j * ClassIdToSize32 E k :: uptr) = j * unat (ClassIdToSize32 E k)"
proof -
  let ?sz = "ClassIdToSize32 E k" and ?g = "kRegionSizeLog32 E"
  have g: "?g < 32" using P by (simp add: class32_ok_def)
  then have rs: "unat (kRegionSize32 E) = 2 ^ ?g" by (simp add: region_size unat_pow2)
  have sz: "unat ?sz < 2 ^ 32" "unat (kMetadataSize32 E) < 2 ^ 32" "0 < unat ?sz"
    using P by (simp_all add: class32_ok_def word_less_nat_alt)
  then have sum: "unat (?sz + kMetadataSize32 E) = unat ?sz + unat (kMetadataSize32 E)" by (intro unat_add_small) simp
  have "j < 2 ^ ?g div (unat ?sz + unat (kMetadataSize32 E))"
    using j by (simp add: chunks_per_region_def unat_div rs sum)
  then have "(j + 1) * (unat ?sz + unat (kMetadataSize32 E)) \<le> 2 ^ ?g"
    by (metis Suc_eq_plus1 Suc_leI div_times_less_eq_dividend le_trans mult_le_mono1)
  moreover have "(j + 1) * unat ?sz \<le> (j + 1) * (unat ?sz + unat (kMetadataSize32 E))" by (rule mult_le_mono2) simp
  ultimately have le: "(j + 1) * unat ?sz \<le> 2 ^ ?g" by linarith
  then show a: "j * unat ?sz + d < 2 ^ ?g" using d by simp
  have "j * 1 \<le> j * unat ?sz" using sz(3) by (intro mult_le_mono2) simp
  then have "j < 2 ^ ?g" using a by linarith
  moreover have p: "(2 :: nat) ^ ?g < 2 ^ 32" using g by (intro power_strict_increasing) simp_all
  ultimately show u: "unat (of_nat j :: uptr) = j" by (intro unat_of_nat_small) simp
  show "unat (of_nat j * ?sz :: uptr) = j * unat ?sz" using a p by (subst unat_mult_small) (simp_all add: u)
qed

text \<open>An address inside a region, taken apart.\<close>

lemma in_region:
  assumes g: "kRegionSizeLog32 E < 32" and r: "aligned r (kRegionSize32 E)" and off: "off < 2 ^ kRegionSizeLog32 E"
  shows "unat (r + of_nat off) = unat r + off" and "ComputeRegionBeg E (r + of_nat off) = r"
    and "drop_bit (kRegionSizeLog32 E) (r + of_nat off) = drop_bit (kRegionSizeLog32 E) r"
proof -
  let ?g = "kRegionSizeLog32 E"
  obtain m where m: "unat r = 2 ^ ?g * m" using r by (auto simp: region_size aligned_iff_dvd elim: dvdE)
  have p: "(2 :: nat) ^ ?g < 2 ^ 32" using g by (intro power_strict_increasing) simp_all
  have uo: "unat (of_nat off :: uptr) = off" using off p by (intro unat_of_nat_small) simp
  have "(2 :: nat) ^ 64 = 2 ^ ?g * 2 ^ (64 - ?g)" using g by (simp flip: power_add)
  moreover have "2 ^ ?g * m < 2 ^ 64" using unsigned_less [of r, where ?'a = nat] by (simp add: m)
  ultimately have "2 ^ ?g * m < 2 ^ ?g * 2 ^ (64 - ?g)" by presburger
  then have "m < 2 ^ (64 - ?g)" by (simp only: mult_less_cancel1)
  then have "2 ^ ?g * (m + 1) \<le> 2 ^ ?g * 2 ^ (64 - ?g)" by (intro mult_le_mono2) simp
  then have "unat r + off < 2 ^ 64" using off \<open>(2 :: nat) ^ 64 = _\<close> by (simp add: m)
  then show u: "unat (r + of_nat off) = unat r + off" by (subst unat_add_small) (simp_all add: uo)
  have "unat (r + of_nat off) div 2 ^ ?g = m" using off by (simp add: u m)
  then have "unat (ComputeRegionBeg E (r + of_nat off)) = unat r" and "unat (drop_bit ?g (r + of_nat off)) = unat (drop_bit ?g r)"
    by (simp_all add: ComputeRegionBeg_def region_size unat_and_high unat_drop_bit m)
  then show "ComputeRegionBeg E (r + of_nat off) = r" and "drop_bit ?g (r + of_nat off) = drop_bit ?g r"
    by (simp_all only: word_unat_eq_iff)
qed

lemma region_chunk:
  assumes P: "class32_ok E k" and r: "aligned r (kRegionSize32 E)" and x: "x \<in> set (region_chunks E k r)"
  shows "ComputeRegionBeg E x = r" and "drop_bit (kRegionSizeLog32 E) x = drop_bit (kRegionSizeLog32 E) r" and "r \<noteq> 0 \<Longrightarrow> x \<noteq> 0"
proof -
  obtain j where j: "j < chunks_per_region E k" "x = r + of_nat j * ClassIdToSize32 E k"
    using x by (auto simp: region_chunks_def)
  have d: "0 < unat (ClassIdToSize32 E k)" using P by (simp add: class32_ok_def word_less_nat_alt)
  note o = chunk_offset [OF P j(1) d]
  have x': "x = r + of_nat (j * unat (ClassIdToSize32 E k))" by (simp add: j(2))
  have g: "kRegionSizeLog32 E < 32" using P by (simp add: class32_ok_def)
  note R = in_region [OF g r, of "j * unat (ClassIdToSize32 E k)"]
  show c: "ComputeRegionBeg E x = r" and "drop_bit (kRegionSizeLog32 E) x = drop_bit (kRegionSizeLog32 E) r"
    using R o(1) by (simp_all only: x' add_0_right)
  show "x \<noteq> 0" if "r \<noteq> 0" using c that by (auto simp: ComputeRegionBeg_def)
qed

lemma distinct_region_chunks:
  assumes P: "class32_ok E k" and r: "aligned r (kRegionSize32 E)"
  shows "distinct (region_chunks E k r)"
  unfolding region_chunks_def
proof (subst distinct_map, intro conjI inj_onI)
  fix i j assume ij: "i \<in> set [0..<chunks_per_region E k]" "j \<in> set [0..<chunks_per_region E k]"
    "r + of_nat i * ClassIdToSize32 E k = r + of_nat j * ClassIdToSize32 E k"
  have d: "0 < unat (ClassIdToSize32 E k)" using P by (simp add: class32_ok_def word_less_nat_alt)
  have "unat (of_nat i * ClassIdToSize32 E k) = unat (of_nat j * ClassIdToSize32 E k)" using ij(3) by simp
  then show "i = j" using chunk_offset(3) [OF P _ d] ij(1,2) d by simp
qed simp

section \<open>The lists of a class\<close>

definition free32 :: "('l \<Rightarrow> uptr list) \<Rightarrow> uptr \<Rightarrow> ('m, 'l, 'z) p32_state_scheme \<Rightarrow> uptr list" where
  "free32 elems k s = concat (map (\<lambda>b. batch_elems (batches32 s b)) (elems (free_list32 s k)))"

definition cached32 :: "uptr \<Rightarrow> ('m, 'l, 'z) p32_state_scheme \<Rightarrow> uptr list" where
  "cached32 k s = map (pc32_batch (local32 s k)) [0..<unat (pc32_count (local32 s k))]"

text \<open>A batch that is stored in one of the chunks it lists.\<close>

definition batch_valid :: "uptr \<Rightarrow> ('m, 'l, 'z) p32_state_scheme \<Rightarrow> uptr \<Rightarrow> bool" where
  "batch_valid max_count s b \<longleftrightarrow> b \<noteq> 0 \<and> b \<in> set (batch_elems (batches32 s b)) \<and> tb_count (batches32 s b) \<le> max_count"

definition batches_valid :: "uptr \<Rightarrow> ('l \<Rightarrow> uptr list) \<Rightarrow> uptr \<Rightarrow> ('m, 'l, 'z) p32_state_scheme \<Rightarrow> bool" where
  "batches_valid max_count elems k s \<longleftrightarrow> (\<forall>b \<in> set (elems (free_list32 s k)). batch_valid max_count s b)"

text \<open>The batch under construction, 0 when there is none.\<close>

definition begun :: "uptr \<Rightarrow> ('m, 'l, 'z) p32_state_scheme \<Rightarrow> uptr list" where
  "begun b s = (if b = 0 then [] else batch_elems (batches32 s b))"

lemma set_batch_simps [simp]:
  "batches32 (set_batch b f s) = (batches32 s)(b := f (batches32 s b))"
  "free_list32 (set_batch b f s) = free_list32 s" "local32 (set_batch b f s) = local32 s"
  "possible_regions (set_batch b f s) = possible_regions s" "rand_state32 (set_batch b f s) = rand_state32 s"
  by (simp_all add: set_batch_def)

lemma set_free32_simps [simp]:
  "batches32 (set_free32 k f s) = batches32 s" "free_list32 (set_free32 k f s) = (free_list32 s)(k := f (free_list32 s k))"
  "local32 (set_free32 k f s) = local32 s" "possible_regions (set_free32 k f s) = possible_regions s"
  by (simp_all add: set_free32_def)

lemma set_class32_simps [simp]:
  "batches32 (set_class32 k f s) = batches32 s" "free_list32 (set_class32 k f s) = free_list32 s"
  "local32 (set_class32 k f s) = (local32 s)(k := f (local32 s k))"
  "possible_regions (set_class32 k f s) = possible_regions s"
  by (simp_all add: set_class32_def)

lemma note32_simps [simp]:
  "batches32 (note32 e s) = batches32 s" "free_list32 (note32 e s) = free_list32 s" "local32 (note32 e s) = local32 s"
  "possible_regions (note32 e s) = possible_regions s"
  by (simp_all add: note32_def)

lemma free32_member:
  "batches_valid max_count elems k s \<Longrightarrow> b \<in> set (elems (free_list32 s k)) \<Longrightarrow> b \<in> set (free32 elems k s)"
  by (force simp: batches_valid_def batch_valid_def free32_def)

lemma free32_cong:
  assumes "free_list32 s' k = free_list32 s k" and "\<forall>b \<in> set (elems (free_list32 s k)). batches32 s' b = batches32 s b"
  shows "free32 elems k s' = free32 elems k s" and "batches_valid max_count elems k s' = batches_valid max_count elems k s"
  using assms by (simp_all add: free32_def batches_valid_def batch_valid_def cong: map_cong)

lemma batch_elems_add:
  assumes "unat (tb_count t) < 2 ^ 40"
  shows "batch_elems (t\<lparr>tb_batch := (tb_batch t)(unat (tb_count t) := p), tb_count := tb_count t + 1\<rparr>) = batch_elems t @ [p]"
proof -
  have "unat (tb_count t + 1) = unat (tb_count t) + 1" using assms by (subst unat_add_small) simp_all
  then show ?thesis by (simp add: batch_elems_def)
qed

lemma batch_count_length: "unat (tb_count t) = length (batch_elems t)"
  by (simp add: batch_elems_def)

text \<open>A full batch goes to the end of the list, or any batch to its front.\<close>

lemma push_back_batch:
  assumes "list_ok E elems"
  shows "free32 elems k (set_free32 k (il_push_back E b) s) = free32 elems k s @ batch_elems (batches32 s b)"
    and "batches_valid max_count elems k (set_free32 k (il_push_back E b) s) \<longleftrightarrow> batches_valid max_count elems k s \<and> batch_valid max_count s b"
  using assms by (auto simp: free32_def list_ok_def batches_valid_def batch_valid_def)

lemma push_front_batch:
  assumes "list_ok E elems"
  shows "free32 elems k (set_free32 k (il_push_front E b) s) = batch_elems (batches32 s b) @ free32 elems k s"
    and "batches_valid max_count elems k (set_free32 k (il_push_front E b) s) \<longleftrightarrow> batches_valid max_count elems k s \<and> batch_valid max_count s b"
  using assms by (auto simp: free32_def list_ok_def batches_valid_def batch_valid_def)

section \<open>Filling the free list\<close>

text \<open>Nothing but the batches, the free list of the class and its random state changes.\<close>

definition fills :: "uptr \<Rightarrow> ('m, 'l, 'z) p32_state_scheme \<Rightarrow> ('m, 'l, 'z) p32_state_scheme \<Rightarrow> bool" where
  "fills k s s' \<longleftrightarrow> local32 s' = local32 s \<and> possible_regions s' = possible_regions s"

lemma fills_trans: "fills k s s' \<Longrightarrow> fills k s' s'' \<Longrightarrow> fills k s s''"
  by (simp add: fills_def)

definition begun_ok :: "uptr \<Rightarrow> uptr \<Rightarrow> ('m, 'l, 'z) p32_state_scheme \<Rightarrow> bool" where
  "begun_ok max_count b s \<longleftrightarrow> b = 0 \<or> batch_valid max_count s b \<and> tb_count (batches32 s b) < max_count"

lemma add_one_chunk:
  assumes lo: "list_ok E elems" and mc: "0 < max_count" "max_count \<le> kMaxNumCached E" "kMaxNumCached E < 2 ^ 30"
    and own: "create k p s = Inr (p, s)" and p: "p \<noteq> 0"
    and v: "batches_valid max_count elems k s" "begun_ok max_count b s"
    and dist: "distinct (free32 elems k s @ begun b s @ p # ps)"
  shows "\<exists>b' s'. add_chunks E create k max_count (p # ps) b s = add_chunks E create k max_count ps b' s' \<and>
    batches_valid max_count elems k s' \<and> begun_ok max_count b' s' \<and>
    mset (free32 elems k s' @ begun b' s') = mset (free32 elems k s @ begun b s) + {#p#} \<and> fills k s s'"
proof -
  define c where "c = (if b = 0 then p else b)"
  define s1 where "s1 = (if b = 0 then batch_Clear p s else s)"
  have c: "c \<noteq> 0" using p by (simp add: c_def)
  have other: "c \<notin> set (elems (free_list32 s k))"
  proof
    assume "c \<in> set (elems (free_list32 s k))"
    then have "c \<in> set (free32 elems k s)" by (rule free32_member [OF v(1)])
    moreover have "c \<in> set (begun b s @ [p])" using v(2) by (auto simp: c_def begun_def begun_ok_def batch_valid_def)
    ultimately show False using dist by auto
  qed
  have e1: "batch_elems (batches32 s1 c) = begun b s"
    by (simp add: s1_def c_def begun_def batch_Clear_def batch_elems_def)
  have n: "tb_count (batches32 s1 c) < max_count"
    using v(2) mc(1) by (auto simp: s1_def c_def begun_ok_def batch_Clear_def)
  then have nk: "\<not> kMaxNumCached E \<le> tb_count (batches32 s1 c)" using mc(2) by simp
  have n40: "unat (tb_count (batches32 s1 c)) < 2 ^ 40"
    using n mc by (simp add: word_less_nat_alt word_le_nat_alt)
  define s2 where "s2 = set_batch c (\<lambda>t. t\<lparr>tb_batch := (tb_batch t)(unat (tb_count (batches32 s1 c)) := p),
      tb_count := tb_count (batches32 s1 c) + 1\<rparr>) s1"
  have e2: "batch_elems (batches32 s2 c) = begun b s @ [p]"
    using batch_elems_add [OF n40, of p] e1 by (simp add: s2_def)
  have same: "batches32 s2 x = batches32 s x" if "x \<noteq> c" for x
    using that by (auto simp: s2_def s1_def c_def batch_Clear_def split: if_splits)
  have fl: "free_list32 s2 = free_list32 s" and f2: "fills k s s2"
    by (simp_all add: s2_def s1_def batch_Clear_def fills_def)
  have keep: "\<forall>x \<in> set (elems (free_list32 s k)). batches32 s2 x = batches32 s x"
    using other by (intro ballI same) auto
  note F = free32_cong(1) [where elems = elems, OF arg_cong [OF fl, of "\<lambda>f. f k"] keep]
    free32_cong(2) [where elems = elems and max_count = max_count, OF arg_cong [OF fl, of "\<lambda>f. f k"] keep]
  have cnt: "unat (tb_count (batches32 s2 c)) = unat (tb_count (batches32 s1 c)) + 1"
    using n40 by (simp add: s2_def) (subst unat_add_small, simp_all)
  have "c \<in> set (begun b s @ [p])" using v(2) by (auto simp: c_def begun_def begun_ok_def batch_valid_def)
  then have v2: "batch_valid max_count s2 c"
    using c n cnt by (simp add: batch_valid_def e2 word_le_nat_alt word_less_nat_alt)
  have step: "add_chunks E create k max_count (p # ps) b s =
      (if tb_count (batches32 s2 c) = max_count then add_chunks E create k max_count ps 0 (set_free32 k (il_push_back E c) s2)
       else add_chunks E create k max_count ps c s2)"
  proof -
    have "(if b = 0 then andThen (create k p s) (\<lambda>(b, s). Inr (b, if b = 0 then s else batch_Clear b s)) else Inr (b, s)) = Inr (c, s1)"
      using own p by (simp add: c_def s1_def)
    moreover have "batch_Add E c p s1 = Inr s2" using nk by (simp add: batch_Add_def s2_def Let_def)
    ultimately show ?thesis using c by simp
  qed
  show ?thesis
  proof (cases "tb_count (batches32 s2 c) = max_count")
    case True
    have "batches_valid max_count elems k (set_free32 k (il_push_back E c) s2)"
      using v(1) v2 F(2) push_back_batch(2) [where k = k and b = c and s = s2, OF lo] by blast
    moreover have "free32 elems k (set_free32 k (il_push_back E c) s2) = free32 elems k s @ begun b s @ [p]"
      using push_back_batch(1) [where k = k and b = c and s = s2, OF lo] by (simp add: F(1) e2)
    moreover have "fills k s (set_free32 k (il_push_back E c) s2)" using f2 by (simp add: fills_def)
    ultimately show ?thesis
      using step True by (intro exI [of _ 0] exI [of _ "set_free32 k (il_push_back E c) s2"])
        (simp add: begun_ok_def begun_def)
  next
    case False
    have "tb_count (batches32 s2 c) < max_count"
      using False n cnt unfolding word_less_nat_alt by (metis Suc_eq_plus1 Suc_lessI word_unat_eq_iff)
    then show ?thesis
      using step False v(1) v2 F f2 c e2
      by (intro exI [of _ c] exI [of _ s2]) (simp add: begun_ok_def begun_def [of c])
  qed
qed

lemma add_chunks_own:
  assumes lo: "list_ok E elems" and mc: "0 < max_count" "max_count \<le> kMaxNumCached E" "kMaxNumCached E < 2 ^ 30"
    and own: "\<And>p t. local32 t = local32 s \<Longrightarrow> create k p t = Inr (p, t)"
    and nz: "0 \<notin> set ps" and v: "batches_valid max_count elems k s" "begun_ok max_count b s"
    and dist: "distinct (free32 elems k s @ begun b s @ ps)"
  shows "\<exists>b' s'. add_chunks E create k max_count ps b s = Inr (Some b', s') \<and>
    batches_valid max_count elems k s' \<and> begun_ok max_count b' s' \<and>
    mset (free32 elems k s' @ begun b' s') = mset (free32 elems k s @ begun b s) + mset ps \<and> fills k s s'"
  using own nz v dist
proof (induction ps arbitrary: b s)
  case Nil
  then show ?case by (simp add: fills_def)
next
  case (Cons p ps)
  have p: "p \<noteq> 0" "0 \<notin> set ps" using Cons.prems(2) by auto
  obtain b1 s1 where s1: "add_chunks E create k max_count (p # ps) b s = add_chunks E create k max_count ps b1 s1"
      "batches_valid max_count elems k s1" "begun_ok max_count b1 s1"
      "mset (free32 elems k s1 @ begun b1 s1) = mset (free32 elems k s @ begun b s) + {#p#}" "fills k s s1"
    using add_one_chunk [where create = create, OF lo mc Cons.prems(1) [OF refl, of p] p(1) Cons.prems(3-5)] by blast
  have own1: "\<And>q t. local32 t = local32 s1 \<Longrightarrow> create k q t = Inr (q, t)" using Cons.prems(1) s1(5) by (simp add: fills_def)
  have "mset (free32 elems k s1 @ begun b1 s1 @ ps) = mset (free32 elems k s @ begun b s @ p # ps)"
    using s1(4) by (simp add: ac_simps)
  then have d1: "distinct (free32 elems k s1 @ begun b1 s1 @ ps)" using Cons.prems(5) by (metis mset_eq_imp_distinct_iff)
  obtain b2 s2 where "add_chunks E create k max_count ps b1 s1 = Inr (Some b2, s2)"
      "batches_valid max_count elems k s2" "begun_ok max_count b2 s2"
      "mset (free32 elems k s2 @ begun b2 s2) = mset (free32 elems k s1 @ begun b1 s1) + mset ps" "fills k s1 s2"
    using Cons.IH [OF own1 p(2) s1(2,3) d1] by blast
  then show ?case using s1 fills_trans by (intro exI [of _ b2] exI [of _ s2]) auto
qed


lemma PopulateBatches_own:
  assumes lo: "list_ok E elems" and mc: "0 < max_count" "max_count \<le> kMaxNumCached E" "kMaxNumCached E < 2 ^ 30"
    and own: "\<And>p t. local32 t = local32 s \<Longrightarrow> create k p t = Inr (p, t)"
    and nz: "0 \<notin> set ps" "length ps < 2 ^ 32" and v: "batches_valid max_count elems k s" "begun_ok max_count b s"
    and dist: "distinct (free32 elems k s @ begun b s @ ps)"
  shows "\<exists>b' s'. PopulateBatches E create k max_count ps b s = Inr (Some b', s') \<and>
    batches_valid max_count elems k s' \<and> begun_ok max_count b' s' \<and>
    mset (free32 elems k s' @ begun b' s') = mset (free32 elems k s @ begun b s) + mset ps \<and> fills k s s'"
proof -
  define a where "a = fst (RandomShuffle ps (rand_state32 s k))"
  define s1 where "s1 = s\<lparr>rand_state32 := (rand_state32 s)(k := snd (RandomShuffle ps (rand_state32 s k)))\<rparr>"
  have a: "mset a = mset ps" unfolding a_def using nz(2) by (rule RandomShuffle_perm)
  have "\<exists>b' s'. add_chunks E create k max_count xs b t = Inr (Some b', s') \<and>
    batches_valid max_count elems k s' \<and> begun_ok max_count b' s' \<and>
    mset (free32 elems k s' @ begun b' s') = mset (free32 elems k s @ begun b s) + mset ps \<and> fills k s s'"
    if xs: "mset xs = mset ps" and t: "free_list32 t = free_list32 s" "batches32 t = batches32 s" "fills k s t" for xs t
  proof -
    have same: "free32 elems k t = free32 elems k s" "begun b t = begun b s" "batches_valid max_count elems k t" "begun_ok max_count b t"
      using v t by (simp_all add: free32_def begun_def batches_valid_def batch_valid_def begun_ok_def)
    have "0 \<notin> set xs" using nz(1) mset_eq_setD [OF xs] by simp
    moreover have "distinct (free32 elems k t @ begun b t @ xs)"
      using dist xs unfolding same by (metis mset_append mset_eq_imp_distinct_iff)
    moreover have "\<And>p u. local32 u = local32 t \<Longrightarrow> create k p u = Inr (p, u)" using own t(3) by (simp add: fills_def)
    ultimately obtain b' s' where "add_chunks E create k max_count xs b t = Inr (Some b', s')"
      "batches_valid max_count elems k s'" "begun_ok max_count b' s'"
      "mset (free32 elems k s' @ begun b' s') = mset (free32 elems k t @ begun b t) + mset xs" "fills k t s'"
      using add_chunks_own [OF lo mc, of t create k xs b] same(3,4) by blast
    then show ?thesis using fills_trans [OF t(3)] by (intro exI [of _ b'] exI [of _ s']) (simp add: same(1,2) xs)
  qed
  note run = this
  show ?thesis
    using run [of a s1] run [of ps s] a
    by (simp add: PopulateBatches_def Let_def split_beta a_def [symmetric] s1_def [symmetric]) (simp add: s1_def fills_def)
qed

lemma populate_region_own:
  assumes lo: "list_ok E elems" and mc: "0 < max_count" "max_count \<le> kMaxNumCached E" "kMaxNumCached E < 2 ^ 30"
    and own: "\<And>p t. local32 t = local32 s \<Longrightarrow> create k p t = Inr (p, t)"
    and nz: "0 \<notin> set (acc @ map (\<lambda>j. i + of_nat j * sz) [0..<n])" and acc: "length acc < kShuffleArraySize"
    and v: "batches_valid max_count elems k s" "begun_ok max_count b s"
    and dist: "distinct (free32 elems k s @ begun b s @ acc @ map (\<lambda>j. i + of_nat j * sz) [0..<n])"
  shows "\<exists>b' s'. populate_region E create k max_count sz n i acc b s = Inr (Some b', s') \<and>
    batches_valid max_count elems k s' \<and> begun_ok max_count b' s' \<and>
    mset (free32 elems k s' @ begun b' s') =
      mset (free32 elems k s @ begun b s) + mset (acc @ map (\<lambda>j. i + of_nat j * sz) [0..<n]) \<and> fills k s s'"
  using own nz acc v dist
proof (induction n arbitrary: i acc b s)
  case 0
  have "length acc < 2 ^ 32" using "0.prems"(3) by (simp add: kShuffleArraySize_def)
  then show ?case
    using PopulateBatches_own [where create = create and k = k and s = s and ps = acc and b = b, OF lo mc "0.prems"(1)] "0.prems" by (simp add: fills_def)
next
  case (Suc n)
  let ?acc = "acc @ [i]" and ?rest = "map (\<lambda>j. (i + sz) + of_nat j * sz) [0..<n]"
  have shift: "acc @ map (\<lambda>j. i + of_nat j * sz) [0..<Suc n] = ?acc @ ?rest"
    by (simp only: upt_conv_Cons [OF zero_less_Suc] map_Suc_upt [symmetric] list.map map_map)
      (simp add: comp_def algebra_simps)
  note P = Suc.prems [unfolded shift]
  show ?case
  proof (cases "length ?acc = kShuffleArraySize")
    case True
    have "0 \<notin> set ?acc" "length ?acc < 2 ^ 32" "distinct (free32 elems k s @ begun b s @ ?acc)"
      using P(2,6) True by (auto simp: kShuffleArraySize_def)
    then obtain b1 s1 where s1: "PopulateBatches E create k max_count ?acc b s = Inr (Some b1, s1)"
      "batches_valid max_count elems k s1" "begun_ok max_count b1 s1"
      "mset (free32 elems k s1 @ begun b1 s1) = mset (free32 elems k s @ begun b s) + mset ?acc" "fills k s s1"
      using PopulateBatches_own [where create = create and k = k and s = s and ps = ?acc and b = b, OF lo mc P(1)] P(4,5) by blast
    have own1: "\<And>q t. local32 t = local32 s1 \<Longrightarrow> create k q t = Inr (q, t)" using P(1) s1(5) by (simp add: fills_def)
    have "mset (free32 elems k s1 @ begun b1 s1 @ [] @ ?rest) = mset (free32 elems k s @ begun b s @ ?acc @ ?rest)"
      using s1(4) by (simp add: ac_simps)
    then have d1: "distinct (free32 elems k s1 @ begun b1 s1 @ [] @ ?rest)"
      using P(6) by (metis append_assoc mset_eq_imp_distinct_iff)
    have e: "0 \<notin> set ([] @ ?rest)" "length ([] :: uptr list) < kShuffleArraySize" using P(2) by (simp_all add: kShuffleArraySize_def)
    obtain b2 s2 where "populate_region E create k max_count sz n (i + sz) [] b1 s1 = Inr (Some b2, s2)"
      "batches_valid max_count elems k s2" "begun_ok max_count b2 s2"
      "mset (free32 elems k s2 @ begun b2 s2) = mset (free32 elems k s1 @ begun b1 s1) + mset ([] @ ?rest)" "fills k s1 s2"
      using Suc.IH [OF own1 e s1(2,3) d1] by blast
    then show ?thesis
      unfolding shift using s1 True fills_trans by (intro exI [of _ b2] exI [of _ s2]) (auto simp: Let_def)
  next
    case False
    then have "length ?acc < kShuffleArraySize" using P(3) by simp
    moreover have "0 \<notin> set (?acc @ ?rest)" "distinct (free32 elems k s @ begun b s @ ?acc @ ?rest)" using P(2,6) by simp_all
    ultimately show ?thesis
      using Suc.IH [where acc = ?acc and i = "i + sz" and b = b, OF P(1)] P(4,5) False unfolding shift by (simp add: Let_def)
  qed
qed


section \<open>A new region\<close>

lemma MmapOnFatal_more: "MmapOrDieOnFatalError G sz s = Inr (r, s') \<Longrightarrow> machine.more s' = machine.more s"
  by (auto simp: MmapOrDieOnFatalError_def internal_mmap_def syscall_def IncreaseTotalMmap_def zero_range_def Let_def
      andThen_eq_Inr split: if_splits)

lemma UnmapOrDie_more: "UnmapOrDie G a sz s = Inr s' \<Longrightarrow> machine.more s' = machine.more s"
  by (auto simp: UnmapOrDie_def internal_munmap_def syscall_def DecreaseTotalMmap_def Let_def split: if_splits)

lemma MmapAligned_more:
  assumes "MmapAlignedOrDieOnFatalError G sz al s = Inr (r, s')"
  shows "machine.more s' = machine.more s"
proof -
  obtain z m s1 where m: "MmapOrDieOnFatalError G z s = Inr (m, s1)"
    and rest: "s' = s1 \<or> (\<exists>a n s2. (UnmapOrDie G a n s1 = Inr s2 \<or> s2 = s1) \<and> (s' = s2 \<or> (\<exists>b k. UnmapOrDie G b k s2 = Inr s')))"
    using assms unfolding MmapAlignedOrDieOnFatalError_def Let_def
    by (clarsimp simp: andThen_eq_Inr split: if_splits) metis+
  then show ?thesis using MmapOnFatal_more UnmapOrDie_more by metis
qed

lemma machine_more_p32:
  fixes s :: "('m, 'l, 'z) p32_state_scheme"
  assumes "machine.more s' = machine.more s"
  shows "possible_regions s' = possible_regions s" "free_list32 s' = free_list32 s" "batches32 s' = batches32 s"
    "local32 s' = local32 s" "rand_state32 s' = rand_state32 s"
  using assms by (cases s; cases s'; simp)+

lemma AllocateRegion_result:
  assumes "AllocateRegion G E k s = Inr (r, s')"
  shows "free_list32 s' = free_list32 s" and "batches32 s' = batches32 s" and "local32 s' = local32 s"
    and "r = 0 \<Longrightarrow> possible_regions s' = possible_regions s"
    and "r \<noteq> 0 \<Longrightarrow> aligned r (kRegionSize32 E) \<and> drop_bit (kRegionSizeLog32 E) r < kNumPossibleRegions E \<and>
      possible_regions s' = bm_set E (drop_bit (kRegionSizeLog32 E) r) (ucast k) (possible_regions s)"
proof -
  obtain s1 where m: "MmapAlignedOrDieOnFatalError G (kRegionSize32 E) (kRegionSize32 E) s = Inr (r, s1)"
    and s': "s' = s1 \<or> (\<exists>e pr. s' = (note32 (fst e) (note32 (snd e) s1))\<lparr>possible_regions := pr\<rparr>)"
    and z: "r = 0 \<longrightarrow> s' = s1"
    and nz: "r \<noteq> 0 \<longrightarrow> aligned r (kRegionSize32 E) \<and> drop_bit (kRegionSizeLog32 E) r < kNumPossibleRegions E \<and>
      possible_regions s' = bm_set E (drop_bit (kRegionSizeLog32 E) r) (ucast k) (possible_regions s1)"
    using assms
    by (auto simp: AllocateRegion_def ComputeRegionId_def IsAligned_def Let_def andThen_eq_Inr andThen_check split: if_splits)
      (metis fst_conv snd_conv)+
  note more = machine_more_p32 [OF MmapAligned_more [OF m]]
  show "free_list32 s' = free_list32 s" "batches32 s' = batches32 s" "local32 s' = local32 s" using s' more by auto
  show "r = 0 \<Longrightarrow> possible_regions s' = possible_regions s" using z more by simp
  show "r \<noteq> 0 \<Longrightarrow> aligned r (kRegionSize32 E) \<and> drop_bit (kRegionSizeLog32 E) r < kNumPossibleRegions E \<and>
      possible_regions s' = bm_set E (drop_bit (kRegionSizeLog32 E) r) (ucast k) (possible_regions s)"
    using nz more by simp
qed

text \<open>What the kernel promises: a region it maps is not one the allocator has.\<close>

definition new_region :: "ct_globals \<Rightarrow> ('m, 'l, 'y) p32_env_scheme \<Rightarrow> uptr \<Rightarrow> ('m, 'l, 'z) p32_state_scheme \<Rightarrow> bool" where
  "new_region G E k s \<longleftrightarrow>
     (case AllocateRegion G E k s of Inl e \<Rightarrow> True | Inr (r, s') \<Rightarrow> r = 0 \<or> GetSizeClass32 E r s = Inr 0)"

lemma GetSizeClass_set:
  assumes bm: "byte_map_ok E (kNumPossibleRegions E)" and k: "unat k < 256"
    and r: "drop_bit (kRegionSizeLog32 E) r < kNumPossibleRegions E"
    and pr: "possible_regions s' = bm_set E (drop_bit (kRegionSizeLog32 E) r) (ucast k) (possible_regions s)"
  shows "drop_bit (kRegionSizeLog32 E) x = drop_bit (kRegionSizeLog32 E) r \<Longrightarrow> GetSizeClass32 E x s' = Inr k"
    and "drop_bit (kRegionSizeLog32 E) x \<noteq> drop_bit (kRegionSizeLog32 E) r \<Longrightarrow> GetSizeClass32 E x s = Inr c \<Longrightarrow> c \<noteq> 0 \<Longrightarrow>
      GetSizeClass32 E x s' = Inr c"
proof -
  have "unat (ucast (ucast k :: u8) :: uptr) = unat k"
    using k by (simp add: unsigned_ucast_eq unsigned_take_bit_eq take_bit_nat_eq_self)
  then have kk: "ucast (ucast k :: u8) = k" by (simp only: word_unat_eq_iff)
  show "GetSizeClass32 E x s' = Inr k" if "drop_bit (kRegionSizeLog32 E) x = drop_bit (kRegionSizeLog32 E) r"
    using bm r that by (simp add: GetSizeClass32_def ComputeRegionId_def Let_def pr byte_map_ok_def kk)
  show "GetSizeClass32 E x s' = Inr c" if ne: "drop_bit (kRegionSizeLog32 E) x \<noteq> drop_bit (kRegionSizeLog32 E) r"
    and c: "GetSizeClass32 E x s = Inr c" "c \<noteq> 0"
    using bm r ne c by (auto simp: GetSizeClass32_def ComputeRegionId_def Let_def pr byte_map_ok_def andThen_check split: if_splits)
qed

lemma GetSizeClass_same:
  "possible_regions s' = possible_regions s \<Longrightarrow> GetSizeClass32 E x s' = GetSizeClass32 E x s"
  "possible_regions s' = possible_regions s \<Longrightarrow> chunk_in_class E k s' x = chunk_in_class E k s x"
  by (simp_all add: GetSizeClass32_def chunk_in_class_def cong: if_cong)

section \<open>The invariant of a class\<close>

text \<open>\<open>out\<close> are the chunks the program holds.\<close>

definition inv32 :: "('m, 'l, 'y) p32_env_scheme \<Rightarrow> ('l \<Rightarrow> uptr list) \<Rightarrow> uptr \<Rightarrow> uptr list \<Rightarrow> ('m, 'l, 'z) p32_state_scheme \<Rightarrow> bool" where
  "inv32 E elems k out s \<longleftrightarrow> batches_valid (max_cached32 E k) elems k s \<and> distinct (free32 elems k s @ cached32 k s @ out) \<and>
     (\<forall>x \<in> set (free32 elems k s @ cached32 k s @ out). chunk_in_class E k s x) \<and>
     (let c = local32 s k in batch_class_id c = 0 \<and> pc32_count c \<le> pc32_max_count c \<and>
        (pc32_max_count c = 0 \<or> pc32_max_count c = 2 * max_cached32 E k))"

lemma MaxCached_positive:
  assumes "2 < kMaxNumCachedHint (SizeClassMap32 E)" and "kMaxNumCachedHint (SizeClassMap32 E) < 2 ^ 30" and "sz \<noteq> 0"
  shows "0 < MaxCached E sz" and "MaxCached E sz \<le> kMaxNumCached E" and "kMaxNumCached E < 2 ^ 30"
    and "unat (2 * MaxCached E sz) = 2 * unat (MaxCached E sz)" and "2 * MaxCached E sz \<noteq> 0"
proof -
  let ?h = "kMaxNumCachedHint (SizeClassMap32 E)"
  have h: "2 < unat ?h" "unat ?h < 2 ^ 30" using assms by (simp_all add: word_less_nat_alt)
  have u: "unat (kMaxNumCached E) = unat ?h - 2"
    using h by (simp add: kMaxNumCached_def unat_sub word_le_nat_alt)
  show k: "kMaxNumCached E < 2 ^ 30" using h u by (simp add: word_less_nat_alt)
  have "1 \<le> unat (MaxCachedHint (SizeClassMap32 E) sz)"
    using h assms(3) by (auto simp: MaxCachedHint_def San_Max_def San_Min_def word_le_nat_alt word_less_nat_alt)
  then show pos: "0 < MaxCached E sz" using h u by (auto simp: MaxCached_def San_Min_def word_less_nat_alt)
  show m: "MaxCached E sz \<le> kMaxNumCached E" by (auto simp: MaxCached_def San_Min_def not_less)
  show twice: "unat (2 * MaxCached E sz) = 2 * unat (MaxCached E sz)"
    using k m by (simp add: unat_word_ariths word_less_nat_alt word_le_nat_alt)
  then show "2 * MaxCached E sz \<noteq> 0" using pos by (auto simp: word_less_nat_alt)
qed

lemma class32_hint:
  assumes "class32_ok E k"
  shows "2 < kMaxNumCachedHint (SizeClassMap32 E)" "kMaxNumCachedHint (SizeClassMap32 E) < 2 ^ 30" "ClassIdToSize32 E k \<noteq> 0"
  using assms by (auto simp: class32_ok_def)

lemma MaxCached_bounds:
  assumes "class32_ok E k"
  shows "0 < max_cached32 E k" and "max_cached32 E k \<le> kMaxNumCached E" and "kMaxNumCached E < 2 ^ 30"
    and "unat (2 * max_cached32 E k) = 2 * unat (max_cached32 E k)"
  using MaxCached_positive [OF class32_hint [OF assms]] by blast+


lemma PopulateFreeList_inv:
  fixes s :: "('m, 'l, 'z) p32_state_scheme"
  assumes P: "class32_ok E k" and lo: "list_ok E elems" and bm: "byte_map_ok E (kNumPossibleRegions E)"
    and inv: "inv32 E elems k out s" and new: "new_region G E k s" and empty: "elems (free_list32 s k) = []"
    and own: "\<And>p t. local32 t = local32 s \<Longrightarrow> create k p t = Inr (p, t)"
  shows "yields (PopulateFreeList G E create k s) (\<lambda>(ok, s'). inv32 E elems k out s' \<and> local32 s' = local32 s \<and> (ok \<longrightarrow> elems (free_list32 s' k) \<noteq> []))"
proof -
  let ?sz = "ClassIdToSize32 E k"
  note mc = MaxCached_bounds [OF P]
  have k256: "unat k < 256" "k \<noteq> 0" using P by (auto simp: class32_ok_def word_less_nat_alt word_le_nat_alt)
  have body: "yields (let s = s1; n_chunks = kRegionSize32 E div (?sz + kMetadataSize32 E)
      in andThen (populate_region E create k (max_cached32 E k) ?sz (unat n_chunks) r [] 0 s) (\<lambda>(q, s).
          case q of None \<Rightarrow> Inr (False, s)
          | Some b \<Rightarrow> if b = 0 then Inr (True, s)
              else andThen (check (0 < tb_count (batches32 s b))) (\<lambda>_. Inr (True, set_free32 k (il_push_back E b) s))))
      (\<lambda>(ok, s'). inv32 E elems k out s' \<and> local32 s' = local32 s \<and> (ok \<longrightarrow> elems (free_list32 s' k) \<noteq> []))"
    if r: "AllocateRegion G E k s = Inr (r, s0)" "r \<noteq> 0" and s1: "free_list32 s1 = free_list32 s0" "batches32 s1 = batches32 s0"
      "local32 s1 = local32 s0" "possible_regions s1 = possible_regions s0" for r and s0 s1 :: "('m, 'l, 'z) p32_state_scheme"
  proof -
    note A = AllocateRegion_result(1-3) [OF r(1)] AllocateRegion_result(5) [OF r(1,2)]
    have al: "aligned r (kRegionSize32 E)" and ri: "drop_bit (kRegionSizeLog32 E) r < kNumPossibleRegions E"
      and pr: "possible_regions s1 = bm_set E (drop_bit (kRegionSizeLog32 E) r) (ucast k) (possible_regions s)"
      using A(4) s1(4) by auto
    note set = GetSizeClass_set [OF bm k256(1) ri pr]
    have r0: "GetSizeClass32 E r s = Inr 0" using new r by (simp add: new_region_def)
    have keep: "chunk_in_class E k s1 x \<and> x \<notin> set (region_chunks E k r)" if x: "chunk_in_class E k s x" for x
    proof -
      have c: "GetSizeClass32 E x s = Inr k" using x by (simp add: chunk_in_class_def)
      have ne: "drop_bit (kRegionSizeLog32 E) x \<noteq> drop_bit (kRegionSizeLog32 E) r"
        using c r0 k256(2) by (auto simp: GetSizeClass32_def ComputeRegionId_def Let_def andThen_check split: if_splits)
      then show ?thesis using x set(2) [OF ne c k256(2)] region_chunk(2) [OF P al] by (auto simp: chunk_in_class_def)
    qed
    have fresh: "chunk_in_class E k s1 x" if "x \<in> set (region_chunks E k r)" for x
      using region_chunk [OF P al that] that set(1) r(2) by (simp add: chunk_in_class_def)
    have f0: "free32 elems k s1 = []" "free32 elems k s = []" using A(1) s1(1) empty by (simp_all add: free32_def)
    have v1: "batches_valid (max_cached32 E k) elems k s1" using A(1) s1(1) empty by (simp add: batches_valid_def)
    have chunks: "region_chunks E k r = [] @ map (\<lambda>j. r + of_nat j * ?sz) [0..<chunks_per_region E k]" by (simp add: region_chunks_def)
    have own1: "\<And>p t. local32 t = local32 s1 \<Longrightarrow> create k p t = Inr (p, t)" using own s1(3) A(3) by simp
    have nz: "0 \<notin> set ([] @ map (\<lambda>j. r + of_nat j * ?sz) [0..<chunks_per_region E k])"
      using fresh unfolding chunks [symmetric] by (auto simp: chunk_in_class_def)
    have ok0: "begun_ok (max_cached32 E k) 0 s1" "length ([] :: uptr list) < kShuffleArraySize"
      by (simp_all add: begun_ok_def kShuffleArraySize_def)
    have d: "distinct (free32 elems k s1 @ begun 0 s1 @ [] @ map (\<lambda>j. r + of_nat j * ?sz) [0..<chunks_per_region E k])"
      using distinct_region_chunks [OF P al] by (simp add: f0 begun_def chunks)
    obtain b s2 where run: "populate_region E create k (max_cached32 E k) ?sz (chunks_per_region E k) r [] 0 s1 = Inr (Some b, s2)"
      and v2: "batches_valid (max_cached32 E k) elems k s2" "begun_ok (max_cached32 E k) b s2"
      and ms: "mset (free32 elems k s2 @ begun b s2) = mset (region_chunks E k r)" and f2: "fills k s1 s2"
      using populate_region_own [where create = create and k = k and s = s1, OF lo mc(1-3) own1 nz ok0(2) v1 ok0(1) d]
      by (auto simp: f0 begun_def chunks)
    have result: "inv32 E elems k out t \<and> elems (free_list32 t k) \<noteq> []"
      if t: "batches_valid (max_cached32 E k) elems k t" "mset (free32 elems k t) = mset (region_chunks E k r)" "fills k s2 t" for t
    proof -
      have loc: "local32 t = local32 s" "possible_regions t = possible_regions s1"
        using t(3) f2 s1(3) A(3) by (simp_all add: fills_def)
      have set_t: "set (free32 elems k t) = set (region_chunks E k r)" by (rule mset_eq_setD [OF t(2)])
      have c: "cached32 k t = cached32 k s" by (simp add: cached32_def loc)
      have "distinct (free32 elems k t)" using distinct_region_chunks [OF P al] t(2) by (metis mset_eq_imp_distinct_iff)
      moreover have "set (free32 elems k t) \<inter> set (cached32 k s @ out) = {}"
        using inv keep unfolding set_t by (auto simp: inv32_def)
      moreover have "chunk_in_class E k t x" if "x \<in> set (free32 elems k t @ cached32 k s @ out)" for x
        using that inv keep fresh set_t GetSizeClass_same(2) [OF loc(2), of E k] by (auto simp: inv32_def f0)
      moreover have "set (free32 elems k t) \<noteq> {}" unfolding set_t using P by (simp add: region_chunks_def class32_ok_def)
      then have "elems (free_list32 t k) \<noteq> []" by (auto simp: free32_def)
      ultimately show ?thesis using inv t(1) by (simp add: inv32_def c loc f0 Let_def)
    qed
    show ?thesis
    proof (cases "b = 0")
      case True
      then show ?thesis
        using run result [of s2] v2(1) ms f2 s1(3) A(3) by (simp add: chunks_per_region_def begun_def fills_def)
    next
      case False
      let ?t = "set_free32 k (il_push_back E b) s2"
      have "inv32 E elems k out ?t \<and> elems (free_list32 ?t k) \<noteq> []"
        using False v2 ms push_back_batch [where k = k and b = b and s = s2, OF lo]
        by (intro result) (simp_all add: begun_def begun_ok_def fills_def)
      then show ?thesis
        using run False f2 s1(3) A(3) by (simp add: chunks_per_region_def fills_def andThen_check)
    qed
  qed
  show ?thesis
    unfolding PopulateFreeList_def
  proof (rule yields_bind, clarify)
    fix r s0 assume r: "AllocateRegion G E k s = Inr (r, s0)"
    show "yields (if r = 0 then Inr (False, s0) else
         let s = if kRandomShuffleChunks32 E \<and> rand_state32 s0 k = 0
               then let (t, s) = MonotonicNanoTime s0
                    in s\<lparr>rand_state32 := (rand_state32 s)(k := ucast (sci_address E k XOR t))\<rparr>
               else s0;
             sz = ?sz; n_chunks = kRegionSize32 E div (sz + kMetadataSize32 E); max_count = MaxCached E sz
         in andThen (populate_region E create k max_count sz (unat n_chunks) r [] 0 s) (\<lambda>(q, s).
          case q of None \<Rightarrow> Inr (False, s)
          | Some b \<Rightarrow> if b = 0 then Inr (True, s)
              else andThen (check (0 < tb_count (batches32 s b))) (\<lambda>_. Inr (True, set_free32 k (il_push_back E b) s))))
      (\<lambda>(ok, s'). inv32 E elems k out s' \<and> local32 s' = local32 s \<and> (ok \<longrightarrow> elems (free_list32 s' k) \<noteq> []))"
    proof (cases "r = 0")
      case True
      note A = AllocateRegion_result(1-3) [OF r] AllocateRegion_result(4) [OF r True]
      have "inv32 E elems k out s0"
        using inv A GetSizeClass_same(2) [OF A(4), of E k]
        by (simp add: inv32_def cached32_def free32_def batches_valid_def batch_valid_def)
      then show ?thesis using True A(3) by simp
    next
      case False
      show ?thesis
        using body [OF r False, of s0] body [OF r False, of "snd (MonotonicNanoTime s0)
            \<lparr>rand_state32 := (rand_state32 (snd (MonotonicNanoTime s0)))(k := ucast (sci_address E k XOR fst (MonotonicNanoTime s0)))\<rparr>"]
          False by (simp add: Let_def split_beta MonotonicNanoTime_def)
    qed
  qed
qed


section \<open>Batches come and go\<close>

text \<open>A batch off the list: its chunks join those the caller holds.\<close>

lemma pop_batch:
  assumes lo: "list_ok E elems" and inv: "inv32 E elems k out s" and ne: "elems (free_list32 s k) \<noteq> []"
  defines "b \<equiv> il_front E (free_list32 s k)" and "s' \<equiv> set_free32 k (il_pop_front E) s"
  shows "inv32 E elems k (batch_elems (batches32 s b) @ out) s' \<and> batch_valid (max_cached32 E k) s b"
proof -
  obtain bs where bs: "elems (free_list32 s k) = b # bs" "elems (il_pop_front E (free_list32 s k)) = bs"
    using lo ne by (cases "elems (free_list32 s k)") (auto simp: list_ok_def b_def)
  have f: "free32 elems k s = batch_elems (batches32 s b) @ free32 elems k s'"
    by (simp add: free32_def s'_def bs)
  have v: "batches_valid (max_cached32 E k) elems k s \<longleftrightarrow> batch_valid (max_cached32 E k) s b \<and> batches_valid (max_cached32 E k) elems k s'"
    by (auto simp: batches_valid_def batch_valid_def s'_def bs)
  have same: "cached32 k s' = cached32 k s" "local32 s' = local32 s" "possible_regions s' = possible_regions s"
    by (simp_all add: s'_def cached32_def)
  show ?thesis
    using inv v GetSizeClass_same(2) [OF same(3), of E k]
    by (auto simp: inv32_def f same Let_def)
qed

lemma push_batch:
  assumes lo: "list_ok E elems" and inv: "inv32 E elems k (batch_elems (batches32 s b) @ out) s" and b: "batch_valid (max_cached32 E k) s b"
  shows "inv32 E elems k out (set_free32 k (il_push_front E b) s)"
proof -
  let ?s = "set_free32 k (il_push_front E b) s"
  have same: "cached32 k ?s = cached32 k s" "possible_regions ?s = possible_regions s" by (simp_all add: cached32_def)
  show ?thesis
    using inv b push_front_batch [where k = k and b = b and s = s, OF lo] GetSizeClass_same(2) [OF same(2), of E k]
    by (auto simp: inv32_def same(1) Let_def)
qed

lemma AllocateBatch_inv:
  assumes P: "class32_ok E k" and lo: "list_ok E elems" and bm: "byte_map_ok E (kNumPossibleRegions E)"
    and inv: "inv32 E elems k out s" and new: "il_empty E (free_list32 s k) \<Longrightarrow> new_region G E k s"
    and own: "\<And>p t. local32 t = local32 s \<Longrightarrow> create k p t = Inr (p, t)"
  shows "yields (AllocateBatch G E create k s) (\<lambda>(b, s'). local32 s' = local32 s \<and>
    (if b = 0 then inv32 E elems k out s' else inv32 E elems k (batch_elems (batches32 s' b) @ out) s' \<and> batch_valid (max_cached32 E k) s' b))"
  unfolding AllocateBatch_def
proof (rule yields_andThen [where Q = "\<lambda>(ok, s'). inv32 E elems k out s' \<and> local32 s' = local32 s \<and>
      (ok \<longrightarrow> elems (free_list32 s' k) \<noteq> [])"], goal_cases)
  case 1
  have e: "il_empty E (free_list32 s k) \<longleftrightarrow> elems (free_list32 s k) = []" using lo by (simp add: list_ok_def)
  show ?case using PopulateFreeList_inv [where create = create, OF P lo bm inv new [unfolded e] _ own] inv e by simp
next
  case (2 v)
  then show ?case
    using pop_batch [OF lo, of k out "snd v"] by (cases "fst v") (auto simp: split_beta batch_valid_def)
qed

lemma DeallocateBatch_inv:
  assumes lo: "list_ok E elems" and inv: "inv32 E elems k (batch_elems (batches32 s b) @ out) s" and b: "batch_valid (max_cached32 E k) s b"
  shows "\<exists>s'. DeallocateBatch E k b s = Inr s' \<and> inv32 E elems k out s' \<and> local32 s' = local32 s"
proof -
  have "0 < length (batch_elems (batches32 s b))" using b by (auto simp: batch_valid_def)
  then have "0 < tb_count (batches32 s b)" by (simp add: batch_count_length [symmetric] word_less_nat_alt)
  then show ?thesis using push_batch [OF assms] by (simp add: DeallocateBatch_def)
qed

section \<open>The cache\<close>

lemma InitCache32_own:
  assumes P: "class32_ok E k" and inv: "inv32 E elems k out s"
  defines "s' \<equiv> InitCache32 E k s"
  shows "inv32 E elems k out s'" and "pc32_max_count (local32 s' k) = 2 * max_cached32 E k"
    and "batch_class_id (local32 s' k) = 0" and "free_list32 s' = free_list32 s" and "possible_regions s' = possible_regions s"
    and "pc32_count (local32 s' k) = pc32_count (local32 s k)" and "pc32_batch (local32 s' k) = pc32_batch (local32 s k)"
    and "machine.more s' = machine.more s \<or> (\<exists>l. s' = s\<lparr>local32 := l\<rparr>)"
proof -
  let ?m = "2 * max_cached32 E k"
  have k: "1 \<le> k" "k < NumClasses32 E" using P by (simp_all add: class32_ok_def)
  have own: "(if kUseSeparateSizeClassForBatch E then if k = kBatchClassID (SizeClassMap32 E) then 0 else kBatchClassID (SizeClassMap32 E)
      else if ClassIdToSize32 E k < AllocationSizeRequiredForNElements (max_cached32 E k)
      then ClassID (SizeClassMap32 E) (kBatchSize E) else 0) = 0"
    using P by (auto simp: class32_ok_def not_less)
  have l: "local32 s' k = (if pc32_max_count (local32 s k) \<noteq> 0 then local32 s k
      else (local32 s k)\<lparr>pc32_max_count := ?m, pc32_class_size := ClassIdToSize32 E k, batch_class_id := 0\<rparr>)"
    using k own by (simp add: s'_def InitCache32_def Let_def)
  have m: "pc32_max_count (local32 s k) = 0 \<or> pc32_max_count (local32 s k) = ?m" "batch_class_id (local32 s k) = 0"
    "pc32_count (local32 s k) \<le> pc32_max_count (local32 s k)" using inv by (simp_all add: inv32_def Let_def)
  show max': "pc32_max_count (local32 s' k) = ?m" using m(1) by (auto simp: l)
  show "batch_class_id (local32 s' k) = 0" using m(2) by (simp add: l)
  show same: "free_list32 s' = free_list32 s" "possible_regions s' = possible_regions s" by (simp_all add: s'_def InitCache32_def Let_def)
  show c: "pc32_count (local32 s' k) = pc32_count (local32 s k)" "pc32_batch (local32 s' k) = pc32_batch (local32 s k)"
    by (simp_all add: l)
  show "machine.more s' = machine.more s \<or> (\<exists>l. s' = s\<lparr>local32 := l\<rparr>)" by (auto simp: s'_def InitCache32_def Let_def)
  have b: "batches32 s' = batches32 s" by (simp add: s'_def InitCache32_def Let_def)
  have cc: "cached32 k s' = cached32 k s" by (simp add: cached32_def c)
  have ff: "free32 elems k s' = free32 elems k s" "batches_valid (max_cached32 E k) elems k s' = batches_valid (max_cached32 E k) elems k s"
    by (simp_all add: free32_def batches_valid_def batch_valid_def same b)
  have "pc32_count (local32 s' k) \<le> ?m" using m(1,3) c by auto
  then show "inv32 E elems k out s'"
    using inv GetSizeClass_same(2) [OF same(2), of E k] max' m(2)
    by (simp add: inv32_def cc ff Let_def) (simp add: l)
qed

lemma Refill32_inv:
  assumes P: "class32_ok E k" and lo: "list_ok E elems" and bm: "byte_map_ok E (kNumPossibleRegions E)"
    and inv: "inv32 E elems k out s" and new: "il_empty E (free_list32 s k) \<Longrightarrow> new_region G E k (InitCache32 E k s)"
    and empty: "pc32_count (local32 s k) = 0"
  shows "yields (Refill32 G E alloc dealloc k s) (\<lambda>(ok, s'). inv32 E elems k out s' \<and> (ok \<longrightarrow> 0 < pc32_count (local32 s' k)))"
  unfolding Refill32_def Let_def
proof (rule yields_andThen [OF AllocateBatch_inv [OF P lo bm InitCache32_own(1) [OF P inv]]], goal_cases)
  case 1
  then show ?case using new InitCache32_own(4) [OF P inv] by simp
next
  case (2 p t)
  then show ?case using InitCache32_own(3) [OF P inv] by (simp add: CreateBatch_def)
next
  case (3 v)
  obtain b t where v: "v = (b, t)" by fastforce
  let ?s = "InitCache32 E k s"
  have loc: "local32 t = local32 ?s" using 3 v by simp
  have c0: "pc32_count (local32 t k) = 0" using InitCache32_own(6) [OF P inv] empty by (simp add: loc)
  have bc: "batch_class_id (local32 t k) = 0" using InitCache32_own(3) [OF P inv] by (simp add: loc)
  show ?case
  proof (cases "b = 0")
    case False
    then have i: "inv32 E elems k (batch_elems (batches32 t b) @ out) t" "batch_valid (max_cached32 E k) t b" using 3 v by simp_all
    let ?t = "set_class32 k (\<lambda>c. c\<lparr>pc32_batch := CopyToArray (batches32 t b) (pc32_batch c), pc32_count := tb_count (batches32 t b)\<rparr>) t"
    have n: "0 < length (batch_elems (batches32 t b))" "tb_count (batches32 t b) \<le> max_cached32 E k"
      using i(2) by (auto simp: batch_valid_def)
    then have n0: "0 < tb_count (batches32 t b)" by (simp add: batch_count_length [symmetric] word_less_nat_alt)
    have max': "pc32_max_count (local32 t k) = 2 * max_cached32 E k" using InitCache32_own(2) [OF P inv] by (simp add: loc)
    have "inv32 E elems k out ?t"
    proof -
      have cc: "cached32 k t = []" "cached32 k ?t = batch_elems (batches32 t b)"
        by (simp_all add: cached32_def c0 batch_elems_def CopyToArray_def)
      have ff: "free32 elems k ?t = free32 elems k t"
          "batches_valid (max_cached32 E k) elems k ?t = batches_valid (max_cached32 E k) elems k t"
        by (simp_all add: free32_def batches_valid_def batch_valid_def)
      have same: "possible_regions ?t = possible_regions t" by simp
      have "tb_count (batches32 t b) \<le> 2 * max_cached32 E k"
        using n(2) MaxCached_bounds(4) [OF P] by (simp add: word_le_nat_alt)
      then show ?thesis
        using i(1) GetSizeClass_same(2) [OF same, of E k] bc max' by (simp add: inv32_def cc ff Let_def)
    qed
    moreover have "DestroyBatch dealloc k b ?t = Inr ?t" using bc by (simp add: DestroyBatch_def)
    ultimately show ?thesis using False v n0 by (simp add: andThen_check)
  qed (use 3 v in simp)
qed


text \<open>Taking the last chunk of the cache, and putting one behind it.\<close>

lemma Allocate32_inv:
  assumes P: "class32_ok E k" and lo: "list_ok E elems" and bm: "byte_map_ok E (kNumPossibleRegions E)"
    and inv: "inv32 E elems k out s"
    and new: "pc32_count (local32 s k) = 0 \<Longrightarrow> il_empty E (free_list32 s k) \<Longrightarrow> new_region G E k (InitCache32 E k s)"
  shows "yields (Allocate32 (Suc d) G E k s) (\<lambda>(p, s'). inv32 E elems k (if p = 0 then out else p # out) s')"
  unfolding Allocate32.simps
proof (rule yields_bind, rule yields_bind, rule yields_andThen [where Q = "\<lambda>(ok, s'). inv32 E elems k out s' \<and>
      (ok \<longrightarrow> 0 < pc32_count (local32 s' k))"], goal_cases)
  case 1
  show ?case using Refill32_inv [OF P lo bm inv] new inv by (simp add: word_gt_0)
next
  case (2 _ _ v)
  obtain ok t where v: "v = (ok, t)" by fastforce
  show ?case
  proof (cases ok)
    case True
    let ?c = "local32 t k"
    let ?n = "pc32_count ?c - 1"
    let ?t = "note32 (Stat_add AllocatorStatAllocated (pc32_class_size ?c)) (set_class32 k (pc32_count_update (\<lambda>_. ?n)) t)"
    let ?p = "pc32_batch ?c (unat ?n)"
    have i: "inv32 E elems k out t" and pos: "0 < pc32_count ?c" using 2 v True by simp_all
    have un: "unat (pc32_count ?c) = Suc (unat ?n)" using pos by (simp add: unat_sub word_le_nat_alt word_less_nat_alt)
    have c: "cached32 k t = cached32 k ?t @ [?p]" by (simp add: cached32_def un)
    have f: "free32 elems k ?t = free32 elems k t"
        "batches_valid (max_cached32 E k) elems k ?t = batches_valid (max_cached32 E k) elems k t"
      by (simp_all add: free32_def batches_valid_def batch_valid_def)
    have same: "possible_regions ?t = possible_regions t" by simp
    have "?p \<noteq> 0" using i by (auto simp: inv32_def c chunk_in_class_def)
    moreover have "inv32 E elems k (?p # out) ?t"
      using i GetSizeClass_same(2) [OF same, of E k] un by (auto simp: inv32_def c f Let_def word_le_nat_alt)
    ultimately show ?thesis using v True by (simp add: Let_def)
  qed (use 2 v in simp)
qed

lemma Drain32_inv:
  assumes P: "class32_ok E k" and lo: "list_ok E elems" and inv: "inv32 E elems k out s"
    and max': "pc32_max_count (local32 s k) = 2 * max_cached32 E k" and ne: "0 < pc32_count (local32 s k)"
  shows "\<exists>s'. Drain32 E alloc k s = Inr s' \<and> inv32 E elems k out s' \<and> pc32_max_count (local32 s' k) = 2 * max_cached32 E k \<and>
    pc32_count (local32 s' k) < pc32_count (local32 s k) \<and> pc32_count (local32 s' k) < 2 * max_cached32 E k"
proof -
  let ?c = "local32 s k"
  note M = MaxCached_bounds [OF P]
  have half: "2 * max_cached32 E k div 2 = max_cached32 E k"
    by (rule word_unat_eq_iff [THEN iffD2]) (simp only: unat_div M(4), simp)
  define cnt where "cnt = San_Min (max_cached32 E k) (pc32_count ?c)"
  define fst' where "fst' = pc32_count ?c - cnt"
  have cnt: "cnt \<le> pc32_count ?c" "cnt \<le> max_cached32 E k" "0 < cnt"
    using ne M(1) by (auto simp: cnt_def San_Min_def not_less)
  have fst': "unat fst' = unat (pc32_count ?c) - unat cnt" using cnt(1) by (simp add: fst'_def unat_sub)
  let ?xs = "map (pc32_batch ?c) [unat fst'..<unat fst' + unat cnt]"
  have top: "unat fst' + unat cnt = unat (pc32_count ?c)" using fst' cnt(1) by (simp add: word_le_nat_alt)
  have cs: "cached32 k s = map (pc32_batch ?c) [0..<unat fst'] @ ?xs"
    using upt_add_eq_append [of 0 "unat fst'" "unat cnt"] by (simp only: cached32_def top [symmetric] map_append le0)
  let ?b = "pc32_batch ?c (unat fst')"
  have bx: "?b \<in> set ?xs" using cnt(3) by (force simp: word_less_nat_alt)
  have b0: "?b \<noteq> 0" using inv bx by (auto simp: inv32_def cs chunk_in_class_def)
  have lx: "length ?xs = unat cnt" by simp
  have len: "\<not> unat (kMaxNumCached E) < length ?xs" using cnt(2) M(2) unfolding lx by (simp add: word_le_nat_alt)
  let ?f = "\<lambda>t. t\<lparr>tb_count := of_nat (length ?xs), tb_batch := (\<lambda>i. if i < length ?xs then ?xs ! i else tb_batch t i)\<rparr>"
  define t where "t = set_class32 k (\<lambda>c. c\<lparr>pc32_count := pc32_count c - cnt\<rparr>) (set_batch ?b ?f s)"
  have bc: "batch_class_id ?c = 0" using inv by (simp add: inv32_def Let_def)
  have run: "Drain32 E alloc k s = DeallocateBatch E k ?b t"
    unfolding Drain32_def Let_def CreateBatch_def bc max' half cnt_def [symmetric] fst'_def [symmetric]
    using b0 len by (simp add: SetFromArray_def t_def del: length_map)
  have elems_b: "batch_elems (batches32 t ?b) = ?xs"
  proof -
    have "unat (of_nat (length ?xs) :: uptr) = length ?xs" unfolding lx by simp
    then have "batch_elems (batches32 t ?b) = map (\<lambda>i. if i < length ?xs then ?xs ! i else tb_batch (batches32 s ?b) i) [0..<length ?xs]"
      unfolding batch_elems_def by (simp add: t_def del: length_map)
    also have "\<dots> = ?xs" by (rule nth_equalityI) simp_all
    finally show ?thesis .
  qed
  have other: "?b \<notin> set (elems (free_list32 s k))"
  proof
    assume "?b \<in> set (elems (free_list32 s k))"
    then have "?b \<in> set (free32 elems k s)" using inv free32_member by (auto simp: inv32_def)
    then show False using inv bx by (auto simp: inv32_def cs)
  qed
  have keep: "free_list32 t k = free_list32 s k" "\<forall>x \<in> set (elems (free_list32 s k)). batches32 t x = batches32 s x"
    using other by (auto simp: t_def)
  note F = free32_cong(1) [where elems = elems, OF keep] free32_cong(2) [where elems = elems and max_count = "max_cached32 E k", OF keep]
  have ct: "cached32 k t = map (pc32_batch ?c) [0..<unat fst']" by (simp add: cached32_def t_def fst'_def)
  have same: "possible_regions t = possible_regions s" by (simp add: t_def)
  have le: "pc32_count (local32 t k) \<le> pc32_count ?c" "pc32_count (local32 t k) < pc32_count ?c"
    using fst' cnt by (simp_all add: t_def fst'_def [symmetric] word_le_nat_alt word_less_nat_alt)
  have it: "inv32 E elems k (batch_elems (batches32 t ?b) @ out) t"
    using inv F GetSizeClass_same(2) [OF same, of E k] le(1) unfolding elems_b
    by (auto simp: inv32_def cs ct Let_def) (auto simp: t_def)
  have vt: "batch_valid (max_cached32 E k) t ?b"
    using b0 bx cnt(2) unfolding batch_valid_def elems_b by (simp add: t_def)
  obtain s' where s': "DeallocateBatch E k ?b t = Inr s'" "inv32 E elems k out s'" "local32 s' = local32 t"
    using DeallocateBatch_inv [OF lo it vt] by blast
  have "pc32_count ?c \<le> 2 * max_cached32 E k" using inv max' by (simp add: inv32_def Let_def)
  moreover have "pc32_max_count (local32 t k) = 2 * max_cached32 E k" using max' by (simp add: t_def)
  ultimately show ?thesis using run s' le(2) by (auto intro: less_le_trans)
qed

lemma Deallocate32_inv:
  assumes P: "class32_ok E k" and lo: "list_ok E elems" and inv: "inv32 E elems k (p # out) s"
  shows "\<exists>s'. Deallocate32 (Suc d) G E k p s = Inr s' \<and> inv32 E elems k out s'"
proof -
  let ?s = "InitCache32 E k s"
  note I = InitCache32_own [OF P inv]
  note M = MaxCached_bounds [OF P]
  have kk: "k \<noteq> 0" "k < NumClasses32 E" using P by (auto simp: class32_ok_def)
  have pos: "0 < 2 * max_cached32 E k" using M(1,4) by (simp add: word_less_nat_alt)
  have "\<exists>t. (if pc32_count (local32 ?s k) = pc32_max_count (local32 ?s k) then Drain32 E (Allocate32 d G E) k ?s else Inr ?s) = Inr t \<and>
      inv32 E elems k (p # out) t \<and> pc32_count (local32 t k) < 2 * max_cached32 E k \<and> pc32_max_count (local32 t k) = 2 * max_cached32 E k"
  proof (cases "pc32_count (local32 ?s k) = pc32_max_count (local32 ?s k)")
    case True
    then have "0 < pc32_count (local32 ?s k)" using I(2) pos by simp
    from Drain32_inv [where alloc = "Allocate32 d G E", OF P lo I(1,2) this] show ?thesis
      unfolding if_P [OF True] by blast
  next
    case False
    have "pc32_count (local32 ?s k) \<le> pc32_max_count (local32 ?s k)" using I(1) by (simp add: inv32_def Let_def)
    then show ?thesis using False I(1,2) by simp
  qed
  then obtain t where t: "(if pc32_count (local32 ?s k) = pc32_max_count (local32 ?s k) then Drain32 E (Allocate32 d G E) k ?s else Inr ?s) = Inr t"
      "inv32 E elems k (p # out) t" "pc32_count (local32 t k) < 2 * max_cached32 E k" "pc32_max_count (local32 t k) = 2 * max_cached32 E k"
    by blast
  let ?c = "local32 t k"
  let ?t = "note32 (Stat_sub AllocatorStatAllocated (pc32_class_size ?c))
     (set_class32 k (\<lambda>c. c\<lparr>pc32_batch := (pc32_batch c)(unat (pc32_count ?c) := p), pc32_count := pc32_count ?c + 1\<rparr>) t)"
  have un: "unat (pc32_count ?c + 1) = unat (pc32_count ?c) + 1"
    using t(3) M(2-4) by (subst unat_add_small) (simp_all add: word_less_nat_alt word_le_nat_alt)
  have c: "cached32 k ?t = cached32 k t @ [p]" by (simp add: cached32_def un)
  have f: "free32 elems k ?t = free32 elems k t"
      "batches_valid (max_cached32 E k) elems k ?t = batches_valid (max_cached32 E k) elems k t"
    by (simp_all add: free32_def batches_valid_def batch_valid_def)
  have same: "possible_regions ?t = possible_regions t" by simp
  have "inv32 E elems k out ?t"
    using t GetSizeClass_same(2) [OF same, of E k] un
    by (auto simp: inv32_def c f Let_def word_le_nat_alt word_less_nat_alt)
  then show ?thesis using kk t(1) by (simp add: Let_def)
qed


section \<open>From a pointer to its chunk\<close>

lemma GetBlockBegin32_chunk:
  assumes P: "class32_ok E k" and x: "chunk_in_class E k s x" and d: "d < unat (ClassIdToSize32 E k)"
    and space: "kSpaceBeg32 E \<le> x + of_nat d" "x + of_nat d < kSpaceBeg32 E + kSpaceSize32 E"
  shows "GetBlockBegin32 E (x + of_nat d) s = Inr x"
proof -
  let ?sz = "ClassIdToSize32 E k" and ?r = "ComputeRegionBeg E x" and ?p = "x + of_nat d"
  obtain j where j: "j < chunks_per_region E k" "x = ?r + of_nat j * ?sz"
    using x by (auto simp: chunk_in_class_def region_chunks_def)
  have g: "kRegionSizeLog32 E < 32" and k: "k \<noteq> 0" using P by (auto simp: class32_ok_def)
  have al: "aligned ?r (kRegionSize32 E)"
    by (simp add: region_size aligned_iff_dvd ComputeRegionBeg_def unat_and_high)
  note o = chunk_offset [OF P j(1) d]
  have off: "j * unat ?sz < 2 ^ kRegionSizeLog32 E" using o(1) by linarith
  have xo: "x = ?r + of_nat (j * unat ?sz)" using j(2) by simp
  have po: "?p = ?r + of_nat (j * unat ?sz + d)" by (subst xo) simp
  note Rp = in_region [OF g al o(1), folded po] and Rx = in_region [OF g al off, folded xo]
  have cls: "GetSizeClass32 E ?p s = Inr k"
    using x Rp(3) Rx(3) by (simp add: chunk_in_class_def GetSizeClass32_def ComputeRegionId_def Let_def)
  have mine: "PointerIsMine32 E ?p s = Inr True"
    using space k by (simp add: PointerIsMine32_def cls not_less not_le)
  have p31: "(2 :: nat) ^ kRegionSizeLog32 E \<le> 2 ^ 31" using g by (intro power_increasing) simp_all
  have "unat (?p - ?r) = j * unat ?sz + d"
    using o(1) p31 by (simp only: po add_diff_cancel_left') (intro unat_of_nat_small, simp)
  then have off32: "unat (ucast (?p - ?r) :: u32) = j * unat ?sz + d"
    using o(1) p31 by (simp add: unsigned_ucast_eq take_bit_nat_eq_self)
  have sz32: "unat (ucast ?sz :: u32) = unat ?sz"
    using P by (simp add: class32_ok_def word_less_nat_alt unsigned_ucast_eq take_bit_nat_eq_self)
  have n: "unat (ucast (?p - ?r) div ucast ?sz :: u32) = j"
    using d by (simp add: unat_div off32 sz32)
  have m: "unat (ucast (?p - ?r) div ucast ?sz * ucast ?sz :: u32) = j * unat ?sz"
    using off p31 by (subst unat_mult_small) (simp_all add: n sz32)
  have "unat (ucast (ucast (?p - ?r) div ucast ?sz * ucast ?sz :: u32) :: uptr) = unat (of_nat (j * unat ?sz) :: uptr)"
    using m off p31 by (subst unat_of_nat_small) simp_all
  then have "ucast (ucast (?p - ?r) div ucast ?sz * ucast ?sz :: u32) = (of_nat (j * unat ?sz) :: uptr)"
    by (simp only: word_unat_eq_iff)
  then show ?thesis
    using xo by (simp only: GetBlockBegin32_def mine andThen_simps check_simps cls Let_def Rp(2))
qed

section \<open>Runs\<close>

text \<open>The chunks the program holds under allocations and deallocations of the class. When an allocation
  maps a region, the kernel gives one the allocator does not have.\<close>

definition kernel_maps_new :: "ct_globals \<Rightarrow> ('m, 'l, 'y) p32_env_scheme \<Rightarrow> uptr \<Rightarrow> ('m, 'l, 'z) p32_state_scheme \<Rightarrow> bool" where
  "kernel_maps_new G E k s \<longleftrightarrow>
     (pc32_count (local32 s k) = 0 \<and> il_empty E (free_list32 s k) \<longrightarrow> new_region G E k (InitCache32 E k s))"

inductive run32 :: "ct_globals \<Rightarrow> ('m, 'l, 'y) p32_env_scheme \<Rightarrow> nat \<Rightarrow> uptr \<Rightarrow> ('m, 'l, 'z) p32_state_scheme \<Rightarrow>
    ('m, 'l, 'z) p32_state_scheme \<Rightarrow> uptr list \<Rightarrow> bool"
  for G E d k s where
  run32_none: "run32 G E d k s s []"
| run32_alloc: "run32 G E d k s s1 out \<Longrightarrow> kernel_maps_new G E k s1 \<Longrightarrow> Allocate32 d G E k s1 = Inr (p, s2) \<Longrightarrow> p \<noteq> 0 \<Longrightarrow>
    run32 G E d k s s2 (p # out)"
| run32_fail: "run32 G E d k s s1 out \<Longrightarrow> kernel_maps_new G E k s1 \<Longrightarrow> Allocate32 d G E k s1 = Inr (0, s2) \<Longrightarrow>
    run32 G E d k s s2 out"
| run32_free: "run32 G E d k s s1 ps \<Longrightarrow> mset ps = mset (p # out) \<Longrightarrow> Deallocate32 d G E k p s1 = Inr s2 \<Longrightarrow>
    run32 G E d k s s2 out"

definition fresh_class32 :: "('l \<Rightarrow> uptr list) \<Rightarrow> uptr \<Rightarrow> ('m, 'l, 'z) p32_state_scheme \<Rightarrow> bool" where
  "fresh_class32 elems k s \<longleftrightarrow> elems (free_list32 s k) = [] \<and>
     (let c = local32 s k in pc32_count c = 0 \<and> pc32_max_count c = 0 \<and> batch_class_id c = 0)"

lemma inv32_mset: "mset ps = mset qs \<Longrightarrow> inv32 E elems k ps s = inv32 E elems k qs s"
proof -
  assume m: "mset ps = mset qs"
  have "set ps = set qs" by (rule mset_eq_setD [OF m])
  moreover have "distinct ps \<longleftrightarrow> distinct qs" by (rule mset_eq_imp_distinct_iff [OF m])
  ultimately show ?thesis by (simp add: inv32_def)
qed

lemma run32_inv:
  assumes "run32 G E d k s s' out" and P: "class32_ok E k" and lo: "list_ok E elems"
    and bm: "byte_map_ok E (kNumPossibleRegions E)" and fresh: "fresh_class32 elems k s" and d: "0 < d"
  shows "inv32 E elems k out s'"
  using assms(1)
proof (induction s' out rule: run32.induct)
  case run32_none
  then show ?case
    using fresh by (simp add: fresh_class32_def inv32_def free32_def cached32_def batches_valid_def Let_def)
next
  case (run32_alloc s1 out p s2)
  obtain e where e: "d = Suc e" using d by (cases d) auto
  have "yields (Allocate32 (Suc e) G E k s1) (\<lambda>(p, s'). inv32 E elems k (if p = 0 then out else p # out) s')"
    using run32_alloc by (intro Allocate32_inv [OF P lo bm]) (simp_all add: kernel_maps_new_def)
  from yieldsD [OF this run32_alloc.hyps(3) [unfolded e]] show ?case using run32_alloc.hyps(4) by simp
next
  case (run32_fail s1 out s2)
  obtain e where e: "d = Suc e" using d by (cases d) auto
  have "yields (Allocate32 (Suc e) G E k s1) (\<lambda>(p, s'). inv32 E elems k (if p = 0 then out else p # out) s')"
    using run32_fail by (intro Allocate32_inv [OF P lo bm]) (simp_all add: kernel_maps_new_def)
  from yieldsD [OF this run32_fail.hyps(3) [unfolded e]] show ?case by simp
next
  case (run32_free s1 ps p out s2)
  obtain e where e: "d = Suc e" using d by (cases d) auto
  have i: "inv32 E elems k (p # out) s1" using run32_free.IH inv32_mset [OF run32_free.hyps(2)] by blast
  show ?case using Deallocate32_inv [where d = e and G = G, OF P lo i] run32_free.hyps(3) by (auto simp: e)
qed



text \<open>An allocator of 128 KiB chunks, one in a region, with lists and functions for the containers.\<close>

definition sample_env32 :: "(uptr \<Rightarrow> u8, uptr list) p32_env" where
  "sample_env32 = \<lparr> kSpaceBeg32 = 0, kSpaceSize32 = 0x100000000, kMetadataSize32 = 0, SizeClassMap32 = CompactSizeClassMap,
     kRegionSizeLog32 = 17, kFlags32 = 0, sci_address = (\<lambda>_. 0), bm_Init = (\<lambda>_ _. 0), bm_contains = (\<lambda>_ _. True),
     bm_get = (\<lambda>m. m), bm_set = (\<lambda>i v m. m(i := v)), il_zero = [], il_empty = (\<lambda>l. l = []), il_front = hd,
     il_pop_front = tl, il_push_front = (#), il_push_back = (\<lambda>x l. l @ [x]) \<rparr>"

definition sample_globals32 :: ct_globals where
  "sample_globals32 = \<lparr> ct_shadow_memory_dynamic_address = 0, ct_shadow_memory_dynamic_end = 0, ct_AddressTagMask = 0,
     ct_AddressTagShift = 0, ct_ShadowScale = 0, page_size = 4096, free_list_interval_ns = 0, ct_pool_density = 5,
     ct_randomize_region = True, superPoolBase_g = 0, superPoolEnd_g = 0, mmap_limit_mb = 0,
     os_iserror = (\<lambda>r. 0xfffffffffffff000 < r), os_enomem = (\<lambda>r. r = - 12), loop_fuel = 64 \<rparr>"

definition sample_state32 :: "(uptr \<Rightarrow> u8, uptr list) p32_state" where
  "sample_state32 = \<lparr> sys_ret = (\<lambda>_. 0x40000000), sys_pos = 0, clock_ns = (\<lambda>_. 0), clock_pos = 0,
     entropy = (\<lambda>_. None), nano_seed = (\<lambda>_. 0), entropy_pos = 0, my_random_state = 1,
     g_total_mmaped = 0, mem = (\<lambda>_. 0), RI = (\<lambda>_. zero_region), trace = [], possible_regions = (\<lambda>_. 0),
     free_list32 = (\<lambda>_. []), rand_state32 = (\<lambda>_. 0), batches32 = (\<lambda>_. \<lparr> tb_count = 0, tb_batch = (\<lambda>_. 0) \<rparr>),
     local32 = (\<lambda>_. \<lparr> pc32_count = 0, pc32_max_count = 0, pc32_class_size = 0, batch_class_id = 0, pc32_batch = (\<lambda>_. 0) \<rparr>),
     log32 = [] \<rparr>"


lemma sample_alloc32: "map_sum id fst (Allocate32 1 sample_globals32 sample_env32 52 sample_state32) = Inr 0x40000000"
  by code_simp

lemma sample_class32: "class32_ok sample_env32 52" "ClassIdToSize32 sample_env32 52 = 0x20000"
  by code_simp+

lemma sample_containers32: "list_ok sample_env32 (\<lambda>l. l)" "byte_map_ok sample_env32 n"
  by (auto simp: list_ok_def byte_map_ok_def sample_env32_def)

lemma sample_new32: "kernel_maps_new G sample_env32 k sample_state32"
proof -
  have "GetSizeClass32 sample_env32 r t = Inr 0"
    if a: "AllocateRegion G sample_env32 k t = Inr (r, t')" and "r \<noteq> 0" and p: "possible_regions t = (\<lambda>_. 0)" for r t' and
      t :: "(uptr \<Rightarrow> u8, uptr list) p32_state"
    using AllocateRegion_result(5) [OF a \<open>r \<noteq> 0\<close>] p
    by (simp add: GetSizeClass32_def ComputeRegionId_def Let_def) (simp add: sample_env32_def)
  moreover have "possible_regions (InitCache32 sample_env32 k sample_state32) = (\<lambda>_. 0)"
    by (simp add: InitCache32_def Let_def sample_state32_def)
  ultimately show ?thesis by (auto simp: kernel_maps_new_def new_region_def split: sum.split)
qed



end
