(* ===== verification/Primary32_Depth.thy ===== *)
theory Primary32_Depth
  imports Primary32_Inv
begin

text \<open>
  \<open>Allocate\<close> and \<open>Deallocate\<close> of the 32-bit cache call each other for batches. The class of a batch needs
  no batch of its own elsewhere, so two levels are enough: no call ends for want of depth.
\<close>

section \<open>Operations that settle\<close>

text \<open>The operation does not run out of fuel, and its result, when there is one, satisfies \<open>Q\<close>.\<close>

definition settles :: "'a res \<Rightarrow> ('a \<Rightarrow> bool) \<Rightarrow> bool" where
  "settles r Q \<longleftrightarrow> (case r of Inl e \<Rightarrow> e \<noteq> Out_of_fuel | Inr v \<Rightarrow> Q v)"

lemma settles_simps [simp]: "settles (Inl e) Q = (e \<noteq> Out_of_fuel)" "settles (Inr v) Q = Q v"
  by (simp_all add: settles_def)

lemma settles_andThen: "settles m Q \<Longrightarrow> (\<And>v. Q v \<Longrightarrow> settles (f v) R) \<Longrightarrow> settles (andThen m f) R"
  by (cases m) simp_all

lemma settles_mono: "settles m Q \<Longrightarrow> (\<And>v. Q v \<Longrightarrow> R v) \<Longrightarrow> settles m R"
  by (cases m) simp_all

lemma settles_check [simp]: "settles (check b) (\<lambda>_. True)"
  by (cases b) simp_all

lemma settles_bind: "settles m (\<lambda>_. True) \<Longrightarrow> (\<And>v. m = Inr v \<Longrightarrow> settles (f v) R) \<Longrightarrow> settles (andThen m f) R"
  by (cases m) simp_all

lemma settles_machine:
  "settles (RoundUpTo x y) (\<lambda>_. True)" "settles (IsAligned x y) (\<lambda>_. True)"
  "settles (MmapOrDieOnFatalError G z s) (\<lambda>_. True)" "settles (UnmapOrDie G x z s) (\<lambda>_. True)"
  "settles (ComputeRegionId E x) (\<lambda>_. True)"
  by (auto simp: RoundUpTo_def IsAligned_def MmapOrDieOnFatalError_def UnmapOrDie_def ComputeRegionId_def Let_def
      IncreaseTotalMmap_def andThen_def check_def split: prod.split)

lemma MmapAligned_settles: "settles (MmapAlignedOrDieOnFatalError G sz al s) (\<lambda>_. True)"
  unfolding MmapAlignedOrDieOnFatalError_def Let_def
  by (intro settles_bind settles_machine settles_check)
    (auto intro!: settles_bind settles_machine settles_check split: prod.split)

section \<open>What the operations keep of the caches\<close>

definition steady :: "('m, 'l, 'z) p32_state_scheme \<Rightarrow> ('m, 'l, 'z) p32_state_scheme \<Rightarrow> bool" where
  "steady s s' \<longleftrightarrow> (\<forall>i. pc32_max_count (local32 s' i) = pc32_max_count (local32 s i) \<and>
     batch_class_id (local32 s' i) = batch_class_id (local32 s i))"

lemma steady_refl [simp]: "steady s s"
  by (simp add: steady_def)

lemma steady_trans: "steady s s' \<Longrightarrow> steady s' s'' \<Longrightarrow> steady s s''"
  by (simp add: steady_def)

lemma steady_local: "local32 s' = local32 s \<Longrightarrow> steady s s'"
  by (simp add: steady_def)

lemma steady_simps [simp]:
  "steady s (set_free32 k f t) = steady s t" "steady s (set_batch b g t) = steady s t" "steady s (note32 e t) = steady s t"
  "steady s (t\<lparr>rand_state32 := h\<rparr>) = steady s t"
  by (simp_all add: steady_def)

lemma AllocateRegion_settles: "settles (AllocateRegion G E k s) (\<lambda>(r, s'). local32 s' = local32 s)"
proof -
  have "settles (AllocateRegion G E k s) (\<lambda>_. True)"
    unfolding AllocateRegion_def Let_def
    by (rule settles_andThen [OF MmapAligned_settles])
      (auto intro!: settles_bind settles_machine settles_check split: prod.split)
  then show ?thesis using AllocateRegion_result(3) [of G E k s] by (cases "AllocateRegion G E k s") auto
qed

definition creates :: "('m, 'l, 'z) create \<Rightarrow> uptr \<Rightarrow> ('m, 'l, 'z) p32_state_scheme \<Rightarrow> bool" where
  "creates create k s \<longleftrightarrow> (\<forall>b t. steady s t \<longrightarrow> settles (create k b t) (\<lambda>(b, t'). steady t t'))"

lemma creates_steady: "creates create k s \<Longrightarrow> steady s t \<Longrightarrow> creates create k t"
  unfolding creates_def by (blast intro: steady_trans)

lemma batch_Add_settles: "settles (batch_Add E b p s) (\<lambda>s'. local32 s' = local32 s)"
  by (simp add: batch_Add_def Let_def)

lemma add_chunks_settles:
  fixes s :: "('m, 'l, 'z) p32_state_scheme"
  shows "creates create k s \<Longrightarrow> settles (add_chunks E create k m ps b s) (\<lambda>(r, s'). steady s s')"
proof (induction ps arbitrary: b s)
  case (Cons p ps)
  let ?first = "if b = 0 then andThen (create k p s) (\<lambda>(b, s). Inr (b, if b = 0 then s else batch_Clear b s)) else Inr (b, s)"
  have "settles (andThen (create k p s) (\<lambda>(b, s). Inr (b, if b = 0 then s else batch_Clear b s))) (\<lambda>(b, t). steady s t)"
  proof (rule settles_andThen [where Q = "\<lambda>(b, t). steady s t"])
    show "settles (create k p s) (\<lambda>(b, t). steady s t)" using Cons.prems by (simp add: creates_def)
  qed (auto simp: batch_Clear_def)
  then have first: "settles ?first (\<lambda>(b, t). steady s t)" by simp
  have step: "settles (andThen (batch_Add E b' p t) (\<lambda>s.
       if tb_count (batches32 s b') = m then add_chunks E create k m ps 0 (set_free32 k (il_push_back E b') s)
       else add_chunks E create k m ps b' s)) (\<lambda>(r, s'). steady s s')" if t: "steady s t" for b' t
  proof (rule settles_andThen [OF batch_Add_settles])
    fix u :: "('m, 'l, 'z) p32_state_scheme" assume "local32 u = local32 t"
    then have u: "steady s u" "steady s (set_free32 k (il_push_back E b') u)"
      using steady_trans [OF t steady_local] by simp_all
    have IH: "settles (add_chunks E create k m ps c w) (\<lambda>(r, s'). steady s s')" if "steady s w" for c w
      using Cons.IH [OF creates_steady [OF Cons.prems that], of c]
      by (rule settles_mono) (use that steady_trans in auto)
    show "settles (if tb_count (batches32 u b') = m then add_chunks E create k m ps 0 (set_free32 k (il_push_back E b') u)
       else add_chunks E create k m ps b' u) (\<lambda>(r, s'). steady s s')" using IH u by simp
  qed
  show ?case
    unfolding add_chunks.simps by (rule settles_andThen [OF first]) (simp add: step split_paired_all)
qed simp

lemma PopulateBatches_settles:
  assumes "creates create k s"
  shows "settles (PopulateBatches E create k m ps b s) (\<lambda>(r, s'). steady s s')"
proof -
  have c: "steady s t \<Longrightarrow> settles (add_chunks E create k m xs b t) (\<lambda>(r, s'). steady s s')" for xs t
    using add_chunks_settles [OF creates_steady [OF assms]]
    by (rule settles_mono) (use steady_trans in auto)
  show ?thesis unfolding PopulateBatches_def Let_def by (auto intro!: c simp: split_beta)
qed

lemma populate_region_settles:
  "creates create k s \<Longrightarrow> settles (populate_region E create k m sz n i acc b s) (\<lambda>(r, s'). steady s s')"
proof (induction n arbitrary: i acc b s)
  case 0
  then show ?case by (simp add: PopulateBatches_settles)
next
  case (Suc n)
  have "settles (andThen (PopulateBatches E create k m (acc @ [i]) b s) (\<lambda>(r, s).
        case r of None \<Rightarrow> Inr (None, s) | Some b \<Rightarrow> populate_region E create k m sz n (i + sz) [] b s)) (\<lambda>(r, s'). steady s s')"
  proof (rule settles_andThen [OF PopulateBatches_settles [OF Suc.prems]], clarify)
    fix r t assume t: "steady s t"
    have "settles (populate_region E create k m sz n (i + sz) [] c t) (\<lambda>(r, s'). steady s s')" for c
      using Suc.IH [OF creates_steady [OF Suc.prems t]] by (rule settles_mono) (use t steady_trans in auto)
    then show "settles (case r of None \<Rightarrow> Inr (None, t) | Some b \<Rightarrow> populate_region E create k m sz n (i + sz) [] b t)
        (\<lambda>(r, s'). steady s s')" using t by (simp split: option.split)
  qed
  then show ?case using Suc.IH [OF Suc.prems] by (simp add: Let_def)
qed

lemma PopulateFreeList_settles:
  fixes s :: "('m, 'l, 'z) p32_state_scheme"
  assumes c: "creates create k s"
  shows "settles (PopulateFreeList G E create k s) (\<lambda>(ok, s'). steady s s')"
  unfolding PopulateFreeList_def
proof (rule settles_andThen [OF AllocateRegion_settles], clarify)
  fix r and t :: "('m, 'l, 'z) p32_state_scheme" assume l: "local32 t = local32 s"
  have fill: "settles (andThen (populate_region E create k m sz n r [] 0 u) (\<lambda>(q, s).
       case q of None \<Rightarrow> Inr (False, s)
       | Some b \<Rightarrow> if b = 0 then Inr (True, s)
           else andThen (check (0 < tb_count (batches32 s b))) (\<lambda>_. Inr (True, set_free32 k (il_push_back E b) s))))
     (\<lambda>(ok, s'). steady s s')" if u: "local32 u = local32 t" for u m sz n
  proof -
    have su: "steady s u" using l u by (simp add: steady_local)
    show ?thesis
    proof (rule settles_andThen [OF populate_region_settles [OF creates_steady [OF c su]]], clarify)
    fix q w assume w: "steady u w"
    have sw: "steady s w" by (rule steady_trans [OF su w])
    then show "settles (case q of None \<Rightarrow> Inr (False, w)
        | Some b \<Rightarrow> if b = 0 then Inr (True, w)
           else andThen (check (0 < tb_count (batches32 w b))) (\<lambda>_. Inr (True, set_free32 k (il_push_back E b) w)))
       (\<lambda>(ok, s'). steady s s')"
      by (auto simp: andThen_check split: option.split)
    qed
  qed
  show "settles (if r = 0 then Inr (False, t) else
         let s = if kRandomShuffleChunks32 E \<and> rand_state32 t k = 0
               then let (v, s) = MonotonicNanoTime t
                    in s\<lparr>rand_state32 := (rand_state32 s)(k := ucast (sci_address E k XOR v))\<rparr>
               else t;
             sz = ClassIdToSize32 E k; n_chunks = kRegionSize32 E div (sz + kMetadataSize32 E); max_count = MaxCached E sz
         in andThen (populate_region E create k max_count sz (unat n_chunks) r [] 0 s) (\<lambda>(q, s).
          case q of None \<Rightarrow> Inr (False, s)
          | Some b \<Rightarrow> if b = 0 then Inr (True, s)
              else andThen (check (0 < tb_count (batches32 s b))) (\<lambda>_. Inr (True, set_free32 k (il_push_back E b) s))))
     (\<lambda>(ok, s'). steady s s')"
    using l fill by (auto simp: Let_def split_beta MonotonicNanoTime_def steady_local)
qed

lemma AllocateBatch_settles:
  assumes "creates create k s"
  shows "settles (AllocateBatch G E create k s) (\<lambda>(b, s'). steady s s')"
  unfolding AllocateBatch_def
  by (rule settles_andThen [where Q = "\<lambda>(ok, s'). steady s s'"])
    (auto simp: PopulateFreeList_settles [OF assms])

section \<open>One level and two\<close>

definition in_classes :: "('m, 'l, 'y) p32_env_scheme \<Rightarrow> uptr \<Rightarrow> bool" where
  "in_classes E i \<longleftrightarrow> 1 \<le> i \<and> i < NumClasses32 E"

definition ready :: "('m, 'l, 'y) p32_env_scheme \<Rightarrow> ('m, 'l, 'z) p32_state_scheme \<Rightarrow> bool" where
  "ready E s \<longleftrightarrow> (\<forall>i. in_classes E i \<longrightarrow> pc32_max_count (local32 s i) \<noteq> 0)"

lemma ready_steady: "ready E s \<Longrightarrow> steady s t \<Longrightarrow> ready E t"
  by (simp add: ready_def steady_def)

lemma ready_InitCache: "ready E s \<Longrightarrow> in_classes E k \<Longrightarrow> InitCache32 E k s = s"
  by (simp add: ready_def InitCache32_def)

lemma in_classes_check: "in_classes E k \<longleftrightarrow> k \<noteq> 0 \<and> k < NumClasses32 E"
  by (auto simp: in_classes_def word_le_nat_alt Suc_le_eq unat_gt_0)

text \<open>The calls for a batch of class \<open>bc\<close> settle.\<close>

definition serves :: "(uptr \<Rightarrow> ('m, 'l, 'z) p32_state_scheme \<Rightarrow> (uptr \<times> ('m, 'l, 'z) p32_state_scheme) res) \<Rightarrow>
    (uptr \<Rightarrow> uptr \<Rightarrow> ('m, 'l, 'z) p32_state_scheme \<Rightarrow> ('m, 'l, 'z) p32_state_scheme res) \<Rightarrow> uptr \<Rightarrow>
    ('m, 'l, 'z) p32_state_scheme \<Rightarrow> bool" where
  "serves alloc dealloc bc s \<longleftrightarrow> bc = 0 \<or> (\<forall>t. steady s t \<longrightarrow> settles (alloc bc t) (\<lambda>(b, t'). steady t t') \<and>
     (\<forall>b. settles (dealloc bc b t) (\<lambda>t'. steady t t')))"

lemma CreateBatch_creates:
  "serves alloc dealloc (batch_class_id (local32 s k)) s \<Longrightarrow> creates (CreateBatch alloc) k s"
  by (auto simp: serves_def creates_def CreateBatch_def Let_def steady_def)

lemma Refill32_settles:
  assumes sv: "serves alloc dealloc (batch_class_id (local32 s k)) s" and r: "ready E s" and k: "in_classes E k"
  shows "settles (Refill32 G E alloc dealloc k s) (\<lambda>(ok, s'). steady s s')"
  unfolding Refill32_def ready_InitCache [OF r k] Let_def
proof (rule settles_andThen [OF AllocateBatch_settles [OF CreateBatch_creates [OF sv]]], clarify)
  fix b t assume t: "steady s t"
  let ?t = "set_class32 k (\<lambda>c. c\<lparr>pc32_batch := CopyToArray (batches32 t b) (pc32_batch c), pc32_count := tb_count (batches32 t b)\<rparr>) t"
  have t': "steady s ?t" using t by (simp add: steady_def)
  have "settles (DestroyBatch dealloc k b ?t) (\<lambda>s'. steady s s')"
  proof (cases "batch_class_id (local32 s k) = 0")
    case True
    then show ?thesis using t' t by (simp add: DestroyBatch_def steady_def)
  next
    case False
    have "batch_class_id (local32 ?t k) = batch_class_id (local32 s k)" using t by (simp add: steady_def)
    moreover have "settles (dealloc (batch_class_id (local32 s k)) b ?t) (\<lambda>t'. steady ?t t')"
      using sv False t' by (simp add: serves_def)
    ultimately show ?thesis
      using False steady_trans [OF t'] by (auto simp: DestroyBatch_def Let_def intro: settles_mono)
  qed
  then have "settles (andThen (DestroyBatch dealloc k b ?t) (\<lambda>s. Inr (True, s))) (\<lambda>(ok, s'). steady s s')"
    by (rule settles_andThen) simp
  then show "settles (if b = 0 then Inr (False, t)
        else andThen (check (0 < tb_count (batches32 t b))) (\<lambda>_. andThen (DestroyBatch dealloc k b ?t) (\<lambda>s. Inr (True, s))))
      (\<lambda>(ok, s'). steady s s')"
    using t by (simp add: andThen_check)
qed

lemma Drain32_settles:
  assumes sv: "serves alloc dealloc (batch_class_id (local32 s k)) s"
  shows "settles (Drain32 E alloc k s) (\<lambda>s'. steady s s')"
  unfolding Drain32_def Let_def
proof (rule settles_andThen [where Q = "\<lambda>(b, t). steady s t"], goal_cases)
  case 1
  show ?case using CreateBatch_creates [OF sv] by (simp add: creates_def)
next
  case (2 v)
  then show ?case
    by (auto simp: SetFromArray_def DeallocateBatch_def andThen_check split_beta steady_def)
qed

lemma level:
  assumes sv: "serves (Allocate32 d G E) (Deallocate32 d G E) (batch_class_id (local32 s k)) s" and r: "ready E s"
  shows "settles (Allocate32 (Suc d) G E k s) (\<lambda>(p, s'). steady s s')"
    and "settles (Deallocate32 (Suc d) G E k p s) (\<lambda>s'. steady s s')"
proof -
  have "settles (if pc32_count (local32 s k) = 0 then Refill32 G E (Allocate32 d G E) (Deallocate32 d G E) k s else Inr (True, s))
      (\<lambda>(ok, s'). steady s s')" if "in_classes E k"
    using Refill32_settles [OF sv r that] by simp
  then have "settles (andThen (if pc32_count (local32 s k) = 0 then Refill32 G E (Allocate32 d G E) (Deallocate32 d G E) k s
       else Inr (True, s)) (\<lambda>(ok, s). if \<not> ok then Inr (0, s)
     else let c = local32 s k; n = pc32_count c - 1
       in Inr (pc32_batch c (unat n), note32 (Stat_add AllocatorStatAllocated (pc32_class_size c))
                 (set_class32 k (pc32_count_update (\<lambda>_. n)) s)))) (\<lambda>(p, s'). steady s s')" if "in_classes E k"
    by (rule settles_andThen) (use that in \<open>auto simp: Let_def steady_def split_beta\<close>)
  then show "settles (Allocate32 (Suc d) G E k s) (\<lambda>(p, s'). steady s s')"
    by (auto simp: andThen_check in_classes_check)
  have "settles (if pc32_count (local32 s k) = pc32_max_count (local32 s k) then Drain32 E (Allocate32 d G E) k s else Inr s)
      (\<lambda>s'. steady s s')" using Drain32_settles [OF sv, of E] by simp
  then have "settles (andThen (if pc32_count (local32 s k) = pc32_max_count (local32 s k) then Drain32 E (Allocate32 d G E) k s
      else Inr s) (\<lambda>s. let c = local32 s k; n = pc32_count c
       in Inr (note32 (Stat_sub AllocatorStatAllocated (pc32_class_size c))
          (set_class32 k (\<lambda>c. c\<lparr>pc32_batch := (pc32_batch c)(unat n := p), pc32_count := n + 1\<rparr>) s)))) (\<lambda>s'. steady s s')"
    by (rule settles_andThen) (auto simp: Let_def steady_def)
  then show "settles (Deallocate32 (Suc d) G E k p s) (\<lambda>s'. steady s s')"
  proof (cases "in_classes E k")
    case True
    then show ?thesis
      using \<open>settles (andThen _ _) (\<lambda>s'. steady s s')\<close> by (simp add: ready_InitCache [OF r True] in_classes_check Let_def)
  qed (auto simp: andThen_check in_classes_check)
qed

lemma two_levels:
  assumes r: "ready E s" and bc: "batch_class_id (local32 s k) = 0 \<or> batch_class_id (local32 s (batch_class_id (local32 s k))) = 0"
  shows "settles (Allocate32 (Suc (Suc d)) G E k s) (\<lambda>(p, s'). steady s s')"
    and "settles (Deallocate32 (Suc (Suc d)) G E k p s) (\<lambda>s'. steady s s')"
proof -
  have "serves (Allocate32 (Suc d) G E) (Deallocate32 (Suc d) G E) (batch_class_id (local32 s k)) s"
  proof (cases "batch_class_id (local32 s k) = 0")
    case False
    have "serves (Allocate32 d G E) (Deallocate32 d G E) (batch_class_id (local32 t (batch_class_id (local32 s k)))) t"
      if "steady s t" for t using bc False that by (simp add: serves_def steady_def)
    then show ?thesis using level [OF _ ready_steady [OF r]] unfolding serves_def [of _ _ _ s] by blast
  qed (simp add: serves_def)
  from level [OF this r] show "settles (Allocate32 (Suc (Suc d)) G E k s) (\<lambda>(p, s'). steady s s')"
    "settles (Deallocate32 (Suc (Suc d)) G E k p s) (\<lambda>s'. steady s s')" .
qed


section \<open>The batch classes the cache chooses\<close>

text \<open>What \<open>InitCache\<close> stores for a class, and the condition on the parameters: every class caches something,
  and the class of a batch is stored without batches of another class.\<close>

definition chosen_batch_class :: "('m, 'l, 'y) p32_env_scheme \<Rightarrow> uptr \<Rightarrow> uptr" where
  "chosen_batch_class E i =
     (if kUseSeparateSizeClassForBatch E then (if i = kBatchClassID (SizeClassMap32 E) then 0 else kBatchClassID (SizeClassMap32 E))
      else if ClassIdToSize32 E i < AllocationSizeRequiredForNElements (max_cached32 E i)
        then ClassID (SizeClassMap32 E) (kBatchSize E) else 0)"

definition depth_ok :: "('m, 'l, 'y) p32_env_scheme \<Rightarrow> bool" where
  "depth_ok E \<longleftrightarrow> list_all (\<lambda>i. 2 * max_cached32 E i \<noteq> 0 \<and>
     (let b = chosen_batch_class E i in b = 0 \<or> in_classes E b \<and> chosen_batch_class E b = 0))
     (map of_nat [1..<unat (NumClasses32 E)])"

lemma depth_okD:
  assumes "depth_ok E" and "in_classes E i"
  shows "2 * max_cached32 E i \<noteq> 0" and "chosen_batch_class E i = 0 \<or> in_classes E (chosen_batch_class E i) \<and>
    chosen_batch_class E (chosen_batch_class E i) = 0"
proof -
  have "unat i \<in> {1..<unat (NumClasses32 E)}" using assms(2) by (auto simp: in_classes_def word_le_nat_alt word_less_nat_alt)
  then have "i \<in> set (map of_nat [1..<unat (NumClasses32 E)])" by (force intro: image_eqI [of _ _ "unat i"])
  then show "2 * max_cached32 E i \<noteq> 0" and "chosen_batch_class E i = 0 \<or> in_classes E (chosen_batch_class E i) \<and>
    chosen_batch_class E (chosen_batch_class E i) = 0"
    using assms(1) unfolding depth_ok_def list_all_iff by (metis (no_types, lifting))+
qed

text \<open>The caches of a thread: either none of them was used, or all have the class \<open>InitCache\<close> chooses.\<close>

definition tidy :: "('m, 'l, 'y) p32_env_scheme \<Rightarrow> ('m, 'l, 'z) p32_state_scheme \<Rightarrow> bool" where
  "tidy E s \<longleftrightarrow> (\<forall>i. in_classes E i \<longrightarrow> pc32_max_count (local32 s i) = 0 \<and> pc32_count (local32 s i) = 0) \<or>
     (\<forall>i. in_classes E i \<longrightarrow> pc32_max_count (local32 s i) \<noteq> 0 \<and> batch_class_id (local32 s i) = chosen_batch_class E i)"

definition chosen :: "('m, 'l, 'y) p32_env_scheme \<Rightarrow> ('m, 'l, 'z) p32_state_scheme \<Rightarrow> bool" where
  "chosen E s \<longleftrightarrow> (\<forall>i. in_classes E i \<longrightarrow> pc32_max_count (local32 s i) \<noteq> 0 \<and>
     batch_class_id (local32 s i) = chosen_batch_class E i)"

lemma chosen_tidy: "chosen E s \<Longrightarrow> steady s t \<Longrightarrow> tidy E t"
  by (simp add: chosen_def tidy_def steady_def)

lemma InitCache_chosen:
  assumes "depth_ok E" and "tidy E s" and "in_classes E k"
  shows "chosen E (InitCache32 E k s)"
    and "\<And>i. in_classes E i \<Longrightarrow> pc32_count (local32 (InitCache32 E k s) i) = pc32_count (local32 s i)"
proof -
  show "pc32_count (local32 (InitCache32 E k s) i) = pc32_count (local32 s i)" for i by (simp add: InitCache32_def Let_def)
  show "chosen E (InitCache32 E k s)"
  proof (cases "pc32_max_count (local32 s k) = 0")
    case True
    then show ?thesis
      using depth_okD(1) [OF assms(1)]
      by (auto simp: chosen_def InitCache32_def Let_def in_classes_def chosen_batch_class_def)
  next
    case False
    then show ?thesis using assms(2,3) by (auto simp: chosen_def tidy_def InitCache32_def)
  qed
qed

lemma chosen_levels:
  assumes "depth_ok E" and "chosen E s" and "in_classes E k"
  shows "settles (Allocate32 (Suc (Suc d)) G E k s) (\<lambda>(p, s'). tidy E s')"
    and "settles (Deallocate32 (Suc (Suc d)) G E k p s) (\<lambda>s'. tidy E s')"
proof -
  have r: "ready E s" using assms(2) by (simp add: chosen_def ready_def)
  have b: "batch_class_id (local32 s k) = 0 \<or> batch_class_id (local32 s (batch_class_id (local32 s k))) = 0"
    using assms depth_okD(2) [OF assms(1,3)] by (auto simp: chosen_def)
  show "settles (Allocate32 (Suc (Suc d)) G E k s) (\<lambda>(p, s'). tidy E s')"
    using two_levels(1) [OF r b] by (rule settles_mono) (use chosen_tidy [OF assms(2)] in auto)
  show "settles (Deallocate32 (Suc (Suc d)) G E k p s) (\<lambda>s'. tidy E s')"
    using two_levels(2) [OF r b] by (rule settles_mono) (rule chosen_tidy [OF assms(2)])
qed

text \<open>The first operation of a thread initialises the caches and goes on as if they had been.\<close>

lemma Init_first:
  assumes "depth_ok E" and "tidy E s" and "in_classes E k"
  shows "pc32_count (local32 s k) = 0 \<Longrightarrow> Allocate32 (Suc d) G E k (InitCache32 E k s) = Allocate32 (Suc d) G E k s"
    and "Deallocate32 (Suc d) G E k p (InitCache32 E k s) = Deallocate32 (Suc d) G E k p s"
proof -
  note C = InitCache_chosen [OF assms]
  have "ready E (InitCache32 E k s)" using C(1) by (simp add: chosen_def ready_def)
  then have i: "InitCache32 E k (InitCache32 E k s) = InitCache32 E k s" by (rule ready_InitCache [OF _ assms(3)])
  then show "Deallocate32 (Suc d) G E k p (InitCache32 E k s) = Deallocate32 (Suc d) G E k p s" by (simp only: Deallocate32.simps)
  assume "pc32_count (local32 s k) = 0"
  then show "Allocate32 (Suc d) G E k (InitCache32 E k s) = Allocate32 (Suc d) G E k s"
    using C(2) [OF assms(3)] by (simp only: Allocate32.simps Refill32_def i if_P Let_def)
qed

text \<open>C21. The depth of the calls: two levels of \<open>Allocate\<close> and \<open>Deallocate\<close> are enough for every class,
  whether its batches are stored in its own chunks or in those of another class, in every state the
  operations lead to.\<close>

theorem two_levels_suffice:
  assumes ok: "depth_ok E" and s: "tidy E s" and d: "2 \<le> d"
  shows "Allocate32 d G E k s \<noteq> Inl Out_of_fuel \<and> Deallocate32 d G E k p s \<noteq> Inl Out_of_fuel \<and>
    (\<forall>q s'. Allocate32 d G E k s = Inr (q, s') \<longrightarrow> tidy E s') \<and>
    (\<forall>s'. Deallocate32 d G E k p s = Inr s' \<longrightarrow> tidy E s')"
proof -
  obtain e where e: "d = Suc (Suc e)" using d by (metis add_2_eq_Suc le_Suc_ex)
  have "settles (Allocate32 d G E k s) (\<lambda>(p, s'). tidy E s') \<and> settles (Deallocate32 d G E k p s) (\<lambda>s'. tidy E s')"
  proof (cases "in_classes E k")
    case True
    note C = InitCache_chosen [OF ok s True]
    note L = chosen_levels [OF ok C(1) True, of e G]
    have "settles (Allocate32 d G E k s) (\<lambda>(p, s'). tidy E s')"
    proof (cases "pc32_count (local32 s k) = 0")
      case False
      then have "chosen E s" using s True by (auto simp: tidy_def chosen_def)
      then show ?thesis using chosen_levels(1) [OF ok _ True] by (simp only: e)
    next
      case True
      then show ?thesis using L(1) Init_first(1) [OF ok s \<open>in_classes E k\<close>] by (simp only: e)
    qed
    moreover have "settles (Deallocate32 d G E k p s) (\<lambda>s'. tidy E s')" using L(2) by (simp only: e Init_first(2) [OF ok s True])
    ultimately show ?thesis ..
  qed (auto simp: e in_classes_check andThen_check)
  then show ?thesis by (cases "Allocate32 d G E k s"; cases "Deallocate32 d G E k p s") auto
qed


text \<open>The condition follows from the sizes of the classes and from one look at the class of the batches.\<close>

lemma depth_okI:
  assumes h: "2 < kMaxNumCachedHint (SizeClassMap32 E)" "kMaxNumCachedHint (SizeClassMap32 E) < 2 ^ 30"
    and sizes: "list_all (\<lambda>i. ClassIdToSize32 E i \<noteq> 0) (map of_nat [1..<unat (NumClasses32 E)])"
    and b: "b = (if kUseSeparateSizeClassForBatch E then kBatchClassID (SizeClassMap32 E) else ClassID (SizeClassMap32 E) (kBatchSize E))"
    and bc: "in_classes E b" "chosen_batch_class E b = 0"
  shows "depth_ok E"
  unfolding depth_ok_def list_all_iff
proof
  fix i :: uptr assume i: "i \<in> set (map of_nat [1..<unat (NumClasses32 E)])"
  then have "ClassIdToSize32 E i \<noteq> 0" using sizes unfolding list_all_iff by blast
  then have "2 * max_cached32 E i \<noteq> 0" using MaxCached_positive h by blast
  moreover have "chosen_batch_class E i = 0 \<or> chosen_batch_class E i = b" by (simp add: chosen_batch_class_def b)
  ultimately show "2 * max_cached32 E i \<noteq> 0 \<and> (let b = chosen_batch_class E i in b = 0 \<or> in_classes E b \<and> chosen_batch_class E b = 0)"
    using bc by (auto simp: Let_def)
qed

text \<open>In the sample allocator the batches of the smallest class, of 16 bytes, live in the chunks of another
  class, and the first request of a thread for it is served within two levels.\<close>

lemma sample_depth32: "depth_ok sample_env32" "chosen_batch_class sample_env32 1 = 20" "tidy sample_env32 sample_state32"
proof -
  show "depth_ok sample_env32"
    by (rule depth_okI [where b = 20]) code_simp+
  show "chosen_batch_class sample_env32 1 = 20" by code_simp
  show "tidy sample_env32 sample_state32" by (simp add: tidy_def sample_state32_def)
qed

theorem two_levels_suffice_witness:
  "chosen_batch_class sample_env32 1 = 20 \<and> Allocate32 2 sample_globals32 sample_env32 1 sample_state32 \<noteq> Inl Out_of_fuel"
  using two_levels_suffice [OF sample_depth32(1,3), of 2 sample_globals32 1] sample_depth32(2) by blast

end
