(* ===== verification/San_System.thy ===== *)
theory San_System
  imports San_Strings San_Containers
begin

text \<open>
  The layer between the runtime and Linux on x86-64: the system calls of
  \<open>sanitizer_linux.cpp\<close>, the files, descriptors and signals of \<open>sanitizer_posix.cpp\<close>, and what
  is computed on their answers: the environment, the signal masks, the list of threads.

  A system call takes the next answer of the kernel, as in \<open>Machine\<close>, and \<open>calls\<close> lists number and
  arguments, newest first. What the kernel stores for a call is an input as well: \<open>os_bytes i\<close>
  the bytes, \<open>os_stat i\<close> mode and size of a file, \<open>os_time i\<close> seconds and microseconds, for the
  call at position \<open>i\<close>. The kernel keeps the signal mask and the signal actions. The macro
  \<open>HANDLE_EINTR\<close>, \<open>internal_iserror\<close> and the readers of whole files are not in the repository:
  they are fields of the environment \<open>os_env\<close>. A \<open>fd_t\<close> is an \<open>int\<close>.
\<close>

section \<open>System calls\<close>

datatype sysno =
  SYS_mremap | SYS_mprotect | SYS_madvise | SYS_close | SYS_openat | SYS_read | SYS_write
| SYS_ftruncate | SYS_newfstatat | SYS_fstat | SYS_dup | SYS_dup3 | SYS_readlinkat | SYS_unlinkat
| SYS_renameat | SYS_sched_yield | SYS_nanosleep | SYS_execve | SYS_exit_group | SYS_gettid | SYS_tgkill
| SYS_gettimeofday | SYS_clock_gettime | SYS_futex | SYS_ptrace | SYS_wait4 | SYS_getpid | SYS_getppid
| SYS_getdents64 | SYS_lseek | SYS_prctl | SYS_arch_prctl | SYS_sigaltstack | SYS_clone
| SYS_rt_sigaction | SYS_rt_sigprocmask | SYS_getrandom | SYS_mmap

record sigaction =
  sa_handler :: uptr
  sa_mask :: "u64 list"
  sa_flags :: s32
  sa_restorer :: uptr

record os_state = pool_state +
  calls :: "(sysno \<times> uptr list) list"
  os_bytes :: "nat \<Rightarrow> u8 list"
  os_stat :: "nat \<Rightarrow> u32 \<times> uptr"
  os_time :: "nat \<Rightarrow> u64 \<times> u64"
  sig_mask :: "u64 list"
  sig_actions :: "s32 \<Rightarrow> sigaction"
  env_buf :: uptr
  env_len :: uptr
  env_inited :: bool
  skip_getrandom :: bool

datatype HandleSignalMode = kHandleSignalNo | kHandleSignalYes | kHandleSignalExclusive

record signal_flags =
  handle_abort :: HandleSignalMode
  handle_sigill :: HandleSignalMode
  handle_sigtrap :: HandleSignalMode
  handle_sigfpe :: HandleSignalMode
  handle_segv :: HandleSignalMode
  handle_sigbus :: HandleSignalMode
  allow_user_segv_handler :: bool

record 's os_env =
  os_globals :: ct_globals
  handle_eintr :: "('s \<Rightarrow> uptr \<times> 's) \<Rightarrow> 's \<Rightarrow> (uptr \<times> 's) res"
  os_errno :: "uptr \<Rightarrow> s32"
  read_file_to_buffer :: "string \<Rightarrow> 's \<Rightarrow> (uptr \<times> uptr \<times> uptr) option \<times> 's"
  read_file_to_vector :: "s32 \<Rightarrow> s32 \<Rightarrow> 's \<Rightarrow> u8 list option \<times> 's"
  test_only_emulate_no_memorymap :: bool
  decorate_proc_maps :: bool
  signals :: signal_flags
  sigset_words :: nat
  lit_proc :: uptr
  lit_ppid :: uptr
  lit_urandom :: uptr

definition internal_syscall :: "sysno \<Rightarrow> uptr list \<Rightarrow> 'a os_state_scheme \<Rightarrow> uptr \<times> 'a os_state_scheme" where
  "internal_syscall nr args s = (let (r, s) = syscall s in (r, s\<lparr>calls := (nr, args) # calls s\<rparr>))"

text \<open>An \<open>int\<close> result keeps the low 32 bits; an \<open>int\<close> argument is extended.\<close>

definition int_syscall :: "sysno \<Rightarrow> uptr list \<Rightarrow> 'a os_state_scheme \<Rightarrow> s32 \<times> 'a os_state_scheme" where
  "int_syscall nr args s = (let (r, s) = internal_syscall nr args s in (ucast r, s))"

definition sx :: "s32 \<Rightarrow> uptr" where "sx i = scast i"

definition os_failed :: "'s os_env \<Rightarrow> uptr \<Rightarrow> bool" where
  "os_failed E r = os_iserror (os_globals E) r"

text \<open>Bytes the kernel stores from \<open>p\<close> on.\<close>

definition store_bytes :: "uptr \<Rightarrow> u8 list \<Rightarrow> memory \<Rightarrow> memory" where
  "store_bytes p xs m = (\<lambda>q. if unat (q - p) < length xs then xs ! unat (q - p) else m q)"

abbreviation (input) AT_FDCWD :: uptr where "AT_FDCWD \<equiv> - 100"
abbreviation (input) O_RDONLY :: s32 where "O_RDONLY \<equiv> 0"
abbreviation (input) O_WRONLY :: s32 where "O_WRONLY \<equiv> 1"
abbreviation (input) O_RDWR :: s32 where "O_RDWR \<equiv> 2"
abbreviation (input) O_CREAT :: s32 where "O_CREAT \<equiv> 0x40"
abbreviation (input) O_TRUNC :: s32 where "O_TRUNC \<equiv> 0x200"
abbreviation (input) O_CLOEXEC :: s32 where "O_CLOEXEC \<equiv> 0x80000"
abbreviation (input) O_DIRECTORY :: s32 where "O_DIRECTORY \<equiv> 0x10000"

definition internal_mmap_file ::
    "uptr \<Rightarrow> uptr \<Rightarrow> s32 \<Rightarrow> s32 \<Rightarrow> s32 \<Rightarrow> u64 \<Rightarrow> 'a os_state_scheme \<Rightarrow> uptr \<times> 'a os_state_scheme" where
  "internal_mmap_file addr len prot flags fd off s =
     internal_syscall SYS_mmap [addr, len, sx prot, sx flags, sx fd, off] s"

definition internal_mremap ::
    "uptr \<Rightarrow> uptr \<Rightarrow> uptr \<Rightarrow> s32 \<Rightarrow> uptr \<Rightarrow> 'a os_state_scheme \<Rightarrow> uptr \<times> 'a os_state_scheme" where
  "internal_mremap old_address old_size new_size flags new_address s =
     internal_syscall SYS_mremap [old_address, old_size, new_size, sx flags, new_address] s"

definition internal_mprotect :: "uptr \<Rightarrow> uptr \<Rightarrow> s32 \<Rightarrow> 'a os_state_scheme \<Rightarrow> s32 \<times> 'a os_state_scheme" where
  "internal_mprotect addr len prot s = int_syscall SYS_mprotect [addr, len, sx prot] s"

definition internal_madvise :: "uptr \<Rightarrow> uptr \<Rightarrow> s32 \<Rightarrow> 'a os_state_scheme \<Rightarrow> s32 \<times> 'a os_state_scheme" where
  "internal_madvise addr len advice s = int_syscall SYS_madvise [addr, len, sx advice] s"

definition internal_close :: "s32 \<Rightarrow> 'a os_state_scheme \<Rightarrow> uptr \<times> 'a os_state_scheme" where
  "internal_close fd s = internal_syscall SYS_close [sx fd] s"

definition internal_open :: "uptr \<Rightarrow> s32 \<Rightarrow> 'a os_state_scheme \<Rightarrow> uptr \<times> 'a os_state_scheme" where
  "internal_open filename flags s = internal_syscall SYS_openat [AT_FDCWD, filename, sx flags] s"

definition internal_open_mode :: "uptr \<Rightarrow> s32 \<Rightarrow> u32 \<Rightarrow> 'a os_state_scheme \<Rightarrow> uptr \<times> 'a os_state_scheme" where
  "internal_open_mode filename flags mode s =
     internal_syscall SYS_openat [AT_FDCWD, filename, sx flags, ucast mode] s"

definition read_once ::
    "'s os_env \<Rightarrow> s32 \<Rightarrow> uptr \<Rightarrow> uptr \<Rightarrow> 'a os_state_scheme \<Rightarrow> uptr \<times> 'a os_state_scheme" where
  "read_once E fd buf n s =
     (let xs = os_bytes s (sys_pos s);
          (r, s) = internal_syscall SYS_read [sx fd, buf, n] s
      in (r, if os_failed E r then s else s\<lparr>mem := store_bytes buf (take (unat r) xs) (mem s)\<rparr>))"

definition internal_read ::
    "'a os_state_scheme os_env \<Rightarrow> s32 \<Rightarrow> uptr \<Rightarrow> uptr \<Rightarrow> 'a os_state_scheme \<Rightarrow> (uptr \<times> 'a os_state_scheme) res" where
  "internal_read E fd buf n s = handle_eintr E (read_once E fd buf n) s"

definition internal_write ::
    "'a os_state_scheme os_env \<Rightarrow> s32 \<Rightarrow> uptr \<Rightarrow> uptr \<Rightarrow> 'a os_state_scheme \<Rightarrow> (uptr \<times> 'a os_state_scheme) res" where
  "internal_write E fd buf n s = handle_eintr E (internal_syscall SYS_write [sx fd, buf, n]) s"

definition internal_ftruncate ::
    "'a os_state_scheme os_env \<Rightarrow> s32 \<Rightarrow> uptr \<Rightarrow> 'a os_state_scheme \<Rightarrow> (uptr \<times> 'a os_state_scheme) res" where
  "internal_ftruncate E fd sz s = handle_eintr E (internal_syscall SYS_ftruncate [sx fd, sz]) s"

text \<open>The calls that fill a \<open>struct stat\<close> give its mode and size as a second result.\<close>

definition internal_stat :: "uptr \<Rightarrow> uptr \<Rightarrow> 'a os_state_scheme \<Rightarrow> uptr \<times> (u32 \<times> uptr) \<times> 'a os_state_scheme" where
  "internal_stat path buf s =
     (let st = os_stat s (sys_pos s);
          (r, s) = internal_syscall SYS_newfstatat [AT_FDCWD, path, buf, 0] s in (r, st, s))"

abbreviation (input) AT_SYMLINK_NOFOLLOW :: uptr where "AT_SYMLINK_NOFOLLOW \<equiv> 0x100"

definition internal_lstat :: "uptr \<Rightarrow> uptr \<Rightarrow> 'a os_state_scheme \<Rightarrow> uptr \<times> (u32 \<times> uptr) \<times> 'a os_state_scheme" where
  "internal_lstat path buf s =
     (let st = os_stat s (sys_pos s);
          (r, s) = internal_syscall SYS_newfstatat [AT_FDCWD, path, buf, AT_SYMLINK_NOFOLLOW] s in (r, st, s))"

definition internal_fstat :: "s32 \<Rightarrow> uptr \<Rightarrow> 'a os_state_scheme \<Rightarrow> uptr \<times> (u32 \<times> uptr) \<times> 'a os_state_scheme" where
  "internal_fstat fd buf s =
     (let st = os_stat s (sys_pos s);
          (r, s) = internal_syscall SYS_fstat [sx fd, buf] s in (r, st, s))"

text \<open>A \<open>struct stat\<close> on the stack lives at \<open>buf\<close>.\<close>

definition internal_filesize :: "uptr \<Rightarrow> s32 \<Rightarrow> 'a os_state_scheme \<Rightarrow> uptr \<times> 'a os_state_scheme" where
  "internal_filesize buf fd s =
     (let (r, st, s) = internal_fstat fd buf s in if r \<noteq> 0 then (- 1, s) else (snd st, s))"

definition internal_dup :: "s32 \<Rightarrow> 'a os_state_scheme \<Rightarrow> uptr \<times> 'a os_state_scheme" where
  "internal_dup oldfd s = internal_syscall SYS_dup [sx oldfd] s"

definition internal_dup2 :: "s32 \<Rightarrow> s32 \<Rightarrow> 'a os_state_scheme \<Rightarrow> uptr \<times> 'a os_state_scheme" where
  "internal_dup2 oldfd newfd s = internal_syscall SYS_dup3 [sx oldfd, sx newfd, 0] s"

definition internal_readlink ::
    "'s os_env \<Rightarrow> uptr \<Rightarrow> uptr \<Rightarrow> uptr \<Rightarrow> 'a os_state_scheme \<Rightarrow> uptr \<times> 'a os_state_scheme" where
  "internal_readlink E path buf bufsize s =
     (let xs = os_bytes s (sys_pos s);
          (r, s) = internal_syscall SYS_readlinkat [AT_FDCWD, path, buf, bufsize] s
      in (r, if os_failed E r then s else s\<lparr>mem := store_bytes buf (take (unat r) xs) (mem s)\<rparr>))"

definition internal_unlink :: "uptr \<Rightarrow> 'a os_state_scheme \<Rightarrow> uptr \<times> 'a os_state_scheme" where
  "internal_unlink path s = internal_syscall SYS_unlinkat [AT_FDCWD, path, 0] s"

definition internal_rename :: "uptr \<Rightarrow> uptr \<Rightarrow> 'a os_state_scheme \<Rightarrow> uptr \<times> 'a os_state_scheme" where
  "internal_rename oldpath newpath s = internal_syscall SYS_renameat [AT_FDCWD, oldpath, AT_FDCWD, newpath] s"

definition internal_sched_yield :: "'a os_state_scheme \<Rightarrow> uptr \<times> 'a os_state_scheme" where
  "internal_sched_yield s = internal_syscall SYS_sched_yield [] s"

text \<open>The \<open>struct timespec\<close> of the sleep: seconds and nanoseconds.\<close>

definition usleep_timespec :: "u64 \<Rightarrow> u64 \<times> u64" where
  "usleep_timespec useconds = (useconds div 1000000, (useconds mod 1000000) * 1000)"

definition internal_usleep :: "uptr \<Rightarrow> u64 \<Rightarrow> 'a os_state_scheme \<Rightarrow> 'a os_state_scheme" where
  "internal_usleep ts useconds s =
     (let s = s\<lparr>mem := store64 (ts + 8) (snd (usleep_timespec useconds))
                        (store64 ts (fst (usleep_timespec useconds)) (mem s))\<rparr>
      in snd (internal_syscall SYS_nanosleep [ts, ts] s))"

definition internal_execve :: "uptr \<Rightarrow> uptr \<Rightarrow> uptr \<Rightarrow> 'a os_state_scheme \<Rightarrow> uptr \<times> 'a os_state_scheme" where
  "internal_execve filename argv envp s = internal_syscall SYS_execve [filename, argv, envp] s"

definition internal_exit :: "s32 \<Rightarrow> 'b res" where
  "internal_exit exitcode = Inl (Exit (sint exitcode))"

section \<open>Signals\<close>

text \<open>
  A signal set is an array of words; \<open>sigset_words\<close> of them. A successful \<open>rt_sigprocmask\<close> with
  \<open>SIG_SETMASK\<close> stores the old mask and installs the new one. A set is passed with the address it has.
\<close>

definition internal_sigprocmask ::
    "uptr \<Rightarrow> uptr \<times> u64 list option \<Rightarrow> uptr \<Rightarrow> 'a os_state_scheme \<Rightarrow> uptr \<times> u64 list \<times> 'a os_state_scheme" where
  "internal_sigprocmask how = (\<lambda>(k_set, new_mask) k_oldset s.
     (let (r, s) = internal_syscall SYS_rt_sigprocmask [how, k_set, k_oldset, 8] s;
          old_mask = sig_mask s
      in if r = 0 then (r, old_mask, (case new_mask of None \<Rightarrow> s | Some k \<Rightarrow> s\<lparr>sig_mask := k\<rparr>))
         else (r, old_mask, s)))"

definition internal_sigfillset :: "'s os_env \<Rightarrow> u64 list" where
  "internal_sigfillset E = replicate (sigset_words E) (- 1)"

definition internal_sigemptyset :: "'s os_env \<Rightarrow> u64 list" where
  "internal_sigemptyset E = replicate (sigset_words E) 0"

definition internal_sigdelset :: "u64 list \<Rightarrow> int \<Rightarrow> u64 list res" where
  "internal_sigdelset sset signum =
     (let signum = signum - 1 in
      andThen (check (0 \<le> signum)) (\<lambda>_.
      andThen (check (signum < int (length sset * 8 * 8))) (\<lambda>_.
      let idx = nat signum div 64;
          bt = nat signum mod 64
      in Inr (sset[idx := sset ! idx AND NOT (push_bit bt 1)]))))"

definition internal_sigismember :: "u64 list \<Rightarrow> int \<Rightarrow> bool res" where
  "internal_sigismember sset signum =
     (let signum = signum - 1 in
      andThen (check (0 \<le> signum)) (\<lambda>_.
      andThen (check (signum < int (length sset * 8 * 8))) (\<lambda>_.
      let idx = nat signum div 64;
          bt = nat signum mod 64
      in Inr (sset ! idx AND push_bit bt 1 \<noteq> 0))))"

abbreviation (input) SIG_SETMASK :: uptr where "SIG_SETMASK \<equiv> 2"

definition SetSigProcMask ::
    "uptr \<times> u64 list \<Rightarrow> uptr \<Rightarrow> 'a os_state_scheme \<Rightarrow> (u64 list \<times> 'a os_state_scheme) res" where
  "SetSigProcMask sset oldset s =
     (let (r, old, s) = internal_sigprocmask SIG_SETMASK (fst sset, Some (snd sset)) oldset s
      in andThen (check (r = 0)) (\<lambda>_. Inr (old, s)))"

text \<open>The constructor of \<open>ScopedBlockSignals\<close> returns \<open>saved_\<close>, which is also what \<open>copy\<close> receives.\<close>

definition ScopedBlockSignals ::
    "'s os_env \<Rightarrow> uptr \<Rightarrow> uptr \<Rightarrow> 'a os_state_scheme \<Rightarrow> (u64 list \<times> 'a os_state_scheme) res" where
  "ScopedBlockSignals E set_at saved_at s =
     (let sset = internal_sigfillset E in
      andThen (internal_sigdelset sset 33) (\<lambda>sset.
      andThen (internal_sigdelset sset 31) (\<lambda>sset.
      SetSigProcMask (set_at, sset) saved_at s)))"

definition ScopedBlockSignals_destroy ::
    "uptr \<Rightarrow> u64 list \<Rightarrow> 'a os_state_scheme \<Rightarrow> 'a os_state_scheme res" where
  "ScopedBlockSignals_destroy saved_at saved s = andThen (SetSigProcMask (saved_at, saved) 0 s) (\<lambda>(_, s). Inr s)"

definition internal_sigaltstack :: "uptr \<Rightarrow> uptr \<Rightarrow> 'a os_state_scheme \<Rightarrow> uptr \<times> 'a os_state_scheme" where
  "internal_sigaltstack ss oss s = internal_syscall SYS_sigaltstack [ss, oss] s"

abbreviation (input) SA_RESTORER :: s32 where "SA_RESTORER \<equiv> 0x04000000"

text \<open>
  \<open>u_act\<close> is the action to install, \<open>None\<close> for a null pointer. The second result is what the
  caller finds in \<open>oldact\<close>, when it passes one: the previous action on success.
\<close>

definition internal_sigaction_norestorer ::
    "uptr \<Rightarrow> uptr \<Rightarrow> s32 \<Rightarrow> sigaction option \<Rightarrow> sigaction option \<Rightarrow> 'a os_state_scheme \<Rightarrow>
     s32 \<times> sigaction option \<times> 'a os_state_scheme" where
  "internal_sigaction_norestorer k_act_at k_oldact_at signum u_act u_oldact s =
     (let k_act = map_option (\<lambda>a. \<lparr> sa_handler = sa_handler a, sa_mask = take 1 (sa_mask a),
                    sa_flags = sa_flags a OR SA_RESTORER, sa_restorer = sa_restorer a \<rparr>) u_act;
          k_oldact = sig_actions s signum;
          (result, s) = internal_syscall SYS_rt_sigaction 
            [sx signum, if u_act = None then 0 else k_act_at, if u_oldact = None then 0 else k_oldact_at, 8] s;
          s = (case k_act of Some a \<Rightarrow> if result = 0 then s\<lparr>sig_actions := (sig_actions s)(signum := a)\<rparr> else s
               | None \<Rightarrow> s);
          oldact = (case u_oldact of None \<Rightarrow> None
                    | Some u \<Rightarrow> if result = 0
                        then Some (u\<lparr>sa_handler := sa_handler k_oldact,
                                    sa_mask := sa_mask k_oldact @ drop (length (sa_mask k_oldact)) (sa_mask u),
                                    sa_flags := sa_flags k_oldact, sa_restorer := sa_restorer k_oldact\<rparr>)
                        else Some u)
      in (ucast result, oldact, s))"

abbreviation (input) SIGILL :: s32 where "SIGILL \<equiv> 4"
abbreviation (input) SIGTRAP :: s32 where "SIGTRAP \<equiv> 5"
abbreviation (input) SIGABRT :: s32 where "SIGABRT \<equiv> 6"
abbreviation (input) SIGBUS :: s32 where "SIGBUS \<equiv> 7"
abbreviation (input) SIGFPE :: s32 where "SIGFPE \<equiv> 8"
abbreviation (input) SIGSEGV :: s32 where "SIGSEGV \<equiv> 11"

definition GetHandleSignalModeImpl :: "signal_flags \<Rightarrow> s32 \<Rightarrow> HandleSignalMode" where
  "GetHandleSignalModeImpl F signum =
     (if signum = SIGABRT then handle_abort F
      else if signum = SIGILL then handle_sigill F
      else if signum = SIGTRAP then handle_sigtrap F
      else if signum = SIGFPE then handle_sigfpe F
      else if signum = SIGSEGV then handle_segv F
      else if signum = SIGBUS then handle_sigbus F
      else kHandleSignalNo)"

definition GetHandleSignalMode :: "signal_flags \<Rightarrow> s32 \<Rightarrow> HandleSignalMode" where
  "GetHandleSignalMode F signum =
     (let result = GetHandleSignalModeImpl F signum in
      if result = kHandleSignalYes \<and> \<not> allow_user_segv_handler F then kHandleSignalExclusive else result)"

text \<open>\<open>SignalContext\<close>: what the kernel says of a signal, and the registers at the fault.\<close>

record signal_info =
  si_signo :: s32
  si_code :: s32
  si_addr :: uptr
  reg_err :: uptr
  reg_rip :: uptr
  reg_rsp :: uptr
  reg_rbp :: uptr

definition SC_GetAddress :: "signal_info \<Rightarrow> uptr" where "SC_GetAddress si = si_addr si"

definition SC_IsMemoryAccess :: "signal_info \<Rightarrow> bool" where
  "SC_IsMemoryAccess si \<longleftrightarrow> si_signo si = SIGSEGV \<or> si_signo si = SIGBUS"

definition SC_GetType :: "signal_info \<Rightarrow> s32" where "SC_GetType si = si_signo si"

definition SC_Describe :: "signal_info \<Rightarrow> string" where
  "SC_Describe si =
     (if SC_GetType si = SIGFPE then ''FPE''
      else if SC_GetType si = SIGILL then ''ILL''
      else if SC_GetType si = SIGABRT then ''ABRT''
      else if SC_GetType si = SIGSEGV then ''SEGV''
      else if SC_GetType si = SIGBUS then ''BUS''
      else if SC_GetType si = SIGTRAP then ''TRAP''
      else ''UNKNOWN SIGNAL'')"

datatype WriteFlag = WF_Unknown | WF_Write | WF_Read

definition SC_GetWriteFlag :: "signal_info \<Rightarrow> WriteFlag" where
  "SC_GetWriteFlag si = (let PF_WRITE = push_bit 1 1; err = reg_err si in if err AND PF_WRITE \<noteq> 0 then WF_Write else WF_Read)"

definition SC_IsTrueFaultingAddress :: "signal_info \<Rightarrow> bool" where
  "SC_IsTrueFaultingAddress si \<longleftrightarrow> si_signo si = SIGSEGV \<and> si_code si \<noteq> 128"

definition GetPcSpBp :: "signal_info \<Rightarrow> uptr \<times> uptr \<times> uptr" where
  "GetPcSpBp si = (reg_rip si, reg_rsp si, reg_rbp si)"

section \<open>Processes, threads and time\<close>

definition GetTid :: "'a os_state_scheme \<Rightarrow> uptr \<times> 'a os_state_scheme" where
  "GetTid s = internal_syscall SYS_gettid [] s"

definition TgKill :: "s32 \<Rightarrow> uptr \<Rightarrow> s32 \<Rightarrow> 'a os_state_scheme \<Rightarrow> s32 \<times> 'a os_state_scheme" where
  "TgKill pid tid sig s = int_syscall SYS_tgkill [sx pid, tid, sx sig] s"

text \<open>\<open>gettimeofday\<close> fills \<open>tv\<close> when it succeeds; the result is not checked, and \<open>tv\<close> was cleared.\<close>

definition gettimeofday :: "'s os_env \<Rightarrow> uptr \<Rightarrow> 'a os_state_scheme \<Rightarrow> (u64 \<times> u64) \<times> 'a os_state_scheme" where
  "gettimeofday E tv s =
     (let t = os_time s (sys_pos s); (r, s) = internal_syscall SYS_gettimeofday [tv, 0] s
      in (if os_failed E r then (0, 0) else t, s))"

definition NanoTime :: "'s os_env \<Rightarrow> uptr \<Rightarrow> 'a os_state_scheme \<Rightarrow> u64 \<times> 'a os_state_scheme" where
  "NanoTime E tv s = (let (t, s) = gettimeofday E tv s in (fst t * 1000 * 1000 * 1000 + snd t * 1000, s))"

definition SecondTime :: "'s os_env \<Rightarrow> uptr \<Rightarrow> 'a os_state_scheme \<Rightarrow> u64 \<times> 'a os_state_scheme" where
  "SecondTime E tv s = (let (t, s) = gettimeofday E tv s in (fst t, s))"

definition internal_clock_gettime :: "uptr \<Rightarrow> uptr \<Rightarrow> 'a os_state_scheme \<Rightarrow> uptr \<times> 'a os_state_scheme" where
  "internal_clock_gettime clk_id tp s = internal_syscall SYS_clock_gettime [clk_id, tp] s"

abbreviation (input) FUTEX_WAIT_PRIVATE :: uptr where "FUTEX_WAIT_PRIVATE \<equiv> 128"
abbreviation (input) FUTEX_WAKE_PRIVATE :: uptr where "FUTEX_WAKE_PRIVATE \<equiv> 129"

definition FutexWait :: "uptr \<Rightarrow> u32 \<Rightarrow> 'a os_state_scheme \<Rightarrow> 'a os_state_scheme" where
  "FutexWait p cmp s = snd (internal_syscall SYS_futex [p, FUTEX_WAIT_PRIVATE, ucast cmp, 0, 0, 0] s)"

definition FutexWake :: "uptr \<Rightarrow> u32 \<Rightarrow> 'a os_state_scheme \<Rightarrow> 'a os_state_scheme" where
  "FutexWake p n s = snd (internal_syscall SYS_futex [p, FUTEX_WAKE_PRIVATE, ucast n, 0, 0, 0] s)"

definition internal_ptrace :: "s32 \<Rightarrow> s32 \<Rightarrow> uptr \<Rightarrow> uptr \<Rightarrow> 'a os_state_scheme \<Rightarrow> uptr \<times> 'a os_state_scheme" where
  "internal_ptrace request pid addr data s = internal_syscall SYS_ptrace [sx request, sx pid, addr, data] s"

definition internal_waitpid :: "s32 \<Rightarrow> uptr \<Rightarrow> s32 \<Rightarrow> 'a os_state_scheme \<Rightarrow> uptr \<times> 'a os_state_scheme" where
  "internal_waitpid pid status_at options s = internal_syscall SYS_wait4 [sx pid, status_at, sx options, 0] s"

definition internal_getpid :: "'a os_state_scheme \<Rightarrow> uptr \<times> 'a os_state_scheme" where
  "internal_getpid s = internal_syscall SYS_getpid [] s"

definition internal_getppid :: "'a os_state_scheme \<Rightarrow> uptr \<times> 'a os_state_scheme" where
  "internal_getppid s = internal_syscall SYS_getppid [] s"

definition internal_getdents ::
    "'s os_env \<Rightarrow> uptr \<Rightarrow> uptr \<Rightarrow> u32 \<Rightarrow> 'a os_state_scheme \<Rightarrow> uptr \<times> 'a os_state_scheme" where
  "internal_getdents E fd dirp n s =
     (let xs = os_bytes s (sys_pos s);
          (r, s) = internal_syscall SYS_getdents64 [fd, dirp, ucast n] s
      in (r, if os_failed E r then s else s\<lparr>mem := store_bytes dirp (take (unat r) xs) (mem s)\<rparr>))"

definition internal_lseek :: "uptr \<Rightarrow> uptr \<Rightarrow> s32 \<Rightarrow> 'a os_state_scheme \<Rightarrow> uptr \<times> 'a os_state_scheme" where
  "internal_lseek fd offset whence s = internal_syscall SYS_lseek [fd, offset, sx whence] s"

definition internal_prctl ::
    "s32 \<Rightarrow> uptr \<Rightarrow> uptr \<Rightarrow> uptr \<Rightarrow> uptr \<Rightarrow> 'a os_state_scheme \<Rightarrow> uptr \<times> 'a os_state_scheme" where
  "internal_prctl option arg2 arg3 arg4 arg5 s = internal_syscall SYS_prctl [sx option, arg2, arg3, arg4, arg5] s"

definition internal_arch_prctl :: "s32 \<Rightarrow> uptr \<Rightarrow> 'a os_state_scheme \<Rightarrow> uptr \<times> 'a os_state_scheme" where
  "internal_arch_prctl option arg2 s = internal_syscall SYS_arch_prctl [sx option, arg2] s"

abbreviation (input) SIGCHLD :: uptr where "SIGCHLD \<equiv> 17"

definition internal_fork :: "'a os_state_scheme \<Rightarrow> s32 \<times> 'a os_state_scheme" where
  "internal_fork s = int_syscall SYS_clone [SIGCHLD, 0] s"

text \<open>The parent's side of \<open>internal_clone\<close>; the child starts with \<open>fn\<close> and \<open>arg\<close> on its stack.\<close>

abbreviation (input) EINVAL_ret :: uptr where "EINVAL_ret \<equiv> - 22"

definition internal_clone ::
    "uptr \<Rightarrow> uptr \<Rightarrow> s32 \<Rightarrow> uptr \<Rightarrow> uptr \<Rightarrow> uptr \<Rightarrow> uptr \<Rightarrow> 'a os_state_scheme \<Rightarrow> (uptr \<times> 'a os_state_scheme) res" where
  "internal_clone fn child_stack flags arg parent_tidptr newtls child_tidptr s =
     (if fn = 0 \<or> child_stack = 0 then Inr (EINVAL_ret, s)
      else andThen (check (child_stack mod 16 = 0)) (\<lambda>_.
        let child_stack = child_stack - 2 * 8;
            s = s\<lparr>mem := store64 child_stack fn (mem s)\<rparr>;
            s = s\<lparr>mem := store64 (child_stack + 8) arg (mem s)\<rparr>
        in Inr (internal_syscall SYS_clone [sx flags, child_stack, parent_tidptr, child_tidptr, newtls] s)))"

definition CheckNoDeepBind :: "s32 \<Rightarrow> unit res" where
  "CheckNoDeepBind flag = (if flag AND 8 \<noteq> 0 then Inl Died else Inr ())"

section \<open>Files\<close>

abbreviation (input) kInvalidFd :: s32 where "kInvalidFd \<equiv> - 1"

text \<open>
  \<open>ReserveStandardFds\<close> duplicates a descriptor until it is above 2 and closes the ones below it
  met on the way. \<open>used\<close> has three entries; \<open>internal_dup\<close> can fail with a negative number.
\<close>

fun reserve_loop :: "nat \<Rightarrow> s32 \<Rightarrow> bool list \<Rightarrow> 'a os_state_scheme \<Rightarrow> (s32 \<times> bool list \<times> 'a os_state_scheme) res" where
  "reserve_loop 0 fd used s = Inl Out_of_fuel"
| "reserve_loop (Suc n) fd used s =
     (if sint fd \<le> 2 then
        if sint fd < 0 then Inl Out_of_bounds
        else let used = used[nat (sint fd) := True]; (r, s) = internal_dup fd s
             in reserve_loop n (ucast r) used s
      else Inr (fd, used, s))"

definition ReserveStandardFds :: "nat \<Rightarrow> s32 \<Rightarrow> 'a os_state_scheme \<Rightarrow> (s32 \<times> 'a os_state_scheme) res" where
  "ReserveStandardFds fuel fd s =
     andThen (check (0 \<le> sint fd)) (\<lambda>_.
     if 2 < sint fd then Inr (fd, s)
     else andThen (reserve_loop fuel fd [False, False, False] s) (\<lambda>(fd, used, s).
       Inr (fd, foldl (\<lambda>s i. if used ! i then snd (internal_close (of_nat i) s) else s) s [0, 1, 2])))"

definition ShouldMockFailureToOpen :: "'s os_env \<Rightarrow> memory \<Rightarrow> uptr \<Rightarrow> bool" where
  "ShouldMockFailureToOpen E m path \<longleftrightarrow>
     test_only_emulate_no_memorymap E \<and> internal_strncmp m path (lit_proc E) 6 = 0"

datatype FileAccessMode = RdOnly | WrOnly | RdWr

fun open_flags :: "FileAccessMode \<Rightarrow> s32" where
  "open_flags RdOnly = O_RDONLY"
| "open_flags WrOnly = O_WRONLY OR O_CREAT OR O_TRUNC"
| "open_flags RdWr = O_RDWR OR O_CREAT"

definition OpenFile ::
    "nat \<Rightarrow> 'a os_state_scheme os_env \<Rightarrow> uptr \<Rightarrow> FileAccessMode \<Rightarrow> 'a os_state_scheme \<Rightarrow> (s32 \<times> 'a os_state_scheme) res" where
  "OpenFile fuel E filename mode s =
     (if ShouldMockFailureToOpen E (mem s) filename then Inr (kInvalidFd, s)
      else
        let (r, s) = internal_open_mode filename (open_flags mode) 0x1B0 s;
            r = (ucast r :: s32)
        in if os_failed E (sx r) then Inr (kInvalidFd, s) else ReserveStandardFds fuel r s)"

definition CloseFile :: "s32 \<Rightarrow> 'a os_state_scheme \<Rightarrow> 'a os_state_scheme" where
  "CloseFile fd s = snd (internal_close fd s)"

text \<open>\<open>None\<close> is the result \<open>false\<close>, \<open>Some\<close> the number of bytes.\<close>

definition ReadFromFile ::
    "'a os_state_scheme os_env \<Rightarrow> s32 \<Rightarrow> uptr \<Rightarrow> uptr \<Rightarrow> 'a os_state_scheme \<Rightarrow>
     (uptr option \<times> 'a os_state_scheme) res" where
  "ReadFromFile E fd buff buff_size s =
     andThen (internal_read E fd buff buff_size s) (\<lambda>(r, s).
     Inr (if os_failed E r then None else Some r, s))"

definition WriteToFile ::
    "'a os_state_scheme os_env \<Rightarrow> s32 \<Rightarrow> uptr \<Rightarrow> uptr \<Rightarrow> 'a os_state_scheme \<Rightarrow>
     (uptr option \<times> 'a os_state_scheme) res" where
  "WriteToFile E fd buff buff_size s =
     andThen (internal_write E fd buff buff_size s) (\<lambda>(r, s).
     Inr (if os_failed E r then None else Some r, s))"

abbreviation (input) PROT_READ :: s32 where "PROT_READ \<equiv> 1"
abbreviation (input) PROT_WRITE :: s32 where "PROT_WRITE \<equiv> 2"
abbreviation (input) MAP_SHARED :: s32 where "MAP_SHARED \<equiv> 1"
abbreviation (input) MAP_PRIVATE :: s32 where "MAP_PRIVATE \<equiv> 2"
abbreviation (input) MAP_FIXED :: s32 where "MAP_FIXED \<equiv> 0x10"
abbreviation (input) MAP_ANON :: s32 where "MAP_ANON \<equiv> 0x20"

text \<open>The address and the size of the mapping; the stack object for \<open>fstat\<close> is at \<open>st\<close>.\<close>

definition MapFileToMemory ::
    "nat \<Rightarrow> 'a os_state_scheme os_env \<Rightarrow> uptr \<Rightarrow> uptr \<Rightarrow> 'a os_state_scheme \<Rightarrow>
     (uptr \<times> uptr \<times> 'a os_state_scheme) res" where
  "MapFileToMemory fuel E st file_name s =
     andThen (OpenFile fuel E file_name RdOnly s) (\<lambda>(fd, s).
     andThen (check (fd \<noteq> kInvalidFd)) (\<lambda>_.
     let (fsize, s) = internal_filesize st fd s in
     andThen (check (fsize \<noteq> - 1)) (\<lambda>_.
     andThen (check (0 < fsize)) (\<lambda>_.
     andThen (RoundUpTo fsize (page_size (os_globals E))) (\<lambda>buff_size.
     let (p, s) = internal_mmap_file 0 buff_size PROT_READ MAP_PRIVATE fd 0 s
     in Inr (if os_failed E p then 0 else p, buff_size, s))))))"

definition MapWritableFileToMemory ::
    "'s os_env \<Rightarrow> uptr \<Rightarrow> uptr \<Rightarrow> s32 \<Rightarrow> uptr \<Rightarrow> 'a os_state_scheme \<Rightarrow> uptr \<times> 'a os_state_scheme" where
  "MapWritableFileToMemory E addr sz fd offset s =
     (let flags = MAP_SHARED;
          flags = (if addr \<noteq> 0 then flags OR MAP_FIXED else flags);
          (p, s) = internal_mmap_file addr sz (PROT_READ OR PROT_WRITE) flags fd offset s
      in if os_failed E p then (0, s) else (p, s))"

definition MprotectNoAccess :: "uptr \<Rightarrow> uptr \<Rightarrow> 'a os_state_scheme \<Rightarrow> bool \<times> 'a os_state_scheme" where
  "MprotectNoAccess addr sz s = (let (r, s) = internal_mprotect addr sz 0 s in (0 = r, s))"

definition MprotectReadOnly :: "uptr \<Rightarrow> uptr \<Rightarrow> 'a os_state_scheme \<Rightarrow> bool \<times> 'a os_state_scheme" where
  "MprotectReadOnly addr sz s = (let (r, s) = internal_mprotect addr sz PROT_READ s in (0 = r, s))"

definition S_ISREG :: "u32 \<Rightarrow> bool" where "S_ISREG mode \<longleftrightarrow> mode AND 0xF000 = 0x8000"

definition S_ISDIR :: "u32 \<Rightarrow> bool" where "S_ISDIR mode \<longleftrightarrow> mode AND 0xF000 = 0x4000"

definition FileExists :: "'s os_env \<Rightarrow> uptr \<Rightarrow> uptr \<Rightarrow> 'a os_state_scheme \<Rightarrow> bool \<times> 'a os_state_scheme" where
  "FileExists E st filename s =
     (if ShouldMockFailureToOpen E (mem s) filename then (False, s)
      else let (r, info, s) = internal_stat filename st s in if r \<noteq> 0 then (False, s) else (S_ISREG (fst info), s))"

definition DirExists :: "uptr \<Rightarrow> uptr \<Rightarrow> 'a os_state_scheme \<Rightarrow> bool \<times> 'a os_state_scheme" where
  "DirExists st path s =
     (let (r, info, s) = internal_stat path st s in if r \<noteq> 0 then (False, s) else (S_ISDIR (fst info), s))"

text \<open>
  A named mapping is a file in \<open>/dev/shm\<close> that is unlinked at once. \<open>format_shmname\<close> is the
  formatted write of the name into the array at \<open>shmname\<close>; the last result are the new flags.
\<close>

definition GetNamedMappingFd ::
    "nat \<Rightarrow> 'a os_state_scheme os_env \<Rightarrow> (uptr \<Rightarrow> uptr \<Rightarrow> memory \<Rightarrow> memory) \<Rightarrow> uptr \<Rightarrow> uptr \<Rightarrow> uptr \<Rightarrow> s32 \<Rightarrow>
     'a os_state_scheme \<Rightarrow> (s32 \<times> s32 \<times> 'a os_state_scheme) res" where
  "GetNamedMappingFd fuel E format_shmname shmname name sz flags s =
     (if \<not> decorate_proc_maps E \<or> name = 0 then Inr (- 1, flags, s)
      else
        andThen (internal_strlen fuel (mem s) name) (\<lambda>len.
        andThen (check (len < 200 - 10)) (\<lambda>_.
        let (pid, s) = internal_getpid s;
            s = s\<lparr>mem := format_shmname pid name (mem s)\<rparr>;
            (r, s) = internal_open_mode shmname (O_RDWR OR O_CREAT OR O_TRUNC OR O_CLOEXEC) 0x1C0 s
        in andThen (ReserveStandardFds fuel (ucast r) s) (\<lambda>(fd, s).
           andThen (check (0 \<le> sint fd)) (\<lambda>_.
           andThen (internal_ftruncate E fd sz s) (\<lambda>(r, s).
           andThen (check ((ucast r :: s32) = 0)) (\<lambda>_.
           let (r, s) = internal_unlink shmname s in
           andThen (check ((ucast r :: s32) = 0)) (\<lambda>_.
           Inr (fd, flags AND NOT MAP_ANON, s))))))))) "

definition MmapNamed ::
    "nat \<Rightarrow> 'a os_state_scheme os_env \<Rightarrow> (uptr \<Rightarrow> uptr \<Rightarrow> memory \<Rightarrow> memory) \<Rightarrow> uptr \<Rightarrow> uptr \<Rightarrow> uptr \<Rightarrow> s32 \<Rightarrow> s32 \<Rightarrow> uptr \<Rightarrow>
     'a os_state_scheme \<Rightarrow> (uptr \<times> 'a os_state_scheme) res" where
  "MmapNamed fuel E format_shmname shmname addr len prot flags name s =
     andThen (GetNamedMappingFd fuel E format_shmname shmname name len flags s) (\<lambda>(fd, flags, s).
     Inr (internal_mmap_file addr len prot flags fd 0 s))"

definition IsPathSeparator :: "u8 \<Rightarrow> bool" where "IsPathSeparator c \<longleftrightarrow> c = 0x2F"

definition IsAbsolutePath :: "memory \<Rightarrow> uptr \<Rightarrow> bool" where
  "IsAbsolutePath m path \<longleftrightarrow> path \<noteq> 0 \<and> IsPathSeparator (m path)"

text \<open>The segments of the process map, as the reader of \<open>/proc/self/maps\<close> returns them one by one.\<close>

record memory_segment =
  seg_start :: uptr
  seg_end :: uptr
  seg_filename :: uptr
  seg_executable :: bool

fun code_range :: "nat \<Rightarrow> memory \<Rightarrow> uptr \<Rightarrow> memory_segment list \<Rightarrow> (uptr \<times> uptr) option res" where
  "code_range fuel m module_name [] = Inr None"
| "code_range fuel m module_name (seg # segs) =
     (if seg_executable seg then
        andThen (internal_strcmp fuel m module_name (seg_filename seg)) (\<lambda>c.
        if c = 0 then Inr (Some (seg_start seg, seg_end seg)) else code_range fuel m module_name segs)
      else code_range fuel m module_name segs)"

definition GetCodeRangeForFile ::
    "nat \<Rightarrow> 's os_env \<Rightarrow> memory_segment list \<Rightarrow> uptr \<Rightarrow> 'a os_state_scheme \<Rightarrow>
     ((uptr \<times> uptr) option \<times> 'a os_state_scheme) res" where
  "GetCodeRangeForFile fuel E proc_maps module_name s =
     andThen (vec_Initialize (os_globals E) 1 4096 s) (\<lambda>(buff, s).
     andThen (vec_resize (os_globals E) 1 (0 :: u8) 4096 buff s) (\<lambda>(buff, s).
     andThen (code_range fuel (mem s) module_name proc_maps) (\<lambda>r.
     andThen (vec_Destroy (os_globals E) buff s) (\<lambda>s. Inr (r, s)))))"

text \<open>The lines \<open>DumpProcessMap\<close> prints.\<close>

definition DumpProcessMap ::
    "'s os_env \<Rightarrow> memory_segment list \<Rightarrow> 'a os_state_scheme \<Rightarrow>
     ((uptr \<times> uptr \<times> uptr) list \<times> 'a os_state_scheme) res" where
  "DumpProcessMap E proc_maps s =
     andThen (MmapOrDie (os_globals E) 4095 s) (\<lambda>(filename, s).
     let out = map (\<lambda>g. (seg_start g, seg_end g, seg_filename g)) proc_maps in
     andThen (UnmapOrDie (os_globals E) filename 4095 s) (\<lambda>s. Inr (out, s)))"

section \<open>The environment and the arguments\<close>

fun env_scan :: "nat \<Rightarrow> memory \<Rightarrow> uptr \<Rightarrow> uptr \<Rightarrow> uptr \<Rightarrow> uptr \<Rightarrow> uptr \<Rightarrow> uptr res" where
  "env_scan 0 m environ len name namelen p = Inl Out_of_fuel"
| "env_scan (Suc n) m environ len name namelen p =
     (if m p \<noteq> 0 then
        let endp = internal_memchr m p 0 (len - (p - environ)) in
        if endp = 0 then Inr 0
        else if internal_memcmp m p name namelen = 0 \<and> m (p + namelen) = 0x3D then Inr (p + namelen + 1)
        else env_scan n m environ len name namelen (endp + 1)
      else Inr 0)"

definition GetEnv ::
    "nat \<Rightarrow> 'a os_state_scheme os_env \<Rightarrow> uptr \<Rightarrow> 'a os_state_scheme \<Rightarrow> (uptr \<times> 'a os_state_scheme) res" where
  "GetEnv fuel E name s =
     (let s = (if \<not> env_inited s then
                 let s = s\<lparr>env_inited := True\<rparr>;
                     (r, s) = read_file_to_buffer E ''/proc/self/environ'' s
                 in (case r of Some (buf, sz, len) \<Rightarrow> s\<lparr>env_buf := buf, env_len := len\<rparr>
                     | None \<Rightarrow> s\<lparr>env_buf := 0\<rparr>)
               else s)
      in if env_buf s = 0 \<or> env_len s = 0 then Inr (0, s)
         else andThen (internal_strlen fuel (mem s) name) (\<lambda>namelen.
              andThen (env_scan fuel (mem s) (env_buf s) (env_len s) name namelen (env_buf s)) (\<lambda>r.
              Inr (r, s))))"

definition GetPwd ::
    "nat \<Rightarrow> 'a os_state_scheme os_env \<Rightarrow> uptr \<Rightarrow> 'a os_state_scheme \<Rightarrow> (uptr \<times> 'a os_state_scheme) res" where
  "GetPwd fuel E lit_pwd s = GetEnv fuel E lit_pwd s"

text \<open>
  The array is a list of its \<open>arr_size\<close> pointers. The code checks the index after it has
  written, and does not check the write of the final null pointer.
\<close>

fun null_sep :: "nat \<Rightarrow> memory \<Rightarrow> uptr \<Rightarrow> uptr \<Rightarrow> nat \<Rightarrow> uptr list \<Rightarrow> (nat \<times> uptr list) res" where
  "null_sep 0 m buff i n arr = Inl Out_of_fuel"
| "null_sep (Suc k) m buff i n arr =
     (if m (buff + i) = 0 then
        if m (buff + i + 1) = 0 then Inr (n, arr)
        else if length arr \<le> n then Inl Out_of_bounds
        else let arr = arr[n := buff + i + 1] in
             andThen (check (n \<le> length arr - 1)) (\<lambda>_. null_sep k m buff (i + 1) (n + 1) arr)
      else null_sep k m buff (i + 1) n arr)"

definition ReadNullSepFileToArray ::
    "nat \<Rightarrow> 'a os_state_scheme os_env \<Rightarrow> string \<Rightarrow> nat \<Rightarrow> 'a os_state_scheme \<Rightarrow>
     (uptr list \<times> 'a os_state_scheme) res" where
  "ReadNullSepFileToArray fuel E path arr_size s =
     andThen (MmapOrDie (os_globals E) (of_nat arr_size * 8) s) (\<lambda>(_, s).
     let arr = replicate arr_size 0; (r, s) = read_file_to_buffer E path s in
     case r of None \<Rightarrow> Inr (arr[0 := 0], s)
     | Some (buff, buff_size, buff_len) \<Rightarrow>
         andThen (null_sep fuel (mem s) buff 1 1 (arr[0 := buff])) (\<lambda>(n, arr).
         if length arr \<le> n then Inl Out_of_bounds else Inr (arr[n := 0], s)))"

text \<open>\<open>argv\<close> and \<open>envp\<close> are pointers into the stack, or the arrays read from \<open>/proc\<close>.\<close>

datatype string_array = On_stack uptr | Read_array "uptr list"

fun count_args :: "nat \<Rightarrow> memory \<Rightarrow> uptr \<Rightarrow> s32 \<Rightarrow> s32 res" where
  "count_args 0 m stack_end argc = Inl Out_of_fuel"
| "count_args (Suc n) m stack_end argc =
     (if load64 m (stack_end + 8 * sx (argc + 1)) \<noteq> 0 then count_args n m stack_end (argc + 1) else Inr argc)"

definition GetArgsAndEnv ::
    "nat \<Rightarrow> 'a os_state_scheme os_env \<Rightarrow> uptr option \<Rightarrow> 'a os_state_scheme \<Rightarrow>
     (string_array \<times> string_array \<times> 'a os_state_scheme) res" where
  "GetArgsAndEnv fuel E libc_stack_end s =
     (case libc_stack_end of
        Some stack_end \<Rightarrow>
          andThen (count_args fuel (mem s) stack_end 0) (\<lambda>argc.
          Inr (On_stack (stack_end + 8), On_stack (stack_end + 8 * sx (argc + 2)), s))
      | None \<Rightarrow>
          andThen (ReadNullSepFileToArray fuel E ''/proc/self/cmdline'' 2000 s) (\<lambda>(argv, s).
          andThen (ReadNullSepFileToArray fuel E ''/proc/self/environ'' 2000 s) (\<lambda>(envp, s).
          Inr (Read_array argv, Read_array envp, s))))"

definition GetArgv ::
    "nat \<Rightarrow> 'a os_state_scheme os_env \<Rightarrow> uptr option \<Rightarrow> 'a os_state_scheme \<Rightarrow> (string_array \<times> 'a os_state_scheme) res" where
  "GetArgv fuel E libc_stack_end s = andThen (GetArgsAndEnv fuel E libc_stack_end s) (\<lambda>(argv, envp, s). Inr (argv, s))"

definition GetEnviron ::
    "nat \<Rightarrow> 'a os_state_scheme os_env \<Rightarrow> uptr option \<Rightarrow> 'a os_state_scheme \<Rightarrow> (string_array \<times> 'a os_state_scheme) res" where
  "GetEnviron fuel E libc_stack_end s = andThen (GetArgsAndEnv fuel E libc_stack_end s) (\<lambda>(argv, envp, s). Inr (envp, s))"

section \<open>The names of the process and of libraries\<close>

definition GetPageSize :: uptr where "GetPageSize = 4096"

text \<open>\<open>print_s\<close> is \<open>internal_snprintf(buf, buf_len, "%s", str)\<close>, which is not in the repository.\<close>

definition ReadBinaryName ::
    "'s os_env \<Rightarrow> (uptr \<Rightarrow> uptr \<Rightarrow> uptr \<Rightarrow> memory \<Rightarrow> uptr \<times> memory) \<Rightarrow> uptr \<Rightarrow> uptr \<Rightarrow> uptr \<Rightarrow> 'a os_state_scheme \<Rightarrow>
     (uptr \<times> 'a os_state_scheme) res" where
  "ReadBinaryName E print_s default_module_name buf buf_len s =
     (let (module_name_len, s) = internal_readlink E default_module_name buf buf_len s in
      if os_failed E module_name_len then
        let (module_name_len, m) = print_s buf buf_len default_module_name (mem s); s = s\<lparr>mem := m\<rparr>
        in andThen (check (module_name_len < buf_len)) (\<lambda>_. Inr (module_name_len, s))
      else Inr (module_name_len, s))"

definition ReadLongProcessName ::
    "nat \<Rightarrow> 'a os_state_scheme os_env \<Rightarrow> (uptr \<Rightarrow> uptr \<Rightarrow> uptr \<Rightarrow> memory \<Rightarrow> uptr \<times> memory) \<Rightarrow> uptr \<Rightarrow> uptr \<Rightarrow> uptr \<Rightarrow>
     'a os_state_scheme \<Rightarrow> (uptr \<times> 'a os_state_scheme) res" where
  "ReadLongProcessName fuel E print_s default_module_name buf buf_len s =
     (let (r, s) = read_file_to_buffer E ''/proc/self/cmdline'' s in
      case r of
        Some (tmpbuf, tmpsize, tmplen) \<Rightarrow>
          let s = s\<lparr>mem := internal_strncpy buf tmpbuf buf_len (mem s)\<rparr> in
          andThen (UnmapOrDie (os_globals E) tmpbuf tmpsize s) (\<lambda>s.
          andThen (internal_strlen fuel (mem s) buf) (\<lambda>n. Inr (n, s)))
      | None \<Rightarrow> ReadBinaryName E print_s default_module_name buf buf_len s)"

fun to_end :: "nat \<Rightarrow> memory \<Rightarrow> uptr \<Rightarrow> uptr res" where
  "to_end 0 m p = Inl Out_of_fuel"
| "to_end (Suc n) m p = (if m p \<noteq> 0 then to_end n m (p + 1) else Inr p)"

fun back_to_slash :: "nat \<Rightarrow> memory \<Rightarrow> uptr \<Rightarrow> uptr \<Rightarrow> uptr" where
  "back_to_slash 0 m lib_name p = p"
| "back_to_slash (Suc n) m lib_name p =
     (if lib_name < p \<and> m p \<noteq> 0x2F then back_to_slash n m lib_name (p - 1) else p)"

definition LibraryNameIs :: "nat \<Rightarrow> memory \<Rightarrow> uptr \<Rightarrow> uptr \<Rightarrow> bool res" where
  "LibraryNameIs fuel m lib_name base_name =
     andThen (to_end fuel m lib_name) (\<lambda>name.
     let name = back_to_slash (unat (name - lib_name)) m lib_name name;
         name = (if m name = 0x2F then name + 1 else name)
     in andThen (internal_strlen fuel m base_name) (\<lambda>base_name_length.
        Inr (if internal_strncmp m name base_name base_name_length \<noteq> 0 then False
             else m (name + base_name_length) = 0x2D \<or> m (name + base_name_length) = 0x2E)))"

text \<open>A program header of the loaded object: whether it is \<open>PT_LOAD\<close>, address and size.\<close>

record elf_phdr =
  p_load :: bool
  p_vaddr :: uptr
  p_memsz :: uptr

definition min_base :: "elf_phdr list \<Rightarrow> uptr" where
  "min_base phdrs = foldl (\<lambda>b h. if p_load h \<and> p_vaddr h < b then p_vaddr h else b) (- 1) phdrs"

fun mapped_regions :: "ct_globals \<Rightarrow> uptr \<Rightarrow> elf_phdr list \<Rightarrow> (uptr \<times> uptr) list res" where
  "mapped_regions G delta [] = Inr []"
| "mapped_regions G delta (h # hs) =
     (if p_load h then
        let seg_start = p_vaddr h + delta; seg_end = seg_start + p_memsz h in
        let seg_start = RoundDownTo seg_start (page_size G) in
        andThen (RoundUpTo seg_end (page_size G)) (\<lambda>seg_end.
        andThen (mapped_regions G delta hs) (\<lambda>rs. Inr ((seg_start, seg_end - seg_start) # rs)))
      else mapped_regions G delta hs)"

text \<open>The arguments of the calls of \<open>cb\<close>, in order.\<close>

definition ForEachMappedRegion :: "ct_globals \<Rightarrow> uptr \<Rightarrow> elf_phdr list \<Rightarrow> (uptr \<times> uptr) list res" where
  "ForEachMappedRegion G base phdrs = mapped_regions G (base - min_base phdrs) phdrs"

section \<open>Random bytes\<close>

abbreviation (input) ENOSYS :: s32 where "ENOSYS \<equiv> 38"
abbreviation (input) GRND_NONBLOCK :: uptr where "GRND_NONBLOCK \<equiv> 1"

definition getrandom ::
    "'s os_env \<Rightarrow> uptr \<Rightarrow> uptr \<Rightarrow> bool \<Rightarrow> 'a os_state_scheme \<Rightarrow> uptr \<times> 'a os_state_scheme" where
  "getrandom E buffer len blocking s =
     (let xs = os_bytes s (sys_pos s);
          (r, s) = internal_syscall SYS_getrandom [buffer, len, if blocking then 0 else GRND_NONBLOCK] s
      in (r, if os_failed E r then s else s\<lparr>mem := store_bytes buffer (take (unat r) xs) (mem s)\<rparr>))"

definition read_urandom ::
    "'a os_state_scheme os_env \<Rightarrow> uptr \<Rightarrow> uptr \<Rightarrow> 'a os_state_scheme \<Rightarrow> (bool \<times> 'a os_state_scheme) res" where
  "read_urandom E buffer len s =
     (let (fd, s) = internal_open (lit_urandom E) O_RDONLY s in
      if os_failed E fd then Inr (False, s)
      else andThen (internal_read E (ucast fd) buffer len s) (\<lambda>(r, s).
        if os_failed E r then Inr (False, s)
        else Inr (True, snd (internal_close (ucast fd) s))))"

definition GetRandom ::
    "'a os_state_scheme os_env \<Rightarrow> uptr \<Rightarrow> uptr \<Rightarrow> bool \<Rightarrow> 'a os_state_scheme \<Rightarrow> (bool \<times> 'a os_state_scheme) res" where
  "GetRandom E buffer len blocking s =
     (if buffer = 0 \<or> len = 0 \<or> 256 < len then Inr (False, s)
      else if \<not> skip_getrandom s then
        let (r, s) = getrandom E buffer len blocking s in
        if os_failed E r \<and> os_errno E r = ENOSYS then read_urandom E buffer len (s\<lparr>skip_getrandom := True\<rparr>)
        else if r = len then Inr (True, s)
        else read_urandom E buffer len s
      else read_urandom E buffer len s)"

section \<open>The threads of a process\<close>

record thread_lister =
  tl_pid :: s32
  tl_buffer :: "u8 mmap_vector"
  tl_descriptor :: uptr

datatype list_result = List_Error | List_Incomplete | List_Ok

definition ThreadLister ::
    "'s os_env \<Rightarrow> uptr \<Rightarrow> s32 \<Rightarrow> 'a os_state_scheme \<Rightarrow> (thread_lister \<times> 'a os_state_scheme) res" where
  "ThreadLister E task_directory_path pid s =
     andThen (vec_Initialize (os_globals E) 1 4096 s) (\<lambda>(buf, s).
     andThen (vec_resize (os_globals E) 1 0 4096 buf s) (\<lambda>(buf, s).
     let (fd, s) = internal_open task_directory_path (O_RDONLY OR O_DIRECTORY) s
     in Inr (\<lparr> tl_pid = pid, tl_buffer = buf, tl_descriptor = fd \<rparr>, s)))"

text \<open>The status file of a thread, with a line \<open>PPid:\<close> and a number that is 0 once it has ended.\<close>

definition IsAlive ::
    "nat \<Rightarrow> 'a os_state_scheme os_env \<Rightarrow> s32 \<Rightarrow> thread_lister \<Rightarrow> 'a os_state_scheme \<Rightarrow>
     (bool \<times> thread_lister \<times> 'a os_state_scheme) res" where
  "IsAlive fuel E tid l s =
     (let (r, s) = read_file_to_vector E (tl_pid l) tid s in
      case r of None \<Rightarrow> Inr (False, l, s)
      | Some xs \<Rightarrow>
          let l = l\<lparr>tl_buffer := (tl_buffer l)\<lparr>vdata := xs\<rparr>\<rparr> in
          if xs = [] then Inr (False, l, s)
          else andThen (vec_push_back (os_globals E) 1 0 (tl_buffer l) s) (\<lambda>(buf, s).
            let l = l\<lparr>tl_buffer := buf\<rparr>;
                s = s\<lparr>mem := store_bytes (vec_addr buf) (vdata buf) (mem s)\<rparr> in
            andThen (internal_strstr fuel (mem s) (vec_addr buf) (lit_ppid E)) (\<lambda>field.
            if field = 0 then Inr (False, l, s)
            else andThen (internal_strlen fuel (mem s) (lit_ppid E)) (\<lambda>n.
                 andThen (internal_atoll fuel (mem s) (field + n)) (\<lambda>v.
                 Inr ((ucast v :: s32) \<noteq> 0, l, s))))))"

text \<open>
  A directory entry: inode at 0, length at 16, name at 19. The first result is whether the entry
  of the bad inode was met; an entry of length 0 would not advance.
\<close>

definition load16 :: "memory \<Rightarrow> uptr \<Rightarrow> u16" where
  "load16 m p = ucast (m p) OR push_bit 8 (ucast (m (p + 1)))"

fun parse_entries ::
    "nat \<Rightarrow> nat \<Rightarrow> memory \<Rightarrow> uptr \<Rightarrow> uptr \<Rightarrow> list_result \<Rightarrow> s32 list \<Rightarrow> (list_result \<times> s32 list) res" where
  "parse_entries fuel 0 m at en r threads = Inl Out_of_fuel"
| "parse_entries fuel (Suc n) m at en r threads =
     (if at < en then
        let entry = at; at = at + ucast (load16 m (entry + 16));
            r = (if load64 m entry = 1 then List_Incomplete else r)
        in if load64 m entry \<noteq> 0 \<and> 0x30 \<le> m (entry + 19) \<and> m (entry + 19) \<le> 0x39 then
             andThen (internal_atoll fuel m (entry + 19)) (\<lambda>v.
             parse_entries fuel n m at en r (threads @ [ucast v]))
           else parse_entries fuel n m at en r threads
      else Inr (r, threads))"

fun list_loop ::
    "nat \<Rightarrow> nat \<Rightarrow> 'a os_state_scheme os_env \<Rightarrow> bool \<Rightarrow> list_result \<Rightarrow> s32 list \<Rightarrow> thread_lister \<Rightarrow> 'a os_state_scheme \<Rightarrow>
     (list_result \<times> s32 list \<times> thread_lister \<times> 'a os_state_scheme) res" where
  "list_loop fuel 0 E first_read r threads l s = Inl Out_of_fuel"
| "list_loop fuel (Suc n) E first_read r threads l s =
     andThen (vec_resize (os_globals E) 1 0 (capacity 1 (tl_buffer l)) (tl_buffer l) s) (\<lambda>(buf, s).
     let l = l\<lparr>tl_buffer := buf\<rparr> in
     andThen (check (4096 \<le> vec_size buf)) (\<lambda>_.
     let (rd, s) = internal_getdents E (tl_descriptor l) (vec_addr buf) (ucast (vec_size buf)) s in
     if rd = 0 then Inr (r, threads, l, s)
     else if os_failed E rd then Inr (List_Error, threads, l, s)
     else andThen (parse_entries fuel fuel (mem s) (vec_addr buf) (vec_addr buf + rd) r threads) (\<lambda>(r, threads).
       if \<not> first_read then list_loop fuel n E False List_Incomplete threads l s
       else if vec_size buf - 1024 < rd then
         andThen (vec_resize (os_globals E) 1 0 (vec_size buf * 2) buf s) (\<lambda>(buf, s).
         list_loop fuel n E False List_Incomplete threads (l\<lparr>tl_buffer := buf\<rparr>) s)
       else if threads \<noteq> [] then
         andThen (IsAlive fuel E (last threads) l s) (\<lambda>(alive, l, s).
         list_loop fuel n E False (if alive then r else List_Incomplete) threads l s)
       else list_loop fuel n E False r threads l s)))"

definition ListThreads ::
    "nat \<Rightarrow> 'a os_state_scheme os_env \<Rightarrow> s32 list \<Rightarrow> thread_lister \<Rightarrow> 'a os_state_scheme \<Rightarrow>
     (list_result \<times> s32 list \<times> thread_lister \<times> 'a os_state_scheme) res" where
  "ListThreads fuel E threads l s =
     (if os_failed E (tl_descriptor l) then Inr (List_Error, threads, l, s)
      else let (_, s) = internal_lseek (tl_descriptor l) 0 0 s
           in list_loop fuel fuel E True List_Ok [] l s)"

definition ThreadLister_destroy ::
    "'s os_env \<Rightarrow> thread_lister \<Rightarrow> 'a os_state_scheme \<Rightarrow> 'a os_state_scheme res" where
  "ThreadLister_destroy E l s =
     (let s = (if \<not> os_failed E (tl_descriptor l) then snd (internal_close (ucast (tl_descriptor l)) s) else s)
      in vec_Destroy (os_globals E) (tl_buffer l) s)"

section \<open>The kind of access on other machines\<close>

text \<open>
  \<open>GetWriteFlag\<close> decodes the faulting instruction where the kernel does not tell the kind of the
  access: the word at \<open>pc\<close> on MIPS and RISC-V; ARM and AArch64 read a status register.
\<close>

definition GetWriteFlag_mips :: "bool \<Rightarrow> bool \<Rightarrow> u32 \<Rightarrow> WriteFlag" where
  "GetWriteFlag_mips isa_below_6 isa_6 faulty_instruction =
     (let op_code = drop_bit 26 faulty_instruction AND 0x3f in
      if op_code \<in> {0x28, 0x29, 0x2b, 0x3f} \<or> isa_below_6 \<and> op_code \<in> {0x2c, 0x2d, 0x2a, 0x2e} then WF_Write
      else if op_code \<in> {0x20, 0x24, 0x21, 0x25, 0x23, 0x27, 0x37} \<or> isa_below_6 \<and> op_code \<in> {0x22, 0x26} then WF_Read
      else if isa_6 \<and> op_code = 0x3b then
        (let op_code = drop_bit 19 faulty_instruction AND 0x3 in
         if op_code \<in> {0x1, 0x2} then WF_Read else WF_Unknown)
      else WF_Unknown)"

definition GetWriteFlag_arm :: "uptr \<Rightarrow> WriteFlag" where
  "GetWriteFlag_arm fsr = (let FSR_WRITE = push_bit 11 1 in if fsr AND FSR_WRITE \<noteq> 0 then WF_Write else WF_Read)"

text \<open>The records of the signal frame on AArch64: magic, size and register of each, up to size 0.\<close>

fun Aarch64GetESR :: "(u32 \<times> u32 \<times> u64) list \<Rightarrow> u64 option" where
  "Aarch64GetESR [] = None"
| "Aarch64GetESR ((magic, sz, esr) # ctxs) =
     (if sz = 0 then None else if magic = 0x45535201 then Some esr else Aarch64GetESR ctxs)"

definition GetWriteFlag_aarch64 :: "(u32 \<times> u32 \<times> u64) list \<Rightarrow> WriteFlag" where
  "GetWriteFlag_aarch64 ctxs =
     (let ESR_ELx_WNR = push_bit 6 1 in
      case Aarch64GetESR ctxs of None \<Rightarrow> WF_Unknown
      | Some esr \<Rightarrow> if esr AND ESR_ELx_WNR \<noteq> 0 then WF_Write else WF_Read)"

definition GetWriteFlag_sparc :: "u32 \<Rightarrow> WriteFlag" where
  "GetWriteFlag_sparc instr = (if drop_bit 21 instr AND 1 \<noteq> 0 then WF_Write else WF_Read)"

record riscv_target =
  rv_compressed :: bool
  rv_xlen :: nat
  rv_flen :: nat

definition riscv_compressed_flag :: "riscv_target \<Rightarrow> u32 \<Rightarrow> WriteFlag" where
  "riscv_compressed_flag T faulty_instruction =
     (let op_bits = push_bit 3 (faulty_instruction AND 0x3) OR drop_bit 13 faulty_instruction;
          rd = faulty_instruction AND 0xF80
      in if op_bits = 0b10010 \<or> rv_xlen T = 64 \<and> op_bits = 0b10011 then (if rd \<noteq> 0 then WF_Read else WF_Unknown)
         else if op_bits = 0b00010 \<or> 32 \<le> rv_flen T \<and> rv_xlen T = 32 \<and> op_bits = 0b10011
              \<or> (32 \<le> rv_flen T \<or> rv_xlen T = 64) \<and> op_bits = 0b00011
              \<or> rv_flen T = 64 \<and> (op_bits = 0b00001 \<or> op_bits = 0b10001) then WF_Read
         else if op_bits = 0b00110 \<or> op_bits = 0b10110
              \<or> (32 \<le> rv_flen T \<or> rv_xlen T = 64) \<and> (op_bits = 0b00111 \<or> op_bits = 0b10111)
              \<or> rv_flen T = 64 \<and> (op_bits = 0b00101 \<or> op_bits = 0b10101) then WF_Write
         else WF_Unknown)"

text \<open>The code reads 16 bits at \<open>pc\<close>, also for an instruction of 32 bits; \<open>funct3\<close> is in its bits 12 to 14.\<close>

definition GetWriteFlag_riscv :: "riscv_target \<Rightarrow> u16 \<Rightarrow> WriteFlag" where
  "GetWriteFlag_riscv T w =
     (let faulty_instruction = ucast w :: u32 in
      if rv_compressed T \<and> faulty_instruction AND 0x3 \<noteq> 0x3 then riscv_compressed_flag T faulty_instruction
      else
        let opcode = faulty_instruction AND 0x7f;
            funct3 = drop_bit 12 faulty_instruction AND 0x7
        in if opcode = 0b0000011 then
             (if funct3 \<in> {0b000, 0b001, 0b010, 0b100, 0b101} \<or> rv_xlen T = 64 \<and> funct3 = 0b011 then WF_Read
              else WF_Unknown)
           else if opcode = 0b0100011 then
             (if funct3 \<in> {0b000, 0b001, 0b010} \<or> rv_xlen T = 64 \<and> funct3 = 0b011 then WF_Write else WF_Unknown)
           else if 32 \<le> rv_flen T \<and> opcode = 0b0000111 then
             (if funct3 = 0b010 \<or> rv_flen T = 64 \<and> funct3 = 0b011 then WF_Read else WF_Unknown)
           else if 32 \<le> rv_flen T \<and> opcode = 0b0100111 then
             (if funct3 = 0b010 \<or> rv_flen T = 64 \<and> funct3 = 0b011 then WF_Write else WF_Unknown)
           else WF_Unknown)"

end
