(* ===== verification/Symbolizer.thy ===== *)
theory Symbolizer
  imports San_System
begin

text \<open>
  The symbolizer of \<open>sanitizer_symbolizer.cpp\<close> and \<open>sanitizer_symbolizer_libcdep.cpp\<close>: the parsers of
  the answers of \<open>llvm-symbolizer\<close>, the exchange with that process, the lookup of the module of an
  address, and the class \<open>Symbolizer\<close>.

  Strings are in memory and are copied into the persistent allocator, which ClusterTag put in the
  place of the internal allocator; what the code frees with \<open>noCheck\<close> set stays allocated. The
  declarations of the header \<open>sanitizer_symbolizer.h\<close> are not in the repository: the size of a frame
  and the constants are fields of \<open>symb_env\<close>, and so are the string literals, as addresses, the
  readers of the module list and the tools. A \<open>SymbolizedStack\<close> lives at its address in \<open>SS\<close>.
\<close>

section \<open>What is known of an address\<close>

record AddressInfo =
  ai_address :: uptr
  ai_module :: uptr
  ai_module_offset :: uptr
  ai_module_arch :: ModuleArch
  ai_uuid_size :: uptr
  ai_uuid :: "u8 list"
  ai_function :: uptr
  ai_function_offset :: uptr
  ai_file :: uptr
  ai_line :: s32
  ai_column :: s32

record SymbolizedStack =
  ss_next :: uptr
  ss_info :: AddressInfo

record DataInfo =
  di_module :: uptr
  di_module_offset :: uptr
  di_module_arch :: ModuleArch
  di_file :: uptr
  di_line :: uptr
  di_name :: uptr
  di_start :: uptr
  di_size :: uptr

record LocalInfo =
  li_function_name :: uptr
  li_name :: uptr
  li_decl_file :: uptr
  li_decl_line :: s32
  li_has_frame_offset :: bool
  li_has_size :: bool
  li_has_tag_offset :: bool
  li_frame_offset :: s64
  li_size :: uptr
  li_tag_offset :: uptr

record FrameInfo =
  fi_module :: uptr
  fi_module_offset :: uptr
  fi_module_arch :: ModuleArch
  fi_locals :: "LocalInfo list"

text \<open>
  The process of the external symbolizer: its two descriptors, the restarts, the buffer of its
  answer, and the warnings reported.
\<close>

record SymbolizerProcess =
  sp_path :: uptr
  sp_input_fd :: s32
  sp_output_fd :: s32
  sp_buffer :: "u8 mmap_vector"
  sp_times_restarted :: nat
  sp_failed_to_start :: bool
  sp_warnings :: "string list"

record symb_state = os_state +
  SS :: "uptr \<Rightarrow> SymbolizedStack"
  modules :: "LoadedModule list"
  fallback_modules :: "LoadedModule list"
  modules_fresh :: bool
  start_hook :: uptr
  end_hook :: uptr
  hooks_run :: "uptr list"
  last_match :: uptr
  name_storage :: "uptr mmap_vector"
  the_symbolizer :: uptr
  proc :: SymbolizerProcess

text \<open>The literals \<open>"\n"\<close>, \<open>" "\<close>, \<open>":"\<close>, \<open>""\<close> and \<open>"??"\<close>, and the constants of the header.\<close>

record symb_env =
  lit_newline :: uptr
  lit_space :: uptr
  lit_colon :: uptr
  lit_empty :: uptr
  lit_unknown :: uptr
  sizeof_SymbolizedStack :: u64
  kUnknown :: uptr
  intercept_dlopen_dlclose :: bool
  kMaxTimesRestarted :: nat
  kBufferSize :: int
  symb_fuel :: nat

definition zero_AddressInfo :: AddressInfo where
  "zero_AddressInfo = \<lparr> ai_address = 0, ai_module = 0, ai_module_offset = 0, ai_module_arch = kModuleArchUnknown,
     ai_uuid_size = 0, ai_uuid = replicate kModuleUUIDSize 0, ai_function = 0, ai_function_offset = 0,
     ai_file = 0, ai_line = 0, ai_column = 0 \<rparr>"

definition AddressInfo_new :: "symb_env \<Rightarrow> AddressInfo" where
  "AddressInfo_new Y = zero_AddressInfo\<lparr>ai_function_offset := kUnknown Y\<rparr>"

text \<open>The code's \<open>free\<close> of a block of the persistent allocator, with \<open>noCheck\<close> set.\<close>

definition free_unchecked :: "uptr \<Rightarrow> 'a pool_state_scheme \<Rightarrow> 'a pool_state_scheme res" where
  "free_unchecked p s =
     andThen (CTPersistentAllocatorFree p True (persistent s)) (\<lambda>pa. Inr (s\<lparr>persistent := pa\<rparr>))"

definition AddressInfo_Clear :: "symb_env \<Rightarrow> AddressInfo \<Rightarrow> 'a pool_state_scheme \<Rightarrow> (AddressInfo \<times> 'a pool_state_scheme) res" where
  "AddressInfo_Clear Y i s =
     andThen (free_unchecked (ai_module i) s) (\<lambda>s.
     andThen (free_unchecked (ai_function i) s) (\<lambda>s.
     andThen (free_unchecked (ai_file i) s) (\<lambda>s.
     Inr (zero_AddressInfo\<lparr>ai_function_offset := kUnknown Y, ai_uuid_size := 0\<rparr>, s))))"

definition FillModuleInfo ::
    "symb_env \<Rightarrow> uptr \<Rightarrow> uptr \<Rightarrow> ModuleArch \<Rightarrow> AddressInfo \<Rightarrow> 'a pool_state_scheme \<Rightarrow>
     (AddressInfo \<times> 'a pool_state_scheme) res" where
  "FillModuleInfo Y mod_name mod_offset mod_arch i s =
     andThen (internal_strdup (symb_fuel Y) mod_name s) (\<lambda>(p, s).
     Inr (i\<lparr>ai_module := p, ai_module_offset := mod_offset, ai_module_arch := mod_arch, ai_uuid_size := 0\<rparr>, s))"

definition FillModuleInfo_of ::
    "symb_env \<Rightarrow> LoadedModule \<Rightarrow> AddressInfo \<Rightarrow> 'a pool_state_scheme \<Rightarrow> (AddressInfo \<times> 'a pool_state_scheme) res" where
  "FillModuleInfo_of Y l i s =
     andThen (internal_strdup (symb_fuel Y) (full_name l) s) (\<lambda>(p, s).
     let i = i\<lparr>ai_module := p, ai_module_offset := ai_address i - base_addr_of l, ai_module_arch := module_arch l\<rparr>;
         i = (if uuid_size l \<noteq> 0
              then i\<lparr>ai_uuid := take (unat (uuid_size l)) (module_uuid l) @ drop (unat (uuid_size l)) (ai_uuid i)\<rparr> else i)
     in Inr (i\<lparr>ai_uuid_size := uuid_size l\<rparr>, s))"

definition SymbolizedStack_New ::
    "symb_env \<Rightarrow> uptr \<Rightarrow> 'a symb_state_scheme \<Rightarrow> (uptr \<times> 'a symb_state_scheme) res" where
  "SymbolizedStack_New Y addr s =
     andThen (persistent_allocate (sizeof_SymbolizedStack Y) s) (\<lambda>(p, s).
     Inr (p, s\<lparr>SS := (SS s)(p := \<lparr> ss_next = 0, ss_info = (AddressInfo_new Y)\<lparr>ai_address := addr\<rparr> \<rparr>)\<rparr>))"

fun SymbolizedStack_ClearAll ::
    "nat \<Rightarrow> symb_env \<Rightarrow> uptr \<Rightarrow> 'a symb_state_scheme \<Rightarrow> 'a symb_state_scheme res" where
  "SymbolizedStack_ClearAll 0 Y p s = Inl Out_of_fuel"
| "SymbolizedStack_ClearAll (Suc n) Y p s =
     andThen (AddressInfo_Clear Y (ss_info (SS s p)) s) (\<lambda>(i, s).
     let s = s\<lparr>SS := (SS s)(p := (SS s p)\<lparr>ss_info := i\<rparr>)\<rparr> in
     andThen (if ss_next (SS s p) \<noteq> 0 then SymbolizedStack_ClearAll n Y (ss_next (SS s p)) s else Inr s) (\<lambda>s.
     free_unchecked p s))"

definition DataInfo_new :: DataInfo where
  "DataInfo_new = \<lparr> di_module = 0, di_module_offset = 0, di_module_arch = kModuleArchUnknown, di_file = 0,
     di_line = 0, di_name = 0, di_start = 0, di_size = 0 \<rparr>"

definition DataInfo_Clear :: "DataInfo \<Rightarrow> 'a pool_state_scheme \<Rightarrow> (DataInfo \<times> 'a pool_state_scheme) res" where
  "DataInfo_Clear i s =
     andThen (free_unchecked (di_module i) s) (\<lambda>s.
     andThen (free_unchecked (di_file i) s) (\<lambda>s.
     andThen (free_unchecked (di_name i) s) (\<lambda>s.
     Inr (DataInfo_new, s))))"

fun clear_locals :: "LocalInfo list \<Rightarrow> 'a pool_state_scheme \<Rightarrow> 'a pool_state_scheme res" where
  "clear_locals [] s = Inr s"
| "clear_locals (l # ls) s =
     andThen (free_unchecked (li_function_name l) s) (\<lambda>s.
     andThen (free_unchecked (li_name l) s) (\<lambda>s.
     andThen (free_unchecked (li_decl_file l) s) (\<lambda>s.
     clear_locals ls s)))"

definition FrameInfo_Clear :: "FrameInfo \<Rightarrow> 'a pool_state_scheme \<Rightarrow> (FrameInfo \<times> 'a pool_state_scheme) res" where
  "FrameInfo_Clear i s =
     andThen (free_unchecked (fi_module i) s) (\<lambda>s.
     andThen (clear_locals (fi_locals i) s) (\<lambda>s.
     Inr (i\<lparr>fi_locals := []\<rparr>, s)))"

section \<open>Tokens\<close>

text \<open>Each extractor returns the rest of the string and what it read.\<close>

definition copy_prefix :: "uptr \<Rightarrow> uptr \<Rightarrow> 'a pool_state_scheme \<Rightarrow> (uptr \<times> 'a pool_state_scheme) res" where
  "copy_prefix str prefix_len s =
     andThen (persistent_allocate (prefix_len + 1) s) (\<lambda>(result, s).
     let s = s\<lparr>mem := internal_memcpy result str prefix_len (mem s)\<rparr>
     in Inr (result, s\<lparr>mem := (mem s)(result + prefix_len := 0)\<rparr>))"

definition ExtractToken ::
    "symb_env \<Rightarrow> uptr \<Rightarrow> uptr \<Rightarrow> 'a pool_state_scheme \<Rightarrow> (uptr \<times> uptr \<times> 'a pool_state_scheme) res" where
  "ExtractToken Y str delims s =
     andThen (internal_strcspn (symb_fuel Y) (mem s) str delims) (\<lambda>prefix_len.
     andThen (copy_prefix str prefix_len s) (\<lambda>(result, s).
     let prefix_end = str + prefix_len;
         prefix_end = (if mem s prefix_end \<noteq> 0 then prefix_end + 1 else prefix_end)
     in Inr (prefix_end, result, s)))"

text \<open>The number, or \<open>None\<close> where the code leaves its result as it was.\<close>

definition extract_number ::
    "symb_env \<Rightarrow> uptr \<Rightarrow> uptr \<Rightarrow> 'a pool_state_scheme \<Rightarrow> (uptr \<times> s64 option \<times> 'a pool_state_scheme) res" where
  "extract_number Y str delims s =
     andThen (ExtractToken Y str delims s) (\<lambda>(ret, buff, s).
     andThen (if buff \<noteq> 0 then andThen (internal_atoll (symb_fuel Y) (mem s) buff) (\<lambda>v. Inr (Some v))
              else Inr None) (\<lambda>v.
     andThen (free_unchecked buff s) (\<lambda>s. Inr (ret, v, s))))"

definition ExtractInt ::
    "symb_env \<Rightarrow> uptr \<Rightarrow> uptr \<Rightarrow> s32 \<Rightarrow> 'a pool_state_scheme \<Rightarrow> (uptr \<times> s32 \<times> 'a pool_state_scheme) res" where
  "ExtractInt Y str delims result s =
     andThen (extract_number Y str delims s) (\<lambda>(ret, v, s).
     Inr (ret, (case v of Some v \<Rightarrow> ucast v | None \<Rightarrow> result), s))"

definition ExtractUptr ::
    "symb_env \<Rightarrow> uptr \<Rightarrow> uptr \<Rightarrow> uptr \<Rightarrow> 'a pool_state_scheme \<Rightarrow> (uptr \<times> uptr \<times> 'a pool_state_scheme) res" where
  "ExtractUptr Y str delims result s =
     andThen (extract_number Y str delims s) (\<lambda>(ret, v, s).
     Inr (ret, (case v of Some v \<Rightarrow> v | None \<Rightarrow> result), s))"

definition ExtractSptr ::
    "symb_env \<Rightarrow> uptr \<Rightarrow> uptr \<Rightarrow> s64 \<Rightarrow> 'a pool_state_scheme \<Rightarrow> (uptr \<times> s64 \<times> 'a pool_state_scheme) res" where
  "ExtractSptr Y str delims result s =
     andThen (extract_number Y str delims s) (\<lambda>(ret, v, s).
     Inr (ret, (case v of Some v \<Rightarrow> v | None \<Rightarrow> result), s))"

definition ExtractTokenUpToDelimiter ::
    "symb_env \<Rightarrow> uptr \<Rightarrow> uptr \<Rightarrow> 'a pool_state_scheme \<Rightarrow> (uptr \<times> uptr \<times> 'a pool_state_scheme) res" where
  "ExtractTokenUpToDelimiter Y str delimiter s =
     andThen (internal_strstr (symb_fuel Y) (mem s) str delimiter) (\<lambda>found_delimiter.
     andThen (if found_delimiter \<noteq> 0 then Inr (found_delimiter - str)
              else internal_strlen (symb_fuel Y) (mem s) str) (\<lambda>prefix_len.
     andThen (copy_prefix str prefix_len s) (\<lambda>(result, s).
     let prefix_end = str + prefix_len in
     andThen (if mem s prefix_end \<noteq> 0
              then andThen (internal_strlen (symb_fuel Y) (mem s) delimiter) (\<lambda>n. Inr (prefix_end + n))
              else Inr prefix_end) (\<lambda>prefix_end.
     Inr (prefix_end, result, s)))))"

section \<open>The answers of the symbolizer process\<close>

text \<open>\<open>while (back > file_line_info && IsDigit(*back)) --back\<close>.\<close>

fun back_over_digits :: "nat \<Rightarrow> memory \<Rightarrow> uptr \<Rightarrow> uptr \<Rightarrow> uptr" where
  "back_over_digits 0 m start p = p"
| "back_over_digits (Suc n) m start p =
     (if start < p \<and> IsDigit (char_val (m p)) then back_over_digits n m start (p - 1) else p)"

fun take_numbers ::
    "nat \<Rightarrow> symb_env \<Rightarrow> uptr \<Rightarrow> uptr \<Rightarrow> AddressInfo \<Rightarrow> memory \<Rightarrow> (AddressInfo \<times> memory) res" where
  "take_numbers 0 Y start p info m = Inr (info, m)"
| "take_numbers (Suc n) Y start p info m =
     (let p = (if start < p then back_over_digits (unat (p - start)) m start p else p) in
      if m p \<noteq> 0x3A \<or> \<not> IsDigit (char_val (m (p + 1))) then Inr (info, m)
      else
        let info = info\<lparr>ai_column := ai_line info\<rparr> in
        andThen (internal_atoll (symb_fuel Y) m (p + 1)) (\<lambda>v.
        let info = info\<lparr>ai_line := ucast v\<rparr>; m = m(p := 0)
        in take_numbers n Y start (p - 1) info m))"

definition ParseFileLineInfo ::
    "symb_env \<Rightarrow> AddressInfo \<Rightarrow> uptr \<Rightarrow> 'a pool_state_scheme \<Rightarrow> (uptr \<times> AddressInfo \<times> 'a pool_state_scheme) res" where
  "ParseFileLineInfo Y info str s =
     andThen (ExtractToken Y str (lit_newline Y) s) (\<lambda>(str, file_line_info, s).
     andThen (check (file_line_info \<noteq> 0)) (\<lambda>_.
     andThen (internal_strlen (symb_fuel Y) (mem s) file_line_info) (\<lambda>sz.
     andThen (if sz \<noteq> 0 then
                andThen (take_numbers 2 Y file_line_info (file_line_info + sz - 1) info (mem s)) (\<lambda>(info, m).
                andThen (ExtractToken Y file_line_info (lit_empty Y) (s\<lparr>mem := m\<rparr>)) (\<lambda>(_, f, s).
                Inr (info\<lparr>ai_file := f\<rparr>, s)))
              else Inr (info, s)) (\<lambda>(info, s).
     andThen (free_unchecked file_line_info s) (\<lambda>s. Inr (str, info, s))))))"

definition set_info :: "uptr \<Rightarrow> AddressInfo \<Rightarrow> 'a symb_state_scheme \<Rightarrow> 'a symb_state_scheme" where
  "set_info p i s = s\<lparr>SS := (SS s)(p := (SS s p)\<lparr>ss_info := i\<rparr>)\<rparr>"

definition set_next :: "uptr \<Rightarrow> uptr \<Rightarrow> 'a symb_state_scheme \<Rightarrow> 'a symb_state_scheme" where
  "set_next p q s = s\<lparr>SS := (SS s)(p := (SS s p)\<lparr>ss_next := q\<rparr>)\<rparr>"

text \<open>The node of the next frame: the first frame goes to the node the caller passed.\<close>

definition next_frame ::
    "symb_env \<Rightarrow> bool \<Rightarrow> uptr \<Rightarrow> uptr \<Rightarrow> 'a symb_state_scheme \<Rightarrow> (uptr \<times> uptr \<times> 'a symb_state_scheme) res" where
  "next_frame Y top_frame rs lst s =
     (if top_frame then Inr (rs, lst, s)
      else
        andThen (SymbolizedStack_New Y (ai_address (ss_info (SS s rs))) s) (\<lambda>(cur, s).
        let i = ss_info (SS s rs) in
        andThen (FillModuleInfo Y (ai_module i) (ai_module_offset i) (ai_module_arch i) (ss_info (SS s cur)) s) (\<lambda>(ci, s).
        let s = set_info cur ci s; s = set_next lst cur s in Inr (cur, cur, s))))"

text \<open>A name \<open>"??"\<close> means unknown and becomes a null pointer.\<close>

definition drop_unknown ::
    "symb_env \<Rightarrow> uptr \<Rightarrow> 'a pool_state_scheme \<Rightarrow> (uptr \<times> 'a pool_state_scheme) res" where
  "drop_unknown Y p s =
     andThen (internal_strcmp (symb_fuel Y) (mem s) p (lit_unknown Y)) (\<lambda>c.
     if c = 0 then andThen (free_unchecked p s) (\<lambda>s. Inr (0, s)) else Inr (p, s))"

fun pc_frames ::
    "nat \<Rightarrow> symb_env \<Rightarrow> bool \<Rightarrow> uptr \<Rightarrow> uptr \<Rightarrow> uptr \<Rightarrow> 'a symb_state_scheme \<Rightarrow> 'a symb_state_scheme res" where
  "pc_frames 0 Y top_frame rs lst str s = Inl Out_of_fuel"
| "pc_frames (Suc n) Y top_frame rs lst str s =
     andThen (ExtractToken Y str (lit_newline Y) s) (\<lambda>(str, function_name, s).
     andThen (check (function_name \<noteq> 0)) (\<lambda>_.
     if mem s function_name = 0 then free_unchecked function_name s
     else
       andThen (next_frame Y top_frame rs lst s) (\<lambda>(cur, lst, s).
       let info = (ss_info (SS s cur))\<lparr>ai_function := function_name\<rparr> in
       andThen (ParseFileLineInfo Y info str s) (\<lambda>(str, info, s).
       andThen (drop_unknown Y (ai_function info) s) (\<lambda>(f, s).
       let info = info\<lparr>ai_function := f\<rparr> in
       andThen (if ai_file info \<noteq> 0 then drop_unknown Y (ai_file info) s else Inr (ai_file info, s)) (\<lambda>(f, s).
       let info = info\<lparr>ai_file := f\<rparr> in
       pc_frames n Y False rs lst str (set_info cur info s)))))))"

definition ParseSymbolizePCOutput ::
    "symb_env \<Rightarrow> uptr \<Rightarrow> uptr \<Rightarrow> 'a symb_state_scheme \<Rightarrow> 'a symb_state_scheme res" where
  "ParseSymbolizePCOutput Y str rs s = pc_frames (symb_fuel Y) Y True rs rs str s"

definition ParseSymbolizeDataOutput ::
    "symb_env \<Rightarrow> uptr \<Rightarrow> DataInfo \<Rightarrow> 'a pool_state_scheme \<Rightarrow> (DataInfo \<times> 'a pool_state_scheme) res" where
  "ParseSymbolizeDataOutput Y str info s =
     andThen (ExtractToken Y str (lit_newline Y) s) (\<lambda>(str, t, s).
     let info = info\<lparr>di_name := t\<rparr> in
     andThen (ExtractUptr Y str (lit_space Y) (di_start info) s) (\<lambda>(str, v, s).
     let info = info\<lparr>di_start := v\<rparr> in
     andThen (ExtractUptr Y str (lit_newline Y) (di_size info) s) (\<lambda>(str, v, s).
     let info = info\<lparr>di_size := v\<rparr> in
     andThen (ExtractToken Y str (lit_colon Y) s) (\<lambda>(str, t, s).
     let info = info\<lparr>di_file := t\<rparr> in
     andThen (ExtractUptr Y str (lit_newline Y) (di_line info) s) (\<lambda>(str, v, s).
     Inr (info\<lparr>di_line := v\<rparr>, s))))))"

text \<open>One local variable; the fields of a fresh \<open>LocalInfo\<close> are 0.\<close>

definition zero_LocalInfo :: LocalInfo where
  "zero_LocalInfo = \<lparr> li_function_name = 0, li_name = 0, li_decl_file = 0, li_decl_line = 0,
     li_has_frame_offset = False, li_has_size = False, li_has_tag_offset = False, li_frame_offset = 0,
     li_size = 0, li_tag_offset = 0 \<rparr>"

definition parse_local ::
    "symb_env \<Rightarrow> uptr \<Rightarrow> 'a pool_state_scheme \<Rightarrow> (uptr \<times> LocalInfo \<times> 'a pool_state_scheme) res" where
  "parse_local Y str s =
     andThen (ExtractToken Y str (lit_newline Y) s) (\<lambda>(str, t, s).
     let l = zero_LocalInfo\<lparr>li_function_name := t\<rparr> in
     andThen (ExtractToken Y str (lit_newline Y) s) (\<lambda>(str, t, s).
     let l = l\<lparr>li_name := t\<rparr> in
     andThen (ParseFileLineInfo Y (AddressInfo_new Y) str s) (\<lambda>(str, addr, s).
     let l = l\<lparr>li_decl_file := ai_file addr, li_decl_line := ai_line addr\<rparr>;
         l = l\<lparr>li_has_frame_offset := (internal_strncmp (mem s) str (lit_unknown Y) 2 \<noteq> 0)\<rparr> in
     andThen (ExtractSptr Y str (lit_space Y) (li_frame_offset l) s) (\<lambda>(str, v, s).
     let l = l\<lparr>li_frame_offset := v\<rparr>;
         l = l\<lparr>li_has_size := (internal_strncmp (mem s) str (lit_unknown Y) 2 \<noteq> 0)\<rparr> in
     andThen (ExtractUptr Y str (lit_space Y) (li_size l) s) (\<lambda>(str, v, s).
     let l = l\<lparr>li_size := v\<rparr>;
         l = l\<lparr>li_has_tag_offset := (internal_strncmp (mem s) str (lit_unknown Y) 2 \<noteq> 0)\<rparr> in
     andThen (ExtractUptr Y str (lit_newline Y) (li_tag_offset l) s) (\<lambda>(str, v, s).
     Inr (str, l\<lparr>li_tag_offset := v\<rparr>, s)))))))"

fun frame_locals ::
    "nat \<Rightarrow> symb_env \<Rightarrow> uptr \<Rightarrow> LocalInfo list \<Rightarrow> 'a pool_state_scheme \<Rightarrow> (LocalInfo list \<times> 'a pool_state_scheme) res" where
  "frame_locals 0 Y str ls s = Inl Out_of_fuel"
| "frame_locals (Suc n) Y str ls s =
     (if mem s str \<noteq> 0 then
        andThen (parse_local Y str s) (\<lambda>(str, l, s). frame_locals n Y str (ls @ [l]) s)
      else Inr (ls, s))"

definition ParseSymbolizeFrameOutput ::
    "symb_env \<Rightarrow> uptr \<Rightarrow> LocalInfo list \<Rightarrow> 'a pool_state_scheme \<Rightarrow> (LocalInfo list \<times> 'a pool_state_scheme) res" where
  "ParseSymbolizeFrameOutput Y str ls s =
     (if internal_strncmp (mem s) str (lit_unknown Y) 2 = 0 then Inr (ls, s)
      else frame_locals (symb_fuel Y) Y str ls s)"

section \<open>The symbolizer process\<close>

definition SymbolizerProcess_new :: "uptr \<Rightarrow> memory \<Rightarrow> SymbolizerProcess res" where
  "SymbolizerProcess_new path m =
     andThen (check (path \<noteq> 0)) (\<lambda>_.
     andThen (check (m path \<noteq> 0)) (\<lambda>_.
     Inr \<lparr> sp_path = path, sp_input_fd = kInvalidFd, sp_output_fd = kInvalidFd,
           sp_buffer = \<lparr> vdata = [], vec_addr = 0, capacity_bytes = 0 \<rparr>, sp_times_restarted = 0,
           sp_failed_to_start = False, sp_warnings = [] \<rparr>))"

text \<open>\<open>LLVMSymbolizerProcess\<close>: an empty line ends an answer; the arguments of the process.\<close>

definition ReachedEndOfOutput :: "u8 list \<Rightarrow> bool" where
  "ReachedEndOfOutput buffer \<longleftrightarrow>
     2 \<le> length buffer \<and> buffer ! (length buffer - 1) = 0x0A \<and> buffer ! (length buffer - 2) = 0x0A"

definition GetArgV :: "nat \<Rightarrow> bool \<Rightarrow> bool \<Rightarrow> string \<Rightarrow> string option list res" where
  "GetArgV kArgVMax demangle symbolize_inline_frames path_to_binary =
     (let kSymbolizerArch = ''--default-arch=x86_64'';
          demangle_flag = (if demangle then ''--demangle'' else ''--no-demangle'');
          inline_flag = (if symbolize_inline_frames then ''--inlines'' else ''--no-inlines'');
          argv = [Some path_to_binary, Some demangle_flag, Some inline_flag, Some kSymbolizerArch, None]
      in andThen (check (length argv \<le> kArgVMax)) (\<lambda>_. Inr argv))"

text \<open>
  What the rest of the runtime gives: the system layer, the address of the process name, and the
  start of the process, which belongs to \<open>sanitizer_symbolizer_posix_libcdep.cpp\<close>.
\<close>

record 's proc_env =
  pe_os :: "'s os_env"
  process_name :: uptr
  StartSymbolizerSubprocess :: "SymbolizerProcess \<Rightarrow> 's \<Rightarrow> (bool \<times> SymbolizerProcess \<times> 's) res"

definition warn :: "string \<Rightarrow> 'a symb_state_scheme \<Rightarrow> 'a symb_state_scheme" where
  "warn w s = s\<lparr>proc := (proc s)\<lparr>sp_warnings := w # sp_warnings (proc s)\<rparr>\<rparr>"

definition IsSameModule :: "symb_env \<Rightarrow> uptr \<Rightarrow> memory \<Rightarrow> uptr \<Rightarrow> bool res" where
  "IsSameModule Y ProcessName m path =
     (if ProcessName \<noteq> 0 then
        andThen (StripModuleName (symb_fuel Y) m path) (\<lambda>SymbolizerName.
        if SymbolizerName \<noteq> 0 then
          andThen (internal_strcmp (symb_fuel Y) m ProcessName SymbolizerName) (\<lambda>c. Inr (c = 0))
        else Inr False)
      else Inr False)"

definition WriteToSymbolizer ::
    "'a symb_state_scheme proc_env \<Rightarrow> uptr \<Rightarrow> uptr \<Rightarrow> 'a symb_state_scheme \<Rightarrow> (bool \<times> 'a symb_state_scheme) res" where
  "WriteToSymbolizer P buffer len s =
     (if len = 0 then Inr (True, s)
      else
        andThen (WriteToFile (pe_os P) (sp_output_fd (proc s)) buffer len s) (\<lambda>(r, s).
        case r of
          Some write_len \<Rightarrow>
            if write_len \<noteq> len then Inr (False, warn ''WARNING: Can't write to symbolizer'' s) else Inr (True, s)
        | None \<Rightarrow> Inr (False, warn ''WARNING: Can't write to symbolizer'' s)))"

text \<open>The elements the kernel has written from index \<open>i\<close> on, \<open>k\<close> of them.\<close>

definition vec_loaded :: "nat \<Rightarrow> nat \<Rightarrow> memory \<Rightarrow> u8 mmap_vector \<Rightarrow> u8 mmap_vector" where
  "vec_loaded i k m v = v\<lparr>vdata := take i (vdata v) @ map (\<lambda>j. m (vec_addr v + of_nat j)) [i..<i + k]
                             @ drop (i + k) (vdata v)\<rparr>"

text \<open>
  The loop of \<open>ReadFromSymbolizer\<close>. The \<open>ret\<close> set in its body is a variable of the body: it hides
  the outer \<open>ret\<close>, which stays true.
\<close>

fun read_answer ::
    "nat \<Rightarrow> 'a symb_state_scheme proc_env \<Rightarrow> u8 mmap_vector \<Rightarrow> 'a symb_state_scheme \<Rightarrow>
     (u8 mmap_vector \<times> 'a symb_state_scheme) res" where
  "read_answer 0 P buf s = Inl Out_of_fuel"
| "read_answer (Suc n) P buf s =
     (let G = os_globals (pe_os P); size_before = vec_size buf in
      andThen (vec_resize G 1 0 (size_before + 1024) buf s) (\<lambda>(buf, s).
      andThen (vec_resize G 1 0 (capacity 1 buf) buf s) (\<lambda>(buf, s).
      andThen (ReadFromFile (pe_os P) (sp_input_fd (proc s)) (vec_addr buf + size_before)
                 (vec_size buf - size_before) s) (\<lambda>(r, s).
      let just_read = (case r of None \<Rightarrow> 0 | Some k \<Rightarrow> k);
          buf = vec_loaded (unat size_before) (unat just_read) (mem s) buf in
      andThen (vec_resize G 1 0 (size_before + just_read) buf s) (\<lambda>(buf, s).
      if just_read = 0 then Inr (buf, warn ''WARNING: Can't read from symbolizer'' s)
      else if \<not> ReachedEndOfOutput (vdata buf) then read_answer n P buf s
      else Inr (buf, s))))))"

definition ReadFromSymbolizer ::
    "nat \<Rightarrow> 'a symb_state_scheme proc_env \<Rightarrow> 'a symb_state_scheme \<Rightarrow> (bool \<times> 'a symb_state_scheme) res" where
  "ReadFromSymbolizer n P s =
     (let buf = vec_clear (sp_buffer (proc s)); ret = True in
      andThen (read_answer n P buf s) (\<lambda>(buf, s).
      andThen (vec_push_back (os_globals (pe_os P)) 1 0 buf s) (\<lambda>(buf, s).
      Inr (ret, s\<lparr>proc := (proc s)\<lparr>sp_buffer := buf\<rparr>, mem := store_bytes (vec_addr buf) (vdata buf) (mem s)\<rparr>))))"

text \<open>The answer, as the address of the buffer, or 0.\<close>

definition SendCommandImpl ::
    "symb_env \<Rightarrow> 'a symb_state_scheme proc_env \<Rightarrow> uptr \<Rightarrow> 'a symb_state_scheme \<Rightarrow> (uptr \<times> 'a symb_state_scheme) res" where
  "SendCommandImpl Y P command s =
     (if sp_input_fd (proc s) = kInvalidFd \<or> sp_output_fd (proc s) = kInvalidFd then Inr (0, s)
      else
        andThen (internal_strlen (symb_fuel Y) (mem s) command) (\<lambda>len.
        andThen (WriteToSymbolizer P command len s) (\<lambda>(ok, s).
        if \<not> ok then Inr (0, s)
        else andThen (ReadFromSymbolizer (symb_fuel Y) P s) (\<lambda>(ok, s).
          if \<not> ok then Inr (0, s) else Inr (vec_addr (sp_buffer (proc s)), s)))))"

definition Restart ::
    "'a symb_state_scheme proc_env \<Rightarrow> 'a symb_state_scheme \<Rightarrow> (bool \<times> 'a symb_state_scheme) res" where
  "Restart P s =
     (let s = (if sp_input_fd (proc s) \<noteq> kInvalidFd then CloseFile (sp_input_fd (proc s)) s else s);
          s = (if sp_output_fd (proc s) \<noteq> kInvalidFd then CloseFile (sp_output_fd (proc s)) s else s)
      in andThen (StartSymbolizerSubprocess P (proc s) s) (\<lambda>(r, p, s). Inr (r, s\<lparr>proc := p\<rparr>)))"

text \<open>\<open>n\<close> is the number of restarts left.\<close>

fun send_loop ::
    "nat \<Rightarrow> symb_env \<Rightarrow> 'a symb_state_scheme proc_env \<Rightarrow> uptr \<Rightarrow> 'a symb_state_scheme \<Rightarrow>
     (uptr \<times> 'a symb_state_scheme) res" where
  "send_loop 0 Y P command s = Inr (0, s)"
| "send_loop (Suc n) Y P command s =
     andThen (SendCommandImpl Y P command s) (\<lambda>(r, s).
     if r \<noteq> 0 then Inr (r, s)
     else andThen (Restart P s) (\<lambda>(_, s).
       let s = s\<lparr>proc := (proc s)\<lparr>sp_times_restarted := sp_times_restarted (proc s) + 1\<rparr>\<rparr>
       in send_loop n Y P command s))"

definition SendCommand ::
    "symb_env \<Rightarrow> 'a symb_state_scheme proc_env \<Rightarrow> uptr \<Rightarrow> 'a symb_state_scheme \<Rightarrow> (uptr \<times> 'a symb_state_scheme) res" where
  "SendCommand Y P command s =
     (if sp_failed_to_start (proc s) then Inr (0, s)
      else
        andThen (IsSameModule Y (process_name P) (mem s) (sp_path (proc s))) (\<lambda>same.
        if same then
          let s = warn ''WARNING: Symbolizer was blocked from starting itself!'' s
          in Inr (0, s\<lparr>proc := (proc s)\<lparr>sp_failed_to_start := True\<rparr>\<rparr>)
        else
          andThen (send_loop (kMaxTimesRestarted Y - sp_times_restarted (proc s)) Y P command s) (\<lambda>(r, s).
          if r \<noteq> 0 then Inr (r, s)
          else if \<not> sp_failed_to_start (proc s) then
            let s = warn ''WARNING: Failed to use and restart external symbolizer!'' s
            in Inr (0, s\<lparr>proc := (proc s)\<lparr>sp_failed_to_start := True\<rparr>\<rparr>)
          else Inr (0, s))))"

section \<open>The tool \<open>LLVMSymbolizer\<close>\<close>

text \<open>
  \<open>format_command prefix module_name arch offset\<close> is the \<open>internal_snprintf\<close> of the command into
  \<open>buffer_\<close>, the first format for \<open>kModuleArchUnknown\<close>; it returns the size needed.
\<close>

record llvm_symbolizer =
  command_buffer :: uptr
  format_command :: "uptr \<Rightarrow> uptr \<Rightarrow> ModuleArch option \<Rightarrow> uptr \<Rightarrow> memory \<Rightarrow> int \<times> memory"
  lit_CODE :: uptr
  lit_DATA :: uptr
  lit_FRAME :: uptr

definition FormatAndSendCommand ::
    "symb_env \<Rightarrow> 'a symb_state_scheme proc_env \<Rightarrow> llvm_symbolizer \<Rightarrow> uptr \<Rightarrow> uptr \<Rightarrow> uptr \<Rightarrow> ModuleArch \<Rightarrow>
     'a symb_state_scheme \<Rightarrow> (uptr \<times> 'a symb_state_scheme) res" where
  "FormatAndSendCommand Y P L command_prefix module_name module_off a s =
     andThen (check (module_name \<noteq> 0)) (\<lambda>_.
     let (size_needed, m) = format_command L command_prefix module_name
           (if a = kModuleArchUnknown then None else Some a) module_off (mem s);
         s = s\<lparr>mem := m\<rparr>
     in if kBufferSize Y \<le> size_needed then Inr (0, warn ''WARNING: Command buffer too small'' s)
        else SendCommand Y P (command_buffer L) s)"

definition LLVM_SymbolizePC ::
    "symb_env \<Rightarrow> 'a symb_state_scheme proc_env \<Rightarrow> llvm_symbolizer \<Rightarrow> uptr \<Rightarrow> uptr \<Rightarrow> 'a symb_state_scheme \<Rightarrow>
     (bool \<times> 'a symb_state_scheme) res" where
  "LLVM_SymbolizePC Y P L addr stack s =
     (let info = ss_info (SS s stack) in
      andThen (FormatAndSendCommand Y P L (lit_CODE L) (ai_module info) (ai_module_offset info) (ai_module_arch info) s)
        (\<lambda>(buf, s).
      if buf = 0 then Inr (False, s)
      else andThen (ParseSymbolizePCOutput Y buf stack s) (\<lambda>s. Inr (True, s))))"

definition LLVM_SymbolizeData ::
    "symb_env \<Rightarrow> 'a symb_state_scheme proc_env \<Rightarrow> llvm_symbolizer \<Rightarrow> uptr \<Rightarrow> DataInfo \<Rightarrow> 'a symb_state_scheme \<Rightarrow>
     (bool \<times> DataInfo \<times> 'a symb_state_scheme) res" where
  "LLVM_SymbolizeData Y P L addr info s =
     andThen (FormatAndSendCommand Y P L (lit_DATA L) (di_module info) (di_module_offset info) (di_module_arch info) s)
       (\<lambda>(buf, s).
     if buf = 0 then Inr (False, info, s)
     else andThen (ParseSymbolizeDataOutput Y buf info s) (\<lambda>(info, s).
       Inr (True, info\<lparr>di_start := di_start info + (addr - di_module_offset info)\<rparr>, s)))"

definition LLVM_SymbolizeFrame ::
    "symb_env \<Rightarrow> 'a symb_state_scheme proc_env \<Rightarrow> llvm_symbolizer \<Rightarrow> uptr \<Rightarrow> FrameInfo \<Rightarrow> 'a symb_state_scheme \<Rightarrow>
     (bool \<times> FrameInfo \<times> 'a symb_state_scheme) res" where
  "LLVM_SymbolizeFrame Y P L addr info s =
     andThen (FormatAndSendCommand Y P L (lit_FRAME L) (fi_module info) (fi_module_offset info) (fi_module_arch info) s)
       (\<lambda>(buf, s).
     if buf = 0 then Inr (False, info, s)
     else andThen (ParseSymbolizeFrameOutput Y buf (fi_locals info) s) (\<lambda>(ls, s).
       Inr (True, info\<lparr>fi_locals := ls\<rparr>, s)))"

section \<open>The class \<open>Symbolizer\<close>\<close>

record 's symb_tool =
  tool_SymbolizePC :: "uptr \<Rightarrow> uptr \<Rightarrow> 's \<Rightarrow> (bool \<times> 's) res"
  tool_SymbolizeData :: "uptr \<Rightarrow> DataInfo \<Rightarrow> 's \<Rightarrow> (bool \<times> DataInfo \<times> 's) res"
  tool_SymbolizeFrame :: "uptr \<Rightarrow> FrameInfo \<Rightarrow> 's \<Rightarrow> (bool \<times> FrameInfo \<times> 's) res"
  tool_Flush :: "'s \<Rightarrow> 's res"
  tool_Demangle :: "uptr \<Rightarrow> 's \<Rightarrow> (uptr \<times> 's) res"

definition llvm_tool ::
    "symb_env \<Rightarrow> 'a symb_state_scheme proc_env \<Rightarrow> llvm_symbolizer \<Rightarrow> 'a symb_state_scheme symb_tool" where
  "llvm_tool Y P L =
     \<lparr> tool_SymbolizePC = LLVM_SymbolizePC Y P L, tool_SymbolizeData = LLVM_SymbolizeData Y P L,
       tool_SymbolizeFrame = LLVM_SymbolizeFrame Y P L, tool_Flush = Inr, tool_Demangle = (\<lambda>_ s. Inr (0, s)) \<rparr>"

text \<open>The tools and what the platform gives: the readers of the module lists and its own parts.\<close>

record 's symb_platform =
  tools :: "'s symb_tool list"
  modules_init :: "'s \<Rightarrow> (LoadedModule list \<times> 's) res"
  modules_fallbackInit :: "'s \<Rightarrow> (LoadedModule list \<times> 's) res"
  PlatformDemangle :: "uptr \<Rightarrow> 's \<Rightarrow> (uptr \<times> 's) res"
  PlatformInit :: "'s \<Rightarrow> (uptr \<times> 's) res"

text \<open>\<open>SymbolizerScope\<close> calls the hooks, when they are set, around the use of a tool.\<close>

definition scope_begin :: "'a symb_state_scheme \<Rightarrow> 'a symb_state_scheme" where
  "scope_begin s = (if start_hook s \<noteq> 0 then s\<lparr>hooks_run := start_hook s # hooks_run s\<rparr> else s)"

definition scope_end :: "'a symb_state_scheme \<Rightarrow> 'a symb_state_scheme" where
  "scope_end s = (if end_hook s \<noteq> 0 then s\<lparr>hooks_run := end_hook s # hooks_run s\<rparr> else s)"

definition AddHooks :: "uptr \<Rightarrow> uptr \<Rightarrow> 'a symb_state_scheme \<Rightarrow> 'a symb_state_scheme res" where
  "AddHooks sh eh s =
     andThen (check (start_hook s = 0 \<and> end_hook s = 0)) (\<lambda>_. Inr (s\<lparr>start_hook := sh, end_hook := eh\<rparr>))"

definition InvalidateModuleList :: "'a symb_state_scheme \<Rightarrow> 'a symb_state_scheme" where
  "InvalidateModuleList s = s\<lparr>modules_fresh := False\<rparr>"

definition GetOrInit ::
    "'a symb_state_scheme symb_platform \<Rightarrow> 'a symb_state_scheme \<Rightarrow> (uptr \<times> 'a symb_state_scheme) res" where
  "GetOrInit T s =
     (if the_symbolizer s \<noteq> 0 then Inr (the_symbolizer s, s)
      else andThen (PlatformInit T s) (\<lambda>(p, s).
        let s = s\<lparr>the_symbolizer := p\<rparr> in
        andThen (check (the_symbolizer s \<noteq> 0)) (\<lambda>_. Inr (the_symbolizer s, s))))"

definition RefreshModules ::
    "'a symb_state_scheme symb_platform \<Rightarrow> 'a symb_state_scheme \<Rightarrow> 'a symb_state_scheme res" where
  "RefreshModules T s =
     andThen (modules_init T s) (\<lambda>(ms, s).
     let s = s\<lparr>modules := ms\<rparr> in
     andThen (modules_fallbackInit T s) (\<lambda>(fs, s).
     let s = s\<lparr>fallback_modules := fs\<rparr> in
     andThen (check (modules s \<noteq> [])) (\<lambda>_. Inr (s\<lparr>modules_fresh := True\<rparr>))))"

fun SearchForModule :: "LoadedModule list \<Rightarrow> uptr \<Rightarrow> LoadedModule option" where
  "SearchForModule [] address = None"
| "SearchForModule (l # ls) address = (if module_containsAddress l address then Some l else SearchForModule ls address)"

definition search_fallback :: "uptr \<Rightarrow> 'a symb_state_scheme \<Rightarrow> LoadedModule option" where
  "search_fallback address s =
     (if fallback_modules s \<noteq> [] then SearchForModule (fallback_modules s) address else None)"

definition FindModuleForAddress ::
    "symb_env \<Rightarrow> 'a symb_state_scheme symb_platform \<Rightarrow> uptr \<Rightarrow> 'a symb_state_scheme \<Rightarrow>
     (LoadedModule option \<times> 'a symb_state_scheme) res" where
  "FindModuleForAddress Y T address s =
     (let modules_were_reloaded = \<not> modules_fresh s in
      andThen (if \<not> modules_fresh s then RefreshModules T s else Inr s) (\<lambda>s.
      case SearchForModule (modules s) address of
        Some l \<Rightarrow> Inr (Some l, s)
      | None \<Rightarrow>
          if \<not> intercept_dlopen_dlclose Y \<and> \<not> modules_were_reloaded then
            andThen (RefreshModules T s) (\<lambda>s.
            case SearchForModule (modules s) address of
              Some l \<Rightarrow> Inr (Some l, s)
            | None \<Rightarrow> Inr (search_fallback address s, s))
          else Inr (search_fallback address s, s)))"

text \<open>Name, offset and architecture of the module, or \<open>None\<close> for the result \<open>false\<close>.\<close>

definition FindModuleNameAndOffsetForAddress ::
    "symb_env \<Rightarrow> 'a symb_state_scheme symb_platform \<Rightarrow> uptr \<Rightarrow> 'a symb_state_scheme \<Rightarrow>
     ((uptr \<times> uptr \<times> ModuleArch) option \<times> 'a symb_state_scheme) res" where
  "FindModuleNameAndOffsetForAddress Y T address s =
     andThen (FindModuleForAddress Y T address s) (\<lambda>(l, s).
     Inr (case l of None \<Rightarrow> None | Some l \<Rightarrow> Some (full_name l, address - base_addr_of l, module_arch l), s))"

fun pc_tools ::
    "'a symb_state_scheme symb_tool list \<Rightarrow> uptr \<Rightarrow> uptr \<Rightarrow> 'a symb_state_scheme \<Rightarrow> 'a symb_state_scheme res" where
  "pc_tools [] addr stack s = Inr s"
| "pc_tools (t # ts) addr stack s =
     andThen (tool_SymbolizePC t addr stack (scope_begin s)) (\<lambda>(r, s).
     let s = scope_end s in if r then Inr s else pc_tools ts addr stack s)"

definition SymbolizePC ::
    "symb_env \<Rightarrow> 'a symb_state_scheme symb_platform \<Rightarrow> uptr \<Rightarrow> 'a symb_state_scheme \<Rightarrow> (uptr \<times> 'a symb_state_scheme) res" where
  "SymbolizePC Y T addr s =
     andThen (SymbolizedStack_New Y addr s) (\<lambda>(p, s).
     andThen (FindModuleForAddress Y T addr s) (\<lambda>(l, s).
     case l of None \<Rightarrow> Inr (p, s)
     | Some l \<Rightarrow>
         andThen (FillModuleInfo_of Y l (ss_info (SS s p)) s) (\<lambda>(i, s).
         andThen (pc_tools (tools T) addr p (set_info p i s)) (\<lambda>s. Inr (p, s)))))"

fun data_tools ::
    "'a symb_state_scheme symb_tool list \<Rightarrow> uptr \<Rightarrow> DataInfo \<Rightarrow> 'a symb_state_scheme \<Rightarrow> (DataInfo \<times> 'a symb_state_scheme) res" where
  "data_tools [] addr info s = Inr (info, s)"
| "data_tools (t # ts) addr info s =
     andThen (tool_SymbolizeData t addr info (scope_begin s)) (\<lambda>(r, info, s).
     let s = scope_end s in if r then Inr (info, s) else data_tools ts addr info s)"

definition SymbolizeData ::
    "symb_env \<Rightarrow> 'a symb_state_scheme symb_platform \<Rightarrow> uptr \<Rightarrow> DataInfo \<Rightarrow> 'a symb_state_scheme \<Rightarrow>
     (bool \<times> DataInfo \<times> 'a symb_state_scheme) res" where
  "SymbolizeData Y T addr info s =
     andThen (FindModuleNameAndOffsetForAddress Y T addr s) (\<lambda>(r, s).
     case r of None \<Rightarrow> Inr (False, info, s)
     | Some (module_name, module_off, a) \<Rightarrow>
         andThen (DataInfo_Clear info s) (\<lambda>(info, s).
         andThen (internal_strdup (symb_fuel Y) module_name s) (\<lambda>(p, s).
         let info = info\<lparr>di_module := p, di_module_offset := module_off, di_module_arch := a\<rparr> in
         andThen (data_tools (tools T) addr info s) (\<lambda>(info, s). Inr (True, info, s)))))"

fun frame_tools ::
    "'a symb_state_scheme symb_tool list \<Rightarrow> uptr \<Rightarrow> FrameInfo \<Rightarrow> 'a symb_state_scheme \<Rightarrow> (FrameInfo \<times> 'a symb_state_scheme) res" where
  "frame_tools [] addr info s = Inr (info, s)"
| "frame_tools (t # ts) addr info s =
     andThen (tool_SymbolizeFrame t addr info (scope_begin s)) (\<lambda>(r, info, s).
     let s = scope_end s in if r then Inr (info, s) else frame_tools ts addr info s)"

definition SymbolizeFrame ::
    "symb_env \<Rightarrow> 'a symb_state_scheme symb_platform \<Rightarrow> uptr \<Rightarrow> FrameInfo \<Rightarrow> 'a symb_state_scheme \<Rightarrow>
     (bool \<times> FrameInfo \<times> 'a symb_state_scheme) res" where
  "SymbolizeFrame Y T addr info s =
     andThen (FindModuleNameAndOffsetForAddress Y T addr s) (\<lambda>(r, s).
     case r of None \<Rightarrow> Inr (False, info, s)
     | Some (module_name, module_off, a) \<Rightarrow>
         let info = info\<lparr>fi_module_offset := module_off, fi_module_arch := a\<rparr> in
         andThen (internal_strdup (symb_fuel Y) module_name s) (\<lambda>(p, s).
         andThen (frame_tools (tools T) addr (info\<lparr>fi_module := p\<rparr>) s) (\<lambda>(info, s). Inr (True, info, s))))"

text \<open>\<open>ModuleNameOwner\<close> keeps one copy of each module name.\<close>

fun find_name :: "nat \<Rightarrow> memory \<Rightarrow> uptr \<Rightarrow> uptr list \<Rightarrow> uptr res" where
  "find_name fuel m str [] = Inr 0"
| "find_name fuel m str (p # ps) =
     andThen (internal_strcmp fuel m p str) (\<lambda>c. if c = 0 then Inr p else find_name fuel m str ps)"

definition GetOwnedCopy ::
    "symb_env \<Rightarrow> ct_globals \<Rightarrow> uptr \<Rightarrow> 'a symb_state_scheme \<Rightarrow> (uptr \<times> 'a symb_state_scheme) res" where
  "GetOwnedCopy Y G str s =
     andThen (if last_match s \<noteq> 0 then andThen (internal_strcmp (symb_fuel Y) (mem s) (last_match s) str) (\<lambda>c. Inr (c = 0))
              else Inr False) (\<lambda>hit.
     if hit then Inr (last_match s, s)
     else
       andThen (find_name (symb_fuel Y) (mem s) str (vdata (name_storage s))) (\<lambda>p.
       if p \<noteq> 0 then Inr (p, s\<lparr>last_match := p\<rparr>)
       else
         andThen (internal_strdup (symb_fuel Y) str s) (\<lambda>(p, s).
         let s = s\<lparr>last_match := p\<rparr> in
         andThen (vec_push_back G 8 (last_match s) (name_storage s) s) (\<lambda>(v, s).
         Inr (last_match s, s\<lparr>name_storage := v\<rparr>)))))"

definition GetModuleNameAndOffsetForPC ::
    "symb_env \<Rightarrow> ct_globals \<Rightarrow> 'a symb_state_scheme symb_platform \<Rightarrow> bool \<Rightarrow> uptr \<Rightarrow> 'a symb_state_scheme \<Rightarrow>
     ((uptr \<times> uptr) option \<times> 'a symb_state_scheme) res" where
  "GetModuleNameAndOffsetForPC Y G T want_name pc s =
     andThen (FindModuleNameAndOffsetForAddress Y T pc s) (\<lambda>(r, s).
     case r of None \<Rightarrow> Inr (None, s)
     | Some (internal_module_name, module_address, a) \<Rightarrow>
         if want_name then
           andThen (GetOwnedCopy Y G internal_module_name s) (\<lambda>(n, s). Inr (Some (n, module_address), s))
         else Inr (Some (0, module_address), s))"

fun Symbolizer_Flush ::
    "'a symb_state_scheme symb_tool list \<Rightarrow> 'a symb_state_scheme \<Rightarrow> 'a symb_state_scheme res" where
  "Symbolizer_Flush [] s = Inr s"
| "Symbolizer_Flush (t # ts) s =
     andThen (tool_Flush t (scope_begin s)) (\<lambda>s. Symbolizer_Flush ts (scope_end s))"

fun demangle_tools ::
    "'a symb_state_scheme symb_tool list \<Rightarrow> uptr \<Rightarrow> 'a symb_state_scheme \<Rightarrow> (uptr \<times> 'a symb_state_scheme) res" where
  "demangle_tools [] name s = Inr (0, s)"
| "demangle_tools (t # ts) name s =
     andThen (tool_Demangle t name (scope_begin s)) (\<lambda>(r, s).
     let s = scope_end s in if r \<noteq> 0 then Inr (r, s) else demangle_tools ts name s)"

definition Demangle ::
    "'a symb_state_scheme symb_platform \<Rightarrow> uptr \<Rightarrow> 'a symb_state_scheme \<Rightarrow> (uptr \<times> 'a symb_state_scheme) res" where
  "Demangle T name s =
     andThen (demangle_tools (tools T) name s) (\<lambda>(r, s). if r \<noteq> 0 then Inr (r, s) else PlatformDemangle T name s)"

end
