(* ===== verification/Hwasan_Report.thy ===== *)
theory Hwasan_Report
  imports Symbolizer Hwasan_Heap Hwasan_Thread Shadow_Map
begin

text \<open>
  The reports of \<open>hwasan_report.cpp\<close>: an invalid free, a tail that was overwritten, a tag mismatch,
  and the description of an address. A report is the list of what it prints and its outcome; each
  constructor of \<open>report_line\<close> is one message with the values it shows. \<open>rep_env\<close> holds what the
  code uses from elsewhere: flags, the current thread, the symbolizer and the stack depot.
\<close>

section \<open>Reports\<close>

datatype side = Left_of | Right_of | Inside

datatype report_line =
  L_invalid_free uptr uptr "u64 option"         \<comment> \<open>address, pc, thread\<close>
| L_tags u8 u8                                  \<comment> \<open>of the pointer, of the memory\<close>
| L_stack "uptr list"
| L_tag_rows "(bool \<times> uptr \<times> (bool \<times> u8) list) list"
| L_summary string
| L_tail_overwritten uptr uptr uptr             \<comment> \<open>beginning, end, size\<close>
| L_tail_contains "u8 option list" "u8 option list" "bool option list"
| L_announce u64
| L_mismatch uptr uptr
| L_access bool uptr uptr u8 u8 "u8 option" u64 \<comment> \<open>write, size, address, tags, short tag, thread\<close>
| L_offset int
| L_registers uptr "uptr list" uptr
| L_is_shadow uptr
| L_heap_chunk uptr uptr bool bool uptr uptr
| L_cause_stack uptr u64
| L_stack_object uptr uptr uptr s32
| L_frames "(uptr \<times> uptr) list"
| L_heap_overflow uptr uptr side uptr uptr uptr
| L_alloc_stack u32
| L_global_overflow uptr uptr side uptr uptr uptr
| L_global_near uptr side "uptr option" uptr uptr
| L_use_after_free uptr uptr u32 uptr uptr
| L_freed_by u64 u32
| L_allocated_by u32
| L_dev_note uptr int uptr uptr
| L_no_detail
| L_causes nat

type_synonym 'a rep = "report_line list \<times> 'a res"

definition say :: "report_line list \<Rightarrow> unit rep" where "say ls = (ls, Inr ())"

definition silent :: "'a res \<Rightarrow> 'a rep" where "silent r = ([], r)"

definition repThen :: "'a rep \<Rightarrow> ('a \<Rightarrow> 'b rep) \<Rightarrow> 'b rep" where
  "repThen m f = (case snd m of Inl e \<Rightarrow> (fst m, Inl e) | Inr x \<Rightarrow> (fst m @ fst (f x), snd (f x)))"

lemma repThen_cong [fundef_cong]:
  "m = m' \<Longrightarrow> (\<And>x. snd m' = Inr x \<Longrightarrow> f x = f' x) \<Longrightarrow> repThen m f = repThen m' f'"
  by (cases m'; cases "snd m'") (auto simp: repThen_def)

lemma repThen_simps [simp]:
  "repThen (ls, Inl e) f = (ls, Inl e)"
  "repThen (ls, Inr x) f = (ls @ fst (f x), snd (f x))"
  by (simp_all add: repThen_def)

record HeapAllocationRecord =
  har_tagged_addr :: uptr
  har_alloc_context_id :: u32
  har_free_context_id :: u32
  har_requested_size :: u32

text \<open>A thread with its two ring buffers, the latest entry first; a stack record has its address.\<close>

record report_thread =
  rt_thread :: Thread
  rt_heap :: "HeapAllocationRecord list option"
  rt_stack :: "(uptr \<times> uptr) list"

record rep_env =
  re_globals :: ct_globals
  re_map :: shadow_map
  re_current :: "Thread option"
  re_heap_history_size :: int
  re_stack_history_size :: uptr
  re_fuel :: nat
  GetPreviousInstructionPc :: "uptr \<Rightarrow> uptr"
  StackDepotGet :: "u32 \<Rightarrow> uptr list"
  frame_locals_at :: "uptr \<Rightarrow> LocalInfo list option"
  module_at :: "uptr \<Rightarrow> (uptr \<times> uptr) option"
  data_at :: "uptr \<Rightarrow> DataInfo option"
  dladdr_phdrs :: "uptr \<Rightarrow> (uptr \<times> (bool \<times> uptr \<times> uptr) list) option"
  HwasanGlobalsFor :: "uptr \<Rightarrow> (bool \<times> uptr \<times> uptr) list \<Rightarrow> hwasan_global list"
  actual_size :: "uptr \<Rightarrow> uptr"
  from_primary :: "uptr \<Rightarrow> bool"

section \<open>The message of an error\<close>

text \<open>
  \<open>ScopedReport\<close> collects the message of an error in a vector that starts as one zero byte. An
  append resizes and copies over the old terminating zero.
\<close>

definition append_message :: "u8 list \<Rightarrow> u8 list \<Rightarrow> u8 list" where
  "append_message buf msg =
     (let old_size = length buf;
          buf = buf @ replicate (length msg) 0
      in take (old_size - 1) buf @ msg @ drop (old_size - 1 + length msg) buf)"

record scoped_report =
  error_message :: "u8 list"
  error_message_active :: bool
  hwasan_report_count :: int

definition ScopedReport_new :: "bool \<Rightarrow> scoped_report \<Rightarrow> scoped_report" where
  "ScopedReport_new fatal r =
     \<lparr> error_message = [0], error_message_active = fatal, hwasan_report_count = hwasan_report_count r + 1 \<rparr>"

definition MaybeAppendToErrorMessage :: "u8 list \<Rightarrow> scoped_report \<Rightarrow> scoped_report" where
  "MaybeAppendToErrorMessage msg r =
     (if \<not> error_message_active r then r else r\<lparr>error_message := append_message (error_message r) msg\<rparr>)"

text \<open>The end of a report: the message the callback gets, whether the map is dumped, and death.\<close>

definition ScopedReport_destroy ::
    "bool \<Rightarrow> bool \<Rightarrow> nat \<Rightarrow> scoped_report \<Rightarrow> u8 list option \<times> bool \<times> unit res" where
  "ScopedReport_destroy fatal has_callback print_module_map r =
     (if has_callback then Some (error_message r) else None,
      2 \<le> print_module_map \<or> fatal \<and> print_module_map \<noteq> 0,
      if fatal then Inl Died else Inr ())"

definition GetStackTraceFromId :: "rep_env \<Rightarrow> u32 \<Rightarrow> uptr list res" where
  "GetStackTraceFromId R i =
     andThen (check (i \<noteq> 0)) (\<lambda>_.
     let t = StackDepotGet R i in andThen (check (t \<noteq> [])) (\<lambda>_. Inr t))"

section \<open>The allocation an address belonged to\<close>

text \<open>Record and index, with the numbers of entries that match by address or by 4 bits of tag.\<close>

definition untag_4b :: "uptr \<Rightarrow> uptr" where
  "untag_4b p = p AND (push_bit 60 1 - 1)"

definition har_contains :: "(uptr \<Rightarrow> uptr) \<Rightarrow> HeapAllocationRecord \<Rightarrow> uptr \<Rightarrow> bool" where
  "har_contains f h addr \<longleftrightarrow>
     f (har_tagged_addr h) \<le> f addr \<and> f addr < f (har_tagged_addr h) + ucast (har_requested_size h)"

fun find_record ::
    "HeapAllocationRecord list \<Rightarrow> uptr \<Rightarrow> nat \<Rightarrow> nat \<Rightarrow> nat \<Rightarrow> (HeapAllocationRecord \<times> nat) option \<times> nat \<times> nat" where
  "find_record [] tagged_addr i n n4 = (None, n, n4)"
| "find_record (h # hs) tagged_addr i n n4 =
     (if har_contains (\<lambda>p. p) h tagged_addr then (Some (h, i), n, n4)
      else find_record hs tagged_addr (i + 1)
        (if har_contains UntagAddr h tagged_addr then n + 1 else n)
        (if har_contains untag_4b h tagged_addr then n4 + 1 else n4))"

definition FindHeapAllocation ::
    "HeapAllocationRecord list option \<Rightarrow> uptr \<Rightarrow> (HeapAllocationRecord \<times> nat) option \<times> nat \<times> nat" where
  "FindHeapAllocation rb tagged_addr =
     (case rb of None \<Rightarrow> (None, 0, 0) | Some rb \<Rightarrow> find_record rb tagged_addr 0 0 0)"

section \<open>Variables on the stack\<close>

definition kRecordAddrBaseTagShift :: nat where "kRecordAddrBaseTagShift = 3"
definition kRecordFPShift :: nat where "kRecordFPShift = 48"
definition kRecordFPLShift :: nat where "kRecordFPLShift = 4"
definition kRecordFPModulus :: u32 where "kRecordFPModulus = push_bit (64 - kRecordFPShift + kRecordFPLShift) 1"

definition local_matches :: "u8 \<Rightarrow> uptr \<Rightarrow> u8 \<Rightarrow> uptr \<Rightarrow> LocalInfo \<Rightarrow> bool" where
  "local_matches addr_tag untagged_addr base_tag fp l \<longleftrightarrow>
     li_has_frame_offset l \<and> li_has_size l \<and> li_has_tag_offset l \<and>
     ucast (ucast base_tag XOR li_tag_offset l) = addr_tag \<and>
     (untagged_addr - fp - li_frame_offset l) AND ucast (kRecordFPModulus - 1) < li_size l"

definition record_pc :: "uptr \<Rightarrow> uptr" where
  "record_pc record = record AND (push_bit kRecordFPShift 1 - 1)"

definition record_locals :: "rep_env \<Rightarrow> u8 \<Rightarrow> uptr \<Rightarrow> uptr \<times> uptr \<Rightarrow> report_line list" where
  "record_locals R addr_tag untagged_addr = (\<lambda>(record_addr, record).
     let base_tag = ucast (drop_bit kRecordAddrBaseTagShift record_addr) :: u8;
         fp = push_bit kRecordFPLShift (drop_bit kRecordFPShift record);
         pc = record_pc record
     in case frame_locals_at R pc of None \<Rightarrow> []
        | Some ls \<Rightarrow> map (\<lambda>l. L_stack_object (li_name l) (li_function_name l) (li_decl_file l) (li_decl_line l))
                        (filter (local_matches addr_tag untagged_addr base_tag fp) ls))"

definition PrintStackAllocations :: "rep_env \<Rightarrow> (uptr \<times> uptr) list \<Rightarrow> u8 \<Rightarrow> uptr \<Rightarrow> report_line list" where
  "PrintStackAllocations R sa addr_tag untagged_addr =
     (let frames = unat (San_Min (re_stack_history_size R) (of_nat (length sa)));
          seen = takeWhile (\<lambda>e. snd e \<noteq> 0) (take frames sa);
          found = concat (map (record_locals R addr_tag untagged_addr) seen)
      in if found \<noteq> [] then found else [L_frames seen])"

section \<open>A candidate near the address\<close>

text \<open>
  \<open>TagsEqual\<close> also accepts a tag stored in the last byte of a short granule, the shadow of which is
  between 1 and 15.
\<close>

definition TagsEqual :: "ct_globals \<Rightarrow> memory \<Rightarrow> u8 \<Rightarrow> uptr \<Rightarrow> bool" where
  "TagsEqual G m tag tag_ptr =
     (if tag = m tag_ptr then True
      else if m tag_ptr = 0 \<or> ucast kShadowAlignment - 1 < m tag_ptr then False
      else tag = m (ShadowToMem G tag_ptr + kShadowAlignment - 1))"

text \<open>
  The scan goes outwards from the tag of the address, to the left first. The result is the
  candidate, its distance, and where \<open>left\<close> and \<open>right\<close> have got to.
\<close>

fun scan_tags ::
    "nat \<Rightarrow> rep_env \<Rightarrow> memory \<Rightarrow> u8 \<Rightarrow> nat \<Rightarrow> uptr \<Rightarrow> uptr \<Rightarrow> uptr option \<times> nat \<times> uptr \<times> uptr" where
  "scan_tags 0 R m tag d left right = (None, d, left, right)"
| "scan_tags (Suc n) R m tag d left right =
     (if MemIsShadow (re_map R) left \<and> TagsEqual (re_globals R) m tag left then (Some left, d, left, right)
      else
        let left = left - 1 in
        if MemIsShadow (re_map R) right \<and> TagsEqual (re_globals R) m tag right then (Some right, d, left, right)
        else scan_tags n R m tag (d + 1) left (right + 1))"

definition find_candidate :: "rep_env \<Rightarrow> memory \<Rightarrow> u8 \<Rightarrow> uptr \<Rightarrow> uptr option \<times> nat \<times> uptr \<times> uptr" where
  "find_candidate R m tag tag_ptr = scan_tags 1000 R m tag 0 tag_ptr tag_ptr"

text \<open>The segments of the object: whether \<open>PT_LOAD\<close>, file offset and address.\<close>

fun load_bias_of :: "uptr \<Rightarrow> (bool \<times> uptr \<times> uptr) list \<Rightarrow> uptr" where
  "load_bias_of ehdr [] = 0"
| "load_bias_of ehdr ((pt_load, p_off, vaddr) # phdrs) =
     (if \<not> pt_load \<or> p_off \<noteq> 0 then load_bias_of ehdr phdrs else ehdr - vaddr)"

fun global_size_at :: "uptr \<Rightarrow> hwasan_global list \<Rightarrow> uptr" where
  "global_size_at p [] = 0"
| "global_size_at p (g # gs) =
     (if global_addr g \<le> p \<and> p < global_addr g + global_size g then global_size g else global_size_at p gs)"

definition GetGlobalSizeFromDescriptor :: "rep_env \<Rightarrow> uptr \<Rightarrow> uptr" where
  "GetGlobalSizeFromDescriptor R p =
     (case dladdr_phdrs R p of None \<Rightarrow> 0
      | Some (ehdr, phdrs) \<Rightarrow> global_size_at p (HwasanGlobalsFor R (load_bias_of ehdr phdrs) phdrs))"

definition ShowHeapOrGlobalCandidate :: "rep_env \<Rightarrow> uptr \<Rightarrow> uptr \<Rightarrow> uptr \<Rightarrow> uptr \<Rightarrow> unit rep" where
  "ShowHeapOrGlobalCandidate R untagged_addr candidate left right =
     (let mm = ShadowToMem (re_globals R) candidate in
      repThen (silent (FindHeapChunkByAddress mm)) (\<lambda>(block, d).
      if view_IsAllocated d then
        repThen (silent (view_End block d)) (\<lambda>en.
        repThen (silent (view_UsedSize d)) (\<lambda>used.
        repThen (silent (view_GetAllocStackId d)) (\<lambda>i.
        let bg = view_Beg block d;
            (offset, whence) =
              (if untagged_addr < en \<and> bg \<le> untagged_addr then (untagged_addr - bg, Inside)
               else if candidate = left then (untagged_addr - en, Right_of)
               else (bg - untagged_addr, Left_of))
        in repThen (say [L_heap_overflow untagged_addr offset whence used bg en]) (\<lambda>_.
           repThen (silent (GetStackTraceFromId R i)) (\<lambda>t. say [L_alloc_stack i, L_stack t])))))
      else
        case module_at R mm of None \<Rightarrow> say []
        | Some (module_name, module_address) \<Rightarrow>
            let dir = (if candidate = left then Right_of else Left_of) in
            (case data_at R mm of
               Some info \<Rightarrow>
                 if di_start info \<noteq> 0 then
                   say [L_global_overflow untagged_addr
                          (if candidate = left then untagged_addr - (di_start info + di_size info)
                           else di_start info - untagged_addr)
                          dir (di_size info) (di_start info) (di_name info)]
                 else say [L_global_near untagged_addr dir
                        (if GetGlobalSizeFromDescriptor R mm = 0 then None else Some (GetGlobalSizeFromDescriptor R mm))
                        module_name module_address]
             | None \<Rightarrow> say [L_global_near untagged_addr dir
                        (if GetGlobalSizeFromDescriptor R mm = 0 then None else Some (GetGlobalSizeFromDescriptor R mm))
                        module_name module_address])))"

section \<open>The description of an address\<close>

definition announce :: "report_thread \<Rightarrow> report_line list \<times> report_thread" where
  "announce t = (let (first, th) = Announce (rt_thread t)
                 in (if first then [L_announce (unique_id th)] else [], t\<lparr>rt_thread := th\<rparr>))"

definition is_current :: "rep_env \<Rightarrow> report_thread \<Rightarrow> bool" where
  "is_current R t = (case re_current R of None \<Rightarrow> False | Some c \<Rightarrow> unique_id c = unique_id (rt_thread t))"

text \<open>The threads whose stack holds the address: lines, threads, and how many there were.\<close>

fun visit_stacks ::
    "rep_env \<Rightarrow> (uptr \<times> uptr) list option \<Rightarrow> u8 \<Rightarrow> uptr \<Rightarrow> report_thread list \<Rightarrow> report_line list \<times> report_thread list \<times> nat" where
  "visit_stacks R current_stack addr_tag untagged_addr [] = ([], [], 0)"
| "visit_stacks R current_stack addr_tag untagged_addr (t # ts) =
     (let (ls, t', k) =
        (if AddrIsInStack (rt_thread t) untagged_addr then
           let (an, t') = announce t;
               sa = (case current_stack of Some c \<Rightarrow> if is_current R t then c else rt_stack t | None \<Rightarrow> rt_stack t)
           in ([L_cause_stack untagged_addr (unique_id (rt_thread t))] @ an @
               PrintStackAllocations R sa addr_tag untagged_addr, t', 1)
         else ([], t, 0));
          (ls', ts', k') = visit_stacks R current_stack addr_tag untagged_addr ts
      in (ls @ ls', t' # ts', k + k'))"

text \<open>The threads that have freed a chunk with the tagged address in it.\<close>

fun visit_heaps ::
    "rep_env \<Rightarrow> uptr \<Rightarrow> report_thread list \<Rightarrow> (report_thread list \<times> nat) rep" where
  "visit_heaps R tagged_addr [] = silent (Inr ([], 0))"
| "visit_heaps R tagged_addr (t # ts) =
     (case FindHeapAllocation (rt_heap t) tagged_addr of
        (None, _, _) \<Rightarrow>
          repThen (visit_heaps R tagged_addr ts) (\<lambda>(ts, k). silent (Inr (t # ts, k)))
      | (Some (har, ring_index), n, n4) \<Rightarrow>
          let untagged_addr = UntagAddr tagged_addr; bg = UntagAddr (har_tagged_addr har) in
          repThen (say [L_use_after_free untagged_addr (untagged_addr - bg) (har_requested_size har) bg
                          (bg + ucast (har_requested_size har)),
                        L_freed_by (unique_id (rt_thread t)) (har_free_context_id har)]) (\<lambda>_.
          repThen (silent (GetStackTraceFromId R (har_free_context_id har))) (\<lambda>tr.
          repThen (say [L_stack tr, L_allocated_by (har_alloc_context_id har)]) (\<lambda>_.
          repThen (silent (GetStackTraceFromId R (har_alloc_context_id har))) (\<lambda>tr.
          let (an, t) = announce t in
          repThen (say ([L_stack tr, L_dev_note (of_nat ring_index + 1) (re_heap_history_size R) (of_nat n) (of_nat n4)] @ an)) (\<lambda>_.
          repThen (visit_heaps R tagged_addr ts) (\<lambda>(ts, k). silent (Inr (t # ts, k + 1)))))))))"

definition announce_all :: "report_thread list \<Rightarrow> report_line list" where
  "announce_all ts = concat (map (\<lambda>t. fst (announce t)) ts)"

definition PrintAddressDescription ::
    "rep_env \<Rightarrow> memory \<Rightarrow> report_thread list \<Rightarrow> (uptr \<times> uptr) list option \<Rightarrow> uptr \<Rightarrow> unit rep" where
  "PrintAddressDescription R m threads current_stack tagged_addr =
     (let untagged_addr = UntagAddr tagged_addr in
      if MemIsShadow (re_map R) untagged_addr then say [L_is_shadow untagged_addr]
      else
        repThen (silent (FindHeapChunkByAddress untagged_addr)) (\<lambda>(block, d).
        let bg = view_Beg block d; sz = actual_size R block in
        repThen (say (if bg \<noteq> 0 then [L_heap_chunk bg (bg + sz) (from_primary R block) (view_IsAllocated d) sz (untagged_addr - bg)]
                      else [])) (\<lambda>_.
        let addr_tag = GetTagFromPointer tagged_addr;
            (ls, threads, on_stack) = visit_stacks R current_stack addr_tag untagged_addr threads;
            tag_ptr = MemToShadow (re_globals R) untagged_addr;
            (candidate, candidate_distance, left, right) = find_candidate R m addr_tag tag_ptr
        in repThen (say ls) (\<lambda>_.
           repThen (case candidate of
                      Some c \<Rightarrow> if on_stack = 0 \<and> candidate_distance \<le> 1
                                then repThen (ShowHeapOrGlobalCandidate R untagged_addr c left right) (\<lambda>_. silent (Inr 1))
                                else silent (Inr 0)
                    | None \<Rightarrow> silent (Inr 0)) (\<lambda>near.
           repThen (visit_heaps R tagged_addr threads) (\<lambda>(threads, heap).
           let printed = on_stack + near + heap in
           repThen (case candidate of
                      Some c \<Rightarrow> if printed = 0
                                then repThen (ShowHeapOrGlobalCandidate R untagged_addr c left right) (\<lambda>_. silent (Inr 1))
                                else silent (Inr printed)
                    | None \<Rightarrow> silent (Inr printed)) (\<lambda>printed.
           say (announce_all threads @ (if printed = 0 then [L_no_detail] else [])
                @ (if 1 < printed then [L_causes printed] else [])))))))))"

section \<open>Tags around an address\<close>

text \<open>The addresses of the rows, up to and without the end.\<close>

fun tag_rows :: "nat \<Rightarrow> uptr \<Rightarrow> uptr \<Rightarrow> uptr list res" where
  "tag_rows 0 row end_row = Inl Out_of_fuel"
| "tag_rows (Suc n) row end_row =
     (if row < end_row then andThen (tag_rows n (row + 16) end_row) (\<lambda>rs. Inr (row # rs)) else Inr [])"

definition PrintTagInfoAroundAddr ::
    "nat \<Rightarrow> memory \<Rightarrow> uptr \<Rightarrow> uptr \<Rightarrow> (bool \<times> uptr \<times> (bool \<times> u8) list) list res" where
  "PrintTagInfoAroundAddr fuel m tag_ptr num_rows =
     (let row_len = 16;
          center_row_beg = RoundDownTo tag_ptr row_len;
          beg_row = center_row_beg - row_len * (num_rows div 2);
          end_row = center_row_beg + row_len * ((num_rows + 1) div 2)
      in andThen (tag_rows fuel beg_row end_row) (\<lambda>rows.
         Inr (map (\<lambda>row. (row = center_row_beg, row,
                map (\<lambda>i. (row + of_nat i = tag_ptr, m (row + of_nat i))) [0..<16])) rows)))"

definition PrintTagsAroundAddr :: "rep_env \<Rightarrow> memory \<Rightarrow> uptr \<Rightarrow> unit rep" where
  "PrintTagsAroundAddr R m tag_ptr =
     repThen (silent (PrintTagInfoAroundAddr (re_fuel R) m tag_ptr 17)) (\<lambda>rows. say [L_tag_rows rows])"

section \<open>The reports\<close>

definition GetTopPc :: "rep_env \<Rightarrow> uptr list \<Rightarrow> uptr" where
  "GetTopPc R stack = (case stack of [] \<Rightarrow> 0 | pc # _ \<Rightarrow> GetPreviousInstructionPc R pc)"

text \<open>The address of the tag in the shadow and the tag, when the address has one.\<close>

definition tag_in_shadow :: "rep_env \<Rightarrow> memory \<Rightarrow> uptr \<Rightarrow> (uptr \<times> u8) option res" where
  "tag_in_shadow R m untagged_addr =
     andThen (MemIsApp (re_map R) untagged_addr) (\<lambda>app.
     if app then
       let tag_ptr = MemToShadow (re_globals R) untagged_addr
       in Inr (if MemIsShadow (re_map R) tag_ptr then Some (tag_ptr, m tag_ptr) else None)
     else Inr None)"

definition ReportInvalidFree :: "rep_env \<Rightarrow> memory \<Rightarrow> uptr list \<Rightarrow> uptr \<Rightarrow> unit rep" where
  "ReportInvalidFree R m stack tagged_addr =
     (let untagged_addr = UntagAddr tagged_addr; ptr_tag = GetTagFromPointer tagged_addr in
      repThen (silent (tag_in_shadow R m untagged_addr)) (\<lambda>t.
      let pc = GetTopPc R stack; bug_type = ''invalid-free'' in
      repThen (say [L_invalid_free untagged_addr pc (map_option unique_id (re_current R))]) (\<lambda>_.
      repThen (say (case t of None \<Rightarrow> [] | Some (_, mem_tag) \<Rightarrow> [L_tags ptr_tag mem_tag])) (\<lambda>_.
      repThen (say [L_stack stack]) (\<lambda>_.
      repThen (case t of None \<Rightarrow> say [] | Some (tag_ptr, _) \<Rightarrow> PrintTagsAroundAddr R m tag_ptr) (\<lambda>_.
      repThen (say [L_summary bug_type]) (\<lambda>_.
      silent (Inl (Exit 99)))))))))"

text \<open>The tail of a chunk and what was expected there; \<open>Some False\<close> marks a byte that differs.\<close>

definition expected_tail :: "uptr \<Rightarrow> uptr \<Rightarrow> u8 list \<Rightarrow> u8 \<Rightarrow> u8 list" where
  "expected_tail orig_size tail_size expected ptr_tag =
     (let actual_expected = take (unat tail_size) expected
      in if orig_size mod kShadowAlignment \<noteq> 0 then actual_expected[unat tail_size - 1 := ptr_tag]
         else actual_expected)"

definition ReportTailOverwritten ::
    "rep_env \<Rightarrow> memory \<Rightarrow> uptr list \<Rightarrow> uptr \<Rightarrow> uptr \<Rightarrow> u8 list \<Rightarrow> unit rep" where
  "ReportTailOverwritten R m stack tagged_addr orig_size expected =
     (let tail_size = kShadowAlignment - orig_size mod kShadowAlignment;
          ptr_tag = GetTagFromPointer tagged_addr;
          actual_expected = expected_tail orig_size tail_size expected ptr_tag;
          untagged_addr = UntagAddr tagged_addr;
          bug_type = ''allocation-tail-overwritten''
      in repThen (say [L_tail_overwritten untagged_addr (untagged_addr + orig_size) orig_size, L_stack stack]) (\<lambda>_.
         repThen (silent (check (0 < tail_size))) (\<lambda>_.
         repThen (silent (check (tail_size < kShadowAlignment))) (\<lambda>_.
         let tail = map (\<lambda>i. m (untagged_addr + orig_size + of_nat i)) [0..<unat tail_size];
             pad = unat (kShadowAlignment - tail_size)
         in repThen (say [L_tail_contains (replicate pad None @ map Some tail)
                            (replicate pad None @ map Some actual_expected)
                            (replicate pad None @ map2 (\<lambda>a b. Some (a = b)) actual_expected tail)]) (\<lambda>_.
            repThen (case re_current R of None \<Rightarrow> silent (Inl Null_deref)
                     | Some t \<Rightarrow> say (if fst (Announce t) then [L_announce (unique_id t)] else [])) (\<lambda>_.
            repThen (PrintTagsAroundAddr R m (MemToShadow (re_globals R) untagged_addr)) (\<lambda>_.
            repThen (say [L_summary bug_type]) (\<lambda>_.
            silent (Inl (Exit 99))))))))))"

definition ReportRegisters :: "memory \<Rightarrow> uptr \<Rightarrow> uptr \<Rightarrow> report_line list" where
  "ReportRegisters m frame pc =
     [L_registers pc (map (\<lambda>i. load64 m (frame + 8 * of_nat i)) [0..<31]) (frame + 256)]"

text \<open>
  The first bad byte. A memory tag between 1 and 15 is taken for the size of a short granule: when
  the tag in the granule's last byte is the one of the pointer, the bad byte is the first one
  behind the granule's data, or the first of the access if that starts later.
\<close>

definition bad_offset :: "memory \<Rightarrow> uptr \<Rightarrow> u8 \<Rightarrow> u8 \<Rightarrow> int \<Rightarrow> int \<times> u8 option" where
  "bad_offset m untagged_addr ptr_tag mem_tag offset =
     (if mem_tag \<noteq> 0 \<and> ucast mem_tag < kShadowAlignment then
        let p = untagged_addr + word_of_int offset;
            granule_ptr = p AND NOT (kShadowAlignment - 1);
            in_granule_offset = ucast (p AND (kShadowAlignment - 1)) :: u8;
            short_tag = m (granule_ptr + kShadowAlignment - 1)
        in (if short_tag = ptr_tag \<and> in_granule_offset < mem_tag
            then offset + (uint mem_tag - uint in_granule_offset) else offset, Some short_tag)
      else (offset, None))"

definition ReportTagMismatch ::
    "rep_env \<Rightarrow> memory \<Rightarrow> uptr list \<Rightarrow> uptr \<Rightarrow> uptr \<Rightarrow> bool \<Rightarrow> uptr \<Rightarrow> unit rep" where
  "ReportTagMismatch R m stack tagged_addr access_size write registers_frame =
     (let untagged_addr = UntagAddr tagged_addr;
          bug_type = ''tag-mismatch'';
          pc = GetTopPc R stack
      in repThen (say [L_mismatch untagged_addr pc]) (\<lambda>_.
         repThen (silent (hwasan_test_shadow (re_globals R) (re_fuel R) m tagged_addr access_size)) (\<lambda>offset.
         repThen (silent (check (0 \<le> offset \<and> offset < sint access_size))) (\<lambda>_.
         let ptr_tag = GetTagFromPointer tagged_addr;
             tag_ptr = MemToShadow (re_globals R) (untagged_addr + word_of_int offset);
             mem_tag = m tag_ptr;
             (offset, short_tag) = bad_offset m untagged_addr ptr_tag mem_tag offset
         in case re_current R of None \<Rightarrow> silent (Inl Null_deref)
            | Some t \<Rightarrow>
                repThen (say ([L_access write access_size untagged_addr ptr_tag mem_tag short_tag (unique_id t)]
                          @ (if offset \<noteq> 0 then [L_offset offset] else [])
                          @ (if fst (Announce t) then [L_announce (unique_id t)] else []) @ [L_stack stack])) (\<lambda>_.
                repThen (PrintTagsAroundAddr R m tag_ptr) (\<lambda>_.
                repThen (say (if registers_frame \<noteq> 0 then ReportRegisters m registers_frame pc else [])) (\<lambda>_.
                repThen (say [L_summary bug_type]) (\<lambda>_.
                silent (Inl (Exit 99))))))))))"

end
