(* ===== verification/Symbolizer_Parse.thy ===== *)
theory Symbolizer_Parse
  imports Symbolizer Region_Alloc_Inv
begin

text \<open>
  What the parsers of \<open>Symbolizer\<close> compute. Strings are lists of bytes; \<open>text_at\<close> says that memory
  holds one outside the free part of the persistent storage, and \<open>grows\<close> that a step only takes
  storage and writes only what it took. Each parser is reduced to a function on lists that returns
  the rest of the string. Together they give \<open>pc_answer_parses\<close>: what the symbolizer process prints
  for a list of frames is parsed back to these frames; \<open>data_answer_parses\<close> is the same for data.
  \<open>ready\<close> bounds the storage the parsers need, and the fuel by the length of the string.
\<close>

section \<open>The storage\<close>

definition used :: "'a pool_state_scheme \<Rightarrow> nat" where "used s = unat (cur_loc (persistent s))"

definition lim :: "'a pool_state_scheme \<Rightarrow> nat" where "lim s = unat (end_addr (persistent s))"

definition storage_ok :: "'a pool_state_scheme \<Rightarrow> bool" where
  "storage_ok s \<longleftrightarrow> 0 < used s \<and> used s \<le> lim s \<and> lim s + 2 ^ 20 \<le> 2 ^ 64"

text \<open>The storage a block of \<open>k\<close> bytes takes.\<close>

definition cost :: "nat \<Rightarrow> nat" where "cost k = (k + 15) div 16 * 16"

definition kept :: "'a pool_state_scheme \<Rightarrow> 'a pool_state_scheme \<Rightarrow> bool" where
  "kept s s' \<longleftrightarrow> used s \<le> used s' \<and> lim s' = lim s \<and>
     (\<forall>q. \<not> (used s \<le> unat q \<and> unat q < lim s) \<longrightarrow> mem s' q = mem s q)"

definition grows :: "'a pool_state_scheme \<Rightarrow> 'a pool_state_scheme \<Rightarrow> bool" where
  "grows s s' \<longleftrightarrow> (\<exists>m pa. s' = s\<lparr>mem := m, persistent := pa\<rparr>) \<and> kept s s'"

lemma kept_refl [simp]: "kept s s" by (simp add: kept_def)

lemma kept_trans: "kept s t \<Longrightarrow> kept t u \<Longrightarrow> kept s u" by (auto simp: kept_def)

lemma grows_kept: "grows s t \<Longrightarrow> kept s t" by (simp add: grows_def)

lemma grows_fields:
  assumes "grows s t"
  shows "used s \<le> used t" "lim t = lim s" "\<not> (used s \<le> unat q \<and> unat q < lim s) \<Longrightarrow> mem t q = mem s q"
  using assms by (auto simp: grows_def kept_def)

lemma grows_refl [simp]: "grows s s"
  by (auto simp: grows_def intro!: exI [of _ "mem s"] exI [of _ "persistent s"])

lemma grows_trans:
  assumes "grows s t" "grows t u"
  shows "grows s u"
proof -
  obtain m pa m' pa' where "t = s\<lparr>mem := m, persistent := pa\<rparr>" "u = t\<lparr>mem := m', persistent := pa'\<rparr>"
    using assms unfolding grows_def by blast
  then have "u = s\<lparr>mem := m', persistent := pa'\<rparr>" by simp
  moreover have "kept s u" using assms kept_trans unfolding grows_def by blast
  ultimately show ?thesis unfolding grows_def by blast
qed

definition text_at :: "'a pool_state_scheme \<Rightarrow> uptr \<Rightarrow> u8 list \<Rightarrow> bool" where
  "text_at s p xs \<longleftrightarrow> cstr (mem s) p xs \<and> p \<noteq> 0 \<and> unat p + length xs < 2 ^ 64 \<and>
     (unat p + length xs < used s \<or> lim s \<le> unat p)"

lemma text_kept:
  assumes "text_at s p xs" "kept s s'"
  shows "text_at s' p xs"
proof -
  have at: "unat (p + of_nat i) = unat p + i" if "i \<le> length xs" for i
    using assms(1) that by (intro no_wrap_add [of p "Suc (length xs)"]) (auto simp: text_at_def)
  have "cstr (mem s') p xs"
  proof (rule cstr_cong [of xs _ _ "mem s"])
    fix i assume i: "i \<le> length xs"
    then show "mem s' (p + of_nat i) = mem s (p + of_nat i)"
      using assms at [OF i] by (auto simp: text_at_def kept_def)
  qed (use assms(1) in \<open>simp add: text_at_def\<close>)
  then show ?thesis using assms by (auto simp: text_at_def kept_def)
qed

lemmas text_grows = text_kept [OF _ grows_kept]

lemma text_drop:
  assumes "text_at s p xs" "k \<le> length xs"
  shows "text_at s (p + of_nat k) (drop k xs)"
proof -
  have u: "unat (p + of_nat k) = unat p + k"
    using assms by (intro no_wrap_add [of p "Suc (length xs)"]) (auto simp: text_at_def)
  moreover have "0 < unat p" using assms(1) by (simp add: text_at_def unat_gt_0)
  ultimately have "p + of_nat k \<noteq> 0" by (metis add_gr_0 unat_eq_zero less_numeral_extra(3))
  then show ?thesis using assms u by (auto simp: text_at_def cstr_drop)
qed

lemma storage_grows: "storage_ok s \<Longrightarrow> grows s s' \<Longrightarrow> used s' \<le> lim s' \<Longrightarrow> storage_ok s'"
  by (auto simp: storage_ok_def grows_def kept_def)

lemma allocate_step:
  assumes ok: "storage_ok s" and n: "0 < unat n" "unat n \<le> 2 ^ 16" and r: "used s + cost (unat n) < lim s"
  shows "\<exists>s'. persistent_allocate n s = Inr (cur_loc (persistent s), s') \<and> grows s s' \<and>
    used s' = used s + cost (unat n) \<and> storage_ok s'"
proof -
  let ?pa = "persistent s" and ?n = "round_up n 0x10"
  note ru = round_up_16 [OF n]
  have c: "unat ?n = cost (unat n)" using unat_round_up [of 4 n] n by (simp add: cost_def)
  have u: "unat (cur_loc ?pa + ?n) = used s + cost (unat n)"
    unfolding used_def using r c by (subst unat_add_small) (auto simp: used_def lim_def intro: less_trans)
  have nl: "\<not> end_addr ?pa \<le> cur_loc ?pa + ?n" using r u by (simp add: word_le_nat_alt lim_def)
  let ?s = "s\<lparr>mem := (\<lambda>q. if in_range (cur_loc ?pa) ?n q then 0 else mem s q),
      persistent := ?pa\<lparr>last_loc := cur_loc ?pa, cur_loc := cur_loc ?pa + ?n\<rparr>\<rparr>"
  have a: "persistent_allocate n s = Inr (cur_loc ?pa, ?s)"
    using nl by (simp add: persistent_allocate_def CTPersistentAllocatorAllocate_def ru(1) Let_def)
  have "unat (end_addr ?pa) < 2 ^ 64" using unsigned_less [of "end_addr ?pa"] by simp
  then have "unat (cur_loc ?pa) + unat ?n \<le> 2 ^ 64" using r c unfolding used_def lim_def by linarith
  from in_range_iff [OF this]
  have "\<forall>q. \<not> (used s \<le> unat q \<and> unat q < lim s) \<longrightarrow> mem ?s q = mem s q"
    using r c by (auto simp: used_def lim_def)
  moreover have "used s \<le> used ?s" "lim ?s = lim s" using u by (simp_all add: used_def lim_def)
  ultimately have "grows s ?s" unfolding grows_def kept_def by blast
  moreover have "used ?s = used s + cost (unat n)" using u by (simp add: used_def)
  moreover from this have "storage_ok ?s" using ok r by (auto simp: storage_ok_def lim_def)
  ultimately show ?thesis using a by blast
qed

text \<open>Writing into what a step took is part of the step.\<close>

lemma grows_write:
  assumes "grows s s'" "\<And>q. \<not> (used s \<le> unat q \<and> unat q < lim s) \<Longrightarrow> m q = mem s' q"
  shows "grows s (s'\<lparr>mem := m\<rparr>)"
proof -
  obtain m0 pa where "s' = s\<lparr>mem := m0, persistent := pa\<rparr>" using assms(1) unfolding grows_def by blast
  then have "s'\<lparr>mem := m\<rparr> = s\<lparr>mem := m, persistent := pa\<rparr>" by simp
  moreover have "used (s'\<lparr>mem := m\<rparr>) = used s'" "lim (s'\<lparr>mem := m\<rparr>) = lim s'" by (simp_all add: used_def lim_def)
  moreover have "\<forall>q. \<not> (used s \<le> unat q \<and> unat q < lim s) \<longrightarrow> m q = mem s q"
    using assms unfolding grows_def kept_def by auto
  ultimately show ?thesis using assms(1) unfolding grows_def kept_def by fastforce
qed

section \<open>Tokens\<close>

lemma copy_prefix_spec:
  assumes t: "text_at s str xs" and k: "k \<le> length xs" "Suc k \<le> 2 ^ 16"
    and ok: "storage_ok s" and r: "used s + cost (Suc k) < lim s"
  shows "\<exists>p s'. copy_prefix str (of_nat k) s = Inr (p, s') \<and> text_at s' p (take k xs) \<and> used s \<le> unat p \<and>
    unat p + k < used s' \<and> grows s s' \<and> used s' = used s + cost (Suc k) \<and> storage_ok s'"
proof -
  let ?p = "cur_loc (persistent s)"
  have n: "(of_nat k + 1 :: uptr) = of_nat (Suc k)" by simp
  have uk: "unat (of_nat (Suc k) :: uptr) = Suc k" "unat (of_nat k :: uptr) = k"
    using k(2) by (intro unat_of_nat_small, simp)+
  have "0 < unat (of_nat (Suc k) :: uptr)" "unat (of_nat (Suc k) :: uptr) \<le> 2 ^ 16" using k(2) by (simp_all only: uk)
  from allocate_step [OF ok this] r uk obtain s1 where
    a: "persistent_allocate (of_nat (Suc k)) s = Inr (?p, s1)" and g: "grows s s1"
      "used s1 = used s + cost (Suc k)" "storage_ok s1" by auto
  have kc: "Suc k \<le> cost (Suc k)" by (simp add: cost_def)
  have p: "unat ?p = used s" by (simp add: used_def)
  have wrap: "used s + Suc k < 2 ^ 64" using r kc ok by (simp add: storage_ok_def)
  have src: "unat (str + of_nat j) = unat str + j" if "j \<le> length xs" for j
    using t that by (intro no_wrap_add [of str "Suc (length xs)"]) (auto simp: text_at_def)
  have dst: "unat (?p + of_nat j) = used s + j" if "j \<le> k" for j
    using wrap that no_wrap_add [of ?p "Suc k" j] by (simp add: p)
  define m where "m = (internal_memcpy ?p str (of_nat k) (mem s1))(?p + of_nat k := 0)"
  have cp: "internal_memcpy ?p str (of_nat k) (mem s1) =
      (\<lambda>q. if q - ?p < of_nat k then mem s1 (str + (q - ?p)) else mem s1 q)"
  proof (rule memcpy_spec)
    fix i j :: nat assume "i < j" "j < unat (of_nat k :: uptr)"
    then have "i \<le> k" "j \<le> length xs" "j < k" using uk k by simp_all
    then have "unat (?p + of_nat i) \<noteq> unat (str + of_nat j)"
      using t dst [of i] src [of j] r kc by (auto simp: text_at_def)
    then show "?p + of_nat i \<noteq> str + of_nat j" by auto
  qed
  have "copy_prefix str (of_nat k) s = Inr (?p, s1\<lparr>mem := m\<rparr>)"
    by (simp only: copy_prefix_def n a andThen_simps) (simp add: m_def)
  moreover have "grows s (s1\<lparr>mem := m\<rparr>)"
  proof (rule grows_write [OF g(1)])
    fix q :: uptr assume q: "\<not> (used s \<le> unat q \<and> unat q < lim s)"
    have "q \<noteq> ?p + of_nat k" using q dst [of k] r kc by auto
    moreover have "\<not> q - ?p < of_nat k"
      using q p r kc in_range_iff [of ?p "of_nat k" q] wrap uk by (auto simp: in_range_def)
    ultimately show "m q = mem s1 q" by (simp add: m_def cp)
  qed
  moreover have "text_at (s1\<lparr>mem := m\<rparr>) ?p (take k xs)"
  proof -
    have "cstr (mem s1) str xs" using text_grows [OF t g(1)] by (simp add: text_at_def)
    then have "cstr m ?p (take k xs)"
    proof (rule cstr_moved)
      fix i assume i: "i < k"
      have "(of_nat i :: uptr) < of_nat k" using i uk k by (intro of_nat_in_range) simp_all
      moreover have "?p + of_nat i \<noteq> ?p + of_nat k"
      proof
        assume "?p + of_nat i = ?p + of_nat k"
        then have "unat (of_nat i :: uptr) = unat (of_nat k :: uptr)" by simp
        moreover have "unat (of_nat i :: uptr) = i" using i k by (intro unat_of_nat_small) simp
        ultimately show False using i uk by simp
      qed
      ultimately show "m (?p + of_nat i) = mem s1 (str + of_nat i)" by (simp add: m_def cp)
    qed (use k t in \<open>simp_all add: m_def text_at_def\<close>)
    moreover have "?p \<noteq> 0" using ok by (auto simp: storage_ok_def used_def)
    moreover have "used (s1\<lparr>mem := m\<rparr>) = used s1" by (simp add: used_def)
    ultimately show ?thesis using k g(2) kc p wrap by (simp add: text_at_def)
  qed
  moreover have "storage_ok (s1\<lparr>mem := m\<rparr>)" "used (s1\<lparr>mem := m\<rparr>) = used s + cost (Suc k)"
    using g by (simp_all add: storage_ok_def used_def lim_def)
  ultimately show ?thesis using p kc by (intro exI [of _ ?p] exI [of _ "s1\<lparr>mem := m\<rparr>"]) simp
qed

lemma strcspn_from_spec:
  assumes "cstr m (s + of_nat k) xs" "cstr m r ds" "length ds < fuel" "length xs < n" "\<forall>j \<le> length ds. r + of_nat j \<noteq> 0"
  shows "strcspn_from fuel n m s r (of_nat k) = Inr (of_nat (k + length (takeWhile (\<lambda>x. x \<notin> set ds) xs)))"
  using assms
proof (induction xs arbitrary: k n)
  case Nil
  then show ?case by (cases n) auto
next
  case (Cons x xs)
  obtain n' where n: "n = Suc n'" using Cons.prems(4) by (cases n) auto
  have x: "m (s + of_nat k) = x" "x \<noteq> 0" using Cons.prems(1) by auto
  have uc: "ucast (char_val x) = x" by (rule bit_word_eqI) (auto simp: char_val_def bit_simps)
  have c: "internal_strchr fuel m r (char_val x) = Inr (if x \<in> set ds
      then r + of_nat (length (takeWhile (\<lambda>y. y \<noteq> x) (ds @ [0]))) else 0)"
    using x(2) by (simp add: internal_strchr_def strchr_from_spec [OF Cons.prems(2,3)] uc)
  have nz: "r + of_nat (length (takeWhile (\<lambda>y. y \<noteq> x) (ds @ [0]))) \<noteq> 0" if "x \<in> set ds"
  proof -
    have "takeWhile (\<lambda>y. y \<noteq> x) (ds @ [0]) = takeWhile (\<lambda>y. y \<noteq> x) ds" using that by (auto intro: takeWhile_append1)
    then show ?thesis using Cons.prems(5) length_takeWhile_le by metis
  qed
  have "cstr m (s + of_nat (Suc k)) xs" using Cons.prems(1) by (simp add: algebra_simps)
  from Cons.IH [OF this Cons.prems(2,3) _ Cons.prems(5), of n'] Cons.prems(4) n show ?case
    using x c nz by (simp add: algebra_simps)
qed

lemma ExtractToken_spec:
  assumes t: "text_at s str xs" and d: "text_at s ds_at ds"
    and f: "length xs < symb_fuel Y" "length ds < symb_fuel Y"
    and tok: "tok = takeWhile (\<lambda>x. x \<notin> set ds) xs" "length tok < 2 ^ 16"
    and ok: "storage_ok s" and r: "used s + cost (Suc (length tok)) < lim s"
  shows "\<exists>rest p s'. ExtractToken Y str ds_at s = Inr (rest, p, s') \<and> text_at s' p tok \<and>
    text_at s rest (drop (Suc (length tok)) xs) \<and> used s \<le> unat p \<and> unat p + length tok < used s' \<and>
    grows s s' \<and> used s' = used s + cost (Suc (length tok)) \<and> storage_ok s'"
proof -
  have le: "length tok \<le> length xs" unfolding tok by (rule length_takeWhile_le)
  have tk: "take (length tok) xs = tok" unfolding tok by (rule takeWhile_eq_take [symmetric])
  have "ds_at + of_nat j \<noteq> 0" if "j \<le> length ds" for j
    using text_drop [OF d that] by (simp add: text_at_def)
  then have "internal_strcspn (symb_fuel Y) (mem s) str ds_at = Inr (of_nat (length tok))"
    using strcspn_from_spec [of "mem s" str 0 xs ds_at ds "symb_fuel Y" "symb_fuel Y"] t d f
    by (simp add: internal_strcspn_def text_at_def tok)
  moreover from copy_prefix_spec [OF t le _ ok r] tok(2) tk obtain p s' where
    c: "copy_prefix str (of_nat (length tok)) s = Inr (p, s')" and p: "text_at s' p tok" "used s \<le> unat p"
      "unat p + length tok < used s'" and g: "grows s s'" "used s' = used s + cost (Suc (length tok))" "storage_ok s'"
    by auto
  let ?e = "str + of_nat (length tok)"
  let ?r = "if mem s' ?e \<noteq> 0 then ?e + 1 else ?e"
  have e: "text_at s' ?e (drop (length tok) xs)" by (rule text_drop [OF text_grows [OF t g(1)] le])
  have "text_at s ?r (drop (Suc (length tok)) xs)"
  proof (cases "drop (length tok) xs")
    case Nil
    then have "mem s' ?e = 0" using e by (simp add: text_at_def)
    then show ?thesis using text_drop [OF t le] Nil by simp
  next
    case (Cons y ys)
    then have "mem s' ?e \<noteq> 0" using e by (auto simp: text_at_def)
    moreover have lt: "Suc (length tok) \<le> length xs" using Cons le by (cases "length tok = length xs") auto
    ultimately show ?thesis using text_drop [OF t lt] by (simp add: algebra_simps)
  qed
  ultimately show ?thesis using p g c by (simp add: ExtractToken_def Let_def)
qed

section \<open>Numbers and lines\<close>

lemma takeWhile_before:
  assumes "\<forall>x \<in> set ys. x \<notin> set ds" "c \<in> set ds"
  shows "takeWhile (\<lambda>x. x \<notin> set ds) (ys @ c # zs) = ys"
  using assms by (induction ys) auto

text \<open>The literals the parsers compare with.\<close>

definition literals :: "symb_env \<Rightarrow> 'a pool_state_scheme \<Rightarrow> bool" where
  "literals Y s \<longleftrightarrow> text_at s (lit_newline Y) [0x0A] \<and> text_at s (lit_space Y) [0x20] \<and> text_at s (lit_colon Y) [0x3A] \<and>
     text_at s (lit_empty Y) [] \<and> text_at s (lit_unknown Y) [0x3F, 0x3F] \<and> 2 < symb_fuel Y"

lemma literals_kept: "literals Y s \<Longrightarrow> kept s s' \<Longrightarrow> literals Y s'"
  by (auto simp: literals_def intro: text_kept)

lemma cost_le: "cost k \<le> k + 15" by (simp add: cost_def)

section \<open>What the symbolizer process prints\<close>

text \<open>The decimal digits of a number.\<close>

fun dec :: "nat \<Rightarrow> u8 list" where
  "dec n = (if n < 10 then [of_nat (48 + n)] else dec (n div 10) @ [of_nat (48 + n mod 10)])"

declare dec.simps [simp del]

lemma digit_of: "k < 10 \<Longrightarrow> unat (of_nat (48 + k) :: u8) = 48 + k"
  by (rule unat_of_nat_small) simp

lemma is_digit_of: "k < 10 \<Longrightarrow> is_digit (of_nat (48 + k))"
  using digit_of [of k] by (simp add: is_digit_def word_le_nat_alt del: of_nat_add)

lemma dec_digits: "\<forall>x \<in> set (dec n). is_digit x"
proof (induction n rule: dec.induct)
  case (1 n)
  then show ?case using is_digit_of [of n] is_digit_of [of "n mod 10"]
    by (subst dec.simps) (auto simp del: of_nat_add)
qed

lemma dec_nonempty: "dec n \<noteq> []"
  by (subst dec.simps) simp

lemma decimal_dec [simp]: "decimal (dec n) = n"
proof (induction n rule: dec.induct)
  case (1 n)
  show ?case
  proof (cases "n < 10")
    case True
    then show ?thesis using digit_of [OF True] by (subst dec.simps) (simp add: decimal_def digit_val_def del: of_nat_add)
  next
    case False
    then have "decimal (dec n) = 10 * decimal (dec (n div 10)) + digit_val (of_nat (48 + n mod 10))"
      by (subst dec.simps) (simp add: decimal_def)
    also have "digit_val (of_nat (48 + n mod 10)) = n mod 10"
      using digit_of [of "n mod 10"] by (simp add: digit_val_def del: of_nat_add)
    finally show ?thesis using 1 False by simp
  qed
qed

section \<open>Fields\<close>

text \<open>
  The parser stands at the string \<open>xs\<close>, with \<open>b\<close> bytes of storage to spare beside a copy of \<open>xs\<close>.
\<close>

definition ready :: "nat \<Rightarrow> symb_env \<Rightarrow> 'a pool_state_scheme \<Rightarrow> uptr \<Rightarrow> u8 list \<Rightarrow> bool" where
  "ready b Y s str xs \<longleftrightarrow> text_at s str xs \<and> literals Y s \<and> storage_ok s \<and> length xs < symb_fuel Y \<and>
     length xs < 2 ^ 16 \<and> used s + length xs + b < lim s"

text \<open>A field that ends at the delimiter \<open>c\<close>.\<close>

lemma field_step:
  assumes t: "ready (b + 16) Y s str (ys @ c # zs)" and d: "text_at s d [c]" "c \<notin> set ys"
  shows "\<exists>rest p s'. ExtractToken Y str d s = Inr (rest, p, s') \<and> text_at s' p ys \<and> ready b Y s' rest zs \<and>
    text_at s rest zs \<and> used s \<le> unat p \<and> unat p + length ys < used s' \<and> grows s s'"
proof -
  have r: "text_at s str (ys @ c # zs)" "literals Y s" "2 < symb_fuel Y" "storage_ok s"
    "length (ys @ c # zs) < symb_fuel Y" "length ys < 2 ^ 16" "used s + (length ys + length zs + 17) + b < lim s"
    using t by (simp_all add: ready_def literals_def)
  note c = cost_le [of "Suc (length ys)"]
  have tw: "takeWhile (\<lambda>x. x \<notin> set [c]) (ys @ c # zs) = ys" using d(2) by (intro takeWhile_before) auto
  have "used s + cost (Suc (length ys)) < lim s" using r(7) c by simp
  from ExtractToken_spec [OF r(1) d(1) r(5) _ tw [symmetric] r(6,4) this] r(3) obtain rest p s' where
    e: "ExtractToken Y str d s = Inr (rest, p, s')" "text_at s' p ys" "used s \<le> unat p" "unat p + length ys < used s'"
    and z: "text_at s rest zs" "text_at s' rest zs" "grows s s'" "used s' = used s + cost (Suc (length ys))" "storage_ok s'" using text_grows by fastforce
  have "ready b Y s' rest zs"
    using t z c literals_kept [OF r(2) grows_kept [OF z(3)]] by (simp add: ready_def grows_def kept_def)
  then show ?thesis using e z(1,3) by blast
qed

lemma number_step:
  assumes t: "ready (b + 16) Y s str (dec n @ c # zs)" and d: "text_at s d [c]" "\<not> is_digit c" and n: "n < 2 ^ 63"
  shows "\<exists>rest v s'. extract_number Y str d s = Inr (rest, Some v, s') \<and> unat v = n \<and> ready b Y s' rest zs \<and> grows s s'"
proof -
  have "c \<notin> set (dec n)" using d(2) dec_digits [of n] by auto
  from field_step [OF t d(1) this] obtain rest p s' where
    e: "ExtractToken Y str d s = Inr (rest, p, s')" and p: "text_at s' p (dec n)" and r: "ready b Y s' rest zs" "grows s s'"
    by blast
  have f: "length (dec n) < symb_fuel Y" "0 < symb_fuel Y" using t by (simp_all add: ready_def)
  have "cstr (mem s') p ([] @ [] @ dec n @ [])" using p by (simp add: text_at_def)
  from strtoll_spec [OF this _ dec_digits _ dec_nonempty, of "symb_fuel Y"] f obtain v where
    v: "internal_simple_strtoll (symb_fuel Y) (mem s') p 10 = Inr (v, p + of_nat (length (dec n)))"
      "sint v = clamp64 (int n)" by auto
  have "sint v = int n" using v(2) n by (simp add: clamp64_def)
  moreover have "v = word_of_int (sint v)" by simp
  ultimately have "v = of_nat n" by simp
  then have "unat v = n" using n by (simp add: unat_of_nat_small)
  then show ?thesis using e v(1) r p
    by (auto simp: extract_number_def internal_atoll_def free_unchecked_def CTPersistentAllocatorFree_def text_at_def)
qed

lemma uptr_step:
  assumes "ready (b + 16) Y s str (dec n @ c # zs)" "text_at s d [c]" "\<not> is_digit c" "n < 2 ^ 63"
  shows "\<exists>rest v s'. ExtractUptr Y str d w s = Inr (rest, v, s') \<and> unat v = n \<and> ready b Y s' rest zs \<and> grows s s'"
  using number_step [OF assms] by (auto simp: ExtractUptr_def)

lemma ready_literals:
  assumes "ready b Y s str xs"
  shows "text_at s (lit_newline Y) [0x0A]" "text_at s (lit_space Y) [0x20]" "text_at s (lit_colon Y) [0x3A]"
  using assms by (simp_all add: ready_def literals_def)

text \<open>The answer to a \<open>DATA\<close> command: name, start and size, and the file with the line.\<close>

definition data_answer :: "u8 list \<Rightarrow> nat \<Rightarrow> nat \<Rightarrow> u8 list \<Rightarrow> nat \<Rightarrow> u8 list" where
  "data_answer nam start siz fil lin =
     nam @ 0x0A # dec start @ 0x20 # dec siz @ 0x0A # fil @ 0x3A # dec lin @ [0x0A]"


section \<open>File, line and column\<close>

lemma cstr_cut:
  assumes "cstr m p xs" "k \<le> length xs" "unat p + length xs < 2 ^ 64"
  shows "cstr (m(p + of_nat k := 0)) p (take k xs)"
proof (rule cstrI)
  show "0 \<notin> set (take k xs)" using cstr_nonzero [OF assms(1)] by (meson in_set_takeD)
  fix i assume i: "i \<le> length (take k xs)"
  have at: "unat (p + of_nat j) = unat p + j" if "j \<le> length xs" for j
    using assms(3) that by (intro no_wrap_add [of p "Suc (length xs)"]) auto
  show "(m(p + of_nat k := 0)) (p + of_nat i) = (take k xs @ [0]) ! i"
  proof (cases "i = k")
    case False
    then have "i < k" using i assms(2) by simp
    moreover from this have "unat (p + of_nat i) \<noteq> unat (p + of_nat k)" using at [of i] at [of k] assms(2) by simp
    then have "p + of_nat i \<noteq> p + of_nat k" by auto
    ultimately show ?thesis using cstr_byte [OF assms(1), of i] assms(2) by (simp add: nth_append)
  qed (use assms(2) in \<open>simp add: nth_append\<close>)
qed

lemma back_over_digits_spec:
  assumes c: "cstr m p (ys @ x # ds)" and d: "\<not> is_digit x" "\<forall>y \<in> set ds. is_digit y"
    and w: "unat p + length (ys @ x # ds) < 2 ^ 64" and j: "j \<le> length ds" "j \<le> n"
  shows "back_over_digits n m p (p + of_nat (length ys + j)) = p + of_nat (length ys)"
  using j
proof (induction j arbitrary: n)
  case 0
  have "m (p + of_nat (length ys)) = x" using cstr_byte [OF c, of "length ys"] by (simp add: nth_append)
  then show ?case using d(1) by (cases n) (simp_all add: IsDigit_char)
next
  case (Suc j)
  obtain k where n: "n = Suc k" using Suc.prems by (cases n) auto
  have "m (p + of_nat (length ys + Suc j)) = ds ! j"
    using cstr_byte [OF c, of "length ys + Suc j"] Suc.prems by (simp add: nth_append del: of_nat_add of_nat_Suc)
  then have "IsDigit (char_val (m (p + of_nat (length ys + Suc j))))" using d(2) Suc.prems by (simp add: IsDigit_char)
  moreover have "unat (p + of_nat (length ys + Suc j)) = unat p + (length ys + Suc j)"
    using w Suc.prems by (intro no_wrap_add [of p "Suc (length (ys @ x # ds))"]) auto
  then have "p < p + of_nat (length ys + Suc j)" by (simp only: word_less_nat_alt)
  moreover have "p + of_nat (length ys + Suc j) - 1 = p + of_nat (length ys + j)" by simp
  ultimately show ?case using Suc n by simp
qed

lemma take_number_step:
  assumes c: "cstr m p (ys @ 0x3A # dec n)" and w: "unat p + length (ys @ 0x3A # dec n) < 2 ^ 64"
    and n: "n < 2 ^ 63" and f: "length (dec n) < symb_fuel Y"
  shows "take_numbers (Suc k) Y p (p + of_nat (length ys + length (dec n))) info m =
    take_numbers k Y p (p + of_nat (length ys) - 1) (info\<lparr>ai_column := ai_line info, ai_line := of_nat n\<rparr>)
      (m(p + of_nat (length ys) := 0))"
proof -
  let ?e = "p + of_nat (length ys + length (dec n))" and ?q = "p + of_nat (length ys)"
  have e: "unat ?e = unat p + (length ys + length (dec n))"
    using w by (intro no_wrap_add [of p "Suc (length (ys @ 0x3A # dec n))"]) auto
  have lt: "p < ?e" using e dec_nonempty [of n] by (simp only: word_less_nat_alt) simp
  have "unat (?e - p) = length ys + length (dec n)" unfolding unat_sub [OF less_imp_le [OF lt]] e by simp
  then have b: "back_over_digits (unat (?e - p)) m p ?e = ?q"
    using w by (intro back_over_digits_spec [OF c _ dec_digits]) (simp_all add: is_digit_def)
  have colon: "m ?q = 0x3A" using cstr_byte [OF c, of "length ys"] by (simp add: nth_append)
  have "cstr m (p + of_nat (Suc (length ys))) (drop (Suc (length ys)) (ys @ 0x3A # dec n))"
    by (rule cstr_drop [OF c]) simp
  then have num: "cstr m (?q + 1) ([] @ [] @ dec n @ [])" by (simp add: algebra_simps)
  have "m (?q + 1) = hd (dec n)" using num dec_nonempty [of n] by (cases "dec n") auto
  then have dig: "IsDigit (char_val (m (?q + 1)))" using dec_digits [of n] dec_nonempty [of n] by (simp add: IsDigit_char)
  from strtoll_spec [OF num _ dec_digits _ dec_nonempty, of "symb_fuel Y"] f obtain v where
    v: "internal_simple_strtoll (symb_fuel Y) m (?q + 1) 10 = Inr (v, ?q + 1 + of_nat (length (dec n)))"
      "sint v = clamp64 (int n)" by auto
  have "sint v = int n" using v(2) n by (simp add: clamp64_def)
  moreover have "v = word_of_int (sint v)" by simp
  ultimately have "v = of_nat n" by simp
  moreover have "take_bit 64 n = n" using n by (simp add: take_bit_nat_eq_self)
  ultimately have "ucast v = (of_nat n :: s32)" by (simp add: unsigned_of_nat)
  then show ?thesis using b lt colon dig v(1) by (simp only: take_numbers.simps Let_def internal_atoll_def andThen_simps prod.case if_True if_False simp_thms)
qed

lemma take_numbers_spec:
  assumes c: "cstr m p (fil @ 0x3A # dec lin @ 0x3A # dec col)"
    and w: "unat p + length (fil @ 0x3A # dec lin @ 0x3A # dec col) < 2 ^ 64"
    and n: "lin < 2 ^ 63" "col < 2 ^ 63" and f: "length (dec lin) < symb_fuel Y" "length (dec col) < symb_fuel Y"
  shows "take_numbers 2 Y p (p + of_nat (length (fil @ 0x3A # dec lin @ 0x3A # dec col)) - 1) info m =
    Inr (info\<lparr>ai_column := of_nat col, ai_line := of_nat lin\<rparr>,
      m(p + of_nat (length (fil @ 0x3A # dec lin)) := 0, p + of_nat (length fil) := 0))"
proof -
  let ?ys = "fil @ 0x3A # dec lin" and ?i = "info\<lparr>ai_column := ai_line info, ai_line := of_nat col\<rparr>"
  let ?m = "m(p + of_nat (length ?ys) := 0)"
  have "cstr m p (?ys @ 0x3A # dec col)" "unat p + length (?ys @ 0x3A # dec col) < 2 ^ 64" using c w by simp_all
  from take_number_step [OF this n(2) f(2), of "Suc 0" info] have
    1: "take_numbers 2 Y p (p + of_nat (length (?ys @ 0x3A # dec col)) - 1) info m =
      take_numbers (Suc 0) Y p (p + of_nat (length ?ys) - 1) ?i ?m"
    by (simp add: numeral_2_eq_2 algebra_simps del: take_numbers.simps)
  have "cstr ?m p (take (length ?ys) (?ys @ 0x3A # dec col))" using c w by (intro cstr_cut) simp_all
  then have c': "cstr ?m p ?ys" by simp
  have "p + of_nat (length ?ys) - 1 = p + of_nat (length fil + length (dec lin))" by simp
  moreover have "unat p + length ?ys < 2 ^ 64" using w by simp
  note take_number_step [OF c' this n(1) f(1), of 0 ?i, unfolded take_numbers.simps(1)]
  ultimately show ?thesis using 1 by (simp del: take_numbers.simps)
qed

lemma ParseFileLineInfo_spec:
  assumes R: "ready (b + length fil + 32) Y s str (fil @ 0x3A # dec lin @ 0x3A # dec col @ 0x0A # zs)"
    and sep: "0x0A \<notin> set fil" and n: "lin < 2 ^ 63" "col < 2 ^ 63"
  shows "\<exists>rest p s'. ParseFileLineInfo Y info str s =
      Inr (rest, info\<lparr>ai_column := of_nat col, ai_line := of_nat lin, ai_file := p\<rparr>, s') \<and>
    text_at s' p fil \<and> ready b Y s' rest zs \<and> grows s s'"
proof -
  let ?ys = "fil @ 0x3A # dec lin @ 0x3A # dec col"
  have "0x0A \<notin> set ?ys" using sep dec_digits [of lin] dec_digits [of col] by (auto simp: is_digit_def)
  moreover have R': "ready ((b + length fil + 16) + 16) Y s str (?ys @ 0x0A # zs)" using R by (simp add: add.commute add.left_commute)
  ultimately obtain rest p s1 where e1: "ExtractToken Y str (lit_newline Y) s = Inr (rest, p, s1)" and t1: "text_at s1 p ?ys"
    and R1: "ready (b + length fil + 16) Y s1 rest zs" and z: "text_at s rest zs"
    and p: "used s \<le> unat p" "unat p + length ?ys < used s1" and g1: "grows s s1"
    using field_step [OF R' ready_literals(1) [OF R']] by blast
  have f: "length ?ys < symb_fuel Y" "length ?ys < 2 ^ 16" using R by (simp_all add: ready_def)
  have w: "cstr (mem s1) p ?ys" "unat p + length ?ys < 2 ^ 64" using t1 by (simp_all add: text_at_def)
  have len: "internal_strlen (symb_fuel Y) (mem s1) p = Inr (of_nat (length ?ys))" by (rule strlen_spec [OF w(1) f(1)])
  have "unat (of_nat (length ?ys) :: uptr) = length ?ys" by (rule unat_of_nat_small [OF order.strict_trans [OF f(2)]]) simp
  then have nz: "of_nat (length ?ys) \<noteq> (0 :: uptr)" by (metis length_0_conv append_is_Nil_conv list.distinct(1) unat_0)
  define m where "m = (mem s1)(p + of_nat (length (fil @ 0x3A # dec lin)) := 0, p + of_nat (length fil) := 0)"
  have tn: "take_numbers 2 Y p (p + of_nat (length ?ys) - 1) info (mem s1) =
      Inr (info\<lparr>ai_column := of_nat col, ai_line := of_nat lin\<rparr>, m)"
    unfolding m_def by (rule take_numbers_spec [OF w n]) (use f(1) in simp_all)
  define s2 where "s2 = s1\<lparr>mem := m\<rparr>"
  have u2: "used s2 = used s1" "lim s2 = lim s1" "persistent s2 = persistent s1" by (simp_all add: s2_def used_def lim_def)
  have l1: "lim s1 = lim s" "used s1 < lim s" using g1 R1 by (simp_all add: grows_def kept_def ready_def)
  have at: "unat (p + of_nat k) = unat p + k" if "k \<le> length ?ys" for k
    using w(2) that by (intro no_wrap_add [of p "Suc (length ?ys)"]) auto
  have g2: "grows s s2" unfolding s2_def
  proof (rule grows_write [OF g1])
    fix q :: uptr assume q: "\<not> (used s \<le> unat q \<and> unat q < lim s)"
    have "q \<noteq> p + of_nat k" if "k \<le> length ?ys" for k using at [OF that] that q p l1 by auto
    from this [of "length (fil @ 0x3A # dec lin)"] this [of "length fil"] show "m q = mem s1 q" by (simp add: m_def)
  qed
  have "cstr ((mem s1)(p + of_nat (length (fil @ 0x3A # dec lin)) := 0)) p (take (length (fil @ 0x3A # dec lin)) ?ys)"
    using w by (intro cstr_cut) simp_all
  then have "cstr m p (take (length fil) (fil @ 0x3A # dec lin))" unfolding m_def
    by (intro cstr_cut) (use w(2) in simp_all)
  then have t2: "text_at s2 p fil" using t1 p by (simp add: text_at_def s2_def used_def lim_def)
  have s2: "storage_ok s2" using R1 u2 by (simp add: ready_def storage_ok_def)
  have "literals Y s2" using R literals_kept [OF _ grows_kept [OF g2]] by (simp add: ready_def)
  then have l: "text_at s2 (lit_empty Y) []" "0 < symb_fuel Y" by (simp_all add: literals_def)
  note c = cost_le [of "Suc (length fil)"]
  have room: "used s2 + cost (Suc (length fil)) < lim s2" using R1 u2 c by (simp add: ready_def)
  have tok: "fil = takeWhile (\<lambda>x. x \<notin> set []) fil" by (simp add: takeWhile_eq_all_conv [THEN iffD2])
  obtain r3 q s3 where e3: "ExtractToken Y p (lit_empty Y) s2 = Inr (r3, q, s3)" and t3: "text_at s3 q fil"
    and g3: "grows s2 s3" "used s3 = used s2 + cost (Suc (length fil))" "storage_ok s3"
    using ExtractToken_spec [OF t2 l(1) _ _ tok _ s2 room, of Y] f l(2) by auto
  note g = grows_trans [OF g2 g3(1)]
  have "ready b Y s3 rest zs"
    using R R1 c g3 u2 l1(1) text_grows [OF z g] literals_kept [OF _ grows_kept [OF g], of Y] grows_fields(2) [OF g]
    by (simp add: ready_def)
  moreover have "ParseFileLineInfo Y info str s =
      Inr (rest, info\<lparr>ai_column := of_nat col, ai_line := of_nat lin, ai_file := q\<rparr>, s3)"
    using nz e3 unfolding ParseFileLineInfo_def e1 andThen_simps prod.case len tn s2_def
    using t1 by (simp add: text_at_def check_def free_unchecked_def CTPersistentAllocatorFree_def)
  ultimately show ?thesis using t3 g by blast
qed

section \<open>Frames\<close>

text \<open>A frame of an inlined call: function, file, line and column, as the process prints it.\<close>

type_synonym frame = "u8 list \<times> u8 list \<times> nat \<times> nat"

definition frame_text :: "frame \<Rightarrow> u8 list" where
  "frame_text = (\<lambda>(fn, fil, lin, col). fn @ 0x0A # fil @ 0x3A # dec lin @ 0x3A # dec col @ [0x0A])"

definition pc_answer :: "frame list \<Rightarrow> u8 list" where
  "pc_answer fs = concat (map frame_text fs) @ [0x0A]"

definition frame_ok :: "frame \<Rightarrow> bool" where
  "frame_ok = (\<lambda>(fn, fil, lin, col). fn \<noteq> [] \<and> 0x0A \<notin> set fn \<and> 0x0A \<notin> set fil \<and> lin < 2 ^ 31 \<and> col < 2 ^ 31)"

text \<open>The name \<open>xs\<close> at \<open>p\<close>; the name \<open>"??"\<close> is the null pointer.\<close>

definition name_at :: "'a pool_state_scheme \<Rightarrow> uptr \<Rightarrow> u8 list \<Rightarrow> bool" where
  "name_at s p xs \<longleftrightarrow> (if xs = [0x3F, 0x3F] then p = 0 else text_at s p xs)"

definition frame_at :: "'a pool_state_scheme \<Rightarrow> AddressInfo \<Rightarrow> frame \<Rightarrow> bool" where
  "frame_at s i = (\<lambda>(fn, fil, lin, col). name_at s (ai_function i) fn \<and> name_at s (ai_file i) fil \<and>
     sint (ai_line i) = int lin \<and> sint (ai_column i) = int col)"

text \<open>The list from node \<open>p\<close> holds the frames, all of the address and the module of \<open>i0\<close>.\<close>

fun frames_at :: "'a symb_state_scheme \<Rightarrow> AddressInfo \<Rightarrow> u8 list \<Rightarrow> uptr \<Rightarrow> frame list \<Rightarrow> bool" where
  "frames_at s i0 md p [] \<longleftrightarrow> p = 0"
| "frames_at s i0 md p (fr # fs) \<longleftrightarrow> p \<noteq> 0 \<and> (let i = ss_info (SS s p) in
     frame_at s i fr \<and> ai_address i = ai_address i0 \<and> text_at s (ai_module i) md \<and>
     ai_module_offset i = ai_module_offset i0 \<and> ai_module_arch i = ai_module_arch i0) \<and>
     frames_at s i0 md (ss_next (SS s p)) fs"

lemma name_kept: "name_at s p xs \<Longrightarrow> kept s s' \<Longrightarrow> name_at s' p xs"
  by (auto simp: name_at_def text_kept split: if_splits)

lemma frame_kept: "frame_at s i fr \<Longrightarrow> kept s s' \<Longrightarrow> frame_at s' i fr"
  by (auto simp: frame_at_def name_kept split: prod.splits)

lemma ready_kept:
  assumes "ready b Y s str xs" "kept s s'" "used s' = used s + k" "storage_ok s'" "k + b' \<le> b"
  shows "ready b' Y s' str xs"
  using assms text_kept [OF _ assms(2)] literals_kept [OF _ assms(2)] by (auto simp: ready_def kept_def)

lemma strdup_spec:
  assumes R: "ready (b + length md + 16) Y s str xs" and t: "text_at s p md" and f: "length md < symb_fuel Y" "length md < 2 ^ 16 - 1"
  shows "\<exists>q s'. internal_strdup (symb_fuel Y) p s = Inr (q, s') \<and> text_at s' q md \<and> ready b Y s' str xs \<and> grows s s'"
proof -
  have "internal_strlen (symb_fuel Y) (mem s) p = Inr (of_nat (length md))"
    by (rule strlen_spec [OF _ f(1)]) (use t in \<open>simp add: text_at_def\<close>)
  then have e: "internal_strdup (symb_fuel Y) p s = copy_prefix p (of_nat (length md)) s"
    by (simp add: internal_strdup_def copy_prefix_def Let_def)
  note c = cost_le [of "Suc (length md)"]
  have "used s + cost (Suc (length md)) < lim s" using R c by (simp add: ready_def)
  from copy_prefix_spec [OF t order_refl _ _ this] R f(2) obtain q s' where
    "copy_prefix p (of_nat (length md)) s = Inr (q, s')" "text_at s' q md" "grows s s'"
    "used s' = used s + cost (Suc (length md))" "storage_ok s'" by (auto simp: ready_def)
  then show ?thesis using e ready_kept [OF R grows_kept] c by auto
qed

lemma drop_unknown_spec:
  assumes "text_at s p xs" "literals Y s" "length xs < symb_fuel Y"
  shows "\<exists>q. drop_unknown Y p s = Inr (q, s) \<and> name_at s q xs"
proof -
  have "strcmp_from (symb_fuel Y) (mem s) p (lit_unknown Y) =
      Inr (if xs = [0x3F, 0x3F] then 0 else if ord_class.lexordp xs [0x3F, 0x3F] then -1 else 1)"
    by (rule strcmp_from_spec) (use assms in \<open>simp_all add: text_at_def literals_def\<close>)
  then show ?thesis using assms(1)
    by (auto simp: drop_unknown_def internal_strcmp_def free_unchecked_def CTPersistentAllocatorFree_def name_at_def)
qed

text \<open>The node of a further frame.\<close>

lemma next_frame_spec:
  assumes R: "ready (b + cost (unat (sizeof_SymbolizedStack Y)) + length md + 16) Y s str xs"
    and sz: "0 < unat (sizeof_SymbolizedStack Y)" "unat (sizeof_SymbolizedStack Y) \<le> 2 ^ 16"
    and i0: "i0 = ss_info (SS s rs)" "text_at s (ai_module i0) md" and f: "length md < symb_fuel Y" "length md < 2 ^ 16 - 1"
    and out: "\<not> (used s \<le> unat rs \<and> unat rs < lim s)" "\<not> (used s \<le> unat lst \<and> unat lst < lim s)"
  shows "\<exists>cur s' i. next_frame Y False rs lst s = Inr (cur, cur, s') \<and> used s \<le> unat cur \<and> unat cur < used s' \<and>
    kept s s' \<and> ready b Y s' str xs \<and> SS s' cur = \<lparr>ss_next = 0, ss_info = i\<rparr> \<and> ai_address i = ai_address i0 \<and>
    text_at s' (ai_module i) md \<and> ai_module_offset i = ai_module_offset i0 \<and> ai_module_arch i = ai_module_arch i0 \<and>
    (\<forall>q. q \<noteq> cur \<longrightarrow> SS s' q = (if q = lst then (SS s lst)\<lparr>ss_next := cur\<rparr> else SS s q))"
proof -
  let ?Z = "cost (unat (sizeof_SymbolizedStack Y))" and ?cur = "cur_loc (persistent s)"
  have ok: "storage_ok s" "used s + ?Z < lim s" using R by (simp_all add: ready_def)
  from allocate_step [OF ok(1) sz ok(2)] obtain s1 where
    a: "persistent_allocate (sizeof_SymbolizedStack Y) s = Inr (?cur, s1)" and g1: "grows s s1" "used s1 = used s + ?Z" "storage_ok s1"
    by blast
  obtain m1 pa1 where e1: "s1 = s\<lparr>mem := m1, persistent := pa1\<rparr>" using g1(1) unfolding grows_def by blast
  define n where "n = \<lparr>ss_next = 0, ss_info = (AddressInfo_new Y)\<lparr>ai_address := ai_address i0\<rparr>\<rparr>"
  define s2 where "s2 = s1\<lparr>SS := (SS s1)(?cur := n)\<rparr>"
  have k2: "kept s s2" "used s2 = used s + ?Z" "storage_ok s2"
    using g1 by (auto simp: s2_def grows_def kept_def used_def lim_def storage_ok_def)
  have R2: "ready (b + length md + 16) Y s2 str xs" by (rule ready_kept [OF R k2]) simp
  from strdup_spec [OF R2 text_kept [OF i0(2) k2(1)] f] obtain q s3 where
    d: "internal_strdup (symb_fuel Y) (ai_module i0) s2 = Inr (q, s3)" "text_at s3 q md" "ready b Y s3 str xs" and g3: "grows s2 s3"
    by blast
  obtain m3 pa3 where e3: "s3 = s2\<lparr>mem := m3, persistent := pa3\<rparr>" using g3 unfolding grows_def by blast
  have u: "unat ?cur = used s" by (simp add: used_def)
  have z: "0 < ?Z" using sz(1) by (simp add: cost_def)
  have ne: "rs \<noteq> ?cur" "lst \<noteq> ?cur" using out u ok(2) z by auto
  let ?i = "(ss_info n)\<lparr>ai_module := q, ai_module_offset := ai_module_offset i0, ai_module_arch := ai_module_arch i0, ai_uuid_size := 0\<rparr>"
  let ?s = "set_next lst ?cur (set_info ?cur ?i s3)"
  have same: "mem ?s = mem s3" "used ?s = used s3" "lim ?s = lim s3" "persistent ?s = persistent s3"
    by (simp_all add: set_next_def set_info_def used_def lim_def)
  have k: "kept s3 ?s" using same by (simp add: kept_def)
  have SS: "SS ?s q = (if q = lst then (SS s lst)\<lparr>ss_next := ?cur\<rparr> else if q = ?cur then n\<lparr>ss_info := ?i\<rparr> else SS s q)" for q
    using ne by (auto simp: set_next_def set_info_def e3 s2_def e1)
  have "next_frame Y False rs lst s = Inr (?cur, ?cur, ?s)"
    using d(1) ne by (simp add: next_frame_def SymbolizedStack_New_def a FillModuleInfo_def Let_def i0(1) [symmetric]
      s2_def [symmetric] n_def [symmetric]) (simp add: e3 s2_def e1 i0(1))
  moreover have "ready b Y ?s str xs"
    by (rule ready_kept [OF d(3) k, of 0]) (use d(3) same in \<open>simp_all add: ready_def storage_ok_def\<close>)
  moreover have "kept s ?s" by (rule kept_trans [OF k2(1) kept_trans [OF grows_kept [OF g3] k]])
  moreover have "unat ?cur < used ?s" using u z k2(2) g3 same by (simp add: grows_def kept_def)
  moreover have "text_at ?s q md" by (rule text_kept [OF d(2) k])
  ultimately show ?thesis using SS ne u
    by (intro exI [of _ ?cur] exI [of _ ?s] exI [of _ ?i]) (simp add: n_def)
qed

text \<open>The storage the list of a list of frames takes beside a copy of what was printed.\<close>

definition frame_room :: "symb_env \<Rightarrow> u8 list \<Rightarrow> frame \<Rightarrow> nat" where
  "frame_room Y md = (\<lambda>(fn, fil, lin, col). cost (unat (sizeof_SymbolizedStack Y)) + length md + length fil + 64)"

definition frames_room :: "symb_env \<Rightarrow> u8 list \<Rightarrow> frame list \<Rightarrow> nat" where
  "frames_room Y md fs = sum_list (map (frame_room Y md) fs) + 16"

lemma pc_answer_simps [simp]:
  "pc_answer [] = [0x0A]"
  "pc_answer ((fn, fil, lin, col) # fs) = fn @ 0x0A # fil @ 0x3A # dec lin @ 0x3A # dec col @ 0x0A # pc_answer fs"
  by (simp_all add: pc_answer_def frame_text_def)

lemma frames_room_simps [simp]:
  "frames_room Y md [] = 16"
  "frames_room Y md ((fn, fil, lin, col) # fs) =
     cost (unat (sizeof_SymbolizedStack Y)) + length md + length fil + 64 + frames_room Y md fs"
  by (simp_all add: frames_room_def frame_room_def)

definition finish_frame ::
    "symb_env \<Rightarrow> (uptr \<Rightarrow> AddressInfo \<Rightarrow> 'a symb_state_scheme \<Rightarrow> 'a symb_state_scheme res) \<Rightarrow> AddressInfo \<Rightarrow> uptr \<Rightarrow>
     'a symb_state_scheme \<Rightarrow> 'a symb_state_scheme res" where
  "finish_frame Y K info str s =
     andThen (ParseFileLineInfo Y info str s) (\<lambda>(str, info, s).
     andThen (drop_unknown Y (ai_function info) s) (\<lambda>(f, s).
     let info = info\<lparr>ai_function := f\<rparr> in
     andThen (if ai_file info \<noteq> 0 then drop_unknown Y (ai_file info) s else Inr (ai_file info, s)) (\<lambda>(f, s).
     K str (info\<lparr>ai_file := f\<rparr>) s)))"

lemma finish_frame_spec:
  assumes R: "ready (b + length fil + 32) Y s str (fil @ 0x3A # dec lin @ 0x3A # dec col @ 0x0A # zs)"
    and ok: "frame_ok (fn, fil, lin, col)" and fp: "text_at s fp fn" "length fn < symb_fuel Y"
  shows "\<exists>rest i' s'. (\<forall>K. finish_frame Y K (i\<lparr>ai_function := fp\<rparr>) str s = K rest i' s') \<and> frame_at s' i' (fn, fil, lin, col) \<and>
    ai_address i' = ai_address i \<and> ai_module i' = ai_module i \<and> ai_module_offset i' = ai_module_offset i \<and>
    ai_module_arch i' = ai_module_arch i \<and> ready b Y s' rest zs \<and> grows s s'"
proof -
  have o: "0x0A \<notin> set fil" "lin < 2 ^ 63" "col < 2 ^ 63" "lin < 2 ^ 31" "col < 2 ^ 31" using ok by (simp_all add: frame_ok_def)
  from ParseFileLineInfo_spec [OF R o(1-3), of "i\<lparr>ai_function := fp\<rparr>"] obtain rest p s' where
    e: "ParseFileLineInfo Y (i\<lparr>ai_function := fp\<rparr>) str s =
      Inr (rest, i\<lparr>ai_function := fp, ai_column := of_nat col, ai_line := of_nat lin, ai_file := p\<rparr>, s')"
    and p: "text_at s' p fil" and r: "ready b Y s' rest zs" "grows s s'" by auto
  have L: "literals Y s'" and f: "length fil < symb_fuel Y" using r(1) R by (simp_all add: ready_def)
  obtain q where q: "drop_unknown Y fp s' = Inr (q, s')" "name_at s' q fn"
    using drop_unknown_spec [OF text_grows [OF fp(1) r(2)] L fp(2)] by blast
  obtain q' where q': "drop_unknown Y p s' = Inr (q', s')" "name_at s' q' fil"
    using drop_unknown_spec [OF p L f] by blast
  have "sint (of_nat k :: s32) = int k" if "k < 2 ^ 31" for k
    using that by (simp add: signed_of_nat signed_take_bit_eq_if_positive bit_iff_odd take_bit_int_eq_self)
  then have "frame_at s' (i\<lparr>ai_column := of_nat col, ai_line := of_nat lin, ai_function := q, ai_file := q'\<rparr>) (fn, fil, lin, col)"
    using q(2) q'(2) o by (simp add: frame_at_def)
  moreover have "finish_frame Y K (i\<lparr>ai_function := fp\<rparr>) str s =
      K rest (i\<lparr>ai_column := of_nat col, ai_line := of_nat lin, ai_function := q, ai_file := q'\<rparr>) s'" for K
    using p by (simp add: finish_frame_def e q(1) q'(1) text_at_def Let_def)
  ultimately show ?thesis using r
    by (intro exI [of _ rest] exI [of _ "i\<lparr>ai_column := of_nat col, ai_line := of_nat lin, ai_function := q, ai_file := q'\<rparr>"] exI [of _ s']) simp
qed

text \<open>The function name begins a frame; an empty one ends the answer.\<close>

lemma pc_frames_open:
  assumes R: "ready (b + 16) Y s str (fn @ 0x0A # zs)" and fn: "fn \<noteq> []" "0x0A \<notin> set fn"
  shows "\<exists>rest fp s'. pc_frames (Suc n) Y tf rs lst str s = andThen (next_frame Y tf rs lst s') (\<lambda>(cur, lst, s).
      finish_frame Y (\<lambda>str i s. pc_frames n Y False rs lst str (set_info cur i s)) ((ss_info (SS s cur))\<lparr>ai_function := fp\<rparr>) rest s) \<and>
    text_at s' fp fn \<and> ready b Y s' rest zs \<and> grows s s'"
proof -
  from field_step [OF R ready_literals(1) [OF R] fn(2)] obtain rest fp s' where
    e: "ExtractToken Y str (lit_newline Y) s = Inr (rest, fp, s')" and t: "text_at s' fp fn" "ready b Y s' rest zs" "grows s s'"
    by blast
  have "mem s' fp \<noteq> 0" using t(1) fn(1) by (cases fn) (auto simp: text_at_def)
  moreover have "check (fp \<noteq> 0) = Inr ()" using t(1) by (simp add: check_def text_at_def)
  ultimately have "pc_frames (Suc n) Y tf rs lst str s = andThen (next_frame Y tf rs lst s') (\<lambda>(cur, lst, s).
      finish_frame Y (\<lambda>str i s. pc_frames n Y False rs lst str (set_info cur i s)) ((ss_info (SS s cur))\<lparr>ai_function := fp\<rparr>) rest s)"
    by (simp add: e finish_frame_def Let_def)
  then show ?thesis using t by blast
qed

lemma pc_frames_end:
  assumes "ready 16 Y s str [0x0A]"
  shows "\<exists>s'. pc_frames (Suc n) Y tf rs lst str s = Inr s' \<and> grows s s'"
proof -
  have R: "ready (0 + 16) Y s str ([] @ 0x0A # [])" using assms by simp
  from field_step [OF R ready_literals(1) [OF R]] obtain rest fp s' where
    e: "ExtractToken Y str (lit_newline Y) s = Inr (rest, fp, s')" and t: "text_at s' fp []" "grows s s'" by auto
  then show ?thesis by (auto simp: text_at_def check_def free_unchecked_def CTPersistentAllocatorFree_def)
qed

lemma set_info_fields [simp]:
  "used (set_info p i s) = used s" "lim (set_info p i s) = lim s" "mem (set_info p i s) = mem s"
  "SS (set_info p i s) q = (if q = p then (SS s p)\<lparr>ss_info := i\<rparr> else SS s q)"
  by (simp_all add: set_info_def used_def lim_def)

lemma set_info_kept [simp]: "kept s (set_info p i s) \<longleftrightarrow> True" "kept t (set_info p i s) \<longleftrightarrow> kept t s"
  by (simp_all add: kept_def)

lemma set_info_ready [simp]: "ready b Y (set_info p i s) str xs \<longleftrightarrow> ready b Y s str xs"
  by (simp add: ready_def literals_def text_at_def storage_ok_def)

lemma frame_set_info [simp]: "frame_at (set_info p i s) j fr \<longleftrightarrow> frame_at s j fr"
  by (cases fr) (simp add: frame_at_def name_at_def text_at_def)

lemma grows_SS: "grows s t \<Longrightarrow> SS t = SS s"
  by (auto simp: grows_def)

text \<open>A further frame gets a node behind the last one, \<open>lst\<close>.\<close>

lemma pc_frames_step:
  assumes R: "ready (frames_room Y md ((fn, fil, lin, col) # fs)) Y s str (pc_answer ((fn, fil, lin, col) # fs))"
    and ok: "frame_ok (fn, fil, lin, col)"
    and sz: "0 < unat (sizeof_SymbolizedStack Y)" "unat (sizeof_SymbolizedStack Y) \<le> 2 ^ 16"
    and i0: "ss_info (SS s rs) = i0" "text_at s (ai_module i0) md" and f: "length md < symb_fuel Y" "length md < 2 ^ 16 - 1"
    and out: "\<not> (used s \<le> unat rs \<and> unat rs < lim s)" "\<not> (used s \<le> unat lst \<and> unat lst < lim s)"
  shows "\<exists>cur rest i s'. pc_frames (Suc n) Y False rs lst str s = pc_frames n Y False rs cur rest s' \<and>
    kept s s' \<and> ready (frames_room Y md fs) Y s' rest (pc_answer fs) \<and> used s \<le> unat cur \<and> unat cur < used s' \<and>
    SS s' cur = \<lparr>ss_next = 0, ss_info = i\<rparr> \<and> frame_at s' i (fn, fil, lin, col) \<and> ai_address i = ai_address i0 \<and>
    text_at s' (ai_module i) md \<and> ai_module_offset i = ai_module_offset i0 \<and> ai_module_arch i = ai_module_arch i0 \<and>
    (\<forall>q. q \<noteq> cur \<longrightarrow> SS s' q = (if q = lst then (SS s lst)\<lparr>ss_next := cur\<rparr> else SS s q))"
proof -
  let ?Z = "cost (unat (sizeof_SymbolizedStack Y))" and ?r = "frames_room Y md fs"
  let ?zs = "fil @ 0x3A # dec lin @ 0x3A # dec col @ 0x0A # pc_answer fs"
  have fn: "fn \<noteq> []" "0x0A \<notin> set fn" using ok by (auto simp: frame_ok_def)
  have "ready (((?r + length fil + 32) + ?Z + length md + 16) + 16) Y s str (fn @ 0x0A # ?zs)"
    using R by (simp add: ac_simps)
  from pc_frames_open [OF this fn, of n False rs lst] obtain r1 fp s1 where
    1: "pc_frames (Suc n) Y False rs lst str s = andThen (next_frame Y False rs lst s1) (\<lambda>(cur, lst, s).
      finish_frame Y (\<lambda>str i s. pc_frames n Y False rs lst str (set_info cur i s)) ((ss_info (SS s cur))\<lparr>ai_function := fp\<rparr>) r1 s)"
    "text_at s1 fp fn" "ready ((?r + length fil + 32) + ?Z + length md + 16) Y s1 r1 ?zs" "grows s s1"
    by blast
  note u1 = grows_fields(1,2) [OF 1(4)] and S1 = grows_SS [OF 1(4)]
  have out1: "\<not> (used s1 \<le> unat rs \<and> unat rs < lim s1)" "\<not> (used s1 \<le> unat lst \<and> unat lst < lim s1)"
    using out u1 by auto
  have i1: "i0 = ss_info (SS s1 rs)" "text_at s1 (ai_module i0) md" using i0 S1 text_grows [OF _ 1(4)] by simp_all
  from next_frame_spec [OF 1(3) sz i1 f out1] obtain cur s2 i where
    2: "next_frame Y False rs lst s1 = Inr (cur, cur, s2)" "used s1 \<le> unat cur" "unat cur < used s2" "kept s1 s2"
      "ready (?r + length fil + 32) Y s2 r1 ?zs" "SS s2 cur = \<lparr>ss_next = 0, ss_info = i\<rparr>"
    and i: "ai_address i = ai_address i0" "text_at s2 (ai_module i) md" "ai_module_offset i = ai_module_offset i0"
      "ai_module_arch i = ai_module_arch i0"
    and S2: "\<And>q. q \<noteq> cur \<Longrightarrow> SS s2 q = (if q = lst then (SS s1 lst)\<lparr>ss_next := cur\<rparr> else SS s1 q)" by blast
  have fl: "length fn < symb_fuel Y" using R by (simp add: ready_def)
  from finish_frame_spec [OF 2(5) ok text_kept [OF 1(2) 2(4)] fl, of i] obtain r3 i' s3 where
    3: "\<And>K. finish_frame Y K (i\<lparr>ai_function := fp\<rparr>) r1 s2 = K r3 i' s3" "frame_at s3 i' (fn, fil, lin, col)"
      "ai_address i' = ai_address i" "ai_module i' = ai_module i" "ai_module_offset i' = ai_module_offset i"
      "ai_module_arch i' = ai_module_arch i" "ready ?r Y s3 r3 (pc_answer fs)" "grows s2 s3" by blast
  let ?s = "set_info cur i' s3"
  note S3 = grows_SS [OF 3(8)] and u3 = grows_fields(1,2) [OF 3(8)]
  have "kept s ?s" using kept_trans [OF grows_kept [OF 1(4)] kept_trans [OF 2(4) grows_kept [OF 3(8)]]] by simp
  moreover have "pc_frames (Suc n) Y False rs lst str s = pc_frames n Y False rs cur r3 ?s"
    by (simp only: 1(1) 2(1,6) 3(1) andThen_simps prod.case SymbolizedStack.select_convs)
  moreover have "text_at ?s (ai_module i') md"
    using text_grows [OF i(2) 3(8)] 3(4) by (simp add: text_at_def)
  ultimately show ?thesis using 2(2,3,6) u1 u3 3(2-7) i S1 S2 S3
    by (intro exI [of _ cur] exI [of _ r3] exI [of _ i'] exI [of _ ?s]) simp
qed

text \<open>The nodes the parser adds behind the last one, for the frames \<open>fs\<close>.\<close>

lemma pc_frames_rest:
  assumes "length fs < n" "\<forall>fr \<in> set fs. frame_ok fr" "ready (frames_room Y md fs) Y s str (pc_answer fs)"
    and sz: "0 < unat (sizeof_SymbolizedStack Y)" "unat (sizeof_SymbolizedStack Y) \<le> 2 ^ 16"
    and "ss_info (SS s rs) = i0" "text_at s (ai_module i0) md" and f: "length md < symb_fuel Y" "length md < 2 ^ 16 - 1"
    and "\<not> (used s \<le> unat rs \<and> unat rs < lim s)" "\<not> (used s \<le> unat lst \<and> unat lst < lim s)" "ss_next (SS s lst) = 0"
  shows "\<exists>s'. pc_frames n Y False rs lst str s = Inr s' \<and> kept s s' \<and> frames_at s' i0 md (ss_next (SS s' lst)) fs \<and>
    ss_info (SS s' lst) = ss_info (SS s lst) \<and>
    (\<forall>q. \<not> (used s \<le> unat q \<and> unat q < lim s) \<and> q \<noteq> lst \<longrightarrow> SS s' q = SS s q)"
  using assms(1-3,6,7,10-)
proof (induction fs arbitrary: n s str lst)
  case Nil
  then obtain m where n: "n = Suc m" by (cases n) auto
  have "ready 16 Y s str [0x0A]" using Nil.prems(3) by simp
  from pc_frames_end [OF this, of m False rs lst] n obtain s' where
    "pc_frames n Y False rs lst str s = Inr s'" "grows s s'" by blast
  then show ?case using Nil.prems grows_SS [of s s'] grows_kept by auto
next
  case (Cons fr fs)
  obtain fn fil lin col where fr: "fr = (fn, fil, lin, col)" by (cases fr) auto
  obtain m where n: "n = Suc m" "length fs < m" using Cons.prems(1) by (cases n) auto
  have ok: "frame_ok (fn, fil, lin, col)" using Cons.prems(2) fr by simp
  from pc_frames_step [OF Cons.prems(3) [unfolded fr] ok sz Cons.prems(4,5) f Cons.prems(6,7), of m] n(1)
  obtain cur rest i t where
    1: "pc_frames n Y False rs lst str s = pc_frames m Y False rs cur rest t" "kept s t"
      "ready (frames_room Y md fs) Y t rest (pc_answer fs)" "used s \<le> unat cur" "unat cur < used t"
      "SS t cur = \<lparr>ss_next = 0, ss_info = i\<rparr>" "frame_at t i (fn, fil, lin, col)"
    and i: "ai_address i = ai_address i0" "text_at t (ai_module i) md" "ai_module_offset i = ai_module_offset i0"
      "ai_module_arch i = ai_module_arch i0"
    and S: "\<And>q. q \<noteq> cur \<Longrightarrow> SS t q = (if q = lst then (SS s lst)\<lparr>ss_next := cur\<rparr> else SS s q)" by blast
  have u: "used s \<le> used t" "lim t = lim s" "used t < lim s" "0 < used s"
    using 1(2,3) Cons.prems(3) by (auto simp: kept_def ready_def storage_ok_def)
  have ne: "q \<noteq> cur" if "\<not> (used s \<le> unat q \<and> unat q < lim s)" for q using that 1(4,5) u by auto
  have "\<exists>s'. pc_frames m Y False rs cur rest t = Inr s' \<and> kept t s' \<and> frames_at s' i0 md (ss_next (SS s' cur)) fs \<and>
    ss_info (SS s' cur) = ss_info (SS t cur) \<and>
    (\<forall>q. \<not> (used t \<le> unat q \<and> unat q < lim t) \<and> q \<noteq> cur \<longrightarrow> SS s' q = SS t q)"
  proof (rule Cons.IH [OF n(2) _ 1(3)])
    show "\<forall>fr \<in> set fs. frame_ok fr" using Cons.prems(2) by simp
    show "ss_info (SS t rs) = i0" using S [of rs] ne [OF Cons.prems(6)] Cons.prems(4) by auto
    show "text_at t (ai_module i0) md" by (rule text_kept [OF Cons.prems(5) 1(2)])
  qed (use Cons.prems(6) u 1(5,6) in auto)
  then obtain s' where 2: "pc_frames m Y False rs cur rest t = Inr s'" "kept t s'" "frames_at s' i0 md (ss_next (SS s' cur)) fs"
    "ss_info (SS s' cur) = i" "\<And>q. \<not> (used t \<le> unat q \<and> unat q < lim t) \<Longrightarrow> q \<noteq> cur \<Longrightarrow> SS s' q = SS t q"
    using 1(6) by auto
  have "SS s' lst = (SS s lst)\<lparr>ss_next := cur\<rparr>" using 2(5) [of lst] ne Cons.prems(7) S [of lst] u by auto
  moreover have "frames_at s' i0 md cur (fr # fs)"
    using 1(4,7) 2(2-4) i frame_kept [of t i fr s'] text_kept [OF i(2) 2(2)] u fr by (auto simp: Let_def)
  moreover have "SS s' q = SS s q" if "\<not> (used s \<le> unat q \<and> unat q < lim s)" "q \<noteq> lst" for q
    using 2(5) [of q] ne that S [of q] u by auto
  ultimately show ?case using kept_trans [OF 1(2) 2(2)] 1(1) 2(1) by auto
qed

lemma ready_less: "ready b Y s str xs \<Longrightarrow> b' \<le> b \<Longrightarrow> ready b' Y s str xs"
  by (auto simp: ready_def)

lemma length_pc_answer: "length fs < length (pc_answer fs)"
  by (induction fs) (auto simp: pc_answer_def frame_text_def)

text \<open>
  C25. What \<open>llvm-symbolizer\<close> prints for an address is parsed back: the list that begins with the
  caller's node holds exactly the frames printed, in their order, each with its function, file, line
  and column, an unknown name as the null pointer, and the address and module of the first node.
\<close>

theorem pc_answer_parses:
  assumes fs: "fs \<noteq> []" "\<forall>fr \<in> set fs. frame_ok fr" and R: "ready (frames_room Y md fs) Y s str (pc_answer fs)"
    and sz: "0 < unat (sizeof_SymbolizedStack Y)" "unat (sizeof_SymbolizedStack Y) \<le> 2 ^ 16"
    and i0: "ss_info (SS s rs) = i0" "text_at s (ai_module i0) md" and f: "length md < symb_fuel Y" "length md < 2 ^ 16 - 1"
    and rs: "\<not> (used s \<le> unat rs \<and> unat rs < lim s)" "rs \<noteq> 0" "ss_next (SS s rs) = 0"
  shows "\<exists>s'. ParseSymbolizePCOutput Y str rs s = Inr s' \<and> frames_at s' i0 md rs fs"
proof -
  obtain fn fil lin col gs where fr: "fs = (fn, fil, lin, col) # gs" using fs(1) by (cases fs) auto
  have "length fs < symb_fuel Y" using length_pc_answer [of fs] R by (simp add: ready_def)
  then obtain m where m: "symb_fuel Y = Suc m" "length gs < m" using fr by (cases "symb_fuel Y") auto
  have ok: "frame_ok (fn, fil, lin, col)" "fn \<noteq> []" "0x0A \<notin> set fn" using fs(2) fr by (auto simp: frame_ok_def)
  let ?r = "frames_room Y md gs" and ?zs = "fil @ 0x3A # dec lin @ 0x3A # dec col @ 0x0A # pc_answer gs"
  have "ready ((?r + length fil + 32) + 16) Y s str (fn @ 0x0A # ?zs)" using R fr by (auto elim: ready_less)
  from pc_frames_open [OF this ok(2,3), of m True rs rs] obtain r1 fp s1 where
    1: "pc_frames (Suc m) Y True rs rs str s = finish_frame Y (\<lambda>str i s. pc_frames m Y False rs rs str (set_info rs i s))
      ((ss_info (SS s1 rs))\<lparr>ai_function := fp\<rparr>) r1 s1"
    "text_at s1 fp fn" "ready (?r + length fil + 32) Y s1 r1 ?zs" "grows s s1"
    by (auto simp: next_frame_def)
  have "length fn < symb_fuel Y" using R fr by (simp add: ready_def)
  from finish_frame_spec [OF 1(3) ok(1) 1(2) this, of i0] obtain r2 i s2 where
    2: "\<And>K. finish_frame Y K (i0\<lparr>ai_function := fp\<rparr>) r1 s1 = K r2 i s2" "frame_at s2 i (fn, fil, lin, col)"
      "ai_address i = ai_address i0" "ai_module i = ai_module i0" "ai_module_offset i = ai_module_offset i0"
      "ai_module_arch i = ai_module_arch i0" "ready ?r Y s2 r2 (pc_answer gs)" "grows s1 s2" by blast
  let ?s = "set_info rs i s2"
  note g = grows_trans [OF 1(4) 2(8)]
  have S: "SS s1 = SS s" "SS s2 = SS s" using grows_SS [OF 1(4)] grows_SS [OF g] by simp_all
  have md: "text_at ?s (ai_module i) md" using text_grows [OF i0(2) g] 2(4) by (simp add: text_at_def)
  have out: "\<not> (used ?s \<le> unat rs \<and> unat rs < lim ?s)" using rs(1) grows_fields(1,2) [OF g] by auto
  have "ready ?r Y ?s r2 (pc_answer gs)" "ss_info (SS ?s rs) = i" "ss_next (SS ?s rs) = 0" "\<forall>fr \<in> set gs. frame_ok fr"
    using 2(7) S rs(3) fs(2) fr by simp_all
  from pc_frames_rest [OF m(2) this(4,1) sz this(2) md f out out this(3)] obtain s' where
    3: "pc_frames m Y False rs rs r2 ?s = Inr s'" "kept ?s s'" "frames_at s' i md (ss_next (SS s' rs)) gs"
      "ss_info (SS s' rs) = i" using S by auto
  have "frames_at s' i md p gs = frames_at s' i0 md p gs" for p
    using 2(3,5,6) by (induction gs arbitrary: p) (simp_all add: Let_def)
  then have "frames_at s' i0 md rs fs"
    using 3(3,4) 2(2-6) rs(2) fr frame_kept [OF _ 3(2), of i "(fn, fil, lin, col)"] text_kept [OF md 3(2)]
    by (simp add: Let_def)
  then show ?thesis using 1(1) 2(1) 3(1) i0(1) S m(1) by (simp add: ParseSymbolizePCOutput_def)
qed

text \<open>An instance: the answer, the literals and the module name in a row from 0x1000 on.\<close>

definition sample_symb_env :: symb_env where
  "sample_symb_env = \<lparr> lit_newline = 0x1019, lit_space = 0x101B, lit_colon = 0x101D, lit_empty = 0x1018, lit_unknown = 0x101F,
     sizeof_SymbolizedStack = 144, kUnknown = -1, intercept_dlopen_dlclose = False, kMaxTimesRestarted = 5,
     kBufferSize = 16384, symb_fuel = 1000 \<rparr>"

definition sample_pc :: "u8 list" where
  "sample_pc = [0x66, 0x0A, 0x3F, 0x3F, 0x3A, 0x30, 0x3A, 0x30, 0x0A,
     0x67, 0x0A, 0x61, 0x2E, 0x63, 0x3A, 0x31, 0x32, 0x3A, 0x37, 0x0A, 0x0A]"

definition sample_data :: "u8 list" where
  "sample_data = [0x67, 0x0A, 0x31, 0x32, 0x20, 0x37, 0x0A, 0x61, 0x3A, 0x37, 0x0A, 0, 0, 0, 0, 0, 0, 0, 0, 0, 0]"

definition sample_lits :: "u8 list" where
  "sample_lits = [0, 0, 0, 0, 0x0A, 0, 0x20, 0, 0x3A, 0, 0x3F, 0x3F, 0, 0x6D, 0]"

definition sample_node :: SymbolizedStack where
  "sample_node = \<lparr>ss_next = 0, ss_info = (AddressInfo_new sample_symb_env)\<lparr>ai_address := 0x400010, ai_module := 0x1022\<rparr>\<rparr>"

definition sample_symb :: "u8 list \<Rightarrow> symb_state \<Rightarrow> symb_state" where
  "sample_symb xs s = s\<lparr>mem := (\<lambda>q. if unat (q - 0x1000) < 36 then (xs @ sample_lits) ! unat (q - 0x1000) else 0),
     persistent := \<lparr>base_addr = 0x100000, cur_loc = 0x100000, last_loc = 0, end_addr = 0x200000\<rparr>,
     SS := (\<lambda>_. sample_node)\<rparr>"

definition sample_frames :: "frame list" where
  "sample_frames = [([0x66], [0x3F, 0x3F], 0, 0), ([0x67], [0x61, 0x2E, 0x63], 12, 7)]"

lemma dec_samples: "dec 0 = [0x30]" "dec (Suc 0) = [0x31]" "dec 7 = [0x37]" "dec 12 = [0x31, 0x32]"
  by (simp_all add: dec.simps [of 0] dec.simps [of "Suc 0"] dec.simps [of 7] dec.simps [of 12])

lemma sample_answer: "pc_answer sample_frames = sample_pc"
  by (simp add: sample_frames_def sample_pc_def dec_samples)

lemma sample_used: "used (sample_symb xs s) = 0x100000" "lim (sample_symb xs s) = 0x200000"
  by (simp_all add: sample_symb_def used_def lim_def)

lemma sample_literals:
  assumes "xs = sample_pc \<or> xs = sample_data"
  shows "literals sample_symb_env (sample_symb xs s)"
  using assms
proof
  assume "xs = sample_pc"
  then show ?thesis
    by (simp add: literals_def text_at_def sample_used sample_symb_env_def) (simp add: sample_symb_def sample_pc_def sample_lits_def)
next
  assume "xs = sample_data"
  then show ?thesis
    by (simp add: literals_def text_at_def sample_used sample_symb_env_def) (simp add: sample_symb_def sample_data_def sample_lits_def)
qed

theorem pc_answer_parses_witness:
  "\<forall>s0. \<exists>s'. ParseSymbolizePCOutput sample_symb_env 0x1000 0x3000 (sample_symb sample_pc s0) = Inr s' \<and>
     frames_at s' (ss_info sample_node) [0x6D] 0x3000 sample_frames"
proof
  fix s0
  let ?s = "sample_symb sample_pc s0"
  have t: "text_at ?s 0x1000 (pc_answer sample_frames)" "text_at ?s 0x1022 [0x6D]"
    by (simp_all add: text_at_def sample_used sample_answer sample_pc_def) (simp_all add: sample_symb_def sample_lits_def)
  have len: "length (pc_answer sample_frames) = 21" by (simp add: sample_answer sample_pc_def)
  have room: "frames_room sample_symb_env [0x6D] sample_frames = 439"
    by (simp add: sample_frames_def frames_room_def frame_room_def cost_def sample_symb_env_def)
  have R: "ready (frames_room sample_symb_env [0x6D] sample_frames) sample_symb_env ?s 0x1000 (pc_answer sample_frames)"
    unfolding ready_def len room using t sample_literals by (simp add: storage_ok_def sample_used sample_symb_env_def)
  have f: "sample_frames \<noteq> []" "\<forall>fr \<in> set sample_frames. frame_ok fr" by (simp_all add: sample_frames_def frame_ok_def)
  have n: "ss_info (SS ?s 0x3000) = ss_info sample_node" "ss_next (SS ?s 0x3000) = 0" "ai_module (ss_info sample_node) = 0x1022"
    by (simp_all add: sample_symb_def sample_node_def)
  have e: "0 < unat (sizeof_SymbolizedStack sample_symb_env)" "unat (sizeof_SymbolizedStack sample_symb_env) \<le> 2 ^ 16"
    "length [0x6D :: u8] < symb_fuel sample_symb_env" "length [0x6D :: u8] < 2 ^ 16 - 1"
    by (simp_all add: sample_symb_env_def)
  show "\<exists>s'. ParseSymbolizePCOutput sample_symb_env 0x1000 0x3000 ?s = Inr s' \<and>
     frames_at s' (ss_info sample_node) [0x6D] 0x3000 sample_frames"
    by (rule pc_answer_parses [OF f R e(1,2) n(1) _ e(3,4) _ _ n(2)]) (use t n in \<open>simp_all add: sample_used\<close>)
qed


end
